(* ===== verification/Prelude.thy ===== *)
theory Prelude
  imports "HOL-Library.Word" "HOL-Library.Monad_Syntax"
begin

unbundle bit_operations_syntax

text \<open>
  Shared vocabulary of the development. Byte strings are lists of 8-bit words; a Go function that
  returns a value and an error, or panics, returns a \<open>res\<close>. Signed and unsigned fixed-width
  integers of the arithmetic code are mathematical integers with the wrap-around written out by the
  conversion functions \<open>int16\<close>, \<open>int32\<close>, \<open>uint16\<close>, \<open>uint32\<close>, \<open>uint64\<close>, which read like Go's
  conversions. In the text of an error, arguments that Go formats in (numbers) are left out. The big-endian digit lists \<open>be\<close> and \<open>unbe\<close> and their lemmas serve every wire format.
\<close>

section \<open>Types\<close>

type_synonym byte = "8 word"
type_synonym bytes = "byte list"
type_synonym u8 = "8 word"
type_synonym u16 = "16 word"
type_synonym u32 = "32 word"

text \<open>The outcome of a Go call: a value with a nil error, an error with its text, or a panic.\<close>

datatype 'a res = Ok 'a | Err string | Panic string

primrec bind_res :: "'a res \<Rightarrow> ('a \<Rightarrow> 'b res) \<Rightarrow> 'b res" where
  "bind_res (Ok x) f = f x"
| "bind_res (Err e) f = Err e"
| "bind_res (Panic p) f = Panic p"

primrec is_panic :: "'a res \<Rightarrow> bool" where
  "is_panic (Ok x) = False"
| "is_panic (Err e) = False"
| "is_panic (Panic p) = True"

definition res_of_option :: "string \<Rightarrow> 'a option \<Rightarrow> 'a res" where
  "res_of_option e r = (case r of None \<Rightarrow> Err e | Some x \<Rightarrow> Ok x)"

lemma bind_res_eq_Ok: "bind_res r f = Ok y \<longleftrightarrow> (\<exists>x. r = Ok x \<and> f x = Ok y)"
  by (cases r) auto

lemma bind_res_eq_Panic:
  "bind_res r f = Panic p \<longleftrightarrow> r = Panic p \<or> (\<exists>x. r = Ok x \<and> f x = Panic p)"
  by (cases r) auto

lemma res_of_option_simps [simp]:
  "res_of_option e None = Err e" "res_of_option e (Some x) = Ok x"
  by (simp_all add: res_of_option_def)

lemma res_of_option_eq_Ok [simp]: "res_of_option e r = Ok x \<longleftrightarrow> r = Some x"
  by (cases r) auto

lemma res_of_option_not_Panic [simp]: "res_of_option e r \<noteq> Panic p"
  by (cases r) auto

section \<open>Alerts\<close>

definition alertInternalError :: u8 where "alertInternalError = 80"
definition alertIllegalParameter :: u8 where "alertIllegalParameter = 47"

section \<open>Collections of rewrite and introduction rules\<close>

named_theorems wire_simps \<open>reading back what was written\<close>
named_theorems wire_dest \<open>what a successful read says about its input\<close>
named_theorems builder_intros \<open>what a builder program appends\<close>
named_theorems builder_writes \<open>what a builder program that succeeds has written\<close>
named_theorems fixwidth_simps \<open>conversions that keep their argument\<close>

section \<open>Fixed-width integers with explicit wrap-around\<close>

definition int8 :: "int \<Rightarrow> int" where
  "int8 x = (x + 2 ^ 7) mod 2 ^ 8 - 2 ^ 7"

definition int16 :: "int \<Rightarrow> int" where
  "int16 x = (x + 2 ^ 15) mod 2 ^ 16 - 2 ^ 15"

definition int32 :: "int \<Rightarrow> int" where
  "int32 x = (x + 2 ^ 31) mod 2 ^ 32 - 2 ^ 31"

definition int64 :: "int \<Rightarrow> int" where
  "int64 x = (x + 2 ^ 63) mod 2 ^ 64 - 2 ^ 63"

definition uint8 :: "int \<Rightarrow> int" where
  "uint8 x = x mod 2 ^ 8"

definition uint16 :: "int \<Rightarrow> int" where
  "uint16 x = x mod 2 ^ 16"

definition uint32 :: "int \<Rightarrow> int" where
  "uint32 x = x mod 2 ^ 32"

definition uint64 :: "int \<Rightarrow> int" where
  "uint64 x = x mod 2 ^ 64"

text \<open>Go's division and remainder truncate towards zero.\<close>

definition go_div :: "int \<Rightarrow> int \<Rightarrow> int" where
  "go_div x y = sgn x * sgn y * (\<bar>x\<bar> div \<bar>y\<bar>)"

definition go_mod :: "int \<Rightarrow> int \<Rightarrow> int" where
  "go_mod x y = sgn x * (\<bar>x\<bar> mod \<bar>y\<bar>)"

text \<open>An arithmetic right shift rounds towards minus infinity, as integer division does.\<close>

definition shr :: "int \<Rightarrow> nat \<Rightarrow> int" where
  "shr x n = x div 2 ^ n"

definition shl :: "int \<Rightarrow> nat \<Rightarrow> int" where
  "shl x n = x * 2 ^ n"

lemma div_eqI: "0 < b \<Longrightarrow> b * k \<le> x \<Longrightarrow> x < b * (k + 1) \<Longrightarrow> x div b = (k :: int)"
  by (rule int_div_pos_eq [of x b k "x - b * k"]) (simp_all add: algebra_simps)

lemma int16_id [fixwidth_simps]: "- 32768 \<le> x \<Longrightarrow> x < 32768 \<Longrightarrow> int16 x = x"
  by (simp add: int16_def)

lemma int32_id [fixwidth_simps]: "- 2147483648 \<le> x \<Longrightarrow> x < 2147483648 \<Longrightarrow> int32 x = x"
  by (simp add: int32_def)

lemma int64_id [fixwidth_simps]:
  "- 9223372036854775808 \<le> x \<Longrightarrow> x < 9223372036854775808 \<Longrightarrow> int64 x = x"
  by (simp add: int64_def)

lemma uint16_id [fixwidth_simps]: "0 \<le> x \<Longrightarrow> x < 65536 \<Longrightarrow> uint16 x = x"
  by (simp add: uint16_def)

lemma uint32_id [fixwidth_simps]: "0 \<le> x \<Longrightarrow> x < 4294967296 \<Longrightarrow> uint32 x = x"
  by (simp add: uint32_def)

lemma uint64_id [fixwidth_simps]: "0 \<le> x \<Longrightarrow> x < 18446744073709551616 \<Longrightarrow> uint64 x = x"
  by (simp add: uint64_def)

lemma go_div_mod_nonneg [simp]:
  "0 \<le> x \<Longrightarrow> 0 < y \<Longrightarrow> go_div x y = x div y" "0 \<le> x \<Longrightarrow> 0 < y \<Longrightarrow> go_mod x y = x mod y"
  by (cases "x = 0"; simp add: go_div_def go_mod_def)+

lemma int16_bounds: "- 32768 \<le> int16 x" "int16 x < 32768"
  by (simp_all add: int16_def)

lemma int32_bounds: "- 2147483648 \<le> int32 x" "int32 x < 2147483648"
  by (simp_all add: int32_def)

lemma int16_mod: "int16 x mod 65536 = x mod 65536"
  by (simp add: int16_def mod_diff_left_eq)

lemma int32_mod: "int32 x mod 4294967296 = x mod 4294967296"
  by (simp add: int32_def mod_diff_left_eq)

lemma int16_cong: "x mod 65536 = y mod 65536 \<Longrightarrow> int16 x = int16 y"
  using mod_add_cong [of x 65536 y 32768 32768] by (simp add: int16_def)

section \<open>Lists made of groups of equal length\<close>

lemma length_concat_groups: "(\<And>i. i < k \<Longrightarrow> length (g i) = w) \<Longrightarrow> length (concat (map g [0..<k])) = w * k"
  by (induction k) simp_all

lemma drop_concat_groups:
  assumes "\<And>i. i < k \<Longrightarrow> length (g i) = w"
  shows "i < k \<Longrightarrow> drop (w * i) (concat (map g [0..<k]) @ rest) = g i @ concat (map g [Suc i..<k]) @ rest"
  using assms
proof (induction k)
  case 0
  then show ?case by simp
next
  case (Suc k)
  have l: "length (concat (map g [0..<k])) = w * k"
    using Suc.prems(2) by (intro length_concat_groups) simp
  show ?case
  proof (cases "i = k")
    case True
    then show ?thesis using l by simp
  next
    case False
    then have "i < k"
      using Suc.prems(1) by simp
    moreover from this have "w * i \<le> w * k" by simp
    ultimately show ?thesis
      using Suc.IH Suc.prems(2) l by simp
  qed
qed

lemma concat_map_groups: "concat (map (\<lambda>i. map (\<lambda>j. h (n * i + j)) [0..<n]) [0..<k]) = map h [0..<n * k]"
proof (induction k)
  case 0
  then show ?case by simp
next
  case (Suc k)
  have "map (\<lambda>j. h (n * k + j)) [0..<n] = map h [n * k..<n * k + n]"
    by (rule nth_equalityI) simp_all
  moreover have "[0..<n * Suc k] = [0..<n * k] @ [n * k..<n * k + n]"
    using upt_add_eq_append [of 0 "n * k" n] by (simp add: add.commute)
  ultimately show ?case
    using Suc by simp
qed

lemma concat_concat_map: "concat (concat xss) = concat (map concat xss)"
  by (induction xss) simp_all

section \<open>Big-endian digit strings\<close>

primrec be :: "nat \<Rightarrow> nat \<Rightarrow> bytes" where
  "be 0 k = []"
| "be (Suc n) k = be n (k div 256) @ [of_nat k]"

definition unbe :: "bytes \<Rightarrow> nat" where
  "unbe bs = foldl (\<lambda>l b. l * 256 + unat b) 0 bs"

lemma length_be [simp]: "length (be n k) = n"
  by (induction n arbitrary: k) auto

lemma unbe_Nil [simp]: "unbe [] = 0"
  by (simp add: unbe_def)

lemma unbe_snoc [simp]: "unbe (bs @ [b]) = unbe bs * 256 + unat b"
  by (simp add: unbe_def)

lemma unat_of_nat_byte: "unat (of_nat k :: byte) = k mod 256"
  by (simp add: unat_of_nat take_bit_eq_mod)

lemma unat_byte_less: "unat (b :: byte) < 256"
  using unsigned_less [of b, where 'a = nat] by simp

lemma bit_byte_beyond [simp]: "8 \<le> n \<Longrightarrow> \<not> bit (b :: byte) n"
  using bit_imp_le_length [of b n] by auto

lemma byte_256: "(256 :: byte) = 0"
  by simp

lemma unbe_be: "unbe (be n k) = k mod 256 ^ n"
proof (induction n arbitrary: k)
  case 0
  then show ?case by simp
next
  case (Suc n)
  have "unbe (be (Suc n) k) = (k div 256 mod 256 ^ n) * 256 + k mod 256"
    by (simp add: Suc.IH unat_of_nat_byte)
  also have "\<dots> = k mod 256 ^ Suc n"
    by (simp add: mod_mult2_eq)
  finally show ?case .
qed

lemma unbe_be_id [wire_simps]: "k < 256 ^ n \<Longrightarrow> unbe (be n k) = k"
  by (simp add: unbe_be)

lemma be_unbe: "be (length bs) (unbe bs) = bs"
proof (induction bs rule: rev_induct)
  case Nil
  then show ?case by simp
next
  case (snoc b bs)
  have "(unbe bs * 256 + unat b) div 256 = unbe bs"
    using unat_byte_less [of b] by simp
  moreover have "(of_nat (unbe bs * 256 + unat b) :: byte) = b"
    by (simp add: byte_256)
  ultimately show ?case using snoc by simp
qed

lemma unbe_less: "unbe bs < 256 ^ length bs"
proof (induction bs rule: rev_induct)
  case Nil
  then show ?case by simp
next
  case (snoc b bs)
  have "unat b < 256"
    by (rule unat_byte_less)
  with snoc show ?case by simp
qed

text \<open>From here on \<open>be\<close> is only known through the lemmas above.\<close>

declare be.simps [simp del]

text \<open>A byte slice that may be nil, as its bytes.\<close>

definition opt_bytes :: "bytes option \<Rightarrow> bytes" where
  "opt_bytes b = (case b of None \<Rightarrow> [] | Some v \<Rightarrow> v)"

lemma uint_drop: "uint (drop_bit k d) = uint d div 2 ^ k" for d :: "'a :: len word"
proof -
  have "uint (drop_bit k d) = drop_bit k (take_bit LENGTH('a) (uint d))"
    by (rule unsigned_drop_bit_eq)
  moreover have "take_bit LENGTH('a) (uint d) = uint d"
    by (simp add: take_bit_int_eq_self)
  ultimately show ?thesis
    by (simp add: drop_bit_eq_div)
qed

text \<open>The bytes of a string literal.\<close>

definition ascii :: "string \<Rightarrow> bytes" where
  "ascii s = map of_char s"

end
