(* ===== verification/Cryptobyte.thy ===== *)
theory Cryptobyte
  imports Prelude
begin

text \<open>
  The byte layer of every wire format: package \<^verbatim>\<open>cryptobyte\<close>
  (\<^verbatim>\<open>src/src/vendor/golang.org/x/crypto/cryptobyte\<close>). A \<open>String\<close> is the unread rest of the input; a
  reader returns \<open>None\<close> where the Go method returns false, and otherwise the value and the rest. A
  reader that fails leaves its caller no use for the rest, so none is returned. The nil slice and the
  empty slice are both \<open>[]\<close>: they differ only for a read of zero bytes from a nil string, which no
  caller modelled here performs.

  A \<open>Builder\<close> keeps the error, the buffer, and for a child the offset and width of the length
  prefix that is still to be written. A length-prefixed write reserves the prefix, lets the
  continuation write behind it, and patches the prefix afterwards (\<open>flushChild\<close>). A continuation may
  panic: with a \<open>BuildError\<close>, which the outermost call recovers into the builder's error, or
  otherwise, which is passed on. The predicate \<open>appends\<close> states what a builder program writes and is
  the calculus by which the encoders of the other theories are verified.
\<close>

section \<open>Reading\<close>

definition read :: "nat \<Rightarrow> bytes \<Rightarrow> (bytes \<times> bytes) option" where
  "read n s = (if length s < n then None else Some (take n s, drop n s))"

definition Skip :: "nat \<Rightarrow> bytes \<Rightarrow> bytes option" where
  "Skip n s = (case read n s of None \<Rightarrow> None | Some (v, s') \<Rightarrow> Some s')"

definition ReadUint8 :: "bytes \<Rightarrow> (u8 \<times> bytes) option" where
  "ReadUint8 s = (case read 1 s of None \<Rightarrow> None | Some (v, s') \<Rightarrow> Some (v ! 0, s'))"

definition ReadUint16 :: "bytes \<Rightarrow> (u16 \<times> bytes) option" where
  "ReadUint16 s = (case read 2 s of None \<Rightarrow> None
     | Some (v, s') \<Rightarrow> Some (push_bit 8 (ucast (v ! 0)) OR ucast (v ! 1), s'))"

definition ReadUint24 :: "bytes \<Rightarrow> (u32 \<times> bytes) option" where
  "ReadUint24 s = (case read 3 s of None \<Rightarrow> None
     | Some (v, s') \<Rightarrow>
         Some (push_bit 16 (ucast (v ! 0)) OR push_bit 8 (ucast (v ! 1)) OR ucast (v ! 2), s'))"

definition ReadUint32 :: "bytes \<Rightarrow> (u32 \<times> bytes) option" where
  "ReadUint32 s = (case read 4 s of None \<Rightarrow> None
     | Some (v, s') \<Rightarrow>
         Some (push_bit 24 (ucast (v ! 0)) OR push_bit 16 (ucast (v ! 1)) OR
               push_bit 8 (ucast (v ! 2)) OR ucast (v ! 3), s'))"

definition readLengthPrefixed :: "nat \<Rightarrow> bytes \<Rightarrow> (bytes \<times> bytes) option" where
  "readLengthPrefixed lenLen s = (case read lenLen s of None \<Rightarrow> None
     | Some (lenBytes, s') \<Rightarrow>
         read (unat (foldl (\<lambda>l b. push_bit 8 l OR ucast b) (0 :: u32) lenBytes)) s')"

definition ReadUint8LengthPrefixed :: "bytes \<Rightarrow> (bytes \<times> bytes) option" where
  "ReadUint8LengthPrefixed = readLengthPrefixed 1"

definition ReadUint16LengthPrefixed :: "bytes \<Rightarrow> (bytes \<times> bytes) option" where
  "ReadUint16LengthPrefixed = readLengthPrefixed 2"

definition ReadUint24LengthPrefixed :: "bytes \<Rightarrow> (bytes \<times> bytes) option" where
  "ReadUint24LengthPrefixed = readLengthPrefixed 3"

definition ReadBytes :: "nat \<Rightarrow> bytes \<Rightarrow> (bytes \<times> bytes) option" where
  "ReadBytes = read"

definition Empty :: "bytes \<Rightarrow> bool" where
  "Empty s \<longleftrightarrow> length s = 0"

subsection \<open>Fixed-width values as digit strings\<close>

definition enc8 :: "u8 \<Rightarrow> bytes" where
  "enc8 v = [v]"

definition enc16 :: "u16 \<Rightarrow> bytes" where
  "enc16 v = [ucast (drop_bit 8 v), ucast v]"

definition enc24 :: "u32 \<Rightarrow> bytes" where
  "enc24 v = [ucast (drop_bit 16 v), ucast (drop_bit 8 v), ucast v]"

definition enc32 :: "u32 \<Rightarrow> bytes" where
  "enc32 v = [ucast (drop_bit 24 v), ucast (drop_bit 16 v), ucast (drop_bit 8 v), ucast v]"

definition pref8 :: "bytes \<Rightarrow> bytes" where
  "pref8 v = be 1 (length v) @ v"

definition pref16 :: "bytes \<Rightarrow> bytes" where
  "pref16 v = be 2 (length v) @ v"

definition pref24 :: "bytes \<Rightarrow> bytes" where
  "pref24 v = be 3 (length v) @ v"

lemma length_pref [simp]:
  "length (pref8 v) = length v + 1" "length (pref16 v) = length v + 2"
  "length (pref24 v) = length v + 3"
  by (simp_all add: pref8_def pref16_def pref24_def)

lemma length_enc [simp]:
  "length (enc8 a) = 1" "length (enc16 b) = 2" "length (enc24 c) = 3" "length (enc32 c) = 4"
  by (simp_all add: enc8_def enc16_def enc24_def enc32_def)

lemma enc_not_Nil [simp]:
  "enc8 a \<noteq> []" "enc16 b \<noteq> []" "enc24 c \<noteq> []" "enc32 c \<noteq> []"
  by (simp_all add: enc8_def enc16_def enc24_def enc32_def)

lemma pref_not_Nil [simp]: "pref8 v \<noteq> []" "pref16 v \<noteq> []" "pref24 v \<noteq> []"
  by (metis length_pref(1) length_pref(2) length_pref(3) list.size(3) add_is_0 zero_neq_numeral
      zero_neq_one)+

lemma Empty_iff [simp]: "Empty s \<longleftrightarrow> s = []"
  by (simp add: Empty_def)

lemma read_append [wire_simps]: "length v = n \<Longrightarrow> read n (v @ s) = Some (v, s)"
  by (simp add: read_def)

lemma read_all [wire_simps]: "read (length v) v = Some (v, [])"
  by (simp add: read_def)

lemma read_SomeD [wire_dest]: "read n s = Some (v, s') \<Longrightarrow> s = v @ s' \<and> length v = n"
  by (auto simp: read_def split: if_splits)

lemma read_Some_iff: "read n s = Some (v, s') \<longleftrightarrow> s = v @ s' \<and> length v = n"
  by (auto simp: read_def)

lemma ReadBytes_append [wire_simps]: "length v = n \<Longrightarrow> ReadBytes n (v @ s) = Some (v, s)"
  by (simp add: ReadBytes_def read_append)

lemma ReadBytes_all [wire_simps]: "ReadBytes (length v) v = Some (v, [])"
  by (simp add: ReadBytes_def read_all)

lemma ReadBytes_SomeD [wire_dest]:
  "ReadBytes n s = Some (v, s') \<Longrightarrow> s = v @ s' \<and> length v = n"
  by (simp add: ReadBytes_def read_Some_iff)

lemma Skip_append [wire_simps]: "length v = n \<Longrightarrow> Skip n (v @ s) = Some s"
  by (simp add: Skip_def read_append)

lemma Skip_SomeD [wire_dest]: "Skip n s = Some s' \<Longrightarrow> \<exists>v. s = v @ s' \<and> length v = n"
  by (auto simp: Skip_def read_Some_iff split: option.splits)

lemma or_ucast_split16:
  "push_bit 8 (ucast (ucast (drop_bit 8 v) :: byte)) OR ucast (ucast v :: byte) = (v :: u16)"
  by (rule bit_word_eqI) (auto simp: bit_simps)

lemma enc16_or: "enc16 (push_bit 8 (ucast a) OR ucast b) = [a, b]"
  by (auto simp: enc16_def intro!: bit_word_eqI simp: bit_simps)

lemma or_ucast_split32:
  "push_bit 24 (ucast (ucast (drop_bit 24 v) :: byte)) OR push_bit 16 (ucast (ucast (drop_bit 16 v) :: byte)) OR
   push_bit 8 (ucast (ucast (drop_bit 8 v) :: byte)) OR ucast (ucast v :: byte) = (v :: u32)"
proof (rule bit_word_eqI)
  fix n :: nat
  assume n: "n < LENGTH(32)"
  consider "n < 8" | "8 \<le> n \<and> n < 16" | "16 \<le> n \<and> n < 24" | "24 \<le> n" by linarith
  then show "bit (push_bit 24 (ucast (ucast (drop_bit 24 v) :: byte)) OR
      push_bit 16 (ucast (ucast (drop_bit 16 v) :: byte)) OR
      push_bit 8 (ucast (ucast (drop_bit 8 v) :: byte)) OR ucast (ucast v :: byte) :: u32) n = bit (v) n"
    using n by cases (auto simp: bit_simps)
qed

lemma enc32_or:
  "enc32 (push_bit 24 (ucast a) OR push_bit 16 (ucast b) OR push_bit 8 (ucast c) OR ucast d) = [a, b, c, d]"
  by (auto simp: enc32_def intro!: bit_word_eqI simp: bit_simps)

lemma or_ucast_split24:
  "push_bit 16 (ucast (ucast (drop_bit 16 v) :: byte)) OR
   push_bit 8 (ucast (ucast (drop_bit 8 v) :: byte)) OR ucast (ucast v :: byte)
   = (take_bit 24 v :: u32)"
proof (rule bit_word_eqI)
  fix n :: nat
  assume n: "n < LENGTH(32)"
  consider "n < 8" | "8 \<le> n \<and> n < 16" | "16 \<le> n \<and> n < 24" | "24 \<le> n" by linarith
  then show "bit (push_bit 16 (ucast (ucast (drop_bit 16 v) :: byte)) OR
      push_bit 8 (ucast (ucast (drop_bit 8 v) :: byte)) OR ucast (ucast v :: byte) :: u32) n = bit (take_bit 24 v) n"
    using n by cases (auto simp: bit_simps)
qed

lemma enc24_or:
  "enc24 (push_bit 16 (ucast a) OR push_bit 8 (ucast b) OR ucast c) = [a, b, c]"
  by (auto simp: enc24_def intro!: bit_word_eqI simp: bit_simps)

lemma ReadUint8_enc [wire_simps]: "ReadUint8 (enc8 v @ s) = Some (v, s)"
  by (simp add: ReadUint8_def enc8_def read_def)

lemma ReadUint16_enc [wire_simps]: "ReadUint16 (enc16 v @ s) = Some (v, s)"
  by (simp add: ReadUint16_def read_append) (simp add: enc16_def or_ucast_split16)

lemma ReadUint32_enc [wire_simps]: "ReadUint32 (enc32 v @ s) = Some (v, s)"
  by (simp add: ReadUint32_def read_append)
    (simp add: enc32_def or_ucast_split32 numeral_3_eq_3 numeral_2_eq_2)

lemma ReadUint24_enc [wire_simps]: "ReadUint24 (enc24 v @ s) = Some (take_bit 24 v, s)"
  by (simp add: ReadUint24_def read_append) (simp add: enc24_def or_ucast_split24 numeral_2_eq_2)

lemma length_2_conv: "length v = 2 \<longleftrightarrow> (\<exists>a b. v = [a, b])"
  by (auto simp: length_Suc_conv numeral_2_eq_2)

lemma length_3_conv: "length v = 3 \<longleftrightarrow> (\<exists>a b c. v = [a, b, c])"
  by (auto simp: length_Suc_conv numeral_3_eq_3)

lemma length_4_conv: "length v = 4 \<longleftrightarrow> (\<exists>a b c d. v = [a, b, c, d])"
  by (auto simp: length_Suc_conv eval_nat_numeral)

lemma ReadUint8_SomeD [wire_dest]: "ReadUint8 s = Some (v, s') \<Longrightarrow> s = enc8 v @ s'"
  by (auto simp: ReadUint8_def enc8_def read_Some_iff length_Suc_conv split: option.splits)

lemma ReadUint16_SomeD [wire_dest]: "ReadUint16 s = Some (v, s') \<Longrightarrow> s = enc16 v @ s'"
  by (auto simp: ReadUint16_def enc16_or read_Some_iff length_2_conv split: option.splits)

lemma ReadUint32_SomeD [wire_dest]: "ReadUint32 s = Some (v, s') \<Longrightarrow> s = enc32 v @ s'"
  by (auto simp: ReadUint32_def enc32_or read_Some_iff length_4_conv numeral_3_eq_3 numeral_2_eq_2
      split: option.splits)

lemma ReadUint24_SomeD [wire_dest]: "ReadUint24 s = Some (v, s') \<Longrightarrow> s = enc24 v @ s'"
  by (auto simp: ReadUint24_def enc24_or read_Some_iff length_3_conv numeral_2_eq_2
      split: option.splits)

subsection \<open>Length-prefixed values\<close>

lemma unat_shift_or_byte:
  assumes "unat l < 2 ^ 24"
  shows "unat (push_bit 8 l OR ucast b :: u32) = unat l * 256 + unat (b :: byte)"
proof -
  have "push_bit 8 l OR ucast b = push_bit 8 l + (ucast b :: u32)"
  proof (rule disjunctive_add [symmetric])
    fix n
    show "\<not> bit (push_bit 8 l) n \<or> \<not> bit (ucast b :: u32) n"
      by (cases "n < 8") (auto simp: bit_simps)
  qed
  moreover have "unat (push_bit 8 l :: u32) = unat l * 256"
    using assms by (simp add: push_bit_eq_mult unat_word_ariths)
  moreover have "unat (ucast b :: u32) = unat b"
    using unat_byte_less [of b] by (simp add: unsigned_ucast_eq take_bit_eq_mod)
  moreover have "unat l * 256 + unat b < 2 ^ 32"
    using assms unat_byte_less [of b] by simp
  ultimately show ?thesis
    by (simp add: unat_word_ariths)
qed

lemma unat_foldl_length:
  "length bs \<le> 4 \<Longrightarrow> unat (foldl (\<lambda>l b. push_bit 8 l OR ucast b) (0 :: u32) bs) = unbe bs"
proof (induction bs rule: rev_induct)
  case Nil
  then show ?case by simp
next
  case (snoc b bs)
  have "256 ^ length bs \<le> (256 :: nat) ^ 3"
    using snoc.prems by (intro power_increasing) auto
  then have "unbe bs < 2 ^ 24"
    using unbe_less [of bs] by simp
  with snoc show ?case
    by (simp add: unat_shift_or_byte)
qed

lemma readLengthPrefixed_Some_iff:
  assumes "n \<le> 4"
  shows "readLengthPrefixed n s = Some (v, s') \<longleftrightarrow>
         length v < 256 ^ n \<and> s = be n (length v) @ v @ s'"
proof
  assume "readLengthPrefixed n s = Some (v, s')"
  then obtain lb r where lb: "read n s = Some (lb, r)"
    and v: "read (unat (foldl (\<lambda>l b. push_bit 8 l OR ucast b) (0 :: u32) lb)) r = Some (v, s')"
    by (auto simp: readLengthPrefixed_def split: option.splits)
  with assms have "s = lb @ r" "length lb = n" "r = v @ s'" "length v = unbe lb"
    by (auto simp: read_Some_iff unat_foldl_length)
  then show "length v < 256 ^ n \<and> s = be n (length v) @ v @ s'"
    using unbe_less [of lb] be_unbe [of lb] by auto
next
  assume "length v < 256 ^ n \<and> s = be n (length v) @ v @ s'"
  with assms show "readLengthPrefixed n s = Some (v, s')"
    by (simp add: readLengthPrefixed_def read_append unat_foldl_length unbe_be)
qed

lemmas ReadLengthPrefixed_defs =
  ReadUint8LengthPrefixed_def ReadUint16LengthPrefixed_def ReadUint24LengthPrefixed_def

lemmas pref_defs = pref8_def pref16_def pref24_def

lemma ReadUint8LengthPrefixed_be [wire_simps]:
  "length v < 256 \<Longrightarrow> ReadUint8LengthPrefixed (pref8 v @ s) = Some (v, s)"
  by (simp add: ReadLengthPrefixed_defs readLengthPrefixed_Some_iff pref_defs)

lemma ReadUint16LengthPrefixed_be [wire_simps]:
  "length v < 65536 \<Longrightarrow> ReadUint16LengthPrefixed (pref16 v @ s) = Some (v, s)"
  by (simp add: ReadLengthPrefixed_defs readLengthPrefixed_Some_iff pref_defs)

lemma ReadUint24LengthPrefixed_be [wire_simps]:
  "length v < 16777216 \<Longrightarrow> ReadUint24LengthPrefixed (pref24 v @ s) = Some (v, s)"
  by (simp add: ReadLengthPrefixed_defs readLengthPrefixed_Some_iff pref_defs)

lemma ReadUint8LengthPrefixed_SomeD [wire_dest]:
  "ReadUint8LengthPrefixed s = Some (v, s') \<Longrightarrow> length v < 256 \<and> s = pref8 v @ s'"
  by (simp add: ReadLengthPrefixed_defs readLengthPrefixed_Some_iff pref_defs)

lemma ReadUint16LengthPrefixed_SomeD [wire_dest]:
  "ReadUint16LengthPrefixed s = Some (v, s') \<Longrightarrow> length v < 65536 \<and> s = pref16 v @ s'"
  by (simp add: ReadLengthPrefixed_defs readLengthPrefixed_Some_iff pref_defs)

lemma ReadUint24LengthPrefixed_SomeD [wire_dest]:
  "ReadUint24LengthPrefixed s = Some (v, s') \<Longrightarrow> length v < 16777216 \<and> s = pref24 v @ s'"
  by (simp add: ReadLengthPrefixed_defs readLengthPrefixed_Some_iff pref_defs)

section \<open>Building\<close>

record Builder =
  b_err :: "string option"
  b_result :: bytes
  b_offset :: nat
  b_pendingLenLen :: nat
  b_inContinuation :: bool

text \<open>
  How a builder program ends: normally, unwinding with a \<open>BuildError\<close> (with the builder as it was
  when the panic was raised), or unwinding with any other panic.
\<close>

datatype build = Done Builder | BuildErr string Builder | Crash string

definition newBuilder :: Builder where
  "newBuilder = \<lparr>b_err = None, b_result = [], b_offset = 0, b_pendingLenLen = 0,
                 b_inContinuation = False\<rparr>"

definition Bytes :: "Builder \<Rightarrow> bytes res" where
  "Bytes b = (case b_err b of Some e \<Rightarrow> Err e | None \<Rightarrow> Ok (drop (b_offset b) (b_result b)))"

definition BytesOrPanic :: "Builder \<Rightarrow> bytes res" where
  "BytesOrPanic b = (case b_err b of Some e \<Rightarrow> Panic e | None \<Rightarrow> Ok (drop (b_offset b) (b_result b)))"

definition b_add :: "bytes \<Rightarrow> Builder \<Rightarrow> Builder" where
  "b_add bs b = (if b_err b \<noteq> None then b else b\<lparr>b_result := b_result b @ bs\<rparr>)"

definition AddBytes :: "bytes \<Rightarrow> Builder \<Rightarrow> build" where
  "AddBytes v b = Done (b_add v b)"

definition AddUint8 :: "u8 \<Rightarrow> Builder \<Rightarrow> build" where
  "AddUint8 v b = Done (b_add [v] b)"

definition AddUint16 :: "u16 \<Rightarrow> Builder \<Rightarrow> build" where
  "AddUint16 v b = Done (b_add [ucast (drop_bit 8 v), ucast v] b)"

definition AddUint24 :: "u32 \<Rightarrow> Builder \<Rightarrow> build" where
  "AddUint24 v b = Done (b_add [ucast (drop_bit 16 v), ucast (drop_bit 8 v), ucast v] b)"

definition AddUint32 :: "u32 \<Rightarrow> Builder \<Rightarrow> build" where
  "AddUint32 v b = Done (b_add [ucast (drop_bit 24 v), ucast (drop_bit 16 v),
                                ucast (drop_bit 8 v), ucast v] b)"

definition SetError :: "string \<Rightarrow> Builder \<Rightarrow> build" where
  "SetError e b = Done (b\<lparr>b_err := Some e\<rparr>)"

text \<open>
  The loop of \<open>flushChild\<close> that writes the length, last byte first; the second component is what
  is left of the length, non-zero when it does not fit.
\<close>

fun putLen :: "nat \<Rightarrow> nat \<Rightarrow> nat \<Rightarrow> bytes \<Rightarrow> bytes \<times> nat" where
  "putLen off 0 l r = (r, l)"
| "putLen off (Suc i) l r = putLen off i (l div 256) (r[off + i := of_nat l])"

definition flushChild :: "Builder \<Rightarrow> Builder \<Rightarrow> Builder" where
  "flushChild b child = (case b_err child of
       Some e \<Rightarrow> b\<lparr>b_err := Some e\<rparr>
     | None \<Rightarrow>
         let len = length (b_result child) - b_pendingLenLen child - b_offset child;
             (r, l) = putLen (b_offset child) (b_pendingLenLen child) len (b_result child)
         in if l \<noteq> 0 then b\<lparr>b_err := Some ''cryptobyte: pending child length exceeds length prefix''\<rparr>
            else b\<lparr>b_result := r\<rparr>)"

definition addLengthPrefixed :: "nat \<Rightarrow> (Builder \<Rightarrow> build) \<Rightarrow> Builder \<Rightarrow> build" where
  "addLengthPrefixed lenLen f b =
     (if b_err b \<noteq> None then Done b
      else let b1 = b_add (replicate lenLen 0) b;
               child = \<lparr>b_err = None, b_result = b_result b1, b_offset = length (b_result b),
                        b_pendingLenLen = lenLen, b_inContinuation = True\<rparr>
           in case f child of
                Done c \<Rightarrow> Done (flushChild b1 c)
              | BuildErr e c \<Rightarrow>
                  if b_inContinuation b then BuildErr e (flushChild b1 c)
                  else Done (flushChild (b1\<lparr>b_err := Some e\<rparr>) c)
              | Crash p \<Rightarrow> Crash p)"

definition AddUint8LengthPrefixed :: "(Builder \<Rightarrow> build) \<Rightarrow> Builder \<Rightarrow> build" where
  "AddUint8LengthPrefixed = addLengthPrefixed 1"

definition AddUint16LengthPrefixed :: "(Builder \<Rightarrow> build) \<Rightarrow> Builder \<Rightarrow> build" where
  "AddUint16LengthPrefixed = addLengthPrefixed 2"

definition AddUint24LengthPrefixed :: "(Builder \<Rightarrow> build) \<Rightarrow> Builder \<Rightarrow> build" where
  "AddUint24LengthPrefixed = addLengthPrefixed 3"

text \<open>Statement sequencing, loops over a slice, and the panics of a continuation.\<close>

primrec andThen :: "build \<Rightarrow> (Builder \<Rightarrow> build) \<Rightarrow> build" where
  "andThen (Done b) g = g b"
| "andThen (BuildErr e b) g = BuildErr e b"
| "andThen (Crash p) g = Crash p"

fun stmts :: "(Builder \<Rightarrow> build) list \<Rightarrow> Builder \<Rightarrow> build" where
  "stmts [] b = Done b"
| "stmts (f # fs) b = andThen (f b) (stmts fs)"

definition forEach :: "('a \<Rightarrow> Builder \<Rightarrow> build) \<Rightarrow> 'a list \<Rightarrow> Builder \<Rightarrow> build" where
  "forEach f xs = stmts (map f xs)"

definition panicBuildError :: "string \<Rightarrow> Builder \<Rightarrow> build" where
  "panicBuildError e b = BuildErr e b"

text \<open>Running a builder program on a fresh builder and asking for its bytes.\<close>

definition runBytes :: "(Builder \<Rightarrow> build) \<Rightarrow> bytes res" where
  "runBytes f = (case f newBuilder of Done b \<Rightarrow> Bytes b | BuildErr e b \<Rightarrow> Panic e | Crash p \<Rightarrow> Panic p)"

definition runBytesOrPanic :: "(Builder \<Rightarrow> build) \<Rightarrow> bytes res" where
  "runBytesOrPanic f =
     (case f newBuilder of Done b \<Rightarrow> BytesOrPanic b | BuildErr e b \<Rightarrow> Panic e | Crash p \<Rightarrow> Panic p)"

subsection \<open>What a builder program appends\<close>

definition appends :: "(Builder \<Rightarrow> build) \<Rightarrow> bytes \<Rightarrow> bool" where
  "appends f bs \<longleftrightarrow> (\<forall>b. b_err b = None \<longrightarrow> f b = Done (b\<lparr>b_result := b_result b @ bs\<rparr>))"

lemma appendsI: "(\<And>b. b_err b = None \<Longrightarrow> f b = Done (b\<lparr>b_result := b_result b @ bs\<rparr>)) \<Longrightarrow> appends f bs"
  by (simp add: appends_def)

lemma appendsD: "appends f bs \<Longrightarrow> b_err b = None \<Longrightarrow> f b = Done (b\<lparr>b_result := b_result b @ bs\<rparr>)"
  by (simp add: appends_def)

lemma appends_cong: "appends f xs \<Longrightarrow> xs = ys \<Longrightarrow> appends f ys"
  by simp

lemma appends_AddBytes [builder_intros]: "appends (AddBytes v) v"
  by (simp add: appends_def AddBytes_def b_add_def)

lemma appends_AddUint8 [builder_intros]: "appends (AddUint8 v) (enc8 v)"
  by (simp add: appends_def AddUint8_def b_add_def enc8_def)

lemma appends_AddUint16 [builder_intros]: "appends (AddUint16 v) (enc16 v)"
  by (simp add: appends_def AddUint16_def b_add_def enc16_def)

lemma appends_AddUint24 [builder_intros]: "appends (AddUint24 v) (enc24 v)"
  by (simp add: appends_def AddUint24_def b_add_def enc24_def)

lemma appends_AddUint32 [builder_intros]: "appends (AddUint32 v) (enc32 v)"
  by (simp add: appends_def AddUint32_def b_add_def enc32_def)

lemma appends_Nil [builder_intros]: "appends (stmts []) []"
  by (simp add: appends_def)

lemma appends_Cons [builder_intros]:
  "appends f xs \<Longrightarrow> appends (stmts fs) ys \<Longrightarrow> appends (stmts (f # fs)) (xs @ ys)"
  by (simp add: appends_def)

lemma appends_last [builder_intros]: "appends f xs \<Longrightarrow> appends (stmts [f]) xs"
  using appends_Cons [OF _ appends_Nil] by fastforce

lemma appends_forEach [builder_intros]:
  "(\<And>x. x \<in> set xs \<Longrightarrow> appends (f x) (g x)) \<Longrightarrow> appends (forEach f xs) (concat (map g xs))"
  by (induction xs) (auto simp: forEach_def intro: appends_Nil appends_Cons)

lemma putLen_spec:
  "length pre = off \<Longrightarrow> length zs = n \<Longrightarrow>
   putLen off n l (pre @ zs @ post) = (pre @ be n l @ post, l div 256 ^ n)"
proof (induction n arbitrary: l zs post)
  case 0
  then show ?case by (simp add: be.simps)
next
  case (Suc n)
  then obtain ys y where zs: "zs = ys @ [y]" "length ys = n"
    by (metis length_Suc_conv_rev)
  with Suc.prems have "(pre @ zs @ post)[off + n := of_nat l] = pre @ ys @ (of_nat l # post)"
    by (simp add: list_update_append)
  with Suc zs show ?case
    by (simp add: div_mult2_eq be.simps)
qed

lemma flushChild_spec:
  assumes "b_err c = None" and "b_result c = r @ replicate n 0 @ bs"
    and "b_offset c = length r" and "b_pendingLenLen c = n"
  shows "flushChild b c =
    (if length bs < 256 ^ n then b\<lparr>b_result := r @ be n (length bs) @ bs\<rparr>
     else b\<lparr>b_err := Some ''cryptobyte: pending child length exceeds length prefix''\<rparr>)"
  using assms by (auto simp: flushChild_def Let_def putLen_spec div_eq_0_iff)

lemma addLengthPrefixed_spec:
  assumes "appends f bs" and "b_err b = None"
  shows "addLengthPrefixed n f b =
    (if length bs < 256 ^ n then Done (b\<lparr>b_result := b_result b @ be n (length bs) @ bs\<rparr>)
     else Done (b\<lparr>b_result := b_result b @ replicate n 0,
                  b_err := Some ''cryptobyte: pending child length exceeds length prefix''\<rparr>))"
proof -
  let ?c = "\<lparr>b_err = None, b_result = b_result b @ replicate n 0, b_offset = length (b_result b),
     b_pendingLenLen = n, b_inContinuation = True\<rparr>"
  have "f ?c = Done (?c\<lparr>b_result := (b_result b @ replicate n 0) @ bs\<rparr>)"
    using appendsD [OF assms(1), of ?c] by simp
  with assms(2) show ?thesis
    by (simp add: addLengthPrefixed_def b_add_def flushChild_spec)
qed

lemma appends_lengthPrefixed:
  "appends f bs \<Longrightarrow> length bs < 256 ^ n \<Longrightarrow> appends (addLengthPrefixed n f) (be n (length bs) @ bs)"
  by (rule appendsI) (simp add: addLengthPrefixed_spec)

lemma appends_Uint8LengthPrefixed [builder_intros]:
  "appends f bs \<Longrightarrow> length bs < 256 \<Longrightarrow> appends (AddUint8LengthPrefixed f) (pref8 bs)"
  using appends_lengthPrefixed [of f bs 1] by (simp add: AddUint8LengthPrefixed_def pref8_def)

lemma appends_Uint16LengthPrefixed [builder_intros]:
  "appends f bs \<Longrightarrow> length bs < 65536 \<Longrightarrow> appends (AddUint16LengthPrefixed f) (pref16 bs)"
  using appends_lengthPrefixed [of f bs 2] by (simp add: AddUint16LengthPrefixed_def pref16_def)

lemma appends_Uint24LengthPrefixed [builder_intros]:
  "appends f bs \<Longrightarrow> length bs < 16777216 \<Longrightarrow> appends (AddUint24LengthPrefixed f) (pref24 bs)"
  using appends_lengthPrefixed [of f bs 3] by (simp add: AddUint24LengthPrefixed_def pref24_def)

lemma runBytes_appends: "appends f bs \<Longrightarrow> runBytes f = Ok bs"
  by (simp add: runBytes_def appends_def newBuilder_def Bytes_def)

lemma runBytesOrPanic_appends: "appends f bs \<Longrightarrow> runBytesOrPanic f = Ok bs"
  by (simp add: runBytesOrPanic_def appends_def newBuilder_def BytesOrPanic_def)

subsection \<open>What a builder program that succeeds has written\<close>

text \<open>
  The converse of \<open>appends\<close>, for programs that may fail: when a program ends normally and without an error it has
  only appended bytes, and these satisfy \<open>Q\<close>. An error once set stays.
\<close>

definition succeeds :: "build \<Rightarrow> Builder \<Rightarrow> bool" where
  "succeeds r b \<longleftrightarrow> r = Done b \<and> b_err b = None"

definition writes :: "(Builder \<Rightarrow> build) \<Rightarrow> (bytes \<Rightarrow> bool) \<Rightarrow> bool" where
  "writes f Q \<longleftrightarrow> (\<forall>b b'. succeeds (f b) b' \<longrightarrow> b_err b = None \<and> (\<exists>bs. Q bs \<and> b' = b\<lparr>b_result := b_result b @ bs\<rparr>))"

lemma writesD: "writes f Q \<Longrightarrow> succeeds (f b) b' \<Longrightarrow> b_err b = None \<and> (\<exists>bs. Q bs \<and> b' = b\<lparr>b_result := b_result b @ bs\<rparr>)"
  by (simp add: writes_def)

lemma writes_mono: "writes f Q \<Longrightarrow> (\<And>bs. Q bs \<Longrightarrow> R bs) \<Longrightarrow> writes f R"
  unfolding writes_def by blast

lemma writes_add: "(\<And>b. f b = Done (b_add v b)) \<Longrightarrow> writes f (\<lambda>bs. bs = v)"
  by (auto simp: writes_def succeeds_def b_add_def split: if_splits)

lemma writes_AddBytes [builder_writes]: "writes (AddBytes v) (\<lambda>bs. bs = v)"
  by (rule writes_add) (simp add: AddBytes_def)

lemma writes_AddUint8 [builder_writes]: "writes (AddUint8 v) (\<lambda>bs. bs = enc8 v)"
  by (rule writes_add) (simp add: AddUint8_def enc8_def)

lemma writes_AddUint16 [builder_writes]: "writes (AddUint16 v) (\<lambda>bs. bs = enc16 v)"
  by (rule writes_add) (simp add: AddUint16_def enc16_def)

lemma succeeds_andThen: "succeeds (andThen r g) b' \<Longrightarrow> \<exists>b. r = Done b \<and> succeeds (g b) b'"
  by (cases r) (auto simp: succeeds_def)

lemma writes_Nil [builder_writes]: "writes (stmts []) (\<lambda>bs. bs = [])"
  by (auto simp: writes_def succeeds_def)

lemma writes_andThen:
  assumes "writes f P" and "writes g Q"
  shows "writes (\<lambda>b. andThen (f b) g) (\<lambda>bs. \<exists>x y. P x \<and> Q y \<and> bs = x @ y)"
proof (unfold writes_def, intro allI impI)
  fix b b'
  assume "succeeds (andThen (f b) g) b'"
  then obtain b1 where b1: "f b = Done b1" "succeeds (g b1) b'"
    using succeeds_andThen by blast
  from writesD [OF assms(2) b1(2)] obtain y where y: "b_err b1 = None" "Q y" "b' = b1\<lparr>b_result := b_result b1 @ y\<rparr>"
    by blast
  with b1(1) have "succeeds (f b) b1" by (simp add: succeeds_def)
  from writesD [OF assms(1) this] obtain x where "b_err b = None" "P x" "b1 = b\<lparr>b_result := b_result b @ x\<rparr>"
    by blast
  with y show "b_err b = None \<and> (\<exists>bs. (\<exists>x y. P x \<and> Q y \<and> bs = x @ y) \<and> b' = b\<lparr>b_result := b_result b @ bs\<rparr>)"
    by auto
qed

lemma writes_Cons [builder_writes]:
  "writes f P \<Longrightarrow> writes (stmts fs) Q \<Longrightarrow> writes (stmts (f # fs)) (\<lambda>bs. \<exists>x y. P x \<and> Q y \<and> bs = x @ y)"
  using writes_andThen [of f P "stmts fs" Q] by (simp add: writes_def)

lemma writes_fail: "(\<And>b b'. \<not> succeeds (f b) b') \<Longrightarrow> writes f Q"
  by (simp add: writes_def)

lemma flushChild_None:
  assumes "b_err (flushChild b c) = None"
  shows "b_err b = None \<and> b_err c = None"
  using assms by (auto simp: flushChild_def Let_def split: option.splits prod.splits if_splits)

lemma writes_lengthPrefixed:
  assumes "writes f Q"
  shows "writes (addLengthPrefixed n f) (\<lambda>bs. \<exists>x. Q x \<and> length x < 256 ^ n \<and> bs = be n (length x) @ x)"
proof (unfold writes_def, intro allI impI)
  fix b b'
  assume s: "succeeds (addLengthPrefixed n f b) b'"
  then have e: "b_err b = None"
    by (cases "b_err b") (auto simp: addLengthPrefixed_def succeeds_def)
  let ?b1 = "b\<lparr>b_result := b_result b @ replicate n 0\<rparr>"
  let ?c = "\<lparr>b_err = None, b_result = b_result b @ replicate n 0, b_offset = length (b_result b),
     b_pendingLenLen = n, b_inContinuation = True\<rparr>"
  have "\<exists>c. f ?c = Done c \<and> b_err c = None \<and> b' = flushChild ?b1 c"
    using s e by (auto simp: addLengthPrefixed_def succeeds_def b_add_def Let_def dest: flushChild_None split: build.splits if_splits)
  then obtain c where c: "succeeds (f ?c) c" "b' = flushChild ?b1 c"
    by (auto simp: succeeds_def)
  from writesD [OF assms c(1)] obtain x where x: "Q x" "c = ?c\<lparr>b_result := (b_result b @ replicate n 0) @ x\<rparr>"
    by auto
  have "b' = (if length x < 256 ^ n then ?b1\<lparr>b_result := b_result b @ be n (length x) @ x\<rparr>
     else ?b1\<lparr>b_err := Some ''cryptobyte: pending child length exceeds length prefix''\<rparr>)"
    unfolding c(2) by (rule flushChild_spec) (simp_all add: x(2))
  with s x(1) e show "b_err b = None \<and> (\<exists>bs. (\<exists>x. Q x \<and> length x < 256 ^ n \<and> bs = be n (length x) @ x) \<and> b' = b\<lparr>b_result := b_result b @ bs\<rparr>)"
    by (auto simp: succeeds_def split: if_splits)
qed

lemma writes_Uint8LengthPrefixed [builder_writes]:
  "writes f Q \<Longrightarrow> writes (AddUint8LengthPrefixed f) (\<lambda>bs. \<exists>x. Q x \<and> length x < 256 \<and> bs = pref8 x)"
  using writes_lengthPrefixed [of f Q 1] by (simp add: AddUint8LengthPrefixed_def pref8_def)

lemma writes_Uint16LengthPrefixed [builder_writes]:
  "writes f Q \<Longrightarrow> writes (AddUint16LengthPrefixed f) (\<lambda>bs. \<exists>x. Q x \<and> length x < 65536 \<and> bs = pref16 x)"
  using writes_lengthPrefixed [of f Q 2] by (simp add: AddUint16LengthPrefixed_def pref16_def)

lemma writes_Uint24LengthPrefixed [builder_writes]:
  "writes f Q \<Longrightarrow> writes (AddUint24LengthPrefixed f) (\<lambda>bs. \<exists>x. Q x \<and> length x < 16777216 \<and> bs = pref24 x)"
  using writes_lengthPrefixed [of f Q 3] by (simp add: AddUint24LengthPrefixed_def pref24_def)

lemma runBytes_writes:
  assumes "runBytes f = Ok bs" and "writes f Q"
  shows "Q bs"
proof -
  obtain b where b: "f newBuilder = Done b" "Bytes b = Ok bs"
    using assms(1) by (auto simp: runBytes_def split: build.splits)
  then have "succeeds (f newBuilder) b"
    by (auto simp: succeeds_def Bytes_def split: option.splits)
  from writesD [OF assms(2) this] b(2) show ?thesis
    by (auto simp: newBuilder_def Bytes_def)
qed

section \<open>Codecs\<close>

text \<open>
  The contract between a writer and a reader of one wire format: what is written is read back, with
  whatever follows left over. Every element is at least one byte long, so that a sequence can be
  read until the input is empty.
\<close>

locale codec =
  fixes enc :: "'a \<Rightarrow> bytes" and dec :: "bytes \<Rightarrow> ('a \<times> bytes) option" and wf :: "'a \<Rightarrow> bool"
  assumes dec_enc: "wf x \<Longrightarrow> dec (enc x @ s) = Some (x, s)"
    and enc_nonempty: "wf x \<Longrightarrow> enc x \<noteq> []"
begin

lemma dec_enc_all: "wf x \<Longrightarrow> dec (enc x) = Some (x, [])"
  using dec_enc [of x "[]"] by simp

lemma enc_prefix_free:
  assumes "wf x" "wf y" "enc x @ s = enc y @ t"
  shows "x = y \<and> s = t"
  using dec_enc [OF assms(1), of s] dec_enc [OF assms(2), of t] unfolding assms(3) by simp

lemma enc_inj: "inj_on enc {x. wf x}"
proof (rule inj_onI)
  fix x y
  assume "x \<in> {x. wf x}" "y \<in> {x. wf x}" "enc x = enc y"
  then show "x = y"
    using enc_prefix_free [of x y "[]" "[]"] by simp
qed

lemma concat_enc_inj:
  assumes "\<forall>x \<in> set xs. wf x" "\<forall>y \<in> set ys. wf y" "concat (map enc xs) = concat (map enc ys)"
  shows "xs = ys"
  using assms
proof (induction xs arbitrary: ys)
  case Nil
  then show ?case by (cases ys) (auto simp: enc_nonempty)
next
  case (Cons x xs)
  then have "concat (map enc ys) \<noteq> []"
    by (metis concat.simps(2) list.simps(9) append_is_Nil_conv enc_nonempty list.set_intros(1))
  then obtain y ys' where ys: "ys = y # ys'"
    by (cases ys) auto
  have eq: "x = y \<and> concat (map enc xs) = concat (map enc ys')"
    by (rule enc_prefix_free) (use Cons.prems ys in simp_all)
  have "xs = ys'"
    by (rule Cons.IH) (use Cons.prems(1,2) ys eq in simp_all)
  with eq ys show ?case by simp
qed

end

text \<open>A reader that returns exactly what a writer wrote: the converse law.\<close>

locale exact_codec = codec +
  assumes enc_dec: "dec s = Some (x, s') \<Longrightarrow> wf x \<and> s = enc x @ s'"
begin

lemma dec_consumes: "dec s = Some (x, s') \<Longrightarrow> length s' < length s"
  using enc_dec enc_nonempty by fastforce

lemma dec_Some_iff: "dec s = Some (x, s') \<longleftrightarrow> wf x \<and> s = enc x @ s'"
  using enc_dec dec_enc by blast

end

text \<open>The loop \<^verbatim>\<open>for !s.Empty() { ... }\<close> that reads a sequence; the fuel is the input's length.\<close>

fun readMany_fuel :: "nat \<Rightarrow> (bytes \<Rightarrow> ('a \<times> bytes) option) \<Rightarrow> bytes \<Rightarrow> 'a list option" where
  "readMany_fuel n rd [] = Some []"
| "readMany_fuel 0 rd (b # s) = None"
| "readMany_fuel (Suc n) rd (b # s) = (case rd (b # s) of None \<Rightarrow> None
     | Some (x, s') \<Rightarrow> (case readMany_fuel n rd s' of None \<Rightarrow> None | Some xs \<Rightarrow> Some (x # xs)))"

definition readMany :: "(bytes \<Rightarrow> ('a \<times> bytes) option) \<Rightarrow> bytes \<Rightarrow> 'a list option" where
  "readMany rd s = readMany_fuel (length s) rd s"

context codec
begin

lemma readMany_fuel_concat:
  "\<forall>x \<in> set xs. wf x \<Longrightarrow> length xs \<le> n \<Longrightarrow> readMany_fuel n dec (concat (map enc xs)) = Some xs"
proof (induction xs arbitrary: n)
  case Nil
  then show ?case by simp
next
  case (Cons x xs)
  then have "enc x \<noteq> []"
    by (simp add: enc_nonempty)
  then obtain b bs where b: "enc x = b # bs"
    by (auto simp: neq_Nil_conv)
  from Cons.prems obtain m where "n = Suc m" "length xs \<le> m"
    by (cases n) auto
  with Cons b dec_enc [of x "concat (map enc xs)"] show ?case by simp
qed

lemma length_concat_enc: "\<forall>x \<in> set xs. wf x \<Longrightarrow> length xs \<le> length (concat (map enc xs))"
proof (induction xs)
  case Nil
  then show ?case by simp
next
  case (Cons x xs)
  then have "enc x \<noteq> []"
    by (simp add: enc_nonempty)
  with Cons show ?case
    by (cases "enc x") auto
qed

lemma readMany_concat: "\<forall>x \<in> set xs. wf x \<Longrightarrow> readMany dec (concat (map enc xs)) = Some xs"
  by (simp add: readMany_def readMany_fuel_concat length_concat_enc)

end

context exact_codec
begin

lemma readMany_fuel_exact:
  "readMany_fuel n dec s = Some xs \<Longrightarrow> s = concat (map enc xs) \<and> (\<forall>x \<in> set xs. wf x)"
proof (induction n arbitrary: s xs)
  case 0
  then show ?case by (cases s) auto
next
  case (Suc n)
  show ?case
  proof (cases s)
    case Nil
    with Suc.prems show ?thesis by simp
  next
    case (Cons b r)
    with Suc.prems obtain x s' ys where x: "dec s = Some (x, s')"
      and ys: "readMany_fuel n dec s' = Some ys" "xs = x # ys"
      by (auto split: option.splits)
    from Suc.IH [OF ys(1)] enc_dec [OF x] ys(2) show ?thesis by simp
  qed
qed

lemma readMany_Some_iff:
  "readMany dec s = Some xs \<longleftrightarrow> s = concat (map enc xs) \<and> (\<forall>x \<in> set xs. wf x)"
proof
  assume "readMany dec s = Some xs"
  then show "s = concat (map enc xs) \<and> (\<forall>x \<in> set xs. wf x)"
    unfolding readMany_def by (rule readMany_fuel_exact)
next
  assume "s = concat (map enc xs) \<and> (\<forall>x \<in> set xs. wf x)"
  then show "readMany dec s = Some xs"
    using readMany_concat [of xs] by simp
qed

end

interpretation u8c: exact_codec enc8 ReadUint8 "\<lambda>_. True"
  by unfold_locales (auto simp: wire_simps dest: wire_dest)

interpretation u16c: exact_codec enc16 ReadUint16 "\<lambda>_. True"
  by unfold_locales (auto simp: wire_simps dest: wire_dest)

interpretation u32c: exact_codec enc32 ReadUint32 "\<lambda>_. True"
  by unfold_locales (auto simp: wire_simps dest: wire_dest)

interpretation lp8: exact_codec pref8 ReadUint8LengthPrefixed "\<lambda>v. length v < 256"
  by unfold_locales (auto simp: wire_simps dest: wire_dest)

interpretation lp16: exact_codec pref16 ReadUint16LengthPrefixed "\<lambda>v. length v < 65536"
  by unfold_locales (auto simp: wire_simps dest: wire_dest)

interpretation lp24: exact_codec pref24 ReadUint24LengthPrefixed "\<lambda>v. length v < 16777216"
  by unfold_locales (auto simp: wire_simps dest: wire_dest)

lemma take_bit_24_eq: "unat v < 16777216 \<Longrightarrow> take_bit 24 v = (v :: u32)"
  by (rule word_unat_eq_iff [THEN iffD2]) (simp add: unsigned_take_bit_eq take_bit_nat_eq_self_iff)

lemma take_bit_24_less: "unat (take_bit 24 (v :: u32)) < 16777216"
  using take_bit_nat_less_exp [of 24 "unat v"] by (simp add: unsigned_take_bit_eq)

lemma enc24_take_bit: "enc24 (take_bit 24 v) = enc24 v"
  by (auto simp: enc24_def intro!: bit_word_eqI simp: bit_simps)

lemma ReadUint24_less: "ReadUint24 s = Some (v, s') \<Longrightarrow> unat v < 16777216"
  using ReadUint24_enc [of v s'] ReadUint24_SomeD [of s v s'] take_bit_24_less [of v] by simp

interpretation u24c: exact_codec enc24 ReadUint24 "\<lambda>v. unat v < 16777216"
  by unfold_locales (auto simp: wire_simps take_bit_24_eq dest: wire_dest ReadUint24_less)

end
