(* ===== verification/Extensions.thy ===== *)
theory Extensions
  imports Cryptobyte
begin

text \<open>
  Extensions of TLS messages: their type numbers (\<^verbatim>\<open>crypto/tls/common.go\<close>), their form on the wire, the statements that
  add one to a builder, and the loop with which the messages of \<^verbatim>\<open>crypto/tls/handshake_messages.go\<close> read them. A
  message is described by the list of its extensions: \<open>encExts\<close> is what marshalling writes, and \<open>steps\<close> is what the loop
  does on such a list, one lemma per extension.
\<close>

section \<open>Extensions\<close>

definition typeClientHello :: u8 where "typeClientHello = 1"
definition typeServerHello :: u8 where "typeServerHello = 2"
definition extensionServerName :: u16 where "extensionServerName = 0"
definition extensionStatusRequest :: u16 where "extensionStatusRequest = 5"
definition extensionSupportedCurves :: u16 where "extensionSupportedCurves = 10"
definition extensionSupportedPoints :: u16 where "extensionSupportedPoints = 11"
definition extensionSignatureAlgorithms :: u16 where "extensionSignatureAlgorithms = 13"
definition extensionALPN :: u16 where "extensionALPN = 16"
definition extensionSCT :: u16 where "extensionSCT = 18"
definition extensionExtendedMasterSecret :: u16 where "extensionExtendedMasterSecret = 23"
definition extensionDelegatedCredentials :: u16 where "extensionDelegatedCredentials = 34"
definition extensionSessionTicket :: u16 where "extensionSessionTicket = 35"
definition extensionPreSharedKey :: u16 where "extensionPreSharedKey = 41"
definition extensionEarlyData :: u16 where "extensionEarlyData = 42"
definition extensionSupportedVersions :: u16 where "extensionSupportedVersions = 43"
definition extensionCookie :: u16 where "extensionCookie = 44"
definition extensionPSKModes :: u16 where "extensionPSKModes = 45"
definition extensionSignatureAlgorithmsCert :: u16 where "extensionSignatureAlgorithmsCert = 50"
definition extensionKeyShare :: u16 where "extensionKeyShare = 51"
definition extensionQUICTransportParameters :: u16 where "extensionQUICTransportParameters = 57"
definition extensionRenegotiationInfo :: u16 where "extensionRenegotiationInfo = 0xff01"
definition extensionECH :: u16 where "extensionECH = 0xfe0d"
definition extensionECHOuterExtensions :: u16 where "extensionECHOuterExtensions = 0xfd00"
definition extensionTLSFlags :: u16 where "extensionTLSFlags = 0xfe01"
definition scsvRenegotiation :: u16 where "scsvRenegotiation = 0x00ff"
definition statusTypeOCSP :: u8 where "statusTypeOCSP = 1"

lemmas extension_ids =
  extensionServerName_def extensionStatusRequest_def extensionSupportedCurves_def extensionSupportedPoints_def
  extensionSignatureAlgorithms_def extensionALPN_def extensionSCT_def extensionExtendedMasterSecret_def
  extensionDelegatedCredentials_def extensionSessionTicket_def extensionPreSharedKey_def extensionEarlyData_def
  extensionSupportedVersions_def extensionCookie_def extensionPSKModes_def extensionSignatureAlgorithmsCert_def
  extensionKeyShare_def extensionQUICTransportParameters_def extensionRenegotiationInfo_def extensionECH_def
  extensionTLSFlags_def

text \<open>An extension on the wire: its type and its length-prefixed data.\<close>

type_synonym extension = "u16 \<times> bytes"

definition readExt :: "bytes \<Rightarrow> (extension \<times> bytes) option" where
  "readExt s = do {
     (ext, s) \<leftarrow> ReadUint16 s;
     (extData, s) \<leftarrow> ReadUint16LengthPrefixed s;
     Some ((ext, extData), s)}"

definition encExt :: "extension \<Rightarrow> bytes" where
  "encExt e = enc16 (fst e) @ pref16 (snd e)"

interpretation extc: exact_codec encExt readExt "\<lambda>e. length (snd e) < 65536"
  by unfold_locales (auto simp: readExt_def encExt_def wire_simps dest!: wire_dest split: Option.bind_splits)

definition addExt :: "u16 \<Rightarrow> (Builder \<Rightarrow> build) \<Rightarrow> Builder \<Rightarrow> build" where
  "addExt ext body = stmts [AddUint16 ext, AddUint16LengthPrefixed body]"

definition addWhen :: "bool \<Rightarrow> (Builder \<Rightarrow> build) \<Rightarrow> Builder \<Rightarrow> build" where
  "addWhen c f b = (if c then f b else Done b)"

definition addBytesWithLength :: "bytes \<Rightarrow> nat \<Rightarrow> Builder \<Rightarrow> build" where
  "addBytesWithLength v n b = (if length v \<noteq> n then SetError ''invalid value length'' b else AddBytes v b)"

definition addUint16s :: "u16 list \<Rightarrow> Builder \<Rightarrow> build" where
  "addUint16s xs = forEach AddUint16 xs"

definition readNonEmpty8 :: "bytes \<Rightarrow> (bytes \<times> bytes) option" where
  "readNonEmpty8 s = do {(v, s) \<leftarrow> ReadUint8LengthPrefixed s; if Empty v then None else Some (v, s)}"

text \<open>
  The loop over the extensions of a message, which refuses a repeated type: \<open>rd\<close> reads one extension into the
  message and returns what is left of its data, which must be empty; its third argument tells whether the extension is the
  last one. Every iteration consumes at least four bytes.
\<close>

fun extLoop :: "(u16 \<Rightarrow> bytes \<Rightarrow> bool \<Rightarrow> 'm \<Rightarrow> ('m \<times> bytes) option) \<Rightarrow> nat \<Rightarrow> u16 list \<Rightarrow> bytes \<Rightarrow> 'm \<Rightarrow> 'm option" where
  "extLoop rd n seen [] m = Some m"
| "extLoop rd 0 seen (b # bs) m = None"
| "extLoop rd (Suc n) seen (b # bs) m =
     (case readExt (b # bs) of None \<Rightarrow> None
      | Some ((ext, d), s) \<Rightarrow>
          if ext \<in> set seen then None
          else (case rd ext d (Empty s) m of None \<Rightarrow> None
                | Some (m', r) \<Rightarrow> if \<not> Empty r then None else extLoop rd n (ext # seen) s m'))"

section \<open>Lists of extensions\<close>

definition optExt :: "bool \<Rightarrow> u16 \<Rightarrow> bytes \<Rightarrow> extension list" where
  "optExt c ext d = (if c then [(ext, d)] else [])"

definition enc16s :: "u16 list \<Rightarrow> bytes" where
  "enc16s xs = concat (map enc16 xs)"

definition encExts :: "extension list \<Rightarrow> bytes" where
  "encExts es = concat (map encExt es)"

lemma length_enc16s [simp]: "length (enc16s xs) = 2 * length xs"
  by (induction xs) (simp_all add: enc16s_def)

lemma appends_addUint16s [builder_intros]: "appends (addUint16s xs) (enc16s xs)"
  unfolding addUint16s_def enc16s_def by (rule appends_forEach) (rule appends_AddUint16)

lemma appends_addExt: "appends f d \<Longrightarrow> length d < 65536 \<Longrightarrow> appends (addExt ext f) (encExt (ext, d))"
  unfolding addExt_def encExt_def by (simp, intro builder_intros)

lemma enc16_0: "enc16 0 = pref16 []"
  by (simp add: enc16_def pref16_def be.simps numeral_2_eq_2)

lemma appends_emptyExt: "appends (stmts [AddUint16 ext, AddUint16 0]) (encExt (ext, []))"
  using appends_Cons [OF appends_AddUint16 appends_last [OF appends_AddUint16 [of 0]], of ext] by (simp add: encExt_def enc16_0)

lemma appends_addWhen: "(c \<Longrightarrow> appends f xs) \<Longrightarrow> appends (addWhen c f) (if c then xs else [])"
  by (auto simp: appends_def addWhen_def)

lemma encExts_append [simp]: "encExts (xs @ ys) = encExts xs @ encExts ys"
  by (simp add: encExts_def)

lemma encExts_simps [simp]: "encExts [] = []" "encExts (e # es) = encExt e @ encExts es"
  by (simp_all add: encExts_def)

lemma appends_optExt:
  assumes "c \<Longrightarrow> appends f (encExt (ext, d))"
  shows "appends (addWhen c f) (encExts (optExt c ext d))"
  using appends_addWhen [of c f "encExt (ext, d)"] assms by (auto simp: encExts_def optExt_def split: if_splits)

lemma length_encExt: "length (encExt e) = length (snd e) + 4"
  by (simp add: encExt_def)

lemma list_all_optExt [simp]: "list_all P (optExt c ext d) \<longleftrightarrow> (c \<longrightarrow> P (ext, d))"
  by (simp add: optExt_def)

lemma appends_nil_case:
  assumes "\<And>y. x = Some y \<Longrightarrow> appends (f y) (encExt (ext, g y))"
  shows "appends (case x of None \<Rightarrow> stmts [] | Some y \<Rightarrow> f y) (encExts (optExt (x \<noteq> None) ext (g (the x))))"
  using assms by (cases x) (simp_all add: optExt_def appends_Nil)

lemma appends_optBytes:
  assumes "x \<noteq> None \<Longrightarrow> length (the x) < 65536"
  shows "appends (case x of None \<Rightarrow> stmts [] | Some q \<Rightarrow> addExt ext (AddBytes q)) (encExts (optExt (x \<noteq> None) ext (the x)))"
  by (rule appends_nil_case [where g = "\<lambda>y. y"]) (use assms in \<open>auto intro: appends_addExt appends_AddBytes\<close>)

lemma addWhen_addWhen: "addWhen c (addWhen d f) = addWhen (c \<and> d) f"
  by (auto simp: addWhen_def fun_eq_iff)

lemma appends_addBytesWithLength [builder_intros]: "length v = n \<Longrightarrow> appends (addBytesWithLength v n) v"
  by (simp add: addBytesWithLength_def appends_def AddBytes_def b_add_def)

lemma enc16s_Nil [simp]: "enc16s xs = [] \<longleftrightarrow> xs = []"
  by (cases xs) (simp_all add: enc16s_def)

lemma readMany_enc16s: "readMany ReadUint16 (enc16s xs) = Some xs"
  using u16c.readMany_concat [of xs] by (simp add: enc16s_def)

lemma in_optExt [simp]: "x \<in> fst ` set (optExt c e d) \<longleftrightarrow> c \<and> x = e"
  by (auto simp: optExt_def)

lemma distinct_optExt: "distinct (map fst es) \<Longrightarrow> (c \<Longrightarrow> ext \<notin> fst ` set es) \<Longrightarrow> distinct (map fst (optExt c ext d @ es))"
  by (simp add: optExt_def)

lemma length_exts_le: "length es \<le> length (encExts es)"
  by (induction es) (simp_all add: length_encExt)

interpretation nonEmpty8c: codec pref8 readNonEmpty8 "\<lambda>v. v \<noteq> [] \<and> length v < 256"
  by unfold_locales (auto simp: readNonEmpty8_def wire_simps)

text \<open>The loop over a list of extensions.\<close>

fun steps :: "(u16 \<Rightarrow> bytes \<Rightarrow> bool \<Rightarrow> 'm \<Rightarrow> ('m \<times> bytes) option) \<Rightarrow> extension list \<Rightarrow> 'm \<Rightarrow> 'm option" where
  "steps rd [] m = Some m"
| "steps rd (e # es) m = (case rd (fst e) (snd e) (es = []) m of None \<Rightarrow> None
     | Some (m', r) \<Rightarrow> if r \<noteq> [] then None else steps rd es m')"

lemma extLoop_steps:
  assumes "list_all (\<lambda>e. length (snd e) < 65536) es" and "length es \<le> n"
  shows "extLoop rd n seen (encExts es) m =
    (if distinct (map fst es) \<and> set (map fst es) \<inter> set seen = {} then steps rd es m else None)"
  using assms
proof (induction es arbitrary: n seen m)
  case Nil
  then show ?case by simp
next
  case (Cons e es)
  then obtain k where n: "n = Suc k" "length es \<le> k" by (cases n) auto
  have "encExt e \<noteq> []" by (simp add: encExt_def)
  then obtain b bs where b: "encExt e @ encExts es = b # bs" by (cases "encExt e") auto
  obtain ext d where e: "e = (ext, d)" by (cases e)
  have r: "readExt (b # bs) = Some ((ext, d), encExts es)"
    using extc.dec_enc [of e "encExts es"] Cons.prems(1) b by (simp add: e)
  have emp: "encExts es = [] \<longleftrightarrow> es = []"
    by (cases es) (simp_all add: encExt_def)
  show ?case
    using Cons.prems n(2) b by (simp add: n(1) e r emp Cons.IH split: option.splits prod.splits)
qed

lemma steps_opt:
  assumes "c \<Longrightarrow> rd ext d (es = []) r = Some (r', [])" and "\<not> c \<Longrightarrow> r' = r"
  shows "steps rd (optExt c ext d @ es) r = steps rd es r'"
  using assms by (auto simp: optExt_def)

end
