(* ===== verification/Client_Hello.thy ===== *)
theory Client_Hello
  imports Extensions
begin

text \<open>
  The ClientHello message of \<^verbatim>\<open>crypto/tls/handshake_messages.go\<close>: the record of its fields, marshal with the cache of
  the marshalled bytes, unmarshal with its refusal of repeated extensions, and the two functions that
  handle the binders of pre-shared keys. \<open>ch_extensions\<close> is the list of extensions a message stands for;
  marshal is shown to write exactly their encodings, and unmarshal to read a list of extensions one by one
  (\<open>steps\<close>), so that the round trip is a chain of one lemma per extension.
\<close>

section \<open>The message\<close>

record keyShare =
  ks_group :: u16
  ks_data :: bytes

record pskIdentity =
  psk_label :: bytes
  psk_obfuscatedTicketAge :: u32

text \<open>
  Go's \<^verbatim>\<open>clientHelloMsg\<close>; slices whose being nil the code tests are options, strings are their bytes.
\<close>

record clientHelloMsg =
  ch_raw :: "bytes option"
  ch_vers :: u16
  ch_random :: bytes
  ch_sessionId :: bytes
  ch_cipherSuites :: "u16 list"
  ch_compressionMethods :: bytes
  ch_serverName :: bytes
  ch_ocspStapling :: bool
  ch_supportedCurves :: "u16 list"
  ch_supportedPoints :: bytes
  ch_ticketSupported :: bool
  ch_sessionTicket :: bytes
  ch_supportedSignatureAlgorithms :: "u16 list"
  ch_supportedSignatureAlgorithmsCert :: "u16 list"
  ch_supportedSignatureAlgorithmsDC :: "u16 list"
  ch_secureRenegotiationSupported :: bool
  ch_secureRenegotiation :: bytes
  ch_extendedMasterSecret :: bool
  ch_delegatedCredentialSupported :: bool
  ch_alpnProtocols :: "bytes list"
  ch_scts :: bool
  ch_supportedVersions :: "u16 list"
  ch_tlsFlags :: bytes
  ch_cookie :: bytes
  ch_keyShares :: "keyShare list option"
  ch_earlyData :: bool
  ch_pskModes :: bytes
  ch_pskIdentities :: "pskIdentity list"
  ch_pskBinders :: "bytes list"
  ch_quicTransportParameters :: "bytes option"
  ch_ech :: bytes

definition emptyHello :: clientHelloMsg where
  "emptyHello =
     \<lparr>ch_raw = None, ch_vers = 0, ch_random = [], ch_sessionId = [], ch_cipherSuites = [], ch_compressionMethods = [],
      ch_serverName = [], ch_ocspStapling = False, ch_supportedCurves = [], ch_supportedPoints = [],
      ch_ticketSupported = False, ch_sessionTicket = [], ch_supportedSignatureAlgorithms = [],
      ch_supportedSignatureAlgorithmsCert = [], ch_supportedSignatureAlgorithmsDC = [],
      ch_secureRenegotiationSupported = False, ch_secureRenegotiation = [], ch_extendedMasterSecret = False,
      ch_delegatedCredentialSupported = False, ch_alpnProtocols = [], ch_scts = False, ch_supportedVersions = [],
      ch_tlsFlags = [], ch_cookie = [], ch_keyShares = None, ch_earlyData = False, ch_pskModes = [],
      ch_pskIdentities = [], ch_pskBinders = [], ch_quicTransportParameters = None, ch_ech = []\<rparr>"

section \<open>Marshalling\<close>

definition ch_addExtensions :: "clientHelloMsg \<Rightarrow> Builder \<Rightarrow> build" where
  "ch_addExtensions m = stmts
     [addWhen (length (ch_ech m) > 0) (addExt extensionECH (AddBytes (ch_ech m))),
      addWhen (length (ch_serverName m) > 0) (addExt extensionServerName
        (AddUint16LengthPrefixed (stmts [AddUint8 0, AddUint16LengthPrefixed (AddBytes (ch_serverName m))]))),
      addWhen (ch_ocspStapling m) (addExt extensionStatusRequest (stmts [AddUint8 1, AddUint16 0, AddUint16 0])),
      addWhen (length (ch_supportedCurves m) > 0) (addExt extensionSupportedCurves
        (AddUint16LengthPrefixed (addUint16s (ch_supportedCurves m)))),
      addWhen (length (ch_supportedPoints m) > 0) (addExt extensionSupportedPoints
        (AddUint8LengthPrefixed (AddBytes (ch_supportedPoints m)))),
      addWhen (ch_ticketSupported m) (addExt extensionSessionTicket (AddBytes (ch_sessionTicket m))),
      addWhen (length (ch_supportedSignatureAlgorithms m) > 0) (addExt extensionSignatureAlgorithms
        (AddUint16LengthPrefixed (addUint16s (ch_supportedSignatureAlgorithms m)))),
      addWhen (length (ch_supportedSignatureAlgorithmsCert m) > 0) (addExt extensionSignatureAlgorithmsCert
        (AddUint16LengthPrefixed (addUint16s (ch_supportedSignatureAlgorithmsCert m)))),
      addWhen (ch_secureRenegotiationSupported m) (addExt extensionRenegotiationInfo
        (AddUint8LengthPrefixed (AddBytes (ch_secureRenegotiation m)))),
      addWhen (ch_extendedMasterSecret m) (stmts [AddUint16 extensionExtendedMasterSecret, AddUint16 0]),
      addWhen (ch_delegatedCredentialSupported m) (addWhen (length (ch_supportedSignatureAlgorithmsDC m) > 0)
        (addExt extensionDelegatedCredentials (AddUint16LengthPrefixed (addUint16s (ch_supportedSignatureAlgorithmsDC m))))),
      addWhen (length (ch_alpnProtocols m) > 0) (addExt extensionALPN
        (AddUint16LengthPrefixed (forEach (\<lambda>proto. AddUint8LengthPrefixed (AddBytes proto)) (ch_alpnProtocols m)))),
      addWhen (ch_scts m) (stmts [AddUint16 extensionSCT, AddUint16 0]),
      addWhen (length (ch_supportedVersions m) > 0) (addExt extensionSupportedVersions
        (AddUint8LengthPrefixed (addUint16s (ch_supportedVersions m)))),
      addWhen (length (ch_tlsFlags m) > 0) (addExt extensionTLSFlags (AddUint8LengthPrefixed (AddBytes (ch_tlsFlags m)))),
      addWhen (length (ch_cookie m) > 0) (addExt extensionCookie (AddUint16LengthPrefixed (AddBytes (ch_cookie m)))),
      (case ch_keyShares m of None \<Rightarrow> stmts [] | Some kss \<Rightarrow> addExt extensionKeyShare
        (AddUint16LengthPrefixed (forEach (\<lambda>ks. stmts [AddUint16 (ks_group ks), AddUint16LengthPrefixed (AddBytes (ks_data ks))]) kss))),
      addWhen (ch_earlyData m) (stmts [AddUint16 extensionEarlyData, AddUint16 0]),
      addWhen (length (ch_pskModes m) > 0) (addExt extensionPSKModes (AddUint8LengthPrefixed (AddBytes (ch_pskModes m)))),
      (case ch_quicTransportParameters m of None \<Rightarrow> stmts [] | Some q \<Rightarrow> addExt extensionQUICTransportParameters (AddBytes q)),
      addWhen (length (ch_pskIdentities m) > 0) (addExt extensionPreSharedKey (stmts
        [AddUint16LengthPrefixed (forEach (\<lambda>psk. stmts
           [AddUint16LengthPrefixed (AddBytes (psk_label psk)), AddUint32 (psk_obfuscatedTicketAge psk)]) (ch_pskIdentities m)),
         AddUint16LengthPrefixed (forEach (\<lambda>binder. AddUint8LengthPrefixed (AddBytes binder)) (ch_pskBinders m))]))]"

definition ch_marshal :: "clientHelloMsg \<Rightarrow> clientHelloMsg \<times> bytes res" where
  "ch_marshal m = (case ch_raw m of
       Some r \<Rightarrow> (m, Ok r)
     | None \<Rightarrow> (case runBytes (ch_addExtensions m) of
           Panic p \<Rightarrow> (m, Panic p)
         | Err e \<Rightarrow> (m, Err e)
         | Ok extBytes \<Rightarrow>
             (case runBytes (stmts [AddUint8 typeClientHello, AddUint24LengthPrefixed (stmts
                 [AddUint16 (ch_vers m), addBytesWithLength (ch_random m) 32,
                  AddUint8LengthPrefixed (AddBytes (ch_sessionId m)),
                  AddUint16LengthPrefixed (addUint16s (ch_cipherSuites m)),
                  AddUint8LengthPrefixed (AddBytes (ch_compressionMethods m)),
                  addWhen (length extBytes > 0) (AddUint16LengthPrefixed (AddBytes extBytes))])]) of
                Ok raw \<Rightarrow> (m\<lparr>ch_raw := Some raw\<rparr>, Ok raw)
              | Err e \<Rightarrow> (m\<lparr>ch_raw := None\<rparr>, Err e)
              | Panic p \<Rightarrow> (m, Panic p))))"

section \<open>Unmarshalling\<close>

definition readName :: "bytes \<Rightarrow> ((u8 \<times> bytes) \<times> bytes) option" where
  "readName s = do {
     (nameType, s) \<leftarrow> ReadUint8 s;
     (serverName, s) \<leftarrow> ReadUint16LengthPrefixed s;
     if Empty serverName then None else Some ((nameType, serverName), s)}"

definition readKeyShare :: "bytes \<Rightarrow> (keyShare \<times> bytes) option" where
  "readKeyShare s = do {
     (group, s) \<leftarrow> ReadUint16 s;
     (data, s) \<leftarrow> ReadUint16LengthPrefixed s;
     if length data = 0 then None else Some (\<lparr>ks_group = group, ks_data = data\<rparr>, s)}"

definition readIdentity :: "bytes \<Rightarrow> (pskIdentity \<times> bytes) option" where
  "readIdentity s = do {
     (label, s) \<leftarrow> ReadUint16LengthPrefixed s;
     (age, s) \<leftarrow> ReadUint32 s;
     if length label = 0 then None else Some (\<lparr>psk_label = label, psk_obfuscatedTicketAge = age\<rparr>, s)}"

text \<open>The host name among the entries of the server name extension: at most one, without a trailing dot.\<close>

primrec pickName :: "(u8 \<times> bytes) list \<Rightarrow> bytes \<Rightarrow> bytes option" where
  "pickName [] cur = Some cur"
| "pickName (n # ns) cur =
     (if fst n \<noteq> 0 then pickName ns cur
      else if length cur \<noteq> 0 then None
      else if last (snd n) = 0x2e then None
      else pickName ns (snd n))"

text \<open>A non-empty list of 16-bit values behind a 16-bit length.\<close>

definition readUint16List :: "bytes \<Rightarrow> (u16 list \<times> bytes) option" where
  "readUint16List d = do {
     (l, d) \<leftarrow> ReadUint16LengthPrefixed d;
     if Empty l then None else do {xs \<leftarrow> readMany ReadUint16 l; Some (xs, d)}}"

text \<open>
  One extension: the new message and what is left of the extension's data, which must be empty. \<open>final\<close> tells
  whether it is the last extension. Unknown extensions are skipped with their data.
\<close>

definition ch_readExtension :: "u16 \<Rightarrow> bytes \<Rightarrow> bool \<Rightarrow> clientHelloMsg \<Rightarrow> (clientHelloMsg \<times> bytes) option" where
  "ch_readExtension ext d final m =
     (if ext = extensionECH then
        if length d = 0 then None else do {(v, d) \<leftarrow> ReadBytes (length d) d; Some (m\<lparr>ch_ech := v\<rparr>, d)}
      else if ext = extensionServerName then do {
        (nameList, d) \<leftarrow> ReadUint16LengthPrefixed d;
        if Empty nameList then None else do {
        names \<leftarrow> readMany readName nameList;
        name \<leftarrow> pickName names (ch_serverName m);
        Some (m\<lparr>ch_serverName := name\<rparr>, d)}}
      else if ext = extensionStatusRequest then do {
        (statusType, d) \<leftarrow> ReadUint8 d;
        (_, d) \<leftarrow> ReadUint16LengthPrefixed d;
        (_, d) \<leftarrow> ReadUint16LengthPrefixed d;
        Some (m\<lparr>ch_ocspStapling := (statusType = statusTypeOCSP)\<rparr>, d)}
      else if ext = extensionSupportedCurves then do {
        (xs, d) \<leftarrow> readUint16List d;
        Some (m\<lparr>ch_supportedCurves := ch_supportedCurves m @ xs\<rparr>, d)}
      else if ext = extensionSupportedPoints then do {
        (v, d) \<leftarrow> ReadUint8LengthPrefixed d;
        if length v = 0 then None else Some (m\<lparr>ch_supportedPoints := v\<rparr>, d)}
      else if ext = extensionSessionTicket then do {
        (v, d) \<leftarrow> ReadBytes (length d) d;
        Some (m\<lparr>ch_ticketSupported := True, ch_sessionTicket := v\<rparr>, d)}
      else if ext = extensionSignatureAlgorithms then do {
        (xs, d) \<leftarrow> readUint16List d;
        Some (m\<lparr>ch_supportedSignatureAlgorithms := ch_supportedSignatureAlgorithms m @ xs\<rparr>, d)}
      else if ext = extensionSignatureAlgorithmsCert then do {
        (xs, d) \<leftarrow> readUint16List d;
        Some (m\<lparr>ch_supportedSignatureAlgorithmsCert := ch_supportedSignatureAlgorithmsCert m @ xs\<rparr>, d)}
      else if ext = extensionRenegotiationInfo then do {
        (v, d) \<leftarrow> ReadUint8LengthPrefixed d;
        Some (m\<lparr>ch_secureRenegotiation := v, ch_secureRenegotiationSupported := True\<rparr>, d)}
      else if ext = extensionExtendedMasterSecret then Some (m\<lparr>ch_extendedMasterSecret := True\<rparr>, d)
      else if ext = extensionALPN then do {
        (protoList, d) \<leftarrow> ReadUint16LengthPrefixed d;
        if Empty protoList then None else do {
        protos \<leftarrow> readMany readNonEmpty8 protoList;
        Some (m\<lparr>ch_alpnProtocols := ch_alpnProtocols m @ protos\<rparr>, d)}}
      else if ext = extensionSCT then Some (m\<lparr>ch_scts := True\<rparr>, d)
      else if ext = extensionSupportedVersions then do {
        (versList, d) \<leftarrow> ReadUint8LengthPrefixed d;
        if Empty versList then None else do {
        xs \<leftarrow> readMany ReadUint16 versList;
        Some (m\<lparr>ch_supportedVersions := ch_supportedVersions m @ xs\<rparr>, d)}}
      else if ext = extensionTLSFlags then do {
        (flagsList, d) \<leftarrow> ReadUint8LengthPrefixed d;
        if Empty flagsList then None else Some (m\<lparr>ch_tlsFlags := flagsList\<rparr>, d)}
      else if ext = extensionCookie then do {
        (v, d) \<leftarrow> ReadUint16LengthPrefixed d;
        if length v = 0 then None else Some (m\<lparr>ch_cookie := v\<rparr>, d)}
      else if ext = extensionDelegatedCredentials then do {
        (xs, d) \<leftarrow> readUint16List d;
        Some (m\<lparr>ch_supportedSignatureAlgorithmsDC := ch_supportedSignatureAlgorithmsDC m @ xs,
                ch_delegatedCredentialSupported := True\<rparr>, d)}
      else if ext = extensionKeyShare then do {
        (clientShares, d) \<leftarrow> ReadUint16LengthPrefixed d;
        kss \<leftarrow> readMany readKeyShare clientShares;
        Some (if kss = [] then m
              else m\<lparr>ch_keyShares := Some ((case ch_keyShares m of None \<Rightarrow> [] | Some xs \<Rightarrow> xs) @ kss)\<rparr>, d)}
      else if ext = extensionEarlyData then Some (m\<lparr>ch_earlyData := True\<rparr>, d)
      else if ext = extensionPSKModes then do {
        (v, d) \<leftarrow> ReadUint8LengthPrefixed d;
        Some (m\<lparr>ch_pskModes := v\<rparr>, d)}
      else if ext = extensionQUICTransportParameters then do {
        (v, d) \<leftarrow> ReadBytes (length d) d;
        Some (m\<lparr>ch_quicTransportParameters := Some v\<rparr>, d)}
      else if ext = extensionPreSharedKey then
        if \<not> final then None else do {
        (identities, d) \<leftarrow> ReadUint16LengthPrefixed d;
        if Empty identities then None else do {
        psks \<leftarrow> readMany readIdentity identities;
        (binders, d) \<leftarrow> ReadUint16LengthPrefixed d;
        if Empty binders then None else do {
        bs \<leftarrow> readMany readNonEmpty8 binders;
        Some (m\<lparr>ch_pskIdentities := ch_pskIdentities m @ psks, ch_pskBinders := ch_pskBinders m @ bs\<rparr>, d)}}}
      else Some (m, []))"

definition ch_extLoop :: "nat \<Rightarrow> u16 list \<Rightarrow> bytes \<Rightarrow> clientHelloMsg \<Rightarrow> clientHelloMsg option" where
  "ch_extLoop = extLoop ch_readExtension"

definition ch_unmarshal :: "bytes \<Rightarrow> clientHelloMsg option" where
  "ch_unmarshal data = do {
     s \<leftarrow> Skip 4 data;
     (vers, s) \<leftarrow> ReadUint16 s;
     (random, s) \<leftarrow> ReadBytes 32 s;
     (sessionId, s) \<leftarrow> ReadUint8LengthPrefixed s;
     (cipherSuites, s) \<leftarrow> ReadUint16LengthPrefixed s;
     suites \<leftarrow> readMany ReadUint16 cipherSuites;
     (compressionMethods, s) \<leftarrow> ReadUint8LengthPrefixed s;
     let m = emptyHello\<lparr>ch_raw := Some data, ch_vers := vers, ch_random := random, ch_sessionId := sessionId,
                        ch_cipherSuites := suites, ch_secureRenegotiationSupported := (scsvRenegotiation \<in> set suites),
                        ch_compressionMethods := compressionMethods\<rparr>;
     if Empty s then Some m
     else do {
       (extensions, s) \<leftarrow> ReadUint16LengthPrefixed s;
       if \<not> Empty s then None else ch_extLoop (length extensions) [] extensions m}}"

section \<open>What is marshalled\<close>

definition encKeyShare :: "keyShare \<Rightarrow> bytes" where
  "encKeyShare ks = enc16 (ks_group ks) @ pref16 (ks_data ks)"

definition encIdentity :: "pskIdentity \<Rightarrow> bytes" where
  "encIdentity psk = pref16 (psk_label psk) @ enc32 (psk_obfuscatedTicketAge psk)"

definition encName :: "u8 \<times> bytes \<Rightarrow> bytes" where
  "encName n = enc8 (fst n) @ pref16 (snd n)"

definition pskData :: "clientHelloMsg \<Rightarrow> bytes" where
  "pskData m = pref16 (concat (map encIdentity (ch_pskIdentities m))) @ pref16 (concat (map pref8 (ch_pskBinders m)))"

text \<open>The extensions of a message, in the order in which they are written.\<close>

definition ch_frontExtensions :: "clientHelloMsg \<Rightarrow> extension list" where
  "ch_frontExtensions m =
     optExt (ch_ech m \<noteq> []) extensionECH (ch_ech m) @
     optExt (ch_serverName m \<noteq> []) extensionServerName (pref16 (encName (0, ch_serverName m))) @
     optExt (ch_ocspStapling m) extensionStatusRequest (enc8 1 @ enc16 0 @ enc16 0) @
     optExt (ch_supportedCurves m \<noteq> []) extensionSupportedCurves (pref16 (enc16s (ch_supportedCurves m))) @
     optExt (ch_supportedPoints m \<noteq> []) extensionSupportedPoints (pref8 (ch_supportedPoints m)) @
     optExt (ch_ticketSupported m) extensionSessionTicket (ch_sessionTicket m) @
     optExt (ch_supportedSignatureAlgorithms m \<noteq> []) extensionSignatureAlgorithms (pref16 (enc16s (ch_supportedSignatureAlgorithms m))) @
     optExt (ch_supportedSignatureAlgorithmsCert m \<noteq> []) extensionSignatureAlgorithmsCert
       (pref16 (enc16s (ch_supportedSignatureAlgorithmsCert m))) @
     optExt (ch_secureRenegotiationSupported m) extensionRenegotiationInfo (pref8 (ch_secureRenegotiation m)) @
     optExt (ch_extendedMasterSecret m) extensionExtendedMasterSecret [] @
     optExt (ch_delegatedCredentialSupported m \<and> ch_supportedSignatureAlgorithmsDC m \<noteq> []) extensionDelegatedCredentials
       (pref16 (enc16s (ch_supportedSignatureAlgorithmsDC m))) @
     optExt (ch_alpnProtocols m \<noteq> []) extensionALPN (pref16 (concat (map pref8 (ch_alpnProtocols m)))) @
     optExt (ch_scts m) extensionSCT [] @
     optExt (ch_supportedVersions m \<noteq> []) extensionSupportedVersions (pref8 (enc16s (ch_supportedVersions m))) @
     optExt (ch_tlsFlags m \<noteq> []) extensionTLSFlags (pref8 (ch_tlsFlags m)) @
     optExt (ch_cookie m \<noteq> []) extensionCookie (pref16 (ch_cookie m)) @
     optExt (ch_keyShares m \<noteq> None) extensionKeyShare (pref16 (concat (map encKeyShare (the (ch_keyShares m))))) @
     optExt (ch_earlyData m) extensionEarlyData [] @
     optExt (ch_pskModes m \<noteq> []) extensionPSKModes (pref8 (ch_pskModes m)) @
     optExt (ch_quicTransportParameters m \<noteq> None) extensionQUICTransportParameters (the (ch_quicTransportParameters m))"

definition ch_extensions :: "clientHelloMsg \<Rightarrow> extension list" where
  "ch_extensions m = ch_frontExtensions m @ optExt (ch_pskIdentities m \<noteq> []) extensionPreSharedKey (pskData m)"

text \<open>A hello message with given extensions; without any, the length of the extensions is left out.\<close>

definition encHello :: "u16 \<Rightarrow> bytes \<Rightarrow> bytes \<Rightarrow> bytes \<Rightarrow> bytes \<Rightarrow> bytes \<Rightarrow> bytes" where
  "encHello v r sid cs cm xs = enc16 v @ r @ pref8 sid @ pref16 cs @ pref8 cm @ (if length xs > 0 then pref16 xs else [])"

definition ch_encode :: "clientHelloMsg \<Rightarrow> bytes" where
  "ch_encode m = enc8 typeClientHello @ pref24 (encHello (ch_vers m) (ch_random m) (ch_sessionId m)
     (enc16s (ch_cipherSuites m)) (ch_compressionMethods m) (encExts (ch_extensions m)))"

text \<open>Lengths that fit their prefixes.\<close>

definition fits_hello :: "clientHelloMsg \<Rightarrow> bool" where
  "fits_hello m \<longleftrightarrow>
     length (ch_random m) = 32 \<and> length (ch_sessionId m) < 256 \<and> length (ch_cipherSuites m) < 32768 \<and>
     length (ch_compressionMethods m) < 256 \<and> length (ch_supportedPoints m) < 256 \<and> length (ch_secureRenegotiation m) < 256 \<and>
     list_all (\<lambda>p. length p < 256) (ch_alpnProtocols m) \<and> length (ch_supportedVersions m) < 128 \<and>
     length (ch_tlsFlags m) < 256 \<and> length (ch_pskModes m) < 256 \<and>
     list_all (\<lambda>p. length p < 256) (ch_pskBinders m) \<and>
     list_all (\<lambda>ks. length (ks_data ks) < 65536) (case ch_keyShares m of None \<Rightarrow> [] | Some kss \<Rightarrow> kss) \<and>
     list_all (\<lambda>p. length (psk_label p) < 65536) (ch_pskIdentities m) \<and>
     list_all (\<lambda>e. length (snd e) < 65536) (ch_extensions m) \<and> length (encExts (ch_extensions m)) < 65536"

lemma appends_keyShare [builder_intros]:
  "length (ks_data ks) < 65536 \<Longrightarrow>
   appends (stmts [AddUint16 (ks_group ks), AddUint16LengthPrefixed (AddBytes (ks_data ks))]) (encKeyShare ks)"
  unfolding encKeyShare_def by (intro builder_intros) simp_all

lemma appends_identity [builder_intros]:
  "length (psk_label psk) < 65536 \<Longrightarrow>
   appends (stmts [AddUint16LengthPrefixed (AddBytes (psk_label psk)), AddUint32 (psk_obfuscatedTicketAge psk)]) (encIdentity psk)"
  unfolding encIdentity_def by (intro builder_intros) simp_all

text \<open>The pieces whose data are structured.\<close>

lemmas fits_unfold = fits_hello_def ch_extensions_def ch_frontExtensions_def list_all_append append_assoc list_all_optExt snd_conv

lemma appends_serverName:
  assumes "fits_hello m" and "ch_serverName m \<noteq> []"
  shows "appends (addExt extensionServerName
        (AddUint16LengthPrefixed (stmts [AddUint8 0, AddUint16LengthPrefixed (AddBytes (ch_serverName m))])))
        (encExt (extensionServerName, pref16 (encName (0, ch_serverName m))))"
  unfolding encName_def fst_conv snd_conv
  by (intro appends_addExt builder_intros) (use assms [unfolded fits_unfold] in \<open>simp_all add: encName_def\<close>)

lemma appends_alpn:
  assumes "fits_hello m" and "ch_alpnProtocols m \<noteq> []"
  shows "appends (addExt extensionALPN
        (AddUint16LengthPrefixed (forEach (\<lambda>proto. AddUint8LengthPrefixed (AddBytes proto)) (ch_alpnProtocols m))))
        (encExt (extensionALPN, pref16 (concat (map pref8 (ch_alpnProtocols m)))))"
  by (intro appends_addExt builder_intros) (use assms [unfolded fits_unfold] in \<open>simp_all add: list_all_iff\<close>)

lemma appends_keyShares:
  assumes "fits_hello m" and "ch_keyShares m = Some kss"
  shows "appends (addExt extensionKeyShare
        (AddUint16LengthPrefixed (forEach (\<lambda>ks. stmts [AddUint16 (ks_group ks), AddUint16LengthPrefixed (AddBytes (ks_data ks))]) kss)))
        (encExt (extensionKeyShare, pref16 (concat (map encKeyShare kss))))"
  by (intro appends_addExt builder_intros) (use assms [unfolded fits_unfold] in \<open>simp_all add: list_all_iff\<close>)

lemma appends_psk:
  assumes "fits_hello m" and "ch_pskIdentities m \<noteq> []"
  shows "appends (addExt extensionPreSharedKey (stmts
        [AddUint16LengthPrefixed (forEach (\<lambda>psk. stmts
           [AddUint16LengthPrefixed (AddBytes (psk_label psk)), AddUint32 (psk_obfuscatedTicketAge psk)]) (ch_pskIdentities m)),
         AddUint16LengthPrefixed (forEach (\<lambda>binder. AddUint8LengthPrefixed (AddBytes binder)) (ch_pskBinders m))]))
        (encExt (extensionPreSharedKey, pskData m))"
  unfolding pskData_def
  by (intro appends_addExt builder_intros) (use assms [unfolded fits_unfold] in \<open>simp_all add: list_all_iff pskData_def\<close>)

lemma appends_ch_addExtensions:
  assumes f: "fits_hello m"
  shows "appends (ch_addExtensions m) (encExts (ch_extensions m))"
  unfolding ch_addExtensions_def ch_extensions_def ch_frontExtensions_def append_assoc encExts_append length_greater_0_conv addWhen_addWhen
  by (intro appends_Cons appends_last appends_optExt appends_emptyExt appends_optBytes
      appends_nil_case [where g = "\<lambda>kss. pref16 (concat (map encKeyShare kss))"])
    ((rule appends_serverName appends_alpn appends_keyShares appends_psk, rule f, assumption) |
     (rule appends_addExt, intro builder_intros) | (use f [unfolded fits_unfold] in simp))+

lemma length_encHello [simp]:
  "length (encHello v r sid cs cm xs) = 6 + length r + length sid + length cs + length cm + (if xs = [] then 0 else length xs + 2)"
  by (simp add: encHello_def)

lemma ch_marshal_encode:
  assumes f: "fits_hello m" and "ch_raw m = None"
  shows "ch_marshal m = (m\<lparr>ch_raw := Some (ch_encode m)\<rparr>, Ok (ch_encode m))"
proof -
  let ?x = "encExts (ch_extensions m)"
  note u = f [unfolded fits_hello_def]
  have "appends (stmts [AddUint8 typeClientHello, AddUint24LengthPrefixed (stmts
                 [AddUint16 (ch_vers m), addBytesWithLength (ch_random m) 32,
                  AddUint8LengthPrefixed (AddBytes (ch_sessionId m)),
                  AddUint16LengthPrefixed (addUint16s (ch_cipherSuites m)),
                  AddUint8LengthPrefixed (AddBytes (ch_compressionMethods m)),
                  addWhen (length ?x > 0) (AddUint16LengthPrefixed (AddBytes ?x))])]) (ch_encode m)"
    unfolding ch_encode_def encHello_def by (intro builder_intros appends_addWhen) (use u in simp_all)
  from runBytes_appends [OF this] assms(2) runBytes_appends [OF appends_ch_addExtensions [OF f]] show ?thesis
    by (simp add: ch_marshal_def)
qed

section \<open>What is unmarshalled\<close>

abbreviation ch_steps :: "extension list \<Rightarrow> clientHelloMsg \<Rightarrow> clientHelloMsg option" where
  "ch_steps \<equiv> steps ch_readExtension"

subsection \<open>Round trip\<close>

interpretation namec: codec encName readName "\<lambda>n. snd n \<noteq> [] \<and> length (snd n) < 65536"
  by unfold_locales (auto simp: readName_def encName_def wire_simps)

interpretation keySharec: codec encKeyShare readKeyShare "\<lambda>ks. ks_data ks \<noteq> [] \<and> length (ks_data ks) < 65536"
  by unfold_locales (auto simp: readKeyShare_def encKeyShare_def wire_simps)

interpretation identityc: codec encIdentity readIdentity "\<lambda>p. psk_label p \<noteq> [] \<and> length (psk_label p) < 65536"
  by unfold_locales (auto simp: readIdentity_def encIdentity_def wire_simps)

text \<open>
  A message that the wire format can express: the lengths fit, no element of a list is empty, the host name has
  no trailing dot, and no field is set whose extension the flags suppress.
\<close>

definition wf_hello :: "clientHelloMsg \<Rightarrow> bool" where
  "wf_hello m \<longleftrightarrow> fits_hello m \<and>
     (ch_serverName m \<noteq> [] \<longrightarrow> last (ch_serverName m) \<noteq> 0x2e) \<and>
     list_all (\<lambda>p. p \<noteq> []) (ch_alpnProtocols m) \<and> list_all (\<lambda>p. p \<noteq> []) (ch_pskBinders m) \<and>
     list_all (\<lambda>p. psk_label p \<noteq> []) (ch_pskIdentities m) \<and>
     ch_keyShares m \<noteq> Some [] \<and>
     list_all (\<lambda>ks. ks_data ks \<noteq> []) (case ch_keyShares m of None \<Rightarrow> [] | Some kss \<Rightarrow> kss) \<and>
     (ch_sessionTicket m \<noteq> [] \<longrightarrow> ch_ticketSupported m) \<and>
     (ch_secureRenegotiation m \<noteq> [] \<longrightarrow> ch_secureRenegotiationSupported m) \<and>
     (scsvRenegotiation \<in> set (ch_cipherSuites m) \<longrightarrow> ch_secureRenegotiationSupported m) \<and>
     (ch_delegatedCredentialSupported m \<longleftrightarrow> ch_supportedSignatureAlgorithmsDC m \<noteq> []) \<and>
     (ch_pskIdentities m = [] \<longleftrightarrow> ch_pskBinders m = [])"

lemma readUint16List_enc16s: "xs \<noteq> [] \<Longrightarrow> 2 * length xs < 65536 \<Longrightarrow> readUint16List (pref16 (enc16s xs)) = Some (xs, [])"
  using lp16.dec_enc_all [of "enc16s xs"] u16c.readMany_concat [of xs] length_enc16s [of xs]
  by (auto simp: readUint16List_def enc16s_def)

lemma ch_steps_ech:
  "ch_ech r = [] \<Longrightarrow> ch_steps (optExt (ch_ech m \<noteq> []) extensionECH (ch_ech m) @ es) r = ch_steps es (r\<lparr>ch_ech := ch_ech m\<rparr>)"
  by (rule steps_opt) (simp_all add: ch_readExtension_def wire_simps)

lemma ch_steps_serverName:
  assumes "wf_hello m" and "ch_serverName r = []"
  shows "ch_steps (optExt (ch_serverName m \<noteq> []) extensionServerName (pref16 (encName (0, ch_serverName m))) @ es) r =
    ch_steps es (r\<lparr>ch_serverName := ch_serverName m\<rparr>)"
proof (rule steps_opt)
  let ?n = "encName (0, ch_serverName m)"
  assume n: "ch_serverName m \<noteq> []"
  then have l: "length ?n < 65536" "?n \<noteq> []"
    using assms(1) by (auto simp: wf_hello_def fits_unfold encName_def)
  then have "readMany readName ?n = Some [(0, ch_serverName m)]"
    using namec.readMany_concat [of "[(0, ch_serverName m)]"] n by (simp add: encName_def)
  with n l assms show "ch_readExtension extensionServerName (pref16 ?n) (es = []) r = Some (r\<lparr>ch_serverName := ch_serverName m\<rparr>, [])"
    using lp16.dec_enc_all [of ?n] by (simp add: ch_readExtension_def extension_ids wf_hello_def)
qed (use assms in simp)

lemma wf_facts:
  assumes "wf_hello m"
  shows "ch_supportedCurves m \<noteq> [] \<Longrightarrow> 2 * length (ch_supportedCurves m) < 65536"
    and "ch_supportedSignatureAlgorithms m \<noteq> [] \<Longrightarrow> 2 * length (ch_supportedSignatureAlgorithms m) < 65536"
    and "ch_supportedSignatureAlgorithmsCert m \<noteq> [] \<Longrightarrow> 2 * length (ch_supportedSignatureAlgorithmsCert m) < 65536"
    and "ch_delegatedCredentialSupported m \<Longrightarrow> ch_supportedSignatureAlgorithmsDC m \<noteq> [] \<Longrightarrow> 2 * length (ch_supportedSignatureAlgorithmsDC m) < 65536"
    and "length (ch_supportedPoints m) < 256" and "length (ch_secureRenegotiation m) < 256" and "2 * length (ch_supportedVersions m) < 256"
    and "length (ch_tlsFlags m) < 256" and "length (ch_pskModes m) < 256" and "ch_cookie m \<noteq> [] \<Longrightarrow> length (ch_cookie m) < 65536"
    and "ch_alpnProtocols m \<noteq> [] \<Longrightarrow> length (concat (map pref8 (ch_alpnProtocols m))) < 65536"
    and "\<forall>p \<in> set (ch_alpnProtocols m). p \<noteq> [] \<and> length p < 256"
    and "ch_keyShares m = Some kss \<Longrightarrow> length (concat (map encKeyShare kss)) < 65536 \<and> kss \<noteq> [] \<and>
           (\<forall>ks \<in> set kss. ks_data ks \<noteq> [] \<and> length (ks_data ks) < 65536)"
    and "ch_pskIdentities m \<noteq> [] \<Longrightarrow> length (concat (map encIdentity (ch_pskIdentities m))) < 65536 \<and>
           length (concat (map pref8 (ch_pskBinders m))) < 65536 \<and> ch_pskBinders m \<noteq> []"
    and "\<forall>p \<in> set (ch_pskIdentities m). psk_label p \<noteq> [] \<and> length (psk_label p) < 65536"
    and "\<forall>p \<in> set (ch_pskBinders m). p \<noteq> [] \<and> length p < 256"
  using assms by (simp_all add: wf_hello_def fits_unfold pskData_def) (simp_all add: list_all_iff)

lemma wf_flags:
  assumes "wf_hello m"
  shows "\<not> ch_ticketSupported m \<Longrightarrow> ch_sessionTicket m = []"
    and "\<not> ch_secureRenegotiationSupported m \<Longrightarrow> ch_secureRenegotiation m = []"
    and "ch_delegatedCredentialSupported m \<longleftrightarrow> ch_supportedSignatureAlgorithmsDC m \<noteq> []"
    and "ch_pskIdentities m = [] \<Longrightarrow> ch_pskBinders m = []"
  using assms by (auto simp: wf_hello_def)

lemma read_status: "ReadUint16LengthPrefixed (enc16 0 @ s) = Some ([], s)"
  by (simp add: enc16_0 wire_simps)

lemma ch_steps_ocsp:
  assumes "wf_hello m" and "\<not> ch_ocspStapling r"
  shows "ch_steps (optExt (ch_ocspStapling m) extensionStatusRequest
      (enc8 1 @ enc16 0 @ enc16 0) @ es) r = ch_steps es (r\<lparr>ch_ocspStapling := ch_ocspStapling m\<rparr>)"
  by (rule steps_opt)
    (use assms in \<open>auto simp: ch_readExtension_def extension_ids wire_simps statusTypeOCSP_def read_status read_status [of "[]", simplified]\<close>)

lemma ch_steps_Curves:
  assumes "wf_hello m" and "ch_supportedCurves r = []"
  shows "ch_steps (optExt (ch_supportedCurves m \<noteq> []) extensionSupportedCurves
      (pref16 (enc16s (ch_supportedCurves m))) @ es) r = ch_steps es (r\<lparr>ch_supportedCurves := ch_supportedCurves m\<rparr>)"
  by (rule steps_opt)
    (use assms in \<open>auto simp: ch_readExtension_def extension_ids wire_simps wf_facts wf_flags readUint16List_enc16s\<close>)

lemma ch_steps_points:
  assumes "wf_hello m" and "ch_supportedPoints r = []"
  shows "ch_steps (optExt (ch_supportedPoints m \<noteq> []) extensionSupportedPoints
      (pref8 (ch_supportedPoints m)) @ es) r = ch_steps es (r\<lparr>ch_supportedPoints := ch_supportedPoints m\<rparr>)"
  by (rule steps_opt)
    (use assms in \<open>auto simp: ch_readExtension_def extension_ids wire_simps wf_facts wf_flags lp8.dec_enc_all\<close>)

lemma ch_steps_ticket:
  assumes "wf_hello m" and "\<not> ch_ticketSupported r \<and> ch_sessionTicket r = []"
  shows "ch_steps (optExt (ch_ticketSupported m) extensionSessionTicket
      (ch_sessionTicket m) @ es) r = ch_steps es (r\<lparr>ch_ticketSupported := ch_ticketSupported m, ch_sessionTicket := ch_sessionTicket m\<rparr>)"
  by (rule steps_opt)
    (use assms in \<open>auto simp: ch_readExtension_def extension_ids wire_simps wf_facts wf_flags \<close>)

lemma ch_steps_SignatureAlgorithms:
  assumes "wf_hello m" and "ch_supportedSignatureAlgorithms r = []"
  shows "ch_steps (optExt (ch_supportedSignatureAlgorithms m \<noteq> []) extensionSignatureAlgorithms
      (pref16 (enc16s (ch_supportedSignatureAlgorithms m))) @ es) r = ch_steps es (r\<lparr>ch_supportedSignatureAlgorithms := ch_supportedSignatureAlgorithms m\<rparr>)"
  by (rule steps_opt)
    (use assms in \<open>auto simp: ch_readExtension_def extension_ids wire_simps wf_facts wf_flags readUint16List_enc16s\<close>)

lemma ch_steps_SignatureAlgorithmsCert:
  assumes "wf_hello m" and "ch_supportedSignatureAlgorithmsCert r = []"
  shows "ch_steps (optExt (ch_supportedSignatureAlgorithmsCert m \<noteq> []) extensionSignatureAlgorithmsCert
      (pref16 (enc16s (ch_supportedSignatureAlgorithmsCert m))) @ es) r = ch_steps es (r\<lparr>ch_supportedSignatureAlgorithmsCert := ch_supportedSignatureAlgorithmsCert m\<rparr>)"
  by (rule steps_opt)
    (use assms in \<open>auto simp: ch_readExtension_def extension_ids wire_simps wf_facts wf_flags readUint16List_enc16s\<close>)

lemma ch_steps_renegotiation:
  assumes "wf_hello m" and "ch_secureRenegotiation r = [] \<and> (ch_secureRenegotiationSupported r \<longrightarrow> ch_secureRenegotiationSupported m)"
  shows "ch_steps (optExt (ch_secureRenegotiationSupported m) extensionRenegotiationInfo
      (pref8 (ch_secureRenegotiation m)) @ es) r = ch_steps es (r\<lparr>ch_secureRenegotiation := ch_secureRenegotiation m, ch_secureRenegotiationSupported := ch_secureRenegotiationSupported m\<rparr>)"
  by (rule steps_opt)
    (use assms in \<open>auto simp: ch_readExtension_def extension_ids wire_simps wf_facts wf_flags lp8.dec_enc_all\<close>)

lemma ch_steps_extendedMasterSecret:
  assumes "wf_hello m" and "\<not> ch_extendedMasterSecret r"
  shows "ch_steps (optExt (ch_extendedMasterSecret m) extensionExtendedMasterSecret
      ([]) @ es) r = ch_steps es (r\<lparr>ch_extendedMasterSecret := ch_extendedMasterSecret m\<rparr>)"
  by (rule steps_opt)
    (use assms in \<open>auto simp: ch_readExtension_def extension_ids wire_simps wf_facts wf_flags \<close>)

lemma ch_steps_DC:
  assumes "wf_hello m" and "ch_supportedSignatureAlgorithmsDC r = [] \<and> \<not> ch_delegatedCredentialSupported r"
  shows "ch_steps (optExt (ch_delegatedCredentialSupported m \<and> ch_supportedSignatureAlgorithmsDC m \<noteq> []) extensionDelegatedCredentials
      (pref16 (enc16s (ch_supportedSignatureAlgorithmsDC m))) @ es) r = ch_steps es (r\<lparr>ch_supportedSignatureAlgorithmsDC := ch_supportedSignatureAlgorithmsDC m, ch_delegatedCredentialSupported := ch_delegatedCredentialSupported m\<rparr>)"
  by (rule steps_opt)
    (use assms in \<open>auto simp: ch_readExtension_def extension_ids wire_simps wf_facts wf_flags readUint16List_enc16s\<close>)

lemma ch_steps_alpn:
  assumes "wf_hello m" and "ch_alpnProtocols r = []"
  shows "ch_steps (optExt (ch_alpnProtocols m \<noteq> []) extensionALPN
      (pref16 (concat (map pref8 (ch_alpnProtocols m)))) @ es) r = ch_steps es (r\<lparr>ch_alpnProtocols := ch_alpnProtocols m\<rparr>)"
  by (rule steps_opt)
    (use assms in \<open>auto simp: ch_readExtension_def extension_ids wire_simps wf_facts wf_flags lp16.dec_enc_all nonEmpty8c.readMany_concat\<close>)

lemma ch_steps_scts:
  assumes "wf_hello m" and "\<not> ch_scts r"
  shows "ch_steps (optExt (ch_scts m) extensionSCT
      ([]) @ es) r = ch_steps es (r\<lparr>ch_scts := ch_scts m\<rparr>)"
  by (rule steps_opt)
    (use assms in \<open>auto simp: ch_readExtension_def extension_ids wire_simps wf_facts wf_flags \<close>)

lemma ch_steps_versions:
  assumes "wf_hello m" and "ch_supportedVersions r = []"
  shows "ch_steps (optExt (ch_supportedVersions m \<noteq> []) extensionSupportedVersions
      (pref8 (enc16s (ch_supportedVersions m))) @ es) r = ch_steps es (r\<lparr>ch_supportedVersions := ch_supportedVersions m\<rparr>)"
  by (rule steps_opt)
    (use assms in \<open>auto simp: ch_readExtension_def extension_ids wire_simps wf_facts wf_flags lp8.dec_enc_all readMany_enc16s\<close>)

lemma ch_steps_flags:
  assumes "wf_hello m" and "ch_tlsFlags r = []"
  shows "ch_steps (optExt (ch_tlsFlags m \<noteq> []) extensionTLSFlags
      (pref8 (ch_tlsFlags m)) @ es) r = ch_steps es (r\<lparr>ch_tlsFlags := ch_tlsFlags m\<rparr>)"
  by (rule steps_opt)
    (use assms in \<open>auto simp: ch_readExtension_def extension_ids wire_simps wf_facts wf_flags lp8.dec_enc_all\<close>)

lemma ch_steps_cookie:
  assumes "wf_hello m" and "ch_cookie r = []"
  shows "ch_steps (optExt (ch_cookie m \<noteq> []) extensionCookie
      (pref16 (ch_cookie m)) @ es) r = ch_steps es (r\<lparr>ch_cookie := ch_cookie m\<rparr>)"
  by (rule steps_opt)
    (use assms in \<open>auto simp: ch_readExtension_def extension_ids wire_simps wf_facts wf_flags lp16.dec_enc_all\<close>)

lemma ch_steps_keyShares:
  assumes "wf_hello m" and "ch_keyShares r = None"
  shows "ch_steps (optExt (ch_keyShares m \<noteq> None) extensionKeyShare
      (pref16 (concat (map encKeyShare (the (ch_keyShares m))))) @ es) r = ch_steps es (r\<lparr>ch_keyShares := ch_keyShares m\<rparr>)"
  by (rule steps_opt)
    (use assms in \<open>auto simp: ch_readExtension_def extension_ids wire_simps wf_facts wf_flags lp16.dec_enc_all keySharec.readMany_concat\<close>)

lemma ch_steps_earlyData:
  assumes "wf_hello m" and "\<not> ch_earlyData r"
  shows "ch_steps (optExt (ch_earlyData m) extensionEarlyData
      ([]) @ es) r = ch_steps es (r\<lparr>ch_earlyData := ch_earlyData m\<rparr>)"
  by (rule steps_opt)
    (use assms in \<open>auto simp: ch_readExtension_def extension_ids wire_simps wf_facts wf_flags \<close>)

lemma ch_steps_pskModes:
  assumes "wf_hello m" and "ch_pskModes r = []"
  shows "ch_steps (optExt (ch_pskModes m \<noteq> []) extensionPSKModes
      (pref8 (ch_pskModes m)) @ es) r = ch_steps es (r\<lparr>ch_pskModes := ch_pskModes m\<rparr>)"
  by (rule steps_opt)
    (use assms in \<open>auto simp: ch_readExtension_def extension_ids wire_simps wf_facts wf_flags lp8.dec_enc_all\<close>)

lemma ch_steps_quic:
  assumes "wf_hello m" and "ch_quicTransportParameters r = None"
  shows "ch_steps (optExt (ch_quicTransportParameters m \<noteq> None) extensionQUICTransportParameters
      (the (ch_quicTransportParameters m)) @ es) r = ch_steps es (r\<lparr>ch_quicTransportParameters := ch_quicTransportParameters m\<rparr>)"
  by (rule steps_opt)
    (use assms in \<open>auto simp: ch_readExtension_def extension_ids wire_simps wf_facts wf_flags \<close>)

lemma ch_steps_psk:
  assumes "wf_hello m" and "ch_pskIdentities r = [] \<and> ch_pskBinders r = []"
  shows "ch_steps (optExt (ch_pskIdentities m \<noteq> []) extensionPreSharedKey (pskData m)) r =
    Some (r\<lparr>ch_pskIdentities := ch_pskIdentities m, ch_pskBinders := ch_pskBinders m\<rparr>)"
proof (cases "ch_pskIdentities m = []")
  case True
  with assms show ?thesis by (simp add: optExt_def wf_flags)
next
  case False
  let ?i = "concat (map encIdentity (ch_pskIdentities m))" and ?b = "concat (map pref8 (ch_pskBinders m))"
  have r: "readMany readIdentity ?i = Some (ch_pskIdentities m)" "readMany readNonEmpty8 ?b = Some (ch_pskBinders m)"
    using assms(1) by (simp_all add: identityc.readMany_concat nonEmpty8c.readMany_concat wf_facts)
  have "?i \<noteq> [] \<and> ?b \<noteq> []"
    using False wf_facts(14) [OF assms(1) False] by (cases "ch_pskIdentities m"; cases "ch_pskBinders m") (simp_all add: encIdentity_def)
  with False r assms show ?thesis
    using wf_facts(14) [OF assms(1) False]
    by (simp add: optExt_def ch_readExtension_def extension_ids pskData_def wire_simps lp16.dec_enc_all)
qed

lemmas ch_steps_simps =
  ch_steps_ech ch_steps_serverName ch_steps_ocsp ch_steps_Curves ch_steps_points ch_steps_ticket ch_steps_SignatureAlgorithms
  ch_steps_SignatureAlgorithmsCert ch_steps_renegotiation ch_steps_extendedMasterSecret ch_steps_DC ch_steps_alpn ch_steps_scts
  ch_steps_versions ch_steps_flags ch_steps_cookie ch_steps_keyShares ch_steps_earlyData ch_steps_pskModes ch_steps_quic ch_steps_psk

text \<open>The message before its extensions are read.\<close>

definition ch_base :: "bytes \<Rightarrow> clientHelloMsg \<Rightarrow> clientHelloMsg" where
  "ch_base raw m = emptyHello\<lparr>ch_raw := Some raw, ch_vers := ch_vers m, ch_random := ch_random m, ch_sessionId := ch_sessionId m,
     ch_cipherSuites := ch_cipherSuites m, ch_secureRenegotiationSupported := (scsvRenegotiation \<in> set (ch_cipherSuites m)),
     ch_compressionMethods := ch_compressionMethods m\<rparr>"

lemma ch_steps_extensions:
  assumes "wf_hello m"
  shows "ch_steps (ch_extensions m) (ch_base raw m) = Some (m\<lparr>ch_raw := Some raw\<rparr>)"
proof -
  have "scsvRenegotiation \<in> set (ch_cipherSuites m) \<longrightarrow> ch_secureRenegotiationSupported m"
    using assms by (simp add: wf_hello_def)
  then show ?thesis
    unfolding ch_extensions_def ch_frontExtensions_def by (simp add: ch_steps_simps assms ch_base_def emptyHello_def del: not_None_eq)
qed

lemma distinct_ch_extensions: "distinct (map fst (ch_extensions m))"
  unfolding ch_extensions_def ch_frontExtensions_def append_assoc
  by (intro distinct_optExt) (simp_all add: image_Un extension_ids, simp add: optExt_def)

lemma ch_unmarshal_encode:
  assumes "wf_hello m"
  shows "ch_unmarshal (ch_encode m) = Some (m\<lparr>ch_raw := Some (ch_encode m)\<rparr>)"
proof -
  let ?x = "encExts (ch_extensions m)"
  let ?h = "encHello (ch_vers m) (ch_random m) (ch_sessionId m) (enc16s (ch_cipherSuites m)) (ch_compressionMethods m) ?x"
  have f: "fits_hello m" using assms by (simp add: wf_hello_def)
  note u = f [unfolded fits_hello_def]
  have "Skip 4 ((enc8 typeClientHello @ be 3 (length ?h)) @ ?h) = Some ?h"
    by (rule Skip_append) simp
  then have skip: "Skip 4 (ch_encode m) = Some ?h"
    by (simp add: ch_encode_def pref24_def)
  have xs: "ch_extLoop (length ?x) [] ?x (ch_base (ch_encode m) m) = Some (m\<lparr>ch_raw := Some (ch_encode m)\<rparr>)"
    using u by (simp add: ch_extLoop_def extLoop_steps length_exts_le distinct_ch_extensions ch_steps_extensions assms)
  have "ch_extensions m = []" if "?x = []"
    using that length_exts_le [of "ch_extensions m"] by simp
  then have nox: "ch_base (ch_encode m) m = m\<lparr>ch_raw := Some (ch_encode m)\<rparr>" if "?x = []"
    using that ch_steps_extensions [OF assms, of "ch_encode m"] by simp
  show ?thesis
    unfolding ch_unmarshal_def skip encHello_def
    using u xs nox by (simp add: wire_simps readMany_enc16s lp16.dec_enc_all Let_def flip: ch_base_def)
qed

section \<open>Binders\<close>

definition ch_marshalWithoutBinders :: "clientHelloMsg \<Rightarrow> clientHelloMsg \<times> bytes res" where
  "ch_marshalWithoutBinders m =
     (let bindersLen = 2 + sum_list (map (\<lambda>binder. 1 + length binder) (ch_pskBinders m));
          (m, r) = ch_marshal m
      in (m, bind_res r (\<lambda>fullMessage.
               if length fullMessage < bindersLen then Panic ''slice bounds out of range''
               else Ok (take (length fullMessage - bindersLen) fullMessage))))"

text \<open>
  The fixed builder over the prefix of the cached message writes into the cache; it can only run out of space when
  the result would be longer than the cache, which the code refuses as well.
\<close>

definition ch_updateBinders :: "bytes list \<Rightarrow> clientHelloMsg \<Rightarrow> clientHelloMsg \<times> unit res" where
  "ch_updateBinders pskBinders m =
     (if length pskBinders \<noteq> length (ch_pskBinders m) then (m, Err ''tls: internal error: pskBinders length mismatch'')
      else if list_ex (\<lambda>i. length (pskBinders ! i) \<noteq> length (ch_pskBinders m ! i)) [0..<length (ch_pskBinders m)]
      then (m, Err ''tls: internal error: pskBinders length mismatch'')
      else let m = m\<lparr>ch_pskBinders := pskBinders\<rparr> in
        case ch_raw m of None \<Rightarrow> (m, Ok ())
        | Some raw \<Rightarrow>
            (case ch_marshalWithoutBinders m of
               (m, Err e) \<Rightarrow> (m, Err e)
             | (m, Panic p) \<Rightarrow> (m, Panic p)
             | (m, Ok helloBytes) \<Rightarrow>
                 (case runBytes (stmts [AddBytes (take (length helloBytes) raw),
                    AddUint16LengthPrefixed (forEach (\<lambda>binder. AddUint8LengthPrefixed (AddBytes binder)) (ch_pskBinders m))]) of
                    Ok out \<Rightarrow> if length out \<noteq> length raw then (m, Err ''tls: internal error: failed to update binders'')
                              else (m\<lparr>ch_raw := Some out\<rparr>, Ok ())
                  | Err e \<Rightarrow> (m, Err ''tls: internal error: failed to update binders'')
                  | Panic p \<Rightarrow> (m, Panic p))))"

lemma ch_extensions_psk:
  "ch_pskIdentities m \<noteq> [] \<Longrightarrow> ch_extensions (m\<lparr>ch_pskBinders := bs\<rparr>) =
    ch_frontExtensions m @ [(extensionPreSharedKey, pref16 (concat (map encIdentity (ch_pskIdentities m))) @ pref16 (concat (map pref8 bs)))]"
  by (simp add: ch_extensions_def ch_frontExtensions_def pskData_def) (simp add: optExt_def)

lemma ch_encode_binders:
  assumes "ch_pskIdentities m \<noteq> []"
  obtains P where "\<And>bs. map length bs = map length (ch_pskBinders m) \<Longrightarrow>
    ch_encode (m\<lparr>ch_pskBinders := bs\<rparr>) = P @ pref16 (concat (map pref8 bs))"
proof -
  let ?I = "pref16 (concat (map encIdentity (ch_pskIdentities m)))"
  let ?l = "length (concat (map pref8 (ch_pskBinders m)))"
  let ?x = "encExts (ch_frontExtensions m) @ enc16 extensionPreSharedKey @ be 2 (length ?I + ?l + 2) @ ?I"
  let ?h = "enc16 (ch_vers m) @ ch_random m @ pref8 (ch_sessionId m) @ pref16 (enc16s (ch_cipherSuites m)) @ pref8 (ch_compressionMethods m) @
    be 2 (length ?x + ?l + 2) @ ?x"
  have "ch_encode (m\<lparr>ch_pskBinders := bs\<rparr>) = (enc8 typeClientHello @ be 3 (length ?h + ?l + 2) @ ?h) @ pref16 (concat (map pref8 bs))"
    if "map length bs = map length (ch_pskBinders m)" for bs
  proof -
    have "map length (map pref8 bs) = map length (map pref8 (ch_pskBinders m))"
      using that by (simp add: list_eq_iff_nth_eq) 
    then have "length (concat (map pref8 bs)) = ?l"
      by (simp add: length_concat comp_def)
    then show ?thesis
      by (simp add: ch_encode_def encHello_def ch_extensions_psk [OF assms] encExt_def pref24_def) (simp add: pref16_def ac_simps)
  qed
  then show thesis
    using that by blast
qed

lemma ch_encode_raw [simp]: "ch_encode (m\<lparr>ch_raw := r\<rparr>) = ch_encode m"
  by (simp add: ch_encode_def ch_extensions_def ch_frontExtensions_def pskData_def)

lemma fits_hello_raw [simp]: "fits_hello (m\<lparr>ch_raw := r\<rparr>) = fits_hello m"
  by (simp add: fits_hello_def ch_extensions_def ch_frontExtensions_def pskData_def)

lemma map_length_binders:
  assumes "map length bs = map length (ch_pskBinders m)"
  shows "map length (map pref8 bs) = map length (map pref8 (ch_pskBinders m))"
  using assms by (simp add: list_eq_iff_nth_eq)

lemma fits_hello_binders:
  assumes "fits_hello m" and "ch_pskIdentities m \<noteq> []" and l: "map length bs = map length (ch_pskBinders m)"
  shows "fits_hello (m\<lparr>ch_pskBinders := bs\<rparr>)"
proof -
  have c: "length (concat (map pref8 bs)) = length (concat (map pref8 (ch_pskBinders m)))"
    using map_length_binders [OF l] by (simp only: length_concat)
  have "list_all (\<lambda>p. length p < 256) bs"
    using assms(1) l by (auto simp: fits_hello_def list_all_length list_eq_iff_nth_eq)
  moreover have "list_all (\<lambda>e. length (snd e) < 65536) (ch_extensions (m\<lparr>ch_pskBinders := bs\<rparr>)) \<and>
      length (encExts (ch_extensions (m\<lparr>ch_pskBinders := bs\<rparr>))) < 65536"
    using assms(1) ch_extensions_psk [OF assms(2), of bs] ch_extensions_psk [OF assms(2), of "ch_pskBinders m"] c
    by (simp add: fits_hello_def length_encExt)
  ultimately show ?thesis
    using assms(1) by (simp add: fits_hello_def)
qed

text \<open>The cached bytes of a message are the bytes it would be marshalled to.\<close>

definition ch_coherent :: "clientHelloMsg \<Rightarrow> bool" where
  "ch_coherent m \<longleftrightarrow> (case ch_raw m of None \<Rightarrow> True | Some raw \<Rightarrow> snd (ch_marshal (m\<lparr>ch_raw := None\<rparr>)) = Ok raw)"

lemma coherent_marshal:
  assumes "fits_hello m" and "ch_coherent m"
  shows "ch_marshal m = (m\<lparr>ch_raw := Some (ch_encode m)\<rparr>, Ok (ch_encode m))"
proof (cases "ch_raw m")
  case None
  then show ?thesis by (rule ch_marshal_encode [OF assms(1)])
next
  case (Some raw)
  then have "raw = ch_encode m"
    using assms ch_marshal_encode [of "m\<lparr>ch_raw := None\<rparr>"] by (simp add: ch_coherent_def)
  with Some show ?thesis by (simp add: ch_marshal_def)
qed

lemma coherentI: "fits_hello m \<Longrightarrow> ch_raw m = Some (ch_encode m) \<Longrightarrow> ch_coherent m"
  using ch_marshal_encode [of "m\<lparr>ch_raw := None\<rparr>"] by (simp add: ch_coherent_def)

lemma marshalWithoutBinders_prefix:
  assumes f: "fits_hello m" "ch_coherent m" and P: "ch_encode m = P @ pref16 (concat (map pref8 (ch_pskBinders m)))"
  shows "ch_marshalWithoutBinders m = (m\<lparr>ch_raw := Some (ch_encode m)\<rparr>, Ok P)"
proof -
  have "2 + sum_list (map (\<lambda>binder. 1 + length binder) (ch_pskBinders m)) = length (pref16 (concat (map pref8 (ch_pskBinders m))))"
    by (simp add: length_concat comp_def)
  then show ?thesis
    using P by (simp add: ch_marshalWithoutBinders_def coherent_marshal [OF f] Let_def)
qed

lemma appends_binders:
  assumes "list_all (\<lambda>p. length p < 256) bs" and "length (concat (map pref8 bs)) < 65536"
  shows "appends (stmts [AddBytes P, AddUint16LengthPrefixed (forEach (\<lambda>binder. AddUint8LengthPrefixed (AddBytes binder)) bs)])
    (P @ pref16 (concat (map pref8 bs)))"
  by (intro builder_intros) (use assms in \<open>simp_all add: list_all_iff\<close>)

lemma same_lengths_iff:
  "map length xs = map length ys \<longleftrightarrow>
   length xs = length ys \<and> \<not> list_ex (\<lambda>i. length (xs ! i) \<noteq> length (ys ! i)) [0..<length ys]"
  unfolding list_eq_iff_nth_eq [of "map length xs"] by (auto simp: list_ex_iff)

lemma updateBinders_spec:
  assumes f: "fits_hello m" "ch_coherent m" and i: "ch_pskIdentities m \<noteq> []" and l: "map length bs = map length (ch_pskBinders m)"
  shows "\<exists>m'. ch_updateBinders bs m = (m', Ok ()) \<and> ch_pskBinders m' = bs \<and> ch_coherent m' \<and> fits_hello m' \<and>
    snd (ch_marshalWithoutBinders m') = snd (ch_marshalWithoutBinders m)"
proof -
  let ?m1 = "m\<lparr>ch_pskBinders := bs\<rparr>" and ?B = "pref16 (concat (map pref8 bs))"
  obtain P where P: "\<And>bs. map length bs = map length (ch_pskBinders m) \<Longrightarrow>
      ch_encode (m\<lparr>ch_pskBinders := bs\<rparr>) = P @ pref16 (concat (map pref8 bs))"
    by (rule ch_encode_binders [OF i]) blast
  have e: "ch_encode ?m1 = P @ ?B" "ch_encode m = P @ pref16 (concat (map pref8 (ch_pskBinders m)))"
    using P [OF l] P [OF refl] by simp_all
  have f1: "fits_hello ?m1" by (rule fits_hello_binders [OF f(1) i l])
  have len: "length (pref16 (concat (map pref8 (ch_pskBinders m)))) = length ?B"
    using map_length_binders [OF l] by (simp only: length_pref length_concat)
  have guards: "length bs = length (ch_pskBinders m)"
      "\<not> list_ex (\<lambda>i. length (bs ! i) \<noteq> length (ch_pskBinders m ! i)) [0..<length (ch_pskBinders m)]"
    using l unfolding same_lengths_iff by simp_all
  have w: "snd (ch_marshalWithoutBinders m) = Ok P"
    using marshalWithoutBinders_prefix [OF f e(2)] by simp
  show ?thesis
  proof (cases "ch_raw m")
    case None
    then have "ch_coherent ?m1" by (simp add: ch_coherent_def)
    with marshalWithoutBinders_prefix [OF f1 this] e(1) w f1 show ?thesis
      using guards None by (simp add: ch_updateBinders_def)
  next
    case (Some raw)
    have raw: "raw = ch_encode m"
      using coherent_marshal [OF f] Some by (simp add: ch_marshal_def)
    have "2 + sum_list (map (\<lambda>binder. 1 + length binder) bs) = length ?B"
      by (simp add: length_concat comp_def)
    then have m: "ch_marshalWithoutBinders ?m1 = (?m1, Ok P)"
      using Some raw e(2) len by (simp add: ch_marshalWithoutBinders_def ch_marshal_def)
    have "runBytes (stmts [AddBytes (take (length P) raw), AddUint16LengthPrefixed (forEach (\<lambda>binder. AddUint8LengthPrefixed (AddBytes binder)) bs)]) = Ok (P @ ?B)"
      using raw e(2) appends_binders [of bs P] f1 i
      by (intro runBytes_appends) (simp add: fits_unfold pskData_def)
    then have u: "ch_updateBinders bs m = (?m1\<lparr>ch_raw := Some (ch_encode ?m1)\<rparr>, Ok ())"
      using guards Some raw m e len by (simp add: ch_updateBinders_def)
    have c: "ch_coherent (?m1\<lparr>ch_raw := Some (ch_encode ?m1)\<rparr>)"
      using f1 by (intro coherentI) simp_all
    have "snd (ch_marshalWithoutBinders (?m1\<lparr>ch_raw := Some (ch_encode ?m1)\<rparr>)) = Ok P"
      using marshalWithoutBinders_prefix [OF _ c, of P] f1 e(1) by simp
    with u c w f1 show ?thesis by simp
  qed
qed

text \<open>C24: a ClientHello survives the wire. A message whose fields the format can express is marshalled without
  error, the bytes are cached in it, and unmarshalling them gives the message back, every field of it,
  with those bytes cached. (No key share may be empty: a present but empty list of key shares comes
  back as an absent one.)\<close>

theorem hello_roundtrip:
  assumes "wf_hello m" and "ch_raw m = None"
  shows "\<exists>bs. ch_marshal m = (m\<lparr>ch_raw := Some bs\<rparr>, Ok bs) \<and> ch_unmarshal bs = Some (m\<lparr>ch_raw := Some bs\<rparr>)"
  using ch_marshal_encode [OF _ assms(2)] ch_unmarshal_encode [OF assms(1)] assms(1) by (auto simp: wf_hello_def)

text \<open>A message for the examples.\<close>

definition sample_hello :: clientHelloMsg where
  "sample_hello = emptyHello\<lparr>ch_vers := 0x303, ch_random := replicate 32 7, ch_sessionId := [1, 2, 3], ch_cipherSuites := [0x1301, 0x1302],
     ch_compressionMethods := [0], ch_serverName := [101, 120], ch_supportedVersions := [0x304],
     ch_supportedSignatureAlgorithms := [0x403], ch_alpnProtocols := [[104, 50]],
     ch_keyShares := Some [\<lparr>ks_group = 29, ks_data = [9, 9]\<rparr>], ch_pskModes := [1],
     ch_pskIdentities := [\<lparr>psk_label = [5], psk_obfuscatedTicketAge = 3\<rparr>], ch_pskBinders := [[6, 6]]\<rparr>"

lemma wf_sample_hello: "wf_hello sample_hello"
  by (simp add: sample_hello_def emptyHello_def wf_hello_def fits_unfold optExt_def encExt_def encName_def encKeyShare_def
      encIdentity_def pskData_def scsvRenegotiation_def)

theorem hello_roundtrip_witness:
  "\<exists>bs. ch_marshal sample_hello = (sample_hello\<lparr>ch_raw := Some bs\<rparr>, Ok bs) \<and> ch_unmarshal bs = Some (sample_hello\<lparr>ch_raw := Some bs\<rparr>)"
  by (rule hello_roundtrip [OF wf_sample_hello]) (simp add: sample_hello_def emptyHello_def)

text \<open>The cached bytes of a ClientHello stay those of its fields. For a message with pre-shared keys whose
  cache is coherent, marshal returns the bytes of the fields; updateBinders with binders of the same
  lengths installs them, keeps the cache coherent and the message within its limits, and leaves what
  marshalWithoutBinders returns, over which the binders are computed, as it was; with other lengths it
  reports an error and changes nothing.\<close>

theorem hello_cache_coherent:
  assumes "fits_hello m" and "ch_coherent m" and "ch_pskIdentities m \<noteq> []"
  shows "(case ch_marshal m of (m', r) \<Rightarrow> ch_coherent m' \<and> r = snd (ch_marshal (m\<lparr>ch_raw := None\<rparr>)) \<and> (\<exists>bs. r = Ok bs)) \<and>
    (case ch_updateBinders bs m of (m', r) \<Rightarrow>
       if map length bs = map length (ch_pskBinders m)
       then r = Ok () \<and> ch_pskBinders m' = bs \<and> ch_coherent m' \<and> fits_hello m' \<and>
            snd (ch_marshalWithoutBinders m') = snd (ch_marshalWithoutBinders m)
       else m' = m \<and> r = Err ''tls: internal error: pskBinders length mismatch'')"
proof -
  have m: "ch_marshal m = (m\<lparr>ch_raw := Some (ch_encode m)\<rparr>, Ok (ch_encode m))"
    by (rule coherent_marshal [OF assms(1,2)])
  have "ch_coherent (m\<lparr>ch_raw := Some (ch_encode m)\<rparr>)" "snd (ch_marshal (m\<lparr>ch_raw := None\<rparr>)) = Ok (ch_encode m)"
    using assms(1) ch_marshal_encode [of "m\<lparr>ch_raw := None\<rparr>"] by (auto intro: coherentI)
  moreover have "ch_updateBinders bs m = (m, Err ''tls: internal error: pskBinders length mismatch'')"
    if "map length bs \<noteq> map length (ch_pskBinders m)"
    using that unfolding same_lengths_iff by (auto simp: ch_updateBinders_def)
  ultimately show ?thesis
    using m updateBinders_spec [OF assms, of bs] by fastforce
qed

end
