(* ===== verification/Server_Hello.thy ===== *)
theory Server_Hello
  imports Client_Hello
begin

text \<open>
  The ServerHello message of \<^verbatim>\<open>crypto/tls/handshake_messages.go\<close>, which is also the HelloRetryRequest: its fields, marshal with
  the cache of the marshalled bytes, unmarshal, and the list of extensions that a message stands for.
\<close>

section \<open>The message\<close>

text \<open>
  Go's \<^verbatim>\<open>serverHelloMsg\<close>, which is also the HelloRetryRequest. A cookie that is nil is the empty list, as
  unmarshal refuses an empty cookie; for the ECH extension the client tests for nil, so it is an option.
\<close>

record serverHelloMsg =
  sh_raw :: "bytes option"
  sh_vers :: u16
  sh_random :: bytes
  sh_sessionId :: bytes
  sh_cipherSuite :: u16
  sh_compressionMethod :: u8
  sh_ocspStapling :: bool
  sh_ticketSupported :: bool
  sh_secureRenegotiationSupported :: bool
  sh_secureRenegotiation :: bytes
  sh_extendedMasterSecret :: bool
  sh_alpnProtocol :: bytes
  sh_scts :: "bytes list"
  sh_supportedVersion :: u16
  sh_serverShare :: keyShare
  sh_selectedIdentityPresent :: bool
  sh_selectedIdentity :: u16
  sh_supportedPoints :: bytes
  sh_cookie :: bytes
  sh_selectedGroup :: u16
  sh_ech :: "bytes option"

definition emptyServerHello :: serverHelloMsg where
  "emptyServerHello =
     \<lparr>sh_raw = None, sh_vers = 0, sh_random = [], sh_sessionId = [], sh_cipherSuite = 0, sh_compressionMethod = 0,
      sh_ocspStapling = False, sh_ticketSupported = False, sh_secureRenegotiationSupported = False, sh_secureRenegotiation = [],
      sh_extendedMasterSecret = False, sh_alpnProtocol = [], sh_scts = [], sh_supportedVersion = 0,
      sh_serverShare = \<lparr>ks_group = 0, ks_data = []\<rparr>, sh_selectedIdentityPresent = False, sh_selectedIdentity = 0,
      sh_supportedPoints = [], sh_cookie = [], sh_selectedGroup = 0, sh_ech = None\<rparr>"

section \<open>Marshalling\<close>

definition sh_addExtensions :: "serverHelloMsg \<Rightarrow> Builder \<Rightarrow> build" where
  "sh_addExtensions m = stmts
     [addWhen (sh_ocspStapling m) (stmts [AddUint16 extensionStatusRequest, AddUint16 0]),
      addWhen (sh_ticketSupported m) (stmts [AddUint16 extensionSessionTicket, AddUint16 0]),
      addWhen (sh_secureRenegotiationSupported m) (addExt extensionRenegotiationInfo
        (AddUint8LengthPrefixed (AddBytes (sh_secureRenegotiation m)))),
      addWhen (sh_extendedMasterSecret m) (stmts [AddUint16 extensionExtendedMasterSecret, AddUint16 0]),
      addWhen (length (sh_alpnProtocol m) > 0) (addExt extensionALPN
        (AddUint16LengthPrefixed (AddUint8LengthPrefixed (AddBytes (sh_alpnProtocol m))))),
      addWhen (length (sh_scts m) > 0) (addExt extensionSCT
        (AddUint16LengthPrefixed (forEach (\<lambda>sct. AddUint16LengthPrefixed (AddBytes sct)) (sh_scts m)))),
      addWhen (sh_supportedVersion m \<noteq> 0) (addExt extensionSupportedVersions (AddUint16 (sh_supportedVersion m))),
      addWhen (ks_group (sh_serverShare m) \<noteq> 0) (addExt extensionKeyShare (stmts
        [AddUint16 (ks_group (sh_serverShare m)), AddUint16LengthPrefixed (AddBytes (ks_data (sh_serverShare m)))])),
      addWhen (sh_selectedIdentityPresent m) (addExt extensionPreSharedKey (AddUint16 (sh_selectedIdentity m))),
      addWhen (length (sh_cookie m) > 0) (addExt extensionCookie (AddUint16LengthPrefixed (AddBytes (sh_cookie m)))),
      addWhen (sh_selectedGroup m \<noteq> 0) (addExt extensionKeyShare (AddUint16 (sh_selectedGroup m))),
      addWhen (length (sh_supportedPoints m) > 0) (addExt extensionSupportedPoints
        (AddUint8LengthPrefixed (AddBytes (sh_supportedPoints m)))),
      addWhen (length (opt_bytes (sh_ech m)) > 0) (addExt extensionECH (AddBytes (opt_bytes (sh_ech m))))]"

definition sh_marshal :: "serverHelloMsg \<Rightarrow> serverHelloMsg \<times> bytes res" where
  "sh_marshal m = (case sh_raw m of
       Some r \<Rightarrow> (m, Ok r)
     | None \<Rightarrow> (case runBytes (sh_addExtensions m) of
           Panic p \<Rightarrow> (m, Panic p)
         | Err e \<Rightarrow> (m, Err e)
         | Ok extBytes \<Rightarrow>
             (case runBytes (stmts [AddUint8 typeServerHello, AddUint24LengthPrefixed (stmts
                 [AddUint16 (sh_vers m), addBytesWithLength (sh_random m) 32,
                  AddUint8LengthPrefixed (AddBytes (sh_sessionId m)),
                  AddUint16 (sh_cipherSuite m), AddUint8 (sh_compressionMethod m),
                  addWhen (length extBytes > 0) (AddUint16LengthPrefixed (AddBytes extBytes))])]) of
                Ok raw \<Rightarrow> (m\<lparr>sh_raw := Some raw\<rparr>, Ok raw)
              | Err e \<Rightarrow> (m\<lparr>sh_raw := None\<rparr>, Err e)
              | Panic p \<Rightarrow> (m, Panic p))))"

section \<open>Unmarshalling\<close>

definition readNonEmpty16 :: "bytes \<Rightarrow> (bytes \<times> bytes) option" where
  "readNonEmpty16 s = do {(v, s) \<leftarrow> ReadUint16LengthPrefixed s; if length v = 0 then None else Some (v, s)}"

definition readAlpn :: "bytes \<Rightarrow> (bytes \<times> bytes) option" where
  "readAlpn d = do {
     (protoList, d) \<leftarrow> ReadUint16LengthPrefixed d;
     if Empty protoList then None else do {
     (proto, protoList) \<leftarrow> ReadUint8LengthPrefixed protoList;
     if Empty proto \<or> \<not> Empty protoList then None else Some (proto, d)}}"

definition sh_readExtension :: "u16 \<Rightarrow> bytes \<Rightarrow> bool \<Rightarrow> serverHelloMsg \<Rightarrow> (serverHelloMsg \<times> bytes) option" where
  "sh_readExtension ext d final m =
     (if ext = extensionStatusRequest then Some (m\<lparr>sh_ocspStapling := True\<rparr>, d)
      else if ext = extensionSessionTicket then Some (m\<lparr>sh_ticketSupported := True\<rparr>, d)
      else if ext = extensionRenegotiationInfo then do {
        (v, d) \<leftarrow> ReadUint8LengthPrefixed d;
        Some (m\<lparr>sh_secureRenegotiation := v, sh_secureRenegotiationSupported := True\<rparr>, d)}
      else if ext = extensionExtendedMasterSecret then Some (m\<lparr>sh_extendedMasterSecret := True\<rparr>, d)
      else if ext = extensionALPN then do {
        (proto, d) \<leftarrow> readAlpn d;
        Some (m\<lparr>sh_alpnProtocol := proto\<rparr>, d)}
      else if ext = extensionSCT then do {
        (sctList, d) \<leftarrow> ReadUint16LengthPrefixed d;
        if Empty sctList then None else do {
        xs \<leftarrow> readMany readNonEmpty16 sctList;
        Some (m\<lparr>sh_scts := sh_scts m @ xs\<rparr>, d)}}
      else if ext = extensionSupportedVersions then do {
        (v, d) \<leftarrow> ReadUint16 d;
        Some (m\<lparr>sh_supportedVersion := v\<rparr>, d)}
      else if ext = extensionCookie then do {
        (v, d) \<leftarrow> ReadUint16LengthPrefixed d;
        if length v = 0 then None else Some (m\<lparr>sh_cookie := v\<rparr>, d)}
      else if ext = extensionKeyShare then
        if length d = 2 then do {
          (g, d) \<leftarrow> ReadUint16 d;
          Some (m\<lparr>sh_selectedGroup := g\<rparr>, d)}
        else do {
          (g, d) \<leftarrow> ReadUint16 d;
          (v, d) \<leftarrow> ReadUint16LengthPrefixed d;
          Some (m\<lparr>sh_serverShare := \<lparr>ks_group = g, ks_data = v\<rparr>\<rparr>, d)}
      else if ext = extensionPreSharedKey then do {
        (v, d) \<leftarrow> ReadUint16 d;
        Some (m\<lparr>sh_selectedIdentityPresent := True, sh_selectedIdentity := v\<rparr>, d)}
      else if ext = extensionSupportedPoints then do {
        (v, d) \<leftarrow> ReadUint8LengthPrefixed d;
        if length v = 0 then None else Some (m\<lparr>sh_supportedPoints := v\<rparr>, d)}
      else if ext = extensionECH then do {
        (v, d) \<leftarrow> ReadBytes (length d) d;
        Some (m\<lparr>sh_ech := Some v\<rparr>, d)}
      else Some (m, []))"

definition sh_unmarshal :: "bytes \<Rightarrow> serverHelloMsg option" where
  "sh_unmarshal data = do {
     s \<leftarrow> Skip 4 data;
     (vers, s) \<leftarrow> ReadUint16 s;
     (random, s) \<leftarrow> ReadBytes 32 s;
     (sessionId, s) \<leftarrow> ReadUint8LengthPrefixed s;
     (cipherSuite, s) \<leftarrow> ReadUint16 s;
     (compressionMethod, s) \<leftarrow> ReadUint8 s;
     let m = emptyServerHello\<lparr>sh_raw := Some data, sh_vers := vers, sh_random := random, sh_sessionId := sessionId,
                              sh_cipherSuite := cipherSuite, sh_compressionMethod := compressionMethod\<rparr>;
     if Empty s then Some m
     else do {
       (extensions, s) \<leftarrow> ReadUint16LengthPrefixed s;
       if \<not> Empty s then None else extLoop sh_readExtension (length extensions) [] extensions m}}"

section \<open>What is marshalled\<close>

definition sh_extensions :: "serverHelloMsg \<Rightarrow> extension list" where
  "sh_extensions m =
     optExt (sh_ocspStapling m) extensionStatusRequest [] @
     optExt (sh_ticketSupported m) extensionSessionTicket [] @
     optExt (sh_secureRenegotiationSupported m) extensionRenegotiationInfo (pref8 (sh_secureRenegotiation m)) @
     optExt (sh_extendedMasterSecret m) extensionExtendedMasterSecret [] @
     optExt (sh_alpnProtocol m \<noteq> []) extensionALPN (pref16 (pref8 (sh_alpnProtocol m))) @
     optExt (sh_scts m \<noteq> []) extensionSCT (pref16 (concat (map pref16 (sh_scts m)))) @
     optExt (sh_supportedVersion m \<noteq> 0) extensionSupportedVersions (enc16 (sh_supportedVersion m)) @
     optExt (ks_group (sh_serverShare m) \<noteq> 0) extensionKeyShare (encKeyShare (sh_serverShare m)) @
     optExt (sh_selectedIdentityPresent m) extensionPreSharedKey (enc16 (sh_selectedIdentity m)) @
     optExt (sh_cookie m \<noteq> []) extensionCookie (pref16 (sh_cookie m)) @
     optExt (sh_selectedGroup m \<noteq> 0) extensionKeyShare (enc16 (sh_selectedGroup m)) @
     optExt (sh_supportedPoints m \<noteq> []) extensionSupportedPoints (pref8 (sh_supportedPoints m)) @
     optExt (opt_bytes (sh_ech m) \<noteq> []) extensionECH (opt_bytes (sh_ech m))"

definition encServerHello :: "u16 \<Rightarrow> bytes \<Rightarrow> bytes \<Rightarrow> u16 \<Rightarrow> u8 \<Rightarrow> bytes \<Rightarrow> bytes" where
  "encServerHello v r sid cs cm xs = enc16 v @ r @ pref8 sid @ enc16 cs @ enc8 cm @ (if length xs > 0 then pref16 xs else [])"

definition sh_encode :: "serverHelloMsg \<Rightarrow> bytes" where
  "sh_encode m = enc8 typeServerHello @ pref24 (encServerHello (sh_vers m) (sh_random m) (sh_sessionId m) (sh_cipherSuite m)
     (sh_compressionMethod m) (encExts (sh_extensions m)))"

definition fits_serverHello :: "serverHelloMsg \<Rightarrow> bool" where
  "fits_serverHello m \<longleftrightarrow>
     length (sh_random m) = 32 \<and> length (sh_sessionId m) < 256 \<and> length (sh_secureRenegotiation m) < 256 \<and>
     length (sh_alpnProtocol m) < 256 \<and> list_all (\<lambda>sct. length sct < 65536) (sh_scts m) \<and>
     length (ks_data (sh_serverShare m)) < 65536 \<and> length (sh_supportedPoints m) < 256 \<and>
     list_all (\<lambda>e. length (snd e) < 65536) (sh_extensions m) \<and> length (encExts (sh_extensions m)) < 65536"

lemmas sh_fits_unfold = fits_serverHello_def sh_extensions_def list_all_append append_assoc list_all_optExt snd_conv

lemma appends_scts:
  assumes "fits_serverHello m" and "sh_scts m \<noteq> []"
  shows "appends (addExt extensionSCT
        (AddUint16LengthPrefixed (forEach (\<lambda>sct. AddUint16LengthPrefixed (AddBytes sct)) (sh_scts m))))
        (encExt (extensionSCT, pref16 (concat (map pref16 (sh_scts m)))))"
  by (intro appends_addExt builder_intros) (use assms [unfolded sh_fits_unfold] in \<open>simp_all add: list_all_iff\<close>)

lemma appends_sh_addExtensions:
  assumes f: "fits_serverHello m"
  shows "appends (sh_addExtensions m) (encExts (sh_extensions m))"
  unfolding sh_addExtensions_def sh_extensions_def append_assoc encExts_append length_greater_0_conv
  by (intro appends_Cons appends_last appends_optExt appends_emptyExt)
    ((rule appends_scts, rule f, assumption) | (rule appends_addExt, intro builder_intros) | (use f [unfolded sh_fits_unfold] in simp))+

lemma length_encServerHello [simp]:
  "length (encServerHello v r sid cs cm xs) = 6 + length r + length sid + (if xs = [] then 0 else length xs + 2)"
  by (simp add: encServerHello_def)

lemma sh_marshal_encode:
  assumes f: "fits_serverHello m" and "sh_raw m = None"
  shows "sh_marshal m = (m\<lparr>sh_raw := Some (sh_encode m)\<rparr>, Ok (sh_encode m))"
proof -
  let ?x = "encExts (sh_extensions m)"
  note u = f [unfolded fits_serverHello_def]
  have "appends (stmts [AddUint8 typeServerHello, AddUint24LengthPrefixed (stmts
                 [AddUint16 (sh_vers m), addBytesWithLength (sh_random m) 32,
                  AddUint8LengthPrefixed (AddBytes (sh_sessionId m)),
                  AddUint16 (sh_cipherSuite m), AddUint8 (sh_compressionMethod m),
                  addWhen (length ?x > 0) (AddUint16LengthPrefixed (AddBytes ?x))])]) (sh_encode m)"
    unfolding sh_encode_def encServerHello_def by (intro builder_intros appends_addWhen) (use u in simp_all)
  from runBytes_appends [OF this] assms(2) runBytes_appends [OF appends_sh_addExtensions [OF f]] show ?thesis
    by (simp add: sh_marshal_def)
qed

section \<open>What is unmarshalled\<close>

abbreviation sh_steps :: "extension list \<Rightarrow> serverHelloMsg \<Rightarrow> serverHelloMsg option" where
  "sh_steps \<equiv> steps sh_readExtension"

interpretation nonEmpty16c: codec pref16 readNonEmpty16 "\<lambda>v. v \<noteq> [] \<and> length v < 65536"
  by unfold_locales (auto simp: readNonEmpty16_def wire_simps)

lemma readAlpn_enc: "p \<noteq> [] \<Longrightarrow> length p < 256 \<Longrightarrow> readAlpn (pref16 (pref8 p)) = Some (p, [])"
proof -
  have "length (pref8 p) > 0" by simp
  then have "pref8 p \<noteq> []" by blast
  then show "p \<noteq> [] \<Longrightarrow> length p < 256 \<Longrightarrow> ?thesis"
    by (simp add: readAlpn_def lp16.dec_enc_all lp8.dec_enc_all)
qed

text \<open>
  A message that the wire format can express: the lengths fit, no certificate timestamp is empty, there is at most one kind
  of key share, and no field is set whose extension is not written.
\<close>

definition wf_serverHello :: "serverHelloMsg \<Rightarrow> bool" where
  "wf_serverHello m \<longleftrightarrow> fits_serverHello m \<and> list_all (\<lambda>sct. sct \<noteq> []) (sh_scts m) \<and>
     (sh_secureRenegotiation m \<noteq> [] \<longrightarrow> sh_secureRenegotiationSupported m) \<and>
     (ks_group (sh_serverShare m) = 0 \<longrightarrow> sh_serverShare m = \<lparr>ks_group = 0, ks_data = []\<rparr>) \<and>
     (sh_selectedGroup m = 0 \<or> ks_group (sh_serverShare m) = 0) \<and>
     (sh_selectedIdentity m \<noteq> 0 \<longrightarrow> sh_selectedIdentityPresent m) \<and> sh_ech m \<noteq> Some []"

lemma sh_wf_facts:
  assumes "wf_serverHello m"
  shows "length (sh_secureRenegotiation m) < 256" and "length (sh_alpnProtocol m) < 256"
    and "sh_scts m \<noteq> [] \<Longrightarrow> length (concat (map pref16 (sh_scts m))) < 65536"
    and "\<forall>sct \<in> set (sh_scts m). sct \<noteq> [] \<and> length sct < 65536"
    and "length (ks_data (sh_serverShare m)) < 65536" and "length (sh_supportedPoints m) < 256"
    and "sh_cookie m \<noteq> [] \<Longrightarrow> length (sh_cookie m) < 65536"
    and "\<not> sh_secureRenegotiationSupported m \<Longrightarrow> sh_secureRenegotiation m = []"
    and "ks_group (sh_serverShare m) = 0 \<Longrightarrow> sh_serverShare m = \<lparr>ks_group = 0, ks_data = []\<rparr>"
    and "\<not> sh_selectedIdentityPresent m \<Longrightarrow> sh_selectedIdentity m = 0"
    and "opt_bytes (sh_ech m) \<noteq> [] \<longleftrightarrow> sh_ech m \<noteq> None"
  using assms by (simp_all add: wf_serverHello_def sh_fits_unfold) (auto simp: list_all_iff opt_bytes_def split: option.splits)

text \<open>The message before its extensions are read.\<close>

definition sh_base :: "bytes \<Rightarrow> serverHelloMsg \<Rightarrow> serverHelloMsg" where
  "sh_base raw m = emptyServerHello\<lparr>sh_raw := Some raw, sh_vers := sh_vers m, sh_random := sh_random m, sh_sessionId := sh_sessionId m,
     sh_cipherSuite := sh_cipherSuite m, sh_compressionMethod := sh_compressionMethod m\<rparr>"

lemma sh_steps_ocsp:
  assumes "wf_serverHello m" and "\<not> sh_ocspStapling r"
  shows "sh_steps (optExt (sh_ocspStapling m) extensionStatusRequest ([]) @ es) r = sh_steps es (r\<lparr>sh_ocspStapling := sh_ocspStapling m\<rparr>)"
  by (rule steps_opt)
    (use assms in \<open>auto simp: sh_readExtension_def extension_ids wire_simps sh_wf_facts \<close>)

lemma sh_steps_ticket:
  assumes "wf_serverHello m" and "\<not> sh_ticketSupported r"
  shows "sh_steps (optExt (sh_ticketSupported m) extensionSessionTicket ([]) @ es) r = sh_steps es (r\<lparr>sh_ticketSupported := sh_ticketSupported m\<rparr>)"
  by (rule steps_opt)
    (use assms in \<open>auto simp: sh_readExtension_def extension_ids wire_simps sh_wf_facts \<close>)

lemma sh_steps_renegotiation:
  assumes "wf_serverHello m" and "\<not> sh_secureRenegotiationSupported r \<and> sh_secureRenegotiation r = []"
  shows "sh_steps (optExt (sh_secureRenegotiationSupported m) extensionRenegotiationInfo (pref8 (sh_secureRenegotiation m)) @ es) r = sh_steps es (r\<lparr>sh_secureRenegotiation := sh_secureRenegotiation m, sh_secureRenegotiationSupported := sh_secureRenegotiationSupported m\<rparr>)"
  by (rule steps_opt)
    (use assms in \<open>auto simp: sh_readExtension_def extension_ids wire_simps sh_wf_facts lp8.dec_enc_all\<close>)

lemma sh_steps_extendedMasterSecret:
  assumes "wf_serverHello m" and "\<not> sh_extendedMasterSecret r"
  shows "sh_steps (optExt (sh_extendedMasterSecret m) extensionExtendedMasterSecret ([]) @ es) r = sh_steps es (r\<lparr>sh_extendedMasterSecret := sh_extendedMasterSecret m\<rparr>)"
  by (rule steps_opt)
    (use assms in \<open>auto simp: sh_readExtension_def extension_ids wire_simps sh_wf_facts \<close>)

lemma sh_steps_alpn:
  assumes "wf_serverHello m" and "sh_alpnProtocol r = []"
  shows "sh_steps (optExt (sh_alpnProtocol m \<noteq> []) extensionALPN (pref16 (pref8 (sh_alpnProtocol m))) @ es) r = sh_steps es (r\<lparr>sh_alpnProtocol := sh_alpnProtocol m\<rparr>)"
  by (rule steps_opt)
    (use assms in \<open>auto simp: sh_readExtension_def extension_ids wire_simps sh_wf_facts readAlpn_enc\<close>)

lemma sh_steps_scts:
  assumes "wf_serverHello m" and "sh_scts r = []"
  shows "sh_steps (optExt (sh_scts m \<noteq> []) extensionSCT (pref16 (concat (map pref16 (sh_scts m)))) @ es) r = sh_steps es (r\<lparr>sh_scts := sh_scts m\<rparr>)"
  by (rule steps_opt)
    (use assms in \<open>auto simp: sh_readExtension_def extension_ids wire_simps sh_wf_facts lp16.dec_enc_all nonEmpty16c.readMany_concat\<close>)

lemma sh_steps_version:
  assumes "wf_serverHello m" and "sh_supportedVersion r = 0"
  shows "sh_steps (optExt (sh_supportedVersion m \<noteq> 0) extensionSupportedVersions (enc16 (sh_supportedVersion m)) @ es) r = sh_steps es (r\<lparr>sh_supportedVersion := sh_supportedVersion m\<rparr>)"
  by (rule steps_opt)
    (use assms in \<open>auto simp: sh_readExtension_def extension_ids wire_simps sh_wf_facts u16c.dec_enc_all\<close>)

lemma sh_steps_share:
  assumes "wf_serverHello m" and "sh_serverShare r = \<lparr>ks_group = 0, ks_data = []\<rparr>"
  shows "sh_steps (optExt (ks_group (sh_serverShare m) \<noteq> 0) extensionKeyShare (encKeyShare (sh_serverShare m)) @ es) r = sh_steps es (r\<lparr>sh_serverShare := sh_serverShare m\<rparr>)"
  by (rule steps_opt)
    (use assms in \<open>auto simp: sh_readExtension_def extension_ids wire_simps sh_wf_facts encKeyShare_def lp16.dec_enc_all\<close>)

lemma sh_steps_identity:
  assumes "wf_serverHello m" and "\<not> sh_selectedIdentityPresent r \<and> sh_selectedIdentity r = 0"
  shows "sh_steps (optExt (sh_selectedIdentityPresent m) extensionPreSharedKey (enc16 (sh_selectedIdentity m)) @ es) r = sh_steps es (r\<lparr>sh_selectedIdentityPresent := sh_selectedIdentityPresent m, sh_selectedIdentity := sh_selectedIdentity m\<rparr>)"
  by (rule steps_opt)
    (use assms in \<open>auto simp: sh_readExtension_def extension_ids wire_simps sh_wf_facts u16c.dec_enc_all\<close>)

lemma sh_steps_cookie:
  assumes "wf_serverHello m" and "sh_cookie r = []"
  shows "sh_steps (optExt (sh_cookie m \<noteq> []) extensionCookie (pref16 (sh_cookie m)) @ es) r = sh_steps es (r\<lparr>sh_cookie := sh_cookie m\<rparr>)"
  by (rule steps_opt)
    (use assms in \<open>auto simp: sh_readExtension_def extension_ids wire_simps sh_wf_facts lp16.dec_enc_all\<close>)

lemma sh_steps_group:
  assumes "wf_serverHello m" and "sh_selectedGroup r = 0"
  shows "sh_steps (optExt (sh_selectedGroup m \<noteq> 0) extensionKeyShare (enc16 (sh_selectedGroup m)) @ es) r = sh_steps es (r\<lparr>sh_selectedGroup := sh_selectedGroup m\<rparr>)"
  by (rule steps_opt)
    (use assms in \<open>auto simp: sh_readExtension_def extension_ids wire_simps sh_wf_facts u16c.dec_enc_all\<close>)

lemma sh_steps_points:
  assumes "wf_serverHello m" and "sh_supportedPoints r = []"
  shows "sh_steps (optExt (sh_supportedPoints m \<noteq> []) extensionSupportedPoints (pref8 (sh_supportedPoints m)) @ es) r = sh_steps es (r\<lparr>sh_supportedPoints := sh_supportedPoints m\<rparr>)"
  by (rule steps_opt)
    (use assms in \<open>auto simp: sh_readExtension_def extension_ids wire_simps sh_wf_facts lp8.dec_enc_all\<close>)

lemma sh_steps_ech:
  assumes "wf_serverHello m" and "sh_ech r = None"
  shows "sh_steps (optExt (opt_bytes (sh_ech m) \<noteq> []) extensionECH (opt_bytes (sh_ech m))) r = Some (r\<lparr>sh_ech := sh_ech m\<rparr>)"
  using assms sh_wf_facts(11) [OF assms(1)]
  by (cases "sh_ech m") (auto simp: optExt_def sh_readExtension_def extension_ids opt_bytes_def wire_simps)

lemmas sh_steps_simps =
  sh_steps_ocsp sh_steps_ticket sh_steps_renegotiation sh_steps_extendedMasterSecret sh_steps_alpn sh_steps_scts sh_steps_version
  sh_steps_share sh_steps_identity sh_steps_cookie sh_steps_group sh_steps_points sh_steps_ech

lemma sh_steps_extensions:
  assumes "wf_serverHello m"
  shows "sh_steps (sh_extensions m) (sh_base raw m) = Some (m\<lparr>sh_raw := Some raw\<rparr>)"
  unfolding sh_extensions_def by (simp add: sh_steps_simps assms sh_base_def emptyServerHello_def)

lemma distinct_sh_extensions:
  assumes "wf_serverHello m"
  shows "distinct (map fst (sh_extensions m))"
proof -
  have "sh_selectedGroup m = 0 \<or> ks_group (sh_serverShare m) = 0" using assms by (simp add: wf_serverHello_def)
  then show ?thesis
    unfolding sh_extensions_def
    by (intro distinct_optExt) (simp_all add: image_Un extension_ids, simp add: optExt_def)
qed

lemma sh_unmarshal_encode:
  assumes "wf_serverHello m"
  shows "sh_unmarshal (sh_encode m) = Some (m\<lparr>sh_raw := Some (sh_encode m)\<rparr>)"
proof -
  let ?x = "encExts (sh_extensions m)"
  let ?h = "encServerHello (sh_vers m) (sh_random m) (sh_sessionId m) (sh_cipherSuite m) (sh_compressionMethod m) ?x"
  have f: "fits_serverHello m" using assms by (simp add: wf_serverHello_def)
  note u = f [unfolded fits_serverHello_def]
  have "Skip 4 ((enc8 typeServerHello @ be 3 (length ?h)) @ ?h) = Some ?h"
    by (rule Skip_append) simp
  then have skip: "Skip 4 (sh_encode m) = Some ?h"
    by (simp add: sh_encode_def pref24_def)
  have xs: "extLoop sh_readExtension (length ?x) [] ?x (sh_base (sh_encode m) m) = Some (m\<lparr>sh_raw := Some (sh_encode m)\<rparr>)"
    using u by (simp add: extLoop_steps length_exts_le distinct_sh_extensions sh_steps_extensions assms)
  have "sh_extensions m = []" if "?x = []"
    using that length_exts_le [of "sh_extensions m"] by simp
  then have nox: "sh_base (sh_encode m) m = m\<lparr>sh_raw := Some (sh_encode m)\<rparr>" if "?x = []"
    using that sh_steps_extensions [OF assms, of "sh_encode m"] by simp
  show ?thesis
    unfolding sh_unmarshal_def skip encServerHello_def
    using u xs nox by (simp add: wire_simps lp16.dec_enc_all Let_def flip: sh_base_def)
qed

end
