(* ===== verification/Handshake_Messages.thy ===== *)
theory Handshake_Messages
  imports Server_Hello
begin

text \<open>
  The other handshake messages of \<^verbatim>\<open>crypto/tls/handshake_messages.go\<close> that a TLS 1.3 connection can parse, each with marshal, its
  cache, and unmarshal, and \<open>readHandshake\<close> with the dispatch on the message type of \<^verbatim>\<open>crypto/tls/conn.go\<close>. The locale
  \<open>handshake_message\<close> is the contract that the messages share; every message interprets it.
\<close>

section \<open>Framing\<close>

definition typeHelloRequest :: u8 where "typeHelloRequest = 0"
definition typeNewSessionTicket :: u8 where "typeNewSessionTicket = 4"
definition typeEndOfEarlyData :: u8 where "typeEndOfEarlyData = 5"
definition typeEncryptedExtensions :: u8 where "typeEncryptedExtensions = 8"
definition typeCertificate :: u8 where "typeCertificate = 11"
definition typeServerKeyExchange :: u8 where "typeServerKeyExchange = 12"
definition typeCertificateRequest :: u8 where "typeCertificateRequest = 13"
definition typeServerHelloDone :: u8 where "typeServerHelloDone = 14"
definition typeCertificateVerify :: u8 where "typeCertificateVerify = 15"
definition typeClientKeyExchange :: u8 where "typeClientKeyExchange = 16"
definition typeFinished :: u8 where "typeFinished = 20"
definition typeCertificateStatus :: u8 where "typeCertificateStatus = 22"
definition typeKeyUpdate :: u8 where "typeKeyUpdate = 24"
definition extensionCertificateAuthorities :: u16 where "extensionCertificateAuthorities = 47"
definition maxHandshake :: nat where "maxHandshake = 65536"

lemmas message_types = typeHelloRequest_def typeNewSessionTicket_def typeEndOfEarlyData_def typeEncryptedExtensions_def
  typeCertificate_def typeServerKeyExchange_def typeCertificateRequest_def typeServerHelloDone_def typeCertificateVerify_def
  typeClientKeyExchange_def typeFinished_def typeCertificateStatus_def typeKeyUpdate_def typeClientHello_def typeServerHello_def

text \<open>What every marshal below does: return the cached bytes, or build the message, type byte and length first, and cache it.\<close>

definition marshalCached ::
    "('m \<Rightarrow> bytes option) \<Rightarrow> (bytes option \<Rightarrow> 'm \<Rightarrow> 'm) \<Rightarrow> u8 \<Rightarrow> ('m \<Rightarrow> Builder \<Rightarrow> build) \<Rightarrow> 'm \<Rightarrow> 'm \<times> bytes res" where
  "marshalCached raw set_raw mtype body m = (case raw m of
       Some r \<Rightarrow> (m, Ok r)
     | None \<Rightarrow> (case runBytes (stmts [AddUint8 mtype, AddUint24LengthPrefixed (body m)]) of
           Ok r \<Rightarrow> (set_raw (Some r) m, Ok r)
         | Err e \<Rightarrow> (set_raw None m, Err e)
         | Panic p \<Rightarrow> (m, Panic p)))"

definition frame :: "u8 \<Rightarrow> bytes \<Rightarrow> bytes" where
  "frame mtype payload = enc8 mtype @ pref24 payload"

text \<open>
  The contract of a message: its body writes its payload, and unmarshal reads the framed payload back, with the bytes in the cache.
\<close>

locale handshake_message =
  fixes raw :: "'m \<Rightarrow> bytes option" and set_raw :: "bytes option \<Rightarrow> 'm \<Rightarrow> 'm" and mtype :: u8
    and body :: "'m \<Rightarrow> Builder \<Rightarrow> build" and payload :: "'m \<Rightarrow> bytes" and unm :: "bytes \<Rightarrow> 'm option" and wf :: "'m \<Rightarrow> bool"
  assumes body_writes: "wf m \<Longrightarrow> appends (body m) (payload m)"
    and payload_fits: "wf m \<Longrightarrow> length (payload m) \<le> maxHandshake"
    and unm_frame: "wf m \<Longrightarrow> unm (frame mtype (payload m)) = Some (set_raw (Some (frame mtype (payload m))) m)"
begin

lemma marshal_frame:
  assumes "wf m" and "raw m = None"
  shows "marshalCached raw set_raw mtype body m = (set_raw (Some (frame mtype (payload m))) m, Ok (frame mtype (payload m)))"
proof -
  have "appends (stmts [AddUint8 mtype, AddUint24LengthPrefixed (body m)]) (frame mtype (payload m))"
    unfolding frame_def using body_writes [OF assms(1)] payload_fits [OF assms(1)]
    by (intro builder_intros) (simp_all add: maxHandshake_def)
  from runBytes_appends [OF this] assms(2) show ?thesis
    by (simp add: marshalCached_def)
qed

lemma marshal_unmarshal:
  assumes "wf m" and "raw m = None" and "marshalCached raw set_raw mtype body m = (m', Ok data)"
  shows "unm data = Some m'"
  using assms unm_frame [OF assms(1)] by (auto simp: marshal_frame)

end

text \<open>The loop over extensions that does not refuse a repeated type.\<close>

fun extLoopAny :: "(u16 \<Rightarrow> bytes \<Rightarrow> 'm \<Rightarrow> ('m \<times> bytes) option) \<Rightarrow> nat \<Rightarrow> bytes \<Rightarrow> 'm \<Rightarrow> 'm option" where
  "extLoopAny rd n [] m = Some m"
| "extLoopAny rd 0 (b # bs) m = None"
| "extLoopAny rd (Suc n) (b # bs) m =
     (case readExt (b # bs) of None \<Rightarrow> None
      | Some ((ext, d), s) \<Rightarrow>
          (case rd ext d m of None \<Rightarrow> None
           | Some (m', r) \<Rightarrow> if \<not> Empty r then None else extLoopAny rd n s m'))"

lemma extLoopAny_steps:
  assumes "list_all (\<lambda>e. length (snd e) < 65536) es" and "length es \<le> n"
  shows "extLoopAny rd n (encExts es) m = steps (\<lambda>ext d _. rd ext d) es m"
  using assms
proof (induction es arbitrary: n m)
  case Nil
  then show ?case by simp
next
  case (Cons e es)
  then obtain k where n: "n = Suc k" "length es \<le> k" by (cases n) auto
  have "encExt e \<noteq> []" by (simp add: encExt_def)
  then obtain b bs where b: "encExt e @ encExts es = b # bs" by (cases "encExt e") auto
  obtain ext d where e: "e = (ext, d)" by (cases e)
  have r: "readExt (b # bs) = Some ((ext, d), encExts es)"
    using extc.dec_enc [of e "encExts es"] Cons.prems(1) b by (simp add: e)
  show ?case
    using Cons.prems n(2) b by (simp add: n(1) e r Cons.IH split: option.splits prod.splits)
qed

lemma enc8_0: "enc8 0 = pref8 []"
  by (simp add: enc8_def pref8_def be.simps)

lemma Skip_frame [wire_simps]: "Skip 4 (frame mtype p) = Some p"
proof -
  have "Skip 4 ((enc8 mtype @ be 3 (length p)) @ p) = Some p" by (rule Skip_append) simp
  then show ?thesis by (simp add: frame_def pref24_def)
qed

section \<open>EncryptedExtensions\<close>

record encryptedExtensionsMsg =
  ee_raw :: "bytes option"
  ee_alpnProtocol :: bytes
  ee_quicTransportParameters :: "bytes option"
  ee_earlyData :: bool
  ee_ech :: bytes

definition emptyEE :: encryptedExtensionsMsg where
  "emptyEE = \<lparr>ee_raw = None, ee_alpnProtocol = [], ee_quicTransportParameters = None, ee_earlyData = False, ee_ech = []\<rparr>"

definition ee_body :: "encryptedExtensionsMsg \<Rightarrow> Builder \<Rightarrow> build" where
  "ee_body m = AddUint16LengthPrefixed (stmts
     [addWhen (length (ee_alpnProtocol m) > 0) (addExt extensionALPN
        (AddUint16LengthPrefixed (AddUint8LengthPrefixed (AddBytes (ee_alpnProtocol m))))),
      addWhen (ee_quicTransportParameters m \<noteq> None) (addExt extensionQUICTransportParameters
        (AddBytes (opt_bytes (ee_quicTransportParameters m)))),
      addWhen (ee_earlyData m) (stmts [AddUint16 extensionEarlyData, AddUint16 0]),
      addWhen (length (ee_ech m) > 0) (addExt extensionECH (AddBytes (ee_ech m)))])"

definition ee_marshal :: "encryptedExtensionsMsg \<Rightarrow> encryptedExtensionsMsg \<times> bytes res" where
  "ee_marshal = marshalCached ee_raw (\<lambda>r m. m\<lparr>ee_raw := r\<rparr>) typeEncryptedExtensions ee_body"

definition ee_readExtension :: "u16 \<Rightarrow> bytes \<Rightarrow> encryptedExtensionsMsg \<Rightarrow> (encryptedExtensionsMsg \<times> bytes) option" where
  "ee_readExtension ext d m =
     (if ext = extensionALPN then do {(proto, d) \<leftarrow> readAlpn d; Some (m\<lparr>ee_alpnProtocol := proto\<rparr>, d)}
      else if ext = extensionQUICTransportParameters then do {
        (v, d) \<leftarrow> ReadBytes (length d) d; Some (m\<lparr>ee_quicTransportParameters := Some v\<rparr>, d)}
      else if ext = extensionEarlyData then Some (m\<lparr>ee_earlyData := True\<rparr>, d)
      else if ext = extensionECH then do {(v, d) \<leftarrow> ReadBytes (length d) d; Some (m\<lparr>ee_ech := v\<rparr>, d)}
      else Some (m, []))"

definition ee_unmarshal :: "bytes \<Rightarrow> encryptedExtensionsMsg option" where
  "ee_unmarshal data = do {
     s \<leftarrow> Skip 4 data;
     (extensions, s) \<leftarrow> ReadUint16LengthPrefixed s;
     if \<not> Empty s then None else extLoopAny ee_readExtension (length extensions) extensions (emptyEE\<lparr>ee_raw := Some data\<rparr>)}"

definition ee_extensions :: "encryptedExtensionsMsg \<Rightarrow> extension list" where
  "ee_extensions m =
     optExt (ee_alpnProtocol m \<noteq> []) extensionALPN (pref16 (pref8 (ee_alpnProtocol m))) @
     optExt (ee_quicTransportParameters m \<noteq> None) extensionQUICTransportParameters (opt_bytes (ee_quicTransportParameters m)) @
     optExt (ee_earlyData m) extensionEarlyData [] @
     optExt (ee_ech m \<noteq> []) extensionECH (ee_ech m)"

definition ee_payload :: "encryptedExtensionsMsg \<Rightarrow> bytes" where
  "ee_payload m = pref16 (encExts (ee_extensions m))"

definition wf_ee :: "encryptedExtensionsMsg \<Rightarrow> bool" where
  "wf_ee m \<longleftrightarrow> length (ee_alpnProtocol m) < 256 \<and> list_all (\<lambda>e. length (snd e) < 65536) (ee_extensions m) \<and>
     length (ee_payload m) \<le> maxHandshake \<and> length (encExts (ee_extensions m)) < 65536"

lemma ee_body_writes:
  assumes "wf_ee m"
  shows "appends (ee_body m) (ee_payload m)"
proof -
  note u = assms [unfolded wf_ee_def ee_extensions_def list_all_append list_all_optExt snd_conv]
  show ?thesis
    unfolding ee_body_def ee_payload_def ee_extensions_def encExts_append append_assoc length_greater_0_conv
    by (intro appends_Uint16LengthPrefixed appends_Cons appends_last appends_optExt appends_emptyExt)
      ((rule appends_addExt, intro builder_intros) | (use u in simp))+
qed

lemma ee_steps:
  assumes "wf_ee m"
  shows "steps (\<lambda>ext d _. ee_readExtension ext d) (ee_extensions m) (emptyEE\<lparr>ee_raw := r\<rparr>) = Some (m\<lparr>ee_raw := r\<rparr>)"
proof -
  have l: "length (ee_alpnProtocol m) < 256" using assms by (simp add: wf_ee_def)
  note q = readAlpn_enc extension_ids ReadBytes_all opt_bytes_def
  show ?thesis
    unfolding ee_extensions_def using l
    by (cases "ee_alpnProtocol m = []"; cases "ee_quicTransportParameters m"; cases "ee_earlyData m"; cases "ee_ech m = []")
      (simp_all add: optExt_def ee_readExtension_def q emptyEE_def)
qed

interpretation ee: handshake_message ee_raw "\<lambda>r m. m\<lparr>ee_raw := r\<rparr>" typeEncryptedExtensions ee_body ee_payload ee_unmarshal wf_ee
proof unfold_locales
  fix m assume w: "wf_ee m"
  let ?f = "frame typeEncryptedExtensions (ee_payload m)"
  show "appends (ee_body m) (ee_payload m)" using w by (rule ee_body_writes)
  show "length (ee_payload m) \<le> maxHandshake" using w by (simp add: wf_ee_def)
  show "ee_unmarshal ?f = Some (m\<lparr>ee_raw := Some ?f\<rparr>)"
    using w unfolding ee_unmarshal_def Skip_frame ee_payload_def
    by (simp add: lp16.dec_enc_all wf_ee_def extLoopAny_steps length_exts_le ee_steps [OF w])
qed

section \<open>NewSessionTicket\<close>

record newSessionTicketMsgTLS13 =
  nst_raw :: "bytes option"
  nst_lifetime :: u32
  nst_ageAdd :: u32
  nst_nonce :: bytes
  nst_label :: bytes
  nst_maxEarlyData :: u32

definition nst_body :: "newSessionTicketMsgTLS13 \<Rightarrow> Builder \<Rightarrow> build" where
  "nst_body m = stmts
     [AddUint32 (nst_lifetime m), AddUint32 (nst_ageAdd m),
      AddUint8LengthPrefixed (AddBytes (nst_nonce m)), AddUint16LengthPrefixed (AddBytes (nst_label m)),
      AddUint16LengthPrefixed (addWhen (nst_maxEarlyData m > 0) (addExt extensionEarlyData (AddUint32 (nst_maxEarlyData m))))]"

definition nst_marshal :: "newSessionTicketMsgTLS13 \<Rightarrow> newSessionTicketMsgTLS13 \<times> bytes res" where
  "nst_marshal = marshalCached nst_raw (\<lambda>r m. m\<lparr>nst_raw := r\<rparr>) typeNewSessionTicket nst_body"

definition nst_readExtension :: "u16 \<Rightarrow> bytes \<Rightarrow> newSessionTicketMsgTLS13 \<Rightarrow> (newSessionTicketMsgTLS13 \<times> bytes) option" where
  "nst_readExtension ext d m =
     (if ext = extensionEarlyData then do {(v, d) \<leftarrow> ReadUint32 d; Some (m\<lparr>nst_maxEarlyData := v\<rparr>, d)}
      else Some (m, []))"

definition nst_unmarshal :: "bytes \<Rightarrow> newSessionTicketMsgTLS13 option" where
  "nst_unmarshal data = do {
     s \<leftarrow> Skip 4 data;
     (lifetime, s) \<leftarrow> ReadUint32 s;
     (ageAdd, s) \<leftarrow> ReadUint32 s;
     (nonce, s) \<leftarrow> ReadUint8LengthPrefixed s;
     (label, s) \<leftarrow> ReadUint16LengthPrefixed s;
     (extensions, s) \<leftarrow> ReadUint16LengthPrefixed s;
     if \<not> Empty s then None
     else extLoopAny nst_readExtension (length extensions) extensions
       \<lparr>nst_raw = Some data, nst_lifetime = lifetime, nst_ageAdd = ageAdd, nst_nonce = nonce, nst_label = label, nst_maxEarlyData = 0\<rparr>}"

definition nst_extensions :: "newSessionTicketMsgTLS13 \<Rightarrow> extension list" where
  "nst_extensions m = optExt (nst_maxEarlyData m > 0) extensionEarlyData (enc32 (nst_maxEarlyData m))"

definition nst_payload :: "newSessionTicketMsgTLS13 \<Rightarrow> bytes" where
  "nst_payload m = enc32 (nst_lifetime m) @ enc32 (nst_ageAdd m) @ pref8 (nst_nonce m) @ pref16 (nst_label m) @
     pref16 (encExts (nst_extensions m))"

definition wf_nst :: "newSessionTicketMsgTLS13 \<Rightarrow> bool" where
  "wf_nst m \<longleftrightarrow> length (nst_nonce m) < 256 \<and> length (nst_nonce m) + length (nst_label m) \<le> 65515"

lemma length_nst_extensions: "length (encExts (nst_extensions m)) \<le> 8"
  by (simp add: nst_extensions_def optExt_def length_encExt)

interpretation nst: handshake_message nst_raw "\<lambda>r m. m\<lparr>nst_raw := r\<rparr>" typeNewSessionTicket nst_body nst_payload nst_unmarshal wf_nst
proof unfold_locales
  fix m assume w: "wf_nst m"
  let ?f = "frame typeNewSessionTicket (nst_payload m)"
  have x: "length (encExts (nst_extensions m)) < 65536" using length_nst_extensions [of m] by linarith
  have e: "encExts (nst_extensions m) = (if nst_maxEarlyData m > 0 then encExt (extensionEarlyData, enc32 (nst_maxEarlyData m)) else [])"
    by (simp add: nst_extensions_def optExt_def)
  show "appends (nst_body m) (nst_payload m)"
    unfolding nst_body_def nst_payload_def e
    by (intro builder_intros appends_addWhen appends_addExt) (use w in \<open>simp_all add: wf_nst_def length_encExt\<close>)
  show "length (nst_payload m) \<le> maxHandshake"
    using w length_nst_extensions [of m] by (simp add: nst_payload_def wf_nst_def maxHandshake_def)
  have s: "steps (\<lambda>ext d _. nst_readExtension ext d) (nst_extensions m) (m\<lparr>nst_raw := r, nst_maxEarlyData := 0\<rparr>) = Some (m\<lparr>nst_raw := r\<rparr>)" for r
    by (simp add: nst_extensions_def optExt_def nst_readExtension_def u32c.dec_enc_all word_gt_0)
  have b: "\<lparr>nst_raw = r, nst_lifetime = nst_lifetime m, nst_ageAdd = nst_ageAdd m, nst_nonce = nst_nonce m, nst_label = nst_label m,
      nst_maxEarlyData = 0\<rparr> = m\<lparr>nst_raw := r, nst_maxEarlyData := 0\<rparr>" for r
    by simp
  have a: "list_all (\<lambda>e. length (snd e) < 65536) (nst_extensions m)" by (simp add: nst_extensions_def)
  show "nst_unmarshal ?f = Some (m\<lparr>nst_raw := Some ?f\<rparr>)"
    unfolding nst_unmarshal_def Skip_frame nst_payload_def
    using w x by (simp add: wire_simps lp16.dec_enc_all wf_nst_def b extLoopAny_steps a length_exts_le s)
qed

section \<open>CertificateRequest\<close>

record certificateRequestMsgTLS13 =
  cr_raw :: "bytes option"
  cr_ocspStapling :: bool
  cr_scts :: bool
  cr_supportDelegatedCredential :: bool
  cr_supportedSignatureAlgorithms :: "u16 list"
  cr_supportedSignatureAlgorithmsDC :: "u16 list"
  cr_supportedSignatureAlgorithmsCert :: "u16 list"
  cr_certificateAuthorities :: "bytes list"

definition emptyCR :: certificateRequestMsgTLS13 where
  "emptyCR = \<lparr>cr_raw = None, cr_ocspStapling = False, cr_scts = False, cr_supportDelegatedCredential = False,
     cr_supportedSignatureAlgorithms = [], cr_supportedSignatureAlgorithmsDC = [], cr_supportedSignatureAlgorithmsCert = [],
     cr_certificateAuthorities = []\<rparr>"

definition cr_body :: "certificateRequestMsgTLS13 \<Rightarrow> Builder \<Rightarrow> build" where
  "cr_body m = stmts
     [AddUint8 0,
      AddUint16LengthPrefixed (stmts
        [addWhen (cr_ocspStapling m) (stmts [AddUint16 extensionStatusRequest, AddUint16 0]),
         addWhen (cr_scts m) (stmts [AddUint16 extensionSCT, AddUint16 0]),
         addWhen (cr_supportDelegatedCredential m) (addWhen (length (cr_supportedSignatureAlgorithmsDC m) > 0)
           (addExt extensionDelegatedCredentials (AddUint16LengthPrefixed (addUint16s (cr_supportedSignatureAlgorithmsDC m))))),
         addWhen (length (cr_supportedSignatureAlgorithms m) > 0)
           (addExt extensionSignatureAlgorithms (AddUint16LengthPrefixed (addUint16s (cr_supportedSignatureAlgorithms m)))),
         addWhen (length (cr_supportedSignatureAlgorithmsCert m) > 0)
           (addExt extensionSignatureAlgorithmsCert (AddUint16LengthPrefixed (addUint16s (cr_supportedSignatureAlgorithmsCert m)))),
         addWhen (length (cr_certificateAuthorities m) > 0)
           (addExt extensionCertificateAuthorities (AddUint16LengthPrefixed
             (forEach (\<lambda>ca. AddUint16LengthPrefixed (AddBytes ca)) (cr_certificateAuthorities m))))])]"

definition cr_marshal :: "certificateRequestMsgTLS13 \<Rightarrow> certificateRequestMsgTLS13 \<times> bytes res" where
  "cr_marshal = marshalCached cr_raw (\<lambda>r m. m\<lparr>cr_raw := r\<rparr>) typeCertificateRequest cr_body"

text \<open>A list with a 16-bit length whose elements are read until none is left; an empty list is refused.\<close>

definition readList16 :: "(bytes \<Rightarrow> ('a \<times> bytes) option) \<Rightarrow> bytes \<Rightarrow> ('a list \<times> bytes) option" where
  "readList16 rd d = do {
     (xs, d) \<leftarrow> ReadUint16LengthPrefixed d;
     if Empty xs then None else do {xs \<leftarrow> readMany rd xs; Some (xs, d)}}"

definition cr_readExtension :: "u16 \<Rightarrow> bytes \<Rightarrow> certificateRequestMsgTLS13 \<Rightarrow> (certificateRequestMsgTLS13 \<times> bytes) option" where
  "cr_readExtension ext d m =
     (if ext = extensionStatusRequest then Some (m\<lparr>cr_ocspStapling := True\<rparr>, d)
      else if ext = extensionSCT then Some (m\<lparr>cr_scts := True\<rparr>, d)
      else if ext = extensionDelegatedCredentials then do {
        (xs, d) \<leftarrow> readList16 ReadUint16 d;
        Some (m\<lparr>cr_supportedSignatureAlgorithmsDC := cr_supportedSignatureAlgorithmsDC m @ xs, cr_supportDelegatedCredential := True\<rparr>, d)}
      else if ext = extensionSignatureAlgorithms then do {
        (xs, d) \<leftarrow> readList16 ReadUint16 d;
        Some (m\<lparr>cr_supportedSignatureAlgorithms := cr_supportedSignatureAlgorithms m @ xs\<rparr>, d)}
      else if ext = extensionSignatureAlgorithmsCert then do {
        (xs, d) \<leftarrow> readList16 ReadUint16 d;
        Some (m\<lparr>cr_supportedSignatureAlgorithmsCert := cr_supportedSignatureAlgorithmsCert m @ xs\<rparr>, d)}
      else if ext = extensionCertificateAuthorities then do {
        (xs, d) \<leftarrow> readList16 readNonEmpty16 d;
        Some (m\<lparr>cr_certificateAuthorities := cr_certificateAuthorities m @ xs\<rparr>, d)}
      else Some (m, []))"

definition cr_unmarshal :: "bytes \<Rightarrow> certificateRequestMsgTLS13 option" where
  "cr_unmarshal data = do {
     s \<leftarrow> Skip 4 data;
     (context, s) \<leftarrow> ReadUint8LengthPrefixed s;
     if \<not> Empty context then None else do {
     (extensions, s) \<leftarrow> ReadUint16LengthPrefixed s;
     if \<not> Empty s then None else extLoopAny cr_readExtension (length extensions) extensions (emptyCR\<lparr>cr_raw := Some data\<rparr>)}}"

definition cr_extensions :: "certificateRequestMsgTLS13 \<Rightarrow> extension list" where
  "cr_extensions m =
     optExt (cr_ocspStapling m) extensionStatusRequest [] @
     optExt (cr_scts m) extensionSCT [] @
     optExt (cr_supportDelegatedCredential m \<and> cr_supportedSignatureAlgorithmsDC m \<noteq> []) extensionDelegatedCredentials
       (pref16 (enc16s (cr_supportedSignatureAlgorithmsDC m))) @
     optExt (cr_supportedSignatureAlgorithms m \<noteq> []) extensionSignatureAlgorithms (pref16 (enc16s (cr_supportedSignatureAlgorithms m))) @
     optExt (cr_supportedSignatureAlgorithmsCert m \<noteq> []) extensionSignatureAlgorithmsCert
       (pref16 (enc16s (cr_supportedSignatureAlgorithmsCert m))) @
     optExt (cr_certificateAuthorities m \<noteq> []) extensionCertificateAuthorities
       (pref16 (concat (map pref16 (cr_certificateAuthorities m))))"

definition cr_payload :: "certificateRequestMsgTLS13 \<Rightarrow> bytes" where
  "cr_payload m = enc8 0 @ pref16 (encExts (cr_extensions m))"

text \<open>A request that the wire format can express: the credential algorithms are there exactly when credentials are supported.\<close>

definition wf_cr :: "certificateRequestMsgTLS13 \<Rightarrow> bool" where
  "wf_cr m \<longleftrightarrow> list_all (\<lambda>e. length (snd e) < 65536) (cr_extensions m) \<and> length (encExts (cr_extensions m)) \<le> 65533 \<and>
     (cr_supportDelegatedCredential m \<longleftrightarrow> cr_supportedSignatureAlgorithmsDC m \<noteq> []) \<and>
     list_all (\<lambda>ca. ca \<noteq> [] \<and> length ca < 65536) (cr_certificateAuthorities m)"

lemma readList16_enc16s: "xs \<noteq> [] \<Longrightarrow> length xs < 32768 \<Longrightarrow> readList16 ReadUint16 (pref16 (enc16s xs)) = Some (xs, [])"
  by (simp add: readList16_def lp16.dec_enc_all readMany_enc16s)

lemma readList16_nonEmpty:
  assumes "xs \<noteq> []" and "length (concat (map pref16 xs)) < 65536" and "list_all (\<lambda>x. x \<noteq> [] \<and> length x < 65536) xs"
  shows "readList16 readNonEmpty16 (pref16 (concat (map pref16 xs))) = Some (xs, [])"
proof -
  have "concat (map pref16 xs) \<noteq> []" using assms(1) by (cases xs) auto
  then show ?thesis
    using assms(2,3) nonEmpty16c.readMany_concat [of xs] by (simp add: readList16_def lp16.dec_enc_all list_all_iff)
qed

lemma appends_list16:
  assumes "length (pref16 (concat (map pref16 xs))) < 65536" and "list_all (\<lambda>x. x \<noteq> [] \<and> length x < 65536) xs"
  shows "appends (addExt ext (AddUint16LengthPrefixed (forEach (\<lambda>x. AddUint16LengthPrefixed (AddBytes x)) xs)))
    (encExt (ext, pref16 (concat (map pref16 xs))))"
  using assms by (intro appends_addExt builder_intros) (auto simp: list_all_iff)

lemma cr_body_writes:
  assumes "wf_cr m"
  shows "appends (cr_body m) (cr_payload m)"
proof -
  note u = assms [unfolded wf_cr_def cr_extensions_def list_all_append list_all_optExt snd_conv]
  have a: "appends (stmts
        [addWhen (cr_ocspStapling m) (stmts [AddUint16 extensionStatusRequest, AddUint16 0]),
         addWhen (cr_scts m) (stmts [AddUint16 extensionSCT, AddUint16 0]),
         addWhen (cr_supportDelegatedCredential m \<and> length (cr_supportedSignatureAlgorithmsDC m) > 0)
           (addExt extensionDelegatedCredentials (AddUint16LengthPrefixed (addUint16s (cr_supportedSignatureAlgorithmsDC m)))),
         addWhen (length (cr_supportedSignatureAlgorithms m) > 0)
           (addExt extensionSignatureAlgorithms (AddUint16LengthPrefixed (addUint16s (cr_supportedSignatureAlgorithms m)))),
         addWhen (length (cr_supportedSignatureAlgorithmsCert m) > 0)
           (addExt extensionSignatureAlgorithmsCert (AddUint16LengthPrefixed (addUint16s (cr_supportedSignatureAlgorithmsCert m)))),
         addWhen (length (cr_certificateAuthorities m) > 0)
           (addExt extensionCertificateAuthorities (AddUint16LengthPrefixed
             (forEach (\<lambda>ca. AddUint16LengthPrefixed (AddBytes ca)) (cr_certificateAuthorities m))))]) (encExts (cr_extensions m))"
    unfolding cr_extensions_def encExts_append append_assoc length_greater_0_conv
    by (intro appends_Cons appends_last appends_optExt appends_emptyExt)
      ((rule appends_list16) | (rule appends_addExt, intro builder_intros) | (use u in simp))+
  show ?thesis
    unfolding cr_body_def cr_payload_def addWhen_addWhen
    by (rule appends_Cons, rule appends_AddUint8, rule appends_last, rule appends_Uint16LengthPrefixed, rule a)
      (use assms in \<open>simp add: wf_cr_def\<close>)
qed

lemma cr_steps:
  assumes "wf_cr m"
  shows "steps (\<lambda>ext d _. cr_readExtension ext d) (cr_extensions m) (emptyCR\<lparr>cr_raw := r\<rparr>) = Some (m\<lparr>cr_raw := r\<rparr>)"
proof -
  note u = assms [unfolded wf_cr_def cr_extensions_def list_all_append list_all_optExt snd_conv]
  note q = cr_readExtension_def extension_ids extensionCertificateAuthorities_def readList16_enc16s readList16_nonEmpty emptyCR_def
  show ?thesis
    unfolding cr_extensions_def append_assoc
    apply (subst steps_opt [where r' = "emptyCR\<lparr>cr_raw := r, cr_ocspStapling := cr_ocspStapling m\<rparr>"], simp add: q, simp add: q)
    apply (subst steps_opt [where r' = "emptyCR\<lparr>cr_raw := r, cr_ocspStapling := cr_ocspStapling m, cr_scts := cr_scts m\<rparr>"], simp add: q, simp add: q)
    using u by (auto simp: optExt_def q)
qed

interpretation cr: handshake_message cr_raw "\<lambda>r m. m\<lparr>cr_raw := r\<rparr>" typeCertificateRequest cr_body cr_payload cr_unmarshal wf_cr
proof unfold_locales
  fix m assume w: "wf_cr m"
  let ?f = "frame typeCertificateRequest (cr_payload m)"
  show "appends (cr_body m) (cr_payload m)" using w by (rule cr_body_writes)
  show "length (cr_payload m) \<le> maxHandshake" using w by (simp add: wf_cr_def cr_payload_def maxHandshake_def)
  show "cr_unmarshal ?f = Some (m\<lparr>cr_raw := Some ?f\<rparr>)"
    using w unfolding cr_unmarshal_def Skip_frame cr_payload_def enc8_0
    by (simp add: wire_simps lp16.dec_enc_all wf_cr_def extLoopAny_steps length_exts_le cr_steps [OF w])
qed

section \<open>Certificate\<close>

text \<open>The fields of \<^verbatim>\<open>Certificate\<close> that are sent.\<close>

record tlsCertificate =
  ce_Certificate :: "bytes list"
  ce_OCSPStaple :: "bytes option"
  ce_SignedCertificateTimestamps :: "bytes list option"
  ce_DelegatedCredential :: "bytes option"

record certificateMsgTLS13 =
  cm_raw :: "bytes option"
  cm_certificate :: tlsCertificate
  cm_ocspStapling :: bool
  cm_scts :: bool
  cm_delegatedCredential :: bool

definition marshalLeafExtensions :: "tlsCertificate \<Rightarrow> Builder \<Rightarrow> build" where
  "marshalLeafExtensions c = stmts
     [addWhen (ce_OCSPStaple c \<noteq> None) (addExt extensionStatusRequest (stmts
        [AddUint8 statusTypeOCSP, AddUint24LengthPrefixed (AddBytes (opt_bytes (ce_OCSPStaple c)))])),
      addWhen (ce_SignedCertificateTimestamps c \<noteq> None) (addExt extensionSCT (AddUint16LengthPrefixed
        (forEach (\<lambda>sct. AddUint16LengthPrefixed (AddBytes sct)) (the (ce_SignedCertificateTimestamps c))))),
      addWhen (ce_DelegatedCredential c \<noteq> None) (addExt extensionDelegatedCredentials
        (AddBytes (opt_bytes (ce_DelegatedCredential c))))]"

definition marshalCertificate :: "tlsCertificate \<Rightarrow> Builder \<Rightarrow> build" where
  "marshalCertificate c = AddUint24LengthPrefixed (forEach (\<lambda>(i, cert). stmts
     [AddUint24LengthPrefixed (AddBytes cert),
      AddUint16LengthPrefixed (addWhen (i = 0) (marshalLeafExtensions c))]) (enumerate 0 (ce_Certificate c)))"

text \<open>The certificate with what the flags of the message leave out removed.\<close>

definition sentCertificate :: "certificateMsgTLS13 \<Rightarrow> tlsCertificate" where
  "sentCertificate m = (let c = cm_certificate m;
     c = (if \<not> cm_ocspStapling m then c\<lparr>ce_OCSPStaple := None\<rparr> else c);
     c = (if \<not> cm_scts m then c\<lparr>ce_SignedCertificateTimestamps := None\<rparr> else c)
     in if \<not> cm_delegatedCredential m then c\<lparr>ce_DelegatedCredential := None\<rparr> else c)"

definition cm_body :: "certificateMsgTLS13 \<Rightarrow> Builder \<Rightarrow> build" where
  "cm_body m = stmts [AddUint8 0, marshalCertificate (sentCertificate m)]"

definition cm_marshal :: "certificateMsgTLS13 \<Rightarrow> certificateMsgTLS13 \<times> bytes res" where
  "cm_marshal = marshalCached cm_raw (\<lambda>r m. m\<lparr>cm_raw := r\<rparr>) typeCertificate cm_body"

definition ce_readExtension :: "u16 \<Rightarrow> bytes \<Rightarrow> tlsCertificate \<Rightarrow> (tlsCertificate \<times> bytes) option" where
  "ce_readExtension ext d c =
     (if length (ce_Certificate c) > 1 then Some (c, [])
      else if ext = extensionStatusRequest then do {
        (statusType, d) \<leftarrow> ReadUint8 d;
        if statusType \<noteq> statusTypeOCSP then None else do {
        (v, d) \<leftarrow> ReadUint24LengthPrefixed d;
        if length v = 0 then None else Some (c\<lparr>ce_OCSPStaple := Some v\<rparr>, d)}}
      else if ext = extensionSCT then do {
        (xs, d) \<leftarrow> readList16 readNonEmpty16 d;
        Some (c\<lparr>ce_SignedCertificateTimestamps := Some (case ce_SignedCertificateTimestamps c of None \<Rightarrow> xs | Some ys \<Rightarrow> ys @ xs)\<rparr>, d)}
      else if ext = extensionDelegatedCredentials then do {
        (v, d) \<leftarrow> ReadBytes (length d) d;
        if length v = 0 then None else Some (c\<lparr>ce_DelegatedCredential := Some v\<rparr>, d)}
      else Some (c, []))"

text \<open>Every certificate of the list takes at least five bytes.\<close>

fun certLoop :: "nat \<Rightarrow> bytes \<Rightarrow> tlsCertificate \<Rightarrow> tlsCertificate option" where
  "certLoop n [] c = Some c"
| "certLoop 0 (b # bs) c = None"
| "certLoop (Suc n) (b # bs) c = do {
     (cert, s) \<leftarrow> ReadUint24LengthPrefixed (b # bs);
     (extensions, s) \<leftarrow> ReadUint16LengthPrefixed s;
     c \<leftarrow> extLoopAny ce_readExtension (length extensions) extensions (c\<lparr>ce_Certificate := ce_Certificate c @ [cert]\<rparr>);
     certLoop n s c}"

definition unmarshalCertificate :: "bytes \<Rightarrow> tlsCertificate \<Rightarrow> (tlsCertificate \<times> bytes) option" where
  "unmarshalCertificate s c = do {
     (certList, s) \<leftarrow> ReadUint24LengthPrefixed s;
     c \<leftarrow> certLoop (length certList) certList c;
     Some (c, s)}"

definition cm_unmarshal :: "bytes \<Rightarrow> certificateMsgTLS13 option" where
  "cm_unmarshal data = do {
     s \<leftarrow> Skip 4 data;
     (context, s) \<leftarrow> ReadUint8LengthPrefixed s;
     if \<not> Empty context then None else do {
     (c, s) \<leftarrow> unmarshalCertificate s
       \<lparr>ce_Certificate = [], ce_OCSPStaple = None, ce_SignedCertificateTimestamps = None, ce_DelegatedCredential = None\<rparr>;
     if \<not> Empty s then None
     else Some \<lparr>cm_raw = Some data, cm_certificate = c, cm_ocspStapling = (ce_OCSPStaple c \<noteq> None),
       cm_scts = (ce_SignedCertificateTimestamps c \<noteq> None), cm_delegatedCredential = (ce_DelegatedCredential c \<noteq> None)\<rparr>}}"

definition ce_extensions :: "tlsCertificate \<Rightarrow> extension list" where
  "ce_extensions c =
     optExt (ce_OCSPStaple c \<noteq> None) extensionStatusRequest (enc8 statusTypeOCSP @ pref24 (opt_bytes (ce_OCSPStaple c))) @
     optExt (ce_SignedCertificateTimestamps c \<noteq> None) extensionSCT
       (pref16 (concat (map pref16 (the (ce_SignedCertificateTimestamps c))))) @
     optExt (ce_DelegatedCredential c \<noteq> None) extensionDelegatedCredentials (opt_bytes (ce_DelegatedCredential c))"

definition encIntermediate :: "bytes \<Rightarrow> bytes" where
  "encIntermediate cert = pref24 cert @ pref16 []"

definition ce_encode :: "tlsCertificate \<Rightarrow> bytes" where
  "ce_encode c = (case ce_Certificate c of [] \<Rightarrow> []
     | leaf # chain \<Rightarrow> pref24 leaf @ pref16 (encExts (ce_extensions c)) @ concat (map encIntermediate chain))"

definition cm_payload :: "certificateMsgTLS13 \<Rightarrow> bytes" where
  "cm_payload m = enc8 0 @ pref24 (ce_encode (cm_certificate m))"

text \<open>
  A message that the wire format can express: the flags agree with what there is, no staple, timestamp or credential is empty,
  and without a certificate there is none of them.
\<close>

definition wf_cm :: "certificateMsgTLS13 \<Rightarrow> bool" where
  "wf_cm m \<longleftrightarrow> (let c = cm_certificate m in
     length (cm_payload m) \<le> maxHandshake \<and>
     list_all (\<lambda>e. length (snd e) < 65536) (ce_extensions c) \<and> length (encExts (ce_extensions c)) < 65536 \<and>
     (cm_ocspStapling m \<longleftrightarrow> ce_OCSPStaple c \<noteq> None) \<and> (cm_scts m \<longleftrightarrow> ce_SignedCertificateTimestamps c \<noteq> None) \<and>
     (cm_delegatedCredential m \<longleftrightarrow> ce_DelegatedCredential c \<noteq> None) \<and>
     ce_OCSPStaple c \<noteq> Some [] \<and> ce_SignedCertificateTimestamps c \<noteq> Some [] \<and> ce_DelegatedCredential c \<noteq> Some [] \<and>
     list_all (\<lambda>x. x \<noteq> [] \<and> length x < 65536) (case ce_SignedCertificateTimestamps c of None \<Rightarrow> [] | Some xs \<Rightarrow> xs) \<and>
     (ce_Certificate c = [] \<longrightarrow> ce_extensions c = []))"

text \<open>The same of the certificate alone, as it is also kept in a session, where only the length prefix bounds it.\<close>

definition wf_ce :: "tlsCertificate \<Rightarrow> bool" where
  "wf_ce c \<longleftrightarrow> length (ce_encode c) < 16777216 \<and>
     list_all (\<lambda>e. length (snd e) < 65536) (ce_extensions c) \<and> length (encExts (ce_extensions c)) < 65536 \<and>
     ce_OCSPStaple c \<noteq> Some [] \<and> ce_SignedCertificateTimestamps c \<noteq> Some [] \<and> ce_DelegatedCredential c \<noteq> Some [] \<and>
     list_all (\<lambda>x. x \<noteq> [] \<and> length x < 65536) (case ce_SignedCertificateTimestamps c of None \<Rightarrow> [] | Some xs \<Rightarrow> xs) \<and>
     (ce_Certificate c = [] \<longrightarrow> ce_extensions c = [])"

lemma wf_cm_ce: "wf_cm m \<Longrightarrow> wf_ce (cm_certificate m)"
  by (simp add: wf_cm_def wf_ce_def Let_def cm_payload_def maxHandshake_def)

lemma cm_leaf_writes:
  assumes "list_all (\<lambda>e. length (snd e) < 65536) (ce_extensions c)"
    and "list_all (\<lambda>x. x \<noteq> [] \<and> length x < 65536) (case ce_SignedCertificateTimestamps c of None \<Rightarrow> [] | Some xs \<Rightarrow> xs)"
  shows "appends (marshalLeafExtensions c) (encExts (ce_extensions c))"
proof -
  note u = assms [unfolded ce_extensions_def list_all_append list_all_optExt snd_conv]
  show ?thesis
    unfolding marshalLeafExtensions_def ce_extensions_def encExts_append append_assoc
    by (intro appends_Cons appends_last appends_optExt)
      ((rule appends_list16) | (rule appends_addExt, intro builder_intros) | (use u in \<open>auto simp: opt_bytes_def\<close>))+
qed

lemma appends_chain:
  assumes "list_all (\<lambda>x. length x < 16777216) xs" and "0 < k"
  shows "appends (forEach (\<lambda>(i, cert). stmts
     [AddUint24LengthPrefixed (AddBytes cert), AddUint16LengthPrefixed (addWhen (i = 0) f)]) (enumerate k xs))
     (concat (map encIntermediate xs))"
  using assms
proof (induction xs arbitrary: k)
  case Nil
  show ?case by (rule appendsI) (simp add: forEach_def)
next
  case (Cons x xs)
  have "appends (addWhen (k = 0) f) []" using Cons.prems(2) appends_addWhen [of "k = 0" f "[]"] by simp
  then have "appends (stmts [AddUint24LengthPrefixed (AddBytes x), AddUint16LengthPrefixed (addWhen (k = 0) f)]) (encIntermediate x)"
    unfolding encIntermediate_def using Cons.prems(1) by (intro builder_intros) simp_all
  moreover have "appends (forEach (\<lambda>(i, cert). stmts
     [AddUint24LengthPrefixed (AddBytes cert), AddUint16LengthPrefixed (addWhen (i = 0) f)]) (enumerate (Suc k) xs))
     (concat (map encIntermediate xs))"
    using Cons.prems(1) by (intro Cons.IH) simp_all
  ultimately show ?case
    unfolding forEach_def enumerate_simps list.map prod.case concat.simps by (rule appends_Cons)
qed

lemma certLoop_entry:
  assumes "length cert < 16777216" and "list_all (\<lambda>e. length (snd e) < 65536) es" and "length (encExts es) < 65536"
  shows "certLoop (Suc n) (pref24 cert @ pref16 (encExts es) @ s) c =
    do {c \<leftarrow> steps (\<lambda>ext d _. ce_readExtension ext d) es (c\<lparr>ce_Certificate := ce_Certificate c @ [cert]\<rparr>); certLoop n s c}"
proof -
  obtain b bs where b: "pref24 cert @ pref16 (encExts es) @ s = b # bs"
    by (cases "pref24 cert") auto
  have "ReadUint24LengthPrefixed (b # bs) = Some (cert, pref16 (encExts es) @ s)"
    using assms(1) by (simp add: wire_simps flip: b)
  with assms show ?thesis
    by (simp add: b lp16.dec_enc extLoopAny_steps length_exts_le)
qed

lemma certLoop_chain:
  assumes "list_all (\<lambda>x. length x < 16777216) xs" and "length xs \<le> n"
  shows "certLoop n (concat (map encIntermediate xs)) c = Some (c\<lparr>ce_Certificate := ce_Certificate c @ xs\<rparr>)"
  using assms
proof (induction xs arbitrary: n c)
  case Nil
  show ?case by simp
next
  case (Cons x xs)
  then obtain k where n: "n = Suc k" "length xs \<le> k" by (cases n) auto
  have "concat (map encIntermediate (x # xs)) = pref24 x @ pref16 (encExts []) @ concat (map encIntermediate xs)"
    by (simp add: encIntermediate_def)
  with Cons.prems n certLoop_entry [of x "[]"] show ?case
    by (simp add: Cons.IH)
qed

lemma ce_leaf_steps:
  assumes "list_all (\<lambda>e. length (snd e) < 65536) (ce_extensions c)"
    and "ce_OCSPStaple c \<noteq> Some []" "ce_SignedCertificateTimestamps c \<noteq> Some []" "ce_DelegatedCredential c \<noteq> Some []"
    and "list_all (\<lambda>x. x \<noteq> [] \<and> length x < 65536) (case ce_SignedCertificateTimestamps c of None \<Rightarrow> [] | Some xs \<Rightarrow> xs)"
  shows "steps (\<lambda>ext d _. ce_readExtension ext d) (ce_extensions c)
      \<lparr>ce_Certificate = [leaf], ce_OCSPStaple = None, ce_SignedCertificateTimestamps = None, ce_DelegatedCredential = None\<rparr> =
    Some (c\<lparr>ce_Certificate := [leaf]\<rparr>)"
proof -
  note u = assms [unfolded ce_extensions_def list_all_append list_all_optExt snd_conv]
  note q = ce_readExtension_def extension_ids opt_bytes_def readList16_nonEmpty wire_simps lp24.dec_enc_all
  show ?thesis
    unfolding ce_extensions_def append_assoc
    by (cases "ce_OCSPStaple c"; cases "ce_SignedCertificateTimestamps c"; cases "ce_DelegatedCredential c")
      (use u in \<open>simp_all add: optExt_def q\<close>)
qed

lemma length_chain_le: "length xs \<le> length (concat (map encIntermediate xs))"
  by (induction xs) (simp_all add: encIntermediate_def)

lemma chain_fits: "length (concat (map encIntermediate xs)) < n \<Longrightarrow> list_all (\<lambda>x. length x < n) xs"
  by (induction xs) (simp_all add: encIntermediate_def)

lemma certLoop_encode:
  assumes "wf_ce c"
  shows "certLoop (length (ce_encode c)) (ce_encode c)
    \<lparr>ce_Certificate = [], ce_OCSPStaple = None, ce_SignedCertificateTimestamps = None, ce_DelegatedCredential = None\<rparr> =
    Some c"
proof (cases "ce_Certificate c")
  case Nil
  have "ce_extensions c = []" using assms Nil by (simp add: wf_ce_def)
  then show ?thesis
    using Nil by (cases c) (auto simp: ce_encode_def ce_extensions_def optExt_def split: if_splits)
next
  case (Cons leaf chain)
  have l: "length (ce_encode c) < 16777216" using assms by (simp add: wf_ce_def)
  have e: "ce_encode c = pref24 leaf @ pref16 (encExts (ce_extensions c)) @ concat (map encIntermediate chain)"
    by (simp add: ce_encode_def Cons)
  have chain: "list_all (\<lambda>x. length x < 16777216) chain" by (rule chain_fits) (use l in \<open>simp add: e\<close>)
  obtain k where k: "length (ce_encode c) = Suc k" "length chain \<le> k"
    using length_chain_le [of chain] by (simp add: e)
  have "certLoop (Suc k) (ce_encode c) \<lparr>ce_Certificate = [], ce_OCSPStaple = None, ce_SignedCertificateTimestamps = None,
      ce_DelegatedCredential = None\<rparr> = certLoop k (concat (map encIntermediate chain)) (c\<lparr>ce_Certificate := [leaf]\<rparr>)"
    using assms l unfolding e by (subst certLoop_entry) (simp_all add: wf_ce_def ce_leaf_steps)
  also have "\<dots> = Some c"
    using chain k(2) Cons by (simp add: certLoop_chain)
  finally show ?thesis by (simp add: k(1))
qed

lemma unmarshalCertificate_encode:
  assumes "wf_ce c"
  shows "unmarshalCertificate (pref24 (ce_encode c) @ s)
    \<lparr>ce_Certificate = [], ce_OCSPStaple = None, ce_SignedCertificateTimestamps = None, ce_DelegatedCredential = None\<rparr> = Some (c, s)"
  using assms certLoop_encode [OF assms] by (simp add: unmarshalCertificate_def wf_ce_def wire_simps)

lemma marshalCertificate_writes:
  assumes "wf_ce c"
  shows "appends (marshalCertificate c) (pref24 (ce_encode c))"
proof -
  have l: "length (ce_encode c) < 16777216" using assms by (simp add: wf_ce_def)
  have "appends (forEach (\<lambda>(i, cert). stmts
     [AddUint24LengthPrefixed (AddBytes cert), AddUint16LengthPrefixed (addWhen (i = 0) (marshalLeafExtensions c))])
     (enumerate 0 (ce_Certificate c))) (ce_encode c)"
  proof (cases "ce_Certificate c")
    case Nil
    then show ?thesis by (intro appendsI) (simp add: forEach_def ce_encode_def)
  next
    case (Cons leaf chain)
    have e: "ce_encode c = (pref24 leaf @ pref16 (encExts (ce_extensions c))) @ concat (map encIntermediate chain)"
      by (simp add: ce_encode_def Cons)
    have chain: "list_all (\<lambda>x. length x < 16777216) chain" by (rule chain_fits) (use l in \<open>simp add: e\<close>)
    have "appends (addWhen True (marshalLeafExtensions c)) (encExts (ce_extensions c))"
      using cm_leaf_writes [of c] assms appends_addWhen [of True] by (simp add: wf_ce_def)
    then have "appends (stmts [AddUint24LengthPrefixed (AddBytes leaf), AddUint16LengthPrefixed (addWhen True (marshalLeafExtensions c))])
        (pref24 leaf @ pref16 (encExts (ce_extensions c)))"
      using l assms by (intro builder_intros) (simp_all add: e wf_ce_def)
    from appends_Cons [OF this appends_chain [OF chain, of "Suc 0", unfolded forEach_def]] show ?thesis
      unfolding forEach_def Cons e enumerate_simps list.map prod.case by simp
  qed
  with l show ?thesis
    unfolding marshalCertificate_def by (rule appends_Uint24LengthPrefixed [rotated])
qed

interpretation cm: handshake_message cm_raw "\<lambda>r m. m\<lparr>cm_raw := r\<rparr>" typeCertificate cm_body cm_payload cm_unmarshal wf_cm
proof unfold_locales
  fix m assume w: "wf_cm m"
  let ?f = "frame typeCertificate (cm_payload m)"
  have s: "sentCertificate m = cm_certificate m"
    using w by (cases m; cases "cm_certificate m") (auto simp: sentCertificate_def wf_cm_def Let_def)
  show "appends (cm_body m) (cm_payload m)"
    unfolding cm_body_def cm_payload_def s
    by (rule appends_Cons, rule appends_AddUint8, rule appends_last, rule marshalCertificate_writes, rule wf_cm_ce, rule w)
  show l: "length (cm_payload m) \<le> maxHandshake" using w by (simp add: wf_cm_def Let_def)
  then have "length (ce_encode (cm_certificate m)) < 16777216" by (simp add: cm_payload_def maxHandshake_def)
  moreover have "\<lparr>cm_raw = r, cm_certificate = cm_certificate m, cm_ocspStapling = (ce_OCSPStaple (cm_certificate m) \<noteq> None),
       cm_scts = (ce_SignedCertificateTimestamps (cm_certificate m) \<noteq> None),
       cm_delegatedCredential = (ce_DelegatedCredential (cm_certificate m) \<noteq> None)\<rparr> = m\<lparr>cm_raw := r\<rparr>" for r
    using w by (cases m) (auto simp: wf_cm_def Let_def)
  ultimately show "cm_unmarshal ?f = Some (m\<lparr>cm_raw := Some ?f\<rparr>)"
    unfolding cm_unmarshal_def Skip_frame cm_payload_def enc8_0
    by (simp add: wire_simps unmarshalCertificate_def lp24.dec_enc_all certLoop_encode [OF wf_cm_ce [OF w]] del: not_None_eq)
qed

section \<open>CertificateVerify, Finished, KeyUpdate\<close>

record certificateVerifyMsg =
  cv_raw :: "bytes option"
  cv_hasSignatureAlgorithm :: bool
  cv_signatureAlgorithm :: u16
  cv_signature :: bytes

definition cv_body :: "certificateVerifyMsg \<Rightarrow> Builder \<Rightarrow> build" where
  "cv_body m = stmts [addWhen (cv_hasSignatureAlgorithm m) (AddUint16 (cv_signatureAlgorithm m)),
     AddUint16LengthPrefixed (AddBytes (cv_signature m))]"

definition cv_marshal :: "certificateVerifyMsg \<Rightarrow> certificateVerifyMsg \<times> bytes res" where
  "cv_marshal = marshalCached cv_raw (\<lambda>r m. m\<lparr>cv_raw := r\<rparr>) typeCertificateVerify cv_body"

definition cv_unmarshal :: "bool \<Rightarrow> bytes \<Rightarrow> certificateVerifyMsg option" where
  "cv_unmarshal hasSignatureAlgorithm data = do {
     s \<leftarrow> Skip 4 data;
     (alg, s) \<leftarrow> (if hasSignatureAlgorithm then ReadUint16 s else Some (0, s));
     (sig, s) \<leftarrow> ReadUint16LengthPrefixed s;
     if \<not> Empty s then None
     else Some \<lparr>cv_raw = Some data, cv_hasSignatureAlgorithm = hasSignatureAlgorithm, cv_signatureAlgorithm = alg, cv_signature = sig\<rparr>}"

definition cv_payload :: "certificateVerifyMsg \<Rightarrow> bytes" where
  "cv_payload m = enc16 (cv_signatureAlgorithm m) @ pref16 (cv_signature m)"

definition wf_cv :: "certificateVerifyMsg \<Rightarrow> bool" where
  "wf_cv m \<longleftrightarrow> cv_hasSignatureAlgorithm m \<and> length (cv_signature m) \<le> 65532"

interpretation cv: handshake_message cv_raw "\<lambda>r m. m\<lparr>cv_raw := r\<rparr>" typeCertificateVerify cv_body cv_payload "cv_unmarshal True" wf_cv
proof unfold_locales
  fix m assume w: "wf_cv m"
  let ?f = "frame typeCertificateVerify (cv_payload m)"
  have "appends (addWhen (cv_hasSignatureAlgorithm m) (AddUint16 (cv_signatureAlgorithm m))) (enc16 (cv_signatureAlgorithm m))"
    using w appends_addWhen [of "cv_hasSignatureAlgorithm m", OF appends_AddUint16] by (simp add: wf_cv_def)
  then show "appends (cv_body m) (cv_payload m)"
    unfolding cv_body_def cv_payload_def using w by (intro builder_intros) (simp_all add: wf_cv_def)
  show "length (cv_payload m) \<le> maxHandshake" using w by (simp add: cv_payload_def wf_cv_def maxHandshake_def)
  show "cv_unmarshal True ?f = Some (m\<lparr>cv_raw := Some ?f\<rparr>)"
    unfolding cv_unmarshal_def Skip_frame cv_payload_def
    using w by (cases m) (simp add: wire_simps lp16.dec_enc_all wf_cv_def)
qed

record finishedMsg =
  fin_raw :: "bytes option"
  fin_verifyData :: bytes

definition fin_body :: "finishedMsg \<Rightarrow> Builder \<Rightarrow> build" where
  "fin_body m = AddBytes (fin_verifyData m)"

definition fin_marshal :: "finishedMsg \<Rightarrow> finishedMsg \<times> bytes res" where
  "fin_marshal = marshalCached fin_raw (\<lambda>r m. m\<lparr>fin_raw := r\<rparr>) typeFinished fin_body"

definition fin_unmarshal :: "bytes \<Rightarrow> finishedMsg option" where
  "fin_unmarshal data = do {
     s \<leftarrow> Skip 1 data;
     (v, s) \<leftarrow> ReadUint24LengthPrefixed s;
     if \<not> Empty s then None else Some \<lparr>fin_raw = Some data, fin_verifyData = v\<rparr>}"

definition wf_fin :: "finishedMsg \<Rightarrow> bool" where
  "wf_fin m \<longleftrightarrow> length (fin_verifyData m) \<le> maxHandshake"

interpretation fin: handshake_message fin_raw "\<lambda>r m. m\<lparr>fin_raw := r\<rparr>" typeFinished fin_body fin_verifyData fin_unmarshal wf_fin
proof unfold_locales
  fix m assume w: "wf_fin m"
  let ?f = "frame typeFinished (fin_verifyData m)"
  show "appends (fin_body m) (fin_verifyData m)" unfolding fin_body_def by (rule appends_AddBytes)
  show "length (fin_verifyData m) \<le> maxHandshake" using w by (simp add: wf_fin_def)
  have "Skip 1 ?f = Some (pref24 (fin_verifyData m))" unfolding frame_def by (rule Skip_append) simp
  then show "fin_unmarshal ?f = Some (m\<lparr>fin_raw := Some ?f\<rparr>)"
    using w by (cases m) (simp add: fin_unmarshal_def wf_fin_def lp24.dec_enc_all maxHandshake_def)
qed

record keyUpdateMsg =
  ku_raw :: "bytes option"
  ku_updateRequested :: bool

definition ku_body :: "keyUpdateMsg \<Rightarrow> Builder \<Rightarrow> build" where
  "ku_body m = (if ku_updateRequested m then AddUint8 1 else AddUint8 0)"

definition ku_marshal :: "keyUpdateMsg \<Rightarrow> keyUpdateMsg \<times> bytes res" where
  "ku_marshal = marshalCached ku_raw (\<lambda>r m. m\<lparr>ku_raw := r\<rparr>) typeKeyUpdate ku_body"

definition ku_unmarshal :: "bytes \<Rightarrow> keyUpdateMsg option" where
  "ku_unmarshal data = do {
     s \<leftarrow> Skip 4 data;
     (updateRequested, s) \<leftarrow> ReadUint8 s;
     if \<not> Empty s then None
     else if updateRequested = 0 then Some \<lparr>ku_raw = Some data, ku_updateRequested = False\<rparr>
     else if updateRequested = 1 then Some \<lparr>ku_raw = Some data, ku_updateRequested = True\<rparr>
     else None}"

definition ku_payload :: "keyUpdateMsg \<Rightarrow> bytes" where
  "ku_payload m = enc8 (if ku_updateRequested m then 1 else 0)"

interpretation ku: handshake_message ku_raw "\<lambda>r m. m\<lparr>ku_raw := r\<rparr>" typeKeyUpdate ku_body ku_payload ku_unmarshal "\<lambda>_. True"
proof unfold_locales
  fix m
  let ?f = "frame typeKeyUpdate (ku_payload m)"
  show "appends (ku_body m) (ku_payload m)" by (simp add: ku_body_def ku_payload_def appends_AddUint8)
  show "length (ku_payload m) \<le> maxHandshake" by (simp add: ku_payload_def maxHandshake_def)
  show "ku_unmarshal ?f = Some (m\<lparr>ku_raw := Some ?f\<rparr>)"
    unfolding ku_unmarshal_def Skip_frame ku_payload_def by (cases m) (simp add: u8c.dec_enc_all)
qed

section \<open>Messages of earlier versions\<close>

text \<open>These can be parsed on a TLS 1.3 connection too; the handshake then refuses them as unexpected.\<close>

record certificateStatusMsg =
  cst_raw :: "bytes option"
  cst_response :: bytes

definition cst_body :: "certificateStatusMsg \<Rightarrow> Builder \<Rightarrow> build" where
  "cst_body m = stmts [AddUint8 statusTypeOCSP, AddUint24LengthPrefixed (AddBytes (cst_response m))]"

definition cst_marshal :: "certificateStatusMsg \<Rightarrow> certificateStatusMsg \<times> bytes res" where
  "cst_marshal = marshalCached cst_raw (\<lambda>r m. m\<lparr>cst_raw := r\<rparr>) typeCertificateStatus cst_body"

definition cst_unmarshal :: "bytes \<Rightarrow> certificateStatusMsg option" where
  "cst_unmarshal data = do {
     s \<leftarrow> Skip 4 data;
     (statusType, s) \<leftarrow> ReadUint8 s;
     if statusType \<noteq> statusTypeOCSP then None else do {
     (response, s) \<leftarrow> ReadUint24LengthPrefixed s;
     if length response = 0 \<or> \<not> Empty s then None else Some \<lparr>cst_raw = Some data, cst_response = response\<rparr>}}"

definition cst_payload :: "certificateStatusMsg \<Rightarrow> bytes" where
  "cst_payload m = enc8 statusTypeOCSP @ pref24 (cst_response m)"

definition wf_cst :: "certificateStatusMsg \<Rightarrow> bool" where
  "wf_cst m \<longleftrightarrow> cst_response m \<noteq> [] \<and> length (cst_response m) \<le> 65532"

interpretation cst: handshake_message cst_raw "\<lambda>r m. m\<lparr>cst_raw := r\<rparr>" typeCertificateStatus cst_body cst_payload cst_unmarshal wf_cst
proof unfold_locales
  fix m assume w: "wf_cst m"
  let ?f = "frame typeCertificateStatus (cst_payload m)"
  show "appends (cst_body m) (cst_payload m)"
    unfolding cst_body_def cst_payload_def using w by (intro builder_intros) (simp add: wf_cst_def)
  show "length (cst_payload m) \<le> maxHandshake" using w by (simp add: cst_payload_def wf_cst_def maxHandshake_def)
  show "cst_unmarshal ?f = Some (m\<lparr>cst_raw := Some ?f\<rparr>)"
    unfolding cst_unmarshal_def Skip_frame cst_payload_def
    using w by (cases m) (simp add: wire_simps lp24.dec_enc_all wf_cst_def)
qed

record serverKeyExchangeMsg =
  ske_raw :: "bytes option"
  ske_key :: bytes

definition ske_marshal :: "serverKeyExchangeMsg \<Rightarrow> serverKeyExchangeMsg \<times> bytes res" where
  "ske_marshal m = (case ske_raw m of
       Some r \<Rightarrow> (m, Ok r)
     | None \<Rightarrow> let x = [typeServerKeyExchange] @ be 3 (length (ske_key m)) @ ske_key m in (m\<lparr>ske_raw := Some x\<rparr>, Ok x))"

definition ske_unmarshal :: "bytes \<Rightarrow> serverKeyExchangeMsg option" where
  "ske_unmarshal data = (if length data < 4 then None else Some \<lparr>ske_raw = Some data, ske_key = drop 4 data\<rparr>)"

record clientKeyExchangeMsg =
  cke_raw :: "bytes option"
  cke_ciphertext :: bytes

definition cke_marshal :: "clientKeyExchangeMsg \<Rightarrow> clientKeyExchangeMsg \<times> bytes res" where
  "cke_marshal m = (case cke_raw m of
       Some r \<Rightarrow> (m, Ok r)
     | None \<Rightarrow> let x = [typeClientKeyExchange] @ be 3 (length (cke_ciphertext m)) @ cke_ciphertext m in (m\<lparr>cke_raw := Some x\<rparr>, Ok x))"

definition cke_unmarshal :: "bytes \<Rightarrow> clientKeyExchangeMsg option" where
  "cke_unmarshal data =
     (if length data < 4 then None
      else if unbe (take 3 (drop 1 data)) \<noteq> length data - 4 then None
      else Some \<lparr>cke_raw = Some data, cke_ciphertext = drop 4 data\<rparr>)"

section \<open>Reading a message\<close>

datatype handshakeMessage =
    HelloRequest
  | ClientHello clientHelloMsg
  | ServerHello serverHelloMsg
  | NewSessionTicket newSessionTicketMsgTLS13
  | CertificateMessage certificateMsgTLS13
  | CertificateRequest certificateRequestMsgTLS13
  | CertificateStatus certificateStatusMsg
  | ServerKeyExchange serverKeyExchangeMsg
  | ServerHelloDone
  | ClientKeyExchange clientKeyExchangeMsg
  | CertificateVerify certificateVerifyMsg
  | Finished finishedMsg
  | EncryptedExtensions encryptedExtensionsMsg
  | EndOfEarlyData
  | KeyUpdate keyUpdateMsg

definition alertUnexpectedMessage :: u8 where "alertUnexpectedMessage = 10"

text \<open>The marshal method of each message.\<close>

fun msg_marshal :: "handshakeMessage \<Rightarrow> handshakeMessage \<times> bytes res" where
  "msg_marshal HelloRequest = (HelloRequest, Ok [typeHelloRequest, 0, 0, 0])"
| "msg_marshal (ClientHello m) = apfst ClientHello (ch_marshal m)"
| "msg_marshal (ServerHello m) = apfst ServerHello (sh_marshal m)"
| "msg_marshal (NewSessionTicket m) = apfst NewSessionTicket (nst_marshal m)"
| "msg_marshal (CertificateMessage m) = apfst CertificateMessage (cm_marshal m)"
| "msg_marshal (CertificateRequest m) = apfst CertificateRequest (cr_marshal m)"
| "msg_marshal (CertificateStatus m) = apfst CertificateStatus (cst_marshal m)"
| "msg_marshal (ServerKeyExchange m) = apfst ServerKeyExchange (ske_marshal m)"
| "msg_marshal ServerHelloDone = (ServerHelloDone, Ok [typeServerHelloDone, 0, 0, 0])"
| "msg_marshal (ClientKeyExchange m) = apfst ClientKeyExchange (cke_marshal m)"
| "msg_marshal (CertificateVerify m) = apfst CertificateVerify (cv_marshal m)"
| "msg_marshal (Finished m) = apfst Finished (fin_marshal m)"
| "msg_marshal (EncryptedExtensions m) = apfst EncryptedExtensions (ee_marshal m)"
| "msg_marshal EndOfEarlyData = (EndOfEarlyData, Ok [typeEndOfEarlyData, 0, 0, 0])"
| "msg_marshal (KeyUpdate m) = apfst KeyUpdate (ku_marshal m)"

text \<open>The dispatch of a connection that uses TLS 1.3; \<open>None\<close> is the alert for an unexpected message.\<close>

definition unmarshalHandshakeMessage :: "bytes \<Rightarrow> handshakeMessage option" where
  "unmarshalHandshakeMessage data = (case data of [] \<Rightarrow> None | t # _ \<Rightarrow>
     if t = typeHelloRequest then (if length data = 4 then Some HelloRequest else None)
     else if t = typeClientHello then map_option ClientHello (ch_unmarshal data)
     else if t = typeServerHello then map_option ServerHello (sh_unmarshal data)
     else if t = typeNewSessionTicket then map_option NewSessionTicket (nst_unmarshal data)
     else if t = typeCertificate then map_option CertificateMessage (cm_unmarshal data)
     else if t = typeCertificateRequest then map_option CertificateRequest (cr_unmarshal data)
     else if t = typeCertificateStatus then map_option CertificateStatus (cst_unmarshal data)
     else if t = typeServerKeyExchange then map_option ServerKeyExchange (ske_unmarshal data)
     else if t = typeServerHelloDone then (if length data = 4 then Some ServerHelloDone else None)
     else if t = typeClientKeyExchange then map_option ClientKeyExchange (cke_unmarshal data)
     else if t = typeCertificateVerify then map_option CertificateVerify (cv_unmarshal True data)
     else if t = typeFinished then map_option Finished (fin_unmarshal data)
     else if t = typeEncryptedExtensions then map_option EncryptedExtensions (ee_unmarshal data)
     else if t = typeEndOfEarlyData then (if length data = 4 then Some EndOfEarlyData else None)
     else if t = typeKeyUpdate then map_option KeyUpdate (ku_unmarshal data)
     else None)"

text \<open>
  \<open>readHandshake\<close> on the bytes that the records have delivered so far: it needs more of them, fails with an alert, or returns the
  message, its bytes, which also go to the transcript, and the bytes that are left.
\<close>

datatype handshake_read = NeedMore | ReadFail u8 string | Message handshakeMessage bytes bytes

definition readHandshake :: "bytes \<Rightarrow> handshake_read" where
  "readHandshake hand =
     (if length hand < 4 then NeedMore
      else let n = unbe (take 3 (drop 1 hand)) in
        if n > maxHandshake then ReadFail alertInternalError ''tls: handshake message exceeds maximum''
        else if length hand < 4 + n then NeedMore
        else case unmarshalHandshakeMessage (take (4 + n) hand) of
          None \<Rightarrow> ReadFail alertUnexpectedMessage ''unexpected message''
        | Some m \<Rightarrow> Message m (take (4 + n) hand) (drop (4 + n) hand))"

text \<open>Messages that the wire format can express and whose bytes are not cached.\<close>

fun fresh_msg :: "handshakeMessage \<Rightarrow> bool" where
  "fresh_msg (ClientHello m) \<longleftrightarrow> wf_hello m \<and> ch_raw m = None \<and> length (ch_encode m) \<le> 4 + maxHandshake"
| "fresh_msg (ServerHello m) \<longleftrightarrow> wf_serverHello m \<and> sh_raw m = None \<and> length (sh_encode m) \<le> 4 + maxHandshake"
| "fresh_msg (NewSessionTicket m) \<longleftrightarrow> wf_nst m \<and> nst_raw m = None"
| "fresh_msg (CertificateMessage m) \<longleftrightarrow> wf_cm m \<and> cm_raw m = None"
| "fresh_msg (CertificateRequest m) \<longleftrightarrow> wf_cr m \<and> cr_raw m = None"
| "fresh_msg (CertificateStatus m) \<longleftrightarrow> wf_cst m \<and> cst_raw m = None"
| "fresh_msg (ServerKeyExchange m) \<longleftrightarrow> ske_raw m = None \<and> length (ske_key m) \<le> maxHandshake"
| "fresh_msg (ClientKeyExchange m) \<longleftrightarrow> cke_raw m = None \<and> length (cke_ciphertext m) \<le> maxHandshake"
| "fresh_msg (CertificateVerify m) \<longleftrightarrow> wf_cv m \<and> cv_raw m = None"
| "fresh_msg (Finished m) \<longleftrightarrow> wf_fin m \<and> fin_raw m = None"
| "fresh_msg (EncryptedExtensions m) \<longleftrightarrow> wf_ee m \<and> ee_raw m = None"
| "fresh_msg (KeyUpdate m) \<longleftrightarrow> ku_raw m = None"
| "fresh_msg HelloRequest \<longleftrightarrow> True"
| "fresh_msg ServerHelloDone \<longleftrightarrow> True"
| "fresh_msg EndOfEarlyData \<longleftrightarrow> True"

lemma frame_Cons: "frame t p = t # be 3 (length p) @ p"
  by (simp add: frame_def enc8_def pref24_def)

lemma length_frame [simp]: "length (frame t p) = 4 + length p"
  by (simp add: frame_def)

lemma empty_frame: "[t, 0, 0, 0] = frame t []"
  by (simp add: frame_Cons be.simps numeral_3_eq_3)

lemma drop_frame: "drop 4 (frame t p) = p"
  by (simp add: frame_Cons drop_Cons')

lemma frame_length_field: "length p < 16777216 \<Longrightarrow> unbe (take 3 (drop 1 (frame t p @ s))) = length p"
  by (simp add: frame_Cons unbe_be_id)

text \<open>A message that is marshalled as a frame and parsed back by the dispatch.\<close>

definition framed :: "handshakeMessage \<Rightarrow> bool" where
  "framed m \<longleftrightarrow> (\<exists>t p m'. length p \<le> maxHandshake \<and> msg_marshal m = (m', Ok (frame t p)) \<and>
     unmarshalHandshakeMessage (frame t p) = Some m')"

lemma framedI:
  assumes "msg_marshal m = (m', Ok (frame t p))" and "length p \<le> maxHandshake" and "unmarshalHandshakeMessage (frame t p) = Some m'"
  shows "framed m"
  using assms by (auto simp: framed_def)

lemmas dispatch = unmarshalHandshakeMessage_def frame_Cons message_types

lemma framed_dispatch:
  assumes "msg_marshal (C m) = apfst C r" and "r = (x, Ok (frame t p))" and "length p \<le> maxHandshake"
    and "unmarshalHandshakeMessage (frame t p) = map_option C (u (frame t p))" and "u (frame t p) = Some x"
  shows "framed (C m)"
  using assms by (intro framedI [of "C m" "C x" t p]) simp_all

context handshake_message
begin

lemma framed_message:
  assumes "wf m" and "raw m = None" and "msg_marshal (C m) = apfst C (marshalCached raw set_raw mtype body m)"
    and "\<And>p. unmarshalHandshakeMessage (frame mtype p) = map_option C (unm (frame mtype p))"
  shows "framed (C m)"
  using assms(3) marshal_frame [OF assms(1,2)] payload_fits [OF assms(1)] assms(4) unm_frame [OF assms(1)] by (rule framed_dispatch)

end

lemma framed_hello:
  assumes "fresh_msg (ClientHello m)"
  shows "framed (ClientHello m)"
proof -
  obtain p where p: "ch_encode m = frame typeClientHello p"
    by (auto simp: ch_encode_def frame_def)
  show ?thesis
    by (rule framed_dispatch [where x = "m\<lparr>ch_raw := Some (ch_encode m)\<rparr>" and t = typeClientHello and p = p and u = ch_unmarshal])
      (use assms ch_marshal_encode [of m] ch_unmarshal_encode [of m] in \<open>simp_all add: wf_hello_def p unmarshalHandshakeMessage_def frame_Cons message_types\<close>)
qed

lemma framed_serverHello:
  assumes "fresh_msg (ServerHello m)"
  shows "framed (ServerHello m)"
proof -
  obtain p where p: "sh_encode m = frame typeServerHello p"
    by (auto simp: sh_encode_def frame_def)
  show ?thesis
    by (rule framed_dispatch [where x = "m\<lparr>sh_raw := Some (sh_encode m)\<rparr>" and t = typeServerHello and p = p and u = sh_unmarshal])
      (use assms sh_marshal_encode [of m] sh_unmarshal_encode [of m] in \<open>simp_all add: wf_serverHello_def p unmarshalHandshakeMessage_def frame_Cons message_types\<close>)
qed

lemma framed_empty: "framed HelloRequest" "framed ServerHelloDone" "framed EndOfEarlyData"
  using framedI [of HelloRequest HelloRequest typeHelloRequest "[]"] framedI [of ServerHelloDone ServerHelloDone typeServerHelloDone "[]"]
    framedI [of EndOfEarlyData EndOfEarlyData typeEndOfEarlyData "[]"]
  by (simp_all add: empty_frame maxHandshake_def, simp_all add: dispatch)

lemma framed_keyExchange:
  "fresh_msg (ServerKeyExchange s) \<Longrightarrow> framed (ServerKeyExchange s)"
  "fresh_msg (ClientKeyExchange c) \<Longrightarrow> framed (ClientKeyExchange c)"
  by (rule framedI [where t = typeServerKeyExchange and p = "ske_key s"];
      auto simp: ske_marshal_def ske_unmarshal_def dispatch Let_def drop_Cons')
    (rule framedI [where t = typeClientKeyExchange and p = "cke_ciphertext c"];
      auto simp: cke_marshal_def cke_unmarshal_def dispatch Let_def drop_Cons' unbe_be_id maxHandshake_def)

lemmas marshal_defs = nst_marshal_def cm_marshal_def cr_marshal_def cst_marshal_def cv_marshal_def fin_marshal_def ee_marshal_def ku_marshal_def

lemma framed_records:
  "fresh_msg (NewSessionTicket x1) \<Longrightarrow> framed (NewSessionTicket x1)"
  "fresh_msg (CertificateMessage x2) \<Longrightarrow> framed (CertificateMessage x2)"
  "fresh_msg (CertificateRequest x3) \<Longrightarrow> framed (CertificateRequest x3)"
  "fresh_msg (CertificateStatus x4) \<Longrightarrow> framed (CertificateStatus x4)"
  "fresh_msg (CertificateVerify x5) \<Longrightarrow> framed (CertificateVerify x5)"
  "fresh_msg (Finished x6) \<Longrightarrow> framed (Finished x6)"
  "fresh_msg (EncryptedExtensions x7) \<Longrightarrow> framed (EncryptedExtensions x7)"
  "fresh_msg (KeyUpdate x8) \<Longrightarrow> framed (KeyUpdate x8)"
  using nst.framed_message [of x1 NewSessionTicket] cm.framed_message [of x2 CertificateMessage] cr.framed_message [of x3 CertificateRequest] cst.framed_message [of x4 CertificateStatus] cv.framed_message [of x5 CertificateVerify] fin.framed_message [of x6 Finished] ee.framed_message [of x7 EncryptedExtensions] ku.framed_message [of x8 KeyUpdate]
  by (simp_all add: marshal_defs, simp_all add: dispatch)

lemma fresh_framed: "fresh_msg m \<Longrightarrow> framed m"
  by (cases m) (auto intro!: framed_empty framed_hello framed_serverHello framed_keyExchange framed_records simp del: fresh_msg.simps)

section \<open>Messages through the stream\<close>

text \<open>
  C39: Whatever handshake message is marshalled, with any bytes after it, \<open>readHandshake\<close> returns that message, exactly its bytes
  for the transcript, and what follows untouched; and as long as the message is not complete it asks for more instead of failing.
\<close>

theorem handshake_messages_roundtrip:
  assumes "fresh_msg m"
  shows "\<exists>m' data. msg_marshal m = (m', Ok data) \<and> readHandshake (data @ rest) = Message m' data rest \<and>
    (\<forall>k < length data. readHandshake (take k data) = NeedMore)"
proof -
  obtain t p m' where m: "length p \<le> maxHandshake" "msg_marshal m = (m', Ok (frame t p))"
    "unmarshalHandshakeMessage (frame t p) = Some m'"
    using fresh_framed [OF assms] by (auto simp: framed_def)
  have l: "length p < 16777216" using m(1) by (simp add: maxHandshake_def)
  have "readHandshake (frame t p @ rest) = Message m' (frame t p) rest"
    using m(1,3) frame_length_field [OF l, of t rest] by (simp add: readHandshake_def Let_def)
  moreover have "readHandshake (take k (frame t p)) = NeedMore" if k: "k < length (frame t p)" for k
  proof (cases "k < 4")
    case True
    then show ?thesis using k by (simp add: readHandshake_def)
  next
    case False
    then have "take 3 (drop 1 (take k (frame t p))) = take 3 (drop 1 (frame t p @ []))"
      by (simp add: frame_Cons take_Cons' min_def)
    then show ?thesis
      using False k m(1) frame_length_field [OF l, of t "[]"] by (simp add: readHandshake_def Let_def)
  qed
  ultimately show ?thesis using m(2) by blast
qed

theorem handshake_messages_roundtrip_witness:
  "\<exists>m' data. msg_marshal (Finished \<lparr>fin_raw = None, fin_verifyData = [1, 2]\<rparr>) = (m', Ok data) \<and>
     readHandshake (data @ [9]) = Message m' data [9] \<and> (\<forall>k < length data. readHandshake (take k data) = NeedMore)"
  by (rule handshake_messages_roundtrip) (simp add: wf_fin_def maxHandshake_def)

end
