(* ===== verification/HKDF.thy ===== *)
theory HKDF
  imports Cryptobyte
begin

text \<open>
  HKDF as the program uses it (\<^verbatim>\<open>src/src/vendor/golang.org/x/crypto/hkdf/hkdf.go\<close>), over HMAC as a
  parameter: \<open>mac h k m\<close> is HMAC with hash \<open>h\<close>, key \<open>k\<close> and message \<open>m\<close>. What the callers rely
  on is that a MAC of hash \<open>h\<close> has \<open>Size h\<close> bytes (\<open>mac_sized\<close>). A nil salt is \<open>None\<close>.
\<close>

datatype crypto_hash = SHA256 | SHA384 | SHA512

primrec Size :: "crypto_hash \<Rightarrow> nat" where
  "Size SHA256 = 32"
| "Size SHA384 = 48"
| "Size SHA512 = 64"

type_synonym hmac = "crypto_hash \<Rightarrow> bytes \<Rightarrow> bytes \<Rightarrow> bytes"

definition mac_sized :: "hmac \<Rightarrow> bool" where
  "mac_sized mac \<longleftrightarrow> (\<forall>h k m. length (mac h k m) = Size h)"

definition hkdf_Extract :: "hmac \<Rightarrow> crypto_hash \<Rightarrow> bytes \<Rightarrow> bytes option \<Rightarrow> bytes" where
  "hkdf_Extract mac h secret salt =
     mac h (case salt of None \<Rightarrow> replicate (Size h) 0 | Some s \<Rightarrow> s) secret"

text \<open>
  The loop of \<open>Read\<close> on a fresh reader: \<open>counter\<close> starts at 1 and at most 255 blocks can be
  produced, which the length check before the loop guarantees to be enough.
\<close>

fun hkdf_loop :: "nat \<Rightarrow> (bytes \<Rightarrow> bytes) \<Rightarrow> bytes \<Rightarrow> u8 \<Rightarrow> bytes \<Rightarrow> nat \<Rightarrow> bytes option" where
  "hkdf_loop fuel mac info counter prev 0 = Some []"
| "hkdf_loop 0 mac info counter prev (Suc need) = None"
| "hkdf_loop (Suc fuel) mac info counter prev (Suc need) =
     (let t = mac (prev @ info @ [counter]) in
      case hkdf_loop fuel mac info (counter + 1) t (Suc need - length t) of
        None \<Rightarrow> None
      | Some r \<Rightarrow> Some (take (Suc need) t @ r))"

definition hkdf_ReadFull :: "hmac \<Rightarrow> crypto_hash \<Rightarrow> bytes \<Rightarrow> bytes \<Rightarrow> nat \<Rightarrow> bytes res" where
  "hkdf_ReadFull mac h prk info need =
     (if 255 * Size h < need then Err ''hkdf: entropy limit reached''
      else case hkdf_loop 255 (mac h prk) info 1 [] need of
        None \<Rightarrow> Panic ''hkdf: more than 255 blocks''
      | Some out \<Rightarrow> Ok out)"

lemma length_hkdf_Extract: "mac_sized mac \<Longrightarrow> length (hkdf_Extract mac h secret salt) = Size h"
  by (simp add: hkdf_Extract_def mac_sized_def)

lemma Size_pos: "0 < Size h"
  by (cases h) auto

lemma Size_bounds: "32 \<le> Size h" "Size h \<le> 64"
  by (cases h; simp)+

lemma hkdf_loop_length:
  assumes mac: "\<And>m. length (mac m) = n"
  shows "need \<le> fuel * n \<Longrightarrow>
    \<exists>out. hkdf_loop fuel mac info c prev need = Some out \<and> length out = need"
proof (induction fuel arbitrary: c prev need)
  case 0
  then show ?case by simp
next
  case (Suc fuel)
  show ?case
  proof (cases need)
    case 0
    then show ?thesis by simp
  next
    case (Suc k)
    let ?t = "mac (prev @ info @ [c])"
    from Suc.prems Suc have "Suc k - length ?t \<le> fuel * n"
      by (simp add: mac)
    from Suc.IH [OF this, of "c + 1" ?t] obtain out
      where "hkdf_loop fuel mac info (c + 1) ?t (Suc k - length ?t) = Some out"
        and "length out = Suc k - length ?t"
      by blast
    with Suc show ?thesis
      by (simp add: Let_def)
  qed
qed

lemma hkdf_loop_exact:
  "hkdf_loop fuel mac info c prev need = Some out \<Longrightarrow> length out = need"
proof (induction fuel arbitrary: c prev need out)
  case 0
  then show ?case by (cases need) auto
next
  case (Suc fuel)
  then show ?case
    by (cases need) (auto simp: Let_def split: option.splits)
qed

lemma hkdf_ReadFull_exact: "hkdf_ReadFull mac h prk info need = Ok out \<Longrightarrow> length out = need"
  by (auto simp: hkdf_ReadFull_def hkdf_loop_exact split: if_splits option.splits)

lemma hkdf_ReadFull_length:
  assumes "mac_sized mac" and "need \<le> 255 * Size h"
  shows "\<exists>out. hkdf_ReadFull mac h prk info need = Ok out \<and> length out = need"
proof -
  from assms(1) have "\<And>m. length (mac h prk m) = Size h"
    by (simp add: mac_sized_def)
  then obtain out where "hkdf_loop 255 (mac h prk) info 1 [] need = Some out" "length out = need"
    using hkdf_loop_length [where mac = "mac h prk", OF _ assms(2)] by blast
  with assms(2) show ?thesis
    by (simp add: hkdf_ReadFull_def)
qed

end
