(* ===== verification/Key_Schedule.thy ===== *)
theory Key_Schedule
  imports HKDF
begin

text \<open>
  The TLS 1.3 key schedule of \<^verbatim>\<open>crypto/tls/key_schedule.go\<close>: HKDF-Expand-Label, Derive-Secret, traffic keys, the Finished MAC
  and the exporter, over HMAC and the hash functions as parameters. \<open>hashes_sized\<close> states what the code relies on, that a MAC or a
  digest has the size of its hash.
\<close>

section \<open>The functions of a cipher suite\<close>

record cipherSuiteTLS13 =
  cs_id :: u16
  cs_keyLen :: nat
  cs_hash :: crypto_hash

text \<open>HMAC and the hash functions; a running hash is the bytes that were written to it.\<close>

record tls_hashes =
  th_mac :: hmac
  th_Sum :: "crypto_hash \<Rightarrow> bytes \<Rightarrow> bytes"

definition hashes_sized :: "tls_hashes \<Rightarrow> bool" where
  "hashes_sized H \<longleftrightarrow> mac_sized (th_mac H) \<and> (\<forall>h m. length (th_Sum H h m) = Size h)"

definition resumptionBinderLabel :: bytes where "resumptionBinderLabel = ascii ''res binder''"
definition clientEarlyTrafficLabel :: bytes where "clientEarlyTrafficLabel = ascii ''c e traffic''"
definition clientHandshakeTrafficLabel :: bytes where "clientHandshakeTrafficLabel = ascii ''c hs traffic''"
definition serverHandshakeTrafficLabel :: bytes where "serverHandshakeTrafficLabel = ascii ''s hs traffic''"
definition clientApplicationTrafficLabel :: bytes where "clientApplicationTrafficLabel = ascii ''c ap traffic''"
definition serverApplicationTrafficLabel :: bytes where "serverApplicationTrafficLabel = ascii ''s ap traffic''"
definition exporterLabel :: bytes where "exporterLabel = ascii ''exp master''"
definition resumptionLabel :: bytes where "resumptionLabel = ascii ''res master''"
definition trafficUpdateLabel :: bytes where "trafficUpdateLabel = ascii ''traffic upd''"

lemmas label_defs = resumptionBinderLabel_def clientEarlyTrafficLabel_def clientHandshakeTrafficLabel_def
  serverHandshakeTrafficLabel_def clientApplicationTrafficLabel_def serverApplicationTrafficLabel_def
  exporterLabel_def resumptionLabel_def trafficUpdateLabel_def

definition hkdfLabel :: "bytes \<Rightarrow> bytes \<Rightarrow> nat \<Rightarrow> Builder \<Rightarrow> build" where
  "hkdfLabel label context len = stmts
     [AddUint16 (of_nat len),
      AddUint8LengthPrefixed (stmts [AddBytes (ascii ''tls13 ''), AddBytes label]),
      AddUint8LengthPrefixed (AddBytes context)]"

definition expandLabel :: "tls_hashes \<Rightarrow> cipherSuiteTLS13 \<Rightarrow> bytes \<Rightarrow> bytes \<Rightarrow> bytes \<Rightarrow> nat \<Rightarrow> bytes res" where
  "expandLabel H c secret label context len =
     (case runBytes (hkdfLabel label context len) of
        Panic p \<Rightarrow> Panic p
      | Err e \<Rightarrow> Panic (''failed to construct HKDF label: '' @ e)
      | Ok hkdfLabelBytes \<Rightarrow>
          (case hkdf_ReadFull (th_mac H) (cs_hash c) secret hkdfLabelBytes len of
             Ok out \<Rightarrow> Ok out
           | Err e \<Rightarrow> Panic ''tls: HKDF-Expand-Label invocation failed unexpectedly''
           | Panic p \<Rightarrow> Panic p))"

text \<open>A nil transcript is a hash to which nothing was written.\<close>

definition deriveSecret :: "tls_hashes \<Rightarrow> cipherSuiteTLS13 \<Rightarrow> bytes \<Rightarrow> bytes \<Rightarrow> bytes option \<Rightarrow> bytes res" where
  "deriveSecret H c secret label transcript =
     expandLabel H c secret label (th_Sum H (cs_hash c) (opt_bytes transcript)) (Size (cs_hash c))"

definition tls_extract :: "tls_hashes \<Rightarrow> cipherSuiteTLS13 \<Rightarrow> bytes option \<Rightarrow> bytes option \<Rightarrow> bytes" where
  "tls_extract H c newSecret currentSecret =
     hkdf_Extract (th_mac H) (cs_hash c) (case newSecret of None \<Rightarrow> replicate (Size (cs_hash c)) 0 | Some s \<Rightarrow> s) currentSecret"

definition nextTrafficSecret :: "tls_hashes \<Rightarrow> cipherSuiteTLS13 \<Rightarrow> bytes \<Rightarrow> bytes res" where
  "nextTrafficSecret H c trafficSecret = expandLabel H c trafficSecret trafficUpdateLabel [] (Size (cs_hash c))"

definition trafficKey :: "tls_hashes \<Rightarrow> cipherSuiteTLS13 \<Rightarrow> bytes \<Rightarrow> (bytes \<times> bytes) res" where
  "trafficKey H c trafficSecret =
     bind_res (expandLabel H c trafficSecret (ascii ''key'') [] (cs_keyLen c)) (\<lambda>key.
     bind_res (expandLabel H c trafficSecret (ascii ''iv'') [] 12) (\<lambda>iv. Ok (key, iv)))"

definition finishedHash :: "tls_hashes \<Rightarrow> cipherSuiteTLS13 \<Rightarrow> bytes \<Rightarrow> bytes \<Rightarrow> bytes res" where
  "finishedHash H c baseKey transcript =
     bind_res (expandLabel H c baseKey (ascii ''finished'') [] (Size (cs_hash c))) (\<lambda>finishedKey.
     Ok (th_mac H (cs_hash c) finishedKey (th_Sum H (cs_hash c) transcript)))"

definition exportKeyingMaterial ::
    "tls_hashes \<Rightarrow> cipherSuiteTLS13 \<Rightarrow> bytes \<Rightarrow> bytes \<Rightarrow> (bytes \<Rightarrow> bytes \<Rightarrow> nat \<Rightarrow> bytes res) res" where
  "exportKeyingMaterial H c masterSecret transcript =
     bind_res (deriveSecret H c masterSecret exporterLabel (Some transcript)) (\<lambda>expMasterSecret.
     Ok (\<lambda>label context len.
       bind_res (deriveSecret H c expMasterSecret label None) (\<lambda>secret.
       expandLabel H c secret (ascii ''exporter'') (th_Sum H (cs_hash c) context) len)))"

section \<open>HKDF-Expand-Label\<close>

definition enc_label :: "bytes \<Rightarrow> bytes \<Rightarrow> nat \<Rightarrow> bytes" where
  "enc_label label context len = enc16 (of_nat len) @ pref8 (ascii ''tls13 '' @ label) @ pref8 context"

lemma length_ascii [simp]: "length (ascii s) = length s"
  by (simp add: ascii_def)

lemma hkdfLabel_Ok:
  assumes "length label \<le> 249" and "length context < 256"
  shows "runBytes (hkdfLabel label context n) = Ok (enc_label label context n)"
proof -
  have "appends (hkdfLabel label context n) (enc_label label context n)"
    unfolding hkdfLabel_def enc_label_def by (intro builder_intros) (use assms in simp_all)
  then show ?thesis by (rule runBytes_appends)
qed

lemma expandLabel_eq:
  assumes "length label \<le> 249" and "length context < 256" and "hashes_sized H" and "n \<le> 255 * Size (cs_hash c)"
  shows "\<exists>out. hkdf_ReadFull (th_mac H) (cs_hash c) secret (enc_label label context n) n = Ok out \<and> length out = n \<and>
    expandLabel H c secret label context n = Ok out"
  using hkdf_ReadFull_length [of "th_mac H" n "cs_hash c" secret "enc_label label context n"] assms
  by (auto simp: expandLabel_def hkdfLabel_Ok hashes_sized_def)

lemma hkdfLabel_Ok_only:
  assumes "runBytes (hkdfLabel label context n) = Ok bs"
  shows "length label \<le> 249 \<and> length context < 256"
proof -
  have "writes (hkdfLabel label context n) (\<lambda>bs. length label \<le> 249 \<and> length context < 256)"
    unfolding hkdfLabel_def
    by (rule writes_mono, (rule builder_writes)+) auto
  then show ?thesis using runBytes_writes assms by blast
qed

lemma expandLabel_Ok_only:
  assumes "expandLabel H c secret label context n = Ok out"
  shows "length label \<le> 249 \<and> length context < 256 \<and> n \<le> 255 * Size (cs_hash c) \<and> length out = n"
  using assms hkdfLabel_Ok_only [of label "context" n]
  by (auto simp: expandLabel_def hkdf_ReadFull_exact split: res.splits) (auto simp: hkdf_ReadFull_def split: if_splits)

lemma expandLabel_not_Err: "expandLabel H c secret label context n \<noteq> Err e"
  by (auto simp: expandLabel_def split: res.splits)

lemma deriveSecret_Ok:
  assumes "length label \<le> 249" and "hashes_sized H"
  shows "\<exists>out. deriveSecret H c secret label transcript = Ok out \<and> length out = Size (cs_hash c)"
  unfolding deriveSecret_def
  using expandLabel_eq [OF assms(1) _ assms(2), of "th_Sum H (cs_hash c) (opt_bytes transcript)" "Size (cs_hash c)" c secret] assms(2)
    Size_bounds [of "cs_hash c"]
  by (auto simp: hashes_sized_def)

lemma of_nat_u16_inj: "(of_nat n :: u16) = of_nat m \<Longrightarrow> n < 65536 \<Longrightarrow> m < 65536 \<Longrightarrow> n = m"
  by (simp add: word_of_nat_eq_iff take_bit_nat_def)

lemma enc_label_inj:
  assumes "enc_label l x n = enc_label l' x' n'" and "length l \<le> 249" "length l' \<le> 249" "length x < 256" "length x' < 256" "n < 65536" "n' < 65536"
  shows "l = l' \<and> x = x' \<and> n = n'"
proof -
  have e: "enc16 (of_nat n) @ pref8 (ascii ''tls13 '' @ l) @ pref8 x = enc16 (of_nat n') @ pref8 (ascii ''tls13 '' @ l') @ pref8 x'"
    using assms(1) by (simp add: enc_label_def)
  then have "(of_nat n :: u16) = of_nat n'" and p: "pref8 (ascii ''tls13 '' @ l) @ pref8 x = pref8 (ascii ''tls13 '' @ l') @ pref8 x'"
    using u16c.enc_prefix_free [OF _ _ e] by simp_all
  moreover from this(1) have "n = n'"
    using assms(6,7) by (metis of_nat_u16_inj)
  moreover have "ascii ''tls13 '' @ l = ascii ''tls13 '' @ l'" "pref8 x = pref8 x'"
    using lp8.enc_prefix_free [OF _ _ p] assms(2,3) by simp_all
  moreover from this(2) have "x = x'"
    using lp8.enc_prefix_free [of x x' "[]" "[]"] assms(4,5) by simp
  ultimately show ?thesis by simp
qed

lemma expandLabel_Panic:
  assumes "\<not> (length label \<le> 249 \<and> length context < 256 \<and> n \<le> 255 * Size (cs_hash c))"
  shows "\<exists>p. expandLabel H c secret label context n = Panic p"
proof (cases "expandLabel H c secret label context n")
  case (Ok out)
  from expandLabel_Ok_only [OF this] assms show ?thesis by blast
qed (simp_all add: expandLabel_not_Err)

section \<open>The exporter\<close>


definition toy_hashes :: tls_hashes where
  "toy_hashes = \<lparr>th_mac = (\<lambda>h k m. replicate (Size h) (of_nat (length k + length m))),
     th_Sum = (\<lambda>h m. replicate (Size h) (of_nat (length m)))\<rparr>"

lemma toy_hashes_sized: "hashes_sized toy_hashes"
  by (simp add: hashes_sized_def toy_hashes_def mac_sized_def)


end
