(* ===== verification/KEM.thy ===== *)
theory KEM
  imports HKDF
begin

text \<open>
  Key encapsulation: the interface \<^verbatim>\<open>kem.Scheme\<close> (\<^verbatim>\<open>circl/kem/kem.go\<close>) as a record of its methods,
  the Diffie-Hellman KEMs of HPKE over a Diffie-Hellman group (\<^verbatim>\<open>circl/hpke/kembase.go\<close>,
  \<^verbatim>\<open>circl/hpke/xkem.go\<close>), the concatenating hybrid KEM of HPKE (\<^verbatim>\<open>circl/hpke/hybridkem.go\<close>) and the
  hybrid KEM that TLS uses (\<^verbatim>\<open>circl/kem/hybrid/hybrid.go\<close>). The methods of a key that the callers use
  (MarshalBinary, Public) are fields of its scheme's record. A dynamic type assertion on a key cannot
  fail in the typed model. The X25519 and X448 functions, HMAC and SHAKE-256 are parameters.

  The locale \<open>kem_contract\<close> is what the callers of a scheme rely on: the sizes a scheme announces
  are the sizes it produces, and a ciphertext opens to the shared key it was made with under a
  matching private key. It is interpreted on the Diffie-Hellman KEM, and the hybrid KEMs are shown
  to inherit it from their parts.
\<close>

section \<open>Slices\<close>

text \<open>
  \<^verbatim>\<open>s[:n]\<close> and \<^verbatim>\<open>s[n:]\<close> panic out of range (slices are taken to have no capacity beyond their
  length), \<^verbatim>\<open>copy\<close> copies the common prefix.
\<close>

definition sliceTo :: "nat \<Rightarrow> 'a list \<Rightarrow> 'a list res" where
  "sliceTo n s = (if n \<le> length s then Ok (take n s) else Panic ''slice bounds out of range'')"

definition sliceFrom :: "nat \<Rightarrow> 'a list \<Rightarrow> 'a list res" where
  "sliceFrom n s = (if n \<le> length s then Ok (drop n s) else Panic ''slice bounds out of range'')"

definition go_copy :: "'a list \<Rightarrow> 'a list \<Rightarrow> 'a list" where
  "go_copy dst src = take (length dst) src @ drop (length src) dst"

lemma length_go_copy [simp]: "length (go_copy dst src) = length dst"
  by (simp add: go_copy_def)

lemma go_copy_same: "length src = length dst \<Longrightarrow> go_copy dst src = src"
  by (simp add: go_copy_def)

lemma slice_append [simp]:
  "sliceTo (length a) (a @ b) = Ok a" "sliceFrom (length a) (a @ b) = Ok b"
  by (simp_all add: sliceTo_def sliceFrom_def)

section \<open>The interface\<close>

record ('pk, 'sk) Scheme =
  PublicKeySize :: nat
  PrivateKeySize :: nat
  SeedSize :: nat
  SharedKeySize :: nat
  CiphertextSize :: nat
  EncapsulationSeedSize :: nat
  DeriveKeyPair :: "bytes \<Rightarrow> ('pk \<times> 'sk) res"
  EncapsulateDeterministically :: "'pk \<Rightarrow> bytes \<Rightarrow> (bytes \<times> bytes) res"
  Decapsulate :: "'sk \<Rightarrow> bytes \<Rightarrow> bytes res"
  UnmarshalBinaryPublicKey :: "bytes \<Rightarrow> 'pk res"
  UnmarshalBinaryPrivateKey :: "bytes \<Rightarrow> 'sk res"
  pk_MarshalBinary :: "'pk \<Rightarrow> bytes res"
  sk_MarshalBinary :: "'sk \<Rightarrow> bytes res"
  sk_Public :: "'sk \<Rightarrow> 'pk"
  AuthEncapsulateDeterministically :: "('pk \<Rightarrow> 'sk \<Rightarrow> bytes \<Rightarrow> (bytes \<times> bytes) res) option"
  AuthDecapsulate :: "('sk \<Rightarrow> bytes \<Rightarrow> 'pk \<Rightarrow> bytes res) option"

locale kem_contract =
  fixes K :: "('pk, 'sk) Scheme" and matches :: "'pk \<Rightarrow> 'sk \<Rightarrow> bytes \<Rightarrow> bool"
  assumes encap_sizes: "EncapsulateDeterministically K pk seed = Ok (ct, ss) \<Longrightarrow>
      length ct = CiphertextSize K \<and> length ss = SharedKeySize K"
    and decap_encap: "EncapsulateDeterministically K pk seed = Ok (ct, ss) \<Longrightarrow>
      matches pk sk seed \<Longrightarrow> Decapsulate K sk ct = Ok ss"

section \<open>The Diffie-Hellman KEMs of HPKE\<close>

definition versionLabel :: bytes where
  "versionLabel = ascii ''HPKE-v1''"

record kemBase =
  kb_id :: u16
  kb_hash :: crypto_hash

definition kb_getSuiteID :: "kemBase \<Rightarrow> bytes" where
  "kb_getSuiteID k = ascii ''KEM'' @ enc16 (kb_id k)"

definition kb_labeledExtract :: "hmac \<Rightarrow> kemBase \<Rightarrow> bytes \<Rightarrow> bytes \<Rightarrow> bytes \<Rightarrow> bytes" where
  "kb_labeledExtract mac k salt label info =
     hkdf_Extract mac (kb_hash k) (versionLabel @ kb_getSuiteID k @ label @ info) (Some salt)"

definition kb_labeledExpand :: "hmac \<Rightarrow> kemBase \<Rightarrow> bytes \<Rightarrow> bytes \<Rightarrow> bytes \<Rightarrow> u16 \<Rightarrow> bytes res" where
  "kb_labeledExpand mac k prk label info l =
     (case hkdf_ReadFull mac (kb_hash k) prk
             (enc16 l @ versionLabel @ kb_getSuiteID k @ label @ info) (unat l) of
        Ok b \<Rightarrow> Ok b | Err e \<Rightarrow> Panic e | Panic p \<Rightarrow> Panic p)"

definition extractExpand :: "hmac \<Rightarrow> kemBase \<Rightarrow> bytes \<Rightarrow> bytes \<Rightarrow> bytes res" where
  "extractExpand mac k dh kemCtx =
     (let eaePkr = kb_labeledExtract mac k [] (ascii ''eae_prk'') dh in
      kb_labeledExpand mac k eaePkr (ascii ''shared_secret'') kemCtx (of_nat (Size (kb_hash k))))"

text \<open>The interface \<^verbatim>\<open>dhKEM\<close>; \<open>calcDH\<close> takes the buffer it fills and returns it filled.\<close>

record ('pk, 'sk) dhKEM =
  sizeDH :: nat
  calcDH :: "bytes \<Rightarrow> 'sk \<Rightarrow> 'pk \<Rightarrow> bytes res"
  dh_DeriveKeyPair :: "bytes \<Rightarrow> ('pk \<times> 'sk) res"
  dh_UnmarshalBinaryPublicKey :: "bytes \<Rightarrow> 'pk res"
  dh_MarshalPublicKey :: "'pk \<Rightarrow> bytes res"
  dh_Public :: "'sk \<Rightarrow> 'pk"

definition coreEncap :: "('pk, 'sk) dhKEM \<Rightarrow> bytes \<Rightarrow> 'pk \<Rightarrow> bytes \<Rightarrow> (bytes \<times> bytes \<times> bytes) res" where
  "coreEncap d dh pkR seed =
     bind_res (dh_DeriveKeyPair d seed) (\<lambda>(pkE, skE).
     bind_res (calcDH d dh skE pkR) (\<lambda>dh'.
     bind_res (dh_MarshalPublicKey d pkE) (\<lambda>enc.
     bind_res (dh_MarshalPublicKey d pkR) (\<lambda>pkRm.
     Ok (enc, enc @ pkRm, dh')))))"

definition dh_encap :: "hmac \<Rightarrow> kemBase \<Rightarrow> ('pk, 'sk) dhKEM \<Rightarrow> 'pk \<Rightarrow> bytes \<Rightarrow> (bytes \<times> bytes) res" where
  "dh_encap mac k d pkR seed =
     bind_res (coreEncap d (replicate (sizeDH d) 0) pkR seed) (\<lambda>(enc, kemCtx, dh).
     bind_res (extractExpand mac k dh kemCtx) (\<lambda>ss. Ok (enc, ss)))"

definition dh_authEncap ::
    "hmac \<Rightarrow> kemBase \<Rightarrow> ('pk, 'sk) dhKEM \<Rightarrow> 'pk \<Rightarrow> 'sk \<Rightarrow> bytes \<Rightarrow> (bytes \<times> bytes) res" where
  "dh_authEncap mac k d pkR skS seed =
     bind_res (coreEncap d (replicate (sizeDH d) 0) pkR seed) (\<lambda>(enc, kemCtx, dh1).
     bind_res (calcDH d (replicate (sizeDH d) 0) skS pkR) (\<lambda>dh2.
     bind_res (dh_MarshalPublicKey d (dh_Public d skS)) (\<lambda>pkSm.
     bind_res (extractExpand mac k (dh1 @ dh2) (kemCtx @ pkSm)) (\<lambda>ss. Ok (enc, ss)))))"

definition coreDecap :: "('pk, 'sk) dhKEM \<Rightarrow> bytes \<Rightarrow> 'sk \<Rightarrow> bytes \<Rightarrow> (bytes \<times> bytes) res" where
  "coreDecap d dh skR ct =
     bind_res (dh_UnmarshalBinaryPublicKey d ct) (\<lambda>pkE.
     bind_res (calcDH d dh skR pkE) (\<lambda>dh'.
     bind_res (dh_MarshalPublicKey d (dh_Public d skR)) (\<lambda>pkRm.
     Ok (ct @ pkRm, dh'))))"

definition dh_Decapsulate :: "hmac \<Rightarrow> kemBase \<Rightarrow> ('pk, 'sk) dhKEM \<Rightarrow> 'sk \<Rightarrow> bytes \<Rightarrow> bytes res" where
  "dh_Decapsulate mac k d skR ct =
     bind_res (coreDecap d (replicate (sizeDH d) 0) skR ct) (\<lambda>(kemCtx, dh).
     extractExpand mac k dh kemCtx)"

definition dh_AuthDecapsulate ::
    "hmac \<Rightarrow> kemBase \<Rightarrow> ('pk, 'sk) dhKEM \<Rightarrow> 'sk \<Rightarrow> bytes \<Rightarrow> 'pk \<Rightarrow> bytes res" where
  "dh_AuthDecapsulate mac k d skR ct pkS =
     bind_res (coreDecap d (replicate (sizeDH d) 0) skR ct) (\<lambda>(kemCtx, dh1).
     bind_res (calcDH d (replicate (sizeDH d) 0) skR pkS) (\<lambda>dh2.
     bind_res (dh_MarshalPublicKey d pkS) (\<lambda>pkSm.
     extractExpand mac k (dh1 @ dh2) (kemCtx @ pkSm))))"

subsection \<open>X25519 and X448\<close>

text \<open>The two curves' functions: the shared secret with its validity flag, and the public key.\<close>

record xdh =
  x25519_Shared :: "bytes \<Rightarrow> bytes \<Rightarrow> bytes \<times> bool"
  x25519_KeyGen :: "bytes \<Rightarrow> bytes"
  x448_Shared :: "bytes \<Rightarrow> bytes \<Rightarrow> bytes \<times> bool"
  x448_KeyGen :: "bytes \<Rightarrow> bytes"

definition x_calcDH :: "xdh \<Rightarrow> nat \<Rightarrow> bytes \<Rightarrow> bytes \<Rightarrow> bytes \<Rightarrow> bytes res" where
  "x_calcDH X sz dh sk pk =
     (if sz = 32 then
        let (ss, ok) = x25519_Shared X (go_copy (replicate 32 0) sk) (go_copy (replicate 32 0) pk)
        in if \<not> ok then Err ''hpke: invalid KEM shared secret'' else Ok (go_copy dh ss)
      else if sz = 56 then
        let (ss, ok) = x448_Shared X (go_copy (replicate 56 0) sk) (go_copy (replicate 56 0) pk)
        in if \<not> ok then Err ''hpke: invalid KEM shared secret'' else Ok (go_copy dh ss)
      else Ok dh)"

definition x_Public :: "xdh \<Rightarrow> nat \<Rightarrow> bytes \<Rightarrow> bytes" where
  "x_Public X sz priv =
     (if sz = 32 then go_copy (replicate sz 0) (x25519_KeyGen X (go_copy (replicate 32 0) priv))
      else if sz = 56 then go_copy (replicate sz 0) (x448_KeyGen X (go_copy (replicate 56 0) priv))
      else replicate sz 0)"

definition x_DeriveKeyPair ::
    "hmac \<Rightarrow> xdh \<Rightarrow> kemBase \<Rightarrow> nat \<Rightarrow> bytes \<Rightarrow> (bytes \<times> bytes) res" where
  "x_DeriveKeyPair mac X k sz seed =
     (if length seed \<noteq> sz then Panic ''wrong seed size''
      else let dkpPrk = kb_labeledExtract mac k [] (ascii ''dkp_prk'') seed in
           bind_res (kb_labeledExpand mac k dkpPrk (ascii ''sk'') [] (of_nat sz)) (\<lambda>bs.
           let priv = go_copy (replicate sz 0) bs in Ok (x_Public X sz priv, priv)))"

definition x_UnmarshalBinaryPrivateKey :: "nat \<Rightarrow> bytes \<Rightarrow> bytes res" where
  "x_UnmarshalBinaryPrivateKey l data =
     (if length data < l then Err ''hpke: invalid KEM private key''
      else let priv = go_copy (replicate l 0) (take l data) in
           if length priv \<noteq> l then Err ''hpke: invalid KEM private key'' else Ok priv)"

definition x_UnmarshalBinaryPublicKey :: "nat \<Rightarrow> bytes \<Rightarrow> bytes res" where
  "x_UnmarshalBinaryPublicKey l data =
     (if length data < l then Err ''hpke: invalid KEM public key''
      else let pub = go_copy (replicate l 0) (take l data) in
           if length pub \<noteq> l then Err ''hpke: invalid KEM public key'' else Ok pub)"

definition x_dhKEM :: "hmac \<Rightarrow> xdh \<Rightarrow> kemBase \<Rightarrow> nat \<Rightarrow> (bytes, bytes) dhKEM" where
  "x_dhKEM mac X k sz =
     \<lparr>sizeDH = sz, calcDH = x_calcDH X sz, dh_DeriveKeyPair = x_DeriveKeyPair mac X k sz,
      dh_UnmarshalBinaryPublicKey = x_UnmarshalBinaryPublicKey sz,
      dh_MarshalPublicKey = Ok, dh_Public = x_Public X sz\<rparr>"

definition xKEM :: "hmac \<Rightarrow> xdh \<Rightarrow> kemBase \<Rightarrow> nat \<Rightarrow> (bytes, bytes) Scheme" where
  "xKEM mac X k sz =
     \<lparr>PublicKeySize = sz, PrivateKeySize = sz, SeedSize = sz, SharedKeySize = Size (kb_hash k),
      CiphertextSize = sz, EncapsulationSeedSize = sz,
      DeriveKeyPair = x_DeriveKeyPair mac X k sz,
      EncapsulateDeterministically = dh_encap mac k (x_dhKEM mac X k sz),
      Decapsulate = dh_Decapsulate mac k (x_dhKEM mac X k sz),
      UnmarshalBinaryPublicKey = x_UnmarshalBinaryPublicKey sz,
      UnmarshalBinaryPrivateKey = x_UnmarshalBinaryPrivateKey sz,
      pk_MarshalBinary = Ok, sk_MarshalBinary = Ok, sk_Public = x_Public X sz,
      AuthEncapsulateDeterministically = Some (dh_authEncap mac k (x_dhKEM mac X k sz)),
      AuthDecapsulate = Some (dh_AuthDecapsulate mac k (x_dhKEM mac X k sz))\<rparr>"

subsection \<open>Correctness of the Diffie-Hellman KEM\<close>

text \<open>
  What the KEM needs of the group, at the key pair the seed gives: the two ways of computing the
  shared secret agree, and a public key survives its encoding.
\<close>

definition dh_agree :: "('pk, 'sk) dhKEM \<Rightarrow> 'sk \<Rightarrow> bytes \<Rightarrow> bool" where
  "dh_agree d sk seed \<longleftrightarrow>
     (\<forall>pkE skE. dh_DeriveKeyPair d seed = Ok (pkE, skE) \<longrightarrow>
        calcDH d (replicate (sizeDH d) 0) sk pkE =
          calcDH d (replicate (sizeDH d) 0) skE (dh_Public d sk) \<and>
        (\<forall>enc. dh_MarshalPublicKey d pkE = Ok enc \<longrightarrow> dh_UnmarshalBinaryPublicKey d enc = Ok pkE))"

lemma dh_decap_encap:
  assumes "dh_encap mac k d (dh_Public d sk) seed = Ok (ct, ss)" and "dh_agree d sk seed"
  shows "dh_Decapsulate mac k d sk ct = Ok ss"
  using assms
  by (fastforce simp: dh_encap_def dh_Decapsulate_def coreEncap_def coreDecap_def dh_agree_def
      bind_res_eq_Ok)

lemma dh_auth_decap_encap:
  assumes "dh_authEncap mac k d (dh_Public d skR) skS seed = Ok (ct, ss)"
    and "dh_agree d skR seed"
    and "calcDH d (replicate (sizeDH d) 0) skR (dh_Public d skS) =
         calcDH d (replicate (sizeDH d) 0) skS (dh_Public d skR)"
  shows "dh_AuthDecapsulate mac k d skR ct (dh_Public d skS) = Ok ss"
  using assms
  by (fastforce simp: dh_authEncap_def dh_AuthDecapsulate_def coreEncap_def coreDecap_def dh_agree_def
      bind_res_eq_Ok)

lemma kb_labeledExpand_length: "kb_labeledExpand mac k prk label info l = Ok b \<Longrightarrow> length b = unat l"
  by (auto simp: kb_labeledExpand_def hkdf_ReadFull_exact split: res.splits)

lemma extractExpand_length: "extractExpand mac k dh ctx = Ok ss \<Longrightarrow> length ss = Size (kb_hash k)"
  by (cases "kb_hash k") (auto simp: extractExpand_def dest!: kb_labeledExpand_length)

lemma length_x_Public [simp]: "length (x_Public X sz priv) = sz"
  by (simp add: x_Public_def)

lemma x_DeriveKeyPair_Ok:
  "x_DeriveKeyPair mac X k sz seed = Ok (pk, sk) \<Longrightarrow>
   pk = x_Public X sz sk \<and> length sk = sz \<and> length seed = sz"
  by (auto simp: x_DeriveKeyPair_def Let_def bind_res_eq_Ok split: if_splits)

lemma x_Unmarshal_id [simp]:
  "length pk = sz \<Longrightarrow> x_UnmarshalBinaryPublicKey sz pk = Ok pk"
  "length sk = sz \<Longrightarrow> x_UnmarshalBinaryPrivateKey sz sk = Ok sk"
  by (simp_all add: x_UnmarshalBinaryPublicKey_def x_UnmarshalBinaryPrivateKey_def go_copy_same)

definition x_matches :: "hmac \<Rightarrow> xdh \<Rightarrow> kemBase \<Rightarrow> nat \<Rightarrow> bytes \<Rightarrow> bytes \<Rightarrow> bytes \<Rightarrow> bool" where
  "x_matches mac X k sz pk sk seed \<longleftrightarrow>
     pk = x_Public X sz sk \<and>
     (\<forall>pkE skE. x_DeriveKeyPair mac X k sz seed = Ok (pkE, skE) \<longrightarrow>
        x_calcDH X sz (replicate sz 0) sk pkE = x_calcDH X sz (replicate sz 0) skE pk)"

lemma x_matches_agree: "x_matches mac X k sz pk sk seed \<Longrightarrow> dh_agree (x_dhKEM mac X k sz) sk seed"
  by (auto simp: x_matches_def dh_agree_def x_dhKEM_def dest: x_DeriveKeyPair_Ok)

interpretation xkem: kem_contract "xKEM mac X k sz" "x_matches mac X k sz" for mac X k sz
proof unfold_locales
  fix pk seed ct ss
  assume "EncapsulateDeterministically (xKEM mac X k sz) pk seed = Ok (ct, ss)"
  then show "length ct = CiphertextSize (xKEM mac X k sz) \<and>
      length ss = SharedKeySize (xKEM mac X k sz)"
    by (auto simp: xKEM_def dh_encap_def coreEncap_def x_dhKEM_def bind_res_eq_Ok
        dest!: x_DeriveKeyPair_Ok extractExpand_length)
next
  fix pk sk seed ct ss
  assume enc: "EncapsulateDeterministically (xKEM mac X k sz) pk seed = Ok (ct, ss)"
    and m: "x_matches mac X k sz pk sk seed"
  from m have "pk = dh_Public (x_dhKEM mac X k sz) sk"
    by (simp add: x_matches_def x_dhKEM_def)
  with enc show "Decapsulate (xKEM mac X k sz) sk ct = Ok ss"
    using dh_decap_encap [of mac k "x_dhKEM mac X k sz" sk seed ct ss] x_matches_agree [OF m]
    by (simp add: xKEM_def)
qed

section \<open>The hybrid KEM of HPKE\<close>

definition hk_Decapsulate ::
    "('pa, 'sa) Scheme \<Rightarrow> ('pb, 'sb) Scheme \<Rightarrow> 'sa \<times> 'sb \<Rightarrow> bytes \<Rightarrow> bytes res" where
  "hk_Decapsulate A B sk ct =
     bind_res (sliceTo (CiphertextSize A) ct) (\<lambda>ctA.
     bind_res (Decapsulate A (fst sk) ctA) (\<lambda>ssA.
     bind_res (sliceFrom (CiphertextSize A) ct) (\<lambda>ctB.
     bind_res (Decapsulate B (snd sk) ctB) (\<lambda>ssB. Ok (ssA @ ssB)))))"

definition hk_EncapsulateDeterministically ::
    "('pa, 'sa) Scheme \<Rightarrow> ('pb, 'sb) Scheme \<Rightarrow> 'pa \<times> 'pb \<Rightarrow> bytes \<Rightarrow> (bytes \<times> bytes) res" where
  "hk_EncapsulateDeterministically A B pk seed =
     bind_res (sliceTo (EncapsulationSeedSize A) seed) (\<lambda>seedA.
     bind_res (EncapsulateDeterministically A (fst pk) seedA) (\<lambda>(encA, ssA).
     bind_res (sliceFrom (EncapsulationSeedSize A) seed) (\<lambda>seedB.
     bind_res (EncapsulateDeterministically B (snd pk) seedB) (\<lambda>(encB, ssB).
     Ok (encA @ encB, ssA @ ssB)))))"

definition hk_DeriveKeyPair ::
    "hmac \<Rightarrow> kemBase \<Rightarrow> ('pa, 'sa) Scheme \<Rightarrow> ('pb, 'sb) Scheme \<Rightarrow> bytes \<Rightarrow>
     (('pa \<times> 'pb) \<times> ('sa \<times> 'sb)) res" where
  "hk_DeriveKeyPair mac k A B seed =
     (if length seed \<noteq> 32 then Panic ''wrong seed size''
      else let outputSeedSize = SeedSize A + SeedSize B;
               dkpPrk = kb_labeledExtract mac k [] (ascii ''dkp_prk'') seed in
           bind_res (kb_labeledExpand mac k dkpPrk (ascii ''sk'') [] (of_nat outputSeedSize)) (\<lambda>bs.
           bind_res (sliceTo (SeedSize A) bs) (\<lambda>seedA.
           bind_res (sliceFrom (SeedSize A) bs) (\<lambda>seedB.
           bind_res (DeriveKeyPair A seedA) (\<lambda>(pubA, privA).
           bind_res (DeriveKeyPair B seedB) (\<lambda>(pubB, privB).
           Ok ((pubA, pubB), (privA, privB))))))))"

definition hk_UnmarshalBinaryPrivateKey ::
    "('pa, 'sa) Scheme \<Rightarrow> ('pb, 'sb) Scheme \<Rightarrow> bytes \<Rightarrow> ('sa \<times> 'sb) res" where
  "hk_UnmarshalBinaryPrivateKey A B data =
     bind_res (sliceTo (PrivateKeySize A) data) (\<lambda>dA.
     bind_res (UnmarshalBinaryPrivateKey A dA) (\<lambda>skA.
     bind_res (sliceFrom (PrivateKeySize A) data) (\<lambda>dB.
     bind_res (UnmarshalBinaryPrivateKey B dB) (\<lambda>skB. Ok (skA, skB)))))"

definition hk_UnmarshalBinaryPublicKey ::
    "('pa, 'sa) Scheme \<Rightarrow> ('pb, 'sb) Scheme \<Rightarrow> bytes \<Rightarrow> ('pa \<times> 'pb) res" where
  "hk_UnmarshalBinaryPublicKey A B data =
     bind_res (sliceTo (PublicKeySize A) data) (\<lambda>dA.
     bind_res (UnmarshalBinaryPublicKey A dA) (\<lambda>pkA.
     bind_res (sliceFrom (PublicKeySize A) data) (\<lambda>dB.
     bind_res (UnmarshalBinaryPublicKey B dB) (\<lambda>pkB. Ok (pkA, pkB)))))"

definition pair_MarshalBinary :: "('a \<Rightarrow> bytes res) \<Rightarrow> ('b \<Rightarrow> bytes res) \<Rightarrow> 'a \<times> 'b \<Rightarrow> bytes res" where
  "pair_MarshalBinary mA mB k =
     bind_res (mA (fst k)) (\<lambda>a. bind_res (mB (snd k)) (\<lambda>b. Ok (a @ b)))"

definition hybridKEM ::
    "hmac \<Rightarrow> kemBase \<Rightarrow> ('pa, 'sa) Scheme \<Rightarrow> ('pb, 'sb) Scheme \<Rightarrow> ('pa \<times> 'pb, 'sa \<times> 'sb) Scheme" where
  "hybridKEM mac k A B =
     \<lparr>PublicKeySize = PublicKeySize A + PublicKeySize B,
      PrivateKeySize = PrivateKeySize A + PrivateKeySize B, SeedSize = 32,
      SharedKeySize = SharedKeySize A + SharedKeySize B,
      CiphertextSize = CiphertextSize A + CiphertextSize B,
      EncapsulationSeedSize = EncapsulationSeedSize A + EncapsulationSeedSize B,
      DeriveKeyPair = hk_DeriveKeyPair mac k A B,
      EncapsulateDeterministically = hk_EncapsulateDeterministically A B,
      Decapsulate = hk_Decapsulate A B,
      UnmarshalBinaryPublicKey = hk_UnmarshalBinaryPublicKey A B,
      UnmarshalBinaryPrivateKey = hk_UnmarshalBinaryPrivateKey A B,
      pk_MarshalBinary = pair_MarshalBinary (pk_MarshalBinary A) (pk_MarshalBinary B),
      sk_MarshalBinary = pair_MarshalBinary (sk_MarshalBinary A) (sk_MarshalBinary B),
      sk_Public = (\<lambda>sk. (sk_Public A (fst sk), sk_Public B (snd sk))),
      AuthEncapsulateDeterministically =
        Some (\<lambda>_ _ _. Panic ''AuthEncapsulateDeterministically is not supported for this KEM''),
      AuthDecapsulate = Some (\<lambda>_ _ _. Panic ''AuthDecapsulate is not supported for this KEM'')\<rparr>"

section \<open>The hybrid KEM of TLS\<close>

text \<open>\<open>shake s n\<close> is the first \<open>n\<close> bytes of SHAKE-256 on \<open>s\<close>.\<close>

definition sch_SeedSize :: "('pa, 'sa) Scheme \<Rightarrow> ('pb, 'sb) Scheme \<Rightarrow> nat" where
  "sch_SeedSize A B = (let first = SeedSize A; second = SeedSize B in
     if first > second then first else second)"

definition sch_EncapsulationSeedSize :: "('pa, 'sa) Scheme \<Rightarrow> ('pb, 'sb) Scheme \<Rightarrow> nat" where
  "sch_EncapsulationSeedSize A B =
     (let first = EncapsulationSeedSize A; second = EncapsulationSeedSize B in
      if first > second then first else second)"

definition sch_DeriveKeyPair ::
    "(bytes \<Rightarrow> nat \<Rightarrow> bytes) \<Rightarrow> ('pa, 'sa) Scheme \<Rightarrow> ('pb, 'sb) Scheme \<Rightarrow> bytes \<Rightarrow>
     (('pa \<times> 'pb) \<times> ('sa \<times> 'sb)) res" where
  "sch_DeriveKeyPair shake A B seed =
     (if length seed \<noteq> sch_SeedSize A B then Panic ''wrong seed size''
      else let out = shake seed (SeedSize A + SeedSize B) in
           bind_res (DeriveKeyPair A (take (SeedSize A) out)) (\<lambda>(pk1, sk1).
           bind_res (DeriveKeyPair B (drop (SeedSize A) out)) (\<lambda>(pk2, sk2).
           Ok ((pk1, pk2), (sk1, sk2)))))"

definition sch_EncapsulateDeterministically ::
    "(bytes \<Rightarrow> nat \<Rightarrow> bytes) \<Rightarrow> ('pa, 'sa) Scheme \<Rightarrow> ('pb, 'sb) Scheme \<Rightarrow> 'pa \<times> 'pb \<Rightarrow> bytes \<Rightarrow>
     (bytes \<times> bytes) res" where
  "sch_EncapsulateDeterministically shake A B pk seed =
     (if length seed \<noteq> sch_EncapsulationSeedSize A B then Err ''wrong seed size''
      else let out = shake seed (EncapsulationSeedSize A + EncapsulationSeedSize B) in
           bind_res (EncapsulateDeterministically A (fst pk) (take (EncapsulationSeedSize A) out)) (\<lambda>(ct1, ss1).
           bind_res (EncapsulateDeterministically B (snd pk) (drop (EncapsulationSeedSize A) out)) (\<lambda>(ct2, ss2).
           Ok (ct1 @ ct2, ss1 @ ss2))))"

definition sch_Decapsulate ::
    "('pa, 'sa) Scheme \<Rightarrow> ('pb, 'sb) Scheme \<Rightarrow> 'sa \<times> 'sb \<Rightarrow> bytes \<Rightarrow> bytes res" where
  "sch_Decapsulate A B sk ct =
     (if length ct \<noteq> CiphertextSize A + CiphertextSize B then Err ''wrong size for ciphertext''
      else let firstSize = CiphertextSize A in
           bind_res (sliceTo firstSize ct) (\<lambda>ct1.
           bind_res (Decapsulate A (fst sk) ct1) (\<lambda>ss1.
           bind_res (sliceFrom firstSize ct) (\<lambda>ct2.
           bind_res (Decapsulate B (snd sk) ct2) (\<lambda>ss2. Ok (ss1 @ ss2))))))"

definition sch_UnmarshalBinaryPublicKey ::
    "('pa, 'sa) Scheme \<Rightarrow> ('pb, 'sb) Scheme \<Rightarrow> bytes \<Rightarrow> ('pa \<times> 'pb) res" where
  "sch_UnmarshalBinaryPublicKey A B buf =
     (if length buf \<noteq> PublicKeySize A + PublicKeySize B then Err ''wrong size for public key''
      else bind_res (sliceTo (PublicKeySize A) buf) (\<lambda>b1.
           bind_res (UnmarshalBinaryPublicKey A b1) (\<lambda>pk1.
           bind_res (sliceFrom (PublicKeySize A) buf) (\<lambda>b2.
           bind_res (UnmarshalBinaryPublicKey B b2) (\<lambda>pk2. Ok (pk1, pk2))))))"

definition sch_UnmarshalBinaryPrivateKey ::
    "('pa, 'sa) Scheme \<Rightarrow> ('pb, 'sb) Scheme \<Rightarrow> bytes \<Rightarrow> ('sa \<times> 'sb) res" where
  "sch_UnmarshalBinaryPrivateKey A B buf =
     (if length buf \<noteq> PrivateKeySize A + PrivateKeySize B then Err ''wrong size for private key''
      else bind_res (sliceTo (PrivateKeySize A) buf) (\<lambda>b1.
           bind_res (UnmarshalBinaryPrivateKey A b1) (\<lambda>sk1.
           bind_res (sliceFrom (PrivateKeySize A) buf) (\<lambda>b2.
           bind_res (UnmarshalBinaryPrivateKey B b2) (\<lambda>sk2. Ok (sk1, sk2))))))"

definition hybrid_scheme ::
    "(bytes \<Rightarrow> nat \<Rightarrow> bytes) \<Rightarrow> ('pa, 'sa) Scheme \<Rightarrow> ('pb, 'sb) Scheme \<Rightarrow>
     ('pa \<times> 'pb, 'sa \<times> 'sb) Scheme" where
  "hybrid_scheme shake A B =
     \<lparr>PublicKeySize = PublicKeySize A + PublicKeySize B,
      PrivateKeySize = PrivateKeySize A + PrivateKeySize B, SeedSize = sch_SeedSize A B,
      SharedKeySize = SharedKeySize A + SharedKeySize B,
      CiphertextSize = CiphertextSize A + CiphertextSize B,
      EncapsulationSeedSize = sch_EncapsulationSeedSize A B,
      DeriveKeyPair = sch_DeriveKeyPair shake A B,
      EncapsulateDeterministically = sch_EncapsulateDeterministically shake A B,
      Decapsulate = sch_Decapsulate A B,
      UnmarshalBinaryPublicKey = sch_UnmarshalBinaryPublicKey A B,
      UnmarshalBinaryPrivateKey = sch_UnmarshalBinaryPrivateKey A B,
      pk_MarshalBinary = pair_MarshalBinary (pk_MarshalBinary A) (pk_MarshalBinary B),
      sk_MarshalBinary = pair_MarshalBinary (sk_MarshalBinary A) (sk_MarshalBinary B),
      sk_Public = (\<lambda>sk. (sk_Public A (fst sk), sk_Public B (snd sk))),
      AuthEncapsulateDeterministically = None, AuthDecapsulate = None\<rparr>"

section \<open>The hybrid KEMs inherit the contract of their parts\<close>

definition hk_matches ::
    "('pa, 'sa) Scheme \<Rightarrow> ('pa \<Rightarrow> 'sa \<Rightarrow> bytes \<Rightarrow> bool) \<Rightarrow> ('pb \<Rightarrow> 'sb \<Rightarrow> bytes \<Rightarrow> bool) \<Rightarrow>
     'pa \<times> 'pb \<Rightarrow> 'sa \<times> 'sb \<Rightarrow> bytes \<Rightarrow> bool" where
  "hk_matches A mA mB pk sk seed \<longleftrightarrow>
     mA (fst pk) (fst sk) (take (EncapsulationSeedSize A) seed) \<and>
     mB (snd pk) (snd sk) (drop (EncapsulationSeedSize A) seed)"

definition sch_matches ::
    "(bytes \<Rightarrow> nat \<Rightarrow> bytes) \<Rightarrow> ('pa, 'sa) Scheme \<Rightarrow> ('pb, 'sb) Scheme \<Rightarrow>
     ('pa \<Rightarrow> 'sa \<Rightarrow> bytes \<Rightarrow> bool) \<Rightarrow> ('pb \<Rightarrow> 'sb \<Rightarrow> bytes \<Rightarrow> bool) \<Rightarrow>
     'pa \<times> 'pb \<Rightarrow> 'sa \<times> 'sb \<Rightarrow> bytes \<Rightarrow> bool" where
  "sch_matches shake A B mA mB pk sk seed \<longleftrightarrow>
     hk_matches A mA mB pk sk (shake seed (EncapsulationSeedSize A + EncapsulationSeedSize B))"

locale kem_pair = A: kem_contract A mA + B: kem_contract B mB
  for A :: "('pa, 'sa) Scheme" and mA and B :: "('pb, 'sb) Scheme" and mB
begin

lemma hk_encap_cases:
  assumes "hk_EncapsulateDeterministically A B pk seed = Ok (ct, ss)"
  obtains encA ssA encB ssB where
    "EncapsulateDeterministically A (fst pk) (take (EncapsulationSeedSize A) seed) = Ok (encA, ssA)"
    "EncapsulateDeterministically B (snd pk) (drop (EncapsulationSeedSize A) seed) = Ok (encB, ssB)"
    "ct = encA @ encB" "ss = ssA @ ssB"
  using assms
  by (fastforce simp: hk_EncapsulateDeterministically_def bind_res_eq_Ok sliceTo_def sliceFrom_def
      split: if_splits)

lemma sch_encap_cases:
  assumes "sch_EncapsulateDeterministically shake A B pk seed = Ok (ct, ss)"
  obtains ct1 ss1 ct2 ss2 where
    "EncapsulateDeterministically A (fst pk) (take (EncapsulationSeedSize A)
       (shake seed (EncapsulationSeedSize A + EncapsulationSeedSize B))) = Ok (ct1, ss1)"
    "EncapsulateDeterministically B (snd pk) (drop (EncapsulationSeedSize A)
       (shake seed (EncapsulationSeedSize A + EncapsulationSeedSize B))) = Ok (ct2, ss2)"
    "ct = ct1 @ ct2" "ss = ss1 @ ss2"
  using assms
  by (fastforce simp: sch_EncapsulateDeterministically_def Let_def bind_res_eq_Ok split: if_splits)

lemma split_Decapsulate:
  assumes "EncapsulateDeterministically A pk1 s1 = Ok (ct1, ss1)" and "mA pk1 (fst sk) s1"
    and "EncapsulateDeterministically B pk2 s2 = Ok (ct2, ss2)" and "mB pk2 (snd sk) s2"
  shows "hk_Decapsulate A B sk (ct1 @ ct2) = Ok (ss1 @ ss2)"
    and "sch_Decapsulate A B sk (ct1 @ ct2) = Ok (ss1 @ ss2)"
proof -
  have l: "CiphertextSize A = length ct1" "CiphertextSize B = length ct2"
    using A.encap_sizes [OF assms(1)] B.encap_sizes [OF assms(3)] by simp_all
  note d = A.decap_encap [OF assms(1,2)] B.decap_encap [OF assms(3,4)]
  show "hk_Decapsulate A B sk (ct1 @ ct2) = Ok (ss1 @ ss2)"
    by (simp add: hk_Decapsulate_def l d)
  show "sch_Decapsulate A B sk (ct1 @ ct2) = Ok (ss1 @ ss2)"
    by (simp add: sch_Decapsulate_def l d Let_def)
qed

lemma hybridKEM_contract: "kem_contract (hybridKEM mac k A B) (hk_matches A mA mB)"
proof
  fix pk seed ct ss
  assume "EncapsulateDeterministically (hybridKEM mac k A B) pk seed = Ok (ct, ss)"
  then show "length ct = CiphertextSize (hybridKEM mac k A B) \<and>
      length ss = SharedKeySize (hybridKEM mac k A B)"
    by (auto simp: hybridKEM_def elim!: hk_encap_cases dest!: A.encap_sizes B.encap_sizes)
next
  fix pk sk seed ct ss
  assume "EncapsulateDeterministically (hybridKEM mac k A B) pk seed = Ok (ct, ss)"
    and "hk_matches A mA mB pk sk seed"
  then show "Decapsulate (hybridKEM mac k A B) sk ct = Ok ss"
    by (auto simp: hybridKEM_def hk_matches_def elim!: hk_encap_cases intro: split_Decapsulate(1))
qed

lemma hybrid_scheme_contract:
  "kem_contract (hybrid_scheme shake A B) (sch_matches shake A B mA mB)"
proof
  fix pk seed ct ss
  assume "EncapsulateDeterministically (hybrid_scheme shake A B) pk seed = Ok (ct, ss)"
  then show "length ct = CiphertextSize (hybrid_scheme shake A B) \<and>
      length ss = SharedKeySize (hybrid_scheme shake A B)"
    by (auto simp: hybrid_scheme_def elim!: sch_encap_cases dest!: A.encap_sizes B.encap_sizes)
next
  fix pk sk seed ct ss
  assume "EncapsulateDeterministically (hybrid_scheme shake A B) pk seed = Ok (ct, ss)"
    and "sch_matches shake A B mA mB pk sk seed"
  then show "Decapsulate (hybrid_scheme shake A B) sk ct = Ok ss"
    by (auto simp: hybrid_scheme_def sch_matches_def hk_matches_def elim!: sch_encap_cases
        intro: split_Decapsulate(2))
qed

end

end
