(* ===== verification/HPKE.thy ===== *)
theory HPKE
  imports KEM
begin

text \<open>
  Package \<^verbatim>\<open>circl/hpke\<close>: the algorithm identifiers (\<^verbatim>\<open>algs.go\<close>), the key schedule (\<^verbatim>\<open>util.go\<close>), the
  encryption contexts with their sequence numbers (\<^verbatim>\<open>aead.go\<close>), the serialisation of a context
  (\<^verbatim>\<open>marshal.go\<close>), and the sender and receiver set-up (\<^verbatim>\<open>hpke.go\<close>). The AEAD ciphers, HMAC and the KEM
  schemes come from an environment \<open>hpke_env\<close>. An argument that Go tests against nil is an option.
\<close>

section \<open>Algorithm identifiers (\<^verbatim>\<open>algs.go\<close>)\<close>

definition KEM_P256_HKDF_SHA256 :: u16 where "KEM_P256_HKDF_SHA256 = 0x10"
definition KEM_P384_HKDF_SHA384 :: u16 where "KEM_P384_HKDF_SHA384 = 0x11"
definition KEM_P521_HKDF_SHA512 :: u16 where "KEM_P521_HKDF_SHA512 = 0x12"
definition KEM_X25519_HKDF_SHA256 :: u16 where "KEM_X25519_HKDF_SHA256 = 0x20"
definition KEM_X448_HKDF_SHA512 :: u16 where "KEM_X448_HKDF_SHA512 = 0x21"
definition KEM_X25519_KYBER768_DRAFT00 :: u16 where "KEM_X25519_KYBER768_DRAFT00 = 0x30"
definition KEM_XWING :: u16 where "KEM_XWING = 0x647a"

definition KDF_HKDF_SHA256 :: u16 where "KDF_HKDF_SHA256 = 0x01"
definition KDF_HKDF_SHA384 :: u16 where "KDF_HKDF_SHA384 = 0x02"
definition KDF_HKDF_SHA512 :: u16 where "KDF_HKDF_SHA512 = 0x03"

definition AEAD_AES128GCM :: u16 where "AEAD_AES128GCM = 0x01"
definition AEAD_AES256GCM :: u16 where "AEAD_AES256GCM = 0x02"
definition AEAD_ChaCha20Poly1305 :: u16 where "AEAD_ChaCha20Poly1305 = 0x03"

lemmas KEM_ids = KEM_P256_HKDF_SHA256_def KEM_P384_HKDF_SHA384_def KEM_P521_HKDF_SHA512_def
  KEM_X25519_HKDF_SHA256_def KEM_X448_HKDF_SHA512_def KEM_X25519_KYBER768_DRAFT00_def KEM_XWING_def

lemmas KDF_ids = KDF_HKDF_SHA256_def KDF_HKDF_SHA384_def KDF_HKDF_SHA512_def

lemmas AEAD_ids = AEAD_AES128GCM_def AEAD_AES256GCM_def AEAD_ChaCha20Poly1305_def

definition KEM_IsValid :: "u16 \<Rightarrow> bool" where
  "KEM_IsValid k \<longleftrightarrow> k = KEM_P256_HKDF_SHA256 \<or> k = KEM_P384_HKDF_SHA384 \<or>
     k = KEM_P521_HKDF_SHA512 \<or> k = KEM_X25519_HKDF_SHA256 \<or> k = KEM_X448_HKDF_SHA512 \<or>
     k = KEM_X25519_KYBER768_DRAFT00 \<or> k = KEM_XWING"

definition KDF_IsValid :: "u16 \<Rightarrow> bool" where
  "KDF_IsValid k \<longleftrightarrow> k = KDF_HKDF_SHA256 \<or> k = KDF_HKDF_SHA384 \<or> k = KDF_HKDF_SHA512"

definition AEAD_IsValid :: "u16 \<Rightarrow> bool" where
  "AEAD_IsValid a \<longleftrightarrow> a = AEAD_AES128GCM \<or> a = AEAD_AES256GCM \<or> a = AEAD_ChaCha20Poly1305"

definition KDF_hash :: "u16 \<Rightarrow> crypto_hash res" where
  "KDF_hash k = (if k = KDF_HKDF_SHA256 then Ok SHA256
     else if k = KDF_HKDF_SHA384 then Ok SHA384
     else if k = KDF_HKDF_SHA512 then Ok SHA512
     else Panic ''hpke: invalid KDF identifier'')"

definition ExtractSize :: "u16 \<Rightarrow> nat res" where
  "ExtractSize k = (if k = KDF_HKDF_SHA256 then Ok (Size SHA256)
     else if k = KDF_HKDF_SHA384 then Ok (Size SHA384)
     else if k = KDF_HKDF_SHA512 then Ok (Size SHA512)
     else Panic ''hpke: invalid KDF identifier'')"

definition KDF_Extract :: "hmac \<Rightarrow> u16 \<Rightarrow> bytes \<Rightarrow> bytes option \<Rightarrow> bytes res" where
  "KDF_Extract mac k secret salt = bind_res (KDF_hash k) (\<lambda>h. Ok (hkdf_Extract mac h secret salt))"

definition KDF_Expand :: "hmac \<Rightarrow> u16 \<Rightarrow> bytes \<Rightarrow> bytes \<Rightarrow> nat \<Rightarrow> bytes res" where
  "KDF_Expand mac k prk info outputLen =
     bind_res (ExtractSize k) (\<lambda>extractSize.
     if length prk < extractSize then Panic ''pseudorandom key too short''
     else if outputLen > 255 * extractSize then Panic ''output length too large''
     else bind_res (KDF_hash k) (\<lambda>h.
       case hkdf_ReadFull mac h (take extractSize prk) info outputLen of
         Ok out \<Rightarrow> Ok out | Err e \<Rightarrow> Panic e | Panic p \<Rightarrow> Panic p))"

definition KeySize :: "u16 \<Rightarrow> nat res" where
  "KeySize a = (if a = AEAD_AES128GCM then Ok 16
     else if a = AEAD_AES256GCM then Ok 32
     else if a = AEAD_ChaCha20Poly1305 then Ok 32
     else Panic ''hpke: invalid AEAD identifier'')"

definition NonceSize :: "u16 \<Rightarrow> nat res" where
  "NonceSize a = (if AEAD_IsValid a then Ok 12 else Panic ''hpke: invalid AEAD identifier'')"

definition CipherLen :: "u16 \<Rightarrow> nat \<Rightarrow> nat res" where
  "CipherLen a mLen = (if AEAD_IsValid a then Ok (mLen + 16) else Panic ''hpke: invalid AEAD identifier'')"

text \<open>The Go interface \<^verbatim>\<open>cipher.AEAD\<close>: arguments nonce, text, additional data.\<close>

record aead =
  aead_NonceSize :: nat
  aead_Seal :: "bytes \<Rightarrow> bytes \<Rightarrow> bytes \<Rightarrow> bytes"
  aead_Open :: "bytes \<Rightarrow> bytes \<Rightarrow> bytes \<Rightarrow> bytes res"

record ('pk, 'sk) hpke_env =
  env_mac :: hmac
  env_aead :: "u16 \<Rightarrow> bytes \<Rightarrow> aead res"
  env_kem :: "u16 \<Rightarrow> ('pk, 'sk) Scheme"

definition AEAD_New :: "('pk, 'sk) hpke_env \<Rightarrow> u16 \<Rightarrow> bytes \<Rightarrow> aead res" where
  "AEAD_New E a key = (if AEAD_IsValid a then env_aead E a key
     else Panic ''hpke: invalid AEAD identifier'')"

definition KEM_Scheme :: "('pk, 'sk) hpke_env \<Rightarrow> u16 \<Rightarrow> ('pk, 'sk) Scheme res" where
  "KEM_Scheme E k = (if KEM_IsValid k then Ok (env_kem E k) else Panic ''hpke: invalid KEM identifier'')"

section \<open>Suites and the key schedule (\<^verbatim>\<open>util.go\<close>)\<close>

record Suite =
  kemID :: u16
  kdfID :: u16
  aeadID :: u16

definition suite_isValid :: "Suite \<Rightarrow> bool" where
  "suite_isValid s \<longleftrightarrow> KEM_IsValid (kemID s) \<and> KDF_IsValid (kdfID s) \<and> AEAD_IsValid (aeadID s)"

definition NewSuite :: "u16 \<Rightarrow> u16 \<Rightarrow> u16 \<Rightarrow> Suite res" where
  "NewSuite kem kdf aead =
     (let s = \<lparr>kemID = kem, kdfID = kdf, aeadID = aead\<rparr> in
      if \<not> suite_isValid s then Panic ''hpke: invalid HPKE suite'' else Ok s)"

definition suite_Params :: "Suite \<Rightarrow> u16 \<times> u16 \<times> u16" where
  "suite_Params s = (kemID s, kdfID s, aeadID s)"

definition getSuiteID :: "Suite \<Rightarrow> bytes" where
  "getSuiteID s = ascii ''HPKE'' @ enc16 (kemID s) @ enc16 (kdfID s) @ enc16 (aeadID s)"

definition labeledExtract ::
    "hmac \<Rightarrow> Suite \<Rightarrow> bytes option \<Rightarrow> bytes \<Rightarrow> bytes \<Rightarrow> bytes res" where
  "labeledExtract mac s salt label ikm =
     KDF_Extract mac (kdfID s) (versionLabel @ getSuiteID s @ label @ ikm) salt"

definition labeledExpand :: "hmac \<Rightarrow> Suite \<Rightarrow> bytes \<Rightarrow> bytes \<Rightarrow> bytes \<Rightarrow> u16 \<Rightarrow> bytes res" where
  "labeledExpand mac s prk label info l =
     KDF_Expand mac (kdfID s) prk (enc16 l @ versionLabel @ getSuiteID s @ label @ info) (unat l)"

definition modeBase :: u8 where "modeBase = 0x00"
definition modePSK :: u8 where "modePSK = 0x01"
definition modeAuth :: u8 where "modeAuth = 0x02"
definition modeAuthPSK :: u8 where "modeAuthPSK = 0x03"

lemmas mode_defs = modeBase_def modePSK_def modeAuth_def modeAuthPSK_def

text \<open>
  The cases of the switch are single values, the bitwise or of two modes: \<^verbatim>\<open>modeBase | modeAuth\<close> is
  \<open>modeAuth\<close> and \<^verbatim>\<open>modePSK | modeAuthPSK\<close> is \<open>modeAuthPSK\<close>.
\<close>

definition verifyPSKInputs :: "u8 \<Rightarrow> bytes option \<Rightarrow> bytes option \<Rightarrow> string option" where
  "verifyPSKInputs modeID psk pskID =
     (let gotPSK = psk \<noteq> None; gotPSKID = pskID \<noteq> None in
      if gotPSK \<noteq> gotPSKID then Some ''inconsistent PSK inputs''
      else if modeID = (modeBase OR modeAuth) then
        (if gotPSK then Some ''PSK input provided when not needed'' else None)
      else if modeID = (modePSK OR modeAuthPSK) then
        (if \<not> gotPSK then Some ''missing required PSK input'' else None)
      else None)"

record encdecContext =
  c_suite :: Suite
  c_sharedSecret :: bytes
  c_secret :: bytes
  c_keyScheduleContext :: bytes
  c_exporterSecret :: bytes
  c_key :: bytes
  c_baseNonce :: bytes
  c_sequenceNumber :: bytes
  c_aead :: aead
  c_nonce :: bytes

definition keySchedule ::
    "('pk, 'sk) hpke_env \<Rightarrow> Suite \<Rightarrow> u8 \<Rightarrow> bytes \<Rightarrow> bytes \<Rightarrow> bytes option \<Rightarrow> bytes option \<Rightarrow>
     encdecContext res" where
  "keySchedule E st modeID ss info psk pskID =
     (case verifyPSKInputs modeID psk pskID of Some e \<Rightarrow> Err e | None \<Rightarrow>
      bind_res (labeledExtract (env_mac E) st None (ascii ''psk_id_hash'') (opt_bytes pskID)) (\<lambda>pskIDHash.
      bind_res (labeledExtract (env_mac E) st None (ascii ''info_hash'') info) (\<lambda>infoHash.
      let keySchCtx = [modeID] @ pskIDHash @ infoHash in
      bind_res (labeledExtract (env_mac E) st (Some ss) (ascii ''secret'') (opt_bytes psk)) (\<lambda>sec.
      bind_res (KeySize (aeadID st)) (\<lambda>Nk.
      bind_res (labeledExpand (env_mac E) st sec (ascii ''key'') keySchCtx (of_nat Nk)) (\<lambda>k.
      bind_res (AEAD_New E (aeadID st) k) (\<lambda>ad.
      let Nn = (of_nat (aead_NonceSize ad) :: u16) in
      bind_res (labeledExpand (env_mac E) st sec (ascii ''base_nonce'') keySchCtx Nn) (\<lambda>bn.
      bind_res (ExtractSize (kdfID st)) (\<lambda>Nh.
      bind_res (labeledExpand (env_mac E) st sec (ascii ''exp'') keySchCtx (of_nat Nh)) (\<lambda>exs.
      Ok \<lparr>c_suite = st, c_sharedSecret = ss, c_secret = sec, c_keyScheduleContext = keySchCtx,
          c_exporterSecret = exs, c_key = k, c_baseNonce = bn,
          c_sequenceNumber = replicate (unat Nn) 0, c_aead = ad,
          c_nonce = replicate (unat Nn) 0\<rparr>))))))))))"

section \<open>Encryption contexts (\<^verbatim>\<open>aead.go\<close>)\<close>

definition ctx_Export :: "('pk, 'sk) hpke_env \<Rightarrow> encdecContext \<Rightarrow> bytes \<Rightarrow> nat \<Rightarrow> bytes res" where
  "ctx_Export E c exporterContext len =
     bind_res (ExtractSize (kdfID (c_suite c))) (\<lambda>Nh.
     if len > 255 * Nh then Panic ''output length must be lesser than maxLength bytes''
     else labeledExpand (env_mac E) (c_suite c) (c_exporterSecret c) (ascii ''sec'') exporterContext (of_nat len))"

text \<open>The nonce buffer is filled byte by byte; an index beyond either buffer panics.\<close>

definition calcNonce :: "encdecContext \<Rightarrow> encdecContext res" where
  "calcNonce c =
     (if length (c_baseNonce c) \<le> length (c_sequenceNumber c) \<and> length (c_baseNonce c) \<le> length (c_nonce c)
      then Ok (c\<lparr>c_nonce := map2 (XOR) (c_baseNonce c) (c_sequenceNumber c) @
                          drop (length (c_baseNonce c)) (c_nonce c)\<rparr>)
      else Panic ''index out of range'')"

text \<open>The carry loop runs from the last byte to the first: it is written over the reversed buffer.\<close>

fun incLoop :: "nat \<Rightarrow> bytes \<Rightarrow> bytes \<times> nat" where
  "incLoop carry [] = ([], carry)"
| "incLoop carry (b # bs) =
     (let sum = unat b + carry; (bs', c) = incLoop (sum div 256) bs in (of_nat (sum mod 256) # bs', c))"

definition increment :: "encdecContext \<Rightarrow> encdecContext \<times> string option" where
  "increment c =
     (if foldl (AND) 0xFF (c_sequenceNumber c) = (0xFF :: u8)
      then (c, Some ''hpke: AEAD sequence number overflows'')
      else let (r, carry) = incLoop 1 (rev (c_sequenceNumber c));
               c' = c\<lparr>c_sequenceNumber := rev r\<rparr>
           in (c', if carry \<noteq> 0 then Some ''hpke: AEAD sequence number overflows'' else None))"

definition ctx_Seal :: "encdecContext \<Rightarrow> bytes \<Rightarrow> bytes \<Rightarrow> encdecContext \<times> bytes res" where
  "ctx_Seal c pt aad =
     (case calcNonce c of
        Ok c1 \<Rightarrow>
          let ct = aead_Seal (c_aead c1) (c_nonce c1) pt aad in
          (case increment c1 of (c2, None) \<Rightarrow> (c2, Ok ct) | (c2, Some e) \<Rightarrow> (c2, Err e))
      | Err e \<Rightarrow> (c, Err e) | Panic p \<Rightarrow> (c, Panic p))"

definition ctx_Open :: "encdecContext \<Rightarrow> bytes \<Rightarrow> bytes \<Rightarrow> encdecContext \<times> bytes res" where
  "ctx_Open c ct aad =
     (case calcNonce c of
        Ok c1 \<Rightarrow>
          (case aead_Open (c_aead c1) (c_nonce c1) ct aad of
             Err e \<Rightarrow> (c1, Err e)
           | Panic p \<Rightarrow> (c1, Panic p)
           | Ok pt \<Rightarrow>
               (case increment c1 of (c2, None) \<Rightarrow> (c2, Ok pt) | (c2, Some e) \<Rightarrow> (c2, Err e)))
      | Err e \<Rightarrow> (c, Err e) | Panic p \<Rightarrow> (c, Panic p))"

section \<open>Serialised contexts (\<^verbatim>\<open>marshal.go\<close>)\<close>

definition ctx_marshal :: "encdecContext \<Rightarrow> bytes res" where
  "ctx_marshal c = runBytes (stmts
     [AddUint16 (kemID (c_suite c)), AddUint16 (kdfID (c_suite c)), AddUint16 (aeadID (c_suite c)),
      AddUint8LengthPrefixed (AddBytes (c_exporterSecret c)),
      AddUint8LengthPrefixed (AddBytes (c_key c)),
      AddUint8LengthPrefixed (AddBytes (c_baseNonce c)),
      AddUint8LengthPrefixed (AddBytes (c_sequenceNumber c))])"

definition readContext :: "bytes \<Rightarrow> ((u16 \<times> u16 \<times> u16) \<times> bytes \<times> bytes \<times> bytes \<times> bytes) option" where
  "readContext raw = do {
     (kem, s) \<leftarrow> ReadUint16 raw;
     (kdf, s) \<leftarrow> ReadUint16 s;
     (aead, s) \<leftarrow> ReadUint16 s;
     (t, s) \<leftarrow> ReadUint8LengthPrefixed s;
     (exs, _) \<leftarrow> ReadBytes (length t) t;
     (t, s) \<leftarrow> ReadUint8LengthPrefixed s;
     (k, _) \<leftarrow> ReadBytes (length t) t;
     (t, s) \<leftarrow> ReadUint8LengthPrefixed s;
     (bn, _) \<leftarrow> ReadBytes (length t) t;
     (t, s) \<leftarrow> ReadUint8LengthPrefixed s;
     (seq, _) \<leftarrow> ReadBytes (length t) t;
     Some ((kem, kdf, aead), exs, k, bn, seq)}"

definition unmarshalContext :: "('pk, 'sk) hpke_env \<Rightarrow> bytes \<Rightarrow> encdecContext res" where
  "unmarshalContext E raw =
     (case readContext raw of None \<Rightarrow> Err ''failed to parse context''
      | Some ((kem, kdf, aead), exs, k, bn, seq) \<Rightarrow>
          let st = \<lparr>kemID = kem, kdfID = kdf, aeadID = aead\<rparr> in
          if \<not> suite_isValid st then Err ''hpke: invalid HPKE suite''
          else bind_res (ExtractSize kdf) (\<lambda>Nh.
            if length exs \<noteq> Nh then Err ''invalid exporter secret length''
            else bind_res (KeySize aead) (\<lambda>Nk.
              if length k \<noteq> Nk then Err ''invalid key length''
              else bind_res (AEAD_New E aead k) (\<lambda>ad.
                bind_res (NonceSize aead) (\<lambda>Nn.
                  if length bn \<noteq> Nn then Err ''invalid base nonce length''
                  else if length seq \<noteq> Nn then Err ''invalid sequence number length''
                  else Ok \<lparr>c_suite = st, c_sharedSecret = [], c_secret = [], c_keyScheduleContext = [],
                           c_exporterSecret = exs, c_key = k, c_baseNonce = bn, c_sequenceNumber = seq,
                           c_aead = ad, c_nonce = replicate Nn 0\<rparr>)))))"

definition sealer_MarshalBinary :: "encdecContext \<Rightarrow> bytes res" where
  "sealer_MarshalBinary c = bind_res (ctx_marshal c) (\<lambda>rawContext. Ok ([0] @ rawContext))"

definition opener_MarshalBinary :: "encdecContext \<Rightarrow> bytes res" where
  "opener_MarshalBinary c = bind_res (ctx_marshal c) (\<lambda>rawContext. Ok ([1] @ rawContext))"

text \<open>The first byte is indexed before its presence is checked.\<close>

definition UnmarshalSealer :: "('pk, 'sk) hpke_env \<Rightarrow> bytes \<Rightarrow> encdecContext res" where
  "UnmarshalSealer E raw = (case raw of [] \<Rightarrow> Panic ''index out of range''
     | r # rs \<Rightarrow> if r \<noteq> 0 then Err ''incorrect role'' else unmarshalContext E rs)"

definition UnmarshalOpener :: "('pk, 'sk) hpke_env \<Rightarrow> bytes \<Rightarrow> encdecContext res" where
  "UnmarshalOpener E raw = (case raw of [] \<Rightarrow> Panic ''index out of range''
     | r # rs \<Rightarrow> if r \<noteq> 1 then Err ''incorrect role'' else unmarshalContext E rs)"

section \<open>Senders and receivers (\<^verbatim>\<open>hpke.go\<close>)\<close>

record ('pk, 'sk) state =
  st_suite :: Suite
  st_modeID :: u8
  st_skS :: "'sk option"
  st_pkS :: "'pk option"
  st_psk :: "bytes option"
  st_pskID :: "bytes option"
  st_info :: bytes

record ('pk, 'sk) Sender = "('pk, 'sk) state" +
  pkR :: 'pk

record ('pk, 'sk) Receiver = "('pk, 'sk) state" +
  skR :: 'sk
  renc :: bytes

definition NewSender :: "Suite \<Rightarrow> 'pk \<Rightarrow> bytes \<Rightarrow> ('pk, 'sk) Sender" where
  "NewSender st pk inf0 =
     \<lparr>st_suite = st, st_modeID = 0, st_skS = None, st_pkS = None, st_psk = None, st_pskID = None, st_info = inf0, pkR = pk\<rparr>"

definition NewReceiver :: "Suite \<Rightarrow> 'sk \<Rightarrow> bytes \<Rightarrow> ('pk, 'sk) Receiver" where
  "NewReceiver st sk inf0 =
     \<lparr>st_suite = st, st_modeID = 0, st_skS = None, st_pkS = None, st_psk = None, st_pskID = None, st_info = inf0,
      skR = sk, renc = []\<rparr>"

text \<open>A nil key handed to the scheme is a nil dereference there.\<close>

definition the_key :: "'a option \<Rightarrow> 'a res" where
  "the_key k = (case k of None \<Rightarrow> Panic ''nil key'' | Some x \<Rightarrow> Ok x)"

text \<open>\<open>rnd n\<close> is what reading \<open>n\<close> bytes from the randomness source gives.\<close>

definition sender_allSetup ::
    "('pk, 'sk) hpke_env \<Rightarrow> (nat \<Rightarrow> bytes res) \<Rightarrow> ('pk, 'sk) Sender \<Rightarrow> (bytes \<times> encdecContext) res" where
  "sender_allSetup E rnd s =
     bind_res (KEM_Scheme E (kemID (st_suite s))) (\<lambda>scheme.
     bind_res (rnd (EncapsulationSeedSize scheme)) (\<lambda>seed.
     bind_res
       (if st_modeID s = modeBase \<or> st_modeID s = modePSK then EncapsulateDeterministically scheme (pkR s) seed
        else if st_modeID s = modeAuth \<or> st_modeID s = modeAuthPSK then
          (case AuthEncapsulateDeterministically scheme of
             None \<Rightarrow> Err ''hpke: KEM does not support Auth mode''
           | Some f \<Rightarrow> bind_res (the_key (st_skS s)) (\<lambda>sk. f (pkR s) sk seed))
        else Ok ([], [])) (\<lambda>(enc, ss).
     bind_res (keySchedule E (st_suite s) (st_modeID s) ss (st_info s) (st_psk s) (st_pskID s)) (\<lambda>ctx.
     Ok (enc, ctx)))))"

definition receiver_allSetup ::
    "('pk, 'sk) hpke_env \<Rightarrow> ('pk, 'sk) Receiver \<Rightarrow> encdecContext res" where
  "receiver_allSetup E r =
     bind_res (KEM_Scheme E (kemID (st_suite r))) (\<lambda>scheme.
     bind_res
       (if st_modeID r = modeBase \<or> st_modeID r = modePSK then Decapsulate scheme (skR r) (renc r)
        else if st_modeID r = modeAuth \<or> st_modeID r = modeAuthPSK then
          (case AuthDecapsulate scheme of
             None \<Rightarrow> Err ''hpke: KEM does not support Auth mode''
           | Some f \<Rightarrow> bind_res (the_key (st_pkS r)) (\<lambda>pk. f (skR r) (renc r) pk))
        else Ok []) (\<lambda>ss.
     keySchedule E (st_suite r) (st_modeID r) ss (st_info r) (st_psk r) (st_pskID r)))"

definition sender_Setup where
  "sender_Setup E rnd s =
     (let s' = s\<lparr>st_modeID := modeBase\<rparr> in (s', sender_allSetup E rnd s'))"

definition sender_SetupAuth where
  "sender_SetupAuth E rnd s sk =
     (let s' = s\<lparr>st_modeID := modeAuth, st_skS := Some sk\<rparr> in (s', sender_allSetup E rnd s'))"

definition sender_SetupPSK where
  "sender_SetupPSK E rnd s p pid =
     (let s' = s\<lparr>st_modeID := modePSK, st_psk := p, st_pskID := pid\<rparr> in (s', sender_allSetup E rnd s'))"

definition sender_SetupAuthPSK where
  "sender_SetupAuthPSK E rnd s sk p pid =
     (let s' = s\<lparr>st_modeID := modeAuthPSK, st_skS := Some sk, st_psk := p, st_pskID := pid\<rparr> in (s', sender_allSetup E rnd s'))"

definition receiver_Setup where
  "receiver_Setup E r enc =
     (let r' = r\<lparr>st_modeID := modeBase, renc := enc\<rparr> in (r', receiver_allSetup E r'))"

definition receiver_SetupAuth where
  "receiver_SetupAuth E r enc pk =
     (let r' = r\<lparr>st_modeID := modeAuth, renc := enc, st_pkS := Some pk\<rparr> in (r', receiver_allSetup E r'))"

definition receiver_SetupPSK where
  "receiver_SetupPSK E r enc p pid =
     (let r' = r\<lparr>st_modeID := modePSK, renc := enc, st_psk := p, st_pskID := pid\<rparr> in (r', receiver_allSetup E r'))"

definition receiver_SetupAuthPSK where
  "receiver_SetupAuthPSK E r enc p pid pk =
     (let r' = r\<lparr>st_modeID := modeAuthPSK, renc := enc, st_psk := p, st_pskID := pid,
       st_pkS := Some pk\<rparr> in (r', receiver_allSetup E r'))"

section \<open>Sequence numbers\<close>

lemma incLoop_spec:
  "incLoop k bs = (r, c) \<Longrightarrow>
   length r = length bs \<and> unbe (rev r) + c * 256 ^ length bs = unbe (rev bs) + k"
proof (induction k bs arbitrary: r c rule: incLoop.induct)
  case (1 k)
  then show ?case by simp
next
  case (2 k b bs)
  let ?sum = "unat b + k"
  obtain r' c' where r': "incLoop (?sum div 256) bs = (r', c')"
    by (cases "incLoop (?sum div 256) bs")
  with "2.prems" have r: "r = of_nat (?sum mod 256) # r'" "c = c'"
    by (auto simp: Let_def)
  have IH: "length r' = length bs" "unbe (rev r') + c' * 256 ^ length bs = unbe (rev bs) + ?sum div 256"
    using "2.IH" [OF refl r'] by simp_all
  have "unat (of_nat (?sum mod 256) :: byte) = ?sum mod 256"
    by (simp add: unat_of_nat_byte)
  then have "unbe (rev r) + c * 256 ^ length (b # bs) =
      (unbe (rev r') + c' * 256 ^ length bs) * 256 + ?sum mod 256"
    by (simp add: r algebra_simps)
  also have "\<dots> = unbe (rev (b # bs)) + k"
    unfolding IH(2) by (simp add: algebra_simps)
  finally show ?case
    by (simp add: r IH(1))
qed

lemma foldl_and_ones: "foldl (AND) a bs = (0xFF :: u8) \<longleftrightarrow> a = 0xFF \<and> (\<forall>b \<in> set bs. b = 0xFF)"
proof (induction bs arbitrary: a)
  case Nil
  then show ?case by simp
next
  case (Cons b bs)
  have ones: "(0xFF :: u8) = - 1" by simp
  from Cons show ?case
    by (auto simp: ones and_eq_minus_1_iff)
qed

lemma unbe_not_ones: "\<not> (\<forall>b \<in> set bs. b = (0xFF :: u8)) \<Longrightarrow> unbe bs + 1 < 256 ^ length bs"
proof (induction bs rule: rev_induct)
  case Nil
  then show ?case by simp
next
  case (snoc b bs)
  show ?case
  proof (cases "b = 0xFF")
    case True
    with snoc have "unbe bs + 1 < 256 ^ length bs" by auto
    then show ?thesis
      using unat_byte_less [of b] by simp
  next
    case False
    then have "unat b \<noteq> 255"
      using word_unat_eq_iff [of b 255] by simp
    then have "unat b < 255"
      using unat_byte_less [of b] by simp
    then show ?thesis
      using unbe_less [of bs] by simp
  qed
qed

text \<open>
  The increment adds one to the big-endian number and fails exactly on the last one; its second
  overflow test never fires.
\<close>

lemma increment_spec:
  "increment c =
     (if \<forall>b \<in> set (c_sequenceNumber c). b = 0xFF
      then (c, Some ''hpke: AEAD sequence number overflows'')
      else (c\<lparr>c_sequenceNumber := be (length (c_sequenceNumber c)) (unbe (c_sequenceNumber c) + 1)\<rparr>, None))"
proof (cases "\<forall>b \<in> set (c_sequenceNumber c). b = 0xFF")
  case True
  then show ?thesis
    by (simp add: increment_def foldl_and_ones)
next
  case False
  let ?s = "c_sequenceNumber c"
  obtain r k where r: "incLoop 1 (rev ?s) = (r, k)"
    by (cases "incLoop 1 (rev ?s)")
  from incLoop_spec [OF r] have l: "length r = length ?s" and u: "unbe (rev r) + k * 256 ^ length ?s = unbe ?s + 1"
    by simp_all
  have k: "k = 0"
    using u unbe_not_ones [OF False] by (cases k) auto
  with u l be_unbe [of "rev r"] have "rev r = be (length ?s) (unbe ?s + 1)"
    by simp
  with False r k show ?thesis
    by (simp add: increment_def foldl_and_ones)
qed

lemma increment_None:
  "increment c = (c', None) \<Longrightarrow>
   c' = c\<lparr>c_sequenceNumber := c_sequenceNumber c'\<rparr> \<and>
   length (c_sequenceNumber c') = length (c_sequenceNumber c) \<and>
   unbe (c_sequenceNumber c') = unbe (c_sequenceNumber c) + 1"
proof -
  assume inc: "increment c = (c', None)"
  let ?s = "c_sequenceNumber c"
  from inc have ne: "\<not> (\<forall>b \<in> set ?s. b = 0xFF)"
    and c': "c' = c\<lparr>c_sequenceNumber := be (length ?s) (unbe ?s + 1)\<rparr>"
    by (auto simp: increment_spec split: if_splits)
  from unbe_not_ones [OF ne] have "unbe (be (length ?s) (unbe ?s + 1)) = unbe ?s + 1"
    by (rule unbe_be_id)
  with c' show ?thesis by simp
qed


subsection \<open>Nonces\<close>

definition ctx_wf :: "encdecContext \<Rightarrow> bool" where
  "ctx_wf c \<longleftrightarrow> length (c_sequenceNumber c) = length (c_baseNonce c) \<and>
     length (c_nonce c) = length (c_baseNonce c) \<and>
     length (c_baseNonce c) = aead_NonceSize (c_aead c)"

text \<open>The nonces under which a context has released ciphertexts, in order.\<close>

inductive sealed :: "encdecContext \<Rightarrow> bytes list \<Rightarrow> encdecContext \<Rightarrow> bool" where
  none: "sealed c [] c"
| more: "sealed c ns c1 \<Longrightarrow> ctx_Seal c1 pt aad = (c2, Ok ct) \<Longrightarrow> sealed c (ns @ [c_nonce c2]) c2"

lemma ctx_Seal_Ok:
  assumes "ctx_Seal c pt aad = (c', Ok ct)" and "ctx_wf c"
  shows "c_nonce c' = map2 (XOR) (c_baseNonce c) (c_sequenceNumber c)"
    and "ct = aead_Seal (c_aead c) (c_nonce c') pt aad"
    and "c' = c\<lparr>c_nonce := c_nonce c', c_sequenceNumber := c_sequenceNumber c'\<rparr>"
    and "unbe (c_sequenceNumber c') = unbe (c_sequenceNumber c) + 1"
    and "length (c_sequenceNumber c') = length (c_sequenceNumber c)"
    and "ctx_wf c'"
proof -
  let ?c1 = "c\<lparr>c_nonce := map2 (XOR) (c_baseNonce c) (c_sequenceNumber c)\<rparr>"
  have c1: "calcNonce c = Ok ?c1"
    using assms(2) by (simp add: calcNonce_def ctx_wf_def)
  with assms(1) have i: "increment ?c1 = (c', None)" "ct = aead_Seal (c_aead c) (c_nonce ?c1) pt aad"
    by (auto simp: ctx_Seal_def Let_def split: prod.splits option.splits)
  note n = increment_None [OF i(1)]
  then have nn: "c_nonce c' = c_nonce ?c1"
    by (metis encdecContext.select_convs(10) encdecContext.surjective encdecContext.update_convs(8))
  show "c_nonce c' = map2 (XOR) (c_baseNonce c) (c_sequenceNumber c)"
    using nn by simp
  show "ct = aead_Seal (c_aead c) (c_nonce c') pt aad"
    using i nn by simp
  show c': "c' = c\<lparr>c_nonce := c_nonce c', c_sequenceNumber := c_sequenceNumber c'\<rparr>"
    using n nn by simp
  show "unbe (c_sequenceNumber c') = unbe (c_sequenceNumber c) + 1"
    and len: "length (c_sequenceNumber c') = length (c_sequenceNumber c)"
    using n by simp_all
  have "c_baseNonce c' = c_baseNonce c" "c_aead c' = c_aead c"
    by (subst c', simp)+
  then show "ctx_wf c'"
    using assms(2) nn len by (simp add: ctx_wf_def)
qed

lemma xor_left_cancel_byte: "x XOR a = x XOR b \<longleftrightarrow> a = (b :: u8)"
  by (auto simp: bit_eq_iff bit_xor_iff)

lemma map2_right_inj:
  assumes inj: "\<And>x a b. f x a = f x b \<Longrightarrow> a = b"
  shows "length s = length b \<Longrightarrow> length t = length b \<Longrightarrow> map2 f b s = map2 f b t \<Longrightarrow> s = t"
proof (induction b arbitrary: s t)
  case Nil
  then show ?case by simp
next
  case (Cons x b)
  then show ?case
    by (cases s; cases t) (auto dest: inj)
qed

lemma xor_map2_inj:
  "length s = length b \<Longrightarrow> length t = length b \<Longrightarrow> map2 (XOR) b s = map2 (XOR) b t \<Longrightarrow> s = (t :: u8 list)"
  by (rule map2_right_inj) (simp_all only: xor_left_cancel_byte)

lemma sealed_invariant:
  "sealed c ns c' \<Longrightarrow> ctx_wf c \<Longrightarrow>
   ctx_wf c' \<and> c_baseNonce c' = c_baseNonce c \<and>
   unbe (c_sequenceNumber c') = unbe (c_sequenceNumber c) + length ns \<and>
   length (c_sequenceNumber c') = length (c_sequenceNumber c) \<and>
   (\<forall>n \<in> set ns. \<exists>s. length s = length (c_baseNonce c) \<and> n = map2 (XOR) (c_baseNonce c) s \<and>
      unbe s < unbe (c_sequenceNumber c')) \<and> distinct ns"
proof (induction rule: sealed.induct)
  case (none c)
  then show ?case by simp
next
  case (more c ns c1 pt aad c2 ct)
  then have IH: "ctx_wf c1" "c_baseNonce c1 = c_baseNonce c"
      "unbe (c_sequenceNumber c1) = unbe (c_sequenceNumber c) + length ns"
      "length (c_sequenceNumber c1) = length (c_sequenceNumber c)"
      "\<forall>n \<in> set ns. \<exists>s. length s = length (c_baseNonce c) \<and> n = map2 (XOR) (c_baseNonce c) s \<and>
         unbe s < unbe (c_sequenceNumber c1)" "distinct ns"
    by auto
  note s = ctx_Seal_Ok [OF more.hyps(2) IH(1)]
  have b2: "c_baseNonce c2 = c_baseNonce c1"
    by (subst s(3)) simp
  have l1: "length (c_sequenceNumber c1) = length (c_baseNonce c)"
    using IH(1,2) by (simp add: ctx_wf_def)
  have "c_nonce c2 \<notin> set ns"
  proof
    assume "c_nonce c2 \<in> set ns"
    then obtain t where t: "length t = length (c_baseNonce c)"
        "c_nonce c2 = map2 (XOR) (c_baseNonce c) t" "unbe t < unbe (c_sequenceNumber c1)"
      using IH(5) by blast
    have "map2 (XOR) (c_baseNonce c) t = map2 (XOR) (c_baseNonce c) (c_sequenceNumber c1)"
      using t(2) s(1) IH(2) by argo
    then have "t = c_sequenceNumber c1"
      by (rule xor_map2_inj [OF t(1) l1])
    with t(3) show False by blast
  qed
  moreover have "\<forall>n \<in> set (ns @ [c_nonce c2]). \<exists>s. length s = length (c_baseNonce c) \<and>
      n = map2 (XOR) (c_baseNonce c) s \<and> unbe s < unbe (c_sequenceNumber c2)"
  proof
    fix n
    assume "n \<in> set (ns @ [c_nonce c2])"
    then consider "n \<in> set ns" | "n = c_nonce c2" by auto
    then show "\<exists>s. length s = length (c_baseNonce c) \<and> n = map2 (XOR) (c_baseNonce c) s \<and>
        unbe s < unbe (c_sequenceNumber c2)"
    proof cases
      case 1
      then obtain t where "length t = length (c_baseNonce c)" "n = map2 (XOR) (c_baseNonce c) t"
          "unbe t < unbe (c_sequenceNumber c1)"
        using IH(5) by blast
      with s(4) show ?thesis
        by (intro exI [where x = t]) simp
    next
      case 2
      with s(1,4) l1 IH(2) show ?thesis
        by (intro exI [where x = "c_sequenceNumber c1"]) simp
    qed
  qed
  ultimately show ?case
    using s IH b2 by simp
qed


subsection \<open>A sealer and its opener\<close>

text \<open>Sealing and opening a sequence of messages, each with its additional data.\<close>

fun seal_many :: "encdecContext \<Rightarrow> (bytes \<times> bytes) list \<Rightarrow> encdecContext \<times> bytes list res" where
  "seal_many c [] = (c, Ok [])"
| "seal_many c ((pt, aad) # ms) = (case ctx_Seal c pt aad of
     (c1, Ok ct) \<Rightarrow> (case seal_many c1 ms of (c2, r) \<Rightarrow> (c2, bind_res r (\<lambda>cts. Ok (ct # cts))))
   | (c1, Err e) \<Rightarrow> (c1, Err e) | (c1, Panic p) \<Rightarrow> (c1, Panic p))"

fun open_many :: "encdecContext \<Rightarrow> (bytes \<times> bytes) list \<Rightarrow> encdecContext \<times> bytes list res" where
  "open_many c [] = (c, Ok [])"
| "open_many c ((ct, aad) # ms) = (case ctx_Open c ct aad of
     (c1, Ok pt) \<Rightarrow> (case open_many c1 ms of (c2, r) \<Rightarrow> (c2, bind_res r (\<lambda>pts. Ok (pt # pts))))
   | (c1, Err e) \<Rightarrow> (c1, Err e) | (c1, Panic p) \<Rightarrow> (c1, Panic p))"

text \<open>The documented law of \<^verbatim>\<open>cipher.AEAD\<close>: with a nonce of the right size, Open undoes Seal.\<close>

definition aead_correct :: "aead \<Rightarrow> bool" where
  "aead_correct A \<longleftrightarrow> (\<forall>n p a. length n = aead_NonceSize A \<longrightarrow> aead_Open A n (aead_Seal A n p a) a = Ok p)"

definition paired :: "encdecContext \<Rightarrow> encdecContext \<Rightarrow> bool" where
  "paired s r \<longleftrightarrow> ctx_wf s \<and> ctx_wf r \<and> c_suite r = c_suite s \<and> c_aead r = c_aead s \<and> c_baseNonce r = c_baseNonce s \<and>
     c_sequenceNumber r = c_sequenceNumber s"

lemma calcNonce_wf:
  "ctx_wf c \<Longrightarrow> calcNonce c = Ok (c\<lparr>c_nonce := map2 (XOR) (c_baseNonce c) (c_sequenceNumber c)\<rparr>)"
  by (simp add: calcNonce_def ctx_wf_def)

lemma increment_nonce_irrelevant:
  "increment (c\<lparr>c_nonce := n\<rparr>) = (let (c', e) = increment c in (c'\<lparr>c_nonce := n\<rparr>, e))"
  by (simp add: increment_spec)

lemma open_sealed:
  assumes seal: "ctx_Seal s pt aad = (s', Ok ct)" and p: "paired s r" and law: "aead_correct (c_aead s)"
  shows "\<exists>r'. ctx_Open r ct aad = (r', Ok pt) \<and> paired s' r' \<and> c_aead s' = c_aead s"
proof -
  have wf: "ctx_wf s" "ctx_wf r"
    using p by (simp_all add: paired_def)
  let ?n = "map2 (XOR) (c_baseNonce s) (c_sequenceNumber s)"
  let ?r1 = "r\<lparr>c_nonce := ?n\<rparr>"
  note s = ctx_Seal_Ok [OF seal wf(1)]
  have "calcNonce r = Ok ?r1"
    using p wf(2) by (simp add: calcNonce_wf paired_def)
  moreover have "aead_Open (c_aead r) ?n ct aad = Ok pt"
    using law p wf(1) s(1,2) by (simp add: aead_correct_def paired_def ctx_wf_def)
  moreover have inc: "increment ?r1 = (?r1\<lparr>c_sequenceNumber := c_sequenceNumber s'\<rparr>, None)"
  proof -
    have ne: "\<not> (\<forall>b \<in> set (c_sequenceNumber s). b = 0xFF)"
      using s(4) unbe_less [of "c_sequenceNumber s'"] s(5) be_unbe [of "c_sequenceNumber s'"]
        seal wf(1)
      by (auto simp: ctx_Seal_def calcNonce_wf increment_spec Let_def split: if_splits)
    then show ?thesis
      using p s(4,5) be_unbe [of "c_sequenceNumber s'"] by (simp add: increment_spec paired_def)
  qed
  moreover have f: "c_aead s' = c_aead s" "c_baseNonce s' = c_baseNonce s" "c_suite s' = c_suite s"
    by (subst s(3), simp)+
  moreover have "paired s' (?r1\<lparr>c_sequenceNumber := c_sequenceNumber s'\<rparr>)"
    using p s(5,6) f wf by (simp add: paired_def ctx_wf_def)
  ultimately show ?thesis
    by (simp add: ctx_Open_def)
qed

lemma open_many_sealed:
  assumes "seal_many s ms = (s', Ok cts)" and "paired s r" and "aead_correct (c_aead s)"
  shows "\<exists>r'. open_many r (zip cts (map snd ms)) = (r', Ok (map fst ms)) \<and> paired s' r'"
  using assms
proof (induction s ms arbitrary: r s' cts rule: seal_many.induct)
  case (1 c)
  then show ?case by auto
next
  case (2 c pt aad ms)
  from "2.prems"(1) obtain c1 ct cts' where c1: "ctx_Seal c pt aad = (c1, Ok ct)"
    and rest: "seal_many c1 ms = (s', Ok cts')" and cts: "cts = ct # cts'"
    by (auto simp: bind_res_eq_Ok split: prod.splits res.splits)
  from open_sealed [OF c1 "2.prems"(2,3)] obtain r1 where
    r1: "ctx_Open r ct aad = (r1, Ok pt)" "paired c1 r1" "c_aead c1 = c_aead c"
    by blast
  with "2.IH" [OF c1 [symmetric] refl rest, of r1] "2.prems"(3) c1 cts show ?case
    by auto
qed

section \<open>The key schedule\<close>

text \<open>
  What the program relies on of its primitives: HMAC output sizes, and ciphers that accept a key of
  their size, take nonces of 12 bytes and open what they sealed.
\<close>

definition env_ok :: "('pk, 'sk) hpke_env \<Rightarrow> bool" where
  "env_ok E \<longleftrightarrow> mac_sized (env_mac E) \<and>
     (\<forall>a k. KeySize a = Ok (length k) \<longrightarrow>
        (\<exists>ad. env_aead E a k = Ok ad \<and> aead_NonceSize ad = 12 \<and> aead_correct ad))"

definition ctx_ok :: "('pk, 'sk) hpke_env \<Rightarrow> encdecContext \<Rightarrow> bool" where
  "ctx_ok E c \<longleftrightarrow> suite_isValid (c_suite c) \<and>
     ExtractSize (kdfID (c_suite c)) = Ok (length (c_exporterSecret c)) \<and>
     KeySize (aeadID (c_suite c)) = Ok (length (c_key c)) \<and>
     NonceSize (aeadID (c_suite c)) = Ok (length (c_baseNonce c)) \<and>
     AEAD_New E (aeadID (c_suite c)) (c_key c) = Ok (c_aead c) \<and>
     ctx_wf c \<and> aead_correct (c_aead c)"

lemma KDF_IsValid_cases:
  assumes "KDF_IsValid k"
  obtains h where "KDF_hash k = Ok h" "ExtractSize k = Ok (Size h)"
  using assms by (auto simp: KDF_IsValid_def KDF_hash_def ExtractSize_def KDF_ids)

lemma AEAD_IsValid_cases:
  assumes "AEAD_IsValid a"
  obtains n where "KeySize a = Ok n" "n \<le> 32" "NonceSize a = Ok 12"
  using assms by (auto simp: AEAD_IsValid_def KeySize_def NonceSize_def AEAD_ids)

lemma labeledExtract_Ok:
  assumes "mac_sized mac" and "KDF_hash (kdfID st) = Ok h"
  obtains prk where "labeledExtract mac st salt label ikm = Ok prk" "length prk = Size h"
  using assms by (simp add: labeledExtract_def KDF_Extract_def length_hkdf_Extract)

lemma labeledExpand_Ok:
  assumes "mac_sized mac" and h: "KDF_hash (kdfID st) = Ok h" "ExtractSize (kdfID st) = Ok (Size h)"
    and prk: "length prk = Size h" and l: "n \<le> 255 * Size h"
  obtains out where "labeledExpand mac st prk label info (of_nat n) = Ok out" "length out = n"
proof -
  have "n < 65536"
    using l Size_bounds(2) [of h] by linarith
  then have n: "unat (of_nat n :: u16) = n"
    by (simp add: unat_of_nat take_bit_eq_mod)
  obtain out where "hkdf_ReadFull mac h prk (enc16 (of_nat n) @ versionLabel @ getSuiteID st @ label @ info) n = Ok out"
      "length out = n"
    using hkdf_ReadFull_length [OF assms(1) l] by blast
  with that show ?thesis
    using h prk l by (simp add: labeledExpand_def KDF_Expand_def n)
qed

lemma keySchedule_Ok:
  assumes E: "env_ok E" and st: "suite_isValid st" and psk: "verifyPSKInputs modeID psk pskID = None"
  shows "\<exists>c. keySchedule E st modeID ss info psk pskID = Ok c \<and> ctx_ok E c \<and> c_suite c = st \<and>
    c_sequenceNumber c = replicate 12 0"
proof -
  have mac: "mac_sized (env_mac E)"
    using E by (simp add: env_ok_def)
  obtain h where h: "KDF_hash (kdfID st) = Ok h" "ExtractSize (kdfID st) = Ok (Size h)"
    using st KDF_IsValid_cases by (auto simp: suite_isValid_def)
  obtain n where n: "KeySize (aeadID st) = Ok n" "n \<le> 32" "NonceSize (aeadID st) = Ok 12"
    using st AEAD_IsValid_cases by (auto simp: suite_isValid_def)
  let ?ext = "labeledExtract (env_mac E) st" and ?exp = "labeledExpand (env_mac E) st"
  note ex = labeledExtract_Ok [OF mac h(1)] and xp = labeledExpand_Ok [OF mac h]
  obtain pskIDHash infoHash sec where a:
      "?ext None (ascii ''psk_id_hash'') (opt_bytes pskID) = Ok pskIDHash"
      "?ext None (ascii ''info_hash'') info = Ok infoHash"
      "?ext (Some ss) (ascii ''secret'') (opt_bytes psk) = Ok sec" "length sec = Size h"
    using ex by metis
  let ?ks = "[modeID] @ pskIDHash @ infoHash"
  have small: "n \<le> 255 * Size h" "12 \<le> 255 * Size h" "Size h \<le> 255 * Size h"
    using n(2) Size_bounds(1) [of h] by simp_all
  obtain k bn exs where b: "?exp sec (ascii ''key'') ?ks (of_nat n) = Ok k" "length k = n"
      "?exp sec (ascii ''base_nonce'') ?ks (of_nat 12) = Ok bn" "length bn = 12"
      "?exp sec (ascii ''exp'') ?ks (of_nat (Size h)) = Ok exs" "length exs = Size h"
    using xp [OF a(4)] small by metis
  obtain ad where ad: "env_aead E (aeadID st) k = Ok ad" "aead_NonceSize ad = 12" "aead_correct ad"
    using E n(1) b(2) by (auto simp: env_ok_def)
  have v: "AEAD_New E (aeadID st) k = Ok ad"
    using st ad(1) by (simp add: AEAD_New_def suite_isValid_def)
  show ?thesis
    using a b(1,3,5) h(2) n(1) v ad(2) psk st b(2,4,6) n(3) ad(3)
    by (simp add: keySchedule_def ctx_ok_def ctx_wf_def del: of_nat_numeral) (simp add: ctx_wf_def)
qed

lemma ctx_ok_Seal: "ctx_ok E c \<Longrightarrow> ctx_Seal c pt aad = (c', Ok ct) \<Longrightarrow> ctx_ok E c'"
proof -
  assume ok: "ctx_ok E c" and s: "ctx_Seal c pt aad = (c', Ok ct)"
  then have wf: "ctx_wf c"
    by (simp add: ctx_ok_def)
  have "c' = c\<lparr>c_nonce := c_nonce c', c_sequenceNumber := c_sequenceNumber c'\<rparr>"
    by (rule ctx_Seal_Ok(3) [OF s wf])
  then have "c_suite c' = c_suite c" "c_exporterSecret c' = c_exporterSecret c" "c_key c' = c_key c"
      "c_baseNonce c' = c_baseNonce c" "c_aead c' = c_aead c"
    by (metis encdecContext.select_convs encdecContext.surjective encdecContext.update_convs(8,10))+
  with ok ctx_Seal_Ok(6) [OF s wf] show ?thesis
    by (simp add: ctx_ok_def)
qed

section \<open>Saving and restoring a context\<close>

definition ctx_bytes :: "encdecContext \<Rightarrow> bytes" where
  "ctx_bytes c = enc16 (kemID (c_suite c)) @ enc16 (kdfID (c_suite c)) @ enc16 (aeadID (c_suite c)) @
     pref8 (c_exporterSecret c) @ pref8 (c_key c) @ pref8 (c_baseNonce c) @ pref8 (c_sequenceNumber c)"

definition forget :: "encdecContext \<Rightarrow> encdecContext" where
  "forget c = c\<lparr>c_sharedSecret := [], c_secret := [], c_keyScheduleContext := [],
     c_nonce := replicate (length (c_baseNonce c)) 0\<rparr>"

lemma forget_simps [simp]:
  "c_suite (forget c) = c_suite c" "c_exporterSecret (forget c) = c_exporterSecret c"
  by (simp_all add: forget_def)

lemma ctx_ok_lengths:
  assumes "ctx_ok E c"
  shows "length (c_exporterSecret c) < 256" "length (c_key c) < 256" "length (c_baseNonce c) < 256"
    "length (c_sequenceNumber c) < 256"
  using assms
  by (auto simp: ctx_ok_def suite_isValid_def ctx_wf_def KDF_IsValid_def AEAD_IsValid_def ExtractSize_def
      KeySize_def NonceSize_def KDF_ids AEAD_ids)

lemma ctx_marshal_bytes: "ctx_ok E c \<Longrightarrow> ctx_marshal c = Ok (ctx_bytes c)"
  unfolding ctx_marshal_def ctx_bytes_def
  by (intro runBytes_appends builder_intros) (rule ctx_ok_lengths; assumption)+

lemma readContext_bytes:
  "ctx_ok E c \<Longrightarrow> readContext (ctx_bytes c) =
     Some ((kemID (c_suite c), kdfID (c_suite c), aeadID (c_suite c)),
       c_exporterSecret c, c_key c, c_baseNonce c, c_sequenceNumber c)"
  by (simp add: readContext_def ctx_bytes_def u16c.dec_enc lp8.dec_enc lp8.dec_enc_all ctx_ok_lengths
      ReadBytes_all)

lemma suite_eta: "\<lparr>kemID = kemID st, kdfID = kdfID st, aeadID = aeadID st\<rparr> = (st :: Suite)"
  by simp

lemma unmarshalContext_bytes: "ctx_ok E c \<Longrightarrow> unmarshalContext E (ctx_bytes c) = Ok (forget c)"
  by (simp add: unmarshalContext_def readContext_bytes suite_eta Let_def)
    (simp add: ctx_ok_def ctx_wf_def forget_def Let_def)

lemma paired_forget: "ctx_ok E c \<Longrightarrow> paired c (forget c)"
  by (simp add: paired_def forget_def ctx_ok_def ctx_wf_def)


section \<open>How many messages a context can carry\<close>

lemma all_ones_iff: "(\<forall>b \<in> set bs. b = (0xFF :: u8)) \<longleftrightarrow> unbe bs + 1 = 256 ^ length bs"
proof
  show "\<forall>b \<in> set bs. b = 0xFF \<Longrightarrow> unbe bs + 1 = 256 ^ length bs"
    by (induction bs rule: rev_induct) simp_all
  show "unbe bs + 1 = 256 ^ length bs \<Longrightarrow> \<forall>b \<in> set bs. b = 0xFF"
    using unbe_not_ones by fastforce
qed

lemma ctx_Seal_spec:
  assumes "ctx_wf c"
  shows "ctx_Seal c pt aad =
    (let n = map2 (XOR) (c_baseNonce c) (c_sequenceNumber c) in
     if unbe (c_sequenceNumber c) + 1 < 256 ^ length (c_sequenceNumber c)
     then (c\<lparr>c_nonce := n,
             c_sequenceNumber := be (length (c_sequenceNumber c)) (unbe (c_sequenceNumber c) + 1)\<rparr>,
           Ok (aead_Seal (c_aead c) n pt aad))
     else (c\<lparr>c_nonce := n\<rparr>, Err ''hpke: AEAD sequence number overflows''))"
proof -
  have "unbe (c_sequenceNumber c) + 1 \<le> 256 ^ length (c_sequenceNumber c)"
    using unbe_less [of "c_sequenceNumber c"] by simp
  then have "(\<forall>b \<in> set (c_sequenceNumber c). b = 0xFF) \<longleftrightarrow>
      \<not> unbe (c_sequenceNumber c) + 1 < 256 ^ length (c_sequenceNumber c)"
    unfolding all_ones_iff by linarith
  then show ?thesis
    using calcNonce_wf [OF assms] by (simp add: ctx_Seal_def increment_spec Let_def)
qed

lemma seal_many_Ok:
  assumes "ctx_wf c" and "unbe (c_sequenceNumber c) + length ms < 256 ^ length (c_sequenceNumber c)"
  shows "\<exists>c' cts. seal_many c ms = (c', Ok cts)"
  using assms
proof (induction c ms rule: seal_many.induct)
  case (1 c)
  then show ?case by simp
next
  case (2 c pt aad ms)
  then obtain c1 ct where c1: "ctx_Seal c pt aad = (c1, Ok ct)"
    by (simp add: ctx_Seal_spec Let_def)
  note s = ctx_Seal_Ok [OF c1 "2.prems"(1)]
  have "unbe (c_sequenceNumber c1) + length ms < 256 ^ length (c_sequenceNumber c1)"
    using s(4,5) "2.prems"(2) by simp
  with "2.IH" [OF c1 [symmetric] refl s(6)] c1 show ?case
    by auto
qed

section \<open>Setting up both ends\<close>

lemma unbe_replicate_0 [simp]: "unbe (replicate n 0) = 0"
  by (induction n) (simp_all flip: replicate_append_same)

lemma setup_agree:
  assumes E: "env_ok E" and st: "suite_isValid st"
    and K: "kem_contract (env_kem E (kemID st)) m" and mat: "m pk sk seed"
    and rnd: "rnd (EncapsulationSeedSize (env_kem E (kemID st))) = Ok seed"
    and enc: "EncapsulateDeterministically (env_kem E (kemID st)) pk seed = Ok (enc, ss)"
    and psk: "mode = modeBase \<and> psk = None \<and> pskID = None \<or>
      mode = modePSK \<and> psk \<noteq> None \<and> pskID \<noteq> None"
  shows "\<exists>c. sender_allSetup E rnd ((NewSender st pk info)\<lparr>st_modeID := mode, st_psk := psk, st_pskID := pskID\<rparr>)
      = Ok (enc, c) \<and>
    receiver_allSetup E ((NewReceiver st sk info)\<lparr>st_modeID := mode, renc := enc, st_psk := psk, st_pskID := pskID\<rparr>)
      = Ok c \<and> ctx_ok E c \<and> c_suite c = st \<and> c_sequenceNumber c = replicate 12 0"
proof -
  have dec: "Decapsulate (env_kem E (kemID st)) sk enc = Ok ss"
    by (rule kem_contract.decap_encap [OF K enc mat])
  have "verifyPSKInputs mode psk pskID = None"
    using psk by (auto simp: verifyPSKInputs_def mode_defs Let_def)
  from keySchedule_Ok [OF E st this] obtain c where
    c: "keySchedule E st mode ss info psk pskID = Ok c" "ctx_ok E c" "c_suite c = st"
      "c_sequenceNumber c = replicate 12 0"
    by blast
  have KS: "KEM_Scheme E (kemID st) = Ok (env_kem E (kemID st))"
    using st by (simp add: KEM_Scheme_def suite_isValid_def)
  show ?thesis
    using psk KS rnd enc dec c
    by (auto simp: sender_allSetup_def receiver_allSetup_def NewSender_def NewReceiver_def)
qed

lemma open_seal_many:
  assumes "ctx_ok E c" and "c_sequenceNumber c = replicate 12 0" and "length ms < 256 ^ 12"
  shows "\<exists>cts. snd (seal_many c ms) = Ok cts \<and> snd (open_many c (zip cts (map snd ms))) = Ok (map fst ms)"
proof -
  have wf: "ctx_wf c" and a: "aead_correct (c_aead c)"
    using assms(1) by (simp_all add: ctx_ok_def)
  obtain c' cts where cts: "seal_many c ms = (c', Ok cts)"
    using seal_many_Ok [OF wf, of ms] assms(2,3) by auto
  have "paired c c"
    using wf by (simp add: paired_def)
  from open_many_sealed [OF cts this a] cts show ?thesis
    by auto
qed

section \<open>Properties\<close>

text \<open>
  C12: a sender and a receiver that set up a context in Base mode, with an encapsulated key made for
  the receiver, agree on it, and the receiver opens every sequence of fewer than 2^96 sealed messages,
  in order, to the plaintexts that were sent. The KEM, the ciphers and HMAC obey their documented laws.
\<close>

theorem hpke_base_roundtrip:
  assumes "env_ok E" and "suite_isValid st" and "kem_contract (env_kem E (kemID st)) m" and "m pk sk seed"
    and "rnd (EncapsulationSeedSize (env_kem E (kemID st))) = Ok seed"
    and "EncapsulateDeterministically (env_kem E (kemID st)) pk seed = Ok (enc, ss)"
    and "length ms < 2 ^ 96"
  shows "\<exists>c cts. snd (sender_Setup E rnd (NewSender st pk info)) = Ok (enc, c) \<and>
      snd (receiver_Setup E (NewReceiver st sk info) enc) = Ok c \<and>
      snd (seal_many c ms) = Ok cts \<and>
      snd (open_many c (zip cts (map snd ms))) = Ok (map fst ms)"
proof -
  from setup_agree [where m = m and rnd = rnd and mode = modeBase and psk = None and pskID = None, OF assms(1-6)]
  obtain c where c: "snd (sender_Setup E rnd (NewSender st pk info)) = Ok (enc, c)"
      "snd (receiver_Setup E (NewReceiver st sk info) enc) = Ok c" "ctx_ok E c"
      "c_sequenceNumber c = replicate 12 0"
    by (auto simp: sender_Setup_def receiver_Setup_def NewSender_def NewReceiver_def Let_def)
  from open_seal_many [OF c(3,4), of ms] assms(7) c(1,2) show ?thesis
    by auto
qed

definition toy_mac :: hmac where
  "toy_mac h k m = replicate (Size h) (fold (+) (k @ m) 0)"

definition toy_xdh :: xdh where
  "toy_xdh = \<lparr>x25519_Shared = (\<lambda>s p. (map2 (XOR) s p, True)), x25519_KeyGen = (\<lambda>s. s),
     x448_Shared = (\<lambda>s p. (map2 (XOR) s p, True)), x448_KeyGen = (\<lambda>s. s)\<rparr>"

definition toy_aead :: "bytes \<Rightarrow> aead" where
  "toy_aead k = \<lparr>aead_NonceSize = 12, aead_Seal = (\<lambda>n p a. map ((+) (hd k)) p @ n @ replicate 4 0),
     aead_Open = (\<lambda>n c a. Ok (map (\<lambda>x. x - hd k) (take (length c - 16) c)))\<rparr>"

definition toy_env :: "(bytes, bytes) hpke_env" where
  "toy_env = \<lparr>env_mac = toy_mac, env_aead = (\<lambda>a k. Ok (toy_aead k)),
     env_kem = (\<lambda>_. xKEM toy_mac toy_xdh \<lparr>kb_id = 0x20, kb_hash = SHA256\<rparr> 32)\<rparr>"

definition toy_suite :: Suite where
  "toy_suite = \<lparr>kemID = KEM_X25519_HKDF_SHA256, kdfID = KDF_HKDF_SHA256, aeadID = AEAD_AES128GCM\<rparr>"

lemma toy_env_ok: "env_ok toy_env"
  by (simp add: env_ok_def toy_env_def toy_aead_def toy_mac_def mac_sized_def aead_correct_def comp_def)

lemma toy_suite_valid: "suite_isValid toy_suite"
  by (simp add: toy_suite_def suite_isValid_def KEM_IsValid_def KDF_IsValid_def AEAD_IsValid_def)

lemma kb_labeledExpand_Ok:
  assumes "mac_sized mac" and "unat l \<le> 255 * Size (kb_hash k)"
  shows "\<exists>b. kb_labeledExpand mac k prk label info l = Ok b"
  using hkdf_ReadFull_length [OF assms, of prk "enc16 l @ versionLabel @ kb_getSuiteID k @ label @ info"]
  by (auto simp: kb_labeledExpand_def)

lemma x_encap_total:
  assumes mac: "mac_sized mac" and sz: "sz = 32 \<or> sz = 56" and seed: "length seed = sz"
    and ok: "\<And>s p. snd (x25519_Shared X s p)" "\<And>s p. snd (x448_Shared X s p)"
  shows "\<exists>enc ss. EncapsulateDeterministically (xKEM mac X k sz) pk seed = Ok (enc, ss)"
proof -
  have l: "unat (of_nat sz :: u16) \<le> 255 * Size (kb_hash k)"
    using sz by (cases "kb_hash k") (auto simp: unat_of_nat)
  obtain bs where "kb_labeledExpand mac k (kb_labeledExtract mac k [] (ascii ''dkp_prk'') seed) (ascii ''sk'') []
      (of_nat sz) = Ok bs"
    using kb_labeledExpand_Ok [OF mac l] by blast
  then obtain pkE skE where kp: "x_DeriveKeyPair mac X k sz seed = Ok (pkE, skE)"
    using seed by (auto simp: x_DeriveKeyPair_def Let_def)
  obtain dh where dh: "x_calcDH X sz (replicate sz 0) skE pk = Ok dh"
    using sz ok by (fastforce simp: x_calcDH_def split_def)
  have "unat (of_nat (Size (kb_hash k)) :: u16) \<le> 255 * Size (kb_hash k)"
    by (cases "kb_hash k") (simp_all add: unat_of_nat)
  from kb_labeledExpand_Ok [OF mac this, of "kb_labeledExtract mac k [] (ascii ''eae_prk'') dh"]
  obtain ss where "extractExpand mac k dh (pkE @ pk) = Ok ss"
    by (auto simp: extractExpand_def Let_def)
  with kp dh show ?thesis
    by (simp add: xKEM_def dh_encap_def coreEncap_def x_dhKEM_def)
qed

lemma map2_xor_commute: "map2 (XOR) a b = map2 (XOR) b (a :: bytes)"
  by (simp add: zip_commute [of a b] xor.commute split_def)

lemma toy_matches:
  "length sk = 32 \<Longrightarrow> x_matches toy_mac toy_xdh k 32 sk sk seed"
proof -
  assume l: "length sk = 32"
  show ?thesis
    using l
    by (auto simp: x_matches_def x_Public_def x_calcDH_def toy_xdh_def go_copy_same map2_xor_commute [of sk]
        dest!: x_DeriveKeyPair_Ok)
qed

theorem hpke_base_roundtrip_witness:
  "\<exists>enc c cts.
      snd (sender_Setup toy_env (\<lambda>n. Ok (replicate n 5)) (NewSender toy_suite (replicate 32 7) [1, 2])) = Ok (enc, c) \<and>
      snd (receiver_Setup toy_env (NewReceiver toy_suite (replicate 32 7) [1, 2]) enc) = Ok c \<and>
      snd (seal_many c [([1, 2, 3], [9]), ([4], [])]) = Ok cts \<and>
      snd (open_many c (zip cts [[9], []])) = Ok [[1, 2, 3], [4]]"
proof -
  let ?k = "\<lparr>kb_id = 0x20, kb_hash = SHA256\<rparr>"
  let ?K = "env_kem toy_env (kemID toy_suite)"
  have K: "?K = xKEM toy_mac toy_xdh ?k 32"
    by (simp add: toy_env_def)
  have mac: "mac_sized toy_mac"
    using toy_env_ok by (simp add: env_ok_def toy_env_def)
  obtain enc ss where e: "EncapsulateDeterministically ?K (replicate 32 7) (replicate 32 5) = Ok (enc, ss)"
    using x_encap_total [OF mac, of 32 "replicate 32 5" toy_xdh ?k "replicate 32 7"]
    unfolding K by (auto simp: toy_xdh_def)
  have m: "x_matches toy_mac toy_xdh ?k 32 (replicate 32 7) (replicate 32 7) (replicate 32 5)"
    by (rule toy_matches) simp
  have c: "kem_contract ?K (x_matches toy_mac toy_xdh ?k 32)"
    unfolding K by (rule xkem.kem_contract_axioms)
  have r: "EncapsulationSeedSize ?K = 32"
    by (simp add: K xKEM_def)
  show ?thesis
    using hpke_base_roundtrip [where rnd = "\<lambda>n. Ok (replicate n 5)" and info = "[1, 2]" and
        ms = "[([1, 2, 3], [9]), ([4], [])]", OF toy_env_ok toy_suite_valid c m _ e]
    by (auto simp: r simp del: seal_many.simps open_many.simps)
qed

lemma keySchedule_ctx_ok:
  assumes "env_ok E" and "suite_isValid st" and ks: "keySchedule E st modeID ss info psk pskID = Ok c"
  shows "ctx_ok E c" and "c_sequenceNumber c = replicate 12 0"
proof -
  have "verifyPSKInputs modeID psk pskID = None"
    using ks by (auto simp: keySchedule_def split: option.splits)
  from keySchedule_Ok [OF assms(1,2) this, of ss info] ks
  show "ctx_ok E c" and "c_sequenceNumber c = replicate 12 0"
    by auto
qed

lemma sender_Setup_ctx:
  assumes "snd (sender_Setup E rnd (NewSender st pk info)) = Ok (enc, c)" and "env_ok E" and "suite_isValid st"
  shows "ctx_ok E c" and "c_sequenceNumber c = replicate 12 0"
  using assms(1) keySchedule_ctx_ok [OF assms(2,3)]
  by (auto simp: sender_Setup_def sender_allSetup_def NewSender_def bind_res_eq_Ok Let_def)

lemma seal_ctx_ok:
  assumes "ctx_Seal c pt aad = (c', Ok ct)" and "ctx_ok E c"
  shows "ctx_ok E c'"
proof -
  have wf: "ctx_wf c" using assms(2) by (simp add: ctx_ok_def)
  note s = ctx_Seal_Ok [OF assms(1) wf]
  have "length (c_nonce c') = length (c_baseNonce c)" using s(1) wf by (simp add: ctx_wf_def)
  with s(5) assms(2) wf have "ctx_ok E (c\<lparr>c_nonce := c_nonce c', c_sequenceNumber := c_sequenceNumber c'\<rparr>)"
    by (simp add: ctx_ok_def ctx_wf_def)
  then show ?thesis using s(3) by simp
qed



text \<open>
  C29: Seal hands out a ciphertext exactly while the sequence number is not the largest one; then it
  reports the overflow and leaves the sequence number where it is, so that every later call fails too.
  It never panics.
\<close>

theorem hpke_seal_exhausted:
  assumes "ctx_wf c"
  shows "((\<exists>c' ct. ctx_Seal c pt aad = (c', Ok ct)) \<longleftrightarrow>
      unbe (c_sequenceNumber c) < 256 ^ length (c_baseNonce c) - 1) \<and>
    (unbe (c_sequenceNumber c) = 256 ^ length (c_baseNonce c) - 1 \<longrightarrow>
      (\<exists>c'. ctx_Seal c pt aad = (c', Err ''hpke: AEAD sequence number overflows'') \<and>
        c_sequenceNumber c' = c_sequenceNumber c)) \<and>
    \<not> is_panic (snd (ctx_Seal c pt aad))"
  using assms by (auto simp: ctx_Seal_spec ctx_wf_def Let_def)

definition last_ctx :: encdecContext where
  "last_ctx = \<lparr>c_suite = toy_suite, c_sharedSecret = [], c_secret = [], c_keyScheduleContext = [],
     c_exporterSecret = [], c_key = [1], c_baseNonce = replicate 12 3, c_sequenceNumber = replicate 12 0xFF,
     c_aead = toy_aead [1], c_nonce = replicate 12 0\<rparr>"

theorem hpke_seal_exhausted_witness:
  "ctx_wf last_ctx \<and> \<not> (\<exists>c' ct. ctx_Seal last_ctx [1] [2] = (c', Ok ct)) \<and>
   (\<exists>c'. ctx_Seal last_ctx [1] [2] = (c', Err ''hpke: AEAD sequence number overflows'') \<and>
      c_sequenceNumber c' = c_sequenceNumber last_ctx) \<and>
   \<not> is_panic (snd (ctx_Seal last_ctx [1] [2]))"
proof -
  have wf: "ctx_wf last_ctx"
    by (simp add: ctx_wf_def last_ctx_def toy_aead_def)
  have "unbe (c_sequenceNumber last_ctx) + 1 = 256 ^ length (c_sequenceNumber last_ctx)"
    unfolding all_ones_iff [symmetric] by (simp add: last_ctx_def)
  then have u: "unbe (c_sequenceNumber last_ctx) = 256 ^ length (c_baseNonce last_ctx) - 1"
    by (simp add: last_ctx_def)
  show ?thesis
    using hpke_seal_exhausted [OF wf, of "[1]" "[2]"] u wf by auto
qed

text \<open>
  A context that was saved and restored continues where it was: its bytes are read back as an
  opener (not as a sealer), and the restored opener opens everything the original context seals next,
  and exports the same secrets.
\<close>

theorem hpke_context_restore:
  assumes "ctx_ok E c"
  shows "\<exists>raw c'. opener_MarshalBinary c = Ok raw \<and> UnmarshalOpener E raw = Ok c' \<and>
    UnmarshalSealer E raw = Err ''incorrect role'' \<and>
    (\<forall>ms s cts. seal_many c ms = (s, Ok cts) \<longrightarrow>
       snd (open_many c' (zip cts (map snd ms))) = Ok (map fst ms)) \<and>
    (\<forall>x n. ctx_Export E c' x n = ctx_Export E c x n)"
proof (intro exI conjI allI impI)
  show "opener_MarshalBinary c = Ok (1 # ctx_bytes c)"
    by (simp add: opener_MarshalBinary_def ctx_marshal_bytes [OF assms])
  show "UnmarshalOpener E (1 # ctx_bytes c) = Ok (forget c)"
    by (simp add: UnmarshalOpener_def unmarshalContext_bytes [OF assms])
  show "UnmarshalSealer E (1 # ctx_bytes c) = Err ''incorrect role''"
    by (simp add: UnmarshalSealer_def)
  show "snd (open_many (forget c) (zip cts (map snd ms))) = Ok (map fst ms)"
    if "seal_many c ms = (s, Ok cts)" for ms s cts
    using open_many_sealed [OF that paired_forget [OF assms]] assms by (auto simp: ctx_ok_def)
  show "ctx_Export E (forget c) x n = ctx_Export E c x n" for x n
    by (simp add: ctx_Export_def cong: if_cong)
qed

text \<open>
  What \<open>verifyPSKInputs\<close> accepts. In Base mode a PSK is accepted, and in PSK mode a missing PSK is,
  against the comments and RFC 9180: the cases of the switch are the bitwise or of two modes and match
  only Auth and AuthPSK.
\<close>

theorem hpke_psk_check:
  "verifyPSKInputs modeBase (Some p) (Some q) = None \<and>
   verifyPSKInputs modePSK None None = None \<and>
   verifyPSKInputs modeAuth (Some p) (Some q) = Some ''PSK input provided when not needed'' \<and>
   verifyPSKInputs modeAuthPSK None None = Some ''missing required PSK input'' \<and>
   verifyPSKInputs m (Some p) None = Some ''inconsistent PSK inputs'' \<and>
   verifyPSKInputs m None (Some q) = Some ''inconsistent PSK inputs''"
  by (simp add: verifyPSKInputs_def mode_defs)

end
