(* ===== verification/ECH_Config.thy ===== *)
theory ECH_Config
  imports HPKE Client_Hello
begin

text \<open>
  ECH configurations and the server's key set: \<^verbatim>\<open>crypto/tls/ech_config.go\<close>, \<^verbatim>\<open>ech_provider.go\<close>, \<^verbatim>\<open>hpke.go\<close>
  and the context handle of \<^verbatim>\<open>ech.go\<close>. Go's nil slices that the code tests (\<^verbatim>\<open>config.raw\<close>,
  \<^verbatim>\<open>handle.raw\<close>) are options. A configuration variable that the parsing loops reuse is rebuilt from
  scratch in every iteration here: every field that survives an iteration is written in it.
\<close>

section \<open>Definitions\<close>

definition echHpkeInfoSetup :: bytes where "echHpkeInfoSetup = ascii ''tls ech''"

definition hpkeAssembleSuite :: "u16 \<Rightarrow> u16 \<Rightarrow> u16 \<Rightarrow> Suite res" where
  "hpkeAssembleSuite kem kdf aead =
     (if \<not> KEM_IsValid kem then Err ''KEM is not supported''
      else if \<not> KDF_IsValid kdf then Err ''KDF is not supported''
      else if \<not> AEAD_IsValid aead then Err ''AEAD is not supported''
      else NewSuite kem kdf aead)"

definition defaultHPKESuite :: "Suite res" where
  "defaultHPKESuite = hpkeAssembleSuite KEM_X25519_HKDF_SHA256 KDF_HKDF_SHA256 AEAD_AES128GCM"

record hpkeSymmetricCipherSuite =
  kdfId :: u16
  aeadId :: u16

subsection \<open>Configurations\<close>

record ECHContents =
  configId :: u8
  kemId :: u16
  rawPublicKey :: bytes
  suites :: "hpkeSymmetricCipherSuite list"
  maxNameLen :: u8
  rawPublicName :: bytes
  ignoredExtensions :: bytes

record 'pk ECHConfig =
  ec_pk :: 'pk
  ec_raw :: "bytes option"
  ec_version :: u16
  ec_contents :: ECHContents

definition readSuite :: "bytes \<Rightarrow> (hpkeSymmetricCipherSuite \<times> bytes) option" where
  "readSuite t = do {
     (kdf, t) \<leftarrow> ReadUint16 t;
     (aead, t) \<leftarrow> ReadUint16 t;
     Some (\<lparr>kdfId = kdf, aeadId = aead\<rparr>, t)}"

text \<open>The Go function returns false where this returns \<open>Ok None\<close>.\<close>

definition readConfigContents :: "bytes \<Rightarrow> ECHContents option res" where
  "readConfigContents contents =
     (case do {
        (cid, s) \<leftarrow> ReadUint8 contents;
        (kem, s) \<leftarrow> ReadUint16 s;
        (t, s) \<leftarrow> ReadUint16LengthPrefixed s;
        (pk, _) \<leftarrow> ReadBytes (length t) t;
        (t, s) \<leftarrow> ReadUint16LengthPrefixed s;
        if length t mod 4 \<noteq> 0 then None else Some (cid, kem, pk, t, s)}
      of None \<Rightarrow> Ok None
       | Some (cid, kem, pk, t, s) \<Rightarrow>
           (case readMany readSuite t of
              None \<Rightarrow> Panic ''internal error while parsing contents.cipher_suites''
            | Some sts \<Rightarrow>
                Ok (do {
                  (maxName, s) \<leftarrow> ReadUint8 s;
                  (t, s) \<leftarrow> ReadUint8LengthPrefixed s;
                  (name, _) \<leftarrow> ReadBytes (length t) t;
                  (t, s) \<leftarrow> ReadUint16LengthPrefixed s;
                  (exts, _) \<leftarrow> ReadBytes (length t) t;
                  if Empty s then Some \<lparr>configId = cid, kemId = kem, rawPublicKey = pk, suites = sts,
                    maxNameLen = maxName, rawPublicName = name, ignoredExtensions = exts\<rparr>
                  else None})))"

text \<open>
  The loop over the configurations. \<open>t\<close> is what is still to be parsed, \<open>raw\<close> the same bytes from
  which the raw configurations are sliced. Every iteration consumes at least four bytes, so the input's
  length is fuel enough.
\<close>

fun configsLoop :: "nat \<Rightarrow> ('pk, 'sk) hpke_env \<Rightarrow> bytes \<Rightarrow> bytes \<Rightarrow> 'pk ECHConfig list res" where
  "configsLoop n E [] raw = Ok []"
| "configsLoop 0 E (b # bs) raw = Panic ''out of fuel''"
| "configsLoop (Suc n) E (b # bs) raw =
     (let t = b # bs in
      case do {
        (v, s) \<leftarrow> ReadUint16 t;
        (contents, s) \<leftarrow> ReadUint16LengthPrefixed s;
        Some (v, contents, s)}
      of None \<Rightarrow> Err ''error parsing config''
       | Some (v, contents, t') \<Rightarrow>
           let k = length t - length t' in
           bind_res (sliceTo k raw) (\<lambda>craw.
           bind_res (sliceFrom k raw) (\<lambda>raw'.
           if v \<noteq> extensionECH then configsLoop n E t' raw'
           else bind_res (readConfigContents contents) (\<lambda>oc.
             case oc of None \<Rightarrow> Err ''error parsing config contents''
             | Some c \<Rightarrow>
                 if \<not> KEM_IsValid (kemId c) then configsLoop n E t' raw'
                 else bind_res (KEM_Scheme E (kemId c)) (\<lambda>scheme.
                   case UnmarshalBinaryPublicKey scheme (rawPublicKey c) of
                     Panic p \<Rightarrow> Panic p
                   | Err e \<Rightarrow> Err (''error parsing public key: '' @ e)
                   | Ok pk \<Rightarrow> bind_res (configsLoop n E t' raw') (\<lambda>cs.
                       Ok (\<lparr>ec_pk = pk, ec_raw = Some craw, ec_version = v, ec_contents = c\<rparr> # cs)))))))"

definition UnmarshalECHConfigs :: "('pk, 'sk) hpke_env \<Rightarrow> bytes \<Rightarrow> 'pk ECHConfig list res" where
  "UnmarshalECHConfigs E raw =
     (case ReadUint16LengthPrefixed raw of
        None \<Rightarrow> Err ''error parsing configs''
      | Some (t, s) \<Rightarrow>
          if \<not> Empty s then Err ''error parsing configs''
          else bind_res (sliceFrom 2 raw) (\<lambda>raw'. configsLoop (length t) E t raw'))"

definition addConfig :: "'pk ECHConfig \<Rightarrow> Builder \<Rightarrow> build" where
  "addConfig c b = (case ec_raw c of None \<Rightarrow> Crash ''config.raw not set'' | Some r \<Rightarrow> AddBytes r b)"

definition echMarshalConfigs :: "'pk ECHConfig list \<Rightarrow> bytes res" where
  "echMarshalConfigs configs = runBytes (AddUint16LengthPrefixed (forEach addConfig configs))"

definition isPeerCipherSuiteSupported :: "'pk ECHConfig \<Rightarrow> hpkeSymmetricCipherSuite \<Rightarrow> bool" where
  "isPeerCipherSuiteSupported config suite = list_ex (\<lambda>s. suite = s) (suites (ec_contents config))"

fun selectLoop :: "u16 \<Rightarrow> hpkeSymmetricCipherSuite list \<Rightarrow> Suite res" where
  "selectLoop kem [] = Err ''could not negotiate a ciphersuite''"
| "selectLoop kem (s # ss) = (case hpkeAssembleSuite kem (kdfId s) (aeadId s) of
     Ok st \<Rightarrow> Ok st | Err e \<Rightarrow> selectLoop kem ss | Panic p \<Rightarrow> Panic p)"

definition selectSuite :: "'pk ECHConfig \<Rightarrow> Suite res" where
  "selectSuite config = selectLoop (kemId (ec_contents config)) (suites (ec_contents config))"

definition setupSealer ::
    "('pk, 'sk) hpke_env \<Rightarrow> (nat \<Rightarrow> bytes res) \<Rightarrow> 'pk ECHConfig \<Rightarrow> (bytes \<times> encdecContext) res" where
  "setupSealer E rnd config =
     (case ec_raw config of None \<Rightarrow> Panic ''config.raw not set''
      | Some r \<Rightarrow>
          bind_res (selectSuite config) (\<lambda>st.
          let info = echHpkeInfoSetup @ [0] @ r in
          snd (sender_Setup E rnd (NewSender st (ec_pk config) info))))"

subsection \<open>The context handle\<close>

record echContextHandle =
  h_raw :: "bytes option"
  h_suite :: hpkeSymmetricCipherSuite
  h_configId :: u8
  h_enc :: bytes

definition echReadContextHandle :: "bytes \<Rightarrow> (echContextHandle \<times> bytes) option" where
  "echReadContextHandle s = do {
     (kdf, s) \<leftarrow> ReadUint16 s;
     (aead, s) \<leftarrow> ReadUint16 s;
     (cid, s) \<leftarrow> ReadUint8 s;
     (t, s) \<leftarrow> ReadUint16LengthPrefixed s;
     (enc, _) \<leftarrow> ReadBytes (length t) t;
     Some (\<lparr>h_raw = None, h_suite = \<lparr>kdfId = kdf, aeadId = aead\<rparr>, h_configId = cid, h_enc = enc\<rparr>, s)}"

definition handle_marshal :: "echContextHandle \<Rightarrow> bytes res" where
  "handle_marshal h = (case h_raw h of Some r \<Rightarrow> Ok r
     | None \<Rightarrow> runBytesOrPanic (stmts
         [AddUint16 (kdfId (h_suite h)), AddUint16 (aeadId (h_suite h)), AddUint8 (h_configId h),
          AddUint16LengthPrefixed (AddBytes (h_enc h))]))"

subsection \<open>Keys and the key set\<close>

record ('pk, 'sk) EXP_ECHKey =
  key_sk :: 'sk
  key_config :: "'pk ECHConfig"

record ('pk, 'sk) EXP_ECHKeySet =
  ks_configs :: bytes
  ks_sk :: "u8 \<rightharpoonup> ('pk, 'sk) EXP_ECHKey"

fun keySetLoop ::
    "('pk, 'sk) EXP_ECHKey list \<Rightarrow> (u8 \<rightharpoonup> ('pk, 'sk) EXP_ECHKey) \<Rightarrow> bytes \<Rightarrow>
     ((u8 \<rightharpoonup> ('pk, 'sk) EXP_ECHKey) \<times> bytes) res" where
  "keySetLoop [] m configs = Ok (m, configs)"
| "keySetLoop (k # ks) m configs =
     (let cid = configId (ec_contents (key_config k)) in
      if m cid \<noteq> None then Err ''tls: ech provider: ECH config conflict for configId''
      else keySetLoop ks (m(cid \<mapsto> k)) (configs @ opt_bytes (ec_raw (key_config k))))"

definition EXP_NewECHKeySet :: "('pk, 'sk) EXP_ECHKey list \<Rightarrow> ('pk, 'sk) EXP_ECHKeySet res" where
  "EXP_NewECHKeySet keys =
     (if length keys > 255
      then Err ''tls: ech provider: unable to support more than 255 ECH configurations at once''
      else bind_res (keySetLoop keys Map.empty []) (\<lambda>(m, configs).
           bind_res (runBytesOrPanic (AddUint16LengthPrefixed (AddBytes configs))) (\<lambda>raw.
           Ok \<lparr>ks_configs = raw, ks_sk = m\<rparr>)))"

definition setupOpener ::
    "('pk, 'sk) hpke_env \<Rightarrow> ('pk, 'sk) EXP_ECHKey \<Rightarrow> bytes \<Rightarrow> hpkeSymmetricCipherSuite \<Rightarrow> encdecContext res" where
  "setupOpener E key enc suite =
     (case ec_raw (key_config key) of None \<Rightarrow> Panic ''raw config not set''
      | Some r \<Rightarrow>
          bind_res (hpkeAssembleSuite (kemId (ec_contents (key_config key))) (kdfId suite) (aeadId suite)) (\<lambda>st.
          let info = echHpkeInfoSetup @ [0] @ r in
          snd (receiver_Setup E (NewReceiver st (key_sk key) info) enc)))"

definition ECHProviderSuccess :: nat where "ECHProviderSuccess = 0"
definition ECHProviderReject :: nat where "ECHProviderReject = 1"
definition ECHProviderAbort :: nat where "ECHProviderAbort = 2"

lemmas ECHProviderStatus = ECHProviderSuccess_def ECHProviderReject_def ECHProviderAbort_def

record ECHProviderResult =
  pr_Status :: nat
  pr_Alert :: u8
  pr_Error :: string
  pr_RetryConfigs :: bytes
  pr_Context :: bytes

definition errHPKEInvalidPublicKey :: string where
  "errHPKEInvalidPublicKey = ''hpke: invalid KEM public key''"

definition pr_reject :: "bytes \<Rightarrow> ECHProviderResult" where
  "pr_reject retry = \<lparr>pr_Status = ECHProviderReject, pr_Alert = 0, pr_Error = [], pr_RetryConfigs = retry,
     pr_Context = []\<rparr>"

definition pr_abort :: "bytes \<Rightarrow> string \<Rightarrow> ECHProviderResult" where
  "pr_abort retry e = \<lparr>pr_Status = ECHProviderAbort, pr_Alert = alertInternalError, pr_Error = e,
     pr_RetryConfigs = retry, pr_Context = []\<rparr>"

definition GetDecryptionContext ::
    "('pk, 'sk) hpke_env \<Rightarrow> ('pk, 'sk) EXP_ECHKeySet \<Rightarrow> bytes \<Rightarrow> u16 \<Rightarrow> ECHProviderResult res" where
  "GetDecryptionContext E ks rawHandle version =
     (let retry = ks_configs ks in
      if version \<noteq> extensionECH then Ok (pr_abort retry ''version not supported'')
      else case echReadContextHandle rawHandle of
        None \<Rightarrow> Ok (pr_reject retry)
      | Some (h, s) \<Rightarrow>
          if \<not> Empty s then Ok (pr_reject retry)
          else case ks_sk ks (h_configId h) of
            None \<Rightarrow> Ok (pr_reject retry)
          | Some key \<Rightarrow>
              if \<not> isPeerCipherSuiteSupported (key_config key) (h_suite h) then Ok (pr_reject retry)
              else if version \<noteq> ec_version (key_config key) then Ok (pr_reject retry)
              else case setupOpener E key (h_enc h) (h_suite h) of
                Panic p \<Rightarrow> Panic p
              | Err e \<Rightarrow> if e = errHPKEInvalidPublicKey then Ok (pr_reject retry) else Ok (pr_abort retry e)
              | Ok opener \<Rightarrow>
                  (case opener_MarshalBinary opener of
                     Panic p \<Rightarrow> Panic p
                   | Err e \<Rightarrow> Ok (pr_abort retry e)
                   | Ok ctx \<Rightarrow> Ok \<lparr>pr_Status = ECHProviderSuccess, pr_Alert = 0, pr_Error = [],
                       pr_RetryConfigs = retry, pr_Context = ctx\<rparr>))"

text \<open>The loop over serialised keys; every iteration consumes at least four bytes.\<close>

fun keysLoop :: "nat \<Rightarrow> ('pk, 'sk) hpke_env \<Rightarrow> bytes \<Rightarrow> ('pk, 'sk) EXP_ECHKey list res" where
  "keysLoop n E [] = Ok []"
| "keysLoop 0 E (b # bs) = Panic ''out of fuel''"
| "keysLoop (Suc n) E (b # bs) =
     (case do {
        (sk, s) \<leftarrow> ReadUint16LengthPrefixed (b # bs);
        (config, s) \<leftarrow> ReadUint16LengthPrefixed s;
        Some (sk, config, s)}
      of None \<Rightarrow> Err ''error parsing key''
       | Some (sk, config, s') \<Rightarrow>
      (case do {
         (v, c) \<leftarrow> ReadUint16 config;
         (contents, c) \<leftarrow> ReadUint16LengthPrefixed c;
         if Empty c then Some (v, contents) else None}
       of None \<Rightarrow> Err ''error parsing config''
        | Some (v, contents) \<Rightarrow>
            if v \<noteq> extensionECH then keysLoop n E s'
            else bind_res (readConfigContents contents) (\<lambda>oc.
              case oc of None \<Rightarrow> Err ''error parsing config contents''
              | Some c \<Rightarrow>
                  if list_ex (\<lambda>s. \<not> KDF_IsValid (kdfId s) \<or> \<not> AEAD_IsValid (aeadId s)) (suites c)
                  then keysLoop n E s'
                  else if \<not> KEM_IsValid (kemId c) then keysLoop n E s'
                  else bind_res (KEM_Scheme E (kemId c)) (\<lambda>scheme.
                    case UnmarshalBinaryPublicKey scheme (rawPublicKey c) of
                      Panic p \<Rightarrow> Panic p
                    | Err e \<Rightarrow> Err (''error parsing public key: '' @ e)
                    | Ok pk \<Rightarrow>
                        (case UnmarshalBinaryPrivateKey scheme sk of
                           Panic p \<Rightarrow> Panic p
                         | Err e \<Rightarrow> Err (''error parsing secret key: '' @ e)
                         | Ok k \<Rightarrow> bind_res (keysLoop n E s') (\<lambda>ks.
                             Ok (\<lparr>key_sk = k, key_config = \<lparr>ec_pk = pk, ec_raw = Some config,
                               ec_version = v, ec_contents = c\<rparr>\<rparr> # ks)))))))"

definition EXP_UnmarshalECHKeys :: "('pk, 'sk) hpke_env \<Rightarrow> bytes \<Rightarrow> ('pk, 'sk) EXP_ECHKey list res" where
  "EXP_UnmarshalECHKeys E raw = keysLoop (length raw) E raw"

section \<open>The wire format of a configuration\<close>

definition enc_suite :: "hpkeSymmetricCipherSuite \<Rightarrow> bytes" where
  "enc_suite s = enc16 (kdfId s) @ enc16 (aeadId s)"

definition enc_contents :: "ECHContents \<Rightarrow> bytes" where
  "enc_contents c = enc8 (configId c) @ enc16 (kemId c) @ pref16 (rawPublicKey c) @
     pref16 (concat (map enc_suite (suites c))) @ enc8 (maxNameLen c) @ pref8 (rawPublicName c) @
     pref16 (ignoredExtensions c)"

definition contents_wf :: "ECHContents \<Rightarrow> bool" where
  "contents_wf c \<longleftrightarrow> length (rawPublicKey c) < 65536 \<and> 4 * length (suites c) < 65536 \<and>
     length (rawPublicName c) < 256 \<and> length (ignoredExtensions c) < 65536"

lemmas read_iffs = Option.bind_eq_Some_conv u8c.dec_Some_iff u16c.dec_Some_iff u32c.dec_Some_iff
  lp8.dec_Some_iff lp16.dec_Some_iff

interpretation suitec: exact_codec enc_suite readSuite "\<lambda>_. True"
  by unfold_locales (auto simp: readSuite_def enc_suite_def read_iffs u16c.dec_enc)

lemma length_enc_suite [simp]: "length (enc_suite s) = 4"
  by (simp add: enc_suite_def)

lemma length_enc_suites [simp]: "length (concat (map enc_suite ss)) = 4 * length ss"
  by (induction ss) auto

lemma enc16_surj: "\<exists>v. enc16 v = [a, b]"
  using enc16_or by blast

lemma enc_suites_surj: "length t = 4 * k \<Longrightarrow> \<exists>ss. t = concat (map enc_suite ss)"
proof (induction k arbitrary: t)
  case 0
  then show ?case by (intro exI [where x = "[]"]) simp
next
  case (Suc k)
  then have "4 \<le> length t" by simp
  then obtain a b c d r where t: "t = a # b # c # d # r"
    by (auto simp: numeral_eq_Suc Suc_le_length_iff)
  with Suc obtain ss where "r = concat (map enc_suite ss)"
    by fastforce
  moreover obtain s where "enc_suite s = [a, b, c, d]"
    using enc16_surj [of a b] enc16_surj [of c d]
    by (metis enc_suite_def append_Cons append_Nil hpkeSymmetricCipherSuite.select_convs)
  ultimately have "t = concat (map enc_suite (s # ss))"
    by (simp add: t)
  then show ?case by blast
qed

lemma readMany_suites: "length t mod 4 = 0 \<Longrightarrow> \<exists>ss. readMany readSuite t = Some ss"
  by (auto simp: suitec.readMany_Some_iff dest!: enc_suites_surj)

lemma ReadBytes_self [simp]: "ReadBytes (length t) t = Some (t, [])"
  by (rule ReadBytes_all)

lemma readConfigContents_not_Panic: "readConfigContents s \<noteq> Panic p"
  by (auto simp: readConfigContents_def Option.bind_eq_Some_conv split: option.splits if_splits
      dest!: readMany_suites)

lemma readConfigContents_enc: "contents_wf c \<Longrightarrow> readConfigContents (enc_contents c) = Ok (Some c)"
  by (simp add: readConfigContents_def enc_contents_def contents_wf_def u8c.dec_enc u16c.dec_enc
      lp16.dec_enc lp8.dec_enc lp16.dec_enc_all suitec.readMany_concat)

lemma readConfigContents_dec:
  "readConfigContents s = Ok (Some c) \<Longrightarrow> contents_wf c \<and> s = enc_contents c"
  by (auto simp: readConfigContents_def enc_contents_def contents_wf_def read_iffs
      suitec.readMany_Some_iff split: option.splits if_splits)


section \<open>Parsing and printing configurations\<close>

definition enc_config :: "u16 \<Rightarrow> bytes \<Rightarrow> bytes" where
  "enc_config v contents = enc16 v @ pref16 contents"

definition config_ok :: "('pk, 'sk) hpke_env \<Rightarrow> 'pk ECHConfig \<Rightarrow> bool" where
  "config_ok E c \<longleftrightarrow> ec_version c = extensionECH \<and> contents_wf (ec_contents c) \<and>
     length (enc_contents (ec_contents c)) < 65536 \<and>
     ec_raw c = Some (enc_config extensionECH (enc_contents (ec_contents c))) \<and>
     KEM_IsValid (kemId (ec_contents c)) \<and>
     UnmarshalBinaryPublicKey (env_kem E (kemId (ec_contents c))) (rawPublicKey (ec_contents c)) = Ok (ec_pk c)"

definition raws :: "'pk ECHConfig list \<Rightarrow> bytes" where
  "raws cs = concat (map (\<lambda>c. opt_bytes (ec_raw c)) cs)"

lemma raws_simps [simp]: "raws [] = []" "raws (c # cs) = opt_bytes (ec_raw c) @ raws cs"
  by (simp_all add: raws_def)

lemma read_config_iff:
  "do {(v, s) \<leftarrow> ReadUint16 t; (contents, s) \<leftarrow> ReadUint16LengthPrefixed s; Some (v, contents, s)} =
     Some (v, contents, t') \<longleftrightarrow> t = enc_config v contents @ t' \<and> length contents < 65536"
  by (auto simp: read_iffs enc_config_def)

lemma length_enc_config [simp]: "length (enc_config v contents) = 4 + length contents"
  by (simp add: enc_config_def)

lemma configsLoop_step:
  assumes "t = enc_config v contents @ t'" and "length contents < 65536"
  shows "configsLoop (Suc n) E t t =
    (if v \<noteq> extensionECH then configsLoop n E t' t'
     else bind_res (readConfigContents contents) (\<lambda>oc.
       case oc of None \<Rightarrow> Err ''error parsing config contents''
       | Some c \<Rightarrow>
           if \<not> KEM_IsValid (kemId c) then configsLoop n E t' t'
           else case UnmarshalBinaryPublicKey (env_kem E (kemId c)) (rawPublicKey c) of
               Panic p \<Rightarrow> Panic p
             | Err e \<Rightarrow> Err (''error parsing public key: '' @ e)
             | Ok pk \<Rightarrow> bind_res (configsLoop n E t' t') (\<lambda>cs.
                 Ok (\<lparr>ec_pk = pk, ec_raw = Some (enc_config v contents), ec_version = v,
                     ec_contents = c\<rparr> # cs))))"
proof -
  have "t \<noteq> []"
    by (simp add: assms(1) enc_config_def)
  then obtain b bs where t: "t = b # bs"
    by (cases t) auto
  have k: "length t - length t' = length (enc_config v contents)"
    by (simp add: assms(1))
  have s: "sliceTo (length t - length t') t = Ok (enc_config v contents)"
      "sliceFrom (length t - length t') t = Ok t'"
    unfolding k by (simp_all add: assms(1) del: length_enc_config)
  note r = read_config_iff [of t v contents t', THEN iffD2, OF conjI, OF assms]
  show ?thesis
    using r s unfolding t
    by (cases "readConfigContents contents")
      (simp_all add: Let_def KEM_Scheme_def split: option.split cong: if_cong)
qed

lemma configsLoop_sound:
  "configsLoop n E t t = Ok cs \<Longrightarrow> (\<forall>c \<in> set cs. config_ok E c) \<and> length (raws cs) \<le> length t"
proof (induction n arbitrary: t cs)
  case 0
  then show ?case by (cases t) auto
next
  case (Suc n)
  show ?case
  proof (cases "t = []")
    case True
    with Suc.prems show ?thesis by simp
  next
    case False
    then obtain b bs where t: "t = b # bs" by (cases t) auto
    from Suc.prems obtain v contents t' where "do {(v, s) \<leftarrow> ReadUint16 t;
        (contents, s) \<leftarrow> ReadUint16LengthPrefixed s; Some (v, contents, s)} = Some (v, contents, t')"
      unfolding t by (auto simp: Let_def split: option.splits)
    then have r: "t = enc_config v contents @ t'" "length contents < 65536"
      unfolding read_config_iff by simp_all
    have tl: "length t = 4 + length contents + length t'"
      by (simp add: r(1))
    note prem = Suc.prems [unfolded configsLoop_step [OF r, of n E]]
    show ?thesis
    proof (cases "configsLoop n E t' t' = Ok cs")
      case True
      with Suc.IH tl show ?thesis by fastforce
    next
      case False
      with prem have v: "v = extensionECH"
        by (auto split: if_splits)
      with prem obtain oc where oc: "readConfigContents contents = Ok oc"
        by (cases "readConfigContents contents") simp_all
      with prem v obtain c where c: "readConfigContents contents = Ok (Some c)"
        by (cases oc) simp_all
      with prem v False have kv: "KEM_IsValid (kemId c)"
        by (auto split: if_splits)
      with prem v c obtain pk where pk: "UnmarshalBinaryPublicKey (env_kem E (kemId c)) (rawPublicKey c) = Ok pk"
        by (cases "UnmarshalBinaryPublicKey (env_kem E (kemId c)) (rawPublicKey c)") auto
      with prem v c kv obtain ds where ds: "configsLoop n E t' t' = Ok ds"
        and cs: "cs = \<lparr>ec_pk = pk, ec_raw = Some (enc_config v contents), ec_version = v, ec_contents = c\<rparr> # ds"
        by (auto simp: bind_res_eq_Ok)
      show ?thesis
        using Suc.IH [OF ds] readConfigContents_dec [OF c] v kv pk cs tl r(2)
        by (simp add: config_ok_def opt_bytes_def)
    qed
  qed
qed

lemma configsLoop_complete:
  "\<forall>c \<in> set cs. config_ok E c \<Longrightarrow> length cs \<le> n \<Longrightarrow> configsLoop n E (raws cs) (raws cs) = Ok cs"
proof (induction cs arbitrary: n)
  case Nil
  then show ?case by simp
next
  case (Cons c cs)
  then obtain m where n: "n = Suc m" "length cs \<le> m" by (cases n) auto
  from Cons.prems have c: "config_ok E c" by simp
  let ?e = "enc_contents (ec_contents c)"
  have r: "raws (c # cs) = enc_config extensionECH ?e @ raws cs" "length ?e < 65536"
    using c by (simp_all add: config_ok_def opt_bytes_def)
  show ?case
    using Cons c n(2) unfolding n(1) configsLoop_step [OF r]
    by (simp add: config_ok_def readConfigContents_enc)
qed

lemma echMarshalConfigs_ok:
  assumes "\<forall>c \<in> set cs. config_ok E c" and "length (raws cs) < 65536"
  shows "echMarshalConfigs cs = Ok (pref16 (raws cs))"
proof -
  have "appends (addConfig c) (opt_bytes (ec_raw c))" if "c \<in> set cs" for c
    using assms(1) that appends_AddBytes
    by (auto simp: appends_def addConfig_def config_ok_def opt_bytes_def)
  then have "appends (AddUint16LengthPrefixed (forEach addConfig cs)) (pref16 (raws cs))"
    unfolding raws_def using assms(2) by (intro builder_intros) (simp_all add: raws_def)
  then show ?thesis
    unfolding echMarshalConfigs_def by (rule runBytes_appends)
qed


section \<open>The key set\<close>

definition key_id :: "('pk, 'sk) EXP_ECHKey \<Rightarrow> u8" where
  "key_id k = configId (ec_contents (key_config k))"

lemma keySetLoop_spec:
  "keySetLoop ks m cfg =
     (if distinct (map key_id ks) \<and> dom m \<inter> set (map key_id ks) = {}
      then Ok (m ++ map_of (map (\<lambda>k. (key_id k, k)) ks), cfg @ raws (map key_config ks))
      else Err ''tls: ech provider: ECH config conflict for configId'')"
proof (induction ks arbitrary: m cfg)
  case Nil
  then show ?case by simp
next
  case (Cons k ks)
  let ?f = "map_of (map (\<lambda>k. (key_id k, k)) ks)"
  show ?case
  proof (cases "m (key_id k) = None")
    case False
    then have "key_id k \<in> dom m" by blast
    with False show ?thesis
      by (auto simp: key_id_def Let_def)
  next
    case True
    then have step: "keySetLoop (k # ks) m cfg =
        keySetLoop ks (m(key_id k \<mapsto> k)) (cfg @ opt_bytes (ec_raw (key_config k)))"
      by (simp add: key_id_def Let_def)
    have c: "distinct (map key_id ks) \<and> dom (m(key_id k \<mapsto> k)) \<inter> set (map key_id ks) = {} \<longleftrightarrow>
        distinct (map key_id (k # ks)) \<and> dom m \<inter> set (map key_id (k # ks)) = {}"
      using True by auto
    have "m(key_id k \<mapsto> k) ++ ?f = m ++ map_of (map (\<lambda>k. (key_id k, k)) (k # ks))"
      if "distinct (map key_id (k # ks))"
    proof -
      have "key_id k \<notin> dom ?f"
        using that by (auto simp: dom_map_of_conv_image_fst)
      then show ?thesis
        by (simp add: map_add_upd_left)
    qed
    then have "keySetLoop ks (m(key_id k \<mapsto> k)) (cfg @ opt_bytes (ec_raw (key_config k))) =
      (if distinct (map key_id (k # ks)) \<and> dom m \<inter> set (map key_id (k # ks)) = {}
       then Ok (m ++ map_of (map (\<lambda>k. (key_id k, k)) (k # ks)), cfg @ raws (map key_config (k # ks)))
       else Err ''tls: ech provider: ECH config conflict for configId'')"
      unfolding Cons.IH c by (simp only: raws_simps list.map append_assoc cong: if_cong)
    then show ?thesis
      unfolding step .
  qed
qed

lemma runBytesOrPanic_pref16:
  "runBytesOrPanic (AddUint16LengthPrefixed (AddBytes bs)) =
     (if length bs < 65536 then Ok (pref16 bs)
      else Panic ''cryptobyte: pending child length exceeds length prefix'')"
  using addLengthPrefixed_spec [OF appends_AddBytes, of newBuilder 2 bs]
  by (simp add: AddUint16LengthPrefixed_def runBytesOrPanic_def newBuilder_def BytesOrPanic_def pref16_def)

lemma EXP_NewECHKeySet_spec:
  "EXP_NewECHKeySet keys =
     (if length keys > 255
      then Err ''tls: ech provider: unable to support more than 255 ECH configurations at once''
      else if \<not> distinct (map key_id keys) then Err ''tls: ech provider: ECH config conflict for configId''
      else if length (raws (map key_config keys)) < 65536
      then Ok \<lparr>ks_configs = pref16 (raws (map key_config keys)),
               ks_sk = map_of (map (\<lambda>k. (key_id k, k)) keys)\<rparr>
      else Panic ''cryptobyte: pending child length exceeds length prefix'')"
  by (simp add: EXP_NewECHKeySet_def keySetLoop_spec runBytesOrPanic_pref16)

lemma map_of_key_id:
  "distinct (map key_id keys) \<Longrightarrow> k \<in> set keys \<Longrightarrow> map_of (map (\<lambda>k. (key_id k, k)) keys) (key_id k) = Some k"
  by (rule map_of_is_SomeI) (auto simp: comp_def)

section \<open>The context handle\<close>

definition enc_handle :: "echContextHandle \<Rightarrow> bytes" where
  "enc_handle h = enc16 (kdfId (h_suite h)) @ enc16 (aeadId (h_suite h)) @ enc8 (h_configId h) @ pref16 (h_enc h)"

definition handle_wf :: "echContextHandle \<Rightarrow> bool" where
  "handle_wf h \<longleftrightarrow> h_raw h = None \<and> length (h_enc h) < 65536"

interpretation handlec: exact_codec enc_handle echReadContextHandle handle_wf
  by unfold_locales
    (auto simp: echReadContextHandle_def enc_handle_def handle_wf_def read_iffs u16c.dec_enc u8c.dec_enc
      lp16.dec_enc)

lemma handle_marshal_enc: "handle_wf h \<Longrightarrow> handle_marshal h = Ok (enc_handle h)"
  by (auto simp: handle_marshal_def handle_wf_def enc_handle_def intro!: runBytesOrPanic_appends builder_intros)

section \<open>Client and provider\<close>

lemma hpkeAssembleSuite_spec:
  "hpkeAssembleSuite kem kdf aead = Ok st \<longleftrightarrow>
     st = \<lparr>kemID = kem, kdfID = kdf, aeadID = aead\<rparr> \<and> suite_isValid st"
  by (auto simp: hpkeAssembleSuite_def NewSuite_def suite_isValid_def Let_def)

lemma selectLoop_Ok:
  "selectLoop kem ss = Ok st \<Longrightarrow>
     kemID st = kem \<and> \<lparr>kdfId = kdfID st, aeadId = aeadID st\<rparr> \<in> set ss \<and> suite_isValid st"
proof (induction ss)
  case Nil
  then show ?case by simp
next
  case (Cons s ss)
  show ?case
  proof (cases "hpkeAssembleSuite kem (kdfId s) (aeadId s)")
    case (Ok st')
    with Cons.prems show ?thesis
      by (auto simp: hpkeAssembleSuite_spec)
  next
    case (Err e)
    with Cons show ?thesis by simp
  next
    case (Panic p)
    with Cons.prems show ?thesis by simp
  qed
qed

lemma sender_Setup_enc:
  assumes "snd (sender_Setup E rnd (NewSender st pk info)) = Ok (enc, c)" and "suite_isValid st"
  shows "\<exists>seed ss. rnd (EncapsulationSeedSize (env_kem E (kemID st))) = Ok seed \<and>
    EncapsulateDeterministically (env_kem E (kemID st)) pk seed = Ok (enc, ss)"
  using assms
  by (auto simp: sender_Setup_def NewSender_def sender_allSetup_def KEM_Scheme_def bind_res_eq_Ok Let_def
      suite_isValid_def)

lemma setup_Ok_agree:
  assumes E: "env_ok E" and st: "suite_isValid st"
    and K: "kem_contract (env_kem E (kemID st)) m" and mat: "m pk sk seed"
    and rnd: "rnd (EncapsulationSeedSize (env_kem E (kemID st))) = Ok seed"
    and snd: "snd (sender_Setup E rnd (NewSender st pk info)) = Ok (enc, c)"
  shows "snd (receiver_Setup E (NewReceiver st sk info) enc) = Ok c \<and> ctx_ok E c \<and> c_suite c = st \<and>
    length enc = CiphertextSize (env_kem E (kemID st))"
proof -
  obtain ss where s: "EncapsulateDeterministically (env_kem E (kemID st)) pk seed = Ok (enc, ss)"
    using sender_Setup_enc [OF snd st] rnd by auto
  from setup_agree [where m = m and rnd = rnd and mode = modeBase and psk = None and pskID = None and
      info = info, OF E st K mat rnd s]
  show ?thesis
    using snd kem_contract.encap_sizes [OF K s]
    by (auto simp: sender_Setup_def receiver_Setup_def NewSender_def NewReceiver_def Let_def)
qed

lemma setupSealer_Ok:
  assumes "setupSealer E rnd config = Ok (enc, c)"
  obtains r st where "ec_raw config = Some r" "kemID st = kemId (ec_contents config)"
    "\<lparr>kdfId = kdfID st, aeadId = aeadID st\<rparr> \<in> set (suites (ec_contents config))" "suite_isValid st"
    "snd (sender_Setup E rnd (NewSender st (ec_pk config) (echHpkeInfoSetup @ [0] @ r))) = Ok (enc, c)"
  using assms
  by (auto simp: setupSealer_def selectSuite_def bind_res_eq_Ok Let_def split: option.splits
      dest!: selectLoop_Ok)

text \<open>The handle that the client puts in front of its payload (\<open>echUpdateClientHelloOuter\<close>).\<close>

definition client_handle :: "'pk ECHConfig \<Rightarrow> bytes \<Rightarrow> encdecContext \<Rightarrow> echContextHandle" where
  "client_handle config enc c = (case suite_Params (c_suite c) of (_, kdf, aead) \<Rightarrow>
     \<lparr>h_raw = None, h_suite = \<lparr>kdfId = kdf, aeadId = aead\<rparr>, h_configId = configId (ec_contents config), h_enc = enc\<rparr>)"

lemma provider_opens:
  assumes E: "env_ok E" and ks: "EXP_NewECHKeySet keys = Ok ks" and key: "key \<in> set keys"
    and v: "ec_version (key_config key) = extensionECH"
    and K: "kem_contract (env_kem E (kemId (ec_contents (key_config key)))) m"
    and mat: "m (ec_pk (key_config key)) (key_sk key) seed"
    and rnd: "rnd (EncapsulationSeedSize (env_kem E (kemId (ec_contents (key_config key))))) = Ok seed"
    and small: "CiphertextSize (env_kem E (kemId (ec_contents (key_config key)))) < 65536"
    and seal: "setupSealer E rnd (key_config key) = Ok (enc, c)"
  shows "\<exists>h res opener. handle_marshal (client_handle (key_config key) enc c) = Ok h \<and>
    GetDecryptionContext E ks h extensionECH = Ok res \<and> pr_Status res = ECHProviderSuccess \<and>
    UnmarshalOpener E (pr_Context res) = Ok opener \<and> paired c opener \<and> ctx_ok E c"
proof -
  let ?cfg = "key_config key"
  let ?h = "client_handle ?cfg enc c"
  obtain r st where r: "ec_raw ?cfg = Some r" and st: "kemID st = kemId (ec_contents ?cfg)"
    "\<lparr>kdfId = kdfID st, aeadId = aeadID st\<rparr> \<in> set (suites (ec_contents ?cfg))" "suite_isValid st"
    and s: "snd (sender_Setup E rnd (NewSender st (ec_pk ?cfg) (echHpkeInfoSetup @ [0] @ r))) = Ok (enc, c)"
    using setupSealer_Ok [OF seal] by metis
  have agree: "snd (receiver_Setup E (NewReceiver st (key_sk key) (echHpkeInfoSetup @ [0] @ r)) enc) = Ok c"
    "ctx_ok E c" "c_suite c = st" "length enc < 65536"
    using setup_Ok_agree [OF E st(3), unfolded st(1), OF K mat rnd s] small by simp_all
  have hh: "?h = \<lparr>h_raw = None, h_suite = \<lparr>kdfId = kdfID st, aeadId = aeadID st\<rparr>, h_configId = key_id key, h_enc = enc\<rparr>"
    by (simp add: client_handle_def suite_Params_def agree(3) key_id_def)
  have wf: "handle_wf ?h"
    by (simp add: handle_wf_def hh agree(4))
  have look: "ks_sk ks (key_id key) = Some key"
    using ks map_of_key_id [OF _ key] by (auto simp: EXP_NewECHKeySet_spec split: if_splits)
  have sup: "isPeerCipherSuiteSupported ?cfg (h_suite ?h)"
    using st(2) by (auto simp: isPeerCipherSuiteSupported_def list_ex_iff hh)
  have "hpkeAssembleSuite (kemId (ec_contents ?cfg)) (kdfID st) (aeadID st) = Ok st"
    unfolding hpkeAssembleSuite_spec using st by (simp flip: st(1))
  then have opn: "setupOpener E key enc (h_suite ?h) = Ok c"
    using r agree(1) by (simp add: setupOpener_def hh Let_def)
  have "GetDecryptionContext E ks (enc_handle ?h) extensionECH =
      Ok \<lparr>pr_Status = ECHProviderSuccess, pr_Alert = 0, pr_Error = [], pr_RetryConfigs = ks_configs ks,
          pr_Context = 1 # ctx_bytes c\<rparr>"
    using look sup opn v ctx_marshal_bytes [OF agree(2)] handlec.dec_enc_all [OF wf]
    by (simp add: GetDecryptionContext_def Let_def) (simp add: hh opener_MarshalBinary_def)
  then show ?thesis
    using handle_marshal_enc [OF wf] unmarshalContext_bytes [OF agree(2)] paired_forget [OF agree(2)] agree(2)
    by (simp add: UnmarshalOpener_def)
qed


lemma UnmarshalECHConfigs_complete:
  assumes "\<forall>c \<in> set cs. config_ok E c" and "length (raws cs) < 65536"
  shows "UnmarshalECHConfigs E (pref16 (raws cs)) = Ok cs"
proof -
  have "length cs \<le> length (raws cs)"
    using assms(1)
  proof (induction cs)
    case (Cons c cs)
    then have "length (opt_bytes (ec_raw c)) \<ge> 4"
      by (simp add: config_ok_def opt_bytes_def)
    with Cons show ?case by simp
  qed simp
  note c = configsLoop_complete [OF assms(1) this]
  have "sliceFrom 2 (pref16 (raws cs)) = Ok (raws cs)"
    by (simp add: sliceFrom_def pref16_def)
  with c assms(2) show ?thesis
    by (simp add: UnmarshalECHConfigs_def lp16.dec_enc_all)
qed

lemma UnmarshalECHConfigs_sound:
  assumes "UnmarshalECHConfigs E raw = Ok cs"
  shows "(\<forall>c \<in> set cs. config_ok E c) \<and> length (raws cs) < 65536"
proof -
  obtain t where t: "raw = pref16 t" "length t < 65536"
    using assms by (auto simp: UnmarshalECHConfigs_def lp16.dec_Some_iff split: option.splits if_splits)
  moreover have "sliceFrom 2 (pref16 t) = Ok t"
    by (simp add: sliceFrom_def pref16_def)
  ultimately have "configsLoop (length t) E t t = Ok cs"
    using assms by (simp add: UnmarshalECHConfigs_def lp16.dec_enc_all)
  from configsLoop_sound [OF this] t(2) show ?thesis
    by simp
qed

subsection \<open>Serialised keys\<close>

definition enc_key :: "bytes \<times> ('pk, 'sk) EXP_ECHKey \<Rightarrow> bytes" where
  "enc_key p = pref16 (fst p) @ pref16 (opt_bytes (ec_raw (key_config (snd p))))"

definition key_ok :: "('pk, 'sk) hpke_env \<Rightarrow> bytes \<times> ('pk, 'sk) EXP_ECHKey \<Rightarrow> bool" where
  "key_ok E p \<longleftrightarrow> config_ok E (key_config (snd p)) \<and>
     length (fst p) < 65536 \<and> length (opt_bytes (ec_raw (key_config (snd p)))) < 65536 \<and>
     list_all (\<lambda>s. KDF_IsValid (kdfId s) \<and> AEAD_IsValid (aeadId s)) (suites (ec_contents (key_config (snd p)))) \<and>
     UnmarshalBinaryPrivateKey (env_kem E (kemId (ec_contents (key_config (snd p))))) (fst p) = Ok (key_sk (snd p))"

lemma keysLoop_complete:
  "\<forall>p \<in> set ps. key_ok E p \<Longrightarrow> length ps \<le> n \<Longrightarrow> keysLoop n E (concat (map enc_key ps)) = Ok (map snd ps)"
proof (induction ps arbitrary: n)
  case Nil
  then show ?case by simp
next
  case (Cons p ps)
  then obtain m where n: "n = Suc m" "length ps \<le> m" by (cases n) auto
  let ?k = "snd p" and ?rest = "concat (map enc_key ps)"
  let ?c = "ec_contents (key_config ?k)"
  from Cons.prems have ok: "key_ok E p" by simp
  then have raw: "ec_raw (key_config ?k) = Some (enc16 extensionECH @ pref16 (enc_contents ?c))"
      "length (enc_contents ?c) < 65536"
    by (simp_all add: key_ok_def config_ok_def enc_config_def)
  have len: "length (fst p) < 65536" "length (opt_bytes (ec_raw (key_config ?k))) < 65536"
    using ok by (simp_all add: key_ok_def)
  have r: "do {(sk, s) \<leftarrow> ReadUint16LengthPrefixed (enc_key p @ ?rest);
        (config, s) \<leftarrow> ReadUint16LengthPrefixed s; Some (sk, config, s)} =
      Some (fst p, opt_bytes (ec_raw (key_config ?k)), ?rest)"
    using len by (simp add: enc_key_def lp16.dec_enc)
  have c: "do {(v, c) \<leftarrow> ReadUint16 (opt_bytes (ec_raw (key_config ?k))); (contents, c) \<leftarrow> ReadUint16LengthPrefixed c;
        if Empty c then Some (v, contents) else None} = Some (extensionECH, enc_contents ?c)"
    using raw by (simp add: opt_bytes_def u16c.dec_enc lp16.dec_enc_all)
  have "enc_key p @ ?rest \<noteq> []"
    by (simp add: enc_key_def)
  then obtain b bs where bs: "enc_key p @ ?rest = b # bs"
    by (cases "enc_key p @ ?rest") auto
  have suites: "\<not> list_ex (\<lambda>s. \<not> KDF_IsValid (kdfId s) \<or> \<not> AEAD_IsValid (aeadId s)) (suites ?c)"
    using ok by (auto simp: key_ok_def list_ex_iff list_all_iff)
  have "readConfigContents (enc_contents ?c) = Ok (Some ?c)"
    using ok by (simp add: key_ok_def config_ok_def readConfigContents_enc)
  moreover have "keysLoop m E ?rest = Ok (map snd ps)"
    using Cons n by simp
  moreover have "\<lparr>key_sk = key_sk ?k, key_config = \<lparr>ec_pk = ec_pk (key_config ?k),
      ec_raw = Some (opt_bytes (ec_raw (key_config ?k))), ec_version = extensionECH, ec_contents = ?c\<rparr>\<rparr> = ?k"
    using ok by (simp add: key_ok_def config_ok_def opt_bytes_def split: option.splits)
  ultimately have "keysLoop (Suc m) E (b # bs) = Ok (?k # map snd ps)"
    using ok r c suites by (simp add: bs key_ok_def config_ok_def KEM_Scheme_def)
  then show ?case
    by (simp add: n(1) bs)
qed

lemma length_enc_keys: "length ps \<le> length (concat (map enc_key ps))"
  by (induction ps) (auto simp: enc_key_def)


section \<open>Properties\<close>

text \<open>
  The parser of the configuration contents accepts exactly the encodings of well-formed contents,
  each with its contents, and its internal panic is unreachable.
\<close>

theorem ech_contents_exact:
  "(readConfigContents s = Ok (Some c) \<longleftrightarrow> contents_wf c \<and> s = enc_contents c) \<and> readConfigContents s \<noteq> Panic p"
  using readConfigContents_enc readConfigContents_dec readConfigContents_not_Panic by blast

text \<open>
  C30: whatever configuration list the parser accepts, printing the accepted configurations and parsing
  them again gives the same configurations.
\<close>

theorem ech_configs_roundtrip:
  assumes "UnmarshalECHConfigs E raw = Ok cs"
  shows "\<exists>raw'. echMarshalConfigs cs = Ok raw' \<and> UnmarshalECHConfigs E raw' = Ok cs"
  using UnmarshalECHConfigs_sound [OF assms] UnmarshalECHConfigs_complete echMarshalConfigs_ok by blast

definition toy_contents :: ECHContents where
  "toy_contents = \<lparr>configId = 1, kemId = KEM_X25519_HKDF_SHA256, rawPublicKey = replicate 32 7,
     suites = [\<lparr>kdfId = 0xabcd, aeadId = 9\<rparr>, \<lparr>kdfId = KDF_HKDF_SHA256, aeadId = AEAD_AES128GCM\<rparr>],
     maxNameLen = 20, rawPublicName = ascii ''a.example'', ignoredExtensions = []\<rparr>"

definition toy_config :: "bytes ECHConfig" where
  "toy_config = \<lparr>ec_pk = replicate 32 7, ec_raw = Some (enc_config extensionECH (enc_contents toy_contents)),
     ec_version = extensionECH, ec_contents = toy_contents\<rparr>"

definition toy_key :: "(bytes, bytes) EXP_ECHKey" where
  "toy_key = \<lparr>key_sk = replicate 32 7, key_config = toy_config\<rparr>"

lemma toy_config_ok: "config_ok toy_env toy_config"
  by (simp add: config_ok_def toy_config_def toy_contents_def contents_wf_def enc_contents_def ascii_def
      KEM_IsValid_def toy_env_def xKEM_def)

lemma length_toy_raw: "length (raws [toy_config]) = 64"
  by (simp add: toy_config_def opt_bytes_def toy_contents_def enc_contents_def ascii_def)

theorem ech_configs_roundtrip_witness:
  "UnmarshalECHConfigs toy_env (pref16 (raws [toy_config])) = Ok [toy_config] \<and>
   (\<exists>raw'. echMarshalConfigs [toy_config] = Ok raw' \<and> UnmarshalECHConfigs toy_env raw' = Ok [toy_config])"
proof -
  have u: "UnmarshalECHConfigs toy_env (pref16 (raws [toy_config])) = Ok [toy_config]"
    by (rule UnmarshalECHConfigs_complete) (simp_all add: toy_config_ok length_toy_raw del: raws_simps)
  then show ?thesis
    using ech_configs_roundtrip by blast
qed

text \<open>
  What the constructor of a key set does on every input: more than 255 keys and duplicate
  configuration identifiers are refused; configurations that do not fit a 16-bit length make it panic;
  otherwise the key set maps every identifier to its key and holds the printed configurations.
\<close>

theorem ech_keyset_spec:
  "EXP_NewECHKeySet keys =
     (if length keys > 255
      then Err ''tls: ech provider: unable to support more than 255 ECH configurations at once''
      else if \<not> distinct (map key_id keys) then Err ''tls: ech provider: ECH config conflict for configId''
      else if length (raws (map key_config keys)) < 65536
      then Ok \<lparr>ks_configs = pref16 (raws (map key_config keys)),
               ks_sk = map_of (map (\<lambda>k. (key_id k, k)) keys)\<rparr>
      else Panic ''cryptobyte: pending child length exceeds length prefix'')"
  by (rule EXP_NewECHKeySet_spec)

text \<open>
  C27: client and provider agree. When a client sets up its sealer for a configuration of the key set and
  sends the handle that \<open>echUpdateClientHelloOuter\<close> builds, the provider reports success and a context
  that is restored to an opener paired with the client's sealer: it opens what the client seals.
\<close>

theorem ech_provider_opens:
  assumes "env_ok E" and "EXP_NewECHKeySet keys = Ok ks" and "key \<in> set keys"
    and "ec_version (key_config key) = extensionECH"
    and "kem_contract (env_kem E (kemId (ec_contents (key_config key)))) m"
    and "m (ec_pk (key_config key)) (key_sk key) seed"
    and "rnd (EncapsulationSeedSize (env_kem E (kemId (ec_contents (key_config key))))) = Ok seed"
    and "CiphertextSize (env_kem E (kemId (ec_contents (key_config key)))) < 65536"
    and "setupSealer E rnd (key_config key) = Ok (enc, c)"
  shows "\<exists>h res opener. handle_marshal (client_handle (key_config key) enc c) = Ok h \<and>
    GetDecryptionContext E ks h extensionECH = Ok res \<and> pr_Status res = ECHProviderSuccess \<and>
    UnmarshalOpener E (pr_Context res) = Ok opener \<and>
    (\<forall>ms c' cts. seal_many c ms = (c', Ok cts) \<longrightarrow>
       snd (open_many opener (zip cts (map snd ms))) = Ok (map fst ms))"
proof -
  from provider_opens [where m = m and rnd = rnd, OF assms] obtain h res opener where
    o: "handle_marshal (client_handle (key_config key) enc c) = Ok h"
      "GetDecryptionContext E ks h extensionECH = Ok res" "pr_Status res = ECHProviderSuccess"
      "UnmarshalOpener E (pr_Context res) = Ok opener" "paired c opener" "ctx_ok E c"
    by blast
  have "snd (open_many opener (zip cts (map snd ms))) = Ok (map fst ms)"
    if "seal_many c ms = (c', Ok cts)" for ms c' cts
    using open_many_sealed [OF that o(5)] o(6) by (auto simp: ctx_ok_def)
  with o(1-4) show ?thesis by blast
qed

lemma toy_keyset: "\<exists>ks. EXP_NewECHKeySet [toy_key] = Ok ks"
  using length_toy_raw by (simp add: EXP_NewECHKeySet_spec toy_key_def del: raws_simps)

lemma toy_selectSuite: "selectSuite toy_config = Ok toy_suite"
  by (simp add: selectSuite_def toy_config_def toy_contents_def hpkeAssembleSuite_def KEM_IsValid_def
      KDF_IsValid_def KDF_ids AEAD_IsValid_def NewSuite_def suite_isValid_def toy_suite_def)

text \<open>The concrete KEM of the examples, and a client's set-up with it.\<close>

abbreviation toy_m :: "bytes \<Rightarrow> bytes \<Rightarrow> bytes \<Rightarrow> bool" where
  "toy_m \<equiv> x_matches toy_mac toy_xdh \<lparr>kb_id = 0x20, kb_hash = SHA256\<rparr> 32"

lemma toy_kem:
  "kem_contract (env_kem toy_env i) toy_m" "toy_m (replicate 32 7) (replicate 32 7) (replicate 32 5)"
  "EncapsulationSeedSize (env_kem toy_env i) = 32" "CiphertextSize (env_kem toy_env i) = 32"
proof -
  show "kem_contract (env_kem toy_env i) toy_m"
    by (simp add: toy_env_def xkem.kem_contract_axioms)
  show "toy_m (replicate 32 7) (replicate 32 7) (replicate 32 5)"
    by (rule toy_matches) simp
qed (simp_all add: toy_env_def xKEM_def)

lemma toy_setupSealer: "\<exists>enc c. setupSealer toy_env (\<lambda>n. Ok (replicate n 5)) toy_config = Ok (enc, c) \<and> length enc = 32"
proof -
  have mac: "mac_sized toy_mac"
    using toy_env_ok by (simp add: env_ok_def toy_env_def)
  obtain enc ss where e: "EncapsulateDeterministically (env_kem toy_env (kemID toy_suite)) (replicate 32 7) (replicate 32 5) = Ok (enc, ss)"
    using x_encap_total [OF mac, of 32 "replicate 32 5" toy_xdh "\<lparr>kb_id = 0x20, kb_hash = SHA256\<rparr>" "replicate 32 7"]
    by (auto simp: toy_xdh_def toy_env_def)
  let ?rnd = "\<lambda>n. Ok (replicate n (5 :: u8))"
  have r: "?rnd (EncapsulationSeedSize (env_kem toy_env (kemID toy_suite))) = Ok (replicate 32 5)"
    by (simp add: toy_kem)
  show ?thesis
    using setup_agree [where rnd = ?rnd and mode = modeBase and psk = None and pskID = None and
      info = "echHpkeInfoSetup @ [0] @ enc_config extensionECH (enc_contents toy_contents)", OF toy_env_ok toy_suite_valid toy_kem(1,2) r e]
      kem_contract.encap_sizes [OF toy_kem(1) e]
    by (auto simp: setupSealer_def toy_selectSuite [unfolded toy_config_def] toy_config_def sender_Setup_def NewSender_def Let_def toy_kem)
qed

theorem ech_provider_opens_witness:
  "\<exists>ks enc c h res opener. EXP_NewECHKeySet [toy_key] = Ok ks \<and>
    setupSealer toy_env (\<lambda>n. Ok (replicate n 5)) toy_config = Ok (enc, c) \<and>
    handle_marshal (client_handle toy_config enc c) = Ok h \<and>
    GetDecryptionContext toy_env ks h extensionECH = Ok res \<and> pr_Status res = ECHProviderSuccess \<and>
    UnmarshalOpener toy_env (pr_Context res) = Ok opener"
proof -
  obtain enc c where s: "setupSealer toy_env (\<lambda>n. Ok (replicate n 5)) toy_config = Ok (enc, c)"
    using toy_setupSealer by blast
  obtain ks where ks: "EXP_NewECHKeySet [toy_key] = Ok ks"
    using toy_keyset by blast
  have f: "key_config toy_key = toy_config" "ec_pk toy_config = replicate 32 7" "key_sk toy_key = replicate 32 7"
      "ec_version toy_config = extensionECH"
    by (simp_all add: toy_key_def toy_config_def)
  show ?thesis
    using ech_provider_opens [where key = toy_key and rnd = "\<lambda>n. Ok (replicate n 5)" and m = toy_m and seed = "replicate 32 5" and enc = enc and c = c,
        OF toy_env_ok ks] ks s
    by (fastforce simp: f toy_kem)
qed


lemma provider_retry_configs:
  assumes "EXP_NewECHKeySet keys = Ok ks" and "GetDecryptionContext E ks raw version = Ok res"
    and "\<forall>k \<in> set keys. config_ok E (key_config k)"
  shows "UnmarshalECHConfigs E (pr_RetryConfigs res) = Ok (map key_config keys)"
proof -
  have "pr_RetryConfigs res = ks_configs ks"
    using assms(2)
    by (auto simp: GetDecryptionContext_def pr_reject_def pr_abort_def Let_def
        split: if_splits option.splits res.splits)
  moreover have "ks_configs ks = pref16 (raws (map key_config keys))" "length (raws (map key_config keys)) < 65536"
    using assms(1) by (auto simp: EXP_NewECHKeySet_spec split: if_splits)
  ultimately show ?thesis
    using assms(3) by (simp add: UnmarshalECHConfigs_complete)
qed

text \<open>
  The provider hands out the key set's configurations whatever its decision, and a client parses
  them to the configurations of the keys, in the server's order of preference.
\<close>

theorem ech_retry_configs:
  assumes "EXP_NewECHKeySet keys = Ok ks" and "GetDecryptionContext E ks raw version = Ok res"
    and "\<forall>k \<in> set keys. config_ok E (key_config k)"
  shows "UnmarshalECHConfigs E (pr_RetryConfigs res) = Ok (map key_config keys)"
  by (rule provider_retry_configs [OF assms])

text \<open>The parser of a serialised key file returns the keys it was printed from, in order.\<close>

theorem ech_keys_roundtrip:
  assumes "\<forall>p \<in> set ps. key_ok E p"
  shows "EXP_UnmarshalECHKeys E (concat (map enc_key ps)) = Ok (map snd ps)"
  unfolding EXP_UnmarshalECHKeys_def by (rule keysLoop_complete [OF assms length_enc_keys])

end
