(* ===== verification/ECH_Hello.thy ===== *)
theory ECH_Hello
  imports ECH_Config
begin

text \<open>
  The message transformations of Encrypted ClientHello, \<^verbatim>\<open>crypto/tls/ech.go\<close>: the outer ECH extension, the encoding of the
  inner hello with its outer extensions compressed and its padding, the decoding on the server, the additional
  data of the encryption, and the HelloRetryRequest of the acceptance signal. The hooks that the repository's tests
  set to provoke malformed messages are off, except that the list of outer extensions is a parameter. A result
  \<open>Ok None\<close> is Go's nil. A loop over extensions carries the length of its input as fuel, and every
  iteration consumes at least four bytes.

  The lemmas describe the loops on lists of extensions: \<open>appends\<close> for what they write on well-formed input,
  \<open>writes\<close> for what they must have read when they succeed.
\<close>

section \<open>The extension in the outer hello\<close>

definition echClientHelloOuterVariant :: u8 where "echClientHelloOuterVariant = 0"
definition echClientHelloInnerVariant :: u8 where "echClientHelloInnerVariant = 1"

record echClientOuter =
  eo_raw :: "bytes option"
  eo_handle :: echContextHandle
  eo_payload :: bytes

definition echUnmarshalClientOuter :: "bytes \<Rightarrow> echClientOuter res" where
  "echUnmarshalClientOuter raw =
     (case ReadUint8 raw of None \<Rightarrow> Err ''error parsing ClientECH.type''
      | Some (variant, s) \<Rightarrow>
          if variant \<noteq> echClientHelloOuterVariant then Err ''unexpected ClientECH.type (want outer (0))''
          else case echReadContextHandle s of None \<Rightarrow> Err ''error parsing context handle''
          | Some (handle, s) \<Rightarrow>
              let endOfContextHandle = length raw - length s;
                  handle = handle\<lparr>h_raw := Some (drop 1 (take endOfContextHandle raw))\<rparr>
              in case do {
                   (t, s) \<leftarrow> ReadUint16LengthPrefixed s;
                   (payload, t) \<leftarrow> ReadBytes (length t) t;
                   if Empty s then Some payload else None}
                 of None \<Rightarrow> Err ''error parsing payload''
                  | Some payload \<Rightarrow> Ok \<lparr>eo_raw = Some raw, eo_handle = handle, eo_payload = payload\<rparr>)"

definition eo_marshal :: "echClientOuter \<Rightarrow> bytes res" where
  "eo_marshal ech = (case eo_raw ech of Some r \<Rightarrow> Ok r
     | None \<Rightarrow> bind_res (handle_marshal (eo_handle ech)) (\<lambda>h.
         runBytesOrPanic (stmts [AddUint8 echClientHelloOuterVariant, AddBytes h, AddUint16LengthPrefixed (AddBytes (eo_payload ech))])))"

section \<open>Parsing a hello\<close>

definition errIllegalParameter :: string where "errIllegalParameter = ''illegal parameter''"

text \<open>How the encoders end: nil for malformed input, a panic for any other error of the builder.\<close>

definition nilOnIllegal :: "bytes res \<Rightarrow> bytes option res" where
  "nilOnIllegal r = (case r of Ok x \<Rightarrow> Ok (Some x)
     | Err e \<Rightarrow> if e = errIllegalParameter then Ok None else Panic e
     | Panic p \<Rightarrow> Panic p)"

definition readHelloFields :: "bytes \<Rightarrow> ((u16 \<times> bytes \<times> bytes \<times> bytes \<times> bytes) \<times> bytes) option" where
  "readHelloFields s = do {
     (legacyVersion, s) \<leftarrow> ReadUint16 s;
     (random, s) \<leftarrow> ReadBytes 32 s;
     (legacySessionId, s) \<leftarrow> ReadUint8LengthPrefixed s;
     (cipherSuites, s) \<leftarrow> ReadUint16LengthPrefixed s;
     (legacyCompressionMethods, s) \<leftarrow> ReadUint8LengthPrefixed s;
     Some ((legacyVersion, random, legacySessionId, cipherSuites, legacyCompressionMethods), s)}"

definition readHello :: "bytes \<Rightarrow> ((u16 \<times> bytes \<times> bytes \<times> bytes \<times> bytes) \<times> bytes) option" where
  "readHello data = do {
     (msgType, u) \<leftarrow> ReadUint8 data;
     (s, u) \<leftarrow> ReadUint24LengthPrefixed u;
     if \<not> Empty u then None else do {
     (fields, s) \<leftarrow> readHelloFields s;
     if Empty s then None else do {
     (extensions, s) \<leftarrow> ReadUint16LengthPrefixed s;
     if \<not> Empty s then None else Some (fields, extensions)}}}"

definition addRawExt :: "u16 \<Rightarrow> bytes \<Rightarrow> Builder \<Rightarrow> build" where
  "addRawExt ext extData = stmts [AddUint16 ext, AddUint16LengthPrefixed (AddBytes extData)]"

section \<open>EncodedClientHelloInner\<close>

definition echOuterExtensions :: "bool \<Rightarrow> bool \<Rightarrow> u16 list" where
  "echOuterExtensions testingMany testingNone =
     (if testingMany then [extensionStatusRequest, extensionSupportedCurves, extensionSupportedPoints]
      else if testingNone then [] else [extensionKeyShare])"

definition echAddOuterExtensions :: "u16 list \<Rightarrow> Builder \<Rightarrow> build" where
  "echAddOuterExtensions outerExtensions = stmts [AddUint16 extensionECHOuterExtensions,
     AddUint16LengthPrefixed (AddUint8LengthPrefixed (forEach AddUint16 outerExtensions))]"

text \<open>Skipping the extensions that follow the first outer one: \<open>Ok None\<close> is a parse error.\<close>

fun consumeOuter :: "u16 list \<Rightarrow> bytes \<Rightarrow> bytes option res" where
  "consumeOuter [] s = Ok (Some s)"
| "consumeOuter (outerExt # os) s =
     (case readExt s of None \<Rightarrow> Ok None
      | Some ((ext, extData), s) \<Rightarrow>
          if ext \<noteq> outerExt then Panic ''internal error: malformed ClientHelloInner'' else consumeOuter os s)"

fun innerExtLoop :: "nat \<Rightarrow> u16 list \<Rightarrow> bytes \<Rightarrow> Builder \<Rightarrow> build" where
  "innerExtLoop n outer [] b = Done b"
| "innerExtLoop 0 outer (x # xs) b = Crash ''out of fuel''"
| "innerExtLoop (Suc n) outer (x # xs) b =
     (case readExt (x # xs) of None \<Rightarrow> panicBuildError errIllegalParameter b
      | Some ((ext, extData), s) \<Rightarrow>
          if length outer > 0 \<and> ext = outer ! 0 then
            andThen (echAddOuterExtensions outer b) (\<lambda>b.
              case consumeOuter (drop 1 outer) s of
                Panic p \<Rightarrow> Crash p
              | Err e \<Rightarrow> panicBuildError e b
              | Ok None \<Rightarrow> panicBuildError errIllegalParameter b
              | Ok (Some s) \<Rightarrow> innerExtLoop n outer s b)
          else andThen (addRawExt ext extData b) (innerExtLoop n outer s))"

definition echPaddingLen :: "nat \<Rightarrow> nat \<Rightarrow> nat \<Rightarrow> nat" where
  "echPaddingLen encodedLen serverNameLen maxLen =
     (let paddingLen = (if serverNameLen > 0 then maxLen - serverNameLen else 9 + maxLen)
      in 31 - (encodedLen + paddingLen - 1) mod 32)"

definition echEncodeClientHelloInner :: "u16 list \<Rightarrow> bytes \<Rightarrow> nat \<Rightarrow> nat \<Rightarrow> bytes option res" where
  "echEncodeClientHelloInner outerExtensions innerData serverNameLen maxLen =
     (case readHello innerData of None \<Rightarrow> Ok None
      | Some ((legacyVersion, random, legacySessionId, cipherSuites, legacyCompressionMethods), extensions) \<Rightarrow>
          bind_res (nilOnIllegal (runBytes (stmts
            [AddUint16 legacyVersion, AddBytes random, AddUint8 0,
             AddUint16LengthPrefixed (AddBytes cipherSuites),
             AddUint8LengthPrefixed (AddBytes legacyCompressionMethods),
             AddUint16LengthPrefixed (innerExtLoop (length extensions) outerExtensions extensions)]))) (\<lambda>r.
          case r of None \<Rightarrow> Ok None
          | Some encodedData \<Rightarrow>
              Ok (Some (encodedData @ replicate (echPaddingLen (length encodedData) serverNameLen maxLen) 0))))"

section \<open>ClientHelloInner\<close>

definition splitClientHelloExtensions :: "bytes \<Rightarrow> (bytes \<times> bytes) option" where
  "splitClientHelloExtensions data = do {
     s \<leftarrow> Skip 4 data;
     (_, s) \<leftarrow> ReadUint16 s;
     s \<leftarrow> Skip 32 s;
     (_, s) \<leftarrow> ReadUint8LengthPrefixed s;
     (_, s) \<leftarrow> ReadUint16LengthPrefixed s;
     (_, s) \<leftarrow> ReadUint8LengthPrefixed s;
     Some (take (length data - length s) data, s)}"

fun processLoop :: "nat \<Rightarrow> (u16 \<Rightarrow> bytes \<Rightarrow> 'a \<Rightarrow> 'a \<times> bool) \<Rightarrow> bytes \<Rightarrow> 'a \<Rightarrow> 'a \<times> bool" where
  "processLoop n proc [] a = (a, True)"
| "processLoop 0 proc (x # xs) a = (a, False)"
| "processLoop (Suc n) proc (x # xs) a =
     (case readExt (x # xs) of None \<Rightarrow> (a, False)
      | Some ((ext, extData), s) \<Rightarrow>
          (case proc ext extData a of (a, ok) \<Rightarrow> if \<not> ok then (a, False) else processLoop n proc s a))"

text \<open>The function \<open>proc\<close> is a closure over variables of the caller: the state \<open>'a\<close>.\<close>

definition processClientHelloExtensions :: "bytes \<Rightarrow> (u16 \<Rightarrow> bytes \<Rightarrow> 'a \<Rightarrow> 'a \<times> bool) \<Rightarrow> 'a \<Rightarrow> 'a \<times> bool" where
  "processClientHelloExtensions data proc a =
     (case splitClientHelloExtensions data of None \<Rightarrow> (a, False)
      | Some (_, s) \<Rightarrow>
          if Empty s then (a, True)
          else case ReadUint16LengthPrefixed s of None \<Rightarrow> (a, False)
          | Some (extensions, s) \<Rightarrow> if \<not> Empty s then (a, False) else processLoop (length extensions) proc extensions a)"

text \<open>The types an outer_extensions extension refers to.\<close>

definition readReferenced :: "bytes \<Rightarrow> u16 list option" where
  "readReferenced extData = do {
     (outerExtData, extData) \<leftarrow> ReadUint8LengthPrefixed extData;
     if length outerExtData mod 2 \<noteq> 0 \<or> \<not> Empty extData then None
     else readMany (\<lambda>s. do {(ext, s) \<leftarrow> ReadUint16 s; if ext = extensionECH then None else Some (ext, s)}) outerExtData}"

definition copyReferenced :: "u16 list \<Rightarrow> u16 \<Rightarrow> bytes \<Rightarrow> nat \<times> build \<Rightarrow> (nat \<times> build) \<times> bool" where
  "copyReferenced referencedExts ext extData st = (case st of (outerCt, b) \<Rightarrow>
     if outerCt < length referencedExts \<and> ext = referencedExts ! outerCt
     then ((outerCt + 1, andThen b (addRawExt ext extData)), True)
     else ((outerCt, b), True))"

fun decodeExtLoop :: "nat \<Rightarrow> bytes \<Rightarrow> bool \<Rightarrow> bytes \<Rightarrow> Builder \<Rightarrow> build" where
  "decodeExtLoop n outerData handled [] b = Done b"
| "decodeExtLoop 0 outerData handled (x # xs) b = Crash ''out of fuel''"
| "decodeExtLoop (Suc n) outerData handled (x # xs) b =
     (case readExt (x # xs) of None \<Rightarrow> panicBuildError errIllegalParameter b
      | Some ((ext, extData), s) \<Rightarrow>
          if ext = extensionECHOuterExtensions then
            if handled then panicBuildError errIllegalParameter b
            else case readReferenced extData of None \<Rightarrow> panicBuildError errIllegalParameter b
            | Some referencedExts \<Rightarrow>
                (case processClientHelloExtensions outerData (copyReferenced referencedExts) (0, Done b) of
                   ((outerCt, b'), r) \<Rightarrow>
                     andThen b' (\<lambda>b. if \<not> r \<or> outerCt \<noteq> length referencedExts then panicBuildError errIllegalParameter b
                                     else decodeExtLoop n outerData True s b))
          else andThen (addRawExt ext extData b) (decodeExtLoop n outerData handled s))"

definition echDecodeClientHelloInner :: "bytes \<Rightarrow> bytes \<Rightarrow> bytes \<Rightarrow> bytes option res" where
  "echDecodeClientHelloInner encodedData outerData outerSessionId =
     (case readHelloFields encodedData of None \<Rightarrow> Ok None
      | Some ((legacyVersion, random, legacySessionId, cipherSuites, legacyCompressionMethods), s) \<Rightarrow>
          if length legacySessionId > 0 then Ok None
          else if Empty s then Ok None
          else case ReadUint16LengthPrefixed s of None \<Rightarrow> Ok None
          | Some (extensions, s) \<Rightarrow>
              bind_res (nilOnIllegal (runBytes (stmts
                [AddUint8 typeClientHello, AddUint24LengthPrefixed (stmts
                  [AddUint16 legacyVersion, AddBytes random,
                   AddUint8LengthPrefixed (AddBytes outerSessionId),
                   AddUint16LengthPrefixed (AddBytes cipherSuites),
                   AddUint8LengthPrefixed (AddBytes legacyCompressionMethods),
                   AddUint16LengthPrefixed (decodeExtLoop (length extensions) outerData False extensions)])]))) (\<lambda>r.
              case r of None \<Rightarrow> Ok None
              | Some innerData \<Rightarrow> if list_all (\<lambda>zero. zero = 0) s then Ok (Some innerData) else Ok None))"

section \<open>ClientHelloOuterAAD\<close>

fun aadExtLoop :: "nat \<Rightarrow> nat \<Rightarrow> bytes \<Rightarrow> Builder \<Rightarrow> build" where
  "aadExtLoop n payloadLen [] b = Done b"
| "aadExtLoop 0 payloadLen (x # xs) b = Crash ''out of fuel''"
| "aadExtLoop (Suc n) payloadLen (x # xs) b =
     (case readExt (x # xs) of None \<Rightarrow> panicBuildError errIllegalParameter b
      | Some ((ext, extData), s) \<Rightarrow>
          if ext = extensionECH then
            (case echUnmarshalClientOuter extData of
               Panic p \<Rightarrow> Crash p
             | Err e \<Rightarrow> panicBuildError errIllegalParameter b
             | Ok ech \<Rightarrow>
                 (case eo_marshal (ech\<lparr>eo_payload := replicate payloadLen 0, eo_raw := None\<rparr>) of
                    Ok extData \<Rightarrow> andThen (addRawExt ext extData b) (aadExtLoop n payloadLen s)
                  | Err e \<Rightarrow> Crash e
                  | Panic p \<Rightarrow> Crash p))
          else andThen (addRawExt ext extData b) (aadExtLoop n payloadLen s))"

definition echEncodeClientHelloOuterAAD :: "bytes \<Rightarrow> nat \<Rightarrow> bytes option res" where
  "echEncodeClientHelloOuterAAD outerData payloadLen =
     (case readHello outerData of None \<Rightarrow> Ok None
      | Some ((legacyVersion, random, legacySessionId, cipherSuites, legacyCompressionMethods), extensions) \<Rightarrow>
          nilOnIllegal (runBytes (stmts
            [AddUint16 legacyVersion, AddBytes random,
             AddUint8LengthPrefixed (AddBytes legacySessionId),
             AddUint16LengthPrefixed (AddBytes cipherSuites),
             AddUint8LengthPrefixed (AddBytes legacyCompressionMethods),
             AddUint16LengthPrefixed (aadExtLoop (length extensions) payloadLen extensions)])))"

section \<open>The HelloRetryRequest of the acceptance signal\<close>

fun hrrExtLoop :: "nat \<Rightarrow> bytes \<Rightarrow> Builder \<Rightarrow> build" where
  "hrrExtLoop n [] b = Done b"
| "hrrExtLoop 0 (x # xs) b = Crash ''out of fuel''"
| "hrrExtLoop (Suc n) (x # xs) b =
     (case readExt (x # xs) of None \<Rightarrow> panicBuildError errIllegalParameter b
      | Some ((ext, extData), s) \<Rightarrow>
          andThen (addRawExt ext (if ext = extensionECH then replicate 8 0 else extData) b) (hrrExtLoop n s))"

definition echEncodeAcceptConfHelloRetryRequest :: "bytes \<Rightarrow> bytes option res" where
  "echEncodeAcceptConfHelloRetryRequest data =
     (case do {
        s \<leftarrow> Skip 4 data;
        (vers, s) \<leftarrow> ReadUint16 s;
        (random, s) \<leftarrow> ReadBytes 32 s;
        (sessionId, s) \<leftarrow> ReadUint8LengthPrefixed s;
        (cipherSuite, s) \<leftarrow> ReadUint16 s;
        (compressionMethod, s) \<leftarrow> ReadUint8 s;
        if Empty s then None else do {
        (extensions, s) \<leftarrow> ReadUint16LengthPrefixed s;
        if \<not> Empty s then None else Some (vers, random, sessionId, cipherSuite, compressionMethod, extensions)}}
      of None \<Rightarrow> Ok None
       | Some (vers, random, sessionId, cipherSuite, compressionMethod, extensions) \<Rightarrow>
           nilOnIllegal (runBytes (stmts
             [AddUint8 typeServerHello, AddUint24LengthPrefixed (stmts
               [AddUint16 vers, AddBytes random, AddUint8LengthPrefixed (AddBytes sessionId), AddUint16 cipherSuite,
                AddUint8 compressionMethod, AddUint16LengthPrefixed (hrrExtLoop (length extensions) extensions)])])))"

section \<open>Hellos as lists of extensions\<close>

type_synonym hello_fields = "u16 \<times> bytes \<times> bytes \<times> bytes \<times> bytes"

definition encFields :: "hello_fields \<Rightarrow> bytes" where
  "encFields f = (case f of (v, r, sid, cs, cm) \<Rightarrow> enc16 v @ r @ pref8 sid @ pref16 cs @ pref8 cm)"

definition wf_fields :: "hello_fields \<Rightarrow> bool" where
  "wf_fields f \<longleftrightarrow> (case f of (v, r, sid, cs, cm) \<Rightarrow> length r = 32 \<and> length sid < 256 \<and> length cs < 65536 \<and> length cm < 256)"

definition wf_exts :: "extension list \<Rightarrow> bool" where
  "wf_exts es \<longleftrightarrow> list_all (\<lambda>e. length (snd e) < 65536) es \<and> length (encExts es) < 65536"

interpretation fieldsc: exact_codec encFields readHelloFields wf_fields
proof unfold_locales
  fix f :: hello_fields and s
  assume "wf_fields f"
  then show "readHelloFields (encFields f @ s) = Some (f, s)"
    by (cases f) (simp add: encFields_def readHelloFields_def wf_fields_def wire_simps)
next
  fix f :: hello_fields
  show "encFields f \<noteq> []" by (cases f) (simp add: encFields_def)
next
  fix f :: hello_fields and s s'
  assume "readHelloFields s = Some (f, s')"
  then show "wf_fields f \<and> s = encFields f @ s'"
    by (auto simp: encFields_def readHelloFields_def wf_fields_def dest!: wire_dest split: Option.bind_splits)
qed

text \<open>A hello message of any type with given fields and extensions.\<close>

definition helloMsg :: "u8 \<Rightarrow> hello_fields \<Rightarrow> extension list \<Rightarrow> bytes" where
  "helloMsg t f es = enc8 t @ pref24 (encFields f @ pref16 (encExts es))"

lemma length_encFields: "wf_fields f \<Longrightarrow> length (encFields f) < 70000"
  by (auto simp: encFields_def wf_fields_def split: prod.splits)

lemma readHello_Some_iff:
  "readHello d = Some (f, x) \<longleftrightarrow> wf_fields f \<and> length x < 65536 \<and> (\<exists>t. d = enc8 t @ pref24 (encFields f @ pref16 x))"
proof
  assume "readHello d = Some (f, x)"
  then show "wf_fields f \<and> length x < 65536 \<and> (\<exists>t. d = enc8 t @ pref24 (encFields f @ pref16 x))"
    by (auto simp: readHello_def dest!: wire_dest fieldsc.enc_dec split: Option.bind_splits if_splits) blast
next
  assume a: "wf_fields f \<and> length x < 65536 \<and> (\<exists>t. d = enc8 t @ pref24 (encFields f @ pref16 x))"
  then obtain t where d: "d = enc8 t @ pref24 (encFields f @ pref16 x)" by blast
  have "length (encFields f @ pref16 x) < 16777216"
    using a length_encFields [of f] by simp
  with a d show "readHello d = Some (f, x)"
    using lp24.dec_enc_all lp16.dec_enc_all by (simp add: readHello_def wire_simps fieldsc.dec_enc)
qed

lemma readHello_helloMsg: "wf_fields f \<Longrightarrow> wf_exts es \<Longrightarrow> readHello (helloMsg t f es) = Some (f, encExts es)"
  by (auto simp: readHello_Some_iff helloMsg_def wf_exts_def)

lemma appends_addRawExt [builder_intros]: "length d < 65536 \<Longrightarrow> appends (addRawExt ext d) (encExt (ext, d))"
  unfolding addRawExt_def encExt_def fst_conv snd_conv by (intro builder_intros)

lemma writes_addRawExt [builder_writes]: "writes (addRawExt ext d) (\<lambda>bs. length d < 65536 \<and> bs = encExt (ext, d))"
  unfolding addRawExt_def
  by (rule writes_mono, (rule builder_writes)+) (auto simp: encExt_def)

lemma encExts_Cons_obtain:
  assumes "length d < 65536"
  obtains x xs where "encExts ((ext, d) # es) = x # xs" and "readExt (x # xs) = Some ((ext, d), encExts es)"
proof -
  have "encExt (ext, d) \<noteq> []" by (simp add: encExt_def)
  then obtain x xs where x: "encExt (ext, d) = x # xs" by (cases "encExt (ext, d)") auto
  show thesis
    using that [of x "xs @ encExts es"] extc.dec_enc [of "(ext, d)" "encExts es"] assms x by simp
qed

text \<open>What the loops over extensions have in common: reading either fails, or gives an extension and the rest.\<close>

lemma readExt_None_fails: "\<not> succeeds (panicBuildError e b) b'"
  by (simp add: panicBuildError_def succeeds_def)

section \<open>Round trip of the inner hello\<close>

definition outerExtsExt :: "u16 list \<Rightarrow> extension" where
  "outerExtsExt outer = (extensionECHOuterExtensions, pref8 (enc16s outer))"

lemma consumeOuter_block:
  "list_all (\<lambda>e. length (snd e) < 65536) block \<Longrightarrow> consumeOuter (map fst block) (encExts block @ s) = Ok (Some s)"
proof (induction block)
  case (Cons e es)
  then show ?case
    using extc.dec_enc [of e "encExts es @ s"] by (cases e) simp
qed simp

lemma appends_echAddOuterExtensions:
  assumes "length outer < 128"
  shows "appends (echAddOuterExtensions outer) (encExt (outerExtsExt outer))"
  unfolding echAddOuterExtensions_def outerExtsExt_def encExt_def fst_conv snd_conv enc16s_def
  by (intro builder_intros) (use assms in \<open>simp_all flip: enc16s_def\<close>)

lemma appends_andThen: "appends f xs \<Longrightarrow> appends g ys \<Longrightarrow> appends (\<lambda>b. andThen (f b) g) (xs @ ys)"
  by (simp add: appends_def)

lemma innerExtLoop_plain:
  assumes "list_all (\<lambda>e. length (snd e) < 65536) es" and "length es \<le> n" and "outer = [] \<or> hd outer \<notin> fst ` set es"
  shows "appends (innerExtLoop n outer (encExts es)) (encExts es)"
  using assms
proof (induction es arbitrary: n)
  case Nil
  then show ?case by (simp add: appends_def)
next
  case (Cons e es)
  then obtain k where n: "n = Suc k" "length es \<le> k" by (cases n) auto
  obtain ext d where e: "e = (ext, d)" by (cases e)
  obtain x xs where x: "encExts (e # es) = x # xs" "readExt (x # xs) = Some ((ext, d), encExts es)"
    by (rule encExts_Cons_obtain [of d ext es]) (use Cons.prems e in simp_all)
  have "\<not> (length outer > 0 \<and> ext = outer ! 0)"
    using Cons.prems(3) e by (cases outer) auto
  then have "innerExtLoop n outer (encExts (e # es)) = (\<lambda>b. andThen (addRawExt ext d b) (innerExtLoop k outer (encExts es)))"
    unfolding x(1) by (auto simp: n x(2) fun_eq_iff)
  moreover have "appends (innerExtLoop k outer (encExts es)) (encExts es)"
    using Cons n by auto
  ultimately show ?case
    using appends_andThen [OF appends_addRawExt [of d ext]] Cons.prems(1) e by simp
qed

lemma innerExtLoop_block:
  assumes "list_all (\<lambda>e. length (snd e) < 65536) (pre @ block @ post)" and "length (pre @ block @ post) \<le> n"
    and "map fst block = outer" and "outer \<noteq> []" and "length outer < 128" and "hd outer \<notin> fst ` set (pre @ post)"
  shows "appends (innerExtLoop n outer (encExts (pre @ block @ post))) (encExts (pre @ outerExtsExt outer # post))"
  using assms
proof (induction pre arbitrary: n)
  case Nil
  then obtain e es where b: "block = e # es" by (cases block) auto
  with Nil obtain k where n: "n = Suc k" "length post \<le> k" by (cases n) auto
  obtain ext d where e: "e = (ext, d)" by (cases e)
  obtain x xs where x: "encExts (e # es @ post) = x # xs" "readExt (x # xs) = Some ((ext, d), encExts (es @ post))"
    by (rule encExts_Cons_obtain [of d ext "es @ post"]) (use Nil.prems b e in simp_all)
  have o: "outer = ext # map fst es" using Nil.prems(3) b e by simp
  have c: "consumeOuter (map fst es) (encExts (es @ post)) = Ok (Some (encExts post))"
    using consumeOuter_block [of es "encExts post"] Nil.prems(1) b by simp
  have "innerExtLoop n outer (encExts (block @ post)) = (\<lambda>b. andThen (echAddOuterExtensions outer b) (innerExtLoop k outer (encExts post)))"
    unfolding b append_Cons x(1) using c by (auto simp: n x(2) o fun_eq_iff)
  moreover have "appends (innerExtLoop k outer (encExts post)) (encExts post)"
    using Nil.prems n by (intro innerExtLoop_plain) auto
  ultimately show ?case
    using appends_andThen [OF appends_echAddOuterExtensions [OF Nil.prems(5)]] by simp
next
  case (Cons e pre)
  then obtain k where n: "n = Suc k" "length (pre @ block @ post) \<le> k" by (cases n) auto
  let ?es = "pre @ block @ post"
  obtain ext d where e: "e = (ext, d)" by (cases e)
  obtain x xs where x: "encExts (e # ?es) = x # xs" "readExt (x # xs) = Some ((ext, d), encExts ?es)"
    by (rule encExts_Cons_obtain [of d ext ?es]) (use Cons.prems e in simp_all)
  have "ext \<noteq> outer ! 0"
    using Cons.prems(4,6) e by (cases outer) auto
  then have "innerExtLoop n outer (encExts (e # ?es)) = (\<lambda>b. andThen (addRawExt ext d b) (innerExtLoop k outer (encExts ?es)))"
    unfolding x(1) by (auto simp: n x(2) fun_eq_iff)
  moreover have "appends (innerExtLoop k outer (encExts ?es)) (encExts (pre @ outerExtsExt outer # post))"
    using Cons n by simp
  ultimately show ?case
    using appends_andThen [OF appends_addRawExt [of d ext]] Cons.prems(1) e by simp
qed

lemma processLoop_copy:
  assumes "list_all (\<lambda>e. length (snd e) < 65536) es" and "length es \<le> n" and "filter (\<lambda>e. fst e \<in> set outer) es = drop ct block"
    and "map fst block = outer" and "ct \<le> length block" and "b_err b = None"
  shows "processLoop n (copyReferenced outer) (encExts es) (ct, Done b) =
    ((length block, Done (b\<lparr>b_result := b_result b @ encExts (drop ct block)\<rparr>)), True)"
  using assms
proof (induction es arbitrary: n ct b)
  case Nil
  then show ?case by simp
next
  case (Cons e es)
  then obtain k where n: "n = Suc k" "length es \<le> k" by (cases n) auto
  obtain ext d where e: "e = (ext, d)" by (cases e)
  obtain x xs where x: "encExts (e # es) = x # xs" "readExt (x # xs) = Some ((ext, d), encExts es)"
    by (rule encExts_Cons_obtain [of d ext es]) (use Cons.prems e in simp_all)
  show ?case
  proof (cases "ext \<in> set outer")
    case True
    then have dr: "drop ct block = e # filter (\<lambda>e. fst e \<in> set outer) es"
      using Cons.prems(3) e by simp
    then have ct: "ct < length block" "block ! ct = e" "drop (Suc ct) block = filter (\<lambda>e. fst e \<in> set outer) es"
      by (metis drop_eq_Nil2 leI list.distinct(1), metis hd_drop_conv_nth drop_eq_Nil2 leI list.distinct(1) list.sel(1), metis drop_Suc tl_drop list.sel(3))
    then have "outer ! ct = ext" "length outer = length block"
      using Cons.prems(4) e by auto
    moreover have "andThen (Done b) (addRawExt ext d) = Done (b\<lparr>b_result := b_result b @ encExt e\<rparr>)"
      using appends_addRawExt [of d ext] Cons.prems(1,6) e by (simp add: appends_def)
    ultimately have "copyReferenced outer ext d (ct, Done b) = ((Suc ct, Done (b\<lparr>b_result := b_result b @ encExt e\<rparr>)), True)"
      using ct(1) by (simp add: copyReferenced_def)
    moreover have "processLoop k (copyReferenced outer) (encExts es) (Suc ct, Done (b\<lparr>b_result := b_result b @ encExt e\<rparr>)) =
        ((length block, Done (b\<lparr>b_result := (b_result b @ encExt e) @ encExts (drop (Suc ct) block)\<rparr>)), True)"
      using Cons.IH [of k "Suc ct" "b\<lparr>b_result := b_result b @ encExt e\<rparr>"] Cons.prems n ct by simp
    ultimately show ?thesis
      unfolding x(1) using ct dr by (simp add: n x(2))
  next
    case False
    then have "copyReferenced outer ext d (ct, Done b) = ((ct, Done b), True)" by (auto simp: copyReferenced_def)
    with False show ?thesis
      unfolding x(1) using Cons n e by (simp add: x(2))
  qed
qed

lemma splitClientHelloExtensions_helloMsg:
  assumes "wf_fields f"
  shows "\<exists>p. splitClientHelloExtensions (helloMsg t f es) = Some (p, pref16 (encExts es))"
proof -
  obtain v r sid cs cm where f: "f = (v, r, sid, cs, cm)" by (cases f)
  let ?h = "encFields f @ pref16 (encExts es)"
  have "Skip 4 ((enc8 t @ be 3 (length ?h)) @ ?h) = Some ?h"
    by (rule Skip_append) simp
  then have "Skip 4 (helloMsg t f es) = Some ?h"
    by (simp add: helloMsg_def pref24_def)
  with assms f show ?thesis
    by (simp add: splitClientHelloExtensions_def encFields_def wf_fields_def wire_simps)
qed

lemma processClientHelloExtensions_copy:
  assumes "wf_fields f" and "wf_exts es" and "filter (\<lambda>e. fst e \<in> set outer) es = block" and "map fst block = outer" and "b_err b = None"
  shows "processClientHelloExtensions (helloMsg t f es) (copyReferenced outer) (0, Done b) =
    ((length outer, Done (b\<lparr>b_result := b_result b @ encExts block\<rparr>)), True)"
proof -
  obtain p where p: "splitClientHelloExtensions (helloMsg t f es) = Some (p, pref16 (encExts es))"
    using splitClientHelloExtensions_helloMsg [OF assms(1)] by blast
  have "length outer = length block" using assms(4) by auto
  then show ?thesis
    using processLoop_copy [of es "length (encExts es)" outer 0 block b] assms length_exts_le [of es]
    by (simp add: processClientHelloExtensions_def p wire_simps lp16.dec_enc_all wf_exts_def)
qed

lemma readReferenced_outerExtsExt:
  assumes "length outer < 128" and "extensionECH \<notin> set outer"
  shows "readReferenced (pref8 (enc16s outer)) = Some outer"
proof -
  let ?rd = "\<lambda>s. do {(ext, s) \<leftarrow> ReadUint16 s; if ext = extensionECH then None else Some (ext, s)}"
  have "codec enc16 ?rd (\<lambda>x. x \<noteq> extensionECH)"
    by unfold_locales (auto simp: wire_simps)
  then have "readMany ?rd (concat (map enc16 outer)) = Some outer"
    using assms(2) by (intro codec.readMany_concat) auto
  then show ?thesis
    using assms(1) lp8.dec_enc_all [of "enc16s outer"] by (simp add: readReferenced_def enc16s_def [symmetric])
qed

lemma decodeExtLoop_plain:
  assumes "list_all (\<lambda>e. length (snd e) < 65536) es" and "length es \<le> n" and "extensionECHOuterExtensions \<notin> fst ` set es"
  shows "appends (decodeExtLoop n outerData h (encExts es)) (encExts es)"
  using assms
proof (induction es arbitrary: n)
  case Nil
  then show ?case by (simp add: appends_def)
next
  case (Cons e es)
  then obtain k where n: "n = Suc k" "length es \<le> k" by (cases n) auto
  obtain ext d where e: "e = (ext, d)" by (cases e)
  obtain x xs where x: "encExts (e # es) = x # xs" "readExt (x # xs) = Some ((ext, d), encExts es)"
    by (rule encExts_Cons_obtain [of d ext es]) (use Cons.prems e in simp_all)
  have "decodeExtLoop n outerData h (encExts (e # es)) = (\<lambda>b. andThen (addRawExt ext d b) (decodeExtLoop k outerData h (encExts es)))"
    unfolding x(1) using Cons.prems(3) e by (auto simp: n x(2) fun_eq_iff)
  then show ?case
    using appends_andThen [OF appends_addRawExt [of d ext] Cons.IH [of k]] Cons.prems n e by simp
qed

lemma decodeExtLoop_block:
  assumes "list_all (\<lambda>e. length (snd e) < 65536) (pre @ outerExtsExt outer # post)" and "length (pre @ outerExtsExt outer # post) \<le> n"
    and "extensionECHOuterExtensions \<notin> fst ` set (pre @ post)" and "length outer < 128" and "extensionECH \<notin> set outer"
    and copy: "\<And>b. b_err b = None \<Longrightarrow> processClientHelloExtensions outerData (copyReferenced outer) (0, Done b) =
      ((length outer, Done (b\<lparr>b_result := b_result b @ encExts block\<rparr>)), True)"
  shows "appends (decodeExtLoop n outerData False (encExts (pre @ outerExtsExt outer # post))) (encExts (pre @ block @ post))"
  using assms(1-3)
proof (induction pre arbitrary: n)
  case Nil
  then obtain k where n: "n = Suc k" "length post \<le> k" by (cases n) auto
  let ?d = "pref8 (enc16s outer)"
  obtain x xs where x: "encExts (outerExtsExt outer # post) = x # xs"
      "readExt (x # xs) = Some ((extensionECHOuterExtensions, ?d), encExts post)"
    unfolding outerExtsExt_def by (rule encExts_Cons_obtain [of ?d extensionECHOuterExtensions post]) (use assms(4) in simp_all)
  have p: "appends (decodeExtLoop k outerData True (encExts post)) (encExts post)"
    using Nil.prems n by (intro decodeExtLoop_plain) auto
  show ?case
  proof (rule appendsI)
    fix b :: Builder
    assume b: "b_err b = None"
    show "decodeExtLoop n outerData False (encExts ([] @ outerExtsExt outer # post)) b =
        Done (b\<lparr>b_result := b_result b @ encExts ([] @ block @ post)\<rparr>)"
      unfolding append_Nil x(1) using appendsD [OF p, of "b\<lparr>b_result := b_result b @ encExts block\<rparr>"] b
      by (simp add: n x(2) readReferenced_outerExtsExt [OF assms(4,5)] copy)
  qed
next
  case (Cons e pre)
  let ?es = "pre @ outerExtsExt outer # post"
  obtain k where n: "n = Suc k" "length ?es \<le> k" using Cons.prems(2) by (cases n) auto
  obtain ext d where e: "e = (ext, d)" by (cases e)
  obtain x xs where x: "encExts (e # ?es) = x # xs" "readExt (x # xs) = Some ((ext, d), encExts ?es)"
    by (rule encExts_Cons_obtain [of d ext ?es]) (use Cons.prems e in simp_all)
  have "decodeExtLoop n outerData False (encExts (e # ?es)) = (\<lambda>b. andThen (addRawExt ext d b) (decodeExtLoop k outerData False (encExts ?es)))"
    unfolding x(1) using Cons.prems(3) e by (auto simp: n x(2) fun_eq_iff)
  then show ?case
    using appends_andThen [OF appends_addRawExt [of d ext] Cons.IH [of k]] Cons.prems n e by simp
qed

text \<open>
  The outer extensions occur in the inner hello as one block or not at all, and the outer hello has the same block.
\<close>

definition ok_outer :: "u16 list \<Rightarrow> extension list \<Rightarrow> extension list \<Rightarrow> bool" where
  "ok_outer outer es oes \<longleftrightarrow>
     length outer < 128 \<and> extensionECH \<notin> set outer \<and> extensionECHOuterExtensions \<notin> fst ` set es \<and>
     (outer = [] \<or> hd outer \<notin> fst ` set es \<or>
      (\<exists>pre block post. es = pre @ block @ post \<and> map fst block = outer \<and> hd outer \<notin> fst ` set (pre @ post) \<and>
         filter (\<lambda>e. fst e \<in> set outer) oes = block))"

lemma ok_outer_loops:
  assumes ok: "ok_outer outer es oes" and wf: "wf_exts es" "length (encExts es) < 65533" and g: "wf_fields g" "wf_exts oes"
  obtains ces where "wf_exts ces" and "appends (innerExtLoop (length (encExts es)) outer (encExts es)) (encExts ces)"
    and "appends (decodeExtLoop (length (encExts ces)) (helloMsg t g oes) False (encExts ces)) (encExts es)"
proof -
  have fit: "list_all (\<lambda>e. length (snd e) < 65536) es" using wf(1) by (simp add: wf_exts_def)
  consider (plain) "outer = [] \<or> hd outer \<notin> fst ` set es"
    | (block) pre block post where "es = pre @ block @ post" "map fst block = outer" "hd outer \<notin> fst ` set (pre @ post)"
        "filter (\<lambda>e. fst e \<in> set outer) oes = block" "outer \<noteq> []"
    using ok unfolding ok_outer_def by blast
  then show thesis
  proof cases
    case plain
    have "extensionECHOuterExtensions \<notin> fst ` set es" using ok by (simp add: ok_outer_def)
    with plain show thesis
      using that [of es] innerExtLoop_plain [OF fit length_exts_le] decodeExtLoop_plain [OF fit length_exts_le] wf(1) by blast
  next
    case block
    let ?ces = "pre @ outerExtsExt outer # post"
    note o = ok [unfolded ok_outer_def]
    have "length (encExts b) \<ge> 4 * length b" for b
      by (induction b) (simp_all add: length_encExt)
    from this [of block] have "4 * length outer \<le> length (encExts block)"
      using block(2) by auto
    moreover have "length (encExt (outerExtsExt outer)) = 2 * length outer + 5"
      by (simp add: outerExtsExt_def length_encExt)
    moreover have "length outer > 0" using block(5) by simp
    ultimately have "length (encExts ?ces) \<le> length (encExts es) + 3"
      unfolding block(1) encExts_append encExts_simps length_append by linarith
    then have ces: "wf_exts ?ces"
      using wf fit o unfolding block(1) wf_exts_def by (auto simp: outerExtsExt_def)
    have "appends (innerExtLoop (length (encExts es)) outer (encExts es)) (encExts ?ces)"
      using fit o block(2-5) length_exts_le [of es] unfolding block(1) by (intro innerExtLoop_block) auto
    moreover have "appends (decodeExtLoop (length (encExts ?ces)) (helloMsg t g oes) False (encExts ?ces)) (encExts es)"
      unfolding block(1)
    proof (rule decodeExtLoop_block)
      show "processClientHelloExtensions (helloMsg t g oes) (copyReferenced outer) (0, Done b) =
          ((length outer, Done (b\<lparr>b_result := b_result b @ encExts block\<rparr>)), True)" if "b_err b = None" for b
        by (rule processClientHelloExtensions_copy [OF g block(4,2) that])
    qed (use ces o block(1) length_exts_le [of ?ces] in \<open>auto simp: wf_exts_def\<close>)
    ultimately show thesis
      using that ces by blast
  qed
qed

lemma encode_helloMsg:
  assumes f: "wf_fields (v, r, sid, cs, cm)" and es: "wf_exts es" "wf_exts ces"
    and loop: "appends (innerExtLoop (length (encExts es)) outer (encExts es)) (encExts ces)"
  defines "data \<equiv> encFields (v, r, [], cs, cm) @ pref16 (encExts ces)"
  shows "echEncodeClientHelloInner outer (helloMsg t (v, r, sid, cs, cm) es) nameLen maxLen =
    Ok (Some (data @ replicate (echPaddingLen (length data) nameLen maxLen) 0))"
proof -
  have zero: "enc8 0 = pref8 []"
    by (simp add: enc8_def pref8_def be.simps)
  have "appends (stmts [AddUint16 v, AddBytes r, AddUint8 0, AddUint16LengthPrefixed (AddBytes cs), AddUint8LengthPrefixed (AddBytes cm),
      AddUint16LengthPrefixed (innerExtLoop (length (encExts es)) outer (encExts es))])
      (enc16 v @ r @ enc8 0 @ pref16 cs @ pref8 cm @ pref16 (encExts ces))"
    by (intro builder_intros loop) (use f es in \<open>simp_all add: wf_fields_def wf_exts_def\<close>)
  then show ?thesis
    using readHello_helloMsg [OF f es(1)]
    by (simp add: echEncodeClientHelloInner_def runBytes_appends nilOnIllegal_def encFields_def zero data_def)
qed

lemma inner_roundtrip:
  assumes ok: "ok_outer outer es oes" and wf: "wf_fields f" "wf_exts es" "length (encExts es) < 65533" and g: "wf_fields g" "wf_exts oes"
    and sid: "sid = fst (snd (snd f))"
  shows "\<exists>enc. echEncodeClientHelloInner outer (helloMsg typeClientHello f es) nameLen maxLen = Ok (Some enc) \<and>
    echDecodeClientHelloInner enc (helloMsg t g oes) sid = Ok (Some (helloMsg typeClientHello f es))"
proof -
  obtain v r cs cm where f: "f = (v, r, sid, cs, cm)" using sid by (cases f) auto
  obtain ces where ces: "wf_exts ces" "appends (innerExtLoop (length (encExts es)) outer (encExts es)) (encExts ces)"
      "appends (decodeExtLoop (length (encExts ces)) (helloMsg t g oes) False (encExts ces)) (encExts es)"
    by (rule ok_outer_loops [OF ok wf(2,3) g])
  let ?data = "encFields (v, r, [], cs, cm) @ pref16 (encExts ces)"
  have enc: "echEncodeClientHelloInner outer (helloMsg typeClientHello f es) nameLen maxLen =
      Ok (Some (?data @ replicate (echPaddingLen (length ?data) nameLen maxLen) 0))"
    using encode_helloMsg [OF _ wf(2) ces(1,2)] wf(1) by (simp add: f)
  have w: "wf_fields (v, r, [], cs, cm)" using wf(1) f by (simp add: wf_fields_def)
  have "appends (stmts [AddUint8 typeClientHello, AddUint24LengthPrefixed (stmts
      [AddUint16 v, AddBytes r, AddUint8LengthPrefixed (AddBytes sid), AddUint16LengthPrefixed (AddBytes cs),
       AddUint8LengthPrefixed (AddBytes cm), AddUint16LengthPrefixed (decodeExtLoop (length (encExts ces)) (helloMsg t g oes) False (encExts ces))])])
      (enc8 typeClientHello @ pref24 (enc16 v @ r @ pref8 sid @ pref16 cs @ pref8 cm @ pref16 (encExts es)))"
    by (intro builder_intros ces) (use wf f in \<open>simp_all add: wf_fields_def wf_exts_def\<close>)
  from runBytes_appends [OF this] have "runBytes (stmts [AddUint8 typeClientHello, AddUint24LengthPrefixed (stmts
      [AddUint16 v, AddBytes r, AddUint8LengthPrefixed (AddBytes sid), AddUint16LengthPrefixed (AddBytes cs),
       AddUint8LengthPrefixed (AddBytes cm), AddUint16LengthPrefixed (decodeExtLoop (length (encExts ces)) (helloMsg t g oes) False (encExts ces))])]) =
      Ok (helloMsg typeClientHello f es)"
    by (simp add: helloMsg_def f encFields_def)
  then have "echDecodeClientHelloInner (?data @ replicate k 0) (helloMsg t g oes) sid = Ok (Some (helloMsg typeClientHello f es))" for k
    using fieldsc.dec_enc [OF w, of "pref16 (encExts ces) @ replicate k 0"] ces(1)
    by (simp add: echDecodeClientHelloInner_def wire_simps wf_exts_def nilOnIllegal_def list_all_iff)
  with enc show ?thesis by blast
qed

section \<open>What the additional data authenticate\<close>

definition enc_outer :: "echContextHandle \<Rightarrow> bytes \<Rightarrow> bytes" where
  "enc_outer h p = enc8 echClientHelloOuterVariant @ enc_handle h @ pref16 p"

lemma echUnmarshalClientOuter_Ok_iff:
  "echUnmarshalClientOuter d = Ok ech \<longleftrightarrow>
   (\<exists>h p. handle_wf h \<and> length p < 65536 \<and> d = enc_outer h p \<and>
     ech = \<lparr>eo_raw = Some d, eo_handle = h\<lparr>h_raw := Some (enc_handle h)\<rparr>, eo_payload = p\<rparr>)"
proof
  assume "echUnmarshalClientOuter d = Ok ech"
  then show "\<exists>h p. handle_wf h \<and> length p < 65536 \<and> d = enc_outer h p \<and>
      ech = \<lparr>eo_raw = Some d, eo_handle = h\<lparr>h_raw := Some (enc_handle h)\<rparr>, eo_payload = p\<rparr>"
    by (fastforce simp: echUnmarshalClientOuter_def enc_outer_def Let_def dest!: wire_dest handlec.enc_dec
        split: option.splits Option.bind_splits if_splits)
next
  assume "\<exists>h p. handle_wf h \<and> length p < 65536 \<and> d = enc_outer h p \<and>
      ech = \<lparr>eo_raw = Some d, eo_handle = h\<lparr>h_raw := Some (enc_handle h)\<rparr>, eo_payload = p\<rparr>"
  then show "echUnmarshalClientOuter d = Ok ech"
    by (auto simp: echUnmarshalClientOuter_def enc_outer_def wire_simps handlec.dec_enc lp16.dec_enc_all)
qed

lemma echUnmarshalClientOuter_not_Panic: "echUnmarshalClientOuter d \<noteq> Panic p"
  by (auto simp: echUnmarshalClientOuter_def Let_def split: option.splits prod.splits if_splits)

lemma eo_marshal_blank:
  assumes "echUnmarshalClientOuter d = Ok ech" and "n < 65536"
  shows "eo_marshal (ech\<lparr>eo_payload := replicate n 0, eo_raw := None\<rparr>) = Ok (enc_outer (eo_handle ech) (replicate n 0))"
proof -
  obtain h where h: "eo_handle ech = h\<lparr>h_raw := Some (enc_handle h)\<rparr>"
    using assms(1) by (auto simp: echUnmarshalClientOuter_Ok_iff)
  have "appends (stmts [AddUint8 echClientHelloOuterVariant, AddBytes (enc_handle h), AddUint16LengthPrefixed (AddBytes (replicate n 0))])
      (enc8 echClientHelloOuterVariant @ enc_handle h @ pref16 (replicate n 0))"
    by (intro builder_intros) (use assms(2) in simp)
  then show ?thesis
    by (simp add: eo_marshal_def h handle_marshal_def runBytesOrPanic_appends enc_outer_def enc_handle_def)
qed

lemma eo_marshal_blank_Ok:
  assumes "echUnmarshalClientOuter d = Ok ech" and "eo_marshal (ech\<lparr>eo_payload := replicate n 0, eo_raw := None\<rparr>) = Ok x"
  shows "n < 65536 \<and> x = enc_outer (eo_handle ech) (replicate n 0)"
proof -
  obtain h where h: "eo_handle ech = h\<lparr>h_raw := Some (enc_handle h)\<rparr>"
    using assms(1) by (auto simp: echUnmarshalClientOuter_Ok_iff)
  let ?f = "stmts [AddUint8 echClientHelloOuterVariant, AddBytes (enc_handle h), AddUint16LengthPrefixed (AddBytes (replicate n 0))]"
  have "writes ?f (\<lambda>bs. n < 65536)"
    by (rule writes_mono, (rule builder_writes)+) auto
  moreover have "runBytes ?f = Ok x"
    using assms(2) by (auto simp: eo_marshal_def h handle_marshal_def runBytesOrPanic_def runBytes_def BytesOrPanic_def Bytes_def
        split: build.splits option.splits)
  ultimately have "n < 65536" by (rule runBytes_writes [rotated])
  with eo_marshal_blank [OF assms(1) this] assms(2) show ?thesis by simp
qed

text \<open>An extension with the payload of an outer ECH extension blanked.\<close>

definition ech_parses :: "extension \<Rightarrow> bool" where
  "ech_parses e \<longleftrightarrow> (fst e = extensionECH \<longrightarrow> (\<exists>ech. echUnmarshalClientOuter (snd e) = Ok ech))"

definition blankPayload :: "nat \<Rightarrow> extension \<Rightarrow> extension" where
  "blankPayload n e = (if fst e = extensionECH then
     (case echUnmarshalClientOuter (snd e) of Ok ech \<Rightarrow> (fst e, enc_outer (eo_handle ech) (replicate n 0)) | _ \<Rightarrow> e) else e)"

lemma aadExtLoop_Cons:
  assumes "length d < 65536" and "ech_parses (ext, d)" and "n < 65536"
  shows "aadExtLoop (Suc k) n (encExts ((ext, d) # es)) =
    (\<lambda>b. andThen (addRawExt ext (snd (blankPayload n (ext, d))) b) (aadExtLoop k n (encExts es)))"
proof -
  obtain x xs where x: "encExts ((ext, d) # es) = x # xs" "readExt (x # xs) = Some ((ext, d), encExts es)"
    by (rule encExts_Cons_obtain [OF assms(1)])
  show ?thesis
    unfolding x(1) using assms(2,3) eo_marshal_blank [of d _ n]
    by (auto simp: x(2) fun_eq_iff ech_parses_def blankPayload_def)
qed

lemma appends_aadExtLoop:
  assumes "list_all (\<lambda>e. length (snd e) < 65536 \<and> ech_parses e \<and> length (snd (blankPayload n e)) < 65536) es"
    and "length es \<le> k" and "n < 65536"
  shows "appends (aadExtLoop k n (encExts es)) (encExts (map (blankPayload n) es))"
  using assms
proof (induction es arbitrary: k)
  case Nil
  then show ?case by (simp add: appends_def)
next
  case (Cons e es)
  then obtain j where k: "k = Suc j" "length es \<le> j" by (cases k) auto
  obtain ext d where e: "e = (ext, d)" by (cases e)
  have "blankPayload n e = (ext, snd (blankPayload n e))"
    by (simp add: e blankPayload_def split: res.splits)
  then show ?case
    using appends_andThen [OF appends_addRawExt [of "snd (blankPayload n e)" ext] Cons.IH [of j]] aadExtLoop_Cons [of d ext n j es] Cons.prems k e
    by simp
qed

lemma writes_aadExtLoop:
  "writes (aadExtLoop k n x) (\<lambda>bs. \<exists>es. x = encExts es \<and> list_all (\<lambda>e. length (snd e) < 65536 \<and> ech_parses e) es \<and>
     bs = encExts (map (blankPayload n) es))"
proof (induction k arbitrary: x)
  case 0
  show ?case by (cases x) (auto simp: writes_def succeeds_def intro!: exI [of _ "[]"])
next
  case (Suc k)
  show ?case
  proof (cases x)
    case Nil
    then show ?thesis by (auto simp: writes_def succeeds_def intro!: exI [of _ "[]"])
  next
    case (Cons y ys)
    show ?thesis
    proof (cases "\<exists>ext d s. readExt x = Some ((ext, d), s) \<and> ech_parses (ext, d) \<and> (ext = extensionECH \<longrightarrow> n < 65536)")
      case True
      then obtain ext d s where r: "readExt x = Some ((ext, d), s)" and p: "ech_parses (ext, d)" "ext = extensionECH \<longrightarrow> n < 65536"
        by blast
      have x: "x = encExt (ext, d) @ s" "length d < 65536"
        using extc.enc_dec [OF r] by simp_all
      have blank: "blankPayload n (ext, d) = (ext, snd (blankPayload n (ext, d)))"
        by (simp add: blankPayload_def split: res.splits)
      have loop: "aadExtLoop (Suc k) n x = (\<lambda>b. andThen (addRawExt ext (snd (blankPayload n (ext, d))) b) (aadExtLoop k n s))"
        using p eo_marshal_blank [of d _ n] r unfolding Cons by (auto simp: fun_eq_iff ech_parses_def blankPayload_def)
      show ?thesis
        unfolding loop
      proof (rule writes_mono [OF writes_andThen [OF writes_addRawExt Suc.IH [of s]]])
        fix bs
        assume "\<exists>u v. (length (snd (blankPayload n (ext, d))) < 65536 \<and> u = encExt (ext, snd (blankPayload n (ext, d)))) \<and>
          (\<exists>es. s = encExts es \<and> list_all (\<lambda>e. length (snd e) < 65536 \<and> ech_parses e) es \<and> v = encExts (map (blankPayload n) es)) \<and> bs = u @ v"
        then obtain es where "s = encExts es" "list_all (\<lambda>e. length (snd e) < 65536 \<and> ech_parses e) es"
            "bs = encExt (blankPayload n (ext, d)) @ encExts (map (blankPayload n) es)"
          using blank by auto
        then show "\<exists>es. x = encExts es \<and> list_all (\<lambda>e. length (snd e) < 65536 \<and> ech_parses e) es \<and> bs = encExts (map (blankPayload n) es)"
          using x p(1) by (intro exI [of _ "(ext, d) # es"]) simp
      qed
    next
      case False
      then show ?thesis
        unfolding Cons by (intro writes_fail)
          (auto simp: ech_parses_def succeeds_def panicBuildError_def echUnmarshalClientOuter_not_Panic
            dest: eo_marshal_blank_Ok split: option.splits prod.splits if_splits res.splits)
    qed
  qed
qed

lemma encExts_inj:
  assumes "list_all (\<lambda>e. length (snd e) < 65536) es" "list_all (\<lambda>e. length (snd e) < 65536) es'" "encExts es = encExts es'"
  shows "es = es'"
  using extc.concat_enc_inj [of es es'] assms by (simp add: encExts_def list_all_iff)

lemma length_encExts_bound: "length (encExts es) < n \<Longrightarrow> list_all (\<lambda>e. length (snd e) < n) es"
  by (induction es) (auto simp: length_encExt)

lemma aad_Ok_Some:
  assumes "echEncodeClientHelloOuterAAD d n = Ok (Some a)"
  shows "\<exists>t f es. d = helloMsg t f es \<and> wf_fields f \<and> list_all (\<lambda>e. length (snd e) < 65536 \<and> ech_parses e) es \<and>
    length (encExts (map (blankPayload n) es)) < 65536 \<and> a = encFields f @ pref16 (encExts (map (blankPayload n) es))"
proof -
  obtain f x where h: "readHello d = Some (f, x)"
    using assms by (auto simp: echEncodeClientHelloOuterAAD_def split: option.splits)
  obtain v r sid cs cm where f: "f = (v, r, sid, cs, cm)" by (cases f)
  let ?prog = "stmts [AddUint16 v, AddBytes r, AddUint8LengthPrefixed (AddBytes sid), AddUint16LengthPrefixed (AddBytes cs),
    AddUint8LengthPrefixed (AddBytes cm), AddUint16LengthPrefixed (aadExtLoop (length x) n x)]"
  have "runBytes ?prog = Ok a"
    using assms h by (auto simp: echEncodeClientHelloOuterAAD_def f nilOnIllegal_def split: res.splits if_splits)
  moreover have "writes ?prog (\<lambda>bs. \<exists>es. x = encExts es \<and> list_all (\<lambda>e. length (snd e) < 65536 \<and> ech_parses e) es \<and>
      length (encExts (map (blankPayload n) es)) < 65536 \<and> bs = encFields f @ pref16 (encExts (map (blankPayload n) es)))"
    by (rule writes_mono, (rule builder_writes writes_aadExtLoop)+) (auto simp: f encFields_def)
  ultimately obtain es where es: "x = encExts es" "list_all (\<lambda>e. length (snd e) < 65536 \<and> ech_parses e) es"
      "length (encExts (map (blankPayload n) es)) < 65536" "a = encFields f @ pref16 (encExts (map (blankPayload n) es))"
    using runBytes_writes by blast
  moreover obtain t where "wf_fields f" "d = helloMsg t f es"
    using h by (auto simp: readHello_Some_iff helloMsg_def es(1))
  ultimately show ?thesis by blast
qed

text \<open>Two extensions that differ at most in the payload of an outer ECH extension.\<close>

definition same_but_payload :: "extension \<Rightarrow> extension \<Rightarrow> bool" where
  "same_but_payload e e' \<longleftrightarrow> e = e' \<or>
     (fst e = extensionECH \<and> fst e' = extensionECH \<and> (\<exists>h p p'. handle_wf h \<and> snd e = enc_outer h p \<and> snd e' = enc_outer h p'))"

lemma blankPayload_eq:
  assumes "blankPayload n e = blankPayload n e'" and "ech_parses e" and "ech_parses e'"
  shows "same_but_payload e e'"
proof -
  have fst: "fst (blankPayload n x) = fst x" for x
    by (simp add: blankPayload_def split: res.splits)
  then have ty: "fst e = fst e'" using assms(1) by metis
  show ?thesis
  proof (cases "fst e = extensionECH")
    case False
    then show ?thesis using assms(1) ty by (simp add: blankPayload_def same_but_payload_def)
  next
    case True
    then obtain h p h' p' where h: "handle_wf h" "snd e = enc_outer h p" "handle_wf h'" "snd e' = enc_outer h' p'"
        and ech: "\<exists>x. echUnmarshalClientOuter (snd e) = Ok x \<and> eo_handle x = h\<lparr>h_raw := Some (enc_handle h)\<rparr>"
        "\<exists>x. echUnmarshalClientOuter (snd e') = Ok x \<and> eo_handle x = h'\<lparr>h_raw := Some (enc_handle h')\<rparr>"
      using assms(2,3) ty unfolding ech_parses_def echUnmarshalClientOuter_Ok_iff by fastforce
    have "enc_handle h @ pref16 (replicate n 0) = enc_handle h' @ pref16 (replicate n 0)"
      using assms(1) True ty ech by (auto simp: blankPayload_def enc_outer_def enc_handle_def)
    with handlec.enc_prefix_free [OF h(1,3)] have "h = h'" by blast
    with h True ty show ?thesis unfolding same_but_payload_def by metis
  qed
qed

lemma aad_helloMsg:
  assumes f: "wf_fields f" and es: "wf_exts es" "list_all ech_parses es" and n: "n < 65536"
    and b: "length (encExts (map (blankPayload n) es)) < 65536"
  shows "echEncodeClientHelloOuterAAD (helloMsg t f es) n = Ok (Some (encFields f @ pref16 (encExts (map (blankPayload n) es))))"
proof -
  obtain v r sid cs cm where fs: "f = (v, r, sid, cs, cm)" by (cases f)
  have "list_all (\<lambda>e. length (snd e) < 65536 \<and> ech_parses e \<and> length (snd (blankPayload n e)) < 65536) es"
    using es length_encExts_bound [OF b] by (auto simp: wf_exts_def list_all_iff)
  then have l: "appends (aadExtLoop (length (encExts es)) n (encExts es)) (encExts (map (blankPayload n) es))"
    by (rule appends_aadExtLoop [OF _ length_exts_le n])
  have "appends (stmts [AddUint16 v, AddBytes r, AddUint8LengthPrefixed (AddBytes sid), AddUint16LengthPrefixed (AddBytes cs),
      AddUint8LengthPrefixed (AddBytes cm), AddUint16LengthPrefixed (aadExtLoop (length (encExts es)) n (encExts es))])
      (enc16 v @ r @ pref8 sid @ pref16 cs @ pref8 cm @ pref16 (encExts (map (blankPayload n) es)))"
    by (intro builder_intros l) (use f b fs in \<open>simp_all add: wf_fields_def\<close>)
  then show ?thesis
    using readHello_helloMsg [OF f es(1)]
    by (simp add: echEncodeClientHelloOuterAAD_def fs runBytes_appends nilOnIllegal_def encFields_def)
qed

lemma blankPayload_outer: "handle_wf h \<Longrightarrow> length p < 65536 \<Longrightarrow>
  blankPayload n (extensionECH, enc_outer h p) = (extensionECH, enc_outer h (replicate n 0)) \<and> ech_parses (extensionECH, enc_outer h p)"
proof -
  assume "handle_wf h" "length p < 65536"
  then have u: "echUnmarshalClientOuter (enc_outer h p) =
      Ok \<lparr>eo_raw = Some (enc_outer h p), eo_handle = h\<lparr>h_raw := Some (enc_handle h)\<rparr>, eo_payload = p\<rparr>"
    by (auto simp: echUnmarshalClientOuter_Ok_iff)
  then show ?thesis
    by (simp add: blankPayload_def ech_parses_def enc_outer_def enc_handle_def)
qed

lemma blankPayload_other: "ext \<noteq> extensionECH \<Longrightarrow> blankPayload n (ext, d) = (ext, d) \<and> ech_parses (ext, d)"
  by (simp add: blankPayload_def ech_parses_def)

text \<open>C26: the additional data of the ECH payload bind the whole outer hello but the payload. If
  echEncodeClientHelloOuterAAD gives the same bytes for two messages, they are both hellos with the same version,
  random, session id, cipher suites and compression methods and the same number of extensions, which are equal
  one by one except that the payload of the ECH extension may differ: its configuration id, its
  cipher suite and its encapsulated key are bound as well.\<close>

theorem ech_aad_binds:
  assumes "echEncodeClientHelloOuterAAD d n = Ok (Some a)" and "echEncodeClientHelloOuterAAD d' n = Ok (Some a)"
  shows "\<exists>t t' f es es'. d = helloMsg t f es \<and> d' = helloMsg t' f es' \<and> list_all2 same_but_payload es es'"
proof -
  obtain t f es where d: "d = helloMsg t f es" "wf_fields f" "list_all (\<lambda>e. length (snd e) < 65536 \<and> ech_parses e) es"
      "length (encExts (map (blankPayload n) es)) < 65536" "a = encFields f @ pref16 (encExts (map (blankPayload n) es))"
    using aad_Ok_Some [OF assms(1)] by blast
  obtain t' f' es' where d': "d' = helloMsg t' f' es'" "wf_fields f'" "list_all (\<lambda>e. length (snd e) < 65536 \<and> ech_parses e) es'"
      "length (encExts (map (blankPayload n) es')) < 65536" "a = encFields f' @ pref16 (encExts (map (blankPayload n) es'))"
    using aad_Ok_Some [OF assms(2)] by blast
  have "f = f' \<and> pref16 (encExts (map (blankPayload n) es)) = pref16 (encExts (map (blankPayload n) es'))"
    by (rule fieldsc.enc_prefix_free [OF d(2) d'(2)]) (use d(5) d'(5) in simp)
  moreover from this have "encExts (map (blankPayload n) es) = encExts (map (blankPayload n) es')"
    using lp16.enc_prefix_free [of _ _ "[]" "[]"] d(4) d'(4) by simp
  then have m: "map (blankPayload n) es = map (blankPayload n) es'"
    using encExts_inj length_encExts_bound d(4) d'(4) by blast
  have l: "length es = length es'" using m by (rule map_eq_imp_length_eq)
  have "list_all2 same_but_payload es es'"
  proof (rule list_all2_all_nthI [OF l])
    fix i
    assume i: "i < length es"
    then have "blankPayload n (es ! i) = blankPayload n (es' ! i)"
      using m l by (metis nth_map)
    then show "same_but_payload (es ! i) (es' ! i)"
      using i l d(3) d'(3) by (intro blankPayload_eq) (auto simp: list_all_length)
  qed
  ultimately show ?thesis using d(1) d'(1) by blast
qed

definition sample_handle :: echContextHandle where
  "sample_handle = \<lparr>h_raw = None, h_suite = \<lparr>kdfId = 1, aeadId = 1\<rparr>, h_configId = 7, h_enc = [1, 2, 3]\<rparr>"

definition sample_fields :: hello_fields where
  "sample_fields = (0x303, replicate 32 7, [1], [0x13, 1], [0])"

theorem ech_aad_binds_witness:
  "\<exists>t t' f es es'. helloMsg 1 sample_fields [(extensionECH, enc_outer sample_handle [5, 5]), (43, [1])] = helloMsg t f es \<and>
     helloMsg 1 sample_fields [(extensionECH, enc_outer sample_handle [6, 6]), (43, [1])] = helloMsg t' f es' \<and>
     list_all2 same_but_payload es es'"
proof -
  have h: "handle_wf sample_handle" and f: "wf_fields sample_fields"
    by (simp_all add: handle_wf_def sample_handle_def wf_fields_def sample_fields_def)
  let ?es = "\<lambda>p. [(extensionECH, enc_outer sample_handle p), (43 :: u16, [1 :: byte])]"
  have l: "length (enc_outer sample_handle p) = length p + 13" for p
    by (simp add: enc_outer_def enc_handle_def sample_handle_def)
  have b: "map (blankPayload 2) (?es p) = ?es (replicate 2 0)" "list_all ech_parses (?es p)" "wf_exts (?es p)" if "length p = 2" for p
    using that blankPayload_outer [OF h, of p 2] blankPayload_other [of 43 2 "[1]"]
    by (simp_all add: extensionECH_def wf_exts_def l length_encExt)
  have "echEncodeClientHelloOuterAAD (helloMsg 1 sample_fields (?es p)) 2 =
      Ok (Some (encFields sample_fields @ pref16 (encExts (?es (replicate 2 0)))))" if "length p = 2" for p
    using aad_helloMsg [OF f b(3,2) [OF that], of 2 1] b(1) [OF that] by (simp add: l length_encExt)
  from ech_aad_binds [OF this [of "[5, 5]"] this [of "[6, 6]"]] show ?thesis by simp
qed

section \<open>The hellos of a connection\<close>

definition ch_fields :: "clientHelloMsg \<Rightarrow> hello_fields" where
  "ch_fields m = (ch_vers m, ch_random m, ch_sessionId m, enc16s (ch_cipherSuites m), ch_compressionMethods m)"

lemma ch_encode_helloMsg: "ch_extensions m \<noteq> [] \<Longrightarrow> ch_encode m = helloMsg typeClientHello (ch_fields m) (ch_extensions m)"
  using length_exts_le [of "ch_extensions m"]
  by (auto simp: ch_encode_def encHello_def helloMsg_def ch_fields_def encFields_def)

lemma fits_wf: "fits_hello m \<Longrightarrow> wf_fields (ch_fields m) \<and> wf_exts (ch_extensions m)"
  by (simp add: fits_hello_def wf_fields_def ch_fields_def wf_exts_def)

lemma mem_optExt [simp]: "x \<in> set (optExt c e d) \<longleftrightarrow> c \<and> x = (e, d)"
  by (auto simp: optExt_def)

lemma keyShare_extension:
  "(extensionKeyShare, d) \<in> set (ch_extensions m) \<longleftrightarrow>
   ch_keyShares m \<noteq> None \<and> d = pref16 (concat (map encKeyShare (the (ch_keyShares m))))"
  by (simp add: ch_extensions_def ch_frontExtensions_def extension_ids del: not_None_eq)

lemma filter_type_Nil: "x \<notin> fst ` set es \<Longrightarrow> filter (\<lambda>e. fst e = x) es = []"
  by (auto simp: filter_empty_conv)

lemma ok_outer_keyShare:
  assumes "ch_keyShares inner = ch_keyShares outer"
  shows "ok_outer (echOuterExtensions False False) (ch_extensions inner) (ch_extensions outer)"
proof -
  have o: "extensionECHOuterExtensions \<notin> fst ` set (ch_extensions inner)"
    by (auto simp: ch_extensions_def ch_frontExtensions_def extension_ids extensionECHOuterExtensions_def)
  show ?thesis
  proof (cases "extensionKeyShare \<in> fst ` set (ch_extensions inner)")
    case False
    with o show ?thesis by (simp add: ok_outer_def echOuterExtensions_def extension_ids)
  next
    case True
    then obtain d where d: "(extensionKeyShare, d) \<in> set (ch_extensions inner)" by auto
    then obtain pre post where split: "ch_extensions inner = pre @ [(extensionKeyShare, d)] @ post"
      by (auto dest: split_list)
    then have n: "extensionKeyShare \<notin> fst ` set (pre @ post)"
      using distinct_ch_extensions [of inner] by auto
    have "(extensionKeyShare, d) \<in> set (ch_extensions outer)"
      using d assms by (simp add: keyShare_extension)
    then obtain pre' post' where split': "ch_extensions outer = pre' @ [(extensionKeyShare, d)] @ post'"
      by (auto dest: split_list)
    then have "filter (\<lambda>e. fst e = extensionKeyShare) (ch_extensions outer) = [(extensionKeyShare, d)]"
      using distinct_ch_extensions [of outer] by (simp add: filter_type_Nil)
    with o split n show ?thesis
      unfolding ok_outer_def echOuterExtensions_def by (auto simp: extension_ids)
  qed
qed

text \<open>C25: the inner hello survives compression, padding and decompression. Let an inner and an outer ClientHello
  have the same key shares and the same session id, as the client builds them. Then the encoding of the
  marshalled inner hello, with the key shares replaced by a reference, succeeds, and the server's decoding of
  it against the marshalled outer hello gives back the marshalled inner hello byte by byte, whatever the padding.\<close>

theorem ech_inner_roundtrip:
  assumes "fits_hello inner" and "fits_hello outer" and "ch_extensions inner \<noteq> []" and "ch_extensions outer \<noteq> []"
    and "ch_raw inner = None" and "ch_raw outer = None"
    and "length (encExts (ch_extensions inner)) < 65533"
    and "ch_keyShares inner = ch_keyShares outer" and "ch_sessionId inner = ch_sessionId outer"
  shows "\<exists>ib ob enc. snd (ch_marshal inner) = Ok ib \<and> snd (ch_marshal outer) = Ok ob \<and>
    echEncodeClientHelloInner (echOuterExtensions False False) ib nameLen maxLen = Ok (Some enc) \<and>
    echDecodeClientHelloInner enc ob (ch_sessionId outer) = Ok (Some ib)"
  using inner_roundtrip [OF ok_outer_keyShare [OF assms(8)], of "ch_fields inner" "ch_fields outer" "ch_sessionId outer" nameLen maxLen typeClientHello]
    fits_wf [OF assms(1)] fits_wf [OF assms(2)] assms(7,9) ch_marshal_encode [OF assms(1,5)] ch_marshal_encode [OF assms(2,6)]
  by (simp add: ch_encode_helloMsg assms(3,4)) (simp add: ch_fields_def)

theorem ech_inner_roundtrip_witness:
  "\<exists>ib ob enc. snd (ch_marshal sample_hello) = Ok ib \<and> snd (ch_marshal (sample_hello\<lparr>ch_serverName := [99]\<rparr>)) = Ok ob \<and>
    echEncodeClientHelloInner (echOuterExtensions False False) ib 2 100 = Ok (Some enc) \<and>
    echDecodeClientHelloInner enc ob [1, 2, 3] = Ok (Some ib)"
proof -
  let ?o = "sample_hello\<lparr>ch_serverName := [99]\<rparr>"
  have f: "fits_hello sample_hello" using wf_sample_hello by (simp add: wf_hello_def)
  have o: "fits_hello ?o"
    by (simp add: sample_hello_def emptyHello_def fits_unfold optExt_def encExt_def encName_def encKeyShare_def
      encIdentity_def pskData_def)
  have e: "ch_extensions sample_hello \<noteq> []" "ch_extensions ?o \<noteq> []" "ch_raw sample_hello = None" "ch_raw ?o = None"
      "length (encExts (ch_extensions sample_hello)) < 65533" "ch_keyShares sample_hello = ch_keyShares ?o" "ch_sessionId sample_hello = ch_sessionId ?o"
    by (simp_all add: sample_hello_def emptyHello_def ch_extensions_def ch_frontExtensions_def optExt_def encExt_def encName_def encKeyShare_def
      encIdentity_def pskData_def)
  have "ch_sessionId ?o = [1, 2, 3]" by (simp add: sample_hello_def)
  with ech_inner_roundtrip [OF f o e, of 2 100] show ?thesis by simp
qed

section \<open>Padding\<close>

definition keyShareLen :: "clientHelloMsg \<Rightarrow> nat" where
  "keyShareLen m = (case ch_keyShares m of None \<Rightarrow> 0 | Some kss \<Rightarrow> 6 + length (concat (map encKeyShare kss)))"

lemma compress_keyShare:
  assumes "fits_hello m" and "length (encExts (ch_extensions m)) < 65533"
  obtains ces where "wf_exts ces"
    and "appends (innerExtLoop (length (encExts (ch_extensions m))) (echOuterExtensions False False) (encExts (ch_extensions m))) (encExts ces)"
    and "length (encExts ces) + keyShareLen m = length (encExts (ch_extensions m)) + (if ch_keyShares m = None then 0 else 7)"
proof -
  let ?es = "ch_extensions m" and ?outer = "[extensionKeyShare]"
  have outer: "echOuterExtensions False False = ?outer" by (simp add: echOuterExtensions_def)
  have wf: "wf_exts ?es" using fits_wf [OF assms(1)] by simp
  then have fit: "list_all (\<lambda>e. length (snd e) < 65536) ?es" by (simp add: wf_exts_def)
  show thesis
  proof (cases "ch_keyShares m")
    case None
    then have "extensionKeyShare \<notin> fst ` set ?es" using keyShare_extension [of _ m] by auto
    then show thesis
      using that [of ?es] innerExtLoop_plain [OF fit length_exts_le, of ?outer] wf None by (simp add: outer keyShareLen_def)
  next
    case (Some kss)
    let ?d = "pref16 (concat (map encKeyShare kss))"
    have "(extensionKeyShare, ?d) \<in> set ?es" using Some by (simp add: keyShare_extension)
    then obtain pre post where split: "?es = pre @ [(extensionKeyShare, ?d)] @ post"
      by (auto dest: split_list)
    have n: "extensionKeyShare \<notin> fst ` set (pre @ post)"
      using distinct_ch_extensions [of m] split by auto
    let ?ces = "pre @ outerExtsExt ?outer # post"
    have len: "length (encExts ?ces) + keyShareLen m = length (encExts ?es) + 7"
      using Some by (simp add: split length_encExt outerExtsExt_def keyShareLen_def)
    have "keyShareLen m \<ge> 6" using Some by (simp add: keyShareLen_def)
    with len assms(2) have "wf_exts ?ces"
      using fit split by (simp add: wf_exts_def outerExtsExt_def)
    moreover have "appends (innerExtLoop (length (encExts ?es)) ?outer (encExts ?es)) (encExts ?ces)"
      using innerExtLoop_block [of pre "[(extensionKeyShare, ?d)]" post "length (encExts ?es)" ?outer] fit n length_exts_le [of ?es]
      unfolding split by simp
    ultimately show thesis
      using that [of ?ces] len Some by (simp add: outer)
  qed
qed

lemma encode_length:
  assumes "fits_hello m" and "ch_extensions m \<noteq> []" and "length (encExts (ch_extensions m)) < 65533"
  obtains enc c where "echEncodeClientHelloInner (echOuterExtensions False False) (ch_encode m) nameLen maxLen = Ok (Some enc)"
    and "c + keyShareLen m = 40 + 2 * length (ch_cipherSuites m) + length (ch_compressionMethods m) + length (encExts (ch_extensions m)) +
           (if ch_keyShares m = None then 0 else 7)"
    and "length enc = c + echPaddingLen c nameLen maxLen"
proof -
  obtain ces where ces: "wf_exts ces"
      "appends (innerExtLoop (length (encExts (ch_extensions m))) (echOuterExtensions False False) (encExts (ch_extensions m))) (encExts ces)"
      "length (encExts ces) + keyShareLen m = length (encExts (ch_extensions m)) + (if ch_keyShares m = None then 0 else 7)"
    by (rule compress_keyShare [OF assms(1,3)])
  have w: "wf_fields (ch_fields m)" "wf_exts (ch_extensions m)" "length (ch_random m) = 32"
    using fits_wf [OF assms(1)] assms(1) by (simp_all add: fits_hello_def)
  let ?data = "encFields (ch_vers m, ch_random m, [], enc16s (ch_cipherSuites m), ch_compressionMethods m) @ pref16 (encExts ces)"
  show thesis
  proof (rule that [where c = "length ?data"])
    show "echEncodeClientHelloInner (echOuterExtensions False False) (ch_encode m) nameLen maxLen =
        Ok (Some (?data @ replicate (echPaddingLen (length ?data) nameLen maxLen) 0))"
      using encode_helloMsg [OF w(1) [unfolded ch_fields_def] w(2) ces(1,2)]
      by (simp add: ch_encode_helloMsg [OF assms(2)] ch_fields_def)
  qed (use ces(3) w(3) in \<open>simp_all add: encFields_def\<close>)
qed



end
