(* ===== verification/ECH.thy ===== *)
theory ECH
  imports ECH_Hello
begin

text \<open>
  Encrypted ClientHello as the handshake uses it (\<^verbatim>\<open>crypto/tls/ech.go\<close>): the client's decision to offer or to grease
  and its construction of the outer hello, the server's decision to accept or to reject, and the part of the
  server's handshake that calls it before and after a HelloRetryRequest, as a step relation. The ECH state of a
  connection is the record \<open>ech_state\<close>. The lemmas describe the effect of the server's decision on that state
  (\<open>accept_effect\<close>), from which the invariant of a connection follows by induction over its steps; then a
  client's offer is followed through the message transformations to the server that accepts it.
\<close>

section \<open>State\<close>

record ech_state =
  es_sealer :: "encdecContext option"
  es_opener :: "encdecContext option"
  es_offered :: bool
  es_greased :: bool
  es_accepted :: bool
  es_retryConfigs :: bytes
  es_configId :: u8
  es_maxNameLen :: nat

definition ech_start :: ech_state where
  "ech_start = \<lparr>es_sealer = None, es_opener = None, es_offered = False, es_greased = False, es_accepted = False,
     es_retryConfigs = [], es_configId = 0, es_maxNameLen = 0\<rparr>"

definition VersionTLS13 :: u16 where "VersionTLS13 = 0x304"
definition alertDecryptError :: u8 where "alertDecryptError = 51"
definition alertMissingExtension :: u8 where "alertMissingExtension = 109"

section \<open>The client\<close>

definition echCopyExtensionFromClientHelloInner :: "clientHelloMsg \<Rightarrow> clientHelloMsg \<Rightarrow> u16 \<Rightarrow> clientHelloMsg res" where
  "echCopyExtensionFromClientHelloInner hello helloInner ext =
     (if ext = extensionStatusRequest then Ok (hello\<lparr>ch_ocspStapling := ch_ocspStapling helloInner\<rparr>)
      else if ext = extensionSupportedCurves then Ok (hello\<lparr>ch_supportedCurves := ch_supportedCurves helloInner\<rparr>)
      else if ext = extensionSupportedPoints then Ok (hello\<lparr>ch_supportedPoints := ch_supportedPoints helloInner\<rparr>)
      else if ext = extensionKeyShare then Ok (hello\<lparr>ch_keyShares := ch_keyShares helloInner\<rparr>)
      else Panic ''tried to copy unrecognized extension'')"

fun copyOuterExtensions :: "u16 list \<Rightarrow> clientHelloMsg \<Rightarrow> clientHelloMsg \<Rightarrow> clientHelloMsg res" where
  "copyOuterExtensions [] hello helloInner = Ok hello"
| "copyOuterExtensions (ext # exts) hello helloInner =
     bind_res (echCopyExtensionFromClientHelloInner hello helloInner ext) (\<lambda>hello. copyOuterExtensions exts hello helloInner)"

text \<open>A marshalled message, with the error wrapped the way the caller does.\<close>

definition marshal_or :: "string \<Rightarrow> clientHelloMsg \<Rightarrow> bytes res" where
  "marshal_or msg m = (case snd (ch_marshal m) of Ok b \<Rightarrow> Ok b | Err e \<Rightarrow> Err (msg @ e) | Panic p \<Rightarrow> Panic p)"

definition not_nil :: "string \<Rightarrow> bytes option res \<Rightarrow> bytes res" where
  "not_nil msg r = bind_res r (\<lambda>x. case x of None \<Rightarrow> Err msg | Some b \<Rightarrow> Ok b)"

text \<open>
  The two hellos are returned as they are after the call; the caches of both are cleared. When the call fails its
  caller drops the hellos, so that only the error is returned. The sealer is the one of the connection.
\<close>

definition echUpdateClientHelloOuter ::
    "ech_state \<Rightarrow> clientHelloMsg \<Rightarrow> clientHelloMsg \<Rightarrow> bytes \<Rightarrow> (ech_state \<times> clientHelloMsg \<times> clientHelloMsg) res" where
  "echUpdateClientHelloOuter st hello helloInner enc =
     (case es_sealer st of None \<Rightarrow> Panic ''nil sealer'' | Some sealer \<Rightarrow>
      bind_res (copyOuterExtensions (echOuterExtensions False False) hello helloInner) (\<lambda>hello.
      let hello = hello\<lparr>ch_keyShares := ch_keyShares helloInner\<rparr>;
          (_, kdf, aead) = suite_Params (c_suite sealer);
          handle = \<lparr>h_raw = None, h_suite = \<lparr>kdfId = kdf, aeadId = aead\<rparr>, h_configId = es_configId st, h_enc = enc\<rparr>;
          helloInner = helloInner\<lparr>ch_raw := None\<rparr>
      in bind_res (marshal_or ''tls: ech: failed to marshal helloInner: '' helloInner) (\<lambda>helloInnerMarshalled.
      bind_res (not_nil ''tls: ech: encoding of EncodedClientHelloInner failed''
        (echEncodeClientHelloInner (echOuterExtensions False False) helloInnerMarshalled (length (ch_serverName helloInner)) (es_maxNameLen st)))
        (\<lambda>encodedHelloInner.
      bind_res (eo_marshal \<lparr>eo_raw = None, eo_handle = handle, eo_payload = []\<rparr>) (\<lambda>ech.
      bind_res (marshal_or ''tls: ech: failed to marshal hello: '' (hello\<lparr>ch_raw := None, ch_ech := ech\<rparr>)) (\<lambda>helloMarshalled.
      bind_res (CipherLen aead (length encodedHelloInner)) (\<lambda>cipherLen.
      bind_res (not_nil ''tls: ech: encoding of ClientHelloOuterAAD failed'' (echEncodeClientHelloOuterAAD helloMarshalled cipherLen))
        (\<lambda>helloOuterAad.
      case ctx_Seal sealer encodedHelloInner helloOuterAad of
        (sealer, Panic p) \<Rightarrow> Panic p
      | (sealer, Err e) \<Rightarrow> Err (''tls: ech: seal failed: '' @ e)
      | (sealer, Ok payload) \<Rightarrow>
          bind_res (eo_marshal \<lparr>eo_raw = None, eo_handle = handle, eo_payload = payload\<rparr>) (\<lambda>ech.
          Ok (st\<lparr>es_sealer := Some sealer\<rparr>, hello\<lparr>ch_raw := None, ch_ech := ech\<rparr>, helloInner))))))))))"

definition echSelectConfig :: "'pk ECHConfig list \<Rightarrow> 'pk ECHConfig option" where
  "echSelectConfig configs =
     find (\<lambda>c. (case selectSuite c of Ok _ \<Rightarrow> True | _ \<Rightarrow> False) \<and> ec_version c = extensionECH) configs"

definition echCanOffer :: "bool \<Rightarrow> 'pk ECHConfig list \<Rightarrow> u16 \<Rightarrow> bool" where
  "echCanOffer ECHEnabled configs maxSupportedVersion \<longleftrightarrow>
     ECHEnabled \<and> echSelectConfig configs \<noteq> None \<and> maxSupportedVersion \<ge> VersionTLS13"

text \<open>
  The arguments \<open>rnd1\<close>, \<open>rnd2\<close> and \<open>rnd3\<close> are what the three reads of the random source give, in their order. The
  dummy payload is as long as the sealed form of 100 bytes.
\<close>

definition dummyX25519PublicKey :: bytes where
  "dummyX25519PublicKey =
     [143, 38, 37, 36, 12, 6, 229, 30, 140, 27, 167, 73, 26, 100, 203, 107, 216,
      81, 163, 222, 52, 211, 54, 210, 46, 37, 78, 216, 157, 97, 241, 244]"

definition wrap_err :: "string \<Rightarrow> 'a res \<Rightarrow> 'a res" where
  "wrap_err msg r = (case r of Ok x \<Rightarrow> Ok x | Err e \<Rightarrow> Err (msg @ e) | Panic p \<Rightarrow> Panic p)"

definition echGenerateGreaseExt ::
    "('pk, 'sk) hpke_env \<Rightarrow> (nat \<Rightarrow> bytes res) \<Rightarrow> (nat \<Rightarrow> bytes res) \<Rightarrow> (nat \<Rightarrow> bytes res) \<Rightarrow> bytes res" where
  "echGenerateGreaseExt E rnd1 rnd2 rnd3 =
     bind_res defaultHPKESuite (\<lambda>suite.
     let (kem, kdf, aead) = suite_Params suite in
     bind_res (KEM_Scheme E kem) (\<lambda>scheme.
     bind_res (wrap_err ''tls: grease ech: failed to parse dummy public key: '' (UnmarshalBinaryPublicKey scheme dummyX25519PublicKey)) (\<lambda>pk.
     let sender = NewSender suite pk [] in
     bind_res (wrap_err ''tls: grease ech: '' (rnd1 1)) (\<lambda>randomByte.
     bind_res (wrap_err ''tls: grease ech: '' (snd (sender_Setup E rnd2 sender))) (\<lambda>(enc, _).
     bind_res (CipherLen aead 100) (\<lambda>payloadLen.
     bind_res (wrap_err ''tls: grease ech: '' (rnd3 payloadLen)) (\<lambda>payload.
     eo_marshal \<lparr>eo_raw = None,
       eo_handle = \<lparr>h_raw = None, h_suite = \<lparr>kdfId = kdf, aeadId = aead\<rparr>, h_configId = hd randomByte, h_enc = enc\<rparr>,
       eo_payload = payload\<rparr>)))))))"

text \<open>
  The decision of the client. \<open>fresh\<close> is the hello that \<^verbatim>\<open>makeClientHello\<close> returns for the outer handshake and \<open>sni\<close> is
  \<^verbatim>\<open>hostnameInSNI\<close>; the highest version the client supports is an argument as well. When the call fails the
  handshake ends.
\<close>

definition echOfferOrGrease ::
    "('pk, 'sk) hpke_env \<Rightarrow> bool \<Rightarrow> u16 \<Rightarrow> 'pk ECHConfig list \<Rightarrow> (nat \<Rightarrow> bytes res) \<Rightarrow> bytes res \<Rightarrow>
     clientHelloMsg res \<Rightarrow> (bytes \<Rightarrow> bytes) \<Rightarrow> ech_state \<Rightarrow> clientHelloMsg \<Rightarrow>
     (ech_state \<times> clientHelloMsg \<times> clientHelloMsg option) res" where
  "echOfferOrGrease E ECHEnabled maxSupportedVersion configs rnd grease fresh sni st helloBase =
     (if \<not> ECHEnabled then Ok (st, helloBase, None)
      else case (if maxSupportedVersion < VersionTLS13 then None else echSelectConfig configs) of
        None \<Rightarrow>
          bind_res (wrap_err ''tls: ech: failed to generate grease ECH: '' grease) (\<lambda>ech.
          Ok (st\<lparr>es_offered := False, es_greased := True\<rparr>, helloBase\<lparr>ch_ech := ech, ch_raw := None\<rparr>, None))
      | Some echConfig \<Rightarrow>
          let st = st\<lparr>es_configId := configId (ec_contents echConfig), es_maxNameLen := unat (maxNameLen (ec_contents echConfig))\<rparr> in
          bind_res (wrap_err ''tls: ech: '' (setupSealer E rnd echConfig)) (\<lambda>(enc, sealer).
          let st = st\<lparr>es_sealer := Some sealer\<rparr>;
              helloInner = helloBase\<lparr>ch_ech := [echClientHelloInnerVariant]\<rparr>;
              v = ch_supportedVersions helloInner
          in if length v = 0 \<or> v ! (length v - 1) < VersionTLS13
             then Err ''tls: ech: only TLS 1.3 is allowed in ClientHelloInner''
             else
               bind_res (wrap_err ''tls: ech: '' fresh) (\<lambda>hello.
               let hello = hello\<lparr>ch_sessionId := ch_sessionId helloBase, ch_serverName := sni (rawPublicName (ec_contents echConfig))\<rparr> in
               bind_res (echUpdateClientHelloOuter st hello helloInner enc) (\<lambda>(st, hello, helloInner).
               Ok (st\<lparr>es_offered := True\<rparr>, hello\<lparr>ch_raw := None\<rparr>, Some (helloInner\<lparr>ch_raw := None\<rparr>))))))"

section \<open>The server\<close>

text \<open>
  What a call of \<open>echAcceptOrReject\<close> does: the new state, the alert it sends, whether it reports a mismatch of the
  public name, whether the hello it returns was decrypted, and that hello or an error.
\<close>

record ech_result =
  er_state :: ech_state
  er_alert :: "u8 option"
  er_mismatch :: bool
  er_decrypted :: bool
  er_hello :: "clientHelloMsg res"

definition use_hello :: "ech_state \<Rightarrow> bool \<Rightarrow> bool \<Rightarrow> clientHelloMsg \<Rightarrow> ech_result" where
  "use_hello st mm dec hello = \<lparr>er_state = st, er_alert = None, er_mismatch = mm, er_decrypted = dec, er_hello = Ok hello\<rparr>"

definition abort :: "ech_state \<Rightarrow> bool \<Rightarrow> u8 \<Rightarrow> string \<Rightarrow> ech_result" where
  "abort st mm alert e = \<lparr>er_state = st, er_alert = Some alert, er_mismatch = mm, er_decrypted = False, er_hello = Err e\<rparr>"

definition no_alert :: "ech_state \<Rightarrow> bool \<Rightarrow> clientHelloMsg res \<Rightarrow> ech_result" where
  "no_alert st mm r = \<lparr>er_state = st, er_alert = None, er_mismatch = mm, er_decrypted = False, er_hello = r\<rparr>"

definition echCanAccept :: "bool \<Rightarrow> bool \<Rightarrow> u16 \<Rightarrow> bool" where
  "echCanAccept ECHEnabled hasProvider maxSupportedVersion \<longleftrightarrow> ECHEnabled \<and> hasProvider \<and> maxSupportedVersion \<ge> VersionTLS13"

text \<open>
  Decrypting the payload with the connection's opener.
\<close>

definition echDecrypt :: "ech_state \<Rightarrow> bool \<Rightarrow> encdecContext \<Rightarrow> clientHelloMsg \<Rightarrow> echClientOuter \<Rightarrow> bool \<Rightarrow> ech_result" where
  "echDecrypt st mm opener hello ech afterHRR =
     (case ch_marshal hello of
        (hello, Panic p) \<Rightarrow> no_alert st mm (Panic p)
      | (hello, Err e) \<Rightarrow> no_alert st mm (Err (''tls: ech: failed to marshal hello: '' @ e))
      | (hello, Ok helloMarshalled) \<Rightarrow>
     (case echEncodeClientHelloOuterAAD helloMarshalled (length (eo_payload ech)) of
        Panic p \<Rightarrow> no_alert st mm (Panic p)
      | Err e \<Rightarrow> no_alert st mm (Panic e)
      | Ok None \<Rightarrow> abort st mm alertInternalError ''ech: failed to encode ClientHelloOuterAAD''
      | Ok (Some rawHelloOuterAad) \<Rightarrow>
     (case ctx_Open opener (eo_payload ech) rawHelloOuterAad of
        (opener, Panic p) \<Rightarrow> no_alert (st\<lparr>es_opener := Some opener\<rparr>) mm (Panic p)
      | (opener, Err e) \<Rightarrow>
          let st = st\<lparr>es_opener := Some opener\<rparr> in
          if afterHRR \<and> es_accepted st then abort st mm alertDecryptError (''ech: hrr: reject after accept: '' @ e)
          else use_hello (st\<lparr>es_greased := True\<rparr>) mm False hello
      | (opener, Ok rawEncodedHelloInner) \<Rightarrow>
          let st = st\<lparr>es_opener := Some opener\<rparr> in
     (case echDecodeClientHelloInner rawEncodedHelloInner helloMarshalled (ch_sessionId hello) of
        Panic p \<Rightarrow> no_alert st mm (Panic p)
      | Err e \<Rightarrow> no_alert st mm (Panic e)
      | Ok None \<Rightarrow> abort st mm alertIllegalParameter ''ech: failed to decode EncodedClientHelloInner''
      | Ok (Some rawHelloInner) \<Rightarrow>
     (case ch_unmarshal rawHelloInner of
        None \<Rightarrow> abort st mm alertIllegalParameter ''ech: failed to parse ClientHelloInner''
      | Some helloInner \<Rightarrow>
          if length (ch_ech helloInner) \<noteq> 1 \<or> ch_ech helloInner ! 0 \<noteq> echClientHelloInnerVariant
          then abort st mm alertIllegalParameter ''ech: ClientHelloInner does not have a well-formed ECH extension''
          else if length (ch_supportedVersions helloInner) = 0 \<or> list_ex (\<lambda>v. v < VersionTLS13) (ch_supportedVersions helloInner)
          then abort st mm alertIllegalParameter ''ech: ClientHelloInner offers TLS 1.2 or below''
          else use_hello (st\<lparr>es_offered := True, es_accepted := True\<rparr>) mm True helloInner)))))"

text \<open>
  Asking the provider: either the call ends, or it continues with an opener. The provider is the argument \<open>p\<close>; in
  this repository it is \<^verbatim>\<open>GetDecryptionContext\<close> of a key set.
\<close>

definition echAskProvider ::
    "('pk, 'sk) hpke_env \<Rightarrow> (bytes \<Rightarrow> u16 \<Rightarrow> ECHProviderResult res) \<Rightarrow> ech_state \<Rightarrow> clientHelloMsg \<Rightarrow> echClientOuter \<Rightarrow>
     ech_result + (ech_state \<times> bool \<times> encdecContext)" where
  "echAskProvider E p st hello ech =
     (case bind_res (handle_marshal (eo_handle ech)) (\<lambda>h. p h extensionECH) of
        Panic e \<Rightarrow> Inl (no_alert st False (Panic e))
      | Err e \<Rightarrow> Inl (no_alert st False (Err e))
      | Ok res \<Rightarrow>
          let retry = (if length (pr_RetryConfigs res) > 0 then
                (case UnmarshalECHConfigs E (pr_RetryConfigs res) of
                   Panic e \<Rightarrow> Inl (no_alert st False (Panic e))
                 | Err e \<Rightarrow> Inl (abort st False alertInternalError (''ech: '' @ e))
                 | Ok configs \<Rightarrow>
                     let mm = \<not> list_ex (\<lambda>c. ch_serverName hello = rawPublicName (ec_contents c)) configs in
                     if length configs > 0 then
                       (case echMarshalConfigs configs of
                          Panic e \<Rightarrow> Inl (no_alert st False (Panic e))
                        | Err e \<Rightarrow> Inl (abort (st\<lparr>es_retryConfigs := []\<rparr>) False alertInternalError (''ech: '' @ e))
                        | Ok rc \<Rightarrow> Inr (st\<lparr>es_retryConfigs := rc\<rparr>, mm))
                     else Inr (st, mm))
              else Inr (st, False))
          in case retry of Inl r \<Rightarrow> Inl r
          | Inr (st, mm) \<Rightarrow>
              if pr_Status res = ECHProviderSuccess then
                (case UnmarshalOpener E (pr_Context res) of
                   Panic e \<Rightarrow> Inl (no_alert st mm (Panic e))
                 | Err e \<Rightarrow> Inl (abort st mm alertInternalError (''ech: '' @ e))
                 | Ok opener \<Rightarrow> Inr (st\<lparr>es_opener := Some opener\<rparr>, mm, opener))
              else if pr_Status res = ECHProviderReject then Inl (use_hello (st\<lparr>es_greased := True\<rparr>) mm False hello)
              else if pr_Status res = ECHProviderAbort then Inl (abort st mm (pr_Alert res) (''ech: provider aborted: '' @ pr_Error res))
              else Inl (abort st mm alertInternalError ''ech: unexpected provider status''))"

definition echAcceptOrReject ::
    "('pk, 'sk) hpke_env \<Rightarrow> bool \<Rightarrow> (bytes \<Rightarrow> u16 \<Rightarrow> ECHProviderResult res) \<Rightarrow> ech_state \<Rightarrow> clientHelloMsg \<Rightarrow> bool \<Rightarrow> ech_result" where
  "echAcceptOrReject E canAccept p st hello afterHRR =
     (if \<not> canAccept then use_hello st False False hello
      else if length (ch_ech hello) = 0 then
        if es_offered st then abort st False alertMissingExtension ''ech: hrr: bypass after offer''
        else use_hello st False False hello
      else if ch_ech hello ! 0 = echClientHelloInnerVariant then
        if length (ch_ech hello) > 1 then abort st False alertIllegalParameter ''ech: inner handshake has non-empty payload''
        else use_hello st False False hello
      else if ch_ech hello ! 0 \<noteq> echClientHelloOuterVariant then
        abort st False alertIllegalParameter ''ech: inner handshake has non-empty payload''
      else if afterHRR \<and> \<not> es_offered st \<and> \<not> es_greased st then
        abort st False alertIllegalParameter ''ech: hrr: offer or grease after bypass''
      else case echUnmarshalClientOuter (ch_ech hello) of
        Panic e \<Rightarrow> no_alert st False (Panic e)
      | Err e \<Rightarrow> abort st False alertIllegalParameter (''ech: failed to parse extension: '' @ e)
      | Ok ech \<Rightarrow>
          if afterHRR \<and> es_offered st \<and> es_opener st = None then no_alert st False (Panic ''nil opener'')
          else if afterHRR \<and> es_offered st \<and>
            (case suite_Params (c_suite (the (es_opener st))) of (_, kdf, aead) \<Rightarrow>
               kdfId (h_suite (eo_handle ech)) \<noteq> kdf \<or> aeadId (h_suite (eo_handle ech)) \<noteq> aead \<or>
               h_configId (eo_handle ech) \<noteq> es_configId st \<or> length (h_enc (eo_handle ech)) > 0)
          then abort st False alertIllegalParameter ''ech: hrr: illegal handle in second hello''
          else let st = st\<lparr>es_configId := h_configId (eo_handle ech)\<rparr> in
            case es_opener st of
              Some opener \<Rightarrow> echDecrypt st False opener hello ech afterHRR
            | None \<Rightarrow> (case echAskProvider E p st hello ech of
                Inl r \<Rightarrow> r
              | Inr (st, mm, opener) \<Rightarrow> echDecrypt st mm opener hello ech afterHRR))"

definition illegalClientHelloChange :: "clientHelloMsg \<Rightarrow> clientHelloMsg \<Rightarrow> bool" where
  "illegalClientHelloChange ch ch1 \<longleftrightarrow>
     ch_supportedVersions ch \<noteq> ch_supportedVersions ch1 \<or> ch_cipherSuites ch \<noteq> ch_cipherSuites ch1 \<or>
     ch_supportedCurves ch \<noteq> ch_supportedCurves ch1 \<or> ch_supportedSignatureAlgorithms ch \<noteq> ch_supportedSignatureAlgorithms ch1 \<or>
     ch_supportedSignatureAlgorithmsCert ch \<noteq> ch_supportedSignatureAlgorithmsCert ch1 \<or>
     ch_supportedSignatureAlgorithmsDC ch \<noteq> ch_supportedSignatureAlgorithmsDC ch1 \<or> ch_alpnProtocols ch \<noteq> ch_alpnProtocols ch1 \<or>
     ch_vers ch \<noteq> ch_vers ch1 \<or> ch_random ch \<noteq> ch_random ch1 \<or> ch_sessionId ch \<noteq> ch_sessionId ch1 \<or>
     ch_compressionMethods ch \<noteq> ch_compressionMethods ch1 \<or> ch_serverName ch \<noteq> ch_serverName ch1 \<or>
     ch_ocspStapling ch \<noteq> ch_ocspStapling ch1 \<or> ch_supportedPoints ch \<noteq> ch_supportedPoints ch1 \<or>
     ch_ticketSupported ch \<noteq> ch_ticketSupported ch1 \<or> ch_sessionTicket ch \<noteq> ch_sessionTicket ch1 \<or>
     ch_secureRenegotiationSupported ch \<noteq> ch_secureRenegotiationSupported ch1 \<or>
     ch_secureRenegotiation ch \<noteq> ch_secureRenegotiation ch1 \<or>
     ch_delegatedCredentialSupported ch \<noteq> ch_delegatedCredentialSupported ch1 \<or> ch_scts ch \<noteq> ch_scts ch1 \<or>
     ch_cookie ch \<noteq> ch_cookie ch1 \<or> ch_pskModes ch \<noteq> ch_pskModes ch1"

section \<open>The server's connection\<close>

text \<open>What \<^verbatim>\<open>doHelloRetryRequest\<close> requires of the second hello, after ECH has been resolved.\<close>

definition checkSecondHello :: "u16 \<Rightarrow> clientHelloMsg \<Rightarrow> clientHelloMsg \<Rightarrow> string option" where
  "checkSecondHello selectedGroup clientHello first =
     (if length (case ch_keyShares clientHello of None \<Rightarrow> [] | Some kss \<Rightarrow> kss) \<noteq> 1 \<or>
         ks_group (hd (the (ch_keyShares clientHello))) \<noteq> selectedGroup
      then Some ''tls: client sent invalid key share in second ClientHello''
      else if ch_earlyData clientHello then Some ''tls: client indicated early data in second ClientHello''
      else if illegalClientHelloChange clientHello first then Some ''tls: client illegally modified second ClientHello''
      else None)"

text \<open>
  The state is the connection's \<^verbatim>\<open>ech\<close> state with the hellos that are in use: for each whether it was decrypted and the
  message. Any message may arrive. The second hello is resolved with the configuration that
  \<^verbatim>\<open>GetConfigForClient\<close> has installed meanwhile, so that the step relation has two configurations: whether ECH can
  be accepted, and the provider.
\<close>

type_synonym ech_server = "bool \<times> (bytes \<Rightarrow> u16 \<Rightarrow> ECHProviderResult res)"

datatype conn =
    Start
  | First ech_state bool clientHelloMsg
  | Second ech_state bool clientHelloMsg bool clientHelloMsg
  | Closed ech_state
  | Crashed string

inductive server_step :: "('pk, 'sk) hpke_env \<Rightarrow> ech_server \<Rightarrow> ech_server \<Rightarrow> conn \<Rightarrow> conn \<Rightarrow> bool"
  for E cfg1 cfg2 where
  first: "r = echAcceptOrReject E (fst cfg1) (snd cfg1) ech_start hello False \<Longrightarrow> er_hello r = Ok h \<Longrightarrow>
    server_step E cfg1 cfg2 Start (First (er_state r) (er_decrypted r) h)"
| first_error: "r = echAcceptOrReject E (fst cfg1) (snd cfg1) ech_start hello False \<Longrightarrow> er_hello r = Err e \<Longrightarrow>
    server_step E cfg1 cfg2 Start (Closed (er_state r))"
| first_panic: "r = echAcceptOrReject E (fst cfg1) (snd cfg1) ech_start hello False \<Longrightarrow> er_hello r = Panic e \<Longrightarrow>
    server_step E cfg1 cfg2 Start (Crashed e)"
| second: "r = echAcceptOrReject E (fst cfg2) (snd cfg2) st hello True \<Longrightarrow> er_hello r = Ok h2 \<Longrightarrow> checkSecondHello g h2 h = None \<Longrightarrow>
    server_step E cfg1 cfg2 (First st d h) (Second (er_state r) d h (er_decrypted r) h2)"
| second_refused: "r = echAcceptOrReject E (fst cfg2) (snd cfg2) st hello True \<Longrightarrow> er_hello r = Ok h2 \<Longrightarrow>
    checkSecondHello g h2 h = Some e \<Longrightarrow> server_step E cfg1 cfg2 (First st d h) (Closed (er_state r))"
| second_error: "r = echAcceptOrReject E (fst cfg2) (snd cfg2) st hello True \<Longrightarrow> er_hello r = Err e \<Longrightarrow>
    server_step E cfg1 cfg2 (First st d h) (Closed (er_state r))"
| second_panic: "r = echAcceptOrReject E (fst cfg2) (snd cfg2) st hello True \<Longrightarrow> er_hello r = Panic e \<Longrightarrow>
    server_step E cfg1 cfg2 (First st d h) (Crashed e)"
| ech_required_first: "es_greased st \<Longrightarrow>
    server_step E cfg1 cfg2 (First st d h) (Closed (st\<lparr>es_offered := True, es_greased := False\<rparr>))"
| ech_required_second: "es_greased st \<Longrightarrow>
    server_step E cfg1 cfg2 (Second st d h d2 h2) (Closed (st\<lparr>es_offered := True, es_greased := False\<rparr>))"

definition ech_inv :: "ech_state \<Rightarrow> bool" where
  "ech_inv st \<longleftrightarrow> (es_offered st \<longleftrightarrow> es_accepted st) \<and> (es_offered st \<longrightarrow> es_opener st \<noteq> None)"

text \<open>A hello of the inner handshake.\<close>

definition inner_hello :: "clientHelloMsg \<Rightarrow> bool" where
  "inner_hello h \<longleftrightarrow> ch_ech h = [echClientHelloInnerVariant]"

definition tls13_only :: "clientHelloMsg \<Rightarrow> bool" where
  "tls13_only h \<longleftrightarrow> ch_supportedVersions h \<noteq> [] \<and> list_all (\<lambda>v. v \<ge> VersionTLS13) (ch_supportedVersions h)"

lemmas ech_outcomes = use_hello_def abort_def no_alert_def

lemma singleton_iff: "length xs = 1 \<and> xs ! 0 = x \<longleftrightarrow> xs = [x]"
  by (cases xs) auto

text \<open>The effect of a call on the state: it accepts, or it leaves the acceptance as it was.\<close>

definition same_acceptance :: "ech_state \<Rightarrow> ech_state \<Rightarrow> bool" where
  "same_acceptance st st' \<longleftrightarrow> es_offered st' = es_offered st \<and> es_accepted st' = es_accepted st \<and>
     (es_opener st \<noteq> None \<longrightarrow> es_opener st' \<noteq> None)"

definition accept_effect :: "ech_state \<Rightarrow> ech_result \<Rightarrow> bool" where
  "accept_effect st r \<longleftrightarrow>
     (if er_decrypted r then
        es_offered (er_state r) \<and> es_accepted (er_state r) \<and> es_opener (er_state r) \<noteq> None \<and>
        (\<exists>h. er_hello r = Ok h \<and> inner_hello h \<and> tls13_only h)
      else same_acceptance st (er_state r))"

lemma same_acceptance_refl [simp]: "same_acceptance st st"
  by (simp add: same_acceptance_def)

lemma same_acceptance_updates [simp]:
  "same_acceptance st (st'\<lparr>es_greased := b\<rparr>) = same_acceptance st st'"
  "same_acceptance st (st'\<lparr>es_configId := i\<rparr>) = same_acceptance st st'"
  "same_acceptance st (st'\<lparr>es_retryConfigs := c\<rparr>) = same_acceptance st st'"
  "same_acceptance st st' \<Longrightarrow> same_acceptance st (st'\<lparr>es_opener := Some op\<rparr>)"
  by (simp_all add: same_acceptance_def)

lemma same_acceptance_configId [simp]: "same_acceptance (st\<lparr>es_configId := i\<rparr>) st' = same_acceptance st st'"
  by (simp add: same_acceptance_def)

lemma accept_effect_configId [simp]: "accept_effect (st\<lparr>es_configId := i\<rparr>) r = accept_effect st r"
  by (simp add: accept_effect_def)

lemma same_acceptance_trans: "same_acceptance a b \<Longrightarrow> same_acceptance b c \<Longrightarrow> same_acceptance a c"
  by (simp add: same_acceptance_def)

lemma accept_effect_simps [simp]:
  "accept_effect st (abort st' mm a e) = same_acceptance st st'"
  "accept_effect st (no_alert st' mm r) = same_acceptance st st'"
  "accept_effect st (use_hello st' mm False h) = same_acceptance st st'"
  by (simp_all add: accept_effect_def ech_outcomes)

lemma er_decrypted_outcomes [simp]:
  "er_decrypted (abort st mm a e) = False" "er_decrypted (no_alert st mm r) = False" "er_decrypted (use_hello st mm d h) = d"
  by (simp_all add: ech_outcomes)

lemma accept_effect_accept:
  assumes "\<not> (length (ch_ech h) \<noteq> 1 \<or> ch_ech h ! 0 \<noteq> echClientHelloInnerVariant)"
    and "\<not> (length (ch_supportedVersions h) = 0 \<or> list_ex (\<lambda>v. v < VersionTLS13) (ch_supportedVersions h))" and "es_opener st' \<noteq> None"
  shows "accept_effect st (use_hello (st'\<lparr>es_offered := True, es_accepted := True\<rparr>) mm True h)"
  using assms singleton_iff [of "ch_ech h"]
  by (auto simp: accept_effect_def ech_outcomes inner_hello_def tls13_only_def list_ex_iff list_all_iff not_less)

lemma echDecrypt_effect: "accept_effect st (echDecrypt st mm opener hello ech afterHRR)"
  unfolding echDecrypt_def Let_def
  by (simp split: prod.split res.split option.split) (auto intro!: accept_effect_accept)

lemma echDecrypt_after_accept:
  assumes "es_accepted st" and "er_hello (echDecrypt st mm opener hello ech True) = Ok h"
  shows "er_decrypted (echDecrypt st mm opener hello ech True)"
  using assms unfolding echDecrypt_def Let_def
  by (auto simp: ech_outcomes split: prod.splits res.splits option.splits if_splits)

lemma echAskProvider_effect:
  "(case echAskProvider E p st hello ech of Inl r \<Rightarrow> accept_effect st r \<and> \<not> er_decrypted r
    | Inr (st', mm, op) \<Rightarrow> same_acceptance st st' \<and> es_opener st' = Some op)"
  unfolding echAskProvider_def Let_def
  by (simp split: res.split sum.split prod.split)

lemma accept_effect_trans: "same_acceptance st st' \<Longrightarrow> accept_effect st' r \<Longrightarrow> accept_effect st r"
  by (auto simp: accept_effect_def same_acceptance_def)

lemma echAcceptOrReject_effect: "accept_effect st (echAcceptOrReject E canAccept p st hello afterHRR)"
proof -
  have d: "same_acceptance st st' \<Longrightarrow> accept_effect st (echDecrypt st' mm opener hello ech hrr)" for st' mm opener ech hrr
    by (rule accept_effect_trans [OF _ echDecrypt_effect])
  have a: "accept_effect st (case echAskProvider E p (st\<lparr>es_configId := i\<rparr>) hello ech of Inl r \<Rightarrow> r
      | Inr (st', mm, op) \<Rightarrow> echDecrypt st' mm op hello ech hrr)" for i ech hrr
    using echAskProvider_effect [where E = E and p = p and st = "st\<lparr>es_configId := i\<rparr>" and hello = hello and ech = ech] d
    by (auto split: sum.splits)
  show ?thesis
    unfolding echAcceptOrReject_def Let_def by (simp add: a d split: res.split option.split)
qed

lemma echAcceptOrReject_after_accept:
  assumes "ech_inv st" and "es_offered st" and "er_hello (echAcceptOrReject E True p st hello True) = Ok h"
  shows "er_decrypted (echAcceptOrReject E True p st hello True) \<or> h = hello \<and> inner_hello hello"
proof -
  obtain op where op: "es_opener st = Some op" "es_accepted st"
    using assms(1,2) by (auto simp: ech_inv_def)
  have s: "length (ch_ech hello) \<noteq> 0 \<Longrightarrow> ch_ech hello ! 0 = echClientHelloInnerVariant \<Longrightarrow> \<not> length (ch_ech hello) > 1 \<Longrightarrow> inner_hello hello"
    by (cases "ch_ech hello") (auto simp: inner_hello_def)
  show ?thesis
    using assms(2,3) op s echDecrypt_after_accept [of "st\<lparr>es_configId := _\<rparr>" False op hello _ h]
    unfolding echAcceptOrReject_def Let_def
    by (auto simp: ech_outcomes split: res.splits if_splits)
qed


text \<open>Without an offer or grease before a HelloRetryRequest, nothing is decrypted after it.\<close>

lemma echAcceptOrReject_after_bypass:
  assumes "\<not> es_offered st" and "\<not> es_greased st"
  shows "\<not> er_decrypted (echAcceptOrReject E canAccept p st hello True)"
  using assms unfolding echAcceptOrReject_def by simp

lemma echDecrypt_greased: "es_greased st \<Longrightarrow> es_greased (er_state (echDecrypt st mm opener hello ech afterHRR))"
  unfolding echDecrypt_def Let_def by (simp add: ech_outcomes split: prod.split res.split option.split)

lemma echAskProvider_greased:
  "es_greased st \<Longrightarrow> (case echAskProvider E p st hello ech of Inl r \<Rightarrow> es_greased (er_state r) | Inr (st', mm, op) \<Rightarrow> es_greased st')"
  unfolding echAskProvider_def Let_def by (simp add: ech_outcomes split: res.split sum.split prod.split)

lemma echAcceptOrReject_greased:
  assumes "es_greased st"
  shows "es_greased (er_state (echAcceptOrReject E canAccept p st hello afterHRR))"
proof -
  have "es_greased (er_state (case echAskProvider E p (st\<lparr>es_configId := i\<rparr>) hello ech of Inl r \<Rightarrow> r
      | Inr (st', mm, op) \<Rightarrow> echDecrypt st' mm op hello ech hrr))" for i ech hrr
    using echAskProvider_greased [of "st\<lparr>es_configId := i\<rparr>" E p hello ech] assms echDecrypt_greased
    by (auto split: sum.splits)
  with assms show ?thesis
    unfolding echAcceptOrReject_def Let_def by (simp add: ech_outcomes echDecrypt_greased split: res.split option.split)
qed

lemma same_acceptance_inv: "same_acceptance st st' \<Longrightarrow> ech_inv st \<Longrightarrow> ech_inv st'"
  by (simp add: same_acceptance_def ech_inv_def)

lemma echAcceptOrReject_inv: "ech_inv st \<Longrightarrow> ech_inv (er_state (echAcceptOrReject E canAccept p st hello afterHRR))"
  using echAcceptOrReject_effect [of st E canAccept p hello afterHRR] same_acceptance_inv
  by (auto simp: accept_effect_def ech_inv_def split: if_splits)


section \<open>The invariant of a connection\<close>

definition conn_inv :: "ech_server \<Rightarrow> conn \<Rightarrow> bool" where
  "conn_inv cfg2 c = (case c of
     First st d h \<Rightarrow> ech_inv st \<and> (es_accepted st \<longleftrightarrow> d) \<and> (d \<longrightarrow> inner_hello h \<and> tls13_only h)
   | Second st d h d2 h2 \<Rightarrow>
       ech_inv st \<and> (es_accepted st \<longleftrightarrow> d \<or> d2) \<and> (d \<or> d2 \<longrightarrow> fst cfg2 \<longrightarrow> inner_hello h2 \<and> tls13_only h2) \<and>
       (d2 \<longrightarrow> fst cfg2 \<and> (d \<or> es_greased st)) \<and> \<not> illegalClientHelloChange h2 h
   | _ \<Rightarrow> True)"

lemma ech_start_inv: "ech_inv ech_start"
  by (simp add: ech_start_def ech_inv_def)

lemma ech_start_not_accepted: "\<not> es_accepted ech_start"
  by (simp add: ech_start_def)

lemma effect_decrypted:
  assumes r: "r = echAcceptOrReject E c p st hello afterHRR" and d: "er_decrypted r" "er_hello r = Ok h"
  shows "c \<and> inner_hello h \<and> tls13_only h \<and> es_accepted (er_state r)"
proof -
  have "c" using d(1) unfolding r by (rule contrapos_pp) (simp add: echAcceptOrReject_def)
  moreover have "accept_effect st r" unfolding r by (rule echAcceptOrReject_effect)
  ultimately show ?thesis using d by (simp add: accept_effect_def)
qed

lemma effect_accepted:
  assumes r: "r = echAcceptOrReject E c p st hello afterHRR" and h: "er_hello r = Ok h"
  shows "ech_inv st \<Longrightarrow> ech_inv (er_state r)" and "es_accepted (er_state r) \<longleftrightarrow> es_accepted st \<or> er_decrypted r"
proof -
  have "accept_effect st r" unfolding r by (rule echAcceptOrReject_effect)
  then show "es_accepted (er_state r) \<longleftrightarrow> es_accepted st \<or> er_decrypted r"
    using effect_decrypted [OF r] h by (cases "er_decrypted r") (auto simp: accept_effect_def same_acceptance_def)
qed (simp add: r echAcceptOrReject_inv)

lemma tls13_only_unchanged: "\<not> illegalClientHelloChange h2 h \<Longrightarrow> tls13_only h2 = tls13_only h"
  by (simp add: illegalClientHelloChange_def tls13_only_def)

lemma second_inv:
  assumes st: "ech_inv st" "es_accepted st \<longleftrightarrow> d" and h: "d \<longrightarrow> tls13_only h"
    and r: "r = echAcceptOrReject E c p st hello True" "er_hello r = Ok h2" and chk: "\<not> illegalClientHelloChange h2 h"
  shows "conn_inv (c, p) (Second (er_state r) d h (er_decrypted r) h2)"
proof -
  have new: "er_decrypted r \<Longrightarrow> c \<and> (d \<or> es_greased (er_state r))"
    using effect_decrypted [OF r(1) _ r(2)] echAcceptOrReject_after_bypass [of st E c p hello] echAcceptOrReject_greased [of st E c p hello True] st r(1)
    by (auto simp: ech_inv_def)
  have "inner_hello h2 \<and> tls13_only h2" if "d \<or> er_decrypted r" c
  proof (cases "er_decrypted r")
    case True
    then show ?thesis using effect_decrypted [OF r(1) _ r(2)] by blast
  next
    case False
    then have "inner_hello h2"
      using echAcceptOrReject_after_accept [OF st(1), of E p hello h2] that st r by (auto simp: ech_inv_def)
    with h that False tls13_only_unchanged [OF chk] show ?thesis by simp
  qed
  with new chk effect_accepted [OF r] st show ?thesis by (auto simp: conn_inv_def)
qed

lemma step_inv: "server_step E cfg1 cfg2 c c' \<Longrightarrow> conn_inv cfg2 c \<Longrightarrow> conn_inv cfg2 c'"
proof (induction rule: server_step.induct)
  case (first r hello h)
  then show ?case
    using effect_accepted [OF first(1,2)] ech_start_inv ech_start_not_accepted effect_decrypted [OF first(1) _ first(2)]
    by (auto simp: conn_inv_def)
next
  case (second r st hello h2 g h d)
  then show ?case
    using second_inv [of st d h r E "fst cfg2" "snd cfg2" hello h2]
    by (auto simp: conn_inv_def checkSecondHello_def split: if_splits)
qed (simp_all add: conn_inv_def)


section \<open>From the client to the server\<close>

subsection \<open>The extension in the outer hello\<close>

lemma ch_extensions_ech:
  "e \<noteq> [] \<Longrightarrow> ch_extensions (m\<lparr>ch_ech := e\<rparr>) = (extensionECH, e) # ch_extensions (m\<lparr>ch_ech := []\<rparr>)"
  by (simp add: ch_extensions_def ch_frontExtensions_def pskData_def) (simp add: optExt_def)

lemma no_ech_extension: "extensionECH \<notin> fst ` set (ch_extensions (m\<lparr>ch_ech := []\<rparr>))"
  by (auto simp: ch_extensions_def ch_frontExtensions_def extension_ids)

definition otherExts :: "clientHelloMsg \<Rightarrow> extension list" where
  "otherExts m = ch_extensions (m\<lparr>ch_ech := []\<rparr>)"

lemma otherExts_updates [simp]: "otherExts (m\<lparr>ch_ech := e\<rparr>) = otherExts m" "otherExts (m\<lparr>ch_raw := r\<rparr>) = otherExts m"
  by (simp_all add: otherExts_def ch_extensions_def ch_frontExtensions_def pskData_def)

lemma ch_fields_ech [simp]: "ch_fields (m\<lparr>ch_ech := e\<rparr>) = ch_fields m"
  by (simp add: ch_fields_def)

lemma wf_hello_ech:
  assumes "wf_hello (m\<lparr>ch_ech := []\<rparr>)" and "e \<noteq> []" and "length e + length (encExts (otherExts m)) < 65532"
  shows "wf_hello (m\<lparr>ch_ech := e\<rparr>)"
  using assms(1,3) unfolding wf_hello_def fits_hello_def ch_extensions_ech [OF assms(2)]
  by (simp add: otherExts_def length_encExt)

lemma length_encode_ech: "length (ch_encode (m\<lparr>ch_ech := e\<rparr>)) \<le> length (ch_encode (m\<lparr>ch_ech := []\<rparr>)) + length e + 6"
proof (cases "e = []")
  case False
  then show ?thesis by (simp add: ch_encode_def encHello_def ch_extensions_ech length_encExt)
qed simp

lemma enc_outer_not_Nil [simp]: "enc_outer h p \<noteq> []"
  by (simp add: enc_outer_def)

lemma length_enc_outer: "length (enc_outer h p) = length (h_enc h) + length p + 10"
  by (simp add: enc_outer_def enc_handle_def)

text \<open>The additional data of an outer hello whose payload has length \<open>n\<close>.\<close>

definition outerAad :: "echContextHandle \<Rightarrow> nat \<Rightarrow> clientHelloMsg \<Rightarrow> bytes" where
  "outerAad h n m = encFields (ch_fields m) @ pref16 (encExts ((extensionECH, enc_outer h (replicate n 0)) # otherExts m))"

lemma outerAad_spec:
  assumes wf: "wf_hello (m\<lparr>ch_ech := []\<rparr>)" and h: "handle_wf h"
    and room: "length (h_enc h) + n + length (encExts (otherExts m)) < 65522" and p: "length p \<le> n"
  shows "wf_hello (m\<lparr>ch_ech := enc_outer h p\<rparr>)"
    and "ch_encode (m\<lparr>ch_ech := enc_outer h p\<rparr>) = helloMsg typeClientHello (ch_fields m) ((extensionECH, enc_outer h p) # otherExts m)"
    and "echEncodeClientHelloOuterAAD (ch_encode (m\<lparr>ch_ech := enc_outer h p\<rparr>)) n = Ok (Some (outerAad h n m))"
proof -
  let ?m = "m\<lparr>ch_ech := enc_outer h p\<rparr>" and ?es = "(extensionECH, enc_outer h p) # otherExts m"
  show w: "wf_hello ?m"
    by (rule wf_hello_ech [OF wf]) (use room p in \<open>simp_all add: length_enc_outer\<close>)
  have es: "ch_extensions ?m = ?es" by (simp add: ch_extensions_ech otherExts_def)
  show enc: "ch_encode ?m = helloMsg typeClientHello (ch_fields m) ?es"
    using ch_encode_helloMsg [of ?m] by (simp add: es)
  have f: "wf_fields (ch_fields m)" "wf_exts ?es"
    using fits_wf [of ?m] w by (simp_all add: wf_hello_def es)
  have pl: "length p < 65536" using room p by simp
  have "map (blankPayload n) (otherExts m) = otherExts m \<and> list_all ech_parses (otherExts m)"
    using no_ech_extension [of m] blankPayload_other unfolding otherExts_def
    by (intro conjI map_idI; force simp: list_all_iff)
  then have b: "map (blankPayload n) ?es = (extensionECH, enc_outer h (replicate n 0)) # otherExts m" "list_all ech_parses ?es"
    using blankPayload_outer [OF h pl] by simp_all
  have "length (encExts ((extensionECH, enc_outer h (replicate n 0)) # otherExts m)) < 65536"
    using room by (simp add: length_encExt length_enc_outer)
  then show "echEncodeClientHelloOuterAAD (ch_encode ?m) n = Ok (Some (outerAad h n m))"
    using aad_helloMsg [OF f b(2), of n typeClientHello, unfolded b(1)] room by (simp add: enc outerAad_def)
qed

lemma eo_marshal_enc:
  assumes "handle_wf h" and "length p < 65536"
  shows "eo_marshal \<lparr>eo_raw = None, eo_handle = h, eo_payload = p\<rparr> = Ok (enc_outer h p)"
proof -
  have "appends (stmts [AddUint8 echClientHelloOuterVariant, AddBytes (enc_handle h), AddUint16LengthPrefixed (AddBytes p)])
      (enc8 echClientHelloOuterVariant @ enc_handle h @ pref16 p)"
    by (intro builder_intros) (use assms in simp)
  then show ?thesis
    by (simp add: eo_marshal_def handle_marshal_enc [OF assms(1)] runBytesOrPanic_appends enc_outer_def)
qed

text \<open>The encoded inner hello is at most 27 bytes longer than the inner hello.\<close>

lemma encodedInner_bound:
  assumes "wf_hello inner" and "ch_extensions inner \<noteq> []" and "length (encExts (ch_extensions inner)) < 65533"
  obtains enc where "echEncodeClientHelloInner (echOuterExtensions False False) (ch_encode inner) nameLen maxLen = Ok (Some enc)"
    and "length enc \<le> length (ch_encode inner) + 28"
proof -
  have f: "fits_hello inner" using assms(1) by (simp add: wf_hello_def)
  obtain enc c where e: "echEncodeClientHelloInner (echOuterExtensions False False) (ch_encode inner) nameLen maxLen = Ok (Some enc)"
      "c + keyShareLen inner = 40 + 2 * length (ch_cipherSuites inner) + length (ch_compressionMethods inner) +
         length (encExts (ch_extensions inner)) + (if ch_keyShares inner = None then 0 else 7)"
      "length enc = c + echPaddingLen c nameLen maxLen"
    by (rule encode_length [OF f assms(2,3)])
  have "echPaddingLen c nameLen maxLen \<le> 31" by (simp add: echPaddingLen_def Let_def)
  moreover have "keyShareLen inner \<ge> (if ch_keyShares inner = None then 0 else 6)" by (auto simp: keyShareLen_def)
  moreover have "length (ch_encode inner) = 44 + length (ch_sessionId inner) + 2 * length (ch_cipherSuites inner) +
      length (ch_compressionMethods inner) + length (encExts (ch_extensions inner))"
    using f by (simp add: ch_encode_helloMsg [OF assms(2)] helloMsg_def encFields_def ch_fields_def fits_hello_def)
  ultimately have "length enc \<le> length (ch_encode inner) + 28"
    using e(2,3) by (simp split: if_splits)
  with e(1) show thesis by (rule that)
qed


subsection \<open>The client's construction\<close>

definition clientHandle :: "ech_state \<Rightarrow> encdecContext \<Rightarrow> bytes \<Rightarrow> echContextHandle" where
  "clientHandle st c enc = (case suite_Params (c_suite c) of (_, kdf, aead) \<Rightarrow>
     \<lparr>h_raw = None, h_suite = \<lparr>kdfId = kdf, aeadId = aead\<rparr>, h_configId = es_configId st, h_enc = enc\<rparr>)"

text \<open>The outer hello with the key shares of the inner one.\<close>

definition outerOf :: "clientHelloMsg \<Rightarrow> clientHelloMsg \<Rightarrow> clientHelloMsg" where
  "outerOf hello inner = hello\<lparr>ch_keyShares := ch_keyShares inner, ch_raw := None\<rparr>"

text \<open>Every ciphertext is 16 bytes longer than its plaintext, as for all the AEADs of HPKE.\<close>

definition aead_overhead :: "aead \<Rightarrow> bool" where
  "aead_overhead A \<longleftrightarrow> (\<forall>n p a. length n = aead_NonceSize A \<longrightarrow> length (aead_Seal A n p a) = length p + 16)"

text \<open>Two hellos that fit the wire together: the sealed inner hello goes into the outer one.\<close>

definition hellos_fit :: "clientHelloMsg \<Rightarrow> clientHelloMsg \<Rightarrow> bytes \<Rightarrow> bool" where
  "hellos_fit hello inner enc \<longleftrightarrow> wf_hello inner \<and> ch_extensions inner \<noteq> [] \<and> wf_hello ((outerOf hello inner)\<lparr>ch_ech := []\<rparr>) \<and>
     ch_sessionId hello = ch_sessionId inner \<and>
     length (ch_encode inner) + length enc + length (encExts (otherExts (outerOf hello inner))) < 65460"

lemma marshal_or_encode: "wf_hello m \<Longrightarrow> ch_raw m = None \<Longrightarrow> marshal_or msg m = Ok (ch_encode m)"
  by (simp add: marshal_or_def wf_hello_def ch_marshal_encode)

lemma length_encExts_encode: "ch_extensions m \<noteq> [] \<Longrightarrow> length (encExts (ch_extensions m)) \<le> length (ch_encode m)"
  by (simp add: ch_encode_helloMsg helloMsg_def)

lemma seal_Ok:
  assumes "ctx_wf c" and "unbe (c_sequenceNumber c) + 1 < 256 ^ length (c_sequenceNumber c)"
  shows "\<exists>c' ct. ctx_Seal c pt aad = (c', Ok ct)"
  using seal_many_Ok [OF assms(1), of "[(pt, aad)]"] assms(2) by (auto split: prod.splits res.splits)

lemma bind_res_cong_weak: "r = r' \<Longrightarrow> bind_res r f = bind_res r' f"
  by simp

lemma update_outer:
  assumes s: "es_sealer st = Some c" "ctx_ok E c" "aead_overhead (c_aead c)"
      "unbe (c_sequenceNumber c) + 1 < 256 ^ length (c_sequenceNumber c)"
    and fit: "hellos_fit hello inner enc"
  defines "h \<equiv> clientHandle st c enc" and "m \<equiv> outerOf hello inner"
  obtains c' pt payload where
    "echUpdateClientHelloOuter st hello inner enc = Ok (st\<lparr>es_sealer := Some c'\<rparr>, m\<lparr>ch_ech := enc_outer h payload\<rparr>, inner\<lparr>ch_raw := None\<rparr>)"
    "echEncodeClientHelloInner (echOuterExtensions False False) (ch_encode inner) (length (ch_serverName inner)) (es_maxNameLen st) = Ok (Some pt)"
    "ctx_Seal c pt (outerAad h (length payload) m) = (c', Ok payload)"
    "length (h_enc h) + length payload + length (encExts (otherExts m)) < 65522" "handle_wf h" "length payload \<le> length (ch_encode inner) + 44"
proof -
  have w: "wf_hello inner" "ch_extensions inner \<noteq> []" "wf_hello (m\<lparr>ch_ech := []\<rparr>)"
    and room: "length (ch_encode inner) + length enc + length (encExts (otherExts m)) < 65460"
    using fit by (simp_all add: hellos_fit_def m_def)
  have x: "length (encExts (ch_extensions inner)) < 65533" using length_encExts_encode [OF w(2)] room by simp
  obtain pt where pt: "echEncodeClientHelloInner (echOuterExtensions False False) (ch_encode inner) (length (ch_serverName inner)) (es_maxNameLen st) = Ok (Some pt)"
      "length pt \<le> length (ch_encode inner) + 28"
    by (rule encodedInner_bound [OF w(1,2) x])
  let ?n = "length pt + 16"
  have e: "h_enc h = enc" "h_raw h = None" by (simp_all add: h_def clientHandle_def suite_Params_def)
  have h: "handle_wf h" using room by (simp add: handle_wf_def e)
  have r: "length (h_enc h) + ?n + length (encExts (otherExts m)) < 65522" using room pt(2) by (simp add: e)
  obtain c' payload where seal: "ctx_Seal c pt (outerAad h ?n m) = (c', Ok payload)"
    using seal_Ok [OF _ s(4)] s(2) unfolding ctx_ok_def by blast
  have len: "length payload = ?n"
    using ctx_Seal_Ok(1,2) [OF seal] s(2,3) by (simp add: ctx_ok_def aead_overhead_def ctx_wf_def)
  have aad: "echEncodeClientHelloOuterAAD (ch_encode (m\<lparr>ch_ech := enc_outer h []\<rparr>)) ?n = Ok (Some (outerAad h ?n m))"
    and wm: "wf_hello (m\<lparr>ch_ech := enc_outer h []\<rparr>)"
    using outerAad_spec [OF w(3) h r, of "[]"] by simp_all
  have cl: "CipherLen (aeadID (c_suite c)) (length pt) = Ok ?n"
    using s(2) by (simp add: CipherLen_def ctx_ok_def suite_isValid_def)
  have hd: "\<lparr>h_raw = None, h_suite = \<lparr>kdfId = kdfID (c_suite c), aeadId = aeadID (c_suite c)\<rparr>, h_configId = es_configId st, h_enc = enc\<rparr> = h"
    by (simp add: h_def clientHandle_def suite_Params_def)
  have mm: "hello\<lparr>ch_keyShares := ch_keyShares inner\<rparr>\<lparr>ch_keyShares := ch_keyShares inner\<rparr>\<lparr>ch_raw := None, ch_ech := y\<rparr> = m\<lparr>ch_ech := y\<rparr>" for y
    by (simp add: m_def outerOf_def)
  have nm: "ch_serverName (inner\<lparr>ch_raw := None\<rparr>) = ch_serverName inner" by simp
  have i: "marshal_or msg (inner\<lparr>ch_raw := None\<rparr>) = Ok (ch_encode inner)" for msg
    using marshal_or_encode [of "inner\<lparr>ch_raw := None\<rparr>"] w(1) by (simp add: wf_hello_def)
  have o: "marshal_or msg (m\<lparr>ch_ech := enc_outer h []\<rparr>) = Ok (ch_encode (m\<lparr>ch_ech := enc_outer h []\<rparr>))" for msg
    by (rule marshal_or_encode [OF wm]) (simp add: m_def outerOf_def)
  have cp: "copyOuterExtensions (echOuterExtensions False False) hello inner = Ok (hello\<lparr>ch_keyShares := ch_keyShares inner\<rparr>)"
    by (simp add: echOuterExtensions_def echCopyExtensionFromClientHelloInner_def extension_ids)
  have em: "eo_marshal \<lparr>eo_raw = None, eo_handle = h, eo_payload = []\<rparr> = Ok (enc_outer h [])"
      "eo_marshal \<lparr>eo_raw = None, eo_handle = h, eo_payload = payload\<rparr> = Ok (enc_outer h payload)"
    using eo_marshal_enc [OF h] len r by simp_all
  have "echUpdateClientHelloOuter st hello inner enc = Ok (st\<lparr>es_sealer := Some c'\<rparr>, m\<lparr>ch_ech := enc_outer h payload\<rparr>, inner\<lparr>ch_raw := None\<rparr>)"
    by (simp only: echUpdateClientHelloOuter_def s(1) option.case cp bind_res.simps Let_def suite_Params_def prod.case i nm
        pt(1) not_nil_def hd em mm o cl aad seal res.case cong: bind_res_cong_weak)
  moreover have "ctx_Seal c pt (outerAad h (length payload) m) = (c', Ok payload)"
    using seal by (simp add: len)
  moreover have "length payload \<le> length (ch_encode inner) + 44" using pt(2) len by linarith
  ultimately show thesis
    using pt(1) r [folded len] h by (intro that)
qed

text \<open>A context after one more message.\<close>

definition advanced :: "encdecContext \<Rightarrow> encdecContext \<Rightarrow> bool" where
  "advanced c c' \<longleftrightarrow> c_suite c' = c_suite c \<and> c_aead c' = c_aead c \<and>
     unbe (c_sequenceNumber c') = unbe (c_sequenceNumber c) + 1 \<and> length (c_sequenceNumber c') = length (c_sequenceNumber c)"

lemma seal_advanced:
  assumes "ctx_Seal c pt aad = (c', Ok ct)" and "ctx_ok E c"
  shows "advanced c c'"
proof -
  have "ctx_wf c" using assms(2) by (simp add: ctx_ok_def)
  note s = ctx_Seal_Ok [OF assms(1) this]
  have "c_suite c' = c_suite c" "c_aead c' = c_aead c" by (subst s(3), simp)+
  with s(4,5) show ?thesis by (simp add: advanced_def)
qed

subsection \<open>The server's decryption\<close>

lemma echUnmarshalClientOuter_enc:
  assumes "handle_wf h" and "length p < 65536"
  shows "echUnmarshalClientOuter (enc_outer h p) =
    Ok \<lparr>eo_raw = Some (enc_outer h p), eo_handle = h\<lparr>h_raw := Some (enc_handle h)\<rparr>, eo_payload = p\<rparr>"
  using assms by (auto simp: echUnmarshalClientOuter_Ok_iff)

lemma decrypt_outer:
  assumes m: "wf_hello (m\<lparr>ch_ech := []\<rparr>)" "handle_wf h" "length (h_enc h) + length payload + length (encExts (otherExts m)) < 65522"
    and inner: "wf_hello inner" "ch_extensions inner \<noteq> []" "length (encExts (ch_extensions inner)) < 65533" "inner_hello inner" "tls13_only inner"
    and same: "ch_keyShares m = ch_keyShares inner" "ch_sessionId m = ch_sessionId inner"
    and pt: "echEncodeClientHelloInner (echOuterExtensions False False) (ch_encode inner) nameLen maxLen = Ok (Some pt)"
    and opn: "ctx_Open opener payload (outerAad h (length payload) m) = (opener', Ok pt)"
    and ech: "eo_payload ech = payload"
  defines "hello \<equiv> m\<lparr>ch_ech := enc_outer h payload, ch_raw := Some (ch_encode (m\<lparr>ch_ech := enc_outer h payload\<rparr>))\<rparr>"
  shows "echDecrypt st mm opener hello ech afterHRR =
    use_hello (st\<lparr>es_opener := Some opener', es_offered := True, es_accepted := True\<rparr>) mm True (inner\<lparr>ch_raw := Some (ch_encode inner)\<rparr>)"
proof -
  let ?m = "m\<lparr>ch_ech := enc_outer h payload\<rparr>"
  note o = outerAad_spec [OF m(1,2,3) order_refl]
  have f: "fits_hello inner" "fits_hello ?m" using inner(1) o(1) by (simp_all add: wf_hello_def)
  have k: "ok_outer (echOuterExtensions False False) (ch_extensions inner) (ch_extensions ?m)"
    by (rule ok_outer_keyShare) (simp add: same)
  have es: "ch_extensions ?m \<noteq> []" by (simp add: ch_extensions_ech)
  obtain enc where "echEncodeClientHelloInner (echOuterExtensions False False) (ch_encode inner) nameLen maxLen = Ok (Some enc)"
      "echDecodeClientHelloInner enc (ch_encode ?m) (ch_sessionId inner) = Ok (Some (ch_encode inner))"
    using inner_roundtrip [OF k, of "ch_fields inner" "ch_fields ?m" "ch_sessionId inner" nameLen maxLen typeClientHello]
      fits_wf [OF f(1)] fits_wf [OF f(2)] inner(3)
    by (auto simp: ch_encode_helloMsg [OF inner(2)] ch_encode_helloMsg [OF es]) (auto simp: ch_fields_def)
  then have dec: "echDecodeClientHelloInner pt (ch_encode ?m) (ch_sessionId inner) = Ok (Some (ch_encode inner))"
    using pt by simp
  have g: "length (ch_ech inner) = 1" "ch_ech inner ! 0 = echClientHelloInnerVariant" "ch_supportedVersions inner \<noteq> []"
      "\<not> list_ex (\<lambda>v. v < VersionTLS13) (ch_supportedVersions inner)"
    using inner(4,5) by (auto simp: inner_hello_def tls13_only_def list_all_iff list_ex_iff)
  show ?thesis
    unfolding echDecrypt_def hello_def
    by (simp add: ch_marshal_def o(3) ech opn dec same(2) ch_unmarshal_encode [OF inner(1)] g Let_def)
qed


text \<open>
  A server that holds an opener paired with the client's sealer, or gets it from the provider, accepts the
  client's outer hello.
\<close>

lemma server_accepts:
  assumes c: "es_sealer cst = Some c" "ctx_ok E c" "aead_overhead (c_aead c)"
      "unbe (c_sequenceNumber c) + 1 < 256 ^ length (c_sequenceNumber c)" "paired c opener"
    and fit: "hellos_fit hello inner enc" and i: "inner_hello inner" "tls13_only inner"
  defines "h \<equiv> clientHandle cst c enc"
  obtains c' opener' outer bs m ech where
    "echUpdateClientHelloOuter cst hello inner enc = Ok (cst\<lparr>es_sealer := Some c'\<rparr>, outer, inner\<lparr>ch_raw := None\<rparr>)" "paired c' opener'"
    "ctx_ok E c'" "advanced c c'" "outer = (outerOf hello inner)\<lparr>ch_ech := ch_ech outer\<rparr>" "wf_hello outer" "length (ch_ech outer) \<le> length (ch_encode inner) + length enc + 54"
    "snd (ch_marshal outer) = Ok bs" "ch_unmarshal bs = Some m" "ch_ech m \<noteq> []" "ch_ech m ! 0 = echClientHelloOuterVariant"
    "echUnmarshalClientOuter (ch_ech m) = Ok ech" "eo_handle ech = h\<lparr>h_raw := Some (enc_handle h)\<rparr>" "handle_wf h"
    "\<And>st mm hrr. echDecrypt st mm opener m ech hrr =
      use_hello (st\<lparr>es_opener := Some opener', es_offered := True, es_accepted := True\<rparr>) mm True (inner\<lparr>ch_raw := Some (ch_encode inner)\<rparr>)"
proof -
  let ?m = "outerOf hello inner"
  obtain c' pt payload where x: "echUpdateClientHelloOuter cst hello inner enc =
        Ok (cst\<lparr>es_sealer := Some c'\<rparr>, ?m\<lparr>ch_ech := enc_outer h payload\<rparr>, inner\<lparr>ch_raw := None\<rparr>)"
      "echEncodeClientHelloInner (echOuterExtensions False False) (ch_encode inner) (length (ch_serverName inner)) (es_maxNameLen cst) = Ok (Some pt)"
      "ctx_Seal c pt (outerAad h (length payload) ?m) = (c', Ok payload)"
      "length (h_enc h) + length payload + length (encExts (otherExts ?m)) < 65522" "handle_wf h" "length payload \<le> length (ch_encode inner) + 44"
    using update_outer [OF c(1-4) fit, folded h_def] by blast
  obtain opener' where o: "ctx_Open opener payload (outerAad h (length payload) ?m) = (opener', Ok pt)" "paired c' opener'"
    using open_sealed [OF x(3) c(5)] c(2) unfolding ctx_ok_def by blast
  have w: "wf_hello inner" "ch_extensions inner \<noteq> []" "wf_hello (?m\<lparr>ch_ech := []\<rparr>)"
      "length (encExts (ch_extensions inner)) < 65533" "ch_keyShares ?m = ch_keyShares inner" "ch_sessionId ?m = ch_sessionId inner"
    using fit length_encExts_encode [of inner] by (simp_all add: hellos_fit_def) (simp_all add: outerOf_def)
  let ?o = "?m\<lparr>ch_ech := enc_outer h payload\<rparr>"
  have wo: "wf_hello ?o" "ch_raw ?o = None"
    using outerAad_spec(1) [OF w(3) x(5,4) order_refl] by (simp_all add: outerOf_def)
  have p: "length payload < 65536" using x(4) by simp
  have e: "h_enc h = enc" by (simp add: h_def clientHandle_def suite_Params_def)
  show thesis
  proof (rule that [where outer = ?o and bs = "ch_encode ?o" and m = "?o\<lparr>ch_raw := Some (ch_encode ?o)\<rparr>" and c' = c' and opener' = opener'
        and ech = "\<lparr>eo_raw = Some (enc_outer h payload), eo_handle = h\<lparr>h_raw := Some (enc_handle h)\<rparr>, eo_payload = payload\<rparr>"])
    show "snd (ch_marshal ?o) = Ok (ch_encode ?o)"
      using wo by (simp add: ch_marshal_encode wf_hello_def)
    show "ch_unmarshal (ch_encode ?o) = Some (?o\<lparr>ch_raw := Some (ch_encode ?o)\<rparr>)"
      by (rule ch_unmarshal_encode [OF wo(1)])
    show "echDecrypt st mm opener (?o\<lparr>ch_raw := Some (ch_encode ?o)\<rparr>)
        \<lparr>eo_raw = Some (enc_outer h payload), eo_handle = h\<lparr>h_raw := Some (enc_handle h)\<rparr>, eo_payload = payload\<rparr> hrr =
      use_hello (st\<lparr>es_opener := Some opener', es_offered := True, es_accepted := True\<rparr>) mm True (inner\<lparr>ch_raw := Some (ch_encode inner)\<rparr>)" for st mm hrr
      by (rule decrypt_outer [OF w(3) x(5,4) w(1,2,4) i w(5,6) x(2) o(1)]) simp
    show "ch_ech (?o\<lparr>ch_raw := Some (ch_encode ?o)\<rparr>) ! 0 = echClientHelloOuterVariant"
      by (simp add: enc_outer_def enc8_def be.simps echClientHelloOuterVariant_def)
  qed (use x(6) in \<open>simp_all add: x(1,5) o(2) length_enc_outer e echUnmarshalClientOuter_enc [OF x(5) p] seal_ctx_ok [OF x(3) c(2)] seal_advanced [OF x(3) c(2)] wo(1) [simplified]\<close>)
qed


subsection \<open>The server's decision\<close>

lemma echAskProvider_opens:
  assumes "handle_marshal (eo_handle ech) = Ok h" "p h extensionECH = Ok res" "pr_Status res = ECHProviderSuccess"
    and "UnmarshalOpener E (pr_Context res) = Ok opener" "UnmarshalECHConfigs E (pr_RetryConfigs res) = Ok configs"
    and "echMarshalConfigs configs = Ok rc"
  shows "\<exists>st' mm. echAskProvider E p st hello ech = Inr (st', mm, opener) \<and> es_opener st' = Some opener \<and> es_configId st' = es_configId st"
  using assms unfolding echAskProvider_def by (simp add: Let_def) blast

lemma handle_marshal_raw: "handle_marshal (h\<lparr>h_raw := Some r\<rparr>) = Ok r"
  by (simp add: handle_marshal_def)

text \<open>The outcome of an accepted offer.\<close>

definition accepts :: "ech_result \<Rightarrow> encdecContext \<Rightarrow> u8 \<Rightarrow> clientHelloMsg \<Rightarrow> bool" where
  "accepts r opener cid inner \<longleftrightarrow> er_decrypted r \<and> er_alert r = None \<and> er_hello r = Ok (inner\<lparr>ch_raw := Some (ch_encode inner)\<rparr>) \<and>
     es_offered (er_state r) \<and> es_accepted (er_state r) \<and> es_opener (er_state r) = Some opener \<and> es_configId (er_state r) = cid"

lemma accepts_use_hello:
  "es_configId st = cid \<Longrightarrow> accepts (use_hello (st\<lparr>es_opener := Some opener, es_offered := True, es_accepted := True\<rparr>) mm True
     (inner\<lparr>ch_raw := Some (ch_encode inner)\<rparr>)) opener cid inner"
  by (simp add: accepts_def use_hello_def)

lemma first_hello_accepted:
  assumes c: "es_sealer cst = Some c" "ctx_ok E c" "aead_overhead (c_aead c)"
      "unbe (c_sequenceNumber c) + 1 < 256 ^ length (c_sequenceNumber c)" "paired c opener"
    and fit: "hellos_fit hello inner enc" and i: "inner_hello inner" "tls13_only inner"
    and p: "handle_marshal (clientHandle cst c enc) = Ok h" "p h extensionECH = Ok res" "pr_Status res = ECHProviderSuccess"
      "UnmarshalOpener E (pr_Context res) = Ok opener" "UnmarshalECHConfigs E (pr_RetryConfigs res) = Ok configs"
      "echMarshalConfigs configs = Ok rc"
    and st: "es_opener st = None" "afterHRR \<Longrightarrow> \<not> es_offered st \<and> es_greased st"
  obtains c' opener' outer bs m where
    "echUpdateClientHelloOuter cst hello inner enc = Ok (cst\<lparr>es_sealer := Some c'\<rparr>, outer, inner\<lparr>ch_raw := None\<rparr>)"
    "outer = (outerOf hello inner)\<lparr>ch_ech := ch_ech outer\<rparr>" "wf_hello outer" "length (ch_ech outer) \<le> length (ch_encode inner) + length enc + 54" "snd (ch_marshal outer) = Ok bs" "ch_unmarshal bs = Some m"
    "paired c' opener'" "ctx_ok E c'" "advanced c c'"
    "accepts (echAcceptOrReject E True p st m afterHRR) opener' (es_configId cst) inner"
proof -
  let ?h = "clientHandle cst c enc"
  obtain c' opener' outer bs m ech where s:
    "echUpdateClientHelloOuter cst hello inner enc = Ok (cst\<lparr>es_sealer := Some c'\<rparr>, outer, inner\<lparr>ch_raw := None\<rparr>)" "paired c' opener'"
    "ctx_ok E c'" "advanced c c'" "outer = (outerOf hello inner)\<lparr>ch_ech := ch_ech outer\<rparr>" "wf_hello outer" "length (ch_ech outer) \<le> length (ch_encode inner) + length enc + 54" "snd (ch_marshal outer) = Ok bs" "ch_unmarshal bs = Some m"
    and m: "ch_ech m \<noteq> []" "ch_ech m ! 0 = echClientHelloOuterVariant"
    "echUnmarshalClientOuter (ch_ech m) = Ok ech" "eo_handle ech = ?h\<lparr>h_raw := Some (enc_handle ?h)\<rparr>" "handle_wf ?h"
    and d: "\<And>st mm hrr. echDecrypt st mm opener m ech hrr =
      use_hello (st\<lparr>es_opener := Some opener', es_offered := True, es_accepted := True\<rparr>) mm True (inner\<lparr>ch_raw := Some (ch_encode inner)\<rparr>)"
    by (rule server_accepts [OF c fit i]) (rule that)
  have cid: "h_configId (eo_handle ech) = es_configId cst"
    by (simp add: m(4) clientHandle_def suite_Params_def)
  have "handle_marshal (eo_handle ech) = Ok h"
    using p(1) handle_marshal_enc [OF m(5)] by (simp add: m(4) handle_marshal_raw)
  from echAskProvider_opens [where p = p, OF this p(2-6), of "st\<lparr>es_configId := es_configId cst\<rparr>" m]
  obtain st' mm where a: "echAskProvider E p (st\<lparr>es_configId := es_configId cst\<rparr>) m ech = Inr (st', mm, opener)"
      "es_configId st' = es_configId cst"
    by auto
  have "echAcceptOrReject E True p st m afterHRR = echDecrypt st' mm opener m ech afterHRR"
    unfolding echAcceptOrReject_def using m(1-3) cid a(1) st
    by (auto simp: echClientHelloOuterVariant_def echClientHelloInnerVariant_def Let_def)
  with s a(2) show thesis
    by (intro that [of c' outer bs m opener']) (simp_all add: d accepts_use_hello)
qed

text \<open>After a HelloRetryRequest the encapsulated key is not sent again; both contexts continue.\<close>

lemma second_hello_accepted:
  assumes c: "es_sealer cst = Some c" "ctx_ok E c" "aead_overhead (c_aead c)"
      "unbe (c_sequenceNumber c) + 1 < 256 ^ length (c_sequenceNumber c)" "paired c opener"
    and fit: "hellos_fit hello inner []" and i: "inner_hello inner" "tls13_only inner"
    and st: "es_opener st = Some opener" "es_offered st" "es_configId st = es_configId cst"
  obtains c' opener' outer bs m where
    "echUpdateClientHelloOuter cst hello inner [] = Ok (cst\<lparr>es_sealer := Some c'\<rparr>, outer, inner\<lparr>ch_raw := None\<rparr>)"
    "snd (ch_marshal outer) = Ok bs" "ch_unmarshal bs = Some m"
    "accepts (echAcceptOrReject E True p st m True) opener' (es_configId cst) inner"
proof -
  let ?h = "clientHandle cst c []"
  obtain c' opener' outer bs m ech where s:
    "echUpdateClientHelloOuter cst hello inner [] = Ok (cst\<lparr>es_sealer := Some c'\<rparr>, outer, inner\<lparr>ch_raw := None\<rparr>)" "paired c' opener'"
    "ctx_ok E c'" "advanced c c'" "outer = (outerOf hello inner)\<lparr>ch_ech := ch_ech outer\<rparr>" "wf_hello outer" "length (ch_ech outer) \<le> length (ch_encode inner) + length ([] :: bytes) + 54" "snd (ch_marshal outer) = Ok bs" "ch_unmarshal bs = Some m"
    and m: "ch_ech m \<noteq> []" "ch_ech m ! 0 = echClientHelloOuterVariant"
    "echUnmarshalClientOuter (ch_ech m) = Ok ech" "eo_handle ech = ?h\<lparr>h_raw := Some (enc_handle ?h)\<rparr>" "handle_wf ?h"
    and d: "\<And>st mm hrr. echDecrypt st mm opener m ech hrr =
      use_hello (st\<lparr>es_opener := Some opener', es_offered := True, es_accepted := True\<rparr>) mm True (inner\<lparr>ch_raw := Some (ch_encode inner)\<rparr>)"
    by (rule server_accepts [OF c fit i]) (rule that)
  have h: "h_configId (eo_handle ech) = es_configId cst" "h_enc (eo_handle ech) = []"
      "kdfId (h_suite (eo_handle ech)) = kdfID (c_suite opener)" "aeadId (h_suite (eo_handle ech)) = aeadID (c_suite opener)"
    using c(5) by (simp_all add: m(4) clientHandle_def suite_Params_def paired_def)
  have "echAcceptOrReject E True p st m True = echDecrypt (st\<lparr>es_configId := es_configId cst\<rparr>) False opener m ech True"
    unfolding echAcceptOrReject_def using m(1-3) h st
    by (auto simp: echClientHelloOuterVariant_def echClientHelloInnerVariant_def Let_def suite_Params_def)
  with s show thesis
    by (intro that [of c' outer bs m opener']) (simp_all add: d accepts_use_hello)
qed


lemma setupSealer_ctx:
  assumes "setupSealer E rnd config = Ok (enc, c)" and "env_ok E"
  shows "ctx_ok E c" and "c_sequenceNumber c = replicate 12 0"
  by (rule setupSealer_Ok [OF assms(1)], simp add: sender_Setup_ctx [OF _ assms(2)])+

lemma ctx_ok_overhead:
  assumes "ctx_ok E c" and "\<forall>a k A. env_aead E a k = Ok A \<longrightarrow> aead_overhead A"
  shows "aead_overhead (c_aead c)"
  using assms by (auto simp: ctx_ok_def AEAD_New_def split: if_splits)

text \<open>The hellos of an offer: the base hello with the inner extension, and the fresh one with the public name.\<close>

definition innerOf :: "clientHelloMsg \<Rightarrow> clientHelloMsg" where
  "innerOf helloBase = helloBase\<lparr>ch_ech := [echClientHelloInnerVariant]\<rparr>"

definition freshOuter :: "clientHelloMsg \<Rightarrow> bytes \<Rightarrow> clientHelloMsg \<Rightarrow> clientHelloMsg" where
  "freshOuter helloBase publicName hello = hello\<lparr>ch_sessionId := ch_sessionId helloBase, ch_serverName := publicName\<rparr>"

definition offerState :: "ech_state \<Rightarrow> 'pk ECHConfig \<Rightarrow> encdecContext \<Rightarrow> ech_state" where
  "offerState st config c =
     st\<lparr>es_configId := configId (ec_contents config), es_maxNameLen := unat (maxNameLen (ec_contents config)), es_sealer := Some c\<rparr>"

lemma offer_update:
  assumes sel: "echSelectConfig configs = Some config" "maxVersion \<ge> VersionTLS13" and t: "tls13_only helloBase"
    and seal: "setupSealer E rnd config = Ok (enc, c)"
    and u: "echUpdateClientHelloOuter (offerState cst config c) (freshOuter helloBase (sni (rawPublicName (ec_contents config))) hello)
      (innerOf helloBase) enc = Ok (cst', outer, inner)"
    and r: "ch_raw outer = None" "ch_raw inner = None"
  shows "echOfferOrGrease E True maxVersion configs rnd grease (Ok hello) sni cst helloBase = Ok (cst'\<lparr>es_offered := True\<rparr>, outer, Some inner)"
proof -
  let ?v = "ch_supportedVersions helloBase"
  have "?v \<noteq> []" "\<forall>x \<in> set ?v. \<not> x < VersionTLS13" "\<not> maxVersion < VersionTLS13"
    using t sel(2) by (auto simp: tls13_only_def list_all_iff)
  moreover from this have "\<not> ?v ! (length ?v - 1) < VersionTLS13" by simp
  moreover have "outer\<lparr>ch_raw := None\<rparr> = outer" "inner\<lparr>ch_raw := None\<rparr> = inner" using r by simp_all
  ultimately show ?thesis
    using sel seal u
    by (simp add: echOfferOrGrease_def wrap_err_def offerState_def freshOuter_def innerOf_def Let_def cong: bind_res_cong_weak)
qed

lemma offer_accepted:
  assumes E: "env_ok E" "\<forall>a k A. env_aead E a k = Ok A \<longrightarrow> aead_overhead A"
    and ks: "EXP_NewECHKeySet keys = Ok ks" "key \<in> set keys" "\<forall>k \<in> set keys. config_ok E (key_config k)"
    and K: "kem_contract (env_kem E (kemId (ec_contents (key_config key)))) m" "m (ec_pk (key_config key)) (key_sk key) seed"
      "rnd (EncapsulationSeedSize (env_kem E (kemId (ec_contents (key_config key))))) = Ok seed"
      "CiphertextSize (env_kem E (kemId (ec_contents (key_config key)))) < 65536"
    and seal: "setupSealer E rnd (key_config key) = Ok (enc, c)"
    and sel: "echSelectConfig configs = Some (key_config key)" "maxVersion \<ge> VersionTLS13"
    and hello: "tls13_only helloBase"
      "hellos_fit (freshOuter helloBase (sni (rawPublicName (ec_contents (key_config key)))) hello) (innerOf helloBase) enc"
    and st: "es_opener st = None" "afterHRR \<longrightarrow> \<not> es_offered st \<and> es_greased st"
  obtains cst' c' opener outer bs msg where
    "echOfferOrGrease E True maxVersion configs rnd grease (Ok hello) sni cst helloBase = Ok (cst', outer, Some (innerOf helloBase\<lparr>ch_raw := None\<rparr>))"
    "es_offered cst'" "es_sealer cst' = Some c'" "es_configId cst' = configId (ec_contents (key_config key))"
    "outer = (outerOf (freshOuter helloBase (sni (rawPublicName (ec_contents (key_config key)))) hello) (innerOf helloBase))\<lparr>ch_ech := ch_ech outer\<rparr>" "wf_hello outer"
    "length (ch_ech outer) \<le> length (ch_encode (innerOf helloBase)) + length enc + 54"
    "snd (ch_marshal outer) = Ok bs" "ch_unmarshal bs = Some msg" "paired c' opener" "ctx_ok E c'" "aead_overhead (c_aead c')"
    "unbe (c_sequenceNumber c') + 1 < 256 ^ length (c_sequenceNumber c')"
    "accepts (echAcceptOrReject E True (GetDecryptionContext E ks) st msg afterHRR) opener (configId (ec_contents (key_config key))) (innerOf helloBase)"
proof -
  let ?cfg = "key_config key" and ?inner = "innerOf helloBase" and ?p = "GetDecryptionContext E ks"
  let ?hello = "freshOuter helloBase (sni (rawPublicName (ec_contents ?cfg))) hello" and ?cst = "offerState cst (key_config key) c"
  have v: "ec_version ?cfg = extensionECH" using ks(2,3) by (auto simp: config_ok_def)
  obtain h res opener where p: "handle_marshal (client_handle ?cfg enc c) = Ok h" "?p h extensionECH = Ok res"
      "pr_Status res = ECHProviderSuccess" "UnmarshalOpener E (pr_Context res) = Ok opener" "paired c opener"
    using provider_opens [OF E(1) ks(1,2) v K seal] by blast
  have rc: "UnmarshalECHConfigs E (pr_RetryConfigs res) = Ok (map key_config keys)"
      "echMarshalConfigs (map key_config keys) = Ok (pref16 (raws (map key_config keys)))"
    using provider_retry_configs [OF ks(1) p(2) ks(3)] echMarshalConfigs_ok [of "map key_config keys" E] ks
    by (auto simp: EXP_NewECHKeySet_spec split: if_splits)
  note c = setupSealer_ctx [OF seal E(1)]
  have ov: "aead_overhead (c_aead c)" by (rule ctx_ok_overhead [OF c(1) E(2)])
  have i: "inner_hello ?inner" "tls13_only ?inner"
    using hello(1) by (simp_all add: innerOf_def inner_hello_def tls13_only_def)
  have cst: "es_sealer ?cst = Some c" "es_configId ?cst = configId (ec_contents ?cfg)" "clientHandle ?cst c enc = client_handle ?cfg enc c"
    by (simp_all add: offerState_def clientHandle_def client_handle_def)
  have u: "unbe (c_sequenceNumber c) + 1 < 256 ^ length (c_sequenceNumber c)" by (simp add: c(2))
  obtain c' opener' outer bs msg where f:
    "echUpdateClientHelloOuter ?cst ?hello ?inner enc = Ok (?cst\<lparr>es_sealer := Some c'\<rparr>, outer, ?inner\<lparr>ch_raw := None\<rparr>)"
    "outer = (outerOf ?hello ?inner)\<lparr>ch_ech := ch_ech outer\<rparr>" "wf_hello outer" "length (ch_ech outer) \<le> length (ch_encode ?inner) + length enc + 54"
    "snd (ch_marshal outer) = Ok bs" "ch_unmarshal bs = Some msg" "paired c' opener'" "ctx_ok E c'" "advanced c c'"
    "accepts (echAcceptOrReject E True ?p st msg afterHRR) opener' (es_configId ?cst) ?inner"
    by (rule first_hello_accepted [where p = ?p and afterHRR = afterHRR, OF cst(1) c(1) ov u p(5) hello(2) i p(1) [folded cst(3)] p(2-4) rc st(1)])
      (use st(2) in \<open>simp\<close>, rule that)
  have raw: "ch_raw outer = None" by (subst f(2)) (simp add: outerOf_def)
  show thesis
  proof (rule that [where cst' = "?cst\<lparr>es_sealer := Some c', es_offered := True\<rparr>" and c' = c', OF _ _ _ _ f(2-8)])
    show "echOfferOrGrease E True maxVersion configs rnd grease (Ok hello) sni cst helloBase =
        Ok (?cst\<lparr>es_sealer := Some c', es_offered := True\<rparr>, outer, Some (?inner\<lparr>ch_raw := None\<rparr>))"
      using offer_update [where sni = sni, OF sel hello(1) seal f(1) raw] by simp
  qed (use f(9,10) cst(2) ov c(2) in \<open>simp_all add: advanced_def\<close>)
qed

text \<open>C9: a server accepts what a client offers. Let the client select a configuration of the server's key set, with a
  KEM that meets its contract and AEADs that add 16 bytes, and let the two hellos fit the wire. Then
  echOfferOrGrease succeeds and records the offer; the outer hello is marshalled and unmarshalled, and the server, with
  the key set as its provider, decrypts it and continues with exactly the inner hello, without an alert. If a
  HelloRetryRequest follows, the client's second pair of hellos, which reuses the HPKE context and sends no encapsulated
  key, is accepted as well. The server's state before the first hello may also be that of a rejected one
  before a HelloRetryRequest: an offer is then accepted although the first hello was processed as the outer one.\<close>

theorem ech_offer_accepted:
  assumes E: "env_ok E" "\<forall>a k A. env_aead E a k = Ok A \<longrightarrow> aead_overhead A"
    and ks: "EXP_NewECHKeySet keys = Ok ks" "key \<in> set keys" "\<forall>k \<in> set keys. config_ok E (key_config k)"
    and K: "kem_contract (env_kem E (kemId (ec_contents (key_config key)))) m" "m (ec_pk (key_config key)) (key_sk key) seed"
      "rnd (EncapsulationSeedSize (env_kem E (kemId (ec_contents (key_config key))))) = Ok seed"
      "CiphertextSize (env_kem E (kemId (ec_contents (key_config key)))) < 65536"
    and seal: "setupSealer E rnd (key_config key) = Ok (enc, c)"
    and sel: "echSelectConfig configs = Some (key_config key)" "maxVersion \<ge> VersionTLS13"
    and hello: "tls13_only helloBase"
      "hellos_fit (freshOuter helloBase (sni (rawPublicName (ec_contents (key_config key)))) hello) (innerOf helloBase) enc"
    and st: "es_opener st = None" "afterHRR \<longrightarrow> \<not> es_offered st \<and> es_greased st"
  shows "\<exists>cst' outer bs msg opener r.
    echOfferOrGrease E True maxVersion configs rnd grease (Ok hello) sni cst helloBase = Ok (cst', outer, Some (innerOf helloBase\<lparr>ch_raw := None\<rparr>)) \<and>
    es_offered cst' \<and> snd (ch_marshal outer) = Ok bs \<and> ch_unmarshal bs = Some msg \<and>
    echAcceptOrReject E True (GetDecryptionContext E ks) st msg afterHRR = r \<and>
    accepts r opener (configId (ec_contents (key_config key))) (innerOf helloBase) \<and>
    (\<forall>hello2 inner2. hellos_fit hello2 inner2 [] \<and> inner_hello inner2 \<and> tls13_only inner2 \<longrightarrow>
      (\<exists>cst'' outer2 bs2 msg2 opener2.
        echUpdateClientHelloOuter cst' hello2 inner2 [] = Ok (cst'', outer2, inner2\<lparr>ch_raw := None\<rparr>) \<and>
        snd (ch_marshal outer2) = Ok bs2 \<and> ch_unmarshal bs2 = Some msg2 \<and>
        accepts (echAcceptOrReject E True (GetDecryptionContext E ks) (er_state r) msg2 True) opener2
          (configId (ec_contents (key_config key))) inner2))"
proof -
  let ?cid = "configId (ec_contents (key_config key))" and ?p = "GetDecryptionContext E ks"
  obtain cst' c' opener outer bs msg where f:
    "echOfferOrGrease E True maxVersion configs rnd grease (Ok hello) sni cst helloBase = Ok (cst', outer, Some (innerOf helloBase\<lparr>ch_raw := None\<rparr>))"
    "es_offered cst'" "es_sealer cst' = Some c'" "es_configId cst' = ?cid"
    "outer = (outerOf (freshOuter helloBase (sni (rawPublicName (ec_contents (key_config key)))) hello) (innerOf helloBase))\<lparr>ch_ech := ch_ech outer\<rparr>" "wf_hello outer"
    "length (ch_ech outer) \<le> length (ch_encode (innerOf helloBase)) + length enc + 54"
    "snd (ch_marshal outer) = Ok bs" "ch_unmarshal bs = Some msg" "paired c' opener" "ctx_ok E c'" "aead_overhead (c_aead c')"
    "unbe (c_sequenceNumber c') + 1 < 256 ^ length (c_sequenceNumber c')"
    "accepts (echAcceptOrReject E True ?p st msg afterHRR) opener ?cid (innerOf helloBase)"
    by (rule offer_accepted [where sni = sni, OF E ks K seal sel hello st]) (rule that)
  let ?r = "echAcceptOrReject E True ?p st msg afterHRR"
  have second: "\<exists>cst'' outer2 bs2 msg2 opener2.
        echUpdateClientHelloOuter cst' hello2 inner2 [] = Ok (cst'', outer2, inner2\<lparr>ch_raw := None\<rparr>) \<and>
        snd (ch_marshal outer2) = Ok bs2 \<and> ch_unmarshal bs2 = Some msg2 \<and>
        accepts (echAcceptOrReject E True ?p (er_state ?r) msg2 True) opener2 ?cid inner2"
    if "hellos_fit hello2 inner2 []" "inner_hello inner2" "tls13_only inner2" for hello2 inner2
  proof -
    have st': "es_opener (er_state ?r) = Some opener" "es_offered (er_state ?r)" "es_configId (er_state ?r) = es_configId cst'"
      using f(4,14) by (simp_all add: accepts_def)
    show ?thesis
      by (rule second_hello_accepted [where p = ?p, OF f(3,11,12,13,10) that st'])
        (intro exI conjI, assumption+, simp only: f(4))
  qed
  show ?thesis
    by (intro exI conjI, rule f(1), rule f(2), rule f(8), rule f(9), rule refl, rule f(14), intro allI impI, elim conjE, rule second)
qed


definition base_hello :: clientHelloMsg where
  "base_hello = emptyHello\<lparr>ch_vers := 0x303, ch_random := replicate 32 7, ch_sessionId := [1, 2, 3], ch_cipherSuites := [0x1301],
     ch_compressionMethods := [0], ch_serverName := [101, 120], ch_supportedVersions := [0x304],
     ch_keyShares := Some [\<lparr>ks_group = 29, ks_data = [9, 9]\<rparr>]\<rparr>"

definition fresh_hello :: clientHelloMsg where
  "fresh_hello = base_hello\<lparr>ch_random := replicate 32 8, ch_keyShares := Some [\<lparr>ks_group = 29, ks_data = [1, 2]\<rparr>]\<rparr>"

lemma base_hellos_fit: "length enc = 32 \<Longrightarrow> hellos_fit (freshOuter base_hello (ascii ''a.example'') fresh_hello) (innerOf base_hello) enc"
  by (simp add: hellos_fit_def freshOuter_def innerOf_def outerOf_def otherExts_def base_hello_def fresh_hello_def emptyHello_def wf_hello_def
      fits_unfold optExt_def encExt_def encName_def encKeyShare_def encIdentity_def pskData_def scsvRenegotiation_def ascii_def ch_encode_def encHello_def)

lemma toy_overhead: "env_aead toy_env a k = Ok A \<Longrightarrow> aead_overhead A"
  by (auto simp: toy_env_def toy_aead_def aead_overhead_def)

theorem ech_offer_accepted_witness:
  "\<exists>ks cst' outer bs msg opener r. EXP_NewECHKeySet [toy_key] = Ok ks \<and>
    echOfferOrGrease toy_env True VersionTLS13 [toy_config] (\<lambda>n. Ok (replicate n 5)) (Err []) (Ok fresh_hello) id ech_start base_hello =
      Ok (cst', outer, Some (innerOf base_hello\<lparr>ch_raw := None\<rparr>)) \<and>
    es_offered cst' \<and> snd (ch_marshal outer) = Ok bs \<and> ch_unmarshal bs = Some msg \<and>
    echAcceptOrReject toy_env True (GetDecryptionContext toy_env ks) ech_start msg False = r \<and> accepts r opener 1 (innerOf base_hello)"
proof -
  let ?rnd = "\<lambda>n. Ok (replicate n 5 :: bytes)"
  obtain enc c where s: "setupSealer toy_env ?rnd toy_config = Ok (enc, c)" "length enc = 32"
    using toy_setupSealer by blast
  obtain ks where ks: "EXP_NewECHKeySet [toy_key] = Ok ks" using toy_keyset by blast
  have f: "key_config toy_key = toy_config" "ec_pk toy_config = replicate 32 7" "key_sk toy_key = replicate 32 7"
      "rawPublicName (ec_contents toy_config) = ascii ''a.example''" "configId (ec_contents toy_config) = 1"
    by (simp_all add: toy_key_def toy_config_def toy_contents_def)
  have sel: "echSelectConfig [toy_config] = Some toy_config"
    using toy_selectSuite by (simp add: echSelectConfig_def toy_config_def)
  have t: "tls13_only base_hello" by (simp add: tls13_only_def base_hello_def VersionTLS13_def)
  have st: "es_opener ech_start = None" by (simp add: ech_start_def)
  have K: "kem_contract (env_kem toy_env (kemId (ec_contents (key_config toy_key)))) toy_m"
      "toy_m (ec_pk (key_config toy_key)) (key_sk toy_key) (replicate 32 5)"
      "?rnd (EncapsulationSeedSize (env_kem toy_env (kemId (ec_contents (key_config toy_key))))) = Ok (replicate 32 5)"
      "CiphertextSize (env_kem toy_env (kemId (ec_contents (key_config toy_key)))) < 65536"
    by (simp_all add: f toy_kem)
  have k: "toy_key \<in> set [toy_key]" "\<forall>k \<in> set [toy_key]. config_ok toy_env (key_config k)" by (simp_all add: f toy_config_ok)
  have h: "hellos_fit (freshOuter base_hello (id (rawPublicName (ec_contents (key_config toy_key)))) fresh_hello) (innerOf base_hello) enc"
    using base_hellos_fit [OF s(2)] by (simp add: f)
  have ov: "\<forall>a k A. env_aead toy_env a k = Ok A \<longrightarrow> aead_overhead A" using toy_overhead by blast
  have hrr: "False \<longrightarrow> \<not> es_offered ech_start \<and> es_greased ech_start" by simp
  show ?thesis
    using ech_offer_accepted [where rnd = ?rnd and sni = id and grease = "Err []" and cst = ech_start,
      OF toy_env_ok ov ks k(1,2) K s(1) [folded f(1)] sel [folded f(1)] order_refl t h st hrr] ks
    unfolding f by blast
qed

text \<open>A server whose provider rejects.\<close>

definition rejecting :: ech_server where
  "rejecting = (True, \<lambda>_ _. Ok (pr_reject []))"

definition greased_hello :: clientHelloMsg where
  "greased_hello = base_hello\<lparr>ch_ech := enc_outer sample_handle [5]\<rparr>"

lemma greased_rejected:
  assumes "es_opener st = None" "\<not> es_offered st" "afterHRR \<longrightarrow> es_greased st"
  shows "echAcceptOrReject E (fst rejecting) (snd rejecting) st greased_hello afterHRR =
    use_hello (st\<lparr>es_configId := 7, es_greased := True\<rparr>) False False greased_hello"
proof -
  have "handle_wf sample_handle" by (simp add: handle_wf_def sample_handle_def)
  note u = echUnmarshalClientOuter_enc [OF this, of "[5]"]
  have cid: "h_configId sample_handle = 7" by (simp add: sample_handle_def)
  have "enc_outer sample_handle [5] ! 0 = echClientHelloOuterVariant"
    by (simp add: enc_outer_def enc8_def be.simps echClientHelloOuterVariant_def)
  then show ?thesis
    using assms u unfolding echAcceptOrReject_def echAskProvider_def
    by (auto simp: rejecting_def greased_hello_def echClientHelloOuterVariant_def echClientHelloInnerVariant_def handle_marshal_raw
        pr_reject_def ECHProviderStatus Let_def cid)
qed


end
