(* ===== verification/Constant_Time.thy ===== *)
theory Constant_Time
  imports Prelude
begin

text \<open>
  The constant-time comparison and copy of \<^verbatim>\<open>crypto/subtle\<close>, modelled with their arithmetic on words and shown to be a
  comparison and a conditional copy.
\<close>

definition ConstantTimeByteEq :: "u8 \<Rightarrow> u8 \<Rightarrow> int" where
  "ConstantTimeByteEq x y = uint (drop_bit 31 ((ucast (x XOR y) :: u32) - 1))"

definition ConstantTimeCompare :: "bytes \<Rightarrow> bytes \<Rightarrow> int" where
  "ConstantTimeCompare x y =
     (if length x \<noteq> length y then 0
      else ConstantTimeByteEq (fold (\<lambda>i v. v OR (x ! i XOR y ! i)) [0..<length x] 0) 0)"

definition ConstantTimeCopy :: "int \<Rightarrow> bytes \<Rightarrow> bytes \<Rightarrow> bytes res" where
  "ConstantTimeCopy v x y =
     (if length x \<noteq> length y then Panic ''subtle: slices have different lengths''
      else let xmask = word_of_int (v - 1); ymask = word_of_int (NOT (v - 1)) in
        Ok (map (\<lambda>i. (x ! i AND xmask) OR (y ! i AND ymask)) [0..<length x]))"

lemma byte_xor_zero: "x XOR y = 0 \<longleftrightarrow> x = y" for x y :: byte
  by (auto simp: bit_eq_iff bit_simps)

lemma ConstantTimeByteEq_spec: "ConstantTimeByteEq x y = (if x = y then 1 else 0)"
proof (cases "x = y")
  case True
  then show ?thesis by (simp add: ConstantTimeByteEq_def)
next
  case False
  define z where "z = uint (x XOR y)"
  have "x XOR y \<noteq> 0"
    using False by (simp add: byte_xor_zero)
  then have "z \<noteq> 0" "0 \<le> z" "z < 256"
    using uint_lt2p [of "x XOR y"] by (simp_all add: z_def uint_0_iff)
  then have "(z - 1) mod 4294967296 = z - 1"
    by (intro mod_pos_pos_trivial) linarith+
  then have "uint ((ucast (x XOR y) :: u32) - 1) = z - 1"
    by (simp add: uint_word_ariths z_def uint_up_ucast is_up)
  then show ?thesis
    using False \<open>z < 256\<close> \<open>0 \<le> z\<close> \<open>z \<noteq> 0\<close> by (simp add: ConstantTimeByteEq_def uint_drop)
qed

lemma fold_or_xor_zero: "n \<le> length x \<Longrightarrow> n \<le> length y \<Longrightarrow> fold (\<lambda>i v. v OR (x ! i XOR y ! i)) [0..<n] 0 = (0 :: byte) \<longleftrightarrow> take n x = take n y"
proof (induction n)
  case (Suc n)
  have "v OR w = 0 \<longleftrightarrow> v = 0 \<and> w = 0" for v w :: byte
    by (auto simp: bit_eq_iff bit_simps)
  then show ?case
    using Suc by (simp add: take_Suc_conv_app_nth byte_xor_zero)
qed simp

lemma ConstantTimeCompare_spec: "ConstantTimeCompare x y = (if x = y then 1 else 0)"
  using fold_or_xor_zero [of "length x" x y] by (auto simp: ConstantTimeCompare_def ConstantTimeByteEq_spec)

lemma ConstantTimeCopy_spec:
  "length x = length y \<Longrightarrow> ConstantTimeCopy 1 x y = Ok y" "length x = length y \<Longrightarrow> ConstantTimeCopy 0 x y = Ok x"
  by (auto simp: ConstantTimeCopy_def Let_def intro!: nth_equalityI)

end
