(* ===== verification/TLS13_State.thy ===== *)
theory TLS13_State
  imports Handshake_Messages Key_Schedule ECH Constant_Time
begin

text \<open>
  What the two sides of a TLS 1.3 handshake share: the halves of a connection with their traffic secrets (\<^verbatim>\<open>crypto/tls/conn.go\<close>),
  the key log and the cipher suites. A handler returns \<open>Next\<close> with the new state, \<open>Stop\<close> with the alert it sends and its error, or
  \<open>Halt\<close> when it panics. Writes go to the connection's send buffer (\<open>c.buffering\<close>), so they cannot fail; the connection is not QUIC.
\<close>

section \<open>Handlers\<close>

datatype 'a hs_res = Next 'a | Stop "u8 option" string | Halt string

primrec bind_hs :: "'a hs_res \<Rightarrow> ('a \<Rightarrow> 'b hs_res) \<Rightarrow> 'b hs_res" where
  "bind_hs (Next x) f = f x"
| "bind_hs (Stop a e) f = Stop a e"
| "bind_hs (Halt p) f = Halt p"

primrec lift_hs :: "u8 option \<Rightarrow> 'a res \<Rightarrow> 'a hs_res" where
  "lift_hs a (Ok x) = Next x"
| "lift_hs a (Err e) = Stop a e"
| "lift_hs a (Panic p) = Halt p"

definition guard_hs :: "bool \<Rightarrow> u8 option \<Rightarrow> string \<Rightarrow> unit hs_res" where
  "guard_hs c a e = (if c then Next () else Stop a e)"

lemma guard_hs_simps [simp]: "guard_hs True a e = Next ()" "guard_hs False a e = Stop a e"
  by (simp_all add: guard_hs_def)

lemma bind_hs_eq_Next: "bind_hs r f = Next y \<longleftrightarrow> (\<exists>x. r = Next x \<and> f x = Next y)"
  by (cases r) auto

lemma lift_hs_eq_Next [simp]: "lift_hs a r = Next x \<longleftrightarrow> r = Ok x"
  by (cases r) auto

lemma guard_hs_eq_Next [simp]: "guard_hs c a e = Next u \<longleftrightarrow> c"
  by (simp add: guard_hs_def)

definition alertHandshakeFailure :: u8 where "alertHandshakeFailure = 40"
definition alertDecodeError :: u8 where "alertDecodeError = 50"
definition alertUnsupportedExtension :: u8 where "alertUnsupportedExtension = 110"
definition alertNoApplicationProtocol :: u8 where "alertNoApplicationProtocol = 120"
definition alertECHRequired :: u8 where "alertECHRequired = 121"
definition VersionTLS12 :: u16 where "VersionTLS12 = 0x303"
definition typeMessageHash :: u8 where "typeMessageHash = 254"
definition compressionNone :: u8 where "compressionNone = 0"

section \<open>Cipher suites\<close>

definition cipherSuitesTLS13 :: "cipherSuiteTLS13 list" where
  "cipherSuitesTLS13 =
     [\<lparr>cs_id = 0x1301, cs_keyLen = 16, cs_hash = SHA256\<rparr>,
      \<lparr>cs_id = 0x1303, cs_keyLen = 32, cs_hash = SHA256\<rparr>,
      \<lparr>cs_id = 0x1302, cs_keyLen = 32, cs_hash = SHA384\<rparr>]"

definition cipherSuiteTLS13ByID :: "u16 \<Rightarrow> cipherSuiteTLS13 option" where
  "cipherSuiteTLS13ByID i = find (\<lambda>c. cs_id c = i) cipherSuitesTLS13"

definition mutualCipherSuiteTLS13 :: "u16 list \<Rightarrow> u16 \<Rightarrow> cipherSuiteTLS13 option" where
  "mutualCipherSuiteTLS13 have want = (if want \<in> set have then cipherSuiteTLS13ByID want else None)"

section \<open>The connection\<close>

datatype QUICEncryptionLevel = LevelInitial | LevelEarly | LevelHandshake | LevelApplication

text \<open>The cipher of a half is given by its key and nonce mask.\<close>

record halfConn =
  hc_level :: QUICEncryptionLevel
  hc_trafficSecret :: bytes
  hc_key :: bytes
  hc_iv :: bytes
  hc_seq :: bytes

definition setTrafficSecret :: "tls_hashes \<Rightarrow> cipherSuiteTLS13 \<Rightarrow> QUICEncryptionLevel \<Rightarrow> bytes \<Rightarrow> halfConn \<Rightarrow> halfConn res" where
  "setTrafficSecret H suite level secret hc =
     bind_res (trafficKey H suite secret) (\<lambda>(key, iv).
     Ok \<lparr>hc_level = level, hc_trafficSecret = secret, hc_key = key, hc_iv = iv, hc_seq = replicate 8 0\<rparr>)"

datatype sent = SentHandshake bytes | SentChangeCipherSpec

record tlsConn =
  tc_in :: halfConn
  tc_out :: halfConn
  tc_ech :: ech_state
  tc_serverName :: bytes
  tc_clientProtocol :: bytes
  tc_cipherSuite :: u16
  tc_ekm :: "(bytes \<Rightarrow> bytes \<Rightarrow> nat \<Rightarrow> bytes res) option"
  tc_resumptionSecret :: "bytes option"
  tc_sent :: "sent list"

definition send :: "sent \<Rightarrow> tlsConn \<Rightarrow> tlsConn" where
  "send x c = c\<lparr>tc_sent := tc_sent c @ [x]\<rparr>"

text \<open>The configuration: the writer of the key log reports its error; session tickets and ECH.\<close>

record tlsConfig =
  cfg_KeyLogWriter :: "(bytes \<Rightarrow> string option) option"
  cfg_SessionTicketsDisabled :: bool
  cfg_hasClientSessionCache :: bool
  cfg_ECHEnabled :: bool
  cfg_requestsClientCert :: bool

definition hexDigit :: "byte \<Rightarrow> byte" where
  "hexDigit d = (if d < 10 then 48 + d else 87 + d)"

definition hex :: "bytes \<Rightarrow> bytes" where
  "hex bs = concat (map (\<lambda>b. [hexDigit (drop_bit 4 b), hexDigit (take_bit 4 b)]) bs)"

definition writeKeyLog :: "tlsConfig \<Rightarrow> string \<Rightarrow> bytes \<Rightarrow> bytes \<Rightarrow> unit hs_res" where
  "writeKeyLog cfg label clientRandom secret =
     (case cfg_KeyLogWriter cfg of
        None \<Rightarrow> Next ()
      | Some w \<Rightarrow> (case w (ascii label @ ascii '' '' @ hex clientRandom @ ascii '' '' @ hex secret @ [10]) of
          None \<Rightarrow> Next ()
        | Some e \<Rightarrow> Stop (Some alertInternalError) e))"

definition hmac_Equal :: "bytes \<Rightarrow> bytes \<Rightarrow> bool" where
  "hmac_Equal a b \<longleftrightarrow> ConstantTimeCompare a b = 1"

lemma hmac_Equal_iff [simp]: "hmac_Equal a b \<longleftrightarrow> a = b"
  by (simp add: hmac_Equal_def ConstantTimeCompare_spec)

section \<open>Confirming ECH\<close>

definition echAcceptConfLabel :: bytes where "echAcceptConfLabel = ascii ''ech accept confirmation''"
definition echAcceptConfHRRLabel :: bytes where "echAcceptConfHRRLabel = ascii ''hrr ech accept confirmation''"
definition helloRetryRequestRandom :: bytes where
  "helloRetryRequestRandom =
     [0xCF, 0x21, 0xAD, 0x74, 0xE5, 0x9A, 0x61, 0x11, 0xBE, 0x1D, 0x8C, 0x02, 0x1E, 0x65, 0xB8, 0x91,
      0xC2, 0xA2, 0x11, 0x16, 0x7A, 0xBB, 0x8C, 0x5E, 0x07, 0x9E, 0x09, 0xE2, 0xC8, 0xA8, 0x33, 0x9C]"

definition echConfirmation :: "tls_hashes \<Rightarrow> cipherSuiteTLS13 \<Rightarrow> bytes \<Rightarrow> bytes \<Rightarrow> bytes \<Rightarrow> bytes res" where
  "echConfirmation H suite label random transcript =
     expandLabel H suite (tls_extract H suite (Some random) None) label (th_Sum H (cs_hash suite) transcript) 8"

lemma echConfirmation_Ok:
  assumes "hashes_sized H" and "length label \<le> 249"
  shows "\<exists>s. echConfirmation H suite label random transcript = Ok s \<and> length s = 8"
proof -
  have "length (th_Sum H (cs_hash suite) transcript) < 256"
    using assms(1) Size_bounds(2) [of "cs_hash suite"] by (simp add: hashes_sized_def)
  from expandLabel_eq [OF assms(2) this assms(1), of 8 suite] show ?thesis
    using Size_bounds(1) [of "cs_hash suite"] by (auto simp: echConfirmation_def)
qed

end
