(* ===== verification/TLS13_Server.thy ===== *)
theory TLS13_Server
  imports TLS13_State
begin

text \<open>
  The server's side of the TLS 1.3 handshake (\<^verbatim>\<open>crypto/tls/handshake_server_tls13.go\<close>) from the selection of the parameters on: the
  HelloRetryRequest, the ServerHello with the confirmation of ECH, the handshake and application secrets, both Finished messages and the
  session ticket. A running hash is the bytes written to it.
\<close>

record serverHS =
  ss_conn :: tlsConn
  ss_clientHello :: clientHelloMsg
  ss_hello :: serverHelloMsg
  ss_sentDummyCCS :: bool
  ss_usingPSK :: bool
  ss_suite :: cipherSuiteTLS13
  ss_sharedKey :: bytes
  ss_earlySecret :: "bytes option"
  ss_handshakeSecret :: bytes
  ss_masterSecret :: bytes
  ss_trafficSecret :: bytes
  ss_transcript :: bytes
  ss_clientFinished :: bytes
  ss_tlsFlags :: "u16 list"
  ss_peerTLSFlags :: "u16 list"

definition echIsInner :: "clientHelloMsg \<Rightarrow> bool" where
  "echIsInner ch \<longleftrightarrow> length (ch_ech ch) = 1 \<and> ch_ech ch ! 0 = echClientHelloInnerVariant"

text \<open>\<^verbatim>\<open>transcriptMsg(hs.clientHello, hs.transcript)\<close> and \<^verbatim>\<open>writeHandshakeRecord(m, hs.transcript)\<close>.\<close>

definition ss_logClientHello :: "serverHS \<Rightarrow> serverHS hs_res" where
  "ss_logClientHello hs = (case ch_marshal (ss_clientHello hs) of (ch, r) \<Rightarrow>
     bind_hs (lift_hs None r) (\<lambda>data. Next (hs\<lparr>ss_clientHello := ch, ss_transcript := ss_transcript hs @ data\<rparr>)))"

definition ss_write :: "handshakeMessage \<Rightarrow> serverHS \<Rightarrow> serverHS hs_res" where
  "ss_write m hs = bind_hs (lift_hs None (snd (msg_marshal m))) (\<lambda>data.
     Next (hs\<lparr>ss_transcript := ss_transcript hs @ data, ss_conn := send (SentHandshake data) (ss_conn hs)\<rparr>))"

definition ss_sendDummyChangeCipherSpec :: "serverHS \<Rightarrow> serverHS" where
  "ss_sendDummyChangeCipherSpec hs = (if ss_sentDummyCCS hs then hs
     else hs\<lparr>ss_sentDummyCCS := True, ss_conn := send SentChangeCipherSpec (ss_conn hs)\<rparr>)"

section \<open>HelloRetryRequest\<close>

text \<open>The synthetic message that replaces the first ClientHello in the transcript.\<close>

definition messageHash :: "tls_hashes \<Rightarrow> cipherSuiteTLS13 \<Rightarrow> bytes \<Rightarrow> bytes" where
  "messageHash H suite transcript = (let chHash = th_Sum H (cs_hash suite) transcript in
     [typeMessageHash, 0, 0, of_nat (length chHash)] @ chHash)"

definition helloRetryRequest :: "serverHelloMsg \<Rightarrow> u16 \<Rightarrow> serverHelloMsg" where
  "helloRetryRequest hello selectedGroup = emptyServerHello\<lparr>sh_vers := sh_vers hello, sh_random := helloRetryRequestRandom,
     sh_sessionId := sh_sessionId hello, sh_cipherSuite := sh_cipherSuite hello, sh_compressionMethod := sh_compressionMethod hello,
     sh_supportedVersion := sh_supportedVersion hello, sh_selectedGroup := selectedGroup\<rparr>"

text \<open>The ECH extension of the HelloRetryRequest: the confirmation, or random bytes \<open>rnd\<close> after a GREASE extension.\<close>

definition hrrWithECH :: "tls_hashes \<Rightarrow> bytes res \<Rightarrow> serverHelloMsg \<Rightarrow> serverHS \<Rightarrow> serverHelloMsg hs_res" where
  "hrrWithECH H rnd hrr hs =
     (if echIsInner (ss_clientHello hs) then
        bind_hs (lift_hs None (snd (sh_marshal (hrr\<lparr>sh_ech := Some (replicate 8 0)\<rparr>)))) (\<lambda>echAcceptConfHRR.
        bind_hs (lift_hs None (echConfirmation H (ss_suite hs) echAcceptConfHRRLabel (ch_random (ss_clientHello hs))
          (ss_transcript hs @ echAcceptConfHRR))) (\<lambda>signal.
        Next (hrr\<lparr>sh_ech := Some signal, sh_raw := None\<rparr>)))
      else if es_greased (tc_ech (ss_conn hs)) then
        bind_hs (lift_hs (Some alertInternalError) rnd) (\<lambda>bs. Next (hrr\<lparr>sh_ech := Some bs\<rparr>))
      else Next hrr)"

definition sendHelloRetryRequest :: "tls_hashes \<Rightarrow> bytes res \<Rightarrow> u16 \<Rightarrow> serverHS \<Rightarrow> serverHS hs_res" where
  "sendHelloRetryRequest H rnd selectedGroup hs =
     bind_hs (ss_logClientHello hs) (\<lambda>hs.
     let hs = hs\<lparr>ss_transcript := messageHash H (ss_suite hs) (ss_transcript hs)\<rparr> in
     bind_hs (hrrWithECH H rnd (helloRetryRequest (ss_hello hs) selectedGroup) hs) (\<lambda>hrr.
     bind_hs (ss_write (ServerHello hrr) hs) (\<lambda>hs.
     Next (ss_sendDummyChangeCipherSpec hs))))"

text \<open>What follows the read of the second ClientHello.\<close>

definition readSecondHello ::
    "('pk, 'sk) hpke_env \<Rightarrow> bool \<Rightarrow> (bytes \<Rightarrow> u16 \<Rightarrow> ECHProviderResult res) \<Rightarrow> u16 \<Rightarrow> handshakeMessage \<Rightarrow> serverHS \<Rightarrow> serverHS hs_res" where
  "readSecondHello E canAccept p selectedGroup msg hs =
     (case msg of
        ClientHello clientHello \<Rightarrow>
          let r = echAcceptOrReject E canAccept p (tc_ech (ss_conn hs)) clientHello True;
              hs = hs\<lparr>ss_conn := (ss_conn hs)\<lparr>tc_ech := er_state r\<rparr>\<rparr> in
          bind_hs (lift_hs (er_alert r) (er_hello r)) (\<lambda>clientHello.
          case checkSecondHello selectedGroup clientHello (ss_clientHello hs) of
            Some e \<Rightarrow> Stop (Some alertIllegalParameter) e
          | None \<Rightarrow> Next (hs\<lparr>ss_clientHello := clientHello\<rparr>))
      | _ \<Rightarrow> Stop (Some alertUnexpectedMessage) ''tls: unexpected message'')"

section \<open>ServerHello and handshake secrets\<close>

text \<open>The last eight bytes of the random field; a shorter field is a panic.\<close>

definition setConfirmation :: "bytes \<Rightarrow> serverHelloMsg \<Rightarrow> serverHelloMsg hs_res" where
  "setConfirmation v hello = (if length (sh_random hello) < 24 then Halt ''slice bounds out of range''
     else Next (hello\<lparr>sh_random := take 24 (sh_random hello) @ go_copy (drop 24 (sh_random hello)) v\<rparr>))"

definition confirmECH :: "tls_hashes \<Rightarrow> serverHS \<Rightarrow> serverHS hs_res" where
  "confirmECH H hs =
     (if \<not> echIsInner (ss_clientHello hs) then Next hs
      else
        bind_hs (setConfirmation (replicate 8 0) (ss_hello hs)) (\<lambda>hello.
        case ch_marshal (ss_clientHello hs) of (ch, r) \<Rightarrow>
        bind_hs (lift_hs None r) (\<lambda>chMarshalled.
        bind_hs (lift_hs None (snd (sh_marshal hello))) (\<lambda>hMarshalled.
        bind_hs (lift_hs None (echConfirmation H (ss_suite hs) echAcceptConfLabel (ch_random ch)
          (ss_transcript hs @ chMarshalled @ hMarshalled))) (\<lambda>echAcceptConf.
        bind_hs (setConfirmation echAcceptConf hello) (\<lambda>hello.
        Next (hs\<lparr>ss_clientHello := ch, ss_hello := hello\<lparr>sh_raw := None\<rparr>\<rparr>)))))))"

text \<open>The secrets of RFC 8446 section 7.1 that the two sides derive from the shared key and the transcript.\<close>

definition handshakeSecretOf :: "tls_hashes \<Rightarrow> cipherSuiteTLS13 \<Rightarrow> bytes \<Rightarrow> bytes \<Rightarrow> bytes res" where
  "handshakeSecretOf H suite earlySecret sharedKey =
     bind_res (deriveSecret H suite earlySecret (ascii ''derived'') None) (\<lambda>d. Ok (tls_extract H suite (Some sharedKey) (Some d)))"

definition masterSecretOf :: "tls_hashes \<Rightarrow> cipherSuiteTLS13 \<Rightarrow> bytes \<Rightarrow> bytes res" where
  "masterSecretOf H suite handshakeSecret =
     bind_res (deriveSecret H suite handshakeSecret (ascii ''derived'') None) (\<lambda>d. Ok (tls_extract H suite None (Some d)))"

definition establishServerKeys :: "tls_hashes \<Rightarrow> tlsConfig \<Rightarrow> serverHS \<Rightarrow> serverHS hs_res" where
  "establishServerKeys H cfg hs =
     (let suite = ss_suite hs;
          earlySecret = (case ss_earlySecret hs of None \<Rightarrow> tls_extract H suite None None | Some s \<Rightarrow> s) in
      bind_hs (lift_hs None (handshakeSecretOf H suite earlySecret (ss_sharedKey hs))) (\<lambda>handshakeSecret.
      bind_hs (lift_hs None (deriveSecret H suite handshakeSecret clientHandshakeTrafficLabel (Some (ss_transcript hs)))) (\<lambda>clientSecret.
      bind_hs (lift_hs None (setTrafficSecret H suite LevelHandshake clientSecret (tc_in (ss_conn hs)))) (\<lambda>hin.
      bind_hs (lift_hs None (deriveSecret H suite handshakeSecret serverHandshakeTrafficLabel (Some (ss_transcript hs)))) (\<lambda>serverSecret.
      bind_hs (lift_hs None (setTrafficSecret H suite LevelHandshake serverSecret (tc_out (ss_conn hs)))) (\<lambda>hout.
      bind_hs (writeKeyLog cfg ''CLIENT_HANDSHAKE_TRAFFIC_SECRET'' (ch_random (ss_clientHello hs)) clientSecret) (\<lambda>_.
      bind_hs (writeKeyLog cfg ''SERVER_HANDSHAKE_TRAFFIC_SECRET'' (ch_random (ss_clientHello hs)) serverSecret) (\<lambda>_.
      Next (hs\<lparr>ss_handshakeSecret := handshakeSecret, ss_conn := (ss_conn hs)\<lparr>tc_in := hin, tc_out := hout\<rparr>\<rparr>)))))))))"

definition serverExtensions :: "tlsConn \<Rightarrow> encryptedExtensionsMsg" where
  "serverExtensions c = emptyEE\<lparr>ee_alpnProtocol := tc_clientProtocol c,
     ee_ech := (if \<not> es_accepted (tc_ech c) \<and> length (es_retryConfigs (tc_ech c)) > 0 then es_retryConfigs (tc_ech c) else [])\<rparr>"

definition sendServerParameters :: "tls_hashes \<Rightarrow> tlsConfig \<Rightarrow> serverHS \<Rightarrow> serverHS hs_res" where
  "sendServerParameters H cfg hs =
     bind_hs (confirmECH H hs) (\<lambda>hs.
     bind_hs (ss_logClientHello hs) (\<lambda>hs.
     bind_hs (ss_write (ServerHello (ss_hello hs)) hs) (\<lambda>hs.
     bind_hs (establishServerKeys H cfg (ss_sendDummyChangeCipherSpec hs)) (\<lambda>hs.
     ss_write (EncryptedExtensions (serverExtensions (ss_conn hs))) hs))))"

section \<open>Finished and application secrets\<close>

definition ExperimentalFlagSupportMTLS :: u16 where "ExperimentalFlagSupportMTLS = 0x50"

definition requestClientCert :: "tlsConfig \<Rightarrow> serverHS \<Rightarrow> bool" where
  "requestClientCert cfg hs \<longleftrightarrow>
     ExperimentalFlagSupportMTLS \<in> set (ss_tlsFlags hs) \<or> cfg_requestsClientCert cfg \<and> \<not> ss_usingPSK hs"

definition shouldSendSessionTickets :: "tlsConfig \<Rightarrow> serverHS \<Rightarrow> bool" where
  "shouldSendSessionTickets cfg hs \<longleftrightarrow>
     \<not> (cfg_SessionTicketsDisabled cfg \<or> cfg_ECHEnabled cfg) \<and> list_ex (\<lambda>mode. mode = 1) (ch_pskModes (ss_clientHello hs))"

text \<open>
  \<open>ticket psk\<close> is the sealed session state for a pre-shared key, or the alert and error of sealing it, and \<open>ageAdd\<close> the random four bytes of the message, in the order in which
  they are read as a number.
\<close>

definition sendSessionTicket :: "tls_hashes \<Rightarrow> (bytes \<Rightarrow> bytes hs_res) \<Rightarrow> u32 res \<Rightarrow> bool \<Rightarrow> tlsConn \<Rightarrow> tlsConn hs_res" where
  "sendSessionTicket H ticket ageAdd earlyData c =
     (case cipherSuiteTLS13ByID (tc_cipherSuite c) of
        None \<Rightarrow> Stop None ''tls: internal error: unknown cipher suite''
      | Some suite \<Rightarrow>
          bind_hs (lift_hs None (expandLabel H suite (opt_bytes (tc_resumptionSecret c)) (ascii ''resumption'') [] (Size (cs_hash suite)))) (\<lambda>psk.
          bind_hs (ticket psk) (\<lambda>label.
          bind_hs (lift_hs None ageAdd) (\<lambda>ageAdd.
          bind_hs (lift_hs None (snd (msg_marshal (NewSessionTicket \<lparr>nst_raw = None, nst_lifetime = 604800, nst_ageAdd = ageAdd,
            nst_nonce = [], nst_label = label, nst_maxEarlyData = (if earlyData then 0xffffffff else 0)\<rparr>)))) (\<lambda>data.
          Next (send (SentHandshake data) c))))))"

definition sendSessionTickets ::
    "tls_hashes \<Rightarrow> tlsConfig \<Rightarrow> (bytes \<Rightarrow> bytes hs_res) \<Rightarrow> u32 res \<Rightarrow> serverHS \<Rightarrow> serverHS hs_res" where
  "sendSessionTickets H cfg ticket ageAdd hs =
     bind_hs (lift_hs None (finishedHash H (ss_suite hs) (hc_trafficSecret (tc_in (ss_conn hs))) (ss_transcript hs))) (\<lambda>clientFinished.
     bind_hs (lift_hs None (snd (fin_marshal \<lparr>fin_raw = None, fin_verifyData = clientFinished\<rparr>))) (\<lambda>data.
     let hs = hs\<lparr>ss_clientFinished := clientFinished, ss_transcript := ss_transcript hs @ data\<rparr> in
     bind_hs (lift_hs None (deriveSecret H (ss_suite hs) (ss_masterSecret hs) resumptionLabel (Some (ss_transcript hs)))) (\<lambda>res.
     let c = (ss_conn hs)\<lparr>tc_resumptionSecret := Some res\<rparr> in
     if \<not> shouldSendSessionTickets cfg hs then Next (hs\<lparr>ss_conn := c\<rparr>)
     else bind_hs (sendSessionTicket H ticket ageAdd False c) (\<lambda>c. Next (hs\<lparr>ss_conn := c\<rparr>)))))"

definition sendServerFinished ::
    "tls_hashes \<Rightarrow> tlsConfig \<Rightarrow> (bytes \<Rightarrow> bytes hs_res) \<Rightarrow> u32 res \<Rightarrow> serverHS \<Rightarrow> serverHS hs_res" where
  "sendServerFinished H cfg ticket ageAdd hs =
     bind_hs (lift_hs None (finishedHash H (ss_suite hs) (hc_trafficSecret (tc_out (ss_conn hs))) (ss_transcript hs))) (\<lambda>verifyData.
     bind_hs (ss_write (Finished \<lparr>fin_raw = None, fin_verifyData = verifyData\<rparr>) hs) (\<lambda>hs.
     let suite = ss_suite hs; random = ch_random (ss_clientHello hs) in
     bind_hs (lift_hs None (masterSecretOf H suite (ss_handshakeSecret hs))) (\<lambda>masterSecret.
     bind_hs (lift_hs None (deriveSecret H suite masterSecret clientApplicationTrafficLabel (Some (ss_transcript hs)))) (\<lambda>trafficSecret.
     bind_hs (lift_hs None (deriveSecret H suite masterSecret serverApplicationTrafficLabel (Some (ss_transcript hs)))) (\<lambda>serverSecret.
     bind_hs (lift_hs None (setTrafficSecret H suite LevelApplication serverSecret (tc_out (ss_conn hs)))) (\<lambda>hout.
     bind_hs (writeKeyLog cfg ''CLIENT_TRAFFIC_SECRET_0'' random trafficSecret) (\<lambda>_.
     bind_hs (writeKeyLog cfg ''SERVER_TRAFFIC_SECRET_0'' random serverSecret) (\<lambda>_.
     bind_hs (lift_hs None (exportKeyingMaterial H suite masterSecret (ss_transcript hs))) (\<lambda>ekm.
     let hs = hs\<lparr>ss_masterSecret := masterSecret, ss_trafficSecret := trafficSecret,
                 ss_conn := (ss_conn hs)\<lparr>tc_out := hout, tc_ekm := Some ekm\<rparr>\<rparr> in
     if requestClientCert cfg hs then Next hs else sendSessionTickets H cfg ticket ageAdd hs)))))))))"

definition readClientFinished :: "tls_hashes \<Rightarrow> handshakeMessage \<Rightarrow> serverHS \<Rightarrow> serverHS hs_res" where
  "readClientFinished H msg hs =
     (case msg of
        Finished finished \<Rightarrow>
          bind_hs (guard_hs (hmac_Equal (ss_clientFinished hs) (fin_verifyData finished)) (Some alertDecryptError)
            ''tls: invalid client finished hash'') (\<lambda>_.
          bind_hs (lift_hs None (setTrafficSecret H (ss_suite hs) LevelApplication (ss_trafficSecret hs) (tc_in (ss_conn hs)))) (\<lambda>hin.
          Next (hs\<lparr>ss_conn := (ss_conn hs)\<lparr>tc_in := hin\<rparr>\<rparr>)))
      | _ \<Rightarrow> Stop (Some alertUnexpectedMessage) ''tls: unexpected message'')"

end
