(* ===== verification/TLS13_Client.thy ===== *)
theory TLS13_Client
  imports TLS13_Server
begin

text \<open>
  The client's side of the TLS 1.3 handshake (\<^verbatim>\<open>crypto/tls/handshake_client_tls13.go\<close>): the checks of the server's hello, the
  HelloRetryRequest, the detection of ECH acceptance, the secrets, the encrypted extensions and both Finished messages.
\<close>

text \<open>
  A private key share: for ECDH the operation gives nothing for an invalid peer key, for a KEM decapsulation gives an error.
\<close>

datatype privateShare = EcdhShare "bytes \<Rightarrow> bytes option" | KemShare "bytes \<Rightarrow> bytes res"

record sessionState =
  se_cipherSuite :: u16
  se_alpnProtocol :: bytes
  se_ageMillis :: u32
  se_ageAdd :: u32

record clientHS =
  cl_conn :: tlsConn
  cl_serverHello :: serverHelloMsg
  cl_hello :: clientHelloMsg
  cl_helloInner :: "clientHelloMsg option"
  cl_keySharePrivate :: "u16 \<rightharpoonup> privateShare"
  cl_session :: "sessionState option"
  cl_earlySecret :: "bytes option"
  cl_binderKey :: bytes
  cl_usingPSK :: bool
  cl_sentDummyCCS :: bool
  cl_suite :: "cipherSuiteTLS13 option"
  cl_transcript :: bytes
  cl_transcriptInner :: bytes
  cl_masterSecret :: bytes
  cl_trafficSecret :: bytes

text \<open>A field that is nil is a panic when it is used.\<close>

definition deref :: "'a option \<Rightarrow> 'a hs_res" where
  "deref x = (case x of None \<Rightarrow> Halt ''nil dereference'' | Some v \<Rightarrow> Next v)"

lemma deref_Some [simp]: "deref (Some v) = Next v"
  by (simp add: deref_def)

definition cl_write :: "handshakeMessage \<Rightarrow> clientHS \<Rightarrow> clientHS hs_res" where
  "cl_write m hs = bind_hs (lift_hs None (snd (msg_marshal m))) (\<lambda>data.
     Next (hs\<lparr>cl_transcript := cl_transcript hs @ data, cl_conn := send (SentHandshake data) (cl_conn hs)\<rparr>))"

definition cl_logServerHello :: "clientHS \<Rightarrow> clientHS hs_res" where
  "cl_logServerHello hs = bind_hs (lift_hs None (snd (sh_marshal (cl_serverHello hs)))) (\<lambda>data.
     Next (hs\<lparr>cl_transcript := cl_transcript hs @ data\<rparr>))"

definition cl_sendDummyChangeCipherSpec :: "clientHS \<Rightarrow> clientHS" where
  "cl_sendDummyChangeCipherSpec hs = (if cl_sentDummyCCS hs then hs
     else hs\<lparr>cl_sentDummyCCS := True, cl_conn := send SentChangeCipherSpec (cl_conn hs)\<rparr>)"

section \<open>Checks of the server's hello\<close>

definition checkServerHelloOrHRR :: "clientHS \<Rightarrow> clientHS hs_res" where
  "checkServerHelloOrHRR hs =
     (let sh = cl_serverHello hs in
      bind_hs (guard_hs (sh_supportedVersion sh \<noteq> 0) (Some alertMissingExtension)
        ''tls: server selected TLS 1.3 using the legacy version field'') (\<lambda>_.
      bind_hs (guard_hs (sh_supportedVersion sh = VersionTLS13) (Some alertIllegalParameter)
        ''tls: server selected an invalid version after a HelloRetryRequest'') (\<lambda>_.
      bind_hs (guard_hs (sh_vers sh = VersionTLS12) (Some alertIllegalParameter) ''tls: server sent an incorrect legacy version'') (\<lambda>_.
      bind_hs (guard_hs (\<not> (sh_ocspStapling sh \<or> sh_ticketSupported sh \<or> sh_extendedMasterSecret sh \<or>
          sh_secureRenegotiationSupported sh \<or> length (sh_secureRenegotiation sh) \<noteq> 0 \<or> length (sh_alpnProtocol sh) \<noteq> 0 \<or>
          length (sh_scts sh) \<noteq> 0)) (Some alertUnsupportedExtension)
        ''tls: server sent a ServerHello extension forbidden in TLS 1.3'') (\<lambda>_.
      bind_hs (guard_hs (ch_sessionId (cl_hello hs) = sh_sessionId sh) (Some alertIllegalParameter)
        ''tls: server did not echo the legacy session ID'') (\<lambda>_.
      bind_hs (guard_hs (sh_compressionMethod sh = compressionNone) (Some alertIllegalParameter)
        ''tls: server selected unsupported compression format'') (\<lambda>_.
      let selectedSuite = mutualCipherSuiteTLS13 (ch_cipherSuites (cl_hello hs)) (sh_cipherSuite sh) in
      bind_hs (guard_hs (cl_suite hs = None \<or> selectedSuite = cl_suite hs) (Some alertIllegalParameter)
        ''tls: server changed cipher suite after a HelloRetryRequest'') (\<lambda>_.
      case selectedSuite of
        None \<Rightarrow> Stop (Some alertIllegalParameter) ''tls: server chose an unconfigured cipher suite''
      | Some suite \<Rightarrow> Next (hs\<lparr>cl_suite := Some suite, cl_conn := (cl_conn hs)\<lparr>tc_cipherSuite := cs_id suite\<rparr>\<rparr>)))))))))"

definition processServerHello :: "clientHS \<Rightarrow> clientHS hs_res" where
  "processServerHello hs =
     (let sh = cl_serverHello hs in
      bind_hs (guard_hs (sh_random sh \<noteq> helloRetryRequestRandom) (Some alertUnexpectedMessage)
        ''tls: server sent two HelloRetryRequest messages'') (\<lambda>_.
      bind_hs (guard_hs (length (sh_cookie sh) = 0) (Some alertUnsupportedExtension)
        ''tls: server sent a cookie in a normal ServerHello'') (\<lambda>_.
      bind_hs (guard_hs (sh_selectedGroup sh = 0) (Some alertDecodeError) ''tls: malformed key_share extension'') (\<lambda>_.
      bind_hs (guard_hs (ks_group (sh_serverShare sh) \<noteq> 0) (Some alertIllegalParameter) ''tls: server did not send a key share'') (\<lambda>_.
      bind_hs (guard_hs (cl_keySharePrivate hs (ks_group (sh_serverShare sh)) \<noteq> None) (Some alertIllegalParameter)
        ''tls: server selected unsupported group'') (\<lambda>_.
      if \<not> sh_selectedIdentityPresent sh then Next hs
      else
      bind_hs (guard_hs (\<not> (es_offered (tc_ech (cl_conn hs)) \<and> \<not> es_accepted (tc_ech (cl_conn hs)))) (Some alertIllegalParameter)
        ''tls: ech: client-facing server offered PSK after ECH rejection'') (\<lambda>_.
      bind_hs (guard_hs (unat (sh_selectedIdentity sh) < length (ch_pskIdentities (cl_hello hs))) (Some alertIllegalParameter)
        ''tls: server selected an invalid PSK'') (\<lambda>_.
      case cl_session hs of
        None \<Rightarrow> Stop (Some alertInternalError) ''internal error''
      | Some session \<Rightarrow>
          bind_hs (guard_hs (length (ch_pskIdentities (cl_hello hs)) = 1) (Some alertInternalError) ''internal error'') (\<lambda>_.
          case cipherSuiteTLS13ByID (se_cipherSuite session) of
            None \<Rightarrow> Stop (Some alertInternalError) ''internal error''
          | Some pskSuite \<Rightarrow>
              bind_hs (deref (cl_suite hs)) (\<lambda>suite.
              bind_hs (guard_hs (cs_hash pskSuite = cs_hash suite) (Some alertIllegalParameter)
                ''tls: server selected an invalid PSK and cipher suite pair'') (\<lambda>_.
              Next (hs\<lparr>cl_usingPSK := True\<rparr>))))))))))))"

text \<open>The start of the handshake after the first hello of the server: its checks, and the transcripts of the client's hellos.\<close>

definition startTranscripts :: "clientHS \<Rightarrow> clientHS hs_res" where
  "startTranscripts hs =
     bind_hs (checkServerHelloOrHRR hs) (\<lambda>hs.
     case ch_marshal (cl_hello hs) of (hello, r) \<Rightarrow>
     bind_hs (lift_hs None r) (\<lambda>data.
     let hs = hs\<lparr>cl_hello := hello, cl_transcript := data\<rparr> in
     if \<not> es_offered (tc_ech (cl_conn hs)) then Next hs
     else bind_hs (deref (cl_helloInner hs)) (\<lambda>helloInner.
       case ch_marshal helloInner of (helloInner, r) \<Rightarrow>
       bind_hs (lift_hs None r) (\<lambda>data. Next (hs\<lparr>cl_helloInner := Some helloInner, cl_transcriptInner := data\<rparr>)))))"

section \<open>HelloRetryRequest\<close>

text \<open>Whether the HelloRetryRequest confirms ECH; the transcript is that of the inner handshake with the ClientHello replaced.\<close>

definition confirmedHRR :: "tls_hashes \<Rightarrow> cipherSuiteTLS13 \<Rightarrow> clientHelloMsg \<Rightarrow> bytes \<Rightarrow> serverHelloMsg \<Rightarrow> bytes \<Rightarrow> bool hs_res" where
  "confirmedHRR H suite helloInner transcript sh shMarshalled =
     (case sh_ech sh of
        None \<Rightarrow> Next False
      | Some ech \<Rightarrow>
          bind_hs (guard_hs (length ech = 8) (Some alertDecodeError) ''tls: ech: hrr: malformed acceptance signal'') (\<lambda>_.
          bind_hs (lift_hs None (echEncodeAcceptConfHelloRetryRequest shMarshalled)) (\<lambda>conf.
          bind_hs (lift_hs None (echConfirmation H suite echAcceptConfHRRLabel (ch_random helloInner) (transcript @ opt_bytes conf))) (\<lambda>signal.
          Next (ConstantTimeCompare ech signal = 1)))))"

text \<open>The first part of \<^verbatim>\<open>processHelloRetryRequest\<close>: the transcripts, and which of the two hellos the server used.\<close>

definition hrrTranscripts :: "tls_hashes \<Rightarrow> clientHS \<Rightarrow> (clientHS \<times> bool \<times> bytes) hs_res" where
  "hrrTranscripts H hs =
     bind_hs (deref (cl_suite hs)) (\<lambda>suite.
     let outerHash = messageHash H suite (cl_transcript hs) in
     bind_hs (cl_logServerHello (hs\<lparr>cl_transcript := outerHash\<rparr>)) (\<lambda>hs.
     if \<not> es_offered (tc_ech (cl_conn hs)) then Next (hs, False, outerHash)
     else
       let innerHash = messageHash H suite (cl_transcriptInner hs) in
       bind_hs (deref (cl_helloInner hs)) (\<lambda>helloInner.
       bind_hs (lift_hs None (snd (sh_marshal (cl_serverHello hs)))) (\<lambda>shMarshalled.
       bind_hs (confirmedHRR H suite helloInner innerHash (cl_serverHello hs) shMarshalled) (\<lambda>isInner.
       Next (hs\<lparr>cl_transcriptInner := innerHash @ shMarshalled\<rparr>, isInner, innerHash))))))"

text \<open>
  The second part: the updated hello, with a new key share from \<open>newShare\<close>, which stands for \<^verbatim>\<open>generateKemKeyPair\<close> and
  \<^verbatim>\<open>generateECDHEKey\<close>, and the updated binder.
\<close>

definition hrrKeyShare ::
    "(u16 \<Rightarrow> (privateShare \<times> bytes) hs_res) \<Rightarrow> clientHS \<Rightarrow> clientHelloMsg \<Rightarrow> (clientHS \<times> clientHelloMsg) hs_res" where
  "hrrKeyShare newShare hs hello =
     (let curveID = sh_selectedGroup (cl_serverHello hs) in
      if curveID = 0 then Next (hs, hello)
      else
        bind_hs (guard_hs (curveID \<in> set (ch_supportedCurves hello)) (Some alertIllegalParameter) ''tls: server selected unsupported group'') (\<lambda>_.
        bind_hs (guard_hs (cl_keySharePrivate hs curveID = None) (Some alertIllegalParameter)
          ''tls: server sent an unnecessary HelloRetryRequest key_share'') (\<lambda>_.
        bind_hs (newShare curveID) (\<lambda>(sk, pk).
        Next (hs\<lparr>cl_keySharePrivate := [curveID \<mapsto> sk]\<rparr>, hello\<lparr>ch_keyShares := Some [\<lparr>ks_group = curveID, ks_data = pk\<rparr>]\<rparr>)))))"

definition hrrBinders :: "tls_hashes \<Rightarrow> cipherSuiteTLS13 \<Rightarrow> bytes \<Rightarrow> clientHS \<Rightarrow> clientHelloMsg \<Rightarrow> clientHelloMsg hs_res" where
  "hrrBinders H suite chHash hs hello =
     (case ch_pskIdentities hello of
        [] \<Rightarrow> Next hello
      | ident # idents \<Rightarrow>
          bind_hs (deref (cl_session hs)) (\<lambda>session.
          case cipherSuiteTLS13ByID (se_cipherSuite session) of
            None \<Rightarrow> Stop (Some alertInternalError) ''internal error''
          | Some pskSuite \<Rightarrow>
              if cs_hash pskSuite \<noteq> cs_hash suite then Next (hello\<lparr>ch_pskIdentities := [], ch_pskBinders := []\<rparr>)
              else
                let hello = hello\<lparr>ch_pskIdentities :=
                      ident\<lparr>psk_obfuscatedTicketAge := se_ageMillis session + se_ageAdd session\<rparr> # idents\<rparr> in
                bind_hs (lift_hs None (snd (sh_marshal (cl_serverHello hs)))) (\<lambda>shMarshalled.
                case ch_marshalWithoutBinders hello of (hello, r) \<Rightarrow>
                bind_hs (lift_hs None r) (\<lambda>helloBytes.
                bind_hs (lift_hs None (finishedHash H suite (cl_binderKey hs) (chHash @ shMarshalled @ helloBytes))) (\<lambda>binder.
                case ch_updateBinders [binder] hello of (hello, r) \<Rightarrow> bind_hs (lift_hs None r) (\<lambda>_. Next hello))))))"

definition sendSecondHello ::
    "tls_hashes \<Rightarrow> (u16 \<Rightarrow> (privateShare \<times> bytes) hs_res) \<Rightarrow> clientHS \<Rightarrow> clientHS hs_res" where
  "sendSecondHello H newShare hs =
     bind_hs (hrrTranscripts H hs) (\<lambda>(hs, isInner, chHash).
     bind_hs (if isInner then deref (cl_helloInner hs) else Next (cl_hello hs)) (\<lambda>hello.
     let sh = cl_serverHello hs in
     bind_hs (guard_hs (\<not> (sh_selectedGroup sh = 0 \<and> sh_cookie sh = [])) (Some alertIllegalParameter)
       ''tls: server sent an unnecessary HelloRetryRequest message'') (\<lambda>_.
     let hello = (if sh_cookie sh \<noteq> [] then hello\<lparr>ch_cookie := sh_cookie sh\<rparr> else hello) in
     bind_hs (guard_hs (ks_group (sh_serverShare sh) = 0) (Some alertDecodeError) ''tls: received malformed key_share extension'') (\<lambda>_.
     bind_hs (hrrKeyShare newShare hs hello) (\<lambda>(hs, hello).
     bind_hs (deref (cl_suite hs)) (\<lambda>suite.
     bind_hs (hrrBinders H suite chHash hs (hello\<lparr>ch_raw := None\<rparr>)) (\<lambda>hello.
     let hello = hello\<lparr>ch_earlyData := False\<rparr> in
     bind_hs
       (if \<not> isInner then Next (hs\<lparr>cl_hello := hello\<rparr>)
        else case ch_marshal hello of (hello, r) \<Rightarrow>
          bind_hs (lift_hs None r) (\<lambda>data.
          bind_hs (lift_hs None (echUpdateClientHelloOuter (tc_ech (cl_conn hs)) (cl_hello hs) hello [])) (\<lambda>(st, outer, inner).
          Next (hs\<lparr>cl_helloInner := Some inner, cl_hello := outer, cl_transcriptInner := cl_transcriptInner hs @ data,
                   cl_conn := (cl_conn hs)\<lparr>tc_ech := st\<rparr>\<rparr>)))) (\<lambda>hs.
     case ch_marshal (cl_hello hs) of (hello, r) \<Rightarrow>
     bind_hs (lift_hs None r) (\<lambda>data.
     Next (hs\<lparr>cl_hello := hello, cl_conn := send (SentHandshake data) (cl_conn hs)\<rparr>))))))))))"

definition readSecondServerHello :: "handshakeMessage \<Rightarrow> clientHS \<Rightarrow> clientHS hs_res" where
  "readSecondServerHello msg hs =
     (case msg of
        ServerHello serverHello \<Rightarrow>
          bind_hs (checkServerHelloOrHRR (hs\<lparr>cl_serverHello := serverHello\<rparr>)) (\<lambda>hs.
          case ch_marshal (cl_hello hs) of (hello, r) \<Rightarrow>
          bind_hs (lift_hs None r) (\<lambda>data. Next (hs\<lparr>cl_hello := hello, cl_transcript := cl_transcript hs @ data\<rparr>)))
      | _ \<Rightarrow> Stop (Some alertUnexpectedMessage) ''tls: unexpected message'')"

section \<open>Detecting ECH acceptance\<close>

text \<open>The bytes of the ServerHello with the confirmation blanked; fewer than 38 of them are a panic.\<close>

definition blankConfirmation :: "bytes \<Rightarrow> bytes hs_res" where
  "blankConfirmation sh = (if length sh < 38 then Halt ''slice bounds out of range'' else Next (take 30 sh @ replicate 8 0 @ drop 38 sh))"

definition detectECH :: "tls_hashes \<Rightarrow> clientHS \<Rightarrow> clientHS hs_res" where
  "detectECH H hs =
     (if \<not> es_offered (tc_ech (cl_conn hs)) then Next hs
      else
        bind_hs (deref (cl_suite hs)) (\<lambda>suite.
        bind_hs (deref (cl_helloInner hs)) (\<lambda>helloInner.
        bind_hs (lift_hs None (snd (sh_marshal (cl_serverHello hs)))) (\<lambda>sh.
        bind_hs (blankConfirmation sh) (\<lambda>blank.
        bind_hs (lift_hs None (echConfirmation H suite echAcceptConfLabel (ch_random helloInner) (cl_transcriptInner hs @ blank))) (\<lambda>conf.
        if length (sh_random (cl_serverHello hs)) < 24 then Halt ''slice bounds out of range''
        else if ConstantTimeCompare (drop 24 (sh_random (cl_serverHello hs))) conf = 1
        then Next (hs\<lparr>cl_conn := (cl_conn hs)\<lparr>tc_ech := (tc_ech (cl_conn hs))\<lparr>es_accepted := True\<rparr>\<rparr>,
          cl_hello := helloInner, cl_transcript := cl_transcriptInner hs\<rparr>)
        else Next hs))))))"

section \<open>Secrets\<close>

definition sharedKeyOf :: "clientHS \<Rightarrow> bytes hs_res" where
  "sharedKeyOf hs =
     (let share = sh_serverShare (cl_serverHello hs) in
      case cl_keySharePrivate hs (ks_group share) of
        Some (EcdhShare f) \<Rightarrow> (case f (ks_data share) of None \<Rightarrow> Stop (Some alertIllegalParameter) ''tls: invalid server key share'' | Some k \<Rightarrow> Next k)
      | Some (KemShare f) \<Rightarrow> lift_hs (Some alertIllegalParameter) (f (ks_data share))
      | None \<Rightarrow> Stop (Some alertIllegalParameter) ''tls: invalid server key share'')"

definition establishHandshakeKeys :: "tls_hashes \<Rightarrow> tlsConfig \<Rightarrow> clientHS \<Rightarrow> clientHS hs_res" where
  "establishHandshakeKeys H cfg hs =
     bind_hs (sharedKeyOf hs) (\<lambda>sharedKey.
     bind_hs (deref (cl_suite hs)) (\<lambda>suite.
     let earlySecret = (if \<not> cl_usingPSK hs then tls_extract H suite None None else opt_bytes (cl_earlySecret hs)) in
     bind_hs (lift_hs None (handshakeSecretOf H suite earlySecret sharedKey)) (\<lambda>handshakeSecret.
     bind_hs (lift_hs None (deriveSecret H suite handshakeSecret clientHandshakeTrafficLabel (Some (cl_transcript hs)))) (\<lambda>clientSecret.
     bind_hs (lift_hs None (setTrafficSecret H suite LevelHandshake clientSecret (tc_out (cl_conn hs)))) (\<lambda>hout.
     bind_hs (lift_hs None (deriveSecret H suite handshakeSecret serverHandshakeTrafficLabel (Some (cl_transcript hs)))) (\<lambda>serverSecret.
     bind_hs (lift_hs None (setTrafficSecret H suite LevelHandshake serverSecret (tc_in (cl_conn hs)))) (\<lambda>hin.
     bind_hs (writeKeyLog cfg ''CLIENT_HANDSHAKE_TRAFFIC_SECRET'' (ch_random (cl_hello hs)) clientSecret) (\<lambda>_.
     bind_hs (writeKeyLog cfg ''SERVER_HANDSHAKE_TRAFFIC_SECRET'' (ch_random (cl_hello hs)) serverSecret) (\<lambda>_.
     bind_hs (lift_hs None (masterSecretOf H suite handshakeSecret)) (\<lambda>masterSecret.
     Next (hs\<lparr>cl_masterSecret := masterSecret, cl_conn := (cl_conn hs)\<lparr>tc_in := hin, tc_out := hout\<rparr>\<rparr>)))))))))))"

definition checkALPN :: "bytes list \<Rightarrow> bytes \<Rightarrow> string option" where
  "checkALPN clientProtos serverProto =
     (if serverProto = [] then None
      else if length clientProtos = 0 then Some ''tls: server advertised unrequested ALPN extension''
      else if serverProto \<in> set clientProtos then None
      else Some ''tls: server selected unadvertised ALPN protocol'')"

definition readServerParameters :: "('pk, 'sk) hpke_env \<Rightarrow> handshakeMessage \<Rightarrow> bytes \<Rightarrow> clientHS \<Rightarrow> clientHS hs_res" where
  "readServerParameters E msg data hs =
     (case msg of
        EncryptedExtensions ee \<Rightarrow>
          let hs = hs\<lparr>cl_transcript := cl_transcript hs @ data\<rparr> in
          (case checkALPN (ch_alpnProtocols (cl_hello hs)) (ee_alpnProtocol ee) of
             Some e \<Rightarrow> Stop (Some alertNoApplicationProtocol) e
           | None \<Rightarrow>
               let c = (cl_conn hs)\<lparr>tc_clientProtocol := ee_alpnProtocol ee\<rparr> in
               bind_hs (guard_hs (ee_quicTransportParameters ee = None) (Some alertUnsupportedExtension)
                 ''tls: server sent an unexpected quic_transport_parameters extension'') (\<lambda>_.
               bind_hs (guard_hs (ch_earlyData (cl_hello hs) \<or> \<not> ee_earlyData ee) (Some alertUnsupportedExtension)
                 ''tls: server sent an unexpected early_data extension'') (\<lambda>_.
               bind_hs (if \<not> ee_earlyData ee then Next ()
                 else bind_hs (deref (cl_session hs)) (\<lambda>session.
                   bind_hs (guard_hs (se_cipherSuite session = tc_cipherSuite c) (Some alertHandshakeFailure)
                     ''tls: server accepted 0-RTT with the wrong cipher suite'') (\<lambda>_.
                   guard_hs (se_alpnProtocol session = tc_clientProtocol c) (Some alertHandshakeFailure)
                     ''tls: server accepted 0-RTT with the wrong ALPN''))) (\<lambda>_.
               if es_offered (tc_ech c) \<and> length (ee_ech ee) > 0 then
                 if es_accepted (tc_ech c) then Stop (Some alertUnsupportedExtension) ''tls: ech: got retry configs after ECH acceptance''
                 else bind_hs (lift_hs (Some alertDecodeError) (UnmarshalECHConfigs E (ee_ech ee))) (\<lambda>_.
                   Next (hs\<lparr>cl_conn := c\<lparr>tc_ech := (tc_ech c)\<lparr>es_retryConfigs := ee_ech ee\<rparr>\<rparr>\<rparr>))
               else Next (hs\<lparr>cl_conn := c\<rparr>)))))
      | _ \<Rightarrow> Stop (Some alertUnexpectedMessage) ''tls: unexpected message'')"

section \<open>Finished\<close>

definition readServerFinished :: "tls_hashes \<Rightarrow> tlsConfig \<Rightarrow> handshakeMessage \<Rightarrow> clientHS \<Rightarrow> clientHS hs_res" where
  "readServerFinished H cfg msg hs =
     (case msg of
        Finished finished \<Rightarrow>
          bind_hs (deref (cl_suite hs)) (\<lambda>suite.
          bind_hs (lift_hs None (finishedHash H suite (hc_trafficSecret (tc_in (cl_conn hs))) (cl_transcript hs))) (\<lambda>expectedMAC.
          bind_hs (guard_hs (hmac_Equal expectedMAC (fin_verifyData finished)) (Some alertDecryptError) ''tls: invalid server finished hash'') (\<lambda>_.
          bind_hs (lift_hs None (snd (fin_marshal finished))) (\<lambda>data.
          let hs = hs\<lparr>cl_transcript := cl_transcript hs @ data\<rparr>; random = ch_random (cl_hello hs) in
          bind_hs (lift_hs None (deriveSecret H suite (cl_masterSecret hs) clientApplicationTrafficLabel (Some (cl_transcript hs)))) (\<lambda>trafficSecret.
          bind_hs (lift_hs None (deriveSecret H suite (cl_masterSecret hs) serverApplicationTrafficLabel (Some (cl_transcript hs)))) (\<lambda>serverSecret.
          bind_hs (lift_hs None (setTrafficSecret H suite LevelApplication serverSecret (tc_in (cl_conn hs)))) (\<lambda>hin.
          bind_hs (writeKeyLog cfg ''CLIENT_TRAFFIC_SECRET_0'' random trafficSecret) (\<lambda>_.
          bind_hs (writeKeyLog cfg ''SERVER_TRAFFIC_SECRET_0'' random serverSecret) (\<lambda>_.
          bind_hs (lift_hs None (exportKeyingMaterial H suite (cl_masterSecret hs) (cl_transcript hs))) (\<lambda>ekm.
          Next (hs\<lparr>cl_trafficSecret := trafficSecret, cl_conn := (cl_conn hs)\<lparr>tc_in := hin, tc_ekm := Some ekm\<rparr>\<rparr>)))))))))))
      | _ \<Rightarrow> Stop (Some alertUnexpectedMessage) ''tls: unexpected message'')"

definition sendClientFinished :: "tls_hashes \<Rightarrow> tlsConfig \<Rightarrow> clientHS \<Rightarrow> clientHS hs_res" where
  "sendClientFinished H cfg hs =
     bind_hs (deref (cl_suite hs)) (\<lambda>suite.
     bind_hs (lift_hs None (finishedHash H suite (hc_trafficSecret (tc_out (cl_conn hs))) (cl_transcript hs))) (\<lambda>verifyData.
     bind_hs (cl_write (Finished \<lparr>fin_raw = None, fin_verifyData = verifyData\<rparr>) hs) (\<lambda>hs.
     bind_hs (lift_hs None (setTrafficSecret H suite LevelApplication (cl_trafficSecret hs) (tc_out (cl_conn hs)))) (\<lambda>hout.
     let c = (cl_conn hs)\<lparr>tc_out := hout\<rparr> in
     if \<not> cfg_SessionTicketsDisabled cfg \<and> cfg_hasClientSessionCache cfg \<and> \<not> cfg_ECHEnabled cfg then
       bind_hs (lift_hs None (deriveSecret H suite (cl_masterSecret hs) resumptionLabel (Some (cl_transcript hs)))) (\<lambda>res.
       Next (hs\<lparr>cl_conn := c\<lparr>tc_resumptionSecret := Some res\<rparr>\<rparr>))
     else Next (hs\<lparr>cl_conn := c\<rparr>)))))"

definition abortIfRequired :: "clientHS \<Rightarrow> clientHS hs_res" where
  "abortIfRequired hs =
     (if es_offered (tc_ech (cl_conn hs)) \<and> \<not> es_accepted (tc_ech (cl_conn hs))
      then Stop (Some alertECHRequired) ''tls: ech: rejected'' else Next hs)"

end
