(* ===== verification/TLS_Params.thy ===== *)
theory TLS_Params
  imports TLS13_Client "HOL-Library.Sublist"
begin

text \<open>
  The parameters that a TLS handshake negotiates: protocol versions (\<^verbatim>\<open>crypto/tls/common.go\<close>), cipher suites
  (\<^verbatim>\<open>crypto/tls/cipher_suites.go\<close>), key agreement groups (\<^verbatim>\<open>crypto/tls/cfkem.go\<close>), application protocols and the TLS flags
  extension. The FIPS mode is off.
\<close>

section \<open>Versions\<close>

definition VersionTLS10 :: u16 where "VersionTLS10 = 0x301"
definition VersionTLS11 :: u16 where "VersionTLS11 = 0x302"

text \<open>The parts of a configuration from which parameters are negotiated; \<open>tls10server\<close> and \<open>tlsrsakex\<close> are debug settings.\<close>

record negConfig =
  ng_MinVersion :: u16
  ng_MaxVersion :: u16
  ng_tls10server :: bool
  ng_tlsrsakex :: bool
  ng_aesHardware :: bool
  ng_CipherSuites :: "u16 list option"
  ng_CurvePreferences :: "u16 list"
  ng_ClientCurveGuess :: "u16 list option"
  ng_NextProtos :: "bytes list"
  ng_TLSFlagsSupported :: "u16 list"
  ng_ServerName :: bytes
  ng_InsecureSkipVerify :: bool
  ng_SupportDelegatedCredential :: bool
  ng_supportedSignatureAlgorithms :: "u16 list"

definition all_versions :: "u16 list" where
  "all_versions = [VersionTLS13, VersionTLS12, VersionTLS11, VersionTLS10]"

definition supportedVersions :: "negConfig \<Rightarrow> bool \<Rightarrow> u16 list" where
  "supportedVersions cfg isClient = filter (\<lambda>v.
     \<not> (ng_MinVersion cfg = 0 \<and> v < VersionTLS12 \<and> (isClient \<or> \<not> ng_tls10server cfg)) \<and>
     \<not> (ng_MinVersion cfg \<noteq> 0 \<and> v < ng_MinVersion cfg) \<and>
     \<not> (ng_MaxVersion cfg \<noteq> 0 \<and> v > ng_MaxVersion cfg)) all_versions"

definition supportedVersionsFromMin :: "negConfig \<Rightarrow> bool \<Rightarrow> u16 \<Rightarrow> u16 list" where
  "supportedVersionsFromMin cfg isClient minVersion = filter (\<lambda>v. v \<ge> minVersion) (supportedVersions cfg isClient)"

definition maxSupportedVersion :: "negConfig \<Rightarrow> bool \<Rightarrow> u16" where
  "maxSupportedVersion cfg isClient = (case supportedVersions cfg isClient of [] \<Rightarrow> 0 | v # _ \<Rightarrow> v)"

definition supportedVersionsFromMax :: "u16 \<Rightarrow> u16 list" where
  "supportedVersionsFromMax maxVersion = filter (\<lambda>v. \<not> v > maxVersion) all_versions"

definition mutualVersion :: "negConfig \<Rightarrow> bool \<Rightarrow> u16 list \<Rightarrow> u16 option" where
  "mutualVersion cfg isClient peerVersions = find (\<lambda>v. v \<in> set (supportedVersions cfg isClient)) peerVersions"

section \<open>Cipher suites\<close>

text \<open>The suites up to TLS 1.2: their identifiers, and whether they need TLS 1.2.\<close>

definition cipherSuites :: "(u16 \<times> bool) list" where
  "cipherSuites = [(0xcca8, True), (0xcca9, True), (0xc02f, True), (0xc02b, True), (0xc030, True), (0xc02c, True), (0xc027, True),
     (0xc013, False), (0xc023, True), (0xc009, False), (0xc014, False), (0xc00a, False), (0x009c, True), (0x009d, True), (0x003c, True),
     (0x002f, False), (0x0035, False), (0xc012, False), (0x000a, False), (0x0005, False), (0xc011, False), (0xc007, False)]"

definition cipherSuiteByID :: "u16 \<Rightarrow> (u16 \<times> bool) option" where
  "cipherSuiteByID i = find (\<lambda>c. fst c = i) cipherSuites"

definition mutualCipherSuite :: "u16 list \<Rightarrow> u16 \<Rightarrow> (u16 \<times> bool) option" where
  "mutualCipherSuite have want = (if want \<in> set have then cipherSuiteByID want else None)"

definition cipherSuitesPreferenceOrder :: "u16 list" where
  "cipherSuitesPreferenceOrder = [0xc02b, 0xc02f, 0xc02c, 0xc030, 0xcca9, 0xcca8, 0xc009, 0xc013, 0xc00a, 0xc014, 0x009c, 0x009d,
     0x002f, 0x0035, 0xc012, 0x000a, 0xc023, 0xc027, 0x003c, 0xc007, 0xc011, 0x0005]"

definition cipherSuitesPreferenceOrderNoAES :: "u16 list" where
  "cipherSuitesPreferenceOrderNoAES = [0xcca9, 0xcca8, 0xc02b, 0xc02f, 0xc02c, 0xc030, 0xc009, 0xc013, 0xc00a, 0xc014, 0x009c, 0x009d,
     0x002f, 0x0035, 0xc012, 0x000a, 0xc023, 0xc027, 0x003c, 0xc007, 0xc011, 0x0005]"

definition disabledCipherSuites :: "u16 list" where
  "disabledCipherSuites = [0xc023, 0xc027, 0x003c, 0xc007, 0xc011, 0x0005]"

definition rsaKexCiphers :: "u16 list" where
  "rsaKexCiphers = [0x0005, 0x000a, 0x002f, 0x0035, 0x003c, 0x009c, 0x009d]"

definition defaultCipherSuites :: "u16 list" where
  "defaultCipherSuites = filter (\<lambda>c. c \<notin> set disabledCipherSuites \<and> c \<notin> set rsaKexCiphers) cipherSuitesPreferenceOrder"

definition defaultCipherSuitesWithRSAKex :: "u16 list" where
  "defaultCipherSuitesWithRSAKex = filter (\<lambda>c. c \<notin> set disabledCipherSuites) cipherSuitesPreferenceOrder"

definition configCipherSuites :: "negConfig \<Rightarrow> u16 list" where
  "configCipherSuites cfg = (case ng_CipherSuites cfg of
       Some cs \<Rightarrow> cs
     | None \<Rightarrow> if ng_tlsrsakex cfg then defaultCipherSuitesWithRSAKex else defaultCipherSuites)"

definition defaultCipherSuitesTLS13 :: "u16 list" where
  "defaultCipherSuitesTLS13 = [0x1301, 0x1302, 0x1303]"

definition defaultCipherSuitesTLS13NoAES :: "u16 list" where
  "defaultCipherSuitesTLS13NoAES = [0x1303, 0x1301, 0x1302]"

definition aesgcmCiphers :: "u16 list" where
  "aesgcmCiphers = [0xc02f, 0xc030, 0xc02b, 0xc02c, 0x1301, 0x1302]"

fun aesgcmPreferred :: "u16 list \<Rightarrow> bool" where
  "aesgcmPreferred [] = False"
| "aesgcmPreferred (cID # ciphers) =
     (if cipherSuiteByID cID \<noteq> None then cID \<in> set aesgcmCiphers
      else if cipherSuiteTLS13ByID cID \<noteq> None then cID \<in> set aesgcmCiphers
      else aesgcmPreferred ciphers)"

fun firstMutualTLS13 :: "u16 list \<Rightarrow> u16 list \<Rightarrow> cipherSuiteTLS13 option" where
  "firstMutualTLS13 [] have = None"
| "firstMutualTLS13 (suiteID # prefs) have =
     (case mutualCipherSuiteTLS13 have suiteID of Some suite \<Rightarrow> Some suite | None \<Rightarrow> firstMutualTLS13 prefs have)"

section \<open>Groups\<close>

definition defaultCurvePreferences :: "u16 list" where
  "defaultCurvePreferences = [29, 23, 24, 25]"

definition curvePreferences :: "negConfig \<Rightarrow> u16 list" where
  "curvePreferences cfg = (if length (ng_CurvePreferences cfg) = 0 then defaultCurvePreferences else ng_CurvePreferences cfg)"

definition curveForCurveID :: "u16 \<Rightarrow> bool" where
  "curveForCurveID i \<longleftrightarrow> i = 29 \<or> i = 23 \<or> i = 24 \<or> i = 25"

datatype circlScheme = Kyber512X25519 | Kyber768X25519 | P256Kyber768 | MLKEM768X25519 | DummyScheme

definition curveIdToCirclScheme :: "u16 \<Rightarrow> circlScheme option" where
  "curveIdToCirclScheme i =
     (if i = 0xfe30 then Some Kyber512X25519
      else if i = 0x6399 \<or> i = 0xfe31 then Some Kyber768X25519
      else if i = 0xfe32 then Some P256Kyber768
      else if i = 0x11ec then Some MLKEM768X25519
      else if i = 0xfe33 then Some DummyScheme
      else None)"

text \<open>
  Go's loop over two nested lists. The offset stays on a match, so that a group that is guessed twice is found twice; \<open>makeClientHello\<close>
  refuses it afterwards.
\<close>

fun guessLoop :: "u16 list \<Rightarrow> u16 list \<Rightarrow> nat" where
  "guessLoop [] prefs = 0"
| "guessLoop (curveID # curveIDs) [] = 0"
| "guessLoop (curveID # curveIDs) (p # prefs) =
     (if p = curveID then Suc (guessLoop curveIDs (p # prefs)) else guessLoop (curveID # curveIDs) prefs)"

section \<open>Application protocols\<close>

text \<open>The inner loop: the protocol found, or whether the fallback of HTTP was seen.\<close>

fun alpnInner :: "bytes \<Rightarrow> bytes list \<Rightarrow> bool \<Rightarrow> bytes option \<times> bool" where
  "alpnInner s [] fallback = (None, fallback)"
| "alpnInner s (c # cs) fallback =
     (if s = c then (Some s, fallback)
      else alpnInner s cs (fallback \<or> s = ascii ''h2'' \<and> c = ascii ''http/1.1''))"

fun alpnLoop :: "bytes list \<Rightarrow> bytes list \<Rightarrow> bool \<Rightarrow> bytes res" where
  "alpnLoop [] cs fallback = (if fallback then Ok [] else Err ''tls: client requested unsupported application protocols'')"
| "alpnLoop (s # ss) cs fallback = (case alpnInner s cs fallback of
       (Some p, _) \<Rightarrow> Ok p
     | (None, fallback) \<Rightarrow> alpnLoop ss cs fallback)"

definition negotiateALPN :: "bytes list \<Rightarrow> bytes list \<Rightarrow> bool \<Rightarrow> bytes res" where
  "negotiateALPN serverProtos clientProtos quic =
     (if length serverProtos = 0 \<or> length clientProtos = 0 then
        if quic \<and> length serverProtos \<noteq> 0 then Err ''tls: client did not request an application protocol'' else Ok []
      else alpnLoop serverProtos clientProtos False)"

lemma guessLoop_subseq:
  "distinct ids \<Longrightarrow> guessLoop ids prefs = length ids \<longleftrightarrow> subseq ids prefs"
proof (induction ids prefs rule: guessLoop.induct)
  case (3 c cs p prefs)
  show ?case
  proof (cases "p = c")
    case True
    then have "subseq cs (p # prefs) \<longleftrightarrow> subseq cs prefs" using 3(3) by (cases cs) auto
    with 3 True show ?thesis by simp
  qed (use 3 in simp)
qed simp_all

lemma alpnInner_spec:
  "alpnInner s cs fallback = (if s \<in> set cs then Some s else None,
     fallback \<or> s = ascii ''h2'' \<and> ascii ''http/1.1'' \<in> set (takeWhile (\<lambda>c. c \<noteq> s) cs))"
  by (induction cs arbitrary: fallback) auto

lemma alpnLoop_spec:
  "alpnLoop ss cs fallback = (case find (\<lambda>s. s \<in> set cs) ss of
     Some p \<Rightarrow> Ok p
   | None \<Rightarrow> if fallback \<or> ascii ''h2'' \<in> set ss \<and> ascii ''http/1.1'' \<in> set cs then Ok []
       else Err ''tls: client requested unsupported application protocols'')"
proof (induction ss arbitrary: fallback)
  case (Cons s ss)
  show ?case
  proof (cases "s \<in> set cs")
    case False
    then have tw: "takeWhile (\<lambda>c. c \<noteq> s) cs = cs" by (intro takeWhile_eq_all_conv [THEN iffD2]) auto
    with False show ?thesis by (auto simp: alpnInner_spec tw Cons.IH split: option.splits)
  qed (simp add: alpnInner_spec)
qed simp

text \<open>The client accepts whatever protocol the server selects from the client's list.\<close>

lemma negotiateALPN_checked:
  assumes "negotiateALPN ss cs quic = Ok p"
  shows "checkALPN cs p = None" and "p = [] \<or> find (\<lambda>s. s \<in> set cs) ss = Some p"
  using assms by (auto simp: negotiateALPN_def alpnLoop_spec checkALPN_def find_Some_iff split: if_splits option.splits)

section \<open>TLS flags\<close>

definition maxTLSFlag :: u16 where "maxTLSFlag = 2040"

fun encodeFlagsLoop :: "u16 list \<Rightarrow> bytes \<Rightarrow> bytes res" where
  "encodeFlagsLoop [] flagBytes = Ok flagBytes"
| "encodeFlagsLoop (flag # flags) flagBytes =
     (if flag \<ge> maxTLSFlag then Err ''cannot encode TLS flags greater than 2040''
      else let whichByte = unat flag div 8;
               flagBytes = (if whichByte \<ge> length flagBytes then flagBytes @ replicate (whichByte + 1 - length flagBytes) 0 else flagBytes)
           in encodeFlagsLoop flags (flagBytes[whichByte := flagBytes ! whichByte OR push_bit (unat flag mod 8) 1]))"

definition encodeFlags :: "u16 list \<Rightarrow> bytes res" where
  "encodeFlags flags = encodeFlagsLoop flags []"

function decodeByte :: "nat \<Rightarrow> byte \<Rightarrow> u16 list" where
  "decodeByte flagNo b = (if b = 0 then []
     else (if b AND 1 = 1 then [of_nat flagNo] else []) @ decodeByte (Suc flagNo) (drop_bit 1 b))"
  by pat_completeness auto

lemma drop_bit_less: "b \<noteq> 0 \<Longrightarrow> unat (drop_bit (Suc 0) b) < unat (b :: byte)"
  using unat_drop_bit_eq [of "Suc 0" b] by (simp add: drop_bit_Suc unat_gt_0)

termination decodeByte
  by (relation "measure (\<lambda>(n, b). unat b)") (simp_all add: drop_bit_less)

declare decodeByte.simps [simp del]

definition decodeFlags :: "bytes \<Rightarrow> u16 list res" where
  "decodeFlags flagBytes = (if length flagBytes > unat (drop_bit 3 maxTLSFlag) then Err ''TLS flags extension malformed (too long)''
     else Ok (concat (map (\<lambda>(byteIndex, b). decodeByte (8 * byteIndex) b) (enumerate 0 flagBytes))))"

definition mutualFlags :: "bytes \<Rightarrow> bytes \<Rightarrow> bytes" where
  "mutualFlags supportedFlags clientFlags = map2 (\<lambda>sFB cFB. cFB AND sFB) supportedFlags clientFlags"

lemma decodeByte_zero [simp]: "decodeByte n 0 = []"
  by (simp add: decodeByte.simps)

text \<open>The flags of a byte are its bits, in ascending order.\<close>

lemma decodeByte_bits:
  "(\<And>i. k \<le> i \<Longrightarrow> \<not> bit b i) \<Longrightarrow> decodeByte n b = map of_nat (filter (\<lambda>i. bit b (i - n)) [n..<n + k])"
proof (induction k arbitrary: n b)
  case 0
  then have "b = 0" by (intro bit_eqI) simp
  then show ?case by simp
next
  case (Suc k)
  have "decodeByte (Suc n) (drop_bit 1 b) = map of_nat (filter (\<lambda>i. bit (drop_bit 1 b) (i - Suc n)) [Suc n..<Suc n + k])"
    using Suc.prems by (intro Suc.IH) (simp add: bit_drop_bit_eq)
  also have "\<dots> = map of_nat (filter (\<lambda>i. bit b (i - n)) [Suc n..<Suc n + k])"
    by (intro arg_cong [where f = "map of_nat"] filter_cong) (auto simp: bit_drop_bit_eq Suc_diff_Suc)
  finally have rest: "decodeByte (Suc n) (drop_bit 1 b) = map of_nat (filter (\<lambda>i. bit b (i - n)) [Suc n..<Suc n + k])" .
  have upt: "[n..<n + Suc k] = n # [Suc n..<Suc n + k]" by (simp add: upt_conv_Cons del: upt_Suc)
  have low: "b AND 1 = 1 \<longleftrightarrow> bit b 0" by (simp add: and_one_eq bit_0 odd_iff_mod_2_eq_one)
  show ?case
    unfolding upt decodeByte.simps [of n b] rest low by (cases "b = 0") auto
qed

definition flagOf :: "bytes \<Rightarrow> nat \<Rightarrow> bool" where
  "flagOf bs f \<longleftrightarrow> f < 8 * length bs \<and> bit (bs ! (f div 8)) (f mod 8)"

lemma decode_enumerate:
  "concat (map (\<lambda>(i, b). decodeByte (8 * i) b) (enumerate 0 bs)) = map of_nat (filter (flagOf bs) [0..<8 * length bs])"
proof (induction bs rule: rev_induct)
  case Nil
  show ?case by simp
next
  case (snoc b bs)
  let ?n = "8 * length bs"
  have "filter (flagOf bs) [0..<?n] = filter (flagOf (bs @ [b])) [0..<?n]"
    by (intro filter_cong) (auto simp: flagOf_def nth_append)
  moreover have "filter (\<lambda>i. bit b (i - ?n)) [?n..<?n + 8] = filter (flagOf (bs @ [b])) [?n..<?n + 8]"
  proof (intro filter_cong refl)
    fix i assume "i \<in> set [?n..<?n + 8]"
    then have "?n \<le> i" "i < ?n + 8" by auto
    then have "i div 8 = length bs" by (intro div_nat_eqI) auto
    moreover from this have "i mod 8 = i - ?n" using minus_mult_div_eq_mod [of i 8] by simp
    ultimately show "bit b (i - ?n) = flagOf (bs @ [b]) i" using \<open>i < ?n + 8\<close> by (simp add: flagOf_def)
  qed
  moreover have "decodeByte ?n b = map of_nat (filter (\<lambda>i. bit b (i - ?n)) [?n..<?n + 8])"
    by (rule decodeByte_bits) simp
  moreover have "[0..<8 * length (bs @ [b])] = [0..<?n] @ [?n..<?n + 8]"
    using upt_add_eq_append [of 0 ?n 8] by (simp add: algebra_simps)
  ultimately show ?case
    by (simp only: enumerate_append_eq map_append concat_append snoc.IH filter_append) simp
qed

lemma of_nat_u16_less: "n < m \<Longrightarrow> m < 65536 \<Longrightarrow> (of_nat n :: u16) < of_nat m"
  by (simp add: word_less_nat_alt unat_of_nat)

lemma decodeFlags_spec:
  assumes "length bs \<le> 255"
  shows "decodeFlags bs = Ok (sorted_list_of_set (of_nat ` Collect (flagOf bs)))"
proof -
  let ?xs = "filter (flagOf bs) [0..<8 * length bs]"
  have s: "sorted_wrt (<) ?xs" by (rule sorted_wrt_filter) simp
  have "sorted_wrt (<) (map (of_nat :: nat \<Rightarrow> u16) ?xs)"
    unfolding sorted_wrt_map by (rule sorted_wrt_mono_rel [rotated, OF s]) (use assms in \<open>auto intro!: of_nat_u16_less\<close>)
  moreover have "set (map (of_nat :: nat \<Rightarrow> u16) ?xs) = of_nat ` Collect (flagOf bs)"
    by (auto simp: flagOf_def)
  ultimately have "map of_nat ?xs = sorted_list_of_set (of_nat ` Collect (flagOf bs) :: u16 set)"
    by (metis strict_sorted_equal strict_sorted_iff sorted_list_of_set.idem_if_sorted_distinct)
  moreover have "unat (drop_bit 3 maxTLSFlag) = 255" by (simp add: maxTLSFlag_def)
  ultimately show ?thesis
    using assms by (simp add: decodeFlags_def decode_enumerate)
qed

lemma flagOf_grow: "flagOf (bs @ replicate k 0) f \<longleftrightarrow> flagOf bs f"
  by (auto simp: flagOf_def nth_append)

lemma flagOf_set:
  assumes "w < length bs" and "w = f div 8"
  shows "flagOf (bs[w := bs ! w OR push_bit (f mod 8) 1]) g \<longleftrightarrow> flagOf bs g \<or> g = f"
proof -
  have "g div 8 = f div 8 \<and> g mod 8 = f mod 8 \<longleftrightarrow> g = f" by (metis div_mult_mod_eq)
  moreover have "f < 8 * length bs" using assms by auto
  ultimately show ?thesis
    using assms by (auto simp: flagOf_def nth_list_update bit_or_iff bit_exp_iff)
qed

lemma encodeFlagsLoop_Ok:
  assumes "\<forall>f \<in> set flags. f < maxTLSFlag" and "length bs \<le> 255"
  shows "\<exists>bs'. encodeFlagsLoop flags bs = Ok bs' \<and> length bs' \<le> 255 \<and> (\<forall>g. flagOf bs' g \<longleftrightarrow> flagOf bs g \<or> of_nat g \<in> set flags \<and> g < 2040)"
  using assms
proof (induction flags arbitrary: bs)
  case Nil
  then show ?case by simp
next
  case (Cons flag flags)
  let ?w = "unat flag div 8"
  define b1 where "b1 = (if ?w \<ge> length bs then bs @ replicate (?w + 1 - length bs) 0 else bs)"
  define b2 where "b2 = b1[?w := b1 ! ?w OR push_bit (unat flag mod 8) 1]"
  have nle: "\<not> maxTLSFlag \<le> flag" using Cons.prems(1) by (simp add: not_le)
  have f: "unat flag < 2040" using Cons.prems(1) by (simp add: maxTLSFlag_def word_less_nat_alt)
  then have w: "?w < 255" by simp
  have l: "?w < length b1" "length b2 \<le> 255" using Cons.prems(2) w by (auto simp: b1_def b2_def)
  have b2: "flagOf b2 g \<longleftrightarrow> flagOf bs g \<or> g = unat flag" for g
    unfolding b2_def flagOf_set [OF l(1) refl] by (simp add: b1_def flagOf_grow)
  have eq: "g = unat flag \<longleftrightarrow> of_nat g = flag \<and> g < 2040" for g
    using f by (auto simp: unat_of_nat)
  obtain bs' where bs': "encodeFlagsLoop flags b2 = Ok bs'" "length bs' \<le> 255"
      "\<forall>g. flagOf bs' g \<longleftrightarrow> flagOf b2 g \<or> of_nat g \<in> set flags \<and> g < 2040"
    using Cons.IH [OF _ l(2)] Cons.prems(1) by auto
  have "encodeFlagsLoop (flag # flags) bs = Ok bs'"
    using nle bs'(1) by (simp add: Let_def b1_def b2_def)
  moreover have "flagOf bs' g \<longleftrightarrow> flagOf bs g \<or> of_nat g \<in> set (flag # flags) \<and> g < 2040" for g
    using bs'(3) b2 eq by auto
  ultimately show ?case using bs'(2) by blast
qed

lemma encodeFlags_Ok:
  assumes "\<forall>f \<in> set flags. f < maxTLSFlag"
  obtains bs where "encodeFlags flags = Ok bs" "length bs \<le> 255" "of_nat ` Collect (flagOf bs) = set flags"
    "\<And>g. flagOf bs g \<longleftrightarrow> of_nat g \<in> set flags \<and> g < 2040"
proof -
  obtain bs where b: "encodeFlagsLoop flags [] = Ok bs" "length bs \<le> 255"
      "\<forall>g. flagOf bs g \<longleftrightarrow> flagOf [] g \<or> of_nat g \<in> set flags \<and> g < 2040"
    using encodeFlagsLoop_Ok [OF assms, of "[]"] by auto
  then have g: "flagOf bs g \<longleftrightarrow> of_nat g \<in> set flags \<and> g < 2040" for g by (simp add: flagOf_def)
  have "x \<in> of_nat ` Collect (flagOf bs)" if "x \<in> set flags" for x
  proof (rule image_eqI)
    show "x = of_nat (unat x)" by simp
    show "unat x \<in> Collect (flagOf bs)" using that assms by (auto simp: g maxTLSFlag_def word_less_nat_alt)
  qed
  then have "of_nat ` Collect (flagOf bs) = set flags" by (auto simp: g)
  with b(1,2) g show thesis by (intro that [of bs]) (simp_all add: encodeFlags_def)
qed

lemma flagOf_mutual: "flagOf (mutualFlags a b) g \<longleftrightarrow> flagOf a g \<and> flagOf b g"
proof -
  have less: "g < 8 * n \<longleftrightarrow> g div 8 < n" for n by (simp add: div_less_iff_less_mult mult.commute)
  show ?thesis unfolding flagOf_def less mutualFlags_def
    by (cases "g div 8 < length a"; cases "g div 8 < length b") (simp_all add: bit_and_iff conj_commute)
qed

lemma encodeFlagsLoop_last:
  "encodeFlagsLoop flags bs = Ok bs' \<Longrightarrow> bs = [] \<or> last bs \<noteq> 0 \<Longrightarrow> bs' = [] \<or> last bs' \<noteq> 0"
proof (induction flags arbitrary: bs)
  case Nil
  then show ?case by simp
next
  case (Cons flag flags)
  let ?w = "unat flag div 8"
  define b1 where "b1 = (if ?w \<ge> length bs then bs @ replicate (?w + 1 - length bs) 0 else bs)"
  define b2 where "b2 = b1[?w := b1 ! ?w OR push_bit (unat flag mod 8) 1]"
  have w: "?w < length b1" by (auto simp: b1_def)
  have nz: "x OR push_bit (unat flag mod 8) 1 \<noteq> 0" for x :: byte
  proof
    assume "x OR push_bit (unat flag mod 8) 1 = 0"
    then have "\<not> bit (x OR push_bit (unat flag mod 8) 1) (unat flag mod 8)" by simp
    then show False by (simp add: bit_or_iff bit_push_bit_iff bit_exp_iff)
  qed
  have "last b2 \<noteq> 0"
  proof (cases "?w = length b1 - 1")
    case True
    then have "b2 ! (length b2 - 1) \<noteq> 0" using w nz by (simp add: b2_def)
    moreover have "b2 \<noteq> []" using w by (auto simp: b2_def)
    ultimately show ?thesis by (simp add: last_conv_nth)
  next
    case False
    then have "b1 = bs" "bs \<noteq> []" using w by (auto simp: b1_def split: if_splits)
    then show ?thesis using False Cons.prems(2) by (simp add: b2_def last_list_update)
  qed
  then show ?case
    using Cons.prems(1) by (intro Cons.IH [of b2]) (auto simp: Let_def b1_def b2_def split: if_splits)
qed

text \<open>
  Flags that are encoded are decoded as the same set, in ascending order, and of two encoded sets the server computes exactly the
  flags that both contain. The encoding has no zero byte at its end, which the server would refuse.
\<close>

theorem flags_negotiated:
  assumes "\<forall>f \<in> set mine. f < maxTLSFlag" and "\<forall>f \<in> set peers. f < maxTLSFlag"
  shows "\<exists>a b. encodeFlags mine = Ok a \<and> encodeFlags peers = Ok b \<and> decodeFlags b = Ok (sorted_list_of_set (set peers)) \<and>
    (b = [] \<or> last b \<noteq> 0) \<and> decodeFlags (mutualFlags a b) = Ok (sorted_list_of_set (set mine \<inter> set peers))"
proof -
  obtain a where a: "encodeFlags mine = Ok a" "length a \<le> 255" "of_nat ` Collect (flagOf a) = set mine"
      "\<And>g. flagOf a g \<longleftrightarrow> of_nat g \<in> set mine \<and> g < 2040"
    by (rule encodeFlags_Ok [OF assms(1)]) (rule that)
  obtain b where b: "encodeFlags peers = Ok b" "length b \<le> 255" "of_nat ` Collect (flagOf b) = set peers"
      "\<And>g. flagOf b g \<longleftrightarrow> of_nat g \<in> set peers \<and> g < 2040"
    by (rule encodeFlags_Ok [OF assms(2)]) (rule that)
  have "x \<in> of_nat ` Collect (flagOf (mutualFlags a b))" if "x \<in> set mine" "x \<in> set peers" for x
    by (rule image_eqI [of _ _ "unat x"]) (use that assms(1) in \<open>auto simp: flagOf_mutual a(4) b(4) maxTLSFlag_def word_less_nat_alt\<close>)
  then have "of_nat ` Collect (flagOf (mutualFlags a b)) = set mine \<inter> set peers"
    by (auto simp: flagOf_mutual a(4) b(4))
  moreover have "length (mutualFlags a b) \<le> 255" using a(2) by (simp add: mutualFlags_def)
  moreover have "b = [] \<or> last b \<noteq> 0"
    using b(1) by (auto simp: encodeFlags_def dest: encodeFlagsLoop_last)
  ultimately show ?thesis
    using a(1) b(1-3) by (simp add: decodeFlags_spec)
qed

end
