(* ===== verification/TLS13_Handshake.thy ===== *)
theory TLS13_Handshake
  imports TLS13_Client
begin

text \<open>
  The two sides of the TLS 1.3 handshake against each other: the confirmation of ECH in the ServerHello and the HelloRetryRequest,
  the secrets, the Finished messages, and the exchange of all of them through \<open>readHandshake\<close>.
\<close>

section \<open>The confirmation in the ServerHello\<close>

lemma sh_encode_raw [simp]: "sh_encode (m\<lparr>sh_raw := r\<rparr>) = sh_encode m"
  by (simp add: sh_encode_def sh_extensions_def)

lemma sh_extensions_random [simp]: "sh_extensions (m\<lparr>sh_random := r\<rparr>) = sh_extensions m"
  by (simp add: sh_extensions_def)

lemma wf_serverHello_random: "wf_serverHello m \<Longrightarrow> length r = 32 \<Longrightarrow> wf_serverHello (m\<lparr>sh_random := r\<rparr>)"
  by (simp add: wf_serverHello_def fits_serverHello_def)

lemma wf_serverHello_raw [simp]: "wf_serverHello (m\<lparr>sh_raw := r\<rparr>) \<longleftrightarrow> wf_serverHello m"
  by (simp add: wf_serverHello_def fits_serverHello_def sh_extensions_def)

lemma sh_encode_split:
  assumes "length (sh_random m) = 32"
  obtains pre suf where "\<And>r. length r = 32 \<Longrightarrow> sh_encode (m\<lparr>sh_random := r\<rparr>) = pre @ r @ suf" and "length pre = 6"
proof -
  let ?suf = "pref8 (sh_sessionId m) @ enc16 (sh_cipherSuite m) @ enc8 (sh_compressionMethod m) @
    (if length (encExts (sh_extensions m)) > 0 then pref16 (encExts (sh_extensions m)) else [])"
  let ?pre = "enc8 typeServerHello @ be 3 (34 + length ?suf) @ enc16 (sh_vers m)"
  have "sh_encode (m\<lparr>sh_random := r\<rparr>) = ?pre @ r @ ?suf" if "length r = 32" for r
    using that by (simp add: sh_encode_def encServerHello_def pref24_def)
  moreover have "length ?pre = 6" by (simp del: be.simps)
  ultimately show thesis using that by blast
qed

definition withConfirmation :: "bytes \<Rightarrow> serverHelloMsg \<Rightarrow> serverHelloMsg" where
  "withConfirmation v m = m\<lparr>sh_random := take 24 (sh_random m) @ v\<rparr>"

lemma blankConfirmation_encode:
  assumes "length (sh_random m) = 32" and "length v = 8"
  shows "blankConfirmation (sh_encode (withConfirmation v m)) = Next (sh_encode (withConfirmation (replicate 8 0) m))"
proof -
  obtain pre suf where e: "\<And>r. length r = 32 \<Longrightarrow> sh_encode (m\<lparr>sh_random := r\<rparr>) = pre @ r @ suf" and l: "length pre = 6"
    by (rule sh_encode_split [OF assms(1)]) (rule that)
  define p where "p = pre @ take 24 (sh_random m)"
  have "sh_encode (withConfirmation x m) = p @ x @ suf" if "length x = 8" for x
    using assms(1) that e [of "take 24 (sh_random m) @ x"] by (simp add: withConfirmation_def p_def)
  moreover have "length p = 30" using assms(1) l by (simp add: p_def)
  ultimately show ?thesis
    using assms(2) by (simp add: blankConfirmation_def)
qed

lemma setConfirmation_eq:
  assumes "length (sh_random m) = 32" and "length v = 8"
  shows "setConfirmation v m = Next (withConfirmation v m)"
  using assms by (simp add: setConfirmation_def withConfirmation_def go_copy_def)

lemma withConfirmation_twice [simp]: "length (sh_random m) = 32 \<Longrightarrow> withConfirmation v (withConfirmation w m) = withConfirmation v m"
  by (simp add: withConfirmation_def)

lemma wf_withConfirmation: "wf_serverHello m \<Longrightarrow> length v = 8 \<Longrightarrow> wf_serverHello (withConfirmation v m)"
  unfolding withConfirmation_def by (rule wf_serverHello_random) (auto simp: wf_serverHello_def fits_serverHello_def)

lemma wf_random: "wf_serverHello m \<Longrightarrow> length (sh_random m) = 32"
  by (simp add: wf_serverHello_def fits_serverHello_def)

lemma sh_marshal_wf: "wf_serverHello m \<Longrightarrow> sh_raw m = None \<Longrightarrow> snd (sh_marshal m) = Ok (sh_encode m)"
  by (simp add: sh_marshal_encode wf_serverHello_def)

text \<open>The ServerHello that the server sends: with the confirmation when it uses the inner hello.\<close>

lemma confirmECH_inner:
  assumes "echIsInner (ss_clientHello s)" and "wf_serverHello (ss_hello s)" and "sh_raw (ss_hello s) = None"
    and "ch_marshal (ss_clientHello s) = (ch, Ok chb)" and "hashes_sized H"
  obtains v where "length v = 8"
    and "echConfirmation H (ss_suite s) echAcceptConfLabel (ch_random ch)
        (ss_transcript s @ chb @ sh_encode (withConfirmation (replicate 8 0) (ss_hello s))) = Ok v"
    and "confirmECH H s = Next (s\<lparr>ss_clientHello := ch, ss_hello := withConfirmation v (ss_hello s)\<rparr>)"
proof -
  let ?m = "ss_hello s"
  have r: "length (sh_random ?m) = 32" using assms(2) by (rule wf_random)
  have l: "length echAcceptConfLabel \<le> 249" by (simp add: echAcceptConfLabel_def)
  obtain v where v: "echConfirmation H (ss_suite s) echAcceptConfLabel (ch_random ch)
        (ss_transcript s @ chb @ sh_encode (withConfirmation (replicate 8 0) ?m)) = Ok v" "length v = 8"
    using echConfirmation_Ok [OF assms(5) l] by blast
  have w: "length (sh_random (withConfirmation (replicate 8 0) ?m)) = 32" "sh_raw (withConfirmation w ?m) = None" for w
    using r assms(3) by (simp_all add: withConfirmation_def)
  have "withConfirmation v ?m\<lparr>sh_raw := None\<rparr> = withConfirmation v ?m"
    using assms(3) by (simp add: withConfirmation_def)
  then have "confirmECH H s = Next (s\<lparr>ss_clientHello := ch, ss_hello := withConfirmation v ?m\<rparr>)"
    using assms(1,4) v r w
    by (simp add: confirmECH_def setConfirmation_eq sh_marshal_wf wf_withConfirmation assms(2))
  with v that show thesis by blast
qed

text \<open>The client recognises it.\<close>

lemma detectECH_confirmed:
  assumes "wf_serverHello m" "sh_raw m = None" "length v = 8"
    and "echConfirmation H suite echAcceptConfLabel (ch_random inner) (T @ sh_encode (withConfirmation (replicate 8 0) m)) = Ok v"
    and c: "es_offered (tc_ech (cl_conn c))" "cl_suite c = Some suite" "cl_helloInner c = Some inner" "cl_transcriptInner c = T"
      "cl_serverHello c = (withConfirmation v m)\<lparr>sh_raw := Some (sh_encode (withConfirmation v m))\<rparr>"
  shows "detectECH H c = Next (c\<lparr>cl_conn := (cl_conn c)\<lparr>tc_ech := (tc_ech (cl_conn c))\<lparr>es_accepted := True\<rparr>\<rparr>,
    cl_hello := inner, cl_transcript := T\<rparr>)"
proof -
  have r: "length (sh_random m) = 32" using assms(1) by (rule wf_random)
  have m: "snd (sh_marshal (cl_serverHello c)) = Ok (sh_encode (withConfirmation v m))"
    by (simp add: c(5) sh_marshal_def)
  have "drop 24 (sh_random (cl_serverHello c)) = v" "length (sh_random (cl_serverHello c)) = 32"
    using r assms(3) by (simp_all add: c(5) withConfirmation_def)
  then show ?thesis
    using c(1-4) assms(3,4) r by (simp add: detectECH_def m blankConfirmation_encode ConstantTimeCompare_spec)
qed

section \<open>Secrets on the two sides\<close>

definition keylog_ok :: "tlsConfig \<Rightarrow> bool" where
  "keylog_ok cfg \<longleftrightarrow> (\<forall>w line. cfg_KeyLogWriter cfg = Some w \<longrightarrow> w line = None)"

lemma writeKeyLog_ok: "keylog_ok cfg \<Longrightarrow> writeKeyLog cfg label random secret = Next ()"
  by (auto simp: writeKeyLog_def keylog_ok_def split: option.splits)

lemma suite_keyLen: "suite \<in> set cipherSuitesTLS13 \<Longrightarrow> cs_keyLen suite \<le> 32"
  by (auto simp: cipherSuitesTLS13_def)

lemma expandLabel_short:
  assumes "hashes_sized H" and "n \<le> 64" and "length label \<le> 249"
  shows "\<exists>out. expandLabel H c secret label [] n = Ok out \<and> length out = n"
  using expandLabel_eq [OF assms(3) _ assms(1), of "[]" n c secret] assms(2) Size_bounds(1) [of "cs_hash c"] by auto

lemma setTrafficSecret_Ok:
  assumes "hashes_sized H" and "suite \<in> set cipherSuitesTLS13"
  obtains hc where "\<And>old. setTrafficSecret H suite level secret old = Ok hc" and "hc_trafficSecret hc = secret" "hc_level hc = level"
proof -
  obtain key where "expandLabel H suite secret (ascii ''key'') [] (cs_keyLen suite) = Ok key"
    using expandLabel_short [OF assms(1), of "cs_keyLen suite" "ascii ''key''" suite secret] suite_keyLen [OF assms(2)] by auto
  moreover obtain iv where "expandLabel H suite secret (ascii ''iv'') [] 12 = Ok iv"
    using expandLabel_short [OF assms(1), of 12 "ascii ''iv''" suite secret] by auto
  ultimately have "trafficKey H suite secret = Ok (key, iv)" by (simp add: trafficKey_def)
  then have "setTrafficSecret H suite level secret old =
      Ok \<lparr>hc_level = level, hc_trafficSecret = secret, hc_key = key, hc_iv = iv, hc_seq = replicate 8 0\<rparr>" for old
    by (simp add: setTrafficSecret_def)
  then show thesis by (rule that) simp_all
qed

lemma deriveSecret_obtain:
  assumes "hashes_sized H" and "length label \<le> 249"
  obtains s where "deriveSecret H suite secret label transcript = Ok s"
  using deriveSecret_Ok [OF assms(2,1)] by blast

lemma length_labels:
  "length clientHandshakeTrafficLabel \<le> 249" "length serverHandshakeTrafficLabel \<le> 249" "length clientApplicationTrafficLabel \<le> 249"
  "length serverApplicationTrafficLabel \<le> 249" "length resumptionLabel \<le> 249" "length exporterLabel \<le> 249" "length (ascii ''derived'') \<le> 249"
  by (simp_all add: label_defs)

lemma keys_agree:
  assumes H: "hashes_sized H" "ss_suite s \<in> set cipherSuitesTLS13" and k: "keylog_ok cfgS" "keylog_ok cfgC"
    and e: "ss_earlySecret s = None" "\<not> cl_usingPSK c"
    and a: "cl_suite c = Some (ss_suite s)" "cl_transcript c = ss_transcript s" "sharedKeyOf c = Next (ss_sharedKey s)"
  obtains secret master hin hout where "masterSecretOf H (ss_suite s) secret = Ok master"
    and "establishServerKeys H cfgS s = Next (s\<lparr>ss_handshakeSecret := secret, ss_conn := (ss_conn s)\<lparr>tc_in := hin, tc_out := hout\<rparr>\<rparr>)"
    and "establishHandshakeKeys H cfgC c = Next (c\<lparr>cl_masterSecret := master, cl_conn := (cl_conn c)\<lparr>tc_in := hout, tc_out := hin\<rparr>\<rparr>)"
proof -
  let ?suite = "ss_suite s" and ?t = "Some (ss_transcript s)"
  obtain d where d: "deriveSecret H ?suite (tls_extract H ?suite None None) (ascii ''derived'') None = Ok d"
    by (rule deriveSecret_obtain [OF H(1) length_labels(7)])
  let ?secret = "tls_extract H ?suite (Some (ss_sharedKey s)) (Some d)"
  have hs: "handshakeSecretOf H ?suite (tls_extract H ?suite None None) (ss_sharedKey s) = Ok ?secret"
    by (simp add: handshakeSecretOf_def d)
  obtain cs where cs: "deriveSecret H ?suite ?secret clientHandshakeTrafficLabel ?t = Ok cs"
    by (rule deriveSecret_obtain [OF H(1) length_labels(1)])
  obtain sv where sv: "deriveSecret H ?suite ?secret serverHandshakeTrafficLabel ?t = Ok sv"
    by (rule deriveSecret_obtain [OF H(1) length_labels(2)])
  obtain hin where hin: "\<And>old. setTrafficSecret H ?suite LevelHandshake cs old = Ok hin"
    by (rule setTrafficSecret_Ok [OF H]) (rule that)
  obtain hout where hout: "\<And>old. setTrafficSecret H ?suite LevelHandshake sv old = Ok hout"
    by (rule setTrafficSecret_Ok [OF H]) (rule that)
  obtain master where master: "masterSecretOf H ?suite ?secret = Ok master"
    using deriveSecret_Ok [OF length_labels(7) H(1), of ?suite ?secret None] by (auto simp: masterSecretOf_def)
  show thesis
  proof (rule that [OF master])
    show "establishServerKeys H cfgS s = Next (s\<lparr>ss_handshakeSecret := ?secret, ss_conn := (ss_conn s)\<lparr>tc_in := hin, tc_out := hout\<rparr>\<rparr>)"
      by (simp add: establishServerKeys_def e hs cs sv hin hout writeKeyLog_ok k)
    show "establishHandshakeKeys H cfgC c = Next (c\<lparr>cl_masterSecret := master, cl_conn := (cl_conn c)\<lparr>tc_in := hout, tc_out := hin\<rparr>\<rparr>)"
      by (simp add: establishHandshakeKeys_def e a hs cs sv hin hout writeKeyLog_ok k master)
  qed
qed

section \<open>Finished messages\<close>

lemma finishedHash_Ok:
  assumes "hashes_sized H"
  obtains v where "finishedHash H suite key t = Ok v" and "length v \<le> 64"
proof -
  obtain k where "expandLabel H suite key (ascii ''finished'') [] (Size (cs_hash suite)) = Ok k"
    using expandLabel_short [OF assms, of "Size (cs_hash suite)" "ascii ''finished''" suite key] Size_bounds(2) [of "cs_hash suite"] by auto
  then show thesis
    using that assms Size_bounds(2) [of "cs_hash suite"] by (simp add: finishedHash_def hashes_sized_def mac_sized_def)
qed

definition finished :: "bytes \<Rightarrow> bytes \<Rightarrow> finishedMsg" where
  "finished raw v = \<lparr>fin_raw = Some raw, fin_verifyData = v\<rparr>"

lemma fin_marshal_frame:
  "length v \<le> 64 \<Longrightarrow> fin_marshal \<lparr>fin_raw = None, fin_verifyData = v\<rparr> = (finished (frame typeFinished v) v, Ok (frame typeFinished v))"
  unfolding fin_marshal_def using fin.marshal_frame [of "\<lparr>fin_raw = None, fin_verifyData = v\<rparr>"]
  by (simp add: wf_fin_def maxHandshake_def finished_def)

lemma fin_marshal_cached: "fin_marshal (finished r v) = (finished r v, Ok r)"
  by (simp add: fin_marshal_def marshalCached_def finished_def)

definition sent_data :: "bytes \<Rightarrow> tlsConn \<Rightarrow> tlsConn" where
  "sent_data d = send (SentHandshake d)"

text \<open>The server's Finished, as the client takes it.\<close>

lemma serverFinished_agree:
  assumes H: "hashes_sized H" "ss_suite s \<in> set cipherSuitesTLS13" and k: "keylog_ok cfgS" "keylog_ok cfgC"
    and r: "\<not> requestClientCert cfgS s" "\<not> shouldSendSessionTickets cfgS s"
    and a: "cl_suite c = Some (ss_suite s)" "cl_transcript c = ss_transcript s" "tc_in (cl_conn c) = tc_out (ss_conn s)"
      "tc_out (cl_conn c) = tc_in (ss_conn s)" "masterSecretOf H (ss_suite s) (ss_handshakeSecret s) = Ok (cl_masterSecret c)"
  obtains v w app resumption hout ekm where "length v \<le> 64" and "length w \<le> 64" and "hc_level hout = LevelApplication"
    and "sendServerFinished H cfgS ticket ageAdd s = Next (s\<lparr>ss_masterSecret := cl_masterSecret c, ss_trafficSecret := app,
        ss_clientFinished := w, ss_transcript := ss_transcript s @ frame typeFinished v @ frame typeFinished w,
        ss_conn := (send (SentHandshake (frame typeFinished v)) (ss_conn s))\<lparr>tc_out := hout, tc_ekm := Some ekm,
          tc_resumptionSecret := Some resumption\<rparr>\<rparr>)"
    and "readServerFinished H cfgC (Finished (finished (frame typeFinished v) v)) c = Next (c\<lparr>cl_trafficSecret := app,
        cl_transcript := cl_transcript c @ frame typeFinished v, cl_conn := (cl_conn c)\<lparr>tc_in := hout, tc_ekm := Some ekm\<rparr>\<rparr>)"
    and "finishedHash H (ss_suite s) (hc_trafficSecret (tc_in (ss_conn s))) (ss_transcript s @ frame typeFinished v) = Ok w"
    and "deriveSecret H (ss_suite s) (cl_masterSecret c) resumptionLabel
        (Some (ss_transcript s @ frame typeFinished v @ frame typeFinished w)) = Ok resumption"
proof -
  let ?suite = "ss_suite s" and ?m = "cl_masterSecret c"
  obtain v where v: "finishedHash H ?suite (hc_trafficSecret (tc_out (ss_conn s))) (ss_transcript s) = Ok v" "length v \<le> 64"
    by (rule finishedHash_Ok [OF H(1)])
  let ?f = "frame typeFinished v" and ?t = "ss_transcript s @ frame typeFinished v"
  obtain app where app: "deriveSecret H ?suite ?m clientApplicationTrafficLabel (Some ?t) = Ok app"
    by (rule deriveSecret_obtain [OF H(1) length_labels(3)])
  obtain sv where sv: "deriveSecret H ?suite ?m serverApplicationTrafficLabel (Some ?t) = Ok sv"
    by (rule deriveSecret_obtain [OF H(1) length_labels(4)])
  obtain hout where hout: "\<And>old. setTrafficSecret H ?suite LevelApplication sv old = Ok hout" and level: "hc_level hout = LevelApplication"
    by (rule setTrafficSecret_Ok [OF H]) (rule that)
  obtain exp where "deriveSecret H ?suite ?m exporterLabel (Some ?t) = Ok exp"
    by (rule deriveSecret_obtain [OF H(1) length_labels(6)])
  then obtain ekm where ekm: "exportKeyingMaterial H ?suite ?m ?t = Ok ekm" by (simp add: exportKeyingMaterial_def)
  obtain w where w: "finishedHash H ?suite (hc_trafficSecret (tc_in (ss_conn s))) ?t = Ok w" "length w \<le> 64"
    by (rule finishedHash_Ok [OF H(1)])
  obtain res where res: "deriveSecret H ?suite ?m resumptionLabel (Some (ss_transcript s @ ?f @ frame typeFinished w)) = Ok res"
    by (rule deriveSecret_obtain [OF H(1) length_labels(5)])
  note m = fin_marshal_frame [OF v(2)] fin_marshal_frame [OF w(2)] fin_marshal_cached
  show thesis
  proof (rule that [OF v(2) w(2) level _ _ w(1) res])
    show "sendServerFinished H cfgS ticket ageAdd s = Next (s\<lparr>ss_masterSecret := ?m, ss_trafficSecret := app,
        ss_clientFinished := w, ss_transcript := ss_transcript s @ ?f @ frame typeFinished w,
        ss_conn := (send (SentHandshake ?f) (ss_conn s))\<lparr>tc_out := hout, tc_ekm := Some ekm, tc_resumptionSecret := Some res\<rparr>\<rparr>)"
      using r w res by (auto simp: sendServerFinished_def v(1) ss_write_def m a(5) app sv hout writeKeyLog_ok k ekm requestClientCert_def
          sendSessionTickets_def shouldSendSessionTickets_def send_def Let_def)
    show "readServerFinished H cfgC (Finished (finished ?f v)) c = Next (c\<lparr>cl_trafficSecret := app,
        cl_transcript := cl_transcript c @ ?f, cl_conn := (cl_conn c)\<lparr>tc_in := hout, tc_ekm := Some ekm\<rparr>\<rparr>)"
      using v(1) by (simp add: readServerFinished_def a m app sv hout writeKeyLog_ok k ekm) (simp add: finished_def app sv hout ekm)
  qed
qed

text \<open>The client's Finished, as the server takes it.\<close>

lemma clientFinished_agree:
  assumes H: "hashes_sized H" "ss_suite s \<in> set cipherSuitesTLS13"
    and a: "cl_suite c = Some (ss_suite s)" "cl_trafficSecret c = ss_trafficSecret s" "ss_clientFinished s = w" "length w \<le> 64"
      "finishedHash H (ss_suite s) (hc_trafficSecret (tc_out (cl_conn c))) (cl_transcript c) = Ok w"
  obtains hin c' where "sendClientFinished H cfgC c = Next c'"
    and "tc_sent (cl_conn c') = tc_sent (cl_conn c) @ [SentHandshake (frame typeFinished w)]"
    and "tc_in (cl_conn c') = tc_in (cl_conn c)" "tc_out (cl_conn c') = hin" "tc_ekm (cl_conn c') = tc_ekm (cl_conn c)"
      "tc_ech (cl_conn c') = tc_ech (cl_conn c)" "tc_serverName (cl_conn c') = tc_serverName (cl_conn c)"
      "tc_clientProtocol (cl_conn c') = tc_clientProtocol (cl_conn c)"
    and "readClientFinished H (Finished (finished (frame typeFinished w) w)) s = Next (s\<lparr>ss_conn := (ss_conn s)\<lparr>tc_in := hin\<rparr>\<rparr>)"
    and "hc_trafficSecret hin = ss_trafficSecret s" "hc_level hin = LevelApplication"
proof -
  obtain hin where hin: "\<And>old. setTrafficSecret H (ss_suite s) LevelApplication (ss_trafficSecret s) old = Ok hin"
      "hc_trafficSecret hin = ss_trafficSecret s" "hc_level hin = LevelApplication"
    by (rule setTrafficSecret_Ok [OF H]) (rule that)
  obtain res where res: "deriveSecret H (ss_suite s) (cl_masterSecret c) resumptionLabel (Some (cl_transcript c @ frame typeFinished w)) = Ok res"
    by (rule deriveSecret_obtain [OF H(1) length_labels(5)])
  define c1 where "c1 = (send (SentHandshake (frame typeFinished w)) (cl_conn c))\<lparr>tc_out := hin\<rparr>"
  define c' where "c' = c\<lparr>cl_transcript := cl_transcript c @ frame typeFinished w,
    cl_conn := (if \<not> cfg_SessionTicketsDisabled cfgC \<and> cfg_hasClientSessionCache cfgC \<and> \<not> cfg_ECHEnabled cfgC
      then c1\<lparr>tc_resumptionSecret := Some res\<rparr> else c1)\<rparr>"
  have "sendClientFinished H cfgC c = Next c'"
    using a(4,5) by (simp add: sendClientFinished_def a(1,2) cl_write_def fin_marshal_frame hin(1) res c'_def c1_def Let_def)
  moreover have "readClientFinished H (Finished (finished (frame typeFinished w) w)) s = Next (s\<lparr>ss_conn := (ss_conn s)\<lparr>tc_in := hin\<rparr>\<rparr>)"
    by (simp add: readClientFinished_def finished_def a(3) hin(1))
  ultimately show thesis
    using that [of c' hin] hin(2,3) by (simp add: c'_def c1_def send_def)
qed

section \<open>The exchange\<close>

text \<open>
  The client after the server's hello has been read and, if need be, a HelloRetryRequest answered: \<^verbatim>\<open>handshake\<close> from the check for the
  confirmation to the handshake keys, and from the encrypted extensions to the end. The certificate messages, which are not modelled, only
  add their bytes \<open>certs\<close> to the transcript.
\<close>

definition clientKeys :: "tls_hashes \<Rightarrow> tlsConfig \<Rightarrow> handshakeMessage \<Rightarrow> clientHS \<Rightarrow> clientHS hs_res" where
  "clientKeys H cfg msg c =
     (case msg of
        ServerHello sh \<Rightarrow>
          bind_hs (detectECH H (c\<lparr>cl_serverHello := sh\<rparr>)) (\<lambda>c.
          bind_hs (cl_logServerHello c) (\<lambda>c.
          bind_hs (processServerHello (c\<lparr>cl_conn := (cl_conn c)\<lparr>tc_serverName := ch_serverName (cl_hello c)\<rparr>\<rparr>)) (\<lambda>c.
          establishHandshakeKeys H cfg (cl_sendDummyChangeCipherSpec c))))
      | _ \<Rightarrow> Stop (Some alertUnexpectedMessage) ''tls: unexpected message'')"

definition clientFinish ::
    "tls_hashes \<Rightarrow> tlsConfig \<Rightarrow> ('pk, 'sk) hpke_env \<Rightarrow> bytes \<Rightarrow> handshakeMessage \<Rightarrow> bytes \<Rightarrow> handshakeMessage \<Rightarrow> clientHS \<Rightarrow> clientHS hs_res" where
  "clientFinish H cfg E certs ee eeData fin c =
     bind_hs (readServerParameters E ee eeData c) (\<lambda>c.
     bind_hs (readServerFinished H cfg fin (c\<lparr>cl_transcript := cl_transcript c @ certs\<rparr>)) (\<lambda>c.
     bind_hs (sendClientFinished H cfg c) abortIfRequired))"

definition serverFinish ::
    "tls_hashes \<Rightarrow> tlsConfig \<Rightarrow> (bytes \<Rightarrow> bytes hs_res) \<Rightarrow> u32 res \<Rightarrow> bytes \<Rightarrow> serverHS \<Rightarrow> serverHS hs_res" where
  "serverFinish H cfg ticket ageAdd certs s =
     sendServerFinished H cfg ticket ageAdd
       (s\<lparr>ss_transcript := ss_transcript s @ certs, ss_conn := send (SentHandshake certs) (ss_conn s)\<rparr>)"

text \<open>The handshake data that was sent between two states of a connection, and its delivery to the peer.\<close>

definition handshakeData :: "sent list \<Rightarrow> bytes list" where
  "handshakeData xs = concat (map (\<lambda>x. case x of SentHandshake d \<Rightarrow> [d] | SentChangeCipherSpec \<Rightarrow> []) xs)"

definition newData :: "tlsConn \<Rightarrow> tlsConn \<Rightarrow> bytes list" where
  "newData c c' = handshakeData (drop (length (tc_sent c)) (tc_sent c'))"

definition deliver :: "bytes \<Rightarrow> handshakeMessage hs_res" where
  "deliver data = (case readHandshake data of Message m d [] \<Rightarrow> Next m | _ \<Rightarrow> Stop (Some alertUnexpectedMessage) ''unexpected message'')"

text \<open>
  The rest of a handshake without faults on the way: every message that one side sends is parsed and handled by the other. The client takes
  the ServerHello with \<open>start\<close>.
\<close>

definition exchange_via ::
    "(handshakeMessage \<Rightarrow> clientHS \<Rightarrow> clientHS hs_res) \<Rightarrow> tls_hashes \<Rightarrow> tlsConfig \<Rightarrow> tlsConfig \<Rightarrow> ('pk, 'sk) hpke_env \<Rightarrow> (bytes \<Rightarrow> bytes hs_res) \<Rightarrow> u32 res \<Rightarrow> bytes \<Rightarrow> serverHS \<Rightarrow> clientHS \<Rightarrow>
     (serverHS \<times> clientHS) hs_res" where
  "exchange_via start H cfgS cfgC E ticket ageAdd certs s c =
     bind_hs (sendServerParameters H cfgS s) (\<lambda>s1.
     bind_hs (serverFinish H cfgS ticket ageAdd certs s1) (\<lambda>s2.
     case newData (ss_conn s) (ss_conn s2) of
       shData # eeData # _ # finData # _ \<Rightarrow>
         bind_hs (deliver shData) (\<lambda>sh.
         bind_hs (start sh c) (\<lambda>c1.
         bind_hs (deliver eeData) (\<lambda>ee.
         bind_hs (deliver finData) (\<lambda>fin.
         bind_hs (clientFinish H cfgC E certs ee eeData fin c1) (\<lambda>c2.
         case newData (cl_conn c1) (cl_conn c2) of
           clientFin # _ \<Rightarrow>
             bind_hs (deliver clientFin) (\<lambda>m.
             bind_hs (readClientFinished H m s2) (\<lambda>s3. Next (s3, c2)))
         | [] \<Rightarrow> Stop None ''no message'')))))
     | _ \<Rightarrow> Stop None ''no message''))"

definition exchange ::
    "tls_hashes \<Rightarrow> tlsConfig \<Rightarrow> tlsConfig \<Rightarrow> ('pk, 'sk) hpke_env \<Rightarrow> (bytes \<Rightarrow> bytes hs_res) \<Rightarrow> u32 res \<Rightarrow> bytes \<Rightarrow> serverHS \<Rightarrow> clientHS \<Rightarrow>
     (serverHS \<times> clientHS) hs_res" where
  "exchange H cfgS cfgC = exchange_via (clientKeys H cfgC) H cfgS cfgC"

text \<open>
  What the two sides have agreed on before: the cipher suite, the shared key, no pre-shared key, the transcript up to the ClientHello that
  the server uses, and which ClientHello that is.
\<close>

definition agreed :: "serverHS \<Rightarrow> clientHS \<Rightarrow> bytes \<Rightarrow> bool" where
  "agreed s c chb \<longleftrightarrow>
     ss_suite s \<in> set cipherSuitesTLS13 \<and> cl_suite c = Some (ss_suite s) \<and>
     snd (ch_marshal (ss_clientHello s)) = Ok chb \<and> ss_earlySecret s = None \<and> \<not> cl_usingPSK c \<and>
     (\<exists>share. cl_keySharePrivate c (ks_group (sh_serverShare (ss_hello s))) = Some share \<and>
        (case share of EcdhShare f \<Rightarrow> f (ks_data (sh_serverShare (ss_hello s))) = Some (ss_sharedKey s)
         | KemShare f \<Rightarrow> f (ks_data (sh_serverShare (ss_hello s))) = Ok (ss_sharedKey s))) \<and>
     (es_offered (tc_ech (cl_conn c)) \<longleftrightarrow> echIsInner (ss_clientHello s)) \<and>
     (if echIsInner (ss_clientHello s)
      then es_accepted (tc_ech (ss_conn s)) \<and> cl_transcriptInner c = ss_transcript s @ chb \<and>
        (\<exists>inner. cl_helloInner c = Some inner \<and> ch_random inner = ch_random (ss_clientHello s) \<and>
           checkALPN (ch_alpnProtocols inner) (tc_clientProtocol (ss_conn s)) = None)
      else cl_transcript c = ss_transcript s @ chb \<and>
        checkALPN (ch_alpnProtocols (cl_hello c)) (tc_clientProtocol (ss_conn s)) = None)"

text \<open>The server's hello as \<^verbatim>\<open>processClientHello\<close> leaves it, and extensions that fit.\<close>

definition hello_ready :: "serverHS \<Rightarrow> bool" where
  "hello_ready s \<longleftrightarrow> (let m = ss_hello s in
     wf_serverHello m \<and> sh_raw m = None \<and> take 24 (sh_random m) \<noteq> take 24 helloRetryRequestRandom \<and> sh_cookie m = [] \<and>
     sh_selectedGroup m = 0 \<and> ks_group (sh_serverShare m) \<noteq> 0 \<and> \<not> sh_selectedIdentityPresent m \<and>
     length (sh_encode m) \<le> 4 + maxHandshake \<and> wf_ee (serverExtensions (ss_conn s)))"

lemma deliver_fresh:
  assumes "fresh_msg m" and "msg_marshal m = (m', Ok data)"
  shows "deliver data = Next m'"
  using fresh_framed [OF assms(1)] assms(2) frame_length_field [where s = "[]"]
  by (auto simp: framed_def deliver_def readHandshake_def Let_def maxHandshake_def)

lemma fst_ch_marshal: "fst (ch_marshal m) = m\<lparr>ch_raw := ch_raw (fst (ch_marshal m))\<rparr>"
  by (simp add: ch_marshal_def split: option.splits res.splits)

lemma ch_marshal_again: "ch_marshal m = (m', Ok b) \<Longrightarrow> snd (ch_marshal m') = Ok b"
  by (auto simp: ch_marshal_def split: option.splits res.splits)

text \<open>
  The ServerHello that goes out, whether the server confirms ECH in it or not, and what the client makes of it.
\<close>

lemma confirm_detect:
  assumes H: "hashes_sized H" and a: "agreed s c chb" and h: "hello_ready s"
  obtains r raw c1 where "length r = 32" and "take 24 r = take 24 (sh_random (ss_hello s))"
    and "confirmECH H s = Next (s\<lparr>ss_clientHello := (ss_clientHello s)\<lparr>ch_raw := raw\<rparr>, ss_hello := (ss_hello s)\<lparr>sh_random := r\<rparr>\<rparr>)"
    and "snd (ch_marshal ((ss_clientHello s)\<lparr>ch_raw := raw\<rparr>)) = Ok chb"
    and "detectECH H (c\<lparr>cl_serverHello := (ss_hello s)\<lparr>sh_random := r, sh_raw := Some (sh_encode ((ss_hello s)\<lparr>sh_random := r\<rparr>))\<rparr>\<rparr>) = Next c1"
    and "cl_transcript c1 = ss_transcript s @ chb"
      "c1 = c\<lparr>cl_serverHello := (ss_hello s)\<lparr>sh_random := r, sh_raw := Some (sh_encode ((ss_hello s)\<lparr>sh_random := r\<rparr>))\<rparr>,
         cl_conn := cl_conn c1, cl_hello := cl_hello c1, cl_transcript := cl_transcript c1\<rparr>"
      "cl_conn c1 = (cl_conn c)\<lparr>tc_ech := tc_ech (cl_conn c1)\<rparr>"
      "es_offered (tc_ech (cl_conn c1)) \<longleftrightarrow> echIsInner (ss_clientHello s)"
      "es_offered (tc_ech (cl_conn c1)) \<Longrightarrow> es_accepted (tc_ech (cl_conn c1))"
      "cl_hello c1 = (if echIsInner (ss_clientHello s) then the (cl_helloInner c) else cl_hello c)"
proof (cases "echIsInner (ss_clientHello s)")
  case False
  let ?c = "c\<lparr>cl_serverHello := (ss_hello s)\<lparr>sh_raw := Some (sh_encode (ss_hello s))\<rparr>\<rparr>"
  have r: "length (sh_random (ss_hello s)) = 32" using h by (intro wf_random) (simp add: hello_ready_def Let_def)
  have "confirmECH H s = Next s" using False by (simp add: confirmECH_def)
  moreover have "detectECH H ?c = Next ?c" using False a by (simp add: detectECH_def agreed_def)
  ultimately show thesis
    using that [of "sh_random (ss_hello s)" "ch_raw (ss_clientHello s)" ?c] r a False by (simp add: agreed_def)
next
  case True
  let ?m = "ss_hello s"
  obtain inner where i: "cl_helloInner c = Some inner" "ch_random inner = ch_random (ss_clientHello s)"
    using a True by (auto simp: agreed_def)
  define raw where "raw = ch_raw (fst (ch_marshal (ss_clientHello s)))"
  have raw: "fst (ch_marshal (ss_clientHello s)) = (ss_clientHello s)\<lparr>ch_raw := raw\<rparr>"
    unfolding raw_def by (rule fst_ch_marshal)
  have m: "ch_marshal (ss_clientHello s) = ((ss_clientHello s)\<lparr>ch_raw := raw\<rparr>, Ok chb)"
    using a raw by (simp add: agreed_def prod_eq_iff)
  have w: "wf_serverHello ?m" "sh_raw ?m = None" using h by (simp_all add: hello_ready_def Let_def)
  obtain v where v: "length v = 8"
      "echConfirmation H (ss_suite s) echAcceptConfLabel (ch_random (ss_clientHello s))
        (ss_transcript s @ chb @ sh_encode (withConfirmation (replicate 8 0) ?m)) = Ok v"
      "confirmECH H s = Next (s\<lparr>ss_clientHello := (ss_clientHello s)\<lparr>ch_raw := raw\<rparr>, ss_hello := withConfirmation v ?m\<rparr>)"
    by (rule confirmECH_inner [OF True w m H]) (rule that, simp_all)
  let ?r = "take 24 (sh_random ?m) @ v"
  let ?sh = "?m\<lparr>sh_random := ?r\<rparr>"
  let ?c = "c\<lparr>cl_serverHello := ?sh\<lparr>sh_raw := Some (sh_encode ?sh)\<rparr>\<rparr>"
  have r: "length ?r = 32" "take 24 ?r = take 24 (sh_random ?m)" using v(1) wf_random [OF w(1)] by simp_all
  have "detectECH H ?c = Next (?c\<lparr>cl_conn := (cl_conn c)\<lparr>tc_ech := (tc_ech (cl_conn c))\<lparr>es_accepted := True\<rparr>\<rparr>,
      cl_hello := inner, cl_transcript := ss_transcript s @ chb\<rparr>)"
    using detectECH_confirmed [OF w v(1), where H = H and suite = "ss_suite s" and inner = inner and T = "ss_transcript s @ chb" and c = ?c]
      v(2) i a True by (simp add: agreed_def withConfirmation_def)
  from that [OF r v(3) [unfolded withConfirmation_def] ch_marshal_again [OF m] this] a i True show thesis
    by (simp add: agreed_def)
qed

lemma tc_sent_send [simp]: "tc_sent (send x c) = tc_sent c @ [x]" "tc_in (send x c) = tc_in c" "tc_out (send x c) = tc_out c"
  "tc_ech (send x c) = tc_ech c" "tc_clientProtocol (send x c) = tc_clientProtocol c" "tc_serverName (send x c) = tc_serverName c"
  "tc_ekm (send x c) = tc_ekm c"
  by (simp_all add: send_def)

lemma processServerHello_ready:
  assumes "hello_ready s" and "take 24 r = take 24 (sh_random (ss_hello s))"
    and "cl_serverHello c = (ss_hello s)\<lparr>sh_random := r, sh_raw := x\<rparr>" and "cl_keySharePrivate c (ks_group (sh_serverShare (ss_hello s))) \<noteq> None"
  shows "processServerHello c = Next c"
proof -
  have "r \<noteq> helloRetryRequestRandom" using assms(1,2) by (auto simp: hello_ready_def Let_def)
  with assms show ?thesis by (simp add: processServerHello_def hello_ready_def Let_def)
qed

lemma ss_write_ServerHello:
  "wf_serverHello m \<Longrightarrow> sh_raw m = None \<Longrightarrow> ss_write (ServerHello m) s = Next (s\<lparr>ss_transcript := ss_transcript s @ sh_encode m,
    ss_conn := send (SentHandshake (sh_encode m)) (ss_conn s)\<rparr>)"
  by (simp add: ss_write_def sh_marshal_encode wf_serverHello_def)

definition eeFrame :: "encryptedExtensionsMsg \<Rightarrow> bytes" where
  "eeFrame m = frame typeEncryptedExtensions (ee_payload m)"

lemma ss_write_EncryptedExtensions:
  "wf_ee m \<Longrightarrow> ee_raw m = None \<Longrightarrow> ss_write (EncryptedExtensions m) s = Next (s\<lparr>ss_transcript := ss_transcript s @ eeFrame m,
    ss_conn := send (SentHandshake (eeFrame m)) (ss_conn s)\<rparr>)"
  using ee.marshal_frame [of m] by (simp add: ss_write_def ee_marshal_def eeFrame_def)

lemma ss_dummyCCS_fields [simp]:
  "ss_clientHello (ss_sendDummyChangeCipherSpec s) = ss_clientHello s" "ss_suite (ss_sendDummyChangeCipherSpec s) = ss_suite s"
  "ss_transcript (ss_sendDummyChangeCipherSpec s) = ss_transcript s" "ss_sharedKey (ss_sendDummyChangeCipherSpec s) = ss_sharedKey s"
  "ss_earlySecret (ss_sendDummyChangeCipherSpec s) = ss_earlySecret s" "ss_tlsFlags (ss_sendDummyChangeCipherSpec s) = ss_tlsFlags s"
  "ss_usingPSK (ss_sendDummyChangeCipherSpec s) = ss_usingPSK s"
  "tc_ech (ss_conn (ss_sendDummyChangeCipherSpec s)) = tc_ech (ss_conn s)"
  "tc_clientProtocol (ss_conn (ss_sendDummyChangeCipherSpec s)) = tc_clientProtocol (ss_conn s)"
  by (simp_all add: ss_sendDummyChangeCipherSpec_def)

lemma ss_dummyCCS_sent:
  obtains xs where "tc_sent (ss_conn (ss_sendDummyChangeCipherSpec s)) = tc_sent (ss_conn s) @ xs" and "handshakeData xs = []"
  by (rule that [of "if ss_sentDummyCCS s then [] else [SentChangeCipherSpec]"])
    (simp_all add: ss_sendDummyChangeCipherSpec_def handshakeData_def)

lemma cl_dummyCCS_fields [simp]:
  "cl_serverHello (cl_sendDummyChangeCipherSpec c) = cl_serverHello c" "cl_hello (cl_sendDummyChangeCipherSpec c) = cl_hello c"
  "cl_keySharePrivate (cl_sendDummyChangeCipherSpec c) = cl_keySharePrivate c" "cl_session (cl_sendDummyChangeCipherSpec c) = cl_session c"
  "cl_suite (cl_sendDummyChangeCipherSpec c) = cl_suite c" "cl_transcript (cl_sendDummyChangeCipherSpec c) = cl_transcript c"
  "cl_usingPSK (cl_sendDummyChangeCipherSpec c) = cl_usingPSK c"
  "tc_ech (cl_conn (cl_sendDummyChangeCipherSpec c)) = tc_ech (cl_conn c)"
  "tc_serverName (cl_conn (cl_sendDummyChangeCipherSpec c)) = tc_serverName (cl_conn c)"
  by (simp_all add: cl_sendDummyChangeCipherSpec_def)

lemma sharedKeyOf_agreed:
  assumes "agreed s c chb" and "cl_keySharePrivate c' = cl_keySharePrivate c" and "sh_serverShare (cl_serverHello c') = sh_serverShare (ss_hello s)"
  shows "sharedKeyOf c' = Next (ss_sharedKey s)"
proof -
  let ?share = "sh_serverShare (ss_hello s)"
  obtain share where "cl_keySharePrivate c (ks_group ?share) = Some share"
      "case share of EcdhShare f \<Rightarrow> f (ks_data ?share) = Some (ss_sharedKey s) | KemShare f \<Rightarrow> f (ks_data ?share) = Ok (ss_sharedKey s)"
    using assms(1) by (auto simp: agreed_def)
  with assms(2,3) show ?thesis
    by (cases share) (simp_all add: sharedKeyOf_def Let_def)
qed

lemma handshakeData_simps [simp]:
  "handshakeData [] = []" "handshakeData (SentHandshake d # xs) = d # handshakeData xs"
  "handshakeData (xs @ ys) = handshakeData xs @ handshakeData ys"
  by (simp_all add: handshakeData_def)

text \<open>The two sides after the first flight: the same secrets in opposite directions, the same transcript but for the extensions.\<close>

definition keyed :: "tls_hashes \<Rightarrow> serverHS \<Rightarrow> serverHS \<Rightarrow> clientHS \<Rightarrow> clientHS \<Rightarrow> bytes \<Rightarrow> bool" where
  "keyed H s s' c c' eeb \<longleftrightarrow> ss_suite s' = ss_suite s \<and> cl_suite c' = Some (ss_suite s) \<and>
     ss_transcript s' = cl_transcript c' @ eeb \<and>
     tc_in (cl_conn c') = tc_out (ss_conn s') \<and> tc_out (cl_conn c') = tc_in (ss_conn s') \<and>
     masterSecretOf H (ss_suite s) (ss_handshakeSecret s') = Ok (cl_masterSecret c') \<and>
     (es_offered (tc_ech (cl_conn c')) \<longleftrightarrow> echIsInner (ss_clientHello s)) \<and>
     (es_offered (tc_ech (cl_conn c')) \<longrightarrow> es_accepted (tc_ech (cl_conn c'))) \<and>
     cl_hello c' = (if echIsInner (ss_clientHello s) then the (cl_helloInner c) else cl_hello c) \<and>
     tc_serverName (cl_conn c') = ch_serverName (cl_hello c') \<and> cl_session c' = cl_session c \<and>
     ss_tlsFlags s' = ss_tlsFlags s \<and> ss_usingPSK s' = ss_usingPSK s \<and>
     ch_pskModes (ss_clientHello s') = ch_pskModes (ss_clientHello s) \<and> tc_clientProtocol (ss_conn s') = tc_clientProtocol (ss_conn s)"

lemma keys_stage:
  assumes H: "hashes_sized H" and k: "keylog_ok cfgS" "keylog_ok cfgC" and a: "agreed s c chb" and h: "hello_ready s"
  obtains s' c' m xs where "wf_serverHello m" "sh_raw m = None" "length (sh_encode m) \<le> 4 + maxHandshake"
    and "m = (ss_hello s)\<lparr>sh_random := sh_random m\<rparr>" "take 24 (sh_random m) = take 24 (sh_random (ss_hello s))"
    and "sendServerParameters H cfgS s = Next s'"
    and "tc_sent (ss_conn s') = tc_sent (ss_conn s) @ xs"
    and "handshakeData xs = [sh_encode m, eeFrame (serverExtensions (ss_conn s))]"
    and "clientKeys H cfgC (ServerHello (m\<lparr>sh_raw := Some (sh_encode m)\<rparr>)) c = Next c'"
    and "keyed H s s' c c' (eeFrame (serverExtensions (ss_conn s)))"
proof -
  obtain r raw c1 where r: "length r = 32" "take 24 r = take 24 (sh_random (ss_hello s))"
    and conf: "confirmECH H s = Next (s\<lparr>ss_clientHello := (ss_clientHello s)\<lparr>ch_raw := raw\<rparr>, ss_hello := (ss_hello s)\<lparr>sh_random := r\<rparr>\<rparr>)"
      "snd (ch_marshal ((ss_clientHello s)\<lparr>ch_raw := raw\<rparr>)) = Ok chb"
    and det: "detectECH H (c\<lparr>cl_serverHello := (ss_hello s)\<lparr>sh_random := r, sh_raw := Some (sh_encode ((ss_hello s)\<lparr>sh_random := r\<rparr>))\<rparr>\<rparr>) = Next c1"
    and c1: "cl_transcript c1 = ss_transcript s @ chb"
      "c1 = c\<lparr>cl_serverHello := (ss_hello s)\<lparr>sh_random := r, sh_raw := Some (sh_encode ((ss_hello s)\<lparr>sh_random := r\<rparr>))\<rparr>,
         cl_conn := cl_conn c1, cl_hello := cl_hello c1, cl_transcript := cl_transcript c1\<rparr>"
      "cl_conn c1 = (cl_conn c)\<lparr>tc_ech := tc_ech (cl_conn c1)\<rparr>"
      "es_offered (tc_ech (cl_conn c1)) \<longleftrightarrow> echIsInner (ss_clientHello s)"
      "es_offered (tc_ech (cl_conn c1)) \<Longrightarrow> es_accepted (tc_ech (cl_conn c1))"
      "cl_hello c1 = (if echIsInner (ss_clientHello s) then the (cl_helloInner c) else cl_hello c)"
    by (rule confirm_detect [OF H a h]) (rule that)
  let ?m = "(ss_hello s)\<lparr>sh_random := r\<rparr>" and ?ee = "serverExtensions (ss_conn s)"
  have w: "wf_serverHello ?m" "sh_raw ?m = None" "wf_ee ?ee"
    using h r(1) by (simp_all add: hello_ready_def Let_def wf_serverHello_random)
  let ?ch = "(ss_clientHello s)\<lparr>ch_raw := raw\<rparr>" and ?T = "ss_transcript s @ chb @ sh_encode ?m"
  define sB where "sB = s\<lparr>ss_clientHello := fst (ch_marshal ?ch), ss_hello := ?m, ss_transcript := ss_transcript s @ chb\<rparr>"
  have log: "ss_logClientHello (s\<lparr>ss_clientHello := ?ch, ss_hello := ?m\<rparr>) = Next sB"
    using conf(2) by (cases "ch_marshal ?ch") (simp add: ss_logClientHello_def sB_def)
  define sC where "sC = sB\<lparr>ss_transcript := ?T, ss_conn := send (SentHandshake (sh_encode ?m)) (ss_conn s)\<rparr>"
  have wr: "ss_write (ServerHello (ss_hello sB)) sB = Next sC"
    using ss_write_ServerHello [OF w(1,2), of sB] by (simp add: sB_def sC_def)
  let ?sD = "ss_sendDummyChangeCipherSpec sC"
  obtain ys where ys: "tc_sent (ss_conn ?sD) = tc_sent (ss_conn sC) @ ys" "handshakeData ys = []" by (rule ss_dummyCCS_sent)
  define cB where "cB = c1\<lparr>cl_transcript := ?T, cl_conn := (cl_conn c1)\<lparr>tc_serverName := ch_serverName (cl_hello c1)\<rparr>\<rparr>"
  have f: "cl_serverHello c1 = ?m\<lparr>sh_raw := Some (sh_encode ?m)\<rparr>" "cl_suite c1 = cl_suite c" "cl_usingPSK c1 = cl_usingPSK c"
    "cl_keySharePrivate c1 = cl_keySharePrivate c" "cl_session c1 = cl_session c"
    by (subst c1(2), simp)+
  have sh: "cl_logServerHello c1 = Next (c1\<lparr>cl_transcript := ?T\<rparr>)"
    by (simp add: cl_logServerHello_def f(1) sh_marshal_def c1(1))
  let ?cC = "cl_sendDummyChangeCipherSpec cB"
  have ps: "processServerHello cB = Next cB"
    by (rule processServerHello_ready [OF h r(2)]) (use a in \<open>auto simp: cB_def f agreed_def\<close>)
  have ag: "ss_suite s \<in> set cipherSuitesTLS13" "cl_suite c = Some (ss_suite s)" "ss_earlySecret s = None" "\<not> cl_usingPSK c"
    using a by (simp_all add: agreed_def)
  have s: "ss_suite sC = ss_suite s" "ss_earlySecret sC = ss_earlySecret s" "ss_transcript sC = ?T" "ss_sharedKey sC = ss_sharedKey s"
    "ss_tlsFlags sC = ss_tlsFlags s" "ss_usingPSK sC = ss_usingPSK s" "ss_conn sC = send (SentHandshake (sh_encode ?m)) (ss_conn s)"
    "ch_pskModes (ss_clientHello sC) = ch_pskModes (ss_clientHello s)"
    using arg_cong [OF fst_ch_marshal [of ?ch], of ch_pskModes] by (simp_all add: sC_def sB_def)
  have g: "cl_serverHello cB = ?m\<lparr>sh_raw := Some (sh_encode ?m)\<rparr>" "cl_suite cB = cl_suite c" "cl_usingPSK cB = cl_usingPSK c"
    "cl_keySharePrivate cB = cl_keySharePrivate c" "cl_session cB = cl_session c" "cl_transcript cB = ?T" "cl_hello cB = cl_hello c1"
    "tc_ech (cl_conn cB) = tc_ech (cl_conn c1)" "tc_serverName (cl_conn cB) = ch_serverName (cl_hello c1)"
    by (simp_all add: cB_def f)
  have sk: "sharedKeyOf ?cC = Next (ss_sharedKey ?sD)"
    using sharedKeyOf_agreed [OF a, of ?cC] by (simp add: g s)
  have pre: "ss_suite ?sD \<in> set cipherSuitesTLS13" "ss_earlySecret ?sD = None" "\<not> cl_usingPSK ?cC" "cl_suite ?cC = Some (ss_suite ?sD)"
    "cl_transcript ?cC = ss_transcript ?sD"
    using ag by (simp_all add: g s)
  obtain secret master hin hout where e: "masterSecretOf H (ss_suite ?sD) secret = Ok master"
      "establishServerKeys H cfgS ?sD = Next (?sD\<lparr>ss_handshakeSecret := secret, ss_conn := (ss_conn ?sD)\<lparr>tc_in := hin, tc_out := hout\<rparr>\<rparr>)"
      "establishHandshakeKeys H cfgC ?cC = Next (?cC\<lparr>cl_masterSecret := master, cl_conn := (cl_conn ?cC)\<lparr>tc_in := hout, tc_out := hin\<rparr>\<rparr>)"
    by (rule keys_agree [OF H pre(1) k pre(2-5) sk]) (rule that)
  define sE where "sE = ?sD\<lparr>ss_handshakeSecret := secret, ss_conn := (ss_conn ?sD)\<lparr>tc_in := hin, tc_out := hout\<rparr>\<rparr>"
  have ext: "serverExtensions (ss_conn sE) = ?ee"
    by (simp add: sE_def s serverExtensions_def)
  define s' where "s' = sE\<lparr>ss_transcript := ?T @ eeFrame ?ee, ss_conn := send (SentHandshake (eeFrame ?ee)) (ss_conn sE)\<rparr>"
  define c' where "c' = ?cC\<lparr>cl_masterSecret := master, cl_conn := (cl_conn ?cC)\<lparr>tc_in := hout, tc_out := hin\<rparr>\<rparr>"
  show thesis
  proof (rule that [OF w(1,2)])
    have "length (sh_encode ?m) = length (sh_encode (ss_hello s))"
      using r(1) wf_random [of "ss_hello s"] h by (simp add: sh_encode_def hello_ready_def Let_def)
    then show "length (sh_encode ?m) \<le> 4 + maxHandshake" using h by (simp add: hello_ready_def Let_def)
    show "?m = (ss_hello s)\<lparr>sh_random := sh_random ?m\<rparr>" "take 24 (sh_random ?m) = take 24 (sh_random (ss_hello s))"
      using r(2) by simp_all
    have "ss_write (EncryptedExtensions (serverExtensions (ss_conn sE))) sE = Next s'"
      unfolding ext by (subst ss_write_EncryptedExtensions [OF w(3)])
        (simp_all add: serverExtensions_def emptyEE_def s'_def, simp_all add: sE_def s)
    then show "sendServerParameters H cfgS s = Next s'"
      by (simp add: sendServerParameters_def conf(1) log wr e(2) flip: sE_def)
    show "tc_sent (ss_conn s') = tc_sent (ss_conn s) @ [SentHandshake (sh_encode ?m)] @ ys @ [SentHandshake (eeFrame ?ee)]"
      by (simp add: s'_def sE_def ys s)
    show "handshakeData ([SentHandshake (sh_encode ?m)] @ ys @ [SentHandshake (eeFrame ?ee)]) = [sh_encode ?m, eeFrame ?ee]"
      by (simp add: ys)
    show "clientKeys H cfgC (ServerHello (?m\<lparr>sh_raw := Some (sh_encode ?m)\<rparr>)) c = Next c'"
      using det by (simp add: clientKeys_def sh ps e(3) c'_def flip: cB_def)
    show "keyed H s s' c c' (eeFrame ?ee)"
      using e(1) c1(4,5,6) ag by (simp add: keyed_def s'_def c'_def sE_def g s)
  qed
qed

lemma deliver_ServerHello:
  assumes "wf_serverHello m" "sh_raw m = None" "length (sh_encode m) \<le> 4 + maxHandshake"
  shows "deliver (sh_encode m) = Next (ServerHello (m\<lparr>sh_raw := Some (sh_encode m)\<rparr>))"
  by (rule deliver_fresh [of "ServerHello m"]) (use assms in \<open>simp_all add: sh_marshal_encode wf_serverHello_def\<close>)

lemma deliver_EncryptedExtensions:
  assumes "wf_ee m" "ee_raw m = None"
  shows "deliver (eeFrame m) = Next (EncryptedExtensions (m\<lparr>ee_raw := Some (eeFrame m)\<rparr>))"
  by (rule deliver_fresh [of "EncryptedExtensions m"])
    (use assms ee.marshal_frame [OF assms] in \<open>simp_all add: ee_marshal_def eeFrame_def\<close>)

lemma deliver_Finished:
  assumes "length v \<le> 64"
  shows "deliver (frame typeFinished v) = Next (Finished (finished (frame typeFinished v) v))"
  by (rule deliver_fresh [of "Finished \<lparr>fin_raw = None, fin_verifyData = v\<rparr>"])
    (use assms in \<open>simp_all add: fin_marshal_frame wf_fin_def maxHandshake_def\<close>)

text \<open>The extensions that the server sends are accepted.\<close>

lemma readServerParameters_agreed:
  assumes a: "agreed s c chb" and k: "keyed H s s' c c' eeb"
  shows "readServerParameters E (EncryptedExtensions ((serverExtensions (ss_conn s))\<lparr>ee_raw := x\<rparr>)) data c' =
    Next (c'\<lparr>cl_transcript := cl_transcript c' @ data, cl_conn := (cl_conn c')\<lparr>tc_clientProtocol := tc_clientProtocol (ss_conn s)\<rparr>\<rparr>)"
  using a k by (auto simp: readServerParameters_def serverExtensions_def emptyEE_def agreed_def keyed_def Let_def split: if_splits)

text \<open>The state of a connection on which the two sides agree at the end of the handshake.\<close>

definition connected :: "serverHS \<Rightarrow> clientHS \<Rightarrow> bool" where
  "connected s c \<longleftrightarrow>
     tc_in (cl_conn c) = tc_out (ss_conn s) \<and> tc_out (cl_conn c) = tc_in (ss_conn s) \<and>
     hc_level (tc_in (cl_conn c)) = LevelApplication \<and> hc_level (tc_out (cl_conn c)) = LevelApplication \<and>
     tc_ekm (cl_conn c) = tc_ekm (ss_conn s) \<and> tc_ekm (ss_conn s) \<noteq> None \<and>
     tc_clientProtocol (cl_conn c) = tc_clientProtocol (ss_conn s)"

lemma finish_stage:
  fixes E :: "('pk, 'sk) hpke_env"
  assumes H: "hashes_sized H" and k: "keylog_ok cfgS" "keylog_ok cfgC" and a: "agreed s c chb"
    and r: "\<not> requestClientCert cfgS s" "\<not> shouldSendSessionTickets cfgS s"
    and y: "keyed H s s1 c c1 (eeFrame (serverExtensions (ss_conn s)))"
  obtains v w s' c' s'' where "length v \<le> 64" "length w \<le> 64"
    and "serverFinish H cfgS ticket ageAdd certs s1 = Next s'"
    and "tc_sent (ss_conn s') = tc_sent (ss_conn s1) @ [SentHandshake certs, SentHandshake (frame typeFinished v)]"
    and "clientFinish H cfgC E certs (EncryptedExtensions ((serverExtensions (ss_conn s))\<lparr>ee_raw := x\<rparr>))
        (eeFrame (serverExtensions (ss_conn s))) (Finished (finished (frame typeFinished v) v)) c1 = Next c'"
    and "tc_sent (cl_conn c') = tc_sent (cl_conn c1) @ [SentHandshake (frame typeFinished w)]"
    and "readClientFinished H (Finished (finished (frame typeFinished w) w)) s' = Next s''"
    and "connected s'' c'" "tc_ech (cl_conn c') = tc_ech (cl_conn c1)" "tc_serverName (cl_conn c') = tc_serverName (cl_conn c1)"
proof -
  let ?eeb = "eeFrame (serverExtensions (ss_conn s))"
  define s2 where "s2 = s1\<lparr>ss_transcript := ss_transcript s1 @ certs, ss_conn := send (SentHandshake certs) (ss_conn s1)\<rparr>"
  define c2 where "c2 = c1\<lparr>cl_conn := (cl_conn c1)\<lparr>tc_clientProtocol := tc_clientProtocol (ss_conn s)\<rparr>,
    cl_transcript := cl_transcript c1 @ ?eeb @ certs\<rparr>"
  have r2: "\<not> requestClientCert cfgS s2" "\<not> shouldSendSessionTickets cfgS s2"
    using r y by (simp_all add: s2_def keyed_def requestClientCert_def shouldSendSessionTickets_def)
  have suite: "ss_suite s2 \<in> set cipherSuitesTLS13" using a y by (simp add: agreed_def keyed_def s2_def)
  have q: "cl_suite c2 = Some (ss_suite s2)" "cl_transcript c2 = ss_transcript s2" "tc_in (cl_conn c2) = tc_out (ss_conn s2)"
      "tc_out (cl_conn c2) = tc_in (ss_conn s2)" "masterSecretOf H (ss_suite s2) (ss_handshakeSecret s2) = Ok (cl_masterSecret c2)"
    using y by (simp_all add: keyed_def s2_def c2_def)
  obtain v w app res hout ekm where v: "length v \<le> 64" "length w \<le> 64" "hc_level hout = LevelApplication"
    and s3: "sendServerFinished H cfgS ticket ageAdd s2 = Next (s2\<lparr>ss_masterSecret := cl_masterSecret c2, ss_trafficSecret := app,
        ss_clientFinished := w, ss_transcript := ss_transcript s2 @ frame typeFinished v @ frame typeFinished w,
        ss_conn := (send (SentHandshake (frame typeFinished v)) (ss_conn s2))\<lparr>tc_out := hout, tc_ekm := Some ekm,
          tc_resumptionSecret := Some res\<rparr>\<rparr>)"
    and c3: "readServerFinished H cfgC (Finished (finished (frame typeFinished v) v)) c2 = Next (c2\<lparr>cl_trafficSecret := app,
        cl_transcript := cl_transcript c2 @ frame typeFinished v, cl_conn := (cl_conn c2)\<lparr>tc_in := hout, tc_ekm := Some ekm\<rparr>\<rparr>)"
    and w: "finishedHash H (ss_suite s2) (hc_trafficSecret (tc_in (ss_conn s2))) (ss_transcript s2 @ frame typeFinished v) = Ok w"
    by (rule serverFinished_agree [OF H suite k r2 q]) (rule that)
  define s3 where "s3 = s2\<lparr>ss_masterSecret := cl_masterSecret c2, ss_trafficSecret := app,
        ss_clientFinished := w, ss_transcript := ss_transcript s2 @ frame typeFinished v @ frame typeFinished w,
        ss_conn := (send (SentHandshake (frame typeFinished v)) (ss_conn s2))\<lparr>tc_out := hout, tc_ekm := Some ekm,
          tc_resumptionSecret := Some res\<rparr>\<rparr>"
  define c3 where "c3 = c2\<lparr>cl_trafficSecret := app,
        cl_transcript := cl_transcript c2 @ frame typeFinished v, cl_conn := (cl_conn c2)\<lparr>tc_in := hout, tc_ekm := Some ekm\<rparr>\<rparr>"
  have q3: "ss_suite s3 \<in> set cipherSuitesTLS13" "cl_suite c3 = Some (ss_suite s3)" "cl_trafficSecret c3 = ss_trafficSecret s3"
      "ss_clientFinished s3 = w" "finishedHash H (ss_suite s3) (hc_trafficSecret (tc_out (cl_conn c3))) (cl_transcript c3) = Ok w"
    using suite q w by (simp_all add: s3_def c3_def)
  obtain hin c4 where c4: "sendClientFinished H cfgC c3 = Next c4"
      "tc_sent (cl_conn c4) = tc_sent (cl_conn c3) @ [SentHandshake (frame typeFinished w)]"
      "tc_in (cl_conn c4) = tc_in (cl_conn c3)" "tc_out (cl_conn c4) = hin" "tc_ekm (cl_conn c4) = tc_ekm (cl_conn c3)"
      "tc_ech (cl_conn c4) = tc_ech (cl_conn c3)" "tc_serverName (cl_conn c4) = tc_serverName (cl_conn c3)"
      "tc_clientProtocol (cl_conn c4) = tc_clientProtocol (cl_conn c3)"
    and s4: "readClientFinished H (Finished (finished (frame typeFinished w) w)) s3 = Next (s3\<lparr>ss_conn := (ss_conn s3)\<lparr>tc_in := hin\<rparr>\<rparr>)"
    and lin: "hc_level hin = LevelApplication"
    by (rule clientFinished_agree [OF H q3(1-4) v(2) q3(5)]) (rule that)
  show thesis
  proof (rule that [OF v(1,2)])
    show "serverFinish H cfgS ticket ageAdd certs s1 = Next s3"
      using s3 by (simp add: serverFinish_def flip: s2_def s3_def)
    show "tc_sent (ss_conn s3) = tc_sent (ss_conn s1) @ [SentHandshake certs, SentHandshake (frame typeFinished v)]"
      by (simp add: s3_def s2_def)
    have "\<not> (es_offered (tc_ech (cl_conn c4)) \<and> \<not> es_accepted (tc_ech (cl_conn c4)))"
      using y by (simp add: c4 c3_def c2_def keyed_def)
    then have "abortIfRequired c4 = Next c4" by (auto simp: abortIfRequired_def)
    then show "clientFinish H cfgC E certs (EncryptedExtensions ((serverExtensions (ss_conn s))\<lparr>ee_raw := x\<rparr>)) ?eeb
        (Finished (finished (frame typeFinished v) v)) c1 = Next c4"
      using c3 [folded c3_def] c4(1)
      by (simp add: clientFinish_def readServerParameters_agreed [OF a y] flip: c2_def)
    show "tc_sent (cl_conn c4) = tc_sent (cl_conn c1) @ [SentHandshake (frame typeFinished w)]"
      by (simp add: c4 c3_def c2_def)
    show "readClientFinished H (Finished (finished (frame typeFinished w) w)) s3 = Next (s3\<lparr>ss_conn := (ss_conn s3)\<lparr>tc_in := hin\<rparr>\<rparr>)"
      by (rule s4)
    show "connected (s3\<lparr>ss_conn := (ss_conn s3)\<lparr>tc_in := hin\<rparr>\<rparr>) c4"
      using y v(3) lin by (simp add: connected_def c4 c3_def c2_def s3_def s2_def keyed_def)
    show "tc_ech (cl_conn c4) = tc_ech (cl_conn c1)" "tc_serverName (cl_conn c4) = tc_serverName (cl_conn c1)"
      by (simp_all add: c4 c3_def c2_def)
  qed
qed

lemma exchange_completes:
  assumes H: "hashes_sized H" and k: "keylog_ok cfgS" "keylog_ok cfgC" and a: "agreed s c chb" and h: "hello_ready s"
    and r: "\<not> requestClientCert cfgS s" "\<not> shouldSendSessionTickets cfgS s"
    and start: "\<And>m. m = (ss_hello s)\<lparr>sh_random := sh_random m, sh_raw := sh_raw m\<rparr> \<Longrightarrow>
      take 24 (sh_random m) = take 24 (sh_random (ss_hello s)) \<Longrightarrow> length (sh_random m) = 32 \<Longrightarrow>
      start (ServerHello m) c0 = clientKeys H cfgC (ServerHello m) c"
  shows "\<exists>s' c'. exchange_via start H cfgS cfgC E ticket ageAdd certs s c0 = Next (s', c') \<and> connected s' c' \<and>
    (es_offered (tc_ech (cl_conn c')) \<longleftrightarrow> echIsInner (ss_clientHello s)) \<and>
    (es_offered (tc_ech (cl_conn c')) \<longrightarrow> es_accepted (tc_ech (cl_conn c'))) \<and>
    tc_serverName (cl_conn c') = ch_serverName (if echIsInner (ss_clientHello s) then the (cl_helloInner c) else cl_hello c)"
proof -
  let ?ee = "serverExtensions (ss_conn s)"
  obtain s1 c1 m xs where m: "wf_serverHello m" "sh_raw m = None" "length (sh_encode m) \<le> 4 + maxHandshake"
    and eq: "m = (ss_hello s)\<lparr>sh_random := sh_random m\<rparr>" "take 24 (sh_random m) = take 24 (sh_random (ss_hello s))"
    and s1: "sendServerParameters H cfgS s = Next s1" "tc_sent (ss_conn s1) = tc_sent (ss_conn s) @ xs"
      "handshakeData xs = [sh_encode m, eeFrame ?ee]"
    and c1: "clientKeys H cfgC (ServerHello (m\<lparr>sh_raw := Some (sh_encode m)\<rparr>)) c = Next c1"
    and y: "keyed H s s1 c c1 (eeFrame ?ee)"
    by (rule keys_stage [OF H k a h]) (rule that)
  obtain v w s2 c2 s3 where v: "length v \<le> 64" "length w \<le> 64"
    and s2: "serverFinish H cfgS ticket ageAdd certs s1 = Next s2"
      "tc_sent (ss_conn s2) = tc_sent (ss_conn s1) @ [SentHandshake certs, SentHandshake (frame typeFinished v)]"
    and c2: "clientFinish H cfgC E certs (EncryptedExtensions (?ee\<lparr>ee_raw := Some (eeFrame ?ee)\<rparr>)) (eeFrame ?ee)
        (Finished (finished (frame typeFinished v) v)) c1 = Next c2"
      "tc_sent (cl_conn c2) = tc_sent (cl_conn c1) @ [SentHandshake (frame typeFinished w)]"
    and s3: "readClientFinished H (Finished (finished (frame typeFinished w) w)) s2 = Next s3" "connected s3 c2"
      "tc_ech (cl_conn c2) = tc_ech (cl_conn c1)" "tc_serverName (cl_conn c2) = tc_serverName (cl_conn c1)"
    by (rule finish_stage [OF H k a r y]) (rule that)
  have "m\<lparr>sh_raw := Some (sh_encode m)\<rparr> = (ss_hello s)\<lparr>sh_random := sh_random m, sh_raw := Some (sh_encode m)\<rparr>"
    by (subst eq(1)) simp
  then have sc: "start (ServerHello (m\<lparr>sh_raw := Some (sh_encode m)\<rparr>)) c0 = clientKeys H cfgC (ServerHello (m\<lparr>sh_raw := Some (sh_encode m)\<rparr>)) c"
    using eq(2) m(1) by (intro start) (simp_all add: wf_serverHello_def fits_serverHello_def)
  have ee: "wf_ee ?ee" "ee_raw ?ee = None" using h by (simp_all add: hello_ready_def Let_def serverExtensions_def emptyEE_def)
  have "newData (ss_conn s) (ss_conn s2) = [sh_encode m, eeFrame ?ee, certs, frame typeFinished v]"
    by (simp add: newData_def s1 s2)
  moreover have "newData (cl_conn c1) (cl_conn c2) = [frame typeFinished w]"
    by (simp add: newData_def c2)
  ultimately have "exchange_via start H cfgS cfgC E ticket ageAdd certs s c0 = Next (s3, c2)"
    using sc c1 c2(1) s3(1)
    by (simp add: exchange_via_def s1 s2 deliver_ServerHello [OF m] deliver_EncryptedExtensions [OF ee] deliver_Finished v)
  with s3(2-4) y show ?thesis by (auto simp: keyed_def)
qed

text \<open>
  C8: A handshake whose two sides have agreed on the cipher suite, the shared key and the transcript so far, with or without ECH, runs to
  its end when no message is lost or altered: every message that is sent is parsed back and accepted, both Finished messages verify, the
  client finds the ECH confirmation exactly when the server uses the inner hello, and takes its server name from that hello. At the
  end both sides hold the same keys for each direction at the application level, the same exporter and the same application protocol.
\<close>

theorem tls13_exchange_completes:
  assumes H: "hashes_sized H" and k: "keylog_ok cfgS" "keylog_ok cfgC" and a: "agreed s c chb" and h: "hello_ready s"
    and r: "\<not> requestClientCert cfgS s" "\<not> shouldSendSessionTickets cfgS s"
  shows "\<exists>s' c'. exchange H cfgS cfgC E ticket ageAdd certs s c = Next (s', c') \<and> connected s' c' \<and>
    (es_offered (tc_ech (cl_conn c')) \<longleftrightarrow> echIsInner (ss_clientHello s)) \<and>
    (es_offered (tc_ech (cl_conn c')) \<longrightarrow> es_accepted (tc_ech (cl_conn c'))) \<and>
    tc_serverName (cl_conn c') = ch_serverName (if echIsInner (ss_clientHello s) then the (cl_helloInner c) else cl_hello c)"
  unfolding exchange_def by (rule exchange_completes [OF H k a h r]) (rule refl)

text \<open>A server that has accepted the inner hello and the client that offered it.\<close>

definition toy_half :: halfConn where
  "toy_half = \<lparr>hc_level = LevelInitial, hc_trafficSecret = [], hc_key = [], hc_iv = [], hc_seq = replicate 8 0\<rparr>"

definition toy_conn :: "bool \<Rightarrow> tlsConn" where
  "toy_conn accepted = \<lparr>tc_in = toy_half, tc_out = toy_half, tc_ech = ech_start\<lparr>es_offered := True, es_accepted := accepted\<rparr>,
     tc_serverName = [], tc_clientProtocol = [104, 50], tc_cipherSuite = 0x1301, tc_ekm = None, tc_resumptionSecret = None, tc_sent = []\<rparr>"

definition toy_tlsConfig :: tlsConfig where
  "toy_tlsConfig = \<lparr>cfg_KeyLogWriter = None, cfg_SessionTicketsDisabled = True, cfg_hasClientSessionCache = False, cfg_ECHEnabled = True,
     cfg_requestsClientCert = False\<rparr>"

definition toy_inner :: clientHelloMsg where
  "toy_inner = (innerOf base_hello)\<lparr>ch_alpnProtocols := [[104, 50]], ch_raw := Some [1, 0, 0, 1, 7]\<rparr>"

definition toy_serverHello :: serverHelloMsg where
  "toy_serverHello = emptyServerHello\<lparr>sh_vers := VersionTLS12, sh_random := 5 # replicate 31 0, sh_cipherSuite := 0x1301,
     sh_supportedVersion := VersionTLS13, sh_serverShare := \<lparr>ks_group = 29, ks_data = [9]\<rparr>\<rparr>"

definition toy_server :: serverHS where
  "toy_server = \<lparr>ss_conn = toy_conn True, ss_clientHello = toy_inner, ss_hello = toy_serverHello, ss_sentDummyCCS = False,
     ss_usingPSK = False, ss_suite = \<lparr>cs_id = 0x1301, cs_keyLen = 16, cs_hash = SHA256\<rparr>, ss_sharedKey = [4, 2], ss_earlySecret = None,
     ss_handshakeSecret = [], ss_masterSecret = [], ss_trafficSecret = [], ss_transcript = [], ss_clientFinished = [], ss_tlsFlags = [], ss_peerTLSFlags = []\<rparr>"

definition toy_client :: clientHS where
  "toy_client = \<lparr>cl_conn = toy_conn False, cl_serverHello = emptyServerHello, cl_hello = fresh_hello, cl_helloInner = Some toy_inner,
     cl_keySharePrivate = [29 \<mapsto> KemShare (\<lambda>ct. if ct = [9] then Ok [4, 2] else Err ''decaps'')], cl_session = None, cl_earlySecret = None,
     cl_binderKey = [], cl_usingPSK = False, cl_sentDummyCCS = False,
     cl_suite = Some \<lparr>cs_id = 0x1301, cs_keyLen = 16, cs_hash = SHA256\<rparr>, cl_transcript = [], cl_transcriptInner = [1, 0, 0, 1, 7],
     cl_masterSecret = [], cl_trafficSecret = []\<rparr>"

lemma toy_agreed: "agreed toy_server toy_client [1, 0, 0, 1, 7]"
  by (simp add: agreed_def toy_server_def toy_client_def toy_inner_def innerOf_def cipherSuitesTLS13_def ch_marshal_def toy_conn_def
      toy_serverHello_def echIsInner_def checkALPN_def)

lemma toy_hello_ready: "hello_ready toy_server"
  by (simp add: hello_ready_def toy_server_def toy_serverHello_def emptyServerHello_def wf_serverHello_def fits_serverHello_def
      sh_extensions_def optExt_def encKeyShare_def length_encExt helloRetryRequestRandom_def sh_encode_def maxHandshake_def
      VersionTLS13_def serverExtensions_def toy_conn_def ech_start_def emptyEE_def wf_ee_def ee_extensions_def ee_payload_def opt_bytes_def)

lemma toy_tlsConfig_ok:
  "keylog_ok toy_tlsConfig" "\<not> requestClientCert toy_tlsConfig toy_server" "\<not> shouldSendSessionTickets toy_tlsConfig toy_server"
  by (simp_all add: keylog_ok_def requestClientCert_def shouldSendSessionTickets_def toy_tlsConfig_def toy_server_def)

lemma toy_names: "echIsInner (ss_clientHello toy_server)" "cl_helloInner toy_client = Some toy_inner" "ch_serverName toy_inner = [101, 120]"
  by (simp_all add: echIsInner_def toy_server_def toy_client_def toy_inner_def innerOf_def base_hello_def)

theorem tls13_exchange_completes_witness:
  "\<exists>s' c'. exchange toy_hashes toy_tlsConfig toy_tlsConfig toy_env (\<lambda>_. Next []) (Ok 0) [11, 0, 0, 0] toy_server toy_client = Next (s', c') \<and>
     connected s' c' \<and> es_accepted (tc_ech (cl_conn c')) \<and> tc_serverName (cl_conn c') = [101, 120]"
  using tls13_exchange_completes [OF toy_hashes_sized toy_tlsConfig_ok(1,1) toy_agreed toy_hello_ready toy_tlsConfig_ok(2,3), where
      E = toy_env and ticket = "\<lambda>_. Next []" and ageAdd = "Ok 0" and certs = "[11, 0, 0, 0]"] toy_names
  by auto

section \<open>A client that offered ECH\<close>

lemma processServerHello_keeps: "processServerHello c = Next c' \<Longrightarrow> cl_conn c' = cl_conn c \<and> cl_hello c' = cl_hello c"
  by (auto simp: processServerHello_def bind_hs_eq_Next Let_def split: if_splits option.splits)

lemma establishHandshakeKeys_keeps:
  "establishHandshakeKeys H cfg c = Next c' \<Longrightarrow> tc_ech (cl_conn c') = tc_ech (cl_conn c) \<and> tc_serverName (cl_conn c') = tc_serverName (cl_conn c)"
  by (auto simp: establishHandshakeKeys_def bind_hs_eq_Next Let_def split: prod.splits)

lemma readServerParameters_keeps:
  "readServerParameters E msg d c = Next c' \<Longrightarrow> es_offered (tc_ech (cl_conn c')) = es_offered (tc_ech (cl_conn c)) \<and>
    es_accepted (tc_ech (cl_conn c')) = es_accepted (tc_ech (cl_conn c)) \<and> tc_serverName (cl_conn c') = tc_serverName (cl_conn c)"
  by (auto simp: readServerParameters_def bind_hs_eq_Next Let_def split: handshakeMessage.splits option.splits if_splits)

lemma readServerFinished_keeps:
  "readServerFinished H cfg msg c = Next c' \<Longrightarrow> tc_ech (cl_conn c') = tc_ech (cl_conn c) \<and> tc_serverName (cl_conn c') = tc_serverName (cl_conn c)"
  by (auto simp: readServerFinished_def bind_hs_eq_Next Let_def split: handshakeMessage.splits)

lemma sendClientFinished_keeps:
  "sendClientFinished H cfg c = Next c' \<Longrightarrow> tc_ech (cl_conn c') = tc_ech (cl_conn c) \<and> tc_serverName (cl_conn c') = tc_serverName (cl_conn c)"
  by (auto simp: sendClientFinished_def cl_write_def bind_hs_eq_Next Let_def split: if_splits)

lemma clientFinish_accepted:
  assumes "clientFinish H cfg E certs ee eeData fin c = Next c'"
  shows "(es_offered (tc_ech (cl_conn c)) \<longrightarrow> es_accepted (tc_ech (cl_conn c))) \<and> tc_serverName (cl_conn c') = tc_serverName (cl_conn c)"
  using assms
  by (auto simp: clientFinish_def bind_hs_eq_Next abortIfRequired_def split: if_splits
      dest!: readServerParameters_keeps readServerFinished_keeps sendClientFinished_keeps)

lemma detectECH_cases:
  assumes "detectECH H c = Next c'" and "es_offered (tc_ech (cl_conn c))"
  obtains "c' = c"
  | suite inner sh blank where "cl_suite c = Some suite" "cl_helloInner c = Some inner" "snd (sh_marshal (cl_serverHello c)) = Ok sh"
      "blankConfirmation sh = Next blank"
      "echConfirmation H suite echAcceptConfLabel (ch_random inner) (cl_transcriptInner c @ blank) = Ok (drop 24 (sh_random (cl_serverHello c)))"
      "cl_hello c' = inner" "tc_ech (cl_conn c') = (tc_ech (cl_conn c))\<lparr>es_accepted := True\<rparr>"
  using assms
  by (auto simp: detectECH_def bind_hs_eq_Next deref_def ConstantTimeCompare_spec split: option.splits if_splits)



end
