(* ===== verification/TLS13_Retry.thy ===== *)
theory TLS13_Retry
  imports TLS13_Handshake
begin

text \<open>
  The HelloRetryRequest between the two sides: the acceptance signal in it (\<^verbatim>\<open>echEncodeAcceptConfHelloRetryRequest\<close> on the client, the
  marshalled request with eight zero bytes on the server) and the transcripts that both go on with.
\<close>

section \<open>The confirmation in the HelloRetryRequest\<close>

definition blankECH :: "extension \<Rightarrow> extension" where
  "blankECH e = (fst e, if fst e = extensionECH then replicate 8 0 else snd e)"

lemma hrrExtLoop_writes:
  assumes "list_all (\<lambda>e. length (snd e) < 65536) es" and "length es \<le> n"
  shows "appends (hrrExtLoop n (encExts es)) (encExts (map blankECH es))"
  using assms
proof (induction es arbitrary: n)
  case Nil
  then show ?case by (intro appendsI) simp
next
  case (Cons e es)
  then obtain k where n: "n = Suc k" "length es \<le> k" by (cases n) auto
  obtain b bs where b: "encExts (e # es) = b # bs" by (cases "encExts (e # es)") (auto simp: encExt_def)
  obtain ext d where e: "e = (ext, d)" by (cases e)
  have "readExt (b # bs) = Some ((ext, d), encExts es)"
    using extc.dec_enc [of e "encExts es"] Cons.prems(1) b by (simp add: e)
  then have l: "hrrExtLoop n (encExts (e # es)) =
      (\<lambda>x. andThen (addRawExt ext (snd (blankECH e)) x) (hrrExtLoop k (encExts es)))"
    unfolding b n(1) by (intro ext) (simp add: e blankECH_def)
  have "appends (addRawExt ext (snd (blankECH e))) (encExt (blankECH e))"
    using appends_addRawExt [of "snd (blankECH e)" ext] Cons.prems(1) by (simp add: e blankECH_def)
  moreover have "appends (hrrExtLoop k (encExts es)) (encExts (map blankECH es))"
    using Cons.prems(1) n(2) by (intro Cons.IH) simp_all
  ultimately show ?case
    unfolding l by (intro appendsI) (simp add: appendsD)
qed

lemma encExts_Nil: "encExts es = [] \<longleftrightarrow> es = []"
  by (cases es) (auto simp: encExt_def)

lemma echEncodeAcceptConf_encode:
  assumes w: "wf_serverHello m" and x: "sh_extensions m \<noteq> []" and b: "map blankECH (sh_extensions m) = sh_extensions m'"
    and l: "length (encExts (sh_extensions m')) < 65536"
    and f: "sh_vers m' = sh_vers m" "sh_random m' = sh_random m" "sh_sessionId m' = sh_sessionId m" "sh_cipherSuite m' = sh_cipherSuite m"
      "sh_compressionMethod m' = sh_compressionMethod m"
  shows "echEncodeAcceptConfHelloRetryRequest (sh_encode m) = Ok (Some (sh_encode m'))"
proof -
  let ?x = "encExts (sh_extensions m)" and ?y = "encExts (sh_extensions m')"
  have u: "length (sh_random m) = 32" "length (sh_sessionId m) < 256" "length ?x < 65536" "list_all (\<lambda>e. length (snd e) < 65536) (sh_extensions m)"
    using w by (simp_all add: wf_serverHello_def fits_serverHello_def)
  have y: "?y \<noteq> []" using x by (simp add: encExts_Nil flip: b)
  have e: "sh_encode m = frame typeServerHello (encServerHello (sh_vers m) (sh_random m) (sh_sessionId m) (sh_cipherSuite m) (sh_compressionMethod m) ?x)"
    by (simp add: sh_encode_def frame_def)
  have "appends (hrrExtLoop (length ?x) ?x) ?y"
    using hrrExtLoop_writes [OF u(4), of "length ?x"] length_exts_le [of "sh_extensions m"] by (simp add: b)
  from appends_Uint16LengthPrefixed [OF this l]
  have "appends (stmts
             [AddUint8 typeServerHello, AddUint24LengthPrefixed (stmts
               [AddUint16 (sh_vers m), AddBytes (sh_random m), AddUint8LengthPrefixed (AddBytes (sh_sessionId m)), AddUint16 (sh_cipherSuite m),
                AddUint8 (sh_compressionMethod m), AddUint16LengthPrefixed (hrrExtLoop (length ?x) ?x)])]) (sh_encode m')"
    unfolding sh_encode_def encServerHello_def f using u l y
    by (simp only: length_greater_0_conv if_True) (intro builder_intros; simp)
  from runBytes_appends [OF this] show ?thesis
    unfolding echEncodeAcceptConfHelloRetryRequest_def e Skip_frame
    using u x by (simp add: encExts_Nil encServerHello_def wire_simps lp16.dec_enc_all nilOnIllegal_def)
qed

lemma echIsInner_raw [simp]: "echIsInner (ch\<lparr>ch_raw := r\<rparr>) = echIsInner ch"
  by (simp add: echIsInner_def)

lemma hrr_extensions:
  "sh_extensions ((helloRetryRequest hello g)\<lparr>sh_ech := e\<rparr>) =
     optExt (sh_supportedVersion hello \<noteq> 0) extensionSupportedVersions (enc16 (sh_supportedVersion hello)) @
     optExt (g \<noteq> 0) extensionKeyShare (enc16 g) @ optExt (opt_bytes e \<noteq> []) extensionECH (opt_bytes e)"
  by (simp add: sh_extensions_def helloRetryRequest_def emptyServerHello_def) (simp add: optExt_def)

lemma length_hrr_extensions:
  "length (opt_bytes e) \<le> 8 \<Longrightarrow> length (encExts (sh_extensions ((helloRetryRequest hello g)\<lparr>sh_ech := e\<rparr>))) \<le> 24"
  by (simp add: hrr_extensions optExt_def length_encExt)

lemma wf_hrr:
  assumes "length (sh_sessionId hello) < 256" and "e = None \<or> (\<exists>v. e = Some v \<and> length v = 8)"
  shows "wf_serverHello ((helloRetryRequest hello g)\<lparr>sh_ech := e\<rparr>)"
proof -
  have "length (opt_bytes e) \<le> 8" "e \<noteq> Some []" using assms(2) by (auto simp: opt_bytes_def)
  moreover from this(1) have "length (encExts (sh_extensions ((helloRetryRequest hello g)\<lparr>sh_ech := e\<rparr>))) < 65536"
    using length_hrr_extensions [of e hello g] by linarith
  ultimately show ?thesis
    using assms(1) unfolding wf_serverHello_def fits_serverHello_def hrr_extensions
    by (simp add: helloRetryRequest_def emptyServerHello_def helloRetryRequestRandom_def)
qed

lemma fresh_hrr:
  assumes "length (sh_sessionId hello) < 256" and "e = None \<or> (\<exists>v. e = Some v \<and> length v = 8)"
  shows "deliver (sh_encode ((helloRetryRequest hello g)\<lparr>sh_ech := e\<rparr>)) =
    Next (ServerHello ((helloRetryRequest hello g)\<lparr>sh_ech := e, sh_raw := Some (sh_encode ((helloRetryRequest hello g)\<lparr>sh_ech := e\<rparr>))\<rparr>))"
proof -
  let ?m = "(helloRetryRequest hello g)\<lparr>sh_ech := e\<rparr>"
  have "length (opt_bytes e) \<le> 8" using assms(2) by (auto simp: opt_bytes_def)
  from length_hrr_extensions [OF this, of hello g] assms(1)
  have "length (sh_encode ?m) \<le> 4 + maxHandshake"
    by (simp add: sh_encode_def maxHandshake_def helloRetryRequest_def helloRetryRequestRandom_def)
  with wf_hrr [OF assms] show ?thesis
    by (intro deliver_ServerHello) (simp_all add: helloRetryRequest_def emptyServerHello_def)
qed

lemma ss_logClientHello_Ok:
  assumes "snd (ch_marshal (ss_clientHello s)) = Ok chb"
  shows "ss_logClientHello s = Next (s\<lparr>ss_clientHello := (ss_clientHello s)\<lparr>ch_raw := ch_raw (fst (ch_marshal (ss_clientHello s)))\<rparr>,
    ss_transcript := ss_transcript s @ chb\<rparr>)"
  using assms fst_ch_marshal [of "ss_clientHello s"] by (cases "ch_marshal (ss_clientHello s)") (simp add: ss_logClientHello_def)

text \<open>The HelloRetryRequest that goes out, and its transcript.\<close>

lemma sendHelloRetryRequest_sends:
  assumes "length (sh_sessionId (ss_hello s)) < 256" and "snd (ch_marshal (ss_clientHello s)) = Ok chb" and "ss_transcript s = []"
    and "e = None \<or> (\<exists>v. e = Some v \<and> length v = 8)"
    and "\<And>r. hrrWithECH H rnd (helloRetryRequest (ss_hello s) g)
        (s\<lparr>ss_clientHello := (ss_clientHello s)\<lparr>ch_raw := r\<rparr>, ss_transcript := messageHash H (ss_suite s) chb\<rparr>) =
      Next ((helloRetryRequest (ss_hello s) g)\<lparr>sh_ech := e\<rparr>)"
  obtains s' where "sendHelloRetryRequest H rnd g s = Next s'"
    and "newData (ss_conn s) (ss_conn s') = [sh_encode ((helloRetryRequest (ss_hello s) g)\<lparr>sh_ech := e\<rparr>)]"
    and "ss_transcript s' = messageHash H (ss_suite s) chb @ sh_encode ((helloRetryRequest (ss_hello s) g)\<lparr>sh_ech := e\<rparr>)"
proof -
  let ?m = "(helloRetryRequest (ss_hello s) g)\<lparr>sh_ech := e\<rparr>"
  have raw: "sh_raw ?m = None" by (simp add: helloRetryRequest_def emptyServerHello_def)
  define s1 where "s1 = s\<lparr>ss_clientHello := (ss_clientHello s)\<lparr>ch_raw := ch_raw (fst (ch_marshal (ss_clientHello s)))\<rparr>,
      ss_transcript := messageHash H (ss_suite s) chb @ sh_encode ?m, ss_conn := send (SentHandshake (sh_encode ?m)) (ss_conn s)\<rparr>"
  have "sendHelloRetryRequest H rnd g s = Next (ss_sendDummyChangeCipherSpec s1)"
    using assms(3,5) ss_write_ServerHello [OF wf_hrr [OF assms(1,4), of g] raw]
    by (simp add: sendHelloRetryRequest_def ss_logClientHello_Ok [OF assms(2)] s1_def)
  moreover obtain ys where "tc_sent (ss_conn (ss_sendDummyChangeCipherSpec s1)) = tc_sent (ss_conn s1) @ ys" "handshakeData ys = []"
    by (rule ss_dummyCCS_sent)
  ultimately show thesis
    using that [of "ss_sendDummyChangeCipherSpec s1"] by (simp add: newData_def s1_def)
qed

lemma hrrWithECH_inner:
  assumes "hashes_sized H" and "length (sh_sessionId hello) < 256" and "echIsInner ch"
  obtains v where "length v = 8"
    and "echConfirmation H suite echAcceptConfHRRLabel (ch_random ch) (T @ sh_encode ((helloRetryRequest hello g)\<lparr>sh_ech := Some (replicate 8 0)\<rparr>)) = Ok v"
    and "\<And>s. echIsInner (ss_clientHello s) \<Longrightarrow> ss_suite s = suite \<Longrightarrow> ch_random (ss_clientHello s) = ch_random ch \<Longrightarrow> ss_transcript s = T \<Longrightarrow>
      hrrWithECH H rnd (helloRetryRequest hello g) s = Next ((helloRetryRequest hello g)\<lparr>sh_ech := Some v\<rparr>)"
proof -
  let ?z = "(helloRetryRequest hello g)\<lparr>sh_ech := Some (replicate 8 0)\<rparr>"
  have "length echAcceptConfHRRLabel \<le> 249" by (simp add: echAcceptConfHRRLabel_def)
  then obtain v where v: "echConfirmation H suite echAcceptConfHRRLabel (ch_random ch) (T @ sh_encode ?z) = Ok v" "length v = 8"
    using echConfirmation_Ok [OF assms(1)] by blast
  have raw: "sh_raw ?z = None" "(helloRetryRequest hello g)\<lparr>sh_ech := Some v, sh_raw := None\<rparr> = (helloRetryRequest hello g)\<lparr>sh_ech := Some v\<rparr>"
    by (simp_all add: helloRetryRequest_def emptyServerHello_def)
  have "snd (sh_marshal ?z) = Ok (sh_encode ?z)"
    using wf_hrr [OF assms(2)] raw(1) by (intro sh_marshal_wf) simp_all
  with v raw(2) show thesis
    by (intro that [of v]) (simp_all add: hrrWithECH_def)
qed

lemma confirmedHRR_agrees:
  assumes "length (sh_sessionId hello) < 256" and "length v = 8"
    and "echConfirmation H suite echAcceptConfHRRLabel (ch_random inner) (T @ sh_encode ((helloRetryRequest hello g)\<lparr>sh_ech := Some (replicate 8 0)\<rparr>)) = Ok v"
  shows "confirmedHRR H suite inner T ((helloRetryRequest hello g)\<lparr>sh_ech := Some v, sh_raw := r\<rparr>)
    (sh_encode ((helloRetryRequest hello g)\<lparr>sh_ech := Some v\<rparr>)) = Next True"
proof -
  let ?m = "\<lambda>v. (helloRetryRequest hello g)\<lparr>sh_ech := Some v\<rparr>"
  have v: "opt_bytes (Some v) = v" "v \<noteq> []" using assms(2) by (auto simp: opt_bytes_def)
  have "map blankECH (sh_extensions (?m v)) = sh_extensions (?m (replicate 8 0))" "sh_extensions (?m v) \<noteq> []"
    using v by (simp_all add: hrr_extensions opt_bytes_def optExt_def blankECH_def extension_ids)
  moreover have "length (encExts (sh_extensions (?m (replicate 8 0)))) < 65536"
    using length_hrr_extensions [of "Some (replicate 8 0)" hello g] by (simp add: opt_bytes_def)
  ultimately have "echEncodeAcceptConfHelloRetryRequest (sh_encode (?m v)) = Ok (Some (sh_encode (?m (replicate 8 0))))"
    using wf_hrr [OF assms(1), of "Some v" g] assms(2) by (intro echEncodeAcceptConf_encode) simp_all
  with assms(2,3) show ?thesis
    by (simp add: confirmedHRR_def opt_bytes_def ConstantTimeCompare_spec)
qed

text \<open>
  C10: A HelloRetryRequest leaves the two sides with the same transcript. The request that the server sends is parsed back by the client;
  when the server uses the inner hello, the client finds the confirmation in it and goes on with the inner hello and the
  transcript of the inner handshake, and otherwise with the outer ones.
\<close>

theorem hrr_transcripts_agree:
  assumes H: "hashes_sized H" and l: "length (sh_sessionId (ss_hello s)) < 256" and rnd: "rnd = Ok bs" "length bs = 8"
    and ch: "snd (ch_marshal (ss_clientHello s)) = Ok chb" "ss_transcript s = []" and suite: "cl_suite c = Some (ss_suite s)"
    and o: "es_offered (tc_ech (cl_conn c)) \<longleftrightarrow> echIsInner (ss_clientHello s)"
    and t: "if echIsInner (ss_clientHello s)
      then cl_transcriptInner c = chb \<and> (\<exists>inner. cl_helloInner c = Some inner \<and> ch_random inner = ch_random (ss_clientHello s))
      else cl_transcript c = chb"
  shows "\<exists>s' data m c' h. sendHelloRetryRequest H rnd g s = Next s' \<and> newData (ss_conn s) (ss_conn s') = [data] \<and>
    deliver data = Next (ServerHello m) \<and> sh_random m = helloRetryRequestRandom \<and> sh_selectedGroup m = g \<and>
    hrrTranscripts H (c\<lparr>cl_serverHello := m\<rparr>) = Next (c', echIsInner (ss_clientHello s), h) \<and>
    (if echIsInner (ss_clientHello s) then cl_transcriptInner c' else cl_transcript c') = ss_transcript s'"
proof (cases "echIsInner (ss_clientHello s)")
  case True
  let ?hrr = "helloRetryRequest (ss_hello s) g" and ?T = "messageHash H (ss_suite s) chb"
  obtain inner where inner: "cl_helloInner c = Some inner" "ch_random inner = ch_random (ss_clientHello s)" and ti: "cl_transcriptInner c = chb"
    using t True by auto
  obtain v where v: "length v = 8"
      "echConfirmation H (ss_suite s) echAcceptConfHRRLabel (ch_random (ss_clientHello s)) (?T @ sh_encode (?hrr\<lparr>sh_ech := Some (replicate 8 0)\<rparr>)) = Ok v"
    and w: "\<And>s'. echIsInner (ss_clientHello s') \<Longrightarrow> ss_suite s' = ss_suite s \<Longrightarrow> ch_random (ss_clientHello s') = ch_random (ss_clientHello s) \<Longrightarrow>
      ss_transcript s' = ?T \<Longrightarrow> hrrWithECH H rnd ?hrr s' = Next (?hrr\<lparr>sh_ech := Some v\<rparr>)"
    by (rule hrrWithECH_inner [OF H l True]) (rule that)
  let ?m = "?hrr\<lparr>sh_ech := Some v\<rparr>"
  have e: "Some v = None \<or> (\<exists>u. Some v = Some u \<and> length u = 8)" using v(1) by simp
  have hw: "hrrWithECH H rnd ?hrr (s\<lparr>ss_clientHello := (ss_clientHello s)\<lparr>ch_raw := r\<rparr>, ss_transcript := ?T\<rparr>) = Next ?m" for r
    by (rule w) (use True in simp_all)
  obtain s' where s': "sendHelloRetryRequest H rnd g s = Next s'" "newData (ss_conn s) (ss_conn s') = [sh_encode ?m]"
      "ss_transcript s' = ?T @ sh_encode ?m"
    by (rule sendHelloRetryRequest_sends [OF l ch e hw]) (rule that)
  have "confirmedHRR H (ss_suite s) inner ?T (?m\<lparr>sh_raw := Some (sh_encode ?m)\<rparr>) (sh_encode ?m) = Next True"
    by (rule confirmedHRR_agrees [OF l v(1)]) (simp add: inner v(2))
  then have "\<exists>c' h. hrrTranscripts H (c\<lparr>cl_serverHello := ?m\<lparr>sh_raw := Some (sh_encode ?m)\<rparr>\<rparr>) = Next (c', True, h) \<and>
      cl_transcriptInner c' = ss_transcript s'"
    using o True by (simp add: hrrTranscripts_def suite cl_logServerHello_def sh_marshal_def inner(1) ti s'(3) Let_def)
  with True s'(1,2) fresh_hrr [OF l e, of g] show ?thesis
    by (simp add: helloRetryRequest_def)
next
  case False
  let ?hrr = "helloRetryRequest (ss_hello s) g" and ?e = "if es_greased (tc_ech (ss_conn s)) then Some bs else None"
  let ?m = "?hrr\<lparr>sh_ech := ?e\<rparr>"
  have e: "?e = None \<or> (\<exists>u. ?e = Some u \<and> length u = 8)" using rnd(2) by simp
  have "?hrr\<lparr>sh_ech := None\<rparr> = ?hrr" by (simp add: helloRetryRequest_def emptyServerHello_def)
  then have hw: "hrrWithECH H rnd ?hrr (s\<lparr>ss_clientHello := (ss_clientHello s)\<lparr>ch_raw := r\<rparr>,
      ss_transcript := messageHash H (ss_suite s) chb\<rparr>) = Next ?m" for r
    using False rnd(1) by (simp add: hrrWithECH_def)
  obtain s' where s': "sendHelloRetryRequest H rnd g s = Next s'" "newData (ss_conn s) (ss_conn s') = [sh_encode ?m]"
      "ss_transcript s' = messageHash H (ss_suite s) chb @ sh_encode ?m"
    by (rule sendHelloRetryRequest_sends [OF l ch e hw]) (rule that)
  have "\<exists>c' h. hrrTranscripts H (c\<lparr>cl_serverHello := ?m\<lparr>sh_raw := Some (sh_encode ?m)\<rparr>\<rparr>) = Next (c', False, h) \<and>
      cl_transcript c' = ss_transcript s'"
    using o False t by (simp add: hrrTranscripts_def suite cl_logServerHello_def sh_marshal_def s'(3) Let_def)
  with False s'(1,2) fresh_hrr [OF l e, of g] show ?thesis
    by (simp add: helloRetryRequest_def)
qed

theorem hrr_transcripts_agree_witness:
  "\<exists>s' data m c' h. sendHelloRetryRequest toy_hashes (Ok (replicate 8 1)) 23 toy_server = Next s' \<and>
    newData (ss_conn toy_server) (ss_conn s') = [data] \<and> deliver data = Next (ServerHello m) \<and>
    hrrTranscripts toy_hashes (toy_client\<lparr>cl_serverHello := m\<rparr>) = Next (c', True, h) \<and> cl_transcriptInner c' = ss_transcript s'"
proof -
  have "length (sh_sessionId (ss_hello toy_server)) < 256" "snd (ch_marshal (ss_clientHello toy_server)) = Ok [1, 0, 0, 1, 7]"
    "ss_transcript toy_server = []" "cl_suite toy_client = Some (ss_suite toy_server)"
    "es_offered (tc_ech (cl_conn toy_client)) \<longleftrightarrow> echIsInner (ss_clientHello toy_server)"
    "cl_transcriptInner toy_client = [1, 0, 0, 1, 7]" "ss_clientHello toy_server = toy_inner"
    using toy_names(1) by (simp_all add: toy_server_def toy_client_def toy_serverHello_def emptyServerHello_def toy_inner_def ch_marshal_def toy_conn_def)
  with hrr_transcripts_agree [OF toy_hashes_sized _ refl, of toy_server "replicate 8 1" "[1, 0, 0, 1, 7]" toy_client 23] toy_names show ?thesis
    by auto
qed

end
