(* ===== verification/TLS13_Negotiate.thy ===== *)
theory TLS13_Negotiate
  imports TLS_Params TLS13_Retry
begin

text \<open>
  The negotiation of a TLS 1.3 handshake: the client's offer (\<^verbatim>\<open>makeClientHello\<close> of \<^verbatim>\<open>crypto/tls/handshake_client.go\<close>) and the
  server's choice (\<^verbatim>\<open>processClientHello\<close> of \<^verbatim>\<open>crypto/tls/handshake_server_tls13.go\<close>). Unlike in upstream Go, a more preferred
  group is worth a HelloRetryRequest.
\<close>

section \<open>Key agreement\<close>

text \<open>
  The operations on groups, with the randomness of one side: a KEM key pair as packed public key and decapsulation
  (\<^verbatim>\<open>generateKemKeyPair\<close>, \<^verbatim>\<open>MarshalBinary\<close>, \<^verbatim>\<open>Decapsulate\<close>), \<^verbatim>\<open>encapsulateForKem\<close>, and an ECDH key as public key and the
  operation on a peer's key, which gives nothing for an invalid one.
\<close>

record group_ops =
  go_kemKey :: "circlScheme \<Rightarrow> (bytes \<times> (bytes \<Rightarrow> bytes res)) res"
  go_encaps :: "circlScheme \<Rightarrow> bytes \<Rightarrow> (bytes \<times> bytes) res \<times> u8"
  go_ecdhKey :: "u16 \<Rightarrow> (bytes \<times> (bytes \<Rightarrow> bytes option)) res"

definition newKeyShare :: "group_ops \<Rightarrow> u16 \<Rightarrow> (privateShare \<times> bytes) res" where
  "newKeyShare G curveID = (case curveIdToCirclScheme curveID of
       Some scheme \<Rightarrow> bind_res (go_kemKey G scheme) (\<lambda>(pk, decaps). Ok (KemShare decaps, pk))
     | None \<Rightarrow>
         if \<not> curveForCurveID curveID then Err ''tls: CurvePreferences includes unsupported curve''
         else bind_res (go_ecdhKey G curveID) (\<lambda>(pk, ecdh). Ok (EcdhShare ecdh, pk)))"

section \<open>The client's offer\<close>

definition cutZone :: "bytes \<Rightarrow> bytes" where
  "cutZone host = (let tail = takeWhile (\<lambda>c. c \<noteq> 37) (rev host); i = length host - 1 - length tail in
     if length tail < length host \<and> i > 0 then take i host else host)"

definition hostnameInSNI :: "(bytes \<Rightarrow> bool) \<Rightarrow> bytes \<Rightarrow> bytes" where
  "hostnameInSNI isIP name =
     (let host = (if length name > 0 \<and> name ! 0 = 91 \<and> name ! (length name - 1) = 93 then take (length name - 2) (drop 1 name) else name)
      in if isIP (cutZone host) then [] else rev (dropWhile (\<lambda>c. c = 46) (rev name)))"

definition supportedSignatureAlgorithmsDC :: "u16 list" where
  "supportedSignatureAlgorithmsDC = [0x0403, 0x0807, 0x0503, 0x0603]"

text \<open>The cipher suites up to TLS 1.2 that are offered.\<close>

definition offeredSuites :: "negConfig \<Rightarrow> u16 \<Rightarrow> u16 list" where
  "offeredSuites cfg vers = filter (\<lambda>suiteId. case mutualCipherSuite (configCipherSuites cfg) suiteId of
       None \<Rightarrow> False
     | Some (_, tls12) \<Rightarrow> \<not> (vers < VersionTLS12 \<and> tls12))
     (if \<not> ng_aesHardware cfg then cipherSuitesPreferenceOrderNoAES else cipherSuitesPreferenceOrder)"

fun keySharesLoop :: "group_ops \<Rightarrow> u16 list \<Rightarrow> keyShare list \<Rightarrow> (u16 \<rightharpoonup> privateShare) \<Rightarrow> (keyShare list \<times> (u16 \<rightharpoonup> privateShare)) res" where
  "keySharesLoop G [] shares secret = Ok (shares, secret)"
| "keySharesLoop G (curveID # curveIDs) shares secret =
     (if secret curveID \<noteq> None then Err ''tls: ClientCurveGuess contains duplicate''
      else bind_res (newKeyShare G curveID) (\<lambda>(sk, pk).
        keySharesLoop G curveIDs (shares @ [\<lparr>ks_group = curveID, ks_data = pk\<rparr>]) (secret(curveID \<mapsto> sk))))"

text \<open>The fields that are added when TLS 1.3 is the client's first version.\<close>

definition offerTLS13 :: "negConfig \<Rightarrow> group_ops \<Rightarrow> clientHelloMsg \<Rightarrow> (clientHelloMsg \<times> (u16 \<rightharpoonup> privateShare)) res" where
  "offerTLS13 cfg G hello =
     (let suites = (if length (ch_supportedVersions hello) = 1 then [] else ch_cipherSuites hello);
          suites = suites @ (if ng_aesHardware cfg then defaultCipherSuitesTLS13 else defaultCipherSuitesTLS13NoAES);
          curveIDs = (case ng_ClientCurveGuess cfg of None \<Rightarrow> [hd (curvePreferences cfg)] | Some guess \<Rightarrow> guess) in
      if guessLoop curveIDs (curvePreferences cfg) \<noteq> length curveIDs
      then Err ''tls: ClientCurveGuess not a subsequence of CurvePreferences''
      else bind_res (keySharesLoop G curveIDs [] Map.empty) (\<lambda>(shares, secret).
        bind_res (encodeFlags (ng_TLSFlagsSupported cfg)) (\<lambda>flagBytes.
        Ok (hello\<lparr>ch_cipherSuites := suites, ch_keyShares := Some shares,
                  ch_delegatedCredentialSupported := ng_SupportDelegatedCredential cfg,
                  ch_supportedSignatureAlgorithmsDC := supportedSignatureAlgorithmsDC, ch_tlsFlags := flagBytes\<rparr>, secret))))"

text \<open>
  \<open>isIP\<close> stands for \<^verbatim>\<open>net.ParseIP\<close>; \<open>random\<close> and \<open>sessionId\<close> are the 32 bytes read for the two fields, and \<open>clientFinished\<close> is
  the verify data of an earlier handshake on the connection.
\<close>

definition makeClientHello ::
    "(bytes \<Rightarrow> bool) \<Rightarrow> negConfig \<Rightarrow> group_ops \<Rightarrow> bytes res \<Rightarrow> bytes res \<Rightarrow> bytes option \<Rightarrow> u16 \<Rightarrow>
     (clientHelloMsg \<times> (u16 \<rightharpoonup> privateShare)) res" where
  "makeClientHello isIP cfg G random sessionId clientFinished minVersion =
     (if length (ng_ServerName cfg) = 0 \<and> \<not> ng_InsecureSkipVerify cfg
      then Err ''tls: either ServerName or InsecureSkipVerify must be specified in the tls.Config''
      else if \<exists>proto \<in> set (ng_NextProtos cfg). length proto = 0 \<or> length proto > 255 then Err ''tls: invalid NextProtos value''
      else if (\<Sum>proto\<leftarrow>ng_NextProtos cfg. 1 + length proto) > 0xffff then Err ''tls: NextProtos values too large''
      else
        let versions = supportedVersionsFromMin cfg True minVersion in
        if length versions = 0 then Err ''tls: no supported versions satisfy MinVersion and MaxVersion''
        else
          let vers = (if maxSupportedVersion cfg True > VersionTLS12 then VersionTLS12 else maxSupportedVersion cfg True) in
          bind_res random (\<lambda>random.
          bind_res sessionId (\<lambda>sessionId.
          let hello = emptyHello\<lparr>ch_vers := vers, ch_random := random, ch_sessionId := sessionId, ch_cipherSuites := offeredSuites cfg vers,
                ch_compressionMethods := [compressionNone], ch_serverName := hostnameInSNI isIP (ng_ServerName cfg),
                ch_ocspStapling := True, ch_supportedCurves := curvePreferences cfg, ch_supportedPoints := [0],
                ch_supportedSignatureAlgorithms := (if vers \<ge> VersionTLS12 then ng_supportedSignatureAlgorithms cfg else []),
                ch_secureRenegotiationSupported := True, ch_secureRenegotiation := opt_bytes clientFinished,
                ch_extendedMasterSecret := True, ch_alpnProtocols := ng_NextProtos cfg, ch_scts := True, ch_supportedVersions := versions\<rparr> in
          if versions ! 0 = VersionTLS13 then offerTLS13 cfg G hello else Ok (hello, Map.empty))))"

section \<open>The server's choice\<close>

definition TLS_FALLBACK_SCSV :: u16 where "TLS_FALLBACK_SCSV = 0x5600"
definition alertInappropriateFallback :: u8 where "alertInappropriateFallback = 86"

text \<open>The checks of the ClientHello and the first fields of the answer; \<open>random\<close> is what is read for its random field.\<close>

definition startServerHello :: "negConfig \<Rightarrow> bytes res \<Rightarrow> clientHelloMsg \<Rightarrow> serverHelloMsg hs_res" where
  "startServerHello cfg random ch =
     bind_hs (guard_hs (length (ch_supportedVersions ch) \<noteq> 0) (Some alertIllegalParameter)
       ''tls: client used the legacy version field to negotiate TLS 1.3'') (\<lambda>_.
     bind_hs (guard_hs (\<not> (TLS_FALLBACK_SCSV \<in> set (ch_cipherSuites ch) \<and> VersionTLS13 < maxSupportedVersion cfg False))
       (Some alertInappropriateFallback) ''tls: client using inappropriate protocol fallback'') (\<lambda>_.
     bind_hs (guard_hs (ch_compressionMethods ch = [compressionNone]) (Some alertIllegalParameter)
       ''tls: TLS 1.3 client supports illegal compression methods'') (\<lambda>_.
     bind_hs (lift_hs (Some alertInternalError) random) (\<lambda>random.
     bind_hs (guard_hs (length (ch_secureRenegotiation ch) = 0) (Some alertHandshakeFailure)
       ''tls: initial handshake had non-empty renegotiation extension'') (\<lambda>_.
     bind_hs (guard_hs (\<not> ch_earlyData ch) (Some alertUnsupportedExtension) ''tls: client sent unexpected early data'') (\<lambda>_.
     Next (emptyServerHello\<lparr>sh_vers := VersionTLS12, sh_supportedVersion := VersionTLS13, sh_random := random,
       sh_sessionId := ch_sessionId ch, sh_compressionMethod := compressionNone\<rparr>)))))))"

definition preferenceList :: "negConfig \<Rightarrow> clientHelloMsg \<Rightarrow> u16 list" where
  "preferenceList cfg ch = (if \<not> ng_aesHardware cfg \<or> \<not> aesgcmPreferred (ch_cipherSuites ch)
     then defaultCipherSuitesTLS13NoAES else defaultCipherSuitesTLS13)"

definition selectGroup :: "u16 list \<Rightarrow> u16 list \<Rightarrow> u16" where
  "selectGroup prefs curves = (case find (\<lambda>g. g \<in> set curves) prefs of None \<Rightarrow> 0 | Some g \<Rightarrow> g)"

definition clientShares :: "clientHelloMsg \<Rightarrow> keyShare list" where
  "clientShares ch = (case ch_keyShares ch of None \<Rightarrow> [] | Some ks \<Rightarrow> ks)"

text \<open>Up to the selected group and the client's key share for it, if it sent one.\<close>

definition chooseParameters :: "negConfig \<Rightarrow> bytes res \<Rightarrow> serverHS \<Rightarrow> (serverHS \<times> u16 \<times> keyShare option) hs_res" where
  "chooseParameters cfg random hs =
     (let ch = ss_clientHello hs in
      bind_hs (startServerHello cfg random ch) (\<lambda>hello.
      case firstMutualTLS13 (preferenceList cfg ch) (ch_cipherSuites ch) of
        None \<Rightarrow> Stop (Some alertHandshakeFailure) ''tls: no cipher suite supported by both client and server''
      | Some suite \<Rightarrow>
          let hs = hs\<lparr>ss_hello := hello\<lparr>sh_cipherSuite := cs_id suite\<rparr>, ss_suite := suite, ss_transcript := [],
                      ss_conn := (ss_conn hs)\<lparr>tc_cipherSuite := cs_id suite\<rparr>\<rparr>;
              selectedGroup = selectGroup (curvePreferences cfg) (ch_supportedCurves ch) in
          bind_hs (guard_hs (selectedGroup \<noteq> 0) (Some alertHandshakeFailure)
            ''tls: no ECDHE curve supported by both client and server'') (\<lambda>_.
          Next (hs, selectedGroup, find (\<lambda>ks. ks_group ks = selectedGroup) (clientShares ch)))))"

definition agreeOnKey :: "group_ops \<Rightarrow> u16 \<Rightarrow> bytes \<Rightarrow> (bytes \<times> bytes) hs_res" where
  "agreeOnKey G selectedGroup peer =
     (case curveIdToCirclScheme selectedGroup of
        Some kem \<Rightarrow> (case go_encaps G kem peer of (r, alert) \<Rightarrow> lift_hs (Some alert) r)
      | None \<Rightarrow>
          if selectedGroup \<noteq> 29 \<and> \<not> curveForCurveID selectedGroup
          then Stop (Some alertInternalError) ''tls: CurvePreferences includes unsupported curve''
          else bind_hs (lift_hs (Some alertInternalError) (go_ecdhKey G selectedGroup)) (\<lambda>(pk, ecdh).
            case ecdh peer of
              None \<Rightarrow> Stop (Some alertIllegalParameter) ''tls: invalid client key share''
            | Some key \<Rightarrow> Next (pk, key)))"

definition agreeOnFlags :: "negConfig \<Rightarrow> serverHS \<Rightarrow> serverHS hs_res" where
  "agreeOnFlags cfg hs =
     (let flags = ch_tlsFlags (ss_clientHello hs) in
      if length flags = 0 then Next hs
      else if last flags = 0 then Stop (Some alertIllegalParameter) ''tls: invalid client TLS flags''
      else (case encodeFlags (ng_TLSFlagsSupported cfg) of
          Ok supported \<Rightarrow>
            let hs = (case decodeFlags flags of Ok peer \<Rightarrow> hs\<lparr>ss_peerTLSFlags := peer\<rparr> | _ \<Rightarrow> hs) in
            (case decodeFlags (mutualFlags supported flags) of Ok mutual \<Rightarrow> Next (hs\<lparr>ss_tlsFlags := mutual\<rparr>) | _ \<Rightarrow> Next hs)
        | _ \<Rightarrow> Stop (Some alertInternalError) ''tls: invalid server flags''))"

definition acceptShare :: "negConfig \<Rightarrow> group_ops \<Rightarrow> u16 \<Rightarrow> bytes \<Rightarrow> serverHS \<Rightarrow> serverHS hs_res" where
  "acceptShare cfg G selectedGroup peer hs =
     bind_hs (agreeOnKey G selectedGroup peer) (\<lambda>(share, key).
     let hs = hs\<lparr>ss_hello := (ss_hello hs)\<lparr>sh_serverShare := \<lparr>ks_group = selectedGroup, ks_data = share\<rparr>\<rparr>, ss_sharedKey := key\<rparr> in
     bind_hs (agreeOnFlags cfg hs) (\<lambda>hs.
     let ch = ss_clientHello hs in
     bind_hs (lift_hs (Some alertNoApplicationProtocol) (negotiateALPN (ng_NextProtos cfg) (ch_alpnProtocols ch) False)) (\<lambda>proto.
     bind_hs (guard_hs (ch_quicTransportParameters ch = None) (Some alertUnsupportedExtension)
       ''tls: client sent an unexpected quic_transport_parameters extension'') (\<lambda>_.
     Next (hs\<lparr>ss_conn := (ss_conn hs)\<lparr>tc_clientProtocol := proto, tc_serverName := ch_serverName ch\<rparr>\<rparr>)))))"

text \<open>
  \<^verbatim>\<open>processClientHello\<close>: \<open>msg\<close> is the message that is read next when a HelloRetryRequest is sent.
\<close>

definition processClientHello ::
    "tls_hashes \<Rightarrow> ('pk, 'sk) hpke_env \<Rightarrow> bool \<Rightarrow> (bytes \<Rightarrow> u16 \<Rightarrow> ECHProviderResult res) \<Rightarrow> negConfig \<Rightarrow> group_ops \<Rightarrow> bytes res \<Rightarrow>
     bytes res \<Rightarrow> handshakeMessage \<Rightarrow> serverHS \<Rightarrow> serverHS hs_res" where
  "processClientHello H E canAccept p cfg G random hrrRandom msg hs =
     bind_hs (chooseParameters cfg random hs) (\<lambda>(hs, selectedGroup, share).
     case share of
       Some ks \<Rightarrow> acceptShare cfg G selectedGroup (ks_data ks) hs
     | None \<Rightarrow>
         bind_hs (sendHelloRetryRequest H hrrRandom selectedGroup hs) (\<lambda>hs.
         bind_hs (readSecondHello E canAccept p selectedGroup msg hs) (\<lambda>hs.
         case clientShares (ss_clientHello hs) of
           [] \<Rightarrow> Halt ''index out of range''
         | ks # _ \<Rightarrow> acceptShare cfg G selectedGroup (ks_data ks) hs)))"


section \<open>What is negotiated\<close>

lemma cipherSuiteTLS13ByID_Some: "cipherSuiteTLS13ByID i = Some suite \<Longrightarrow> cs_id suite = i \<and> suite \<in> set cipherSuitesTLS13"
  by (auto simp: cipherSuiteTLS13ByID_def find_Some_iff)

lemma known_suites:
  "i \<in> set (preferenceList cfg ch) \<Longrightarrow> cipherSuiteTLS13ByID i \<noteq> None"
  by (auto simp: preferenceList_def defaultCipherSuitesTLS13_def defaultCipherSuitesTLS13NoAES_def cipherSuiteTLS13ByID_def
      cipherSuitesTLS13_def split: if_splits)

text \<open>Both choices are the first of the server's preferences that the client offers.\<close>

lemma firstMutualTLS13_best:
  assumes "firstMutualTLS13 prefs have = Some suite" and "\<And>i. i \<in> set prefs \<Longrightarrow> cipherSuiteTLS13ByID i \<noteq> None"
  shows "find (\<lambda>i. i \<in> set have) prefs = Some (cs_id suite) \<and> cipherSuiteTLS13ByID (cs_id suite) = Some suite"
  using assms
proof (induction prefs)
  case (Cons i prefs)
  show ?case
  proof (cases "i \<in> set have")
    case True
    then obtain x where "cipherSuiteTLS13ByID i = Some x" using Cons.prems(2) by auto
    with Cons.prems(1) True show ?thesis
      using cipherSuiteTLS13ByID_Some by (auto simp: mutualCipherSuiteTLS13_def)
  next
    case False
    with Cons show ?thesis by (simp add: mutualCipherSuiteTLS13_def)
  qed
qed simp

lemma selectGroup_best: "selectGroup prefs curves \<noteq> 0 \<Longrightarrow> find (\<lambda>g. g \<in> set curves) prefs = Some (selectGroup prefs curves)"
  by (auto simp: selectGroup_def split: option.splits)

lemma chooseParameters_Next:
  assumes "chooseParameters cfg random hs = Next (s, g, share)"
  obtains suite r where "find (\<lambda>i. i \<in> set (ch_cipherSuites (ss_clientHello hs))) (preferenceList cfg (ss_clientHello hs)) = Some (cs_id suite)"
    and "cipherSuiteTLS13ByID (cs_id suite) = Some suite" and "g \<noteq> 0"
    and "find (\<lambda>i. i \<in> set (ch_supportedCurves (ss_clientHello hs))) (curvePreferences cfg) = Some g"
    and "share = find (\<lambda>ks. ks_group ks = g) (clientShares (ss_clientHello hs))" and "random = Ok r"
    and "s = hs\<lparr>ss_hello := emptyServerHello\<lparr>sh_vers := VersionTLS12, sh_supportedVersion := VersionTLS13, sh_random := r,
         sh_sessionId := ch_sessionId (ss_clientHello hs), sh_compressionMethod := compressionNone, sh_cipherSuite := cs_id suite\<rparr>,
       ss_suite := suite, ss_transcript := [], ss_conn := (ss_conn hs)\<lparr>tc_cipherSuite := cs_id suite\<rparr>\<rparr>"
proof -
  let ?ch = "ss_clientHello hs"
  obtain hello suite where h: "startServerHello cfg random ?ch = Next hello"
    and suite: "firstMutualTLS13 (preferenceList cfg ?ch) (ch_cipherSuites ?ch) = Some suite"
    using assms by (auto simp: chooseParameters_def Let_def bind_hs_eq_Next split: option.splits)
  have g: "g = selectGroup (curvePreferences cfg) (ch_supportedCurves ?ch)" "g \<noteq> 0"
      "share = find (\<lambda>ks. ks_group ks = g) (clientShares ?ch)"
      "s = hs\<lparr>ss_hello := hello\<lparr>sh_cipherSuite := cs_id suite\<rparr>, ss_suite := suite, ss_transcript := [],
         ss_conn := (ss_conn hs)\<lparr>tc_cipherSuite := cs_id suite\<rparr>\<rparr>"
    using assms h suite by (auto simp: chooseParameters_def Let_def bind_hs_eq_Next)
  obtain r where r: "random = Ok r" "hello = emptyServerHello\<lparr>sh_vers := VersionTLS12, sh_supportedVersion := VersionTLS13, sh_random := r,
       sh_sessionId := ch_sessionId ?ch, sh_compressionMethod := compressionNone\<rparr>"
    using h by (auto simp: startServerHello_def bind_hs_eq_Next)
  show thesis
    using firstMutualTLS13_best [OF suite known_suites] g(2,3) selectGroup_best g r by (intro that [of suite r]) auto
qed

lemma agreeOnFlags_keeps:
  "agreeOnFlags cfg s = Next s' \<Longrightarrow> s' = s\<lparr>ss_tlsFlags := ss_tlsFlags s', ss_peerTLSFlags := ss_peerTLSFlags s'\<rparr>"
  by (auto simp: agreeOnFlags_def Let_def split: if_splits res.splits)

lemma acceptShare_Next:
  assumes "acceptShare cfg G g peer s = Next s'"
  obtains share key proto where "agreeOnKey G g peer = Next (share, key)"
    and "negotiateALPN (ng_NextProtos cfg) (ch_alpnProtocols (ss_clientHello s)) False = Ok proto"
    and "s' = s\<lparr>ss_hello := (ss_hello s)\<lparr>sh_serverShare := \<lparr>ks_group = g, ks_data = share\<rparr>\<rparr>, ss_sharedKey := key,
       ss_tlsFlags := ss_tlsFlags s', ss_peerTLSFlags := ss_peerTLSFlags s',
       ss_conn := (ss_conn s)\<lparr>tc_clientProtocol := proto, tc_serverName := ch_serverName (ss_clientHello s)\<rparr>\<rparr>"
proof -
  obtain share key f proto where k: "agreeOnKey G g peer = Next (share, key)"
    and f: "agreeOnFlags cfg (s\<lparr>ss_hello := (ss_hello s)\<lparr>sh_serverShare := \<lparr>ks_group = g, ks_data = share\<rparr>\<rparr>, ss_sharedKey := key\<rparr>) = Next f"
    and p: "negotiateALPN (ng_NextProtos cfg) (ch_alpnProtocols (ss_clientHello f)) False = Ok proto"
    and s': "s' = f\<lparr>ss_conn := (ss_conn f)\<lparr>tc_clientProtocol := proto, tc_serverName := ch_serverName (ss_clientHello f)\<rparr>\<rparr>"
    using assms by (auto simp: acceptShare_def Let_def bind_hs_eq_Next)
  note e = agreeOnFlags_keeps [OF f]
  have "ss_clientHello f = ss_clientHello s" "ss_conn f = ss_conn s" by (subst e, simp)+
  then show thesis using k p s' e by (intro that [of share key proto]) simp_all
qed


text \<open>After a HelloRetryRequest the answer and the suite stay as they are, and the second hello has passed its checks.\<close>

lemma sendHelloRetryRequest_keeps:
  assumes "sendHelloRetryRequest H rnd g s = Next s'"
  shows "ss_hello s' = ss_hello s \<and> ss_suite s' = ss_suite s \<and> ss_clientHello s' = (ss_clientHello s)\<lparr>ch_raw := ch_raw (ss_clientHello s')\<rparr>"
proof -
  obtain l data where l: "ch_marshal (ss_clientHello s) = (l, Ok data)" and s':
      "ss_hello s' = ss_hello s" "ss_suite s' = ss_suite s" "ss_clientHello s' = l"
    using assms
    by (auto simp: sendHelloRetryRequest_def ss_logClientHello_def ss_write_def ss_sendDummyChangeCipherSpec_def bind_hs_eq_Next Let_def
        split: prod.splits if_splits)
  with fst_ch_marshal [of "ss_clientHello s"] show ?thesis by simp
qed

lemma readSecondHello_keeps:
  assumes "readSecondHello E canAccept p g msg s = Next s'"
  shows "ss_hello s' = ss_hello s \<and> ss_suite s' = ss_suite s \<and> checkSecondHello g (ss_clientHello s') (ss_clientHello s) = None"
  using assms by (auto simp: readSecondHello_def Let_def bind_hs_eq_Next split: handshakeMessage.splits option.splits)

lemma checkSecondHello_share:
  assumes "checkSecondHello g ch first = None"
  obtains ks where "clientShares ch = [ks]" and "ks_group ks = g"
  using assms by (auto simp: checkSecondHello_def clientShares_def length_Suc_conv split: if_splits option.splits)

lemma processClientHello_Next:
  assumes "processClientHello H E canAccept p cfg G random hrrRandom msg hs = Next hs'"
  obtains s g share ks t where "chooseParameters cfg random hs = Next (s, g, share)"
    and "acceptShare cfg G g (ks_data ks) t = Next hs'" and "ss_hello t = ss_hello s" and "ss_suite t = ss_suite s"
    and "ks \<in> set (clientShares (ss_clientHello t))" and "ks_group ks = g"
    and "share \<noteq> None \<Longrightarrow> t = s"
    and "share = None \<Longrightarrow> \<exists>raw. checkSecondHello g (ss_clientHello t) ((ss_clientHello hs)\<lparr>ch_raw := raw\<rparr>) = None"
proof -
  obtain s g share where c: "chooseParameters cfg random hs = Next (s, g, share)"
    using assms by (auto simp: processClientHello_def bind_hs_eq_Next)
  have ch: "share = find (\<lambda>ks. ks_group ks = g) (clientShares (ss_clientHello hs))" "ss_clientHello s = ss_clientHello hs"
    using c by (auto elim!: chooseParameters_Next)
  show thesis
  proof (cases share)
    case (Some ks)
    then have "ks \<in> set (clientShares (ss_clientHello s))" "ks_group ks = g"
      using ch by (auto simp: find_Some_iff)
    then show thesis using assms c Some by (intro that [OF c, of ks s]) (simp_all add: processClientHello_def)
  next
    case None
    obtain u t where u: "sendHelloRetryRequest H hrrRandom g s = Next u" "readSecondHello E canAccept p g msg u = Next t"
        "(case clientShares (ss_clientHello t) of [] \<Rightarrow> Halt ''index out of range'' | ks # _ \<Rightarrow> acceptShare cfg G g (ks_data ks) t) = Next hs'"
      using assms c None by (auto simp: processClientHello_def bind_hs_eq_Next)
    note k = sendHelloRetryRequest_keeps [OF u(1)] readSecondHello_keeps [OF u(2)]
    then obtain ks where ks: "clientShares (ss_clientHello t) = [ks]" "ks_group ks = g" by (auto elim: checkSecondHello_share)
    have "checkSecondHello g (ss_clientHello t) ((ss_clientHello hs)\<lparr>ch_raw := ch_raw (ss_clientHello u)\<rparr>) = None"
      using k ch(2) by metis
    then show thesis using u(3) k ks None by (intro that [OF c, of ks t]) auto
  qed
qed

section \<open>The abstract negotiation\<close>

text \<open>Of an offer, the first in the order of the preferences.\<close>

definition best :: "'a list \<Rightarrow> 'a list \<Rightarrow> 'a option" where
  "best prefs offer = find (\<lambda>x. x \<in> set offer) prefs"

definition negotiate_spec :: "negConfig \<Rightarrow> clientHelloMsg \<Rightarrow> (u16 \<times> u16) option" where
  "negotiate_spec cfg ch =
     (case (best (preferenceList cfg ch) (ch_cipherSuites ch), best (curvePreferences cfg) (ch_supportedCurves ch)) of
        (Some suite, Some g) \<Rightarrow> if g = 0 then None else Some (suite, g)
      | _ \<Rightarrow> None)"

definition negotiated :: "serverHS \<Rightarrow> u16 \<times> u16" where
  "negotiated s = (cs_id (ss_suite s), ks_group (sh_serverShare (ss_hello s)))"

lemma no_agreement_stops:
  assumes "startServerHello cfg random (ss_clientHello hs) = Next hello" and "negotiate_spec cfg (ss_clientHello hs) = None"
  shows "\<exists>e. processClientHello H E canAccept p cfg G random hrrRandom msg hs = Stop (Some alertHandshakeFailure) e"
proof (cases "firstMutualTLS13 (preferenceList cfg (ss_clientHello hs)) (ch_cipherSuites (ss_clientHello hs))")
  case None
  then show ?thesis using assms(1) by (simp add: processClientHello_def chooseParameters_def Let_def)
next
  case (Some suite)
  then have "selectGroup (curvePreferences cfg) (ch_supportedCurves (ss_clientHello hs)) = 0"
    using assms(2) firstMutualTLS13_best [OF Some known_suites]
    by (auto simp: negotiate_spec_def selectGroup_def best_def split: option.splits if_splits)
  then show ?thesis using assms(1) Some by (simp add: processClientHello_def chooseParameters_def Let_def)
qed

lemma checkServerHelloOrHRR_answer:
  assumes "cipherSuiteTLS13ByID (cs_id suite) = Some suite" and "cs_id suite \<in> set (ch_cipherSuites (cl_hello c))" and "cl_suite c = None"
    and "cl_serverHello c = emptyServerHello\<lparr>sh_vers := VersionTLS12, sh_supportedVersion := VersionTLS13, sh_random := r, sh_raw := raw,
         sh_sessionId := ch_sessionId (cl_hello c), sh_compressionMethod := compressionNone, sh_cipherSuite := cs_id suite,
         sh_serverShare := share\<rparr>"
  shows "checkServerHelloOrHRR c = Next (c\<lparr>cl_suite := Some suite, cl_conn := (cl_conn c)\<lparr>tc_cipherSuite := cs_id suite\<rparr>\<rparr>)"
  using assms by (simp add: checkServerHelloOrHRR_def emptyServerHello_def mutualCipherSuiteTLS13_def VersionTLS13_def Let_def)

text \<open>
  C7: The server's choice refines the abstract negotiation. When \<open>processClientHello\<close> succeeds, with or without a HelloRetryRequest, suite
  and group are the first of the server's preferences that the first ClientHello offers; the shared key and the server's share come from
  the key share that the client sent for this group; the application protocol is one that the client's check accepts; and any client with
  this session id and these cipher suites takes the suite from the answer. When the checks pass but there is no
  common suite or no common group, it ends with the alert handshake_failure.
\<close>

theorem negotiation_refines:
  assumes "processClientHello H E canAccept p cfg G random hrrRandom msg hs = Next hs'"
  shows "negotiate_spec cfg (ss_clientHello hs) = Some (negotiated hs') \<and>
    (\<exists>ks \<in> set (clientShares (ss_clientHello hs')). ks_group ks = snd (negotiated hs') \<and>
       agreeOnKey G (ks_group ks) (ks_data ks) = Next (ks_data (sh_serverShare (ss_hello hs')), ss_sharedKey hs')) \<and>
    checkALPN (ch_alpnProtocols (ss_clientHello hs')) (tc_clientProtocol (ss_conn hs')) = None \<and>
    (\<forall>c. ch_sessionId (cl_hello c) = ch_sessionId (ss_clientHello hs) \<and> ch_cipherSuites (cl_hello c) = ch_cipherSuites (ss_clientHello hs) \<and>
       cl_suite c = None \<longrightarrow>
       (\<exists>c'. checkServerHelloOrHRR (c\<lparr>cl_serverHello := ss_hello hs'\<rparr>) = Next c' \<and> cl_suite c' = Some (ss_suite hs'))) \<and>
    (\<forall>hs. (\<exists>hello. startServerHello cfg random (ss_clientHello hs) = Next hello) \<and> negotiate_spec cfg (ss_clientHello hs) = None \<longrightarrow>
       (\<exists>e. processClientHello H E canAccept p cfg G random hrrRandom msg hs = Stop (Some alertHandshakeFailure) e))"
proof -
  obtain s g share ks t where c: "chooseParameters cfg random hs = Next (s, g, share)" and a: "acceptShare cfg G g (ks_data ks) t = Next hs'"
    and t: "ss_hello t = ss_hello s" "ss_suite t = ss_suite s" "ks \<in> set (clientShares (ss_clientHello t))" "ks_group ks = g"
    by (rule processClientHello_Next [OF assms]) (rule that)
  obtain suite r where b: "find (\<lambda>i. i \<in> set (ch_cipherSuites (ss_clientHello hs))) (preferenceList cfg (ss_clientHello hs)) = Some (cs_id suite)"
      "cipherSuiteTLS13ByID (cs_id suite) = Some suite" "g \<noteq> 0"
      "find (\<lambda>i. i \<in> set (ch_supportedCurves (ss_clientHello hs))) (curvePreferences cfg) = Some g"
    and s: "s = hs\<lparr>ss_hello := emptyServerHello\<lparr>sh_vers := VersionTLS12, sh_supportedVersion := VersionTLS13, sh_random := r,
         sh_sessionId := ch_sessionId (ss_clientHello hs), sh_compressionMethod := compressionNone, sh_cipherSuite := cs_id suite\<rparr>,
       ss_suite := suite, ss_transcript := [], ss_conn := (ss_conn hs)\<lparr>tc_cipherSuite := cs_id suite\<rparr>\<rparr>"
    by (rule chooseParameters_Next [OF c]) (rule that)
  obtain sh key proto where k: "agreeOnKey G g (ks_data ks) = Next (sh, key)"
      "negotiateALPN (ng_NextProtos cfg) (ch_alpnProtocols (ss_clientHello t)) False = Ok proto"
    and hs': "hs' = t\<lparr>ss_hello := (ss_hello t)\<lparr>sh_serverShare := \<lparr>ks_group = g, ks_data = sh\<rparr>\<rparr>, ss_sharedKey := key,
       ss_tlsFlags := ss_tlsFlags hs', ss_peerTLSFlags := ss_peerTLSFlags hs',
       ss_conn := (ss_conn t)\<lparr>tc_clientProtocol := proto, tc_serverName := ch_serverName (ss_clientHello t)\<rparr>\<rparr>"
    by (rule acceptShare_Next [OF a]) (rule that)
  have f: "ss_suite hs' = suite" "ss_clientHello hs' = ss_clientHello t" "tc_clientProtocol (ss_conn hs') = proto" "ss_sharedKey hs' = key"
      "ss_hello hs' = emptyServerHello\<lparr>sh_vers := VersionTLS12, sh_supportedVersion := VersionTLS13, sh_random := r,
         sh_sessionId := ch_sessionId (ss_clientHello hs), sh_compressionMethod := compressionNone, sh_cipherSuite := cs_id suite,
         sh_serverShare := \<lparr>ks_group = g, ks_data = sh\<rparr>\<rparr>"
    by (subst hs', simp add: t(1,2) s)+
  have off: "cs_id suite \<in> set (ch_cipherSuites (ss_clientHello hs))" using b(1) by (auto simp: find_Some_iff)
  have "negotiate_spec cfg (ss_clientHello hs) = Some (negotiated hs')"
    using b by (simp add: negotiate_spec_def best_def negotiated_def f)
  moreover have "\<exists>c'. checkServerHelloOrHRR (c\<lparr>cl_serverHello := ss_hello hs'\<rparr>) = Next c' \<and> cl_suite c' = Some (ss_suite hs')"
    if "ch_sessionId (cl_hello c) = ch_sessionId (ss_clientHello hs)" "ch_cipherSuites (cl_hello c) = ch_cipherSuites (ss_clientHello hs)"
      "cl_suite c = None" for c
    by (subst checkServerHelloOrHRR_answer [of suite, where r = r and raw = None and share = "\<lparr>ks_group = g, ks_data = sh\<rparr>"])
      (use that b(2) off in \<open>simp_all add: f, simp_all add: emptyServerHello_def\<close>)
  ultimately show ?thesis
    using t(3,4) k(1) negotiateALPN_checked(1) [OF k(2)] no_agreement_stops by (auto simp: negotiated_def f)
qed

text \<open>A configuration of default preferences, and an ECDH whose shared key is fixed.\<close>

definition toy_neg :: negConfig where
  "toy_neg = \<lparr>ng_MinVersion = 0, ng_MaxVersion = 0, ng_tls10server = False, ng_tlsrsakex = False, ng_aesHardware = True,
     ng_CipherSuites = None, ng_CurvePreferences = [], ng_ClientCurveGuess = None, ng_NextProtos = [[104, 50]],
     ng_TLSFlagsSupported = [0x50], ng_ServerName = [101, 120], ng_InsecureSkipVerify = False, ng_SupportDelegatedCredential = True,
     ng_supportedSignatureAlgorithms = [0x0403]\<rparr>"

definition toy_groups :: group_ops where
  "toy_groups = \<lparr>go_kemKey = (\<lambda>_. Err ''no KEM''), go_encaps = (\<lambda>_ _. (Err ''no KEM'', 0)),
     go_ecdhKey = (\<lambda>g. Ok ([9, 9], \<lambda>peer. if peer = [] then None else Some [4, 2]))\<rparr>"

definition toy_offer :: clientHelloMsg where
  "toy_offer = base_hello\<lparr>ch_supportedCurves := [23, 29], ch_alpnProtocols := [[104, 50]]\<rparr>"

lemma toy_process:
  "\<exists>s. processClientHello toy_hashes toy_env False (\<lambda>_ _. Err []) toy_neg toy_groups (Ok (replicate 32 5)) (Err []) HelloRequest
    (toy_server\<lparr>ss_clientHello := toy_offer\<rparr>) = Next s \<and> negotiated s = (0x1301, 29) \<and> ss_sharedKey s = [4, 2]"
  by (simp add: processClientHello_def chooseParameters_def startServerHello_def toy_offer_def base_hello_def emptyHello_def toy_neg_def
      toy_groups_def maxSupportedVersion_def supportedVersions_def all_versions_def compressionNone_def Let_def preferenceList_def
      cipherSuiteByID_def cipherSuiteTLS13ByID_def cipherSuites_def cipherSuitesTLS13_def aesgcmCiphers_def defaultCipherSuitesTLS13_def
      mutualCipherSuiteTLS13_def selectGroup_def curvePreferences_def defaultCurvePreferences_def clientShares_def acceptShare_def
      agreeOnKey_def curveIdToCirclScheme_def curveForCurveID_def agreeOnFlags_def negotiateALPN_def negotiated_def VersionTLS13_def TLS_FALLBACK_SCSV_def)

theorem negotiation_refines_witness:
  "\<exists>s. processClientHello toy_hashes toy_env False (\<lambda>_ _. Err []) toy_neg toy_groups (Ok (replicate 32 5)) (Err []) HelloRequest
      (toy_server\<lparr>ss_clientHello := toy_offer\<rparr>) = Next s \<and> negotiate_spec toy_neg toy_offer = Some (0x1301, 29) \<and>
    checkALPN (ch_alpnProtocols (ss_clientHello s)) (tc_clientProtocol (ss_conn s)) = None"
proof -
  obtain s where s: "processClientHello toy_hashes toy_env False (\<lambda>_ _. Err []) toy_neg toy_groups (Ok (replicate 32 5)) (Err []) HelloRequest
      (toy_server\<lparr>ss_clientHello := toy_offer\<rparr>) = Next s" "negotiated s = (0x1301, 29)"
    using toy_process by blast
  from negotiation_refines [OF s(1)] s show ?thesis by auto
qed

section \<open>The offer is well formed\<close>

lemma newest_first:
  assumes "VersionTLS13 \<in> set (filter P all_versions)"
  obtains vs where "filter P all_versions = VersionTLS13 # vs"
proof -
  have "P VersionTLS13" using assms by simp
  then show thesis using that by (simp add: all_versions_def)
qed

lemma supportedVersions_13:
  assumes "VersionTLS13 \<in> set (supportedVersionsFromMin cfg isClient minVersion)"
  shows "supportedVersionsFromMin cfg isClient minVersion ! 0 = VersionTLS13"
  using assms unfolding supportedVersionsFromMin_def supportedVersions_def filter_filter
  by (elim newest_first) simp

lemma maxSupportedVersion_le: "\<not> VersionTLS13 < maxSupportedVersion cfg isClient"
proof -
  have "v \<in> set all_versions \<Longrightarrow> \<not> VersionTLS13 < v" for v
    by (auto simp: all_versions_def VersionTLS13_def VersionTLS12_def VersionTLS11_def VersionTLS10_def)
  moreover have "maxSupportedVersion cfg isClient = 0 \<or> maxSupportedVersion cfg isClient \<in> set all_versions"
    by (auto simp: maxSupportedVersion_def supportedVersions_def split: list.splits dest!: arg_cong [where f = set])
  ultimately show ?thesis by auto
qed

lemma keySharesLoop_Ok:
  assumes "keySharesLoop G ids shares secret = Ok (shares', secret')" and "dom secret = ks_group ` set shares"
    and "distinct (map ks_group shares)"
    and "\<forall>ks \<in> set shares. \<exists>sk. newKeyShare G (ks_group ks) = Ok (sk, ks_data ks) \<and> secret (ks_group ks) = Some sk"
  shows "map ks_group shares' = map ks_group shares @ ids \<and> dom secret' = ks_group ` set shares' \<and> distinct (map ks_group shares') \<and>
    (\<forall>ks \<in> set shares'. \<exists>sk. newKeyShare G (ks_group ks) = Ok (sk, ks_data ks) \<and> secret' (ks_group ks) = Some sk)"
  using assms
proof (induction ids arbitrary: shares secret)
  case Nil
  then show ?case by simp
next
  case (Cons g ids)
  obtain sk pk where k: "newKeyShare G g = Ok (sk, pk)" and new: "secret g = None"
    and rest: "keySharesLoop G ids (shares @ [\<lparr>ks_group = g, ks_data = pk\<rparr>]) (secret(g \<mapsto> sk)) = Ok (shares', secret')"
    using Cons.prems(1) by (auto simp: bind_res_eq_Ok split: if_splits)
  let ?shares = "shares @ [\<lparr>ks_group = g, ks_data = pk\<rparr>]" and ?secret = "secret(g \<mapsto> sk)"
  have g: "g \<notin> ks_group ` set shares" using new Cons.prems(2) by auto
  have d: "dom ?secret = ks_group ` set ?shares" "distinct (map ks_group ?shares)" using Cons.prems(2,3) g by auto
  have e: "\<forall>ks \<in> set ?shares. \<exists>sk. newKeyShare G (ks_group ks) = Ok (sk, ks_data ks) \<and> ?secret (ks_group ks) = Some sk"
  proof
    fix ks assume "ks \<in> set ?shares"
    then consider "ks = \<lparr>ks_group = g, ks_data = pk\<rparr>" | "ks \<in> set shares" "ks_group ks \<noteq> g" using g by auto
    then show "\<exists>sk. newKeyShare G (ks_group ks) = Ok (sk, ks_data ks) \<and> ?secret (ks_group ks) = Some sk"
      by cases (use k Cons.prems(4) in auto)
  qed
  have m: "map ks_group ?shares @ ids = map ks_group shares @ g # ids" by simp
  from Cons.IH [OF rest d e, unfolded m] show ?case .
qed

lemma encodeFlags_last: "encodeFlags flags = Ok bs \<Longrightarrow> bs = [] \<or> last bs \<noteq> 0"
  unfolding encodeFlags_def by (drule encodeFlagsLoop_last) simp_all

lemma makeClientHello_tls13:
  assumes "makeClientHello isIP cfg G random sessionId clientFinished minVersion = Ok (hello, secret)"
    and "VersionTLS13 \<in> set (ch_supportedVersions hello)"
  obtains shares where "ch_keyShares hello = Some shares" and "distinct (map ks_group shares)"
    and "subseq (map ks_group shares) (ch_supportedCurves hello)" and "dom secret = set (map ks_group shares)"
    and "\<forall>ks \<in> set shares. \<exists>sk. newKeyShare G (ks_group ks) = Ok (sk, ks_data ks) \<and> secret (ks_group ks) = Some sk"
    and "\<And>cfgS r. clientFinished = None \<Longrightarrow> \<exists>h. startServerHello cfgS (Ok r) hello = Next h"
    and "ch_tlsFlags hello = [] \<or> last (ch_tlsFlags hello) \<noteq> 0"
    and "ch_supportedVersions hello = supportedVersionsFromMin cfg True minVersion" and "ch_supportedVersions hello ! 0 = VersionTLS13"
    and "ch_ech hello = []" and "ch_raw hello = None" and "ch_quicTransportParameters hello = None"
    and "list_all (\<lambda>p. length p < 256) (ch_alpnProtocols hello)" and "ch_alpnProtocols hello = ng_NextProtos cfg"
    and "sessionId = Ok (ch_sessionId hello)" and "ch_pskModes hello = []"
    and "set (ch_cipherSuites hello) \<supseteq> {0x1301, 0x1302, 0x1303}"
    and "length (ch_supportedVersions hello) = 1 \<Longrightarrow> set (ch_cipherSuites hello) = {0x1301, 0x1302, 0x1303}"
proof -
  obtain h0 where h0: "offerTLS13 cfg G h0 = Ok (hello, secret)" and f: "ch_supportedCurves h0 = curvePreferences cfg"
      "ch_compressionMethods h0 = [compressionNone]" "ch_secureRenegotiation h0 = opt_bytes clientFinished" "\<not> ch_earlyData h0"
      "ch_supportedVersions h0 = supportedVersionsFromMin cfg True minVersion" "ch_supportedVersions h0 \<noteq> []"
      "ch_ech h0 = []" "ch_raw h0 = None" "ch_quicTransportParameters h0 = None" "ch_alpnProtocols h0 = ng_NextProtos cfg"
      "\<forall>p \<in> set (ng_NextProtos cfg). length p \<le> 255" "sessionId = Ok (ch_sessionId h0)" "ch_pskModes h0 = []"
      "ch_supportedVersions h0 ! 0 = VersionTLS13"
    using assms supportedVersions_13 [of cfg True minVersion]
    by (fastforce simp: makeClientHello_def Let_def bind_res_eq_Ok emptyHello_def split: if_splits)
  define ids where "ids = (case ng_ClientCurveGuess cfg of None \<Rightarrow> [hd (curvePreferences cfg)] | Some guess \<Rightarrow> guess)"
  obtain shares flags where l: "guessLoop ids (curvePreferences cfg) = length ids" "keySharesLoop G ids [] Map.empty = Ok (shares, secret)"
    and fl: "encodeFlags (ng_TLSFlagsSupported cfg) = Ok flags"
    and hello: "hello = h0\<lparr>ch_cipherSuites := (if length (ch_supportedVersions h0) = 1 then [] else ch_cipherSuites h0) @
        (if ng_aesHardware cfg then defaultCipherSuitesTLS13 else defaultCipherSuitesTLS13NoAES), ch_keyShares := Some shares,
        ch_delegatedCredentialSupported := ng_SupportDelegatedCredential cfg,
        ch_supportedSignatureAlgorithmsDC := supportedSignatureAlgorithmsDC, ch_tlsFlags := flags\<rparr>"
    using h0 by (auto simp: offerTLS13_def Let_def bind_res_eq_Ok ids_def split: if_splits)
  have k: "map ks_group shares = ids" "dom secret = ks_group ` set shares" "distinct (map ks_group shares)"
      "\<forall>ks \<in> set shares. \<exists>sk. newKeyShare G (ks_group ks) = Ok (sk, ks_data ks) \<and> secret (ks_group ks) = Some sk"
    using keySharesLoop_Ok [OF l(2)] by auto
  have "subseq (map ks_group shares) (curvePreferences cfg)" using l(1) k(1,3) guessLoop_subseq by simp
  moreover have "dom secret = set (map ks_group shares)" using k(2) by simp
  moreover have "\<exists>h. startServerHello cfgS (Ok r) hello = Next h" if "clientFinished = None" for cfgS r
    using f(1-6) that by (simp add: startServerHello_def hello maxSupportedVersion_le opt_bytes_def)
  moreover have "{0x1301, 0x1302, 0x1303} \<subseteq> set (ch_cipherSuites hello)"
    by (auto simp: hello defaultCipherSuitesTLS13_def defaultCipherSuitesTLS13NoAES_def)
  moreover have "set (ch_cipherSuites hello) = {0x1301, 0x1302, 0x1303}" if "length (ch_supportedVersions hello) = 1"
    using that by (auto simp: hello defaultCipherSuitesTLS13_def defaultCipherSuitesTLS13NoAES_def)
  moreover have "list_all (\<lambda>p. length p < 256) (ng_NextProtos cfg)" using f(11) by (fastforce simp: list_all_iff)
  ultimately show thesis
    using k(3,4) encodeFlags_last [OF fl] f by (intro that [of shares]) (simp_all add: hello)
qed

text \<open>
  C11: A ClientHello of \<open>makeClientHello\<close> that offers TLS 1.3 is well formed: its key shares are for distinct groups that stand in the order
  of the supported groups, as RFC 8446 section 4.2.8 demands; the client keeps exactly one private share for each of them, generated together with
  the public one; all suites of TLS 1.3 are offered; and a server of any configuration passes it through the checks
  at the start of its own processing, flags included, when it is the first on the connection.
\<close>

theorem client_offer_wellformed:
  assumes "makeClientHello isIP cfg G random sessionId clientFinished minVersion = Ok (hello, secret)"
    and "VersionTLS13 \<in> set (ch_supportedVersions hello)"
  shows "\<exists>shares. ch_keyShares hello = Some shares \<and> distinct (map ks_group shares) \<and>
    subseq (map ks_group shares) (ch_supportedCurves hello) \<and> dom secret = set (map ks_group shares) \<and>
    (\<forall>ks \<in> set shares. \<exists>sk. newKeyShare G (ks_group ks) = Ok (sk, ks_data ks) \<and> secret (ks_group ks) = Some sk) \<and>
    {0x1301, 0x1302, 0x1303} \<subseteq> set (ch_cipherSuites hello) \<and>
    (clientFinished = None \<longrightarrow> (\<forall>cfgS r. \<exists>h. startServerHello cfgS (Ok r) hello = Next h)) \<and>
    (ch_tlsFlags hello = [] \<or> last (ch_tlsFlags hello) \<noteq> 0)"
proof -
  obtain shares where "ch_keyShares hello = Some shares" "distinct (map ks_group shares)"
    "subseq (map ks_group shares) (ch_supportedCurves hello)" "dom secret = set (map ks_group shares)"
    "\<forall>ks \<in> set shares. \<exists>sk. newKeyShare G (ks_group ks) = Ok (sk, ks_data ks) \<and> secret (ks_group ks) = Some sk"
    "\<And>cfgS r. clientFinished = None \<Longrightarrow> \<exists>h. startServerHello cfgS (Ok r) hello = Next h"
    "ch_tlsFlags hello = [] \<or> last (ch_tlsFlags hello) \<noteq> 0" "{0x1301, 0x1302, 0x1303} \<subseteq> set (ch_cipherSuites hello)"
    by (rule makeClientHello_tls13 [OF assms]) (rule that)
  then show ?thesis by blast
qed

lemma toy_hello_made:
  "\<exists>hello secret. makeClientHello (\<lambda>_. False) toy_neg toy_groups (Ok (replicate 32 7)) (Ok (replicate 32 8)) None 0 = Ok (hello, secret) \<and>
     VersionTLS13 \<in> set (ch_supportedVersions hello) \<and> clientShares hello = [\<lparr>ks_group = 29, ks_data = [9, 9]\<rparr>]"
  by (simp add: makeClientHello_def toy_neg_def toy_groups_def offerTLS13_def supportedVersionsFromMin_def supportedVersions_def all_versions_def
      VersionTLS13_def VersionTLS12_def VersionTLS11_def VersionTLS10_def maxSupportedVersion_def Let_def curvePreferences_def
      defaultCurvePreferences_def newKeyShare_def curveIdToCirclScheme_def curveForCurveID_def encodeFlags_def maxTLSFlag_def clientShares_def)

theorem client_offer_wellformed_witness:
  "\<exists>hello secret. makeClientHello (\<lambda>_. False) toy_neg toy_groups (Ok (replicate 32 7)) (Ok (replicate 32 8)) None 0 = Ok (hello, secret) \<and>
     clientShares hello = [\<lparr>ks_group = 29, ks_data = [9, 9]\<rparr>] \<and> dom secret = {29} \<and> (\<exists>h. startServerHello toy_neg (Ok []) hello = Next h)"
proof -
  obtain hello secret where h: "makeClientHello (\<lambda>_. False) toy_neg toy_groups (Ok (replicate 32 7)) (Ok (replicate 32 8)) None 0 = Ok (hello, secret)"
      "VersionTLS13 \<in> set (ch_supportedVersions hello)" "clientShares hello = [\<lparr>ks_group = 29, ks_data = [9, 9]\<rparr>]"
    using toy_hello_made by blast
  from client_offer_wellformed [OF h(1,2)] h show ?thesis by (auto simp: clientShares_def)
qed

end
