(* ===== verification/TLS13_Run.thy ===== *)
theory TLS13_Run
  imports TLS13_Negotiate
begin

text \<open>
  A TLS 1.3 handshake from the ClientHello to the end: the server reads the hello and settles ECH and the version
  (\<^verbatim>\<open>crypto/tls/handshake_server.go\<close>), negotiates, and both sides go through the rest of the handshake.
\<close>

section \<open>Reading the ClientHello\<close>

definition alertProtocolVersion :: u8 where "alertProtocolVersion = 70"

text \<open>\<^verbatim>\<open>GetConfigForClient\<close> is not set. The result is the state and the version of the connection.\<close>

definition readClientHello ::
    "('pk, 'sk) hpke_env \<Rightarrow> bool \<Rightarrow> (bytes \<Rightarrow> u16 \<Rightarrow> ECHProviderResult res) \<Rightarrow> negConfig \<Rightarrow> handshakeMessage \<Rightarrow> serverHS \<Rightarrow>
     (serverHS \<times> u16) hs_res" where
  "readClientHello E canAccept p cfg msg hs =
     (case msg of
        ClientHello clientHello \<Rightarrow>
          let r = echAcceptOrReject E canAccept p (tc_ech (ss_conn hs)) clientHello False;
              hs = hs\<lparr>ss_conn := (ss_conn hs)\<lparr>tc_ech := er_state r\<rparr>\<rparr> in
          bind_hs (lift_hs (er_alert r) (er_hello r)) (\<lambda>clientHello.
          let clientVersions = (if length (ch_supportedVersions clientHello) = 0 then supportedVersionsFromMax (ch_vers clientHello)
                else ch_supportedVersions clientHello) in
          case mutualVersion cfg False clientVersions of
            None \<Rightarrow> Stop (Some alertProtocolVersion) ''tls: client offered only unsupported versions''
          | Some vers \<Rightarrow> Next (hs\<lparr>ss_clientHello := clientHello\<rparr>, vers))
      | _ \<Rightarrow> Stop (Some alertUnexpectedMessage) ''tls: unexpected message'')"

text \<open>The server up to its answer; \<open>legacy\<close> is the handshake of the versions before TLS 1.3.\<close>

definition serverAnswer ::
    "tls_hashes \<Rightarrow> ('pk, 'sk) hpke_env \<Rightarrow> bool \<Rightarrow> (bytes \<Rightarrow> u16 \<Rightarrow> ECHProviderResult res) \<Rightarrow> (u16 \<Rightarrow> serverHS \<Rightarrow> serverHS hs_res) \<Rightarrow>
     negConfig \<Rightarrow> group_ops \<Rightarrow> bytes res \<Rightarrow> bytes res \<Rightarrow> handshakeMessage \<Rightarrow> handshakeMessage \<Rightarrow> serverHS \<Rightarrow> serverHS hs_res" where
  "serverAnswer H E canAccept p legacy cfg G random hrrRandom msg msg2 hs =
     bind_hs (readClientHello E canAccept p cfg msg hs) (\<lambda>(hs, vers).
     if vers = VersionTLS13 then processClientHello H E canAccept p cfg G random hrrRandom msg2 hs else legacy vers hs)"

section \<open>The client's handshake\<close>

definition downgradeCanaryTLS12 :: bytes where "downgradeCanaryTLS12 = ascii ''DOWNGRD'' @ [1]"
definition downgradeCanaryTLS11 :: bytes where "downgradeCanaryTLS11 = ascii ''DOWNGRD'' @ [0]"

definition pickTLSVersion :: "negConfig \<Rightarrow> serverHelloMsg \<Rightarrow> u16 hs_res" where
  "pickTLSVersion cfg serverHello =
     (let peerVersion = (if sh_supportedVersion serverHello \<noteq> 0 then sh_supportedVersion serverHello else sh_vers serverHello) in
      case mutualVersion cfg True [peerVersion] of
        None \<Rightarrow> Stop (Some alertProtocolVersion) ''tls: server selected unsupported protocol version''
      | Some vers \<Rightarrow> Next vers)"

definition downgraded :: "negConfig \<Rightarrow> u16 \<Rightarrow> bytes \<Rightarrow> bool" where
  "downgraded cfg vers random \<longleftrightarrow>
     (let maxVers = maxSupportedVersion cfg True;
          tls12Downgrade = (drop 24 random = downgradeCanaryTLS12);
          tls11Downgrade = (drop 24 random = downgradeCanaryTLS11) in
      maxVers = VersionTLS13 \<and> vers \<le> VersionTLS12 \<and> (tls12Downgrade \<or> tls11Downgrade) \<or>
      maxVers = VersionTLS12 \<and> vers \<le> VersionTLS11 \<and> tls11Downgrade)"

text \<open>
  The client from the server's first message up to the handshake keys, in its first handshake on the connection: \<open>retry\<close> is what it does
  after a HelloRetryRequest, \<open>legacy\<close> the handshake of the versions before TLS 1.3. Each parser of hellos reads 32 bytes of randomness.
\<close>

definition clientAnswer ::
    "(clientHS \<Rightarrow> clientHS hs_res) \<Rightarrow> (u16 \<Rightarrow> clientHS \<Rightarrow> clientHS hs_res) \<Rightarrow> tls_hashes \<Rightarrow> negConfig \<Rightarrow> tlsConfig \<Rightarrow> handshakeMessage \<Rightarrow> clientHS \<Rightarrow>
     clientHS hs_res" where
  "clientAnswer retry legacy H ncfg cfg msg c =
     (case msg of
        ServerHello sh \<Rightarrow>
          bind_hs (pickTLSVersion ncfg sh) (\<lambda>vers.
          bind_hs (if length (sh_random sh) < 24 then Halt ''slice bounds out of range'' else Next ()) (\<lambda>_.
          bind_hs (guard_hs (\<not> downgraded ncfg vers (sh_random sh)) (Some alertIllegalParameter)
            ''tls: downgrade attempt detected, possibly due to a MitM attack or a broken middlebox'') (\<lambda>_.
          let c = c\<lparr>cl_serverHello := sh\<rparr> in
          if vers \<noteq> VersionTLS13 then legacy vers c
          else bind_hs (startTranscripts c) (\<lambda>c.
            if sh_random sh = helloRetryRequestRandom then retry c else clientKeys H cfg msg c))))
      | _ \<Rightarrow> Stop (Some alertUnexpectedMessage) ''tls: unexpected message'')"

section \<open>The client takes the answer\<close>

text \<open>The client's state when it has taken a ServerHello for the suite: \<open>outer\<close> and \<open>inner\<close> are the bytes of its hellos.\<close>

definition startedClient :: "cipherSuiteTLS13 \<Rightarrow> bytes \<Rightarrow> bytes \<Rightarrow> clientHS \<Rightarrow> clientHS" where
  "startedClient suite outer inner c = c\<lparr>cl_suite := Some suite, cl_conn := (cl_conn c)\<lparr>tc_cipherSuite := cs_id suite\<rparr>,
     cl_hello := fst (ch_marshal (cl_hello c)), cl_transcript := outer,
     cl_helloInner := (if es_offered (tc_ech (cl_conn c)) then map_option (\<lambda>h. fst (ch_marshal h)) (cl_helloInner c) else cl_helloInner c),
     cl_transcriptInner := (if es_offered (tc_ech (cl_conn c)) then inner else cl_transcriptInner c)\<rparr>"

definition sent_hellos :: "clientHS \<Rightarrow> bytes \<Rightarrow> bytes \<Rightarrow> bool" where
  "sent_hellos c outer inner \<longleftrightarrow> snd (ch_marshal (cl_hello c)) = Ok outer \<and>
     (es_offered (tc_ech (cl_conn c)) \<longrightarrow> (\<exists>h. cl_helloInner c = Some h \<and> snd (ch_marshal h) = Ok inner))"

lemma startTranscripts_started:
  assumes "checkServerHelloOrHRR (c\<lparr>cl_serverHello := m\<rparr>) =
      Next (c\<lparr>cl_serverHello := m, cl_suite := Some suite, cl_conn := (cl_conn c)\<lparr>tc_cipherSuite := cs_id suite\<rparr>\<rparr>)"
    and "sent_hellos c outer inner"
  shows "startTranscripts (c\<lparr>cl_serverHello := m\<rparr>) = Next ((startedClient suite outer inner c)\<lparr>cl_serverHello := m\<rparr>)"
  using assms
  by (cases "ch_marshal (cl_hello c)"; cases "ch_marshal (the (cl_helloInner c))")
    (auto simp: startTranscripts_def sent_hellos_def startedClient_def Let_def)

lemma clientKeys_serverHello: "clientKeys H cfg msg (c\<lparr>cl_serverHello := m\<rparr>) = clientKeys H cfg msg c"
  by (simp add: clientKeys_def split: handshakeMessage.splits)

text \<open>The answer of the server, and a client that waits for it.\<close>

definition answer :: "cipherSuiteTLS13 \<Rightarrow> bytes \<Rightarrow> bytes \<Rightarrow> keyShare \<Rightarrow> serverHelloMsg" where
  "answer suite r sid share = emptyServerHello\<lparr>sh_vers := VersionTLS12, sh_supportedVersion := VersionTLS13, sh_random := r,
     sh_sessionId := sid, sh_compressionMethod := compressionNone, sh_cipherSuite := cs_id suite, sh_serverShare := share\<rparr>"

lemma clientAnswer_starts:
  assumes "cipherSuiteTLS13ByID (cs_id suite) = Some suite" and "cs_id suite \<in> set (ch_cipherSuites (cl_hello c))" and "cl_suite c = None"
    and "sent_hellos c outer inner" and "m = (answer suite r (ch_sessionId (cl_hello c)) share)\<lparr>sh_random := sh_random m, sh_raw := sh_raw m\<rparr>"
    and "sh_random m \<noteq> helloRetryRequestRandom" "length (sh_random m) = 32" and "VersionTLS13 \<in> set (supportedVersions ncfg True)"
  shows "clientAnswer retry legacy H ncfg cfg (ServerHello m) c = clientKeys H cfg (ServerHello m) (startedClient suite outer inner c)"
proof -
  have "checkServerHelloOrHRR (c\<lparr>cl_serverHello := m\<rparr>) =
      Next (c\<lparr>cl_serverHello := m, cl_suite := Some suite, cl_conn := (cl_conn c)\<lparr>tc_cipherSuite := cs_id suite\<rparr>\<rparr>)"
    by (subst checkServerHelloOrHRR_answer [of suite, where r = "sh_random m" and raw = "sh_raw m" and share = share])
      (use assms(1-3) in simp_all, subst assms(5), simp add: answer_def emptyServerHello_def)
  note s = startTranscripts_started [OF this assms(4)]
  have "sh_supportedVersion m = VersionTLS13" by (subst assms(5)) (simp add: answer_def)
  then have "pickTLSVersion ncfg m = Next VersionTLS13"
    using assms(8) by (simp add: pickTLSVersion_def mutualVersion_def VersionTLS13_def)
  moreover have "\<not> downgraded ncfg VersionTLS13 (sh_random m)"
    by (simp add: downgraded_def VersionTLS13_def VersionTLS12_def VersionTLS11_def)
  ultimately show ?thesis
    using s assms(6,7) by (simp add: clientAnswer_def clientKeys_serverHello Let_def)
qed


section \<open>The rest of a negotiated handshake\<close>

definition private_opens :: "(u16 \<rightharpoonup> privateShare) \<Rightarrow> keyShare \<Rightarrow> bytes \<Rightarrow> bool" where
  "private_opens secret share key \<longleftrightarrow> (case secret (ks_group share) of
       None \<Rightarrow> False
     | Some (EcdhShare f) \<Rightarrow> f (ks_data share) = Some key
     | Some (KemShare f) \<Rightarrow> f (ks_data share) = Ok key)"

text \<open>The hello that the server uses is the client's: the inner one when ECH is offered.\<close>

definition matching :: "clientHS \<Rightarrow> bytes \<Rightarrow> bytes \<Rightarrow> serverHS \<Rightarrow> bool" where
  "matching c outer inner s \<longleftrightarrow>
     (let ch = ss_clientHello s; off = es_offered (tc_ech (cl_conn c)); used = (if off then the (cl_helloInner c) else cl_hello c) in
      sent_hellos c outer inner \<and> cl_suite c = None \<and> \<not> cl_usingPSK c \<and> ss_earlySecret s = None \<and>
      snd (ch_marshal ch) = Ok (if off then inner else outer) \<and> (off \<longleftrightarrow> echIsInner ch) \<and> (off \<longrightarrow> es_accepted (tc_ech (ss_conn s))) \<and>
      ch_random used = ch_random ch \<and> ch_alpnProtocols used = ch_alpnProtocols ch \<and> ch_serverName used = ch_serverName ch \<and>
      ch_sessionId (cl_hello c) = ch_sessionId ch \<and> set (ch_cipherSuites ch) \<subseteq> set (ch_cipherSuites (cl_hello c)) \<and>
      length (ch_sessionId ch) < 256 \<and> list_all (\<lambda>p. length p < 256) (ch_alpnProtocols ch) \<and>
      (es_accepted (tc_ech (ss_conn s)) \<or> es_retryConfigs (tc_ech (ss_conn s)) = []))"

text \<open>What the server has after a choice without a HelloRetryRequest.\<close>

lemma processClientHello_first:
  assumes "processClientHello H E canAccept p cfg G (Ok r) hrrRandom msg s0 = Next s"
    and "find (\<lambda>ks. ks_group ks = snd (negotiated s)) (clientShares (ss_clientHello s0)) \<noteq> None"
  obtains proto where "s = s0\<lparr>ss_hello := answer (ss_suite s) r (ch_sessionId (ss_clientHello s0)) (sh_serverShare (ss_hello s)),
      ss_suite := ss_suite s, ss_transcript := [], ss_sharedKey := ss_sharedKey s, ss_tlsFlags := ss_tlsFlags s,
      ss_peerTLSFlags := ss_peerTLSFlags s, ss_conn := (ss_conn s0)\<lparr>tc_cipherSuite := cs_id (ss_suite s), tc_clientProtocol := proto,
        tc_serverName := ch_serverName (ss_clientHello s0)\<rparr>\<rparr>"
    and "cipherSuiteTLS13ByID (cs_id (ss_suite s)) = Some (ss_suite s)" and "cs_id (ss_suite s) \<in> set (ch_cipherSuites (ss_clientHello s0))"
    and "negotiateALPN (ng_NextProtos cfg) (ch_alpnProtocols (ss_clientHello s0)) False = Ok proto"
    and "ks_group (sh_serverShare (ss_hello s)) \<noteq> 0"
proof -
  obtain a g share ks t where c: "chooseParameters cfg (Ok r) s0 = Next (a, g, share)" and acc: "acceptShare cfg G g (ks_data ks) t = Next s"
    and "ss_hello t = ss_hello a" "ss_suite t = ss_suite a" "ks \<in> set (clientShares (ss_clientHello t))" "ks_group ks = g"
    and t: "share \<noteq> None \<Longrightarrow> t = a"
    and "share = None \<Longrightarrow> \<exists>raw. checkSecondHello g (ss_clientHello t) ((ss_clientHello s0)\<lparr>ch_raw := raw\<rparr>) = None"
    by (rule processClientHello_Next [OF assms(1)]) (rule that)
  obtain suite where b: "find (\<lambda>i. i \<in> set (ch_cipherSuites (ss_clientHello s0))) (preferenceList cfg (ss_clientHello s0)) = Some (cs_id suite)"
      "cipherSuiteTLS13ByID (cs_id suite) = Some suite" "g \<noteq> 0" "share = find (\<lambda>ks. ks_group ks = g) (clientShares (ss_clientHello s0))"
    and a: "a = s0\<lparr>ss_hello := emptyServerHello\<lparr>sh_vers := VersionTLS12, sh_supportedVersion := VersionTLS13, sh_random := r,
         sh_sessionId := ch_sessionId (ss_clientHello s0), sh_compressionMethod := compressionNone, sh_cipherSuite := cs_id suite\<rparr>,
       ss_suite := suite, ss_transcript := [], ss_conn := (ss_conn s0)\<lparr>tc_cipherSuite := cs_id suite\<rparr>\<rparr>"
    by (rule chooseParameters_Next [OF c]) (use that in auto)
  obtain sh key proto where k: "negotiateALPN (ng_NextProtos cfg) (ch_alpnProtocols (ss_clientHello t)) False = Ok proto"
    and s: "s = t\<lparr>ss_hello := (ss_hello t)\<lparr>sh_serverShare := \<lparr>ks_group = g, ks_data = sh\<rparr>\<rparr>, ss_sharedKey := key,
       ss_tlsFlags := ss_tlsFlags s, ss_peerTLSFlags := ss_peerTLSFlags s,
       ss_conn := (ss_conn t)\<lparr>tc_clientProtocol := proto, tc_serverName := ch_serverName (ss_clientHello t)\<rparr>\<rparr>"
    by (rule acceptShare_Next [OF acc]) (rule that)
  have sh: "sh_serverShare (ss_hello s) = \<lparr>ks_group = g, ks_data = sh\<rparr>" by (subst s, simp)
  with assms(2) have ta: "t = a" by (intro t) (simp add: b(4) negotiated_def)
  have f: "ss_suite s = suite" "ss_sharedKey s = key" by (subst s, simp add: ta a)+
  have "s = s0\<lparr>ss_hello := answer suite r (ch_sessionId (ss_clientHello s0)) \<lparr>ks_group = g, ks_data = sh\<rparr>,
      ss_suite := suite, ss_transcript := [], ss_sharedKey := key, ss_tlsFlags := ss_tlsFlags s,
      ss_peerTLSFlags := ss_peerTLSFlags s, ss_conn := (ss_conn s0)\<lparr>tc_cipherSuite := cs_id suite, tc_clientProtocol := proto,
        tc_serverName := ch_serverName (ss_clientHello s0)\<rparr>\<rparr>"
    by (subst s) (simp add: ta a answer_def)
  moreover have "cs_id suite \<in> set (ch_cipherSuites (ss_clientHello s0))" using b(1) by (auto simp: find_Some_iff)
  ultimately show thesis
    using b(2,3) k by (intro that [of proto]) (simp_all only: f sh, simp_all add: ta a)
qed

lemma hello_ready_answer:
  assumes "ss_hello s = answer suite r sid share" and "length r = 32" and "take 24 r \<noteq> take 24 helloRetryRequestRandom"
    and "length sid < 256" and "ks_group share \<noteq> 0" and "length (ks_data share) < 60000"
    and "length (tc_clientProtocol (ss_conn s)) < 256"
    and "es_accepted (tc_ech (ss_conn s)) \<or> es_retryConfigs (tc_ech (ss_conn s)) = []"
  shows "hello_ready s"
proof -
  have "wf_ee (serverExtensions (ss_conn s))"
    using assms(7,8) by (auto simp: wf_ee_def serverExtensions_def emptyEE_def ee_extensions_def ee_payload_def optExt_def opt_bytes_def
        maxHandshake_def length_encExt)
  then show ?thesis
    using assms(1-6) by (simp add: hello_ready_def Let_def wf_serverHello_def fits_serverHello_def answer_def emptyServerHello_def sh_extensions_def
        optExt_def encKeyShare_def length_encExt sh_encode_def maxHandshake_def VersionTLS13_def opt_bytes_def)
qed

lemma startedClient_fields [simp]:
  "cl_suite (startedClient suite outer inner c) = Some suite" "cl_transcript (startedClient suite outer inner c) = outer"
  "cl_keySharePrivate (startedClient suite outer inner c) = cl_keySharePrivate c" "cl_usingPSK (startedClient suite outer inner c) = cl_usingPSK c"
  "tc_ech (cl_conn (startedClient suite outer inner c)) = tc_ech (cl_conn c)"
  "cl_hello (startedClient suite outer inner c) = fst (ch_marshal (cl_hello c))"
  by (simp_all add: startedClient_def)

lemma marshal_keeps [simp]:
  "ch_random (fst (ch_marshal h)) = ch_random h" "ch_alpnProtocols (fst (ch_marshal h)) = ch_alpnProtocols h"
  "ch_serverName (fst (ch_marshal h)) = ch_serverName h"
  by (subst fst_ch_marshal, simp)+

lemma agreed_started:
  assumes m: "matching c outer inner s0" and s: "ss_clientHello s = ss_clientHello s0" "ss_earlySecret s = ss_earlySecret s0" "ss_transcript s = []"
      "tc_ech (ss_conn s) = tc_ech (ss_conn s0)"
    and suite: "cipherSuiteTLS13ByID (cs_id (ss_suite s)) = Some (ss_suite s)"
    and alpn: "checkALPN (ch_alpnProtocols (ss_clientHello s)) (tc_clientProtocol (ss_conn s)) = None"
    and key: "private_opens (cl_keySharePrivate c) (sh_serverShare (ss_hello s)) (ss_sharedKey s)"
  shows "agreed s (startedClient (ss_suite s) outer inner c) (if es_offered (tc_ech (cl_conn c)) then inner else outer)"
proof -
  have "ss_suite s \<in> set cipherSuitesTLS13" using suite by (simp add: cipherSuiteTLS13ByID_Some)
  moreover have "\<exists>share. cl_keySharePrivate c (ks_group (sh_serverShare (ss_hello s))) = Some share \<and>
      (case share of EcdhShare f \<Rightarrow> f (ks_data (sh_serverShare (ss_hello s))) = Some (ss_sharedKey s)
       | KemShare f \<Rightarrow> f (ks_data (sh_serverShare (ss_hello s))) = Ok (ss_sharedKey s))"
    using key by (auto simp: private_opens_def split: option.splits privateShare.splits)
  moreover have "\<exists>h. cl_helloInner c = Some h" if "es_offered (tc_ech (cl_conn c))"
    using m that by (auto simp: matching_def sent_hellos_def Let_def)
  ultimately show ?thesis
    using m alpn s by (auto simp: agreed_def matching_def Let_def startedClient_def)
qed

text \<open>After a choice that needs no retry, and with a private share that opens the server's share, the handshake completes.\<close>

lemma negotiated_exchange_completes:
  assumes H: "hashes_sized H" and k: "keylog_ok cfgS" "keylog_ok cfgC" and m: "matching c outer inner s0"
    and p: "processClientHello H E canAccept p cfg G (Ok r) hrrRandom msg s0 = Next s"
    and share: "find (\<lambda>ks. ks_group ks = snd (negotiated s)) (clientShares (ss_clientHello s0)) \<noteq> None"
    and key: "private_opens (cl_keySharePrivate c) (sh_serverShare (ss_hello s)) (ss_sharedKey s)"
      "length (ks_data (sh_serverShare (ss_hello s))) < 60000"
    and r: "length r = 32" "take 24 r \<noteq> take 24 helloRetryRequestRandom"
    and opt: "\<not> requestClientCert cfgS s" "\<not> shouldSendSessionTickets cfgS s" and v: "VersionTLS13 \<in> set (supportedVersions ncfg True)"
  shows "\<exists>s' c'. exchange_via (clientAnswer retry legacy H ncfg cfgC) H cfgS cfgC E' ticket ageAdd certs s c = Next (s', c') \<and> connected s' c' \<and>
    (es_offered (tc_ech (cl_conn c')) \<longleftrightarrow> es_offered (tc_ech (cl_conn c))) \<and>
    (es_offered (tc_ech (cl_conn c')) \<longrightarrow> es_accepted (tc_ech (cl_conn c'))) \<and>
    tc_serverName (cl_conn c') = ch_serverName (ss_clientHello s0)"
proof -
  obtain proto where s: "s = s0\<lparr>ss_hello := answer (ss_suite s) r (ch_sessionId (ss_clientHello s0)) (sh_serverShare (ss_hello s)),
      ss_suite := ss_suite s, ss_transcript := [], ss_sharedKey := ss_sharedKey s, ss_tlsFlags := ss_tlsFlags s,
      ss_peerTLSFlags := ss_peerTLSFlags s, ss_conn := (ss_conn s0)\<lparr>tc_cipherSuite := cs_id (ss_suite s), tc_clientProtocol := proto,
        tc_serverName := ch_serverName (ss_clientHello s0)\<rparr>\<rparr>"
    and suite: "cipherSuiteTLS13ByID (cs_id (ss_suite s)) = Some (ss_suite s)" "cs_id (ss_suite s) \<in> set (ch_cipherSuites (ss_clientHello s0))"
    and alpn: "negotiateALPN (ng_NextProtos cfg) (ch_alpnProtocols (ss_clientHello s0)) False = Ok proto"
    and g: "ks_group (sh_serverShare (ss_hello s)) \<noteq> 0"
    by (rule processClientHello_first [OF p share]) (rule that)
  have f: "ss_hello s = answer (ss_suite s) r (ch_sessionId (ss_clientHello s0)) (sh_serverShare (ss_hello s))"
      "ss_clientHello s = ss_clientHello s0" "ss_earlySecret s = ss_earlySecret s0" "ss_transcript s = []"
      "tc_ech (ss_conn s) = tc_ech (ss_conn s0)" "tc_clientProtocol (ss_conn s) = proto"
    by (subst s, simp)+
  note al = negotiateALPN_checked [OF alpn]
  have "length proto < 256"
    using al(2) m by (auto simp: matching_def Let_def list_all_iff find_Some_iff)
  then have ready: "hello_ready s"
    using m g r key(2) by (intro hello_ready_answer [OF f(1)]) (simp_all add: f(5,6) matching_def Let_def)
  let ?c = "startedClient (ss_suite s) outer inner c" and ?chb = "if es_offered (tc_ech (cl_conn c)) then inner else outer"
  have ag: "agreed s ?c ?chb"
    using al(1) by (intro agreed_started [OF m f(2-5) suite(1) _ key(1)]) (simp add: f(2,6))
  have start: "clientAnswer retry legacy H ncfg cfgC (ServerHello h) c = clientKeys H cfgC (ServerHello h) ?c"
    if "h = (ss_hello s)\<lparr>sh_random := sh_random h, sh_raw := sh_raw h\<rparr>" "take 24 (sh_random h) = take 24 (sh_random (ss_hello s))"
      "length (sh_random h) = 32" for h
  proof (rule clientAnswer_starts [OF suite(1)])
    show "h = (answer (ss_suite s) r (ch_sessionId (cl_hello c)) (sh_serverShare (ss_hello s)))\<lparr>sh_random := sh_random h, sh_raw := sh_raw h\<rparr>"
      using that(1) f(1) m by (simp add: matching_def Let_def)
    have "sh_random (ss_hello s) = r" by (subst f(1)) (simp add: answer_def)
    then show "sh_random h \<noteq> helloRetryRequestRandom" using that(2) r(2) by auto
  qed (use m suite(2) that(3) v in \<open>auto simp: matching_def Let_def\<close>)
  obtain s' c' where e: "exchange_via (clientAnswer retry legacy H ncfg cfgC) H cfgS cfgC E' ticket ageAdd certs s c = Next (s', c')" "connected s' c'"
      "es_offered (tc_ech (cl_conn c')) \<longleftrightarrow> echIsInner (ss_clientHello s)"
      "es_offered (tc_ech (cl_conn c')) \<longrightarrow> es_accepted (tc_ech (cl_conn c'))"
      "tc_serverName (cl_conn c') = ch_serverName (if echIsInner (ss_clientHello s) then the (cl_helloInner ?c) else cl_hello ?c)"
    using exchange_completes [OF H k ag ready opt, where start = "clientAnswer retry legacy H ncfg cfgC" and ?c0.0 = c] start by blast
  have "\<exists>h. cl_helloInner c = Some h" if "es_offered (tc_ech (cl_conn c))"
    using m that by (auto simp: matching_def sent_hellos_def Let_def)
  then have "tc_serverName (cl_conn c') = ch_serverName (ss_clientHello s0)" "es_offered (tc_ech (cl_conn c)) = echIsInner (ss_clientHello s)"
    using m e(5) f(2) by (auto simp: matching_def Let_def startedClient_def split: if_splits)
  with e f(2) show ?thesis by blast
qed

end
