(* ===== verification/Kyber_Field.thy ===== *)
theory Kyber_Field
  imports Prelude
begin

text \<open>
  Arithmetic modulo q = 3329 of Kyber and ML-KEM: \<^verbatim>\<open>circl/pke/kyber/internal/common/field.go\<close>. The
  16- and 32-bit integers of the code are integers with every conversion and every operation that can
  wrap written out. The theorems give the value and the range of every reduction, so that no wrap-around
  happens inside the documented bounds.
\<close>

definition kyber_Q :: int where "kyber_Q = 3329"

definition kyber_N :: nat where "kyber_N = 256"

definition montReduce :: "int \<Rightarrow> int" where
  "montReduce x = (let m = int16 (int32 (x * 62209)) in
     int16 (shr (uint32 (int32 (x - int32 (m * kyber_Q)))) 16))"

definition toMont :: "int \<Rightarrow> int" where
  "toMont x = montReduce (int32 (x * 1353))"

definition barrettReduce :: "int \<Rightarrow> int" where
  "barrettReduce x = int16 (x - int16 (int16 (shr (int32 (x * 20159)) 26) * kyber_Q))"

definition csubq :: "int \<Rightarrow> int" where
  "csubq x = (let x = int16 (x - kyber_Q) in int16 (x + (shr x 15 AND kyber_Q)))"

definition kcong :: "int \<Rightarrow> int \<Rightarrow> bool" where
  "kcong x y \<longleftrightarrow> x mod 3329 = y mod 3329"

section \<open>Congruence modulo q\<close>

lemma kcong_refl [simp, intro]: "kcong x x"
  by (simp add: kcong_def)

lemma kcong_sym: "kcong x y \<Longrightarrow> kcong y x"
  by (simp add: kcong_def)

lemma kcong_trans [trans]: "kcong x y \<Longrightarrow> kcong y z \<Longrightarrow> kcong x z"
  by (simp add: kcong_def)

lemma kcong_add: "kcong a b \<Longrightarrow> kcong c d \<Longrightarrow> kcong (a + c) (b + d)"
  unfolding kcong_def by (rule mod_add_cong)

lemma kcong_diff: "kcong a b \<Longrightarrow> kcong c d \<Longrightarrow> kcong (a - c) (b - d)"
  unfolding kcong_def by (rule mod_diff_cong)

lemma kcong_mult: "kcong a b \<Longrightarrow> kcong c d \<Longrightarrow> kcong (a * c) (b * d)"
  unfolding kcong_def by (rule mod_mult_cong)

lemma kcong_minus: "kcong a b \<Longrightarrow> kcong (- a) (- b)"
  unfolding kcong_def by (metis mod_minus_eq)

lemma kcong_power: "kcong a b \<Longrightarrow> kcong (a ^ n) (b ^ n)"
  by (induction n) (simp_all add: kcong_mult)

lemma kcong_sum: "(\<And>i. i \<in> A \<Longrightarrow> kcong (f i) (g i)) \<Longrightarrow> kcong (sum f A) (sum g A)"
  by (induction A rule: infinite_finite_induct) (simp_all add: kcong_add)

lemma kcong_iff: "kcong x y \<longleftrightarrow> 3329 dvd x - y"
  by (simp add: kcong_def mod_eq_dvd_iff)

lemmas kcong_intros = kcong_add kcong_diff kcong_mult kcong_minus kcong_power

text \<open>The Montgomery radix 2^16 and its inverse 169 modulo q.\<close>

lemma kcong_cancel_R: "kcong (x * 65536) (y * 65536) \<Longrightarrow> kcong x y"
proof -
  assume "kcong (x * 65536) (y * 65536)"
  then have "kcong (x * 65536 * 169) (y * 65536 * 169)"
    by (rule kcong_mult [OF _ kcong_refl])
  moreover have "kcong (z * 65536 * 169) z" for z
  proof -
    have "z * 65536 * 169 - z = 3329 * (z * 3327)" by simp
    then show ?thesis unfolding kcong_iff by (metis dvd_triv_left)
  qed
  ultimately show "kcong x y"
    by (meson kcong_sym kcong_trans)
qed

section \<open>Reductions\<close>

lemma montReduce_exact:
  assumes "- 109084672 \<le> x" and "x < 109084672"
  shows "65536 * montReduce x = x - int16 (int32 (x * 62209)) * 3329"
proof -
  define m where "m = int16 (int32 (x * 62209))"
  have mb: "- 32768 \<le> m" "m < 32768"
    by (simp_all add: m_def int16_bounds)
  have "m mod 65536 = int32 (x * 62209) mod 65536"
    by (simp add: m_def int16_mod)
  also have "int32 (x * 62209) mod 65536 = (int32 (x * 62209) mod 4294967296) mod 65536"
    by (simp add: mod_mod_cancel)
  also have "\<dots> = (x * 62209) mod 65536"
    unfolding int32_mod by (simp add: mod_mod_cancel)
  finally have "(m * 3329) mod 65536 = (x * 62209 * 3329) mod 65536"
    by (metis mod_mult_left_eq)
  also have "x * 62209 * 3329 = x + 65536 * (x * 3160)"
    by simp
  also have "\<dots> mod 65536 = x mod 65536"
    by (rule mod_mult_self2)
  finally have "65536 dvd x - m * 3329"
    by (metis mod_eq_dvd_iff)
  then obtain y where y: "x - m * 3329 = 65536 * y" ..
  have yb: "- 3329 < y" "y < 3329"
    using y mb assms by linarith+
  have "montReduce x = int16 (shr (uint32 (int32 (x - int32 (m * 3329)))) 16)"
    by (simp add: montReduce_def m_def kyber_Q_def Let_def)
  also have "int32 (m * 3329) = m * 3329"
    using mb by (intro int32_id) linarith+
  also have "x - m * 3329 = 65536 * y"
    by (rule y)
  also have "int32 (65536 * y) = 65536 * y"
    using yb by (intro int32_id) linarith+
  also have "uint32 (65536 * y) = 65536 * (y mod 65536)"
    using mult_mod_right [of 65536 y 65536] by (simp add: uint32_def)
  also have "shr (65536 * (y mod 65536)) 16 = y mod 65536"
    by (simp add: shr_def)
  also have "int16 (y mod 65536) = int16 y"
    by (rule int16_cong) simp
  also have "\<dots> = y"
    using yb by (intro int16_id) linarith+
  finally show ?thesis
    using y by (simp add: m_def)
qed

lemma montReduce_bounds:
  assumes "- 109084672 \<le> x" and "x < 109084672"
  shows "- 3329 < montReduce x" and "montReduce x < 3329"
  using montReduce_exact [OF assms] int16_bounds [of "int32 (x * 62209)"] assms by linarith+

lemma montReduce_cong:
  assumes "- 109084672 \<le> x" and "x < 109084672"
  shows "kcong (montReduce x * 65536) x"
proof -
  have "x - montReduce x * 65536 = 3329 * int16 (int32 (x * 62209))"
    using montReduce_exact [OF assms] by simp
  then show ?thesis
    by (metis kcong_iff kcong_sym dvd_triv_left)
qed

lemma montReduce_cong_169:
  assumes "- 109084672 \<le> x" and "x < 109084672"
  shows "kcong (montReduce x) (169 * x)"
proof (rule kcong_cancel_R)
  have "kcong (169 * x * 65536) x"
  proof -
    have "169 * x * 65536 - x = 3329 * (x * 3327)" by simp
    then show ?thesis unfolding kcong_iff by (metis dvd_triv_left)
  qed
  with montReduce_cong [OF assms] show "kcong (montReduce x * 65536) (169 * x * 65536)"
    by (meson kcong_sym kcong_trans)
qed

lemma barrettReduce_spec:
  assumes "- 32768 \<le> x" and "x < 32768"
  shows "barrettReduce x = (if x < 0 \<and> 3329 dvd x then 3329 else x mod 3329)"
proof -
  define k where "k = x div 3329"
  define r where "r = x mod 3329"
  have x: "x = 3329 * k + r" "0 \<le> r" "r < 3329"
    by (simp_all add: k_def r_def)
  have k: "- 10 \<le> k" "k \<le> 9"
    using x assms by linarith+
  have neg: "x < 0 \<and> 3329 dvd x \<longleftrightarrow> k < 0 \<and> r = 0"
    using x by (auto simp: r_def dvd_eq_mod_eq_0)
  let ?e = "x * 20159 div 67108864"
  have e: "?e = (if k < 0 \<and> r = 0 then k - 1 else k)"
  proof (cases "k < 0 \<and> r = 0")
    case True
    then have "k < 0" "r = 0" by simp_all
    then have "?e = k - 1"
      using x k by (intro div_eqI) simp_all
    with True show ?thesis by simp
  next
    case False
    then have kr: "0 \<le> k \<or> 1 \<le> r"
      using x(2) by auto
    have "67108864 * k \<le> x * 20159" "x * 20159 < 67108864 * (k + 1)"
      using kr x k by auto
    then have "?e = k"
      by (intro div_eqI) simp_all
    with False show ?thesis by simp
  qed
  have i: "int32 (x * 20159) = x * 20159"
    using assms by (intro int32_id) linarith+
  have b: "barrettReduce x = int16 (x - int16 (int16 ?e * 3329))"
    by (simp add: barrettReduce_def i shr_def kyber_Q_def)
  have "int16 ?e = ?e"
    unfolding e using k by (intro int16_id) auto
  then have "barrettReduce x = int16 (x - int16 (?e * 3329))"
    using b by simp
  also have "int16 (x - int16 (?e * 3329)) = int16 (x - ?e * 3329)"
    by (rule int16_cong) (metis int16_mod mod_diff_right_eq)
  also have "\<dots> = x - ?e * 3329"
    unfolding e using x k by (intro int16_id) auto
  also have "\<dots> = (if k < 0 \<and> r = 0 then 3329 else r)"
    unfolding e using x(1) by auto
  finally show ?thesis
    unfolding neg by (simp add: r_def)
qed

lemma csubq_spec:
  assumes "- 29439 \<le> x" and "x < 32768"
  shows "csubq x = (if x < 3329 then x else x - 3329)"
proof -
  have i: "int16 (x - 3329) = x - 3329"
    using assms by (intro int16_id) linarith+
  show ?thesis
  proof (cases "x < 3329")
    case True
    then have "shr (x - 3329) 15 = - 1"
      using assms by (auto simp: shr_def intro!: div_eqI)
    with True i assms show ?thesis
      by (simp add: csubq_def kyber_Q_def Let_def int16_id)
  next
    case False
    then have "shr (x - 3329) 15 = 0"
      using assms by (simp add: shr_def)
    with False i assms show ?thesis
      by (simp add: csubq_def kyber_Q_def Let_def int16_id)
  qed
qed

lemma toMont_bounds_cong:
  assumes "- 32768 \<le> x" and "x < 32768"
  shows "\<bar>toMont x\<bar> < 3329 \<and> kcong (toMont x) (x * 65536)"
proof -
  have i: "int32 (x * 1353) = x * 1353"
    using assms by (intro int32_id) linarith+
  have b: "- 109084672 \<le> x * 1353" "x * 1353 < 109084672"
    using assms by linarith+
  have "kcong (toMont x * 65536) (x * 65536 * 65536)"
  proof -
    have "x * 1353 - x * 65536 * 65536 = 3329 * (x * - 1290167)" by simp
    then have "kcong (x * 1353) (x * 65536 * 65536)"
      unfolding kcong_iff by (metis dvd_triv_left)
    with montReduce_cong [OF b] show ?thesis
      unfolding toMont_def i by (rule kcong_trans)
  qed
  then have "kcong (toMont x) (x * 65536)"
    by (rule kcong_cancel_R)
  with montReduce_bounds [OF b] show ?thesis
    by (simp add: toMont_def i abs_less_iff)
qed

text \<open>C36: Montgomery reduction: for an argument between -2^15 q and 2^15 q, montReduce returns a value
  strictly between -q and q that is the argument divided by 2^16 modulo q; no intermediate 32-bit
  product or difference wraps to a different residue.\<close>

theorem montReduce_correct:
  assumes "- 109084672 \<le> x" and "x < 109084672"
  shows "- 3329 < montReduce x \<and> montReduce x < 3329 \<and> (montReduce x * 65536) mod 3329 = x mod 3329"
  using montReduce_bounds [OF assms] montReduce_cong [OF assms] by (simp add: kcong_def)

theorem montReduce_correct_witness:
  "- 3329 < montReduce (- 109084672) \<and> montReduce (- 109084672) < 3329 \<and>
   (montReduce (- 109084672) * 65536) mod 3329 = - 109084672 mod 3329"
  by (rule montReduce_correct) simp_all

end
