(* ===== verification/Kyber_NTT.thy ===== *)
theory Kyber_NTT
  imports Kyber_Field
begin

text \<open>
  The number-theoretic transform of Kyber and ML-KEM: \<^verbatim>\<open>circl/pke/kyber/internal/common/ntt.go\<close> and the
  products of transformed polynomials of \<^verbatim>\<open>poly.go\<close> (the generic code; the assembly of
  \<^verbatim>\<open>amd64.s\<close> is not modelled). A \<^verbatim>\<open>Poly\<close> is a list of 256 integers in the 16-bit range. The index
  sequences of Go's loops are lists (\<open>go_range\<close>, \<open>halvings\<close>, \<open>doublings\<close>) over which the loop bodies are
  folded.

  The reference is the transform by evaluation: the even and the odd part of the polynomial at the
  128 roots of \<open>y^128 + 1\<close> modulo q. The main facts: \<open>nttGeneric\<close> computes it, \<open>invNTTGeneric\<close> inverts it up
  to the Montgomery factor, no 16-bit operation wraps, and multiplication of transformed polynomials is
  multiplication modulo \<open>X^256 + 1\<close>.
\<close>

section \<open>Definitions\<close>

type_synonym Poly = "int list"

function go_range :: "nat \<Rightarrow> nat \<Rightarrow> nat \<Rightarrow> nat list" where
  "go_range a b s = (if a < b \<and> 0 < s then a # go_range (a + s) b s else [])"
  by pat_completeness auto
termination by (relation "measure (\<lambda>(a, b, s). b - a)") auto

declare go_range.simps [simp del]

text \<open>The loop indices of \<^verbatim>\<open>for l := n; l > 1; l >>= 1\<close> and of \<^verbatim>\<open>for l := n; l < b; l <<= 1\<close>.\<close>

fun halvings :: "nat \<Rightarrow> nat list" where
  "halvings l = (if 1 < l then l # halvings (l div 2) else [])"

declare halvings.simps [simp del]

function doublings :: "nat \<Rightarrow> nat \<Rightarrow> nat list" where
  "doublings l b = (if 0 < l \<and> l < b then l # doublings (l * 2) b else [])"
  by pat_completeness auto
termination by (relation "measure (\<lambda>(l, b). b - l)") auto

declare doublings.simps [simp del]

definition Zetas :: "int list" where
  "Zetas = [
    2285, 2571, 2970, 1812, 1493, 1422, 287, 202, 3158, 622, 1577, 182,
    962, 2127, 1855, 1468, 573, 2004, 264, 383, 2500, 1458, 1727, 3199,
    2648, 1017, 732, 608, 1787, 411, 3124, 1758, 1223, 652, 2777, 1015,
    2036, 1491, 3047, 1785, 516, 3321, 3009, 2663, 1711, 2167, 126,
    1469, 2476, 3239, 3058, 830, 107, 1908, 3082, 2378, 2931, 961, 1821,
    2604, 448, 2264, 677, 2054, 2226, 430, 555, 843, 2078, 871, 1550,
    105, 422, 587, 177, 3094, 3038, 2869, 1574, 1653, 3083, 778, 1159,
    3182, 2552, 1483, 2727, 1119, 1739, 644, 2457, 349, 418, 329, 3173,
    3254, 817, 1097, 603, 610, 1322, 2044, 1864, 384, 2114, 3193, 1218,
    1994, 2455, 220, 2142, 1670, 2144, 1799, 2051, 794, 1819, 2475,
    2459, 478, 3221, 3021, 996, 991, 958, 1869, 1522, 1628]"

definition InvNTTReductions :: "int list" where
  "InvNTTReductions = [
    -1, -1,
    16, 17, 48, 49, 80, 81, 112, 113, 144, 145, 176, 177, 208, 209, 240,
    241, -1,
    0, 1, 32, 33, 34, 35, 64, 65, 96, 97, 98, 99, 128, 129, 160, 161, 162, 163,
    192, 193, 224, 225, 226, 227, -1,
    2, 3, 66, 67, 68, 69, 70, 71, 130, 131, 194, 195, 196, 197, 198,
    199, -1,
    4, 5, 6, 7, 132, 133, 134, 135, 136, 137, 138, 139, 140, 141, 142,
    143, -1,
    -1]"

definition butterfly :: "int \<Rightarrow> nat \<Rightarrow> nat \<Rightarrow> Poly \<Rightarrow> Poly" where
  "butterfly zeta l j p =
     (let t = montReduce (int32 (zeta * p ! (j + l)));
          p = p[j + l := int16 (p ! j - t)]
      in p[j := int16 (p ! j + t)])"

definition nttGroup :: "nat \<Rightarrow> nat \<Rightarrow> nat \<times> Poly \<Rightarrow> nat \<times> Poly" where
  "nttGroup l offset s = (case s of (k, p) \<Rightarrow>
     let k = k + 1; zeta = Zetas ! k in (k, fold (butterfly zeta l) [offset..<offset + l] p))"

definition nttLayer :: "nat \<Rightarrow> nat \<times> Poly \<Rightarrow> nat \<times> Poly" where
  "nttLayer l s = fold (nttGroup l) (go_range 0 (kyber_N - l) (2 * l)) s"

definition nttGeneric :: "Poly \<Rightarrow> Poly" where
  "nttGeneric p = snd (fold nttLayer (halvings (kyber_N div 2)) (0, p))"

definition invButterfly :: "int \<Rightarrow> nat \<Rightarrow> nat \<Rightarrow> Poly \<Rightarrow> Poly" where
  "invButterfly minZeta l j p =
     (let t = int16 (p ! (j + l) - p ! j);
          p = p[j := int16 (p ! j + p ! (j + l))]
      in p[j + l := montReduce (int32 (minZeta * t))])"

definition invNTTGroup :: "nat \<Rightarrow> nat \<Rightarrow> int \<times> Poly \<Rightarrow> int \<times> Poly" where
  "invNTTGroup l offset s = (case s of (k, p) \<Rightarrow>
     let minZeta = Zetas ! nat k in (k - 1, fold (invButterfly minZeta l) [offset..<offset + l] p))"

text \<open>
  The unbounded loop that reads \<^verbatim>\<open>InvNTTReductions\<close> up to the next negative entry, over the rest of
  the table: reading beyond its end is an index panic, and is never reached.
\<close>

fun reduceLoop :: "int list \<Rightarrow> Poly \<Rightarrow> (int list \<times> Poly) option" where
  "reduceLoop [] p = None"
| "reduceLoop (i # is) p =
     (if i < 0 then Some (is, p) else reduceLoop is (p[nat i := barrettReduce (p ! nat i)]))"

fun invNTTLoop :: "nat list \<Rightarrow> int \<Rightarrow> int list \<Rightarrow> Poly \<Rightarrow> Poly option" where
  "invNTTLoop [] k rs p = Some p"
| "invNTTLoop (l # ls) k rs p =
     (case fold (invNTTGroup l) (go_range 0 (kyber_N - l) (2 * l)) (k, p) of (k', p') \<Rightarrow>
      case reduceLoop rs p' of None \<Rightarrow> None
      | Some (rs', p'') \<Rightarrow> invNTTLoop ls k' rs' p'')"

definition invNTTGeneric :: "Poly \<Rightarrow> Poly option" where
  "invNTTGeneric p =
     (case invNTTLoop (doublings 2 kyber_N) 127 InvNTTReductions p of None \<Rightarrow> None
      | Some p' \<Rightarrow> Some (map (\<lambda>x. montReduce (int32 (1441 * x))) p'))"

definition mulHatStep :: "Poly \<Rightarrow> Poly \<Rightarrow> nat \<Rightarrow> nat \<times> Poly \<Rightarrow> nat \<times> Poly" where
  "mulHatStep a b i s = (case s of (k, p) \<Rightarrow>
     let zeta = Zetas ! k;
         p0 = montReduce (int32 (a ! (i + 1) * b ! (i + 1)));
         p0 = montReduce (int32 (p0 * zeta));
         p0 = int16 (p0 + montReduce (int32 (a ! i * b ! i)));
         p1 = montReduce (int32 (a ! i * b ! (i + 1)));
         p1 = int16 (p1 + montReduce (int32 (a ! (i + 1) * b ! i)));
         p = p[i := p0];
         p = p[i + 1 := p1];
         p2 = montReduce (int32 (a ! (i + 3) * b ! (i + 3)));
         p2 = int16 (- montReduce (int32 (p2 * zeta)));
         p2 = int16 (p2 + montReduce (int32 (a ! (i + 2) * b ! (i + 2))));
         p3 = montReduce (int32 (a ! (i + 2) * b ! (i + 3)));
         p3 = int16 (p3 + montReduce (int32 (a ! (i + 3) * b ! (i + 2))));
         p = p[i + 2 := p2];
         p = p[i + 3 := p3]
     in (k + 1, p))"

definition mulHatGeneric :: "Poly \<Rightarrow> Poly \<Rightarrow> Poly \<Rightarrow> Poly" where
  "mulHatGeneric p a b = snd (fold (mulHatStep a b) (go_range 0 kyber_N 4) (64, p))"

section \<open>Index sequences\<close>

lemma go_range_offsets: "0 < s \<Longrightarrow> b \<le> a + n * s \<Longrightarrow> a + n * s < b + s \<Longrightarrow> go_range a b s = map (\<lambda>g. a + g * s) [0..<n]"
proof (induction n arbitrary: a)
  case 0
  then show ?case by (simp add: go_range.simps)
next
  case (Suc n)
  have lt: "a < b"
    using Suc.prems by simp
  have IH: "go_range (a + s) b s = map (\<lambda>g. (a + s) + g * s) [0..<n]"
    using Suc.prems by (intro Suc.IH) (simp_all add: algebra_simps)
  have "map (\<lambda>g. a + g * s) [0..<Suc n] = a # map (\<lambda>g. a + Suc g * s) [0..<n]"
    by (simp only: map_upt_Suc mult_0 add_0_right)
  also have "\<dots> = a # go_range (a + s) b s"
    unfolding IH by (simp add: algebra_simps)
  finally show ?case
    using lt Suc.prems(1) by (simp add: go_range.simps [of a])
qed

lemma layer_offsets: "0 < l \<Longrightarrow> 2 * l * M = 256 \<Longrightarrow> go_range 0 (kyber_N - l) (2 * l) = map (\<lambda>g. g * (2 * l)) [0..<M]"
  using go_range_offsets [of "2 * l" "256 - l" 0 M] by (simp add: kyber_N_def mult.commute)

lemma halvings_128: "halvings (kyber_N div 2) = [128, 64, 32, 16, 8, 4, 2]"
  by (simp add: kyber_N_def halvings.simps)

lemma doublings_2: "doublings 2 kyber_N = [2, 4, 8, 16, 32, 64, 128]"
  by (simp add: kyber_N_def doublings.simps)

section \<open>Butterflies\<close>

text \<open>A polynomial whose coefficients are bounded by \<open>B\<close>.\<close>

definition bounded :: "int \<Rightarrow> Poly \<Rightarrow> bool" where
  "bounded B p \<longleftrightarrow> length p = 256 \<and> (\<forall>i < 256. \<bar>p ! i\<bar> \<le> B)"

lemma montReduce_mult:
  assumes "\<bar>z\<bar> \<le> 3328" and "\<bar>x\<bar> \<le> 32768"
  shows "int32 (z * x) = z * x" and "\<bar>montReduce (z * x)\<bar> \<le> 3328" and "kcong (montReduce (z * x)) (169 * z * x)"
proof -
  have "\<bar>z * x\<bar> \<le> 3328 * 32768"
    unfolding abs_mult using assms by (intro mult_mono) simp_all
  then have b: "- 109084672 \<le> z * x" "z * x < 109084672"
    by linarith+
  show "int32 (z * x) = z * x"
    using b by (intro int32_id) linarith+
  show "\<bar>montReduce (z * x)\<bar> \<le> 3328"
    using montReduce_bounds [OF b] by linarith
  show "kcong (montReduce (z * x)) (169 * z * x)"
    using montReduce_cong_169 [OF b] by (simp add: mult.assoc)
qed

lemma butterflies_length [simp]: "length (fold (butterfly z l) js p) = length p"
  by (induction js arbitrary: p) (simp_all add: butterfly_def Let_def)

lemma butterflies_nth:
  assumes "n \<le> l" and "off + 2 * l \<le> length p" and "i < length p"
  shows "fold (butterfly z l) [off..<off + n] p ! i =
    (if off \<le> i \<and> i < off + n then int16 (p ! i + montReduce (int32 (z * p ! (i + l))))
     else if off + l \<le> i \<and> i < off + l + n then int16 (p ! (i - l) - montReduce (int32 (z * p ! i)))
     else p ! i)"
  using assms
proof (induction n arbitrary: i)
  case 0
  then show ?case by simp
next
  case (Suc n)
  let ?q = "fold (butterfly z l) [off..<off + n] p"
  have q: "?q ! (off + n + l) = p ! (off + n + l)" "?q ! (off + n) = p ! (off + n)"
    using Suc.prems by (subst Suc.IH; simp)+
  have "fold (butterfly z l) [off..<off + Suc n] p = butterfly z l (off + n) ?q"
    by simp
  also have "\<dots> ! i = (if i = off + n then int16 (p ! i + montReduce (int32 (z * p ! (i + l))))
      else if i = off + n + l then int16 (p ! (i - l) - montReduce (int32 (z * p ! i))) else ?q ! i)"
    using Suc.prems q by (auto simp: butterfly_def Let_def nth_list_update)
  also have "\<dots> = (if off \<le> i \<and> i < off + Suc n then int16 (p ! i + montReduce (int32 (z * p ! (i + l))))
     else if off + l \<le> i \<and> i < off + l + Suc n then int16 (p ! (i - l) - montReduce (int32 (z * p ! i)))
     else p ! i)"
    using Suc.prems by (subst Suc.IH) auto
  finally show ?case .
qed

definition nttLayer_at :: "nat \<Rightarrow> nat \<Rightarrow> Poly \<Rightarrow> nat \<Rightarrow> int" where
  "nttLayer_at l k p i = (let z = Zetas ! (k + 1 + i div (2 * l)) in
     if i mod (2 * l) < l then int16 (p ! i + montReduce (int32 (z * p ! (i + l))))
     else int16 (p ! (i - l) - montReduce (int32 (z * p ! i))))"

lemma group_index:
  assumes "(0::nat) < l" and "g * (2 * l) \<le> i" and "i < g * (2 * l) + 2 * l"
  shows "i div (2 * l) = g" and "i mod (2 * l) = i - g * (2 * l)"
proof -
  show g: "i div (2 * l) = g"
    using assms by (intro div_nat_eqI) (simp_all add: mult.commute)
  show "i mod (2 * l) = i - g * (2 * l)"
    using g by (simp add: modulo_nat_def mult.commute)
qed

lemma nttGroup_fold:
  assumes l: "0 < l" and p: "length p = 256"
  shows "2 * l * G \<le> 256 \<Longrightarrow> \<exists>p'. fold (nttGroup l) (map (\<lambda>g. g * (2 * l)) [0..<G]) (k, p) = (k + G, p') \<and> length p' = 256 \<and>
    (\<forall>i < 256. p' ! i = (if i < G * (2 * l) then nttLayer_at l k p i else p ! i))"
proof (induction G)
  case 0
  with p show ?case by simp
next
  case (Suc G)
  have "2 * l * G \<le> 2 * l * Suc G"
    by simp
  then have "2 * l * G \<le> 256"
    using Suc.prems by (rule order_trans)
  with Suc.IH obtain p' where p': "fold (nttGroup l) (map (\<lambda>g. g * (2 * l)) [0..<G]) (k, p) = (k + G, p')" "length p' = 256"
      "\<forall>i < 256. p' ! i = (if i < G * (2 * l) then nttLayer_at l k p i else p ! i)"
    by blast
  let ?o = "G * (2 * l)"
  let ?z = "Zetas ! (k + G + 1)"
  let ?p = "fold (butterfly ?z l) [?o..<?o + l] p'"
  have ob: "?o + 2 * l \<le> length p'"
    using Suc.prems p'(2) by (simp add: mult.commute mult.left_commute)
  have "fold (nttGroup l) (map (\<lambda>g. g * (2 * l)) [0..<Suc G]) (k, p) = (k + Suc G, ?p)"
    using p'(1) by (simp add: nttGroup_def Let_def)
  moreover have "?p ! i = (if i < Suc G * (2 * l) then nttLayer_at l k p i else p ! i)" if i: "i < 256" for i
  proof -
    note n = butterflies_nth [OF le_refl ob, of i ?z]
    consider "i < ?o" | "?o \<le> i" "i < ?o + l" | "?o + l \<le> i" "i < ?o + 2 * l" | "?o + 2 * l \<le> i"
      by linarith
    then show ?thesis
    proof cases
      case 1
      then show ?thesis using n i p'(2,3) by simp
    next
      case 2
      then have "i div (2 * l) = G" "i mod (2 * l) < l"
        using group_index [OF l, of G i] by auto
      then show ?thesis using n 2 i p'(2,3) ob by (simp add: nttLayer_at_def add.commute [of G])
    next
      case 3
      then have "i div (2 * l) = G" "\<not> i mod (2 * l) < l" "\<not> i - l < ?o"
        using group_index [OF l, of G i] by auto
      then show ?thesis using n 3 i p'(2,3) ob by (simp add: nttLayer_at_def add.commute [of G])
    next
      case 4
      then show ?thesis using n i p'(2,3) by simp
    qed
  qed
  ultimately show ?case
    using p'(2) by auto
qed

lemma nttLayer_spec:
  assumes "0 < l" and "2 * l * M = 256" and "length p = 256"
  obtains p' where "nttLayer l (k, p) = (k + M, p')" and "length p' = 256" and "\<forall>i < 256. p' ! i = nttLayer_at l k p i"
proof -
  have "M * (2 * l) = 256"
    using assms(2) by (simp add: mult.commute)
  with nttGroup_fold [OF assms(1,3), of M k] assms(2) that show ?thesis
    unfolding nttLayer_def layer_offsets [OF assms(1,2)] by auto
qed


section \<open>The roots\<close>

text \<open>
  \<open>root k\<close> is the table entry out of Montgomery form. The transform splits \<open>X^256 + 1\<close> along a binary tree
  whose nodes are numbered as in a heap: node \<open>k\<close> stands for \<open>X^n - w\<close> with \<open>w = nodeW k\<close>, and splits
  into its children with \<open>w = \<plusminus> root k\<close>.
\<close>

definition root :: "nat \<Rightarrow> int" where
  "root k = 169 * Zetas ! k"

definition nodeW :: "nat \<Rightarrow> int" where
  "nodeW k = (if k \<le> 1 then - 1 else if even k then root (k div 2) else - root (k div 2))"

lemma zetas_checked:
  "list_all (\<lambda>k. 0 \<le> Zetas ! k \<and> Zetas ! k \<le> 3328 \<and> kcong (root k * root k) (nodeW k)) [1..<128]"
  by code_simp

lemma zetas_bound: "1 \<le> k \<Longrightarrow> k < 128 \<Longrightarrow> \<bar>Zetas ! k\<bar> \<le> 3328"
  and root_sq: "1 \<le> k \<Longrightarrow> k < 128 \<Longrightarrow> kcong (root k * root k) (nodeW k)"
  using zetas_checked by (auto simp: list_all_iff)

lemma nodeW_children: "1 \<le> k \<Longrightarrow> nodeW (2 * k) = root k" "1 \<le> k \<Longrightarrow> nodeW (2 * k + 1) = - root k"
  by (simp_all add: nodeW_def)

section \<open>The forward transform\<close>

text \<open>Coefficient \<open>r\<close> of the remainder modulo \<open>X^l - w\<close>, where \<open>M * l = 256\<close>.\<close>

definition remW :: "Poly \<Rightarrow> nat \<Rightarrow> nat \<Rightarrow> int \<Rightarrow> nat \<Rightarrow> int" where
  "remW a l M w r = (\<Sum>m<M. a ! (m * l + r) * w ^ m)"

definition transformed :: "Poly \<Rightarrow> nat \<Rightarrow> nat \<Rightarrow> Poly \<Rightarrow> bool" where
  "transformed a l M p \<longleftrightarrow> (\<forall>b < M. \<forall>r < l. kcong (p ! (b * l + r)) (remW a l M (nodeW (M + b)) r))"

lemma sum_even_odd: "(\<Sum>m<2 * M. f m) = (\<Sum>m<M. f (2 * m) + f (2 * m + 1 :: nat) :: int)"
  by (induction M) (simp_all add: algebra_simps)

lemma remW_split:
  assumes "kcong (w' * w') w"
  shows "kcong (remW a l (2 * M) w' r) (remW a (2 * l) M w r + w' * remW a (2 * l) M w (l + r))"
proof -
  have pw: "kcong (w' ^ (2 * m)) (w ^ m)" for m
    using kcong_power [OF assms, of m] by (simp add: power_mult power2_eq_square)
  have idx: "2 * m * l + r = m * (2 * l) + r" "(2 * m + 1) * l + r = m * (2 * l) + (l + r)" for m
    by (simp_all add: algebra_simps)
  have e1: "remW a l (2 * M) w' r =
      (\<Sum>m<M. a ! (m * (2 * l) + r) * w' ^ (2 * m) + w' * (a ! (m * (2 * l) + (l + r)) * w' ^ (2 * m)))"
    unfolding remW_def sum_even_odd idx by (rule sum.cong [OF refl]) (simp add: mult.left_commute)
  have c: "kcong (\<Sum>m<M. a ! (m * (2 * l) + r) * w' ^ (2 * m) + w' * (a ! (m * (2 * l) + (l + r)) * w' ^ (2 * m)))
      (\<Sum>m<M. a ! (m * (2 * l) + r) * w ^ m + w' * (a ! (m * (2 * l) + (l + r)) * w ^ m))"
    by (rule kcong_sum, rule kcong_add, (rule kcong_mult, rule kcong_refl)?, rule pw,
        (rule kcong_mult, rule kcong_refl)+, rule pw)
  have e2: "remW a (2 * l) M w r + w' * remW a (2 * l) M w (l + r) =
      (\<Sum>m<M. a ! (m * (2 * l) + r) * w ^ m + w' * (a ! (m * (2 * l) + (l + r)) * w ^ m))"
    by (simp add: remW_def sum.distrib sum_distrib_left)
  show ?thesis
    unfolding e1 e2 by (rule c)
qed

lemma nttLayer_at_step:
  assumes B: "\<forall>i < 256. \<bar>p ! i\<bar> \<le> B" "B + 3328 \<le> 32767" and M: "1 \<le> M" "2 * l * M = 256" and l: "2 \<le> l"
    and b: "b < M" and r: "r < l"
  defines "t \<equiv> montReduce (Zetas ! (M + b) * p ! (b * (2 * l) + l + r))"
  shows "nttLayer_at l (M - 1) p (b * (2 * l) + r) = p ! (b * (2 * l) + r) + t"
    and "nttLayer_at l (M - 1) p (b * (2 * l) + l + r) = p ! (b * (2 * l) + r) - t"
    and "\<bar>t\<bar> \<le> 3328"
    and "kcong t (root (M + b) * p ! (b * (2 * l) + l + r))"
proof -
  let ?i = "b * (2 * l) + r" and ?j = "b * (2 * l) + l + r"
  have "Suc b * (2 * l) \<le> M * (2 * l)"
    using b by (intro mult_le_mono1) simp
  then have i: "?j < 256" "?i < 256"
    using M(2) r by (simp_all add: mult.commute mult.left_commute)
  have "4 * M \<le> 2 * l * M"
    using l by (intro mult_le_mono1) simp
  then have "M + b < 128"
    using M(2) b by simp
  then have z: "\<bar>Zetas ! (M + b)\<bar> \<le> 3328"
    using zetas_bound M(1) by simp
  have pb: "\<bar>p ! ?i\<bar> \<le> B" "\<bar>p ! ?j\<bar> \<le> B"
    using B(1) i by blast+
  then have "\<bar>p ! ?j\<bar> \<le> 32768"
    using B(2) by linarith
  note m = montReduce_mult [OF z this, folded t_def]
  show t: "\<bar>t\<bar> \<le> 3328"
    by (rule m(2))
  show "kcong t (root (M + b) * p ! ?j)"
    using m(3) by (simp add: root_def)
  have w: "int16 (p ! ?i + t) = p ! ?i + t" "int16 (p ! ?i - t) = p ! ?i - t"
    using t pb(1) B(2) by (auto intro!: int16_id)
  have di: "?i div (2 * l) = b" "?i mod (2 * l) = r" "?j div (2 * l) = b" "?j mod (2 * l) = l + r"
    using group_index [of l b ?i] group_index [of l b ?j] l r by auto
  show "nttLayer_at l (M - 1) p ?i = p ! ?i + t"
    using w(1) m(1) M(1) r by (simp add: nttLayer_at_def di Let_def t_def add.commute add.left_commute)
  show "nttLayer_at l (M - 1) p ?j = p ! ?i - t"
    using w(2) m(1) M(1) by (simp add: nttLayer_at_def di Let_def t_def)
qed

lemma block_index:
  assumes "2 * l * M = 256" and "0 < l" and "i < (256 :: nat)"
  obtains b r where "b < M" "r < l" "i = b * (2 * l) + r \<or> i = b * (2 * l) + l + r"
proof -
  have i: "i = (i div (2 * l)) * (2 * l) + i mod (2 * l)"
    by (simp add: mult.commute)
  have b: "i div (2 * l) < M"
    using assms by (simp add: less_mult_imp_div_less mult.commute mult.left_commute)
  show ?thesis
  proof (cases "i mod (2 * l) < l")
    case True
    with i b that show ?thesis by blast
  next
    case False
    have "i mod (2 * l) < 2 * l"
      using assms(2) by simp
    with False have "i mod (2 * l) - l < l" by linarith
    moreover have "i = (i div (2 * l)) * (2 * l) + l + (i mod (2 * l) - l)"
      using i False by linarith
    ultimately show ?thesis
      using b that by blast
  qed
qed

lemma nttLayer_transformed:
  assumes tr: "transformed a (2 * l) M p" and B: "bounded B p" "B + 3328 \<le> 32767"
    and M: "1 \<le> M" "2 * l * M = 256" and l: "2 \<le> l"
  shows "\<exists>p'. nttLayer l (M - 1, p) = (2 * M - 1, p') \<and> transformed a l (2 * M) p' \<and> bounded (B + 3328) p'"
proof -
  have p: "length p = 256" and Bi: "\<forall>i < 256. \<bar>p ! i\<bar> \<le> B"
    using B(1) by (simp_all add: bounded_def)
  obtain p' where p': "nttLayer l (M - 1, p) = (M - 1 + M, p')" "length p' = 256"
    and at: "\<forall>i < 256. p' ! i = nttLayer_at l (M - 1) p i"
    using nttLayer_spec [OF _ M(2) p, of "M - 1"] l by auto
  note step = nttLayer_at_step [OF Bi B(2) M l]
  have small: "b * (2 * l) + l + r < 256" "b * (2 * l) + r < 256" if "b < M" "r < l" for b r
  proof -
    have "Suc b * (2 * l) \<le> M * (2 * l)"
      using that(1) by (intro mult_le_mono1) simp
    then show "b * (2 * l) + l + r < 256" "b * (2 * l) + r < 256"
      using M(2) that(2) by (simp_all add: mult.commute mult.left_commute)
  qed
  have "bounded (B + 3328) p'"
    unfolding bounded_def
  proof (intro conjI allI impI)
    fix i :: nat
    assume i: "i < 256"
    obtain b r where br: "b < M" "r < l" "i = b * (2 * l) + r \<or> i = b * (2 * l) + l + r"
      using block_index [OF M(2) _ i] l by auto
    show "\<bar>p' ! i\<bar> \<le> B + 3328"
      using br(3) step(1-3) [OF br(1,2)] at i Bi small [OF br(1,2)] by fastforce
  qed (rule p'(2))
  moreover have "transformed a l (2 * M) p'"
    unfolding transformed_def
  proof (intro allI impI)
    fix b' r
    assume b': "b' < 2 * M" and r: "r < l"
    define b where "b = b' div 2"
    have b: "b < M"
      using b' by (simp add: b_def)
    let ?lo = "remW a (2 * l) M (nodeW (M + b)) r" and ?hi = "remW a (2 * l) M (nodeW (M + b)) (l + r)"
    have lo: "kcong (p ! (b * (2 * l) + r)) ?lo" and hi: "kcong (p ! (b * (2 * l) + l + r)) ?hi"
      using tr b r by (auto simp: transformed_def add.assoc)
    let ?t = "montReduce (Zetas ! (M + b) * p ! (b * (2 * l) + l + r))"
    note s = step [OF b r]
    have t: "kcong ?t (root (M + b) * ?hi)"
      by (rule kcong_trans [OF s(4)]) (rule kcong_mult [OF kcong_refl hi])
    have "4 * M \<le> 2 * l * M"
      using l by (intro mult_le_mono1) simp
    then have k: "1 \<le> M + b" "M + b < 128"
      using M b by simp_all
    note sq = root_sq [OF k]
    have idx: "2 * M + 2 * b = 2 * (M + b)" by simp
    consider "b' = 2 * b" | "b' = 2 * b + 1"
      unfolding b_def by linarith
    then show "kcong (p' ! (b' * l + r)) (remW a l (2 * M) (nodeW (2 * M + b')) r)"
    proof cases
      case 1
      have "nodeW (2 * M + b') = root (M + b)"
        using nodeW_children(1) [OF k(1)] unfolding 1 idx by simp
      moreover have "p' ! (b' * l + r) = p ! (b * (2 * l) + r) + ?t"
        using s(1) at small(2) [OF b r] by (simp add: 1 mult.commute mult.left_commute)
      ultimately show ?thesis
        using kcong_trans [OF kcong_add [OF lo t] kcong_sym [OF remW_split [OF sq, of a l M r]]] by simp
    next
      case 2
      have "nodeW (2 * M + b') = - root (M + b)"
        using nodeW_children(2) [OF k(1)] unfolding 2 by (simp add: algebra_simps)
      moreover have "p' ! (b' * l + r) = p ! (b * (2 * l) + r) - ?t"
        using s(2) at small(1) [OF b r] unfolding 2 by (simp add: algebra_simps)
      moreover have "kcong (remW a l (2 * M) (- root (M + b)) r) (?lo - root (M + b) * ?hi)"
        using remW_split [of "- root (M + b)" "nodeW (M + b)" a l M r] sq by simp
      ultimately show ?thesis
        using kcong_trans [OF kcong_diff [OF lo t] kcong_sym] by simp
    qed
  qed
  ultimately show ?thesis
    using p'(1) M(1) by (auto simp: mult_2)
qed

lemma nttGeneric_transformed:
  assumes "bounded B p" and "B \<le> 9471"
  shows "transformed p 2 128 (nttGeneric p) \<and> bounded (B + 23296) (nttGeneric p)"
proof -
  have 0: "transformed p 256 1 p"
    by (simp add: transformed_def remW_def nodeW_def)
  obtain p1 where p1: "nttLayer 128 (0, p) = (1, p1)" "transformed p 128 2 p1" "bounded (B + 3328) p1"
    using nttLayer_transformed [of p 128 1 p B] 0 assms by auto
  obtain p2 where p2: "nttLayer 64 (1, p1) = (3, p2)" "transformed p 64 4 p2" "bounded (B + 6656) p2"
    using nttLayer_transformed [of p 64 2 p1 "B + 3328"] p1(2,3) assms(2) by (auto simp: add.commute)
  obtain p3 where p3: "nttLayer 32 (3, p2) = (7, p3)" "transformed p 32 8 p3" "bounded (B + 9984) p3"
    using nttLayer_transformed [of p 32 4 p2 "B + 6656"] p2(2,3) assms(2) by (auto simp: add.commute)
  obtain p4 where p4: "nttLayer 16 (7, p3) = (15, p4)" "transformed p 16 16 p4" "bounded (B + 13312) p4"
    using nttLayer_transformed [of p 16 8 p3 "B + 9984"] p3(2,3) assms(2) by (auto simp: add.commute)
  obtain p5 where p5: "nttLayer 8 (15, p4) = (31, p5)" "transformed p 8 32 p5" "bounded (B + 16640) p5"
    using nttLayer_transformed [of p 8 16 p4 "B + 13312"] p4(2,3) assms(2) by (auto simp: add.commute)
  obtain p6 where p6: "nttLayer 4 (31, p5) = (63, p6)" "transformed p 4 64 p6" "bounded (B + 19968) p6"
    using nttLayer_transformed [of p 4 32 p5 "B + 16640"] p5(2,3) assms(2) by (auto simp: add.commute)
  obtain p7 where p7: "nttLayer 2 (63, p6) = (127, p7)" "transformed p 2 128 p7" "bounded (B + 23296) p7"
    using nttLayer_transformed [of p 2 64 p6 "B + 19968"] p6(2,3) assms(2) by (auto simp: add.commute)
  have "nttGeneric p = p7"
    unfolding nttGeneric_def halvings_128 by (simp add: p1(1) p2(1) p3(1) p4(1) p5(1) p6(1) p7(1) del: One_nat_def)
  with p7 show ?thesis by simp
qed

section \<open>Growth of the coefficients in the inverse transform\<close>

text \<open>
  Bounds of the coefficients as multiples of q, followed through the layers and the reductions that
  \<open>InvNTTReductions\<close> prescribes.
\<close>

fun growLayer :: "nat \<Rightarrow> nat \<Rightarrow> nat list \<Rightarrow> nat list" where
  "growLayer l 0 bs = []"
| "growLayer l (Suc G) bs = map2 (+) (take l bs) (take l (drop l bs)) @ replicate l 1 @ growLayer l G (drop (l + l) bs)"

fun growReduce :: "int list \<Rightarrow> nat list \<Rightarrow> (int list \<times> nat list) option" where
  "growReduce [] bs = None"
| "growReduce (i # is) bs = (if i < 0 then Some (is, bs) else growReduce is (bs[nat i := 1]))"

fun grow :: "(nat \<times> nat) list \<Rightarrow> int list \<Rightarrow> nat list \<Rightarrow> nat list option" where
  "grow [] rs bs = Some bs"
| "grow ((l, G) # ls) rs bs = (let bs' = growLayer l G bs in
     if list_all (\<lambda>b. b \<le> 9) bs' then
       (case growReduce rs bs' of None \<Rightarrow> None | Some (rs', bs'') \<Rightarrow> grow ls rs' bs'')
     else None)"

definition layers :: "(nat \<times> nat) list" where
  "layers = [(2, 64), (4, 32), (8, 16), (16, 8), (32, 4), (64, 2), (128, 1)]"

lemma grow_checked:
  "case grow layers InvNTTReductions (replicate 256 1) of None \<Rightarrow> False | Some bs \<Rightarrow> True"
  by code_simp

lemma inverse_roots_checked:
  "list_all (\<lambda>M. list_all (\<lambda>b. 0 \<le> Zetas ! (2 * M - 1 - b) \<and> kcong (root (2 * M - 1 - b) * root (M + b)) (- 1)) [0..<M])
     [1, 2, 4, 8, 16, 32, 64]"
  by code_simp

lemma length_growLayer [simp]: "length bs = G * (2 * l) \<Longrightarrow> length (growLayer l G bs) = G * (2 * l)"
  by (induction l G bs rule: growLayer.induct) (simp_all add: algebra_simps)

lemma growLayer_nth:
  "length bs = G * (2 * l) \<Longrightarrow> i < G * (2 * l) \<Longrightarrow>
   growLayer l G bs ! i = (if i mod (2 * l) < l then bs ! i + bs ! (i + l) else 1)"
proof (induction l G bs arbitrary: i rule: growLayer.induct)
  case (1 l bs)
  then show ?case by simp
next
  case (2 l G bs)
  have l: "0 < l"
    using "2.prems" by (cases l) auto
  show ?case
  proof (cases "i < 2 * l")
    case True
    then show ?thesis
      using "2.prems" l by (auto simp: nth_append add.commute [of l i])
  next
    case False
    define j where "j = i - 2 * l"
    have i: "i = 2 * l + j"
      using False by (simp add: j_def)
    have j: "j < G * (2 * l)" "length (drop (l + l) bs) = G * (2 * l)"
      using "2.prems" i by (simp_all add: algebra_simps)
    have "growLayer l (Suc G) bs ! i = growLayer l G (drop (l + l) bs) ! j"
      using "2.prems" by (simp add: i nth_append)
    also have "\<dots> = (if j mod (2 * l) < l then drop (l + l) bs ! j + drop (l + l) bs ! (j + l) else 1)"
      by (rule "2.IH" [OF j(2,1)])
    also have "\<dots> = (if i mod (2 * l) < l then bs ! i + bs ! (i + l) else 1)"
    proof -
      have "drop (l + l) bs ! j = bs ! i" "drop (l + l) bs ! (j + l) = bs ! (i + l)"
        using "2.prems"(1) by (simp_all add: i mult_2 add.assoc)
      moreover have "i mod (2 * l) = j mod (2 * l)"
        by (simp add: i)
      ultimately show ?thesis by simp
    qed
    finally show ?thesis .
  qed
qed

section \<open>The inverse transform\<close>

lemma invButterflies_length [simp]: "length (fold (invButterfly z l) js p) = length p"
  by (induction js arbitrary: p) (simp_all add: invButterfly_def Let_def)

lemma invButterflies_nth:
  assumes "n \<le> l" and "off + 2 * l \<le> length p" and "i < length p"
  shows "fold (invButterfly z l) [off..<off + n] p ! i =
    (if off \<le> i \<and> i < off + n then int16 (p ! i + p ! (i + l))
     else if off + l \<le> i \<and> i < off + l + n then montReduce (int32 (z * int16 (p ! i - p ! (i - l))))
     else p ! i)"
  using assms
proof (induction n arbitrary: i)
  case 0
  then show ?case by simp
next
  case (Suc n)
  let ?q = "fold (invButterfly z l) [off..<off + n] p"
  have q: "?q ! (off + n + l) = p ! (off + n + l)" "?q ! (off + n) = p ! (off + n)"
    using Suc.prems by (subst Suc.IH; simp)+
  have "fold (invButterfly z l) [off..<off + Suc n] p = invButterfly z l (off + n) ?q"
    by simp
  also have "\<dots> ! i = (if i = off + n then int16 (p ! i + p ! (i + l))
      else if i = off + n + l then montReduce (int32 (z * int16 (p ! i - p ! (i - l)))) else ?q ! i)"
    using Suc.prems q by (auto simp: invButterfly_def Let_def nth_list_update)
  also have "\<dots> = (if off \<le> i \<and> i < off + Suc n then int16 (p ! i + p ! (i + l))
     else if off + l \<le> i \<and> i < off + l + Suc n then montReduce (int32 (z * int16 (p ! i - p ! (i - l))))
     else p ! i)"
    using Suc.prems by (subst Suc.IH) auto
  finally show ?case .
qed

definition invLayer_at :: "nat \<Rightarrow> int \<Rightarrow> Poly \<Rightarrow> nat \<Rightarrow> int" where
  "invLayer_at l k p i = (let z = Zetas ! nat (k - int (i div (2 * l))) in
     if i mod (2 * l) < l then int16 (p ! i + p ! (i + l))
     else montReduce (int32 (z * int16 (p ! i - p ! (i - l)))))"

lemma invNTTGroup_fold:
  assumes l: "0 < l" and p: "length p = 256"
  shows "2 * l * G \<le> 256 \<Longrightarrow> \<exists>p'. fold (invNTTGroup l) (map (\<lambda>g. g * (2 * l)) [0..<G]) (k, p) = (k - int G, p') \<and> length p' = 256 \<and>
    (\<forall>i < 256. p' ! i = (if i < G * (2 * l) then invLayer_at l k p i else p ! i))"
proof (induction G)
  case 0
  with p show ?case by simp
next
  case (Suc G)
  have "2 * l * G \<le> 2 * l * Suc G"
    by simp
  then have "2 * l * G \<le> 256"
    using Suc.prems by (rule order_trans)
  with Suc.IH obtain p' where p': "fold (invNTTGroup l) (map (\<lambda>g. g * (2 * l)) [0..<G]) (k, p) = (k - int G, p')" "length p' = 256"
      "\<forall>i < 256. p' ! i = (if i < G * (2 * l) then invLayer_at l k p i else p ! i)"
    by blast
  let ?o = "G * (2 * l)"
  let ?z = "Zetas ! nat (k - int G)"
  let ?p = "fold (invButterfly ?z l) [?o..<?o + l] p'"
  have ob: "?o + 2 * l \<le> length p'"
    using Suc.prems p'(2) by (simp add: mult.commute mult.left_commute)
  have "fold (invNTTGroup l) (map (\<lambda>g. g * (2 * l)) [0..<Suc G]) (k, p) = (k - int (Suc G), ?p)"
    using p'(1) by (simp add: invNTTGroup_def Let_def)
  moreover have "?p ! i = (if i < Suc G * (2 * l) then invLayer_at l k p i else p ! i)" if i: "i < 256" for i
  proof -
    note n = invButterflies_nth [OF le_refl ob, of i ?z]
    consider "i < ?o" | "?o \<le> i" "i < ?o + l" | "?o + l \<le> i" "i < ?o + 2 * l" | "?o + 2 * l \<le> i"
      by linarith
    then show ?thesis
    proof cases
      case 1
      then show ?thesis using n i p'(2,3) by simp
    next
      case 2
      then have "i div (2 * l) = G" "i mod (2 * l) < l"
        using group_index [OF l, of G i] by auto
      then show ?thesis using n 2 i p'(2,3) ob by (simp add: invLayer_at_def)
    next
      case 3
      then have "i div (2 * l) = G" "\<not> i mod (2 * l) < l" "\<not> i - l < ?o"
        using group_index [OF l, of G i] by auto
      then show ?thesis using n 3 i p'(2,3) ob by (simp add: invLayer_at_def)
    next
      case 4
      then show ?thesis using n i p'(2,3) by simp
    qed
  qed
  ultimately show ?case
    using p'(2) by auto
qed


definition scaledT :: "int \<Rightarrow> Poly \<Rightarrow> nat \<Rightarrow> nat \<Rightarrow> Poly \<Rightarrow> bool" where
  "scaledT c a l M p \<longleftrightarrow> (\<forall>b < M. \<forall>r < l. kcong (p ! (b * l + r)) (c * remW a l M (nodeW (M + b)) r))"

definition qbounded :: "nat list \<Rightarrow> Poly \<Rightarrow> bool" where
  "qbounded bs p \<longleftrightarrow> length p = 256 \<and> length bs = 256 \<and> (\<forall>b \<in> set bs. b \<le> 9) \<and> (\<forall>i < 256. \<bar>p ! i\<bar> \<le> int (bs ! i) * 3329)"

lemma qbounded_nth: "qbounded bs p \<Longrightarrow> i < 256 \<Longrightarrow> \<bar>p ! i\<bar> \<le> int (bs ! i) * 3329 \<and> bs ! i \<le> 9"
  by (simp add: qbounded_def)

definition level :: "nat \<Rightarrow> nat \<Rightarrow> bool" where
  "level l M \<longleftrightarrow> 2 * l * M = 256 \<and> 2 \<le> l \<and> M \<in> set [1, 2, 4, 8, 16, 32, 64]"

lemma inverse_root:
  assumes "level l M" and "b < M"
  shows "\<bar>Zetas ! (2 * M - 1 - b)\<bar> \<le> 3328" and "kcong (root (2 * M - 1 - b) * root (M + b)) (- 1)"
proof -
  have M: "M \<in> set [1, 2, 4, 8, 16, 32, 64]"
    using assms(1) by (simp add: level_def)
  then have "M \<le> 64" by auto
  then show "\<bar>Zetas ! (2 * M - 1 - b)\<bar> \<le> 3328"
    using assms(2) by (intro zetas_bound) auto
  show "kcong (root (2 * M - 1 - b) * root (M + b)) (- 1)"
    using inverse_roots_checked M assms(2) unfolding list_all_iff by auto
qed

lemma invLayer_at_step:
  assumes bd: "qbounded bs p" "\<forall>b \<in> set (growLayer l M bs). b \<le> 9"
    and lev: "level l M" and b: "b < M" and r: "r < l"
  defines "u \<equiv> p ! (b * (2 * l) + r)" and "v \<equiv> p ! (b * (2 * l) + l + r)"
  shows "invLayer_at l (int (2 * M) - 1) p (b * (2 * l) + r) = u + v"
    and "\<bar>u + v\<bar> \<le> int (growLayer l M bs ! (b * (2 * l) + r)) * 3329"
    and "\<bar>invLayer_at l (int (2 * M) - 1) p (b * (2 * l) + l + r)\<bar> \<le> int (growLayer l M bs ! (b * (2 * l) + l + r)) * 3329"
    and "kcong (invLayer_at l (int (2 * M) - 1) p (b * (2 * l) + l + r)) (root (2 * M - 1 - b) * (v - u))"
proof -
  let ?i = "b * (2 * l) + r" and ?j = "b * (2 * l) + l + r"
  have M: "2 * l * M = 256" and l: "2 \<le> l"
    using lev by (simp_all add: level_def)
  have ij: "?i + l = ?j" "?j - l = ?i" by simp_all
  have "Suc b * (2 * l) \<le> M * (2 * l)"
    using b by (intro mult_le_mono1) simp
  then have i: "?j < 256" "?i < 256" "?j < M * (2 * l)" "?i < M * (2 * l)"
    using M r by (simp_all add: mult.commute mult.left_commute)
  have len: "length bs = M * (2 * l)"
    using bd(1) M by (simp add: qbounded_def mult.commute mult.left_commute)
  have di: "?i div (2 * l) = b" "?i mod (2 * l) = r" "?j div (2 * l) = b" "?j mod (2 * l) = l + r"
    using group_index [of l b ?i] group_index [of l b ?j] l r by auto
  have g: "growLayer l M bs ! ?i = bs ! ?i + bs ! ?j" "growLayer l M bs ! ?j = 1"
    using growLayer_nth [OF len i(4)] growLayer_nth [OF len i(3)] r unfolding di ij by simp_all
  have "growLayer l M bs ! ?i \<in> set (growLayer l M bs)"
    using i(4) len by (intro nth_mem) simp
  then have nine: "bs ! ?i + bs ! ?j \<le> 9"
    using bd(2) g(1) by auto
  have uv: "\<bar>u\<bar> \<le> int (bs ! ?i) * 3329" "\<bar>v\<bar> \<le> int (bs ! ?j) * 3329"
    using qbounded_nth [OF bd(1)] i by (simp_all add: u_def v_def)
  then have s: "\<bar>u + v\<bar> \<le> int (bs ! ?i + bs ! ?j) * 3329" "\<bar>v - u\<bar> \<le> int (bs ! ?i + bs ! ?j) * 3329"
    by (simp_all add: algebra_simps)
  moreover have "int (bs ! ?i + bs ! ?j) * 3329 \<le> 29961"
    using nine by (simp add: algebra_simps flip: of_nat_add)
  ultimately have w: "int16 (u + v) = u + v" "int16 (v - u) = v - u" "\<bar>v - u\<bar> \<le> 32768"
    by (auto intro!: int16_id)
  note z = inverse_root(1) [OF lev b]
  note m = montReduce_mult [OF z w(3)]
  have k: "nat (2 * int M - 1 - int b) = 2 * M - Suc b"
    using b by simp
  show "invLayer_at l (int (2 * M) - 1) p ?i = u + v"
    using r w(1) by (simp add: invLayer_at_def di Let_def u_def v_def ij)
  show "\<bar>u + v\<bar> \<le> int (growLayer l M bs ! ?i) * 3329"
    unfolding g(1) by (rule s(1))
  have e: "invLayer_at l (int (2 * M) - 1) p ?j = montReduce (Zetas ! (2 * M - 1 - b) * (v - u))"
    using w(2) m(1) by (simp add: invLayer_at_def di Let_def u_def v_def ij k)
  show "\<bar>invLayer_at l (int (2 * M) - 1) p ?j\<bar> \<le> int (growLayer l M bs ! ?j) * 3329"
    unfolding e g(2) using m(2) by linarith
  show "kcong (invLayer_at l (int (2 * M) - 1) p ?j) (root (2 * M - 1 - b) * (v - u))"
    unfolding e using m(3) by (simp add: root_def)
qed


lemma invLayer_step:
  assumes T: "scaledT c a l (2 * M) p" and bd: "qbounded bs p" "\<forall>b \<in> set (growLayer l M bs). b \<le> 9"
    and lev: "level l M"
  shows "\<exists>p'. fold (invNTTGroup l) (go_range 0 (kyber_N - l) (2 * l)) (int (2 * M) - 1, p) = (int M - 1, p') \<and>
    scaledT (2 * c) a (2 * l) M p' \<and> qbounded (growLayer l M bs) p'"
proof -
  have M: "2 * l * M = 256" "1 \<le> M" "M \<le> 64" and l: "2 \<le> l"
    using lev by (auto simp: level_def)
  have p: "length p = 256" and len: "length bs = M * (2 * l)"
    using bd(1) M(1) by (simp_all add: qbounded_def mult.commute mult.left_commute)
  obtain p' where p': "fold (invNTTGroup l) (go_range 0 (kyber_N - l) (2 * l)) (int (2 * M) - 1, p) = (int M - 1, p')"
      "length p' = 256" and at: "\<forall>i < 256. p' ! i = invLayer_at l (int (2 * M) - 1) p i"
    using invNTTGroup_fold [of l p M "int (2 * M) - 1"] p l M(1) layer_offsets [of l M]
    by (auto simp: mult.commute mult.left_commute)
  have small: "b * (2 * l) + l + r < 256" "b * (2 * l) + r < 256" if "b < M" "r < l" for b r
  proof -
    have "Suc b * (2 * l) \<le> M * (2 * l)"
      using that(1) by (intro mult_le_mono1) simp
    then show "b * (2 * l) + l + r < 256" "b * (2 * l) + r < 256"
      using M(1) that(2) by (simp_all add: mult.commute mult.left_commute)
  qed
  note step = invLayer_at_step [OF bd lev]
  have "qbounded (growLayer l M bs) p'"
    unfolding qbounded_def
  proof (intro conjI allI impI)
    show "length (growLayer l M bs) = 256"
      using len M(1) by (simp add: mult.commute mult.left_commute)
    fix i :: nat
    assume i: "i < 256"
    obtain b r where br: "b < M" "r < l" "i = b * (2 * l) + r \<or> i = b * (2 * l) + l + r"
      using block_index [OF M(1) _ i] l by auto
    show "\<bar>p' ! i\<bar> \<le> int (growLayer l M bs ! i) * 3329"
      using br(3) step(1-3) [OF br(1,2)] at i by auto
  qed (use p'(2) bd(2) in simp_all)
  moreover have "scaledT (2 * c) a (2 * l) M p'"
    unfolding scaledT_def
  proof (intro allI impI)
    fix b s
    assume b: "b < M" and s: "s < 2 * l"
    have k: "1 \<le> M + b" "M + b < 128"
      using M b by simp_all
    note sq = root_sq [OF k]
    define r where "r = s mod l"
    have r: "r < l"
      using l by (simp add: r_def)
    have rs: "s = r \<or> s = l + r"
      using s l by (cases "s < l") (auto simp: r_def mod_if)
    let ?w = "nodeW (M + b)" and ?z = "root (M + b)"
    let ?lo = "remW a (2 * l) M ?w r" and ?hi = "remW a (2 * l) M ?w (l + r)"
    let ?u = "p ! (b * (2 * l) + r)" and ?v = "p ! (b * (2 * l) + l + r)"
    have "kcong ?u (c * remW a l (2 * M) ?z r)" "kcong ?v (c * remW a l (2 * M) (- ?z) r)"
    proof -
      have "2 * b < 2 * M" "2 * b + 1 < 2 * M"
        using b by simp_all
      then have "kcong (p ! (2 * b * l + r)) (c * remW a l (2 * M) (nodeW (2 * M + 2 * b)) r)"
        "kcong (p ! ((2 * b + 1) * l + r)) (c * remW a l (2 * M) (nodeW (2 * M + (2 * b + 1))) r)"
        using T r unfolding scaledT_def by blast+
      moreover have "nodeW (2 * M + 2 * b) = ?z" "nodeW (2 * M + (2 * b + 1)) = - ?z"
        using nodeW_children [OF k(1)] by (simp_all add: algebra_simps)
      moreover have "2 * b * l + r = b * (2 * l) + r" "(2 * b + 1) * l + r = b * (2 * l) + l + r"
        by (simp_all add: algebra_simps)
      ultimately show "kcong ?u (c * remW a l (2 * M) ?z r)" "kcong ?v (c * remW a l (2 * M) (- ?z) r)"
        by argo+
    qed
    moreover have "kcong (remW a l (2 * M) ?z r) (?lo + ?z * ?hi)" "kcong (remW a l (2 * M) (- ?z) r) (?lo - ?z * ?hi)"
      using remW_split [OF sq, of a l M r] remW_split [of "- ?z" ?w a l M r] sq by simp_all
    ultimately have uv: "kcong ?u (c * (?lo + ?z * ?hi))" "kcong ?v (c * (?lo - ?z * ?hi))"
      using kcong_trans [OF _ kcong_mult [OF kcong_refl]] by blast+
    have lo: "kcong (?u + ?v) (2 * c * ?lo)"
      using kcong_add [OF uv] by (simp add: algebra_simps)
    let ?y = "root (2 * M - 1 - b)"
    have "kcong (?y * (?v - ?u)) (?y * (c * (?lo - ?z * ?hi) - c * (?lo + ?z * ?hi)))"
      by (intro kcong_mult kcong_refl kcong_diff uv)
    moreover have "?y * (c * (?lo - ?z * ?hi) - c * (?lo + ?z * ?hi)) = (?y * ?z) * (- (2 * c * ?hi))"
      by (simp add: algebra_simps)
    moreover have "kcong ((?y * ?z) * (- (2 * c * ?hi))) (- 1 * (- (2 * c * ?hi)))"
      by (rule kcong_mult [OF inverse_root(2) [OF lev b] kcong_refl])
    ultimately have hi: "kcong (?y * (?v - ?u)) (2 * c * ?hi)"
      using kcong_trans by fastforce
    note st = step [OF b r]
    show "kcong (p' ! (b * (2 * l) + s)) (2 * c * remW a (2 * l) M ?w s)"
      using rs lo kcong_trans [OF st(4) hi] st(1) at small [OF b r] by (auto simp: add.assoc)
  qed
  ultimately show ?thesis
    using p'(1) by blast
qed

lemma reduceLoop_step:
  assumes "qbounded bs p" and "growReduce rs bs = Some (rs', bs')"
  shows "\<exists>p'. reduceLoop rs p = Some (rs', p') \<and> qbounded bs' p' \<and> (\<forall>i < 256. kcong (p' ! i) (p ! i))"
  using assms
proof (induction rs arbitrary: bs p)
  case Nil
  then show ?case by simp
next
  case (Cons i rs)
  show ?case
  proof (cases "i < 0")
    case True
    with Cons.prems show ?thesis by auto
  next
    case False
    let ?p = "p[nat i := barrettReduce (p ! nat i)]" and ?bs = "bs[nat i := 1]"
    have b: "0 \<le> barrettReduce (p ! j) \<and> barrettReduce (p ! j) \<le> 3329 \<and> kcong (barrettReduce (p ! j)) (p ! j)" if "j < 256" for j
    proof -
      have "\<bar>p ! j\<bar> \<le> 29961"
        using qbounded_nth [OF Cons.prems(1) that] by linarith
      then show ?thesis
        using barrettReduce_spec [of "p ! j"] by (auto simp: kcong_def)
    qed
    have "set ?bs \<subseteq> insert 1 (set bs)"
      by (rule set_update_subset_insert)
    moreover have "\<bar>?p ! j\<bar> \<le> int (?bs ! j) * 3329" if "j < 256" for j
      using Cons.prems(1) b [OF that] that by (cases "j = nat i") (auto simp: qbounded_def)
    ultimately have q: "qbounded ?bs ?p"
      using Cons.prems(1) by (auto simp: qbounded_def)
    have c: "kcong (?p ! j) (p ! j)" if "j < 256" for j
      using b [OF that] that Cons.prems(1) by (cases "j = nat i") (auto simp: qbounded_def)
    have g: "growReduce rs ?bs = Some (rs', bs')"
      using Cons.prems(2) False by simp
    from Cons.IH [OF q g] obtain p' where "reduceLoop rs ?p = Some (rs', p')" "qbounded bs' p'"
        "\<forall>j < 256. kcong (p' ! j) (?p ! j)"
      by blast
    with c False show ?thesis
      by (auto intro: kcong_trans)
  qed
qed

fun chain :: "(nat \<times> nat) list \<Rightarrow> nat \<Rightarrow> nat \<Rightarrow> bool" where
  "chain [] l0 M0 = True"
| "chain ((l, M) # ls) l0 M0 \<longleftrightarrow> l = l0 \<and> M0 = 2 * M \<and> level l M \<and> chain ls (2 * l) M"

lemma invNTTLoop_spec:
  assumes "chain ls l0 M0" and "grow ls rs bs = Some bs'" and "qbounded bs p" and "scaledT c a l0 M0 p"
  shows "\<exists>p'. invNTTLoop (map fst ls) (int M0 - 1) rs p = Some p' \<and> qbounded bs' p' \<and>
    scaledT (2 ^ length ls * c) a (2 ^ length ls * l0) (M0 div 2 ^ length ls) p'"
  using assms
proof (induction ls arbitrary: l0 M0 rs bs p c)
  case Nil
  then show ?case by simp
next
  case (Cons lM ls)
  obtain l M where lM: "lM = (l, M)" by fastforce
  from Cons.prems(1) have l: "l = l0" "M0 = 2 * M" "level l M" "chain ls (2 * l) M"
    unfolding lM chain.simps by blast+
  from Cons.prems(2) obtain rs' bs1 where nine: "\<forall>b \<in> set (growLayer l M bs). b \<le> 9"
    and g: "growReduce rs (growLayer l M bs) = Some (rs', bs1)" "grow ls rs' bs1 = Some bs'"
    by (auto simp: lM Let_def list_all_iff split: if_splits option.splits)
  from invLayer_step [OF Cons.prems(4) [folded l(1), unfolded l(2)] Cons.prems(3) nine l(3)]
  obtain p1 where p1: "fold (invNTTGroup l) (go_range 0 (kyber_N - l) (2 * l)) (int (2 * M) - 1, p) = (int M - 1, p1)"
      "scaledT (2 * c) a (2 * l) M p1" "qbounded (growLayer l M bs) p1"
    by blast
  from reduceLoop_step [OF p1(3) g(1)] obtain p2 where p2: "reduceLoop rs p1 = Some (rs', p2)" "qbounded bs1 p2"
      "\<forall>i < 256. kcong (p2 ! i) (p1 ! i)"
    by blast
  have "scaledT (2 * c) a (2 * l) M p2"
    unfolding scaledT_def
  proof (intro allI impI)
    fix b r
    assume br: "b < M" "r < 2 * l"
    have "Suc b * (2 * l) \<le> M * (2 * l)"
      using br(1) by (intro mult_le_mono1) simp
    then have "b * (2 * l) + r < 256"
      using l(3) br(2) by (simp add: level_def mult.commute mult.left_commute)
    then have "kcong (p2 ! (b * (2 * l) + r)) (p1 ! (b * (2 * l) + r))"
      using p2(3) by blast
    moreover have "kcong (p1 ! (b * (2 * l) + r)) (2 * c * remW a (2 * l) M (nodeW (M + b)) r)"
      using p1(2) br by (simp add: scaledT_def)
    ultimately show "kcong (p2 ! (b * (2 * l) + r)) (2 * c * remW a (2 * l) M (nodeW (M + b)) r)"
      by (rule kcong_trans)
  qed
  from Cons.IH [OF l(4) g(2) p2(2) this] show ?case
    using p1(1) p2(1) by (simp add: lM l(1,2) mult.assoc mult.left_commute)
qed

lemma layers_chain: "chain layers 2 128"
  by (simp add: layers_def level_def)

lemma map_fst_layers: "map fst layers = doublings 2 kyber_N"
  by (simp add: layers_def doublings_2)

lemma invNTTGeneric_spec:
  assumes "bounded 3329 p" and "scaledT c a 2 128 p"
  shows "\<exists>r. invNTTGeneric p = Some r \<and> bounded 3328 r \<and> (\<forall>i < 256. kcong (r ! i) (65536 * c * a ! i))"
proof -
  obtain bs where bs: "grow layers InvNTTReductions (replicate 256 1) = Some bs"
    using grow_checked by (auto split: option.splits)
  have "qbounded (replicate 256 1) p"
    using assms(1) by (simp add: qbounded_def bounded_def)
  from invNTTLoop_spec [OF layers_chain bs this assms(2)] obtain p' where
    p': "invNTTLoop (doublings 2 kyber_N) 127 InvNTTReductions p = Some p'" "qbounded bs p'"
      "scaledT (128 * c) a 256 1 p'"
    unfolding map_fst_layers by (auto simp: layers_def)
  let ?r = "map (\<lambda>x. montReduce (int32 (1441 * x))) p'"
  have len: "length p' = 256"
    using p'(2) by (simp add: qbounded_def)
  have r: "\<bar>?r ! i\<bar> \<le> 3328 \<and> kcong (?r ! i) (65536 * c * a ! i)" if i: "i < 256" for i
  proof -
    have "\<bar>p' ! i\<bar> \<le> 32768"
      using qbounded_nth [OF p'(2) i] by linarith
    note m = montReduce_mult [of 1441, OF _ this]
    have v: "?r ! i = montReduce (1441 * p' ! i)"
      using m(1) i len by simp
    have "kcong (p' ! (0 * 256 + i)) (128 * c * remW a 256 1 (nodeW (1 + 0)) i)"
      using p'(3) i unfolding scaledT_def by blast
    then have c1: "kcong (169 * 1441 * p' ! i) (169 * 1441 * (128 * c * a ! i))"
      by (intro kcong_mult [OF kcong_refl]) (simp add: remW_def)
    have "169 * 1441 * (128 * c * a ! i) - 65536 * c * a ! i = 3329 * (c * a ! i * 9344)"
      by simp
    then have c2: "kcong (169 * 1441 * (128 * c * a ! i)) (65536 * c * a ! i)"
      unfolding kcong_iff by (metis dvd_triv_left)
    show ?thesis
      unfolding v using m(2) kcong_trans [OF m(3) kcong_trans [OF c1 c2]] by simp
  qed
  then have "bounded 3328 ?r"
    by (simp add: bounded_def len)
  with r p'(1) show ?thesis
    by (auto simp: invNTTGeneric_def)
qed


section \<open>Products of transformed polynomials\<close>

definition mulHat_at :: "Poly \<Rightarrow> Poly \<Rightarrow> nat \<Rightarrow> int" where
  "mulHat_at a b i = (let z = Zetas ! (64 + i div 4); o4 = i div 4 * 4 in
     if i mod 4 = 0 then int16 (montReduce (int32 (montReduce (int32 (a ! (o4 + 1) * b ! (o4 + 1))) * z)) +
                                montReduce (int32 (a ! o4 * b ! o4)))
     else if i mod 4 = 1 then int16 (montReduce (int32 (a ! o4 * b ! (o4 + 1))) + montReduce (int32 (a ! (o4 + 1) * b ! o4)))
     else if i mod 4 = 2 then int16 (int16 (- montReduce (int32 (montReduce (int32 (a ! (o4 + 3) * b ! (o4 + 3))) * z))) +
                                montReduce (int32 (a ! (o4 + 2) * b ! (o4 + 2))))
     else int16 (montReduce (int32 (a ! (o4 + 2) * b ! (o4 + 3))) + montReduce (int32 (a ! (o4 + 3) * b ! (o4 + 2)))))"

lemma mulHat_at_4:
  "mulHat_at a b (g * 4) = int16 (montReduce (int32 (montReduce (int32 (a ! (g * 4 + 1) * b ! (g * 4 + 1))) * Zetas ! (64 + g))) +
     montReduce (int32 (a ! (g * 4) * b ! (g * 4))))"
  "mulHat_at a b (g * 4 + 1) = int16 (montReduce (int32 (a ! (g * 4) * b ! (g * 4 + 1))) + montReduce (int32 (a ! (g * 4 + 1) * b ! (g * 4))))"
  "mulHat_at a b (g * 4 + 2) = int16 (int16 (- montReduce (int32 (montReduce (int32 (a ! (g * 4 + 3) * b ! (g * 4 + 3))) * Zetas ! (64 + g)))) +
     montReduce (int32 (a ! (g * 4 + 2) * b ! (g * 4 + 2))))"
  "mulHat_at a b (g * 4 + 3) = int16 (montReduce (int32 (a ! (g * 4 + 2) * b ! (g * 4 + 3))) + montReduce (int32 (a ! (g * 4 + 3) * b ! (g * 4 + 2))))"
proof -
  have d: "g * 4 div 4 = g" "g * 4 mod 4 = 0" "(g * 4 + 1) div 4 = g" "(g * 4 + 1) mod 4 = 1"
    "(g * 4 + 2) div 4 = g" "(g * 4 + 2) mod 4 = 2" "(g * 4 + 3) div 4 = g" "(g * 4 + 3) mod 4 = 3"
    by presburger+
  show "mulHat_at a b (g * 4) = int16 (montReduce (int32 (montReduce (int32 (a ! (g * 4 + 1) * b ! (g * 4 + 1))) * Zetas ! (64 + g))) +
     montReduce (int32 (a ! (g * 4) * b ! (g * 4))))"
    unfolding mulHat_at_def d Let_def by simp
  show "mulHat_at a b (g * 4 + 1) = int16 (montReduce (int32 (a ! (g * 4) * b ! (g * 4 + 1))) + montReduce (int32 (a ! (g * 4 + 1) * b ! (g * 4))))"
    unfolding mulHat_at_def d Let_def by simp
  show "mulHat_at a b (g * 4 + 2) = int16 (int16 (- montReduce (int32 (montReduce (int32 (a ! (g * 4 + 3) * b ! (g * 4 + 3))) * Zetas ! (64 + g)))) +
     montReduce (int32 (a ! (g * 4 + 2) * b ! (g * 4 + 2))))"
    unfolding mulHat_at_def d Let_def by simp
  show "mulHat_at a b (g * 4 + 3) = int16 (montReduce (int32 (a ! (g * 4 + 2) * b ! (g * 4 + 3))) + montReduce (int32 (a ! (g * 4 + 3) * b ! (g * 4 + 2))))"
    unfolding mulHat_at_def d Let_def by simp
qed

lemma mulHat_fold:
  assumes "length p = 256"
  shows "G \<le> 64 \<Longrightarrow> \<exists>p'. fold (mulHatStep a b) (map (\<lambda>g. g * 4) [0..<G]) (64, p) = (64 + G, p') \<and> length p' = 256 \<and>
    (\<forall>i < G * 4. p' ! i = mulHat_at a b i)"
proof (induction G)
  case 0
  with assms show ?case by simp
next
  case (Suc G)
  then obtain p' where p': "fold (mulHatStep a b) (map (\<lambda>g. g * 4) [0..<G]) (64, p) = (64 + G, p')" "length p' = 256"
      "\<forall>i < G * 4. p' ! i = mulHat_at a b i"
    by auto
  obtain q where q: "mulHatStep a b (G * 4) (64 + G, p') = (64 + Suc G, q)" "length q = 256"
      "q = p'[G * 4 := mulHat_at a b (G * 4), G * 4 + 1 := mulHat_at a b (G * 4 + 1),
         G * 4 + 2 := mulHat_at a b (G * 4 + 2), G * 4 + 3 := mulHat_at a b (G * 4 + 3)]"
    using that unfolding mulHat_at_4 by (simp add: mulHatStep_def Let_def p'(2))
  have "q ! i = mulHat_at a b i" if i: "i < Suc G * 4" for i
  proof -
    consider "i < G * 4" | "i = G * 4" | "i = G * 4 + 1" | "i = G * 4 + 2" | "i = G * 4 + 3"
      using i by (simp, linarith)
    then show ?thesis
      using p'(2,3) Suc.prems by cases (simp_all add: q(3))
  qed
  with p'(1) q(1,2) show ?case by auto
qed

lemma mulHatGeneric_nth:
  assumes "length p = 256"
  shows "length (mulHatGeneric p a b) = 256" and "i < 256 \<Longrightarrow> mulHatGeneric p a b ! i = mulHat_at a b i"
proof -
  have r: "go_range 0 kyber_N 4 = map (\<lambda>g. g * 4) [0..<64]"
    using go_range_offsets [of 4 256 0 64] by (simp add: kyber_N_def)
  from mulHat_fold [OF assms, of 64 a b] show "length (mulHatGeneric p a b) = 256"
    and "i < 256 \<Longrightarrow> mulHatGeneric p a b ! i = mulHat_at a b i"
    unfolding mulHatGeneric_def r by auto
qed

definition mulOk :: "Poly \<Rightarrow> Poly \<Rightarrow> bool" where
  "mulOk a b \<longleftrightarrow> (\<forall>i < 256. \<forall>j < 256. \<bar>a ! i * b ! j\<bar> < 109084672)"

lemma montReduce_prod:
  assumes "\<bar>x\<bar> < 109084672"
  shows "int32 x = x" and "\<bar>montReduce x\<bar> \<le> 3328" and "kcong (montReduce x) (169 * x)"
proof -
  have b: "- 109084672 \<le> x" "x < 109084672"
    using assms by linarith+
  show "int32 x = x"
    using b by (intro int32_id) linarith+
  show "\<bar>montReduce x\<bar> \<le> 3328"
    using montReduce_bounds [OF b] by linarith
  show "kcong (montReduce x) (169 * x)"
    by (rule montReduce_cong_169 [OF b])
qed

text \<open>One coefficient of a product: \<open>x y + w (u v)\<close>, up to the Montgomery factor.\<close>

lemma mulHat_even:
  assumes x: "\<bar>x\<bar> < 109084672" and y: "\<bar>y\<bar> < 109084672" and z: "\<bar>z\<bar> \<le> 3328"
  defines "s \<equiv> montReduce (int32 (montReduce (int32 y) * z))" and "t \<equiv> montReduce (int32 x)"
  shows "int16 (s + t) = s + t" "int16 (int16 (- s) + t) = t - s" "\<bar>s + t\<bar> \<le> 6656" "\<bar>t - s\<bar> \<le> 6656"
    "kcong (s + t) (169 * (x + 169 * z * y))" "kcong (t - s) (169 * (x - 169 * z * y))"
proof -
  note mx = montReduce_prod [OF x] and my = montReduce_prod [OF y]
  have "\<bar>montReduce y\<bar> \<le> 32768"
    using my(2) by linarith
  note mz = montReduce_mult [OF z this]
  have s: "s = montReduce (z * montReduce y)" "\<bar>s\<bar> \<le> 3328"
    using mz(1,2) by (simp_all add: s_def my(1) mult.commute)
  have t: "t = montReduce x" "\<bar>t\<bar> \<le> 3328"
    using mx by (simp_all add: t_def)
  show "int16 (s + t) = s + t" "\<bar>s + t\<bar> \<le> 6656" "\<bar>t - s\<bar> \<le> 6656"
    using s(2) t(2) by (auto intro!: int16_id)
  have "int16 (- s) = - s"
    using s(2) by (intro int16_id) linarith+
  then show "int16 (int16 (- s) + t) = t - s"
    using s(2) t(2) by (auto intro!: int16_id)
  have cs: "kcong s (169 * z * (169 * y))"
    unfolding s(1) by (rule kcong_trans [OF mz(3)]) (rule kcong_mult [OF kcong_refl my(3)])
  have ct: "kcong t (169 * x)"
    unfolding t(1) by (rule mx(3))
  show "kcong (s + t) (169 * (x + 169 * z * y))"
    using kcong_add [OF cs ct] by (simp add: algebra_simps)
  show "kcong (t - s) (169 * (x - 169 * z * y))"
    using kcong_diff [OF ct cs] by (simp add: algebra_simps)
qed

lemma mulHat_odd:
  assumes x: "\<bar>x\<bar> < 109084672" and y: "\<bar>y\<bar> < 109084672"
  defines "s \<equiv> montReduce (int32 x) + montReduce (int32 y)"
  shows "int16 s = s" "\<bar>s\<bar> \<le> 6656" "kcong s (169 * (x + y))"
proof -
  note mx = montReduce_prod [OF x] and my = montReduce_prod [OF y]
  show "int16 s = s" "\<bar>s\<bar> \<le> 6656"
    using mx(2) my(2) by (auto simp: s_def mx(1) my(1) intro!: int16_id)
  show "kcong s (169 * (x + y))"
    using kcong_add [OF mx(3) my(3)] by (simp add: s_def mx(1) my(1) algebra_simps)
qed

lemma mulHat_leaf:
  assumes ok: "mulOk a b" and e: "e < 128"
  defines "w \<equiv> nodeW (128 + e)"
  shows "\<bar>mulHat_at a b (2 * e)\<bar> \<le> 6656 \<and> \<bar>mulHat_at a b (2 * e + 1)\<bar> \<le> 6656 \<and>
    kcong (mulHat_at a b (2 * e)) (169 * (a ! (2 * e) * b ! (2 * e) + w * (a ! (2 * e + 1) * b ! (2 * e + 1)))) \<and>
    kcong (mulHat_at a b (2 * e + 1)) (169 * (a ! (2 * e) * b ! (2 * e + 1) + a ! (2 * e + 1) * b ! (2 * e)))"
proof -
  let ?z = "Zetas ! (64 + e div 2)"
  have z: "\<bar>?z\<bar> \<le> 3328"
    using e by (intro zetas_bound) simp_all
  have p: "\<bar>a ! i * b ! j\<bar> < 109084672" if "i < 256" "j < 256" for i j
    using ok that by (simp add: mulOk_def)
  have i: "2 * e < 256" "2 * e + 1 < 256"
    using e by simp_all
  note ev = mulHat_even [OF p [OF i(1) i(1)] p [OF i(2) i(2)] z]
  note od = mulHat_odd [OF p [OF i(1) i(2)] p [OF i(2) i(1)]]
  show ?thesis
  proof (cases "even e")
    case True
    then obtain g where g: "e = 2 * g" by blast
    have w: "w = 169 * ?z"
      using True by (simp add: w_def nodeW_def root_def)
    have x: "2 * e = g * 4" "2 * e + 1 = g * 4 + 1" "64 + e div 2 = 64 + g"
      by (simp_all add: g)
    have "mulHat_at a b (2 * e) = montReduce (int32 (montReduce (int32 (a ! (2 * e + 1) * b ! (2 * e + 1))) * ?z)) +
        montReduce (int32 (a ! (2 * e) * b ! (2 * e)))"
      using ev(1) unfolding x mulHat_at_4(1) .
    moreover have "mulHat_at a b (2 * e + 1) = montReduce (int32 (a ! (2 * e) * b ! (2 * e + 1))) + montReduce (int32 (a ! (2 * e + 1) * b ! (2 * e)))"
      using od(1) unfolding x mulHat_at_4(2) .
    ultimately show ?thesis
      using ev(3,5) od(2,3) unfolding w by (simp only: mult.assoc)
  next
    case False
    then obtain g where g: "e = 2 * g + 1" by (elim oddE) blast
    have "(128 + e) div 2 = 64 + e div 2" by simp
    then have w: "w = - (169 * ?z)"
      using False by (simp only: w_def nodeW_def root_def) simp
    have x: "2 * e + 1 = g * 4 + 3" "2 * e = g * 4 + 2" "64 + e div 2 = 64 + g"
      by (simp_all add: g)
    have x': "g * 4 + 2 + 1 = g * 4 + 3"
      by simp
    have "mulHat_at a b (2 * e) = montReduce (int32 (a ! (2 * e) * b ! (2 * e))) -
        montReduce (int32 (montReduce (int32 (a ! (2 * e + 1) * b ! (2 * e + 1))) * ?z))"
      using ev(2) unfolding x x' mulHat_at_4(3) .
    moreover have "mulHat_at a b (2 * e + 1) = montReduce (int32 (a ! (2 * e) * b ! (2 * e + 1))) + montReduce (int32 (a ! (2 * e + 1) * b ! (2 * e)))"
      using od(1) unfolding x x' mulHat_at_4(4) .
    ultimately show ?thesis
      using ev(4,6) od(2,3) unfolding w by (simp only: mult.assoc minus_mult_left [symmetric] diff_conv_add_uminus [symmetric])
  qed
qed

section \<open>Multiplication modulo \<open>X^256 + 1\<close>\<close>

definition negmul :: "Poly \<Rightarrow> Poly \<Rightarrow> Poly" where
  "negmul a b = map (\<lambda>k. \<Sum>i<256. \<Sum>j<256. if (i + j) mod 256 = k
     then (if i + j < 256 then a ! i * b ! j else - (a ! i * b ! j)) else 0) [0..<256]"

lemma power_wrap:
  assumes w: "kcong (w ^ 128) (- 1)" and "i < 256" "j < (256 :: nat)"
  shows "kcong ((if i + j < 256 then x else - x) * w ^ ((i + j) mod 256 div 2)) (x * w ^ ((i + j) div 2))"
proof (cases "i + j < 256")
  case True
  then show ?thesis by simp
next
  case False
  then obtain n where n: "i + j = 256 + n" "n < 256"
    using assms(2,3) by (metis add_less_cancel_left add_less_mono le_add_diff_inverse not_less numeral_Bit0)
  have "kcong (x * (w ^ 128 * w ^ (n div 2))) (x * (- 1 * w ^ (n div 2)))"
    by (intro kcong_mult kcong_refl w)
  moreover have "(256 + n) div 2 = 128 + n div 2"
    by presburger
  then have "w ^ ((i + j) div 2) = w ^ 128 * w ^ (n div 2)"
    unfolding n(1) power_add [symmetric] by (rule arg_cong)
  ultimately show ?thesis
    using False n(2) by (simp add: n(1) kcong_sym)
qed

lemma sum_select_parity:
  assumes "k < 256" and "r < (2 :: nat)"
  shows "(\<Sum>m<128. (if k = m * 2 + r then y else 0) * w ^ m) = (if k mod 2 = r then y * w ^ (k div 2) else (0 :: int))"
proof (cases "k mod 2 = r")
  case True
  then have k: "k = k div 2 * 2 + r" "k div 2 < 128"
    using assms by presburger+
  have "(\<Sum>m<128. (if k = m * 2 + r then y else 0) * w ^ m) = (\<Sum>m<128. if m = k div 2 then y * w ^ m else 0)"
    using k by (intro sum.cong) auto
  also have "\<dots> = y * w ^ (k div 2)"
    using k(2) by (simp add: sum.delta)
  finally show ?thesis
    using True by simp
next
  case False
  then have "k \<noteq> m * 2 + r" for m
    using assms(2) by presburger
  with False show ?thesis by simp
qed

lemma remW_negmul:
  assumes "r < 2"
  shows "remW (negmul a b) 2 128 w r = (\<Sum>i<256. \<Sum>j<256.
    if (i + j) mod 2 = r then (if i + j < 256 then a ! i * b ! j else - (a ! i * b ! j)) * w ^ ((i + j) mod 256 div 2) else 0)"
proof -
  let ?s = "\<lambda>i j. if i + j < 256 then a ! i * b ! j else - (a ! i * b ! j)"
  have n: "negmul a b ! (m * 2 + r) = (\<Sum>i<256. \<Sum>j<256. if (i + j) mod 256 = m * 2 + r then ?s i j else 0)" if "m < 128" for m
  proof -
    have "m * 2 + r < 256"
      using that assms by simp
    then show ?thesis
      by (simp add: negmul_def del: upt_rec_numeral)
  qed
  have "remW (negmul a b) 2 128 w r = (\<Sum>m<128. \<Sum>i<256. \<Sum>j<256. (if (i + j) mod 256 = m * 2 + r then ?s i j else 0) * w ^ m)"
    unfolding remW_def by (rule sum.cong) (simp_all only: lessThan_iff n sum_distrib_right)
  also have "\<dots> = (\<Sum>i<256. \<Sum>m<128. \<Sum>j<256. (if (i + j) mod 256 = m * 2 + r then ?s i j else 0) * w ^ m)"
    by (rule sum.swap)
  also have "\<dots> = (\<Sum>i<256. \<Sum>j<256. \<Sum>m<128. (if (i + j) mod 256 = m * 2 + r then ?s i j else 0) * w ^ m)"
    by (intro sum.cong refl sum.swap)
  also have "\<dots> = (\<Sum>i<256. \<Sum>j<256. if (i + j) mod 2 = r then ?s i j * w ^ ((i + j) mod 256 div 2) else 0)"
  proof (intro sum.cong refl)
    fix i j :: nat
    have "(i + j) mod 256 mod 2 = (i + j) mod 2"
      by (simp add: mod_mod_cancel)
    then show "(\<Sum>m<128. (if (i + j) mod 256 = m * 2 + r then ?s i j else 0) * w ^ m) =
        (if (i + j) mod 2 = r then ?s i j * w ^ ((i + j) mod 256 div 2) else 0)"
      using sum_select_parity [of "(i + j) mod 256" r "?s i j" w] assms by simp
  qed
  finally show ?thesis .
qed

lemma sum_256: "(\<Sum>i<256. f i) = (\<Sum>m<128. f (2 * m) + f (2 * m + 1 :: nat) :: int)"
  using sum_even_odd [of f 128] by simp

lemma remW_negmul_cong:
  assumes w: "kcong (w ^ 128) (- 1)"
  shows "kcong (remW (negmul a b) 2 128 w 0) (remW a 2 128 w 0 * remW b 2 128 w 0 + w * (remW a 2 128 w 1 * remW b 2 128 w 1))"
    and "kcong (remW (negmul a b) 2 128 w 1) (remW a 2 128 w 0 * remW b 2 128 w 1 + remW a 2 128 w 1 * remW b 2 128 w 0)"
proof -
  let ?t = "\<lambda>r. \<Sum>i<256. \<Sum>j<256. if (i + j) mod 2 = r then a ! i * b ! j * w ^ ((i + j) div 2) else 0"
  have parity: "Suc (2 * (x::nat)) mod 2 = 1" "Suc (x * 2) mod 2 = 1" for x
    by presburger+
  have c: "kcong (remW (negmul a b) 2 128 w r) (?t r)" if "r < 2" for r
    unfolding remW_negmul [OF that]
  proof (intro kcong_sum)
    fix i j :: nat
    assume "i \<in> {..<256}" "j \<in> {..<256}"
    then show "kcong (if (i + j) mod 2 = r then (if i + j < 256 then a ! i * b ! j else - (a ! i * b ! j)) * w ^ ((i + j) mod 256 div 2) else 0)
        (if (i + j) mod 2 = r then a ! i * b ! j * w ^ ((i + j) div 2) else 0)"
      using power_wrap [OF w, of i j "a ! i * b ! j"] by (simp only: lessThan_iff split: if_split) simp
  qed
  have "?t 0 = (\<Sum>x<128. \<Sum>y<128. a ! (x * 2 + 0) * w ^ x * (b ! (y * 2 + 0) * w ^ y)) +
      w * (\<Sum>x<128. \<Sum>y<128. a ! (x * 2 + 1) * w ^ x * (b ! (y * 2 + 1) * w ^ y))"
    unfolding sum_256 sum_distrib_left sum.distrib [symmetric]
    by (intro sum.cong refl) (simp add: power_add mult_ac parity)
  then have "?t 0 = remW a 2 128 w 0 * remW b 2 128 w 0 + w * (remW a 2 128 w 1 * remW b 2 128 w 1)"
    unfolding remW_def sum_product .
  with c [of 0] show "kcong (remW (negmul a b) 2 128 w 0) (remW a 2 128 w 0 * remW b 2 128 w 0 + w * (remW a 2 128 w 1 * remW b 2 128 w 1))"
    by simp
  have "?t 1 = (\<Sum>x<128. \<Sum>y<128. a ! (x * 2 + 0) * w ^ x * (b ! (y * 2 + 1) * w ^ y)) +
      (\<Sum>x<128. \<Sum>y<128. a ! (x * 2 + 1) * w ^ x * (b ! (y * 2 + 0) * w ^ y))"
    unfolding sum_256 sum.distrib [symmetric]
    by (intro sum.cong refl) (simp add: power_add mult_ac parity)
  then have "?t 1 = remW a 2 128 w 0 * remW b 2 128 w 1 + remW a 2 128 w 1 * remW b 2 128 w 0"
    unfolding remW_def sum_product .
  with c [of 1] show "kcong (remW (negmul a b) 2 128 w 1) (remW a 2 128 w 0 * remW b 2 128 w 1 + remW a 2 128 w 1 * remW b 2 128 w 0)"
    by simp
qed


lemma nodeW_power: "n \<le> 7 \<Longrightarrow> 2 ^ n \<le> k \<Longrightarrow> k < 2 ^ Suc n \<Longrightarrow> kcong (nodeW k ^ (2 ^ n)) (- 1)"
proof (induction n arbitrary: k)
  case 0
  then show ?case by (simp add: nodeW_def)
next
  case (Suc n)
  have h: "2 ^ n \<le> k div 2" "k div 2 < 2 ^ Suc n" "1 \<le> k div 2"
    using Suc.prems(2,3) one_le_power [of "2 :: nat" n] unfolding power_Suc by linarith+
  have "k div 2 < 128"
    using h(2) Suc.prems(1) power_increasing [of "Suc n" 7 "2 :: nat"] by simp
  then have "kcong (nodeW k * nodeW k) (nodeW (k div 2))"
    using h(3) root_sq [of "k div 2"] nodeW_children [of "k div 2"] by (cases "even k") auto
  then have "kcong ((nodeW k * nodeW k) ^ (2 ^ n)) (nodeW (k div 2) ^ (2 ^ n))"
    by (rule kcong_power)
  moreover have "(nodeW k * nodeW k) ^ (2 ^ n) = nodeW k ^ (2 ^ Suc n)"
    by (simp add: power_mult_distrib flip: power_add mult_2)
  ultimately show ?case
    using kcong_trans Suc.IH [OF _ h(1,2)] Suc.prems(1) by simp
qed

lemma leaf_root: "e < 128 \<Longrightarrow> kcong (nodeW (128 + e) ^ 128) (- 1)"
  using nodeW_power [of 7 "128 + e"] by simp

lemma mulHat_transformed:
  assumes a: "transformed a 2 128 ah" and b: "transformed b 2 128 bh" and ok: "mulOk ah bh" and p: "length p = 256"
  shows "bounded 6656 (mulHatGeneric p ah bh) \<and> scaledT 169 (negmul a b) 2 128 (mulHatGeneric p ah bh)"
proof -
  let ?m = "mulHatGeneric p ah bh"
  note nth = mulHatGeneric_nth [OF p]
  have leaf: "\<bar>?m ! (2 * e)\<bar> \<le> 6656 \<and> \<bar>?m ! (2 * e + 1)\<bar> \<le> 6656 \<and>
      kcong (?m ! (2 * e)) (169 * remW (negmul a b) 2 128 (nodeW (128 + e)) 0) \<and>
      kcong (?m ! (2 * e + 1)) (169 * remW (negmul a b) 2 128 (nodeW (128 + e)) 1)" if e: "e < 128" for e
  proof -
    let ?w = "nodeW (128 + e)"
    have i: "2 * e < 256" "2 * e + 1 < 256"
      using e by simp_all
    have t: "kcong (xh ! (2 * e)) (remW x 2 128 ?w 0)" "kcong (xh ! (2 * e + 1)) (remW x 2 128 ?w 1)"
      if "transformed x 2 128 xh" for x xh
    proof -
      have "kcong (xh ! (e * 2 + r)) (remW x 2 128 ?w r)" if "r < 2" for r
        using \<open>transformed x 2 128 xh\<close> e that unfolding transformed_def by blast
      from this [of 0] this [of 1] show "kcong (xh ! (2 * e)) (remW x 2 128 ?w 0)" "kcong (xh ! (2 * e + 1)) (remW x 2 128 ?w 1)"
        by (simp_all add: mult.commute)
    qed
    note m = mulHat_leaf [OF ok e] and ta = t [OF a] and tb = t [OF b] and n = remW_negmul_cong [OF leaf_root [OF e], of a b]
    have "kcong (169 * (ah ! (2 * e) * bh ! (2 * e) + ?w * (ah ! (2 * e + 1) * bh ! (2 * e + 1)))) (169 * remW (negmul a b) 2 128 ?w 0)"
      by (intro kcong_mult [OF kcong_refl] kcong_trans [OF _ kcong_sym [OF n(1)]] kcong_add kcong_mult kcong_refl ta tb)
    moreover have "kcong (169 * (ah ! (2 * e) * bh ! (2 * e + 1) + ah ! (2 * e + 1) * bh ! (2 * e))) (169 * remW (negmul a b) 2 128 ?w 1)"
      by (intro kcong_mult [OF kcong_refl] kcong_trans [OF _ kcong_sym [OF n(2)]] kcong_add kcong_mult kcong_refl ta tb)
    ultimately show ?thesis
      using m kcong_trans unfolding nth(2) [OF i(1)] nth(2) [OF i(2)] by blast
  qed
  have "\<bar>?m ! i\<bar> \<le> 6656" if "i < 256" for i
  proof (cases "even i")
    case True
    then show ?thesis using leaf [of "i div 2"] that by auto
  next
    case False
    then have "2 * (i div 2) + 1 = i" by presburger
    then show ?thesis using leaf [of "i div 2"] that by auto
  qed
  moreover have "scaledT 169 (negmul a b) 2 128 ?m"
    unfolding scaledT_def
  proof (intro allI impI)
    fix e r :: nat
    assume e: "e < 128" and "r < 2"
    then consider "r = 0" | "r = 1" by linarith
    then show "kcong (?m ! (e * 2 + r)) (169 * remW (negmul a b) 2 128 (nodeW (128 + e)) r)"
      using leaf [OF e] by cases (simp_all add: mult.commute)
  qed
  ultimately show ?thesis
    using nth(1) by (simp add: bounded_def)
qed

end
