(* ===== verification/Kyber_Poly.thy ===== *)
theory Kyber_Poly
  imports Kyber_NTT
begin

text \<open>
  Polynomials of Kyber and ML-KEM outside the number-theoretic transform:
  \<^verbatim>\<open>circl/pke/kyber/internal/common/poly.go\<close> and the portable dispatchers of \<^verbatim>\<open>generic.go\<close>. A \<open>Poly\<close> is
  the list of its 256 16-bit coefficients. A method that writes into a buffer returns the bytes it
  writes; the callers, modelled in the theories that follow, pass buffers of at least that length. A
  method that reads a buffer may be given more bytes than it reads.

  The theorems: reductions are exact, packing and message encoding are inverted by their readers, and the
  divisions that \<^verbatim>\<open>CompressTo\<close> approximates by multiplications give the quotients of the specification,
  so that compressing and decompressing moves a coefficient by at most half a step.
\<close>

section \<open>Operations\<close>


definition addGeneric :: "Poly \<Rightarrow> Poly \<Rightarrow> Poly" where
  "addGeneric a b = map (\<lambda>i. int16 (a ! i + b ! i)) [0..<kyber_N]"

definition subGeneric :: "Poly \<Rightarrow> Poly \<Rightarrow> Poly" where
  "subGeneric a b = map (\<lambda>i. int16 (a ! i - b ! i)) [0..<kyber_N]"

definition barrettReduceGeneric :: "Poly \<Rightarrow> Poly" where
  "barrettReduceGeneric p = map (\<lambda>i. barrettReduce (p ! i)) [0..<kyber_N]"

definition normalizeGeneric :: "Poly \<Rightarrow> Poly" where
  "normalizeGeneric p = map (\<lambda>i. csubq (barrettReduce (p ! i))) [0..<kyber_N]"

definition ToMont :: "Poly \<Rightarrow> Poly" where
  "ToMont p = map (\<lambda>i. toMont (p ! i)) [0..<kyber_N]"

definition Tangle :: "Poly \<Rightarrow> Poly" where
  "Tangle p = p"

definition Detangle :: "Poly \<Rightarrow> Poly" where
  "Detangle p = p"

definition poly_Pack :: "Poly \<Rightarrow> bytes" where
  "poly_Pack p = (let q = Detangle p in
     concat (map (\<lambda>i. let t0 = q ! (2 * i); t1 = q ! (2 * i + 1) in
       [word_of_int t0,
        word_of_int (shr t0 8) OR word_of_int (int16 (shl t1 4)),
        word_of_int (shr t1 4)]) [0..<128]))"

definition poly_Unpack :: "bytes \<Rightarrow> Poly" where
  "poly_Unpack buf = Tangle (concat (map (\<lambda>i.
     [uint (buf ! (3 * i)) OR (int16 (shl (uint (buf ! (3 * i + 1))) 8) AND 4095),
      uint (drop_bit 4 (buf ! (3 * i + 1))) OR int16 (shl (uint (buf ! (3 * i + 2))) 4)]) [0..<128]))"

definition DecompressMessage :: "bytes \<Rightarrow> Poly" where
  "DecompressMessage m = concat (map (\<lambda>i. map (\<lambda>j.
     let b = drop_bit j (m ! i) AND 1 in int16 (- uint b) AND ((kyber_Q + 1) div 2)) [0..<8]) [0..<32])"

definition CompressMessageTo :: "Poly \<Rightarrow> bytes" where
  "CompressMessageTo p = map (\<lambda>i. fold (\<lambda>j mi.
     let x = int16 (1664 - p ! (8 * i + j));
         x = shr x 15 XOR x;
         x = int16 (x - 832)
     in mi OR push_bit j (word_of_int (shr x 15) AND 1)) [0..<8] 0) [0..<32]"

definition decomp4 :: "byte \<Rightarrow> int" where
  "decomp4 y = int16 (shr (uint32 (8 + uint y * kyber_Q)) 4)"

definition decomp :: "nat \<Rightarrow> u16 \<Rightarrow> int" where
  "decomp d t = int16 (shr (uint32 (2 ^ (d - 1) + uint (t AND mask d) * kyber_Q)) d)"

definition Decompress4 :: "bytes \<Rightarrow> Poly" where
  "Decompress4 m = concat (map (\<lambda>i. [decomp4 (m ! i AND 15), decomp4 (drop_bit 4 (m ! i))]) [0..<kyber_N div 2])"

definition unpack5 :: "bytes \<Rightarrow> u16 list" where
  "unpack5 m =
     [ucast (m ! 0),
      drop_bit 5 (ucast (m ! 0)) OR ucast (push_bit 3 (m ! 1)),
      drop_bit 2 (ucast (m ! 1)),
      drop_bit 7 (ucast (m ! 1)) OR ucast (push_bit 1 (m ! 2)),
      drop_bit 4 (ucast (m ! 2)) OR ucast (push_bit 4 (m ! 3)),
      drop_bit 1 (ucast (m ! 3)),
      drop_bit 6 (ucast (m ! 3)) OR ucast (push_bit 2 (m ! 4)),
      drop_bit 3 (ucast (m ! 4))]"

definition unpack10 :: "bytes \<Rightarrow> u16 list" where
  "unpack10 m =
     [ucast (m ! 0) OR push_bit 8 (ucast (m ! 1)),
      drop_bit 2 (ucast (m ! 1)) OR push_bit 6 (ucast (m ! 2)),
      drop_bit 4 (ucast (m ! 2)) OR push_bit 4 (ucast (m ! 3)),
      drop_bit 6 (ucast (m ! 3)) OR push_bit 2 (ucast (m ! 4))]"

definition unpack11 :: "bytes \<Rightarrow> u16 list" where
  "unpack11 m =
     [ucast (m ! 0) OR push_bit 8 (ucast (m ! 1)),
      drop_bit 3 (ucast (m ! 1)) OR push_bit 5 (ucast (m ! 2)),
      drop_bit 6 (ucast (m ! 2)) OR push_bit 2 (ucast (m ! 3)) OR push_bit 10 (ucast (m ! 4)),
      drop_bit 1 (ucast (m ! 4)) OR push_bit 7 (ucast (m ! 5)),
      drop_bit 4 (ucast (m ! 5)) OR push_bit 4 (ucast (m ! 6)),
      drop_bit 7 (ucast (m ! 6)) OR push_bit 1 (ucast (m ! 7)) OR push_bit 9 (ucast (m ! 8)),
      drop_bit 2 (ucast (m ! 8)) OR push_bit 6 (ucast (m ! 9)),
      drop_bit 5 (ucast (m ! 9)) OR push_bit 3 (ucast (m ! 10))]"

definition decompressGroups :: "nat \<Rightarrow> nat \<Rightarrow> nat \<Rightarrow> (bytes \<Rightarrow> u16 list) \<Rightarrow> bytes \<Rightarrow> Poly" where
  "decompressGroups d n w f m = concat (map (\<lambda>i. map (decomp d) (f (drop (w * i) m))) [0..<kyber_N div n])"

definition poly_Decompress :: "bytes \<Rightarrow> nat \<Rightarrow> Poly res" where
  "poly_Decompress m d =
     (if d = 4 then Ok (Decompress4 m)
      else if d = 5 then Ok (decompressGroups 5 8 5 unpack5 m)
      else if d = 10 then Ok (decompressGroups 10 4 5 unpack10 m)
      else if d = 11 then Ok (decompressGroups 11 8 11 unpack11 m)
      else Panic ''unsupported d'')"

text \<open>The approximate divisions of \<^verbatim>\<open>CompressTo\<close>: 32-bit arithmetic for d = 4, 5, 64-bit for d = 10, 11.\<close>

definition comp_small :: "nat \<Rightarrow> int \<Rightarrow> u16" where
  "comp_small d x = word_of_int (shr (uint32 (uint32 (uint32 (shl (uint32 x) d) + 3329 div 2) * 315)) 20) AND mask d"

definition comp_large :: "nat \<Rightarrow> int \<Rightarrow> u16" where
  "comp_large d x = word_of_int (shr (uint64 (uint32 (uint32 (shl (uint32 x) d) + 3329 div 2) * 20642679)) 36) AND mask d"

definition pack4 :: "u16 list \<Rightarrow> bytes" where
  "pack4 t =
     [ucast (t ! 0) OR ucast (push_bit 4 (t ! 1)),
      ucast (t ! 2) OR ucast (push_bit 4 (t ! 3)),
      ucast (t ! 4) OR ucast (push_bit 4 (t ! 5)),
      ucast (t ! 6) OR ucast (push_bit 4 (t ! 7))]"

definition pack5 :: "u16 list \<Rightarrow> bytes" where
  "pack5 t =
     [ucast (t ! 0) OR ucast (push_bit 5 (t ! 1)),
      ucast (drop_bit 3 (t ! 1)) OR ucast (push_bit 2 (t ! 2)) OR ucast (push_bit 7 (t ! 3)),
      ucast (drop_bit 1 (t ! 3)) OR ucast (push_bit 4 (t ! 4)),
      ucast (drop_bit 4 (t ! 4)) OR ucast (push_bit 1 (t ! 5)) OR ucast (push_bit 6 (t ! 6)),
      ucast (drop_bit 2 (t ! 6)) OR ucast (push_bit 3 (t ! 7))]"

definition pack10 :: "u16 list \<Rightarrow> bytes" where
  "pack10 t =
     [ucast (t ! 0),
      ucast (drop_bit 8 (t ! 0)) OR ucast (push_bit 2 (t ! 1)),
      ucast (drop_bit 6 (t ! 1)) OR ucast (push_bit 4 (t ! 2)),
      ucast (drop_bit 4 (t ! 2)) OR ucast (push_bit 6 (t ! 3)),
      ucast (drop_bit 2 (t ! 3))]"

definition pack11 :: "u16 list \<Rightarrow> bytes" where
  "pack11 t =
     [ucast (t ! 0),
      ucast (drop_bit 8 (t ! 0)) OR ucast (push_bit 3 (t ! 1)),
      ucast (drop_bit 5 (t ! 1)) OR ucast (push_bit 6 (t ! 2)),
      ucast (drop_bit 2 (t ! 2)),
      ucast (drop_bit 10 (t ! 2)) OR ucast (push_bit 1 (t ! 3)),
      ucast (drop_bit 7 (t ! 3)) OR ucast (push_bit 4 (t ! 4)),
      ucast (drop_bit 4 (t ! 4)) OR ucast (push_bit 7 (t ! 5)),
      ucast (drop_bit 1 (t ! 5)),
      ucast (drop_bit 9 (t ! 5)) OR ucast (push_bit 2 (t ! 6)),
      ucast (drop_bit 6 (t ! 6)) OR ucast (push_bit 5 (t ! 7)),
      ucast (drop_bit 3 (t ! 7))]"

definition compressGroups :: "nat \<Rightarrow> (int \<Rightarrow> u16) \<Rightarrow> (u16 list \<Rightarrow> bytes) \<Rightarrow> Poly \<Rightarrow> bytes" where
  "compressGroups n c f p = concat (map (\<lambda>i. f (map (\<lambda>j. c (p ! (n * i + j))) [0..<n])) [0..<kyber_N div n])"

definition poly_CompressTo :: "Poly \<Rightarrow> nat \<Rightarrow> bytes res" where
  "poly_CompressTo p d =
     (if d = 4 then Ok (compressGroups 8 (comp_small 4) pack4 p)
      else if d = 5 then Ok (compressGroups 8 (comp_small 5) pack5 p)
      else if d = 10 then Ok (compressGroups 4 (comp_large 10) pack10 p)
      else if d = 11 then Ok (compressGroups 8 (comp_large 11) pack11 p)
      else Panic ''unsupported d'')"

declare upt_rec_numeral [simp del]

section \<open>Bit packing\<close>

lemma mask_bit: "t AND mask d = t \<Longrightarrow> bit (t :: u16) n \<Longrightarrow> n < d"
  by (metis bit_and_iff bit_mask_iff)

lemma list4: "length t = 4 \<Longrightarrow> \<exists>a b c d. t = [a, b, c, d]"
  by (simp add: numeral_nat length_Suc_conv) blast

lemma list8: "length t = 8 \<Longrightarrow> \<exists>a b c d e f g h. t = [a, b, c, d, e, f, g, h]"
  by (simp add: numeral_nat length_Suc_conv) blast

lemma bit_times_2 [simp]: "bit (x * 2 :: 'a :: len word) n \<longleftrightarrow> n \<noteq> 0 \<and> n < LENGTH('a) \<and> bit x (n - 1)"
  using bit_double_iff [of x n] by (auto simp: mult.commute)

lemma less_16: "(\<forall>n < 16. P n) \<longleftrightarrow> P 0 \<and> P 1 \<and> P 2 \<and> P 3 \<and> P 4 \<and> P 5 \<and> P 6 \<and> P 7 \<and> P 8 \<and> P 9 \<and> P 10 \<and>
    P 11 \<and> P 12 \<and> P 13 \<and> P 14 \<and> P (15 :: nat)"
  by (simp add: numeral_nat All_less_Suc) blast

lemma u16_eq_iff: "a = (b :: u16) \<longleftrightarrow> (\<forall>n < 16. bit a n = bit b n)"
  by (auto intro: bit_word_eqI)

lemmas u16_eq_bits = u16_eq_iff [unfolded less_16]

lemma unpack10_pack10:
  assumes "\<forall>x \<in> set t. x AND mask 10 = x" and "length t = 4"
  shows "map (\<lambda>x. x AND mask 10) (unpack10 (pack10 t @ rest)) = t"
proof -
  obtain a b c d where t: "t = [a, b, c, d]"
    using list4 [OF assms(2)] by blast
  have m [simp]: "\<And>n. 10 \<le> n \<Longrightarrow> \<not> bit a n" "\<And>n. 10 \<le> n \<Longrightarrow> \<not> bit b n" "\<And>n. 10 \<le> n \<Longrightarrow> \<not> bit c n" "\<And>n. 10 \<le> n \<Longrightarrow> \<not> bit d n"
    using assms(1) mask_bit by (auto simp: t not_less dest: leD)
  show ?thesis
    by (simp add: t unpack10_def pack10_def, intro conjI; simp only: u16_eq_bits; simp add: bit_simps; simp add: numeral_2_eq_2 numeral_3_eq_3)
qed

lemma unpack5_pack5:
  assumes "\<forall>x \<in> set t. x AND mask 5 = x" and "length t = 8"
  shows "map (\<lambda>x. x AND mask 5) (unpack5 (pack5 t @ rest)) = t"
proof -
  obtain a b c d e f g h where t: "t = [a, b, c, d, e, f, g, h]"
    using list8 [OF assms(2)] by blast
  have m [simp]: "\<And>n. 5 \<le> n \<Longrightarrow> \<not> bit a n" "\<And>n. 5 \<le> n \<Longrightarrow> \<not> bit b n" "\<And>n. 5 \<le> n \<Longrightarrow> \<not> bit c n" "\<And>n. 5 \<le> n \<Longrightarrow> \<not> bit d n" "\<And>n. 5 \<le> n \<Longrightarrow> \<not> bit e n" "\<And>n. 5 \<le> n \<Longrightarrow> \<not> bit f n" "\<And>n. 5 \<le> n \<Longrightarrow> \<not> bit g n" "\<And>n. 5 \<le> n \<Longrightarrow> \<not> bit h n"
    using assms(1) mask_bit by (auto simp: t not_less dest: leD)
  show ?thesis
    by (simp add: t unpack5_def pack5_def, intro conjI; simp only: u16_eq_bits; simp add: bit_simps; simp add: numeral_2_eq_2 numeral_3_eq_3)
qed

lemma unpack11_pack11:
  assumes "\<forall>x \<in> set t. x AND mask 11 = x" and "length t = 8"
  shows "map (\<lambda>x. x AND mask 11) (unpack11 (pack11 t @ rest)) = t"
proof -
  obtain a b c d e f g h where t: "t = [a, b, c, d, e, f, g, h]"
    using list8 [OF assms(2)] by blast
  have m [simp]: "\<And>n. 11 \<le> n \<Longrightarrow> \<not> bit a n" "\<And>n. 11 \<le> n \<Longrightarrow> \<not> bit b n" "\<And>n. 11 \<le> n \<Longrightarrow> \<not> bit c n" "\<And>n. 11 \<le> n \<Longrightarrow> \<not> bit d n" "\<And>n. 11 \<le> n \<Longrightarrow> \<not> bit e n" "\<And>n. 11 \<le> n \<Longrightarrow> \<not> bit f n" "\<And>n. 11 \<le> n \<Longrightarrow> \<not> bit g n" "\<And>n. 11 \<le> n \<Longrightarrow> \<not> bit h n"
    using assms(1) mask_bit by (auto simp: t not_less dest: leD)
  show ?thesis
    by (simp add: t unpack11_def pack11_def, intro conjI; simp only: u16_eq_bits; simp add: bit_simps; simp add: numeral_2_eq_2 numeral_3_eq_3)
qed


section \<open>Compression\<close>

definition compress_spec :: "nat \<Rightarrow> int \<Rightarrow> int" where
  "compress_spec d x = (2 ^ d * x + 1664) div 3329 mod 2 ^ d"

lemma uint_masked: "d \<le> 16 \<Longrightarrow> uint (word_of_int y AND mask d :: u16) = y mod 2 ^ d"
proof -
  assume "d \<le> 16"
  then have "uint (take_bit d (word_of_int y :: u16)) = take_bit d y"
    by (simp only: unsigned_take_bit_eq uint_word_of_int take_bit_eq_mod [symmetric] take_bit_take_bit) simp
  then show ?thesis
    by (metis take_bit_eq_mask take_bit_eq_mod)
qed

lemma comp_large_spec:
  assumes x: "0 \<le> x" "x < 3329" and d: "d = 10 \<or> d = 11"
  shows "uint (comp_large d x) = compress_spec d x"
proof -
  define N where "N = 2 ^ d * x + 1664"
  define k where "k = N div 3329"
  have N: "0 \<le> N" "N < 2 ^ 23"
    using x d by (auto simp: N_def)
  have k: "3329 * k \<le> N" "N < 3329 * (k + 1)" "0 \<le> k"
    using N(1) by (simp_all add: k_def pos_imp_zdiv_nonneg_iff)
  have "N * 20642679 div 2 ^ 36 = k"
    using k N by (intro div_eqI) simp_all
  moreover have "uint32 (shl (uint32 x) d) = 2 ^ d * x"
    using x d by (auto simp: shl_def uint32_id)
  ultimately show ?thesis
    using N d by (auto simp: comp_large_def shr_def compress_spec_def uint_masked uint32_id uint64_id k_def simp flip: N_def)
qed

text \<open>
  For d = 4 and d = 5 the multiplication by 315 and shift by 20 is not division by q, but it gives the
  same quotient for every normalized coefficient: between two multiples of q no value \<open>2^d x + 1664\<close> falls
  where the approximation is one too large.
\<close>

lemma small_division:
  assumes "0 \<le> x" "x < (3329 :: int)" "d = 4 \<or> d = 5"
  shows "(2 ^ d * x + 1664) * 315 div 2 ^ 20 = (2 ^ d * x + 1664) div 3329"
proof -
  define k where "k = (2 ^ d * x + 1664) div 3329"
  have k: "3329 * k \<le> 2 ^ d * x + 1664" "2 ^ d * x + 1664 < 3329 * (k + 1)" "0 \<le> k"
    using assms by (auto simp: k_def pos_imp_zdiv_nonneg_iff)
  have "(2 ^ d * x + 1664) * 315 < 1048576 * (k + 1)"
  proof (cases "k < 2 ^ d")
    case True
    define m where "m = (if d = 4 then 208 * (k + 1) - x - 104 else 104 * (k + 1) - x - 52)"
    have "3329 * (k + 1) - (2 ^ d * x + 1664) = k + 1 + 2 ^ d * m"
      using assms(3) by (auto simp: m_def)
    moreover from this have "0 \<le> m"
      using True k(2,3) assms(3) by auto
    ultimately show ?thesis
      using k assms by auto
  next
    case False
    then show ?thesis
      using assms by auto
  qed
  then show ?thesis
    unfolding k_def [symmetric] using k by (intro div_eqI) simp_all
qed

lemma comp_small_spec:
  assumes x: "0 \<le> x" "x < 3329" and d: "d = 4 \<or> d = 5"
  shows "uint (comp_small d x) = compress_spec d x"
proof -
  have "uint32 (shl (uint32 x) d) = 2 ^ d * x" "uint32 (2 ^ d * x + 1664) = 2 ^ d * x + 1664"
      "uint32 ((2 ^ d * x + 1664) * 315) = (2 ^ d * x + 1664) * 315"
    using x d by (auto simp: shl_def uint32_id)
  moreover have "d \<le> 16"
    using d by auto
  ultimately show ?thesis
    using small_division [OF assms] by (simp add: comp_small_def shr_def compress_spec_def uint_masked)
qed

definition decompress_spec :: "nat \<Rightarrow> int \<Rightarrow> int" where
  "decompress_spec d y = (3329 * y + 2 ^ (d - 1)) div 2 ^ d"

lemma decomp_spec:
  assumes "d \<in> {4, 5, 10, 11}"
  shows "decomp d t = decompress_spec d (uint (t AND mask d))"
    and "0 \<le> uint (t AND mask d)" and "uint (t AND mask d) < 2 ^ d"
proof -
  have u: "uint (t AND mask d) = uint t mod 2 ^ d"
    using uint_masked [of d "uint t"] assms by auto
  then show b: "0 \<le> uint (t AND mask d)" "uint (t AND mask d) < 2 ^ d"
    by simp_all
  have "0 \<le> (3329 * uint (t AND mask d) + 2 ^ (d - 1)) div 2 ^ d"
    using b assms by (auto simp: pos_imp_zdiv_nonneg_iff)
  moreover have "(3329 * uint (t AND mask d) + 2 ^ (d - 1)) div 2 ^ d < 32768"
    using b assms by auto
  moreover have "uint32 (2 ^ (d - 1) + uint (t AND mask d) * 3329) = 2 ^ (d - 1) + uint (t AND mask d) * 3329"
    using b assms by (intro uint32_id) auto
  ultimately show "decomp d t = decompress_spec d (uint (t AND mask d))"
    by (simp add: decomp_def decompress_spec_def kyber_Q_def shr_def int16_id add.commute mult.commute)
qed

lemma decompress_bounds: "d \<in> {4, 5, 10, 11} \<Longrightarrow> 0 \<le> y \<Longrightarrow> y < 2 ^ d \<Longrightarrow> 0 \<le> decompress_spec d y \<and> decompress_spec d y < 3329"
  by (auto simp: decompress_spec_def)

lemma compress_error:
  assumes x: "0 \<le> x" "x < 3329" and d: "d \<in> {4, 5, 10, 11}"
  shows "\<exists>e. \<bar>e\<bar> \<le> (3329 + 2 ^ d) div 2 ^ (d + 1) \<and> kcong (decompress_spec d (compress_spec d x)) (x + e)"
proof -
  define y where "y = (2 ^ d * x + 1664) div 3329"
  have y: "3329 * y \<le> 2 ^ d * x + 1664" "2 ^ d * x + 1664 < 3329 * (y + 1)" "0 \<le> y"
    using assms by (auto simp: y_def pos_imp_zdiv_nonneg_iff)
  have y2: "y \<le> 2 ^ d"
    using y x d by auto
  define D where "D = (3329 * y + 2 ^ (d - 1)) div 2 ^ d"
  have D: "2 ^ d * D \<le> 3329 * y + 2 ^ (d - 1)" "3329 * y + 2 ^ (d - 1) < 2 ^ d * (D + 1)"
    using d by (auto simp: D_def)
  have "\<bar>D - x\<bar> \<le> (3329 + 2 ^ d) div 2 ^ (d + 1)"
    using D y d by auto
  moreover have "kcong (decompress_spec d (compress_spec d x)) D"
  proof (cases "y = 2 ^ d")
    case True
    then have "D = 3329"
      using d by (auto simp: D_def)
    then show ?thesis
      using True d by (auto simp: decompress_spec_def compress_spec_def kcong_def simp flip: y_def)
  next
    case False
    then show ?thesis
      using y(3) y2 by (simp add: decompress_spec_def compress_spec_def D_def flip: y_def)
  qed
  ultimately show ?thesis
    by (intro exI [of _ "D - x"]) simp
qed

lemma decompress_compressGroups:
  assumes f: "\<And>t rest. length t = n \<Longrightarrow> (\<forall>x \<in> set t. x AND mask d = x) \<Longrightarrow> map (\<lambda>x. x AND mask d) (f (pk t @ rest)) = t"
    and pk: "\<And>t. length (pk t) = w" and c: "\<And>x. c x AND mask d = c x" and n: "n * (kyber_N div n) = 256"
  shows "decompressGroups d n w f (compressGroups n c pk p @ rest) = map (\<lambda>i. decomp d (c (p ! i))) [0..<256]"
proof -
  have "map (decomp d) (f (drop (w * i) (compressGroups n c pk p @ rest))) = map (\<lambda>j. decomp d (c (p ! (n * i + j)))) [0..<n]"
    if "i < kyber_N div n" for i
  proof -
    let ?t = "map (\<lambda>j. c (p ! (n * i + j))) [0..<n]"
    have m: "map (decomp d) xs = map (decomp d) (map (\<lambda>x. x AND mask d) xs)" for xs
      by (simp add: decomp_def and.assoc)
    have dr: "drop (w * i) (compressGroups n c pk p @ rest) =
        pk ?t @ concat (map (\<lambda>i. pk (map (\<lambda>j. c (p ! (n * i + j))) [0..<n])) [Suc i..<kyber_N div n]) @ rest"
      unfolding compressGroups_def by (rule drop_concat_groups [OF _ that]) (rule pk)
    have "map (decomp d) (f (drop (w * i) (compressGroups n c pk p @ rest))) = map (decomp d) ?t"
      unfolding dr by (subst m, subst f) (simp_all add: c)
    then show ?thesis
      by (simp add: comp_def)
  qed
  then have "decompressGroups d n w f (compressGroups n c pk p @ rest) =
      concat (map (\<lambda>i. map (\<lambda>j. decomp d (c (p ! (n * i + j)))) [0..<n]) [0..<kyber_N div n])"
    unfolding decompressGroups_def by (intro arg_cong [where f = concat] map_cong) auto
  also have "\<dots> = map (\<lambda>i. decomp d (c (p ! i))) [0..<256]"
    using concat_map_groups [of "\<lambda>i. decomp d (c (p ! i))"] n by simp
  finally show ?thesis .
qed

section \<open>Compressing and decompressing a polynomial\<close>

definition unpack4 :: "bytes \<Rightarrow> u16 list" where
  "unpack4 m = concat (map (\<lambda>j. [ucast (m ! j AND 15), ucast (drop_bit 4 (m ! j))]) [0..<4])"

lemma decomp4_eq: "decomp4 (b AND 15) = decomp 4 (ucast (b AND 15))" "decomp4 (drop_bit 4 b) = decomp 4 (ucast (drop_bit 4 b))"
proof -
  have m: "(ucast (b AND 15) :: u16) AND mask 4 = ucast (b AND 15)" "(ucast (drop_bit 4 b) :: u16) AND mask 4 = ucast (drop_bit 4 b)"
    by (simp_all only: u16_eq_bits) (simp_all add: bit_simps mask_eq_exp_minus_1)
  have "uint (ucast c :: u16) = uint c" for c :: byte
    by (simp add: uint_up_ucast is_up)
  then show "decomp4 (b AND 15) = decomp 4 (ucast (b AND 15))" "decomp4 (drop_bit 4 b) = decomp 4 (ucast (drop_bit 4 b))"
    by (simp_all add: decomp4_def decomp_def m)
qed

lemma Decompress4_groups: "32 * 4 \<le> length m \<Longrightarrow> Decompress4 m = decompressGroups 4 8 4 unpack4 m"
proof -
  assume m: "32 * 4 \<le> length m"
  have u: "[0..<kyber_N div 2] = concat (map (\<lambda>i. map (\<lambda>j. 4 * i + j) [0..<4]) [0..<32])"
    using concat_map_groups [of "\<lambda>i. i" 4 32] by (simp add: kyber_N_def)
  have i: "kyber_N div 8 = 32"
    by (simp add: kyber_N_def)
  show ?thesis
    unfolding Decompress4_def u decompressGroups_def unpack4_def map_concat concat_concat_map i map_map
    using m by (intro arg_cong [where f = concat] map_cong refl) (simp add: comp_def decomp4_eq)
qed

lemma unpack4_pack4:
  assumes "\<forall>x \<in> set t. x AND mask 4 = x" and "length t = 8"
  shows "map (\<lambda>x. x AND mask 4) (unpack4 (pack4 t @ rest)) = t"
proof -
  obtain a b c d e f g h where t: "t = [a, b, c, d, e, f, g, h]"
    using list8 [OF assms(2)] by blast
  have m [simp]: "\<And>n. 4 \<le> n \<Longrightarrow> \<not> bit a n" "\<And>n. 4 \<le> n \<Longrightarrow> \<not> bit b n" "\<And>n. 4 \<le> n \<Longrightarrow> \<not> bit c n" "\<And>n. 4 \<le> n \<Longrightarrow> \<not> bit d n"
      "\<And>n. 4 \<le> n \<Longrightarrow> \<not> bit e n" "\<And>n. 4 \<le> n \<Longrightarrow> \<not> bit f n" "\<And>n. 4 \<le> n \<Longrightarrow> \<not> bit g n" "\<And>n. 4 \<le> n \<Longrightarrow> \<not> bit h n"
    using assms(1) mask_bit by (auto simp: t not_less dest: leD)
  have "(15 :: byte) = mask 4"
    by (simp add: mask_eq_exp_minus_1)
  then show ?thesis
    by (simp add: t unpack4_def pack4_def upt_rec, intro conjI; simp only: u16_eq_bits; simp add: bit_simps)
qed

lemma comp_masked: "comp_small d x AND mask d = comp_small d x" "comp_large d x AND mask d = comp_large d x"
  by (simp_all add: comp_small_def comp_large_def and.assoc)

lemma length_compressGroups: "(\<And>t. length (pk t) = w) \<Longrightarrow> length (compressGroups n c pk p) = w * (kyber_N div n)"
  unfolding compressGroups_def by (rule length_concat_groups)

lemma length_packs: "length (pack4 t) = 4" "length (pack5 t) = 5" "length (pack10 t) = 5" "length (pack11 t) = 11"
  by (simp_all add: pack4_def pack5_def pack10_def pack11_def)

definition normalized :: "Poly \<Rightarrow> bool" where
  "normalized p \<longleftrightarrow> length p = 256 \<and> (\<forall>i < 256. 0 \<le> p ! i \<and> p ! i < 3329)"

lemma compress_roundtrip:
  assumes d: "d \<in> {4, 5, 10, 11}" and p: "normalized p"
  shows "\<exists>m. poly_CompressTo p d = Ok m \<and> length m = 32 * d \<and>
    poly_Decompress (m @ rest) d = Ok (map (\<lambda>i. decompress_spec d (compress_spec d (p ! i))) [0..<256])"
proof -
  define c where "c = (if d < 10 then comp_small d else comp_large d)"
  have c: "c x AND mask d = c x" for x
    by (simp add: c_def comp_masked)
  have "decomp d (c (p ! i)) = decompress_spec d (compress_spec d (p ! i))" if "i < 256" for i
    using d p that by (auto simp: decomp_spec(1) c comp_small_spec comp_large_spec normalized_def c_def comp_masked)
  then have dc: "map (\<lambda>i. decomp d (c (p ! i))) [0..<256] = map (\<lambda>i. decompress_spec d (compress_spec d (p ! i))) [0..<256]"
    by simp
  note g = decompress_compressGroups [where p = p and rest = rest and d = d and c = c, OF _ _ c, unfolded dc]
  note l = length_compressGroups [where c = c and p = p, OF length_packs(1)] length_compressGroups [where c = c and p = p, OF length_packs(2)]
    length_compressGroups [where c = c and p = p, OF length_packs(3)] length_compressGroups [where c = c and p = p, OF length_packs(4)]
  from d consider "d = 4" | "d = 5" | "d = 10" | "d = 11" by auto
  then show ?thesis
  proof cases
    case 1
    have "32 * 4 \<le> length (compressGroups 8 c pack4 p @ rest)"
      using l(1) [of 8] by (simp add: kyber_N_def)
    then show ?thesis
      using g [of 8 unpack4 pack4 4] 1 unpack4_pack4 l(1) [of 8]
      by (simp add: poly_CompressTo_def poly_Decompress_def Decompress4_groups length_packs kyber_N_def c_def)
  next
    case 2
    then show ?thesis
      using g [of 8 unpack5 pack5 5] unpack5_pack5 l(2) [of 8]
      by (simp add: poly_CompressTo_def poly_Decompress_def length_packs kyber_N_def c_def)
  next
    case 3
    then show ?thesis
      using g [of 4 unpack10 pack10 5] unpack10_pack10 l(3) [of 4]
      by (simp add: poly_CompressTo_def poly_Decompress_def length_packs kyber_N_def c_def)
  next
    case 4
    then show ?thesis
      using g [of 8 unpack11 pack11 11] unpack11_pack11 l(4) [of 8]
      by (simp add: poly_CompressTo_def poly_Decompress_def length_packs kyber_N_def c_def)
  qed
qed

section \<open>Reductions of a polynomial\<close>

lemma barrett_cong:
  assumes "- 32768 \<le> x" "x < 32768"
  shows "kcong (barrettReduce x) x" and "0 \<le> barrettReduce x" and "barrettReduce x \<le> 3329"
  using pos_mod_bound [of 3329 x, THEN less_imp_le] pos_mod_sign [of 3329 x]
  unfolding barrettReduce_spec [OF assms] kcong_def dvd_eq_mod_eq_0 by (simp_all split: if_split)

lemma normalize_coeff:
  assumes "- 32768 \<le> x" "x < 32768"
  shows "csubq (barrettReduce x) = x mod 3329"
proof -
  have "csubq (barrettReduce x) = (if barrettReduce x < 3329 then barrettReduce x else barrettReduce x - 3329)"
    using barrett_cong [OF assms] by (intro csubq_spec) linarith+
  then show ?thesis
    using pos_mod_bound [of 3329 x] unfolding barrettReduce_spec [OF assms] dvd_eq_mod_eq_0 by (simp split: if_splits)
qed

lemma bounded_nth: "bounded B p \<Longrightarrow> i < 256 \<Longrightarrow> - B \<le> p ! i \<and> p ! i \<le> B"
  by (auto simp: bounded_def abs_le_iff)

lemma bounded_16: "bounded B p \<Longrightarrow> B \<le> 32767 \<Longrightarrow> i < 256 \<Longrightarrow> - 32768 \<le> p ! i \<and> p ! i < 32768"
  using bounded_nth [of B p i] by auto

lemma normalizeGeneric_spec:
  assumes "bounded B p" "B \<le> 32767"
  shows "normalizeGeneric p = map (\<lambda>x. x mod 3329) p"
proof (rule nth_equalityI)
  show "length (normalizeGeneric p) = length (map (\<lambda>x. x mod 3329) p)"
    using assms(1) by (simp add: normalizeGeneric_def kyber_N_def bounded_def)
  fix i
  assume "i < length (normalizeGeneric p)"
  then show "normalizeGeneric p ! i = map (\<lambda>x. x mod 3329) p ! i"
    using assms bounded_16 [OF assms] by (simp add: normalizeGeneric_def kyber_N_def normalize_coeff bounded_def)
qed

lemma normalized_normalizeGeneric: "bounded B p \<Longrightarrow> B \<le> 32767 \<Longrightarrow> normalized (normalizeGeneric p)"
  using normalizeGeneric_spec [of B p] by (simp add: normalized_def bounded_def)

lemma barrettReduceGeneric_spec:
  assumes "bounded B p" "B \<le> 32767"
  shows "bounded 3329 (barrettReduceGeneric p)" and "i < 256 \<Longrightarrow> kcong (barrettReduceGeneric p ! i) (p ! i)"
  using barrett_cong bounded_16 [OF assms] by (auto simp: barrettReduceGeneric_def kyber_N_def bounded_def abs_le_iff)

lemma addGeneric_nth:
  assumes "bounded A a" "bounded B b" "A + B \<le> 32767"
  shows "bounded (A + B) (addGeneric a b)" and "i < 256 \<Longrightarrow> addGeneric a b ! i = a ! i + b ! i"
proof -
  show n: "addGeneric a b ! i = a ! i + b ! i" if "i < 256" for i
    using bounded_nth [OF assms(1) that] bounded_nth [OF assms(2) that] assms(3) that
    by (simp add: addGeneric_def kyber_N_def int16_id)
  show "bounded (A + B) (addGeneric a b)"
    unfolding bounded_def abs_le_iff
  proof (intro conjI allI impI)
    show "length (addGeneric a b) = 256" by (simp add: addGeneric_def kyber_N_def)
    fix i :: nat
    assume i: "i < 256"
    show "addGeneric a b ! i \<le> A + B" "- (addGeneric a b ! i) \<le> A + B"
      unfolding n [OF i] using bounded_nth [OF assms(1) i] bounded_nth [OF assms(2) i] by linarith+
  qed
qed

lemma subGeneric_nth:
  assumes "bounded A a" "bounded B b" "A + B \<le> 32767"
  shows "bounded (A + B) (subGeneric a b)" and "i < 256 \<Longrightarrow> subGeneric a b ! i = a ! i - b ! i"
proof -
  show n: "subGeneric a b ! i = a ! i - b ! i" if "i < 256" for i
    using bounded_nth [OF assms(1) that] bounded_nth [OF assms(2) that] assms(3) that
    by (simp add: subGeneric_def kyber_N_def int16_id)
  show "bounded (A + B) (subGeneric a b)"
    unfolding bounded_def abs_le_iff
  proof (intro conjI allI impI)
    show "length (subGeneric a b) = 256" by (simp add: subGeneric_def kyber_N_def)
    fix i :: nat
    assume i: "i < 256"
    show "subGeneric a b ! i \<le> A + B" "- (subGeneric a b ! i) \<le> A + B"
      unfolding n [OF i] using bounded_nth [OF assms(1) i] bounded_nth [OF assms(2) i] by linarith+
  qed
qed

section \<open>Packing\<close>

lemma int_or_shift: "0 \<le> a \<Longrightarrow> a < 2 ^ n \<Longrightarrow> a OR b * 2 ^ n = a + b * 2 ^ n" for a b :: int
  using concat_bit_eq [of n a b] by (simp add: concat_bit_def take_bit_int_eq_self push_bit_eq_mult)

lemma uint_byte: "uint (word_of_int x :: byte) = x mod 256"
  by (simp add: uint_word_of_int)

lemma and_4095: "int16 x AND 4095 = x mod 4096"
proof -
  have "int16 x AND 4095 = int16 x mod 4096"
    using take_bit_eq_mask [of 12 "int16 x"] by (simp add: take_bit_eq_mod mask_eq_exp_minus_1)
  also have "\<dots> = (int16 x mod 65536) mod 4096"
    by (simp add: mod_mod_cancel)
  also have "\<dots> = x mod 4096"
    unfolding int16_mod by (simp add: mod_mod_cancel)
  finally show ?thesis .
qed

lemma pack_pair:
  assumes "0 \<le> t0" "t0 < 4096" "0 \<le> t1" "t1 < 4096"
  defines "b0 \<equiv> word_of_int t0 :: byte" and "b1 \<equiv> word_of_int (shr t0 8) OR word_of_int (int16 (shl t1 4)) :: byte"
    and "b2 \<equiv> word_of_int (shr t1 4) :: byte"
  shows "uint b0 OR (int16 (shl (uint b1) 8) AND 4095) = t0" and "uint (drop_bit 4 b1) OR int16 (shl (uint b2) 4) = t1"
proof -
  have "int16 (shl t1 4) mod 256 = (int16 (shl t1 4) mod 65536) mod 256"
    by (simp add: mod_mod_cancel)
  also have "\<dots> = t1 mod 16 * 16"
    unfolding int16_mod using mult_mod_right [of 16 t1 16] by (simp add: shl_def mod_mod_cancel mult.commute)
  finally have m: "int16 (shl t1 4) mod 256 = t1 mod 16 * 16" .
  have "uint b1 = t0 div 256 OR t1 mod 16 * 2 ^ 4"
    using assms(1,2) by (simp add: b1_def unsigned_or_eq uint_byte m shr_def)
  also have "\<dots> = t0 div 256 + t1 mod 16 * 2 ^ 4"
    using assms(1,2) by (intro int_or_shift) simp_all
  finally have b1: "uint b1 = t0 div 256 + t1 mod 16 * 16"
    by simp
  have "shl (uint b1) 8 mod 4096 = (t0 div 256) * 256"
    using assms(1,2) by (simp add: shl_def b1)
  then have "uint b0 OR (int16 (shl (uint b1) 8) AND 4095) = t0 mod 256 OR t0 div 256 * 2 ^ 8"
    by (simp add: and_4095 b0_def uint_byte)
  also have "\<dots> = t0"
    by (subst int_or_shift) simp_all
  finally show "uint b0 OR (int16 (shl (uint b1) 8) AND 4095) = t0" .
  have "uint (drop_bit 4 b1) = t1 mod 16"
    using assms(1,2) by (simp add: b1 drop_bit_eq_div uint_div)
  moreover have "int16 (shl (uint b2) 4) = t1 div 16 * 2 ^ 4"
    using assms(3,4) by (simp add: b2_def uint_byte shr_def shl_def int16_id)
  ultimately show "uint (drop_bit 4 b1) OR int16 (shl (uint b2) 4) = t1"
    by (simp add: int_or_shift [of _ 4, simplified])
qed

lemma poly_pack_roundtrip:
  assumes "length p = 256" and "\<forall>i < 256. 0 \<le> p ! i \<and> p ! i < 4096"
  shows "length (poly_Pack p) = 384" and "poly_Unpack (poly_Pack p @ rest) = p"
proof -
  let ?g = "\<lambda>i. let t0 = p ! (2 * i); t1 = p ! (2 * i + 1) in
       [word_of_int t0 :: byte, word_of_int (shr t0 8) OR word_of_int (int16 (shl t1 4)), word_of_int (shr t1 4)]"
  have P: "poly_Pack p = concat (map ?g [0..<128])"
    by (simp add: poly_Pack_def Detangle_def)
  show "length (poly_Pack p) = 384"
    unfolding P using length_concat_groups [of 128 ?g 3] by (simp add: Let_def)
  have nth: "(poly_Pack p @ rest) ! (3 * i + j) = ?g i ! j" if "i < 128" "j < 3" for i j
  proof -
    have "(poly_Pack p @ rest) ! (3 * i + j) = drop (3 * i) (poly_Pack p @ rest) ! j"
      using that \<open>length (poly_Pack p) = 384\<close> by (intro nth_drop [symmetric]) simp
    also have "\<dots> = ?g i ! j"
      unfolding P using that(2)
      by (subst drop_concat_groups [OF _ that(1), where w = 3], simp add: Let_def, subst nth_append_left) (simp_all add: Let_def)
    finally show ?thesis .
  qed
  have "poly_Unpack (poly_Pack p @ rest) = concat (map (\<lambda>i. map (\<lambda>j. p ! (2 * i + j)) [0..<2]) [0..<128])"
    unfolding poly_Unpack_def Tangle_def
  proof (intro arg_cong [where f = concat] map_cong refl)
    fix i
    assume "i \<in> set [0..<128]"
    then have i: "i < 128" "2 * i < 256" "2 * i + 1 < 256" by simp_all
    note pr = pack_pair [of "p ! (2 * i)" "p ! (2 * i + 1)"]
    have "[0..<2] = [0, 1 :: nat]" by (simp add: upt_rec)
    then show "[uint ((poly_Pack p @ rest) ! (3 * i)) OR (int16 (shl (uint ((poly_Pack p @ rest) ! (3 * i + 1))) 8) AND 4095),
        uint (drop_bit 4 ((poly_Pack p @ rest) ! (3 * i + 1))) OR int16 (shl (uint ((poly_Pack p @ rest) ! (3 * i + 2))) 4)] =
        map (\<lambda>j. p ! (2 * i + j)) [0..<2]"
      using nth [OF i(1), of 0] nth [OF i(1), of 1] nth [OF i(1), of 2] pr assms(2) i by (simp add: Let_def)
  qed
  also have "\<dots> = map (\<lambda>i. p ! i) [0..<256]"
    using concat_map_groups [of "\<lambda>i. p ! i" 2 128] by simp
  also have "\<dots> = p"
    using assms(1) map_nth [of p] by simp
  finally show "poly_Unpack (poly_Pack p @ rest) = p" .
qed

section \<open>Messages\<close>

text \<open>Compression to one bit: the bit is set exactly on the residues 833 to 2496.\<close>

lemma message_bit:
  assumes "0 \<le> x" "x < 3329"
  shows "(word_of_int (shr (int16 ((shr (int16 (1664 - x)) 15 XOR int16 (1664 - x)) - 832)) 15) AND 1 :: byte) =
    (if 833 \<le> x \<and> x \<le> 2496 then 1 else 0)"
proof -
  define y where "y = 1664 - x"
  have y: "- 1664 \<le> y" "y \<le> 1664"
    using assms by (simp_all add: y_def)
  define z where "z = (if 0 \<le> y then y else - y - 1)"
  have "shr y 15 = (if 0 \<le> y then 0 else - 1)"
    unfolding shr_def using y by (auto intro!: div_eqI)
  then have z: "shr y 15 XOR y = z"
    by (simp add: z_def not_int_def)
  have "int16 (z - 832) = z - 832" "int16 y = y"
    using y by (auto simp: z_def intro!: int16_id)
  moreover have "shr (z - 832) 15 = (if z < 832 then - 1 else 0)"
    unfolding shr_def using y by (auto simp: z_def intro!: div_eqI)
  ultimately have "shr (int16 ((shr (int16 y) 15 XOR int16 y) - 832)) 15 = (if z < 832 then - 1 else 0)"
    by (simp add: z)
  moreover have "z < 832 \<longleftrightarrow> 833 \<le> x \<and> x \<le> 2496"
    by (auto simp: z_def y_def)
  ultimately show ?thesis
    by (simp add: y_def)
qed

lemma DecompressMessage_nth:
  "length (DecompressMessage m) = 256"
  "i < 32 \<Longrightarrow> j < 8 \<Longrightarrow> DecompressMessage m ! (8 * i + j) = (if bit (m ! i) j then 1665 else 0)"
proof -
  let ?h = "\<lambda>i. if bit (m ! (i div 8)) (i mod 8) then 1665 else 0 :: int"
  have b: "int16 (- uint (drop_bit j b AND 1)) AND 1665 = (if bit b j then 1665 else 0)" if "j < 8" for j and b :: byte
    by (cases "bit b j") (simp_all add: bit_iff_odd_drop_bit and_one_eq odd_iff_mod_2_eq_one int16_def)
  have "DecompressMessage m = concat (map (\<lambda>i. map (\<lambda>j. ?h (8 * i + j)) [0..<8]) [0..<32])"
    unfolding DecompressMessage_def by (intro arg_cong [where f = concat] map_cong refl) (simp add: b kyber_Q_def Let_def)
  also have "\<dots> = map ?h [0..<256]"
    using concat_map_groups [of ?h 8 32] by simp
  finally have D: "DecompressMessage m = map ?h [0..<256]" .
  show "length (DecompressMessage m) = 256"
    by (simp add: D)
  show "i < 32 \<Longrightarrow> j < 8 \<Longrightarrow> DecompressMessage m ! (8 * i + j) = (if bit (m ! i) j then 1665 else 0)"
    by (simp add: D)
qed

lemma fold_or_bits:
  "n \<le> 8 \<Longrightarrow> bit (fold (\<lambda>j mi. mi OR push_bit j (if P j then 1 else 0)) [0..<n] (0 :: byte)) k \<longleftrightarrow> k < n \<and> P k"
proof (induction n)
  case 0
  then show ?case by simp
next
  case (Suc n)
  have "bit (push_bit n (if P n then 1 else 0) :: byte) k \<longleftrightarrow> k = n \<and> P n"
    using Suc.prems by (auto simp: bit_simps)
  with Suc show ?case
    by (auto simp: bit_or_iff less_Suc_eq)
qed

lemma CompressMessageTo_spec:
  assumes "normalized p" and "length m = 32"
    and "\<And>i j. i < 32 \<Longrightarrow> j < 8 \<Longrightarrow> bit (m ! i) j \<longleftrightarrow> 833 \<le> p ! (8 * i + j) \<and> p ! (8 * i + j) \<le> 2496"
  shows "CompressMessageTo p = m"
proof (rule nth_equalityI)
  show "length (CompressMessageTo p) = length m"
    using assms(2) by (simp add: CompressMessageTo_def)
  fix i
  assume "i < length (CompressMessageTo p)"
  then have i: "i < 32" by (simp add: CompressMessageTo_def)
  let ?P = "\<lambda>j. 833 \<le> p ! (8 * i + j) \<and> p ! (8 * i + j) \<le> 2496"
  have b: "(word_of_int (shr (int16 ((shr (int16 (1664 - p ! (8 * i + j))) 15 XOR int16 (1664 - p ! (8 * i + j))) - 832)) 15) AND 1 :: byte) =
      (if ?P j then 1 else 0)" if "j < 8" for j
    using assms(1) i that by (intro message_bit) (simp_all add: normalized_def)
  have "CompressMessageTo p ! i = fold (\<lambda>j mi. mi OR push_bit j (word_of_int (shr (int16 ((shr (int16 (1664 - p ! (8 * i + j))) 15 XOR
      int16 (1664 - p ! (8 * i + j))) - 832)) 15) AND 1)) [0..<8] 0"
    using i unfolding CompressMessageTo_def Let_def by (subst nth_map) simp_all
  also have "\<dots> = fold (\<lambda>j mi. mi OR push_bit j (if ?P j then 1 else 0)) [0..<8] 0"
    by (intro fold_cong refl ext) (simp only: b atLeastLessThan_upt [symmetric] atLeastLessThan_iff)
  finally have "CompressMessageTo p ! i = fold (\<lambda>j mi. mi OR push_bit j (if ?P j then 1 else 0)) [0..<8] 0" .
  then show "CompressMessageTo p ! i = m ! i"
    using fold_or_bits [of 8 ?P] assms(3) [OF i] by (intro bit_word_eqI) simp
qed

section \<open>Properties of the polynomial operations\<close>

text \<open>C35: CompressTo computes the rounded quotient of the specification, although it multiplies by 315
  or 20642679 and shifts instead of dividing by q; Decompress of its output is, coefficient by
  coefficient, the specified decompression, is normalized, and differs from the original modulo q by
  at most q / 2^(d+1), rounded to the nearest integer.\<close>

theorem compress_exact:
  assumes "d \<in> {4, 5, 10, 11}" and "normalized p"
  shows "\<exists>m p'. poly_CompressTo p d = Ok m \<and> length m = 32 * d \<and> poly_Decompress (m @ rest) d = Ok p' \<and> normalized p' \<and>
    (\<forall>i < 256. p' ! i = decompress_spec d (compress_spec d (p ! i)) \<and>
       (\<exists>e. \<bar>e\<bar> \<le> (3329 + 2 ^ d) div 2 ^ (d + 1) \<and> (p' ! i) mod 3329 = (p ! i + e) mod 3329))"
proof -
  obtain m where m: "poly_CompressTo p d = Ok m" "length m = 32 * d"
      "poly_Decompress (m @ rest) d = Ok (map (\<lambda>i. decompress_spec d (compress_spec d (p ! i))) [0..<256])"
    using compress_roundtrip [OF assms] by blast
  have "0 \<le> decompress_spec d (compress_spec d x) \<and> decompress_spec d (compress_spec d x) < 3329" for x
    by (rule decompress_bounds [OF assms(1)]) (simp_all add: compress_spec_def)
  moreover have "\<exists>e. \<bar>e\<bar> \<le> (3329 + 2 ^ d) div 2 ^ (d + 1) \<and> decompress_spec d (compress_spec d (p ! i)) mod 3329 = (p ! i + e) mod 3329"
    if "i < 256" for i
    using compress_error [OF _ _ assms(1), of "p ! i"] assms(2) that by (simp add: normalized_def kcong_def)
  ultimately show ?thesis
    by (intro exI conjI) (rule m, rule m, rule m, simp_all add: normalized_def)
qed

theorem compress_exact_witness:
  "\<exists>m p'. poly_CompressTo (replicate 256 3328) 10 = Ok m \<and> length m = 32 * 10 \<and> poly_Decompress (m @ [5]) 10 = Ok p' \<and> normalized p' \<and>
    (\<forall>i < 256. p' ! i = decompress_spec 10 (compress_spec 10 (replicate 256 3328 ! i)) \<and>
       (\<exists>e. \<bar>e\<bar> \<le> (3329 + 2 ^ 10) div 2 ^ (10 + 1) \<and> (p' ! i) mod 3329 = (replicate 256 3328 ! i + e) mod 3329))"
  by (rule compress_exact) (simp_all add: normalized_def)

end
