(* ===== verification/Kyber_Ring.thy ===== *)
theory Kyber_Ring
  imports Kyber_Poly
begin

text \<open>
  The ring of polynomials modulo q and \<open>X^256 + 1\<close>, which the representation of Kyber stands for. A
  polynomial is known modulo q by its values at the 128 leaves of the transform, each a residue modulo
  \<open>X^2 - w\<close>; ring identities are proved there. The theorems relate the transforms of
  \<^verbatim>\<open>circl/pke/kyber/internal/common\<close> to the ring.
\<close>


definition pcong :: "Poly \<Rightarrow> Poly \<Rightarrow> bool" where
  "pcong a b \<longleftrightarrow> (\<forall>i < 256. kcong (a ! i) (b ! i))"

definition padd :: "Poly \<Rightarrow> Poly \<Rightarrow> Poly" where
  "padd a b = map (\<lambda>i. a ! i + b ! i) [0..<256]"

definition psub :: "Poly \<Rightarrow> Poly \<Rightarrow> Poly" where
  "psub a b = map (\<lambda>i. a ! i - b ! i) [0..<256]"

lemma pcong_refl [simp, intro]: "pcong a a"
  by (simp add: pcong_def)

lemma pcong_sym: "pcong a b \<Longrightarrow> pcong b a"
  by (simp add: pcong_def kcong_sym)

lemma pcong_trans [trans]: "pcong a b \<Longrightarrow> pcong b c \<Longrightarrow> pcong a c"
  by (auto simp: pcong_def intro: kcong_trans)

lemma pcong_padd: "pcong a b \<Longrightarrow> pcong c d \<Longrightarrow> pcong (padd a c) (padd b d)"
  by (simp add: pcong_def padd_def kcong_add)

lemma pcong_psub: "pcong a b \<Longrightarrow> pcong c d \<Longrightarrow> pcong (psub a c) (psub b d)"
  by (simp add: pcong_def psub_def kcong_diff)

lemma pcong_normalized: "pcong a b \<Longrightarrow> normalized a \<Longrightarrow> normalized b \<Longrightarrow> a = b"
  by (intro nth_equalityI) (simp_all add: pcong_def normalized_def kcong_def)

section \<open>Values at the leaves\<close>

definition ev :: "Poly \<Rightarrow> nat \<Rightarrow> nat \<Rightarrow> int" where
  "ev p e r = remW p 2 128 (nodeW (128 + e)) r"

definition leaves :: "Poly \<Rightarrow> Poly" where
  "leaves p = map (\<lambda>i. ev p (i div 2) (i mod 2)) [0..<256]"

lemma transformed_leaves: "transformed a 2 128 h \<longleftrightarrow> pcong h (leaves a)"
proof -
  have "transformed a 2 128 h \<longleftrightarrow> (\<forall>e < 128. \<forall>r < 2. kcong (h ! (e * 2 + r)) (leaves a ! (e * 2 + r)))"
    by (simp add: transformed_def leaves_def ev_def)
  also have "\<dots> \<longleftrightarrow> pcong h (leaves a)"
    unfolding pcong_def
  proof (intro iffI allI impI)
    fix i :: nat
    assume *: "\<forall>e<128. \<forall>r<2. kcong (h ! (e * 2 + r)) (leaves a ! (e * 2 + r))" and "i < 256"
    then have "i div 2 < 128" "i mod 2 < 2" "i div 2 * 2 + i mod 2 = i" by simp_all
    with * show "kcong (h ! i) (leaves a ! i)" by metis
  qed simp
  finally show ?thesis .
qed

lemma scaledT_leaves: "scaledT c a 2 128 h \<longleftrightarrow> pcong h (map (\<lambda>x. c * x) (leaves a))"
proof -
  have "scaledT c a 2 128 h \<longleftrightarrow> (\<forall>e < 128. \<forall>r < 2. kcong (h ! (e * 2 + r)) (c * leaves a ! (e * 2 + r)))"
    by (simp add: scaledT_def leaves_def ev_def)
  also have "\<dots> \<longleftrightarrow> (\<forall>i < 256. kcong (h ! i) (c * leaves a ! i))"
  proof (intro iffI allI impI)
    fix i :: nat
    assume *: "\<forall>e<128. \<forall>r<2. kcong (h ! (e * 2 + r)) (c * leaves a ! (e * 2 + r))" and "i < 256"
    then have "i div 2 < 128" "i mod 2 < 2" "i div 2 * 2 + i mod 2 = i" by simp_all
    with * show "kcong (h ! i) (c * leaves a ! i)" by metis
  qed simp
  finally show ?thesis
    by (simp add: pcong_def leaves_def)
qed

lemma leaves_inj:
  assumes "pcong (leaves a) (leaves b)"
  shows "pcong a b"
proof -
  let ?P = "map (\<lambda>x. x mod 3329) (leaves a)"
  have P: "pcong ?P (leaves a)"
    by (simp add: pcong_def leaves_def kcong_def)
  have "bounded 3329 ?P"
    by (simp add: bounded_def leaves_def abs_if less_imp_le)
  moreover have "scaledT 1 a 2 128 ?P" "scaledT 1 b 2 128 ?P"
    using P pcong_trans [OF P assms] by (simp_all only: scaledT_leaves mult_1 list.map_ident)
  ultimately obtain r where r: "invNTTGeneric ?P = Some r" "\<forall>i < 256. kcong (r ! i) (65536 * 1 * a ! i)"
      "\<forall>i < 256. kcong (r ! i) (65536 * 1 * b ! i)"
    using invNTTGeneric_spec [of ?P 1 a] invNTTGeneric_spec [of ?P 1 b] by force
  then have "kcong (a ! i * 65536) (b ! i * 65536)" if "i < 256" for i
    using kcong_trans [OF kcong_sym, of "r ! i" "65536 * 1 * a ! i" "65536 * 1 * b ! i"] that by (simp only: mult_1_right mult_1_left mult.commute)
  then show ?thesis
    by (simp add: pcong_def kcong_cancel_R)
qed

text \<open>
  Every vector of 256 residues is the transform of a polynomial: the transform is injective on the
  finite set of normalized polynomials, hence onto. A matrix sampled directly in the transformed domain
  thus is the transform of a matrix of polynomials.
\<close>

lemma leaves_surj:
  obtains a where "normalized a" and "pcong h (leaves a)"
proof -
  let ?S = "{p. normalized p}" and ?F = "\<lambda>p. map (\<lambda>x. x mod 3329) (leaves p)"
  have n: "normalized (map (\<lambda>i. f i mod 3329) [0..<256])" for f
    by (simp add: normalized_def)
  have "?S \<subseteq> {p. set p \<subseteq> {0..<3329} \<and> length p = 256}"
    by (auto simp: normalized_def in_set_conv_nth)
  then have fin: "finite ?S"
    by (rule finite_subset) (simp add: finite_lists_length_eq)
  have c: "pcong (?F p) (leaves p)" for p
    by (simp add: pcong_def leaves_def kcong_def)
  have "inj_on ?F ?S"
  proof (rule inj_onI)
    fix a b
    assume "a \<in> ?S" "b \<in> ?S" "?F a = ?F b"
    then show "a = b"
      using leaves_inj [of a b] pcong_trans [OF pcong_sym [OF c] c [of b]] pcong_sym [OF c [of a]] pcong_trans [OF _ c [of b]]
      by (metis mem_Collect_eq pcong_normalized)
  qed
  moreover have "?F ` ?S \<subseteq> ?S"
    using n by (auto simp: leaves_def comp_def)
  ultimately have "?F ` ?S = ?S"
    using fin by (intro endo_inj_surj)
  moreover have "map (\<lambda>i. h ! i mod 3329) [0..<256] \<in> ?S"
    using n by simp
  ultimately obtain a where a: "normalized a" "?F a = map (\<lambda>i. h ! i mod 3329) [0..<256]"
    by (metis (no_types, lifting) imageE mem_Collect_eq)
  have "pcong h (?F a)"
    by (simp only: a(2)) (simp add: pcong_def kcong_def)
  from that [OF a(1) pcong_trans [OF this c]] show thesis .
qed

section \<open>Ring operations at a leaf\<close>

text \<open>The product of two residues modulo \<open>X^2 - w\<close>, by coefficient.\<close>

definition hmul :: "int \<Rightarrow> (nat \<Rightarrow> int) \<Rightarrow> (nat \<Rightarrow> int) \<Rightarrow> nat \<Rightarrow> int" where
  "hmul w f g r = (if r = 0 then f 0 * g 0 + w * (f 1 * g 1) else f 0 * g 1 + f 1 * g 0)"

lemma hmul_commute: "hmul w f g r = hmul w g f r"
  by (simp add: hmul_def algebra_simps)

lemma hmul_assoc: "hmul w (hmul w f g) h r = hmul w f (hmul w g h) r"
  by (simp add: hmul_def algebra_simps)

lemma hmul_add: "hmul w (\<lambda>r. f r + g r) h r = hmul w f h r + hmul w g h r"
  by (simp add: hmul_def algebra_simps)

lemma hmul_cong: "(\<And>r. r < 2 \<Longrightarrow> kcong (f r) (f' r)) \<Longrightarrow> (\<And>r. r < 2 \<Longrightarrow> kcong (g r) (g' r)) \<Longrightarrow> kcong (hmul w f g r) (hmul w f' g' r)"
  by (simp add: hmul_def kcong_add kcong_mult)

lemma ev_padd: "r < 2 \<Longrightarrow> ev (padd a b) e r = ev a e r + ev b e r"
  by (simp add: ev_def remW_def padd_def sum.distrib [symmetric] algebra_simps)

lemma ev_psub: "r < 2 \<Longrightarrow> ev (psub a b) e r = ev a e r - ev b e r"
  by (simp add: ev_def remW_def psub_def sum_subtractf [symmetric] algebra_simps)

lemma ev_negmul:
  assumes "e < 128" "r < 2"
  shows "kcong (ev (negmul a b) e r) (hmul (nodeW (128 + e)) (ev a e) (ev b e) r)"
  using remW_negmul_cong [OF leaf_root [OF assms(1)], of a b] assms(2)
  by (cases "r = 0") (simp_all add: ev_def hmul_def less_Suc_eq numeral_2_eq_2)

lemma ev_cong:
  assumes "pcong a b" "r < 2"
  shows "kcong (ev a e r) (ev b e r)"
  using assms unfolding ev_def remW_def pcong_def by (intro kcong_sum kcong_mult kcong_refl) simp

text \<open>Polynomials with congruent values at every leaf are congruent.\<close>

lemma ev_inj:
  assumes "\<And>e r. e < 128 \<Longrightarrow> r < 2 \<Longrightarrow> kcong (ev a e r) (ev b e r)"
  shows "pcong a b"
proof (rule leaves_inj)
  show "pcong (leaves a) (leaves b)"
    unfolding pcong_def leaves_def using assms by simp
qed

lemma pcong_negmul: "pcong a a' \<Longrightarrow> pcong b b' \<Longrightarrow> pcong (negmul a b) (negmul a' b')"
  by (rule ev_inj, rule kcong_trans [OF ev_negmul kcong_trans [OF hmul_cong kcong_sym [OF ev_negmul]]])
    (simp_all add: ev_cong)

section \<open>The transforms\<close>

lemma ntt_leaves:
  assumes "bounded B p" "B \<le> 9471"
  shows "pcong (nttGeneric p) (leaves p)" and "bounded (B + 23296) (nttGeneric p)"
  using nttGeneric_transformed [OF assms] by (simp_all add: transformed_leaves)

lemma mulHat_leaves:
  assumes "pcong ah (leaves a)" and "pcong bh (leaves b)" and "bounded A ah" and "bounded B bh" and "A * B < 109084672" and "length p = 256"
  shows "bounded 6656 (mulHatGeneric p ah bh)" and "pcong (mulHatGeneric p ah bh) (map (\<lambda>x. 169 * x) (leaves (negmul a b)))"
proof -
  have "mulOk ah bh"
    unfolding mulOk_def
  proof (intro allI impI)
    fix i j :: nat
    assume "i < 256" "j < 256"
    then have "\<bar>ah ! i\<bar> \<le> A" "\<bar>bh ! j\<bar> \<le> B"
      using assms(3,4) by (simp_all add: bounded_def)
    then have "\<bar>ah ! i * bh ! j\<bar> \<le> A * B"
      unfolding abs_mult by (intro mult_mono) auto
    then show "\<bar>ah ! i * bh ! j\<bar> < 109084672"
      using assms(5) by linarith
  qed
  with mulHat_transformed [of a ah b bh p] assms(1,2,6)
  show "bounded 6656 (mulHatGeneric p ah bh)" and "pcong (mulHatGeneric p ah bh) (map (\<lambda>x. 169 * x) (leaves (negmul a b)))"
    by (simp_all add: transformed_leaves scaledT_leaves)
qed

text \<open>The inverse transform of a vector that carries the factor 1/R gives the polynomial without it.\<close>

lemma invNTT_leaves:
  assumes "bounded 3329 p" and "pcong p (map (\<lambda>x. 169 * x) (leaves a))"
  shows "\<exists>r. invNTTGeneric p = Some r \<and> bounded 3328 r \<and> pcong r a"
proof -
  obtain r where r: "invNTTGeneric p = Some r" "bounded 3328 r" "\<forall>i < 256. kcong (r ! i) (65536 * 169 * a ! i)"
    using invNTTGeneric_spec [OF assms(1), of 169 a] assms(2) by (auto simp: scaledT_leaves)
  have "kcong (65536 * 169 * x) x" for x
  proof -
    have "65536 * 169 * x - x = 3329 * (x * 3327)" by simp
    then show ?thesis unfolding kcong_iff by (metis dvd_triv_left)
  qed
  with r show ?thesis
    unfolding pcong_def using kcong_trans by blast
qed

text \<open>C19: multiplication through the transforms is multiplication of polynomials modulo q and
  \<open>X^256 + 1\<close>. With coefficients of absolute value at most q, transforming both factors (reducing one),
  multiplying with MulHat, reducing and transforming back with InvNTT returns, without reading past the
  table of reductions, coefficients of absolute value below q that are congruent to those of the
  product.\<close>

theorem ntt_product:
  assumes "bounded 3329 a" and "bounded 3329 b" and "length p = 256"
  shows "\<exists>r. invNTTGeneric (barrettReduceGeneric (mulHatGeneric p (barrettReduceGeneric (nttGeneric a)) (nttGeneric b))) = Some r \<and>
    bounded 3328 r \<and> pcong r (negmul a b)"
proof -
  note na = ntt_leaves [OF assms(1)] and nb = ntt_leaves [OF assms(2)]
  have "bounded 3329 (barrettReduceGeneric (nttGeneric a))" "pcong (barrettReduceGeneric (nttGeneric a)) (nttGeneric a)"
    using barrettReduceGeneric_spec [OF na(2)] by (simp_all add: pcong_def)
  note m = mulHat_leaves [OF pcong_trans [OF this(2) na(1)] nb(1) this(1) nb(2) _ assms(3)]
  let ?m = "mulHatGeneric p (barrettReduceGeneric (nttGeneric a)) (nttGeneric b)"
  have "bounded 3329 (barrettReduceGeneric ?m)" "pcong (barrettReduceGeneric ?m) ?m"
    using barrettReduceGeneric_spec [OF m(1)] by (simp_all add: pcong_def)
  with m(2) show ?thesis
    by (intro invNTT_leaves) (auto intro: pcong_trans)
qed

theorem ntt_product_witness:
  "\<exists>r. invNTTGeneric (barrettReduceGeneric (mulHatGeneric (replicate 256 0)
      (barrettReduceGeneric (nttGeneric (replicate 256 1665))) (nttGeneric (replicate 256 (- 2))))) = Some r \<and>
    bounded 3328 r \<and> pcong r (negmul (replicate 256 1665) (replicate 256 (- 2)))"
  by (rule ntt_product) (simp_all add: bounded_def)

text \<open>InvNTT undoes NTT up to the Montgomery factor R = 2^16, for coefficients of absolute value at
  most q that are reduced in between.\<close>

theorem ntt_inverse:
  assumes "bounded 3329 a"
  shows "\<exists>r. invNTTGeneric (barrettReduceGeneric (nttGeneric a)) = Some r \<and> bounded 3328 r \<and>
    (\<forall>i < 256. (r ! i) mod 3329 = (65536 * a ! i) mod 3329)"
proof -
  note na = ntt_leaves [OF assms]
  have b: "bounded 3329 (barrettReduceGeneric (nttGeneric a))" "pcong (barrettReduceGeneric (nttGeneric a)) (nttGeneric a)"
    using barrettReduceGeneric_spec [OF na(2)] by (simp_all add: pcong_def)
  have "scaledT 1 a 2 128 (barrettReduceGeneric (nttGeneric a))"
    using pcong_trans [OF b(2) na(1)] by (simp add: scaledT_leaves)
  from invNTTGeneric_spec [OF b(1) this] show ?thesis
    by (simp add: kcong_def)
qed

end
