(* ===== verification/Kyber_Sample.thy ===== *)
theory Kyber_Sample
  imports Kyber_Ring
begin

text \<open>
  Sampling of Kyber's polynomials: \<^verbatim>\<open>circl/pke/kyber/internal/common/sample.go\<close>. An extendable-output
  function of \<^verbatim>\<open>circl/internal/sha3\<close> is a parameter \<open>xof\<close>: after absorbing a byte string it gives the byte
  at every position of its output stream. The portable samplers are modelled, not the four-way one.

  The theorems: the noise samplers, which add masked 64-bit words, are the bit-counting sampler of the
  specification; rejection sampling returns as soon as the stream has given 256 residues, and returns
  exactly these. Rejection sampling may run forever on a bad stream and is a partial function.
\<close>

section \<open>Samplers\<close>


type_synonym xof = "bytes \<Rightarrow> nat \<Rightarrow> byte"

definition xread :: "xof \<Rightarrow> bytes \<Rightarrow> nat \<Rightarrow> nat \<Rightarrow> bytes" where
  "xread x inp pos n = map (x inp) [pos..<pos + n]"

definition LittleEndian_Uint64 :: "bytes \<Rightarrow> 64 word" where
  "LittleEndian_Uint64 b =
     ucast (b ! 0) OR push_bit 8 (ucast (b ! 1)) OR push_bit 16 (ucast (b ! 2)) OR push_bit 24 (ucast (b ! 3)) OR
     push_bit 32 (ucast (b ! 4)) OR push_bit 40 (ucast (b ! 5)) OR push_bit 48 (ucast (b ! 6)) OR push_bit 56 (ucast (b ! 7))"

primrec noiseLoop :: "nat \<Rightarrow> int \<Rightarrow> nat \<Rightarrow> 64 word \<Rightarrow> int list" where
  "noiseLoop k m 0 d = []"
| "noiseLoop k m (Suc n) d =
     (let a = int16 (uint d) AND m; d = drop_bit k d;
          b = int16 (uint d) AND m; d = drop_bit k d
      in int16 (a - b) # noiseLoop k m n d)"

definition DeriveNoise3 :: "xof \<Rightarrow> bytes \<Rightarrow> byte \<Rightarrow> Poly" where
  "DeriveNoise3 shake256 seed nonce =
     (let buf = xread shake256 (seed @ [nonce]) 0 192 @ [0, 0] in
      concat (map (\<lambda>i.
        let t = LittleEndian_Uint64 (drop (6 * i) buf);
            d = t AND 0x249249249249;
            d = d + (drop_bit 1 t AND 0x249249249249);
            d = d + (drop_bit 2 t AND 0x249249249249)
        in noiseLoop 3 7 8 d) [0..<32]))"

definition DeriveNoise2 :: "xof \<Rightarrow> bytes \<Rightarrow> byte \<Rightarrow> Poly" where
  "DeriveNoise2 shake256 seed nonce =
     (let buf = xread shake256 (seed @ [nonce]) 0 128 in
      concat (map (\<lambda>i.
        let t = LittleEndian_Uint64 (drop (8 * i) buf);
            d = t AND 0x5555555555555555;
            d = d + (drop_bit 1 t AND 0x5555555555555555)
        in noiseLoop 2 3 16 d) [0..<16]))"

definition DeriveNoise :: "xof \<Rightarrow> bytes \<Rightarrow> byte \<Rightarrow> nat \<Rightarrow> Poly res" where
  "DeriveNoise shake256 seed nonce eta =
     (if eta = 2 then Ok (DeriveNoise2 shake256 seed nonce)
      else if eta = 3 then Ok (DeriveNoise3 shake256 seed nonce)
      else Panic ''unsupported eta'')"

fun uniformTriples :: "bytes \<Rightarrow> int list \<Rightarrow> int list" where
  "uniformTriples (b0 # b1 # b2 # rest) p =
     (let t1 = (uint b0 OR shl (uint b1) 8) AND 4095;
          t2 = (uint (drop_bit 4 b1) OR shl (uint b2) 4) AND 4095;
          p1 = (if t1 < kyber_Q then p @ [t1] else p)
      in if t1 < kyber_Q \<and> length p1 = kyber_N then p1
      else let p2 = (if t2 < kyber_Q then p1 @ [t2] else p1)
      in if t2 < kyber_Q \<and> length p2 = kyber_N then p2
      else uniformTriples rest p2)"
| "uniformTriples _ p = p"

partial_function (option) uniformLoop :: "xof \<Rightarrow> bytes \<Rightarrow> nat \<Rightarrow> int list \<Rightarrow> Poly option" where
  "uniformLoop shake128 inp pos p =
     (let p' = uniformTriples (xread shake128 inp pos 168) p in
      if length p' = kyber_N then Some p' else uniformLoop shake128 inp (pos + 168) p')"

definition DeriveUniform :: "xof \<Rightarrow> bytes \<Rightarrow> byte \<Rightarrow> byte \<Rightarrow> Poly option" where
  "DeriveUniform shake128 seed x y =
     (case uniformLoop shake128 (seed @ [x, y]) 0 [] of None \<Rightarrow> None | Some p \<Rightarrow> Some (Tangle p))"

section \<open>Centred binomial noise\<close>

text \<open>Bit \<open>n\<close> of a byte string, least significant bits first, and the sampling by bit counts.\<close>

definition bitval :: "bytes \<Rightarrow> nat \<Rightarrow> int" where
  "bitval b n = of_bool (bit (b ! (n div 8)) (n mod 8))"

definition cbd :: "nat \<Rightarrow> bytes \<Rightarrow> nat \<Rightarrow> int" where
  "cbd eta b c = (\<Sum>j<eta. bitval b (2 * eta * c + j)) - (\<Sum>j<eta. bitval b (2 * eta * c + eta + j))"

lemma bit_LittleEndian_Uint64: "n < 64 \<Longrightarrow> bit (LittleEndian_Uint64 b) n \<longleftrightarrow> bit (b ! (n div 8)) (n mod 8)"
proof -
  assume n: "n < 64"
  define q m where "q = n div 8" and "m = n mod 8"
  have nq: "n = 8 * q + m" "m < 8" "n div 8 = q" "n mod 8 = m"
    by (simp_all add: q_def m_def)
  have "q < 8"
    using n by (simp add: q_def)
  then consider "q = 0" | "q = 1" | "q = 2" | "q = 3" | "q = 4" | "q = 5" | "q = 6" | "q = 7"
    by linarith
  then show ?thesis
    unfolding nq(3,4) using nq(2) by cases (simp_all add: nq(1) LittleEndian_Uint64_def bit_simps)
qed

text \<open>The number of set bits among \<open>k\<close> and the sum in place of the code's masks and shifts.\<close>

definition popk :: "nat \<Rightarrow> int \<Rightarrow> int" where
  "popk k t = (\<Sum>j<k. of_bool (bit t j))"

primrec digits :: "nat \<Rightarrow> nat \<Rightarrow> int \<Rightarrow> int" where
  "digits k 0 t = 0"
| "digits k (Suc n) t = popk k t + 2 ^ k * digits k n (t div 2 ^ k)"

lemma popk_bounds: "0 \<le> popk k t" "popk k t \<le> int k"
  unfolding popk_def using sum_bounded_above [of "{..<k}" "\<lambda>j. of_bool (bit t j)" "1 :: int"]
  by (simp_all add: sum_nonneg)

lemma digits_nth:
  assumes "int k < 2 ^ k"
  shows "j < n \<Longrightarrow> digits k n t div 2 ^ (k * j) mod 2 ^ k = popk k (t div 2 ^ (k * j))"
proof (induction n arbitrary: j t)
  case 0
  then show ?case by simp
next
  case (Suc n)
  have s: "popk k t div 2 ^ k = 0" "popk k t mod 2 ^ k = popk k t"
    using popk_bounds [of k t] assms by (intro div_pos_pos_trivial mod_pos_pos_trivial; linarith)+
  show ?case
  proof (cases j)
    case 0
    then show ?thesis using s by simp
  next
    case (Suc i)
    have "digits k (Suc n) t div 2 ^ k = digits k n (t div 2 ^ k)"
      using s by (simp add: div_plus_div_distrib_dvd_right)
    then have "digits k (Suc n) t div 2 ^ (k * j) = digits k n (t div 2 ^ k) div 2 ^ (k * i)"
      by (simp add: Suc power_add zdiv_zmult2_eq)
    moreover have "t div 2 ^ (k * j) = t div 2 ^ k div 2 ^ (k * i)"
      by (simp add: Suc power_add zdiv_zmult2_eq)
    ultimately show ?thesis
      using Suc.IH [of i "t div 2 ^ k"] Suc.prems Suc by simp
  qed
qed


primrec pat :: "nat \<Rightarrow> nat \<Rightarrow> int" where
  "pat k 0 = 0"
| "pat k (Suc n) = 1 + 2 ^ k * pat k n"

lemma and_pat: "0 < k \<Longrightarrow> t AND pat k (Suc n) = of_bool (odd t) + 2 ^ k * (t div 2 ^ k AND pat k n)"
proof -
  assume "0 < k"
  have "t AND 2 ^ j * x = 2 ^ j * (t div 2 ^ j AND x)" for j and t x :: int
    by (induction j arbitrary: t) (simp_all add: and_int_rec [of _ "2 * _"] zdiv_zmult2_eq [symmetric] mult.assoc)
  then show ?thesis
    using \<open>0 < k\<close> by (cases k) (simp_all add: and_int_rec [of t "1 + _"] div_mult2_eq zdiv_zmult2_eq)
qed

lemma digits_2: "digits 2 n t = (t AND pat 2 n) + (t div 2 AND pat 2 n)"
proof (induction n arbitrary: t)
  case (Suc n)
  have "t div 2 div 4 = t div 4 div 2"
    by (simp add: zdiv_zmult2_eq [symmetric])
  then show ?case
    unfolding digits.simps Suc by (subst (1 2) and_pat) (simp_all add: popk_def numeral_2_eq_2 bit_Suc bit_0 algebra_simps del: pat.simps)
qed simp

lemma digits_3: "digits 3 n t = (t AND pat 3 n) + (t div 2 AND pat 3 n) + (t div 4 AND pat 3 n)"
proof (induction n arbitrary: t)
  case (Suc n)
  have "t div 2 div 8 = t div 8 div 2" "t div 4 div 8 = t div 8 div 4" "t div 2 div 2 = t div 4"
    by (simp_all add: zdiv_zmult2_eq [symmetric])
  then show ?case
    unfolding digits.simps Suc by (subst (1 2 3) and_pat) (simp_all add: popk_def numeral_3_eq_3 bit_Suc bit_0 algebra_simps del: pat.simps)
qed simp

lemma int16_and_mask: "k \<le> 16 \<Longrightarrow> int16 x AND (2 ^ k - 1) = x mod 2 ^ k"
proof -
  assume k: "k \<le> 16"
  have "int16 x AND (2 ^ k - 1) = int16 x mod 2 ^ k"
    using take_bit_eq_mask [of k "int16 x"] by (simp add: take_bit_eq_mod mask_eq_exp_minus_1)
  also have "\<dots> = (int16 x mod 2 ^ 16) mod 2 ^ k"
    using k by (simp add: mod_mod_cancel le_imp_power_dvd del: power_numeral)
  also have "\<dots> = x mod 2 ^ k"
    using int16_mod [of x] mod_mod_cancel [of "2 ^ k" "2 ^ 16" x] le_imp_power_dvd [OF k, of "2 :: int"] by simp
  finally show ?thesis .
qed

lemma noiseLoop_nth:
  assumes "k \<le> 8"
  shows "noiseLoop k (2 ^ k - 1) n d = map (\<lambda>j. uint d div 2 ^ (k * (2 * j)) mod 2 ^ k - uint d div 2 ^ (k * (2 * j + 1)) mod 2 ^ k) [0..<n]"
proof (induction n arbitrary: d)
  case 0
  then show ?case by simp
next
  case (Suc n)
  let ?f = "\<lambda>d j. uint d div 2 ^ (k * (2 * j)) mod 2 ^ k - uint d div 2 ^ (k * (2 * j + 1)) mod 2 ^ k"
  have "(2 :: int) ^ k \<le> 2 ^ 8"
    using assms by (intro power_increasing) simp_all
  then have i: "int16 (x mod 2 ^ k - y mod 2 ^ k) = x mod 2 ^ k - y mod 2 ^ k" for x y
    using pos_mod_bound [of "2 ^ k" x] pos_mod_bound [of "2 ^ k" y] pos_mod_sign [of "2 ^ k" x] pos_mod_sign [of "2 ^ k" y]
    by (intro int16_id) (simp_all del: pos_mod_bound pos_mod_sign)
  have s: "?f (drop_bit k (drop_bit k d)) j = ?f d (Suc j)" for j
    by (simp add: uint_drop zdiv_zmult2_eq [symmetric] power_add [symmetric] algebra_simps)
  have "noiseLoop k (2 ^ k - 1) (Suc n) d = ?f d 0 # map (\<lambda>j. ?f d (Suc j)) [0..<n]"
    unfolding noiseLoop.simps Let_def Suc s using assms by (simp add: int16_and_mask uint_drop i)
  also have "\<dots> = map (?f d) [0..<Suc n]"
    by (simp only: map_upt_Suc)
  finally show ?case .
qed

lemma popk_div: "popk k (t div 2 ^ n) = (\<Sum>i<k. of_bool (bit t (n + i)))"
  by (simp add: popk_def bit_drop_bit_eq add.commute flip: drop_bit_eq_div)

lemma noise2_word: "uint ((t AND 0x5555555555555555) + (drop_bit 1 t AND 0x5555555555555555)) = digits 2 32 (uint t)" for t :: "64 word"
proof -
  have P: "pat 2 32 = 0x5555555555555555"
    by code_simp
  let ?a = "uint t AND 0x5555555555555555" and ?b = "uint t div 2 AND 0x5555555555555555"
  have "?a \<le> 0x5555555555555555" "?b \<le> 0x5555555555555555" "0 \<le> ?a" "0 \<le> ?b"
    by (simp_all add: AND_upper2)
  then have "(?a + ?b) mod 18446744073709551616 = ?a + ?b"
    by (intro mod_pos_pos_trivial) linarith+
  then show ?thesis
    unfolding digits_2 P uint_word_ariths unsigned_and_eq uint_drop by simp
qed

lemma noise3_word:
  "uint ((t AND 0x249249249249) + (drop_bit 1 t AND 0x249249249249) + (drop_bit 2 t AND 0x249249249249)) = digits 3 16 (uint t)" for t :: "64 word"
proof -
  have P: "pat 3 16 = 0x249249249249"
    by code_simp
  let ?a = "uint t AND 0x249249249249" and ?b = "uint t div 2 AND 0x249249249249" and ?c = "uint t div 4 AND 0x249249249249"
  have "?a \<le> 0x249249249249" "?b \<le> 0x249249249249" "?c \<le> 0x249249249249" "0 \<le> ?a" "0 \<le> ?b" "0 \<le> ?c"
    by (simp_all add: AND_upper2)
  then have "(?a + ?b + ?c) mod 18446744073709551616 = ?a + ?b + ?c"
    by (intro mod_pos_pos_trivial) linarith+
  then show ?thesis
    unfolding digits_3 P uint_word_ariths unsigned_and_eq uint_drop by (simp add: mod_add_left_eq)
qed

text \<open>One 64-bit step of either sampler yields the bit counts of its coefficients.\<close>

lemma noise_step:
  assumes k: "k = 2 \<or> k = 3" and n: "k * (2 * n) \<le> 64" and d: "uint d = digits k (2 * n) (uint (LittleEndian_Uint64 b))"
    and b: "\<And>m. m < 64 \<Longrightarrow> m < 2 * k * n \<Longrightarrow> bit (b ! (m div 8)) (m mod 8) = bit (buf ! ((2 * k * c + m) div 8)) ((2 * k * c + m) mod 8)"
  shows "noiseLoop k (2 ^ k - 1) n d = map (\<lambda>j. cbd k buf (c + j)) [0..<n]"
proof -
  have "uint d div 2 ^ (k * (2 * j)) mod 2 ^ k - uint d div 2 ^ (k * (2 * j + 1)) mod 2 ^ k = cbd k buf (c + j)" if "j < n" for j
  proof -
    have bits: "of_bool (bit (uint (LittleEndian_Uint64 b)) (k * h + i)) = bitval buf (2 * k * c + (k * h + i))" if "i < k" "h < 2 * n" for h i
    proof -
      have "k * h + i < k * Suc h" using that(1) by simp
      also have "\<dots> \<le> k * (2 * n)" using that(2) by (intro mult_le_mono2) simp
      finally have m: "k * h + i < 2 * k * n" "k * h + i < 64" using n by (simp_all add: mult.left_commute mult.assoc)
      then show ?thesis
        by (simp add: bit_uint_iff bit_LittleEndian_Uint64 b [OF m(2,1)] bitval_def)
    qed
    have dg: "digits k (2 * n) (uint (LittleEndian_Uint64 b)) div 2 ^ (k * h) mod 2 ^ k = (\<Sum>i<k. bitval buf (2 * k * c + (k * h + i)))" if "h < 2 * n" for h
      using k that by (subst digits_nth) (auto simp: popk_div bits)
    show ?thesis
      unfolding d using that dg [of "2 * j"] dg [of "2 * j + 1"]
      by (simp add: cbd_def algebra_simps)
  qed
  then show ?thesis
    using k by (subst noiseLoop_nth) auto
qed

lemma mask_2: "(3 :: int) = 2 ^ 2 - 1" and mask_3: "(7 :: int) = 2 ^ 3 - 1"
  by simp_all

lemma DeriveNoise2_spec: "DeriveNoise2 x seed nonce = map (cbd 2 (xread x (seed @ [nonce]) 0 128)) [0..<256]"
proof -
  let ?buf = "xread x (seed @ [nonce]) 0 128" and ?t = "\<lambda>i. LittleEndian_Uint64 (drop (8 * i) (xread x (seed @ [nonce]) 0 128))"
  have l: "length ?buf = 128"
    by (simp add: xread_def)
  have "noiseLoop 2 (2 ^ 2 - 1) 16 ((?t i AND 0x5555555555555555) + (drop_bit 1 (?t i) AND 0x5555555555555555)) =
      map (\<lambda>j. cbd 2 ?buf (16 * i + j)) [0..<16]" if "i < 16" for i
  proof (rule noise_step)
    show "uint ((?t i AND 0x5555555555555555) + (drop_bit 1 (?t i) AND 0x5555555555555555)) = digits 2 (2 * 16) (uint (?t i))"
      unfolding noise2_word by simp
    fix m :: nat
    assume m: "m < 64" "m < 2 * 2 * 16"
    have e: "2 * 2 * (16 * i) + m = m + 8 * i * 8"
      by simp
    have "(2 * 2 * (16 * i) + m) div 8 = 8 * i + m div 8" "(2 * 2 * (16 * i) + m) mod 8 = m mod 8"
      unfolding e mod_mult_self1 by simp_all
    moreover have "m div 8 < 8"
      using m(1) by (simp add: div_less_iff_less_mult)
    then have "8 * i + m div 8 < 128"
      using that by linarith
    ultimately show "bit (drop (8 * i) (?buf) ! (m div 8)) (m mod 8) = bit (?buf ! ((2 * 2 * (16 * i) + m) div 8)) ((2 * 2 * (16 * i) + m) mod 8)"
      using l by (simp add: nth_append del: mult_numeral_left_semiring_numeral)
  qed simp_all
  then have "DeriveNoise2 x seed nonce = concat (map (\<lambda>i. map (\<lambda>j. cbd 2 ?buf (16 * i + j)) [0..<16]) [0..<16])"
    unfolding DeriveNoise2_def Let_def mask_2 by (intro arg_cong [where f = concat] map_cong refl) (simp only: set_upt atLeastLessThan_iff)
  then show ?thesis
    using concat_map_groups [of "cbd 2 ?buf" 16 16] by simp
qed

lemma DeriveNoise3_spec: "DeriveNoise3 x seed nonce = map (cbd 3 (xread x (seed @ [nonce]) 0 192)) [0..<256]"
proof -
  let ?buf = "xread x (seed @ [nonce]) 0 192" and ?t = "\<lambda>i. LittleEndian_Uint64 (drop (6 * i) (xread x (seed @ [nonce]) 0 192 @ [0, 0]))"
  have l: "length ?buf = 192"
    by (simp add: xread_def)
  have "noiseLoop 3 (2 ^ 3 - 1) 8 ((?t i AND 0x249249249249) + (drop_bit 1 (?t i) AND 0x249249249249) + (drop_bit 2 (?t i) AND 0x249249249249)) =
      map (\<lambda>j. cbd 3 ?buf (8 * i + j)) [0..<8]" if "i < 32" for i
  proof (rule noise_step)
    show "uint ((?t i AND 0x249249249249) + (drop_bit 1 (?t i) AND 0x249249249249) + (drop_bit 2 (?t i) AND 0x249249249249)) = digits 3 (2 * 8) (uint (?t i))"
      unfolding noise3_word by simp
    fix m :: nat
    assume m: "m < 64" "m < 2 * 3 * 8"
    have e: "2 * 3 * (8 * i) + m = m + 6 * i * 8"
      by simp
    have "(2 * 3 * (8 * i) + m) div 8 = 6 * i + m div 8" "(2 * 3 * (8 * i) + m) mod 8 = m mod 8"
      unfolding e mod_mult_self1 by simp_all
    moreover have "m div 8 < 6"
      using m(2) by (simp add: div_less_iff_less_mult)
    then have "6 * i + m div 8 < 192"
      using that by linarith
    ultimately show "bit (drop (6 * i) (?buf @ [0, 0]) ! (m div 8)) (m mod 8) = bit (?buf ! ((2 * 3 * (8 * i) + m) div 8)) ((2 * 3 * (8 * i) + m) mod 8)"
      using l by (simp add: nth_append del: mult_numeral_left_semiring_numeral)
  qed simp_all
  then have "DeriveNoise3 x seed nonce = concat (map (\<lambda>i. map (\<lambda>j. cbd 3 ?buf (8 * i + j)) [0..<8]) [0..<32])"
    unfolding DeriveNoise3_def Let_def mask_3 by (intro arg_cong [where f = concat] map_cong refl) (simp only: set_upt atLeastLessThan_iff)
  then show ?thesis
    using concat_map_groups [of "cbd 3 ?buf" 8 32] by simp
qed

lemma cbd_bounds: "\<bar>cbd eta b c\<bar> \<le> int eta"
proof -
  have "0 \<le> (\<Sum>j<eta. bitval b (f j))" "(\<Sum>j<eta. bitval b (f j)) \<le> int eta" for f
    using sum_bounded_above [of "{..<eta}" "\<lambda>j. bitval b (f j)" 1] by (simp_all add: bitval_def sum_nonneg)
  from this [of "\<lambda>j. 2 * eta * c + j"] this [of "\<lambda>j. 2 * eta * c + eta + j"] show ?thesis
    by (simp add: cbd_def abs_le_iff)
qed

section \<open>Uniform sampling\<close>

text \<open>The 12-bit candidates of a byte string, two from every three bytes, and those that are accepted.\<close>

fun candidates :: "bytes \<Rightarrow> int list" where
  "candidates (b0 # b1 # b2 # rest) =
     (uint b0 + 256 * (uint b1 mod 16)) # (uint b1 div 16 + 16 * uint b2) # candidates rest"
| "candidates _ = []"

definition accepted :: "bytes \<Rightarrow> int list" where
  "accepted b = filter (\<lambda>t. t < 3329) (candidates b)"

lemma and_4095_mod: "(x :: int) AND 4095 = x mod 4096"
  using take_bit_eq_mask [of 12 x] by (simp add: take_bit_eq_mod mask_eq_exp_minus_1)

lemma low_digit: "0 \<le> a \<Longrightarrow> a < 256 \<Longrightarrow> (a + b * 256) mod 4096 = a + 256 * (b mod 16)" for a b :: int
proof -
  assume a: "0 \<le> a" "a < 256"
  have "a + b * 256 = (a + 256 * (b mod 16)) + 4096 * (b div 16)"
    using mult_div_mod_eq [of 16 b] by linarith
  then have "(a + b * 256) mod 4096 = (a + 256 * (b mod 16)) mod 4096"
    by (simp only: mod_mult_self2)
  also have "\<dots> = a + 256 * (b mod 16)"
    using a pos_mod_bound [of 16 b] pos_mod_sign [of 16 b] by (intro mod_pos_pos_trivial) linarith+
  finally show ?thesis .
qed

lemma candidate_bits:
  "(uint b0 OR shl (uint b1) 8) AND 4095 = uint b0 + 256 * (uint b1 mod 16)"
  "(uint (drop_bit 4 b1) OR shl (uint b2) 4) AND 4095 = uint b1 div 16 + 16 * uint b2" for b0 b1 b2 :: byte
proof -
  have b: "0 \<le> uint c" "uint c < 256" for c :: byte
    using uint_lt2p [of c] by simp_all
  have "uint b0 OR shl (uint b1) 8 = uint b0 + uint b1 * 2 ^ 8"
    unfolding shl_def using b [of b0] by (intro int_or_shift) simp_all
  then have "(uint b0 OR shl (uint b1) 8) AND 4095 = (uint b0 + uint b1 * 256) mod 4096"
    by (simp add: and_4095_mod)
  then show "(uint b0 OR shl (uint b1) 8) AND 4095 = uint b0 + 256 * (uint b1 mod 16)"
    by (simp only: low_digit [OF b])
  have "uint (drop_bit 4 b1) OR shl (uint b2) 4 = uint b1 div 16 + uint b2 * 2 ^ 4"
    unfolding shl_def uint_drop using b [of b1] by (subst int_or_shift) (simp_all add: pos_imp_zdiv_nonneg_iff)
  then have "(uint (drop_bit 4 b1) OR shl (uint b2) 4) AND 4095 = (uint b1 div 16 + uint b2 * 16) mod 4096"
    by (simp add: and_4095_mod)
  then show "(uint (drop_bit 4 b1) OR shl (uint b2) 4) AND 4095 = uint b1 div 16 + 16 * uint b2"
    using b [of b1] b [of b2] by (subst (asm) mod_pos_pos_trivial) (auto intro!: add_nonneg_nonneg simp: pos_imp_zdiv_nonneg_iff)
qed

lemma candidates_nonneg: "t \<in> set (candidates b) \<Longrightarrow> 0 \<le> t"
  by (induction b rule: candidates.induct) (auto simp: pos_imp_zdiv_nonneg_iff add_nonneg_nonneg)

lemma uniformTriples_spec: "length p < 256 \<Longrightarrow> uniformTriples b p = take 256 (p @ accepted b)"
proof (induction b arbitrary: p rule: candidates.induct)
  case (1 b0 b1 b2 rest)
  let ?t1 = "uint b0 + 256 * (uint b1 mod 16)" and ?t2 = "uint b1 div 16 + 16 * uint b2"
  let ?p1 = "if ?t1 < 3329 then p @ [?t1] else p"
  let ?p2 = "if ?t2 < 3329 then ?p1 @ [?t2] else ?p1"
  have e: "uniformTriples (b0 # b1 # b2 # rest) p =
      (if ?t1 < 3329 \<and> length ?p1 = 256 then ?p1 else if ?t2 < 3329 \<and> length ?p2 = 256 then ?p2 else uniformTriples rest ?p2)"
    by (simp only: uniformTriples.simps candidate_bits Let_def kyber_Q_def kyber_N_def)
  have a: "p @ accepted (b0 # b1 # b2 # rest) = ?p2 @ accepted rest"
    by (simp add: accepted_def)
  show ?case
  proof (cases "?t1 < 3329 \<and> length ?p1 = 256")
    case True
    then have "take 256 (?p2 @ accepted rest) = ?p1" by auto
    then show ?thesis unfolding e a if_P [OF True] by (rule sym)
  next
    case n1: False
    show ?thesis
    proof (cases "?t2 < 3329 \<and> length ?p2 = 256")
      case True
      then have "length ?p2 = 256" by (rule conjunct2)
      then show ?thesis unfolding e a if_not_P [OF n1] if_P [OF True] by (simp only: take_append take_all order_refl diff_self_eq_0 take_0 append_Nil2)
    next
      case False
      have "length ?p2 < 256"
        using 1(2) n1 False by (auto split: if_splits)
      then have "uniformTriples rest ?p2 = take 256 (?p2 @ accepted rest)"
        by (rule 1(1))
      then show ?thesis unfolding e a if_not_P [OF n1] if_not_P [OF False] .
    qed
  qed
qed (simp_all add: accepted_def)

lemma candidates_append: "3 dvd length b \<Longrightarrow> candidates (b @ c) = candidates b @ candidates c"
proof (induction b rule: candidates.induct)
  case (1 b0 b1 b2 rest)
  have "3 dvd Suc (Suc (Suc n)) \<longleftrightarrow> 3 dvd n" for n :: nat
    by presburger
  with 1 show ?case by simp
qed (simp_all, presburger+)

definition stream_prefix :: "xof \<Rightarrow> bytes \<Rightarrow> nat \<Rightarrow> bytes" where
  "stream_prefix x inp k = xread x inp 0 (168 * k)"

lemma stream_prefix_Suc: "stream_prefix x inp (Suc k) = stream_prefix x inp k @ xread x inp (168 * k) 168"
proof -
  have "[0..<168 * Suc k] = [0..<168 * k] @ [168 * k..<168 * k + 168]"
    using upt_add_eq_append [of 0 "168 * k" 168] by (simp add: add.commute)
  then show ?thesis
    by (simp add: stream_prefix_def xread_def)
qed

lemma accepted_Suc: "accepted (stream_prefix x inp (Suc k)) = accepted (stream_prefix x inp k) @ accepted (xread x inp (168 * k) 168)"
  unfolding stream_prefix_Suc accepted_def by (subst candidates_append) (simp_all add: stream_prefix_def xread_def)

text \<open>The loop returns as soon as the blocks read so far hold 256 accepted candidates.\<close>

lemma uniformLoop_spec:
  assumes "256 \<le> length (accepted (stream_prefix x inp (j + n)))"
  shows "length (accepted (stream_prefix x inp j)) < 256 \<Longrightarrow>
    uniformLoop x inp (168 * j) (accepted (stream_prefix x inp j)) = Some (take 256 (accepted (stream_prefix x inp (j + n))))"
  using assms
proof (induction n arbitrary: j)
  case 0
  then show ?case by simp
next
  case (Suc n)
  let ?a = "\<lambda>j. accepted (stream_prefix x inp j)"
  have u: "uniformTriples (xread x inp (168 * j) 168) (?a j) = take 256 (?a (Suc j))"
    using Suc.prems(1) by (simp add: uniformTriples_spec accepted_Suc)
  show ?case
  proof (cases "256 \<le> length (?a (Suc j))")
    case True
    have pre: "\<exists>c. ?a (i + m) = ?a i @ c" for i m
      by (induction m) (auto simp: accepted_Suc)
    then obtain c where "?a (Suc j + n) = ?a (Suc j) @ c" by blast
    then have "take 256 (?a (j + Suc n)) = take 256 (?a (Suc j))"
      using True by simp
    with True u show ?thesis
      by (subst uniformLoop.simps) (simp add: kyber_N_def Let_def)
  next
    case False
    then have "uniformLoop x inp (168 * j) (?a j) = uniformLoop x inp (168 * Suc j) (?a (Suc j))"
      using u by (subst uniformLoop.simps) (simp add: kyber_N_def Let_def add.commute)
    also have "\<dots> = Some (take 256 (?a (j + Suc n)))"
      using Suc.IH [of "Suc j"] False Suc.prems(2) by simp
    finally show ?thesis .
  qed
qed

lemma DeriveUniform_spec:
  assumes "256 \<le> length (accepted (stream_prefix x (seed @ [i, j]) k))"
  shows "DeriveUniform x seed i j = Some (take 256 (accepted (stream_prefix x (seed @ [i, j]) k)))"
    and "normalized (take 256 (accepted (stream_prefix x (seed @ [i, j]) k)))"
proof -
  have "accepted (stream_prefix x inp 0) = []" for inp
    by (simp add: stream_prefix_def xread_def accepted_def)
  then show "DeriveUniform x seed i j = Some (take 256 (accepted (stream_prefix x (seed @ [i, j]) k)))"
    using uniformLoop_spec [of x "seed @ [i, j]" 0 k] assms by (simp add: DeriveUniform_def Tangle_def)
  let ?a = "accepted (stream_prefix x (seed @ [i, j]) k)"
  have "0 \<le> t \<and> t < 3329" if "t \<in> set ?a" for t
    using that candidates_nonneg by (auto simp: accepted_def)
  moreover have "take 256 ?a ! n \<in> set ?a" if "n < 256" for n
    using assms that by (simp add: nth_mem)
  ultimately show "normalized (take 256 ?a)"
    using assms by (simp add: normalized_def min_def)
qed

text \<open>The stream of zero bytes, for concrete instances.\<close>

definition zero_xof :: xof where
  "zero_xof inp n = 0"

lemma candidates_zero: "candidates (replicate (3 * n) 0) = replicate (2 * n) 0"
proof (induction n)
  case (Suc n)
  have "replicate (3 * Suc n) (0 :: byte) = 0 # 0 # 0 # replicate (3 * n) 0"
    by (simp add: numeral_3_eq_3)
  with Suc show ?case by simp
qed simp

lemma zero_read: "xread zero_xof inp pos n = replicate n 0"
  by (rule nth_equalityI) (simp_all add: xread_def zero_xof_def)

lemma zero_accepted: "accepted (stream_prefix zero_xof inp k) = replicate (112 * k) 0"
  using candidates_zero [of "56 * k"] by (simp add: accepted_def stream_prefix_def zero_read filter_replicate)

section \<open>Properties\<close>

text \<open>C33: the noise samplers: whatever bytes SHAKE-256 gives, DeriveNoise2 and DeriveNoise3 return the
  centred binomial samples of the specification, coefficient c being the number of set bits among
  \<open>eta\<close> bits of the stream less the number among the next \<open>eta\<close>, although they add masked 64-bit words and
  extract digits; other values of \<open>eta\<close> panic.\<close>

theorem noise_is_cbd:
  "DeriveNoise x seed nonce eta =
    (if eta = 2 then Ok (map (cbd 2 (xread x (seed @ [nonce]) 0 128)) [0..<256])
     else if eta = 3 then Ok (map (cbd 3 (xread x (seed @ [nonce]) 0 192)) [0..<256])
     else Panic ''unsupported eta'')"
  by (simp add: DeriveNoise_def DeriveNoise2_spec DeriveNoise3_spec)

text \<open>C34: rejection sampling ends as soon as the stream has given enough: if the first k blocks of
  SHAKE-128 output hold at least 256 candidates below q, DeriveUniform returns, its result is the first
  256 of them, and it is normalized.\<close>

theorem uniform_terminates:
  assumes "256 \<le> length (accepted (stream_prefix x (seed @ [i, j]) k))"
  shows "\<exists>p. DeriveUniform x seed i j = Some p \<and> p = take 256 (accepted (stream_prefix x (seed @ [i, j]) k)) \<and> normalized p"
  using DeriveUniform_spec [OF assms] by simp

theorem uniform_terminates_witness:
  "\<exists>p. DeriveUniform zero_xof [] 1 2 = Some p \<and> p = take 256 (accepted (stream_prefix zero_xof ([] @ [1, 2]) 3)) \<and> normalized p"
  by (rule uniform_terminates) (simp add: zero_accepted)

end
