(* ===== verification/Kyber_PKE.thy ===== *)
theory Kyber_PKE
  imports Kyber_Sample KEM
begin

text \<open>
  The public-key encryption scheme Kyber768.CPAPKE: \<^verbatim>\<open>circl/pke/kyber/kyber768/internal\<close>
  (\<^verbatim>\<open>cpapke.go\<close>, \<^verbatim>\<open>mat.go\<close>, \<^verbatim>\<open>vec.go\<close>, \<^verbatim>\<open>params.go\<close>) and its package wrapper \<^verbatim>\<open>kyber768/kyber.go\<close>. The hash and
  extendable-output functions of \<^verbatim>\<open>circl/internal/sha3\<close> are the parameter \<open>sha3\<close>. Rejection sampling of the
  matrix may not end; a function that samples it returns \<open>None\<close> then.

  The main theorem is the correctness of decryption. It follows the values through key generation,
  encryption and decryption: every intermediate coefficient fits its 16 bits, every product is in the
  range of the Montgomery reduction, and the decrypted polynomial is the message polynomial plus an
  explicit noise term; when the noise is below q/4, decryption returns the message.
\<close>

section \<open>Parameters and vectors\<close>


record sha3 =
  shake128 :: xof
  shake256 :: xof
  sha3_256 :: xof
  sha3_512 :: xof

definition pke_K :: nat where "pke_K = 3"
definition pke_Eta1 :: nat where "pke_Eta1 = 2"
definition pke_Eta2 :: nat where "pke_Eta2 = 2"
definition pke_DU :: nat where "pke_DU = 10"
definition pke_DV :: nat where "pke_DV = 4"
definition PolySize :: nat where "PolySize = 384"

type_synonym Vec = "Poly list"
type_synonym Mat = "Vec list"

fun map_res :: "('a \<Rightarrow> 'b res) \<Rightarrow> 'a list \<Rightarrow> 'b list res" where
  "map_res f [] = Ok []"
| "map_res f (x # xs) = bind_res (f x) (\<lambda>y. bind_res (map_res f xs) (\<lambda>ys. Ok (y # ys)))"

text \<open>The InvNTT of one polynomial never runs past the table; where the model says \<open>None\<close> Go would panic.\<close>

definition InvNTT :: "Poly \<Rightarrow> Poly res" where
  "InvNTT p = (case invNTTGeneric p of None \<Rightarrow> Panic ''index out of range'' | Some r \<Rightarrow> Ok r)"

definition vec_DeriveNoise :: "sha3 \<Rightarrow> bytes \<Rightarrow> byte \<Rightarrow> nat \<Rightarrow> Vec res" where
  "vec_DeriveNoise H seed nonce eta = map_res (\<lambda>i. DeriveNoise (shake256 H) seed (nonce + of_nat i) eta) [0..<pke_K]"

definition PolyDotHat :: "Vec \<Rightarrow> Vec \<Rightarrow> Poly" where
  "PolyDotHat a b = fold (\<lambda>i p. addGeneric (mulHatGeneric (replicate 256 0) (a ! i) (b ! i)) p) [0..<pke_K] (replicate 256 0)"

definition vec_BarrettReduce :: "Vec \<Rightarrow> Vec" where
  "vec_BarrettReduce v = map (\<lambda>i. barrettReduceGeneric (v ! i)) [0..<pke_K]"

definition vec_Normalize :: "Vec \<Rightarrow> Vec" where
  "vec_Normalize v = map (\<lambda>i. normalizeGeneric (v ! i)) [0..<pke_K]"

definition vec_InvNTT :: "Vec \<Rightarrow> Vec res" where
  "vec_InvNTT v = map_res (\<lambda>i. InvNTT (v ! i)) [0..<pke_K]"

definition vec_NTT :: "Vec \<Rightarrow> Vec" where
  "vec_NTT v = map (\<lambda>i. nttGeneric (v ! i)) [0..<pke_K]"

definition vec_Add :: "Vec \<Rightarrow> Vec \<Rightarrow> Vec" where
  "vec_Add a b = map (\<lambda>i. addGeneric (a ! i) (b ! i)) [0..<pke_K]"

definition vec_Pack :: "Vec \<Rightarrow> bytes" where
  "vec_Pack v = concat (map (\<lambda>i. poly_Pack (v ! i)) [0..<pke_K])"

definition vec_Unpack :: "bytes \<Rightarrow> Vec" where
  "vec_Unpack buf = map (\<lambda>i. poly_Unpack (drop (PolySize * i) buf)) [0..<pke_K]"

definition compressedPolySize :: "nat \<Rightarrow> nat res" where
  "compressedPolySize d = (if d = 4 then Ok 128 else if d = 5 then Ok 160 else if d = 10 then Ok 320
     else if d = 11 then Ok 352 else Panic ''unsupported d'')"

definition vec_CompressTo :: "Vec \<Rightarrow> nat \<Rightarrow> bytes res" where
  "vec_CompressTo v d = bind_res (compressedPolySize d) (\<lambda>size.
     bind_res (map_res (\<lambda>i. poly_CompressTo (v ! i) d) [0..<pke_K]) (\<lambda>ms. Ok (concat ms)))"

definition vec_Decompress :: "bytes \<Rightarrow> nat \<Rightarrow> Vec res" where
  "vec_Decompress m d = bind_res (compressedPolySize d) (\<lambda>size.
     map_res (\<lambda>i. poly_Decompress (drop (size * i) m) d) [0..<pke_K])"

text \<open>A rejection sampler that does not end makes the whole derivation not end: \<open>None\<close>.\<close>

fun map_option_list :: "('a \<Rightarrow> 'b option) \<Rightarrow> 'a list \<Rightarrow> 'b list option" where
  "map_option_list f [] = Some []"
| "map_option_list f (x # xs) = (case f x of None \<Rightarrow> None | Some y \<Rightarrow> map_option (Cons y) (map_option_list f xs))"

definition mat_Derive :: "sha3 \<Rightarrow> bytes \<Rightarrow> bool \<Rightarrow> Mat option" where
  "mat_Derive H seed tr = map_option_list (\<lambda>i. map_option_list (\<lambda>j.
     if tr then DeriveUniform (shake128 H) seed (of_nat i) (of_nat j)
     else DeriveUniform (shake128 H) seed (of_nat j) (of_nat i)) [0..<pke_K]) [0..<pke_K]"

definition mat_swap :: "nat \<Rightarrow> nat \<Rightarrow> Mat \<Rightarrow> Mat" where
  "mat_swap i j m = (let t = m ! i ! j; m = m[i := (m ! i)[j := m ! j ! i]] in m[j := (m ! j)[i := t]])"

definition mat_Transpose :: "Mat \<Rightarrow> Mat" where
  "mat_Transpose m = fold (\<lambda>i m. fold (\<lambda>j m. mat_swap i j m) [i + 1..<pke_K] m) [0..<pke_K - 1] m"

record cpapke_PrivateKey =
  sh :: Vec

record cpapke_PublicKey =
  rho :: bytes
  th :: Vec
  aT :: Mat

definition sk_Pack :: "cpapke_PrivateKey \<Rightarrow> bytes" where
  "sk_Pack sk = vec_Pack (sh sk)"

definition sk_Unpack :: "bytes \<Rightarrow> cpapke_PrivateKey" where
  "sk_Unpack buf = \<lparr>sh = vec_Normalize (vec_Unpack buf)\<rparr>"

definition pk_Pack :: "cpapke_PublicKey \<Rightarrow> bytes" where
  "pk_Pack pk = vec_Pack (th pk) @ rho pk"

definition pk_Unpack :: "sha3 \<Rightarrow> bytes \<Rightarrow> cpapke_PublicKey option" where
  "pk_Unpack H buf =
     (let t = vec_Normalize (vec_Unpack buf);
          r = go_copy (replicate 32 0) (drop (pke_K * PolySize) buf)
      in map_option (\<lambda>A. \<lparr>rho = r, th = t, aT = A\<rparr>) (mat_Derive H r True))"

definition pk_UnpackMLKEM :: "sha3 \<Rightarrow> bytes \<Rightarrow> cpapke_PublicKey res option" where
  "pk_UnpackMLKEM H buf = (case pk_Unpack H buf of None \<Rightarrow> None
     | Some pk \<Rightarrow> let buf2 = vec_Pack (th pk) in
         Some (if take (length buf2) buf \<noteq> buf2 then Err ''invalid public key'' else Ok pk))"

definition cpapke_NewKeyFromSeed :: "sha3 \<Rightarrow> bytes \<Rightarrow> (cpapke_PublicKey \<times> cpapke_PrivateKey) res option" where
  "cpapke_NewKeyFromSeed H seed =
     (let expandedSeed = xread (sha3_512 H) seed 0 64;
          r = take 32 expandedSeed;
          sigma = drop 32 expandedSeed
      in case mat_Derive H r False of None \<Rightarrow> None
         | Some A \<Rightarrow> Some (
             bind_res (vec_DeriveNoise H sigma 0 pke_Eta1) (\<lambda>s.
             let sh = vec_Normalize (vec_NTT s) in
             bind_res (vec_DeriveNoise H sigma (of_nat pke_K) pke_Eta1) (\<lambda>e.
             let eh = vec_NTT e;
                 t = map (\<lambda>i. ToMont (PolyDotHat (A ! i) sh)) [0..<pke_K];
                 t = vec_Normalize (vec_Add t eh)
             in Ok (\<lparr>rho = r, th = t, aT = mat_Transpose A\<rparr>, \<lparr>sh = sh\<rparr>)))))"

definition cpapke_DecryptTo :: "cpapke_PrivateKey \<Rightarrow> bytes \<Rightarrow> bytes res" where
  "cpapke_DecryptTo sk ct =
     bind_res (vec_Decompress ct pke_DU) (\<lambda>u.
     bind_res (compressedPolySize pke_DU) (\<lambda>size.
     bind_res (poly_Decompress (drop (pke_K * size) ct) pke_DV) (\<lambda>v.
     let u = vec_NTT u;
         m = PolyDotHat (sh sk) u;
         m = barrettReduceGeneric m
     in bind_res (InvNTT m) (\<lambda>m.
     let m = subGeneric v m;
         m = normalizeGeneric m
     in Ok (CompressMessageTo m)))))"

text \<open>The two vectors of a ciphertext before they are compressed.\<close>

definition encrypt_uv :: "sha3 \<Rightarrow> cpapke_PublicKey \<Rightarrow> bytes \<Rightarrow> bytes \<Rightarrow> (Vec \<times> Poly) res" where
  "encrypt_uv H pk pt seed =
     bind_res (vec_DeriveNoise H seed 0 pke_Eta1) (\<lambda>r.
     let rh = vec_BarrettReduce (vec_NTT r) in
     bind_res (vec_DeriveNoise H seed (of_nat pke_K) pke_Eta2) (\<lambda>e1.
     bind_res (DeriveNoise (shake256 H) seed (of_nat (2 * pke_K)) pke_Eta2) (\<lambda>e2.
     let u = map (\<lambda>i. PolyDotHat (aT pk ! i) rh) [0..<pke_K];
         u = vec_BarrettReduce u
     in bind_res (vec_InvNTT u) (\<lambda>u.
     let u = vec_Add u e1;
         v = barrettReduceGeneric (PolyDotHat (th pk) rh)
     in bind_res (InvNTT v) (\<lambda>v.
     let m = DecompressMessage pt;
         v = addGeneric v m;
         v = addGeneric v e2
     in Ok (vec_Normalize u, normalizeGeneric v))))))"

definition cpapke_EncryptTo :: "sha3 \<Rightarrow> cpapke_PublicKey \<Rightarrow> bytes \<Rightarrow> bytes \<Rightarrow> bytes res" where
  "cpapke_EncryptTo H pk pt seed =
     bind_res (encrypt_uv H pk pt seed) (\<lambda>(u, v).
     bind_res (vec_CompressTo u pke_DU) (\<lambda>cu.
     bind_res (poly_CompressTo v pke_DV) (\<lambda>cv.
     Ok (cu @ cv))))"

definition sk_Equal :: "cpapke_PrivateKey \<Rightarrow> cpapke_PrivateKey \<Rightarrow> bool" where
  "sk_Equal sk other = (fold (\<lambda>i ret. fold (\<lambda>j ret. ret OR (sh sk ! i ! j XOR sh other ! i ! j)) [0..<kyber_N] ret) [0..<pke_K] 0 = (0 :: int))"

section \<open>Ring identities\<close>

lemma range_K: "[0..<pke_K] = [0, 1, 2]"
  by (simp add: pke_K_def upt_rec)

lemma hmul_sum: "finite I \<Longrightarrow> hmul w (\<lambda>r. \<Sum>i\<in>I. f i r) g r = (\<Sum>i\<in>I. hmul w (f i) g r)"
  by (induction I rule: finite_induct) (simp_all add: hmul_add, simp add: hmul_def)

definition rdot :: "Vec \<Rightarrow> Vec \<Rightarrow> Poly" where
  "rdot a b = map (\<lambda>k. \<Sum>i<3. negmul (a ! i) (b ! i) ! k) [0..<256]"

lemma ev_rdot_sum: "r < 2 \<Longrightarrow> ev (rdot a b) e r = (\<Sum>i<3. ev (negmul (a ! i) (b ! i)) e r)"
proof -
  assume "r < 2"
  then have "ev (rdot a b) e r = (\<Sum>m<128. \<Sum>i<3. negmul (a ! i) (b ! i) ! (m * 2 + r) * nodeW (128 + e) ^ m)"
    by (simp add: ev_def remW_def rdot_def sum_distrib_right)
  also have "\<dots> = (\<Sum>i<3. \<Sum>m<128. negmul (a ! i) (b ! i) ! (m * 2 + r) * nodeW (128 + e) ^ m)"
    by (rule sum.swap)
  finally show ?thesis
    by (simp add: ev_def remW_def)
qed

lemma ev_rdot:
  assumes "e < 128" "r < 2"
  shows "kcong (ev (rdot a b) e r) (\<Sum>i<3. hmul (nodeW (128 + e)) (ev (a ! i) e) (ev (b ! i) e) r)"
  unfolding ev_rdot_sum [OF assms(2)] by (intro kcong_sum ev_negmul assms)

lemma noise_identity:
  fixes A :: "nat \<Rightarrow> nat \<Rightarrow> nat \<Rightarrow> int"
  shows "(\<Sum>i<3. hmul w (\<lambda>x. (\<Sum>j<3. hmul w (A i j) (s j) x) + e i x) (r i) x) -
     (\<Sum>j<3. hmul w (s j) (\<lambda>x. (\<Sum>i<3. hmul w (A i j) (r i) x) + d j x) x) =
   (\<Sum>i<3. hmul w (e i) (r i) x) - (\<Sum>j<(3 :: nat). hmul w (s j) (d j) x)"
proof -
  have l: "hmul w (\<lambda>x. (\<Sum>j<3. hmul w (A i j) (s j) x) + e i x) (r i) x = (\<Sum>j<3. hmul w (hmul w (A i j) (s j)) (r i) x) + hmul w (e i) (r i) x" for i
    by (simp add: hmul_add hmul_sum)
  have r: "hmul w (s j) (\<lambda>x. (\<Sum>i<3. hmul w (A i j) (r i) x) + d j x) x = (\<Sum>i<3. hmul w (hmul w (A i j) (s j)) (r i) x) + hmul w (s j) (d j) x" for j
  proof -
    have "hmul w (hmul w (A i j) (r i)) (s j) x = hmul w (hmul w (A i j) (s j)) (r i) x" for i
      by (simp add: hmul_def algebra_simps)
    then show ?thesis
      by (simp add: hmul_commute [of w "s j"] hmul_add hmul_sum)
  qed
  show ?thesis
    unfolding l r sum.distrib using sum.swap [of "\<lambda>i j. hmul w (hmul w (A i j) (s j)) (r i) x" "{..<3}" "{..<3}"] by simp
qed

section \<open>Vector operations\<close>

lemma map_res_Ok: "(\<And>x. x \<in> set xs \<Longrightarrow> f x = Ok (g x)) \<Longrightarrow> map_res f xs = Ok (map g xs)"
  by (induction xs) simp_all

lemma less_K: "i < pke_K \<longleftrightarrow> i < 3"
  by (simp add: pke_K_def)

definition vcong :: "Vec \<Rightarrow> Vec \<Rightarrow> bool" where
  "vcong a b \<longleftrightarrow> (\<forall>i < 3. pcong (a ! i) (b ! i))"

definition vbounded :: "int \<Rightarrow> Vec \<Rightarrow> bool" where
  "vbounded B v \<longleftrightarrow> (\<forall>i < 3. bounded B (v ! i))"

definition vleaves :: "Vec \<Rightarrow> Vec" where
  "vleaves v = map (\<lambda>i. leaves (v ! i)) [0..<3]"

lemma length_leaves [simp]: "length (leaves p) = 256"
  by (simp add: leaves_def)

lemma leaves_rdot: "k < 256 \<Longrightarrow> leaves (rdot a b) ! k = (\<Sum>i<3. leaves (negmul (a ! i) (b ! i)) ! k)"
  by (simp add: leaves_def ev_rdot_sum)

lemma bounded_mono: "bounded A p \<Longrightarrow> A \<le> B \<Longrightarrow> bounded B p"
  by (auto simp: bounded_def)

lemma normalized_bounded: "normalized p \<Longrightarrow> bounded 3328 p"
  by (auto simp: normalized_def bounded_def abs_if)

lemma bounded_zero: "bounded 0 (replicate 256 0)"
  by (simp add: bounded_def)

lemma sum_3: "(\<Sum>i<3. f i) = f 0 + f 1 + f (2 :: nat)" for f :: "nat \<Rightarrow> int"
  by (simp add: numeral_3_eq_3 numeral_2_eq_2)

lemma PolyDotHat_leaves:
  assumes "vcong a (vleaves A)" and "vcong b (vleaves B)" and "vbounded X a" and "vbounded Y b" and "X * Y < 109084672"
  shows "bounded 19968 (PolyDotHat a b)" and "pcong (PolyDotHat a b) (map (\<lambda>x. 169 * x) (leaves (rdot A B)))"
proof -
  define m where "m i = mulHatGeneric (replicate 256 0) (a ! i) (b ! i)" for i
  have m: "bounded 6656 (m i)" "pcong (m i) (map (\<lambda>x. 169 * x) (leaves (negmul (A ! i) (B ! i))))" if "i < 3" for i
    using mulHat_leaves [of "a ! i" "A ! i" "b ! i" "B ! i" X Y "replicate 256 0"] assms that
    by (simp_all add: m_def vcong_def vbounded_def vleaves_def)
  have P: "PolyDotHat a b = addGeneric (m 2) (addGeneric (m 1) (addGeneric (m 0) (replicate 256 0)))"
    by (simp add: PolyDotHat_def range_K m_def)
  note a0 = addGeneric_nth [OF m(1) [of 0] bounded_zero, simplified]
  note a1 = addGeneric_nth [OF m(1) [of 1] a0(1), simplified]
  note a2 = addGeneric_nth [OF m(1) [of 2] a1(1), simplified]
  show "bounded 19968 (PolyDotHat a b)"
    unfolding P using a2(1) by simp
  show "pcong (PolyDotHat a b) (map (\<lambda>x. 169 * x) (leaves (rdot A B)))"
    unfolding pcong_def
  proof (intro allI impI)
    fix k :: nat
    assume k: "k < 256"
    have "kcong (m i ! k) (169 * leaves (negmul (A ! i) (B ! i)) ! k)" if "i < 3" for i
      using m(2) [OF that] k by (simp add: pcong_def leaves_def)
    then have "kcong (\<Sum>i<3. m i ! k) (\<Sum>i<3. 169 * leaves (negmul (A ! i) (B ! i)) ! k)"
      by (intro kcong_sum) simp
    moreover have "PolyDotHat a b ! k = (\<Sum>i<3. m i ! k)"
      unfolding P using k by (simp add: a2(2) a1(2) a0(2) sum_3)
    moreover have "map (\<lambda>x. 169 * x) (leaves (rdot A B)) ! k = (\<Sum>i<3. 169 * leaves (negmul (A ! i) (B ! i)) ! k)"
      using k by (simp add: leaves_rdot sum_distrib_left)
    ultimately show "kcong (PolyDotHat a b ! k) (map (\<lambda>x. 169 * x) (leaves (rdot A B)) ! k)"
      by simp
  qed
qed

text \<open>Reduce, then transform back: the polynomial of an inner product.\<close>

lemma dot_InvNTT:
  assumes "vcong a (vleaves A)" and "vcong b (vleaves B)" and "vbounded X a" and "vbounded Y b" and "X * Y < 109084672"
  shows "\<exists>r. InvNTT (barrettReduceGeneric (PolyDotHat a b)) = Ok r \<and> bounded 3328 r \<and> pcong r (rdot A B)"
proof -
  note d = PolyDotHat_leaves [OF assms]
  have "bounded 3329 (barrettReduceGeneric (PolyDotHat a b))" "pcong (barrettReduceGeneric (PolyDotHat a b)) (PolyDotHat a b)"
    using barrettReduceGeneric_spec [OF d(1)] by (simp_all add: pcong_def)
  from invNTT_leaves [OF this(1) pcong_trans [OF this(2) d(2)]] show ?thesis
    by (auto simp: InvNTT_def)
qed

lemma vec_DeriveNoise_Ok:
  assumes "eta = 2 \<or> eta = 3"
  shows "\<exists>v. vec_DeriveNoise H seed nonce eta = Ok v \<and> vbounded 3 v \<and> length v = 3"
proof -
  let ?g = "\<lambda>i. map (cbd eta (xread (shake256 H) (seed @ [nonce + of_nat i]) 0 (64 * eta))) [0..<256]"
  have "vec_DeriveNoise H seed nonce eta = Ok (map ?g [0..<pke_K])"
    unfolding vec_DeriveNoise_def using assms by (intro map_res_Ok) (auto simp: DeriveNoise_def DeriveNoise2_spec DeriveNoise3_spec)
  moreover have "\<bar>cbd eta b c\<bar> \<le> 3" for b c
    using cbd_bounds [of eta b c] assms by auto
  ultimately show ?thesis
    by (auto simp: vbounded_def bounded_def less_K pke_K_def)
qed

section \<open>The matrix\<close>

lemma accepted_range: "t \<in> set (accepted b) \<Longrightarrow> 0 \<le> t \<and> t < 3329"
  using candidates_nonneg by (auto simp: accepted_def)

lemma uniformLoop_normalized:
  assumes "uniformLoop x inp pos p = Some q"
  shows "length p < 256 \<longrightarrow> (\<forall>t \<in> set p. 0 \<le> t \<and> t < 3329) \<longrightarrow> normalized q"
proof (rule uniformLoop.raw_induct [of "\<lambda>x inp pos p q. length p < 256 \<longrightarrow> (\<forall>t \<in> set p. 0 \<le> t \<and> t < 3329) \<longrightarrow> normalized q", OF _ assms])
  fix loop x inp pos p q
  assume IH: "\<And>x inp pos p q. loop x inp pos p = Some q \<Longrightarrow> length p < 256 \<longrightarrow> (\<forall>t \<in> set p. 0 \<le> t \<and> t < 3329) \<longrightarrow> normalized q"
    and step: "(let p' = uniformTriples (xread x inp pos 168) p in if length p' = kyber_N then Some p' else loop x inp (pos + 168) p') = Some q"
  let ?p = "uniformTriples (xread x inp pos 168) p"
  show "length p < 256 \<longrightarrow> (\<forall>t \<in> set p. 0 \<le> t \<and> t < 3329) \<longrightarrow> normalized q"
  proof (intro impI)
    assume p: "length p < 256" "\<forall>t \<in> set p. 0 \<le> t \<and> t < 3329"
    have q: "?p = take 256 (p @ accepted (xread x inp pos 168))"
      using p(1) by (rule uniformTriples_spec)
    have r: "\<forall>t \<in> set ?p. 0 \<le> t \<and> t < 3329"
      unfolding q using p(2) accepted_range by (auto dest: in_set_takeD)
    have l: "length ?p \<le> 256"
      unfolding q by simp
    show "normalized q"
    proof (cases "length ?p = 256")
      case True
      then have "q = ?p"
        using step by (simp add: kyber_N_def Let_def)
      with True r show ?thesis
        by (simp add: normalized_def)
    next
      case False
      then have "loop x inp (pos + 168) ?p = Some q"
        using step by (simp add: kyber_N_def Let_def)
      from IH [OF this] show ?thesis
        using False l r by simp
    qed
  qed
qed

lemma DeriveUniform_normalized: "DeriveUniform x seed i j = Some p \<Longrightarrow> normalized p"
  using uniformLoop_normalized [of x "seed @ [i, j]" 0 "[]"] by (auto simp: DeriveUniform_def Tangle_def split: option.splits)

lemma map_option_list_Some: "map_option_list f xs = Some ys \<Longrightarrow> length ys = length xs \<and> (\<forall>i < length xs. f (xs ! i) = Some (ys ! i))"
proof (induction xs arbitrary: ys)
  case (Cons x xs)
  then show ?case
    by (auto simp: nth_Cons split: option.splits nat.splits)
qed simp

definition mat3 :: "Mat \<Rightarrow> bool" where
  "mat3 A \<longleftrightarrow> length A = 3 \<and> (\<forall>i < 3. length (A ! i) = 3)"

lemma mat_Derive_Some:
  assumes "mat_Derive H seed tr = Some A"
  shows "mat3 A" and "i < 3 \<Longrightarrow> j < 3 \<Longrightarrow> normalized (A ! i ! j)"
    and "i < 3 \<Longrightarrow> j < 3 \<Longrightarrow> Some (A ! i ! j) = (if tr then DeriveUniform (shake128 H) seed (of_nat i) (of_nat j)
       else DeriveUniform (shake128 H) seed (of_nat j) (of_nat i))"
proof -
  have u: "[0..<pke_K] ! i = i" if "i < 3" for i
    using that by (simp add: pke_K_def)
  have l: "length [0..<pke_K] = 3"
    by (simp add: pke_K_def)
  note o = map_option_list_Some [OF assms [unfolded mat_Derive_def], unfolded l]
  have row: "length (A ! i) = 3 \<and> (\<forall>j < 3. (if tr then DeriveUniform (shake128 H) seed (of_nat i) (of_nat j)
       else DeriveUniform (shake128 H) seed (of_nat j) (of_nat i)) = Some (A ! i ! j))" if "i < 3" for i
  proof -
    have "map_option_list (\<lambda>j. if tr then DeriveUniform (shake128 H) seed (of_nat i) (of_nat j)
        else DeriveUniform (shake128 H) seed (of_nat j) (of_nat i)) [0..<pke_K] = Some (A ! i)"
      using conjunct2 [OF o, rule_format, OF that] unfolding u [OF that] .
    note r = map_option_list_Some [OF this, unfolded l]
    show ?thesis
    proof (intro conjI allI impI)
      fix j :: nat
      assume j: "j < 3"
      show "(if tr then DeriveUniform (shake128 H) seed (of_nat i) (of_nat j)
          else DeriveUniform (shake128 H) seed (of_nat j) (of_nat i)) = Some (A ! i ! j)"
        using conjunct2 [OF r, rule_format, OF j] unfolding u [OF j] .
    qed (rule conjunct1 [OF r])
  qed
  show "mat3 A"
    using o row by (simp add: mat3_def)
  show s: "i < 3 \<Longrightarrow> j < 3 \<Longrightarrow> Some (A ! i ! j) = (if tr then DeriveUniform (shake128 H) seed (of_nat i) (of_nat j)
       else DeriveUniform (shake128 H) seed (of_nat j) (of_nat i))"
    using row by metis
  show "i < 3 \<Longrightarrow> j < 3 \<Longrightarrow> normalized (A ! i ! j)"
    using row DeriveUniform_normalized by (metis (full_types))
qed

lemma mat_Transpose_nth:
  assumes "mat3 A" and "i < 3" and "j < 3"
  shows "mat_Transpose A ! i ! j = A ! j ! i"
proof -
  obtain a b c where A: "A = [a, b, c]"
    using assms(1) by (auto simp: mat3_def numeral_3_eq_3 length_Suc_conv)
  obtain a0 a1 a2 b0 b1 b2 c0 c1 c2 where R: "a = [a0, a1, a2]" "b = [b0, b1, b2]" "c = [c0, c1, c2]"
    using assms(1) by (auto simp: A mat3_def numeral_3_eq_3 length_Suc_conv All_less_Suc)
  have "i \<in> {0, 1, 2}" "j \<in> {0, 1, 2}"
    using assms(2,3) by auto
  then show ?thesis
    unfolding A R mat_Transpose_def mat_swap_def pke_K_def by (auto simp: upt_rec Let_def)
qed

lemma length_mat_Transpose: "mat3 A \<Longrightarrow> mat3 (mat_Transpose A)"
proof -
  have s: "mat3 (mat_swap i j A)" if "mat3 A" "i < 3" "j < 3" for i j A
    using that by (auto simp: mat3_def mat_swap_def Let_def nth_list_update)
  assume "mat3 A"
  then show ?thesis
    using s unfolding mat_Transpose_def pke_K_def by (simp add: upt_rec)
qed

section \<open>Key generation\<close>

lemma map_res_ex:
  "(\<And>x. x \<in> set xs \<Longrightarrow> \<exists>y. f x = Ok y \<and> P x y) \<Longrightarrow>
   \<exists>ys. map_res f xs = Ok ys \<and> length ys = length xs \<and> (\<forall>i < length xs. P (xs ! i) (ys ! i))"
proof (induction xs)
  case (Cons x xs)
  then obtain y ys where "f x = Ok y" "P x y" "map_res f xs = Ok ys" "length ys = length xs" "\<forall>i < length xs. P (xs ! i) (ys ! i)"
    by (metis list.set_intros)
  then show ?case
    by (intro exI [of _ "y # ys"]) (auto simp: nth_Cons split: nat.splits)
qed simp

lemma nth_K: "i < 3 \<Longrightarrow> map f [0..<pke_K] ! i = f i"
  by (simp add: pke_K_def)

lemma ntt_vec:
  assumes "vbounded 3 s"
  shows "vcong (vec_NTT s) (vleaves s)" and "vbounded 23299 (vec_NTT s)"
proof -
  have n: "pcong (nttGeneric (s ! i)) (leaves (s ! i))" "bounded 23299 (nttGeneric (s ! i))" if "i < 3" for i
    using ntt_leaves [of 3 "s ! i"] assms that by (simp_all add: vbounded_def)
  then show "vcong (vec_NTT s) (vleaves s)" "vbounded 23299 (vec_NTT s)"
    by (simp_all add: vcong_def vbounded_def vec_NTT_def vleaves_def nth_K)
qed

lemma normalize_pcong:
  assumes "bounded B p" "B \<le> 32767"
  shows "normalized (normalizeGeneric p)" and "pcong (normalizeGeneric p) p"
  using normalized_normalizeGeneric [OF assms] normalizeGeneric_spec [OF assms] assms(1) by (simp_all add: pcong_def kcong_def bounded_def)

lemma ToMont_spec:
  assumes "bounded B p" "B \<le> 32767" "pcong p (map (\<lambda>x. 169 * x) (leaves a))"
  shows "bounded 3328 (ToMont p)" and "pcong (ToMont p) (leaves a)"
proof -
  have t: "\<bar>toMont (p ! i)\<bar> < 3329 \<and> kcong (toMont (p ! i)) (p ! i * 65536)" if "i < 256" for i
    using toMont_bounds_cong [of "p ! i"] bounded_16 [OF assms(1,2) that] by simp
  have "\<bar>toMont (p ! i)\<bar> \<le> 3328" if "i < 256" for i
    using t [OF that] by (simp add: abs_le_iff abs_less_iff)
  then show "bounded 3328 (ToMont p)"
    by (simp add: bounded_def ToMont_def kyber_N_def)
  show "pcong (ToMont p) (leaves a)"
    unfolding pcong_def
  proof (intro allI impI)
    fix i :: nat
    assume i: "i < 256"
    have "kcong (p ! i * 65536) (169 * leaves a ! i * 65536)"
      using assms(3) i by (intro kcong_mult kcong_refl) (simp add: pcong_def leaves_def)
    moreover have "kcong (169 * leaves a ! i * 65536) (leaves a ! i)"
    proof -
      have "169 * leaves a ! i * 65536 - leaves a ! i = 3329 * (leaves a ! i * 3327)" by simp
      then show ?thesis unfolding kcong_iff by (metis dvd_triv_left)
    qed
    ultimately have "kcong (p ! i * 65536) (leaves a ! i)"
      by (rule kcong_trans)
    then show "kcong (ToMont p ! i) (leaves a ! i)"
      using t [OF i] i kcong_trans by (simp add: ToMont_def kyber_N_def) blast
  qed
qed

lemma padd_nth: "k < 256 \<Longrightarrow> padd a b ! k = a ! k + b ! k"
  by (simp add: padd_def)

lemma leaves_padd: "k < 256 \<Longrightarrow> leaves (padd a b) ! k = leaves a ! k + leaves b ! k"
  by (simp add: leaves_def ev_padd)

lemma addGeneric_pcong:
  assumes "bounded A a" "bounded B b" "A + B \<le> 32767"
  shows "bounded (A + B) (addGeneric a b)" and "pcong (addGeneric a b) (padd a b)"
  using addGeneric_nth [OF assms] by (simp_all add: pcong_def padd_def)

definition vnormal :: "Vec \<Rightarrow> bool" where
  "vnormal v \<longleftrightarrow> length v = 3 \<and> (\<forall>i < 3. normalized (v ! i))"

lemma vnormal_bounded: "vnormal v \<Longrightarrow> vbounded 3328 v"
  by (simp add: vnormal_def vbounded_def normalized_bounded)

text \<open>
  What key generation promises: the secret and the error are small, the public vector is the transform
  of \<open>A s + e\<close>, and the stored matrix is the transform of the transposed matrix \<open>A\<close> of polynomials.
\<close>

definition keypair :: "(nat \<Rightarrow> nat \<Rightarrow> Poly) \<Rightarrow> Vec \<Rightarrow> Vec \<Rightarrow> cpapke_PublicKey \<Rightarrow> cpapke_PrivateKey \<Rightarrow> bool" where
  "keypair A s e pk sk \<longleftrightarrow> vbounded 3 s \<and> vbounded 3 e \<and>
     vcong (sh sk) (vleaves s) \<and> vnormal (sh sk) \<and>
     vcong (th pk) (vleaves (map (\<lambda>i. padd (rdot (map (A i) [0..<3]) s) (e ! i)) [0..<3])) \<and> vnormal (th pk) \<and>
     (\<forall>i < 3. vcong (aT pk ! i) (vleaves (map (\<lambda>j. A j i) [0..<3])) \<and> vbounded 3328 (aT pk ! i))"

lemma mat_preimage:
  obtains A where "\<And>i j. pcong (M ! i ! j) (leaves (A i j))"
proof -
  have "\<exists>a. pcong h (leaves a)" for h
    using leaves_surj [of h] by metis
  then have "pcong (M ! i ! j) (leaves (SOME a. pcong (M ! i ! j) (leaves a)))" for i j
    by (rule someI_ex)
  then show thesis by (rule that)
qed

lemma NewKeyFromSeed_keypair:
  assumes "cpapke_NewKeyFromSeed H seed = Some r"
  defines "sigma \<equiv> drop 32 (xread (sha3_512 H) seed 0 64)"
  shows "\<exists>A s e pk sk. r = Ok (pk, sk) \<and> vec_DeriveNoise H sigma 0 pke_Eta1 = Ok s \<and>
    vec_DeriveNoise H sigma (of_nat pke_K) pke_Eta1 = Ok e \<and> keypair A s e pk sk"
proof -
  let ?rho = "take 32 (xread (sha3_512 H) seed 0 64)"
  obtain s e where s: "vec_DeriveNoise H sigma 0 pke_Eta1 = Ok s" "vbounded 3 s"
      and e: "vec_DeriveNoise H sigma (of_nat pke_K) pke_Eta1 = Ok e" "vbounded 3 e"
    using vec_DeriveNoise_Ok [of pke_Eta1 H sigma 0] vec_DeriveNoise_Ok [of pke_Eta1 H sigma "of_nat pke_K"] by (auto simp: pke_Eta1_def)
  obtain M where M: "mat_Derive H ?rho False = Some M"
    using assms(1) by (auto simp: cpapke_NewKeyFromSeed_def Let_def split: option.splits)
  note m = mat_Derive_Some [OF M]
  obtain A where A: "\<And>i j. pcong (M ! i ! j) (leaves (A i j))"
    by (rule mat_preimage [of M]) blast
  let ?sh = "vec_Normalize (vec_NTT s)"
  let ?t = "map (\<lambda>i. ToMont (PolyDotHat (M ! i) ?sh)) [0..<pke_K]"
  let ?th = "vec_Normalize (vec_Add ?t (vec_NTT e))"
  note ns = ntt_vec [OF s(2)] and ne = ntt_vec [OF e(2)]
  have shn: "normalized (?sh ! i)" "pcong (?sh ! i) (vec_NTT s ! i)" if "i < 3" for i
    using normalize_pcong [of 23299 "vec_NTT s ! i"] ns(2) that by (simp_all add: vec_Normalize_def vbounded_def nth_K)
  then have sh: "vcong ?sh (vleaves s)" "vbounded 3328 ?sh"
    using ns(1) by (auto simp: vcong_def vbounded_def normalized_bounded intro: pcong_trans)
  have row: "vcong (M ! i) (vleaves (map (A i) [0..<3]))" "vbounded 3328 (M ! i)" if "i < 3" for i
    using A m(2) that by (simp_all add: vcong_def vbounded_def vleaves_def normalized_bounded)
  have col: "vcong (mat_Transpose M ! i) (vleaves (map (\<lambda>j. A j i) [0..<3]))" "vbounded 3328 (mat_Transpose M ! i)" if "i < 3" for i
    using A m that by (simp_all add: vcong_def vbounded_def vleaves_def normalized_bounded mat_Transpose_nth)
  have t: "normalized (?th ! i) \<and> pcong (?th ! i) (leaves (padd (rdot (map (A i) [0..<3]) s) (e ! i)))" if i: "i < 3" for i
  proof -
    note d = PolyDotHat_leaves [OF row(1) [OF i] sh(1) row(2) [OF i] sh(2)]
    note mt = ToMont_spec [OF d(1) _ d(2)]
    have e: "bounded 23299 (vec_NTT e ! i)" "pcong (vec_NTT e ! i) (leaves (e ! i))"
      using ne i by (simp_all add: vbounded_def vcong_def vleaves_def)
    note ad = addGeneric_pcong [OF mt(1) e(1)]
    note nz = normalize_pcong [OF ad(1)]
    have th: "?th ! i = normalizeGeneric (addGeneric (ToMont (PolyDotHat (M ! i) ?sh)) (vec_NTT e ! i))"
      using i by (simp add: vec_Normalize_def vec_Add_def nth_K)
    have "pcong (padd (ToMont (PolyDotHat (M ! i) ?sh)) (vec_NTT e ! i)) (leaves (padd (rdot (map (A i) [0..<3]) s) (e ! i)))"
      using pcong_padd [OF mt(2) e(2)] by (simp add: pcong_def leaves_padd padd_nth)
    with nz ad(2) show ?thesis
      unfolding th by (auto intro: pcong_trans)
  qed
  have "r = Ok (\<lparr>rho = ?rho, th = ?th, aT = mat_Transpose M\<rparr>, \<lparr>sh = ?sh\<rparr>)"
    using assms(1) by (simp add: cpapke_NewKeyFromSeed_def Let_def M s(1) [unfolded sigma_def] e(1) [unfolded sigma_def])
  moreover have "keypair A s e \<lparr>rho = ?rho, th = ?th, aT = mat_Transpose M\<rparr> \<lparr>sh = ?sh\<rparr>"
    unfolding keypair_def using s(2) e(2) sh col t shn
    by (simp add: vcong_def vbounded_def vleaves_def vnormal_def) (simp add: vec_Normalize_def pke_K_def)
  ultimately show ?thesis
    using s(1) e(1) by blast
qed

section \<open>Encryption\<close>

lemma DecompressMessage_bounded: "bounded 1665 (DecompressMessage m)"
proof -
  have "\<bar>DecompressMessage m ! k\<bar> \<le> 1665" if "k < 256" for k
    using DecompressMessage_nth(2) [of "k div 8" "k mod 8" m] that by (simp split: if_splits)
  then show ?thesis
    by (simp add: bounded_def DecompressMessage_nth(1))
qed

lemma encrypt_uv_spec:
  assumes key: "keypair A s e pk sk"
  shows "\<exists>r e1 e2 u v. vec_DeriveNoise H seed 0 pke_Eta1 = Ok r \<and> vec_DeriveNoise H seed (of_nat pke_K) pke_Eta2 = Ok e1 \<and>
    DeriveNoise (shake256 H) seed (of_nat (2 * pke_K)) pke_Eta2 = Ok e2 \<and> encrypt_uv H pk pt seed = Ok (u, v) \<and>
    length u = 3 \<and> (\<forall>j < 3. normalized (u ! j) \<and> pcong (u ! j) (padd (rdot (map (\<lambda>i. A i j) [0..<3]) r) (e1 ! j))) \<and>
    normalized v \<and> pcong v (padd (padd (rdot (map (\<lambda>i. padd (rdot (map (A i) [0..<3]) s) (e ! i)) [0..<3]) r) (DecompressMessage pt)) e2)"
proof -
  obtain r e1 where r: "vec_DeriveNoise H seed 0 pke_Eta1 = Ok r" "vbounded 3 r"
      and e1: "vec_DeriveNoise H seed (of_nat pke_K) pke_Eta2 = Ok e1" "vbounded 3 e1"
    using vec_DeriveNoise_Ok [of pke_Eta1 H seed 0] vec_DeriveNoise_Ok [of pke_Eta2 H seed "of_nat pke_K"] by (auto simp: pke_Eta1_def pke_Eta2_def)
  obtain e2 where e2: "DeriveNoise (shake256 H) seed (of_nat (2 * pke_K)) pke_Eta2 = Ok e2" "bounded 3 e2"
    using cbd_bounds [of 2] by (force simp: pke_Eta2_def DeriveNoise_def DeriveNoise2_spec bounded_def intro: order_trans)
  let ?rh = "vec_BarrettReduce (vec_NTT r)"
  note nr = ntt_vec [OF r(2)]
  have "bounded 3329 (?rh ! i) \<and> pcong (?rh ! i) (vec_NTT r ! i)" if "i < 3" for i
    using barrettReduceGeneric_spec [of 23299 "vec_NTT r ! i"] nr(2) that by (simp add: vec_BarrettReduce_def nth_K vbounded_def pcong_def)
  then have rh: "vcong ?rh (vleaves r)" "vbounded 3329 ?rh"
    using nr(1) by (auto simp: vcong_def vbounded_def intro: pcong_trans)
  let ?u0 = "vec_BarrettReduce (map (\<lambda>i. PolyDotHat (aT pk ! i) ?rh) [0..<pke_K])"
  have "\<exists>y. InvNTT (?u0 ! j) = Ok y \<and> bounded 3328 y \<and> pcong y (rdot (map (\<lambda>i. A i j) [0..<3]) r)" if "j < 3" for j
    using dot_InvNTT [OF _ rh(1) _ rh(2), of "aT pk ! j" "map (\<lambda>i. A i j) [0..<3]" 3328] key that
    by (simp add: keypair_def vec_BarrettReduce_def nth_K)
  then have "\<exists>us. map_res (\<lambda>i. InvNTT (?u0 ! i)) [0..<pke_K] = Ok us \<and> length us = length [0..<pke_K] \<and>
      (\<forall>j < length [0..<pke_K]. bounded 3328 (us ! j) \<and> pcong (us ! j) (rdot (map (\<lambda>i. A i ([0..<pke_K] ! j)) [0..<3]) r))"
    by (intro map_res_ex) (simp add: pke_K_def)
  then obtain us where us: "vec_InvNTT ?u0 = Ok us" "\<And>j. j < 3 \<Longrightarrow> bounded 3328 (us ! j)"
      "\<And>j. j < 3 \<Longrightarrow> pcong (us ! j) (rdot (map (\<lambda>i. A i j) [0..<3]) r)"
    by (auto simp: vec_InvNTT_def pke_K_def)
  let ?T = "map (\<lambda>i. padd (rdot (map (A i) [0..<3]) s) (e ! i)) [0..<3]"
  obtain vv where vv: "InvNTT (barrettReduceGeneric (PolyDotHat (th pk) ?rh)) = Ok vv" "bounded 3328 vv" "pcong vv (rdot ?T r)"
    using dot_InvNTT [OF _ rh(1) _ rh(2), of "th pk" ?T 3328] key by (auto simp: keypair_def vnormal_bounded)
  note a1 = addGeneric_pcong [OF vv(2) DecompressMessage_bounded [of pt], simplified]
  note a2 = addGeneric_pcong [OF a1(1) e2(2), simplified]
  note nv = normalize_pcong [OF a2(1), simplified]
  let ?u = "vec_Normalize (vec_Add us e1)" and ?v = "normalizeGeneric (addGeneric (addGeneric vv (DecompressMessage pt)) e2)"
  have "encrypt_uv H pk pt seed = Ok (?u, ?v)"
    by (simp only: encrypt_uv_def r(1) e1(1) e2(1) us(1) vv(1) Let_def bind_res.simps)
  moreover have "normalized (?u ! j) \<and> pcong (?u ! j) (padd (rdot (map (\<lambda>i. A i j) [0..<3]) r) (e1 ! j))" if j: "j < 3" for j
  proof -
    have "bounded 3 (e1 ! j)" using e1(2) j by (simp add: vbounded_def)
    note ad = addGeneric_pcong [OF us(2) [OF j] this, simplified]
    note nu = normalize_pcong [OF ad(1), simplified]
    have "?u ! j = normalizeGeneric (addGeneric (us ! j) (e1 ! j))"
      using j by (simp add: vec_Normalize_def vec_Add_def nth_K)
    then show ?thesis
      using nu pcong_trans [OF ad(2) pcong_padd [OF us(3) [OF j] pcong_refl]] by (auto intro: pcong_trans)
  qed
  moreover have "pcong ?v (padd (padd (rdot ?T r) (DecompressMessage pt)) e2)"
    by (rule pcong_trans [OF nv(2) pcong_trans [OF a2(2)]])
      (intro pcong_padd pcong_refl pcong_trans [OF a1(2)] vv(3))
  moreover have "length ?u = 3"
    by (simp add: vec_Normalize_def pke_K_def)
  ultimately show ?thesis
    using r(1) e1(1) e2(1) nv(1) by blast
qed

section \<open>Decryption\<close>

definition recompress :: "nat \<Rightarrow> Poly \<Rightarrow> Poly" where
  "recompress d p = map (\<lambda>i. decompress_spec d (compress_spec d (p ! i))) [0..<256]"

lemma recompress_normalized: "d \<in> {4, 5, 10, 11} \<Longrightarrow> normalized (recompress d p)"
  using decompress_bounds [of d] by (simp add: normalized_def recompress_def compress_spec_def)

lemma vec_compress_roundtrip:
  assumes "\<forall>j < 3. normalized (u ! j)"
  shows "\<exists>m. vec_CompressTo u pke_DU = Ok m \<and> length m = 960 \<and>
    vec_Decompress (m @ rest) pke_DU = Ok (map (\<lambda>j. recompress 10 (u ! j)) [0..<pke_K])"
proof -
  define c where "c j = (case poly_CompressTo (u ! j) 10 of Ok m \<Rightarrow> m | _ \<Rightarrow> [])" for j
  have c: "poly_CompressTo (u ! j) 10 = Ok (c j)" "length (c j) = 320" "poly_Decompress (c j @ rest) 10 = Ok (recompress 10 (u ! j))"
    if "j < 3" for j rest
    using compress_roundtrip [of 10 "u ! j" rest] assms that by (auto simp: c_def recompress_def)
  let ?m = "concat (map c [0..<pke_K])"
  have "map_res (\<lambda>i. poly_CompressTo (u ! i) 10) [0..<pke_K] = Ok (map c [0..<pke_K])"
    by (rule map_res_Ok) (simp add: c pke_K_def)
  then have "vec_CompressTo u pke_DU = Ok ?m"
    by (simp add: vec_CompressTo_def pke_DU_def compressedPolySize_def)
  moreover have "length ?m = 960"
    by (simp add: range_K c)
  moreover have "map_res (\<lambda>i. poly_Decompress (drop (320 * i) (?m @ rest)) 10) [0..<pke_K] = Ok (map (\<lambda>j. recompress 10 (u ! j)) [0..<pke_K])"
  proof (rule map_res_Ok)
    fix i
    assume "i \<in> set [0..<pke_K]"
    then have i: "i < 3" "i < pke_K" by (simp_all add: pke_K_def)
    have "drop (320 * i) (?m @ rest) = c i @ concat (map c [Suc i..<pke_K]) @ rest"
      by (rule drop_concat_groups [OF _ i(2)]) (simp add: c pke_K_def)
    then show "poly_Decompress (drop (320 * i) (?m @ rest)) 10 = Ok (recompress 10 (u ! i))"
      using c(3) [OF i(1)] by simp
  qed
  ultimately show ?thesis
    by (simp add: vec_Decompress_def pke_DU_def compressedPolySize_def)
qed

lemma DecryptTo_spec:
  assumes key: "keypair A s e pk sk" and u: "\<forall>j < 3. normalized (u ! j)" and v: "normalized v"
    and du: "vec_Decompress ct pke_DU = Ok u" and dv: "poly_Decompress (drop 960 ct) pke_DV = Ok v"
  shows "\<exists>m. cpapke_DecryptTo sk ct = Ok (CompressMessageTo m) \<and> normalized m \<and> pcong m (psub v (rdot s u))"
proof -
  have n: "pcong (nttGeneric (u ! j)) (leaves (u ! j))" "bounded 26624 (nttGeneric (u ! j))" if "j < 3" for j
    using ntt_leaves [OF normalized_bounded] u that by auto
  have uh: "vcong (vec_NTT u) (vleaves u)" "vbounded 26624 (vec_NTT u)"
    using n by (simp_all add: vcong_def vbounded_def vec_NTT_def vleaves_def nth_K)
  obtain r where r: "InvNTT (barrettReduceGeneric (PolyDotHat (sh sk) (vec_NTT u))) = Ok r" "bounded 3328 r" "pcong r (rdot s u)"
    using dot_InvNTT [OF _ uh(1) _ uh(2), of "sh sk" s 3328] key by (auto simp: keypair_def vnormal_bounded)
  note sb = subGeneric_nth [OF normalized_bounded [OF v] r(2), simplified]
  note nz = normalize_pcong [OF sb(1), simplified]
  have "pcong (subGeneric v r) (psub v r)"
    using sb(2) by (simp add: pcong_def psub_def)
  then have "pcong (normalizeGeneric (subGeneric v r)) (psub v (rdot s u))"
    using pcong_trans [OF nz(2)] pcong_trans pcong_psub [OF pcong_refl r(3)] by blast
  moreover have "cpapke_DecryptTo sk ct = Ok (CompressMessageTo (normalizeGeneric (subGeneric v r)))"
    using dv r(1) du by (simp add: cpapke_DecryptTo_def pke_DU_def compressedPolySize_def pke_K_def Let_def)
  ultimately show ?thesis
    using nz(1) by blast
qed

text \<open>
  The noise of a decryption: the error vectors of key generation and encryption and the rounding errors
  of compressing the ciphertext, as polynomials modulo \<open>X^256 + 1\<close>.
\<close>

definition pke_noise :: "Vec \<Rightarrow> Vec \<Rightarrow> Vec \<Rightarrow> Vec \<Rightarrow> Poly \<Rightarrow> Vec \<Rightarrow> Poly \<Rightarrow> Poly" where
  "pke_noise s e r e1 e2 u v =
     psub (padd (padd (rdot e r) e2) (psub (recompress 4 v) v))
          (rdot s (map (\<lambda>j. padd (e1 ! j) (psub (recompress 10 (u ! j)) (u ! j))) [0..<3]))"

lemma noise_pcong:
  assumes u: "\<forall>j < 3. pcong (u ! j) (padd (rdot (map (\<lambda>i. A i j) [0..<3]) r) (e1 ! j))"
    and v: "pcong v (padd (padd (rdot (map (\<lambda>i. padd (rdot (map (A i) [0..<3]) s) (e ! i)) [0..<3]) r) M) e2)"
  shows "pcong (psub (recompress 4 v) (rdot s (map (\<lambda>j. recompress 10 (u ! j)) [0..<3]))) (padd (pke_noise s e r e1 e2 u v) M)"
proof (rule ev_inj)
  fix l x :: nat
  assume l: "l < 128" and x: "x < 2"
  let ?w = "nodeW (128 + l)"
  let ?d = "\<lambda>j. padd (e1 ! j) (psub (recompress 10 (u ! j)) (u ! j))"
  let ?T = "\<lambda>i y. (\<Sum>j<3. hmul ?w (ev (A i j) l) (ev (s ! j) l) y) + ev (e ! i) l y"
  let ?U = "\<lambda>j y. (\<Sum>i<3. hmul ?w (ev (A i j) l) (ev (r ! i) l) y) + ev (?d j) l y"
  have T: "kcong (ev (padd (rdot (map (A i) [0..<3]) s) (e ! i)) l y) (?T i y)" if "i < 3" "y < 2" for i y
    using kcong_add [OF ev_rdot [OF l that(2), of "map (A i) [0..<3]" s] kcong_refl] that by (simp add: ev_padd)
  have "kcong (ev (rdot (map (\<lambda>i. padd (rdot (map (A i) [0..<3]) s) (e ! i)) [0..<3]) r) l x) (\<Sum>i<3. hmul ?w (?T i) (ev (r ! i) l) x)"
    by (rule kcong_trans [OF ev_rdot [OF l x]], rule kcong_sum, rule hmul_cong) (simp_all add: T)
  then have v': "kcong (ev v l x) ((\<Sum>i<3. hmul ?w (?T i) (ev (r ! i) l) x) + ev M l x + ev e2 l x)"
    using kcong_trans [OF ev_cong [OF v x]] x by (simp add: ev_padd kcong_add)
  have U: "kcong (ev (recompress 10 (u ! j)) l y) (?U j y)" if "j < 3" "y < 2" for j y
  proof -
    have "kcong (ev (u ! j) l y) ((\<Sum>i<3. hmul ?w (ev (A i j) l) (ev (r ! i) l) y) + ev (e1 ! j) l y)"
      using kcong_trans [OF ev_cong [OF u [rule_format, OF that(1)] that(2)]]
        kcong_add [OF ev_rdot [OF l that(2), of "map (\<lambda>i. A i j) [0..<3]" r] kcong_refl] that by (simp add: ev_padd)
    from kcong_add [OF this kcong_refl, of "ev (psub (recompress 10 (u ! j)) (u ! j)) l y"] show ?thesis
      using that by (simp add: ev_padd ev_psub add.assoc)
  qed
  have r': "kcong (ev (rdot s (map (\<lambda>j. recompress 10 (u ! j)) [0..<3])) l x) (\<Sum>j<3. hmul ?w (ev (s ! j) l) (?U j) x)"
    by (rule kcong_trans [OF ev_rdot [OF l x]], rule kcong_sum, rule hmul_cong) (simp_all add: U)
  have "kcong (ev (psub (recompress 4 v) (rdot s (map (\<lambda>j. recompress 10 (u ! j)) [0..<3]))) l x)
      (((\<Sum>i<3. hmul ?w (?T i) (ev (r ! i) l) x) + ev M l x + ev e2 l x) + ev (psub (recompress 4 v) v) l x -
       (\<Sum>j<3. hmul ?w (ev (s ! j) l) (?U j) x))"
    using kcong_diff [OF kcong_add [OF v' kcong_refl] r', of "ev (psub (recompress 4 v) v) l x"] x by (simp add: ev_psub)
  also have "((\<Sum>i<3. hmul ?w (?T i) (ev (r ! i) l) x) + ev M l x + ev e2 l x) + ev (psub (recompress 4 v) v) l x -
       (\<Sum>j<3. hmul ?w (ev (s ! j) l) (?U j) x) =
     ((\<Sum>i<3. hmul ?w (ev (e ! i) l) (ev (r ! i) l) x) + ev e2 l x + ev (psub (recompress 4 v) v) l x) -
       (\<Sum>j<3. hmul ?w (ev (s ! j) l) (ev (?d j) l) x) + ev M l x"
    using noise_identity [of ?w "\<lambda>i j. ev (A i j) l" "\<lambda>j. ev (s ! j) l" "\<lambda>i. ev (e ! i) l" "\<lambda>i. ev (r ! i) l" x "\<lambda>j. ev (?d j) l"] by linarith
  also have "kcong \<dots> (ev (padd (pke_noise s e r e1 e2 u v) M) l x)"
  proof -
    have er: "kcong (\<Sum>i<3. hmul ?w (ev (e ! i) l) (ev (r ! i) l) x) (ev (rdot e r) l x)"
      by (rule kcong_sym [OF ev_rdot [OF l x]])
    have "kcong (ev (rdot s (map ?d [0..<3])) l x) (\<Sum>j<3. hmul ?w (ev (s ! j) l) (ev (map ?d [0..<3] ! j) l) x)"
      by (rule ev_rdot [OF l x])
    then have sd: "kcong (\<Sum>j<3. hmul ?w (ev (s ! j) l) (ev (?d j) l) x) (ev (rdot s (map ?d [0..<3])) l x)"
      by (simp add: kcong_sym)
    show ?thesis
      unfolding pke_noise_def ev_padd [OF x] ev_psub [OF x, of "padd _ _"]
      by (intro kcong_add kcong_diff kcong_refl er sd)
  qed
  finally show "kcong (ev (psub (recompress 4 v) (rdot s (map (\<lambda>j. recompress 10 (u ! j)) [0..<3]))) l x)
      (ev (padd (pke_noise s e r e1 e2 u v) M) l x)" .
qed

text \<open>A polynomial is small when its centred residues are at most 831 in absolute value, just below q/4.\<close>

definition small :: "Poly \<Rightarrow> bool" where
  "small p \<longleftrightarrow> (\<forall>i < 256. (p ! i + 831) mod 3329 \<le> 1662)"

definition pke_noise_ok :: "sha3 \<Rightarrow> bytes \<Rightarrow> cpapke_PublicKey \<Rightarrow> bytes \<Rightarrow> bytes \<Rightarrow> bool" where
  "pke_noise_ok H seed pk pt eseed =
     (let sigma = drop 32 (xread (sha3_512 H) seed 0 64) in
      case bind_res (vec_DeriveNoise H sigma 0 pke_Eta1) (\<lambda>s.
           bind_res (vec_DeriveNoise H sigma (of_nat pke_K) pke_Eta1) (\<lambda>e.
           bind_res (vec_DeriveNoise H eseed 0 pke_Eta1) (\<lambda>r.
           bind_res (vec_DeriveNoise H eseed (of_nat pke_K) pke_Eta2) (\<lambda>e1.
           bind_res (DeriveNoise (shake256 H) eseed (of_nat (2 * pke_K)) pke_Eta2) (\<lambda>e2.
           bind_res (encrypt_uv H pk pt eseed) (\<lambda>(u, v).
           Ok (small (pke_noise s e r e1 e2 u v)))))))) of Ok b \<Rightarrow> b | _ \<Rightarrow> False)"

lemma small_message:
  assumes "normalized m" "pcong m (padd n (DecompressMessage pt))" "small n" "length pt = 32"
  shows "CompressMessageTo m = pt"
proof (rule CompressMessageTo_spec [OF assms(1,4)])
  fix i j :: nat
  assume ij: "i < 32" "j < 8"
  let ?k = "8 * i + j"
  have k: "?k < 256" using ij by simp
  define c where "c = (n ! ?k + 831) mod 3329 - 831"
  have c: "- 831 \<le> c" "c \<le> 831"
    using assms(3) k by (simp_all add: c_def small_def)
  have "c mod 3329 = n ! ?k mod 3329"
    by (simp add: c_def mod_diff_left_eq)
  then have "kcong (m ! ?k) (c + DecompressMessage pt ! ?k)"
    using assms(2) k unfolding pcong_def kcong_def by (simp add: padd_def) (metis mod_add_left_eq)
  then have m: "m ! ?k = (c + DecompressMessage pt ! ?k) mod 3329"
    using assms(1) k by (simp add: normalized_def kcong_def)
  show "bit (pt ! i) j \<longleftrightarrow> 833 \<le> m ! ?k \<and> m ! ?k \<le> 2496"
  proof (cases "bit (pt ! i) j")
    case True
    then have "m ! ?k = c + 1665"
      using m c by (simp add: DecompressMessage_nth(2) [OF ij])
    with True c show ?thesis by simp
  next
    case False
    then have "m ! ?k = (if c < 0 then c + 3329 else c)"
      using m c mod_pos_pos_trivial [of "c + 3329" 3329] by (auto simp: DecompressMessage_nth(2) [OF ij])
    with False c show ?thesis by (simp split: if_splits)
  qed
qed

lemma decrypt_encrypt:
  assumes key: "cpapke_NewKeyFromSeed H seed = Some (Ok (pk, sk))" and noise: "pke_noise_ok H seed pk pt eseed" and pt: "length pt = 32"
  shows "\<exists>ct. cpapke_EncryptTo H pk pt eseed = Ok ct \<and> length ct = 1088 \<and> cpapke_DecryptTo sk ct = Ok pt"
proof -
  let ?sigma = "drop 32 (xread (sha3_512 H) seed 0 64)"
  obtain A s e where kp: "vec_DeriveNoise H ?sigma 0 pke_Eta1 = Ok s" "vec_DeriveNoise H ?sigma (of_nat pke_K) pke_Eta1 = Ok e" "keypair A s e pk sk"
    using NewKeyFromSeed_keypair [OF key] by blast
  obtain r e1 e2 u v where en: "vec_DeriveNoise H eseed 0 pke_Eta1 = Ok r" "vec_DeriveNoise H eseed (of_nat pke_K) pke_Eta2 = Ok e1"
      "DeriveNoise (shake256 H) eseed (of_nat (2 * pke_K)) pke_Eta2 = Ok e2" "encrypt_uv H pk pt eseed = Ok (u, v)"
      "\<forall>j < 3. normalized (u ! j) \<and> pcong (u ! j) (padd (rdot (map (\<lambda>i. A i j) [0..<3]) r) (e1 ! j))" "normalized v"
      "pcong v (padd (padd (rdot (map (\<lambda>i. padd (rdot (map (A i) [0..<3]) s) (e ! i)) [0..<3]) r) (DecompressMessage pt)) e2)"
    using encrypt_uv_spec [OF kp(3), of H eseed pt] by blast
  have sm: "small (pke_noise s e r e1 e2 u v)"
    using noise unfolding pke_noise_ok_def Let_def kp(1,2) en(1-4) by simp
  obtain cv where cv: "poly_CompressTo v 4 = Ok cv" "length cv = 128" "poly_Decompress (cv @ []) 4 = Ok (recompress 4 v)"
    using compress_roundtrip [of 4 v "[]"] en(6) by (auto simp: recompress_def)
  obtain cu where cu: "vec_CompressTo u pke_DU = Ok cu" "length cu = 960"
      "vec_Decompress (cu @ cv) pke_DU = Ok (map (\<lambda>j. recompress 10 (u ! j)) [0..<pke_K])"
    using vec_compress_roundtrip [of u cv] en(5) by blast
  have "cpapke_EncryptTo H pk pt eseed = Ok (cu @ cv)"
    using cu(1) cv(1) by (simp add: cpapke_EncryptTo_def en(4) pke_DV_def)
  moreover have "\<exists>m. cpapke_DecryptTo sk (cu @ cv) = Ok (CompressMessageTo m) \<and> normalized m \<and>
      pcong m (psub (recompress 4 v) (rdot s (map (\<lambda>j. recompress 10 (u ! j)) [0..<pke_K])))"
    by (rule DecryptTo_spec [OF kp(3) _ _ cu(3)]) (simp_all add: nth_K recompress_normalized cu(2) cv(3) [simplified] pke_DV_def)
  then obtain m where m: "cpapke_DecryptTo sk (cu @ cv) = Ok (CompressMessageTo m)" "normalized m"
      "pcong m (psub (recompress 4 v) (rdot s (map (\<lambda>j. recompress 10 (u ! j)) [0..<3])))"
    by (auto simp: pke_K_def)
  have "pcong m (padd (pke_noise s e r e1 e2 u v) (DecompressMessage pt))"
    using pcong_trans [OF m(3) noise_pcong [OF _ en(7)]] en(5) by blast
  then have "CompressMessageTo m = pt"
    by (rule small_message [OF m(2) _ sm pt])
  ultimately show ?thesis
    using m(1) cu(2) cv(2) by (intro exI [of _ "cu @ cv"]) simp
qed

end
