(* ===== verification/Kyber768.thy ===== *)
theory Kyber768
  imports Kyber_PKE
begin

text \<open>
  The package \<^verbatim>\<open>circl/pke/kyber/kyber768\<close>: packing of keys and the exported functions with their checks of
  lengths (\<^verbatim>\<open>kyber.go\<close>). The properties are the correctness of decryption, the round trip of packed keys, and
  that the key check of ML-KEM accepts canonical encodings only. An instance in which every hash and
  stream is zero shows that their hypotheses can hold.
\<close>


section \<open>Packing of keys\<close>

lemma normalize_id: "normalized p \<Longrightarrow> normalizeGeneric p = p"
  using normalizeGeneric_spec [OF normalized_bounded] by (intro nth_equalityI) (auto simp: normalized_def)

lemma normalized_12bit: "normalized p \<Longrightarrow> \<forall>i < 256. 0 \<le> p ! i \<and> p ! i < 4096"
  by (auto simp: normalized_def)

lemma vec_eqI: "length v = 3 \<Longrightarrow> (\<And>i. i < 3 \<Longrightarrow> f i = v ! i) \<Longrightarrow> map f [0..<pke_K] = v"
  by (rule nth_equalityI) (simp_all add: pke_K_def)

lemma vec_pack_roundtrip:
  assumes "vnormal v"
  shows "length (vec_Pack v) = 1152" and "vec_Unpack (vec_Pack v @ rest) = v" and "vec_Normalize v = v"
proof -
  have p: "length (poly_Pack (v ! i)) = 384" "poly_Unpack (poly_Pack (v ! i) @ r) = v ! i" if "i < 3" for i r
    using poly_pack_roundtrip [of "v ! i"] assms that normalized_12bit by (auto simp: vnormal_def normalized_def)
  show "length (vec_Pack v) = 1152"
    by (simp add: vec_Pack_def range_K p)
  show "vec_Normalize v = v"
    unfolding vec_Normalize_def using assms by (intro vec_eqI) (simp_all add: vnormal_def normalize_id)
  show "vec_Unpack (vec_Pack v @ rest) = v"
    unfolding vec_Unpack_def
  proof (rule vec_eqI)
    fix i :: nat
    assume i: "i < 3"
    have "drop (PolySize * i) (vec_Pack v @ rest) = poly_Pack (v ! i) @ concat (map (\<lambda>i. poly_Pack (v ! i)) [Suc i..<pke_K]) @ rest"
      unfolding vec_Pack_def using i by (intro drop_concat_groups) (simp_all add: pke_K_def PolySize_def p)
    then show "poly_Unpack (drop (PolySize * i) (vec_Pack v @ rest)) = v ! i"
      by (simp add: p(2) [OF i])
  qed (use assms in \<open>simp add: vnormal_def\<close>)
qed

lemma map_option_list_SomeI:
  "length ys = length xs \<Longrightarrow> (\<And>i. i < length xs \<Longrightarrow> f (xs ! i) = Some (ys ! i)) \<Longrightarrow> map_option_list f xs = Some ys"
proof (induction xs arbitrary: ys)
  case (Cons x xs)
  then obtain y zs where ys: "ys = y # zs" by (cases ys) auto
  have "f x = Some y" using Cons.prems(2) [of 0] by (simp add: ys)
  moreover have "map_option_list f xs = Some zs"
    using Cons.prems(2) [of "Suc _"] Cons.prems(1) by (intro Cons.IH) (auto simp: ys)
  ultimately show ?case by (simp add: ys)
qed simp

text \<open>Sampling the transposed matrix gives the transpose of the matrix sampled without transposing.\<close>

lemma mat_Derive_transposed:
  assumes "mat_Derive H seed False = Some M"
  shows "mat_Derive H seed True = Some (mat_Transpose M)"
proof -
  note m = mat_Derive_Some [OF assms]
  have t: "mat3 (mat_Transpose M)"
    using m(1) by (rule length_mat_Transpose)
  have u: "[0..<pke_K] ! i = i" if "i < pke_K" for i
    using that by simp
  show ?thesis
    unfolding mat_Derive_def if_True
  proof (intro map_option_list_SomeI)
    fix i j
    assume "i < length [0..<pke_K]" "j < length [0..<pke_K]"
    then have i: "i < 3" "j < 3" "i < pke_K" "j < pke_K" by (simp_all add: pke_K_def)
    show "DeriveUniform (shake128 H) seed (of_nat ([0..<pke_K] ! i)) (of_nat ([0..<pke_K] ! j)) = Some (mat_Transpose M ! i ! j)"
      unfolding u [OF i(3)] u [OF i(4)] mat_Transpose_nth [OF m(1) i(1,2)] using m(3) [OF i(2,1)] by simp
  qed (use t in \<open>simp_all add: mat3_def pke_K_def\<close>)
qed

lemma NewKeyFromSeed_normal:
  assumes "cpapke_NewKeyFromSeed H seed = Some (Ok (pk, sk))"
  shows "vnormal (th pk)" and "vnormal (sh sk)" and "length (rho pk) = 32" and "mat_Derive H (rho pk) True = Some (aT pk)"
    and "pk_Unpack H (pk_Pack pk) = Some pk" and "sk_Unpack (sk_Pack sk) = sk"
proof -
  let ?rho = "take 32 (xread (sha3_512 H) seed 0 64)" and ?sigma = "drop 32 (xread (sha3_512 H) seed 0 64)"
  obtain s e where s: "vec_DeriveNoise H ?sigma 0 pke_Eta1 = Ok s" "vbounded 3 s"
      and e: "vec_DeriveNoise H ?sigma (of_nat pke_K) pke_Eta1 = Ok e" "vbounded 3 e"
    using vec_DeriveNoise_Ok [of pke_Eta1 H ?sigma 0] vec_DeriveNoise_Ok [of pke_Eta1 H ?sigma "of_nat pke_K"] by (auto simp: pke_Eta1_def)
  obtain M where M: "mat_Derive H ?rho False = Some M"
    using assms by (auto simp: cpapke_NewKeyFromSeed_def Let_def split: option.splits)
  have r: "rho pk = ?rho" "aT pk = mat_Transpose M"
    using assms by (auto simp: cpapke_NewKeyFromSeed_def Let_def M s(1) e(1))
  show "length (rho pk) = 32"
    by (simp add: r xread_def)
  show d: "mat_Derive H (rho pk) True = Some (aT pk)"
    unfolding r by (rule mat_Derive_transposed [OF M])
  obtain A s' e' where "keypair A s' e' pk sk"
    using NewKeyFromSeed_keypair [OF assms] by blast
  then show n: "vnormal (th pk)" "vnormal (sh sk)"
    by (simp_all add: keypair_def)
  note pk = vec_pack_roundtrip [OF n(1)] and sk = vec_pack_roundtrip [OF n(2)]
  have "go_copy (replicate 32 0) (rho pk) = rho pk"
    using \<open>length (rho pk) = 32\<close> by (simp add: go_copy_def)
  then show "pk_Unpack H (pk_Pack pk) = Some pk"
    using pk d by (simp add: pk_Unpack_def pk_Pack_def Let_def pke_K_def PolySize_def)
  show "sk_Unpack (sk_Pack sk) = sk"
    using sk(2) [of "[]"] sk(3) by (simp add: sk_Unpack_def sk_Pack_def)
qed

section \<open>The package functions\<close>

definition kyber768_PublicKeySize :: nat where "kyber768_PublicKeySize = 32 + pke_K * PolySize"
definition kyber768_PrivateKeySize :: nat where "kyber768_PrivateKeySize = pke_K * PolySize"
definition kyber768_CiphertextSize :: nat where "kyber768_CiphertextSize = 1088"

definition kyber768_NewKeyFromSeed :: "sha3 \<Rightarrow> bytes \<Rightarrow> (cpapke_PublicKey \<times> cpapke_PrivateKey) res option" where
  "kyber768_NewKeyFromSeed H seed =
     (if length seed \<noteq> 32 then Some (Panic ''seed must be of length KeySeedSize'') else cpapke_NewKeyFromSeed H seed)"

definition kyber768_NewKeyFromSeedMLKEM :: "sha3 \<Rightarrow> bytes \<Rightarrow> (cpapke_PublicKey \<times> cpapke_PrivateKey) res option" where
  "kyber768_NewKeyFromSeedMLKEM H seed =
     (if length seed \<noteq> 32 then Some (Panic ''seed must be of length KeySeedSize'')
      else cpapke_NewKeyFromSeed H (go_copy (replicate 32 0) seed @ [of_nat pke_K]))"

text \<open>The buffer for the result is represented by its length, the only thing the code reads of it.\<close>

definition kyber768_EncryptTo :: "sha3 \<Rightarrow> cpapke_PublicKey \<Rightarrow> nat \<Rightarrow> bytes \<Rightarrow> bytes \<Rightarrow> bytes res" where
  "kyber768_EncryptTo H pk ctLen pt seed =
     (if length pt \<noteq> 32 then Panic ''pt must be of length PlaintextSize''
      else if ctLen \<noteq> kyber768_CiphertextSize then Panic ''ct must be of length CiphertextSize''
      else if length seed \<noteq> 32 then Panic ''seed must be of length EncryptionSeedSize''
      else cpapke_EncryptTo H pk pt seed)"

definition kyber768_DecryptTo :: "cpapke_PrivateKey \<Rightarrow> nat \<Rightarrow> bytes \<Rightarrow> bytes res" where
  "kyber768_DecryptTo sk ptLen ct =
     (if ptLen \<noteq> 32 then Panic ''pt must be of length PlaintextSize''
      else if length ct \<noteq> kyber768_CiphertextSize then Panic ''ct must be of length CiphertextSize''
      else cpapke_DecryptTo sk ct)"

definition kyber768_pk_Pack :: "cpapke_PublicKey \<Rightarrow> nat \<Rightarrow> bytes res" where
  "kyber768_pk_Pack pk bufLen =
     (if bufLen \<noteq> kyber768_PublicKeySize then Panic ''buf must be of size PublicKeySize'' else Ok (pk_Pack pk))"

definition kyber768_sk_Pack :: "cpapke_PrivateKey \<Rightarrow> nat \<Rightarrow> bytes res" where
  "kyber768_sk_Pack sk bufLen =
     (if bufLen \<noteq> kyber768_PrivateKeySize then Panic ''buf must be of size PrivateKeySize'' else Ok (sk_Pack sk))"

definition kyber768_pk_Unpack :: "sha3 \<Rightarrow> bytes \<Rightarrow> cpapke_PublicKey res option" where
  "kyber768_pk_Unpack H buf =
     (if length buf \<noteq> kyber768_PublicKeySize then Some (Panic ''buf must be of size PublicKeySize'')
      else map_option Ok (pk_Unpack H buf))"

definition kyber768_pk_UnpackMLKEM :: "sha3 \<Rightarrow> bytes \<Rightarrow> cpapke_PublicKey res option" where
  "kyber768_pk_UnpackMLKEM H buf =
     (if length buf \<noteq> kyber768_PublicKeySize then Some (Err ''wrong size for public key'') else pk_UnpackMLKEM H buf)"

definition kyber768_sk_Unpack :: "bytes \<Rightarrow> cpapke_PrivateKey res" where
  "kyber768_sk_Unpack buf =
     (if length buf \<noteq> kyber768_PrivateKeySize then Panic ''buf must be of size PrivateKeySize'' else Ok (sk_Unpack buf))"

lemmas kyber768_sizes = kyber768_PublicKeySize_def kyber768_PrivateKeySize_def kyber768_CiphertextSize_def pke_K_def PolySize_def

lemma UnpackMLKEM_canonical:
  assumes "kyber768_pk_UnpackMLKEM H buf = Some (Ok pk)"
  shows "pk_Pack pk = buf"
proof -
  have l: "length buf = 1184"
    using assms by (auto simp: kyber768_pk_UnpackMLKEM_def kyber768_sizes split: if_splits)
  have u: "pk_UnpackMLKEM H buf = Some (Ok pk)"
    using assms l by (simp add: kyber768_pk_UnpackMLKEM_def kyber768_sizes)
  then have th: "th pk = vec_Normalize (vec_Unpack buf)" "rho pk = go_copy (replicate 32 0) (drop 1152 buf)" "take (length (vec_Pack (th pk))) buf = vec_Pack (th pk)"
    by (auto simp: pk_UnpackMLKEM_def pk_Unpack_def Let_def pke_K_def PolySize_def split: option.splits if_splits)
  have pl: "length (poly_Pack p) = 384" for p
    unfolding poly_Pack_def Let_def by (subst length_concat_groups [where w = 3]) simp_all
  then have "length (vec_Pack (th pk)) = 1152"
    by (simp add: vec_Pack_def range_K)
  moreover have "rho pk = drop 1152 buf"
    using th(2) l by (simp add: go_copy_def)
  ultimately show ?thesis
    using th(3) by (simp add: pk_Pack_def) (metis append_take_drop_id)
qed

section \<open>An instance with zero streams\<close>

definition zero_sha3 :: sha3 where
  "zero_sha3 = \<lparr>shake128 = zero_xof, shake256 = zero_xof, sha3_256 = zero_xof, sha3_512 = zero_xof\<rparr>"

abbreviation zpoly :: Poly where "zpoly \<equiv> replicate 256 0"

lemma cbd_zero: "c < 256 \<Longrightarrow> cbd 2 (replicate 128 0) c = 0"
  by (simp add: cbd_def bitval_def)

lemma zero_noise: "DeriveNoise zero_xof seed nonce 2 = Ok zpoly"
proof -
  have "map (cbd 2 (replicate 128 0)) [0..<256] = zpoly"
    by (rule nth_equalityI) (simp_all add: cbd_zero)
  then show ?thesis
    by (simp add: DeriveNoise_def DeriveNoise2_spec zero_read)
qed

lemma zero_vec_noise: "vec_DeriveNoise zero_sha3 seed nonce 2 = Ok [zpoly, zpoly, zpoly]"
  by (simp add: vec_DeriveNoise_def zero_sha3_def zero_noise range_K)

lemma zero_matrix: "mat_Derive zero_sha3 seed tr = Some (replicate 3 (replicate 3 zpoly))"
proof -
  have "DeriveUniform zero_xof seed i j = Some zpoly" for i j
    using DeriveUniform_spec(1) [of zero_xof seed i j 3] by (simp add: zero_accepted)
  then show ?thesis
    by (simp add: mat_Derive_def zero_sha3_def range_K numeral_3_eq_3)
qed

lemma negmul_zero: "k < 256 \<Longrightarrow> negmul zpoly b ! k = 0" "k < 256 \<Longrightarrow> negmul a zpoly ! k = 0"
  by (auto simp: negmul_def intro!: sum.neutral)

lemma rdot_zero: "rdot [zpoly, zpoly, zpoly] b = zpoly" "rdot a [zpoly, zpoly, zpoly] = zpoly"
  by (rule nth_equalityI; simp add: rdot_def sum_3 negmul_zero)+

lemma message_normalized: "normalized (DecompressMessage m)"
proof -
  have "0 \<le> DecompressMessage m ! k \<and> DecompressMessage m ! k < 3329" if "k < 256" for k
    using DecompressMessage_nth(2) [of "k div 8" "k mod 8" m] that by (simp split: if_splits)
  then show ?thesis
    by (simp add: normalized_def DecompressMessage_nth(1))
qed

lemma message_recompress: "recompress 4 (DecompressMessage m) = DecompressMessage m"
proof (rule nth_equalityI)
  show "length (recompress 4 (DecompressMessage m)) = length (DecompressMessage m)"
    by (simp add: recompress_def DecompressMessage_nth(1))
  fix k
  assume "k < length (recompress 4 (DecompressMessage m))"
  then have k: "k < 256" by (simp add: recompress_def)
  then show "recompress 4 (DecompressMessage m) ! k = DecompressMessage m ! k"
    using DecompressMessage_nth(2) [of "k div 8" "k mod 8" m]
    by (simp add: recompress_def decompress_spec_def compress_spec_def split: if_splits)
qed

lemma zero_pke_noise_ok:
  assumes "cpapke_NewKeyFromSeed zero_sha3 seed = Some (Ok (pk, sk))"
  shows "pke_noise_ok zero_sha3 seed pk pt eseed"
proof -
  let ?z = "[zpoly, zpoly, zpoly]"
  obtain A s e where kp: "keypair A s e pk sk"
    using NewKeyFromSeed_keypair [OF assms] by blast
  have e: "pke_Eta1 = 2" "pke_Eta2 = 2" by (simp_all add: pke_Eta1_def pke_Eta2_def)
  obtain r e1 e2 u v where en: "vec_DeriveNoise zero_sha3 eseed 0 pke_Eta1 = Ok r" "vec_DeriveNoise zero_sha3 eseed (of_nat pke_K) pke_Eta2 = Ok e1"
      "DeriveNoise (shake256 zero_sha3) eseed (of_nat (2 * pke_K)) pke_Eta2 = Ok e2" "encrypt_uv zero_sha3 pk pt eseed = Ok (u, v)" "normalized v"
      "pcong v (padd (padd (rdot (map (\<lambda>i. padd (rdot (map (A i) [0..<3]) s) (e ! i)) [0..<3]) r) (DecompressMessage pt)) e2)"
    using encrypt_uv_spec [OF kp, of zero_sha3 eseed pt] by blast
  have zn: "vec_DeriveNoise zero_sha3 x n pke_Eta1 = Ok ?z" "vec_DeriveNoise zero_sha3 x n pke_Eta2 = Ok ?z"
      "DeriveNoise (shake256 zero_sha3) x n pke_Eta2 = Ok zpoly" for x n
    unfolding e by (rule zero_vec_noise) (rule zero_vec_noise, simp only: zero_sha3_def sha3.simps zero_noise)
  have z: "r = ?z" "e1 = ?z" "e2 = zpoly"
    using en(1-3) unfolding zn by (simp_all only: res.inject)
  have "pcong v (DecompressMessage pt)"
    using en(6) by (simp add: z rdot_zero pcong_def padd_nth)
  then have v: "v = DecompressMessage pt"
    by (rule pcong_normalized [OF _ en(5) message_normalized])
  have "small (pke_noise ?z ?z ?z ?z zpoly u v)"
    unfolding small_def pke_noise_def rdot_zero v message_recompress padd_def psub_def by simp
  then show ?thesis
    unfolding pke_noise_ok_def Let_def zn en(4) by simp
qed

lemma zero_key: "\<exists>pk sk. cpapke_NewKeyFromSeed zero_sha3 seed = Some (Ok (pk, sk))"
proof -
  have "\<exists>r. cpapke_NewKeyFromSeed zero_sha3 seed = Some r"
    by (simp add: cpapke_NewKeyFromSeed_def Let_def zero_matrix)
  then show ?thesis
    using NewKeyFromSeed_keypair by blast
qed

section \<open>Properties\<close>

text \<open>C20: correctness of Kyber768.CPAPKE. For a key pair made by NewKeyFromSeed, a 32-byte message and
  any encryption seed whose noise polynomial has all coefficients within 831 of zero modulo q, EncryptTo
  returns a ciphertext of 1088 bytes (no panic, no overflow of a 16-bit coefficient) and DecryptTo
  returns the message.\<close>

theorem kyber_decrypts:
  assumes "kyber768_NewKeyFromSeed H seed = Some (Ok (pk, sk))" and "pke_noise_ok H seed pk pt eseed"
    and "length pt = 32" and "length eseed = 32"
  shows "\<exists>ct. kyber768_EncryptTo H pk 1088 pt eseed = Ok ct \<and> length ct = 1088 \<and> kyber768_DecryptTo sk 32 ct = Ok pt"
  using decrypt_encrypt [OF _ assms(2,3), of sk] assms
  by (auto simp: kyber768_NewKeyFromSeed_def kyber768_EncryptTo_def kyber768_DecryptTo_def kyber768_sizes split: if_splits)

theorem kyber_decrypts_witness:
  "\<exists>pk sk. kyber768_NewKeyFromSeed zero_sha3 (replicate 32 1) = Some (Ok (pk, sk)) \<and>
     (\<exists>ct. kyber768_EncryptTo zero_sha3 pk 1088 (replicate 32 165) (replicate 32 7) = Ok ct \<and> length ct = 1088 \<and>
        kyber768_DecryptTo sk 32 ct = Ok (replicate 32 165))"
proof -
  obtain pk sk where k: "cpapke_NewKeyFromSeed zero_sha3 (replicate 32 1) = Some (Ok (pk, sk))"
    using zero_key by blast
  then have "kyber768_NewKeyFromSeed zero_sha3 (replicate 32 1) = Some (Ok (pk, sk))"
    by (simp add: kyber768_NewKeyFromSeed_def)
  with kyber_decrypts [OF this zero_pke_noise_ok [OF k], of "replicate 32 165" "replicate 32 7"] show ?thesis
    by (metis length_replicate)
qed

text \<open>Keys survive packing: Unpack of a packed public key gives the same key, the matrix rebuilt from
  the seed included (transposed sampling gives the transposed matrix), UnpackMLKEM accepts it, and
  the private key is restored as well.\<close>

theorem kyber_keys_roundtrip:
  assumes "kyber768_NewKeyFromSeed H seed = Some (Ok (pk, sk))"
  shows "\<exists>bp bs. kyber768_pk_Pack pk 1184 = Ok bp \<and> kyber768_pk_Unpack H bp = Some (Ok pk) \<and> kyber768_pk_UnpackMLKEM H bp = Some (Ok pk) \<and>
    kyber768_sk_Pack sk 1152 = Ok bs \<and> kyber768_sk_Unpack bs = Ok sk"
proof -
  have k: "cpapke_NewKeyFromSeed H seed = Some (Ok (pk, sk))"
    using assms by (simp add: kyber768_NewKeyFromSeed_def split: if_splits)
  note n = NewKeyFromSeed_normal [OF k]
  note l = vec_pack_roundtrip(1) [OF n(1)] vec_pack_roundtrip(1) [OF n(2)]
  have "length (pk_Pack pk) = 1184" "length (sk_Pack sk) = 1152" "take (length (vec_Pack (th pk))) (pk_Pack pk) = vec_Pack (th pk)"
    using l n(3) by (simp_all add: pk_Pack_def sk_Pack_def)
  then show ?thesis
    using n(5,6) by (simp add: kyber768_pk_Pack_def kyber768_sk_Pack_def kyber768_pk_Unpack_def kyber768_pk_UnpackMLKEM_def
        kyber768_sk_Unpack_def pk_UnpackMLKEM_def kyber768_sizes Let_def)
qed

text \<open>UnpackMLKEM accepts only canonical encodings: whenever it accepts a byte string, packing the key
  gives the same byte string back, so no two encodings of a key are accepted.\<close>

theorem kyber_mlkem_canonical:
  assumes "kyber768_pk_UnpackMLKEM H buf = Some (Ok pk)"
  shows "kyber768_pk_Pack pk (length buf) = Ok buf"
proof -
  have "length buf = 1184"
    using assms by (auto simp: kyber768_pk_UnpackMLKEM_def kyber768_sizes split: if_splits)
  then show ?thesis
    using UnpackMLKEM_canonical [OF assms] by (simp add: kyber768_pk_Pack_def kyber768_sizes)
qed

end
