(* ===== verification/MLKEM768.thy ===== *)
theory MLKEM768
  imports Kyber768 Constant_Time
begin

text \<open>
  ML-KEM-768, \<^verbatim>\<open>circl/kem/mlkem/mlkem768/kyber.go\<close>: keys, encapsulation, decapsulation with implicit
  rejection, packing, and the scheme as an instance of the KEM interface. The equality tests and the generation from the system's randomness are left out.
\<close>

section \<open>Keys\<close>

record mlkem_PublicKey =
  mpk_pk :: cpapke_PublicKey
  mpk_hpk :: bytes

record mlkem_PrivateKey =
  msk_sk :: cpapke_PrivateKey
  msk_pk :: cpapke_PublicKey
  msk_hpk :: bytes
  msk_z :: bytes

definition mlkem_PrivateKeySize :: nat where
  "mlkem_PrivateKeySize = kyber768_PrivateKeySize + kyber768_PublicKeySize + 64"

definition mlkem_NewKeyFromSeed :: "sha3 \<Rightarrow> bytes \<Rightarrow> (mlkem_PublicKey \<times> mlkem_PrivateKey) res option" where
  "mlkem_NewKeyFromSeed H seed =
     (if length seed \<noteq> 64 then Some (Panic ''seed must be of length KeySeedSize'')
      else case kyber768_NewKeyFromSeedMLKEM H (take 32 seed) of None \<Rightarrow> None
      | Some r \<Rightarrow> Some (bind_res r (\<lambda>(pk, sk).
          let z = go_copy (replicate 32 0) (drop 32 seed) in
          bind_res (kyber768_pk_Pack pk kyber768_PublicKeySize) (\<lambda>ppk.
          let hpk = xread (sha3_256 H) ppk 0 32 in
          Ok (\<lparr>mpk_pk = pk, mpk_hpk = hpk\<rparr>, \<lparr>msk_sk = sk, msk_pk = pk, msk_hpk = hpk, msk_z = z\<rparr>)))))"

definition mlkem_EncapsulateTo :: "sha3 \<Rightarrow> (nat \<Rightarrow> bytes option) \<Rightarrow> mlkem_PublicKey \<Rightarrow> nat \<Rightarrow> nat \<Rightarrow> bytes option \<Rightarrow> (bytes \<times> bytes) res" where
  "mlkem_EncapsulateTo H rnd pk ctLen ssLen seed =
     bind_res (case seed of
         None \<Rightarrow> (case rnd 32 of None \<Rightarrow> Panic ''crypto/rand'' | Some s \<Rightarrow> Ok s)
       | Some s \<Rightarrow> if length s \<noteq> 32 then Panic ''seed must be of length EncapsulationSeedSize'' else Ok s) (\<lambda>seed.
     if ctLen \<noteq> kyber768_CiphertextSize then Panic ''ct must be of length CiphertextSize''
     else if ssLen \<noteq> 32 then Panic ''ss must be of length SharedKeySize''
     else let m = go_copy (replicate 32 0) seed;
              kr = xread (sha3_512 H) (m @ mpk_hpk pk) 0 64
          in bind_res (kyber768_EncryptTo H (mpk_pk pk) ctLen m (drop 32 kr)) (\<lambda>ct.
             Ok (ct, take 32 kr)))"

definition mlkem_DecapsulateTo :: "sha3 \<Rightarrow> mlkem_PrivateKey \<Rightarrow> nat \<Rightarrow> bytes \<Rightarrow> bytes res" where
  "mlkem_DecapsulateTo H sk ssLen ct =
     (if length ct \<noteq> kyber768_CiphertextSize then Panic ''ct must be of length CiphertextSize''
      else if ssLen \<noteq> 32 then Panic ''ss must be of length SharedKeySize''
      else bind_res (kyber768_DecryptTo (msk_sk sk) 32 ct) (\<lambda>m2.
        let kr2 = xread (sha3_512 H) (m2 @ msk_hpk sk) 0 64 in
        bind_res (kyber768_EncryptTo H (msk_pk sk) kyber768_CiphertextSize m2 (drop 32 kr2)) (\<lambda>ct2.
        let ss2 = xread (shake256 H) (msk_z sk @ take kyber768_CiphertextSize ct) 0 32 in
        ConstantTimeCopy (ConstantTimeCompare ct ct2) ss2 (take 32 kr2))))"

definition mlkem_sk_Pack :: "mlkem_PrivateKey \<Rightarrow> nat \<Rightarrow> bytes res" where
  "mlkem_sk_Pack sk bufLen =
     (if bufLen \<noteq> mlkem_PrivateKeySize then Panic ''buf must be of length PrivateKeySize''
      else bind_res (kyber768_sk_Pack (msk_sk sk) kyber768_PrivateKeySize) (\<lambda>a.
           bind_res (kyber768_pk_Pack (msk_pk sk) kyber768_PublicKeySize) (\<lambda>b.
           Ok (a @ b @ msk_hpk sk @ msk_z sk))))"

definition mlkem_sk_Unpack :: "sha3 \<Rightarrow> bytes \<Rightarrow> mlkem_PrivateKey res option" where
  "mlkem_sk_Unpack H buf =
     (if length buf \<noteq> mlkem_PrivateKeySize then Some (Err ''wrong size for private key'')
      else case kyber768_sk_Unpack (take kyber768_PrivateKeySize buf) of Ok sk \<Rightarrow>
        (let buf = drop kyber768_PrivateKeySize buf in
         case kyber768_pk_Unpack H (take kyber768_PublicKeySize buf) of None \<Rightarrow> None
         | Some r \<Rightarrow> Some (bind_res r (\<lambda>pk.
             let hpk = xread (sha3_256 H) (take kyber768_PublicKeySize buf) 0 32;
                 buf = drop kyber768_PublicKeySize buf;
                 shpk = go_copy (replicate 32 0) (take 32 buf);
                 z = go_copy (replicate 32 0) (drop 32 buf)
             in if hpk \<noteq> shpk then Err ''invalid private key''
                else Ok \<lparr>msk_sk = sk, msk_pk = pk, msk_hpk = shpk, msk_z = z\<rparr>)))
      | Err e \<Rightarrow> Some (Err e) | Panic p \<Rightarrow> Some (Panic p))"

definition mlkem_pk_Pack :: "mlkem_PublicKey \<Rightarrow> nat \<Rightarrow> bytes res" where
  "mlkem_pk_Pack pk bufLen =
     (if bufLen \<noteq> kyber768_PublicKeySize then Panic ''buf must be of length PublicKeySize''
      else kyber768_pk_Pack (mpk_pk pk) bufLen)"

definition mlkem_pk_Unpack :: "sha3 \<Rightarrow> bytes \<Rightarrow> mlkem_PublicKey res option" where
  "mlkem_pk_Unpack H buf =
     (if length buf \<noteq> kyber768_PublicKeySize then Some (Err ''wrong size for public key'')
      else case kyber768_pk_UnpackMLKEM H buf of None \<Rightarrow> None
      | Some r \<Rightarrow> Some (bind_res r (\<lambda>pk. Ok \<lparr>mpk_pk = pk, mpk_hpk = xread (sha3_256 H) buf 0 32\<rparr>)))"

section \<open>Encryption and decryption are total\<close>

lemma normalizedI: "length p = 256 \<Longrightarrow> (\<And>x. x \<in> set p \<Longrightarrow> 0 \<le> x \<and> x < 3329) \<Longrightarrow> normalized p"
  by (auto simp: normalized_def)

lemma decomp_range: "d \<in> {4, 5, 10, 11} \<Longrightarrow> 0 \<le> decomp d t \<and> decomp d t < 3329"
  using decomp_spec [of d t] decompress_bounds [of d] by auto

lemma decompressGroups_normalized:
  assumes "d \<in> {4, 5, 10, 11}" and "\<And>m. length (f m) = n" and "n * (kyber_N div n) = 256"
  shows "normalized (decompressGroups d n w f m)"
proof (rule normalizedI)
  show "length (decompressGroups d n w f m) = 256"
    unfolding decompressGroups_def using assms(2,3) by (subst length_concat_groups [where w = n]) simp_all
qed (use decomp_range [OF assms(1)] in \<open>auto simp: decompressGroups_def\<close>)

lemma Decompress4_normalized: "normalized (Decompress4 m)"
proof (rule normalizedI)
  show "length (Decompress4 m) = 256"
    unfolding Decompress4_def by (subst length_concat_groups [where w = 2]) (simp_all add: kyber_N_def)
qed (use decomp_range [of 4] in \<open>auto simp: Decompress4_def decomp4_eq\<close>)

lemma DecryptTo_total:
  assumes "keypair A s e pk sk"
  shows "\<exists>m. cpapke_DecryptTo sk ct = Ok m \<and> length m = 32"
proof -
  have l: "length (unpack10 m) = 4" for m
    by (simp add: unpack10_def)
  let ?u = "map (\<lambda>i. decompressGroups 10 4 5 unpack10 (drop (320 * i) ct)) [0..<pke_K]"
  have "map_res (\<lambda>i. poly_Decompress (drop (320 * i) ct) 10) [0..<pke_K] = Ok ?u"
    by (rule map_res_Ok) (simp add: poly_Decompress_def)
  then have "vec_Decompress ct pke_DU = Ok ?u"
    by (simp add: vec_Decompress_def pke_DU_def compressedPolySize_def)
  moreover have "\<forall>j < 3. normalized (?u ! j)"
    by (simp add: nth_K decompressGroups_normalized l kyber_N_def)
  ultimately obtain m where "cpapke_DecryptTo sk ct = Ok (CompressMessageTo m)"
    using DecryptTo_spec [OF assms _ Decompress4_normalized [of "drop 960 ct"], of ?u ct] by (auto simp: poly_Decompress_def pke_DV_def)
  then show ?thesis
    by (simp add: CompressMessageTo_def)
qed

lemma EncryptTo_total:
  assumes "keypair A s e pk sk"
  shows "\<exists>ct. cpapke_EncryptTo H pk pt seed = Ok ct \<and> length ct = 1088"
proof -
  obtain u v where uv: "encrypt_uv H pk pt seed = Ok (u, v)" "\<forall>j < 3. normalized (u ! j)" "normalized v"
    using encrypt_uv_spec [OF assms, of H seed pt] by blast
  obtain cu where "vec_CompressTo u pke_DU = Ok cu" "length cu = 960"
    using vec_compress_roundtrip [OF uv(2)] by blast
  moreover obtain cv where "poly_CompressTo v 4 = Ok cv" "length cv = 128"
    using compress_roundtrip [of 4 v "[]"] uv(3) by auto
  ultimately show ?thesis
    by (simp add: cpapke_EncryptTo_def uv(1) pke_DV_def)
qed

lemma mlkem_keypairE:
  assumes "mlkem_NewKeyFromSeed H seed = Some (Ok (pk, sk))"
  obtains A s e where "cpapke_NewKeyFromSeed H (take 32 seed @ [of_nat pke_K]) = Some (Ok (mpk_pk pk, msk_sk sk))"
    and "keypair A s e (mpk_pk pk) (msk_sk sk)" and "msk_pk sk = mpk_pk pk" and "msk_hpk sk = mpk_hpk pk"
    and "mpk_hpk pk = xread (sha3_256 H) (pk_Pack (mpk_pk pk)) 0 32" and "msk_z sk = drop 32 seed" and "length seed = 64"
proof -
  have l: "length seed = 64"
    using assms by (auto simp: mlkem_NewKeyFromSeed_def split: if_splits)
  then have c: "go_copy (replicate 32 0) (take 32 seed) = take 32 seed" "go_copy (replicate 32 0) (drop 32 seed) = drop 32 seed"
    by (simp_all add: go_copy_def)
  obtain r where r: "cpapke_NewKeyFromSeed H (take 32 seed @ [of_nat pke_K]) = Some r"
    using assms l by (auto simp: mlkem_NewKeyFromSeed_def kyber768_NewKeyFromSeedMLKEM_def c split: option.splits if_splits)
  obtain A s e cpk csk where k: "r = Ok (cpk, csk)" "keypair A s e cpk csk"
    using NewKeyFromSeed_keypair [OF r] by blast
  have "pk = \<lparr>mpk_pk = cpk, mpk_hpk = xread (sha3_256 H) (pk_Pack cpk) 0 32\<rparr> \<and>
      sk = \<lparr>msk_sk = csk, msk_pk = cpk, msk_hpk = xread (sha3_256 H) (pk_Pack cpk) 0 32, msk_z = drop 32 seed\<rparr>"
    using assms l by (simp add: mlkem_NewKeyFromSeed_def kyber768_NewKeyFromSeedMLKEM_def c r k(1) kyber768_pk_Pack_def Let_def)
  then show thesis
    using that [of A s e] r k l by simp
qed

lemma mlkem_pk_roundtrip:
  assumes "mlkem_NewKeyFromSeed H kseed = Some (Ok (pk, sk))"
  shows "mlkem_pk_Pack pk kyber768_PublicKeySize = Ok (pk_Pack (mpk_pk pk))" and "length (pk_Pack (mpk_pk pk)) = 1184"
    and "mlkem_pk_Unpack H (pk_Pack (mpk_pk pk)) = Some (Ok pk)"
proof -
  obtain A s e where c: "cpapke_NewKeyFromSeed H (take 32 kseed @ [of_nat pke_K]) = Some (Ok (mpk_pk pk, msk_sk sk))"
      and h: "mpk_hpk pk = xread (sha3_256 H) (pk_Pack (mpk_pk pk)) 0 32"
    by (rule mlkem_keypairE [OF assms])
  note n = NewKeyFromSeed_normal [OF c]
  show "mlkem_pk_Pack pk kyber768_PublicKeySize = Ok (pk_Pack (mpk_pk pk))"
    by (simp add: mlkem_pk_Pack_def kyber768_pk_Pack_def)
  have l: "length (pk_Pack (mpk_pk pk)) = 1184" "take (length (vec_Pack (th (mpk_pk pk)))) (pk_Pack (mpk_pk pk)) = vec_Pack (th (mpk_pk pk))"
    using vec_pack_roundtrip(1) [OF n(1)] n(3) by (simp_all add: pk_Pack_def)
  then show "length (pk_Pack (mpk_pk pk)) = 1184" by simp
  show "mlkem_pk_Unpack H (pk_Pack (mpk_pk pk)) = Some (Ok pk)"
    using l n(5) h by (simp add: mlkem_pk_Unpack_def kyber768_pk_UnpackMLKEM_def pk_UnpackMLKEM_def kyber768_sizes Let_def)
qed

section \<open>The KEM interface\<close>

text \<open>A call that never returns has no result; in the interface of KEMs it is kept apart from every value and error.\<close>

definition returned :: "'a res option \<Rightarrow> 'a res" where
  "returned r = (case r of None \<Rightarrow> Panic ''no return'' | Some x \<Rightarrow> x)"

definition mlkem_DeriveKeyPair :: "sha3 \<Rightarrow> bytes \<Rightarrow> (mlkem_PublicKey \<times> mlkem_PrivateKey) res" where
  "mlkem_DeriveKeyPair H seed = (if length seed \<noteq> 64 then Panic ''wrong seed size'' else returned (mlkem_NewKeyFromSeed H seed))"

definition mlkem_EncapsulateDeterministically :: "sha3 \<Rightarrow> mlkem_PublicKey \<Rightarrow> bytes \<Rightarrow> (bytes \<times> bytes) res" where
  "mlkem_EncapsulateDeterministically H pk seed =
     (if length seed \<noteq> 32 then Err ''wrong seed size''
      else mlkem_EncapsulateTo H (\<lambda>n. None) pk kyber768_CiphertextSize 32 (Some seed))"

definition mlkem_Decapsulate :: "sha3 \<Rightarrow> mlkem_PrivateKey \<Rightarrow> bytes \<Rightarrow> bytes res" where
  "mlkem_Decapsulate H sk ct =
     (if length ct \<noteq> kyber768_CiphertextSize then Err ''wrong size for ciphertext'' else mlkem_DecapsulateTo H sk 32 ct)"

definition mlkem_Public :: "mlkem_PrivateKey \<Rightarrow> mlkem_PublicKey" where
  "mlkem_Public sk = \<lparr>mpk_pk = msk_pk sk, mpk_hpk = msk_hpk sk\<rparr>"

definition mlkem_scheme :: "sha3 \<Rightarrow> (mlkem_PublicKey, mlkem_PrivateKey) Scheme" where
  "mlkem_scheme H =
     \<lparr>PublicKeySize = kyber768_PublicKeySize, PrivateKeySize = mlkem_PrivateKeySize, SeedSize = 64, SharedKeySize = 32,
      CiphertextSize = kyber768_CiphertextSize, EncapsulationSeedSize = 32,
      DeriveKeyPair = mlkem_DeriveKeyPair H,
      EncapsulateDeterministically = mlkem_EncapsulateDeterministically H,
      Decapsulate = mlkem_Decapsulate H,
      UnmarshalBinaryPublicKey = (\<lambda>buf. returned (mlkem_pk_Unpack H buf)),
      UnmarshalBinaryPrivateKey = (\<lambda>buf. returned (mlkem_sk_Unpack H buf)),
      pk_MarshalBinary = (\<lambda>pk. mlkem_pk_Pack pk kyber768_PublicKeySize),
      sk_MarshalBinary = (\<lambda>sk. mlkem_sk_Pack sk mlkem_PrivateKeySize),
      sk_Public = mlkem_Public, AuthEncapsulateDeterministically = None, AuthDecapsulate = None\<rparr>"

text \<open>What decapsulation needs: the pair was derived together, and the noise of this encapsulation is small.\<close>

definition mlkem_noise_ok :: "sha3 \<Rightarrow> bytes \<Rightarrow> mlkem_PublicKey \<Rightarrow> bytes \<Rightarrow> bool" where
  "mlkem_noise_ok H kseed pk seed \<longleftrightarrow>
     pke_noise_ok H (take 32 kseed @ [of_nat pke_K]) (mpk_pk pk) seed (drop 32 (xread (sha3_512 H) (seed @ mpk_hpk pk) 0 64))"

definition mlkem_matches :: "sha3 \<Rightarrow> mlkem_PublicKey \<Rightarrow> mlkem_PrivateKey \<Rightarrow> bytes \<Rightarrow> bool" where
  "mlkem_matches H pk sk seed \<longleftrightarrow>
     (\<exists>kseed. mlkem_NewKeyFromSeed H kseed = Some (Ok (pk, sk)) \<and> mlkem_noise_ok H kseed pk seed)"

lemma mlkem_encaps:
  assumes "mlkem_NewKeyFromSeed H kseed = Some (Ok (pk, sk))" and "length seed = 32"
  defines "kr \<equiv> xread (sha3_512 H) (seed @ mpk_hpk pk) 0 64"
  shows "\<exists>ct. mlkem_EncapsulateDeterministically H pk seed = Ok (ct, take 32 kr) \<and> length ct = 1088 \<and>
    cpapke_EncryptTo H (mpk_pk pk) seed (drop 32 kr) = Ok ct"
proof -
  obtain A s e where k: "keypair A s e (mpk_pk pk) (msk_sk sk)"
    by (rule mlkem_keypairE [OF assms(1)])
  have m: "go_copy (replicate 32 0) seed = seed"
    using assms(2) by (simp add: go_copy_def)
  obtain ct where "cpapke_EncryptTo H (mpk_pk pk) seed (drop 32 kr) = Ok ct" "length ct = 1088"
    using EncryptTo_total [OF k] by blast
  moreover have "length kr = 64"
    by (simp add: kr_def xread_def)
  ultimately show ?thesis
    using assms(2) by (simp add: mlkem_EncapsulateDeterministically_def mlkem_EncapsulateTo_def m Let_def kyber768_EncryptTo_def
        kyber768_sizes flip: kr_def)
qed

lemma mlkem_decaps:
  assumes key: "mlkem_NewKeyFromSeed H kseed = Some (Ok (pk, sk))" and ct: "length ct = 1088"
  shows "\<exists>m ct2. cpapke_DecryptTo (msk_sk sk) ct = Ok m \<and> length m = 32 \<and>
    cpapke_EncryptTo H (mpk_pk pk) m (drop 32 (xread (sha3_512 H) (m @ mpk_hpk pk) 0 64)) = Ok ct2 \<and>
    mlkem_Decapsulate H sk ct =
      Ok (if ct2 = ct then take 32 (xread (sha3_512 H) (m @ mpk_hpk pk) 0 64) else xread (shake256 H) (drop 32 kseed @ ct) 0 32)"
proof -
  obtain A s e where k: "keypair A s e (mpk_pk pk) (msk_sk sk)" "msk_pk sk = mpk_pk pk" "msk_hpk sk = mpk_hpk pk" "msk_z sk = drop 32 kseed"
    by (rule mlkem_keypairE [OF key])
  obtain m where m: "cpapke_DecryptTo (msk_sk sk) ct = Ok m" "length m = 32"
    using DecryptTo_total [OF k(1)] by blast
  let ?kr = "xread (sha3_512 H) (m @ mpk_hpk pk) 0 64" and ?ss = "xread (shake256 H) (drop 32 kseed @ ct) 0 32"
  obtain ct2 where c: "cpapke_EncryptTo H (mpk_pk pk) m (drop 32 ?kr) = Ok ct2"
    using EncryptTo_total [OF k(1)] by blast
  have l: "length ?kr = 64" "length ?ss = 32"
    by (simp_all add: xread_def)
  have "mlkem_Decapsulate H sk ct = ConstantTimeCopy (ConstantTimeCompare ct ct2) ?ss (take 32 ?kr)"
    using ct m c l by (simp add: mlkem_Decapsulate_def mlkem_DecapsulateTo_def kyber768_DecryptTo_def kyber768_EncryptTo_def
        kyber768_sizes Let_def k(2-4))
  also have "\<dots> = Ok (if ct2 = ct then take 32 ?kr else ?ss)"
    using l by (simp add: ConstantTimeCompare_spec ConstantTimeCopy_spec)
  finally show ?thesis
    using m c by blast
qed

lemma mlkem_decap_encap:
  assumes key: "mlkem_NewKeyFromSeed H kseed = Some (Ok (pk, sk))" and noise: "mlkem_noise_ok H kseed pk seed" and l: "length seed = 32"
    and enc: "mlkem_EncapsulateDeterministically H pk seed = Ok (ct, ss)"
  shows "length ct = 1088 \<and> length ss = 32 \<and> mlkem_Decapsulate H sk ct = Ok ss"
proof -
  let ?kr = "xread (sha3_512 H) (seed @ mpk_hpk pk) 0 64"
  have e: "length ct = 1088" "ss = take 32 ?kr" "cpapke_EncryptTo H (mpk_pk pk) seed (drop 32 ?kr) = Ok ct"
    using mlkem_encaps [OF key l] enc by auto
  have "cpapke_NewKeyFromSeed H (take 32 kseed @ [of_nat pke_K]) = Some (Ok (mpk_pk pk, msk_sk sk))"
    by (rule mlkem_keypairE [OF key])
  from decrypt_encrypt [OF this noise [unfolded mlkem_noise_ok_def] l] e(3)
  have "cpapke_DecryptTo (msk_sk sk) ct = Ok seed" by simp
  with mlkem_decaps [OF key e(1)] e show ?thesis
    by (auto simp: xread_def)
qed

lemma EncryptTo_length:
  assumes "cpapke_EncryptTo H pk pt seed = Ok ct"
  shows "length ct = 1088"
proof -
  have l: "length (compressGroups 4 c pack10 p) = 320" "length (compressGroups 8 c pack4 p) = 128" for c p
    using length_compressGroups [where pk = pack10 and n = 4, OF length_packs(3)] length_compressGroups [where pk = pack4 and n = 8, OF length_packs(1)]
    by (simp_all add: kyber_N_def)
  have "vec_CompressTo u pke_DU = Ok (concat (map (\<lambda>i. compressGroups 4 (comp_large 10) pack10 (u ! i)) [0..<pke_K]))" for u
    unfolding vec_CompressTo_def pke_DU_def by (subst map_res_Ok [where g = "\<lambda>i. compressGroups 4 (comp_large 10) pack10 (u ! i)"])
      (simp_all add: poly_CompressTo_def compressedPolySize_def)
  with assms show ?thesis
    by (auto simp: cpapke_EncryptTo_def bind_res_eq_Ok poly_CompressTo_def pke_DV_def range_K l)
qed

interpretation mlkem: kem_contract "mlkem_scheme H" "mlkem_matches H" for H
proof unfold_locales
  fix pk seed ct ss
  assume "EncapsulateDeterministically (mlkem_scheme H) pk seed = Ok (ct, ss)"
  then show "length ct = CiphertextSize (mlkem_scheme H) \<and> length ss = SharedKeySize (mlkem_scheme H)"
    by (auto simp: mlkem_scheme_def mlkem_EncapsulateDeterministically_def mlkem_EncapsulateTo_def kyber768_EncryptTo_def
        Let_def bind_res_eq_Ok kyber768_sizes xread_def dest!: EncryptTo_length split: if_splits)
next
  fix pk sk seed ct ss
  assume enc: "EncapsulateDeterministically (mlkem_scheme H) pk seed = Ok (ct, ss)" and "mlkem_matches H pk sk seed"
  then obtain kseed where k: "mlkem_NewKeyFromSeed H kseed = Some (Ok (pk, sk))" "mlkem_noise_ok H kseed pk seed"
    by (auto simp: mlkem_matches_def)
  from enc have e: "mlkem_EncapsulateDeterministically H pk seed = Ok (ct, ss)"
    by (simp add: mlkem_scheme_def)
  then have "length seed = 32"
    by (auto simp: mlkem_EncapsulateDeterministically_def split: if_splits)
  with mlkem_decap_encap [OF k _ e] show "Decapsulate (mlkem_scheme H) sk ct = Ok ss"
    by (simp add: mlkem_scheme_def)
qed

section \<open>Properties\<close>

lemma zero_mlkem_key:
  assumes "length kseed = 64"
  shows "\<exists>pk sk. mlkem_NewKeyFromSeed zero_sha3 kseed = Some (Ok (pk, sk)) \<and> (\<forall>seed. mlkem_noise_ok zero_sha3 kseed pk seed)"
proof -
  obtain cpk csk where c: "cpapke_NewKeyFromSeed zero_sha3 (take 32 kseed @ [of_nat pke_K]) = Some (Ok (cpk, csk))"
    using zero_key by blast
  have "go_copy (replicate 32 0) (take 32 kseed) = take 32 kseed"
    using assms by (simp add: go_copy_def)
  then have "\<exists>pk sk. mlkem_NewKeyFromSeed zero_sha3 kseed = Some (Ok (pk, sk)) \<and> mpk_pk pk = cpk"
    using assms c by (simp add: mlkem_NewKeyFromSeed_def kyber768_NewKeyFromSeedMLKEM_def kyber768_pk_Pack_def Let_def)
  then show ?thesis
    using zero_pke_noise_ok [OF c] by (auto simp: mlkem_noise_ok_def)
qed

text \<open>C21: ML-KEM-768 agrees on the shared key. With a key pair of NewKeyFromSeed and a 32-byte seed,
  EncapsulateDeterministically returns a ciphertext of 1088 bytes and a shared key of 32 bytes, and if
  the noise of that encryption is below q/4, Decapsulate returns the same shared key.\<close>

theorem mlkem_agrees:
  assumes "mlkem_NewKeyFromSeed H kseed = Some (Ok (pk, sk))" and "length seed = 32" and "mlkem_noise_ok H kseed pk seed"
  shows "\<exists>ct ss. EncapsulateDeterministically (mlkem_scheme H) pk seed = Ok (ct, ss) \<and> length ct = 1088 \<and> length ss = 32 \<and>
    Decapsulate (mlkem_scheme H) sk ct = Ok ss"
proof -
  obtain ct where "mlkem_EncapsulateDeterministically H pk seed = Ok (ct, take 32 (xread (sha3_512 H) (seed @ mpk_hpk pk) 0 64))"
    using mlkem_encaps [OF assms(1,2)] by blast
  with mlkem_decap_encap [OF assms(1,3,2) this] show ?thesis
    by (simp add: mlkem_scheme_def)
qed

theorem mlkem_agrees_witness:
  "\<exists>pk sk ct ss. mlkem_NewKeyFromSeed zero_sha3 (replicate 64 3) = Some (Ok (pk, sk)) \<and>
     EncapsulateDeterministically (mlkem_scheme zero_sha3) pk (replicate 32 9) = Ok (ct, ss) \<and> length ct = 1088 \<and> length ss = 32 \<and>
     Decapsulate (mlkem_scheme zero_sha3) sk ct = Ok ss"
proof -
  obtain pk sk where k: "mlkem_NewKeyFromSeed zero_sha3 (replicate 64 3) = Some (Ok (pk, sk))" "\<forall>seed. mlkem_noise_ok zero_sha3 (replicate 64 3) pk seed"
    using zero_mlkem_key [of "replicate 64 3"] by auto
  from k mlkem_agrees [OF k(1), of "replicate 32 9"] show ?thesis
    by (metis length_replicate)
qed

text \<open>C22: decapsulation with implicit rejection. For a private key of NewKeyFromSeed and any byte string,
  Decapsulate reports an error exactly when the length is not 1088; otherwise it never panics and
  returns the key derived from the decrypted message when re-encrypting that message gives the very
  same ciphertext, and the pseudo-random key derived from the secret z and the ciphertext when not.\<close>

theorem mlkem_implicit_rejection:
  assumes "mlkem_NewKeyFromSeed H kseed = Some (Ok (pk, sk))"
  shows "if length ct \<noteq> 1088 then Decapsulate (mlkem_scheme H) sk ct = Err ''wrong size for ciphertext''
    else \<exists>m ct2. cpapke_DecryptTo (msk_sk sk) ct = Ok m \<and> length m = 32 \<and>
      cpapke_EncryptTo H (mpk_pk pk) m (drop 32 (xread (sha3_512 H) (m @ mpk_hpk pk) 0 64)) = Ok ct2 \<and>
      Decapsulate (mlkem_scheme H) sk ct =
        Ok (if ct2 = ct then take 32 (xread (sha3_512 H) (m @ mpk_hpk pk) 0 64) else xread (shake256 H) (drop 32 kseed @ ct) 0 32)"
  using mlkem_decaps [OF assms, of ct] by (simp add: mlkem_scheme_def) (simp add: mlkem_Decapsulate_def kyber768_sizes)

theorem mlkem_implicit_rejection_witness:
  "\<exists>pk sk. mlkem_NewKeyFromSeed zero_sha3 (replicate 64 3) = Some (Ok (pk, sk)) \<and>
     Decapsulate (mlkem_scheme zero_sha3) sk [1, 2, 3] = Err ''wrong size for ciphertext'' \<and>
     (\<exists>ss. Decapsulate (mlkem_scheme zero_sha3) sk (replicate 1088 255) = Ok ss)"
proof -
  obtain pk sk where k: "mlkem_NewKeyFromSeed zero_sha3 (replicate 64 3) = Some (Ok (pk, sk))"
    using zero_mlkem_key [of "replicate 64 3"] by auto
  from k mlkem_implicit_rejection [OF k, of "[1, 2, 3]"] mlkem_implicit_rejection [OF k, of "replicate 1088 255"] show ?thesis
    by (simp only: length_replicate list.size) auto
qed

text \<open>ML-KEM keys survive serialisation: MarshalBinary and UnmarshalBinary give back the public and
  the private key of NewKeyFromSeed, and a private key whose stored hash of the public key was altered
  is refused.\<close>

theorem mlkem_keys_roundtrip:
  assumes "mlkem_NewKeyFromSeed H kseed = Some (Ok (pk, sk))" and "length h = 32"
  shows "\<exists>bp bs. pk_MarshalBinary (mlkem_scheme H) pk = Ok bp \<and> UnmarshalBinaryPublicKey (mlkem_scheme H) bp = Ok pk \<and>
    sk_MarshalBinary (mlkem_scheme H) sk = Ok bs \<and> UnmarshalBinaryPrivateKey (mlkem_scheme H) bs = Ok sk \<and>
    (h \<noteq> msk_hpk sk \<longrightarrow> UnmarshalBinaryPrivateKey (mlkem_scheme H) (take 2336 bs @ h @ drop 2368 bs) = Err ''invalid private key'')"
proof -
  obtain A s e where c: "cpapke_NewKeyFromSeed H (take 32 kseed @ [of_nat pke_K]) = Some (Ok (mpk_pk pk, msk_sk sk))"
      and k: "msk_pk sk = mpk_pk pk" "msk_hpk sk = mpk_hpk pk" "mpk_hpk pk = xread (sha3_256 H) (pk_Pack (mpk_pk pk)) 0 32"
      "msk_z sk = drop 32 kseed" "length kseed = 64"
    by (rule mlkem_keypairE [OF assms(1)])
  note n = NewKeyFromSeed_normal [OF c]
  let ?bp = "pk_Pack (mpk_pk pk)" and ?bs = "sk_Pack (msk_sk sk)"
  have l: "length ?bp = 1184" "length ?bs = 1152" "take (length (vec_Pack (th (mpk_pk pk)))) ?bp = vec_Pack (th (mpk_pk pk))"
    using vec_pack_roundtrip(1) [OF n(1)] vec_pack_roundtrip(1) [OF n(2)] n(3) by (simp_all add: pk_Pack_def sk_Pack_def)
  have h: "length (mpk_hpk pk) = 32" "length (drop 32 kseed) = 32"
    using k(3,5) by (simp_all add: xread_def)
  have u: "mlkem_sk_Unpack H (?bs @ ?bp @ x @ drop 32 kseed) =
      Some (if mpk_hpk pk \<noteq> x then Err ''invalid private key'' else Ok \<lparr>msk_sk = msk_sk sk, msk_pk = mpk_pk pk, msk_hpk = x, msk_z = drop 32 kseed\<rparr>)"
    if "length x = 32" for x
    using l h n(5,6) that k(3) by (simp add: mlkem_sk_Unpack_def mlkem_PrivateKeySize_def kyber768_sizes kyber768_sk_Unpack_def
        kyber768_pk_Unpack_def Let_def go_copy_def)
  note p = mlkem_pk_roundtrip(1,3) [OF assms(1)]
  have s: "sk = \<lparr>msk_sk = msk_sk sk, msk_pk = mpk_pk pk, msk_hpk = mpk_hpk pk, msk_z = drop 32 kseed\<rparr>"
    by (rule mlkem_PrivateKey.equality) (simp_all add: k)
  have "mlkem_sk_Pack sk mlkem_PrivateKeySize = Ok (?bs @ ?bp @ mpk_hpk pk @ drop 32 kseed)"
    by (simp add: mlkem_sk_Pack_def kyber768_sk_Pack_def kyber768_pk_Pack_def k)
  moreover have "take 2336 (?bs @ ?bp @ mpk_hpk pk @ drop 32 kseed) @ h @ drop 2368 (?bs @ ?bp @ mpk_hpk pk @ drop 32 kseed) = ?bs @ ?bp @ h @ drop 32 kseed"
    using l h by simp
  ultimately show ?thesis
    using u [OF h(1)] u [OF assms(2)] p s k(2) l
    by (simp add: mlkem_scheme_def returned_def)
qed

end
