(* ===== verification/TLS_KEM.thy ===== *)
theory TLS_KEM
  imports MLKEM768 HPKE
begin

text \<open>
  The key encapsulation of the TLS handshake: the X25519 and X448 KEMs of \<^verbatim>\<open>circl/kem/hybrid/xkem.go\<close>,
  the hybrid X25519MLKEM768 they form with ML-KEM-768 (\<^verbatim>\<open>circl/kem/hybrid/hybrid.go\<close>), the two functions of
  \<^verbatim>\<open>crypto/tls/cfkem.go\<close> through which client and server use a scheme, and the hybrid X-Wing
  (\<^verbatim>\<open>circl/kem/xwing\<close>). The locale of KEMs is interpreted on all three schemes; the curves and
  the hash functions are parameters.
\<close>

section \<open>X25519 and X448 as KEMs of TLS\<close>

definition xs_Public :: "xdh \<Rightarrow> nat \<Rightarrow> bytes \<Rightarrow> bytes" where
  "xs_Public X sz key =
     (if sz = 32 then go_copy (replicate sz 0) (x25519_KeyGen X (go_copy (replicate 32 0) key))
      else if sz = 56 then go_copy (replicate sz 0) (x448_KeyGen X (go_copy (replicate 56 0) key))
      else replicate sz 0)"

definition xs_DeriveKeyPair :: "sha3 \<Rightarrow> xdh \<Rightarrow> nat \<Rightarrow> bytes \<Rightarrow> (bytes \<times> bytes) res" where
  "xs_DeriveKeyPair H X sz seed =
     (if length seed \<noteq> sz then Panic ''wrong seed size''
      else let sk = xread (shake256 H) seed 0 sz in Ok (xs_Public X sz sk, sk))"

text \<open>The shared secret is an array of the curve's key type, hence of its size.\<close>

definition xs_X :: "xdh \<Rightarrow> nat \<Rightarrow> bytes \<Rightarrow> bytes \<Rightarrow> bytes res" where
  "xs_X X sz pk sk =
     (if sz = 32 then
        let (ss, ok) = x25519_Shared X (go_copy (replicate 32 0) sk) (go_copy (replicate 32 0) pk)
        in if \<not> ok then Err ''invalid public key'' else Ok (go_copy (replicate 32 0) ss)
      else if sz = 56 then
        let (ss, ok) = x448_Shared X (go_copy (replicate 56 0) sk) (go_copy (replicate 56 0) pk)
        in if \<not> ok then Err ''invalid public key'' else Ok (go_copy (replicate 56 0) ss)
      else Panic ''types mismatch'')"

definition xs_EncapsulateDeterministically :: "sha3 \<Rightarrow> xdh \<Rightarrow> nat \<Rightarrow> bytes \<Rightarrow> bytes \<Rightarrow> (bytes \<times> bytes) res" where
  "xs_EncapsulateDeterministically H X sz pk seed =
     (if length seed \<noteq> sz then Err ''wrong seed size''
      else bind_res (xs_DeriveKeyPair H X sz seed) (\<lambda>(pk2, sk2).
           bind_res (xs_X X sz pk sk2) (\<lambda>ss. Ok (pk2, ss))))"

definition xs_UnmarshalBinaryPublicKey :: "nat \<Rightarrow> bytes \<Rightarrow> bytes res" where
  "xs_UnmarshalBinaryPublicKey sz buf =
     (if length buf \<noteq> sz then Err ''wrong size for public key'' else Ok (go_copy (replicate sz 0) buf))"

definition xs_UnmarshalBinaryPrivateKey :: "nat \<Rightarrow> bytes \<Rightarrow> bytes res" where
  "xs_UnmarshalBinaryPrivateKey sz buf =
     (if length buf \<noteq> sz then Err ''wrong size for private key'' else Ok (go_copy (replicate sz 0) buf))"

definition xs_Decapsulate :: "xdh \<Rightarrow> nat \<Rightarrow> bytes \<Rightarrow> bytes \<Rightarrow> bytes res" where
  "xs_Decapsulate X sz sk ct =
     (if length ct \<noteq> sz then Err ''wrong size for ciphertext''
      else bind_res (xs_UnmarshalBinaryPublicKey sz ct) (\<lambda>pk. xs_X X sz pk sk))"

definition xScheme :: "sha3 \<Rightarrow> xdh \<Rightarrow> nat \<Rightarrow> (bytes, bytes) Scheme" where
  "xScheme H X sz =
     \<lparr>PublicKeySize = sz, PrivateKeySize = sz, SeedSize = sz, SharedKeySize = sz, CiphertextSize = sz, EncapsulationSeedSize = sz,
      DeriveKeyPair = xs_DeriveKeyPair H X sz, EncapsulateDeterministically = xs_EncapsulateDeterministically H X sz,
      Decapsulate = xs_Decapsulate X sz, UnmarshalBinaryPublicKey = xs_UnmarshalBinaryPublicKey sz,
      UnmarshalBinaryPrivateKey = xs_UnmarshalBinaryPrivateKey sz,
      pk_MarshalBinary = (\<lambda>pk. Ok (go_copy (replicate sz 0) pk)), sk_MarshalBinary = (\<lambda>sk. Ok (go_copy (replicate (length sk) 0) sk)),
      sk_Public = xs_Public X sz, AuthEncapsulateDeterministically = None, AuthDecapsulate = None\<rparr>"

definition xs_matches :: "sha3 \<Rightarrow> xdh \<Rightarrow> nat \<Rightarrow> bytes \<Rightarrow> bytes \<Rightarrow> bytes \<Rightarrow> bool" where
  "xs_matches H X sz pk sk seed \<longleftrightarrow>
     (\<forall>pk2 sk2. xs_DeriveKeyPair H X sz seed = Ok (pk2, sk2) \<longrightarrow> xs_X X sz pk2 sk = xs_X X sz pk sk2)"

lemma length_xs_Public [simp]: "length (xs_Public X sz sk) = sz"
  by (simp add: xs_Public_def)

lemma xs_X_length: "xs_X X sz pk sk = Ok ss \<Longrightarrow> length ss = sz"
  by (auto simp: xs_X_def Let_def split: if_splits prod.splits)

interpretation xs: kem_contract "xScheme H X sz" "xs_matches H X sz" for H X sz
proof unfold_locales
  fix pk seed ct ss
  assume "EncapsulateDeterministically (xScheme H X sz) pk seed = Ok (ct, ss)"
  then show "length ct = CiphertextSize (xScheme H X sz) \<and> length ss = SharedKeySize (xScheme H X sz)"
    by (auto simp: xScheme_def xs_EncapsulateDeterministically_def xs_DeriveKeyPair_def Let_def bind_res_eq_Ok
        dest: xs_X_length split: if_splits)
next
  fix pk sk seed ct ss
  assume "EncapsulateDeterministically (xScheme H X sz) pk seed = Ok (ct, ss)" and m: "xs_matches H X sz pk sk seed"
  then obtain sk2 where d: "xs_DeriveKeyPair H X sz seed = Ok (ct, sk2)" "xs_X X sz pk sk2 = Ok ss"
    by (auto simp: xScheme_def xs_EncapsulateDeterministically_def bind_res_eq_Ok split: if_splits)
  have "length ct = sz"
    using d(1) by (auto simp: xs_DeriveKeyPair_def Let_def split: if_splits)
  with d m show "Decapsulate (xScheme H X sz) sk ct = Ok ss"
    by (simp add: xScheme_def xs_Decapsulate_def xs_UnmarshalBinaryPublicKey_def xs_matches_def go_copy_same)
qed

section \<open>X25519MLKEM768\<close>

definition X25519MLKEM768 :: "sha3 \<Rightarrow> xdh \<Rightarrow> (mlkem_PublicKey \<times> bytes, mlkem_PrivateKey \<times> bytes) Scheme" where
  "X25519MLKEM768 H X = hybrid_scheme (\<lambda>s n. xread (shake256 H) s 0 n) (mlkem_scheme H) (xScheme H X 32)"

interpretation xmlkem: kem_pair "mlkem_scheme H" "mlkem_matches H" "xScheme H X 32" "xs_matches H X 32" for H X
  by unfold_locales

interpretation x25519mlkem: kem_contract "X25519MLKEM768 H X"
    "sch_matches (\<lambda>s n. xread (shake256 H) s 0 n) (mlkem_scheme H) (xScheme H X 32) (mlkem_matches H) (xs_matches H X 32)" for H X
  unfolding X25519MLKEM768_def by (rule xmlkem.hybrid_scheme_contract)

section \<open>Key shares of TLS\<close>

text \<open>\<open>rnd n\<close> is what \<^verbatim>\<open>io.ReadFull\<close> reads into a buffer of \<open>n\<close> bytes, or its error.\<close>

definition encapsulateForKem :: "('pk, 'sk) Scheme \<Rightarrow> (nat \<Rightarrow> string + bytes) \<Rightarrow> bytes \<Rightarrow> (bytes \<times> bytes) res \<times> u8" where
  "encapsulateForKem scheme rnd ppk =
     (case UnmarshalBinaryPublicKey scheme ppk of
        Panic p \<Rightarrow> (Panic p, 0)
      | Err e \<Rightarrow> (Err (''unpack pk: '' @ e), alertIllegalParameter)
      | Ok pk \<Rightarrow> (case rnd (EncapsulationSeedSize scheme) of
          Inl e \<Rightarrow> (Err (''random: '' @ e), alertInternalError)
        | Inr seed \<Rightarrow> (EncapsulateDeterministically scheme pk seed, alertIllegalParameter)))"

definition generateKemKeyPair :: "('pk, 'sk) Scheme \<Rightarrow> u16 \<Rightarrow> (nat \<Rightarrow> string + bytes) \<Rightarrow> ('pk \<times> ('sk \<times> u16)) res" where
  "generateKemKeyPair scheme curveID rnd =
     (case rnd (SeedSize scheme) of
        Inl e \<Rightarrow> Err e
      | Inr seed \<Rightarrow> bind_res (DeriveKeyPair scheme seed) (\<lambda>(pk, sk). Ok (pk, (sk, curveID))))"

section \<open>Properties of the key shares\<close>

text \<open>X25519 works on arrays of 32 bytes and both parties compute the same secret.\<close>

definition x25519_commutes :: "xdh \<Rightarrow> bool" where
  "x25519_commutes X \<longleftrightarrow>
     (\<forall>a. length a = 32 \<longrightarrow> length (x25519_KeyGen X a) = 32) \<and>
     (\<forall>a b. length a = 32 \<longrightarrow> length b = 32 \<longrightarrow> x25519_Shared X a (x25519_KeyGen X b) = x25519_Shared X b (x25519_KeyGen X a))"

lemma xs_commutes:
  assumes "x25519_commutes X" and "length a = 32" and "length b = 32"
  shows "xs_X X 32 (xs_Public X 32 a) b = xs_X X 32 (xs_Public X 32 b) a"
proof -
  have "go_copy (replicate 32 0) (x25519_KeyGen X c) = x25519_KeyGen X c" if "length c = 32" for c
    using assms(1) that by (simp add: x25519_commutes_def go_copy_same)
  moreover have "x25519_Shared X b (x25519_KeyGen X a) = x25519_Shared X a (x25519_KeyGen X b)"
    using assms by (simp add: x25519_commutes_def)
  ultimately show ?thesis
    using assms(2,3) by (simp add: xs_X_def xs_Public_def go_copy_same)
qed

lemma returned_Ok: "returned r = Ok x \<longleftrightarrow> r = Some (Ok x)"
  by (auto simp: returned_def split: option.splits)

lemma xmlkem_keypair:
  assumes "DeriveKeyPair (X25519MLKEM768 H X) kseed = Ok (pk, sk)"
  defines "out \<equiv> xread (shake256 H) kseed 0 96"
  shows "mlkem_NewKeyFromSeed H (take 64 out) = Some (Ok (fst pk, fst sk))"
    and "snd pk = xs_Public X 32 (snd sk)" and "length (snd sk) = 32"
  using assms by (auto simp: X25519MLKEM768_def hybrid_scheme_def sch_DeriveKeyPair_def mlkem_scheme_def xScheme_def
      mlkem_DeriveKeyPair_def xs_DeriveKeyPair_def bind_res_eq_Ok returned_Ok Let_def xread_def split: if_splits)

lemma xmlkem_public_roundtrip:
  assumes "DeriveKeyPair (X25519MLKEM768 H X) kseed = Ok (pk, sk)"
  shows "\<exists>ppk. pk_MarshalBinary (X25519MLKEM768 H X) pk = Ok ppk \<and> length ppk = 1216 \<and>
    UnmarshalBinaryPublicKey (X25519MLKEM768 H X) ppk = Ok pk"
proof -
  note k = xmlkem_keypair [OF assms]
  note p = mlkem_pk_roundtrip [OF k(1)]
  have "length (snd pk) = 32" by (simp add: k(2))
  then show ?thesis
    using p by (cases pk) (simp add: X25519MLKEM768_def hybrid_scheme_def pair_MarshalBinary_def mlkem_scheme_def xScheme_def
        sch_UnmarshalBinaryPublicKey_def xs_UnmarshalBinaryPublicKey_def kyber768_sizes sliceTo_def sliceFrom_def returned_def go_copy_same)
qed

lemma xmlkem_encaps:
  assumes "mlkem_NewKeyFromSeed H ks = Some (Ok (fst pk, sk1))" and "length seed = 32"
  shows "(\<exists>ct ss. EncapsulateDeterministically (X25519MLKEM768 H X) pk seed = Ok (ct, ss)) \<or>
    EncapsulateDeterministically (X25519MLKEM768 H X) pk seed = Err ''invalid public key''"
proof -
  obtain ct1 ss1 where e: "mlkem_EncapsulateDeterministically H (fst pk) (take 32 (xread (shake256 H) seed 0 64)) = Ok (ct1, ss1)"
    using mlkem_encaps [OF assms(1), of "take 32 (xread (shake256 H) seed 0 64)"] by (auto simp: xread_def)
  have "length (drop 32 (xread (shake256 H) seed 0 64)) = 32" by (simp add: xread_def)
  with e assms(2) show ?thesis
    by (simp add: X25519MLKEM768_def hybrid_scheme_def sch_EncapsulateDeterministically_def sch_EncapsulationSeedSize_def
        mlkem_scheme_def xScheme_def xs_EncapsulateDeterministically_def xs_DeriveKeyPair_def xs_X_def Let_def split: prod.splits)
qed


lemma xmlkem_agree:
  assumes key: "DeriveKeyPair (X25519MLKEM768 H X) kseed = Ok (pk, sk)" and dh: "x25519_commutes X"
    and noise: "mlkem_noise_ok H (take 64 (xread (shake256 H) kseed 0 96)) (fst pk) (take 32 (xread (shake256 H) seed 0 64))"
    and enc: "EncapsulateDeterministically (X25519MLKEM768 H X) pk seed = Ok (ct, ss)"
  shows "length ct = 1120 \<and> length ss = 64 \<and> Decapsulate (X25519MLKEM768 H X) sk ct = Ok ss"
proof -
  note k = xmlkem_keypair [OF key]
  have "xs_matches H X 32 (snd pk) (snd sk) (drop 32 (xread (shake256 H) seed 0 64))"
    using xs_commutes [OF dh k(3)] by (auto simp: xs_matches_def xs_DeriveKeyPair_def Let_def k(2) xread_def split: if_splits)
  moreover have "mlkem_matches H (fst pk) (fst sk) (take 32 (xread (shake256 H) seed 0 64))"
    using k(1) noise by (auto simp: mlkem_matches_def)
  ultimately have "sch_matches (\<lambda>s n. xread (shake256 H) s 0 n) (mlkem_scheme H) (xScheme H X 32) (mlkem_matches H) (xs_matches H X 32) pk sk seed"
    by (simp add: sch_matches_def hk_matches_def mlkem_scheme_def xScheme_def)
  with x25519mlkem.decap_encap [OF enc] x25519mlkem.encap_sizes [OF enc] show ?thesis
    by (simp add: X25519MLKEM768_def hybrid_scheme_def mlkem_scheme_def xScheme_def kyber768_sizes)
qed


lemma toy_xdh_commutes: "x25519_commutes toy_xdh"
  unfolding x25519_commutes_def toy_xdh_def using map2_xor_commute by simp

lemma zero_xmlkem_key:
  assumes "length kseed = 64"
  shows "\<exists>pk sk. DeriveKeyPair (X25519MLKEM768 zero_sha3 X) kseed = Ok (pk, sk) \<and>
    (\<forall>seed. mlkem_noise_ok zero_sha3 (take 64 (xread (shake256 zero_sha3) kseed 0 96)) (fst pk) seed)"
proof -
  have l: "length (take 64 (xread (shake256 zero_sha3) kseed 0 96)) = 64" "length (drop 64 (xread (shake256 zero_sha3) kseed 0 96)) = 32"
    by (simp_all add: xread_def)
  with assms show ?thesis
    using zero_mlkem_key [OF l(1)] by (auto simp: X25519MLKEM768_def hybrid_scheme_def sch_DeriveKeyPair_def sch_SeedSize_def
        mlkem_scheme_def mlkem_DeriveKeyPair_def xScheme_def xs_DeriveKeyPair_def returned_def Let_def)
qed


section \<open>X-Wing\<close>

record xwing_PrivateKey =
  xsk_seed :: bytes
  xsk_m :: mlkem_PrivateKey
  xsk_x :: bytes
  xsk_xpk :: bytes

record xwing_PublicKey =
  xpk_m :: mlkem_PublicKey
  xpk_x :: bytes

text \<open>The label is the six characters of the X-Wing drawing; the output is a buffer of 32 bytes in every call.\<close>

definition xw_combiner :: "sha3 \<Rightarrow> bytes \<Rightarrow> bytes \<Rightarrow> bytes \<Rightarrow> bytes \<Rightarrow> bytes" where
  "xw_combiner H ssm ssx ctx pkx =
     xread (sha3_256 H) (ssm @ ssx @ ctx @ pkx @ [0x5c, 0x2e, 0x2f, 0x2f, 0x5e, 0x5c]) 0 32"

definition xw_sk_Pack :: "xwing_PrivateKey \<Rightarrow> nat \<Rightarrow> bytes res" where
  "xw_sk_Pack sk bufLen =
     (if bufLen \<noteq> 32 then Panic ''wrong size for private key'' else Ok (go_copy (replicate bufLen 0) (xsk_seed sk)))"

definition xw_pk_Pack :: "xwing_PublicKey \<Rightarrow> nat \<Rightarrow> bytes res" where
  "xw_pk_Pack pk bufLen =
     (if bufLen \<noteq> 1216 then Panic ''wrong size for public key''
      else bind_res (mlkem_pk_Pack (xpk_m pk) kyber768_PublicKeySize) (\<lambda>m.
           Ok (m @ go_copy (replicate (bufLen - kyber768_PublicKeySize) 0) (xpk_x pk))))"

definition xw_deriveKeyPair :: "sha3 \<Rightarrow> xdh \<Rightarrow> bytes \<Rightarrow> (xwing_PrivateKey \<times> xwing_PublicKey) res option" where
  "xw_deriveKeyPair H X seed =
     (if length seed \<noteq> 32 then Some (Panic ''wrong seed size'')
      else let skseed = go_copy (replicate 32 0) seed;
               seedm = xread (shake256 H) seed 0 64;
               x = xread (shake256 H) seed 64 32
           in case mlkem_NewKeyFromSeed H seedm of
                None \<Rightarrow> None
              | Some r \<Rightarrow> Some (bind_res r (\<lambda>(pkm, skm).
                  let xpk = go_copy (replicate 32 0) (x25519_KeyGen X x)
                  in Ok (\<lparr>xsk_seed = skseed, xsk_m = skm, xsk_x = x, xsk_xpk = xpk\<rparr>, \<lparr>xpk_m = pkm, xpk_x = xpk\<rparr>))))"

definition xw_DeriveKeyPairPacked :: "sha3 \<Rightarrow> xdh \<Rightarrow> bytes \<Rightarrow> (bytes \<times> bytes) res option" where
  "xw_DeriveKeyPairPacked H X seed =
     map_option (\<lambda>r. bind_res r (\<lambda>(sk, pk).
       bind_res (xw_pk_Pack pk 1216) (\<lambda>ppk. bind_res (xw_sk_Pack sk 32) (\<lambda>psk. Ok (psk, ppk)))))
     (xw_deriveKeyPair H X seed)"

text \<open>\<open>rnd n\<close> is what \<^verbatim>\<open>cryptoRand.Read\<close> reads, None its failure; the order of the results is the one of
  the parameters, the ciphertext first.\<close>

definition xw_EncapsulateTo ::
    "sha3 \<Rightarrow> xdh \<Rightarrow> (nat \<Rightarrow> bytes option) \<Rightarrow> xwing_PublicKey \<Rightarrow> nat \<Rightarrow> nat \<Rightarrow> bytes option \<Rightarrow> (bytes \<times> bytes) res" where
  "xw_EncapsulateTo H X rnd pk ctLen ssLen seed =
     bind_res (case seed of
         None \<Rightarrow> (case rnd 64 of None \<Rightarrow> Panic ''crypto/rand'' | Some s \<Rightarrow> Ok s)
       | Some s \<Rightarrow> if length s \<noteq> 64 then Panic ''wrong seed size'' else Ok s) (\<lambda>seed.
     if ctLen \<noteq> 1120 then Panic ''wrong size for ciphertext''
     else if ssLen \<noteq> 32 then Panic ''wrong size for shared key''
     else let seedm = go_copy (replicate 32 0) (take 32 seed);
              ekx = go_copy (replicate 32 0) (drop 32 seed);
              ctx = go_copy (replicate 32 0) (x25519_KeyGen X ekx);
              ssx = go_copy (replicate 32 0) (fst (x25519_Shared X ekx (xpk_x pk)))
          in bind_res (mlkem_EncapsulateTo H rnd (xpk_m pk) kyber768_CiphertextSize 32 (Some seedm)) (\<lambda>(ctm, ssm).
             Ok (ctm @ go_copy (replicate (ctLen - kyber768_CiphertextSize) 0) ctx, xw_combiner H ssm ssx ctx (xpk_x pk))))"

definition xw_DecapsulateTo :: "sha3 \<Rightarrow> xdh \<Rightarrow> xwing_PrivateKey \<Rightarrow> nat \<Rightarrow> bytes \<Rightarrow> bytes res" where
  "xw_DecapsulateTo H X sk ssLen ct =
     (if length ct \<noteq> 1120 then Panic ''wrong size for ciphertext''
      else if ssLen \<noteq> 32 then Panic ''wrong size for shared key''
      else let ctm = take kyber768_CiphertextSize ct;
               ctx = go_copy (replicate 32 0) (drop kyber768_CiphertextSize ct)
           in bind_res (mlkem_DecapsulateTo H (xsk_m sk) 32 ctm) (\<lambda>ssm.
              let ssx = go_copy (replicate 32 0) (fst (x25519_Shared X (xsk_x sk) ctx))
              in Ok (xw_combiner H ssm ssx ctx (xsk_xpk sk))))"

definition xw_pk_Unpack :: "sha3 \<Rightarrow> bytes \<Rightarrow> xwing_PublicKey res option" where
  "xw_pk_Unpack H buf =
     (if length buf \<noteq> 1216 then Some (Panic ''wrong size for public key'')
      else let x = go_copy (replicate 32 0) (drop kyber768_PublicKeySize buf)
           in map_option (\<lambda>r. bind_res r (\<lambda>m. Ok \<lparr>xpk_m = m, xpk_x = x\<rparr>)) (mlkem_pk_Unpack H (take kyber768_PublicKeySize buf)))"

definition xw_sk_Unpack :: "sha3 \<Rightarrow> xdh \<Rightarrow> bytes \<Rightarrow> xwing_PrivateKey res option" where
  "xw_sk_Unpack H X buf = map_option (\<lambda>r. bind_res r (\<lambda>(sk, pk). Ok sk)) (xw_deriveKeyPair H X buf)"

definition xw_Encapsulate :: "sha3 \<Rightarrow> xdh \<Rightarrow> (nat \<Rightarrow> bytes option) \<Rightarrow> bytes \<Rightarrow> bytes option \<Rightarrow> (bytes \<times> bytes) res option" where
  "xw_Encapsulate H X rnd pk seed =
     map_option (\<lambda>r. bind_res r (\<lambda>pub.
       bind_res (xw_EncapsulateTo H X rnd pub 1120 32 seed) (\<lambda>(ct, ss). Ok (ss, ct)))) (xw_pk_Unpack H pk)"

definition xw_Decapsulate :: "sha3 \<Rightarrow> xdh \<Rightarrow> bytes \<Rightarrow> bytes \<Rightarrow> bytes res option" where
  "xw_Decapsulate H X ct sk =
     map_option (\<lambda>r. bind_res r (\<lambda>priv. xw_DecapsulateTo H X priv 32 ct)) (xw_sk_Unpack H X sk)"

lemma xw_keypairE:
  assumes "xw_deriveKeyPair H X seed = Some (Ok (sk, pk))"
  obtains "length seed = 32" and "mlkem_NewKeyFromSeed H (xread (shake256 H) seed 0 64) = Some (Ok (xpk_m pk, xsk_m sk))"
    and "xsk_x sk = xread (shake256 H) seed 64 32" and "xsk_xpk sk = go_copy (replicate 32 0) (x25519_KeyGen X (xsk_x sk))"
    and "xpk_x pk = xsk_xpk sk" and "xsk_seed sk = seed"
  using assms by (auto simp: xw_deriveKeyPair_def Let_def bind_res_eq_Ok go_copy_same split: if_splits option.splits)

lemma xw_packed:
  assumes "xw_deriveKeyPair H X seed = Some (Ok (sk, pk))"
  shows "\<exists>ppk. xw_DeriveKeyPairPacked H X seed = Some (Ok (seed, ppk)) \<and> length seed = 32 \<and> length ppk = 1216 \<and>
    xw_pk_Unpack H ppk = Some (Ok pk) \<and> xw_sk_Unpack H X seed = Some (Ok sk)"
proof -
  obtain k: "length seed = 32" "mlkem_NewKeyFromSeed H (xread (shake256 H) seed 0 64) = Some (Ok (xpk_m pk, xsk_m sk))"
    "xsk_xpk sk = go_copy (replicate 32 0) (x25519_KeyGen X (xsk_x sk))" "xpk_x pk = xsk_xpk sk" "xsk_seed sk = seed"
    by (rule xw_keypairE [OF assms])
  note m = mlkem_pk_roundtrip [OF k(2)]
  have l: "length (xpk_x pk) = 32" by (simp add: k)
  show ?thesis
    by (intro exI [of _ "pk_Pack (mpk_pk (xpk_m pk)) @ xpk_x pk"])
      (use k l m in \<open>simp add: xw_DeriveKeyPairPacked_def assms xw_pk_Pack_def xw_sk_Pack_def xw_pk_Unpack_def xw_sk_Unpack_def kyber768_sizes go_copy_same\<close>)
qed

lemma xw_agree:
  assumes key: "xw_deriveKeyPair H X kseed = Some (Ok (sk, pk))" and dh: "x25519_commutes X" and l: "length seed = 64"
    and noise: "mlkem_noise_ok H (xread (shake256 H) kseed 0 64) (xpk_m pk) (take 32 seed)"
  shows "\<exists>ct ss. xw_EncapsulateTo H X rnd pk 1120 32 (Some seed) = Ok (ct, ss) \<and> length ct = 1120 \<and> length ss = 32 \<and>
    xw_DecapsulateTo H X sk 32 ct = Ok ss"
proof -
  obtain k: "mlkem_NewKeyFromSeed H (xread (shake256 H) kseed 0 64) = Some (Ok (xpk_m pk, xsk_m sk))" "length kseed = 32"
    "xsk_x sk = xread (shake256 H) kseed 64 32" "xsk_xpk sk = go_copy (replicate 32 0) (x25519_KeyGen X (xsk_x sk))" "xpk_x pk = xsk_xpk sk"
    by (rule xw_keypairE [OF key])
  have x: "length (xsk_x sk) = 32" by (simp add: k xread_def)
  have s: "length (take 32 seed) = 32" "length (drop 32 seed) = 32" using l by simp_all
  obtain ctm ssm where e: "mlkem_EncapsulateDeterministically H (xpk_m pk) (take 32 seed) = Ok (ctm, ssm)"
    using mlkem_encaps [OF k(1) s(1)] by blast
  note a = mlkem_decap_encap [OF k(1) noise s(1) e]
  have to: "mlkem_EncapsulateTo H rnd (xpk_m pk) kyber768_CiphertextSize 32 (Some (take 32 seed)) = Ok (ctm, ssm)"
    "mlkem_DecapsulateTo H (xsk_m sk) 32 ctm = Ok ssm"
    using e a s(1) by (auto simp: mlkem_EncapsulateDeterministically_def mlkem_Decapsulate_def mlkem_EncapsulateTo_def kyber768_sizes)
  have g: "length (x25519_KeyGen X c) = 32" if "length c = 32" for c
    using dh that by (simp add: x25519_commutes_def)
  have "x25519_Shared X (xsk_x sk) (x25519_KeyGen X (drop 32 seed)) = x25519_Shared X (drop 32 seed) (x25519_KeyGen X (xsk_x sk))"
    using dh x s by (simp add: x25519_commutes_def)
  with to a l s x k(4,5) g show ?thesis
    by (simp add: xw_EncapsulateTo_def xw_DecapsulateTo_def go_copy_same kyber768_sizes Let_def xw_combiner_def xread_def)
qed

text \<open>X-Wing on packed keys. DeriveKeyPairPacked gives a private key of 32 bytes and a public key of 1216.
  Encapsulate with that public key and a seed of 64 bytes gives a ciphertext of 1120 bytes and a shared key
  of 32 bytes, and Decapsulate with the packed private key, which is expanded again from its seed,
  returns the same shared key, when the noise of the ML-KEM part is below q/4. A shared secret that
  X25519 reports as invalid is used all the same, so no X25519 public key makes the encapsulation fail.\<close>

theorem xwing_agrees:
  assumes "xw_deriveKeyPair H X kseed = Some (Ok (sk, pk))" and "x25519_commutes X" and "length seed = 64"
    and "mlkem_noise_ok H (xread (shake256 H) kseed 0 64) (xpk_m pk) (take 32 seed)"
  shows "\<exists>psk ppk ct ss. xw_DeriveKeyPairPacked H X kseed = Some (Ok (psk, ppk)) \<and> length psk = 32 \<and> length ppk = 1216 \<and>
    xw_Encapsulate H X rnd ppk (Some seed) = Some (Ok (ss, ct)) \<and> length ct = 1120 \<and> length ss = 32 \<and>
    xw_Decapsulate H X ct psk = Some (Ok ss)"
  using xw_packed [OF assms(1)] xw_agree [OF assms, of rnd]
  by (auto simp: xw_Encapsulate_def xw_Decapsulate_def)

section \<open>Short ciphertexts\<close>

text \<open>A ciphertext shorter than that of the first component is an error of the hybrid KEM of TLS,
  but makes the hybrid KEM of HPKE panic, for whatever components and private key.\<close>

theorem hybrid_short_ciphertext:
  assumes "length ct < CiphertextSize A"
  shows "Decapsulate (hybridKEM mac k A B) sk ct = Panic ''slice bounds out of range'' \<and>
    Decapsulate (hybrid_scheme shake A B) sk ct = Err ''wrong size for ciphertext''"
  using assms by (simp add: hybridKEM_def hk_Decapsulate_def hybrid_scheme_def sch_Decapsulate_def sliceTo_def)

end
