(* ===== verification/TLS13_Connect.thy ===== *)
theory TLS13_Connect
  imports TLS13_Run TLS_KEM
begin

text \<open>
  Whole handshakes: the client's start (\<^verbatim>\<open>clientHandshake\<close> of \<^verbatim>\<open>crypto/tls/handshake_client.go\<close>), the server's answer and the exchange,
  composed over the wire, with ECH or without it and with a post-quantum group.
\<close>

section \<open>The client starts\<close>

text \<open>The client's configuration, its random inputs and operations on groups for the first hello and, with ECH, for the outer one.\<close>

record ('pk, 'sk) clientEnv =
  ce_neg :: negConfig
  ce_cfg :: tlsConfig
  ce_hpke :: "('pk, 'sk) hpke_env"
  ce_configs :: "'pk ECHConfig list"
  ce_isIP :: "bytes \<Rightarrow> bool"
  ce_groups :: group_ops
  ce_random :: "bytes res"
  ce_sessionId :: "bytes res"
  ce_outerGroups :: group_ops
  ce_outerRandom :: "bytes res"
  ce_outerSessionId :: "bytes res"
  ce_rnd :: "nat \<Rightarrow> bytes res"
  ce_grease :: "bytes res"

text \<open>What \<^verbatim>\<open>loadSession\<close> sets before it looks for a session; the cache has none for the server.\<close>

definition offerTickets :: "tlsConfig \<Rightarrow> clientHelloMsg \<Rightarrow> clientHelloMsg" where
  "offerTickets cfg hello =
     (if cfg_SessionTicketsDisabled cfg \<or> \<not> cfg_hasClientSessionCache cfg \<or> cfg_ECHEnabled cfg then hello
      else let hello = hello\<lparr>ch_ticketSupported := True\<rparr> in
        if ch_supportedVersions hello ! 0 = VersionTLS13 then hello\<lparr>ch_pskModes := [1]\<rparr> else hello)"

definition clientStart :: "('pk, 'sk) clientEnv \<Rightarrow> clientHS \<Rightarrow> clientHS hs_res" where
  "clientStart ce c =
     (let cfg = ce_neg ce; enabled = cfg_ECHEnabled (ce_cfg ce); maxVersion = maxSupportedVersion cfg True;
          minVersion = (if echCanOffer enabled (ce_configs ce) maxVersion then VersionTLS13 else ng_MinVersion cfg) in
      bind_hs (lift_hs None (makeClientHello (ce_isIP ce) cfg (ce_groups ce) (ce_random ce) (ce_sessionId ce) None minVersion)) (\<lambda>(helloBase, secret).
      bind_hs (lift_hs None (echOfferOrGrease (ce_hpke ce) enabled maxVersion (ce_configs ce) (ce_rnd ce) (ce_grease ce)
        (bind_res (makeClientHello (ce_isIP ce) cfg (ce_outerGroups ce) (ce_outerRandom ce) (ce_outerSessionId ce) None (ng_MinVersion cfg)) (\<lambda>(h, _). Ok h))
        (hostnameInSNI (ce_isIP ce)) (tc_ech (cl_conn c)) helloBase)) (\<lambda>(st, hello, helloInner).
      let (hello, helloInner) = (if es_offered st then (hello, map_option (offerTickets (ce_cfg ce)) helloInner)
            else (offerTickets (ce_cfg ce) hello, helloInner)) in
      case ch_marshal hello of (hello, r) \<Rightarrow>
      bind_hs (lift_hs None r) (\<lambda>data.
      Next (c\<lparr>cl_hello := hello, cl_helloInner := helloInner, cl_keySharePrivate := secret, cl_session := None, cl_earlySecret := None,
              cl_conn := send (SentHandshake data) ((cl_conn c)\<lparr>tc_ech := st\<rparr>)\<rparr>)))))"

section \<open>The whole handshake\<close>

record serverEnv =
  se_neg :: negConfig
  se_cfg :: tlsConfig
  se_canAccept :: bool
  se_provider :: "bytes \<Rightarrow> u16 \<Rightarrow> ECHProviderResult res"
  se_groups :: group_ops
  se_random :: "bytes res"
  se_hrrRandom :: "bytes res"
  se_ticket :: "bytes \<Rightarrow> bytes hs_res"
  se_ageAdd :: "u32 res"
  se_certs :: bytes

text \<open>
  A handshake in which the server does not send a HelloRetryRequest; otherwise it reads \<open>msg2\<close> next. \<open>retry\<close>, \<open>legacyC\<close> and \<open>legacyS\<close> are
  the branches of the two sides that such a handshake does not take.
\<close>

definition handshake ::
    "(clientHS \<Rightarrow> clientHS hs_res) \<Rightarrow> (u16 \<Rightarrow> clientHS \<Rightarrow> clientHS hs_res) \<Rightarrow> (u16 \<Rightarrow> serverHS \<Rightarrow> serverHS hs_res) \<Rightarrow> handshakeMessage \<Rightarrow>
     tls_hashes \<Rightarrow> ('pk, 'sk) clientEnv \<Rightarrow> serverEnv \<Rightarrow> clientHS \<Rightarrow> serverHS \<Rightarrow> (serverHS \<times> clientHS) hs_res" where
  "handshake retry legacyC legacyS msg2 H ce se c s =
     bind_hs (clientStart ce c) (\<lambda>c'.
     case newData (cl_conn c) (cl_conn c') of
       [] \<Rightarrow> Stop None ''no message''
     | data # _ \<Rightarrow>
         bind_hs (deliver data) (\<lambda>msg.
         bind_hs (serverAnswer H (ce_hpke ce) (se_canAccept se) (se_provider se) legacyS (se_neg se) (se_groups se) (se_random se)
           (se_hrrRandom se) msg msg2 s) (\<lambda>s'.
         exchange_via (clientAnswer retry legacyC H (ce_neg ce) (ce_cfg ce)) H (se_cfg se) (ce_cfg ce) (ce_hpke ce) (se_ticket se)
           (se_ageAdd se) (se_certs se) s' c')))"

section \<open>The server's choice succeeds\<close>

lemma firstMutualTLS13_some:
  assumes "find (\<lambda>i. i \<in> set have) prefs = Some i" and "\<And>i. i \<in> set prefs \<Longrightarrow> cipherSuiteTLS13ByID i \<noteq> None"
  shows "firstMutualTLS13 prefs have \<noteq> None"
  using assms
proof (induction prefs)
  case (Cons j prefs)
  obtain x where "cipherSuiteTLS13ByID j = Some x" using Cons.prems(2) [of j] by auto
  with Cons show ?case by (auto simp: mutualCipherSuiteTLS13_def split: option.splits if_splits)
qed simp

lemma agreeOnFlags_succeeds:
  assumes "\<forall>f \<in> set (ng_TLSFlagsSupported cfg). f < maxTLSFlag"
    and "ch_tlsFlags (ss_clientHello s) = [] \<or> last (ch_tlsFlags (ss_clientHello s)) \<noteq> 0"
  shows "\<exists>s'. agreeOnFlags cfg s = Next s' \<and> (ss_tlsFlags s' = ss_tlsFlags s \<or> set (ss_tlsFlags s') \<subseteq> set (ng_TLSFlagsSupported cfg))"
proof -
  obtain bs where b: "encodeFlags (ng_TLSFlagsSupported cfg) = Ok bs" "length bs \<le> 255"
      "of_nat ` Collect (flagOf bs) = set (ng_TLSFlagsSupported cfg)"
    by (rule encodeFlags_Ok [OF assms(1)]) (rule that)
  let ?m = "mutualFlags bs (ch_tlsFlags (ss_clientHello s))"
  have f: "finite (of_nat ` Collect (flagOf ?m) :: u16 set)" by (rule finite_subset [OF subset_UNIV]) simp
  have "decodeFlags ?m = Ok (sorted_list_of_set (of_nat ` Collect (flagOf ?m)))"
    using b(2) by (intro decodeFlags_spec) (simp add: mutualFlags_def)
  moreover have "set (sorted_list_of_set (of_nat ` Collect (flagOf ?m) :: u16 set)) \<subseteq> set (ng_TLSFlagsSupported cfg)"
    unfolding b(3) [symmetric] set_sorted_list_of_set [OF f] by (auto simp: flagOf_mutual)
  ultimately show ?thesis
    using assms(2) b(1) by (auto simp: agreeOnFlags_def Let_def split: res.splits)
qed

text \<open>A server whose checks pass, with a best suite and group for which the client has sent a share.\<close>

lemma processClientHello_succeeds:
  assumes "\<exists>h. startServerHello cfg (Ok r) ch = Next h" and "ss_clientHello s = ch" and "negotiate_spec cfg ch = Some (i, g)"
    and "find (\<lambda>ks. ks_group ks = g) (clientShares ch) = Some ks" and "agreeOnKey G g (ks_data ks) = Next (share, key)"
    and "\<forall>f \<in> set (ng_TLSFlagsSupported cfg). f < maxTLSFlag" and "ch_tlsFlags ch = [] \<or> last (ch_tlsFlags ch) \<noteq> 0"
    and "negotiateALPN (ng_NextProtos cfg) (ch_alpnProtocols ch) False = Ok proto" and "ch_quicTransportParameters ch = None"
  obtains s' where "processClientHello H E canAccept p cfg G (Ok r) hrrRandom msg s = Next s'" and "snd (negotiated s') = g"
    and "ss_sharedKey s' = key" and "sh_serverShare (ss_hello s') = \<lparr>ks_group = g, ks_data = share\<rparr>"
    and "ss_tlsFlags s' = ss_tlsFlags s \<or> set (ss_tlsFlags s') \<subseteq> set (ng_TLSFlagsSupported cfg)"
    and "fst (negotiated s') = i"
proof -
  obtain hello where h: "startServerHello cfg (Ok r) ch = Next hello" using assms(1) by blast
  have b: "find (\<lambda>i. i \<in> set (ch_cipherSuites ch)) (preferenceList cfg ch) = Some i"
      "find (\<lambda>g. g \<in> set (ch_supportedCurves ch)) (curvePreferences cfg) = Some g" "g \<noteq> 0"
    using assms(3) by (auto simp: negotiate_spec_def best_def split: option.splits if_splits)
  obtain suite where suite: "firstMutualTLS13 (preferenceList cfg ch) (ch_cipherSuites ch) = Some suite"
    using firstMutualTLS13_some [OF b(1) known_suites [of _ cfg ch]] by auto
  have i: "cs_id suite = i" using firstMutualTLS13_best [OF suite known_suites [of _ cfg ch]] b(1) by simp
  define s1 where "s1 = s\<lparr>ss_hello := hello\<lparr>sh_cipherSuite := cs_id suite\<rparr>, ss_suite := suite, ss_transcript := [],
      ss_conn := (ss_conn s)\<lparr>tc_cipherSuite := cs_id suite\<rparr>\<rparr>"
  define t where "t = s1\<lparr>ss_hello := (ss_hello s1)\<lparr>sh_serverShare := \<lparr>ks_group = g, ks_data = share\<rparr>\<rparr>, ss_sharedKey := key\<rparr>"
  have t: "ss_clientHello t = ch" "ss_tlsFlags t = ss_tlsFlags s" using assms(2) by (simp_all add: t_def s1_def)
  obtain u where u: "agreeOnFlags cfg t = Next u" "ss_tlsFlags u = ss_tlsFlags s \<or> set (ss_tlsFlags u) \<subseteq> set (ng_TLSFlagsSupported cfg)"
    using agreeOnFlags_succeeds [OF assms(6), of t] assms(7) t by auto
  note k = agreeOnFlags_keeps [OF u(1)]
  have f: "ss_clientHello u = ch" "ss_suite u = suite" "ss_sharedKey u = key" "sh_serverShare (ss_hello u) = \<lparr>ks_group = g, ks_data = share\<rparr>"
    by (subst k, simp add: t_def s1_def assms(2))+
  have g: "selectGroup (curvePreferences cfg) (ch_supportedCurves ch) = g" by (simp add: selectGroup_def b(2))
  have "chooseParameters cfg (Ok r) s = Next (s1, g, Some ks)"
    using h suite g b(3) assms(2,4) by (simp add: chooseParameters_def s1_def)
  moreover have "acceptShare cfg G g (ks_data ks) s1 =
      Next (u\<lparr>ss_conn := (ss_conn u)\<lparr>tc_clientProtocol := proto, tc_serverName := ch_serverName ch\<rparr>\<rparr>)"
    using u(1) assms(5,8,9) f(1) by (simp add: acceptShare_def t_def)
  ultimately have "processClientHello H E canAccept p cfg G (Ok r) hrrRandom msg s =
      Next (u\<lparr>ss_conn := (ss_conn u)\<lparr>tc_clientProtocol := proto, tc_serverName := ch_serverName ch\<rparr>\<rparr>)"
    by (simp add: processClientHello_def)
  then show thesis by (rule that) (use f u(2) i in \<open>simp_all add: negotiated_def\<close>)
qed

section \<open>A handshake completes\<close>

text \<open>A server that can serve a ClientHello: TLS 1.3 is enabled, a protocol is found, and it asks for no certificate and sends no tickets.\<close>

definition servable :: "serverEnv \<Rightarrow> clientHelloMsg \<Rightarrow> bool" where
  "servable se ch \<longleftrightarrow> keylog_ok (se_cfg se) \<and> \<not> cfg_requestsClientCert (se_cfg se) \<and>
     (cfg_SessionTicketsDisabled (se_cfg se) \<or> cfg_ECHEnabled (se_cfg se)) \<and>
     VersionTLS13 \<in> set (supportedVersions (se_neg se) False) \<and>
     (\<exists>proto. negotiateALPN (ng_NextProtos (se_neg se)) (ch_alpnProtocols ch) False = Ok proto) \<and>
     (\<forall>f \<in> set (ng_TLSFlagsSupported (se_neg se)). f < maxTLSFlag) \<and>
     ExperimentalFlagSupportMTLS \<notin> set (ng_TLSFlagsSupported (se_neg se)) \<and>
     (\<exists>r. se_random se = Ok r \<and> length r = 32 \<and> take 24 r \<noteq> take 24 helloRetryRequestRandom)"

text \<open>A share of the client for the group that the server chooses, on which the two sides agree.\<close>

definition share_agrees :: "group_ops \<Rightarrow> clientHelloMsg \<Rightarrow> (u16 \<rightharpoonup> privateShare) \<Rightarrow> u16 \<Rightarrow> bytes \<Rightarrow> bool" where
  "share_agrees G ch secret g key \<longleftrightarrow> (\<exists>ks share. find (\<lambda>ks. ks_group ks = g) (clientShares ch) = Some ks \<and>
     agreeOnKey G g (ks_data ks) = Next (share, key) \<and> length share < 60000 \<and> private_opens secret \<lparr>ks_group = g, ks_data = share\<rparr> key)"

lemma handshake_answered:
  fixes ce :: "('pk, 'sk) clientEnv"
  assumes H: "hashes_sized H" "keylog_ok (ce_cfg ce)" and start: "clientStart ce c0 = Next c" "newData (cl_conn c0) (cl_conn c) = [data]"
    and msg: "deliver data = Next msg"
    and read: "readClientHello (ce_hpke ce) (se_canAccept se) (se_provider se) (se_neg se) msg s0 = Next (s1, VersionTLS13)"
    and m: "matching c outer inner s1" and ch: "ss_clientHello s1 = ch" "\<And>cfg r. \<exists>h. startServerHello cfg (Ok r) ch = Next h"
      "ch_tlsFlags ch = [] \<or> last (ch_tlsFlags ch) \<noteq> 0" "ch_quicTransportParameters ch = None"
    and v: "VersionTLS13 \<in> set (supportedVersions (ce_neg ce) True)" and s: "servable se ch" "ss_tlsFlags s1 = []"
    and g: "negotiate_spec (se_neg se) ch = Some (i, g)" "share_agrees (se_groups se) ch (cl_keySharePrivate c) g key"
  shows "\<exists>s s' c'. serverAnswer H (ce_hpke ce) (se_canAccept se) (se_provider se) legacyS (se_neg se) (se_groups se) (se_random se)
      (se_hrrRandom se) msg msg2 s0 = Next s \<and> negotiated s = (i, g) \<and> ss_sharedKey s = key \<and>
    handshake retry legacyC legacyS msg2 H ce se c0 s0 = Next (s', c') \<and> connected s' c' \<and>
    (es_offered (tc_ech (cl_conn c)) \<longrightarrow> es_accepted (tc_ech (cl_conn c'))) \<and> tc_serverName (cl_conn c') = ch_serverName ch"
proof -
  obtain r proto where r: "se_random se = Ok r" "length r = 32" "take 24 r \<noteq> take 24 helloRetryRequestRandom"
    and p: "negotiateALPN (ng_NextProtos (se_neg se)) (ch_alpnProtocols ch) False = Ok proto"
    and f: "\<forall>f \<in> set (ng_TLSFlagsSupported (se_neg se)). f < maxTLSFlag" and k: "keylog_ok (se_cfg se)"
    using s(1) by (auto simp: servable_def)
  obtain ks share where a: "find (\<lambda>ks. ks_group ks = g) (clientShares ch) = Some ks" "agreeOnKey (se_groups se) g (ks_data ks) = Next (share, key)"
      "length share < 60000" "private_opens (cl_keySharePrivate c) \<lparr>ks_group = g, ks_data = share\<rparr> key"
    using g(2) by (auto simp: share_agrees_def)
  obtain s where x: "processClientHello H (ce_hpke ce) (se_canAccept se) (se_provider se) (se_neg se) (se_groups se) (Ok r) (se_hrrRandom se) msg2 s1 = Next s"
      "snd (negotiated s) = g" "ss_sharedKey s = key" "sh_serverShare (ss_hello s) = \<lparr>ks_group = g, ks_data = share\<rparr>"
      "ss_tlsFlags s = ss_tlsFlags s1 \<or> set (ss_tlsFlags s) \<subseteq> set (ng_TLSFlagsSupported (se_neg se))" "fst (negotiated s) = i"
    by (rule processClientHello_succeeds [OF ch(2) ch(1) g(1) a(1,2) f ch(3) p ch(4)]) (rule that)
  have q: "\<not> requestClientCert (se_cfg se) s" "\<not> shouldSendSessionTickets (se_cfg se) s"
    using s x(5) by (auto simp: servable_def requestClientCert_def shouldSendSessionTickets_def)
  have sh: "find (\<lambda>ks. ks_group ks = snd (negotiated s)) (clientShares (ss_clientHello s1)) \<noteq> None" using a(1) x(2) ch(1) by simp
  have key: "private_opens (cl_keySharePrivate c) (sh_serverShare (ss_hello s)) (ss_sharedKey s)" "length (ks_data (sh_serverShare (ss_hello s))) < 60000"
    using a(3,4) x(3,4) by simp_all
  have ans: "serverAnswer H (ce_hpke ce) (se_canAccept se) (se_provider se) legacyS (se_neg se) (se_groups se) (se_random se)
      (se_hrrRandom se) msg msg2 s0 = Next s"
    using read x(1) r(1) by (simp add: serverAnswer_def)
  obtain s' c' where e: "exchange_via (clientAnswer retry legacyC H (ce_neg ce) (ce_cfg ce)) H (se_cfg se) (ce_cfg ce) (ce_hpke ce)
        (se_ticket se) (se_ageAdd se) (se_certs se) s c = Next (s', c')" "connected s' c'"
      "es_offered (tc_ech (cl_conn c')) \<longleftrightarrow> es_offered (tc_ech (cl_conn c))"
      "es_offered (tc_ech (cl_conn c')) \<longrightarrow> es_accepted (tc_ech (cl_conn c'))" "tc_serverName (cl_conn c') = ch_serverName (ss_clientHello s1)"
    using negotiated_exchange_completes [OF H(1) k H(2) m x(1) sh key r(2,3) q v] by blast
  have "handshake retry legacyC legacyS msg2 H ce se c0 s0 = Next (s', c')"
    using start msg ans e(1) by (simp add: handshake_def)
  moreover have "negotiated s = (i, g)" using x(2,6) by (simp add: prod_eq_iff)
  ultimately show ?thesis using ans x(3) e ch(1) by blast
qed

section \<open>Without ECH\<close>

text \<open>The hello that the server parses: algorithms for delegated credentials are sent only when these are supported.\<close>

definition onWire :: "clientHelloMsg \<Rightarrow> clientHelloMsg" where
  "onWire h = h\<lparr>ch_supportedSignatureAlgorithmsDC := (if ch_delegatedCredentialSupported h then ch_supportedSignatureAlgorithmsDC h else [])\<rparr>"

lemma ch_addExtensions_onWire: "ch_addExtensions (onWire h) = ch_addExtensions h"
proof (cases "ch_delegatedCredentialSupported h")
  case True
  then have "onWire h = h" by (simp add: onWire_def)
  then show ?thesis by simp
next
  case False
  have "addWhen False f = Done" for f by (rule ext) (simp add: addWhen_def)
  with False show ?thesis by (simp add: ch_addExtensions_def onWire_def)
qed

lemma onWire_fields [simp]:
  "ch_vers (onWire h) = ch_vers h" "ch_random (onWire h) = ch_random h" "ch_sessionId (onWire h) = ch_sessionId h"
  "ch_cipherSuites (onWire h) = ch_cipherSuites h" "ch_serverName (onWire h) = ch_serverName h" "ch_raw (onWire h) = ch_raw h"
  "ch_compressionMethods (onWire h) = ch_compressionMethods h" "(onWire h)\<lparr>ch_raw := x\<rparr> = onWire (h\<lparr>ch_raw := x\<rparr>)"
  "ch_alpnProtocols (onWire h) = ch_alpnProtocols h" "ch_ech (onWire h) = ch_ech h" "ch_tlsFlags (onWire h) = ch_tlsFlags h"
  "ch_supportedVersions (onWire h) = ch_supportedVersions h" "ch_quicTransportParameters (onWire h) = ch_quicTransportParameters h"
  "clientShares (onWire h) = clientShares h" "negotiate_spec cfg (onWire h) = negotiate_spec cfg h"
  by (simp_all add: onWire_def clientShares_def negotiate_spec_def preferenceList_def)

lemma ch_marshal_onWire:
  assumes "ch_raw h = None" and "ch_marshal h = (h', Ok d)"
  shows "ch_marshal (onWire h) = (onWire h', Ok d) \<and> h' = h\<lparr>ch_raw := Some d\<rparr>"
  using assms unfolding ch_marshal_def onWire_fields ch_addExtensions_onWire by (auto split: res.splits)

lemma startServerHello_cong:
  assumes "ch_supportedVersions h' = ch_supportedVersions h" "ch_cipherSuites h' = ch_cipherSuites h"
    "ch_compressionMethods h' = ch_compressionMethods h" "ch_secureRenegotiation h' = ch_secureRenegotiation h"
    "ch_earlyData h' = ch_earlyData h" "ch_sessionId h' = ch_sessionId h"
  shows "startServerHello cfg r h' = startServerHello cfg r h"
  using assms by (simp add: startServerHello_def)

lemma offerTickets_fields [simp]:
  "ch_supportedVersions (offerTickets cfg h) = ch_supportedVersions h" "ch_cipherSuites (offerTickets cfg h) = ch_cipherSuites h"
  "ch_compressionMethods (offerTickets cfg h) = ch_compressionMethods h" "ch_secureRenegotiation (offerTickets cfg h) = ch_secureRenegotiation h"
  "ch_earlyData (offerTickets cfg h) = ch_earlyData h" "ch_sessionId (offerTickets cfg h) = ch_sessionId h"
  "ch_raw (offerTickets cfg h) = ch_raw h" "ch_ech (offerTickets cfg h) = ch_ech h" "ch_tlsFlags (offerTickets cfg h) = ch_tlsFlags h"
  "ch_quicTransportParameters (offerTickets cfg h) = ch_quicTransportParameters h" "ch_alpnProtocols (offerTickets cfg h) = ch_alpnProtocols h"
  "ch_keyShares (offerTickets cfg h) = ch_keyShares h"
  by (simp_all add: offerTickets_def Let_def)

lemma clientStart_plain:
  assumes "clientStart ce c0 = Next c" and "\<not> cfg_ECHEnabled (ce_cfg ce)" and "\<not> es_offered (tc_ech (cl_conn c0))"
  obtains base secret data where
    "makeClientHello (ce_isIP ce) (ce_neg ce) (ce_groups ce) (ce_random ce) (ce_sessionId ce) None (ng_MinVersion (ce_neg ce)) = Ok (base, secret)"
    and "ch_marshal (offerTickets (ce_cfg ce) base) = (cl_hello c, Ok data)"
    and "c = c0\<lparr>cl_hello := cl_hello c, cl_helloInner := None, cl_keySharePrivate := secret, cl_session := None, cl_earlySecret := None,
      cl_conn := send (SentHandshake data) (cl_conn c0)\<rparr>"
    and "cl_keySharePrivate c = secret"
proof -
  obtain base secret where b:
    "makeClientHello (ce_isIP ce) (ce_neg ce) (ce_groups ce) (ce_random ce) (ce_sessionId ce) None (ng_MinVersion (ce_neg ce)) = Ok (base, secret)"
    using assms by (auto simp: clientStart_def echCanOffer_def Let_def bind_hs_eq_Next)
  obtain hello r where m: "ch_marshal (offerTickets (ce_cfg ce) base) = (hello, r)" by force
  have "bind_hs (lift_hs None r) (\<lambda>data. Next (c0\<lparr>cl_hello := hello, cl_helloInner := None, cl_keySharePrivate := secret, cl_session := None,
      cl_earlySecret := None, cl_conn := send (SentHandshake data) (cl_conn c0)\<rparr>)) = Next c"
    using assms b m by (simp add: clientStart_def echCanOffer_def echOfferOrGrease_def)
  then show thesis by (auto simp: bind_hs_eq_Next m intro!: that [OF b])
qed

text \<open>The two sides before their handshake.\<close>

definition new_client :: "clientHS \<Rightarrow> bool" where
  "new_client c \<longleftrightarrow> cl_suite c = None \<and> \<not> cl_usingPSK c \<and> tc_ech (cl_conn c) = ech_start"

definition new_server :: "serverHS \<Rightarrow> bool" where
  "new_server s \<longleftrightarrow> ss_earlySecret s = None \<and> ss_tlsFlags s = [] \<and> tc_ech (ss_conn s) = ech_start"

lemma mutualVersion_13:
  assumes "VersionTLS13 \<in> set (supportedVersions cfg isClient)" and "vs \<noteq> []" and "vs ! 0 = VersionTLS13"
  shows "mutualVersion cfg isClient vs = Some VersionTLS13"
  using assms by (cases vs) (simp_all add: mutualVersion_def)

lemma newData_send: "newData (c\<lparr>tc_ech := st\<rparr>) (send (SentHandshake d) c') = [d]" if "tc_sent c' = tc_sent c"
  using that by (simp add: newData_def send_def)

lemma readClientHello_plain:
  assumes "ch_ech h = []" and "\<not> es_offered (tc_ech (ss_conn s))" and "ch_supportedVersions h ! 0 = VersionTLS13" "ch_supportedVersions h \<noteq> []"
    and "VersionTLS13 \<in> set (supportedVersions cfg False)"
  shows "readClientHello E canAccept p cfg (ClientHello h) s = Next (s\<lparr>ss_clientHello := h\<rparr>, VersionTLS13)"
  using assms mutualVersion_13 [OF assms(5), of "ch_supportedVersions h"]
  by (simp add: readClientHello_def echAcceptOrReject_def use_hello_def)

lemma ch_raw_versions: "ch_supportedVersions (h\<lparr>ch_raw := r\<rparr>) = ch_supportedVersions h"
  by simp

lemma plain_handshake:
  fixes ce :: "('pk, 'sk) clientEnv"
  assumes H: "hashes_sized H" "keylog_ok (ce_cfg ce)" and start: "clientStart ce c0 = Next c" and new: "new_client c0" "new_server s0"
    and off: "\<not> cfg_ECHEnabled (ce_cfg ce)" and v: "VersionTLS13 \<in> set (ch_supportedVersions (cl_hello c))"
    and fit: "fresh_msg (ClientHello (onWire ((cl_hello c)\<lparr>ch_raw := None\<rparr>)))" and s: "servable se (cl_hello c)"
    and g: "negotiate_spec (se_neg se) (cl_hello c) = Some (i, g)" "share_agrees (se_groups se) (cl_hello c) (cl_keySharePrivate c) g key"
  shows "\<exists>s s' c'. serverAnswer H (ce_hpke ce) (se_canAccept se) (se_provider se) legacyS (se_neg se) (se_groups se) (se_random se)
      (se_hrrRandom se) (ClientHello (onWire (cl_hello c))) msg2 s0 = Next s \<and> negotiated s = (i, g) \<and> ss_sharedKey s = key \<and>
    handshake retry legacyC legacyS msg2 H ce se c0 s0 = Next (s', c') \<and> connected s' c' \<and> tc_serverName (cl_conn c') = ch_serverName (cl_hello c)"
proof -
  let ?ch = "onWire (cl_hello c)"
  have o: "\<not> es_offered (tc_ech (cl_conn c0))" using new(1) by (simp add: new_client_def ech_start_def)
  obtain base secret data where b:
      "makeClientHello (ce_isIP ce) (ce_neg ce) (ce_groups ce) (ce_random ce) (ce_sessionId ce) None (ng_MinVersion (ce_neg ce)) = Ok (base, secret)"
    and m: "ch_marshal (offerTickets (ce_cfg ce) base) = (cl_hello c, Ok data)"
    and c: "c = c0\<lparr>cl_hello := cl_hello c, cl_helloInner := None, cl_keySharePrivate := secret, cl_session := None, cl_earlySecret := None,
      cl_conn := send (SentHandshake data) (cl_conn c0)\<rparr>"
    by (rule clientStart_plain [OF start off o]) (rule that)
  let ?h = "offerTickets (ce_cfg ce) base"
  have "cl_hello c = ?h\<lparr>ch_raw := ch_raw (cl_hello c)\<rparr>" using fst_ch_marshal [of ?h] m by simp
  then have "ch_supportedVersions (cl_hello c) = ch_supportedVersions base" by (metis offerTickets_fields(1) ch_raw_versions)
  with v have vb: "VersionTLS13 \<in> set (ch_supportedVersions base)" by simp
  obtain "\<And>cfgS r. \<exists>h. startServerHello cfgS (Ok r) base = Next h" "ch_tlsFlags base = [] \<or> last (ch_tlsFlags base) \<noteq> 0"
      "ch_supportedVersions base = supportedVersionsFromMin (ce_neg ce) True (ng_MinVersion (ce_neg ce))" "ch_supportedVersions base ! 0 = VersionTLS13"
      "ch_ech base = []" "ch_raw base = None" "ch_quicTransportParameters base = None" "list_all (\<lambda>p. length p < 256) (ch_alpnProtocols base)"
    by (rule makeClientHello_tls13 [OF b vb]) blast
  note f = this
  have hello: "cl_hello c = ?h\<lparr>ch_raw := Some data\<rparr>" "ch_marshal (onWire ?h) = (?ch, Ok data)"
    using ch_marshal_onWire [OF _ m] f(6) by simp_all
  have raw: "?h\<lparr>ch_raw := None\<rparr> = ?h" using f(6) by simp
  have d: "deliver data = Next (ClientHello ?ch)"
    by (rule deliver_fresh [of "ClientHello (onWire ?h)"]) (use fit hello in \<open>simp_all add: raw\<close>)
  have sid: "length (ch_sessionId (cl_hello c)) < 256" using fit by (simp add: wf_hello_def fits_hello_def)
  have st: "\<not> es_offered (tc_ech (ss_conn s0))" "es_retryConfigs (tc_ech (ss_conn s0)) = []" "ss_earlySecret s0 = None" "ss_tlsFlags s0 = []"
    using new(2) by (simp_all add: new_server_def ech_start_def)
  have ch: "ch_ech ?ch = []" "ch_supportedVersions ?ch = ch_supportedVersions base" by (simp_all add: hello(1) f(5))
  have read: "readClientHello (ce_hpke ce) (se_canAccept se) (se_provider se) (se_neg se) (ClientHello ?ch) s0 =
      Next (s0\<lparr>ss_clientHello := ?ch\<rparr>, VersionTLS13)"
    by (rule readClientHello_plain [OF ch(1) st(1)]) (use ch(2) f(4) vb s in \<open>auto simp: servable_def\<close>)
  have cf: "cl_suite c = None" "\<not> cl_usingPSK c" "\<not> es_offered (tc_ech (cl_conn c))" "newData (cl_conn c0) (cl_conn c) = [data]"
    using new(1) o by (subst c, simp add: new_client_def send_def newData_def)+
  have mt: "matching c data [] (s0\<lparr>ss_clientHello := ?ch\<rparr>)"
    using cf(1-3) st sid ch(1) f(8) by (simp add: matching_def Let_def sent_hellos_def echIsInner_def ch_marshal_def hello(1))
  have "\<exists>h. startServerHello cfg (Ok r) ?ch = Next h" for cfg r
    using f(1) [of cfg r] by (subst startServerHello_cong [of _ base]) (simp_all add: hello(1) onWire_def)
  moreover have "VersionTLS13 \<in> set (supportedVersions (ce_neg ce) True)" using vb f(3) by (simp add: supportedVersionsFromMin_def)
  moreover have "ch_tlsFlags ?ch = [] \<or> last (ch_tlsFlags ?ch) \<noteq> 0" "ch_quicTransportParameters ?ch = None" using f(2,7) by (simp_all add: hello(1))
  moreover have "servable se ?ch" "share_agrees (se_groups se) ?ch (cl_keySharePrivate c) g key" "negotiate_spec (se_neg se) ?ch = Some (i, g)"
    using s g by (simp_all add: servable_def share_agrees_def)
  ultimately show ?thesis
    using handshake_answered [where ch = ?ch, OF H start cf(4) d read mt] st(4) by (simp add: cf(3))
qed

section \<open>With a post-quantum group\<close>

lemma made_share:
  assumes "makeClientHello isIP cfg G random sessionId clientFinished minVersion = Ok (hello, secret)"
    and "VersionTLS13 \<in> set (ch_supportedVersions hello)" and "g \<in> dom secret"
  obtains ks sk where "find (\<lambda>ks. ks_group ks = g) (clientShares hello) = Some ks" and "newKeyShare G g = Ok (sk, ks_data ks)" and "secret g = Some sk"
proof -
  obtain shares where s: "ch_keyShares hello = Some shares" "dom secret = set (map ks_group shares)"
      "\<forall>ks \<in> set shares. \<exists>sk. newKeyShare G (ks_group ks) = Ok (sk, ks_data ks) \<and> secret (ks_group ks) = Some sk"
    by (rule makeClientHello_tls13 [OF assms(1,2)]) (rule that)
  have "find (\<lambda>ks. ks_group ks = g) shares \<noteq> None" using assms(3) s(2) by (auto simp: find_None_iff)
  then obtain ks where f: "find (\<lambda>ks. ks_group ks = g) shares = Some ks" by blast
  then have "ks \<in> set shares" "ks_group ks = g" by (auto simp: find_Some_iff)
  with s(3) obtain sk where "newKeyShare G g = Ok (sk, ks_data ks)" "secret g = Some sk" by blast
  with f s(1) show thesis by (intro that) (simp_all add: clientShares_def)
qed

text \<open>The operations of one side for X25519MLKEM768, next to those of other groups: the calls of \<^verbatim>\<open>cfkem.go\<close> with the randomness of that side.\<close>

definition pq_groups :: "('pk, 'sk) Scheme \<Rightarrow> (nat \<Rightarrow> string + bytes) \<Rightarrow> group_ops \<Rightarrow> group_ops" where
  "pq_groups scheme rnd G = G\<lparr>
     go_kemKey := (go_kemKey G)(MLKEM768X25519 := bind_res (generateKemKeyPair scheme 0x11ec rnd) (\<lambda>(pk, sk, _).
       bind_res (pk_MarshalBinary scheme pk) (\<lambda>packed. Ok (packed, Decapsulate scheme sk)))),
     go_encaps := (go_encaps G)(MLKEM768X25519 := encapsulateForKem scheme rnd)\<rparr>"

lemma xmlkem_sizes: "SeedSize (X25519MLKEM768 S X) = 64" "EncapsulationSeedSize (X25519MLKEM768 S X) = 32"
  by (simp_all add: X25519MLKEM768_def hybrid_scheme_def sch_SeedSize_def sch_EncapsulationSeedSize_def mlkem_scheme_def xScheme_def)

text \<open>Randomness of the two sides for which the encapsulation works: little noise, and a shared secret that X25519 does not refuse.\<close>

definition pq_seeds :: "sha3 \<Rightarrow> xdh \<Rightarrow> bytes \<Rightarrow> bytes \<Rightarrow> bool" where
  "pq_seeds S X kseed seed \<longleftrightarrow> length seed = 32 \<and> (\<forall>pk sk. DeriveKeyPair (X25519MLKEM768 S X) kseed = Ok (pk, sk) \<longrightarrow>
     mlkem_noise_ok S (take 64 (xread (shake256 S) kseed 0 96)) (fst pk) (take 32 (xread (shake256 S) seed 0 64)) \<and>
     EncapsulateDeterministically (X25519MLKEM768 S X) pk seed \<noteq> Err ''invalid public key'')"

lemma pq_share:
  assumes share: "newKeyShare (pq_groups (X25519MLKEM768 S X) rc G) 0x11ec = Ok (sk, ppk)" and "rc 64 = Inr kseed" and "rs 32 = Inr seed"
    and "x25519_commutes X" and seeds: "pq_seeds S X kseed seed"
  obtains ct ss where "agreeOnKey (pq_groups (X25519MLKEM768 S X) rs G') 0x11ec ppk = Next (ct, ss)" and "length ct = 1120" and "length ss = 64"
    and "private_opens [0x11ec \<mapsto> sk] \<lparr>ks_group = 0x11ec, ks_data = ct\<rparr> ss"
proof -
  let ?S = "X25519MLKEM768 S X"
  obtain pk k where key: "DeriveKeyPair ?S kseed = Ok (pk, k)" and p: "pk_MarshalBinary ?S pk = Ok ppk" and sk: "sk = KemShare (Decapsulate ?S k)"
    using share assms(2) by (auto simp: newKeyShare_def curveIdToCirclScheme_def pq_groups_def generateKemKeyPair_def xmlkem_sizes bind_res_eq_Ok)
  have u: "UnmarshalBinaryPublicKey ?S ppk = Ok pk" using xmlkem_public_roundtrip [OF key] p by auto
  obtain ct ss where e: "EncapsulateDeterministically ?S pk seed = Ok (ct, ss)"
    using xmlkem_encaps [OF xmlkem_keypair(1) [OF key], of seed X] seeds key by (auto simp: pq_seeds_def)
  have a: "length ct = 1120 \<and> length ss = 64 \<and> Decapsulate ?S k ct = Ok ss"
    using xmlkem_agree [OF key assms(4) _ e] seeds key by (simp add: pq_seeds_def)
  show thesis
  proof (rule that)
    show "agreeOnKey (pq_groups ?S rs G') 0x11ec ppk = Next (ct, ss)"
      using u e assms(3) by (simp add: agreeOnKey_def curveIdToCirclScheme_def pq_groups_def encapsulateForKem_def xmlkem_sizes)
    show "private_opens [0x11ec \<mapsto> sk] \<lparr>ks_group = 0x11ec, ks_data = ct\<rparr> ss"
      using a by (simp add: private_opens_def sk)
  qed (use a in simp_all)
qed

text \<open>
  C2: A post-quantum handshake runs from the client's configuration to the end. A client without ECH makes its hello with a key share for
  X25519MLKEM768, and a server that supports TLS 1.3 finds this group to be the best; both use the scheme of \<open>TLS_KEM\<close>
  with their own randomness. Then the server parses the hello, agrees on the 64 bytes of the hybrid secret, and every further message
  is accepted: both sides end with the same keys at the application level, exporter and protocol, and the client with the name it asked for.
  Needed are hashes of their sizes, a hello that fits its length fields, an X25519 that both sides compute alike, and noise of ML-KEM below q/4.
\<close>

theorem pq_handshake_completes:
  fixes ce :: "('pk, 'sk) clientEnv"
  assumes "hashes_sized H" "keylog_ok (ce_cfg ce)" and start: "clientStart ce c0 = Next c" and new: "new_client c0" "new_server s0"
    and off: "\<not> cfg_ECHEnabled (ce_cfg ce)" and v: "VersionTLS13 \<in> set (ch_supportedVersions (cl_hello c))"
    and "fresh_msg (ClientHello (onWire ((cl_hello c)\<lparr>ch_raw := None\<rparr>)))" and "servable se (cl_hello c)"
    and "negotiate_spec (se_neg se) (cl_hello c) = Some (i, 0x11ec)" and g: "0x11ec \<in> dom (cl_keySharePrivate c)"
    and ops: "ce_groups ce = pq_groups (X25519MLKEM768 S X) rc G" "se_groups se = pq_groups (X25519MLKEM768 S X) rs G'"
    and pq: "rc 64 = Inr kseed" "rs 32 = Inr seed" "x25519_commutes X" "pq_seeds S X kseed seed"
  shows "\<exists>s s' c'. serverAnswer H (ce_hpke ce) (se_canAccept se) (se_provider se) legacyS (se_neg se) (se_groups se) (se_random se)
      (se_hrrRandom se) (ClientHello (onWire (cl_hello c))) msg2 s0 = Next s \<and> negotiated s = (i, 0x11ec) \<and> length (ss_sharedKey s) = 64 \<and>
    handshake retry legacyC legacyS msg2 H ce se c0 s0 = Next (s', c') \<and> connected s' c' \<and> tc_serverName (cl_conn c') = ch_serverName (cl_hello c)"
proof -
  have o: "\<not> es_offered (tc_ech (cl_conn c0))" using new(1) by (simp add: new_client_def ech_start_def)
  obtain base data where b:
      "makeClientHello (ce_isIP ce) (ce_neg ce) (ce_groups ce) (ce_random ce) (ce_sessionId ce) None (ng_MinVersion (ce_neg ce)) =
        Ok (base, cl_keySharePrivate c)"
    and m: "ch_marshal (offerTickets (ce_cfg ce) base) = (cl_hello c, Ok data)"
    by (rule clientStart_plain [OF start off o]) (use that in blast)
  have hello: "cl_hello c = (offerTickets (ce_cfg ce) base)\<lparr>ch_raw := ch_raw (cl_hello c)\<rparr>" using fst_ch_marshal [of "offerTickets (ce_cfg ce) base"] m by simp
  have e: "ch_supportedVersions (cl_hello c) = ch_supportedVersions base" "clientShares (cl_hello c) = clientShares base"
    by (subst hello, simp add: clientShares_def)+
  obtain ks sk where k: "find (\<lambda>ks. ks_group ks = 0x11ec) (clientShares base) = Some ks"
      "newKeyShare (pq_groups (X25519MLKEM768 S X) rc G) 0x11ec = Ok (sk, ks_data ks)" "cl_keySharePrivate c 0x11ec = Some sk"
    using made_share [OF b _ g] v e(1) ops(1) by auto
  obtain ct ss where a: "agreeOnKey (pq_groups (X25519MLKEM768 S X) rs G') 0x11ec (ks_data ks) = Next (ct, ss)" "length ct = 1120" "length ss = 64"
      "private_opens [0x11ec \<mapsto> sk] \<lparr>ks_group = 0x11ec, ks_data = ct\<rparr> ss"
    by (rule pq_share [where rc = rc and rs = rs, OF k(2) pq(1-4)]) (rule that)
  then have "share_agrees (se_groups se) (cl_hello c) (cl_keySharePrivate c) 0x11ec ss"
    using k(1,3) by (simp add: share_agrees_def ops(2) e(2) private_opens_def)
  from plain_handshake [OF assms(1-10) this, of legacyS msg2 retry legacyC] a(3) show ?thesis by blast
qed

definition toy_pq_neg :: negConfig where
  "toy_pq_neg = toy_neg\<lparr>ng_MinVersion := 0x304, ng_CurvePreferences := [0x11ec, 29], ng_TLSFlagsSupported := []\<rparr>"

definition toy_pq_client :: "(bytes, bytes) clientEnv" where
  "toy_pq_client = \<lparr>ce_neg = toy_pq_neg, ce_cfg = toy_tlsConfig\<lparr>cfg_ECHEnabled := False\<rparr>, ce_hpke = toy_env, ce_configs = [], ce_isIP = (\<lambda>_. False),
     ce_groups = pq_groups (X25519MLKEM768 zero_sha3 toy_xdh) (\<lambda>n. Inr (replicate n 1)) toy_groups, ce_random = Ok (replicate 32 7),
     ce_sessionId = Ok (replicate 32 8), ce_outerGroups = toy_groups, ce_outerRandom = Err [], ce_outerSessionId = Err [],
     ce_rnd = (\<lambda>_. Err []), ce_grease = Err []\<rparr>"

definition toy_pq_server :: serverEnv where
  "toy_pq_server = \<lparr>se_neg = toy_pq_neg, se_cfg = toy_tlsConfig, se_canAccept = False, se_provider = (\<lambda>_ _. Err []),
     se_groups = pq_groups (X25519MLKEM768 zero_sha3 toy_xdh) (\<lambda>n. Inr (replicate n 2)) toy_groups, se_random = Ok (5 # replicate 31 0),
     se_hrrRandom = Err [], se_ticket = (\<lambda>_. Halt []), se_ageAdd = Err [], se_certs = [11, 0, 0, 0]\<rparr>"

definition toy_idle :: tlsConn where
  "toy_idle = (toy_conn False)\<lparr>tc_ech := ech_start\<rparr>"

definition toy_pq_hello :: "bytes \<Rightarrow> clientHelloMsg" where
  "toy_pq_hello ppk = emptyHello\<lparr>ch_vers := 0x303, ch_random := replicate 32 7, ch_sessionId := replicate 32 8,
     ch_cipherSuites := [0x1301, 0x1302, 0x1303], ch_compressionMethods := [0], ch_serverName := [101, 120],
     ch_ocspStapling := True, ch_supportedCurves := [0x11ec, 29], ch_supportedPoints := [0], ch_supportedSignatureAlgorithms := [0x0403],
     ch_secureRenegotiationSupported := True, ch_extendedMasterSecret := True, ch_alpnProtocols := [[104, 50]], ch_scts := True,
     ch_supportedVersions := [0x304], ch_keyShares := Some [\<lparr>ks_group = 0x11ec, ks_data = ppk\<rparr>],
     ch_delegatedCredentialSupported := True, ch_supportedSignatureAlgorithmsDC := supportedSignatureAlgorithmsDC\<rparr>"

lemma toy_pq_made:
  assumes "DeriveKeyPair (X25519MLKEM768 zero_sha3 toy_xdh) (replicate 64 1) = Ok (pk, sk)"
    and "pk_MarshalBinary (X25519MLKEM768 zero_sha3 toy_xdh) pk = Ok ppk"
  shows "makeClientHello (\<lambda>_. False) toy_pq_neg (ce_groups toy_pq_client) (Ok (replicate 32 7)) (Ok (replicate 32 8)) None 0x304 =
    Ok (toy_pq_hello ppk, [0x11ec \<mapsto> KemShare (Decapsulate (X25519MLKEM768 zero_sha3 toy_xdh) sk)])"
  using assms
  by (simp add: makeClientHello_def toy_pq_neg_def toy_neg_def toy_pq_client_def pq_groups_def generateKemKeyPair_def xmlkem_sizes offerTLS13_def
      supportedVersionsFromMin_def supportedVersions_def all_versions_def VersionTLS13_def VersionTLS12_def VersionTLS11_def VersionTLS10_def
      maxSupportedVersion_def Let_def curvePreferences_def newKeyShare_def curveIdToCirclScheme_def encodeFlags_def toy_pq_hello_def
      hostnameInSNI_def compressionNone_def opt_bytes_def defaultCipherSuitesTLS13_def cutZone_def emptyHello_def)

lemma toy_pq_fits: "length ppk = 1216 \<Longrightarrow> fresh_msg (ClientHello (toy_pq_hello ppk))"
  by (auto simp: toy_pq_hello_def emptyHello_def wf_hello_def fits_unfold optExt_def encExt_def encName_def encKeyShare_def encIdentity_def pskData_def
      scsvRenegotiation_def supportedSignatureAlgorithmsDC_def ch_encode_def encHello_def maxHandshake_def)

lemma toy_pq_start:
  assumes "DeriveKeyPair (X25519MLKEM768 zero_sha3 toy_xdh) (replicate 64 1) = Ok (pk, sk)"
    and "pk_MarshalBinary (X25519MLKEM768 zero_sha3 toy_xdh) pk = Ok ppk" and "length ppk = 1216"
  shows "\<exists>c. clientStart toy_pq_client (toy_client\<lparr>cl_conn := toy_idle, cl_suite := None\<rparr>) = Next c \<and>
    cl_hello c = (toy_pq_hello ppk)\<lparr>ch_raw := Some (ch_encode (toy_pq_hello ppk))\<rparr> \<and> dom (cl_keySharePrivate c) = {0x11ec}"
proof -
  have "fits_hello (toy_pq_hello ppk)" "ch_raw (toy_pq_hello ppk) = None" using toy_pq_fits [OF assms(3)] by (simp_all add: wf_hello_def)
  from ch_marshal_encode [OF this] toy_pq_made [OF assms(1,2)] show ?thesis
    by (simp add: clientStart_def echCanOffer_def echOfferOrGrease_def offerTickets_def toy_idle_def ech_start_def)
      (simp add: toy_pq_client_def toy_pq_neg_def toy_tlsConfig_def offerTickets_def)
qed

lemma toy_pq_seeds:
  assumes "DeriveKeyPair (X25519MLKEM768 zero_sha3 toy_xdh) (replicate 64 1) = Ok (pk, sk)"
    and "\<forall>seed. mlkem_noise_ok zero_sha3 (take 64 (xread (shake256 zero_sha3) (replicate 64 1) 0 96)) (fst pk) seed"
  shows "pq_seeds zero_sha3 toy_xdh (replicate 64 1) (replicate 32 2)"
proof -
  let ?s = "xread (shake256 zero_sha3) (replicate 32 2) 0 64"
  obtain ct ss where e: "mlkem_EncapsulateDeterministically zero_sha3 (fst pk) (take 32 ?s) = Ok (ct, ss)"
    using mlkem_encaps [OF xmlkem_keypair(1) [OF assms(1)], of "take 32 ?s"] by (auto simp: xread_def)
  have "length (drop 32 ?s) = 32" by (simp add: xread_def)
  with e have "EncapsulateDeterministically (X25519MLKEM768 zero_sha3 toy_xdh) pk (replicate 32 2) \<noteq> Err ''invalid public key''"
    by (simp add: X25519MLKEM768_def hybrid_scheme_def sch_EncapsulateDeterministically_def sch_EncapsulationSeedSize_def
        mlkem_scheme_def xScheme_def xs_EncapsulateDeterministically_def xs_DeriveKeyPair_def xs_X_def Let_def toy_xdh_def)
  with assms show ?thesis by (simp add: pq_seeds_def)
qed

theorem pq_handshake_completes_witness:
  "\<exists>s' c'. handshake (\<lambda>_. Halt []) (\<lambda>_ _. Halt []) (\<lambda>_ _. Halt []) HelloRequest toy_hashes toy_pq_client toy_pq_server
      (toy_client\<lparr>cl_conn := toy_idle, cl_suite := None\<rparr>) (toy_server\<lparr>ss_conn := toy_idle\<rparr>) = Next (s', c') \<and>
    connected s' c' \<and> tc_serverName (cl_conn c') = [101, 120]"
proof -
  let ?S = "X25519MLKEM768 zero_sha3 toy_xdh" and ?c0 = "toy_client\<lparr>cl_conn := toy_idle, cl_suite := None\<rparr>"
    and ?s0 = "toy_server\<lparr>ss_conn := toy_idle\<rparr>"
  obtain pk sk where k: "DeriveKeyPair ?S (replicate 64 1) = Ok (pk, sk)"
      "\<forall>seed. mlkem_noise_ok zero_sha3 (take 64 (xread (shake256 zero_sha3) (replicate 64 1) 0 96)) (fst pk) seed"
    using zero_xmlkem_key [of "replicate 64 1" toy_xdh] by auto
  obtain ppk where p: "pk_MarshalBinary ?S pk = Ok ppk" "length ppk = 1216" using xmlkem_public_roundtrip [OF k(1)] by blast
  obtain c where c: "clientStart toy_pq_client ?c0 = Next c" "cl_hello c = (toy_pq_hello ppk)\<lparr>ch_raw := Some (ch_encode (toy_pq_hello ppk))\<rparr>"
      "dom (cl_keySharePrivate c) = {0x11ec}"
    using toy_pq_start [OF k(1) p] by blast
  have seeds: "pq_seeds zero_sha3 toy_xdh (replicate 64 1) (replicate 32 2)"
    by (rule toy_pq_seeds [OF k])
  have new: "new_client ?c0" "new_server ?s0"
    by (simp_all add: new_client_def new_server_def toy_idle_def toy_client_def toy_server_def)
  have cfg: "keylog_ok (ce_cfg toy_pq_client)" "\<not> cfg_ECHEnabled (ce_cfg toy_pq_client)"
    by (simp_all add: toy_pq_client_def toy_tlsConfig_def keylog_ok_def)
  have v: "VersionTLS13 \<in> set (ch_supportedVersions (cl_hello c))" by (simp add: c(2) toy_pq_hello_def VersionTLS13_def)
  have raw: "(toy_pq_hello ppk)\<lparr>ch_raw := None\<rparr> = toy_pq_hello ppk" "onWire (toy_pq_hello ppk) = toy_pq_hello ppk"
    by (simp_all add: toy_pq_hello_def emptyHello_def onWire_def)
  have fit: "fresh_msg (ClientHello (onWire ((cl_hello c)\<lparr>ch_raw := None\<rparr>)))" using toy_pq_fits [OF p(2)] by (simp add: c(2) raw)
  have sv: "servable toy_pq_server (cl_hello c)"
    by (simp add: servable_def toy_pq_server_def toy_tlsConfig_def keylog_ok_def toy_pq_neg_def toy_neg_def c(2) toy_pq_hello_def supportedVersions_def
        all_versions_def VersionTLS13_def negotiateALPN_def helloRetryRequestRandom_def)
  have neg: "negotiate_spec (se_neg toy_pq_server) (cl_hello c) = Some (0x1301, 0x11ec)"
    by (simp add: negotiate_spec_def best_def c(2) toy_pq_server_def toy_pq_neg_def toy_neg_def toy_pq_hello_def curvePreferences_def preferenceList_def
        defaultCipherSuitesTLS13_def cipherSuiteByID_def cipherSuiteTLS13ByID_def cipherSuites_def cipherSuitesTLS13_def aesgcmCiphers_def)
  have ops: "ce_groups toy_pq_client = pq_groups ?S (\<lambda>n. Inr (replicate n 1)) toy_groups"
      "se_groups toy_pq_server = pq_groups ?S (\<lambda>n. Inr (replicate n 2)) toy_groups"
    by (simp_all add: toy_pq_client_def toy_pq_server_def)
  have g: "0x11ec \<in> dom (cl_keySharePrivate c)" by (simp add: c(3))
  from pq_handshake_completes [where rc = "\<lambda>n. Inr (replicate n 1)" and rs = "\<lambda>n. Inr (replicate n 2)",
      OF toy_hashes_sized cfg(1) c(1) new cfg(2) v fit sv neg g ops refl refl toy_xdh_commutes seeds,
      of "\<lambda>_ _. Halt []" HelloRequest "\<lambda>_. Halt []" "\<lambda>_ _. Halt []"]
  have "\<exists>s' c'. handshake (\<lambda>_. Halt []) (\<lambda>_ _. Halt []) (\<lambda>_ _. Halt []) HelloRequest toy_hashes toy_pq_client toy_pq_server ?c0 ?s0 =
      Next (s', c') \<and> connected s' c' \<and> tc_serverName (cl_conn c') = ch_serverName (cl_hello c)" by blast
  moreover have "ch_serverName (cl_hello c) = [101, 120]" by (simp add: c(2) toy_pq_hello_def)
  ultimately show ?thesis by simp
qed

end
