(* ===== verification/ECH_Handshake.thy ===== *)
theory ECH_Handshake
  imports TLS13_Connect
begin

text \<open>
  Whole handshakes with ECH: the client's offer, the decryption of the inner hello, the negotiation on it and the confirmation, composed
  from the theories of each part.
\<close>

section \<open>Versions with ECH\<close>

lemma supportedVersions_filter:
  obtains P where "supportedVersions cfg isClient = filter P all_versions"
  unfolding supportedVersions_def by blast

lemma filter_versions:
  "filter (\<lambda>v. v \<ge> VersionTLS13) (filter P all_versions) = (if P VersionTLS13 then [VersionTLS13] else [])"
  "VersionTLS13 \<in> set (filter P all_versions) \<longleftrightarrow> P VersionTLS13"
  "P VersionTLS13 \<Longrightarrow> \<exists>vs. filter P all_versions = VersionTLS13 # vs"
proof -
  have o: "\<not> VersionTLS13 \<le> VersionTLS12" "\<not> VersionTLS13 \<le> VersionTLS11" "\<not> VersionTLS13 \<le> VersionTLS10"
    by (simp_all add: VersionTLS13_def VersionTLS12_def VersionTLS11_def VersionTLS10_def)
  show "filter (\<lambda>v. v \<ge> VersionTLS13) (filter P all_versions) = (if P VersionTLS13 then [VersionTLS13] else [])"
    "VersionTLS13 \<in> set (filter P all_versions) \<longleftrightarrow> P VersionTLS13" "P VersionTLS13 \<Longrightarrow> \<exists>vs. filter P all_versions = VersionTLS13 # vs"
    using o by (auto simp: all_versions_def)
qed

lemma versions_from_13:
  assumes "supportedVersionsFromMin cfg True VersionTLS13 \<noteq> []"
  shows "supportedVersionsFromMin cfg True VersionTLS13 = [VersionTLS13]" and "VersionTLS13 \<in> set (supportedVersions cfg True)"
    and "maxSupportedVersion cfg True = VersionTLS13"
proof -
  obtain P where P: "supportedVersions cfg True = filter P all_versions" by (rule supportedVersions_filter)
  have "P VersionTLS13" using assms unfolding supportedVersionsFromMin_def P filter_versions(1) by (simp split: if_splits)
  with filter_versions(3) [of P, OF this]
  show "supportedVersionsFromMin cfg True VersionTLS13 = [VersionTLS13]" "VersionTLS13 \<in> set (supportedVersions cfg True)"
    "maxSupportedVersion cfg True = VersionTLS13"
    by (auto simp only: supportedVersionsFromMin_def maxSupportedVersion_def P filter_versions(1,2) if_True list.case)
qed

lemma supportedVersionsFromMin_13:
  assumes "VersionTLS13 \<in> set (supportedVersions cfg True)"
  shows "VersionTLS13 \<in> set (supportedVersionsFromMin cfg True (ng_MinVersion cfg))"
proof -
  have "ng_MinVersion cfg \<le> VersionTLS13"
    using assms unfolding supportedVersions_def filter_versions(2) by (cases "ng_MinVersion cfg = 0") (simp_all add: not_less)
  with assms show ?thesis by (simp add: supportedVersionsFromMin_def)
qed

lemma offerTLS13_versions: "offerTLS13 cfg G h = Ok (hello, secret) \<Longrightarrow> ch_supportedVersions hello = ch_supportedVersions h"
  by (auto simp: offerTLS13_def Let_def bind_res_eq_Ok split: if_splits)

lemma made_versions:
  assumes "makeClientHello isIP cfg G random sessionId clientFinished minVersion = Ok (hello, secret)"
  shows "ch_supportedVersions hello = supportedVersionsFromMin cfg True minVersion \<and> ch_supportedVersions hello \<noteq> []"
proof -
  obtain h where "offerTLS13 cfg G h = Ok (hello, secret) \<or> hello = h" "ch_supportedVersions h = supportedVersionsFromMin cfg True minVersion"
      "supportedVersionsFromMin cfg True minVersion \<noteq> []"
    using assms by (fastforce simp: makeClientHello_def Let_def bind_res_eq_Ok split: if_splits)
  then show ?thesis using offerTLS13_versions by auto
qed

lemma readClientHello_ech:
  assumes "accepts (echAcceptOrReject E True p (tc_ech (ss_conn s)) m False) opener cid inner"
    and "ch_supportedVersions inner = [VersionTLS13]" and "VersionTLS13 \<in> set (supportedVersions cfg False)"
  shows "readClientHello E True p cfg (ClientHello m) s =
    Next (s\<lparr>ss_conn := (ss_conn s)\<lparr>tc_ech := er_state (echAcceptOrReject E True p (tc_ech (ss_conn s)) m False)\<rparr>,
      ss_clientHello := inner\<lparr>ch_raw := Some (ch_encode inner)\<rparr>\<rparr>, VersionTLS13)"
  using assms mutualVersion_13 [OF assms(3), of "[VersionTLS13]"] by (simp add: readClientHello_def accepts_def)

lemma offerTickets_ECH: "cfg_ECHEnabled cfg \<Longrightarrow> offerTickets cfg = id"
  by (rule ext) (simp add: offerTickets_def)

text \<open>The start of a client that offers ECH.\<close>

lemma clientStart_ech:
  assumes base: "makeClientHello (ce_isIP ce) (ce_neg ce) (ce_groups ce) (ce_random ce) (ce_sessionId ce) None VersionTLS13 = Ok (base, secret)"
    and fresh: "makeClientHello (ce_isIP ce) (ce_neg ce) (ce_outerGroups ce) (ce_outerRandom ce) (ce_outerSessionId ce) None (ng_MinVersion (ce_neg ce)) =
      Ok (fresh, secret')"
    and on: "cfg_ECHEnabled (ce_cfg ce)" "echSelectConfig (ce_configs ce) \<noteq> None" "maxSupportedVersion (ce_neg ce) True = VersionTLS13"
    and o: "echOfferOrGrease (ce_hpke ce) True VersionTLS13 (ce_configs ce) (ce_rnd ce) (ce_grease ce) (Ok fresh) (hostnameInSNI (ce_isIP ce))
      (tc_ech (cl_conn c0)) base = Ok (st, outer, inner)" "es_offered st" and m: "ch_marshal outer = (hello, Ok data)"
  shows "clientStart ce c0 = Next (c0\<lparr>cl_hello := hello, cl_helloInner := inner, cl_keySharePrivate := secret, cl_session := None,
    cl_earlySecret := None, cl_conn := send (SentHandshake data) ((cl_conn c0)\<lparr>tc_ech := st\<rparr>)\<rparr>)"
  using assms by (simp add: clientStart_def echCanOffer_def offerTickets_ECH option.map_id)

lemma offered_inner:
  assumes "makeClientHello isIP cfg G random sessionId None VersionTLS13 = Ok (base, secret)"
  shows "ch_supportedVersions base = [VersionTLS13]" "tls13_only base" "VersionTLS13 \<in> set (supportedVersions cfg True)"
    "maxSupportedVersion cfg True = VersionTLS13" "set (ch_cipherSuites base) = {0x1301, 0x1302, 0x1303}" "ch_ech base = []" "ch_raw base = None"
    "list_all (\<lambda>p. length p < 256) (ch_alpnProtocols base)" "ch_quicTransportParameters base = None"
    "ch_tlsFlags base = [] \<or> last (ch_tlsFlags base) \<noteq> 0" "\<exists>h. startServerHello cfgS (Ok r) base = Next h"
proof -
  note v = versions_from_13 [OF made_versions [OF assms, THEN conjunct2, unfolded made_versions [OF assms, THEN conjunct1]]]
  have b: "ch_supportedVersions base = [VersionTLS13]" using made_versions [OF assms] v(1) by simp
  then show "tls13_only base" by (simp add: tls13_only_def)
  have "VersionTLS13 \<in> set (ch_supportedVersions base)" by (simp add: b)
  from makeClientHello_tls13 [OF assms this] b v
  show "ch_supportedVersions base = [VersionTLS13]" "VersionTLS13 \<in> set (supportedVersions cfg True)"
    "maxSupportedVersion cfg True = VersionTLS13" "set (ch_cipherSuites base) = {0x1301, 0x1302, 0x1303}" "ch_ech base = []" "ch_raw base = None"
    "list_all (\<lambda>p. length p < 256) (ch_alpnProtocols base)" "ch_quicTransportParameters base = None"
    "ch_tlsFlags base = [] \<or> last (ch_tlsFlags base) \<noteq> 0" "\<exists>h. startServerHello cfgS (Ok r) base = Next h"
    by (metis length_Cons list.size(3) One_nat_def)+
qed

lemma outer_suites:
  assumes "makeClientHello isIP cfg G random sessionId None (ng_MinVersion cfg) = Ok (fresh, secret)"
    and "VersionTLS13 \<in> set (supportedVersions cfg True)"
  shows "{0x1301, 0x1302, 0x1303} \<subseteq> set (ch_cipherSuites fresh)"
proof -
  have "VersionTLS13 \<in> set (ch_supportedVersions fresh)"
    using made_versions [OF assms(1)] supportedVersionsFromMin_13 [OF assms(2)] by simp
  then show ?thesis by (rule makeClientHello_tls13 [OF assms(1)])
qed

text \<open>The hello that the server parses and its outcome.\<close>

lemma matching_ech:
  assumes acc: "accepts r opener cid (innerOf base)" and w: "wf_hello (innerOf base)"
    and c: "cl_suite c = None" "\<not> cl_usingPSK c" "es_offered (tc_ech (cl_conn c))" "cl_helloInner c = Some (innerOf base\<lparr>ch_raw := None\<rparr>)"
      "snd (ch_marshal (cl_hello c)) = Ok outer" "ch_sessionId (cl_hello c) = ch_sessionId base"
      "set (ch_cipherSuites base) \<subseteq> set (ch_cipherSuites (cl_hello c))"
    and b: "list_all (\<lambda>p. length p < 256) (ch_alpnProtocols base)" and s: "ss_earlySecret s = None"
  shows "matching c outer (ch_encode (innerOf base)) (s\<lparr>ss_conn := (ss_conn s)\<lparr>tc_ech := er_state r\<rparr>,
    ss_clientHello := (innerOf base)\<lparr>ch_raw := Some (ch_encode (innerOf base))\<rparr>\<rparr>)"
proof -
  have "fits_hello ((innerOf base)\<lparr>ch_raw := None\<rparr>)" using w by (simp add: wf_hello_def)
  from ch_marshal_encode [OF this] have "snd (ch_marshal ((innerOf base)\<lparr>ch_raw := None\<rparr>)) = Ok (ch_encode (innerOf base))" by simp
  moreover have "length (ch_sessionId base) < 256" using w by (simp add: wf_hello_def fits_hello_def innerOf_def)
  ultimately show ?thesis
    using acc c b s by (simp add: matching_def sent_hellos_def Let_def accepts_def ch_marshal_def echIsInner_def innerOf_def)
qed

text \<open>
  An offer that can be made and accepted: the selected configuration is one of the server's key set, the KEM meets its contract for this key
  and the client's randomness, and the two hellos fit the wire.
\<close>

definition ech_ready :: "('pk, 'sk) clientEnv \<Rightarrow> ('pk, 'sk) EXP_ECHKey list \<Rightarrow> ('pk, 'sk) EXP_ECHKeySet \<Rightarrow> ('pk, 'sk) EXP_ECHKey \<Rightarrow> clientHelloMsg \<Rightarrow> clientHelloMsg \<Rightarrow> bool" where
  "ech_ready ce keys ks key base fresh \<longleftrightarrow>
     (let E = ce_hpke ce; cfg = key_config key; kem = env_kem E (kemId (ec_contents cfg)) in
      cfg_ECHEnabled (ce_cfg ce) \<and> echSelectConfig (ce_configs ce) = Some cfg \<and>
      env_ok E \<and> (\<forall>a k A. env_aead E a k = Ok A \<longrightarrow> aead_overhead A) \<and>
      EXP_NewECHKeySet keys = Ok ks \<and> key \<in> set keys \<and> (\<forall>k \<in> set keys. config_ok E (key_config k)) \<and>
      (\<exists>m seed. kem_contract kem m \<and> m (ec_pk cfg) (key_sk key) seed \<and> ce_rnd ce (EncapsulationSeedSize kem) = Ok seed) \<and>
      CiphertextSize kem < 65536 \<and>
      (\<exists>enc sealer. setupSealer E (ce_rnd ce) cfg = Ok (enc, sealer) \<and>
         (let hello = freshOuter base (hostnameInSNI (ce_isIP ce) (rawPublicName (ec_contents cfg))) fresh in
          hellos_fit hello (innerOf base) enc \<and>
          length (ch_encode ((outerOf hello (innerOf base))\<lparr>ch_ech := []\<rparr>)) + length (ch_encode (innerOf base)) + length enc + 60 \<le> 4 + maxHandshake)))"

lemma ech_client_starts:
  fixes ce :: "('pk, 'sk) clientEnv"
  assumes base: "makeClientHello (ce_isIP ce) (ce_neg ce) (ce_groups ce) (ce_random ce) (ce_sessionId ce) None VersionTLS13 = Ok (base, secret)"
    and fresh: "makeClientHello (ce_isIP ce) (ce_neg ce) (ce_outerGroups ce) (ce_outerRandom ce) (ce_outerSessionId ce) None (ng_MinVersion (ce_neg ce)) =
      Ok (fresh, secret')"
    and ready: "ech_ready ce keys ks key base fresh" and idle: "tc_ech (cl_conn c0) = ech_start"
  obtains c st bs msg opener where "clientStart ce c0 = Next c" and "newData (cl_conn c0) (cl_conn c) = [bs]"
    and "deliver bs = Next (ClientHello msg)" and "snd (ch_marshal msg) = Ok bs"
    and "ch_serverName msg = hostnameInSNI (ce_isIP ce) (rawPublicName (ec_contents (key_config key)))"
    and "ch_sessionId msg = ch_sessionId base" and "set (ch_cipherSuites base) \<subseteq> set (ch_cipherSuites msg)"
    and "accepts (echAcceptOrReject (ce_hpke ce) True (GetDecryptionContext (ce_hpke ce) ks) ech_start msg False) opener
      (configId (ec_contents (key_config key))) (innerOf base)" and "es_offered st"
    and "c = c0\<lparr>cl_hello := msg, cl_helloInner := Some (innerOf base\<lparr>ch_raw := None\<rparr>), cl_keySharePrivate := secret, cl_session := None,
      cl_earlySecret := None, cl_conn := send (SentHandshake bs) ((cl_conn c0)\<lparr>tc_ech := st\<rparr>)\<rparr>"
proof -
  let ?sni = "hostnameInSNI (ce_isIP ce)" and ?p = "GetDecryptionContext (ce_hpke ce) ks" and ?name = "rawPublicName (ec_contents (key_config key))"
  note b = offered_inner [OF base]
  obtain m seed enc sealer where on: "cfg_ECHEnabled (ce_cfg ce)" "echSelectConfig (ce_configs ce) = Some (key_config key)"
    and E: "env_ok (ce_hpke ce)" "\<forall>a k A. env_aead (ce_hpke ce) a k = Ok A \<longrightarrow> aead_overhead A"
    and ks: "EXP_NewECHKeySet keys = Ok ks" "key \<in> set keys" "\<forall>k \<in> set keys. config_ok (ce_hpke ce) (key_config k)"
    and K: "kem_contract (env_kem (ce_hpke ce) (kemId (ec_contents (key_config key)))) m" "m (ec_pk (key_config key)) (key_sk key) seed"
      "ce_rnd ce (EncapsulationSeedSize (env_kem (ce_hpke ce) (kemId (ec_contents (key_config key))))) = Ok seed"
      "CiphertextSize (env_kem (ce_hpke ce) (kemId (ec_contents (key_config key)))) < 65536"
    and seal: "setupSealer (ce_hpke ce) (ce_rnd ce) (key_config key) = Ok (enc, sealer)"
    and fit: "hellos_fit (freshOuter base (?sni ?name) fresh) (innerOf base) enc"
      "length (ch_encode ((outerOf (freshOuter base (?sni ?name) fresh) (innerOf base))\<lparr>ch_ech := []\<rparr>)) +
         length (ch_encode (innerOf base)) + length enc + 60 \<le> 4 + maxHandshake"
    using ready unfolding ech_ready_def Let_def by blast
  have none: "es_opener ech_start = None" "False \<longrightarrow> \<not> es_offered ech_start \<and> es_greased ech_start" by (simp_all add: ech_start_def)
  obtain st opener outer bs msg where o:
    "echOfferOrGrease (ce_hpke ce) True VersionTLS13 (ce_configs ce) (ce_rnd ce) (ce_grease ce) (Ok fresh) ?sni ech_start base =
       Ok (st, outer, Some (innerOf base\<lparr>ch_raw := None\<rparr>))" "es_offered st"
    "outer = (outerOf (freshOuter base (?sni ?name) fresh) (innerOf base))\<lparr>ch_ech := ch_ech outer\<rparr>" "wf_hello outer"
    "length (ch_ech outer) \<le> length (ch_encode (innerOf base)) + length enc + 54"
    "snd (ch_marshal outer) = Ok bs" "ch_unmarshal bs = Some msg"
    "accepts (echAcceptOrReject (ce_hpke ce) True ?p ech_start msg False) opener (configId (ec_contents (key_config key))) (innerOf base)"
    by (rule offer_accepted [where sni = ?sni, OF E ks K seal on(2) order_refl b(2) fit(1) none]) (rule that)
  have outer: "ch_raw outer = None" "ch_sessionId outer = ch_sessionId base" "ch_cipherSuites outer = ch_cipherSuites fresh" "ch_serverName outer = ?sni ?name"
    by (subst o(3), simp add: outerOf_def freshOuter_def)+
  have enc: "ch_marshal outer = (outer\<lparr>ch_raw := Some (ch_encode outer)\<rparr>, Ok (ch_encode outer))"
    by (rule ch_marshal_encode) (use o(4) outer(1) in \<open>simp_all add: wf_hello_def\<close>)
  then have msg: "bs = ch_encode outer" "msg = outer\<lparr>ch_raw := Some (ch_encode outer)\<rparr>"
    using o(6,7) ch_unmarshal_encode [OF o(4)] by simp_all
  define c where "c = c0\<lparr>cl_hello := msg, cl_helloInner := Some (innerOf base\<lparr>ch_raw := None\<rparr>), cl_keySharePrivate := secret, cl_session := None,
    cl_earlySecret := None, cl_conn := send (SentHandshake bs) ((cl_conn c0)\<lparr>tc_ech := st\<rparr>)\<rparr>"
  have sel: "echSelectConfig (ce_configs ce) \<noteq> None" using on(2) by simp
  have start: "clientStart ce c0 = Next c" "newData (cl_conn c0) (cl_conn c) = [bs]"
    using clientStart_ech [OF base fresh on(1) sel b(4) o(1) [folded idle] o(2) enc]
    by (simp_all add: c_def msg) (simp add: newData_def send_def)
  have "length (ch_encode outer) \<le> length (ch_encode ((outerOf (freshOuter base (?sni ?name) fresh) (innerOf base))\<lparr>ch_ech := []\<rparr>)) + length (ch_ech outer) + 6"
    by (subst o(3), rule length_encode_ech)
  with fit(2) o(5) have len: "length (ch_encode outer) \<le> 4 + maxHandshake" by linarith
  have d: "deliver bs = Next (ClientHello msg)"
    by (rule deliver_fresh [of "ClientHello outer"]) (use o(4) outer(1) enc msg len in \<open>auto\<close>)
  show thesis
  proof (rule that [OF start d _ _ _ _ o(8,2) c_def])
    show "set (ch_cipherSuites base) \<subseteq> set (ch_cipherSuites msg)"
      using outer_suites [OF fresh b(3)] by (simp add: b(5) msg(2) outer(3))
  qed (simp_all add: msg outer ch_marshal_def)
qed

text \<open>
  C1: A handshake with ECH runs from the client's configuration to the end. The client selects a configuration of the server's key set, makes
  the inner and the outer hello with two calls of \<open>makeClientHello\<close> and seals the first into the second; both fit the wire. Then the hello
  that is sent shows the public name only; the server decrypts it, negotiates on the inner hello, and confirms; the client takes the
  confirmation as acceptance, all further messages are accepted, and the sides end with the same keys, exporter and protocol. The client
  records the name of the inner hello.
\<close>

theorem ech_handshake_completes:
  fixes ce :: "('pk, 'sk) clientEnv"
  assumes H: "hashes_sized H" "keylog_ok (ce_cfg ce)" and new: "new_client c0" "new_server s0"
    and base: "makeClientHello (ce_isIP ce) (ce_neg ce) (ce_groups ce) (ce_random ce) (ce_sessionId ce) None VersionTLS13 = Ok (base, secret)"
    and fresh: "makeClientHello (ce_isIP ce) (ce_neg ce) (ce_outerGroups ce) (ce_outerRandom ce) (ce_outerSessionId ce) None (ng_MinVersion (ce_neg ce)) =
      Ok (fresh, secret')"
    and ready: "ech_ready ce keys ks key base fresh"
    and server: "se_canAccept se" "se_provider se = GetDecryptionContext (ce_hpke ce) ks" "servable se base"
    and g: "negotiate_spec (se_neg se) base = Some (i, g)" "share_agrees (se_groups se) base secret g shared"
  shows "\<exists>c d msg s s' c'. clientStart ce c0 = Next c \<and> newData (cl_conn c0) (cl_conn c) = [d] \<and> deliver d = Next (ClientHello msg) \<and>
    ch_serverName msg = hostnameInSNI (ce_isIP ce) (rawPublicName (ec_contents (key_config key))) \<and>
    serverAnswer H (ce_hpke ce) (se_canAccept se) (se_provider se) legacyS (se_neg se) (se_groups se) (se_random se) (se_hrrRandom se)
      (ClientHello msg) msg2 s0 = Next s \<and> negotiated s = (i, g) \<and> ss_sharedKey s = shared \<and>
    handshake retry legacyC legacyS msg2 H ce se c0 s0 = Next (s', c') \<and> connected s' c' \<and> es_accepted (tc_ech (cl_conn c')) \<and>
    tc_serverName (cl_conn c') = ch_serverName base"
proof -
  let ?p = "GetDecryptionContext (ce_hpke ce) ks" and ?inner = "(innerOf base)\<lparr>ch_raw := Some (ch_encode (innerOf base))\<rparr>"
  note b = offered_inner [OF base]
  have idle: "tc_ech (cl_conn c0) = ech_start" "tc_ech (ss_conn s0) = ech_start" "ss_tlsFlags s0 = []" "ss_earlySecret s0 = None"
      "cl_suite c0 = None" "\<not> cl_usingPSK c0"
    using new by (simp_all add: new_client_def new_server_def)
  obtain c st bs msg opener where start: "clientStart ce c0 = Next c" "newData (cl_conn c0) (cl_conn c) = [bs]"
    and d: "deliver bs = Next (ClientHello msg)" and m: "snd (ch_marshal msg) = Ok bs"
    and name: "ch_serverName msg = hostnameInSNI (ce_isIP ce) (rawPublicName (ec_contents (key_config key)))"
    and f: "ch_sessionId msg = ch_sessionId base" "set (ch_cipherSuites base) \<subseteq> set (ch_cipherSuites msg)"
    and acc: "accepts (echAcceptOrReject (ce_hpke ce) True ?p ech_start msg False) opener (configId (ec_contents (key_config key))) (innerOf base)"
    and st: "es_offered st"
    and c: "c = c0\<lparr>cl_hello := msg, cl_helloInner := Some (innerOf base\<lparr>ch_raw := None\<rparr>), cl_keySharePrivate := secret, cl_session := None,
      cl_earlySecret := None, cl_conn := send (SentHandshake bs) ((cl_conn c0)\<lparr>tc_ech := st\<rparr>)\<rparr>"
    by (rule ech_client_starts [OF base fresh ready idle(1)]) (rule that)
  have w: "wf_hello (innerOf base)" using ready by (auto simp: ech_ready_def Let_def hellos_fit_def)
  let ?s1 = "s0\<lparr>ss_conn := (ss_conn s0)\<lparr>tc_ech := er_state (echAcceptOrReject (ce_hpke ce) True ?p ech_start msg False)\<rparr>, ss_clientHello := ?inner\<rparr>"
  have read: "readClientHello (ce_hpke ce) (se_canAccept se) (se_provider se) (se_neg se) (ClientHello msg) s0 = Next (?s1, VersionTLS13)"
    using readClientHello_ech [where s = s0, unfolded idle(2), OF acc, of "se_neg se"] server b(1) by (simp add: innerOf_def servable_def)
  have mt: "matching c bs (ch_encode (innerOf base)) ?s1"
    by (rule matching_ech [OF acc w]) (use idle f m b(8) st in \<open>simp_all add: c send_def\<close>)
  have "\<exists>h. startServerHello cfg (Ok r) ?inner = Next h" for cfg r
    using b(11) [of cfg r] by (subst startServerHello_cong [of _ base]) (simp_all add: innerOf_def)
  moreover have "servable se ?inner" "share_agrees (se_groups se) ?inner (cl_keySharePrivate c) g shared" "negotiate_spec (se_neg se) ?inner = Some (i, g)"
    using server(3) g by (simp_all add: servable_def share_agrees_def innerOf_def clientShares_def negotiate_spec_def preferenceList_def c)
  moreover have "ch_tlsFlags ?inner = [] \<or> last (ch_tlsFlags ?inner) \<noteq> 0" "ch_quicTransportParameters ?inner = None" "ch_serverName ?inner = ch_serverName base"
    using b(9,10) by (simp_all add: innerOf_def)
  moreover have "es_offered (tc_ech (cl_conn c))" using st by (simp add: c send_def)
  ultimately have "\<exists>s s' c'. serverAnswer H (ce_hpke ce) (se_canAccept se) (se_provider se) legacyS (se_neg se) (se_groups se) (se_random se)
      (se_hrrRandom se) (ClientHello msg) msg2 s0 = Next s \<and> negotiated s = (i, g) \<and> ss_sharedKey s = shared \<and>
    handshake retry legacyC legacyS msg2 H ce se c0 s0 = Next (s', c') \<and> connected s' c' \<and> es_accepted (tc_ech (cl_conn c')) \<and>
    tc_serverName (cl_conn c') = ch_serverName base"
    using handshake_answered [where ch = ?inner, OF H start d read mt _ _ _ _ b(3)] idle(3) by simp
  with start d name show ?thesis by blast
qed

definition toy_ech_neg :: negConfig where
  "toy_ech_neg = toy_neg\<lparr>ng_MinVersion := 0x304, ng_TLSFlagsSupported := []\<rparr>"

definition toy_ech_client :: "(bytes, bytes) clientEnv" where
  "toy_ech_client = \<lparr>ce_neg = toy_ech_neg, ce_cfg = toy_tlsConfig, ce_hpke = toy_env, ce_configs = [toy_config], ce_isIP = (\<lambda>_. False),
     ce_groups = toy_groups, ce_random = Ok (replicate 32 7), ce_sessionId = Ok (replicate 32 8), ce_outerGroups = toy_groups,
     ce_outerRandom = Ok (replicate 32 6), ce_outerSessionId = Ok (replicate 32 9), ce_rnd = (\<lambda>n. Ok (replicate n 5)), ce_grease = Err []\<rparr>"

definition toy_ech_server :: "(bytes, bytes) EXP_ECHKeySet \<Rightarrow> serverEnv" where
  "toy_ech_server ks = \<lparr>se_neg = toy_ech_neg, se_cfg = toy_tlsConfig, se_canAccept = True, se_provider = GetDecryptionContext toy_env ks,
     se_groups = toy_groups, se_random = Ok (5 # replicate 31 0), se_hrrRandom = Err [], se_ticket = (\<lambda>_. Halt []), se_ageAdd = Err [],
     se_certs = [11, 0, 0, 0]\<rparr>"

definition toy_ech_hello :: "byte \<Rightarrow> byte \<Rightarrow> clientHelloMsg" where
  "toy_ech_hello r sid = emptyHello\<lparr>ch_vers := 0x303, ch_random := replicate 32 r, ch_sessionId := replicate 32 sid,
     ch_cipherSuites := [0x1301, 0x1302, 0x1303], ch_compressionMethods := [0], ch_serverName := [101, 120],
     ch_ocspStapling := True, ch_supportedCurves := [29, 23, 24, 25], ch_supportedPoints := [0], ch_supportedSignatureAlgorithms := [0x0403],
     ch_secureRenegotiationSupported := True, ch_extendedMasterSecret := True, ch_alpnProtocols := [[104, 50]], ch_scts := True,
     ch_supportedVersions := [0x304], ch_keyShares := Some [\<lparr>ks_group = 29, ks_data = [9, 9]\<rparr>],
     ch_delegatedCredentialSupported := True, ch_supportedSignatureAlgorithmsDC := supportedSignatureAlgorithmsDC\<rparr>"

lemma toy_ech_made:
  "makeClientHello (\<lambda>_. False) toy_ech_neg toy_groups (Ok (replicate 32 r)) (Ok (replicate 32 sid)) None 0x304 =
    Ok (toy_ech_hello r sid, [29 \<mapsto> EcdhShare (\<lambda>peer. if peer = [] then None else Some [4, 2])])"
  by (simp add: makeClientHello_def toy_ech_neg_def toy_neg_def toy_groups_def offerTLS13_def
      supportedVersionsFromMin_def supportedVersions_def all_versions_def VersionTLS13_def VersionTLS12_def VersionTLS11_def VersionTLS10_def
      maxSupportedVersion_def Let_def curvePreferences_def defaultCurvePreferences_def newKeyShare_def curveIdToCirclScheme_def curveForCurveID_def
      encodeFlags_def toy_ech_hello_def hostnameInSNI_def compressionNone_def opt_bytes_def defaultCipherSuitesTLS13_def cutZone_def emptyHello_def)

lemma toy_ech_fits:
  assumes "length enc = 32"
  defines "hello \<equiv> freshOuter (toy_ech_hello 7 8) (ascii ''a.example'') (toy_ech_hello 6 9)" and "inner \<equiv> innerOf (toy_ech_hello 7 8)"
  shows "hellos_fit hello inner enc" and "length (ch_encode ((outerOf hello inner)\<lparr>ch_ech := []\<rparr>)) + length (ch_encode inner) + length enc + 60 \<le> 4 + maxHandshake"
  using assms(1) by (simp_all add: hello_def inner_def hellos_fit_def freshOuter_def innerOf_def outerOf_def otherExts_def toy_ech_hello_def emptyHello_def wf_hello_def
      fits_unfold optExt_def encExt_def encName_def encKeyShare_def encIdentity_def pskData_def scsvRenegotiation_def ascii_def ch_encode_def encHello_def
      supportedSignatureAlgorithmsDC_def maxHandshake_def)

lemma toy_ech_ready:
  assumes "EXP_NewECHKeySet [toy_key] = Ok ks"
  shows "ech_ready toy_ech_client [toy_key] ks toy_key (toy_ech_hello 7 8) (toy_ech_hello 6 9)"
proof -
  let ?rnd = "\<lambda>n. Ok (replicate n 5 :: bytes)"
  obtain enc c where s: "setupSealer toy_env ?rnd toy_config = Ok (enc, c)" "length enc = 32" using toy_setupSealer by blast
  have f: "key_config toy_key = toy_config" "ec_pk toy_config = replicate 32 7" "key_sk toy_key = replicate 32 7"
      "rawPublicName (ec_contents toy_config) = ascii ''a.example''"
    by (simp_all add: toy_key_def toy_config_def toy_contents_def)
  have sel: "echSelectConfig [toy_config] = Some toy_config"
    using toy_selectSuite by (simp add: echSelectConfig_def toy_config_def)
  have n: "hostnameInSNI (\<lambda>_. False) (ascii ''a.example'') = ascii ''a.example''" by (simp add: hostnameInSNI_def ascii_def)
  have K: "kem_contract (env_kem toy_env (kemId (ec_contents toy_config))) toy_m"
      "toy_m (ec_pk toy_config) (key_sk toy_key) (replicate 32 5)"
      "?rnd (EncapsulationSeedSize (env_kem toy_env (kemId (ec_contents toy_config)))) = Ok (replicate 32 5)"
      "CiphertextSize (env_kem toy_env (kemId (ec_contents toy_config))) < 65536"
    by (simp_all add: f toy_kem)
  have "\<exists>m seed. kem_contract (env_kem toy_env (kemId (ec_contents toy_config))) m \<and> m (ec_pk toy_config) (key_sk toy_key) seed \<and>
      ?rnd (EncapsulationSeedSize (env_kem toy_env (kemId (ec_contents toy_config)))) = Ok seed"
    using K(1-3) by blast
  then show ?thesis
    using assms s sel toy_env_ok toy_overhead toy_config_ok K(4) toy_ech_fits [OF s(2)]
    by (simp add: ech_ready_def toy_ech_client_def f n toy_tlsConfig_def Let_def)
qed

theorem ech_handshake_completes_witness:
  "\<exists>ks s' c'. EXP_NewECHKeySet [toy_key] = Ok ks \<and>
    handshake (\<lambda>_. Halt []) (\<lambda>_ _. Halt []) (\<lambda>_ _. Halt []) HelloRequest toy_hashes toy_ech_client (toy_ech_server ks)
      (toy_client\<lparr>cl_conn := toy_idle, cl_suite := None\<rparr>) (toy_server\<lparr>ss_conn := toy_idle\<rparr>) = Next (s', c') \<and>
    connected s' c' \<and> es_accepted (tc_ech (cl_conn c')) \<and> tc_serverName (cl_conn c') = [101, 120]"
proof -
  let ?c0 = "toy_client\<lparr>cl_conn := toy_idle, cl_suite := None\<rparr>" and ?s0 = "toy_server\<lparr>ss_conn := toy_idle\<rparr>" and ?ce = toy_ech_client
  obtain ks where ks: "EXP_NewECHKeySet [toy_key] = Ok ks" using toy_keyset by blast
  have new: "new_client ?c0" "new_server ?s0"
    by (simp_all add: new_client_def new_server_def toy_idle_def toy_client_def toy_server_def)
  have k: "keylog_ok (ce_cfg ?ce)" by (simp add: toy_ech_client_def toy_tlsConfig_def keylog_ok_def)
  have mk: "makeClientHello (ce_isIP ?ce) (ce_neg ?ce) (ce_groups ?ce) (ce_random ?ce) (ce_sessionId ?ce) None VersionTLS13 =
      Ok (toy_ech_hello 7 8, [29 \<mapsto> EcdhShare (\<lambda>peer. if peer = [] then None else Some [4, 2])])"
    "makeClientHello (ce_isIP ?ce) (ce_neg ?ce) (ce_outerGroups ?ce) (ce_outerRandom ?ce) (ce_outerSessionId ?ce) None (ng_MinVersion (ce_neg ?ce)) =
      Ok (toy_ech_hello 6 9, [29 \<mapsto> EcdhShare (\<lambda>peer. if peer = [] then None else Some [4, 2])])"
    using toy_ech_made by (simp_all add: toy_ech_client_def VersionTLS13_def) (simp add: toy_ech_neg_def)
  have sv: "servable (toy_ech_server ks) (toy_ech_hello 7 8)"
    by (simp add: servable_def toy_ech_server_def toy_tlsConfig_def keylog_ok_def toy_ech_neg_def toy_neg_def toy_ech_hello_def supportedVersions_def
        all_versions_def VersionTLS13_def negotiateALPN_def helloRetryRequestRandom_def)
  have neg: "negotiate_spec (se_neg (toy_ech_server ks)) (toy_ech_hello 7 8) = Some (0x1301, 29)"
    by (simp add: negotiate_spec_def best_def toy_ech_server_def toy_ech_neg_def toy_neg_def toy_ech_hello_def curvePreferences_def preferenceList_def
        defaultCurvePreferences_def defaultCipherSuitesTLS13_def cipherSuiteByID_def cipherSuiteTLS13ByID_def cipherSuites_def cipherSuitesTLS13_def aesgcmCiphers_def)
  have sh: "share_agrees (se_groups (toy_ech_server ks)) (toy_ech_hello 7 8) [29 \<mapsto> EcdhShare (\<lambda>peer. if peer = [] then None else Some [4, 2])] 29 [4, 2]"
    by (simp add: share_agrees_def toy_ech_server_def toy_groups_def toy_ech_hello_def clientShares_def agreeOnKey_def curveIdToCirclScheme_def
        curveForCurveID_def private_opens_def)
  have se: "se_canAccept (toy_ech_server ks)" "se_provider (toy_ech_server ks) = GetDecryptionContext (ce_hpke ?ce) ks"
    by (simp_all add: toy_ech_server_def toy_ech_client_def)
  have nm: "ch_serverName (toy_ech_hello 7 8) = [101, 120]" by (simp add: toy_ech_hello_def)
  from ech_handshake_completes [OF toy_hashes_sized k new mk toy_ech_ready [OF ks] se sv neg sh, of "\<lambda>_ _. Halt []" HelloRequest "\<lambda>_. Halt []" "\<lambda>_ _. Halt []"] ks
  show ?thesis unfolding nm by blast
qed

end
