(* ===== verification/Go_Time.thy ===== *)
theory Go_Time
  imports Prelude
begin

text \<open>
  Instants and durations of \<^verbatim>\<open>time/time.go\<close>, as integers in nanoseconds, an instant counted from the Unix epoch. A
  \<^verbatim>\<open>time.Duration\<close> is kept within 64 bits, \<^verbatim>\<open>Time.Sub\<close> saturates, and the seconds of an instant, which Go counts from the year 1
  in 64 bits, wrap in \<^verbatim>\<open>time.Unix\<close> and saturate in \<^verbatim>\<open>Time.Add\<close>. The monotonic clock agrees with the wall clock.
\<close>

definition time_Second :: int where "time_Second = 1000000000"
definition minDuration :: int where "minDuration = - 9223372036854775808"
definition maxDuration :: int where "maxDuration = 9223372036854775807"

definition time_Sub :: "int \<Rightarrow> int \<Rightarrow> int" where
  "time_Sub t u = (let d = t - u in if d < minDuration then minDuration else if d > maxDuration then maxDuration else d)"

text \<open>The seconds from the year 1, the origin of Go's instants, to the Unix epoch.\<close>

definition unixToInternal :: int where
  "unixToInternal = (1969 * 365 + 1969 div 4 - 1969 div 100 + 1969 div 400) * 86400"

definition time_Unix :: "int \<Rightarrow> int" where
  "time_Unix sec = (int64 (sec + unixToInternal) - unixToInternal) * time_Second"

definition unixSec :: "int \<Rightarrow> int" where
  "unixSec t = int64 (t div time_Second)"

definition time_After :: "int \<Rightarrow> int \<Rightarrow> bool" where
  "time_After t u \<longleftrightarrow> t > u"

definition addSec :: "int \<Rightarrow> int \<Rightarrow> int" where
  "addSec d ext = (let sum = int64 (ext + d) in
     if (sum > ext) = (d > 0) then sum else if d > 0 then 2 ^ 63 - 1 else - (2 ^ 63 - 1))"

definition time_Add :: "int \<Rightarrow> int \<Rightarrow> int" where
  "time_Add t d =
     (let dsec = go_div d time_Second; nsec = t mod time_Second + go_mod d time_Second;
          (dsec, nsec) = (if nsec \<ge> time_Second then (dsec + 1, nsec - time_Second)
             else if nsec < 0 then (dsec - 1, nsec + time_Second) else (dsec, nsec))
      in (addSec dsec (t div time_Second + unixToInternal) - unixToInternal) * time_Second + nsec)"

text \<open>An instant from the epoch on for the next centuries, as a clock shows it.\<close>

definition clock_ok :: "int \<Rightarrow> bool" where
  "clock_ok t \<longleftrightarrow> 0 \<le> t \<and> t < 9223372036854775807"

lemma unixToInternal_value: "unixToInternal = 62135596800"
  by (simp add: unixToInternal_def)

lemma time_Sub_eq: "clock_ok t \<Longrightarrow> clock_ok u \<Longrightarrow> time_Sub t u = t - u"
  by (auto simp: clock_ok_def time_Sub_def Let_def minDuration_def maxDuration_def)

lemma time_Unix_eq: "0 \<le> s \<Longrightarrow> s < 9223372036854775807 - unixToInternal \<Longrightarrow> time_Unix s = s * time_Second"
  by (simp add: time_Unix_def unixToInternal_value int64_id)

lemma unixSec_bounds:
  assumes "clock_ok t"
  shows "unixSec t = t div time_Second" "0 \<le> unixSec t" "unixSec t < 9223372037"
proof -
  have "t div time_Second * time_Second \<le> t"
    by (simp add: time_Second_def flip: minus_mod_eq_div_mult)
  then have "0 \<le> t div time_Second" "t div time_Second < 9223372037"
    using assms by (simp_all add: clock_ok_def time_Second_def pos_imp_zdiv_nonneg_iff)
  then show "unixSec t = t div time_Second" "0 \<le> unixSec t" "unixSec t < 9223372037"
    by (simp_all add: unixSec_def int64_id)
qed

text \<open>The second an instant is in.\<close>

lemma time_Unix_unixSec:
  assumes "clock_ok t"
  shows "time_Unix (unixSec t) \<le> t" "t < time_Unix (unixSec t) + time_Second" "clock_ok (time_Unix (unixSec t))"
proof -
  have e: "time_Unix (unixSec t) = t div time_Second * time_Second"
    using unixSec_bounds [OF assms] by (simp add: time_Unix_eq unixToInternal_value)
  have m: "t div time_Second * time_Second + t mod time_Second = t" by simp
  have b: "0 \<le> t mod time_Second" "t mod time_Second < time_Second" by (simp_all add: time_Second_def)
  have n: "0 \<le> t div time_Second * time_Second"
    using assms by (simp add: clock_ok_def time_Second_def pos_imp_zdiv_nonneg_iff)
  show "time_Unix (unixSec t) \<le> t" "t < time_Unix (unixSec t) + time_Second" unfolding e using m b by linarith+
  show "clock_ok (time_Unix (unixSec t))"
    using n m b assms unfolding e clock_ok_def by linarith
qed

text \<open>Adding a duration of whole seconds.\<close>

lemma time_Add_seconds:
  assumes "clock_ok t" and "0 \<le> s" and "s < 4294967296"
  shows "time_Add t (s * time_Second) = t + s * time_Second"
proof -
  let ?q = "t div time_Second"
  have q: "0 \<le> ?q" "?q < 9223372037" using unixSec_bounds [OF assms(1)] by simp_all
  have "go_div (s * time_Second) time_Second = s" "go_mod (s * time_Second) time_Second = 0"
    using assms(2) by (simp_all add: time_Second_def)
  moreover have "t mod time_Second < time_Second" "0 \<le> t mod time_Second" by (simp_all add: time_Second_def)
  moreover have "addSec s (?q + unixToInternal) = ?q + unixToInternal + s"
    using q assms(2,3) by (auto simp: addSec_def Let_def unixToInternal_value int64_id)
  ultimately have "time_Add t (s * time_Second) = (?q + s) * time_Second + t mod time_Second"
    by (simp add: time_Add_def)
  also have "\<dots> = (?q * time_Second + t mod time_Second) + s * time_Second" by (simp add: distrib_right)
  finally show ?thesis by simp
qed

end
