(* ===== verification/Delegated_Credentials.thy ===== *)
theory Delegated_Credentials
  imports KEM Go_Time
begin

text \<open>
  Delegated credentials: \<^verbatim>\<open>crypto/tls/delegated_credentials.go\<close>. Times and durations are integers in
  nanoseconds; a \<^verbatim>\<open>time.Duration\<close> is kept within 64 bits by \<open>int64\<close>, and \<^verbatim>\<open>Time.Sub\<close> saturates. The
  key and certificate primitives of the standard library (PKIX encoding of public keys, key
  generation, signing, verification, hashing, certificate parsing) are the fields of an environment
  \<open>dc_env\<close>. A \<^verbatim>\<open>crypto.Hash\<close> of zero, which is both \<^verbatim>\<open>directSigning\<close> and the unknown hash, is \<open>None\<close>.
\<close>

section \<open>Definitions\<close>

subsection \<open>Durations\<close>

definition dur_Round :: "int \<Rightarrow> int \<Rightarrow> int" where
  "dur_Round d m =
     (if m \<le> 0 then d
      else let r = go_mod d m in
        if d < 0 then
          let r = int64 (- r) in
          if uint64 (uint64 r + uint64 r) < uint64 m then int64 (d + r)
          else let d1 = int64 (int64 (d - m) + r) in if d1 < d then d1 else minDuration
        else if uint64 (uint64 r + uint64 r) < uint64 m then int64 (d - r)
        else let d1 = int64 (int64 (d + m) - r) in if d1 > d then d1 else maxDuration)"

definition dcMaxTTLSeconds :: int where "dcMaxTTLSeconds = 60 * 60 * 24 * 7"
definition dcMaxTTL :: int where "dcMaxTTL = dcMaxTTLSeconds * time_Second"
definition dcMaxPubLen :: nat where "dcMaxPubLen = 16777215"
definition dcMaxSignatureLen :: nat where "dcMaxSignatureLen = 65535"

subsection \<open>Signature schemes\<close>

type_synonym SignatureScheme = u16

definition undefinedSignatureScheme :: SignatureScheme where "undefinedSignatureScheme = 0x0000"
definition PKCS1WithSHA256 :: SignatureScheme where "PKCS1WithSHA256 = 0x0401"
definition PSSWithSHA256 :: SignatureScheme where "PSSWithSHA256 = 0x0804"
definition PSSWithSHA384 :: SignatureScheme where "PSSWithSHA384 = 0x0805"
definition PSSWithSHA512 :: SignatureScheme where "PSSWithSHA512 = 0x0806"
definition ECDSAWithP256AndSHA256 :: SignatureScheme where "ECDSAWithP256AndSHA256 = 0x0403"
definition ECDSAWithP384AndSHA384 :: SignatureScheme where "ECDSAWithP384AndSHA384 = 0x0503"
definition ECDSAWithP521AndSHA512 :: SignatureScheme where "ECDSAWithP521AndSHA512 = 0x0603"
definition Ed25519 :: SignatureScheme where "Ed25519 = 0x0807"

lemmas sig_schemes = undefinedSignatureScheme_def PKCS1WithSHA256_def PSSWithSHA256_def PSSWithSHA384_def
  PSSWithSHA512_def ECDSAWithP256AndSHA256_def ECDSAWithP384AndSHA384_def ECDSAWithP521AndSHA512_def
  Ed25519_def

definition isECDSA :: "SignatureScheme \<Rightarrow> bool" where
  "isECDSA a \<longleftrightarrow> a = ECDSAWithP256AndSHA256 \<or> a = ECDSAWithP384AndSHA384 \<or> a = ECDSAWithP521AndSHA512"

definition getHash :: "SignatureScheme \<Rightarrow> crypto_hash option" where
  "getHash s =
     (if s = ECDSAWithP256AndSHA256 then Some SHA256
      else if s = ECDSAWithP384AndSHA384 then Some SHA384
      else if s = ECDSAWithP521AndSHA512 then Some SHA512
      else if s = Ed25519 then None
      else if s = PKCS1WithSHA256 \<or> s = PSSWithSHA256 then Some SHA256
      else if s = PSSWithSHA384 then Some SHA384
      else if s = PSSWithSHA512 then Some SHA512
      else None)"

datatype curve = P256 | P384 | P521

definition getECDSACurve :: "SignatureScheme \<Rightarrow> curve option" where
  "getECDSACurve s =
     (if s = ECDSAWithP256AndSHA256 then Some P256
      else if s = ECDSAWithP384AndSHA384 then Some P384
      else if s = ECDSAWithP521AndSHA512 then Some P521
      else None)"

subsection \<open>Keys and certificates\<close>

datatype key_kind = EcdsaKey string | Ed25519Key | RsaKey | OtherKey

record extension =
  ext_Id :: "nat list"
  ext_Critical :: bool

record 'pk x509_Certificate =
  xc_Raw :: bytes
  xc_KeyUsage :: u32
  xc_Extensions :: "extension list"
  xc_NotBefore :: int
  xc_PublicKey :: 'pk
  xc_isECDSA :: bool

record ('pk, 'sk) Certificate =
  tc_Certificate :: "bytes list"
  tc_PrivateKey :: 'sk
  tc_Leaf :: "'pk x509_Certificate option"

record ('pk, 'sk) dc_env =
  MarshalPKIXPublicKey :: "'pk \<Rightarrow> bytes res"
  ParsePKIXPublicKey :: "bytes \<Rightarrow> 'pk res"
  ParseCertificate :: "bytes \<Rightarrow> 'pk x509_Certificate res"
  hash_Sum :: "crypto_hash \<Rightarrow> bytes \<Rightarrow> bytes"
  pk_kind :: "'pk \<Rightarrow> key_kind"
  sk_kind :: "'sk \<Rightarrow> key_kind"
  ecdsa_GenerateKey :: "curve option \<Rightarrow> ('pk \<times> 'sk) res"
  ed25519_GenerateKey :: "('pk \<times> 'sk) res"
  ecdsa_Sign :: "'sk \<Rightarrow> bytes \<Rightarrow> bytes res"
  ed25519_Sign :: "'sk \<Rightarrow> bytes \<Rightarrow> bytes res"
  rsa_SignPSS :: "'sk \<Rightarrow> crypto_hash option \<Rightarrow> bytes \<Rightarrow> bytes res"
  ecdsa_VerifyASN1 :: "'pk \<Rightarrow> bytes \<Rightarrow> bytes \<Rightarrow> bool"
  ed25519_Verify :: "'pk \<Rightarrow> bytes \<Rightarrow> bytes \<Rightarrow> bool"
  rsa_VerifyPSS :: "'pk \<Rightarrow> crypto_hash option \<Rightarrow> bytes \<Rightarrow> bytes \<Rightarrow> bool"

definition extensionDelegatedCredential :: "nat list" where
  "extensionDelegatedCredential = [1, 3, 6, 1, 4, 1, 44363, 44]"

definition KeyUsageDigitalSignature :: u32 where "KeyUsageDigitalSignature = 1"

fun delegationLoop :: "extension list \<Rightarrow> bool" where
  "delegationLoop [] = False"
| "delegationLoop (e # es) = (if ext_Id e = extensionDelegatedCredential then \<not> ext_Critical e else delegationLoop es)"

definition isValidForDelegation :: "'pk x509_Certificate \<Rightarrow> bool" where
  "isValidForDelegation cert =
     (if (xc_KeyUsage cert AND KeyUsageDigitalSignature) = 0 then False else delegationLoop (xc_Extensions cert))"

subsection \<open>Credentials\<close>

record 'pk credential =
  validTime :: int
  expCertVerfAlgo :: SignatureScheme
  publicKey :: 'pk

record 'pk DelegatedCredential =
  dc_raw :: "bytes option"
  dc_cred :: "'pk credential"
  dc_algorithm :: SignatureScheme
  dc_signature :: bytes

definition isExpired :: "'pk DelegatedCredential \<Rightarrow> int \<Rightarrow> int \<Rightarrow> bool" where
  "isExpired dc start now = (let end = start + validTime (dc_cred dc) in \<not> now < end)"

definition invalidTTL :: "'pk DelegatedCredential \<Rightarrow> int \<Rightarrow> int \<Rightarrow> bool" where
  "invalidTTL dc start now \<longleftrightarrow>
     validTime (dc_cred dc) > dur_Round (int64 (time_Sub now start + dcMaxTTL)) time_Second"

definition marshalPublicKeyInfo :: "('pk, 'sk) dc_env \<Rightarrow> 'pk credential \<Rightarrow> bytes res" where
  "marshalPublicKeyInfo D cred =
     (if isECDSA (expCertVerfAlgo cred) \<or> expCertVerfAlgo cred = Ed25519
      then MarshalPKIXPublicKey D (publicKey cred)
      else Err ''tls: unsupported signature scheme: '')"

definition cred_marshal :: "('pk, 'sk) dc_env \<Rightarrow> 'pk credential \<Rightarrow> bytes res" where
  "cred_marshal D cred =
     bind_res (marshalPublicKeyInfo D cred) (\<lambda>rawPub.
     if length rawPub > dcMaxPubLen then Err ''tls: public key length exceeds 2^24-1 limit''
     else runBytesOrPanic (stmts
       [AddUint32 (of_int (go_div (validTime cred) time_Second)), AddUint16 (expCertVerfAlgo cred),
        AddUint24 (of_nat (length rawPub)), AddBytes rawPub]))"

definition unmarshalCredential :: "('pk, 'sk) dc_env \<Rightarrow> bytes \<Rightarrow> 'pk credential res" where
  "unmarshalCredential D raw =
     (if length raw < 10 then Err ''tls: Delegated Credential is not valid: invalid length''
      else case ReadUint32 raw of None \<Rightarrow> Err ''tls: Delegated Credential is not valid''
      | Some (t, s) \<Rightarrow>
      (case ReadUint16 s of None \<Rightarrow> Err ''tls: Delegated Credential is not valid''
       | Some (algo, s) \<Rightarrow>
           let s = (case ReadUint24 s of None \<Rightarrow> s | Some (pubLen, s') \<Rightarrow> s') in
           bind_res (ParsePKIXPublicKey D s) (\<lambda>pubKey.
           Ok \<lparr>validTime = int64 (uint t * time_Second), expCertVerfAlgo = algo, publicKey = pubKey\<rparr>)))"

definition getCredentialLen :: "bytes \<Rightarrow> nat res" where
  "getCredentialLen raw =
     (if length raw < 10 then Err ''tls: Delegated Credential is not valid''
      else let s = (case ReadBytes 6 raw of None \<Rightarrow> raw | Some (_, s) \<Rightarrow> s);
               pubLen = (case ReadUint24 s of None \<Rightarrow> 0 | Some (v, _) \<Rightarrow> v) in
           if \<not> 0 < pubLen then Err ''tls: Delegated Credential is not valid''
           else if length (drop 6 raw) < unat pubLen then Err ''tls: Delegated Credential is not valid''
           else Ok (9 + unat pubLen))"

definition dc_context :: "bool \<Rightarrow> bytes" where
  "dc_context isClient = (if \<not> isClient then ascii ''TLS, server delegated credentials'' @ [0]
     else ascii ''TLS, client delegated credentials'' @ [0])"

definition prepareDelegationSignatureInput ::
    "('pk, 'sk) dc_env \<Rightarrow> crypto_hash option \<Rightarrow> 'pk credential \<Rightarrow> bytes \<Rightarrow> SignatureScheme \<Rightarrow> bool \<Rightarrow> bytes res" where
  "prepareDelegationSignatureInput D hash cred dCert algo isClient =
     bind_res (cred_marshal D cred) (\<lambda>rawCred.
     let msg = replicate 64 0x20 @ dc_context isClient @ dCert @ rawCred @ enc16 algo in
     case hash of None \<Rightarrow> Ok msg | Some h \<Rightarrow> Ok (hash_Sum D h msg))"

definition getSignatureAlgorithm ::
    "('pk, 'sk) dc_env \<Rightarrow> 'sk \<Rightarrow> 'pk x509_Certificate \<Rightarrow> SignatureScheme res" where
  "getSignatureAlgorithm D sk leaf = (case sk_kind D sk of
       EcdsaKey curveName \<Rightarrow>
         if xc_isECDSA leaf \<and> curveName = ''P-256'' then Ok ECDSAWithP256AndSHA256
         else if xc_isECDSA leaf \<and> curveName = ''P-384'' then Ok ECDSAWithP384AndSHA384
         else if xc_isECDSA leaf \<and> curveName = ''P-521'' then Ok ECDSAWithP521AndSHA512
         else Err (''using curve '' @ curveName @ '' is not supported'')
     | Ed25519Key \<Rightarrow> Ok Ed25519
     | RsaKey \<Rightarrow> Ok PSSWithSHA256
     | OtherKey \<Rightarrow> Err ''tls: unsupported algorithm for signing Delegated Credential'')"

definition dc_GenerateKey :: "('pk, 'sk) dc_env \<Rightarrow> SignatureScheme \<Rightarrow> ('pk \<times> 'sk) res" where
  "dc_GenerateKey D pubAlgo =
     (if isECDSA pubAlgo then ecdsa_GenerateKey D (getECDSACurve pubAlgo)
      else if pubAlgo = Ed25519 then ed25519_GenerateKey D
      else Err ''tls: unsupported algorithm for Delegated Credential: '')"

definition dc_sign :: "('pk, 'sk) dc_env \<Rightarrow> 'sk \<Rightarrow> crypto_hash option \<Rightarrow> bytes \<Rightarrow> bytes res" where
  "dc_sign D sk hash values = (case sk_kind D sk of
       EcdsaKey c \<Rightarrow> ecdsa_Sign D sk values
     | Ed25519Key \<Rightarrow> ed25519_Sign D sk values
     | RsaKey \<Rightarrow> rsa_SignPSS D sk hash values
     | OtherKey \<Rightarrow> Err ''tls: unsupported key type for Delegated Credential'')"

definition dc_parseLeaf ::
    "('pk, 'sk) dc_env \<Rightarrow> ('pk, 'sk) Certificate \<Rightarrow> ('pk x509_Certificate) res" where
  "dc_parseLeaf D cert = (case tc_Leaf cert of Some l \<Rightarrow> Ok l
     | None \<Rightarrow> (case tc_Certificate cert of
           [] \<Rightarrow> Panic ''index out of range''
         | c # _ \<Rightarrow> if length c = 0 then Err ''tls: missing leaf certificate for Delegated Credential''
                    else ParseCertificate D c))"

text \<open>The certificate is returned with its leaf filled in, as the code caches it there.\<close>

definition NewDelegatedCredential ::
    "('pk, 'sk) dc_env \<Rightarrow> ('pk, 'sk) Certificate \<Rightarrow> SignatureScheme \<Rightarrow> int \<Rightarrow> bool \<Rightarrow>
     ('pk, 'sk) Certificate \<times> ('pk DelegatedCredential \<times> 'sk) res" where
  "NewDelegatedCredential D cert pubAlgo vt isClient =
     (let vt = dur_Round vt time_Second in
      case dc_parseLeaf D cert of Err e \<Rightarrow> (cert, Err e) | Panic p \<Rightarrow> (cert, Panic p)
      | Ok leaf \<Rightarrow>
          (cert\<lparr>tc_Leaf := Some leaf\<rparr>,
           if \<not> isValidForDelegation leaf then Err ''tls: certificate not authorized for delegation''
           else bind_res (getSignatureAlgorithm D (tc_PrivateKey cert) leaf) (\<lambda>sigAlgo.
             bind_res (dc_GenerateKey D pubAlgo) (\<lambda>(pubK, privK).
             let hash = getHash sigAlgo;
                 cred = \<lparr>validTime = vt, expCertVerfAlgo = pubAlgo, publicKey = pubK\<rparr> in
             bind_res (prepareDelegationSignatureInput D hash cred (xc_Raw leaf) sigAlgo isClient) (\<lambda>values.
             bind_res (dc_sign D (tc_PrivateKey cert) hash values) (\<lambda>sig.
             if length sig > dcMaxSignatureLen then Err ''tls: unable to create a Delegated Credential''
             else Ok (\<lparr>dc_raw = None, dc_cred = cred, dc_algorithm = sigAlgo, dc_signature = sig\<rparr>, privK)))))))"

text \<open>\<open>verfAlgo\<close> is the signature algorithm of the peer's CertificateVerify message.\<close>

definition Validate ::
    "('pk, 'sk) dc_env \<Rightarrow> 'pk DelegatedCredential \<Rightarrow> 'pk x509_Certificate \<Rightarrow> bool \<Rightarrow> int \<Rightarrow> SignatureScheme \<Rightarrow> bool res" where
  "Validate D dc cert isClient now verfAlgo =
     (if isExpired dc (xc_NotBefore cert) now then Ok False
      else if invalidTTL dc (xc_NotBefore cert) now then Ok False
      else if expCertVerfAlgo (dc_cred dc) \<noteq> verfAlgo then Ok False
      else if \<not> isValidForDelegation cert then Ok False
      else let hash = getHash (dc_algorithm dc) in
        case prepareDelegationSignatureInput D hash (dc_cred dc) (xc_Raw cert) (dc_algorithm dc) isClient of
          Panic p \<Rightarrow> Panic p
        | Err e \<Rightarrow> Ok False
        | Ok inp \<Rightarrow>
            if isECDSA (dc_algorithm dc) then
              (case pk_kind D (xc_PublicKey cert) of EcdsaKey c \<Rightarrow> Ok (ecdsa_VerifyASN1 D (xc_PublicKey cert) inp (dc_signature dc))
               | _ \<Rightarrow> Ok False)
            else if dc_algorithm dc = Ed25519 then
              (case pk_kind D (xc_PublicKey cert) of Ed25519Key \<Rightarrow> Ok (ed25519_Verify D (xc_PublicKey cert) inp (dc_signature dc))
               | _ \<Rightarrow> Ok False)
            else if dc_algorithm dc = PSSWithSHA256 \<or> dc_algorithm dc = PSSWithSHA384 \<or> dc_algorithm dc = PSSWithSHA512 then
              (case pk_kind D (xc_PublicKey cert) of
                 RsaKey \<Rightarrow> Ok (rsa_VerifyPSS D (xc_PublicKey cert) (getHash (dc_algorithm dc)) inp (dc_signature dc))
               | _ \<Rightarrow> Ok False)
            else Ok False)"

definition dc_Marshal ::
    "('pk, 'sk) dc_env \<Rightarrow> 'pk DelegatedCredential \<Rightarrow> 'pk DelegatedCredential \<times> bytes res" where
  "dc_Marshal D dc =
     (if length (dc_signature dc) > dcMaxSignatureLen then (dc, Err ''tls: delegated credential is not valid'')
      else if length (dc_signature dc) = 0 then (dc, Err ''tls: delegated credential has no signature'')
      else case cred_marshal D (dc_cred dc) of
        Err e \<Rightarrow> (dc, Err e) | Panic p \<Rightarrow> (dc, Panic p)
      | Ok raw \<Rightarrow>
          (case runBytesOrPanic (stmts [AddBytes raw, AddUint16 (dc_algorithm dc),
                  AddUint16 (of_nat (length (dc_signature dc))), AddBytes (dc_signature dc)]) of
             Err e \<Rightarrow> (dc, Err e) | Panic p \<Rightarrow> (dc, Panic p)
           | Ok bs \<Rightarrow> (dc\<lparr>dc_raw := Some bs\<rparr>, Ok bs)))"

definition UnmarshalDelegatedCredential :: "('pk, 'sk) dc_env \<Rightarrow> bytes \<Rightarrow> 'pk DelegatedCredential res" where
  "UnmarshalDelegatedCredential D raw =
     bind_res (getCredentialLen raw) (\<lambda>n.
     bind_res (sliceTo n raw) (\<lambda>rawCred.
     bind_res (unmarshalCredential D rawCred) (\<lambda>cred.
     bind_res (sliceFrom n raw) (\<lambda>raw'.
     if length raw' < 4 then Err ''tls: Delegated Credential is not valid''
     else res_of_option ''tls: Delegated Credential is not valid'' (do {
       (algo, s) \<leftarrow> ReadUint16 raw';
       (sigLen, s) \<leftarrow> ReadUint16 s;
       (sig, _) \<leftarrow> ReadBytes (unat sigLen) s;
       Some \<lparr>dc_raw = None, dc_cred = cred, dc_algorithm = algo, dc_signature = sig\<rparr>})))))"

section \<open>The wire format\<close>

definition enc_cred :: "'pk credential \<Rightarrow> bytes \<Rightarrow> bytes" where
  "enc_cred cred rawPub = enc32 (of_int (go_div (validTime cred) time_Second)) @ enc16 (expCertVerfAlgo cred) @
     enc24 (of_nat (length rawPub)) @ rawPub"

definition cred_ok :: "'pk credential \<Rightarrow> bool" where
  "cred_ok cred \<longleftrightarrow> 0 \<le> validTime cred \<and> time_Second dvd validTime cred \<and> validTime cred < 2 ^ 32 * time_Second"

lemma cred_marshal_Ok:
  "cred_marshal D cred = Ok raw \<longleftrightarrow>
     (\<exists>rawPub. marshalPublicKeyInfo D cred = Ok rawPub \<and> length rawPub \<le> dcMaxPubLen \<and> raw = enc_cred cred rawPub)"
proof -
  have "runBytesOrPanic (stmts
       [AddUint32 (of_int (go_div (validTime cred) time_Second)), AddUint16 (expCertVerfAlgo cred),
        AddUint24 (of_nat (length rawPub)), AddBytes rawPub]) = Ok (enc_cred cred rawPub)" for rawPub
    unfolding enc_cred_def by (intro runBytesOrPanic_appends builder_intros)
  then show ?thesis
    by (cases "marshalPublicKeyInfo D cred") (auto simp: cred_marshal_def)
qed

lemma unat_of_nat_u32: "n < 16777216 \<Longrightarrow> unat (of_nat n :: u32) = n"
  by (simp add: unat_of_nat take_bit_eq_mod)

lemma getCredentialLen_spec:
  assumes "length a = 6" and "unat l < 16777216" and "10 \<le> length (a @ enc24 l @ rest)"
  shows "getCredentialLen (a @ enc24 l @ rest) =
    (if l = 0 \<or> length rest + 3 < unat l then Err ''tls: Delegated Credential is not valid'' else Ok (9 + unat l))"
  using assms by (auto simp: getCredentialLen_def ReadBytes_append u24c.dec_enc word_neq_0_conv)

lemma getCredentialLen_short:
  "length raw < 10 \<Longrightarrow> getCredentialLen raw = Err ''tls: Delegated Credential is not valid''"
  by (simp add: getCredentialLen_def)

lemma unmarshalCredential_enc:
  assumes ok: "cred_ok cred" and parse: "ParsePKIXPublicKey D rawPub = Ok (publicKey cred)"
    and len: "rawPub \<noteq> []" "length rawPub \<le> dcMaxPubLen"
  shows "unmarshalCredential D (enc_cred cred rawPub) = Ok cred"
proof -
  let ?q = "validTime cred div time_Second"
  from ok obtain k where k: "validTime cred = time_Second * k"
    by (auto simp: cred_ok_def)
  then have q: "0 \<le> ?q" "?q < 4294967296" "?q * time_Second = validTime cred"
    using ok by (simp_all add: cred_ok_def time_Second_def)
  have "uint (of_int ?q :: u32) = ?q"
    using q(1,2) by (simp add: uint_word_of_int)
  moreover have "int64 (validTime cred) = validTime cred"
    using q(1,2) q(3) [symmetric] by (intro int64_id) (simp_all add: time_Second_def)
  moreover have "go_div (validTime cred) time_Second = ?q"
    using ok by (simp add: cred_ok_def time_Second_def)
  moreover have "unat (of_nat (length rawPub) :: u32) < 16777216"
    using len(2) by (simp add: dcMaxPubLen_def unat_of_nat_u32)
  moreover have "\<not> length (enc_cred cred rawPub) < 10"
    using len(1) by (cases rawPub) (simp_all add: enc_cred_def)
  ultimately show ?thesis
    using parse q(3)
    by (simp add: unmarshalCredential_def enc_cred_def u32c.dec_enc u16c.dec_enc u24c.dec_enc)
qed

text \<open>The law of the PKIX codec for one key: it parses what it printed, and prints something.\<close>

definition pkix_ok :: "('pk, 'sk) dc_env \<Rightarrow> 'pk \<Rightarrow> bool" where
  "pkix_ok D pk \<longleftrightarrow> (\<forall>b. MarshalPKIXPublicKey D pk = Ok b \<longrightarrow> b \<noteq> [] \<and> ParsePKIXPublicKey D b = Ok pk)"

definition enc_dc :: "'pk DelegatedCredential \<Rightarrow> bytes \<Rightarrow> bytes" where
  "enc_dc dc rawPub = enc_cred (dc_cred dc) rawPub @ enc16 (dc_algorithm dc) @
     enc16 (of_nat (length (dc_signature dc))) @ dc_signature dc"

lemma dc_Marshal_Ok:
  assumes "dc_Marshal D dc = (dc', Ok raw)"
  obtains rawPub where "marshalPublicKeyInfo D (dc_cred dc) = Ok rawPub" "length rawPub \<le> dcMaxPubLen"
    "raw = enc_dc dc rawPub" "dc' = dc\<lparr>dc_raw := Some raw\<rparr>" "0 < length (dc_signature dc)"
    "length (dc_signature dc) \<le> dcMaxSignatureLen"
proof -
  have r: "runBytesOrPanic (stmts [AddBytes raw, AddUint16 (dc_algorithm dc),
      AddUint16 (of_nat (length (dc_signature dc))), AddBytes (dc_signature dc)]) =
      Ok (raw @ enc16 (dc_algorithm dc) @ enc16 (of_nat (length (dc_signature dc))) @ dc_signature dc)" for raw
    by (intro runBytesOrPanic_appends builder_intros)
  from assms obtain rc where rc: "cred_marshal D (dc_cred dc) = Ok rc"
    by (auto simp: dc_Marshal_def split: if_splits res.splits)
  from rc obtain rawPub where "marshalPublicKeyInfo D (dc_cred dc) = Ok rawPub" "length rawPub \<le> dcMaxPubLen"
      "rc = enc_cred (dc_cred dc) rawPub"
    by (auto simp: cred_marshal_Ok)
  with assms rc that show ?thesis
    by (auto simp: dc_Marshal_def r enc_dc_def split: if_splits)
qed

lemma dc_Marshal_enc:
  assumes "marshalPublicKeyInfo D (dc_cred dc) = Ok rawPub" and "length rawPub \<le> dcMaxPubLen"
    and "0 < length (dc_signature dc)" and "length (dc_signature dc) \<le> dcMaxSignatureLen"
  shows "dc_Marshal D dc = (dc\<lparr>dc_raw := Some (enc_dc dc rawPub)\<rparr>, Ok (enc_dc dc rawPub))"
proof -
  have "cred_marshal D (dc_cred dc) = Ok (enc_cred (dc_cred dc) rawPub)"
    using assms(1,2) by (simp add: cred_marshal_Ok)
  moreover have "runBytesOrPanic (stmts [AddBytes (enc_cred (dc_cred dc) rawPub), AddUint16 (dc_algorithm dc),
      AddUint16 (of_nat (length (dc_signature dc))), AddBytes (dc_signature dc)]) = Ok (enc_dc dc rawPub)"
    unfolding enc_dc_def by (intro runBytesOrPanic_appends builder_intros)
  ultimately show ?thesis
    using assms(3,4) by (simp add: dc_Marshal_def)
qed

lemma Unmarshal_enc_dc:
  assumes "cred_ok (dc_cred dc)" and "ParsePKIXPublicKey D rawPub = Ok (publicKey (dc_cred dc))"
    and "rawPub \<noteq> []" "length rawPub \<le> dcMaxPubLen" and "length (dc_signature dc) \<le> dcMaxSignatureLen"
  shows "UnmarshalDelegatedCredential D (enc_dc dc rawPub @ junk) = Ok (dc\<lparr>dc_raw := None\<rparr>)"
proof -
  let ?c = "enc_cred (dc_cred dc) rawPub"
  let ?tail = "enc16 (dc_algorithm dc) @ enc16 (of_nat (length (dc_signature dc))) @ dc_signature dc @ junk"
  have u: "unat (of_nat (length rawPub) :: u32) = length rawPub"
    using assms(4) by (simp add: dcMaxPubLen_def unat_of_nat_u32)
  have l: "length ?c = 9 + length rawPub"
    by (simp add: enc_cred_def)
  have "0 < length rawPub"
    using assms(3) by simp
  moreover have "(of_nat (length rawPub) :: u32) \<noteq> 0"
    using u assms(3) by fastforce
  ultimately have "getCredentialLen (?c @ ?tail) = Ok (length ?c)"
    using getCredentialLen_spec [where a = "enc32 (of_int (go_div (validTime (dc_cred dc)) time_Second)) @
        enc16 (expCertVerfAlgo (dc_cred dc))" and l = "of_nat (length rawPub)" and rest = "rawPub @ ?tail"] assms(4) u l
    by (simp add: enc_cred_def dcMaxPubLen_def)
  moreover have "unat (of_nat (length (dc_signature dc)) :: u16) = length (dc_signature dc)"
    using assms(5) by (simp add: unat_of_nat take_bit_eq_mod dcMaxSignatureLen_def)
  moreover have "sliceTo (length ?c) (?c @ ?tail) = Ok ?c" "sliceFrom (length ?c) (?c @ ?tail) = Ok ?tail"
    by simp_all
  ultimately show ?thesis
    using unmarshalCredential_enc [OF assms(1-4)]
    by (simp add: UnmarshalDelegatedCredential_def enc_dc_def u16c.dec_enc ReadBytes_append)
qed


section \<open>Validity periods\<close>

lemma dur_Round_second:
  assumes "- 4611686018427387904 \<le> d" and "d \<le> 4611686018427387904 + 604800000000000"
  shows "2 * \<bar>dur_Round d time_Second - d\<bar> \<le> time_Second \<and> time_Second dvd dur_Round d time_Second"
proof (cases "d < 0")
  case False
  define r where "r = d mod 1000000000"
  have r: "0 \<le> r" "r < 1000000000" "1000000000 dvd d - r"
    by (simp_all add: r_def)
  have gm: "go_mod d 1000000000 = r"
    using False by (simp add: r_def)
  have "d + 1000000000 - r = (d - r) + 1000000000" by simp
  then have dv: "1000000000 dvd d + 1000000000 - r"
    using r(3) by (metis dvd_add_triv_right_iff)
  show ?thesis
    using False assms r dv gm
    by (simp add: dur_Round_def time_Second_def Let_def uint64_id int64_id)
next
  case True
  define r where "r = (- d) mod 1000000000"
  have r: "0 \<le> r" "r < 1000000000" "1000000000 dvd - d - r"
    by (simp_all add: r_def)
  have gm: "go_mod d 1000000000 = - r"
    using True by (simp add: r_def go_mod_def)
  from r(3) have dv: "1000000000 dvd d + r"
    by (metis dvd_minus_iff minus_diff_eq minus_add_distrib minus_minus diff_conv_add_uminus add.commute)
  then have dv2: "1000000000 dvd d - 1000000000 + r"
    by (metis dvd_diff_right_iff dvd_refl add_diff_eq diff_add_eq)
  show ?thesis
    using True assms r dv dv2 gm
    by (simp add: dur_Round_def time_Second_def Let_def uint64_id int64_id)
qed

lemma round_bound: "2 * \<bar>R - (n - s + T)\<bar> \<le> c \<Longrightarrow> v \<le> R \<Longrightarrow> 2 * (s + v - n) \<le> 2 * T + (c :: int)"
  by presburger

lemma not_invalidTTL:
  assumes "\<bar>now - start\<bar> \<le> 4611686018427387904" and "\<not> invalidTTL dc start now"
  shows "2 * (start + validTime (dc_cred dc) - now) \<le> 2 * dcMaxTTL + time_Second"
proof -
  have s: "time_Sub now start = now - start"
    using assms(1) by (auto simp: time_Sub_def Let_def minDuration_def maxDuration_def)
  let ?d = "now - start + dcMaxTTL"
  have d: "int64 ?d = ?d" "- 4611686018427387904 \<le> ?d" "?d \<le> 4611686018427387904 + 604800000000000"
    using assms(1) by (auto simp: dcMaxTTL_def dcMaxTTLSeconds_def time_Second_def intro!: int64_id)
  have "validTime (dc_cred dc) \<le> dur_Round ?d time_Second"
    using assms(2) by (simp add: invalidTTL_def s d(1))
  with dur_Round_second [OF d(2,3), THEN conjunct1] show ?thesis
    by (rule round_bound)
qed

section \<open>Signatures\<close>

definition dc_verify :: "('pk, 'sk) dc_env \<Rightarrow> SignatureScheme \<Rightarrow> 'pk \<Rightarrow> bytes \<Rightarrow> bytes \<Rightarrow> bool" where
  "dc_verify D algo pk m sig = (case pk_kind D pk of
       EcdsaKey c \<Rightarrow> isECDSA algo \<and> ecdsa_VerifyASN1 D pk m sig
     | Ed25519Key \<Rightarrow> algo = Ed25519 \<and> ed25519_Verify D pk m sig
     | RsaKey \<Rightarrow> (algo = PSSWithSHA256 \<or> algo = PSSWithSHA384 \<or> algo = PSSWithSHA512) \<and> rsa_VerifyPSS D pk (getHash algo) m sig
     | OtherKey \<Rightarrow> False)"

lemma Validate_iff:
  "Validate D dc cert isClient now verfAlgo = Ok True \<longleftrightarrow>
     \<not> isExpired dc (xc_NotBefore cert) now \<and> \<not> invalidTTL dc (xc_NotBefore cert) now \<and>
     expCertVerfAlgo (dc_cred dc) = verfAlgo \<and> isValidForDelegation cert \<and>
     (\<exists>m. prepareDelegationSignatureInput D (getHash (dc_algorithm dc)) (dc_cred dc) (xc_Raw cert) (dc_algorithm dc) isClient = Ok m \<and>
        dc_verify D (dc_algorithm dc) (xc_PublicKey cert) m (dc_signature dc))"
  by (auto simp: Validate_def dc_verify_def Let_def isECDSA_def sig_schemes split: res.splits key_kind.splits)

lemma isValidForDelegation_iff:
  "isValidForDelegation cert \<longleftrightarrow> (xc_KeyUsage cert AND KeyUsageDigitalSignature) \<noteq> 0 \<and>
     (\<exists>e. find (\<lambda>e. ext_Id e = extensionDelegatedCredential) (xc_Extensions cert) = Some e \<and> \<not> ext_Critical e)"
proof -
  have "delegationLoop es \<longleftrightarrow>
      (\<exists>e. find (\<lambda>e. ext_Id e = extensionDelegatedCredential) es = Some e \<and> \<not> ext_Critical e)" for es
    by (induction es) auto
  then show ?thesis
    by (simp add: isValidForDelegation_def)
qed

text \<open>A key pair whose verification accepts what its private key signs.\<close>

definition key_pair_ok :: "('pk, 'sk) dc_env \<Rightarrow> 'pk \<Rightarrow> 'sk \<Rightarrow> bool" where
  "key_pair_ok D pk sk \<longleftrightarrow> pk_kind D pk = sk_kind D sk \<and>
     (\<forall>m s. ecdsa_Sign D sk m = Ok s \<longrightarrow> ecdsa_VerifyASN1 D pk m s) \<and>
     (\<forall>m s. ed25519_Sign D sk m = Ok s \<longrightarrow> ed25519_Verify D pk m s) \<and>
     (\<forall>h m s. rsa_SignPSS D sk h m = Ok s \<longrightarrow> rsa_VerifyPSS D pk h m s)"

lemma sign_verify:
  assumes "key_pair_ok D pk sk" and "getSignatureAlgorithm D sk leaf = Ok algo"
    and "dc_sign D sk (getHash algo) m = Ok sig"
  shows "dc_verify D algo pk m sig"
  using assms
  by (auto simp: key_pair_ok_def getSignatureAlgorithm_def dc_sign_def dc_verify_def isECDSA_def
      split: key_kind.splits if_splits)

lemma NewDelegatedCredential_Ok:
  assumes "NewDelegatedCredential D cert pubAlgo vt isClient = (cert', Ok (dc, sk))"
  obtains leaf m where "dc_parseLeaf D cert = Ok leaf" "cert' = cert\<lparr>tc_Leaf := Some leaf\<rparr>" "isValidForDelegation leaf"
    "getSignatureAlgorithm D (tc_PrivateKey cert) leaf = Ok (dc_algorithm dc)"
    "prepareDelegationSignatureInput D (getHash (dc_algorithm dc)) (dc_cred dc) (xc_Raw leaf) (dc_algorithm dc) isClient = Ok m"
    "dc_sign D (tc_PrivateKey cert) (getHash (dc_algorithm dc)) m = Ok (dc_signature dc)"
    "validTime (dc_cred dc) = dur_Round vt time_Second" "expCertVerfAlgo (dc_cred dc) = pubAlgo" "dc_raw dc = None"
    "length (dc_signature dc) \<le> dcMaxSignatureLen"
  using assms
  by (auto simp: NewDelegatedCredential_def Let_def bind_res_eq_Ok split: res.splits if_splits prod.splits)


lemma new_validates:
  assumes "NewDelegatedCredential D cert pubAlgo vt isClient = (cert', Ok (dc, sk))" and "tc_Leaf cert' = Some leaf"
    and "key_pair_ok D (xc_PublicKey leaf) (tc_PrivateKey cert)"
    and "now < xc_NotBefore leaf + dur_Round vt time_Second"
    and "dur_Round vt time_Second \<le> dur_Round (int64 (time_Sub now (xc_NotBefore leaf) + dcMaxTTL)) time_Second"
  shows "Validate D dc leaf isClient now pubAlgo = Ok True"
proof -
  from assms(1) obtain leaf' m where n: "cert' = cert\<lparr>tc_Leaf := Some leaf'\<rparr>" "isValidForDelegation leaf'"
    "getSignatureAlgorithm D (tc_PrivateKey cert) leaf' = Ok (dc_algorithm dc)"
    "prepareDelegationSignatureInput D (getHash (dc_algorithm dc)) (dc_cred dc) (xc_Raw leaf') (dc_algorithm dc) isClient = Ok m"
    "dc_sign D (tc_PrivateKey cert) (getHash (dc_algorithm dc)) m = Ok (dc_signature dc)"
    "validTime (dc_cred dc) = dur_Round vt time_Second" "expCertVerfAlgo (dc_cred dc) = pubAlgo"
    by (rule NewDelegatedCredential_Ok)
  have "leaf' = leaf"
    using n(1) assms(2) by simp
  with n sign_verify [OF assms(3) _ n(5)] assms(4,5) show ?thesis
    by (auto simp: Validate_iff isExpired_def invalidTTL_def Let_def)
qed

section \<open>Properties\<close>

text \<open>
  Printing a delegated credential and parsing it gives the credential back (for a whole number of
  seconds that fits 32 bits); whatever follows it in the input is ignored.
\<close>

theorem dc_roundtrip:
  assumes "dc_Marshal D dc = (dc', Ok raw)" and "cred_ok (dc_cred dc)" and "pkix_ok D (publicKey (dc_cred dc))"
  shows "UnmarshalDelegatedCredential D (raw @ junk) = Ok (dc\<lparr>dc_raw := None\<rparr>) \<and> dc' = dc\<lparr>dc_raw := Some raw\<rparr>"
proof -
  obtain rawPub where r: "marshalPublicKeyInfo D (dc_cred dc) = Ok rawPub" "length rawPub \<le> dcMaxPubLen"
    "raw = enc_dc dc rawPub" "dc' = dc\<lparr>dc_raw := Some raw\<rparr>" "length (dc_signature dc) \<le> dcMaxSignatureLen"
    by (rule dc_Marshal_Ok [OF assms(1)])
  then have "MarshalPKIXPublicKey D (publicKey (dc_cred dc)) = Ok rawPub"
    by (auto simp: marshalPublicKeyInfo_def split: if_splits)
  with assms(3) have "ParsePKIXPublicKey D rawPub = Ok (publicKey (dc_cred dc))" "rawPub \<noteq> []"
    by (auto simp: pkix_ok_def)
  from Unmarshal_enc_dc [OF assms(2) this r(2,5)] r show ?thesis by simp
qed

definition toy_dc_env :: "(bytes, bytes) dc_env" where
  "toy_dc_env = \<lparr>MarshalPKIXPublicKey = (\<lambda>pk. Ok pk), ParsePKIXPublicKey = (\<lambda>b. Ok b),
     ParseCertificate = (\<lambda>c. Err ''no certificate''), hash_Sum = (\<lambda>h m. replicate (Size h) (fold (+) m 0)),
     pk_kind = (\<lambda>pk. Ed25519Key), sk_kind = (\<lambda>sk. Ed25519Key),
     ecdsa_GenerateKey = (\<lambda>c. Err ''none''), ed25519_GenerateKey = Ok ([1, 2], [1, 2]),
     ecdsa_Sign = (\<lambda>sk m. Err ''none''), ed25519_Sign = (\<lambda>sk m. Ok (sk @ [fold (+) m 0])),
     rsa_SignPSS = (\<lambda>sk h m. Err ''none''), ecdsa_VerifyASN1 = (\<lambda>pk m s. False),
     ed25519_Verify = (\<lambda>pk m s. s = pk @ [fold (+) m 0]), rsa_VerifyPSS = (\<lambda>pk h m s. False)\<rparr>"

definition toy_dc :: "bytes DelegatedCredential" where
  "toy_dc = \<lparr>dc_raw = None, dc_cred = \<lparr>validTime = 3600 * time_Second, expCertVerfAlgo = Ed25519, publicKey = [1, 2]\<rparr>,
     dc_algorithm = Ed25519, dc_signature = [9, 8]\<rparr>"

definition toy_leaf :: "bytes x509_Certificate" where
  "toy_leaf = \<lparr>xc_Raw = [5, 6], xc_KeyUsage = 1,
     xc_Extensions = [\<lparr>ext_Id = [2, 5], ext_Critical = True\<rparr>, \<lparr>ext_Id = extensionDelegatedCredential, ext_Critical = False\<rparr>],
     xc_NotBefore = 1000, xc_PublicKey = [4], xc_isECDSA = False\<rparr>"

definition toy_cert :: "(bytes, bytes) Certificate" where
  "toy_cert = \<lparr>tc_Certificate = [], tc_PrivateKey = [4], tc_Leaf = Some toy_leaf\<rparr>"


lemma toy_New:
  obtains cert' dc sk where "NewDelegatedCredential toy_dc_env toy_cert Ed25519 (3600 * time_Second) False = (cert', Ok (dc, sk))"
    "tc_Leaf cert' = Some toy_leaf" "validTime (dc_cred dc) = 3600 * time_Second"
proof -
  let ?cred = "\<lparr>validTime = 3600 * time_Second, expCertVerfAlgo = Ed25519, publicKey = [1, 2] :: bytes\<rparr>"
  have "cred_marshal toy_dc_env ?cred = Ok (enc_cred ?cred [1, 2])"
    by (simp add: cred_marshal_Ok marshalPublicKeyInfo_def toy_dc_env_def dcMaxPubLen_def)
  moreover have "isValidForDelegation toy_leaf"
    by (simp add: isValidForDelegation_def toy_leaf_def KeyUsageDigitalSignature_def extensionDelegatedCredential_def)
  moreover have "dur_Round (3600 * time_Second) time_Second = 3600 * time_Second"
    by (simp add: dur_Round_def time_Second_def Let_def uint64_def int64_def)
  moreover have "getHash Ed25519 = None"
    by (simp add: getHash_def sig_schemes)
  moreover have "dc_GenerateKey toy_dc_env Ed25519 = Ok ([1, 2], [1, 2])"
    by (simp add: dc_GenerateKey_def isECDSA_def sig_schemes toy_dc_env_def)
  ultimately show ?thesis
    using that
    by (simp add: NewDelegatedCredential_def Let_def dc_parseLeaf_def toy_cert_def getSignatureAlgorithm_def
        prepareDelegationSignatureInput_def dc_sign_def dcMaxSignatureLen_def)
      (simp add: toy_dc_env_def)
qed

lemma toy_validates:
  assumes "NewDelegatedCredential toy_dc_env toy_cert Ed25519 (3600 * time_Second) False = (cert', Ok (dc, sk))"
    "tc_Leaf cert' = Some toy_leaf"
  shows "key_pair_ok toy_dc_env (xc_PublicKey toy_leaf) (tc_PrivateKey toy_cert) \<and>
    5000 < xc_NotBefore toy_leaf + dur_Round (3600 * time_Second) time_Second \<and>
    dur_Round (3600 * time_Second) time_Second \<le>
      dur_Round (int64 (time_Sub 5000 (xc_NotBefore toy_leaf) + dcMaxTTL)) time_Second"
  by (simp add: key_pair_ok_def toy_dc_env_def toy_leaf_def toy_cert_def dur_Round_def time_Second_def Let_def
      uint64_def int64_def time_Sub_def minDuration_def maxDuration_def dcMaxTTL_def dcMaxTTLSeconds_def)

text \<open>
  C31: a credential that the delegator has just made validates at the peer, in the same role, at every
  time within the period, when the remaining time is at most seven days.
\<close>

theorem dc_new_validates:
  assumes "NewDelegatedCredential D cert pubAlgo vt isClient = (cert', Ok (dc, sk))" and "tc_Leaf cert' = Some leaf"
    and "key_pair_ok D (xc_PublicKey leaf) (tc_PrivateKey cert)"
    and "now < xc_NotBefore leaf + dur_Round vt time_Second"
    and "dur_Round vt time_Second \<le> dur_Round (int64 (time_Sub now (xc_NotBefore leaf) + dcMaxTTL)) time_Second"
  shows "Validate D dc leaf isClient now pubAlgo = Ok True"
  using assms by (rule new_validates)


text \<open>
  The messages that are signed for the client's and for the server's role are never equal, whatever
  the credentials and certificates.
\<close>

theorem dc_roles_separated:
  "prepareDelegationSignatureInput D None cred cert algo True = Ok m \<Longrightarrow>
   prepareDelegationSignatureInput D None cred' cert' algo' False = Ok m' \<Longrightarrow> m \<noteq> m'"
  by (auto simp: prepareDelegationSignatureInput_def bind_res_eq_Ok dc_context_def ascii_def)



theorem dc_new_validates_witness:
  "\<exists>cert' dc sk. NewDelegatedCredential toy_dc_env toy_cert Ed25519 (3600 * time_Second) False = (cert', Ok (dc, sk)) \<and>
     Validate toy_dc_env dc toy_leaf False 5000 Ed25519 = Ok True"
proof -
  obtain cert' dc sk where n: "NewDelegatedCredential toy_dc_env toy_cert Ed25519 (3600 * time_Second) False = (cert', Ok (dc, sk))"
    "tc_Leaf cert' = Some toy_leaf"
    by (rule toy_New)
  then show ?thesis
    using toy_validates [OF n] dc_new_validates [OF n] by blast
qed


end
