(* ===== verification/Cert_Cache.thy ===== *)
theory Cert_Cache
  imports Prelude "HOL-Library.Multiset"
begin

text \<open>
  The intern table of certificates of \<^verbatim>\<open>crypto/tls/cache.go\<close>. The operations of the map and of the reference counts are atomic, and
  the code runs between them in any order: \<open>cc_step\<close> interleaves the loads, parses, stores, activations, finalizers and evictions of
  all goroutines, and \<open>newCert\<close> is one call without interruption. Parsing a certificate is a parameter.
\<close>

section \<open>Certificates and the table\<close>

text \<open>What the protocol reads of a parsed certificate: its DER encoding, its expiry and the check of a host name.\<close>

record peerCert =
  pc_Raw :: bytes
  pc_NotAfter :: int
  pc_VerifyHostname :: "bytes \<Rightarrow> bool"

record cacheEntry =
  en_refs :: int
  en_cert :: peerCert

text \<open>An entry is a pointer, so that two entries of one certificate are told apart.\<close>

type_synonym entryPtr = nat

record activeCert =
  ac_cert :: peerCert
  ac_entry :: entryPtr

record certCache =
  cc_map :: "bytes \<rightharpoonup> entryPtr"
  cc_entries :: "entryPtr \<rightharpoonup> cacheEntry"
  cc_next :: entryPtr

definition entryOf :: "certCache \<Rightarrow> entryPtr \<Rightarrow> cacheEntry" where
  "entryOf cc e = the (cc_entries cc e)"

definition addRef :: "int \<Rightarrow> entryPtr \<Rightarrow> certCache \<Rightarrow> certCache" where
  "addRef d e cc = cc\<lparr>cc_entries := (cc_entries cc)(e \<mapsto> (entryOf cc e)\<lparr>en_refs := en_refs (entryOf cc e) + d\<rparr>)\<rparr>"

definition cc_active :: "entryPtr \<Rightarrow> certCache \<Rightarrow> activeCert \<times> certCache" where
  "cc_active e cc = (\<lparr>ac_cert = en_cert (entryOf cc e), ac_entry = e\<rparr>, addRef 1 e cc)"

definition evict :: "entryPtr \<Rightarrow> certCache \<Rightarrow> certCache" where
  "evict e cc = cc\<lparr>cc_map := (cc_map cc)(pc_Raw (en_cert (entryOf cc e)) := None)\<rparr>"

text \<open>The finalizer of a handle: its first half, whether the second follows, and the second.\<close>

definition release :: "activeCert \<Rightarrow> certCache \<Rightarrow> bool \<times> certCache" where
  "release a cc = (let cc = addRef (- 1) (ac_entry a) cc in (en_refs (entryOf cc (ac_entry a)) = 0, cc))"

definition LoadOrStore :: "bytes \<Rightarrow> peerCert \<Rightarrow> certCache \<Rightarrow> entryPtr \<times> certCache" where
  "LoadOrStore der cert cc = (case cc_map cc der of
     Some e \<Rightarrow> (e, cc)
   | None \<Rightarrow> (cc_next cc, cc\<lparr>cc_map := (cc_map cc)(der \<mapsto> cc_next cc),
       cc_entries := (cc_entries cc)(cc_next cc \<mapsto> \<lparr>en_refs = 0, en_cert = cert\<rparr>), cc_next := Suc (cc_next cc)\<rparr>))"

definition newCert :: "(bytes \<Rightarrow> peerCert res) \<Rightarrow> bytes \<Rightarrow> certCache \<Rightarrow> activeCert res \<times> certCache" where
  "newCert parse der cc = (case cc_map cc der of
     Some e \<Rightarrow> (let (a, cc) = cc_active e cc in (Ok a, cc))
   | None \<Rightarrow> (case parse der of
        Err e \<Rightarrow> (Err e, cc)
      | Panic p \<Rightarrow> (Panic p, cc)
      | Ok cert \<Rightarrow> let (e, cc) = LoadOrStore der cert cc; (a, cc) = cc_active e cc in (Ok a, cc)))"

section \<open>Interleaved calls\<close>

text \<open>
  The table, the certificates that a call has parsed and not stored yet, the entries that a call has loaded and not activated yet,
  the handles that are alive, and the entries whose finalizer still has to evict them.
\<close>

record cacheState =
  gs_cache :: certCache
  gs_parsed :: "(bytes \<times> peerCert) list"
  gs_loaded :: "entryPtr multiset"
  gs_handles :: "activeCert multiset"
  gs_evicting :: "entryPtr multiset"

definition emptyCache :: certCache where
  "emptyCache = \<lparr>cc_map = Map.empty, cc_entries = Map.empty, cc_next = 0\<rparr>"

definition emptyState :: cacheState where
  "emptyState = \<lparr>gs_cache = emptyCache, gs_parsed = [], gs_loaded = {#}, gs_handles = {#}, gs_evicting = {#}\<rparr>"

inductive cc_step :: "(bytes \<Rightarrow> peerCert res) \<Rightarrow> cacheState \<Rightarrow> cacheState \<Rightarrow> bool" for parse where
  hit: "cc_map (gs_cache s) der = Some e \<Longrightarrow> cc_step parse s (s\<lparr>gs_loaded := gs_loaded s + {#e#}\<rparr>)"
| miss: "cc_map (gs_cache s) der = None \<Longrightarrow> parse der = Ok cert \<Longrightarrow> cc_step parse s (s\<lparr>gs_parsed := (der, cert) # gs_parsed s\<rparr>)"
| store: "(der, cert) \<in> set (gs_parsed s) \<Longrightarrow> LoadOrStore der cert (gs_cache s) = (e, cc) \<Longrightarrow>
    cc_step parse s (s\<lparr>gs_cache := cc, gs_parsed := remove1 (der, cert) (gs_parsed s), gs_loaded := gs_loaded s + {#e#}\<rparr>)"
| activate: "e \<in># gs_loaded s \<Longrightarrow> cc_active e (gs_cache s) = (a, cc) \<Longrightarrow>
    cc_step parse s (s\<lparr>gs_cache := cc, gs_loaded := gs_loaded s - {#e#}, gs_handles := gs_handles s + {#a#}\<rparr>)"
| finalize: "a \<in># gs_handles s \<Longrightarrow> release a (gs_cache s) = (unused, cc) \<Longrightarrow>
    cc_step parse s (s\<lparr>gs_cache := cc, gs_handles := gs_handles s - {#a#},
      gs_evicting := gs_evicting s + (if unused then {#ac_entry a#} else {#})\<rparr>)"
| evicted: "e \<in># gs_evicting s \<Longrightarrow>
    cc_step parse s (s\<lparr>gs_cache := evict e (gs_cache s), gs_evicting := gs_evicting s - {#e#}\<rparr>)"

definition cc_reachable :: "(bytes \<Rightarrow> peerCert res) \<Rightarrow> cacheState \<Rightarrow> bool" where
  "cc_reachable parse s \<longleftrightarrow> (cc_step parse)\<^sup>*\<^sup>* emptyState s"

text \<open>
  The invariant. Pointers are to entries that exist; an entry in the table is the parsed certificate of its key; the count of an entry
  is the number of its handles; and an entry stays in the table only while somebody will still evict it.
\<close>

definition entries_ok :: "cacheState \<Rightarrow> bool" where
  "entries_ok s \<longleftrightarrow> (\<forall>e. cc_entries (gs_cache s) e = None \<longleftrightarrow> cc_next (gs_cache s) \<le> e) \<and>
     (\<forall>der e. cc_map (gs_cache s) der = Some e \<longrightarrow> e < cc_next (gs_cache s)) \<and>
     (\<forall>e. e \<in># gs_loaded s \<or> e \<in># image_mset ac_entry (gs_handles s) \<or> e \<in># gs_evicting s \<longrightarrow> e < cc_next (gs_cache s))"

definition interned_ok :: "(bytes \<Rightarrow> peerCert res) \<Rightarrow> cacheState \<Rightarrow> bool" where
  "interned_ok parse s \<longleftrightarrow> (\<forall>der e. cc_map (gs_cache s) der = Some e \<longrightarrow> parse der = Ok (en_cert (entryOf (gs_cache s) e))) \<and>
     (\<forall>der cert. (der, cert) \<in> set (gs_parsed s) \<longrightarrow> parse der = Ok cert) \<and>
     (\<forall>a. a \<in># gs_handles s \<longrightarrow> ac_cert a = en_cert (entryOf (gs_cache s) (ac_entry a)))"

definition refs_ok :: "cacheState \<Rightarrow> bool" where
  "refs_ok s \<longleftrightarrow> (\<forall>e. e < cc_next (gs_cache s) \<longrightarrow>
     en_refs (entryOf (gs_cache s) e) = int (count (image_mset ac_entry (gs_handles s)) e))"

definition owned_ok :: "cacheState \<Rightarrow> bool" where
  "owned_ok s \<longleftrightarrow> (\<forall>der e. cc_map (gs_cache s) der = Some e \<longrightarrow>
     e \<in># gs_loaded s \<or> e \<in># image_mset ac_entry (gs_handles s) \<or> e \<in># gs_evicting s)"

definition cacheState_ok :: "(bytes \<Rightarrow> peerCert res) \<Rightarrow> cacheState \<Rightarrow> bool" where
  "cacheState_ok parse s \<longleftrightarrow> entries_ok s \<and> interned_ok parse s \<and> refs_ok s \<and> owned_ok s"

text \<open>What the table relies on of the parser: a certificate keeps the bytes it was parsed from.\<close>

definition raw_kept :: "(bytes \<Rightarrow> peerCert res) \<Rightarrow> bool" where
  "raw_kept parse \<longleftrightarrow> (\<forall>der cert. parse der = Ok cert \<longrightarrow> pc_Raw cert = der)"

lemma entryOf_addRef [simp]:
  "entryOf (addRef d f cc) e = (if e = f then (entryOf cc e)\<lparr>en_refs := en_refs (entryOf cc e) + d\<rparr> else entryOf cc e)"
  by (simp add: entryOf_def addRef_def)

lemma addRef_fields [simp]:
  "cc_map (addRef d f cc) = cc_map cc" "cc_next (addRef d f cc) = cc_next cc"
  "cc_entries (addRef d f cc) e = None \<longleftrightarrow> e \<noteq> f \<and> cc_entries cc e = None"
  by (simp_all add: addRef_def)

lemma evict_fields [simp]:
  "cc_entries (evict e cc) = cc_entries cc" "cc_next (evict e cc) = cc_next cc" "entryOf (evict e cc) = entryOf cc"
  by (simp_all add: evict_def entryOf_def fun_eq_iff)

lemma entries_step: "cc_step parse s t \<Longrightarrow> entries_ok s \<Longrightarrow> entries_ok t"
proof (induction rule: cc_step.induct)
  case (store der cert s e cc)
  then show ?case
    by (auto simp: entries_ok_def LoadOrStore_def less_Suc_eq Suc_le_eq split: option.splits if_splits)
next
  case (activate e s a cc)
  then show ?case by (auto simp: entries_ok_def cc_active_def dest: in_diffD)
next
  case (finalize a s unused cc)
  then show ?case by (auto simp: entries_ok_def release_def Let_def dest: in_diffD)
next
  case (evicted e s)
  then show ?case by (auto simp: entries_ok_def evict_def split: if_splits dest: in_diffD)
qed (auto simp: entries_ok_def)

lemma interned_step: "cc_step parse s t \<Longrightarrow> entries_ok s \<Longrightarrow> interned_ok parse s \<Longrightarrow> interned_ok parse t"
proof (induction rule: cc_step.induct)
  case (store der cert s e cc)
  have "cc_map (gs_cache s) d \<noteq> Some (cc_next (gs_cache s))" for d
    using store(3) unfolding entries_ok_def by blast
  with store show ?case
    by (auto simp: interned_ok_def entries_ok_def LoadOrStore_def entryOf_def split: option.splits if_splits
        dest: notin_set_remove1 set_remove1_subset [THEN subsetD])
next
  case (activate e s a cc)
  then show ?case by (auto simp: interned_ok_def cc_active_def)
next
  case (finalize a s unused cc)
  then show ?case by (auto simp: interned_ok_def release_def Let_def dest: in_diffD)
next
  case (evicted e s)
  then show ?case by (auto simp: interned_ok_def evict_def entryOf_def split: if_splits)
qed (auto simp: interned_ok_def)

lemma refs_step: "cc_step parse s t \<Longrightarrow> entries_ok s \<Longrightarrow> refs_ok s \<Longrightarrow> refs_ok t"
proof (induction rule: cc_step.induct)
  case (store der cert s e cc)
  then have "count (image_mset ac_entry (gs_handles s)) (cc_next (gs_cache s)) = 0"
    by (auto simp: entries_ok_def count_eq_zero_iff)
  with store show ?case
    by (auto simp: refs_ok_def LoadOrStore_def less_Suc_eq entryOf_def split: option.splits)
next
  case (activate e s a cc)
  then show ?case by (auto simp: refs_ok_def cc_active_def)
next
  case (finalize a s unused cc)
  have "count (image_mset ac_entry (gs_handles s)) (ac_entry a) > 0"
    using finalize(1) by (simp add: count_greater_zero_iff)
  moreover have "image_mset ac_entry (gs_handles s - {#a#}) = image_mset ac_entry (gs_handles s) - {#ac_entry a#}"
    using finalize(1) by (simp add: image_mset_Diff)
  ultimately show ?case using finalize by (auto simp: refs_ok_def release_def Let_def)
qed (auto simp: refs_ok_def)

lemma in_mset_minus: "e \<in># M \<Longrightarrow> e \<in># M - {#x#} \<or> count M x = 1 \<and> e = x"
  using count_greater_zero_iff [of M e] by (cases "e = x") (auto simp: in_diff_count simp del: count_greater_zero_iff)

lemma owned_step:
  "cc_step parse s t \<Longrightarrow> raw_kept parse \<Longrightarrow> entries_ok s \<Longrightarrow> interned_ok parse s \<Longrightarrow> refs_ok s \<Longrightarrow> owned_ok s \<Longrightarrow> owned_ok t"
proof (induction rule: cc_step.induct)
  case (store der cert s e cc)
  then show ?case unfolding owned_ok_def LoadOrStore_def by (fastforce split: option.splits if_splits)
next
  case (activate e s a cc)
  then show ?case unfolding owned_ok_def cc_active_def by (fastforce simp: in_diff_count)
next
  case (finalize a s unused cc)
  let ?n = "image_mset ac_entry (gs_handles s)"
  have c: "int (count ?n (ac_entry a)) = en_refs (entryOf (gs_cache s) (ac_entry a))"
    using finalize by (simp add: refs_ok_def entries_ok_def)
  have i: "image_mset ac_entry (gs_handles s - {#a#}) = ?n - {#ac_entry a#}"
    using finalize(1) by (simp add: image_mset_Diff)
  have u: "cc_map cc = cc_map (gs_cache s)" "unused \<longleftrightarrow> count ?n (ac_entry a) = 1"
    using finalize(2) c by (auto simp: release_def Let_def)
  have "e \<in># ?n \<Longrightarrow> e \<in># ?n - {#ac_entry a#} \<or> unused \<and> e = ac_entry a" for e
    unfolding u(2) by (rule in_mset_minus)
  with finalize(7) show ?case
    unfolding owned_ok_def by (simp add: i u(1) del: in_image_mset) blast
next
  case (evicted e s)
  have "cc_map (gs_cache s) der = Some e \<Longrightarrow> der = pc_Raw (en_cert (entryOf (gs_cache s) e))" for der
    using evicted by (auto simp: interned_ok_def raw_kept_def)
  with evicted show ?case by (auto simp: owned_ok_def evict_def in_diff_count split: if_splits)
qed (auto simp: owned_ok_def)

lemma cacheState_ok_step: "cc_step parse s t \<Longrightarrow> raw_kept parse \<Longrightarrow> cacheState_ok parse s \<Longrightarrow> cacheState_ok parse t"
  using entries_step interned_step refs_step owned_step unfolding cacheState_ok_def by blast

lemma emptyState_ok: "cacheState_ok parse emptyState"
  by (simp add: cacheState_ok_def entries_ok_def interned_ok_def refs_ok_def owned_ok_def emptyState_def emptyCache_def)

lemma reachable_ok:
  assumes "raw_kept parse" and "cc_reachable parse s"
  shows "cacheState_ok parse s"
  using assms(2) unfolding cc_reachable_def
proof (induction rule: rtranclp_induct)
  case base
  show ?case by (rule emptyState_ok)
next
  case (step s t)
  with assms(1) show ?case by (blast intro: cacheState_ok_step)
qed


section \<open>One call\<close>

text \<open>A call that is not interrupted is a sequence of steps.\<close>

lemma newCert_steps:
  assumes "newCert parse der (gs_cache s) = (Ok a, cc)"
  shows "(cc_step parse)\<^sup>*\<^sup>* s (s\<lparr>gs_cache := cc, gs_handles := gs_handles s + {#a#}\<rparr>)"
proof -
  have act: "cc_step parse (s\<lparr>gs_cache := c1, gs_loaded := gs_loaded s + {#e#}\<rparr>) (s\<lparr>gs_cache := cc, gs_handles := gs_handles s + {#a#}\<rparr>)"
    if "cc_active e c1 = (a, cc)" for e c1
    using cc_step.activate [where s = "s\<lparr>gs_cache := c1, gs_loaded := gs_loaded s + {#e#}\<rparr>" and e = e, of a cc parse] that by simp
  show ?thesis
  proof (cases "cc_map (gs_cache s) der")
    case None
    with assms obtain cert e c1 where p: "parse der = Ok cert" "LoadOrStore der cert (gs_cache s) = (e, c1)" "cc_active e c1 = (a, cc)"
      by (auto simp: newCert_def Let_def split: res.splits prod.splits)
    have 1: "cc_step parse s (s\<lparr>gs_parsed := (der, cert) # gs_parsed s\<rparr>)"
      by (rule cc_step.miss) (rule None p(1))+
    have 2: "cc_step parse (s\<lparr>gs_parsed := (der, cert) # gs_parsed s\<rparr>) (s\<lparr>gs_cache := c1, gs_loaded := gs_loaded s + {#e#}\<rparr>)"
      using cc_step.store [where s = "s\<lparr>gs_parsed := (der, cert) # gs_parsed s\<rparr>", of der cert e c1 parse] p(2) by simp
    from 1 2 act [OF p(3)] show ?thesis by (meson converse_rtranclp_into_rtranclp r_into_rtranclp)
  next
    case (Some e)
    with assms have p: "cc_active e (gs_cache s) = (a, cc)"
      by (auto simp: newCert_def split: prod.splits)
    from cc_step.hit [OF Some, of parse] act [OF p] show ?thesis
      by (auto intro: converse_rtranclp_into_rtranclp)
  qed
qed

text \<open>The table between calls, as far as a call relies on it.\<close>

definition interned :: "(bytes \<Rightarrow> peerCert res) \<Rightarrow> certCache \<Rightarrow> bool" where
  "interned parse cc \<longleftrightarrow> (\<forall>der e. cc_map cc der = Some e \<longrightarrow> parse der = Ok (en_cert (entryOf cc e)) \<and> e < cc_next cc)"

lemma interned_empty [simp]: "interned parse emptyCache"
  by (simp add: interned_def emptyCache_def)

lemma reachable_interned: "raw_kept parse \<Longrightarrow> cc_reachable parse s \<Longrightarrow> interned parse (gs_cache s)"
  using reachable_ok [of parse s] by (simp add: cacheState_ok_def interned_ok_def entries_ok_def interned_def)

lemma newCert_interned:
  assumes i: "interned parse cc" and n: "newCert parse der cc = (r, cc')"
  shows "interned parse cc'"
proof -
  have "cc_map cc d \<noteq> Some (cc_next cc)" for d
    using i unfolding interned_def by blast
  moreover have "cc_map cc d = Some e \<Longrightarrow> e < Suc (cc_next cc)" for d e
    using i unfolding interned_def by (simp add: less_SucI)
  ultimately show ?thesis
    using i n
    by (auto simp: interned_def newCert_def LoadOrStore_def cc_active_def Let_def entryOf_def addRef_def
        split: option.splits res.splits if_splits)
qed

lemma newCert_spec:
  assumes "interned parse cc" and "newCert parse der cc = (r, cc')"
  shows "parse der = Ok cert \<Longrightarrow> \<exists>a. r = Ok a \<and> ac_cert a = cert"
    and "r = Ok a \<Longrightarrow> parse der = Ok (ac_cert a)"
    and "is_panic r \<Longrightarrow> is_panic (parse der)"
  using assms
  by (auto simp: interned_def newCert_def LoadOrStore_def cc_active_def Let_def entryOf_def split: option.splits res.splits)

section \<open>Properties\<close>

text \<open>
  C17: The certificate cache under every interleaving of its steps: an entry in the table is the parsed certificate of its key, a handle has
  the certificate of its entry, the count of an entry is the number of its handles that are alive, and when no call is running and every
  handle has been finalized the table is empty.
\<close>

theorem cert_cache_no_leak:
  assumes "raw_kept parse" and "cc_reachable parse s"
  shows "(\<forall>der e. cc_map (gs_cache s) der = Some e \<longrightarrow> parse der = Ok (en_cert (entryOf (gs_cache s) e))) \<and>
    (\<forall>a. a \<in># gs_handles s \<longrightarrow> ac_cert a = en_cert (entryOf (gs_cache s) (ac_entry a)) \<and>
       en_refs (entryOf (gs_cache s) (ac_entry a)) = int (size {#b \<in># gs_handles s. ac_entry b = ac_entry a#})) \<and>
    (gs_loaded s = {#} \<and> gs_handles s = {#} \<and> gs_evicting s = {#} \<longrightarrow> cc_map (gs_cache s) = Map.empty)"
proof -
  note ok = reachable_ok [OF assms, unfolded cacheState_ok_def]
  have "count (image_mset ac_entry M) e = size {#b \<in># M. ac_entry b = e#}" for M e
    by (induction M) auto
  then have "en_refs (entryOf (gs_cache s) (ac_entry a)) = int (size {#b \<in># gs_handles s. ac_entry b = ac_entry a#})" if "a \<in># gs_handles s" for a
    using ok that by (auto simp: refs_ok_def entries_ok_def)
  moreover have "cc_map (gs_cache s) = Map.empty" if "gs_loaded s = {#} \<and> gs_handles s = {#} \<and> gs_evicting s = {#}"
  proof
    fix der
    show "cc_map (gs_cache s) der = None" using ok that by (cases "cc_map (gs_cache s) der") (auto simp: owned_ok_def)
  qed
  ultimately show ?thesis using ok by (simp add: interned_ok_def)
qed

text \<open>A certificate that is used once: stored with its handle, and gone when the handle is.\<close>

theorem cert_cache_no_leak_witness:
  "\<exists>s. cc_reachable (\<lambda>der. Ok \<lparr>pc_Raw = der, pc_NotAfter = 0, pc_VerifyHostname = (\<lambda>_. True)\<rparr>) s \<and> size (gs_handles s) = 1 \<and>
     cc_map (gs_cache s) [48] \<noteq> None \<and> (\<forall>a. a \<in># gs_handles s \<longrightarrow> en_refs (entryOf (gs_cache s) (ac_entry a)) = 1)"
proof -
  let ?parse = "\<lambda>der. Ok \<lparr>pc_Raw = der, pc_NotAfter = 0, pc_VerifyHostname = (\<lambda>_ :: bytes. True)\<rparr>"
  obtain a cc where n: "newCert ?parse [48] (gs_cache emptyState) = (Ok a, cc)" "cc_map cc [48] \<noteq> None"
    by (simp add: newCert_def emptyState_def emptyCache_def LoadOrStore_def cc_active_def addRef_def)
  let ?s = "emptyState\<lparr>gs_cache := cc, gs_handles := gs_handles emptyState + {#a#}\<rparr>"
  have r: "cc_reachable ?parse ?s" unfolding cc_reachable_def by (rule newCert_steps [OF n(1)])
  have h: "gs_handles ?s = {#a#}" by (simp add: emptyState_def)
  have k: "raw_kept ?parse" by (simp add: raw_kept_def)
  have "en_refs (entryOf (gs_cache ?s) (ac_entry b)) = 1" if "b \<in># gs_handles ?s" for b
    using cert_cache_no_leak [OF k r] that unfolding h by simp
  with r n(2) h show ?thesis by (intro exI [of _ ?s]) simp
qed

end
