(* ===== verification/Session_State.thy ===== *)
theory Session_State
  imports TLS13_State Cert_Cache Go_Time
begin

text \<open>
  Resumable sessions: \<^verbatim>\<open>SessionState\<close> of \<^verbatim>\<open>crypto/tls/ticket.go\<close> with its encoding and its parser. A session is encoded with the
  certificates of the peer, which the table of certificates interns when the session is parsed; parsing a certificate is a
  parameter. A slice that is nil is \<open>None\<close> where the code tells it from an empty one.
\<close>

section \<open>Sessions\<close>

type_synonym u64 = "64 word"

record SessionState =
  sn_Extra :: "bytes list"
  sn_EarlyData :: bool
  sn_version :: u16
  sn_isClient :: bool
  sn_cipherSuite :: u16
  sn_createdAt :: u64
  sn_secret :: bytes
  sn_extMasterSecret :: bool
  sn_peerCertificates :: "peerCert list"
  sn_activeCertHandles :: "activeCert list"
  sn_ocspResponse :: "bytes option"
  sn_scts :: "bytes list option"
  sn_verifiedChains :: "peerCert list list"
  sn_alpnProtocol :: bytes
  sn_useBy :: u64
  sn_ageAdd :: u32

definition addUint64 :: "u64 \<Rightarrow> Builder \<Rightarrow> build" where
  "addUint64 v = stmts [AddUint32 (ucast (drop_bit 32 v)), AddUint32 (ucast v)]"

definition readUint64 :: "bytes \<Rightarrow> (u64 \<times> bytes) option" where
  "readUint64 s = do {
     (hi, s) \<leftarrow> ReadUint32 s;
     (lo, s) \<leftarrow> ReadUint32 s;
     Some (push_bit 32 (ucast hi) OR ucast lo, s)}"

definition ReadUint64 :: "bytes \<Rightarrow> (u64 \<times> bytes) option" where
  "ReadUint64 s = do {
     (v, s) \<leftarrow> read 8 s;
     Some (push_bit 56 (ucast (v ! 0)) OR push_bit 48 (ucast (v ! 1)) OR push_bit 40 (ucast (v ! 2)) OR push_bit 32 (ucast (v ! 3)) OR
       push_bit 24 (ucast (v ! 4)) OR push_bit 16 (ucast (v ! 5)) OR push_bit 8 (ucast (v ! 6)) OR ucast (v ! 7), s)}"

subsection \<open>Encoding\<close>

definition certificatesToBytesSlice :: "peerCert list \<Rightarrow> bytes list" where
  "certificatesToBytesSlice certs = map pc_Raw certs"

definition sessionCertificate :: "SessionState \<Rightarrow> tlsCertificate" where
  "sessionCertificate s = \<lparr>ce_Certificate = certificatesToBytesSlice (sn_peerCertificates s), ce_OCSPStaple = sn_ocspResponse s,
     ce_SignedCertificateTimestamps = sn_scts s, ce_DelegatedCredential = None\<rparr>"

text \<open>The first certificate of a chain is left out, it is always the leaf.\<close>

definition addChain :: "peerCert list \<Rightarrow> Builder \<Rightarrow> build" where
  "addChain chain = AddUint24LengthPrefixed
     (if length chain = 0 then SetError ''tls: internal error: empty verified chain''
      else forEach (\<lambda>cert. AddUint24LengthPrefixed (AddBytes (pc_Raw cert))) (drop 1 chain))"

definition sn_body :: "SessionState \<Rightarrow> Builder \<Rightarrow> build" where
  "sn_body s = stmts
     [AddUint16 (sn_version s),
      AddUint8 (if sn_isClient s then 2 else 1),
      AddUint16 (sn_cipherSuite s),
      addUint64 (sn_createdAt s),
      AddUint8LengthPrefixed (AddBytes (sn_secret s)),
      AddUint24LengthPrefixed (forEach (\<lambda>extra. AddUint24LengthPrefixed (AddBytes extra)) (sn_Extra s)),
      AddUint8 (if sn_extMasterSecret s then 1 else 0),
      AddUint8 (if sn_EarlyData s then 1 else 0),
      marshalCertificate (sessionCertificate s),
      AddUint24LengthPrefixed (forEach addChain (sn_verifiedChains s)),
      addWhen (sn_EarlyData s) (AddUint8LengthPrefixed (AddBytes (sn_alpnProtocol s))),
      addWhen (sn_isClient s) (addWhen (sn_version s \<ge> VersionTLS13) (stmts [addUint64 (sn_useBy s), AddUint32 (sn_ageAdd s)]))]"

definition sn_Bytes :: "SessionState \<Rightarrow> bytes res" where
  "sn_Bytes s = runBytes (sn_body s)"

subsection \<open>Parsing\<close>

text \<open>A computation that may fail and that works on the table of certificates.\<close>

definition bind_cc :: "'a res \<times> certCache \<Rightarrow> ('a \<Rightarrow> certCache \<Rightarrow> 'b res \<times> certCache) \<Rightarrow> 'b res \<times> certCache" where
  "bind_cc r f = (case r of (Ok x, cc) \<Rightarrow> f x cc | (Err e, cc) \<Rightarrow> (Err e, cc) | (Panic p, cc) \<Rightarrow> (Panic p, cc))"

lemma bind_cc_simps [simp]: "bind_cc (Ok x, cc) f = f x cc" "bind_cc (Err e, cc) f = (Err e, cc)" "bind_cc (Panic p, cc) f = (Panic p, cc)"
  by (simp_all add: bind_cc_def)

lemma bind_cc_cong_weak: "r = r' \<Longrightarrow> bind_cc r f = bind_cc r' f"
  by simp

definition invalidSession :: string where "invalidSession = ''tls: invalid session encoding''"

definition lift_cc :: "'a option \<Rightarrow> certCache \<Rightarrow> 'a res \<times> certCache" where
  "lift_cc r cc = (res_of_option invalidSession r, cc)"

record sessionHeader =
  sh_hver :: u16
  sh_htyp :: u8
  sh_hcipherSuite :: u16
  sh_hcreatedAt :: u64
  sh_hsecret :: bytes
  sh_hextra :: bytes
  sh_hems :: u8
  sh_hearly :: u8
  sh_hcert :: tlsCertificate

text \<open>The reads up to the certificates, with the rest of the input.\<close>

definition readSessionHeader :: "bytes \<Rightarrow> (sessionHeader \<times> bytes) option" where
  "readSessionHeader s = do {
     (version, s) \<leftarrow> ReadUint16 s;
     (styp, s) \<leftarrow> ReadUint8 s;
     if styp \<noteq> 1 \<and> styp \<noteq> 2 then None else do {
     (cipherSuite, s) \<leftarrow> ReadUint16 s;
     (createdAt, s) \<leftarrow> readUint64 s;
     (secret, s) \<leftarrow> ReadUint8LengthPrefixed s;
     (extra, s) \<leftarrow> ReadUint24LengthPrefixed s;
     (ems, s) \<leftarrow> ReadUint8 s;
     (early, s) \<leftarrow> ReadUint8 s;
     if length secret = 0 then None else do {
     (cert, s) \<leftarrow> unmarshalCertificate s
       \<lparr>ce_Certificate = [], ce_OCSPStaple = None, ce_SignedCertificateTimestamps = None, ce_DelegatedCredential = None\<rparr>;
     Some (\<lparr>sh_hver = version, sh_htyp = styp, sh_hcipherSuite = cipherSuite, sh_hcreatedAt = createdAt, sh_hsecret = secret,
       sh_hextra = extra, sh_hems = ems, sh_hearly = early, sh_hcert = cert\<rparr>, s)}}}"

definition readBool :: "u8 \<Rightarrow> bool option" where
  "readBool v = (if v = 0 then Some False else if v = 1 then Some True else None)"

fun internCerts :: "(bytes \<Rightarrow> peerCert res) \<Rightarrow> bytes list \<Rightarrow> certCache \<Rightarrow> activeCert list res \<times> certCache" where
  "internCerts parse [] cc = (Ok [], cc)"
| "internCerts parse (der # ders) cc =
     bind_cc (newCert parse der cc) (\<lambda>a cc. bind_cc (internCerts parse ders cc) (\<lambda>as cc. (Ok (a # as), cc)))"

text \<open>Every certificate of a chain and every chain takes at least three bytes, so the length of the input is enough fuel.\<close>

fun chainCerts :: "nat \<Rightarrow> (bytes \<Rightarrow> peerCert res) \<Rightarrow> bytes \<Rightarrow> certCache \<Rightarrow> activeCert list res \<times> certCache" where
  "chainCerts n parse [] cc = (Ok [], cc)"
| "chainCerts 0 parse (b # bs) cc = (Err invalidSession, cc)"
| "chainCerts (Suc n) parse (b # bs) cc =
     bind_cc (lift_cc (ReadUint24LengthPrefixed (b # bs)) cc) (\<lambda>(der, s) cc.
     bind_cc (newCert parse der cc) (\<lambda>a cc.
     bind_cc (chainCerts n parse s cc) (\<lambda>as cc. (Ok (a # as), cc))))"

fun chainList :: "nat \<Rightarrow> (bytes \<Rightarrow> peerCert res) \<Rightarrow> peerCert list \<Rightarrow> bytes \<Rightarrow> certCache \<Rightarrow>
    (peerCert list list \<times> activeCert list) res \<times> certCache" where
  "chainList n parse peers [] cc = (Ok ([], []), cc)"
| "chainList 0 parse peers (b # bs) cc = (Err invalidSession, cc)"
| "chainList (Suc n) parse peers (b # bs) cc =
     bind_cc (lift_cc (ReadUint24LengthPrefixed (b # bs)) cc) (\<lambda>(certList, s) cc.
     if length peers = 0 then (Err invalidSession, cc)
     else bind_cc (chainCerts (length certList) parse certList cc) (\<lambda>as cc.
       bind_cc (chainList n parse peers s cc) (\<lambda>(chains, handles) cc.
       (Ok ((peers ! 0 # map ac_cert as) # chains, as @ handles), cc))))"

text \<open>What follows the chains.\<close>

definition readSessionTail :: "u8 \<Rightarrow> bytes \<Rightarrow> SessionState \<Rightarrow> SessionState res" where
  "readSessionTail styp s ss =
     bind_res (if sn_EarlyData ss then
         bind_res (res_of_option invalidSession (ReadUint8LengthPrefixed s)) (\<lambda>(alpn, s). Ok (ss\<lparr>sn_alpnProtocol := alpn\<rparr>, s))
       else Ok (ss, s)) (\<lambda>(ss, s).
     if styp \<noteq> 2 then (if \<not> Empty s then Err invalidSession else Ok ss)
     else let ss = ss\<lparr>sn_isClient := True\<rparr> in
       if length (sn_peerCertificates ss) = 0 then Err ''tls: no server certificates in client session''
       else if sn_version ss < VersionTLS13 then (if \<not> Empty s then Err invalidSession else Ok ss)
       else bind_res (res_of_option invalidSession (ReadUint64 s)) (\<lambda>(useBy, s).
         bind_res (res_of_option invalidSession (ReadUint32 s)) (\<lambda>(ageAdd, s).
         if \<not> Empty s then Err invalidSession else Ok (ss\<lparr>sn_useBy := useBy, sn_ageAdd := ageAdd\<rparr>))))"

definition ParseSessionState :: "(bytes \<Rightarrow> peerCert res) \<Rightarrow> bytes \<Rightarrow> certCache \<Rightarrow> SessionState res \<times> certCache" where
  "ParseSessionState parse data cc =
     bind_cc (lift_cc (readSessionHeader data) cc) (\<lambda>(h, s) cc.
     bind_cc (lift_cc (readMany ReadUint24LengthPrefixed (sh_hextra h)) cc) (\<lambda>extra cc.
     bind_cc (lift_cc (readBool (sh_hems h)) cc) (\<lambda>extMasterSecret cc.
     bind_cc (lift_cc (readBool (sh_hearly h)) cc) (\<lambda>earlyData cc.
     bind_cc (internCerts parse (ce_Certificate (sh_hcert h)) cc) (\<lambda>peers cc.
     bind_cc (lift_cc (ReadUint24LengthPrefixed s) cc) (\<lambda>(list, s) cc.
     bind_cc (chainList (length list) parse (map ac_cert peers) list cc) (\<lambda>(chains, handles) cc.
     (readSessionTail (sh_htyp h) s
        \<lparr>sn_Extra = extra, sn_EarlyData = earlyData, sn_version = sh_hver h, sn_isClient = False, sn_cipherSuite = sh_hcipherSuite h,
         sn_createdAt = sh_hcreatedAt h, sn_secret = sh_hsecret h, sn_extMasterSecret = extMasterSecret,
         sn_peerCertificates = map ac_cert peers, sn_activeCertHandles = peers @ handles, sn_ocspResponse = ce_OCSPStaple (sh_hcert h),
         sn_scts = ce_SignedCertificateTimestamps (sh_hcert h), sn_verifiedChains = chains, sn_alpnProtocol = [], sn_useBy = 0,
         sn_ageAdd = 0\<rparr>, cc))))))))"


section \<open>The round trip of a session\<close>

definition enc64 :: "u64 \<Rightarrow> bytes" where
  "enc64 v = enc32 (ucast (drop_bit 32 v)) @ enc32 (ucast v)"

definition encChain :: "peerCert list \<Rightarrow> bytes" where
  "encChain chain = pref24 (concat (map (\<lambda>cert. pref24 (pc_Raw cert)) (drop 1 chain)))"

definition sn_encode :: "SessionState \<Rightarrow> bytes" where
  "sn_encode s =
     enc16 (sn_version s) @ enc8 (if sn_isClient s then 2 else 1) @ enc16 (sn_cipherSuite s) @ enc64 (sn_createdAt s) @
     pref8 (sn_secret s) @ pref24 (concat (map pref24 (sn_Extra s))) @ enc8 (if sn_extMasterSecret s then 1 else 0) @
     enc8 (if sn_EarlyData s then 1 else 0) @ pref24 (ce_encode (sessionCertificate s)) @
     pref24 (concat (map encChain (sn_verifiedChains s))) @ (if sn_EarlyData s then pref8 (sn_alpnProtocol s) else []) @
     (if sn_isClient s \<and> sn_version s \<ge> VersionTLS13 then enc64 (sn_useBy s) @ enc32 (sn_ageAdd s) else [])"

text \<open>
  A session that has an encoding: its parts fit their length prefixes, every chain starts with the leaf, the certificates are those that
  the parser gives for their bytes, a client's session has certificates, and the fields that are not written have no value.
\<close>

definition wf_session :: "(bytes \<Rightarrow> peerCert res) \<Rightarrow> SessionState \<Rightarrow> bool" where
  "wf_session parse s \<longleftrightarrow>
     sn_secret s \<noteq> [] \<and> length (sn_secret s) < 256 \<and> length (concat (map pref24 (sn_Extra s))) < 16777216 \<and>
     wf_ce (sessionCertificate s) \<and> length (concat (map encChain (sn_verifiedChains s))) < 16777216 \<and>
     list_all (\<lambda>ch. ch \<noteq> [] \<and> sn_peerCertificates s \<noteq> [] \<and> hd ch = hd (sn_peerCertificates s)) (sn_verifiedChains s) \<and>
     list_all (\<lambda>cert. parse (pc_Raw cert) = Ok cert) (sn_peerCertificates s @ concat (sn_verifiedChains s)) \<and>
     length (sn_alpnProtocol s) < 256 \<and> (\<not> sn_EarlyData s \<longrightarrow> sn_alpnProtocol s = []) \<and>
     (sn_isClient s \<longrightarrow> sn_peerCertificates s \<noteq> []) \<and>
     (\<not> (sn_isClient s \<and> sn_version s \<ge> VersionTLS13) \<longrightarrow> sn_useBy s = 0 \<and> sn_ageAdd s = 0)"

lemma length_enc64 [simp]: "length (enc64 v) = 8"
  by (simp add: enc64_def)

lemma or_ucast_split64: "push_bit 32 (ucast (ucast (drop_bit 32 v) :: u32)) OR ucast (ucast v :: u32) = (v :: u64)"
  by (rule bit_word_eqI) (auto simp: bit_simps)

lemma readUint64_enc [wire_simps]: "readUint64 (enc64 v @ s) = Some (v, s)"
  by (simp add: readUint64_def enc64_def wire_simps or_ucast_split64)

lemma ucast_push_byte:
  assumes "k \<le> 24"
  shows "(ucast (push_bit k (ucast (b :: byte)) :: u32) :: u64) = push_bit k (ucast b)"
proof (rule bit_word_eqI)
  fix n
  show "bit (ucast (push_bit k (ucast b) :: u32) :: u64) n = bit (push_bit k (ucast b) :: u64) n" if "n < LENGTH(64)"
    using assms that by (cases "n < k + 8") (auto simp: bit_simps)
qed

lemma ReadUint64_readUint64: "ReadUint64 s = readUint64 s"
proof (cases "length s < 8")
  case True
  then show ?thesis
    by (auto simp: ReadUint64_def readUint64_def ReadUint32_def read_def split: option.splits)
next
  case False
  then obtain a b c d e f g h t where s: "s = a # b # c # d # e # f # g # h # t"
    by (auto simp: not_less numeral_eq_Suc Suc_le_length_iff)
  have "push_bit 32 (ucast (push_bit 24 (ucast a) OR push_bit 16 (ucast b) OR push_bit 8 (ucast c) OR ucast d :: u32)) OR
      ucast (push_bit 24 (ucast e) OR push_bit 16 (ucast f) OR push_bit 8 (ucast g) OR ucast h :: u32) =
    (push_bit 56 (ucast a) OR push_bit 48 (ucast b) OR push_bit 40 (ucast c) OR push_bit 32 (ucast d) OR
      push_bit 24 (ucast e) OR push_bit 16 (ucast f) OR push_bit 8 (ucast g) OR ucast h :: u64)"
    by (simp add: unsigned_or_eq push_bit_or ucast_push_byte ucast_push_byte [of 0, simplified] or.assoc)
  then show ?thesis
    by (simp add: s ReadUint64_def readUint64_def ReadUint32_def read_def numeral_eq_Suc)
qed

lemma appends_addUint64 [builder_intros]: "appends (addUint64 v) (enc64 v)"
  unfolding addUint64_def enc64_def by (intro builder_intros)

lemma fits_concat: "length (concat xss) < n \<Longrightarrow> xs \<in> set xss \<Longrightarrow> length xs < n"
  by (induction xss) auto

lemma fits_concat_pref24: "length (concat (map (\<lambda>x. pref24 (f x)) xs)) < n \<Longrightarrow> x \<in> set xs \<Longrightarrow> length (f x) < n"
  by (induction xs) auto

lemma length_concat_pref24: "length xs \<le> length (concat (map (\<lambda>x. pref24 (f x)) xs))"
  by (induction xs) simp_all

lemma appends_addChain:
  assumes "chain \<noteq> []" and "length (encChain chain) < 16777216"
  shows "appends (addChain chain) (encChain chain)"
proof -
  let ?b = "concat (map (\<lambda>cert. pref24 (pc_Raw cert)) (drop 1 chain))"
  have l: "length ?b < 16777216" using assms(2) by (simp add: encChain_def)
  have "appends (forEach (\<lambda>cert. AddUint24LengthPrefixed (AddBytes (pc_Raw cert))) (drop 1 chain)) ?b"
    by (intro builder_intros) (use fits_concat_pref24 [OF l] in simp)
  then show ?thesis
    unfolding addChain_def encChain_def using assms(1) l by (simp add: appends_Uint24LengthPrefixed)
qed

lemma sn_body_writes:
  assumes "wf_session parse s"
  shows "appends (sn_body s) (sn_encode s)"
proof -
  have chains: "appends (forEach addChain (sn_verifiedChains s)) (concat (map encChain (sn_verifiedChains s)))"
  proof (rule appends_forEach, rule appends_addChain)
    fix ch assume ch: "ch \<in> set (sn_verifiedChains s)"
    then show "ch \<noteq> []" using assms by (auto simp: wf_session_def list_all_iff)
    show "length (encChain ch) < 16777216"
      using assms ch fits_concat [of "map encChain (sn_verifiedChains s)" 16777216] by (simp add: wf_session_def)
  qed
  have extra: "appends (forEach (\<lambda>extra. AddUint24LengthPrefixed (AddBytes extra)) (sn_Extra s)) (concat (map pref24 (sn_Extra s)))"
    using assms fits_concat_pref24 [of "\<lambda>x. x" "sn_Extra s" 16777216] by (intro builder_intros) (simp add: wf_session_def)
  show ?thesis
    unfolding sn_body_def sn_encode_def addWhen_addWhen
    by (intro builder_intros appends_addWhen marshalCertificate_writes extra chains)
      (use assms in \<open>simp_all add: wf_session_def\<close>)
qed

lemma sn_Bytes_Ok: "wf_session parse s \<Longrightarrow> sn_Bytes s = Ok (sn_encode s)"
  unfolding sn_Bytes_def by (rule runBytes_appends) (rule sn_body_writes)

text \<open>Interning certificates that parse.\<close>

lemma internCerts_spec:
  assumes "interned parse cc" and "list_all (\<lambda>cert. parse (pc_Raw cert) = Ok cert) certs"
  shows "\<exists>as cc'. internCerts parse (map pc_Raw certs) cc = (Ok as, cc') \<and> map ac_cert as = certs \<and> interned parse cc'"
  using assms
proof (induction certs arbitrary: cc)
  case Nil
  then show ?case by simp
next
  case (Cons c certs)
  obtain r c1 where n: "newCert parse (pc_Raw c) cc = (r, c1)" by fastforce
  with newCert_spec(1) [OF Cons.prems(1) n] Cons.prems obtain a where a: "r = Ok a" "ac_cert a = c" by auto
  from Cons.IH [OF newCert_interned [OF Cons.prems(1) n]] Cons.prems(2) obtain as c2
    where "internCerts parse (map pc_Raw certs) c1 = (Ok as, c2)" "map ac_cert as = certs" "interned parse c2" by auto
  with n a show ?case by simp
qed

lemma chainCerts_spec:
  assumes "list_all (\<lambda>cert. length (pc_Raw cert) < 16777216) certs" and "length certs \<le> n"
  shows "chainCerts n parse (concat (map (\<lambda>cert. pref24 (pc_Raw cert)) certs)) cc = internCerts parse (map pc_Raw certs) cc"
  using assms
proof (induction certs arbitrary: n cc)
  case Nil
  then show ?case by simp
next
  case (Cons c certs)
  then obtain k where n: "n = Suc k" "length certs \<le> k" by (cases n) auto
  let ?rest = "concat (map (\<lambda>cert. pref24 (pc_Raw cert)) certs)"
  obtain b bs where b: "pref24 (pc_Raw c) @ ?rest = b # bs" by (cases "pref24 (pc_Raw c)") auto
  have "ReadUint24LengthPrefixed (b # bs) = Some (pc_Raw c, ?rest)"
    using Cons.prems(1) by (simp add: wire_simps flip: b)
  with Cons n show ?case by (simp add: b lift_cc_def)
qed

lemma chainList_spec:
  assumes "interned parse cc" and "list_all (\<lambda>ch. ch \<noteq> [] \<and> peers \<noteq> [] \<and> hd ch = hd peers) vcs"
    and "list_all (\<lambda>cert. parse (pc_Raw cert) = Ok cert) (concat vcs)"
    and "length (concat (map encChain vcs)) < 16777216" and "length vcs \<le> n"
  shows "\<exists>as cc'. chainList n parse peers (concat (map encChain vcs)) cc = (Ok (vcs, as), cc') \<and>
    map ac_cert as = concat (map tl vcs) \<and> interned parse cc'"
  using assms
proof (induction vcs arbitrary: n cc)
  case Nil
  then show ?case by simp
next
  case (Cons ch vcs)
  then obtain k where n: "n = Suc k" "length vcs \<le> k" by (cases n) auto
  let ?rest = "concat (map encChain vcs)" and ?l = "concat (map (\<lambda>cert. pref24 (pc_Raw cert)) (tl ch))"
  have l: "length ?l < 16777216" using Cons.prems(4) by (simp add: encChain_def drop_Suc)
  have fit: "list_all (\<lambda>cert. length (pc_Raw cert) < 16777216) (tl ch)"
    using fits_concat_pref24 [OF l] by (simp add: list_all_iff)
  have short: "length (tl ch) \<le> length ?l" by (rule length_concat_pref24)
  have "list_all (\<lambda>cert. parse (pc_Raw cert) = Ok cert) (tl ch)"
    using Cons.prems(3) by (cases ch) simp_all
  from internCerts_spec [OF Cons.prems(1) this] obtain as c1
    where as: "internCerts parse (map pc_Raw (tl ch)) cc = (Ok as, c1)" "map ac_cert as = tl ch" "interned parse c1" by blast
  have "length ?rest < 16777216" using Cons.prems(4) by simp
  with Cons.IH [OF as(3), of k] Cons.prems(2,3) n obtain bs c2
    where bs: "chainList k parse peers ?rest c1 = (Ok (vcs, bs), c2)" "map ac_cert bs = concat (map tl vcs)" "interned parse c2"
    by auto
  obtain x xs where x: "encChain ch @ ?rest = x # xs" by (cases "encChain ch") (auto simp: encChain_def)
  have "ReadUint24LengthPrefixed (x # xs) = Some (?l, ?rest)"
    using l by (simp add: encChain_def wire_simps drop_Suc flip: x)
  moreover have "peers \<noteq> []" "peers ! 0 # tl ch = ch"
    using Cons.prems(2) by (cases ch; simp add: hd_conv_nth [symmetric])+
  ultimately show ?case
    using as bs chainCerts_spec [OF fit short, of parse cc] by (simp add: n x lift_cc_def)
qed


lemma readSessionHeader_encode:
  assumes "wf_session parse s"
  shows "readSessionHeader (sn_encode s) =
    Some (\<lparr>sh_hver = sn_version s, sh_htyp = if sn_isClient s then 2 else 1, sh_hcipherSuite = sn_cipherSuite s,
        sh_hcreatedAt = sn_createdAt s, sh_hsecret = sn_secret s, sh_hextra = concat (map pref24 (sn_Extra s)),
        sh_hems = if sn_extMasterSecret s then 1 else 0, sh_hearly = if sn_EarlyData s then 1 else 0, sh_hcert = sessionCertificate s\<rparr>,
      pref24 (concat (map encChain (sn_verifiedChains s))) @ (if sn_EarlyData s then pref8 (sn_alpnProtocol s) else []) @
      (if sn_isClient s \<and> sn_version s \<ge> VersionTLS13 then enc64 (sn_useBy s) @ enc32 (sn_ageAdd s) else []))"
  using assms unfolding readSessionHeader_def sn_encode_def wf_session_def
  by (simp add: wire_simps unmarshalCertificate_encode)

lemma readExtra: "length (concat (map pref24 xs)) < 16777216 \<Longrightarrow> readMany ReadUint24LengthPrefixed (concat (map pref24 xs)) = Some xs"
  by (rule lp24.readMany_concat) (use fits_concat_pref24 [of "\<lambda>x. x" xs 16777216] in simp)

lemma readSessionTail_encode:
  assumes "length alpn < 256" and "\<not> early \<longrightarrow> alpn = []" and "client \<longrightarrow> peers \<noteq> []"
    and "\<not> (client \<and> vers \<ge> VersionTLS13) \<longrightarrow> useBy = 0 \<and> ageAdd = 0"
  shows "readSessionTail (if client then 2 else 1)
      ((if early then pref8 alpn else []) @ (if client \<and> vers \<ge> VersionTLS13 then enc64 useBy @ enc32 ageAdd else []))
      \<lparr>sn_Extra = extra, sn_EarlyData = early, sn_version = vers, sn_isClient = False, sn_cipherSuite = suite, sn_createdAt = created,
       sn_secret = sec, sn_extMasterSecret = ems, sn_peerCertificates = peers, sn_activeCertHandles = handles, sn_ocspResponse = ocsp,
       sn_scts = scts, sn_verifiedChains = vcs, sn_alpnProtocol = [], sn_useBy = 0, sn_ageAdd = 0\<rparr> =
    Ok \<lparr>sn_Extra = extra, sn_EarlyData = early, sn_version = vers, sn_isClient = client, sn_cipherSuite = suite, sn_createdAt = created,
       sn_secret = sec, sn_extMasterSecret = ems, sn_peerCertificates = peers, sn_activeCertHandles = handles, sn_ocspResponse = ocsp,
       sn_scts = scts, sn_verifiedChains = vcs, sn_alpnProtocol = alpn, sn_useBy = useBy, sn_ageAdd = ageAdd\<rparr>"
proof -
  have r: "ReadUint32 (enc32 v) = Some (v, [])" for v using ReadUint32_enc [of v "[]"] by simp
  have p: "ReadUint8LengthPrefixed (pref8 alpn) = Some (alpn, [])" using assms(1) by (rule lp8.dec_enc_all)
  show ?thesis
    using assms
    by (cases client; cases early; cases "vers < VersionTLS13")
      (simp_all add: not_less not_le readSessionTail_def Let_def ReadUint64_readUint64 readUint64_enc wire_simps r p)
qed

lemma ParseSessionState_encode:
  assumes w: "wf_session parse s" and i: "interned parse cc"
  shows "\<exists>handles cc'. ParseSessionState parse (sn_encode s) cc = (Ok (s\<lparr>sn_activeCertHandles := handles\<rparr>), cc') \<and>
    map ac_cert handles = sn_peerCertificates s @ concat (map tl (sn_verifiedChains s)) \<and> interned parse cc'"
proof -
  note u = w [unfolded wf_session_def list_all_append]
  from u have p: "list_all (\<lambda>cert. parse (pc_Raw cert) = Ok cert) (sn_peerCertificates s)"
    and c: "list_all (\<lambda>cert. parse (pc_Raw cert) = Ok cert) (concat (sn_verifiedChains s))"
    and h: "list_all (\<lambda>ch. ch \<noteq> [] \<and> sn_peerCertificates s \<noteq> [] \<and> hd ch = hd (sn_peerCertificates s)) (sn_verifiedChains s)"
    and f: "length (concat (map encChain (sn_verifiedChains s))) < 16777216"
    by simp_all
  obtain ps c1 where ps: "internCerts parse (map pc_Raw (sn_peerCertificates s)) cc = (Ok ps, c1)"
      "map ac_cert ps = sn_peerCertificates s" "interned parse c1"
    using internCerts_spec [OF i p] by blast
  let ?l = "concat (map encChain (sn_verifiedChains s))"
  have "length (sn_verifiedChains s) \<le> length ?l"
    unfolding encChain_def by (rule length_concat_pref24)
  from chainList_spec [OF ps(3) h c f this]
  obtain hs c2 where hs: "chainList (length ?l) parse (sn_peerCertificates s) ?l c1 = (Ok (sn_verifiedChains s, hs), c2)"
      "map ac_cert hs = concat (map tl (sn_verifiedChains s))" "interned parse c2"
    by blast
  have b: "readBool (if x then 1 else 0) = Some x" for x by (simp add: readBool_def)
  let ?tail = "(if sn_EarlyData s then pref8 (sn_alpnProtocol s) else []) @
       (if sn_isClient s \<and> sn_version s \<ge> VersionTLS13 then enc64 (sn_useBy s) @ enc32 (sn_ageAdd s) else [])"
  have t: "readSessionTail (if sn_isClient s then 2 else 1) ?tail
      \<lparr>sn_Extra = sn_Extra s, sn_EarlyData = sn_EarlyData s, sn_version = sn_version s, sn_isClient = False,
       sn_cipherSuite = sn_cipherSuite s, sn_createdAt = sn_createdAt s, sn_secret = sn_secret s,
       sn_extMasterSecret = sn_extMasterSecret s, sn_peerCertificates = sn_peerCertificates s, sn_activeCertHandles = ps @ hs,
       sn_ocspResponse = sn_ocspResponse s, sn_scts = sn_scts s, sn_verifiedChains = sn_verifiedChains s, sn_alpnProtocol = [],
       sn_useBy = 0, sn_ageAdd = 0\<rparr> = Ok (s\<lparr>sn_activeCertHandles := ps @ hs\<rparr>)"
    using u by (subst readSessionTail_encode) simp_all
  have l: "ReadUint24LengthPrefixed (pref24 ?l @ ?tail) = Some (?l, ?tail)"
    by (rule lp24.dec_enc) (rule f)
  have x: "readMany ReadUint24LengthPrefixed (concat (map pref24 (sn_Extra s))) = Some (sn_Extra s)"
    using u by (intro readExtra) simp
  have "ParseSessionState parse (sn_encode s) cc = (Ok (s\<lparr>sn_activeCertHandles := ps @ hs\<rparr>), c2)"
    unfolding ParseSessionState_def
    by (simp only: readSessionHeader_encode [OF w] lift_cc_def res_of_option_simps bind_cc_simps prod.case sessionHeader.simps x b
        sessionCertificate_def tlsCertificate.simps certificatesToBytesSlice_def ps(1,2) l hs(1) t)
  with ps hs show ?thesis by auto
qed


text \<open>Parsing never panics, on any input.\<close>

lemma bind_cc_total:
  assumes "\<not> is_panic (fst r)" and "\<And>x cc. \<not> is_panic (fst (f x cc))"
  shows "\<not> is_panic (fst (bind_cc r f))"
  using assms by (cases r; cases "fst r") auto

lemma bind_res_total: "\<not> is_panic r \<Longrightarrow> (\<And>x. \<not> is_panic (f x)) \<Longrightarrow> \<not> is_panic (bind_res r f)"
  by (cases r) auto

lemma res_of_option_total [simp]: "\<not> is_panic (res_of_option e r)"
  by (cases r) simp_all

lemma lift_cc_total [simp]: "\<not> is_panic (fst (lift_cc r cc))"
  by (simp add: lift_cc_def)

lemma if_total: "(c \<Longrightarrow> \<not> is_panic x) \<Longrightarrow> (\<not> c \<Longrightarrow> \<not> is_panic y) \<Longrightarrow> \<not> is_panic (if c then x else y)"
  by simp

lemma if_cc_total: "(c \<Longrightarrow> \<not> is_panic (fst x)) \<Longrightarrow> (\<not> c \<Longrightarrow> \<not> is_panic (fst y)) \<Longrightarrow> \<not> is_panic (fst (if c then x else y))"
  by simp

lemma prod_total: "(\<And>a b. \<not> is_panic (f a b)) \<Longrightarrow> \<not> is_panic (case p of (a, b) \<Rightarrow> f a b)"
  by (cases p) simp

lemma prod_cc_total: "(\<And>a b. \<not> is_panic (fst (f a b cc))) \<Longrightarrow> \<not> is_panic (fst ((case p of (a, b) \<Rightarrow> f a b) cc))"
  by (cases p) simp

lemmas total_intros = bind_cc_total bind_res_total if_total if_cc_total prod_total prod_cc_total lift_cc_total res_of_option_total

lemma newCert_total: "(\<And>der. \<not> is_panic (parse der)) \<Longrightarrow> \<not> is_panic (fst (newCert parse der cc))"
  by (auto simp: newCert_def Let_def split: option.splits res.splits prod.splits) (metis is_panic.simps(3))

lemma internCerts_total: "(\<And>der. \<not> is_panic (parse der)) \<Longrightarrow> \<not> is_panic (fst (internCerts parse ders cc))"
  by (induction parse ders cc rule: internCerts.induct) (simp_all add: total_intros newCert_total)

lemma chainCerts_total: "(\<And>der. \<not> is_panic (parse der)) \<Longrightarrow> \<not> is_panic (fst (chainCerts n parse s cc))"
  by (induction n arbitrary: s cc; case_tac s) (simp_all add: total_intros newCert_total)

lemma chainList_total: "(\<And>der. \<not> is_panic (parse der)) \<Longrightarrow> \<not> is_panic (fst (chainList n parse peers s cc))"
  by (induction n arbitrary: s cc; case_tac s) (simp_all add: total_intros chainCerts_total)

lemma readSessionTail_total: "\<not> is_panic (readSessionTail styp s ss)"
  unfolding readSessionTail_def Let_def by (intro total_intros) simp_all

lemma ParseSessionState_total: "(\<And>der. \<not> is_panic (parse der)) \<Longrightarrow> \<not> is_panic (fst (ParseSessionState parse data cc))"
  unfolding ParseSessionState_def by (intro total_intros internCerts_total chainList_total) (simp_all add: readSessionTail_total)

section \<open>Properties\<close>

text \<open>
  C16: A session that has an encoding is encoded, and its encoding parses back to the same session, over any table of certificates
  that holds what the parser gives: the same fields, the peer's certificates and the verified chains, with one handle for every
  certificate that was read. The handles keep the table what it was to the next caller.
\<close>

theorem session_roundtrip:
  assumes "wf_session parse s" and "interned parse cc"
  shows "\<exists>data handles cc'. sn_Bytes s = Ok data \<and> ParseSessionState parse data cc = (Ok (s\<lparr>sn_activeCertHandles := handles\<rparr>), cc') \<and>
    map ac_cert handles = sn_peerCertificates s @ concat (map tl (sn_verifiedChains s)) \<and> interned parse cc'"
proof -
  obtain handles cc' where "ParseSessionState parse (sn_encode s) cc = (Ok (s\<lparr>sn_activeCertHandles := handles\<rparr>), cc')"
      "map ac_cert handles = sn_peerCertificates s @ concat (map tl (sn_verifiedChains s))" "interned parse cc'"
    using ParseSessionState_encode [OF assms] by blast
  with sn_Bytes_Ok [OF assms(1)] show ?thesis by (intro exI conjI)
qed

text \<open>A client's session with a leaf and a chain of two.\<close>

definition toy_parse :: "bytes \<Rightarrow> peerCert res" where
  "toy_parse der = Ok \<lparr>pc_Raw = der, pc_NotAfter = 4102444800 * time_Second, pc_VerifyHostname = (\<lambda>name. name = [101, 120])\<rparr>"

definition toy_session :: SessionState where
  "toy_session = (let cert = (\<lambda>der. \<lparr>pc_Raw = der, pc_NotAfter = 4102444800 * time_Second, pc_VerifyHostname = (\<lambda>name. name = [101, 120])\<rparr>) in
     \<lparr>sn_Extra = [[1, 2], []], sn_EarlyData = True, sn_version = VersionTLS13, sn_isClient = True, sn_cipherSuite = 0x1301,
      sn_createdAt = 1700000000, sn_secret = [7, 8, 9], sn_extMasterSecret = False, sn_peerCertificates = [cert [48, 1]],
      sn_activeCertHandles = [], sn_ocspResponse = Some [5], sn_scts = None, sn_verifiedChains = [[cert [48, 1], cert [48, 2]]],
      sn_alpnProtocol = [104, 50], sn_useBy = 1700604800, sn_ageAdd = 77\<rparr>)"

theorem session_roundtrip_witness:
  "\<exists>data handles cc'. sn_Bytes toy_session = Ok data \<and>
    ParseSessionState toy_parse data emptyCache = (Ok (toy_session\<lparr>sn_activeCertHandles := handles\<rparr>), cc') \<and>
    map (pc_Raw \<circ> ac_cert) handles = [[48, 1], [48, 2]]"
proof -
  have "wf_session toy_parse toy_session"
    by (simp add: wf_session_def toy_session_def Let_def toy_parse_def sessionCertificate_def certificatesToBytesSlice_def wf_ce_def
        ce_encode_def ce_extensions_def optExt_def encExts_def length_encExt encChain_def opt_bytes_def)
  from session_roundtrip [OF this interned_empty] obtain data handles cc' where h: "sn_Bytes toy_session = Ok data"
      "ParseSessionState toy_parse data emptyCache = (Ok (toy_session\<lparr>sn_activeCertHandles := handles\<rparr>), cc')"
      "map ac_cert handles = sn_peerCertificates toy_session @ concat (map tl (sn_verifiedChains toy_session))" by blast
  from arg_cong [OF h(3), of "map pc_Raw"] have "map (pc_Raw \<circ> ac_cert) handles = [[48, 1], [48, 2]]"
    by (simp add: toy_session_def Let_def)
  with h(1,2) show ?thesis by (intro exI conjI)
qed

end
