(* ===== verification/Cipher_CTR.thy ===== *)
theory Cipher_CTR
  imports Prelude
begin

text \<open>
  Counter mode as \<^verbatim>\<open>crypto/cipher/ctr.go\<close> has it: a stream that fills a buffer with the encryptions of successive counters and XORs
  messages with it. A block cipher is a parameter, given by its block size and its encryption of one block; what the stream relies on
  of it is \<open>block_ok\<close>. The buffered stream is shown to be the textbook counter mode, however the buffer is refilled and however a
  message is split over calls. Ciphers that bring their own counter mode and the check for overlapping buffers are not modelled.
\<close>

section \<open>The stream\<close>

record block =
  bk_BlockSize :: nat
  bk_Encrypt :: "bytes \<Rightarrow> bytes"

text \<open>\<^verbatim>\<open>ct_buf\<close> is the array behind the slice \<^verbatim>\<open>out\<close>, as long as its capacity, and \<^verbatim>\<open>ct_len\<close> the length of the slice.\<close>

record ctr =
  ct_b :: block
  ct_ctr :: bytes
  ct_buf :: bytes
  ct_len :: nat
  ct_outUsed :: nat

definition streamBufferSize :: nat where "streamBufferSize = 512"

definition NewCTR :: "block \<Rightarrow> bytes \<Rightarrow> ctr res" where
  "NewCTR b iv =
     (if length iv \<noteq> bk_BlockSize b then Panic ''cipher.NewCTR: IV length must equal block size''
      else let bufSize = (if streamBufferSize < bk_BlockSize b then bk_BlockSize b else streamBufferSize) in
        Ok \<lparr>ct_b = b, ct_ctr = iv, ct_buf = replicate bufSize 0, ct_len = 0, ct_outUsed = 0\<rparr>)"

text \<open>The counter is incremented from its last byte on, up to the first byte that does not wrap.\<close>

fun incCounter :: "nat \<Rightarrow> bytes \<Rightarrow> bytes" where
  "incCounter 0 c = c"
| "incCounter (Suc i) c = (let c = c[i := c ! i + 1] in if c ! i \<noteq> 0 then c else incCounter i c)"

text \<open>Every round of the loop of \<open>refill\<close> takes at least one byte of the buffer, so its length is enough fuel.\<close>

fun refillLoop :: "nat \<Rightarrow> block \<Rightarrow> nat \<Rightarrow> bytes \<Rightarrow> bytes \<Rightarrow> nat \<times> bytes \<times> bytes" where
  "refillLoop 0 b remain buf c = (remain, buf, c)"
| "refillLoop (Suc k) b remain buf c =
     (if remain + bk_BlockSize b \<le> length buf
      then refillLoop k b (remain + bk_BlockSize b) (take remain buf @ bk_Encrypt b c @ drop (remain + bk_BlockSize b) buf)
             (incCounter (length c) c)
      else (remain, buf, c))"

definition refill :: "ctr \<Rightarrow> ctr" where
  "refill x =
     (let remain = ct_len x - ct_outUsed x;
          buf = take remain (drop (ct_outUsed x) (ct_buf x)) @ drop remain (ct_buf x);
          (remain, buf, c) = refillLoop (length buf) (ct_b x) remain buf (ct_ctr x)
      in x\<lparr>ct_buf := buf, ct_ctr := c, ct_len := remain, ct_outUsed := 0\<rparr>)"

text \<open>The bytes that \<^verbatim>\<open>subtle.XORBytes\<close> writes.\<close>

definition XORBytes :: "bytes \<Rightarrow> bytes \<Rightarrow> bytes" where
  "XORBytes x y = map2 (XOR) x y"

text \<open>Every round takes at least one byte of the source, so its length is enough fuel.\<close>

fun keyStreamLoop :: "nat \<Rightarrow> ctr \<Rightarrow> bytes \<Rightarrow> ctr \<times> bytes" where
  "keyStreamLoop 0 x src = (x, [])"
| "keyStreamLoop (Suc k) x src =
     (if length src = 0 then (x, [])
      else let x = (if ct_outUsed x + bk_BlockSize (ct_b x) \<ge> ct_len x then refill x else x);
               w = XORBytes src (drop (ct_outUsed x) (take (ct_len x) (ct_buf x)));
               (x, ws) = keyStreamLoop k (x\<lparr>ct_outUsed := ct_outUsed x + length w\<rparr>) (drop (length w) src)
           in (x, w @ ws))"

definition XORKeyStream :: "ctr \<Rightarrow> bytes \<Rightarrow> bytes \<Rightarrow> (ctr \<times> bytes) res" where
  "XORKeyStream x dst src =
     (if length dst < length src then Panic ''crypto/cipher: output smaller than input''
      else let (x, w) = keyStreamLoop (length src) x src in Ok (x, w @ drop (length w) dst))"

section \<open>The counter\<close>

lemma length_incCounter [simp]: "length (incCounter i c) = length c"
  by (induction i c rule: incCounter.induct) (simp_all add: Let_def)

lemma byte_Suc_zero: "unat (b :: byte) = 255" if "b + 1 = 0"
proof -
  have "b = - 1" using that by (simp add: eq_neg_iff_add_eq_0)
  also have "\<dots> = 255" by simp
  finally show ?thesis by simp
qed

lemma unat_byte_Suc: "unat (b + 1 :: byte) = unat b + 1" if "b + 1 \<noteq> 0"
  using that unatSuc [of b] by (simp add: add.commute)

lemma incCounter_snoc: "incCounter (Suc (length c)) (c @ [b]) = (if b + 1 \<noteq> 0 then c @ [b + 1] else incCounter (length c) (c @ [0]))"
  by (simp add: nth_append list_update_append Let_def)

lemma incCounter_append: "i \<le> length c \<Longrightarrow> incCounter i (c @ d) = incCounter i c @ d"
  by (induction i c rule: incCounter.induct) (simp_all add: Let_def nth_append list_update_append)

text \<open>The counter is a big-endian number that counts modulo its size.\<close>

lemma unbe_incCounter: "unbe (incCounter (length c) c) = (unbe c + 1) mod 256 ^ length c"
proof (induction c rule: rev_induct)
  case Nil
  show ?case by simp
next
  case (snoc b c)
  show ?case
  proof (cases "b + 1 = 0")
    case True
    have "unbe (c @ [b]) + 1 = (unbe c + 1) * 256"
      by (simp add: byte_Suc_zero [OF True])
    moreover have "incCounter (length (c @ [b])) (c @ [b]) = incCounter (length c) c @ [0]"
      using True incCounter_snoc [of c b] by (simp add: incCounter_append del: incCounter.simps)
    moreover have "(unbe c + 1) * 256 mod 256 ^ length (c @ [b]) = (unbe c + 1) mod 256 ^ length c * 256"
      using mod_mult_mult2 [of "unbe c + 1" 256 "256 ^ length c"] by (simp add: mult.commute)
    ultimately show ?thesis
      using snoc.IH by (simp del: incCounter.simps)
  next
    case False
    have "unbe c * 256 + (unat b + 1) < 256 ^ length (c @ [b])"
      using unbe_less [of "c @ [b + 1]"] by (simp add: unat_byte_Suc [OF False])
    then show ?thesis
      using False incCounter_snoc [of c b] by (simp add: unat_byte_Suc del: incCounter.simps)
  qed
qed


lemma be_mod: "be n (k mod 256 ^ n) = be n k"
  using be_unbe [of "be n k"] by (simp add: unbe_be)

section \<open>Counter mode\<close>

text \<open>Counter mode: byte \<open>i\<close> of the key stream is a byte of the encryption of the counter plus the number of the block it is in.\<close>

definition counterMode :: "block \<Rightarrow> bytes \<Rightarrow> nat \<Rightarrow> byte" where
  "counterMode b c i = bk_Encrypt b (be (bk_BlockSize b) (unbe c + i div bk_BlockSize b)) ! (i mod bk_BlockSize b)"

definition xorStream :: "(nat \<Rightarrow> byte) \<Rightarrow> bytes \<Rightarrow> bytes" where
  "xorStream ks src = map (\<lambda>i. src ! i XOR ks i) [0..<length src]"

text \<open>What the stream relies on: a block is not empty and encrypts to a block.\<close>

definition block_ok :: "block \<Rightarrow> bool" where
  "block_ok b \<longleftrightarrow> 0 < bk_BlockSize b \<and> (\<forall>c. length c = bk_BlockSize b \<longrightarrow> length (bk_Encrypt b c) = bk_BlockSize b)"

text \<open>The key stream that is left: the unused bytes of the buffer, then the encryptions of the counters to come.\<close>

definition keyStreamFrom :: "block \<Rightarrow> nat \<Rightarrow> bytes \<Rightarrow> bytes \<Rightarrow> nat \<Rightarrow> byte" where
  "keyStreamFrom b n out c i = (if i < n then out ! i else counterMode b c (i - n))"

definition pending :: "ctr \<Rightarrow> nat \<Rightarrow> byte" where
  "pending x = keyStreamFrom (ct_b x) (ct_len x - ct_outUsed x) (drop (ct_outUsed x) (ct_buf x)) (ct_ctr x)"

definition ctr_ok :: "ctr \<Rightarrow> bool" where
  "ctr_ok x \<longleftrightarrow> block_ok (ct_b x) \<and> length (ct_ctr x) = bk_BlockSize (ct_b x) \<and> ct_outUsed x \<le> ct_len x \<and>
     ct_len x \<le> length (ct_buf x) \<and> bk_BlockSize (ct_b x) \<le> length (ct_buf x)"

lemma counterMode_first:
  assumes "length c = bk_BlockSize b" and "i < bk_BlockSize b"
  shows "counterMode b c i = bk_Encrypt b c ! i"
  using assms be_unbe [of c] by (simp add: counterMode_def)

lemma counterMode_next:
  assumes "length c = bk_BlockSize b" and "0 < bk_BlockSize b"
  shows "counterMode b (incCounter (length c) c) i = counterMode b c (i + bk_BlockSize b)"
proof -
  let ?n = "bk_BlockSize b"
  have "be ?n ((unbe c + 1) mod 256 ^ ?n + i div ?n) = be ?n (unbe c + (i div ?n + 1))"
    using be_mod [of ?n "(unbe c + 1) mod 256 ^ ?n + i div ?n"] be_mod [of ?n "unbe c + (i div ?n + 1)"]
    by (simp add: mod_add_left_eq)
  moreover have "unbe (incCounter (bk_BlockSize b) c) = (unbe c + 1) mod 256 ^ ?n"
    using unbe_incCounter [of c] assms(1) by simp
  moreover have "(i + ?n) div ?n = i div ?n + 1" using div_add_self2 [of ?n i] assms(2) by simp
  ultimately show ?thesis
    by (simp only: counterMode_def mod_add_self2 assms(1))
qed

lemma keyStreamFrom_step:
  assumes "block_ok b" and "length c = bk_BlockSize b" and "n + bk_BlockSize b \<le> length buf"
  shows "keyStreamFrom b (n + bk_BlockSize b) (take n buf @ bk_Encrypt b c @ drop (n + bk_BlockSize b) buf) (incCounter (length c) c) =
    keyStreamFrom b n buf c"
proof
  fix i
  have l: "length (bk_Encrypt b c) = bk_BlockSize b" "0 < bk_BlockSize b"
    using assms(1,2) by (simp_all add: block_ok_def)
  consider "i < n" | "n \<le> i" "i < n + bk_BlockSize b" | "n + bk_BlockSize b \<le> i" by linarith
  then show "keyStreamFrom b (n + bk_BlockSize b) (take n buf @ bk_Encrypt b c @ drop (n + bk_BlockSize b) buf)
      (incCounter (length c) c) i = keyStreamFrom b n buf c i"
  proof cases
    case 1
    with assms(3) show ?thesis by (simp add: keyStreamFrom_def nth_append)
  next
    case 2
    then have "i - n < bk_BlockSize b" by linarith
    with 2 assms l show ?thesis by (simp add: keyStreamFrom_def nth_append counterMode_first)
  next
    case 3
    then have "i - (n + bk_BlockSize b) + bk_BlockSize b = i - n" by simp
    with 3 counterMode_next [OF assms(2) l(2), of "i - (n + bk_BlockSize b)"] show ?thesis
      by (simp add: keyStreamFrom_def)
  qed
qed

lemma refillLoop_spec:
  assumes "block_ok b" and "length c = bk_BlockSize b" and "n \<le> length buf"
    and "refillLoop k b n buf c = (n', buf', c')"
  shows "keyStreamFrom b n' buf' c' = keyStreamFrom b n buf c \<and> length buf' = length buf \<and> n' \<le> length buf \<and>
    length c' = bk_BlockSize b \<and> (length buf - n \<le> k \<longrightarrow> length buf < n' + bk_BlockSize b)"
  using assms
proof (induction k arbitrary: n buf c)
  case 0
  then show ?case by (auto simp: block_ok_def)
next
  case (Suc k)
  show ?case
  proof (cases "n + bk_BlockSize b \<le> length buf")
    case True
    let ?buf = "take n buf @ bk_Encrypt b c @ drop (n + bk_BlockSize b) buf"
    have l: "length ?buf = length buf" "0 < bk_BlockSize b"
      using True Suc.prems(1,2) by (simp_all add: block_ok_def)
    with True Suc.prems Suc.IH [of "incCounter (length c) c" "n + bk_BlockSize b" ?buf] keyStreamFrom_step [OF Suc.prems(1,2) True]
    show ?thesis by simp
  next
    case False
    with Suc.prems show ?thesis by auto
  qed
qed

lemma refill_spec:
  assumes "ctr_ok x"
  shows "pending (refill x) = pending x \<and> ctr_ok (refill x) \<and> ct_b (refill x) = ct_b x \<and> ct_outUsed (refill x) < ct_len (refill x)"
proof -
  let ?n = "ct_len x - ct_outUsed x" and ?b = "ct_b x"
  let ?buf = "take ?n (drop (ct_outUsed x) (ct_buf x)) @ drop ?n (ct_buf x)"
  obtain n' buf' c' where r: "refillLoop (length ?buf) ?b ?n ?buf (ct_ctr x) = (n', buf', c')"
    by (metis prod_cases3)
  have l: "length ?buf = length (ct_buf x)" "?n \<le> length (ct_buf x)"
    using assms by (auto simp: ctr_ok_def)
  have k: "keyStreamFrom ?b n' buf' c' = keyStreamFrom ?b ?n ?buf (ct_ctr x)" "length buf' = length (ct_buf x)" "n' \<le> length (ct_buf x)"
      "length c' = bk_BlockSize ?b" "length (ct_buf x) < n' + bk_BlockSize ?b"
    using refillLoop_spec [OF _ _ _ r] assms l by (simp_all add: ctr_ok_def)
  have "keyStreamFrom ?b ?n ?buf (ct_ctr x) = pending x"
    using assms by (auto simp: pending_def keyStreamFrom_def ctr_ok_def nth_append)
  moreover have e: "refill x = x\<lparr>ct_buf := buf', ct_ctr := c', ct_len := n', ct_outUsed := 0\<rparr>"
    using r by (simp only: refill_def Let_def prod.case)
  ultimately show ?thesis
    using k assms by (auto simp: pending_def ctr_ok_def)
qed

lemma pending_use:
  assumes "ctr_ok x" and "ct_outUsed x + n \<le> ct_len x"
  shows "pending (x\<lparr>ct_outUsed := ct_outUsed x + n\<rparr>) = (\<lambda>i. pending x (i + n))"
    and "XORBytes src (drop (ct_outUsed x) (take (ct_len x) (ct_buf x))) =
      xorStream (pending x) (take (ct_len x - ct_outUsed x) src)"
  using assms by (auto simp: pending_def keyStreamFrom_def ctr_ok_def XORBytes_def xorStream_def add.commute add.left_commute
      intro!: nth_equalityI ext)

lemma xorStream_append: "xorStream ks (xs @ ys) = xorStream ks xs @ xorStream (\<lambda>i. ks (i + length xs)) ys"
  by (auto simp: xorStream_def nth_append intro!: nth_equalityI)

lemma length_xorStream [simp]: "length (xorStream ks src) = length src"
  by (simp add: xorStream_def)

lemma keyStreamLoop_spec:
  assumes "ctr_ok x" and "length src \<le> k" and "keyStreamLoop k x src = (x', w)"
  shows "w = xorStream (pending x) src \<and> pending x' = (\<lambda>i. pending x (i + length src)) \<and> ctr_ok x' \<and> ct_b x' = ct_b x"
  using assms
proof (induction k arbitrary: x src w)
  case 0
  then show ?case by (simp add: xorStream_def)
next
  case (Suc k)
  show ?case
  proof (cases "src = []")
    case True
    with Suc.prems show ?thesis by (simp add: xorStream_def)
  next
    case False
    define y where "y = (if ct_outUsed x + bk_BlockSize (ct_b x) \<ge> ct_len x then refill x else x)"
    have y: "pending y = pending x" "ctr_ok y" "ct_b y = ct_b x" "ct_outUsed y < ct_len y"
      using refill_spec [OF Suc.prems(1)] Suc.prems(1) by (auto simp: y_def)
    let ?n = "ct_len y - ct_outUsed y"
    define z where "z = y\<lparr>ct_outUsed := ct_outUsed y + length (take ?n src)\<rparr>"
    have w: "XORBytes src (drop (ct_outUsed y) (take (ct_len y) (ct_buf y))) = xorStream (pending x) (take ?n src)"
      using y pending_use(2) [OF y(2), of 0 src] by simp
    have z: "pending z = (\<lambda>i. pending x (i + length (take ?n src)))" "ctr_ok z" "ct_b z = ct_b x"
      using y pending_use(1) [OF y(2), of "length (take ?n src)"] by (auto simp: z_def ctr_ok_def)
    obtain ws where ws: "keyStreamLoop k z (drop (length (take ?n src)) src) = (x', ws)" "w = xorStream (pending x) (take ?n src) @ ws"
      using Suc.prems(3) False w by (auto simp: Let_def z_def simp flip: y_def split: prod.splits)
    have d: "drop (length (take ?n src)) src = drop ?n src" by (cases "length src \<le> ?n") simp_all
    have "length (drop ?n src) \<le> k"
      using y(4) Suc.prems(2) False by (cases src) auto
    with Suc.IH [OF z(2), of "drop ?n src" ws] ws(1) [unfolded d] z
    have "ws = xorStream (\<lambda>i. pending x (i + length (take ?n src))) (drop ?n src)"
        "pending x' = (\<lambda>i. pending x (i + length (drop ?n src) + length (take ?n src)))" "ctr_ok x'" "ct_b x' = ct_b x"
      by simp_all
    moreover have "length (drop ?n src) + length (take ?n src) = length src" by simp
    ultimately show ?thesis
      using ws(2) xorStream_append [of "pending x" "take ?n src" "drop ?n src"] by (simp add: add.assoc)
  qed
qed

lemma XORKeyStream_spec:
  assumes "ctr_ok x" and "length src \<le> length dst"
  shows "\<exists>x'. XORKeyStream x dst src = Ok (x', xorStream (pending x) src @ drop (length src) dst) \<and> ctr_ok x' \<and>
    pending x' = (\<lambda>i. pending x (i + length src))"
proof -
  obtain x' w where "keyStreamLoop (length src) x src = (x', w)" by fastforce
  with keyStreamLoop_spec [OF assms(1) order_refl this] assms(2) show ?thesis
    by (simp add: XORKeyStream_def)
qed

lemma NewCTR_spec:
  assumes "block_ok b" and "length iv = bk_BlockSize b"
  shows "\<exists>x. NewCTR b iv = Ok x \<and> ctr_ok x \<and> pending x = counterMode b iv"
  using assms by (auto simp: NewCTR_def ctr_ok_def pending_def keyStreamFrom_def streamBufferSize_def Let_def fun_eq_iff)

lemma byte_xor_cancel: "(x XOR y) XOR y = x" for x y :: byte
  by (rule bit_word_eqI) (auto simp: bit_simps)

lemma xorStream_inv [simp]: "xorStream ks (xorStream ks src) = src"
  by (rule nth_equalityI) (simp_all add: xorStream_def byte_xor_cancel)

section \<open>Properties\<close>

text \<open>Messages that are encrypted one after the other with one stream.\<close>

fun xorEach :: "bytes list \<Rightarrow> ctr \<Rightarrow> (ctr \<times> bytes list) res" where
  "xorEach [] x = Ok (x, [])"
| "xorEach (m # ms) x = bind_res (XORKeyStream x (replicate (length m) 0) m) (\<lambda>(x, c). bind_res (xorEach ms x) (\<lambda>(x, cs). Ok (x, c # cs)))"

lemma xorEach_spec:
  assumes "ctr_ok x"
  shows "\<exists>x' cs. xorEach ms x = Ok (x', cs) \<and> map length cs = map length ms \<and> concat cs = xorStream (pending x) (concat ms)"
  using assms
proof (induction ms arbitrary: x)
  case Nil
  then show ?case by (simp add: xorStream_def)
next
  case (Cons m ms)
  obtain x1 where x1: "XORKeyStream x (replicate (length m) 0) m = Ok (x1, xorStream (pending x) m)" "ctr_ok x1"
      "pending x1 = (\<lambda>i. pending x (i + length m))"
    using XORKeyStream_spec [OF Cons.prems, of m "replicate (length m) 0"] by auto
  from Cons.IH [OF x1(2)] x1 show ?case by (auto simp: xorStream_append)
qed

text \<open>
  C40: The buffered stream is counter mode: whatever the lengths of the messages that are encrypted one after the other, their concatenation
  is encrypted with the bytes of the blocks that the cipher gives for the initialization vector, the initialization vector plus one and so
  on, modulo the size of a block. No call panics, and NewCTR panics exactly on an initialization vector of another length than a block.
\<close>

theorem ctr_is_counter_mode:
  assumes "block_ok b"
  shows "if length iv = bk_BlockSize b
    then \<exists>x x' cs. NewCTR b iv = Ok x \<and> xorEach ms x = Ok (x', cs) \<and> map length cs = map length ms \<and>
      concat cs = xorStream (counterMode b iv) (concat ms)
    else is_panic (NewCTR b iv)"
proof (cases "length iv = bk_BlockSize b")
  case True
  with NewCTR_spec [OF assms True] xorEach_spec [of _ ms] show ?thesis by fastforce
next
  case False
  then show ?thesis by (simp add: NewCTR_def)
qed

theorem ctr_is_counter_mode_witness:
  "\<exists>x x' c1 c2. NewCTR \<lparr>bk_BlockSize = 2, bk_Encrypt = rev\<rparr> [0, 255] = Ok x \<and> xorEach [[1], [2, 3]] x = Ok (x', [c1, c2]) \<and> c1 @ c2 = [254, 2, 3]"
proof -
  have b: "block_ok \<lparr>bk_BlockSize = 2, bk_Encrypt = rev\<rparr>" by (simp add: block_ok_def)
  have "xorStream (counterMode \<lparr>bk_BlockSize = 2, bk_Encrypt = rev\<rparr> [0, 255]) [1, 2, 3] = [254, 2, 3]" by code_simp
  with ctr_is_counter_mode [OF b, of "[0, 255]" "[[1], [2, 3]]"] show ?thesis by (auto simp: map_eq_Cons_conv)
qed

end
