(* ===== verification/Session_Ticket.thy ===== *)
theory Session_Ticket
  imports Session_State Cipher_CTR
begin

text \<open>
  Session tickets: the encryption of \<^verbatim>\<open>crypto/tls/ticket.go\<close>, in counter mode and with a MAC, and the ticket keys of
  \<^verbatim>\<open>crypto/tls/common.go\<close> with their rotation. AES, HMAC and SHA-512 are parameters.
\<close>

section \<open>Tickets\<close>

record ticketKey =
  tk_aesKey :: bytes
  tk_hmacKey :: bytes
  tk_created :: int

text \<open>\<open>cipher key\<close> is the AES block cipher with the key.\<close>

definition aes_NewCipher :: "(bytes \<Rightarrow> block) \<Rightarrow> bytes \<Rightarrow> block res" where
  "aes_NewCipher cipher key =
     (if length key = 16 \<or> length key = 24 \<or> length key = 32 then Ok (cipher key) else Err ''crypto/aes: invalid key size'')"

definition aes_BlockSize :: nat where "aes_BlockSize = 16"
definition sha256_Size :: nat where "sha256_Size = 32"

text \<open>\<open>rnd\<close> is the result of reading the initialization vector.\<close>

definition encryptTicket :: "(bytes \<Rightarrow> block) \<Rightarrow> hmac \<Rightarrow> bytes res \<Rightarrow> bytes \<Rightarrow> ticketKey list \<Rightarrow> bytes res" where
  "encryptTicket cipher mac rnd state keys =
     (if length keys = 0 then Err ''tls: internal error: session ticket keys unavailable''
      else bind_res rnd (\<lambda>iv.
        let key = keys ! 0 in
        case aes_NewCipher cipher (tk_aesKey key) of
          Err e \<Rightarrow> Err (''tls: failed to create cipher while encrypting ticket: '' @ e)
        | Panic p \<Rightarrow> Panic p
        | Ok block \<Rightarrow>
            bind_res (NewCTR block iv) (\<lambda>x.
            bind_res (XORKeyStream x (replicate (length state) 0) state) (\<lambda>(_, ciphertext).
            let authenticated = iv @ ciphertext in Ok (authenticated @ mac SHA256 (tk_hmacKey key) authenticated)))))"

fun decryptLoop :: "(bytes \<Rightarrow> block) \<Rightarrow> hmac \<Rightarrow> bytes \<Rightarrow> bytes \<Rightarrow> bytes \<Rightarrow> ticketKey list \<Rightarrow> bytes option res" where
  "decryptLoop cipher mac iv ciphertext macBytes [] = Ok None"
| "decryptLoop cipher mac iv ciphertext macBytes (key # keys) =
     (if ConstantTimeCompare macBytes (mac SHA256 (tk_hmacKey key) (iv @ ciphertext)) \<noteq> 1
      then decryptLoop cipher mac iv ciphertext macBytes keys
      else case aes_NewCipher cipher (tk_aesKey key) of
          Err e \<Rightarrow> Ok None
        | Panic p \<Rightarrow> Panic p
        | Ok block \<Rightarrow>
            bind_res (NewCTR block iv) (\<lambda>x.
            bind_res (XORKeyStream x (replicate (length ciphertext) 0) ciphertext) (\<lambda>(_, plaintext). Ok (Some plaintext))))"

definition decryptTicket :: "(bytes \<Rightarrow> block) \<Rightarrow> hmac \<Rightarrow> bytes \<Rightarrow> ticketKey list \<Rightarrow> bytes option res" where
  "decryptTicket cipher mac encrypted keys =
     (if length encrypted < aes_BlockSize + sha256_Size then Ok None
      else let n = length encrypted - sha256_Size in
        decryptLoop cipher mac (take aes_BlockSize encrypted) (drop aes_BlockSize (take n encrypted)) (drop n encrypted) keys)"

text \<open>What a ticket relies on of AES: its blocks have 16 bytes.\<close>

definition aes_ok :: "(bytes \<Rightarrow> block) \<Rightarrow> bool" where
  "aes_ok cipher \<longleftrightarrow> (\<forall>key. block_ok (cipher key) \<and> bk_BlockSize (cipher key) = aes_BlockSize)"

definition key_ok :: "ticketKey \<Rightarrow> bool" where
  "key_ok k \<longleftrightarrow> length (tk_aesKey k) = 16"

text \<open>The ticket for a state: the vector, the state in counter mode and the MAC over both.\<close>

definition sealed_ticket :: "(bytes \<Rightarrow> block) \<Rightarrow> hmac \<Rightarrow> ticketKey \<Rightarrow> bytes \<Rightarrow> bytes \<Rightarrow> bytes" where
  "sealed_ticket cipher mac k iv state =
     (let a = iv @ xorStream (counterMode (cipher (tk_aesKey k)) iv) state in a @ mac SHA256 (tk_hmacKey k) a)"

lemma aes_stream:
  assumes "aes_ok cipher" and "length iv = aes_BlockSize"
  shows "bind_res (NewCTR (cipher key) iv) (\<lambda>x. bind_res (XORKeyStream x (replicate (length src) 0) src) (\<lambda>(_, out). f out)) =
    f (xorStream (counterMode (cipher key) iv) src)"
proof -
  have b: "block_ok (cipher key)" "length iv = bk_BlockSize (cipher key)" using assms by (simp_all add: aes_ok_def)
  obtain x where x: "NewCTR (cipher key) iv = Ok x" "ctr_ok x" "pending x = counterMode (cipher key) iv"
    using NewCTR_spec [OF b] by blast
  obtain y where "XORKeyStream x (replicate (length src) 0) src = Ok (y, xorStream (pending x) src @ drop (length src) (replicate (length src) 0))"
    using XORKeyStream_spec [OF x(2), of src "replicate (length src) 0"] by auto
  with x show ?thesis by simp
qed

lemma encryptTicket_Ok:
  assumes "aes_ok cipher" and "length iv = aes_BlockSize" and "key_ok k"
  shows "encryptTicket cipher mac (Ok iv) state (k # ks) = Ok (sealed_ticket cipher mac k iv state)"
  using assms by (simp add: encryptTicket_def Let_def aes_NewCipher_def key_ok_def aes_stream sealed_ticket_def)

lemma decryptLoop_first:
  assumes "aes_ok cipher" and "length iv = aes_BlockSize" and "\<forall>k \<in> set keys. key_ok k"
  shows "decryptLoop cipher mac iv ct tag keys =
    Ok (map_option (\<lambda>k. xorStream (counterMode (cipher (tk_aesKey k)) iv) ct) (find (\<lambda>k. mac SHA256 (tk_hmacKey k) (iv @ ct) = tag) keys))"
  using assms(3)
proof (induction keys)
  case Nil
  show ?case by simp
next
  case (Cons k keys)
  then show ?case
    by (auto simp: ConstantTimeCompare_spec aes_NewCipher_def key_ok_def aes_stream [OF assms(1,2)])
qed

text \<open>Opening a ticket is the search for the first key whose MAC it carries.\<close>

lemma decryptTicket_split:
  assumes "aes_ok cipher" and "length iv = aes_BlockSize" and "length tag = sha256_Size" and "\<forall>k \<in> set keys. key_ok k"
  shows "decryptTicket cipher mac (iv @ ct @ tag) keys =
    Ok (map_option (\<lambda>k. xorStream (counterMode (cipher (tk_aesKey k)) iv) ct) (find (\<lambda>k. mac SHA256 (tk_hmacKey k) (iv @ ct) = tag) keys))"
proof -
  have "drop aes_BlockSize (take (length (iv @ ct @ tag) - sha256_Size) (iv @ ct @ tag)) = ct"
      "drop (length (iv @ ct @ tag) - sha256_Size) (iv @ ct @ tag) = tag"
    using assms(2,3) by simp_all
  with assms show ?thesis
    by (simp add: decryptTicket_def Let_def decryptLoop_first)
qed

lemma decryptTicket_sealed:
  assumes "aes_ok cipher" and "mac_sized mac" and "length iv = aes_BlockSize" and "\<forall>k \<in> set keys. key_ok k"
    and "find (\<lambda>j. mac SHA256 (tk_hmacKey j) (iv @ xorStream (counterMode (cipher (tk_aesKey k)) iv) state) =
      mac SHA256 (tk_hmacKey k) (iv @ xorStream (counterMode (cipher (tk_aesKey k)) iv) state)) keys = Some k"
  shows "decryptTicket cipher mac (sealed_ticket cipher mac k iv state) keys = Ok (Some state)"
proof -
  have "length (mac SHA256 (tk_hmacKey k) m) = sha256_Size" for m
    using assms(2) by (simp add: mac_sized_def sha256_Size_def)
  with assms show ?thesis by (simp add: sealed_ticket_def Let_def decryptTicket_split)
qed

lemma ticket_parts:
  assumes "aes_BlockSize + sha256_Size \<le> length encrypted"
  obtains iv ct tag where "encrypted = iv @ ct @ tag" "length iv = aes_BlockSize" "length tag = sha256_Size"
proof
  let ?n = "length encrypted - sha256_Size"
  show "encrypted = take aes_BlockSize encrypted @ drop aes_BlockSize (take ?n encrypted) @ drop ?n encrypted"
  proof -
    have "take ?n encrypted = take aes_BlockSize encrypted @ drop aes_BlockSize (take ?n encrypted)"
      using assms append_take_drop_id [of aes_BlockSize "take ?n encrypted"] by simp
    then show ?thesis using append_take_drop_id [of ?n encrypted] by (metis append_assoc)
  qed
qed (use assms in simp_all)

lemma decryptTicket_total:
  assumes "aes_ok cipher" and "\<forall>k \<in> set keys. key_ok k"
  shows "\<exists>r. decryptTicket cipher mac encrypted keys = Ok r"
proof (cases "aes_BlockSize + sha256_Size \<le> length encrypted")
  case True
  then show ?thesis
    by (rule ticket_parts) (use decryptTicket_split [OF assms(1) _ _ assms(2)] in auto)
next
  case False
  then show ?thesis by (simp add: decryptTicket_def)
qed

lemma decryptTicket_Some:
  assumes "aes_ok cipher" and "\<forall>k \<in> set keys. key_ok k" and "decryptTicket cipher mac encrypted keys = Ok (Some state)"
  shows "\<exists>k \<in> set keys. \<exists>iv. length iv = aes_BlockSize \<and> encrypted = sealed_ticket cipher mac k iv state"
proof -
  have "aes_BlockSize + sha256_Size \<le> length encrypted"
    using assms(3) by (auto simp: decryptTicket_def split: if_splits)
  from ticket_parts [OF this] obtain iv ct tag where e: "encrypted = iv @ ct @ tag"
    and n: "length iv = aes_BlockSize" "length tag = sha256_Size" by blast
  from assms(3) obtain k where k: "find (\<lambda>k. mac SHA256 (tk_hmacKey k) (iv @ ct) = tag) keys = Some k"
      "state = xorStream (counterMode (cipher (tk_aesKey k)) iv) ct"
    unfolding e decryptTicket_split [OF assms(1) n assms(2)] by auto
  then have "k \<in> set keys" "mac SHA256 (tk_hmacKey k) (iv @ ct) = tag" by (auto simp: find_Some_iff)
  with k(2) n(1) show ?thesis by (auto simp: e sealed_ticket_def Let_def intro!: bexI [of _ k] exI [of _ iv])
qed


section \<open>Ticket keys\<close>

text \<open>
  What a configuration keeps of tickets. \<open>tg_readers\<close> is the number of read locks that are held on its mutex: a writer waits until
  there is none. The clock is read once in a call.
\<close>

record ticketConfig =
  tg_SessionTicketsDisabled :: bool
  tg_SessionTicketKey :: bytes
  tg_sessionTicketKeys :: "ticketKey list"
  tg_autoSessionTicketKeys :: "ticketKey list"
  tg_readers :: nat

definition ticketKeyLifetime :: int where "ticketKeyLifetime = 7 * 24 * 3600 * time_Second"
definition ticketKeyRotation :: int where "ticketKeyRotation = 24 * 3600 * time_Second"
definition deprecatedSessionTicketKey :: bytes where "deprecatedSessionTicketKey = ascii ''DEPRECATED''"

text \<open>\<open>sha512\<close> is the hash; its first 16 bytes are not used.\<close>

definition ticketKeyFromBytes :: "(bytes \<Rightarrow> bytes) \<Rightarrow> int \<Rightarrow> bytes \<Rightarrow> ticketKey" where
  "ticketKeyFromBytes sha512 now b = (let hashed = sha512 b in
     \<lparr>tk_aesKey = go_copy (replicate 16 0) (drop 16 hashed), tk_hmacKey = go_copy (replicate 16 0) (drop (16 + 16) hashed), tk_created = now\<rparr>)"

definition hasDeprecatedPrefix :: "bytes \<Rightarrow> bool" where
  "hasDeprecatedPrefix key \<longleftrightarrow> take (length deprecatedSessionTicketKey) key = deprecatedSessionTicketKey"

definition initLegacySessionTicketKeyRLocked :: "(bytes \<Rightarrow> bytes) \<Rightarrow> int \<Rightarrow> bytes res \<Rightarrow> ticketConfig \<Rightarrow> ticketConfig res" where
  "initLegacySessionTicketKeyRLocked sha512 now rnd c =
     (let key = tg_SessionTicketKey c in
      if key \<noteq> replicate 32 0 \<and> (hasDeprecatedPrefix key \<or> length (tg_sessionTicketKeys c) > 0) then Ok c
      else if key = replicate 32 0 then
        (case rnd of
           Ok r \<Rightarrow> Ok (c\<lparr>tg_SessionTicketKey := go_copy r deprecatedSessionTicketKey\<rparr>)
         | Err e \<Rightarrow> Panic (''tls: unable to generate random session ticket key: '' @ e)
         | Panic p \<Rightarrow> Panic p)
      else if \<not> hasDeprecatedPrefix key \<and> length (tg_sessionTicketKeys c) = 0
        then Ok (c\<lparr>tg_sessionTicketKeys := [ticketKeyFromBytes sha512 now key]\<rparr>)
      else Ok c)"

text \<open>The random bytes of a call: for the legacy key of either configuration and for a new key.\<close>

record ticketRand =
  tr_clientLegacy :: "bytes res"
  tr_legacy :: "bytes res"
  tr_newKey :: "bytes res"

definition rotateKeys :: "(bytes \<Rightarrow> bytes) \<Rightarrow> int \<Rightarrow> bytes res \<Rightarrow> ticketConfig \<Rightarrow> ticketConfig res" where
  "rotateKeys sha512 now rnd c =
     (if length (tg_autoSessionTicketKeys c) = 0 \<or> time_Sub now (tk_created (tg_autoSessionTicketKeys c ! 0)) \<ge> ticketKeyRotation then
        (case rnd of
           Ok newKey \<Rightarrow> Ok (c\<lparr>tg_autoSessionTicketKeys := ticketKeyFromBytes sha512 now newKey #
             filter (\<lambda>k. time_Sub now (tk_created k) < ticketKeyLifetime) (tg_autoSessionTicketKeys c)\<rparr>)
         | Err e \<Rightarrow> Panic (''unable to generate random session ticket key: '' @ e)
         | Panic p \<Rightarrow> Panic p)
      else Ok c)"

definition ownTicketKeys :: "(bytes \<Rightarrow> bytes) \<Rightarrow> int \<Rightarrow> ticketRand \<Rightarrow> ticketConfig \<Rightarrow> (ticketKey list \<times> ticketConfig) res" where
  "ownTicketKeys sha512 now r c =
     (let c = c\<lparr>tg_readers := tg_readers c + 1\<rparr>; unlock = (\<lambda>c. c\<lparr>tg_readers := tg_readers c - 1\<rparr>) in
      if tg_SessionTicketsDisabled c then Ok ([], unlock c)
      else bind_res (initLegacySessionTicketKeyRLocked sha512 now (tr_legacy r) c) (\<lambda>c.
        if length (tg_sessionTicketKeys c) \<noteq> 0 then Ok (tg_sessionTicketKeys c, unlock c)
        else if length (tg_autoSessionTicketKeys c) > 0 \<and> time_Sub now (tk_created (tg_autoSessionTicketKeys c ! 0)) < ticketKeyRotation
          then Ok (tg_autoSessionTicketKeys c, unlock c)
        else bind_res (rotateKeys sha512 now (tr_newKey r) c) (\<lambda>c. Ok (tg_autoSessionTicketKeys c, unlock c))))"

definition ticketKeys :: "(bytes \<Rightarrow> bytes) \<Rightarrow> int \<Rightarrow> ticketRand \<Rightarrow> ticketConfig option \<Rightarrow> ticketConfig \<Rightarrow>
    (ticketKey list \<times> ticketConfig option \<times> ticketConfig) res" where
  "ticketKeys sha512 now r configForClient c =
     (let own = (\<lambda>f. bind_res (ownTicketKeys sha512 now r c) (\<lambda>(keys, c). Ok (keys, f, c))) in
      case configForClient of
        None \<Rightarrow> own None
      | Some f \<Rightarrow>
          let f = f\<lparr>tg_readers := tg_readers f + 1\<rparr> in
          if tg_SessionTicketsDisabled f then Ok ([], Some f, c)
          else bind_res (initLegacySessionTicketKeyRLocked sha512 now (tr_clientLegacy r) f) (\<lambda>f.
            if length (tg_sessionTicketKeys f) \<noteq> 0 then Ok (tg_sessionTicketKeys f, Some (f\<lparr>tg_readers := tg_readers f - 1\<rparr>), c)
            else own (Some (f\<lparr>tg_readers := tg_readers f - 1\<rparr>))))"

text \<open>\<open>None\<close> is a call that waits for the lock.\<close>

definition SetSessionTicketKeys :: "(bytes \<Rightarrow> bytes) \<Rightarrow> int \<Rightarrow> bytes list \<Rightarrow> ticketConfig \<Rightarrow> ticketConfig option res" where
  "SetSessionTicketKeys sha512 now keys c =
     (if length keys = 0 then Panic ''tls: keys must have at least one key''
      else if tg_readers c > 0 then Ok None
      else Ok (Some (c\<lparr>tg_sessionTicketKeys := map (ticketKeyFromBytes sha512 now) keys\<rparr>)))"

text \<open>The exported wrappers. A call that rotates the keys keeps them also when it fails later.\<close>

definition EncryptTicket :: "(bytes \<Rightarrow> bytes) \<Rightarrow> int \<Rightarrow> ticketRand \<Rightarrow> (bytes \<Rightarrow> block) \<Rightarrow> hmac \<Rightarrow> bytes res \<Rightarrow> SessionState \<Rightarrow>
    ticketConfig \<Rightarrow> (bytes res \<times> ticketConfig) res" where
  "EncryptTicket sha512 now r cipher mac iv ss c =
     bind_res (ticketKeys sha512 now r None c) (\<lambda>(keys, _, c).
     Ok (bind_res (sn_Bytes ss) (\<lambda>stateBytes. encryptTicket cipher mac iv stateBytes keys), c))"

definition DecryptTicket :: "(bytes \<Rightarrow> bytes) \<Rightarrow> int \<Rightarrow> ticketRand \<Rightarrow> (bytes \<Rightarrow> block) \<Rightarrow> hmac \<Rightarrow> (bytes \<Rightarrow> peerCert res) \<Rightarrow> bytes \<Rightarrow>
    certCache \<Rightarrow> ticketConfig \<Rightarrow> (SessionState option \<times> certCache \<times> ticketConfig) res" where
  "DecryptTicket sha512 now r cipher mac parse ident cc c =
     bind_res (ticketKeys sha512 now r None c) (\<lambda>(keys, _, c).
     bind_res (decryptTicket cipher mac ident keys) (\<lambda>stateBytes. case stateBytes of
       None \<Rightarrow> Ok (None, cc, c)
     | Some b \<Rightarrow> (case ParseSessionState parse b cc of
         (Ok s, cc) \<Rightarrow> Ok (Some s, cc, c)
       | (Err _, cc) \<Rightarrow> Ok (None, cc, c)
       | (Panic p, cc) \<Rightarrow> Panic p)))"

text \<open>A configuration whose keys the package manages itself.\<close>

definition autoManaged :: "ticketConfig \<Rightarrow> bool" where
  "autoManaged c \<longleftrightarrow> \<not> tg_SessionTicketsDisabled c \<and> tg_sessionTicketKeys c = [] \<and> length (tg_SessionTicketKey c) = 32 \<and>
     (tg_SessionTicketKey c = replicate 32 0 \<or> hasDeprecatedPrefix (tg_SessionTicketKey c))"

definition rand_ok :: "ticketRand \<Rightarrow> bool" where
  "rand_ok r \<longleftrightarrow> (\<exists>a b. tr_legacy r = Ok a \<and> length a = 32 \<and> tr_newKey r = Ok b)"

lemma key_ok_fromBytes: "key_ok (ticketKeyFromBytes sha512 now b)"
  by (simp add: key_ok_def ticketKeyFromBytes_def Let_def)

lemma deprecated_zero: "\<not> hasDeprecatedPrefix (replicate 32 0)"
  by (simp add: hasDeprecatedPrefix_def deprecatedSessionTicketKey_def ascii_def)

lemma hasDeprecatedPrefix_copy: "length r = 32 \<Longrightarrow> hasDeprecatedPrefix (go_copy r deprecatedSessionTicketKey)"
  by (simp add: hasDeprecatedPrefix_def deprecatedSessionTicketKey_def go_copy_def)

lemma init_auto:
  assumes "autoManaged c" and "rand_ok r"
  shows "\<exists>key. initLegacySessionTicketKeyRLocked sha512 now (tr_legacy r) (c\<lparr>tg_readers := n\<rparr>) =
      Ok (c\<lparr>tg_readers := n, tg_SessionTicketKey := key\<rparr>) \<and> autoManaged (c\<lparr>tg_SessionTicketKey := key\<rparr>)"
proof (cases "tg_SessionTicketKey c = replicate 32 0")
  case True
  from assms(2) obtain a where "tr_legacy r = Ok a" "length a = 32" by (auto simp: rand_ok_def)
  with True assms(1) show ?thesis
    by (intro exI [of _ "go_copy a deprecatedSessionTicketKey"])
      (simp add: initLegacySessionTicketKeyRLocked_def Let_def autoManaged_def hasDeprecatedPrefix_copy)
next
  case False
  with assms(1) show ?thesis
    by (intro exI [of _ "tg_SessionTicketKey c"]) (auto simp: initLegacySessionTicketKeyRLocked_def Let_def autoManaged_def)
qed

text \<open>
  Keys that the package manages: the first is fresh, a key that has not expired is kept, none is invented but a new first one, and the
  lock is released.
\<close>

lemma ownTicketKeys_auto:
  assumes "autoManaged c" and "rand_ok r" and "clock_ok now"
  shows "\<exists>keys c'. ownTicketKeys sha512 now r c = Ok (keys, c') \<and> autoManaged c' \<and> tg_autoSessionTicketKeys c' = keys \<and>
    tg_readers c' = tg_readers c \<and> keys \<noteq> [] \<and> time_Sub now (tk_created (hd keys)) < ticketKeyRotation \<and>
    (\<forall>k \<in> set (tg_autoSessionTicketKeys c). time_Sub now (tk_created k) < ticketKeyLifetime \<longrightarrow> k \<in> set keys) \<and>
    (\<forall>k \<in> set keys. k \<in> set (tg_autoSessionTicketKeys c) \<or> (\<exists>b. k = ticketKeyFromBytes sha512 now b))"
proof -
  obtain key where i: "initLegacySessionTicketKeyRLocked sha512 now (tr_legacy r) (c\<lparr>tg_readers := tg_readers c + 1\<rparr>) =
      Ok (c\<lparr>tg_readers := tg_readers c + 1, tg_SessionTicketKey := key\<rparr>)" "autoManaged (c\<lparr>tg_SessionTicketKey := key\<rparr>)"
    using init_auto [OF assms(1,2)] by blast
  obtain b where b: "tr_newKey r = Ok b" using assms(2) by (auto simp: rand_ok_def)
  let ?auto = "tg_autoSessionTicketKeys c"
  define keys where "keys = (if length ?auto > 0 \<and> time_Sub now (tk_created (?auto ! 0)) < ticketKeyRotation then ?auto
    else ticketKeyFromBytes sha512 now b # filter (\<lambda>k. time_Sub now (tk_created k) < ticketKeyLifetime) ?auto)"
  have "ownTicketKeys sha512 now r c = Ok (keys, c\<lparr>tg_SessionTicketKey := key, tg_autoSessionTicketKeys := keys\<rparr>)"
    using assms(1) i b by (auto simp: ownTicketKeys_def Let_def autoManaged_def rotateKeys_def keys_def)
  moreover have "time_Sub now (tk_created (hd keys)) < ticketKeyRotation" "keys \<noteq> []"
    using assms(3) by (auto simp: keys_def hd_conv_nth ticketKeyFromBytes_def Let_def time_Sub_eq ticketKeyRotation_def time_Second_def)
  moreover have "\<forall>k \<in> set ?auto. time_Sub now (tk_created k) < ticketKeyLifetime \<longrightarrow> k \<in> set keys"
      "\<forall>k \<in> set keys. k \<in> set ?auto \<or> (\<exists>b. k = ticketKeyFromBytes sha512 now b)"
    by (auto simp: keys_def)
  moreover have "autoManaged (c\<lparr>tg_SessionTicketKey := key, tg_autoSessionTicketKeys := keys\<rparr>)"
    using i(2) by (simp add: autoManaged_def)
  ultimately show ?thesis by auto
qed


text \<open>A server that asks for its keys again and again.\<close>

fun serveKeys :: "(bytes \<Rightarrow> bytes) \<Rightarrow> (int \<times> ticketRand) list \<Rightarrow> ticketConfig \<Rightarrow> ticketConfig res" where
  "serveKeys sha512 [] c = Ok c"
| "serveKeys sha512 ((now, r) # calls) c = bind_res (ticketKeys sha512 now r None c) (\<lambda>(_, _, c). serveKeys sha512 calls c)"

definition keys_ready :: "ticketConfig \<Rightarrow> bool" where
  "keys_ready c \<longleftrightarrow> autoManaged c \<and> (\<forall>k \<in> set (tg_autoSessionTicketKeys c). key_ok k)"

lemma ticketKeys_auto:
  assumes "keys_ready c" and "rand_ok r" and "clock_ok now"
  shows "\<exists>keys c'. ticketKeys sha512 now r None c = Ok (keys, None, c') \<and> keys_ready c' \<and> tg_autoSessionTicketKeys c' = keys \<and>
    keys \<noteq> [] \<and> time_Sub now (tk_created (hd keys)) < ticketKeyRotation \<and>
    (\<forall>k \<in> set (tg_autoSessionTicketKeys c). time_Sub now (tk_created k) < ticketKeyLifetime \<longrightarrow> k \<in> set keys)"
proof -
  from assms(1) have a: "autoManaged c" by (simp add: keys_ready_def)
  from ownTicketKeys_auto [OF a assms(2,3)] obtain keys c' where o: "ownTicketKeys sha512 now r c = Ok (keys, c')" "autoManaged c'"
      "tg_autoSessionTicketKeys c' = keys" "keys \<noteq> []" "time_Sub now (tk_created (hd keys)) < ticketKeyRotation"
      "\<forall>k \<in> set (tg_autoSessionTicketKeys c). time_Sub now (tk_created k) < ticketKeyLifetime \<longrightarrow> k \<in> set keys"
      "\<forall>k \<in> set keys. k \<in> set (tg_autoSessionTicketKeys c) \<or> (\<exists>b. k = ticketKeyFromBytes sha512 now b)"
    by blast
  moreover have "keys_ready c'"
    using o(2,3,7) assms(1) key_ok_fromBytes by (fastforce simp: keys_ready_def)
  ultimately show ?thesis by (simp add: ticketKeys_def)
qed

lemma serveKeys_keep:
  assumes "keys_ready c" and "k \<in> set (tg_autoSessionTicketKeys c)"
    and "\<forall>(t, r) \<in> set calls. clock_ok t \<and> rand_ok r \<and> time_Sub t (tk_created k) < ticketKeyLifetime"
  shows "\<exists>c'. serveKeys sha512 calls c = Ok c' \<and> keys_ready c' \<and> k \<in> set (tg_autoSessionTicketKeys c')"
  using assms
proof (induction calls arbitrary: c)
  case Nil
  then show ?case by simp
next
  case (Cons x calls)
  obtain t r where x: "x = (t, r)" by (cases x)
  with Cons.prems(3) have t: "clock_ok t" "rand_ok r" "time_Sub t (tk_created k) < ticketKeyLifetime" by simp_all
  from ticketKeys_auto [OF Cons.prems(1) t(2,1)] obtain keys c1
    where c1: "ticketKeys sha512 t r None c = Ok (keys, None, c1)" "keys_ready c1" "tg_autoSessionTicketKeys c1 = keys"
      "\<forall>k \<in> set (tg_autoSessionTicketKeys c). time_Sub t (tk_created k) < ticketKeyLifetime \<longrightarrow> k \<in> set keys" by blast
  then have "k \<in> set (tg_autoSessionTicketKeys c1)" using Cons.prems(2) t(3) by simp
  from Cons.IH [OF c1(2) this] Cons.prems(3) c1(1) show ?case by (simp add: x)
qed

lemma find_unique:
  assumes "k \<in> set ks" and "P k" and "\<And>j. j \<in> set ks \<Longrightarrow> P j \<Longrightarrow> j = k"
  shows "find P ks = Some k"
proof (cases "find P ks")
  case None
  with assms(1,2) show ?thesis by (auto simp: find_None_iff)
next
  case (Some j)
  then have "j \<in> set ks" "P j" by (auto simp: find_Some_iff)
  with assms(3) Some show ?thesis by blast
qed

section \<open>Properties\<close>

text \<open>The part of a ticket that is authenticated, and its MAC.\<close>

definition ticket_body :: "bytes \<Rightarrow> bytes" where
  "ticket_body ticket = take (length ticket - sha256_Size) ticket"

definition ticket_tag :: "bytes \<Rightarrow> bytes" where
  "ticket_tag ticket = drop (length ticket - sha256_Size) ticket"

lemma sealed_ticket_parts:
  assumes "mac_sized mac"
  shows "ticket_body (sealed_ticket cipher mac k iv state) = iv @ xorStream (counterMode (cipher (tk_aesKey k)) iv) state"
    and "ticket_tag (sealed_ticket cipher mac k iv state) =
      mac SHA256 (tk_hmacKey k) (iv @ xorStream (counterMode (cipher (tk_aesKey k)) iv) state)"
  using assms by (simp_all add: ticket_body_def ticket_tag_def sealed_ticket_def Let_def mac_sized_def sha256_Size_def)


text \<open>A toy cipher and MAC, two keys and a ticket.\<close>

definition toy_cipher :: "bytes \<Rightarrow> block" where
  "toy_cipher key = \<lparr>bk_BlockSize = 16, bk_Encrypt = (\<lambda>c. map (\<lambda>x. x + hd key) c)\<rparr>"

definition toy_ticketKey :: "byte \<Rightarrow> ticketKey" where
  "toy_ticketKey b = \<lparr>tk_aesKey = replicate 16 b, tk_hmacKey = replicate 16 b, tk_created = 0\<rparr>"

definition toy_tag :: hmac where
  "toy_tag h k m = replicate (Size h) (hd k + of_nat (length m))"

lemma toy_aes_ok: "aes_ok toy_cipher"
  by (simp add: aes_ok_def toy_cipher_def block_ok_def aes_BlockSize_def)


text \<open>
  C14: A ticket can be used for the lifetime of its key. The server seals a state with its current keys; whatever number of times it
  asks for its keys afterwards, rotating them, it opens the ticket again as long as the key is younger than seven days, unless
  another of its keys happens to give the MAC of the ticket.
\<close>

theorem ticket_openable:
  assumes "aes_ok cipher" and "mac_sized mac" and "keys_ready c" and "clock_ok t0" and "rand_ok r0" and "length iv = aes_BlockSize"
  shows "\<exists>keys0 c0 ticket. ticketKeys sha512 t0 r0 None c = Ok (keys0, None, c0) \<and> encryptTicket cipher mac (Ok iv) state keys0 = Ok ticket \<and>
    time_Sub t0 (tk_created (hd keys0)) < ticketKeyRotation \<and>
    (\<forall>calls t1 r1. (\<forall>(t, r) \<in> set (calls @ [(t1, r1)]). clock_ok t \<and> rand_ok r \<and> time_Sub t (tk_created (hd keys0)) < ticketKeyLifetime) \<longrightarrow>
      (\<exists>c1 keys1 c2. serveKeys sha512 calls c0 = Ok c1 \<and> ticketKeys sha512 t1 r1 None c1 = Ok (keys1, None, c2) \<and> hd keys0 \<in> set keys1 \<and>
        ((\<forall>j \<in> set keys1. mac SHA256 (tk_hmacKey j) (ticket_body ticket) = ticket_tag ticket \<longrightarrow> j = hd keys0) \<longrightarrow>
          decryptTicket cipher mac ticket keys1 = Ok (Some state))))"
proof -
  from ticketKeys_auto [OF assms(3,5,4)] obtain keys0 c0 where k: "ticketKeys sha512 t0 r0 None c = Ok (keys0, None, c0)"
      "keys_ready c0" "tg_autoSessionTicketKeys c0 = keys0" "keys0 \<noteq> []" "time_Sub t0 (tk_created (hd keys0)) < ticketKeyRotation"
    by blast
  then obtain ks where ks: "keys0 = hd keys0 # ks" by (cases keys0) auto
  have ok: "key_ok (hd keys0)" using k(2-4) by (simp add: keys_ready_def)
  let ?ticket = "sealed_ticket cipher mac (hd keys0) iv state"
  have e: "encryptTicket cipher mac (Ok iv) state keys0 = Ok ?ticket"
    by (subst ks) (rule encryptTicket_Ok [OF assms(1,6) ok])
  have "\<exists>c1 keys1 c2. serveKeys sha512 calls c0 = Ok c1 \<and> ticketKeys sha512 t1 r1 None c1 = Ok (keys1, None, c2) \<and> hd keys0 \<in> set keys1 \<and>
        ((\<forall>j \<in> set keys1. mac SHA256 (tk_hmacKey j) (ticket_body ?ticket) = ticket_tag ?ticket \<longrightarrow> j = hd keys0) \<longrightarrow>
          decryptTicket cipher mac ?ticket keys1 = Ok (Some state))"
    if calls: "\<forall>(t, r) \<in> set (calls @ [(t1, r1)]). clock_ok t \<and> rand_ok r \<and> time_Sub t (tk_created (hd keys0)) < ticketKeyLifetime" for calls t1 r1
  proof -
    obtain c1 where c1: "serveKeys sha512 calls c0 = Ok c1" "keys_ready c1" "hd keys0 \<in> set (tg_autoSessionTicketKeys c1)"
      using serveKeys_keep [OF k(2), of "hd keys0" calls] k(3,4) calls by auto
    from calls have t1: "clock_ok t1" "rand_ok r1" "time_Sub t1 (tk_created (hd keys0)) < ticketKeyLifetime" by simp_all
    from ticketKeys_auto [OF c1(2) t1(2,1)] c1(3) t1(3) obtain keys1 c2 where c2: "ticketKeys sha512 t1 r1 None c1 = Ok (keys1, None, c2)"
        "keys_ready c2" "tg_autoSessionTicketKeys c2 = keys1" "hd keys0 \<in> set keys1" by blast
    have "\<forall>k \<in> set keys1. key_ok k" using c2(2,3) by (simp add: keys_ready_def)
    note dec = decryptTicket_sealed [OF assms(1,2,6) this, of "hd keys0" state]
    have "decryptTicket cipher mac ?ticket keys1 = Ok (Some state)"
      if "\<forall>j \<in> set keys1. mac SHA256 (tk_hmacKey j) (ticket_body ?ticket) = ticket_tag ?ticket \<longrightarrow> j = hd keys0"
      by (rule dec, rule find_unique) (use c2(4) that [unfolded sealed_ticket_parts [OF assms(2)]] in auto)
    with c1(1) c2(1,4) show ?thesis by blast
  qed
  with k(1,5) e show ?thesis by blast
qed


text \<open>A server without keys, its random bytes, and a day in nanoseconds.\<close>

definition toy_ticketConfig :: ticketConfig where
  "toy_ticketConfig = \<lparr>tg_SessionTicketsDisabled = False, tg_SessionTicketKey = replicate 32 0, tg_sessionTicketKeys = [],
     tg_autoSessionTicketKeys = [], tg_readers = 0\<rparr>"

definition toy_ticketRand :: "byte \<Rightarrow> ticketRand" where
  "toy_ticketRand b = \<lparr>tr_clientLegacy = Ok [], tr_legacy = Ok (replicate 32 3), tr_newKey = Ok (replicate 32 b)\<rparr>"

definition toy_keyAt :: "int \<Rightarrow> byte \<Rightarrow> ticketKey" where
  "toy_keyAt now b = \<lparr>tk_aesKey = replicate 16 b, tk_hmacKey = replicate 16 b, tk_created = now\<rparr>"

definition toy_day :: int where "toy_day = 86400000000000"

lemma toy_keyFromBytes: "ticketKeyFromBytes (\<lambda>b. b @ b) now (replicate 32 b) = toy_keyAt now b"
  by (simp add: ticketKeyFromBytes_def toy_keyAt_def go_copy_def)

lemma toy_keys_first:
  "\<exists>c. ticketKeys (\<lambda>b. b @ b) 0 (toy_ticketRand 7) None toy_ticketConfig = Ok ([toy_keyAt 0 7], None, c) \<and> keys_ready c \<and>
     tg_autoSessionTicketKeys c = [toy_keyAt 0 7]"
  by (auto simp: ticketKeys_def ownTicketKeys_def toy_ticketConfig_def toy_ticketRand_def initLegacySessionTicketKeyRLocked_def Let_def
      rotateKeys_def toy_keyFromBytes keys_ready_def autoManaged_def hasDeprecatedPrefix_copy key_ok_def toy_keyAt_def)

lemma toy_keys_second:
  assumes "keys_ready c" and "tg_autoSessionTicketKeys c = [toy_keyAt 0 7]" and "autoManaged c"
  shows "\<exists>c'. ticketKeys (\<lambda>b. b @ b) (2 * toy_day) (toy_ticketRand 9) None c = Ok ([toy_keyAt (2 * toy_day) 9, toy_keyAt 0 7], None, c')"
proof -
  obtain key where i: "initLegacySessionTicketKeyRLocked (\<lambda>b. b @ b) (2 * toy_day) (tr_legacy (toy_ticketRand 9)) (c\<lparr>tg_readers := tg_readers c + 1\<rparr>) =
      Ok (c\<lparr>tg_readers := tg_readers c + 1, tg_SessionTicketKey := key\<rparr>)"
  proof -
    have "rand_ok (toy_ticketRand 9)" by (simp add: rand_ok_def toy_ticketRand_def)
    from init_auto [OF assms(3) this] show ?thesis using that by blast
  qed
  have d: "time_Sub (2 * toy_day) 0 = 172800000000000" by (simp add: time_Sub_eq clock_ok_def toy_day_def)
  show ?thesis
    using assms i
    by (simp add: ticketKeys_def ownTicketKeys_def autoManaged_def Let_def rotateKeys_def toy_ticketRand_def toy_keyFromBytes)
      (simp add: d toy_keyAt_def ticketKeyRotation_def ticketKeyLifetime_def time_Second_def)
qed

theorem ticket_openable_witness:
  "\<exists>ticket keys0 c0 keys1 c2. ticketKeys (\<lambda>b. b @ b) 0 (toy_ticketRand 7) None toy_ticketConfig = Ok (keys0, None, c0) \<and>
     encryptTicket toy_cipher toy_tag (Ok (replicate 16 1)) [4, 5] keys0 = Ok ticket \<and>
     ticketKeys (\<lambda>b. b @ b) (2 * toy_day) (toy_ticketRand 9) None c0 = Ok (keys1, None, c2) \<and> length keys1 = 2 \<and>
     decryptTicket toy_cipher toy_tag ticket keys1 = Ok (Some [4, 5])"
proof -
  obtain c where c: "ticketKeys (\<lambda>b. b @ b) 0 (toy_ticketRand 7) None toy_ticketConfig = Ok ([toy_keyAt 0 7], None, c)" "keys_ready c"
      "tg_autoSessionTicketKeys c = [toy_keyAt 0 7]"
    using toy_keys_first by blast
  obtain c' where c': "ticketKeys (\<lambda>b. b @ b) (2 * toy_day) (toy_ticketRand 9) None c =
      Ok ([toy_keyAt (2 * toy_day) 9, toy_keyAt 0 7], None, c')"
    using toy_keys_second [OF c(2,3)] c(2) by (auto simp: keys_ready_def)
  have r: "rand_ok (toy_ticketRand b)" for b by (simp add: rand_ok_def toy_ticketRand_def)
  have t: "clock_ok 0" "clock_ok (2 * toy_day)" "time_Sub (2 * toy_day) 0 < ticketKeyLifetime"
    by (simp_all add: clock_ok_def toy_day_def time_Sub_def minDuration_def maxDuration_def ticketKeyLifetime_def time_Second_def)
  have m: "mac_sized toy_tag" by (simp add: mac_sized_def toy_tag_def)
  have ready: "keys_ready toy_ticketConfig" by (simp add: keys_ready_def autoManaged_def toy_ticketConfig_def)
  have iv: "length (replicate 16 1 :: bytes) = aes_BlockSize" by (simp add: aes_BlockSize_def)
  from ticket_openable [OF toy_aes_ok m ready t(1) r [of 7] iv, of "\<lambda>b. b @ b" "[4, 5]"] c(1)
  obtain ticket where e: "encryptTicket toy_cipher toy_tag (Ok (replicate 16 1)) [4, 5] [toy_keyAt 0 7] = Ok ticket"
    and p: "\<And>calls t1 r1. (\<forall>(t, r) \<in> set (calls @ [(t1, r1)]). clock_ok t \<and> rand_ok r \<and> time_Sub t (tk_created (toy_keyAt 0 7)) < ticketKeyLifetime) \<longrightarrow>
      (\<exists>c1 keys1 c2. serveKeys (\<lambda>b. b @ b) calls c = Ok c1 \<and> ticketKeys (\<lambda>b. b @ b) t1 r1 None c1 = Ok (keys1, None, c2) \<and> toy_keyAt 0 7 \<in> set keys1 \<and>
        ((\<forall>j \<in> set keys1. toy_tag SHA256 (tk_hmacKey j) (ticket_body ticket) = ticket_tag ticket \<longrightarrow> j = toy_keyAt 0 7) \<longrightarrow>
          decryptTicket toy_cipher toy_tag ticket keys1 = Ok (Some [4, 5])))"
    by auto
  have "ticket = sealed_ticket toy_cipher toy_tag (toy_keyAt 0 7) (replicate 16 1) [4, 5]"
    using e encryptTicket_Ok [OF toy_aes_ok iv, of "toy_keyAt 0 7" toy_tag "[4, 5]" "[]"] by (simp add: key_ok_def toy_keyAt_def)
  then have "toy_tag SHA256 (tk_hmacKey (toy_keyAt (2 * toy_day) 9)) (ticket_body ticket) \<noteq> ticket_tag ticket"
    by (simp add: sealed_ticket_parts [OF m]) (simp add: toy_tag_def toy_keyAt_def)
  with p [of "[]" "2 * toy_day" "toy_ticketRand 9"] c' t r have "decryptTicket toy_cipher toy_tag ticket [toy_keyAt (2 * toy_day) 9, toy_keyAt 0 7] = Ok (Some [4, 5])"
    by (simp add: toy_keyAt_def)
  with c(1) e c' show ?thesis
    by (intro exI [of _ ticket] exI [of _ "[toy_keyAt 0 7]"] exI [of _ c] exI [of _ "[toy_keyAt (2 * toy_day) 9, toy_keyAt 0 7]"] exI [of _ c']) simp
qed

text \<open>
  A configuration that a callback chose for one client and that has tickets disabled is left with a read lock: the early return of
  \<open>ticketKeys\<close> does not release it, and setting new keys on that configuration waits for ever.
\<close>

theorem disabled_tickets_keep_lock:
  assumes "tg_SessionTicketsDisabled f" and "tg_readers f = 0" and "keys \<noteq> []"
  shows "\<exists>f'. ticketKeys sha512 now r (Some f) c = Ok ([], Some f', c) \<and> SetSessionTicketKeys sha512 now keys f' = Ok None \<and>
    (\<exists>g. SetSessionTicketKeys sha512 now keys f = Ok (Some g))"
  using assms by (simp add: ticketKeys_def SetSessionTicketKeys_def Let_def)

text \<open>
  The exported wrappers invert each other: a session that has an encoding comes back from its ticket, with new handles for its
  certificates, while the key it was sealed with is younger than seven days and is the only one that gives the MAC of the ticket.
\<close>

theorem EncryptTicket_DecryptTicket:
  assumes "aes_ok cipher" and "mac_sized mac" and "keys_ready c" and "length iv = aes_BlockSize" and "wf_session parse ss" and "interned parse cc"
    and "clock_ok t0" "rand_ok r0" "clock_ok t1" "rand_ok r1"
  shows "\<exists>k ticket c0. EncryptTicket sha512 t0 r0 cipher mac (Ok iv) ss c = Ok (Ok ticket, c0) \<and>
    time_Sub t0 (tk_created k) < ticketKeyRotation \<and>
    (time_Sub t1 (tk_created k) < ticketKeyLifetime \<longrightarrow>
      (\<exists>keys c1. ticketKeys sha512 t1 r1 None c0 = Ok (keys, None, c1) \<and> k \<in> set keys \<and>
        ((\<forall>j \<in> set keys. mac SHA256 (tk_hmacKey j) (ticket_body ticket) = ticket_tag ticket \<longrightarrow> j = k) \<longrightarrow>
          (\<exists>handles cc'. DecryptTicket sha512 t1 r1 cipher mac parse ticket cc c0 = Ok (Some (ss\<lparr>sn_activeCertHandles := handles\<rparr>), cc', c1)))))"
proof -
  from ticketKeys_auto [OF assms(3,8,7)] obtain keys0 c0 where k: "ticketKeys sha512 t0 r0 None c = Ok (keys0, None, c0)"
      "keys_ready c0" "tg_autoSessionTicketKeys c0 = keys0" "keys0 \<noteq> []" "time_Sub t0 (tk_created (hd keys0)) < ticketKeyRotation"
    by blast
  then obtain ks where ks: "keys0 = hd keys0 # ks" by (cases keys0) auto
  have ok: "key_ok (hd keys0)" using k(2-4) by (simp add: keys_ready_def)
  let ?ticket = "sealed_ticket cipher mac (hd keys0) iv (sn_encode ss)"
  have "encryptTicket cipher mac (Ok iv) (sn_encode ss) keys0 = Ok ?ticket"
    by (subst ks) (rule encryptTicket_Ok [OF assms(1,4) ok])
  then have e: "EncryptTicket sha512 t0 r0 cipher mac (Ok iv) ss c = Ok (Ok ?ticket, c0)"
    using k(1) sn_Bytes_Ok [OF assms(5)] by (simp add: EncryptTicket_def)
  from ticketKeys_auto [OF k(2) assms(10,9)] obtain keys c1 where c1: "ticketKeys sha512 t1 r1 None c0 = Ok (keys, None, c1)" "keys_ready c1"
      "tg_autoSessionTicketKeys c1 = keys" "\<forall>k \<in> set keys0. time_Sub t1 (tk_created k) < ticketKeyLifetime \<longrightarrow> k \<in> set keys"
    unfolding k(3) by blast
  have "\<forall>k \<in> set keys. key_ok k" using c1(2,3) by (simp add: keys_ready_def)
  note dec = decryptTicket_sealed [OF assms(1,2,4) this, of "hd keys0" "sn_encode ss"]
  have "\<exists>handles cc'. DecryptTicket sha512 t1 r1 cipher mac parse ?ticket cc c0 = Ok (Some (ss\<lparr>sn_activeCertHandles := handles\<rparr>), cc', c1)"
    if "hd keys0 \<in> set keys" "\<forall>j \<in> set keys. mac SHA256 (tk_hmacKey j) (ticket_body ?ticket) = ticket_tag ?ticket \<longrightarrow> j = hd keys0"
  proof -
    have "decryptTicket cipher mac ?ticket keys = Ok (Some (sn_encode ss))"
      by (rule dec, rule find_unique) (use that [unfolded sealed_ticket_parts [OF assms(2)]] in auto)
    with c1(1) ParseSessionState_encode [OF assms(5,6)] show ?thesis by (auto simp: DecryptTicket_def)
  qed
  with e k(4,5) c1(1,4) show ?thesis by (intro exI [of _ "hd keys0"] exI [of _ ?ticket] exI [of _ c0]) auto
qed

end
