(* ===== verification/Session_Cache.thy ===== *)
theory Session_Cache
  imports Session_State
begin

text \<open>
  The client's cache of sessions: \<^verbatim>\<open>lruSessionCache\<close> of \<^verbatim>\<open>crypto/tls/common.go\<close>, a map into a doubly linked list. An element of the list
  is a pointer, so that the map and the list share it. The locale \<open>client_session_cache\<close> is the contract of the interface
  \<^verbatim>\<open>ClientSessionCache\<close> as the handshake uses it.
\<close>

section \<open>The cache\<close>

record ClientSessionState =
  cs_ticket :: bytes
  cs_session :: SessionState

definition ResumptionState :: "ClientSessionState \<Rightarrow> bytes \<times> SessionState" where
  "ResumptionState cs = (cs_ticket cs, cs_session cs)"

definition NewResumptionState :: "bytes \<Rightarrow> SessionState \<Rightarrow> ClientSessionState" where
  "NewResumptionState ticket state = \<lparr>cs_ticket = ticket, cs_session = state\<rparr>"

record lruSessionCacheEntry =
  le_sessionKey :: bytes
  le_state :: "ClientSessionState option"

type_synonym elementPtr = nat

text \<open>The list is given by its elements from the front to the back, and \<open>lc_Value\<close> is what they point to.\<close>

record lruSessionCache =
  lc_m :: "bytes \<rightharpoonup> elementPtr"
  lc_q :: "elementPtr list"
  lc_Value :: "elementPtr \<Rightarrow> lruSessionCacheEntry"
  lc_next :: elementPtr
  lc_capacity :: nat

definition defaultSessionCacheCapacity :: nat where "defaultSessionCacheCapacity = 64"

definition NewLRUClientSessionCache :: "int \<Rightarrow> lruSessionCache" where
  "NewLRUClientSessionCache capacity =
     \<lparr>lc_m = Map.empty, lc_q = [], lc_Value = (\<lambda>_. \<lparr>le_sessionKey = [], le_state = None\<rparr>), lc_next = 0,
      lc_capacity = (if capacity < 1 then defaultSessionCacheCapacity else nat capacity)\<rparr>"

definition MoveToFront :: "elementPtr \<Rightarrow> elementPtr list \<Rightarrow> elementPtr list" where
  "MoveToFront e q = e # remove1 e q"

definition lru_Put :: "bytes \<Rightarrow> ClientSessionState option \<Rightarrow> lruSessionCache \<Rightarrow> lruSessionCache res" where
  "lru_Put sessionKey cs c = (case lc_m c sessionKey of
     Some elem \<Rightarrow>
       (case cs of
          None \<Rightarrow> Ok (c\<lparr>lc_q := remove1 elem (lc_q c), lc_m := (lc_m c)(sessionKey := None)\<rparr>)
        | Some _ \<Rightarrow> Ok (c\<lparr>lc_Value := (lc_Value c)(elem := (lc_Value c elem)\<lparr>le_state := cs\<rparr>), lc_q := MoveToFront elem (lc_q c)\<rparr>))
   | None \<Rightarrow>
       if length (lc_q c) < lc_capacity c then
         Ok (c\<lparr>lc_Value := (lc_Value c)(lc_next c := \<lparr>le_sessionKey = sessionKey, le_state = cs\<rparr>), lc_q := lc_next c # lc_q c,
                lc_m := (lc_m c)(sessionKey \<mapsto> lc_next c), lc_next := Suc (lc_next c)\<rparr>)
       else if lc_q c = [] then Panic ''invalid memory address or nil pointer dereference''
       else let elem = last (lc_q c) in
         Ok (c\<lparr>lc_m := ((lc_m c)(le_sessionKey (lc_Value c elem) := None))(sessionKey \<mapsto> elem),
                lc_Value := (lc_Value c)(elem := \<lparr>le_sessionKey = sessionKey, le_state = cs\<rparr>), lc_q := MoveToFront elem (lc_q c)\<rparr>))"

definition lru_Get :: "bytes \<Rightarrow> lruSessionCache \<Rightarrow> (ClientSessionState option \<times> bool) \<times> lruSessionCache" where
  "lru_Get sessionKey c = (case lc_m c sessionKey of
     Some elem \<Rightarrow> ((le_state (lc_Value c elem), True), c\<lparr>lc_q := MoveToFront elem (lc_q c)\<rparr>)
   | None \<Rightarrow> ((None, False), c))"

section \<open>Least recently used\<close>

text \<open>The specification: the entries from the most to the least recently used.\<close>

type_synonym lru_list = "(bytes \<times> ClientSessionState option) list"

definition spec_put :: "nat \<Rightarrow> bytes \<Rightarrow> ClientSessionState option \<Rightarrow> lru_list \<Rightarrow> lru_list" where
  "spec_put capacity k cs l =
     (if k \<in> fst ` set l then (if cs = None then [] else [(k, cs)]) @ filter (\<lambda>x. fst x \<noteq> k) l
      else if length l < capacity then (k, cs) # l else (k, cs) # butlast l)"

definition spec_get :: "bytes \<Rightarrow> lru_list \<Rightarrow> (ClientSessionState option \<times> bool) \<times> lru_list" where
  "spec_get k l = (case map_of l k of
     Some v \<Rightarrow> ((v, True), (k, v) # filter (\<lambda>x. fst x \<noteq> k) l)
   | None \<Rightarrow> ((None, False), l))"

definition lru_abs :: "lruSessionCache \<Rightarrow> lru_list" where
  "lru_abs c = map (\<lambda>e. (le_sessionKey (lc_Value c e), le_state (lc_Value c e))) (lc_q c)"

text \<open>
  The invariant: the elements of the list are distinct and have distinct keys, the map has exactly the keys of the list, each with its
  element, new elements are fresh, and the list is within the capacity, which is positive.
\<close>

definition lru_ok :: "lruSessionCache \<Rightarrow> bool" where
  "lru_ok c \<longleftrightarrow> distinct (lc_q c) \<and> inj_on (\<lambda>e. le_sessionKey (lc_Value c e)) (set (lc_q c)) \<and>
     (\<forall>k e. lc_m c k = Some e \<longleftrightarrow> e \<in> set (lc_q c) \<and> le_sessionKey (lc_Value c e) = k) \<and>
     (\<forall>e \<in> set (lc_q c). e < lc_next c) \<and> length (lc_q c) \<le> lc_capacity c \<and> 0 < lc_capacity c"

lemma new_ok: "lru_ok (NewLRUClientSessionCache n)" "lru_abs (NewLRUClientSessionCache n) = []"
  by (simp_all add: NewLRUClientSessionCache_def lru_ok_def lru_abs_def defaultSessionCacheCapacity_def)

lemma lru_m_None: "lru_ok c \<Longrightarrow> lc_m c k = None \<longleftrightarrow> k \<notin> fst ` set (lru_abs c)"
proof -
  assume "lru_ok c"
  then have "lc_m c k = Some e \<longleftrightarrow> e \<in> set (lc_q c) \<and> le_sessionKey (lc_Value c e) = k" for e by (simp add: lru_ok_def)
  moreover have "lc_m c k = None \<longleftrightarrow> (\<forall>e. lc_m c k \<noteq> Some e)" by auto
  ultimately show ?thesis by (auto simp: lru_abs_def image_image)
qed

lemma filter_remove1:
  assumes "distinct xs" and "inj_on f (set xs)" and "e \<in> set xs"
  shows "filter (\<lambda>x. f x \<noteq> f e) xs = remove1 e xs"
proof -
  have "filter (\<lambda>x. f x \<noteq> f e) xs = filter (\<lambda>x. x \<noteq> e) xs"
    using assms(2,3) by (intro filter_cong) (auto dest: inj_onD)
  with assms(1) show ?thesis by (simp add: distinct_remove1_removeAll removeAll_filter_not_eq) (metis (mono_tags))
qed

lemma abs_filter:
  assumes "lru_ok c" and "e \<in> set (lc_q c)"
  shows "filter (\<lambda>x. fst x \<noteq> le_sessionKey (lc_Value c e)) (lru_abs c) =
    map (\<lambda>e. (le_sessionKey (lc_Value c e), le_state (lc_Value c e))) (remove1 e (lc_q c))"
  using assms filter_remove1 [of "lc_q c" "\<lambda>e. le_sessionKey (lc_Value c e)" e]
  by (simp add: lru_abs_def filter_map comp_def lru_ok_def)

lemma map_of_abs:
  assumes "lru_ok c" and "e \<in> set (lc_q c)"
  shows "map_of (lru_abs c) (le_sessionKey (lc_Value c e)) = Some (le_state (lc_Value c e))"
proof -
  have "distinct (map fst (lru_abs c))"
    using assms(1) by (simp add: lru_abs_def lru_ok_def distinct_map comp_def)
  moreover have "(le_sessionKey (lc_Value c e), le_state (lc_Value c e)) \<in> set (lru_abs c)"
    using assms(2) by (auto simp: lru_abs_def)
  ultimately show ?thesis by simp
qed

lemma MoveToFront_list:
  assumes "e \<in> set q" and "distinct q"
  shows "set (MoveToFront e q) = set q" "distinct (MoveToFront e q)" "length (MoveToFront e q) = length q"
  using assms length_pos_if_in_set [OF assms(1)] by (auto simp: MoveToFront_def length_remove1)

lemma Get_refines:
  assumes "lru_ok c"
  shows "\<exists>c'. lru_Get k c = (fst (spec_get k (lru_abs c)), c') \<and> lru_ok c' \<and> lru_abs c' = snd (spec_get k (lru_abs c)) \<and>
    lc_capacity c' = lc_capacity c"
proof (cases "lc_m c k")
  case None
  then have "map_of (lru_abs c) k = None" using lru_m_None [OF assms] by (simp add: map_of_eq_None_iff)
  with None assms show ?thesis by (simp add: lru_Get_def spec_get_def)
next
  case (Some e)
  then have e: "e \<in> set (lc_q c)" "k = le_sessionKey (lc_Value c e)" using assms by (auto simp: lru_ok_def)
  let ?c = "c\<lparr>lc_q := MoveToFront e (lc_q c)\<rparr>"
  have d: "distinct (lc_q c)" using assms by (simp add: lru_ok_def)
  have "lru_abs ?c = snd (spec_get k (lru_abs c))"
    using abs_filter [OF assms e(1)] map_of_abs [OF assms e(1)] by (simp add: spec_get_def e(2) lru_abs_def MoveToFront_def)
  moreover have "lru_ok ?c"
    using assms MoveToFront_list [OF e(1) d] by (simp add: lru_ok_def)
  ultimately show ?thesis
    using Some map_of_abs [OF assms e(1)] by (simp add: lru_Get_def spec_get_def e(2))
qed


lemma lru_okD:
  assumes "lru_ok c"
  shows "distinct (lc_q c)" "inj_on (\<lambda>e. le_sessionKey (lc_Value c e)) (set (lc_q c))"
    "lc_m c k = Some e \<longleftrightarrow> e \<in> set (lc_q c) \<and> le_sessionKey (lc_Value c e) = k"
    "e \<in> set (lc_q c) \<Longrightarrow> e < lc_next c" "length (lc_q c) \<le> lc_capacity c" "0 < lc_capacity c"
  using assms by (simp_all add: lru_ok_def)

lemma lru_okI:
  assumes "distinct (lc_q c)" and "inj_on (\<lambda>e. le_sessionKey (lc_Value c e)) (set (lc_q c))"
    and "\<And>k e. lc_m c k = Some e \<longleftrightarrow> e \<in> set (lc_q c) \<and> le_sessionKey (lc_Value c e) = k"
    and "\<And>e. e \<in> set (lc_q c) \<Longrightarrow> e < lc_next c" and "length (lc_q c) \<le> lc_capacity c" and "0 < lc_capacity c"
  shows "lru_ok c"
  using assms by (simp add: lru_ok_def)

lemma Put_delete:
  assumes "lru_ok c" and "lc_m c k = Some e"
  shows "lru_ok (c\<lparr>lc_q := remove1 e (lc_q c), lc_m := (lc_m c)(k := None)\<rparr>)"
proof (rule lru_okI, goal_cases)
  case 1
  show ?case using lru_okD(1) [OF assms(1)] by simp
next
  case 2
  show ?case using lru_okD(1,2) [OF assms(1)] by (auto intro: inj_on_subset)
next
  case (3 j f)
  have "inj_on (\<lambda>e. le_sessionKey (lc_Value c e)) (set (lc_q c))" by (rule lru_okD(2) [OF assms(1)])
  then show ?case
    using lru_okD(1,3) [OF assms(1)] assms(2) by (auto dest: inj_onD)
next
  case (4 f)
  then show ?case using lru_okD(1,4) [OF assms(1)] by simp
next
  case 5
  show ?case using lru_okD(5) [OF assms(1)] by (auto simp: length_remove1)
next
  case 6
  show ?case using lru_okD(6) [OF assms(1)] by simp
qed

lemma Put_replace:
  assumes "lru_ok c" and "lc_m c k = Some e"
  shows "lru_ok (c\<lparr>lc_Value := (lc_Value c)(e := (lc_Value c e)\<lparr>le_state := cs\<rparr>), lc_q := MoveToFront e (lc_q c)\<rparr>)"
proof -
  have e: "e \<in> set (lc_q c)" "distinct (lc_q c)" using lru_okD(1,3) [OF assms(1)] assms(2) by simp_all
  note s = MoveToFront_list [OF e]
  have "le_sessionKey (((lc_Value c)(e := (lc_Value c e)\<lparr>le_state := cs\<rparr>)) x) = le_sessionKey (lc_Value c x)" for x by simp
  with assms(1) s show ?thesis by (simp only: lru_ok_def) simp
qed

lemma Put_insert:
  assumes "lru_ok c" and "lc_m c k = None" and "length (lc_q c) < lc_capacity c"
  shows "lru_ok (c\<lparr>lc_Value := (lc_Value c)(lc_next c := \<lparr>le_sessionKey = k, le_state = cs\<rparr>), lc_q := lc_next c # lc_q c,
      lc_m := (lc_m c)(k \<mapsto> lc_next c), lc_next := Suc (lc_next c)\<rparr>)"
proof -
  have n: "lc_next c \<notin> set (lc_q c)" using lru_okD(4) [OF assms(1)] by blast
  have k: "e \<in> set (lc_q c) \<Longrightarrow> le_sessionKey (lc_Value c e) \<noteq> k" for e
    using lru_okD(3) [OF assms(1), of k e] assms(2) by simp
  show ?thesis
  proof (rule lru_okI, goal_cases)
    case 2
    show ?case using lru_okD(2) [OF assms(1)] n k by (auto simp: inj_on_def)
  next
    case (3 j f)
    show ?case using lru_okD(3) [OF assms(1)] n k by auto
  next
    case (4 f)
    then show ?case using lru_okD(4) [OF assms(1), of f] by auto
  qed (use lru_okD(1,6) [OF assms(1)] n assms(3) in auto)
qed

lemma Put_evict:
  assumes "lru_ok c" and "lc_m c k = None" and "e \<in> set (lc_q c)"
  shows "lru_ok (c\<lparr>lc_m := ((lc_m c)(le_sessionKey (lc_Value c e) := None))(k \<mapsto> e),
      lc_Value := (lc_Value c)(e := \<lparr>le_sessionKey = k, le_state = cs\<rparr>), lc_q := MoveToFront e (lc_q c)\<rparr>)"
proof -
  note s = MoveToFront_list [OF assms(3) lru_okD(1) [OF assms(1)]]
  have k: "f \<in> set (lc_q c) \<Longrightarrow> le_sessionKey (lc_Value c f) \<noteq> k" for f
    using lru_okD(3) [OF assms(1), of k f] assms(2) by simp
  note i = lru_okD(2) [OF assms(1)]
  show ?thesis
  proof (rule lru_okI, goal_cases)
    case 2
    show ?case using i k s(1) by (auto simp: inj_on_def)
  next
    case (3 j f)
    show ?case using lru_okD(3) [OF assms(1)] k s(1) assms(3) inj_onD [OF i] by auto
  next
    case (4 f)
    then show ?case using lru_okD(4) [OF assms(1), of f] s(1) by simp
  qed (use lru_okD(5,6) [OF assms(1)] s in simp_all)
qed

lemma Put_refines:
  assumes "lru_ok c"
  shows "\<exists>c'. lru_Put k cs c = Ok c' \<and> lru_ok c' \<and> lru_abs c' = spec_put (lc_capacity c) k cs (lru_abs c) \<and>
    lc_capacity c' = lc_capacity c"
proof (cases "lc_m c k")
  case (Some e)
  then have e: "e \<in> set (lc_q c)" "k = le_sessionKey (lc_Value c e)" using lru_okD(3) [OF assms] by simp_all
  have k: "k \<in> fst ` set (lru_abs c)" using lru_m_None [OF assms, of k] Some by simp
  have f: "filter (\<lambda>x. fst x \<noteq> k) (lru_abs c) = map (\<lambda>e. (le_sessionKey (lc_Value c e), le_state (lc_Value c e))) (remove1 e (lc_q c))"
    using abs_filter [OF assms e(1)] e(2) by simp
  show ?thesis
  proof (cases cs)
    case None
    with Some k f Put_delete [OF assms Some] show ?thesis
      by (simp add: lru_Put_def spec_put_def) (simp add: lru_abs_def)
  next
    case (Some v)
    have "e \<notin> set (remove1 e (lc_q c))" using lru_okD(1) [OF assms] by simp
    then have "map (\<lambda>x. (le_sessionKey (((lc_Value c)(e := (lc_Value c e)\<lparr>le_state := cs\<rparr>)) x), le_state (((lc_Value c)(e := (lc_Value c e)\<lparr>le_state := cs\<rparr>)) x)))
        (remove1 e (lc_q c)) = map (\<lambda>e. (le_sessionKey (lc_Value c e), le_state (lc_Value c e))) (remove1 e (lc_q c))"
      by (intro map_cong) auto
    with Some \<open>lc_m c k = Some e\<close> k f e(2) Put_replace [OF assms \<open>lc_m c k = Some e\<close>, of cs] show ?thesis
      by (simp add: lru_Put_def spec_put_def) (simp add: lru_abs_def MoveToFront_def)
  qed
next
  case None
  then have k: "k \<notin> fst ` set (lru_abs c)" using lru_m_None [OF assms, of k] by simp
  show ?thesis
  proof (cases "length (lc_q c) < lc_capacity c")
    case True
    have "lc_next c \<notin> set (lc_q c)" using lru_okD(4) [OF assms] by blast
    then have "map (\<lambda>x. (le_sessionKey (((lc_Value c)(lc_next c := v)) x), le_state (((lc_Value c)(lc_next c := v)) x))) (lc_q c) = lru_abs c" for v
      unfolding lru_abs_def by (intro map_cong) auto
    with None True k Put_insert [OF assms None True, of cs] show ?thesis
      by (simp add: lru_Put_def spec_put_def) (simp add: lru_abs_def)
  next
    case False
    define e where "e = last (lc_q c)"
    have q: "lc_q c \<noteq> []" using lru_okD(6) [OF assms] False by auto
    then have e: "e \<in> set (lc_q c)" "lc_q c = butlast (lc_q c) @ [e]" by (simp_all add: e_def)
    have r: "e \<notin> set (butlast (lc_q c))" "remove1 e (lc_q c) = butlast (lc_q c)"
    proof -
      have "distinct (butlast (lc_q c) @ [e])" using lru_okD(1) [OF assms] e(2) by simp
      then show n: "e \<notin> set (butlast (lc_q c))" by simp
      show "remove1 e (lc_q c) = butlast (lc_q c)" by (subst e(2)) (simp add: remove1_append n)
    qed
    then have "map (\<lambda>x. (le_sessionKey (((lc_Value c)(e := v)) x), le_state (((lc_Value c)(e := v)) x))) (butlast (lc_q c)) = butlast (lru_abs c)" for v
      unfolding lru_abs_def map_butlast [symmetric] by (intro map_cong) auto
    with None False q k r(2) Put_evict [OF assms None e(1), of cs] show ?thesis
      by (simp add: lru_Put_def spec_put_def Let_def flip: e_def) (simp add: lru_abs_def MoveToFront_def)
  qed
qed


section \<open>The interface\<close>

text \<open>
  What the handshake needs of a \<^verbatim>\<open>ClientSessionCache\<close>: an entry that was put is found until another takes its place, a nil entry hides
  the session, and no operation makes a session appear under another key.
\<close>

datatype 'cs cacheOp = PutOp bytes "'cs option" | GetOp bytes

text \<open>A sequence of operations, and the last entry that was put under a key.\<close>

fun runOps :: "(bytes \<Rightarrow> 'cs option \<Rightarrow> 'c \<Rightarrow> 'c res) \<Rightarrow> (bytes \<Rightarrow> 'c \<Rightarrow> ('cs option \<times> bool) \<times> 'c) \<Rightarrow> 'cs cacheOp list \<Rightarrow> 'c \<Rightarrow> 'c res" where
  "runOps put lookup [] c = Ok c"
| "runOps put lookup (PutOp k v # xs) c = bind_res (put k v c) (runOps put lookup xs)"
| "runOps put lookup (GetOp k # xs) c = runOps put lookup xs (snd (lookup k c))"

fun lastPut :: "bytes \<Rightarrow> 'cs option \<Rightarrow> 'cs cacheOp list \<Rightarrow> 'cs option" where
  "lastPut k v [] = v"
| "lastPut k v (PutOp j w # xs) = lastPut k (if j = k then w else v) xs"
| "lastPut k v (GetOp j # xs) = lastPut k v xs"

locale client_session_cache =
  fixes put :: "bytes \<Rightarrow> 'cs option \<Rightarrow> 'c \<Rightarrow> 'c res"
    and lookup :: "bytes \<Rightarrow> 'c \<Rightarrow> ('cs option \<times> bool) \<times> 'c"
    and ok :: "'c \<Rightarrow> bool"
  assumes put_total: "ok c \<Longrightarrow> \<exists>c'. put k v c = Ok c' \<and> ok c'"
    and lookup_ok: "ok c \<Longrightarrow> ok (snd (lookup k c))"
    and lookup_put: "ok c \<Longrightarrow> put k (Some w) c = Ok c' \<Longrightarrow> fst (lookup k c') = (Some w, True)"
    and lookup_put_nil: "ok c \<Longrightarrow> put k None c = Ok c' \<Longrightarrow> fst (fst (lookup k c')) = None"
    and lookup_put_other: "ok c \<Longrightarrow> put k v c = Ok c' \<Longrightarrow> j \<noteq> k \<Longrightarrow> fst (lookup j c') = fst (lookup j c) \<or> fst (fst (lookup j c')) = None"
    and lookup_lookup: "ok c \<Longrightarrow> fst (lookup j (snd (lookup k c))) = fst (lookup j c)"
begin

lemma run_total: "ok c \<Longrightarrow> \<exists>c'. runOps put lookup xs c = Ok c' \<and> ok c'"
proof (induction xs arbitrary: c)
  case (Cons x xs)
  show ?case
  proof (cases x)
    case (PutOp k v)
    with put_total [OF Cons.prems, of k v] Cons.IH show ?thesis by auto
  next
    case (GetOp k)
    with Cons.IH [OF lookup_ok [OF Cons.prems]] show ?thesis by simp
  qed
qed simp

lemma found_is_last:
  assumes "ok c" and "runOps put lookup xs c = Ok c'" and "fst (fst (lookup k c)) = v \<or> fst (fst (lookup k c)) = None"
  shows "fst (fst (lookup k c')) = lastPut k v xs \<or> fst (fst (lookup k c')) = None"
  using assms
proof (induction xs arbitrary: c v)
  case Nil
  then show ?case by simp
next
  case (Cons x xs)
  show ?case
  proof (cases x)
    case (PutOp j w)
    obtain c1 where c1: "put j w c = Ok c1" "ok c1" using put_total [OF Cons.prems(1)] by blast
    have "fst (fst (lookup k c1)) = (if j = k then w else v) \<or> fst (fst (lookup k c1)) = None"
    proof (cases "j = k")
      case True
      then show ?thesis
        using lookup_put [OF Cons.prems(1)] lookup_put_nil [OF Cons.prems(1)] c1(1) by (cases w) auto
    next
      case False
      then show ?thesis
        using lookup_put_other [OF Cons.prems(1) c1(1), of k] Cons.prems(3) by auto
    qed
    from Cons.IH [OF c1(2) _ this] Cons.prems(2) c1(1) show ?thesis by (simp add: PutOp)
  next
    case (GetOp j)
    with Cons.IH [OF lookup_ok [OF Cons.prems(1)], of j v] Cons.prems lookup_lookup [OF Cons.prems(1)] show ?thesis by simp
  qed
qed

end

lemma lru_lookup: "lru_ok c \<Longrightarrow> fst (lru_Get k c) = (case map_of (lru_abs c) k of None \<Rightarrow> (None, False) | Some v \<Rightarrow> (v, True))"
  using Get_refines [of c k] by (auto simp: spec_get_def split: option.splits)

lemma map_of_filter_key: "map_of (filter (\<lambda>x. fst x \<noteq> k) l) j = (if j = k then None else map_of l j)"
  by (induction l) auto

lemma map_of_butlast: "distinct (map fst l) \<Longrightarrow> map_of (butlast l) j = map_of l j \<or> map_of (butlast l) j = None"
proof (induction l)
  case (Cons x l)
  then show ?case by (cases "l = []") auto
qed simp

lemma lru_abs_distinct: "lru_ok c \<Longrightarrow> distinct (map fst (lru_abs c))"
  by (simp add: lru_abs_def lru_ok_def distinct_map comp_def)

lemma spec_put_lookup:
  "map_of (spec_put n k (Some v) l) k = Some (Some v)"
  "map_of (spec_put n k None l) k = None \<or> map_of (spec_put n k None l) k = Some None"
  "j \<noteq> k \<Longrightarrow> distinct (map fst l) \<Longrightarrow> map_of (spec_put n k w l) j = map_of l j \<or> map_of (spec_put n k w l) j = None"
  using map_of_butlast [of l j] by (auto simp: spec_put_def map_of_filter_key)

interpretation lru: client_session_cache lru_Put lru_Get lru_ok
proof unfold_locales
  fix c :: lruSessionCache and k
  assume c: "lru_ok c"
  show "\<exists>c'. lru_Put k v c = Ok c' \<and> lru_ok c'" for v using Put_refines [OF c] by blast
  show "lru_ok (snd (lru_Get k c))" using Get_refines [OF c, of k] by auto
  have put: "lru_ok c'" "lru_abs c' = spec_put (lc_capacity c) k v (lru_abs c)" if "lru_Put k v c = Ok c'" for v c'
    using Put_refines [OF c, of k v] that by auto
  show "fst (lru_Get k c') = (Some v, True)" if "lru_Put k (Some v) c = Ok c'" for v c'
    using put [OF that] spec_put_lookup(1) by (simp add: lru_lookup)
  show "fst (fst (lru_Get k c')) = None" if "lru_Put k None c = Ok c'" for c'
    using put [OF that] spec_put_lookup(2) [of "lc_capacity c" k "lru_abs c"] by (auto simp: lru_lookup)
  show "fst (lru_Get j c') = fst (lru_Get j c) \<or> fst (fst (lru_Get j c')) = None" if "lru_Put k v c = Ok c'" "j \<noteq> k" for j v c'
    using put [OF that(1)] spec_put_lookup(3) [OF that(2) lru_abs_distinct [OF c], of "lc_capacity c" v] by (auto simp: lru_lookup c)
  show "fst (lru_Get j (snd (lru_Get k c))) = fst (lru_Get j c)" for j
  proof -
    from Get_refines [OF c, of k] obtain c' where g: "snd (lru_Get k c) = c'" "lru_ok c'" "lru_abs c' = snd (spec_get k (lru_abs c))" by auto
    have "map_of (snd (spec_get k (lru_abs c))) j = map_of (lru_abs c) j"
      by (auto simp: spec_get_def map_of_filter_key split: option.splits)
    with g c show ?thesis by (simp add: lru_lookup)
  qed
qed


section \<open>Properties\<close>

text \<open>The outcome of every operation, by the specification.\<close>

fun runSpec :: "nat \<Rightarrow> ClientSessionState cacheOp list \<Rightarrow> lru_list \<Rightarrow> lru_list" where
  "runSpec n [] l = l"
| "runSpec n (PutOp k v # xs) l = runSpec n xs (spec_put n k v l)"
| "runSpec n (GetOp k # xs) l = runSpec n xs (snd (spec_get k l))"

lemma run_refines:
  assumes "lru_ok c"
  shows "\<exists>c'. runOps lru_Put lru_Get xs c = Ok c' \<and> lru_ok c' \<and> lc_capacity c' = lc_capacity c \<and>
    lru_abs c' = runSpec (lc_capacity c) xs (lru_abs c)"
  using assms
proof (induction xs arbitrary: c)
  case (Cons x xs)
  show ?case
  proof (cases x)
    case (PutOp k v)
    from Put_refines [OF Cons.prems, of k v] obtain c1 where "lru_Put k v c = Ok c1" "lru_ok c1"
        "lru_abs c1 = spec_put (lc_capacity c) k v (lru_abs c)" "lc_capacity c1 = lc_capacity c" by blast
    with Cons.IH [of c1] show ?thesis by (simp add: PutOp)
  next
    case (GetOp k)
    from Get_refines [OF Cons.prems, of k] obtain c1 where "snd (lru_Get k c) = c1" "lru_ok c1"
        "lru_abs c1 = snd (spec_get k (lru_abs c))" "lc_capacity c1 = lc_capacity c" by auto
    with Cons.IH [of c1] show ?thesis by (simp add: GetOp)
  qed
qed simp

text \<open>
  C15: The cache of a new client, after any sequence of puts and gets, is the list of its entries from the most to the least recently
  used: no operation panics, a get returns the entry of the list and moves it to the front, and there are never more entries than the
  capacity. A session that a get finds is the one that was last put under that key.
\<close>

theorem lru_refines_list:
  "\<exists>c. runOps lru_Put lru_Get xs (NewLRUClientSessionCache n) = Ok c \<and>
     lru_abs c = runSpec (lc_capacity (NewLRUClientSessionCache n)) xs [] \<and>
     length (lc_q c) \<le> lc_capacity (NewLRUClientSessionCache n) \<and> distinct (map fst (lru_abs c)) \<and>
     (\<forall>k. fst (lru_Get k c) = fst (spec_get k (lru_abs c)) \<and> lru_abs (snd (lru_Get k c)) = snd (spec_get k (lru_abs c)) \<and>
       fst (fst (lru_Get k c)) \<in> {None, lastPut k None xs})"
proof -
  let ?new = "NewLRUClientSessionCache n"
  obtain c where c: "runOps lru_Put lru_Get xs ?new = Ok c" "lru_ok c" "lc_capacity c = lc_capacity ?new"
      "lru_abs c = runSpec (lc_capacity ?new) xs []"
    using run_refines [OF new_ok(1) [of n], of xs] new_ok(2) [of n] by auto
  have "fst (fst (lru_Get k ?new)) = None" for k by (simp add: lru_Get_def NewLRUClientSessionCache_def)
  then have "fst (fst (lru_Get k c)) \<in> {None, lastPut k None xs}" for k
    using lru.found_is_last [OF new_ok(1) [of n] c(1), of k None] by auto
  moreover have "fst (lru_Get k c) = fst (spec_get k (lru_abs c)) \<and> lru_abs (snd (lru_Get k c)) = snd (spec_get k (lru_abs c))" for k
    using Get_refines [OF c(2), of k] by auto
  ultimately show ?thesis
    using c lru_okD(5) [OF c(2)] lru_abs_distinct [OF c(2)] by auto
qed

text \<open>
  Putting nil under a key that is not there does not leave the cache as it was, as the comment on \<open>Put\<close> suggests: it stores an entry
  without a session, which a get then finds, and for which a full cache drops its least recently used session.
\<close>

theorem put_nil_stores:
  assumes "lru_ok c" and "k \<notin> fst ` set (lru_abs c)"
  shows "\<exists>c'. lru_Put k None c = Ok c' \<and> fst (lru_Get k c') = (None, True) \<and>
    lru_abs c' = (k, None) # (if length (lru_abs c) < lc_capacity c then lru_abs c else butlast (lru_abs c))"
proof -
  obtain c' where c': "lru_Put k None c = Ok c'" "lru_ok c'" "lru_abs c' = spec_put (lc_capacity c) k None (lru_abs c)"
    using Put_refines [OF assms(1)] by blast
  with assms(2) show ?thesis by (auto simp: spec_put_def lru_lookup)
qed

end
