(* ===== verification/TLS13_Resumption.thy ===== *)
theory TLS13_Resumption
  imports TLS13_Connect Session_Ticket Session_Cache
begin

text \<open>
  Resumption in TLS 1.3: the server seals a session into a ticket (\<^verbatim>\<open>sendSessionTicket\<close>), the client keeps it in its cache
  (\<^verbatim>\<open>handleNewSessionTicket\<close>), offers it with a binder in its next hello (\<^verbatim>\<open>loadSession\<close>), and the server takes it up
  (\<^verbatim>\<open>checkForResumption\<close>). Connections are not QUIC, and a hash can be cloned.
\<close>

section \<open>Connections and configurations\<close>

text \<open>The fields of \<^verbatim>\<open>Conn\<close> that a session is made of and that resumption restores.\<close>

record connSession =
  cn_vers :: u16
  cn_isClient :: bool
  cn_didResume :: bool
  cn_peerCertificates :: "peerCert list"
  cn_activeCertHandles :: "activeCert list"
  cn_ocspResponse :: "bytes option"
  cn_scts :: "bytes list option"
  cn_verifiedChains :: "peerCert list list"
  cn_extMasterSecret :: bool

datatype ClientAuthType = NoClientCert | RequestClientCert | RequireAnyClientCert | VerifyClientCertIfGiven | RequireAndVerifyClientCert

text \<open>The order of the constants.\<close>

primrec authCode :: "ClientAuthType \<Rightarrow> nat" where
  "authCode NoClientCert = 0"
| "authCode RequestClientCert = 1"
| "authCode RequireAnyClientCert = 2"
| "authCode VerifyClientCertIfGiven = 3"
| "authCode RequireAndVerifyClientCert = 4"

instantiation ClientAuthType :: linorder
begin

definition less_eq_ClientAuthType :: "ClientAuthType \<Rightarrow> ClientAuthType \<Rightarrow> bool" where
  "less_eq_ClientAuthType a b \<longleftrightarrow> authCode a \<le> authCode b"

definition less_ClientAuthType :: "ClientAuthType \<Rightarrow> ClientAuthType \<Rightarrow> bool" where
  "less_ClientAuthType a b \<longleftrightarrow> authCode a < authCode b"

instance
proof
  fix a b :: ClientAuthType
  show "a \<le> b \<Longrightarrow> b \<le> a \<Longrightarrow> a = b"
    by (cases a; cases b) (simp_all add: less_eq_ClientAuthType_def)
qed (auto simp: less_eq_ClientAuthType_def less_ClientAuthType_def)

end

definition requiresClientCert :: "ClientAuthType \<Rightarrow> bool" where
  "requiresClientCert c \<longleftrightarrow> (case c of RequireAnyClientCert \<Rightarrow> True | RequireAndVerifyClientCert \<Rightarrow> True | _ \<Rightarrow> False)"

text \<open>What the two sides read of their configuration and their surroundings, the clock included.\<close>

record serverSessionEnv =
  sv_time :: int
  sv_parse :: "bytes \<Rightarrow> peerCert res"
  sv_cipher :: "bytes \<Rightarrow> block"
  sv_ticketKeys :: "ticketKey list"
  sv_UnwrapSession :: "(bytes \<Rightarrow> SessionState option res) option"
  sv_WrapSession :: "(SessionState \<Rightarrow> bytes res) option"
  sv_ClientAuth :: ClientAuthType

record clientSessionEnv =
  cv_time :: int
  cv_ServerName :: bytes
  cv_RemoteAddr :: "bytes option"
  cv_InsecureSkipVerify :: bool
  cv_handshakes :: nat

definition maxSessionTicketLifetime :: int where "maxSessionTicketLifetime = 7 * 24 * 3600 * time_Second"
definition maxClientPSKIdentities :: nat where "maxClientPSKIdentities = 5"
definition pskModeDHE :: u8 where "pskModeDHE = 1"

definition clientSessionCacheKey :: "clientSessionEnv \<Rightarrow> bytes" where
  "clientSessionCacheKey e = (if length (cv_ServerName e) > 0 then cv_ServerName e else opt_bytes (cv_RemoteAddr e))"

section \<open>The ticket\<close>

definition sessionState :: "int \<Rightarrow> connSession \<Rightarrow> tlsConn \<Rightarrow> SessionState" where
  "sessionState now cn c =
     \<lparr>sn_Extra = [], sn_EarlyData = False, sn_version = cn_vers cn, sn_isClient = cn_isClient cn, sn_cipherSuite = tc_cipherSuite c,
      sn_createdAt = of_int (unixSec now), sn_secret = [], sn_extMasterSecret = cn_extMasterSecret cn,
      sn_peerCertificates = cn_peerCertificates cn, sn_activeCertHandles = cn_activeCertHandles cn, sn_ocspResponse = cn_ocspResponse cn,
      sn_scts = cn_scts cn, sn_verifiedChains = cn_verifiedChains cn, sn_alpnProtocol = tc_clientProtocol c, sn_useBy = 0, sn_ageAdd = 0\<rparr>"

text \<open>The server's side: how \<^verbatim>\<open>sendSessionTicket\<close> makes the label of the ticket from the pre-shared key.\<close>

definition sealSession :: "tls_hashes \<Rightarrow> serverSessionEnv \<Rightarrow> bytes res \<Rightarrow> connSession \<Rightarrow> tlsConn \<Rightarrow> bool \<Rightarrow> bytes \<Rightarrow> bytes hs_res" where
  "sealSession H e iv cn c earlyData psk =
     (let state = (sessionState (sv_time e) cn c)\<lparr>sn_secret := psk, sn_EarlyData := earlyData\<rparr> in
      case sv_WrapSession e of
        Some wrap \<Rightarrow> lift_hs None (wrap state)
      | None \<Rightarrow>
          bind_hs (lift_hs (Some alertInternalError) (sn_Bytes state)) (\<lambda>stateBytes.
          lift_hs None (encryptTicket (sv_cipher e) (th_mac H) iv stateBytes (sv_ticketKeys e))))"

definition issueTicket :: "tls_hashes \<Rightarrow> serverSessionEnv \<Rightarrow> bytes res \<Rightarrow> u32 res \<Rightarrow> connSession \<Rightarrow> tlsConn \<Rightarrow> tlsConn hs_res" where
  "issueTicket H e iv ageAdd cn c = sendSessionTicket H (sealSession H e iv cn c False) ageAdd False c"

text \<open>The client's side.\<close>

definition handleNewSessionTicket ::
    "tls_hashes \<Rightarrow> tlsConfig \<Rightarrow> clientSessionEnv \<Rightarrow> connSession \<Rightarrow> tlsConn \<Rightarrow> newSessionTicketMsgTLS13 \<Rightarrow> lruSessionCache \<Rightarrow> lruSessionCache hs_res" where
  "handleNewSessionTicket H cfg e cn c msg cache =
     (if \<not> cn_isClient cn then Stop (Some alertUnexpectedMessage) ''tls: received new session ticket from a client''
      else if cfg_SessionTicketsDisabled cfg \<or> \<not> cfg_hasClientSessionCache cfg \<or> cfg_ECHEnabled cfg then Next cache
      else if nst_lifetime msg = 0 then Next cache
      else let lifetime = int64 (uint (nst_lifetime msg) * time_Second) in
        if lifetime > maxSessionTicketLifetime then Stop (Some alertIllegalParameter) ''tls: received a session ticket with invalid lifetime''
        else case (cipherSuiteTLS13ByID (tc_cipherSuite c), tc_resumptionSecret c) of
          (Some suite, Some resumptionSecret) \<Rightarrow>
            bind_hs (lift_hs None (expandLabel H suite resumptionSecret (ascii ''resumption'') (nst_nonce msg) (Size (cs_hash suite)))) (\<lambda>psk.
            let session = (sessionState (cv_time e) cn c)\<lparr>sn_secret := psk, sn_useBy := of_int (unixSec (time_Add (cv_time e) lifetime)),
                  sn_ageAdd := nst_ageAdd msg, sn_EarlyData := False\<rparr>;
                cacheKey = clientSessionCacheKey e in
            if cacheKey \<noteq> [] then lift_hs None (lru_Put cacheKey (Some \<lparr>cs_ticket = nst_label msg, cs_session = session\<rparr>) cache)
            else Next cache)
        | _ \<Rightarrow> Stop (Some alertInternalError) ''tls: internal error'')"

section \<open>The client offers a session\<close>

text \<open>What \<^verbatim>\<open>loadSession\<close> returns: the hello as it has changed it, the session with its early secret and binder key, and the cache.\<close>

record loadedSession =
  ld_hello :: clientHelloMsg
  ld_session :: "SessionState option"
  ld_earlySecret :: bytes
  ld_binderKey :: bytes
  ld_cache :: lruSessionCache

definition noSession :: "clientHelloMsg \<Rightarrow> lruSessionCache \<Rightarrow> loadedSession res" where
  "noSession hello cache = Ok \<lparr>ld_hello = hello, ld_session = None, ld_earlySecret = [], ld_binderKey = [], ld_cache = cache\<rparr>"

definition forgetSession :: "bytes \<Rightarrow> clientHelloMsg \<Rightarrow> lruSessionCache \<Rightarrow> loadedSession res" where
  "forgetSession cacheKey hello cache = bind_res (lru_Put cacheKey None cache) (noSession hello)"

text \<open>The checks of the server's certificate in the session.\<close>

definition certUnusable :: "clientSessionEnv \<Rightarrow> SessionState \<Rightarrow> bool" where
  "certUnusable e session \<longleftrightarrow> \<not> cv_InsecureSkipVerify e \<and>
     (length (sn_verifiedChains session) = 0 \<or> \<not> pc_VerifyHostname (sn_peerCertificates session ! 0) (cv_ServerName e))"

text \<open>The pre-shared key extension with its binder.\<close>

definition offerPSK :: "tls_hashes \<Rightarrow> clientSessionEnv \<Rightarrow> cipherSuiteTLS13 \<Rightarrow> ClientSessionState \<Rightarrow> clientHelloMsg \<Rightarrow> lruSessionCache \<Rightarrow> loadedSession res" where
  "offerPSK H e suite cs hello cache =
     (let session = cs_session cs;
          ticketAge = time_Sub (cv_time e) (time_Unix (sint (sn_createdAt session)));
          ident = \<lparr>psk_label = cs_ticket cs, psk_obfuscatedTicketAge = of_int (go_div ticketAge 1000000) + sn_ageAdd session\<rparr>;
          hello = hello\<lparr>ch_pskIdentities := [ident], ch_pskBinders := [replicate (Size (cs_hash suite)) 0]\<rparr>;
          earlySecret = tls_extract H suite (Some (sn_secret session)) None in
      bind_res (deriveSecret H suite earlySecret resumptionBinderLabel None) (\<lambda>binderKey.
      case ch_marshalWithoutBinders hello of (hello, r) \<Rightarrow>
      bind_res r (\<lambda>helloBytes.
      bind_res (finishedHash H suite binderKey helloBytes) (\<lambda>binder.
      case ch_updateBinders [binder] hello of (hello, r) \<Rightarrow>
      bind_res r (\<lambda>_.
      Ok \<lparr>ld_hello = hello, ld_session = Some session, ld_earlySecret = earlySecret, ld_binderKey = binderKey, ld_cache = cache\<rparr>)))))"

definition loadSession :: "tls_hashes \<Rightarrow> tlsConfig \<Rightarrow> clientSessionEnv \<Rightarrow> clientHelloMsg \<Rightarrow> lruSessionCache \<Rightarrow> loadedSession res" where
  "loadSession H cfg e hello cache =
     (if cfg_SessionTicketsDisabled cfg \<or> \<not> cfg_hasClientSessionCache cfg \<or> cfg_ECHEnabled cfg then noSession hello cache
      else if length (ch_supportedVersions hello) = 0 then Panic ''index out of range''
      else let hello = offerTickets cfg hello; cacheKey = clientSessionCacheKey e in
        if cv_handshakes e \<noteq> 0 \<or> cacheKey = [] then noSession hello cache
        else case lru_Get cacheKey cache of
          ((Some cs, True), cache) \<Rightarrow>
            let session = cs_session cs in
            if sn_version session \<notin> set (ch_supportedVersions hello) then noSession hello cache
            else if length (sn_peerCertificates session) = 0 then Panic ''index out of range''
            else if time_After (cv_time e) (pc_NotAfter (sn_peerCertificates session ! 0)) then forgetSession cacheKey hello cache
            else if certUnusable e session then noSession hello cache
            else if sn_version session \<noteq> VersionTLS13 then
              (if mutualCipherSuite (ch_cipherSuites hello) (sn_cipherSuite session) = None then noSession hello cache
               else Ok \<lparr>ld_hello = hello\<lparr>ch_sessionTicket := cs_ticket cs\<rparr>, ld_session = Some session, ld_earlySecret = [],
                        ld_binderKey = [], ld_cache = cache\<rparr>)
            else if time_After (cv_time e) (time_Unix (sint (sn_useBy session))) then forgetSession cacheKey hello cache
            else (case cipherSuiteTLS13ByID (sn_cipherSuite session) of
                None \<Rightarrow> noSession hello cache
              | Some suite \<Rightarrow>
                  if \<not> list_ex (\<lambda>i. case cipherSuiteTLS13ByID i of None \<Rightarrow> False | Some offered \<Rightarrow> cs_hash offered = cs_hash suite)
                         (ch_cipherSuites hello) then noSession hello cache
                  else offerPSK H e suite cs hello cache)
        | (_, cache) \<Rightarrow> noSession hello cache)"

section \<open>The server takes up a session\<close>

text \<open>The session behind a ticket, if the server can open it.\<close>

definition unwrapTicket :: "tls_hashes \<Rightarrow> serverSessionEnv \<Rightarrow> bytes \<Rightarrow> certCache \<Rightarrow> (SessionState option \<times> certCache) hs_res" where
  "unwrapTicket H e label cc = (case sv_UnwrapSession e of
     Some unwrap \<Rightarrow> bind_hs (lift_hs None (unwrap label)) (\<lambda>s. Next (s, cc))
   | None \<Rightarrow>
       bind_hs (lift_hs None (decryptTicket (sv_cipher e) (th_mac H) label (sv_ticketKeys e))) (\<lambda>plaintext.
       case plaintext of
         None \<Rightarrow> Next (None, cc)
       | Some p \<Rightarrow> (case ParseSessionState (sv_parse e) p cc of
           (Ok s, cc) \<Rightarrow> Next (Some s, cc)
         | (Err _, cc) \<Rightarrow> Next (None, cc)
         | (Panic p, cc) \<Rightarrow> Halt p)))"

text \<open>Whether the session can be used for this handshake.\<close>

definition certsAcceptable :: "serverSessionEnv \<Rightarrow> peerCert list \<Rightarrow> peerCert list list \<Rightarrow> bool" where
  "certsAcceptable e certs vcs \<longleftrightarrow> (let has = length certs \<noteq> 0 in
     \<not> (requiresClientCert (sv_ClientAuth e) \<and> \<not> has) \<and>
     \<not> (has \<and> sv_ClientAuth e = NoClientCert) \<and>
     \<not> (has \<and> time_After (sv_time e) (pc_NotAfter (certs ! 0))) \<and>
     \<not> (has \<and> sv_ClientAuth e \<ge> VerifyClientCertIfGiven \<and> length vcs = 0))"

definition sessionUsable :: "serverSessionEnv \<Rightarrow> cipherSuiteTLS13 \<Rightarrow> SessionState \<Rightarrow> bool" where
  "sessionUsable e suite s \<longleftrightarrow>
     sn_version s = VersionTLS13 \<and>
     \<not> time_Sub (sv_time e) (time_Unix (sint (sn_createdAt s))) > maxSessionTicketLifetime \<and>
     (case cipherSuiteTLS13ByID (sn_cipherSuite s) of None \<Rightarrow> False | Some pskSuite \<Rightarrow> cs_hash pskSuite = cs_hash suite) \<and>
     certsAcceptable e (sn_peerCertificates s) (sn_verifiedChains s)"

definition acceptPSK :: "tls_hashes \<Rightarrow> nat \<Rightarrow> SessionState \<Rightarrow> serverHS \<Rightarrow> connSession \<Rightarrow> (serverHS \<times> connSession) hs_res" where
  "acceptPSK H i s hs cn =
     (let suite = ss_suite hs; earlySecret = tls_extract H suite (Some (sn_secret s)) None in
      bind_hs (lift_hs None (deriveSecret H suite earlySecret resumptionBinderLabel None)) (\<lambda>binderKey.
      case ch_marshalWithoutBinders (ss_clientHello hs) of (clientHello, r) \<Rightarrow>
      bind_hs (lift_hs (Some alertInternalError) r) (\<lambda>clientHelloBytes.
      bind_hs (lift_hs None (finishedHash H suite binderKey (ss_transcript hs @ clientHelloBytes))) (\<lambda>pskBinder.
      bind_hs (guard_hs (hmac_Equal (ch_pskBinders clientHello ! i) pskBinder) (Some alertDecryptError) ''tls: invalid PSK binder'') (\<lambda>_.
      Next (hs\<lparr>ss_clientHello := clientHello, ss_earlySecret := Some earlySecret, ss_usingPSK := True,
               ss_hello := (ss_hello hs)\<lparr>sh_selectedIdentityPresent := True, sh_selectedIdentity := of_nat i\<rparr>\<rparr>,
            cn\<lparr>cn_didResume := True, cn_peerCertificates := sn_peerCertificates s, cn_ocspResponse := sn_ocspResponse s,
               cn_scts := sn_scts s, cn_verifiedChains := sn_verifiedChains s\<rparr>))))))"

fun resumeLoop :: "tls_hashes \<Rightarrow> serverSessionEnv \<Rightarrow> nat \<Rightarrow> pskIdentity list \<Rightarrow> serverHS \<Rightarrow> connSession \<Rightarrow> certCache \<Rightarrow>
    (serverHS \<times> connSession \<times> certCache) hs_res" where
  "resumeLoop H e i [] hs cn cc = Next (hs, cn, cc)"
| "resumeLoop H e i (ident # idents) hs cn cc =
     (if i \<ge> maxClientPSKIdentities then Next (hs, cn, cc)
      else bind_hs (unwrapTicket H e (psk_label ident) cc) (\<lambda>(s, cc).
        case s of
          None \<Rightarrow> resumeLoop H e (Suc i) idents hs cn cc
        | Some s \<Rightarrow>
            if \<not> sessionUsable e (ss_suite hs) s then resumeLoop H e (Suc i) idents hs cn cc
            else bind_hs (acceptPSK H i s hs cn) (\<lambda>(hs, cn). Next (hs, cn, cc))))"

definition checkForResumption :: "tls_hashes \<Rightarrow> tlsConfig \<Rightarrow> serverSessionEnv \<Rightarrow> serverHS \<Rightarrow> connSession \<Rightarrow> certCache \<Rightarrow>
    (serverHS \<times> connSession \<times> certCache) hs_res" where
  "checkForResumption H cfg e hs cn cc =
     (if cfg_SessionTicketsDisabled cfg \<or> cfg_ECHEnabled cfg then Next (hs, cn, cc)
      else if \<not> list_ex (\<lambda>mode. mode = pskModeDHE) (ch_pskModes (ss_clientHello hs)) then Next (hs, cn, cc)
      else if length (ch_pskIdentities (ss_clientHello hs)) \<noteq> length (ch_pskBinders (ss_clientHello hs))
        then Stop (Some alertIllegalParameter) ''tls: invalid or missing PSK binders''
      else resumeLoop H e 0 (ch_pskIdentities (ss_clientHello hs)) hs cn cc)"

section \<open>Both sides keep the same secret\<close>

text \<open>What the key schedule gives depends on the hash of the suite only.\<close>

lemma suite_hash_cong:
  assumes "cs_hash c = cs_hash d"
  shows "tls_extract H c = tls_extract H d" "deriveSecret H c = deriveSecret H d" "finishedHash H c = finishedHash H d"
  by (intro ext; unfold tls_extract_def deriveSecret_def expandLabel_def finishedHash_def assms; rule refl)+

text \<open>The pre-shared key of a ticket, as RFC 8446 section 4.6.1 derives it from the resumption secret.\<close>

lemma resumption_psk:
  assumes "hashes_sized H"
  obtains psk where "expandLabel H suite secret (ascii ''resumption'') [] (Size (cs_hash suite)) = Ok psk" "length psk = Size (cs_hash suite)"
  using expandLabel_short [OF assms, of "Size (cs_hash suite)" "ascii ''resumption''" suite secret] Size_bounds(2) [of "cs_hash suite"] by auto

text \<open>The protocol of the session is not written for a session without early data.\<close>

lemma sn_Bytes_alpn: "\<not> sn_EarlyData s \<Longrightarrow> sn_Bytes (s\<lparr>sn_alpnProtocol := a\<rparr>) = sn_Bytes s"
proof -
  have "addWhen False f = Done" for f by (simp add: addWhen_def fun_eq_iff)
  then show "\<not> sn_EarlyData s \<Longrightarrow> sn_Bytes (s\<lparr>sn_alpnProtocol := a\<rparr>) = sn_Bytes s"
    by (simp add: sn_Bytes_def sn_body_def sessionCertificate_def)
qed

text \<open>The state the server seals, as it comes back.\<close>

definition ticketState :: "int \<Rightarrow> connSession \<Rightarrow> tlsConn \<Rightarrow> bytes \<Rightarrow> SessionState" where
  "ticketState now cn c psk = (sessionState now cn c)\<lparr>sn_secret := psk, sn_alpnProtocol := []\<rparr>"

lemma sealSession_Ok:
  assumes "sv_WrapSession e = None" and "aes_ok (sv_cipher e)" and "length iv = aes_BlockSize" and "sv_ticketKeys e = k # ks" and "key_ok k"
    and "wf_session (sv_parse e) (ticketState (sv_time e) cn c psk)"
  shows "sealSession H e (Ok iv) cn c False psk =
    Next (sealed_ticket (sv_cipher e) (th_mac H) k iv (sn_encode (ticketState (sv_time e) cn c psk)))"
proof -
  let ?s = "(sessionState (sv_time e) cn c)\<lparr>sn_secret := psk, sn_EarlyData := False\<rparr>"
  have "?s\<lparr>sn_alpnProtocol := []\<rparr> = ticketState (sv_time e) cn c psk"
    by (simp add: ticketState_def sessionState_def)
  then have "sn_Bytes ?s = Ok (sn_encode (ticketState (sv_time e) cn c psk))"
    using sn_Bytes_alpn [of ?s "[]"] sn_Bytes_Ok [OF assms(6)] by simp
  with assms(1-5) show ?thesis
    by (simp add: sealSession_def Let_def encryptTicket_Ok)
qed

lemma issueTicket_Ok:
  assumes "hashes_sized H" and "cipherSuiteTLS13ByID (tc_cipherSuite c) = Some suite" and "tc_resumptionSecret c = Some res"
    and psk: "expandLabel H suite res (ascii ''resumption'') [] (Size (cs_hash suite)) = Ok psk"
    and seal: "sealSession H e iv cn c False psk = Next label" and "length label \<le> 65515"
  obtains c' data where "issueTicket H e iv (Ok age) cn c = Next c'" "newData c c' = [data]"
    "deliver data = Next (NewSessionTicket \<lparr>nst_raw = Some data, nst_lifetime = 604800, nst_ageAdd = age, nst_nonce = [], nst_label = label,
       nst_maxEarlyData = 0\<rparr>)"
proof -
  let ?m = "\<lparr>nst_raw = None, nst_lifetime = 604800, nst_ageAdd = age, nst_nonce = [], nst_label = label, nst_maxEarlyData = 0\<rparr>"
  have w: "wf_nst ?m" using assms(6) by (simp add: wf_nst_def)
  let ?d = "frame typeNewSessionTicket (nst_payload ?m)"
  have m: "nst_marshal ?m = (?m\<lparr>nst_raw := Some ?d\<rparr>, Ok ?d)"
    unfolding nst_marshal_def by (rule nst.marshal_frame [OF w]) simp
  have "issueTicket H e iv (Ok age) cn c = Next (send (SentHandshake ?d) c)"
    using assms(2,3) psk seal m by (simp add: issueTicket_def sendSessionTicket_def opt_bytes_def)
  moreover have "newData c (send (SentHandshake ?d) c) = [?d]"
    by (simp add: newData_def send_def handshakeData_def)
  moreover have "deliver ?d = Next (NewSessionTicket (?m\<lparr>nst_raw := Some ?d\<rparr>))"
    by (rule deliver_fresh [of "NewSessionTicket ?m"]) (use w m in simp_all)
  ultimately show thesis using that by simp
qed

text \<open>The client's session after the ticket.\<close>

definition cachedSession :: "int \<Rightarrow> connSession \<Rightarrow> tlsConn \<Rightarrow> bytes \<Rightarrow> u32 \<Rightarrow> SessionState" where
  "cachedSession now cn c psk age = (sessionState now cn c)\<lparr>sn_secret := psk,
     sn_useBy := of_int (unixSec (now + maxSessionTicketLifetime)), sn_ageAdd := age\<rparr>"

lemma handleNewSessionTicket_Ok:
  assumes "\<not> cfg_SessionTicketsDisabled cfg" "cfg_hasClientSessionCache cfg" "\<not> cfg_ECHEnabled cfg"
    and "cn_isClient cn" and "cipherSuiteTLS13ByID (tc_cipherSuite c) = Some suite" and "tc_resumptionSecret c = Some res"
    and psk: "expandLabel H suite res (ascii ''resumption'') [] (Size (cs_hash suite)) = Ok psk"
    and "nst_lifetime m = 604800" "nst_nonce m = []" and "clock_ok (cv_time e)" and "clientSessionCacheKey e \<noteq> []" and "lru_ok cache"
  obtains cache' where "handleNewSessionTicket H cfg e cn c m cache = Next cache'" "lru_ok cache'"
    "fst (lru_Get (clientSessionCacheKey e) cache') =
      (Some \<lparr>cs_ticket = nst_label m, cs_session = cachedSession (cv_time e) cn c psk (nst_ageAdd m)\<rparr>, True)"
proof -
  let ?cs = "\<lparr>cs_ticket = nst_label m, cs_session = cachedSession (cv_time e) cn c psk (nst_ageAdd m)\<rparr>"
  have l: "int64 (604800 * time_Second) = maxSessionTicketLifetime"
    by (simp add: time_Second_def maxSessionTicketLifetime_def int64_id)
  have "time_Add (cv_time e) maxSessionTicketLifetime = cv_time e + maxSessionTicketLifetime"
    using time_Add_seconds [OF assms(10), of 604800] by (simp add: maxSessionTicketLifetime_def)
  then have "handleNewSessionTicket H cfg e cn c m cache =
      lift_hs None (lru_Put (clientSessionCacheKey e) (Some ?cs) cache)"
    using assms by (simp add: handleNewSessionTicket_def l cachedSession_def sessionState_def Let_def)
  moreover obtain cache' where "lru_Put (clientSessionCacheKey e) (Some ?cs) cache = Ok cache'" "lru_ok cache'"
    using lru.put_total [OF assms(12)] by blast
  moreover from this have "fst (lru_Get (clientSessionCacheKey e) cache') = (Some ?cs, True)"
    using lru.lookup_put [OF assms(12)] by blast
  ultimately show thesis using that by simp
qed

section \<open>The hello with the binder\<close>

lemma marshalWithoutBinders_raw:
  assumes "ch_raw m = Some (P @ pref16 (concat (map pref8 (ch_pskBinders m))))"
  shows "ch_marshalWithoutBinders m = (m, Ok P)"
proof -
  have "2 + sum_list (map (\<lambda>binder. 1 + length binder) (ch_pskBinders m)) = length (pref16 (concat (map pref8 (ch_pskBinders m))))"
    by (simp add: length_concat comp_def)
  with assms show ?thesis by (simp add: ch_marshalWithoutBinders_def ch_marshal_def Let_def)
qed

text \<open>The hello that offers the session of \<open>cs\<close>, with the binder \<open>b\<close>.\<close>

definition pskHello :: "clientSessionEnv \<Rightarrow> ClientSessionState \<Rightarrow> clientHelloMsg \<Rightarrow> bytes \<Rightarrow> clientHelloMsg" where
  "pskHello e cs hello b = hello\<lparr>ch_pskIdentities := [\<lparr>psk_label = cs_ticket cs, psk_obfuscatedTicketAge =
       of_int (go_div (time_Sub (cv_time e) (time_Unix (sint (sn_createdAt (cs_session cs))))) 1000000) + sn_ageAdd (cs_session cs)\<rparr>],
     ch_pskBinders := [b]\<rparr>"

lemma updateBinders_cached:
  assumes "fits_hello m" and "ch_pskIdentities m \<noteq> []" and "map length bs = map length (ch_pskBinders m)"
    and "ch_encode m = P @ pref16 (concat (map pref8 (ch_pskBinders m)))"
    and "ch_encode (m\<lparr>ch_pskBinders := bs\<rparr>) = P @ pref16 (concat (map pref8 bs))"
  shows "ch_updateBinders bs (m\<lparr>ch_raw := Some (ch_encode m)\<rparr>) =
    (m\<lparr>ch_pskBinders := bs, ch_raw := Some (ch_encode (m\<lparr>ch_pskBinders := bs\<rparr>))\<rparr>, Ok ())"
proof -
  let ?m1 = "m\<lparr>ch_raw := Some (ch_encode m), ch_pskBinders := bs\<rparr>"
  have f1: "fits_hello (m\<lparr>ch_pskBinders := bs\<rparr>)" by (rule fits_hello_binders [OF assms(1-3)])
  have len: "length (pref16 (concat (map pref8 (ch_pskBinders m)))) = length (pref16 (concat (map pref8 bs)))"
    using map_length_binders [OF assms(3)] by (simp only: length_pref length_concat)
  have guards: "length bs = length (ch_pskBinders m)"
      "\<not> list_ex (\<lambda>i. length (bs ! i) \<noteq> length (ch_pskBinders m ! i)) [0..<length (ch_pskBinders m)]"
    using assms(3) unfolding same_lengths_iff by simp_all
  have "2 + sum_list (map (\<lambda>binder. 1 + length binder) bs) = length (pref16 (concat (map pref8 bs)))"
    by (simp add: length_concat comp_def)
  then have w: "ch_marshalWithoutBinders ?m1 = (?m1, Ok P)"
    using assms(4) len by (simp add: ch_marshalWithoutBinders_def ch_marshal_def)
  have "runBytes (stmts [AddBytes P, AddUint16LengthPrefixed (forEach (\<lambda>binder. AddUint8LengthPrefixed (AddBytes binder)) bs)]) =
      Ok (P @ pref16 (concat (map pref8 bs)))"
    using appends_binders [of bs P] f1 assms(2) by (intro runBytes_appends) (simp add: fits_unfold pskData_def)
  moreover have "?m1\<lparr>ch_raw := Some x\<rparr> = m\<lparr>ch_pskBinders := bs, ch_raw := Some x\<rparr>" for x by (cases m) simp
  ultimately show ?thesis using guards w assms(4,5) len by (simp add: ch_updateBinders_def)
qed

lemma offerPSK_Ok:
  assumes "hashes_sized H" and "ch_raw hello = None" and "fits_hello (pskHello e cs hello (replicate (Size (cs_hash suite)) 0))"
  obtains P b key where
    "deriveSecret H suite (tls_extract H suite (Some (sn_secret (cs_session cs))) None) resumptionBinderLabel None = Ok key"
    "finishedHash H suite key P = Ok b" "length b = Size (cs_hash suite)" "fits_hello (pskHello e cs hello b)"
    "ch_encode (pskHello e cs hello b) = P @ pref16 (concat (map pref8 [b]))"
    "length (ch_encode (pskHello e cs hello b)) = length (ch_encode (pskHello e cs hello (replicate (Size (cs_hash suite)) 0)))"
    "offerPSK H e suite cs hello cache = Ok \<lparr>ld_hello = (pskHello e cs hello b)\<lparr>ch_raw := Some (ch_encode (pskHello e cs hello b))\<rparr>,
       ld_session = Some (cs_session cs), ld_earlySecret = tls_extract H suite (Some (sn_secret (cs_session cs))) None,
       ld_binderKey = key, ld_cache = cache\<rparr>"
proof -
  let ?z = "replicate (Size (cs_hash suite)) (0 :: byte)" and ?es = "tls_extract H suite (Some (sn_secret (cs_session cs))) None"
  let ?m = "pskHello e cs hello ?z"
  have i: "ch_pskIdentities ?m \<noteq> []" "ch_pskBinders ?m = [?z]" "ch_raw ?m = None" using assms(2) by (simp_all add: pskHello_def)
  have sub: "?m\<lparr>ch_pskBinders := [b]\<rparr> = pskHello e cs hello b" for b by (simp add: pskHello_def)
  obtain P where P: "\<And>bs. map length bs = map length (ch_pskBinders ?m) \<Longrightarrow>
      ch_encode (?m\<lparr>ch_pskBinders := bs\<rparr>) = P @ pref16 (concat (map pref8 bs))"
    by (rule ch_encode_binders [OF i(1)]) blast
  have z: "ch_encode ?m = P @ pref16 (concat (map pref8 (ch_pskBinders ?m)))" using P [OF refl] by simp
  obtain key where key: "deriveSecret H suite ?es resumptionBinderLabel None = Ok key"
    by (rule deriveSecret_obtain [OF assms(1), of resumptionBinderLabel]) (simp add: resumptionBinderLabel_def)
  obtain b where b: "finishedHash H suite key P = Ok b" by (rule finishedHash_Ok [OF assms(1)])
  then have l: "length b = Size (cs_hash suite)"
    using assms(1) by (auto simp: finishedHash_def bind_res_eq_Ok hashes_sized_def mac_sized_def)
  have e: "ch_encode (pskHello e cs hello b) = P @ pref16 (concat (map pref8 [b]))"
    using P [of "[b]"] l i(2) sub by simp
  have w: "ch_marshalWithoutBinders ?m = (?m\<lparr>ch_raw := Some (ch_encode ?m)\<rparr>, Ok P)"
    by (rule marshalWithoutBinders_prefix [OF assms(3) _ z]) (simp add: ch_coherent_def i(3))
  have u: "ch_updateBinders [b] (?m\<lparr>ch_raw := Some (ch_encode ?m)\<rparr>) =
      ((pskHello e cs hello b)\<lparr>ch_raw := Some (ch_encode (pskHello e cs hello b))\<rparr>, Ok ())"
    using updateBinders_cached [OF assms(3) i(1), of "[b]" P] z e l i(2) sub by simp
  have "offerPSK H e suite cs hello cache = Ok \<lparr>ld_hello = (pskHello e cs hello b)\<lparr>ch_raw := Some (ch_encode (pskHello e cs hello b))\<rparr>,
       ld_session = Some (cs_session cs), ld_earlySecret = ?es, ld_binderKey = key, ld_cache = cache\<rparr>"
    unfolding offerPSK_def Let_def pskHello_def [symmetric] by (simp add: key w b u)
  moreover have "fits_hello (pskHello e cs hello b)"
    using fits_hello_binders [OF assms(3) i(1), of "[b]"] l i(2) sub by simp
  moreover have "length (ch_encode (pskHello e cs hello b)) = length (ch_encode ?m)" using e z l i(2) by simp
  ultimately show thesis using that key b l e by blast
qed

section \<open>The client finds its session\<close>

lemma sint_unixSec:
  assumes "clock_ok t"
  shows "sint (of_int (unixSec t) :: u64) = unixSec t"
  using unixSec_bounds(2,3) [OF assms] by (simp add: signed_of_int signed_take_bit_int_eq_self_iff)

lemma loadSession_offers:
  assumes "\<not> cfg_SessionTicketsDisabled cfg" "cfg_hasClientSessionCache cfg" "\<not> cfg_ECHEnabled cfg"
    and "ch_supportedVersions hello \<noteq> []" and "VersionTLS13 \<in> set (ch_supportedVersions hello)"
    and "cv_handshakes e = 0" "clientSessionCacheKey e \<noteq> []"
    and "lru_Get (clientSessionCacheKey e) cache = ((Some cs, True), cache')"
    and "sn_version (cs_session cs) = VersionTLS13" and "sn_peerCertificates (cs_session cs) \<noteq> []"
    and "\<not> time_After (cv_time e) (pc_NotAfter (hd (sn_peerCertificates (cs_session cs))))" and "\<not> certUnusable e (cs_session cs)"
    and "\<not> time_After (cv_time e) (time_Unix (sint (sn_useBy (cs_session cs))))"
    and "cipherSuiteTLS13ByID (sn_cipherSuite (cs_session cs)) = Some suite" and "sn_cipherSuite (cs_session cs) \<in> set (ch_cipherSuites hello)"
  shows "loadSession H cfg e hello cache = offerPSK H e suite cs (offerTickets cfg hello) cache'"
proof -
  have "list_ex (\<lambda>i. case cipherSuiteTLS13ByID i of None \<Rightarrow> False | Some offered \<Rightarrow> cs_hash offered = cs_hash suite) (ch_cipherSuites (offerTickets cfg hello))"
    using assms(14,15) by (auto simp: list_ex_iff intro!: bexI [of _ "sn_cipherSuite (cs_session cs)"])
  with assms show ?thesis by (simp add: loadSession_def Let_def hd_conv_nth)
qed

text \<open>Within its lifetime the client does not see its session as expired.\<close>

lemma useBy_valid:
  assumes "clock_ok (t1 + maxSessionTicketLifetime)" and "t2 + time_Second \<le> t1 + maxSessionTicketLifetime"
  shows "\<not> time_After t2 (time_Unix (sint (of_int (unixSec (t1 + maxSessionTicketLifetime)) :: u64)))"
  using time_Unix_unixSec(2) [OF assms(1)] assms(2) by (simp add: sint_unixSec [OF assms(1)] time_After_def)

section \<open>The server accepts it\<close>

lemma createdAt_valid:
  assumes "clock_ok t1" and "clock_ok t2" and "t2 + time_Second \<le> t1 + maxSessionTicketLifetime"
  shows "\<not> time_Sub t2 (time_Unix (sint (of_int (unixSec t1) :: u64))) > maxSessionTicketLifetime"
  using time_Unix_unixSec(2,3) [OF assms(1)] assms(2,3) by (simp add: sint_unixSec [OF assms(1)] time_Sub_eq)

lemma unwrapTicket_sealed:
  assumes "sv_UnwrapSession e = None" and "aes_ok (sv_cipher e)" and "mac_sized (th_mac H)" and "length iv = aes_BlockSize"
    and "\<forall>j \<in> set (sv_ticketKeys e). key_ok j" and "k \<in> set (sv_ticketKeys e)"
    and "\<forall>j \<in> set (sv_ticketKeys e). th_mac H SHA256 (tk_hmacKey j) (ticket_body label) = ticket_tag label \<longrightarrow> j = k"
    and label: "label = sealed_ticket (sv_cipher e) (th_mac H) k iv (sn_encode s)"
    and "wf_session (sv_parse e) s" and "interned (sv_parse e) cc"
  obtains handles cc' where "unwrapTicket H e label cc = Next (Some (s\<lparr>sn_activeCertHandles := handles\<rparr>), cc')" "interned (sv_parse e) cc'"
proof -
  have u: "j = k" if "j \<in> set (sv_ticketKeys e)"
      "th_mac H SHA256 (tk_hmacKey j) (iv @ xorStream (counterMode (sv_cipher e (tk_aesKey k)) iv) (sn_encode s)) =
       th_mac H SHA256 (tk_hmacKey k) (iv @ xorStream (counterMode (sv_cipher e (tk_aesKey k)) iv) (sn_encode s))" for j
    using assms(7) that unfolding label sealed_ticket_parts [OF assms(3)] by blast
  have "decryptTicket (sv_cipher e) (th_mac H) label (sv_ticketKeys e) = Ok (Some (sn_encode s))"
    unfolding label
    by (rule decryptTicket_sealed [OF assms(2,3,4,5)], rule find_unique, rule assms(6), rule refl, rule u)
  moreover obtain handles cc' where "ParseSessionState (sv_parse e) (sn_encode s) cc = (Ok (s\<lparr>sn_activeCertHandles := handles\<rparr>), cc')"
      "interned (sv_parse e) cc'"
    using ParseSessionState_encode [OF assms(9,10)] by blast
  ultimately show thesis using that assms(1) by (simp add: unwrapTicket_def)
qed

lemma acceptPSK_Ok:
  assumes "cs_hash (ss_suite hs) = cs_hash suite" and "ss_transcript hs = []" and "ch_pskBinders (ss_clientHello hs) = [b]"
    and "ch_raw (ss_clientHello hs) = Some (P @ pref16 (concat (map pref8 [b])))"
    and "deriveSecret H suite (tls_extract H suite (Some (sn_secret s)) None) resumptionBinderLabel None = Ok key"
    and "finishedHash H suite key P = Ok b"
  shows "acceptPSK H 0 s hs cn = Next (hs\<lparr>ss_earlySecret := Some (tls_extract H suite (Some (sn_secret s)) None), ss_usingPSK := True,
      ss_hello := (ss_hello hs)\<lparr>sh_selectedIdentityPresent := True, sh_selectedIdentity := 0\<rparr>\<rparr>,
    cn\<lparr>cn_didResume := True, cn_peerCertificates := sn_peerCertificates s, cn_ocspResponse := sn_ocspResponse s,
      cn_scts := sn_scts s, cn_verifiedChains := sn_verifiedChains s\<rparr>)"
proof -
  have w: "ch_marshalWithoutBinders (ss_clientHello hs) = (ss_clientHello hs, Ok P)"
    using marshalWithoutBinders_raw [of "ss_clientHello hs" P] assms(3,4) by simp
  have "hs\<lparr>ss_clientHello := ss_clientHello hs\<rparr> = hs" by simp
  with w assms show ?thesis
    by (simp add: acceptPSK_def suite_hash_cong [OF assms(1)])
qed

section \<open>The two connections\<close>

text \<open>
  A server between two connections: it wraps no sessions itself, keeps its cipher and the key it sealed with, and has not waited longer
  than a ticket lives.
\<close>

definition server_keeps :: "serverSessionEnv \<Rightarrow> serverSessionEnv \<Rightarrow> bool" where
  "server_keeps e1 e2 \<longleftrightarrow> sv_WrapSession e1 = None \<and> sv_UnwrapSession e2 = None \<and> sv_cipher e2 = sv_cipher e1 \<and> sv_parse e2 = sv_parse e1 \<and>
     aes_ok (sv_cipher e1) \<and> sv_ticketKeys e1 \<noteq> [] \<and> hd (sv_ticketKeys e1) \<in> set (sv_ticketKeys e2) \<and>
     list_all key_ok (sv_ticketKeys e1 @ sv_ticketKeys e2) \<and> clock_ok (sv_time e1) \<and> clock_ok (sv_time e2) \<and>
     sv_time e2 + time_Second \<le> sv_time e1 + maxSessionTicketLifetime"

text \<open>The tag of the ticket is that of the sealing key alone.\<close>

definition only_key :: "tls_hashes \<Rightarrow> serverSessionEnv \<Rightarrow> serverSessionEnv \<Rightarrow> bytes \<Rightarrow> bool" where
  "only_key H e1 e2 label \<longleftrightarrow> (\<forall>j \<in> set (sv_ticketKeys e2).
     th_mac H SHA256 (tk_hmacKey j) (ticket_body label) = ticket_tag label \<longrightarrow> j = hd (sv_ticketKeys e1))"

text \<open>
  A client between two connections to the same server: the session has the server's certificates, verified when the client verifies, still
  valid and for the name it asks for, and the ticket has not expired.
\<close>

definition client_keeps :: "tlsConfig \<Rightarrow> clientSessionEnv \<Rightarrow> clientSessionEnv \<Rightarrow> connSession \<Rightarrow> bool" where
  "client_keeps cfg v1 v2 cn \<longleftrightarrow> \<not> cfg_SessionTicketsDisabled cfg \<and> cfg_hasClientSessionCache cfg \<and> \<not> cfg_ECHEnabled cfg \<and>
     clientSessionCacheKey v1 \<noteq> [] \<and> clientSessionCacheKey v2 = clientSessionCacheKey v1 \<and> cv_handshakes v2 = 0 \<and>
     clock_ok (cv_time v1) \<and> clock_ok (cv_time v1 + maxSessionTicketLifetime) \<and>
     cv_time v2 + time_Second \<le> cv_time v1 + maxSessionTicketLifetime \<and>
     cn_isClient cn \<and> cn_vers cn = VersionTLS13 \<and> cn_peerCertificates cn \<noteq> [] \<and>
     \<not> time_After (cv_time v2) (pc_NotAfter (hd (cn_peerCertificates cn))) \<and>
     (cv_InsecureSkipVerify v2 \<or> cn_verifiedChains cn \<noteq> [] \<and> pc_VerifyHostname (hd (cn_peerCertificates cn)) (cv_ServerName v2))"

text \<open>The connection that the two sides have made: one suite and one resumption secret.\<close>

definition shared_session :: "cipherSuiteTLS13 \<Rightarrow> bytes \<Rightarrow> tlsConn \<Rightarrow> tlsConn \<Rightarrow> bool" where
  "shared_session suite res cS cC \<longleftrightarrow> cipherSuiteTLS13ByID (tc_cipherSuite cS) = Some suite \<and> tc_cipherSuite cC = tc_cipherSuite cS \<and>
     tc_resumptionSecret cS = Some res \<and> tc_resumptionSecret cC = Some res"

text \<open>The server's session has an encoding that fits into a ticket, whatever the pre-shared key is.\<close>

definition sealable :: "cipherSuiteTLS13 \<Rightarrow> serverSessionEnv \<Rightarrow> connSession \<Rightarrow> tlsConn \<Rightarrow> bool" where
  "sealable suite e cn c \<longleftrightarrow> cn_vers cn = VersionTLS13 \<and> (\<forall>psk. length psk = Size (cs_hash suite) \<longrightarrow>
     wf_session (sv_parse e) (ticketState (sv_time e) cn c psk) \<and> length (sn_encode (ticketState (sv_time e) cn c psk)) \<le> 65467)"

text \<open>The next hello offers the suite, and has room for the ticket of a session and its binder.\<close>

definition hello_offers :: "tlsConfig \<Rightarrow> clientSessionEnv \<Rightarrow> cipherSuiteTLS13 \<Rightarrow> tlsConn \<Rightarrow> clientHelloMsg \<Rightarrow> bytes \<Rightarrow> bool" where
  "hello_offers cfg v suite c hello ticket \<longleftrightarrow> ch_raw hello = None \<and> ch_supportedVersions hello \<noteq> [] \<and> hd (ch_supportedVersions hello) = VersionTLS13 \<and>
     tc_cipherSuite c \<in> set (ch_cipherSuites hello) \<and>
     (\<forall>cs. cs_ticket cs = ticket \<longrightarrow> (let h = pskHello v cs (offerTickets cfg hello) (replicate (Size (cs_hash suite)) 0) in
        fits_hello h \<and> wf_hello (onWire h) \<and> length (ch_encode h) \<le> 4 + maxHandshake))"

lemma ticket_delivered:
  assumes H: "hashes_sized H" and sh: "shared_session suite res cS cC" and se: "sealable suite e1 cnS cS" and k: "server_keeps e1 e2"
    and iv: "length iv = aes_BlockSize" and c: "client_keeps cfg v1 v2 cnC" and cache: "lru_ok cache"
  obtains psk c' data m cache' where "length psk = Size (cs_hash suite)"
    "nst_label m = sealed_ticket (sv_cipher e1) (th_mac H) (hd (sv_ticketKeys e1)) iv (sn_encode (ticketState (sv_time e1) cnS cS psk))"
    "issueTicket H e1 (Ok iv) (Ok age) cnS cS = Next c'" "newData cS c' = [data]" "deliver data = Next (NewSessionTicket m)"
    "handleNewSessionTicket H cfg v1 cnC cC m cache = Next cache'" "lru_ok cache'"
    "fst (lru_Get (clientSessionCacheKey v1) cache') =
      (Some \<lparr>cs_ticket = nst_label m, cs_session = cachedSession (cv_time v1) cnC cC psk age\<rparr>, True)"
proof -
  obtain psk where psk: "expandLabel H suite res (ascii ''resumption'') [] (Size (cs_hash suite)) = Ok psk" "length psk = Size (cs_hash suite)"
    by (rule resumption_psk [OF H])
  let ?k = "hd (sv_ticketKeys e1)" and ?s = "ticketState (sv_time e1) cnS cS psk"
  let ?label = "sealed_ticket (sv_cipher e1) (th_mac H) ?k iv (sn_encode ?s)"
  have s: "wf_session (sv_parse e1) ?s" "length (sn_encode ?s) \<le> 65467" using se psk(2) by (simp_all add: sealable_def)
  have "sealSession H e1 (Ok iv) cnS cS False psk = Next ?label"
    using k s(1) iv by (intro sealSession_Ok [where ks = "tl (sv_ticketKeys e1)"]) (auto simp: server_keeps_def list_all_iff)
  moreover have "length ?label \<le> 65515"
    using s(2) iv H by (simp add: sealed_ticket_def Let_def aes_BlockSize_def hashes_sized_def mac_sized_def)
  ultimately obtain c' data where t: "issueTicket H e1 (Ok iv) (Ok age) cnS cS = Next c'" "newData cS c' = [data]"
      "deliver data = Next (NewSessionTicket \<lparr>nst_raw = Some data, nst_lifetime = 604800, nst_ageAdd = age, nst_nonce = [], nst_label = ?label,
       nst_maxEarlyData = 0\<rparr>)"
    using sh psk(1) by (elim issueTicket_Ok [OF H, rotated -1]) (auto simp: shared_session_def)
  let ?m = "\<lparr>nst_raw = Some data, nst_lifetime = 604800, nst_ageAdd = age, nst_nonce = [], nst_label = ?label, nst_maxEarlyData = 0\<rparr>"
  have p: "\<not> cfg_SessionTicketsDisabled cfg" "cfg_hasClientSessionCache cfg" "\<not> cfg_ECHEnabled cfg" "cn_isClient cnC"
      "cipherSuiteTLS13ByID (tc_cipherSuite cC) = Some suite" "tc_resumptionSecret cC = Some res" "clock_ok (cv_time v1)" "clientSessionCacheKey v1 \<noteq> []"
    using sh c by (simp_all add: shared_session_def client_keeps_def)
  have n: "nst_lifetime ?m = 604800" "nst_nonce ?m = []" by simp_all
  obtain cache' where h: "handleNewSessionTicket H cfg v1 cnC cC ?m cache = Next cache'" "lru_ok cache'"
      "fst (lru_Get (clientSessionCacheKey v1) cache') =
        (Some \<lparr>cs_ticket = nst_label ?m, cs_session = cachedSession (cv_time v1) cnC cC psk (nst_ageAdd ?m)\<rparr>, True)"
    by (rule handleNewSessionTicket_Ok [OF p(1-6) psk(1) n p(7,8) cache]) (rule that)
  show thesis by (rule that [where m = ?m]) (use psk(2) t h in simp_all)
qed

lemma onWire_binders: "(onWire h)\<lparr>ch_pskBinders := bs\<rparr> = onWire (h\<lparr>ch_pskBinders := bs\<rparr>)"
  by (cases h) (simp add: onWire_def)

lemma pskHello_binders: "(pskHello e cs hello b)\<lparr>ch_pskBinders := [b']\<rparr> = pskHello e cs hello b'"
  by (simp add: pskHello_def)

lemma wf_hello_binders:
  assumes "wf_hello m" and "ch_pskIdentities m \<noteq> []" and "map length bs = map length (ch_pskBinders m)" and "list_all (\<lambda>p. p \<noteq> []) bs"
  shows "wf_hello (m\<lparr>ch_pskBinders := bs\<rparr>)"
proof -
  have "fits_hello (m\<lparr>ch_pskBinders := bs\<rparr>)"
    by (rule fits_hello_binders) (use assms in \<open>auto simp: wf_hello_def\<close>)
  moreover have "bs \<noteq> []" using assms(1-3) by (auto simp: wf_hello_def)
  ultimately show ?thesis using assms(1,2,4) by (simp add: wf_hello_def)
qed

lemma session_offered:
  assumes H: "hashes_sized H" and sh: "shared_session suite res cS cC" and c: "client_keeps cfg v1 v2 cnC"
    and cs: "fst (lru_Get (clientSessionCacheKey v1) cache) = (Some cs, True)" "cs_session cs = cachedSession (cv_time v1) cnC cC psk age"
    and h: "hello_offers cfg v2 suite cC hello (cs_ticket cs)"
  obtains P b key ld where
    "deriveSecret H suite (tls_extract H suite (Some psk) None) resumptionBinderLabel None = Ok key" "finishedHash H suite key P = Ok b"
    "loadSession H cfg v2 hello cache = Ok ld" "ld_session ld = Some (cs_session cs)" "ld_earlySecret ld = tls_extract H suite (Some psk) None"
    "ch_marshal (ld_hello ld) = (ld_hello ld, Ok (P @ pref16 (concat (map pref8 [b]))))"
    "deliver (P @ pref16 (concat (map pref8 [b]))) = Next (ClientHello (onWire (ld_hello ld)))"
    "ch_raw (onWire (ld_hello ld)) = Some (P @ pref16 (concat (map pref8 [b])))" "ch_pskBinders (onWire (ld_hello ld)) = [b]"
    "ch_pskModes (onWire (ld_hello ld)) = [pskModeDHE]" "map psk_label (ch_pskIdentities (onWire (ld_hello ld))) = [cs_ticket cs]"
proof -
  let ?h = "offerTickets cfg hello" and ?z = "replicate (Size (cs_hash suite)) (0 :: byte)"
  obtain cache' where g: "lru_Get (clientSessionCacheKey v2) cache = ((Some cs, True), cache')"
    using cs(1) c by (cases "lru_Get (clientSessionCacheKey v1) cache") (simp add: client_keeps_def)
  have sn: "sn_secret (cs_session cs) = psk" "sn_version (cs_session cs) = VersionTLS13" "sn_peerCertificates (cs_session cs) = cn_peerCertificates cnC"
      "sn_verifiedChains (cs_session cs) = cn_verifiedChains cnC" "sn_cipherSuite (cs_session cs) = tc_cipherSuite cC"
      "sn_useBy (cs_session cs) = of_int (unixSec (cv_time v1 + maxSessionTicketLifetime))"
    using c by (simp_all add: cs(2) cachedSession_def sessionState_def client_keeps_def)
  have f: "ch_raw ?h = None" "fits_hello (pskHello v2 cs ?h ?z)" "wf_hello (onWire (pskHello v2 cs ?h ?z))"
      "length (ch_encode (pskHello v2 cs ?h ?z)) \<le> 4 + maxHandshake"
    using h by (simp_all add: hello_offers_def Let_def)
  have v: "ch_supportedVersions hello \<noteq> []" "ch_supportedVersions hello ! 0 = VersionTLS13" "VersionTLS13 \<in> set (ch_supportedVersions hello)"
    using h by (auto simp: hello_offers_def hd_conv_nth dest: hd_in_set)
  have load: "loadSession H cfg v2 hello cache = offerPSK H v2 suite cs ?h cache'"
    by (rule loadSession_offers [OF _ _ _ v(1,3) _ _ g])
      (use c sh h sn useBy_valid [of "cv_time v1" "cv_time v2"] in
        \<open>auto simp: client_keeps_def shared_session_def hello_offers_def certUnusable_def hd_conv_nth\<close>)
  obtain P b key where o: "deriveSecret H suite (tls_extract H suite (Some psk) None) resumptionBinderLabel None = Ok key"
      "finishedHash H suite key P = Ok b" "length b = Size (cs_hash suite)" "fits_hello (pskHello v2 cs ?h b)"
      "ch_encode (pskHello v2 cs ?h b) = P @ pref16 (concat (map pref8 [b]))"
      "length (ch_encode (pskHello v2 cs ?h b)) = length (ch_encode (pskHello v2 cs ?h ?z))"
      "offerPSK H v2 suite cs ?h cache' = Ok \<lparr>ld_hello = (pskHello v2 cs ?h b)\<lparr>ch_raw := Some (ch_encode (pskHello v2 cs ?h b))\<rparr>,
       ld_session = Some (cs_session cs), ld_earlySecret = tls_extract H suite (Some psk) None, ld_binderKey = key, ld_cache = cache'\<rparr>"
    by (rule offerPSK_Ok [OF H f(1,2), unfolded sn(1)]) (rule that)
  let ?m = "pskHello v2 cs ?h b" and ?d = "P @ pref16 (concat (map pref8 [b]))"
  have raw: "ch_raw ?m = None" using f(1) by (simp add: pskHello_def)
  have m: "ch_marshal ?m = (?m\<lparr>ch_raw := Some ?d\<rparr>, Ok ?d)" using ch_marshal_encode [OF o(4) raw] o(5) by simp
  note w = ch_marshal_onWire [OF raw m]
  have wf: "wf_hello (onWire ?m)"
  proof -
    have "ch_pskIdentities (onWire (pskHello v2 cs ?h ?z)) \<noteq> []" "ch_pskBinders (onWire (pskHello v2 cs ?h ?z)) = [?z]"
      by (simp_all add: pskHello_def onWire_def)
    moreover have "b \<noteq> []" using o(3) Size_bounds(1) [of "cs_hash suite"] by auto
    ultimately show ?thesis
      using wf_hello_binders [OF f(3), of "[b]"] o(3) by (simp add: onWire_binders pskHello_binders)
  qed
  have "length (ch_encode (onWire ?m)) \<le> 4 + maxHandshake"
    using f(4) o(6) wf ch_marshal_encode [of "onWire ?m"] w raw o(5) by (auto simp: wf_hello_def onWire_def)
  then have "deliver ?d = Next (ClientHello (onWire (?m\<lparr>ch_raw := Some ?d\<rparr>)))"
    by (intro deliver_fresh [of "ClientHello (onWire ?m)"]) (use wf raw w in \<open>simp_all add: onWire_def\<close>)
  moreover have "ch_pskModes ?h = [pskModeDHE]" using c v(2) by (simp add: offerTickets_def client_keeps_def pskModeDHE_def)
  moreover have "ch_marshal (?m\<lparr>ch_raw := Some ?d\<rparr>) = (?m\<lparr>ch_raw := Some ?d\<rparr>, Ok ?d)" by (simp add: ch_marshal_def)
  ultimately show thesis
    using o(5) by (intro that [OF o(1,2) trans [OF load o(7)]]) (simp_all add: pskHello_def onWire_def)
qed

lemma session_accepted:
  assumes H: "hashes_sized H" and k: "server_keeps e1 e2" and iv: "length iv = aes_BlockSize"
    and label: "label = sealed_ticket (sv_cipher e1) (th_mac H) (hd (sv_ticketKeys e1)) iv (sn_encode (ticketState (sv_time e1) cnS cS psk))"
    and only: "only_key H e1 e2 label" and w: "wf_session (sv_parse e1) (ticketState (sv_time e1) cnS cS psk)"
    and v: "cn_vers cnS = VersionTLS13" "cipherSuiteTLS13ByID (tc_cipherSuite cS) = Some suite"
    and certs: "certsAcceptable e2 (cn_peerCertificates cnS) (cn_verifiedChains cnS)" and i: "interned (sv_parse e1) cc"
    and cfg: "\<not> cfg_SessionTicketsDisabled cfg" "\<not> cfg_ECHEnabled cfg"
    and hs: "cs_hash (ss_suite hs) = cs_hash suite" "ss_transcript hs = []" "ch_pskModes (ss_clientHello hs) = [pskModeDHE]"
      "map psk_label (ch_pskIdentities (ss_clientHello hs)) = [label]" "ch_pskBinders (ss_clientHello hs) = [b]"
      "ch_raw (ss_clientHello hs) = Some (P @ pref16 (concat (map pref8 [b])))"
    and key: "deriveSecret H suite (tls_extract H suite (Some psk) None) resumptionBinderLabel None = Ok key" "finishedHash H suite key P = Ok b"
  shows "\<exists>hs' cn' cc'. checkForResumption H cfg e2 hs cn cc = Next (hs', cn', cc') \<and> ss_usingPSK hs' \<and>
    ss_earlySecret hs' = Some (tls_extract H suite (Some psk) None) \<and> sh_selectedIdentityPresent (ss_hello hs') \<and>
    sh_selectedIdentity (ss_hello hs') = 0 \<and> cn_didResume cn' \<and> cn_peerCertificates cn' = cn_peerCertificates cnS"
proof -
  let ?s = "ticketState (sv_time e1) cnS cS psk"
  have e: "sv_cipher e2 = sv_cipher e1" "sv_parse e2 = sv_parse e1" using k by (simp_all add: server_keeps_def)
  obtain handles cc' where u: "unwrapTicket H e2 label cc = Next (Some (?s\<lparr>sn_activeCertHandles := handles\<rparr>), cc')"
    by (rule unwrapTicket_sealed [where e = e2 and H = H and k = "hd (sv_ticketKeys e1)" and iv = iv and s = ?s and cc = cc and label = label])
      (use k iv H only w i label in \<open>auto simp: server_keeps_def hashes_sized_def only_key_def list_all_iff\<close>)
  let ?t = "?s\<lparr>sn_activeCertHandles := handles\<rparr>"
  have t: "sn_secret ?t = psk" "sn_peerCertificates ?t = cn_peerCertificates cnS" by (simp_all add: ticketState_def sessionState_def)
  have "sessionUsable e2 (ss_suite hs) ?t"
    using v certs hs(1) createdAt_valid [of "sv_time e1" "sv_time e2"] k
    by (simp add: sessionUsable_def ticketState_def sessionState_def server_keeps_def)
  moreover note acceptPSK_Ok [OF hs(1,2,5,6), where s = ?t and H = H and key = key and cn = cn, unfolded t(1), OF key]
  moreover obtain ident where "ch_pskIdentities (ss_clientHello hs) = [ident]" "psk_label ident = label" using hs(4) by auto
  ultimately show ?thesis
    using cfg hs(3,5) u t(2) by (simp add: checkForResumption_def maxClientPSKIdentities_def)
qed

section \<open>What resumption rests on\<close>

text \<open>The handshake has taken up the session of the identity \<open>i\<close>, whose binder it has checked.\<close>

definition took_up :: "tls_hashes \<Rightarrow> serverSessionEnv \<Rightarrow> serverHS \<Rightarrow> nat \<Rightarrow> SessionState \<Rightarrow> serverHS \<Rightarrow> connSession \<Rightarrow> bool" where
  "took_up H e hs i s hs' cn' \<longleftrightarrow> sessionUsable e (ss_suite hs) s \<and>
     (\<exists>key P. deriveSecret H (ss_suite hs) (tls_extract H (ss_suite hs) (Some (sn_secret s)) None) resumptionBinderLabel None = Ok key \<and>
        snd (ch_marshalWithoutBinders (ss_clientHello hs)) = Ok P \<and>
        finishedHash H (ss_suite hs) key (ss_transcript hs @ P) = Ok (ch_pskBinders (ss_clientHello hs) ! i)) \<and>
     ss_usingPSK hs' \<and> ss_earlySecret hs' = Some (tls_extract H (ss_suite hs) (Some (sn_secret s)) None) \<and>
     sh_selectedIdentity (ss_hello hs') = of_nat i \<and> cn_peerCertificates cn' = sn_peerCertificates s"

lemma fst_marshalWithoutBinders: "ch_pskBinders (fst (ch_marshalWithoutBinders m)) = ch_pskBinders m"
  by (simp add: ch_marshalWithoutBinders_def Let_def case_prod_beta) (subst fst_ch_marshal, simp)

lemma acceptPSK_Next:
  assumes "acceptPSK H i s hs cn = Next (hs', cn')" and "sessionUsable e (ss_suite hs) s"
  shows "took_up H e hs i s hs' cn'"
proof -
  obtain ch r where m: "ch_marshalWithoutBinders (ss_clientHello hs) = (ch, r)" by fastforce
  have "ch_pskBinders ch = ch_pskBinders (ss_clientHello hs)" using fst_marshalWithoutBinders [of "ss_clientHello hs"] m by simp
  with assms m show ?thesis by (auto simp: acceptPSK_def took_up_def bind_hs_eq_Next Let_def)
qed

lemma resumeLoop_Next:
  assumes "resumeLoop H e i idents hs cn cc = Next (hs', cn', cc')" and "\<not> cn_didResume cn" and "cn_didResume cn'"
  shows "\<exists>j < length idents. i + j < maxClientPSKIdentities \<and>
    (\<exists>s cc1 cc2. unwrapTicket H e (psk_label (idents ! j)) cc1 = Next (Some s, cc2) \<and> took_up H e hs (i + j) s hs' cn')"
  using assms
proof (induction H e i idents hs cn cc rule: resumeLoop.induct)
  case (2 H e i ident idents hs cn cc)
  from "2.prems" obtain x cc1 where i: "i < maxClientPSKIdentities" and u: "unwrapTicket H e (psk_label ident) cc = Next (x, cc1)"
    by (auto simp: bind_hs_eq_Next split: if_splits)
  show ?case
  proof (cases "\<exists>s. x = Some s \<and> sessionUsable e (ss_suite hs) s")
    case True
    then obtain s where s: "x = Some s" "sessionUsable e (ss_suite hs) s" by blast
    with "2.prems"(1) i u have "acceptPSK H i s hs cn = Next (hs', cn')" by (auto simp: bind_hs_eq_Next)
    from acceptPSK_Next [OF this s(2)] u s(1) i show ?thesis by (intro exI [of _ 0]) auto
  next
    case False
    then have r: "resumeLoop H e (Suc i) idents hs cn cc1 = Next (hs', cn', cc')"
      using "2.prems"(1) i u by (auto split: option.splits)
    have "\<exists>j < length idents. Suc i + j < maxClientPSKIdentities \<and>
        (\<exists>s cc1 cc2. unwrapTicket H e (psk_label (idents ! j)) cc1 = Next (Some s, cc2) \<and> took_up H e hs (Suc i + j) s hs' cn')"
    proof (cases x)
      case None
      show ?thesis by (rule "2.IH"(1) [OF _ None r "2.prems"(2,3)]) (use i in simp)
    next
      case (Some s)
      show ?thesis by (rule "2.IH"(2) [OF _ Some _ r "2.prems"(2,3)]) (use i False Some in auto)
    qed
    then obtain j where "j < length idents" "Suc i + j < maxClientPSKIdentities"
        "\<exists>s cc1 cc2. unwrapTicket H e (psk_label (idents ! j)) cc1 = Next (Some s, cc2) \<and> took_up H e hs (Suc i + j) s hs' cn'" by blast
    then show ?thesis by (intro exI [of _ "Suc j"]) simp
  qed
qed simp

lemma unwrapTicket_authentic:
  assumes "sv_UnwrapSession e = None" and "aes_ok (sv_cipher e)" and "\<forall>k \<in> set (sv_ticketKeys e). key_ok k"
    and "unwrapTicket H e label cc = Next (Some s, cc')"
  shows "\<exists>k \<in> set (sv_ticketKeys e). \<exists>iv state. label = sealed_ticket (sv_cipher e) (th_mac H) k iv state \<and>
    ParseSessionState (sv_parse e) state cc = (Ok s, cc')"
proof -
  obtain state where d: "decryptTicket (sv_cipher e) (th_mac H) label (sv_ticketKeys e) = Ok (Some state)"
    using assms(1,4) by (auto simp: unwrapTicket_def bind_hs_eq_Next split: option.splits)
  obtain r c where "ParseSessionState (sv_parse e) state cc = (r, c)" by fastforce
  with assms(1,4) d have "ParseSessionState (sv_parse e) state cc = (Ok s, cc')"
    by (cases r) (simp_all add: unwrapTicket_def)
  with decryptTicket_Some [OF assms(2,3) d] show ?thesis by blast
qed

section \<open>A concrete resumption\<close>

definition toy_cert :: peerCert where
  "toy_cert = \<lparr>pc_Raw = [48, 1], pc_NotAfter = 4102444800 * time_Second, pc_VerifyHostname = (\<lambda>name. name = [101, 120])\<rparr>"

definition toy_connSession :: "bool \<Rightarrow> connSession" where
  "toy_connSession isClient = \<lparr>cn_vers = VersionTLS13, cn_isClient = isClient, cn_didResume = False,
     cn_peerCertificates = (if isClient then [toy_cert] else []), cn_activeCertHandles = [], cn_ocspResponse = None, cn_scts = None,
     cn_verifiedChains = (if isClient then [[toy_cert]] else []), cn_extMasterSecret = True\<rparr>"

definition toy_finished :: tlsConn where
  "toy_finished = toy_idle\<lparr>tc_cipherSuite := 0x1301, tc_resumptionSecret := Some [1, 2, 3]\<rparr>"

text \<open>The two sides \<open>n\<close> days after the 14th of November 2023.\<close>

definition toy_serverAt :: "int \<Rightarrow> serverSessionEnv" where
  "toy_serverAt n = \<lparr>sv_time = (1700000000 + n * 86400) * time_Second, sv_parse = toy_parse, sv_cipher = toy_cipher,
     sv_ticketKeys = [toy_ticketKey 1], sv_UnwrapSession = None, sv_WrapSession = None, sv_ClientAuth = NoClientCert\<rparr>"

definition toy_clientAt :: "int \<Rightarrow> clientSessionEnv" where
  "toy_clientAt n = \<lparr>cv_time = (1700000000 + n * 86400) * time_Second, cv_ServerName = [101, 120], cv_RemoteAddr = None,
     cv_InsecureSkipVerify = False, cv_handshakes = 0\<rparr>"

definition toy_ticketsConfig :: tlsConfig where
  "toy_ticketsConfig = toy_tlsConfig\<lparr>cfg_SessionTicketsDisabled := False, cfg_hasClientSessionCache := True, cfg_ECHEnabled := False\<rparr>"

definition toy_next_hello :: clientHelloMsg where
  "toy_next_hello = sample_hello\<lparr>ch_pskModes := [], ch_pskIdentities := [], ch_pskBinders := []\<rparr>"

abbreviation toy_aes128 :: cipherSuiteTLS13 where "toy_aes128 \<equiv> \<lparr>cs_id = 0x1301, cs_keyLen = 16, cs_hash = SHA256\<rparr>"

lemma toy_sealed:
  assumes "length psk = 32"
  shows "wf_session toy_parse (ticketState t (toy_connSession False) toy_finished psk)"
    and "length (sn_encode (ticketState t (toy_connSession False) toy_finished psk)) = 57"
proof -
  have "psk \<noteq> []" using assms by auto
  with assms show "wf_session toy_parse (ticketState t (toy_connSession False) toy_finished psk)"
    and "length (sn_encode (ticketState t (toy_connSession False) toy_finished psk)) = 57"
    by (simp_all add: wf_session_def ticketState_def sessionState_def toy_connSession_def toy_finished_def sessionCertificate_def
        certificatesToBytesSlice_def wf_ce_def ce_encode_def ce_extensions_def optExt_def encExts_def length_encExt encChain_def
        opt_bytes_def sn_encode_def toy_idle_def)
qed

lemma toy_offers:
  assumes "length ticket = 105"
  shows "hello_offers toy_ticketsConfig (toy_clientAt n) toy_aes128 toy_finished toy_next_hello ticket"
proof -
  have "ticket \<noteq> []" using assms by auto
  with assms show ?thesis
    by (simp add: hello_offers_def toy_next_hello_def sample_hello_def emptyHello_def toy_finished_def offerTickets_def toy_ticketsConfig_def
        toy_tlsConfig_def Let_def VersionTLS13_def)
      (simp add: pskHello_def onWire_def wf_hello_def fits_unfold optExt_def encExt_def encName_def encKeyShare_def encIdentity_def pskData_def
        scsvRenegotiation_def ch_encode_def ch_extensions_def ch_frontExtensions_def maxHandshake_def encExts_def)
qed

lemma toy_server_keeps: "server_keeps (toy_serverAt 0) (toy_serverAt 1)"
  by (simp add: server_keeps_def toy_serverAt_def toy_aes_ok clock_ok_def time_Second_def maxSessionTicketLifetime_def key_ok_def toy_ticketKey_def)

lemma toy_client_keeps: "client_keeps toy_ticketsConfig (toy_clientAt 0) (toy_clientAt 1) (toy_connSession True)"
  by (simp add: client_keeps_def toy_clientAt_def toy_ticketsConfig_def toy_tlsConfig_def clientSessionCacheKey_def clock_ok_def time_Second_def
      maxSessionTicketLifetime_def toy_connSession_def toy_cert_def time_After_def)

lemma toy_shared: "shared_session toy_aes128 [1, 2, 3] toy_finished toy_finished"
  by (simp add: shared_session_def toy_finished_def toy_idle_def cipherSuiteTLS13ByID_def cipherSuitesTLS13_def)

lemma toy_sealable: "sealable toy_aes128 (toy_serverAt 0) (toy_connSession False) toy_finished"
  using toy_sealed by (simp add: sealable_def toy_serverAt_def) (simp add: toy_connSession_def)

lemma toy_certs: "certsAcceptable (toy_serverAt 1) (cn_peerCertificates (toy_connSession False)) (cn_verifiedChains (toy_connSession False))"
  by (simp add: certsAcceptable_def toy_serverAt_def toy_connSession_def requiresClientCert_def)

lemma toy_only_key: "only_key H (toy_serverAt 0) (toy_serverAt 1) label"
  by (simp add: only_key_def toy_serverAt_def)

lemma toy_iv: "length (replicate 16 5 :: bytes) = aes_BlockSize"
  by (simp add: aes_BlockSize_def)

lemma toy_resumable_config: "\<not> cfg_SessionTicketsDisabled toy_ticketsConfig" "\<not> cfg_ECHEnabled toy_ticketsConfig"
  by (simp_all add: toy_ticketsConfig_def)

section \<open>Properties\<close>

text \<open>
  C4: Resumption works. After a connection with one resumption secret on both sides, the server's ticket reaches the client, which
  keeps it; the client's next hello offers it with a binder and arrives at the server; and a server that still has the key of the
  ticket, that chooses a suite with the same hash and for which the certificates in the session are acceptable, takes the session
  up: it selects the first identity, restores the client's certificates and starts its key schedule from the same early secret as
  the client. No step fails or panics while the ticket is alive.
\<close>

theorem resumption_completes:
  assumes "hashes_sized H" and "shared_session suite res cS cC" and "sealable suite e1 cnS cS" and "server_keeps e1 e2"
    and "length iv = aes_BlockSize" and "client_keeps cfgC v1 v2 cnC" and "lru_ok cache"
    and "\<forall>psk ticket. length psk = Size (cs_hash suite) \<and> length ticket = 48 + length (sn_encode (ticketState (sv_time e1) cnS cS psk)) \<longrightarrow>
      hello_offers cfgC v2 suite cC hello ticket"
    and "certsAcceptable e2 (cn_peerCertificates cnS) (cn_verifiedChains cnS)"
    and "\<not> cfg_SessionTicketsDisabled cfgS" "\<not> cfg_ECHEnabled cfgS"
  shows "\<exists>c' data1 m cache' ld data2 ch. issueTicket H e1 (Ok iv) (Ok age) cnS cS = Next c' \<and> newData cS c' = [data1] \<and>
    deliver data1 = Next (NewSessionTicket m) \<and> handleNewSessionTicket H cfgC v1 cnC cC m cache = Next cache' \<and>
    loadSession H cfgC v2 hello cache' = Ok ld \<and> ld_session ld \<noteq> None \<and> snd (ch_marshal (ld_hello ld)) = Ok data2 \<and>
    deliver data2 = Next (ClientHello ch) \<and>
    (\<forall>hs cn cc. ss_clientHello hs = ch \<and> ss_transcript hs = [] \<and> cs_hash (ss_suite hs) = cs_hash suite \<and> interned (sv_parse e1) cc \<and>
       only_key H e1 e2 (nst_label m) \<longrightarrow>
      (\<exists>hs' cn' cc'. checkForResumption H cfgS e2 hs cn cc = Next (hs', cn', cc') \<and> ss_usingPSK hs' \<and>
         ss_earlySecret hs' = Some (ld_earlySecret ld) \<and> sh_selectedIdentityPresent (ss_hello hs') \<and> sh_selectedIdentity (ss_hello hs') = 0 \<and>
         cn_didResume cn' \<and> cn_peerCertificates cn' = cn_peerCertificates cnS))"
proof -
  obtain psk c' data1 m cache' where t: "length psk = Size (cs_hash suite)"
      "nst_label m = sealed_ticket (sv_cipher e1) (th_mac H) (hd (sv_ticketKeys e1)) iv (sn_encode (ticketState (sv_time e1) cnS cS psk))"
      "issueTicket H e1 (Ok iv) (Ok age) cnS cS = Next c'" "newData cS c' = [data1]" "deliver data1 = Next (NewSessionTicket m)"
      "handleNewSessionTicket H cfgC v1 cnC cC m cache = Next cache'" "lru_ok cache'"
      "fst (lru_Get (clientSessionCacheKey v1) cache') = (Some \<lparr>cs_ticket = nst_label m, cs_session = cachedSession (cv_time v1) cnC cC psk age\<rparr>, True)"
    by (rule ticket_delivered [OF assms(1-7)]) (rule that)
  let ?cs = "\<lparr>cs_ticket = nst_label m, cs_session = cachedSession (cv_time v1) cnC cC psk age\<rparr>"
  have "length (nst_label m) = 48 + length (sn_encode (ticketState (sv_time e1) cnS cS psk))"
    using assms(1,5) by (simp add: t(2) sealed_ticket_def Let_def aes_BlockSize_def hashes_sized_def mac_sized_def)
  with assms(8) t(1) have ho: "hello_offers cfgC v2 suite cC hello (cs_ticket ?cs)" by simp
  obtain P b key ld where o: "deriveSecret H suite (tls_extract H suite (Some psk) None) resumptionBinderLabel None = Ok key"
      "finishedHash H suite key P = Ok b" "loadSession H cfgC v2 hello cache' = Ok ld" "ld_session ld = Some (cs_session ?cs)"
      "ld_earlySecret ld = tls_extract H suite (Some psk) None"
      "ch_marshal (ld_hello ld) = (ld_hello ld, Ok (P @ pref16 (concat (map pref8 [b]))))"
      "deliver (P @ pref16 (concat (map pref8 [b]))) = Next (ClientHello (onWire (ld_hello ld)))"
      "ch_raw (onWire (ld_hello ld)) = Some (P @ pref16 (concat (map pref8 [b])))" "ch_pskBinders (onWire (ld_hello ld)) = [b]"
      "ch_pskModes (onWire (ld_hello ld)) = [pskModeDHE]" "map psk_label (ch_pskIdentities (onWire (ld_hello ld))) = [cs_ticket ?cs]"
    by (rule session_offered [OF assms(1,2,6) t(8) _ ho]) (simp, rule that)
  have w: "wf_session (sv_parse e1) (ticketState (sv_time e1) cnS cS psk)" "cn_vers cnS = VersionTLS13"
      "cipherSuiteTLS13ByID (tc_cipherSuite cS) = Some suite"
    using assms(2,3) t(1) by (simp_all add: sealable_def shared_session_def)
  have acc: "\<exists>hs' cn' cc'. checkForResumption H cfgS e2 hs cn cc = Next (hs', cn', cc') \<and> ss_usingPSK hs' \<and>
         ss_earlySecret hs' = Some (ld_earlySecret ld) \<and> sh_selectedIdentityPresent (ss_hello hs') \<and> sh_selectedIdentity (ss_hello hs') = 0 \<and>
         cn_didResume cn' \<and> cn_peerCertificates cn' = cn_peerCertificates cnS"
    if hs: "ss_clientHello hs = onWire (ld_hello ld)" "ss_transcript hs = []" "cs_hash (ss_suite hs) = cs_hash suite" "interned (sv_parse e1) cc"
      "only_key H e1 e2 (nst_label m)" for hs cn cc
    unfolding o(5)
    by (rule session_accepted [OF assms(1,4,5) t(2) hs(5) w assms(9) hs(4) assms(10,11) hs(3,2), unfolded hs(1), OF o(10) _ o(9,8,1,2)])
      (use o(11) in simp)
  have "ld_session ld \<noteq> None" "snd (ch_marshal (ld_hello ld)) = Ok (P @ pref16 (concat (map pref8 [b])))" using o(4,6) by simp_all
  with t(3-6) o(3,7) acc show ?thesis by blast
qed

theorem resumption_completes_witness:
  "\<exists>c' data1 m cache' ld data2 ch hs' cn' cc'.
     issueTicket toy_hashes (toy_serverAt 0) (Ok (replicate 16 5)) (Ok 9) (toy_connSession False) toy_finished = Next c' \<and>
     newData toy_finished c' = [data1] \<and> deliver data1 = Next (NewSessionTicket m) \<and>
     handleNewSessionTicket toy_hashes toy_ticketsConfig (toy_clientAt 0) (toy_connSession True) toy_finished m (NewLRUClientSessionCache 1) = Next cache' \<and>
     loadSession toy_hashes toy_ticketsConfig (toy_clientAt 1) toy_next_hello cache' = Ok ld \<and>
     snd (ch_marshal (ld_hello ld)) = Ok data2 \<and> deliver data2 = Next (ClientHello ch) \<and>
     checkForResumption toy_hashes toy_ticketsConfig (toy_serverAt 1) (toy_server\<lparr>ss_clientHello := ch\<rparr>) (toy_connSession False) emptyCache =
       Next (hs', cn', cc') \<and> ss_usingPSK hs' \<and> ss_earlySecret hs' = Some (ld_earlySecret ld) \<and> cn_didResume cn'"
proof -
  have ho: "\<forall>psk ticket. length psk = Size (cs_hash toy_aes128) \<and>
      length ticket = 48 + length (sn_encode (ticketState (sv_time (toy_serverAt 0)) (toy_connSession False) toy_finished psk)) \<longrightarrow>
      hello_offers toy_ticketsConfig (toy_clientAt 1) toy_aes128 toy_finished toy_next_hello ticket"
    using toy_sealed(2) toy_offers by simp
  have hs: "ss_transcript (toy_server\<lparr>ss_clientHello := ch\<rparr>) = []" "cs_hash (ss_suite (toy_server\<lparr>ss_clientHello := ch\<rparr>)) = cs_hash toy_aes128"
      "interned (sv_parse (toy_serverAt 0)) emptyCache" for ch
    by (simp_all add: toy_server_def toy_serverAt_def interned_empty)
  from resumption_completes [OF toy_hashes_sized toy_shared toy_sealable toy_server_keeps toy_iv toy_client_keeps new_ok(1) [of 1] ho toy_certs
      toy_resumable_config, where age = 9]
  obtain c' data1 m cache' ld data2 ch where r:
      "issueTicket toy_hashes (toy_serverAt 0) (Ok (replicate 16 5)) (Ok 9) (toy_connSession False) toy_finished = Next c'"
      "newData toy_finished c' = [data1]" "deliver data1 = Next (NewSessionTicket m)"
      "handleNewSessionTicket toy_hashes toy_ticketsConfig (toy_clientAt 0) (toy_connSession True) toy_finished m (NewLRUClientSessionCache 1) = Next cache'"
      "loadSession toy_hashes toy_ticketsConfig (toy_clientAt 1) toy_next_hello cache' = Ok ld"
      "snd (ch_marshal (ld_hello ld)) = Ok data2" "deliver data2 = Next (ClientHello ch)"
    and acc: "\<And>hs cn cc. ss_clientHello hs = ch \<and> ss_transcript hs = [] \<and> cs_hash (ss_suite hs) = cs_hash toy_aes128 \<and>
        interned (sv_parse (toy_serverAt 0)) cc \<and> only_key toy_hashes (toy_serverAt 0) (toy_serverAt 1) (nst_label m) \<Longrightarrow>
      \<exists>hs' cn' cc'. checkForResumption toy_hashes toy_ticketsConfig (toy_serverAt 1) hs cn cc = Next (hs', cn', cc') \<and> ss_usingPSK hs' \<and>
         ss_earlySecret hs' = Some (ld_earlySecret ld) \<and> sh_selectedIdentityPresent (ss_hello hs') \<and> sh_selectedIdentity (ss_hello hs') = 0 \<and>
         cn_didResume cn' \<and> cn_peerCertificates cn' = cn_peerCertificates (toy_connSession False)"
    by (elim exE conjE) blast
  from acc [of "toy_server\<lparr>ss_clientHello := ch\<rparr>" emptyCache "toy_connSession False"] hs toy_only_key r show ?thesis
    by simp blast
qed

text \<open>
  C5: A server resumes only a session that it sealed itself and that the client knows the secret of: when a connection is resumed, one of
  the first five identities of the hello is a ticket sealed with one of the server's keys, the session in it is usable for this handshake,
  and the binder at the same place of the hello is the MAC of the transcript under the key of that session. The early secret of the
  handshake and the certificates of the client are those of that session.
\<close>

theorem resumption_authentic:
  assumes "checkForResumption H cfg e hs cn cc = Next (hs', cn', cc')" and "\<not> cn_didResume cn" and "cn_didResume cn'"
    and "sv_UnwrapSession e = None" and "aes_ok (sv_cipher e)" and "\<forall>k \<in> set (sv_ticketKeys e). key_ok k"
  shows "\<exists>i < length (ch_pskIdentities (ss_clientHello hs)). \<exists>s. i < 5 \<and> took_up H e hs i s hs' cn' \<and>
    (\<exists>k \<in> set (sv_ticketKeys e). \<exists>iv state cc1 cc2.
       psk_label (ch_pskIdentities (ss_clientHello hs) ! i) = sealed_ticket (sv_cipher e) (th_mac H) k iv state \<and>
       ParseSessionState (sv_parse e) state cc1 = (Ok s, cc2))"
proof -
  have "resumeLoop H e 0 (ch_pskIdentities (ss_clientHello hs)) hs cn cc = Next (hs', cn', cc')"
    using assms(1-3) by (auto simp: checkForResumption_def split: if_splits)
  from resumeLoop_Next [OF this assms(2,3)] obtain i s cc1 cc2 where i: "i < length (ch_pskIdentities (ss_clientHello hs))" "i < 5"
      "unwrapTicket H e (psk_label (ch_pskIdentities (ss_clientHello hs) ! i)) cc1 = Next (Some s, cc2)" "took_up H e hs i s hs' cn'"
    by (auto simp: maxClientPSKIdentities_def)
  from unwrapTicket_authentic [OF assms(4-6) i(3)] i(1,2,4) show ?thesis by blast
qed

theorem resumption_authentic_witness:
  "\<exists>hs hs' cn' cc'. checkForResumption toy_hashes toy_ticketsConfig (toy_serverAt 1) hs (toy_connSession False) emptyCache = Next (hs', cn', cc') \<and>
     (\<exists>s. took_up toy_hashes (toy_serverAt 1) hs 0 s hs' cn' \<and> (\<exists>iv state cc1 cc2.
       psk_label (ch_pskIdentities (ss_clientHello hs) ! 0) = sealed_ticket toy_cipher (th_mac toy_hashes) (toy_ticketKey 1) iv state \<and>
       ParseSessionState toy_parse state cc1 = (Ok s, cc2)))"
proof -
  let ?psk = "replicate 32 (3 :: byte)" and ?e1 = "toy_serverAt 0" and ?e2 = "toy_serverAt 1" and ?cn = "toy_connSession False"
  let ?label = "sealed_ticket (sv_cipher ?e1) (th_mac toy_hashes) (hd (sv_ticketKeys ?e1)) (replicate 16 5)
    (sn_encode (ticketState (sv_time ?e1) ?cn toy_finished ?psk))"
  obtain key where key: "deriveSecret toy_hashes toy_aes128 (tls_extract toy_hashes toy_aes128 (Some ?psk) None) resumptionBinderLabel None = Ok key"
    by (rule deriveSecret_obtain [OF toy_hashes_sized, of resumptionBinderLabel]) (simp add: resumptionBinderLabel_def)
  obtain b where b: "finishedHash toy_hashes toy_aes128 key [1] = Ok b" by (rule finishedHash_Ok [OF toy_hashes_sized])
  let ?hs = "toy_server\<lparr>ss_clientHello := emptyHello\<lparr>ch_pskModes := [pskModeDHE], ch_pskIdentities := [\<lparr>psk_label = ?label, psk_obfuscatedTicketAge = 0\<rparr>],
    ch_pskBinders := [b], ch_raw := Some ([1] @ pref16 (concat (map pref8 [b])))\<rparr>\<rparr>"
  have w: "wf_session (sv_parse ?e1) (ticketState (sv_time ?e1) ?cn toy_finished ?psk)"
    using toy_sealed(1) [of ?psk] by (simp add: toy_serverAt_def)
  have v: "cn_vers ?cn = VersionTLS13" "cipherSuiteTLS13ByID (tc_cipherSuite toy_finished) = Some toy_aes128" "interned (sv_parse ?e1) emptyCache"
    using toy_shared by (simp_all add: toy_connSession_def shared_session_def toy_serverAt_def interned_empty)
  obtain hs hs' cn' cc' where r: "checkForResumption toy_hashes toy_ticketsConfig ?e2 hs ?cn emptyCache = Next (hs', cn', cc')" "cn_didResume cn'"
      "length (ch_pskIdentities (ss_clientHello hs)) = 1"
    using that [of ?hs] session_accepted [OF toy_hashes_sized toy_server_keeps toy_iv refl toy_only_key w v(1,2) toy_certs v(3) toy_resumable_config _ _ _ _ _ _ key b,
        of ?hs ?cn] by (auto simp: toy_server_def)
  have p: "\<not> cn_didResume ?cn" "sv_UnwrapSession ?e2 = None" "aes_ok (sv_cipher ?e2)" "\<forall>k \<in> set (sv_ticketKeys ?e2). key_ok k"
    by (simp_all add: toy_connSession_def toy_serverAt_def toy_aes_ok key_ok_def toy_ticketKey_def)
  have e: "sv_cipher ?e2 = toy_cipher" "set (sv_ticketKeys ?e2) = {toy_ticketKey 1}" "sv_parse ?e2 = toy_parse" by (simp_all add: toy_serverAt_def)
  from resumption_authentic [OF r(1) p(1) r(2) p(2-4)] have "\<exists>s. took_up toy_hashes ?e2 hs 0 s hs' cn' \<and> (\<exists>iv state cc1 cc2.
      psk_label (ch_pskIdentities (ss_clientHello hs) ! 0) = sealed_ticket toy_cipher (th_mac toy_hashes) (toy_ticketKey 1) iv state \<and>
      ParseSessionState toy_parse state cc1 = (Ok s, cc2))"
    unfolding r(3) e by auto
  with r(1) show ?thesis by blast
qed

text \<open>
  The server keeps the application protocol in every session although its encoding has it only with early data: two connections that
  differ in nothing but the protocol get the same ticket.
\<close>

theorem ticket_forgets_protocol:
  "sealSession H e iv cn (c\<lparr>tc_clientProtocol := a\<rparr>) False psk = sealSession H e iv cn (c\<lparr>tc_clientProtocol := b\<rparr>) False psk"
  if "sv_WrapSession e = None"
proof -
  have "sn_Bytes ((sessionState now cn (c\<lparr>tc_clientProtocol := x\<rparr>))\<lparr>sn_secret := psk, sn_EarlyData := False\<rparr>) =
      sn_Bytes ((sessionState now cn c)\<lparr>sn_secret := psk, sn_EarlyData := False\<rparr>)" for now x
    using sn_Bytes_alpn [of "(sessionState now cn c)\<lparr>sn_secret := psk, sn_EarlyData := False\<rparr>" x] by (simp add: sessionState_def)
  with that show ?thesis by (simp add: sealSession_def)
qed

end
